(* ===== verification/Kernel_Prelude.thy ===== *)
theory Kernel_Prelude
  imports Main "HOL-Library.Word" "HOL-Library.Monad_Syntax" "HOL-Library.Signed_Division"
begin

text \<open>
  Shared vocabulary of the development: the machine types of the C sources, checked array
  access, the fold over an array that stops at the first fault, and the generic lemmas on
  lists, options and words the components use.

  Every operation of the kernel that can fault or fail to return has a result of type
  \<open>'a option\<close>: \<open>None\<close> stands for a C execution with no defined result (a null pointer
  dereferenced, an array indexed outside its bounds, a loop that never ends). Error codes the
  code returns itself are ordinary values.
\<close>

unbundle bit_operations_syntax

type_synonym ulong = "64 word"
type_synonym uint32 = "32 word"
type_synonym uint16 = "16 word"
type_synonym byte = "8 word"

named_theorems array_simps \<open>checked array access\<close>
named_theorems frame_simps \<open>what an operation leaves unchanged\<close>

subsection \<open>Checked array access\<close>

definition array_get :: "'a list \<Rightarrow> int \<Rightarrow> 'a option" where
  "array_get xs i = (if 0 \<le> i \<and> i < int (length xs) then Some (xs ! nat i) else None)"

definition array_set :: "'a list \<Rightarrow> int \<Rightarrow> 'a \<Rightarrow> 'a list option" where
  "array_set xs i v = (if 0 \<le> i \<and> i < int (length xs) then Some (xs[nat i := v]) else None)"

lemma array_get_Some [array_simps]:
  "array_get xs i = Some v \<longleftrightarrow> 0 \<le> i \<and> i < int (length xs) \<and> v = xs ! nat i"
  by (auto simp: array_get_def)

lemma array_set_Some [array_simps]:
  "array_set xs i v = Some ys \<longleftrightarrow> 0 \<le> i \<and> i < int (length xs) \<and> ys = xs[nat i := v]"
  by (auto simp: array_set_def)

lemma array_get_in: "0 \<le> i \<Longrightarrow> i < int (length xs) \<Longrightarrow> array_get xs i = Some (xs ! nat i)"
  by (simp add: array_get_def)

lemma array_set_in: "0 \<le> i \<Longrightarrow> i < int (length xs) \<Longrightarrow> array_set xs i v = Some (xs[nat i := v])"
  by (simp add: array_set_def)

lemma array_get_after_set:
  "array_set xs i v = Some ys \<Longrightarrow> array_get ys i = Some v"
  by (auto simp: array_set_def array_get_def split: if_splits)

lemma array_get_after_set_other:
  "array_set xs i v = Some ys \<Longrightarrow> i \<noteq> j \<Longrightarrow> array_get ys j = array_get xs j"
  by (auto simp: array_set_def array_get_def split: if_splits)

subsection \<open>Folding a fallible operation over an array\<close>

fun foldM :: "('a \<Rightarrow> 's \<Rightarrow> 's option) \<Rightarrow> 'a list \<Rightarrow> 's \<Rightarrow> 's option" where
  "foldM f [] s = Some s"
| "foldM f (x # xs) s = do { s' \<leftarrow> f x s; foldM f xs s' }"

lemma foldM_append: "foldM f (xs @ ys) s = do { s' \<leftarrow> foldM f xs s; foldM f ys s' }"
  by (induction xs arbitrary: s) (auto split: Option.bind_splits)

lemma foldM_invariant:
  assumes "foldM f xs s = Some t" and "P s"
    and "\<And>x s s'. x \<in> set xs \<Longrightarrow> P s \<Longrightarrow> f x s = Some s' \<Longrightarrow> P s'"
  shows "P t"
  using assms by (induction xs arbitrary: s) (auto simp: bind_eq_Some_conv)

lemma foldM_total:
  assumes "P s" and "\<And>x s. x \<in> set xs \<Longrightarrow> P s \<Longrightarrow> \<exists>s'. f x s = Some s' \<and> P s'"
  shows "\<exists>t. foldM f xs s = Some t \<and> P t"
  using assms
proof (induction xs arbitrary: s)
  case Nil
  then show ?case by simp
next
  case (Cons x xs)
  from Cons.prems obtain s' where s': "f x s = Some s'" "P s'" by force
  with Cons.IH [OF s'(2)] Cons.prems(2) show ?case by auto
qed

end
