(* ===== verification/Process.thy ===== *)
theory Process
  imports Kernel_Prelude
begin

text \<open>
  The data of \<^verbatim>\<open>libs/scheduler.h\<close>: process control blocks, the messages buffer and memory
  descriptor they embed, the multilevel policies, and the scheduler's global state.

  A pointer to a PCB is a \<open>pcb_ptr\<close>: \<open>None\<close> is NULL, and a PCB is either the static
  object \<^verbatim>\<open>init_process\<close> or lives at the start of a kernel page. PCBs are kept in a typed
  store \<open>pcb_heap\<close>. The C types \<^verbatim>\<open>int\<close> and \<^verbatim>\<open>long\<close> of counters, levels and pids are
  \<open>int\<close>: signed overflow has no defined meaning in C. Unsigned values and bit masks are words
  of their width.
\<close>

subsection \<open>Process control blocks\<close>

datatype pcb_id = init_process | pcb_page ulong

type_synonym pcb_ptr = "pcb_id option"

record cpu_context =
  x19 :: ulong
  x20 :: ulong
  x21 :: ulong
  x22 :: ulong
  x23 :: ulong
  x24 :: ulong
  x25 :: ulong
  x26 :: ulong
  x27 :: ulong
  x28 :: ulong
  fp :: ulong
  sp :: ulong
  pc :: ulong

datatype ResourceType = RESOURCE_TYPE_FILE | RESOURCE_TYPE_FOLDER

record FatResource =
  resource_type :: ResourceType
  resource_pointer :: ulong

record user_page =
  physical_address :: ulong
  virtual_address :: ulong

record mm_struct =
  pgd :: ulong
  n_user_pages :: int
  user_pages :: "user_page list"
  n_kernel_pages :: int
  kernel_pages :: "ulong list"

record Message =
  source_process :: pcb_ptr
  destination_process :: pcb_ptr
  body :: "char list"

record MessagesCircularBuffer =
  mb_head :: int
  mb_tail :: int
  mb_buffer :: "Message list"

text \<open>The values of the \<^verbatim>\<open>state\<close> field; the initial value of \<^verbatim>\<open>init_process\<close> is 0, which
  is none of the named states.\<close>

datatype process_state =
    PROCESS_STATE_0
  | PROCESS_RUNNING
  | PROCESS_ZOMBIE
  | PROCESS_WAITING_UART_INPUT
  | PROCESS_WAITING_TO_RECEIVE_MESSAGE
  | PROCESS_WAITING_TO_SEND_MESSAGE
  | PROCESS_WAITING_ANOTHER_PROCESS
  | PROCESS_STOPPED
  | PROCESS_READY

record PCB =
  cpu_context :: cpu_context
  state :: process_state
  counter :: int
  priority :: int
  est_burst :: int
  burst_ticks :: int
  queue_priority :: int
  tickets :: int
  preempt_disabled :: int
  pid :: int
  flags :: ulong
  files :: "ulong list"
  mm :: mm_struct
  messages_buffer :: MessagesCircularBuffer
  pending_signals :: uint32
  pid_to_wait :: int
  next_ready :: pcb_ptr

type_synonym pcb_heap = "pcb_id \<Rightarrow> PCB"

definition N_PROCESSES :: nat where "N_PROCESSES = 64"
definition MAX_FILES_PER_PROCESS :: nat where "MAX_FILES_PER_PROCESS = 16"
definition MAX_PROCESS_PAGES :: nat where "MAX_PROCESS_PAGES = 16"
definition MAX_MESSAGES_PER_PROCESS :: nat where "MAX_MESSAGES_PER_PROCESS = 4"
definition MAX_MESSAGES_BODY_SIZE :: nat where "MAX_MESSAGES_BODY_SIZE = 256"

definition empty_message :: Message where
  "empty_message = \<lparr>source_process = None, destination_process = None,
     body = replicate MAX_MESSAGES_BODY_SIZE (CHR 0x00)\<rparr>"

definition empty_messages_buffer :: MessagesCircularBuffer where
  "empty_messages_buffer = \<lparr>mb_head = 0, mb_tail = 0,
     mb_buffer = replicate MAX_MESSAGES_PER_PROCESS empty_message\<rparr>"

definition empty_mm :: mm_struct where
  "empty_mm = \<lparr>pgd = 0, n_user_pages = 0,
     user_pages = replicate MAX_PROCESS_PAGES \<lparr>physical_address = 0, virtual_address = 0\<rparr>,
     n_kernel_pages = 0, kernel_pages = replicate MAX_PROCESS_PAGES 0\<rparr>"

definition zero_context :: cpu_context where
  "zero_context = \<lparr>x19 = 0, x20 = 0, x21 = 0, x22 = 0, x23 = 0, x24 = 0, x25 = 0, x26 = 0,
     x27 = 0, x28 = 0, fp = 0, sp = 0, pc = 0\<rparr>"

text \<open>The PCB a freshly zeroed page holds, and the initializer \<^verbatim>\<open>INIT_PROCESS\<close>.\<close>

definition zero_pcb :: PCB where
  "zero_pcb = \<lparr>cpu_context = zero_context, state = PROCESS_STATE_0, counter = 0, priority = 0,
     est_burst = 0, burst_ticks = 0, queue_priority = 0, tickets = 0, preempt_disabled = 0,
     pid = 0, flags = 0, files = replicate MAX_FILES_PER_PROCESS 0, mm = empty_mm,
     messages_buffer = empty_messages_buffer, pending_signals = 0, pid_to_wait = 0,
     next_ready = None\<rparr>"

definition QUEUE_PRIORITY_HIGHEST :: int where "QUEUE_PRIORITY_HIGHEST = 0"

definition INIT_PROCESS :: PCB where
  "INIT_PROCESS = \<lparr>cpu_context = zero_context, state = PROCESS_STATE_0, counter = 1, priority = 1,
     est_burst = 0, burst_ticks = 0, queue_priority = QUEUE_PRIORITY_HIGHEST, tickets = 10,
     preempt_disabled = 0, pid = 0, flags = 0, files = replicate MAX_FILES_PER_PROCESS 0,
     mm = empty_mm, messages_buffer = empty_messages_buffer, pending_signals = 0,
     pid_to_wait = -1, next_ready = None\<rparr>"

subsection \<open>Queues, policies and the scheduler's globals\<close>

record ProcessQueue =
  q_head :: pcb_ptr
  q_tail :: pcb_ptr

definition QUEUE_INIT :: ProcessQueue where
  "QUEUE_INIT = \<lparr>q_head = None, q_tail = None\<rparr>"

definition ML_MAX_LEVELS :: nat where "ML_MAX_LEVELS = 5"
definition MLFQ_BOOST_PERIOD :: int where "MLFQ_BOOST_PERIOD = 300"

record MultilevelPolicy =
  n_levels :: nat
  quantum :: "int list"
  demote_on_expiry :: bool
  boost_period :: int

definition ml_policy_mlq :: MultilevelPolicy where
  "ml_policy_mlq = \<lparr>n_levels = 5, quantum = [10, 12, 14, 16, 20],
     demote_on_expiry = False, boost_period = 0\<rparr>"

definition ml_policy_mlfq :: MultilevelPolicy where
  "ml_policy_mlfq = \<lparr>n_levels = 5, quantum = [5, 8, 10, 15, 20],
     demote_on_expiry = True, boost_period = MLFQ_BOOST_PERIOD\<rparr>"

text \<open>The seven descriptors \<^verbatim>\<open>active_algorithm\<close> can point to. Their entries are the functions
  \<open>alg_enqueue\<close>, \<open>alg_pick_next\<close> and \<open>alg_on_tick\<close> of the scheduler theory and the two
  tables below.\<close>

datatype SchedAlgorithm =
    sched_round_robin
  | sched_fcfs
  | sched_sjf
  | sched_lottery
  | sched_priority_aging
  | sched_mlq
  | sched_mlfq

fun is_preemptive :: "SchedAlgorithm \<Rightarrow> bool" where
  "is_preemptive sched_round_robin = True"
| "is_preemptive sched_fcfs = False"
| "is_preemptive sched_sjf = False"
| "is_preemptive sched_lottery = True"
| "is_preemptive sched_priority_aging = True"
| "is_preemptive sched_mlq = True"
| "is_preemptive sched_mlfq = True"

fun ml_policy :: "SchedAlgorithm \<Rightarrow> MultilevelPolicy option" where
  "ml_policy sched_mlq = Some ml_policy_mlq"
| "ml_policy sched_mlfq = Some ml_policy_mlfq"
| "ml_policy sched_round_robin = None"
| "ml_policy sched_fcfs = None"
| "ml_policy sched_sjf = None"
| "ml_policy sched_lottery = None"
| "ml_policy sched_priority_aging = None"

text \<open>The globals of \<^verbatim>\<open>scheduler.c\<close>, and of the machine: the callee-saved registers, the user
  page table base, and the values that the coming reads of the free-running timer return.\<close>

record sched_state =
  heap :: pcb_heap
  current_process :: pcb_id
  processes :: "pcb_ptr list"
  n_processes :: int
  ready_queue :: ProcessQueue
  ml_queues :: "ProcessQueue list"
  queue_level :: "int list"
  active_algorithm :: SchedAlgorithm
  lottery_rng_state :: ulong
  timer_clo :: "nat \<Rightarrow> uint32"
  ml_ticks_since_boost :: int
  cpu :: cpu_context
  ttbr0_el1 :: ulong

definition init_sched :: "SchedAlgorithm \<Rightarrow> (nat \<Rightarrow> uint32) \<Rightarrow> sched_state" where
  "init_sched alg clo = \<lparr>heap = (\<lambda>p. if p = init_process then INIT_PROCESS else zero_pcb),
     current_process = init_process,
     processes = Some init_process # replicate (N_PROCESSES - 1) None,
     n_processes = 1, ready_queue = QUEUE_INIT,
     ml_queues = replicate ML_MAX_LEVELS QUEUE_INIT,
     queue_level = replicate N_PROCESSES 0, active_algorithm = alg,
     lottery_rng_state = 88172645463325252, timer_clo = clo, ml_ticks_since_boost = 0,
     cpu = zero_context, ttbr0_el1 = 0\<rparr>"

subsection \<open>Writing one field of one PCB\<close>

definition upd_pcb :: "pcb_id \<Rightarrow> (PCB \<Rightarrow> PCB) \<Rightarrow> sched_state \<Rightarrow> sched_state" where
  "upd_pcb p f s = s\<lparr>heap := (heap s)(p := f (heap s p))\<rparr>"

lemma heap_upd_pcb [simp]: "heap (upd_pcb p f s) = (heap s)(p := f (heap s p))"
  by (simp add: upd_pcb_def)

lemma upd_pcb_frame [simp]:
  "current_process (upd_pcb p f s) = current_process s"
  "processes (upd_pcb p f s) = processes s"
  "n_processes (upd_pcb p f s) = n_processes s"
  "ready_queue (upd_pcb p f s) = ready_queue s"
  "ml_queues (upd_pcb p f s) = ml_queues s"
  "queue_level (upd_pcb p f s) = queue_level s"
  "active_algorithm (upd_pcb p f s) = active_algorithm s"
  "lottery_rng_state (upd_pcb p f s) = lottery_rng_state s"
  "timer_clo (upd_pcb p f s) = timer_clo s"
  "ml_ticks_since_boost (upd_pcb p f s) = ml_ticks_since_boost s"
  "cpu (upd_pcb p f s) = cpu s"
  "ttbr0_el1 (upd_pcb p f s) = ttbr0_el1 s"
  by (simp_all add: upd_pcb_def)

definition registered :: "sched_state \<Rightarrow> pcb_id \<Rightarrow> bool" where
  "registered s p \<longleftrightarrow> Some p \<in> set (processes s)"

lemma registered_upd_pcb [simp]: "registered (upd_pcb p f s) = registered s"
  by (simp add: registered_def fun_eq_iff)

end
