(* ===== verification/Process_Queue.thy ===== *)
theory Process_Queue
  imports Process "HOL-Library.Multiset"
begin

text \<open>
  The intrusive ready queues of \<^verbatim>\<open>scheduler.c\<close>: \<^verbatim>\<open>enqueue_process_to\<close>,
  \<^verbatim>\<open>dequeue_process_from\<close>, \<^verbatim>\<open>remove_process_from\<close> and \<^verbatim>\<open>enqueue_sorted_to\<close> as functions
  on a queue header and the store of PCBs, the relation \<open>queue_rep\<close> between a linked queue and
  the list of its members, and the interfaces (locales) of a FIFO queue, of a queue with removal
  from the middle and of a queue sorted by a key, interpreted on these functions.
\<close>

subsection \<open>The operations\<close>

definition enqueue_process_to :: "ProcessQueue \<Rightarrow> pcb_ptr \<Rightarrow> pcb_heap \<Rightarrow> ProcessQueue \<times> pcb_heap" where
  "enqueue_process_to queue process h =
     (case process of
        None \<Rightarrow> (queue, h)
      | Some p \<Rightarrow>
          if p = init_process then (queue, h)
          else
            let h1 = h(p := (h p)\<lparr>next_ready := None\<rparr>);
                h2 = h1(p := (h1 p)\<lparr>state := PROCESS_READY\<rparr>)
            in (case q_tail queue of
                  None \<Rightarrow> (queue\<lparr>q_head := Some p, q_tail := Some p\<rparr>, h2)
                | Some t \<Rightarrow> (queue\<lparr>q_tail := Some p\<rparr>, h2(t := (h2 t)\<lparr>next_ready := Some p\<rparr>))))"

definition dequeue_process_from :: "ProcessQueue \<Rightarrow> pcb_heap \<Rightarrow> pcb_ptr \<times> ProcessQueue \<times> pcb_heap" where
  "dequeue_process_from queue h =
     (case q_head queue of
        None \<Rightarrow> (None, queue, h)
      | Some p \<Rightarrow>
          let queue1 = queue\<lparr>q_head := next_ready (h p)\<rparr>;
              queue2 = (if q_head queue1 = None then queue1\<lparr>q_tail := None\<rparr> else queue1)
          in (Some p, queue2, h(p := (h p)\<lparr>next_ready := None\<rparr>)))"

definition remove_process_from ::
  "ProcessQueue \<Rightarrow> pcb_ptr \<Rightarrow> pcb_id \<Rightarrow> pcb_heap \<Rightarrow> ProcessQueue \<times> pcb_heap" where
  "remove_process_from queue previous process h =
     (let (queue1, h1) =
            (case previous of
               None \<Rightarrow> (queue\<lparr>q_head := next_ready (h process)\<rparr>, h)
             | Some r \<Rightarrow> (queue, h(r := (h r)\<lparr>next_ready := next_ready (h process)\<rparr>)));
          queue2 = (if q_tail queue1 = Some process then queue1\<lparr>q_tail := previous\<rparr> else queue1)
      in (queue2, h1(process := (h1 process)\<lparr>next_ready := None\<rparr>)))"

text \<open>The traversal loop of \<^verbatim>\<open>enqueue_sorted_to\<close>: the node after which to insert.\<close>

partial_function (option) sorted_walk :: "pcb_heap \<Rightarrow> int \<Rightarrow> pcb_id \<Rightarrow> pcb_id option" where
  "sorted_walk h e current =
     (case next_ready (h current) of
        None \<Rightarrow> Some current
      | Some n \<Rightarrow> if e < est_burst (h n) then Some current else sorted_walk h e n)"

definition enqueue_sorted_to ::
  "ProcessQueue \<Rightarrow> pcb_ptr \<Rightarrow> pcb_heap \<Rightarrow> (ProcessQueue \<times> pcb_heap) option" where
  "enqueue_sorted_to queue process h =
     (case process of
        None \<Rightarrow> Some (queue, h)
      | Some p \<Rightarrow>
          if p = init_process then Some (queue, h)
          else
            let h1 = h(p := (h p)\<lparr>next_ready := None\<rparr>);
                h2 = h1(p := (h1 p)\<lparr>state := PROCESS_READY\<rparr>)
            in (case q_head queue of
                  None \<Rightarrow> Some (queue\<lparr>q_head := Some p, q_tail := Some p\<rparr>, h2)
                | Some hd_p \<Rightarrow>
                    if est_burst (h2 p) < est_burst (h2 hd_p)
                    then Some (queue\<lparr>q_head := Some p\<rparr>, h2(p := (h2 p)\<lparr>next_ready := Some hd_p\<rparr>))
                    else do {
                      current \<leftarrow> sorted_walk h2 (est_burst (h2 p)) hd_p;
                      let h3 = h2(p := (h2 p)\<lparr>next_ready := next_ready (h2 current)\<rparr>);
                      let h4 = h3(current := (h3 current)\<lparr>next_ready := Some p\<rparr>);
                      Some (if next_ready (h4 p) = None then queue\<lparr>q_tail := Some p\<rparr> else queue, h4)
                    }))"

subsection \<open>Linked lists and what they do not depend on\<close>

primrec chain :: "pcb_heap \<Rightarrow> pcb_ptr \<Rightarrow> pcb_id list \<Rightarrow> bool" where
  "chain h x [] \<longleftrightarrow> x = None"
| "chain h x (a # as) \<longleftrightarrow> x = Some a \<and> chain h (next_ready (h a)) as"

text \<open>A segment: following \<open>next_ready\<close> from \<open>x\<close> visits \<open>as\<close> and then reaches \<open>y\<close>.\<close>

primrec segment :: "pcb_heap \<Rightarrow> pcb_ptr \<Rightarrow> pcb_id list \<Rightarrow> pcb_ptr \<Rightarrow> bool" where
  "segment h x [] y \<longleftrightarrow> x = y"
| "segment h x (a # as) y \<longleftrightarrow> x = Some a \<and> segment h (next_ready (h a)) as y"

definition payload :: "pcb_heap \<Rightarrow> pcb_heap" where
  "payload h = (\<lambda>p. (h p)\<lparr>next_ready := None\<rparr>)"

definition queue_rep :: "pcb_heap \<Rightarrow> ProcessQueue \<Rightarrow> pcb_id list \<Rightarrow> bool" where
  "queue_rep h q xs \<longleftrightarrow>
     chain h (q_head q) xs \<and> q_tail q = (if xs = [] then None else Some (last xs)) \<and>
     init_process \<notin> set xs"

lemma chain_cong:
  "(\<And>a. a \<in> set as \<Longrightarrow> next_ready (h a) = next_ready (h' a)) \<Longrightarrow> chain h x as = chain h' x as"
  by (induction as arbitrary: x) auto

lemma segment_cong:
  "(\<And>a. a \<in> set as \<Longrightarrow> next_ready (h a) = next_ready (h' a)) \<Longrightarrow> segment h x as y = segment h' x as y"
  by (induction as arbitrary: x) auto

lemma chain_upd [simp]: "p \<notin> set as \<Longrightarrow> chain (h(p := v)) x as = chain h x as"
  by (rule chain_cong) auto

lemma segment_upd [simp]: "p \<notin> set as \<Longrightarrow> segment (h(p := v)) x as y = segment h x as y"
  by (rule segment_cong) auto

lemma chain_append: "chain h x (as @ bs) \<longleftrightarrow> (\<exists>y. segment h x as y \<and> chain h y bs)"
  by (induction as arbitrary: x) auto

lemma segment_append: "segment h x (as @ bs) z \<longleftrightarrow> (\<exists>y. segment h x as y \<and> segment h y bs z)"
  by (induction as arbitrary: x) auto

lemma chain_unique: "chain h x as \<Longrightarrow> chain h x bs \<Longrightarrow> as = bs"
proof (induction as arbitrary: x bs)
  case Nil
  then show ?case by (cases bs) auto
next
  case (Cons a as)
  then show ?case by (cases bs) auto
qed

lemma chain_next_notin: "chain h (next_ready (h a)) as \<Longrightarrow> a \<notin> set as"
proof
  assume ch: "chain h (next_ready (h a)) as" and "a \<in> set as"
  then obtain bs cs where as: "as = bs @ a # cs" by (auto simp: in_set_conv_decomp)
  with ch have "chain h (next_ready (h a)) cs" by (auto simp: chain_append)
  with ch have "as = cs" by (rule chain_unique)
  with as show False by simp
qed

lemma chain_distinct: "chain h x as \<Longrightarrow> distinct as"
  by (induction as arbitrary: x) (auto dest: chain_next_notin)

lemma queue_rep_distinct: "queue_rep h q xs \<Longrightarrow> distinct xs"
  by (auto simp: queue_rep_def dest: chain_distinct)

lemma queue_rep_upd [simp]: "p \<notin> set xs \<Longrightarrow> queue_rep (h(p := v)) q xs = queue_rep h q xs"
  by (simp add: queue_rep_def)

lemma queue_rep_cong:
  "(\<And>a. a \<in> set xs \<Longrightarrow> next_ready (h a) = next_ready (h' a)) \<Longrightarrow> queue_rep h q xs = queue_rep h' q xs"
  using chain_cong [of xs h h'] by (simp add: queue_rep_def)

lemma queue_rep_head: "queue_rep h q xs \<Longrightarrow> q_head q = (case xs of [] \<Rightarrow> None | x # _ \<Rightarrow> Some x)"
  by (cases xs) (auto simp: queue_rep_def)

lemma queue_rep_unique: "queue_rep h q xs \<Longrightarrow> queue_rep h q ys \<Longrightarrow> xs = ys"
  by (auto simp: queue_rep_def intro: chain_unique)

lemma queue_rep_empty: "queue_rep h QUEUE_INIT []"
  by (simp add: queue_rep_def QUEUE_INIT_def)

subsection \<open>Payload: a PCB without its link\<close>

lemma payload_fields [simp]:
  "cpu_context (payload h p) = cpu_context (h p)"
  "state (payload h p) = state (h p)"
  "counter (payload h p) = counter (h p)"
  "priority (payload h p) = priority (h p)"
  "est_burst (payload h p) = est_burst (h p)"
  "burst_ticks (payload h p) = burst_ticks (h p)"
  "queue_priority (payload h p) = queue_priority (h p)"
  "tickets (payload h p) = tickets (h p)"
  "preempt_disabled (payload h p) = preempt_disabled (h p)"
  "pid (payload h p) = pid (h p)"
  "flags (payload h p) = flags (h p)"
  "files (payload h p) = files (h p)"
  "mm (payload h p) = mm (h p)"
  "messages_buffer (payload h p) = messages_buffer (h p)"
  "pending_signals (payload h p) = pending_signals (h p)"
  "pid_to_wait (payload h p) = pid_to_wait (h p)"
  by (simp_all add: payload_def)

lemma payload_link [simp]: "payload (h(p := (h p)\<lparr>next_ready := x\<rparr>)) = payload h"
  by (auto simp: payload_def fun_eq_iff)

lemma payload_set_state [simp]:
  "payload (h(p := (h p)\<lparr>state := v\<rparr>)) = (payload h)(p := (payload h p)\<lparr>state := v\<rparr>)"
  by (auto simp: payload_def fun_eq_iff)

text \<open>Marking a process READY, as both insertion routines do.\<close>

definition mark_ready :: "pcb_id \<Rightarrow> pcb_heap \<Rightarrow> pcb_heap" where
  "mark_ready p h = h(p := (h p)\<lparr>next_ready := None, state := PROCESS_READY\<rparr>)"

lemma payload_mark_ready [simp]:
  "payload (mark_ready p h) = (payload h)(p := (payload h p)\<lparr>state := PROCESS_READY\<rparr>)"
  by (auto simp: payload_def mark_ready_def fun_eq_iff)

lemma mark_ready_chain [simp]: "p \<notin> set xs \<Longrightarrow> chain (mark_ready p h) x xs = chain h x xs"
  by (simp add: mark_ready_def)

lemma mark_ready_apply: "mark_ready p h p = (h p)\<lparr>next_ready := None, state := PROCESS_READY\<rparr>"
  by (simp add: mark_ready_def)

lemma mark_ready_fold: "h(p := (h p)\<lparr>next_ready := None, state := PROCESS_READY\<rparr>) = mark_ready p h"
  by (simp add: mark_ready_def)

lemma mark_ready_other [simp]: "a \<noteq> p \<Longrightarrow> mark_ready p h a = h a"
  by (simp add: mark_ready_def)

subsection \<open>Insertion at the tail and removal at the head\<close>

lemma enqueue_process_to_eq:
  assumes "p \<noteq> init_process"
  shows "enqueue_process_to q (Some p) h =
    (case q_tail q of
       None \<Rightarrow> (q\<lparr>q_head := Some p, q_tail := Some p\<rparr>, mark_ready p h)
     | Some t \<Rightarrow> (q\<lparr>q_tail := Some p\<rparr>,
                  (mark_ready p h)(t := (mark_ready p h t)\<lparr>next_ready := Some p\<rparr>)))"
  using assms by (simp add: enqueue_process_to_def mark_ready_def split: option.split)

lemma enqueue_rep:
  assumes rep: "queue_rep h q xs" and p: "p \<notin> set xs" "p \<noteq> init_process"
    and enq: "enqueue_process_to q (Some p) h = (q', h')"
  shows "queue_rep h' q' (xs @ [p])"
proof (cases xs rule: rev_cases)
  case Nil
  with rep p enq show ?thesis
    by (auto simp: enqueue_process_to_eq queue_rep_def mark_ready_apply)
next
  case (snoc ys t)
  have tail: "q_tail q = Some t" and ch: "chain h (q_head q) (ys @ [t])"
    using rep snoc by (auto simp: queue_rep_def)
  have "t \<notin> set ys" using rep snoc queue_rep_distinct by fastforce
  moreover have "segment h (q_head q) ys (Some t)" using ch by (auto simp: chain_append)
  ultimately show ?thesis
    using rep p enq tail snoc
    by (auto simp: enqueue_process_to_eq queue_rep_def chain_append segment_append mark_ready_def)
qed

lemma enqueue_payload:
  "p \<noteq> init_process \<Longrightarrow> enqueue_process_to q (Some p) h = (q', h') \<Longrightarrow>
   payload h' = (payload h)(p := (payload h p)\<lparr>state := PROCESS_READY\<rparr>)"
  by (auto simp: enqueue_process_to_eq split: option.splits)

lemma enqueue_link:
  assumes "queue_rep h q xs" "p \<noteq> init_process" "enqueue_process_to q (Some p) h = (q', h')"
    and "a \<notin> insert p (set xs)"
  shows "h' a = h a"
proof -
  from assms(1,4) have "q_tail q \<noteq> Some a" by (auto simp: queue_rep_def split: if_splits)
  with assms(2-4) show ?thesis
    by (auto simp: enqueue_process_to_eq mark_ready_def split: option.splits)
qed

lemma dequeue_Nil: "queue_rep h q [] \<Longrightarrow> dequeue_process_from q h = (None, q, h)"
  by (simp add: queue_rep_def dequeue_process_from_def)

lemma dequeue_Cons:
  assumes "queue_rep h q (x # xs)"
  shows "\<exists>q'. dequeue_process_from q h = (Some x, q', h(x := (h x)\<lparr>next_ready := None\<rparr>)) \<and>
              queue_rep (h(x := (h x)\<lparr>next_ready := None\<rparr>)) q' xs"
proof -
  from assms have "x \<notin> set xs" by (auto dest: queue_rep_distinct)
  with assms show ?thesis
    by (cases xs) (auto simp: queue_rep_def dequeue_process_from_def Let_def)
qed

subsection \<open>Removal from the middle\<close>

definition last_opt :: "'a list \<Rightarrow> 'a option" where
  "last_opt xs = (if xs = [] then None else Some (last xs))"

lemma last_opt_simps [simp]: "last_opt [] = None" "last_opt (xs @ [x]) = Some x"
  by (simp_all add: last_opt_def)

lemma remove_rep:
  assumes rep: "queue_rep h q (as @ p # bs)"
    and rm: "remove_process_from q (last_opt as) p h = (q', h')"
  shows "queue_rep h' q' (as @ bs)"
proof (cases as rule: rev_cases)
  case Nil
  have "p \<notin> set bs" using rep Nil queue_rep_distinct by fastforce
  with rep rm Nil show ?thesis
    by (auto simp: remove_process_from_def queue_rep_def split: if_splits)
next
  case (snoc cs r)
  have "distinct (cs @ r # p # bs)" using rep snoc queue_rep_distinct by fastforce
  with rep rm snoc show ?thesis
    by (auto simp: remove_process_from_def queue_rep_def chain_append segment_append
             split: if_splits)
qed

lemma payload_link2 [simp]:
  "payload (h(a := (h a)\<lparr>next_ready := x\<rparr>, p := (h p)\<lparr>next_ready := y\<rparr>)) = payload h"
  by (auto simp: payload_def fun_eq_iff)

lemma remove_payload:
  "remove_process_from q r p h = (q', h') \<Longrightarrow> payload h' = payload h"
  by (cases r) (auto simp: remove_process_from_def Let_def)

lemma remove_link:
  assumes "remove_process_from q (last_opt as) p h = (q', h')" "a \<notin> insert p (set as)"
  shows "h' a = h a"
proof -
  from assms(2) have "last_opt as \<noteq> Some a" by (auto simp: last_opt_def)
  with assms show ?thesis
    by (cases "last_opt as") (auto simp: remove_process_from_def Let_def)
qed

subsection \<open>Sorted insertion\<close>

definition insert_by :: "('a \<Rightarrow> int) \<Rightarrow> 'a \<Rightarrow> 'a list \<Rightarrow> 'a list" where
  "insert_by key p xs = takeWhile (\<lambda>x. key x \<le> key p) xs @ p # dropWhile (\<lambda>x. key x \<le> key p) xs"

lemma sorted_walk_chain:
  assumes "chain h (Some c) (c # xs)"
  shows "sorted_walk h e c = Some (last (c # takeWhile (\<lambda>x. est_burst (h x) \<le> e) xs))"
  using assms
proof (induction xs arbitrary: c)
  case Nil
  then show ?case by (subst sorted_walk.simps) simp
next
  case (Cons x xs)
  then have "next_ready (h c) = Some x" "chain h (Some x) (x # xs)" by auto
  with Cons.IH [of x] show ?case by (subst sorted_walk.simps) auto
qed

lemma insert_after:
  assumes rep: "queue_rep h q (as @ c # bs)" and p: "p \<notin> set (as @ c # bs)" "p \<noteq> init_process"
    and h1: "h1 = h(p := (h p)\<lparr>next_ready := next_ready (h c)\<rparr>)"
    and h2: "h2 = h1(c := (h1 c)\<lparr>next_ready := Some p\<rparr>)"
  shows "queue_rep h2 (if next_ready (h2 p) = None then q\<lparr>q_tail := Some p\<rparr> else q) (as @ c # p # bs)"
proof -
  have d: "distinct (as @ c # bs)" using rep queue_rep_distinct by blast
  have "segment h (q_head q) as (Some c)" "chain h (next_ready (h c)) bs"
    using rep by (auto simp: queue_rep_def chain_append)
  moreover have "next_ready (h c) = None \<longleftrightarrow> bs = []" using calculation by (cases bs) auto
  ultimately show ?thesis
    using rep p d h1 h2 by (auto simp: queue_rep_def chain_append)
qed

lemma enqueue_sorted_rep:
  assumes rep: "queue_rep h q xs" and p: "p \<notin> set xs" "p \<noteq> init_process"
  shows "\<exists>q' h'. enqueue_sorted_to q (Some p) h = Some (q', h') \<and>
           queue_rep h' q' (insert_by (\<lambda>x. est_burst (h x)) p xs) \<and>
           payload h' = (payload h)(p := (payload h p)\<lparr>state := PROCESS_READY\<rparr>) \<and>
           (\<forall>a. a \<notin> insert p (set xs) \<longrightarrow> h' a = h a)"
proof (cases xs)
  case Nil
  with rep p show ?thesis
    by (simp add: enqueue_sorted_to_def mark_ready_fold queue_rep_def insert_by_def mark_ready_apply)
next
  case (Cons c ys)
  let ?h = "mark_ready p h" and ?e = "est_burst (h p)"
  have rep1: "queue_rep ?h q xs" using rep p by (simp add: queue_rep_def)
  have hd: "q_head q = Some c" using rep Cons by (simp add: queue_rep_def)
  have key: "est_burst (?h x) = est_burst (h x)" for x by (simp add: mark_ready_def)
  have eq: "enqueue_sorted_to q (Some p) h =
      (if ?e < est_burst (h c)
       then Some (q\<lparr>q_head := Some p\<rparr>, ?h(p := (?h p)\<lparr>next_ready := Some c\<rparr>))
       else do {
         current \<leftarrow> sorted_walk ?h ?e c;
         let h3 = ?h(p := (?h p)\<lparr>next_ready := next_ready (?h current)\<rparr>);
         let h4 = h3(current := (h3 current)\<lparr>next_ready := Some p\<rparr>);
         Some (if next_ready (h4 p) = None then q\<lparr>q_tail := Some p\<rparr> else q, h4)
       })"
    using p hd by (simp add: enqueue_sorted_to_def mark_ready_def Let_def)
  show ?thesis
  proof (cases "?e < est_burst (h c)")
    case True
    then have "insert_by (\<lambda>x. est_burst (h x)) p xs = p # xs" by (simp add: insert_by_def Cons)
    moreover have "queue_rep (?h(p := (?h p)\<lparr>next_ready := Some c\<rparr>)) (q\<lparr>q_head := Some p\<rparr>) (p # xs)"
      using rep1 p Cons by (auto simp: queue_rep_def)
    ultimately show ?thesis using True p Cons by (simp add: eq)
  next
    case False
    define ts where "ts = takeWhile (\<lambda>x. est_burst (h x) \<le> ?e) xs"
    define bs where "bs = dropWhile (\<lambda>x. est_burst (h x) \<le> ?e) xs"
    have split: "xs = ts @ bs" by (simp add: ts_def bs_def)
    have "ts \<noteq> []" using False Cons by (simp add: ts_def)
    then obtain as cur where ts: "ts = as @ [cur]" by (cases ts rule: rev_cases) auto
    have "sorted_walk ?h ?e c = Some (last (c # takeWhile (\<lambda>x. est_burst (h x) \<le> ?e) ys))"
      using sorted_walk_chain [of ?h c ys ?e] rep1 hd Cons by (simp add: key queue_rep_def)
    moreover have "c # takeWhile (\<lambda>x. est_burst (h x) \<le> ?e) ys = as @ [cur]"
      using ts False Cons by (simp add: ts_def)
    ultimately have walk: "sorted_walk ?h ?e c = Some cur" by simp
    define h3 where "h3 = ?h(p := (?h p)\<lparr>next_ready := next_ready (?h cur)\<rparr>)"
    define h4 where "h4 = h3(cur := (h3 cur)\<lparr>next_ready := Some p\<rparr>)"
    have cur: "cur \<in> set xs" using split ts by simp
    have "queue_rep h4 (if next_ready (h4 p) = None then q\<lparr>q_tail := Some p\<rparr> else q) (as @ cur # p # bs)"
      using rep1 p split ts h3_def h4_def by (intro insert_after [of ?h]) auto
    moreover have "insert_by (\<lambda>x. est_burst (h x)) p xs = as @ cur # p # bs"
      using ts by (simp add: insert_by_def ts_def bs_def)
    moreover have "payload h4 = payload ?h"
      unfolding h4_def h3_def by (auto simp: payload_def fun_eq_iff)
    ultimately show ?thesis
      using False walk p cur by (auto simp: eq h3_def [symmetric] h4_def [symmetric])
         (auto simp: h3_def h4_def mark_ready_def)
  qed
qed


subsection \<open>Insertion by a key keeps a sorted list sorted and equal keys in arrival order\<close>

lemma set_insert_by [simp]: "set (insert_by key p xs) = insert p (set xs)"
proof -
  have "set xs = set (takeWhile (\<lambda>x. key x \<le> key p) xs) \<union> set (dropWhile (\<lambda>x. key x \<le> key p) xs)"
    by (metis set_append takeWhile_dropWhile_id)
  then show ?thesis by (simp add: insert_by_def)
qed

lemma mset_insert_by: "mset (insert_by key p xs) = add_mset p (mset xs)"
proof -
  have "mset xs = mset (takeWhile (\<lambda>x. key x \<le> key p) xs) + mset (dropWhile (\<lambda>x. key x \<le> key p) xs)"
    by (metis mset_append takeWhile_dropWhile_id)
  then show ?thesis by (simp add: insert_by_def)
qed

lemma insert_by_Cons:
  "insert_by key p (x # xs) = (if key x \<le> key p then x # insert_by key p xs else p # x # xs)"
  by (simp add: insert_by_def)

lemma insert_by_Nil [simp]: "insert_by key p [] = [p]"
  by (simp add: insert_by_def)

lemma sorted_insert_by:
  "sorted (map key xs) \<Longrightarrow> sorted (map key (insert_by key p xs))"
  by (induction xs) (auto simp: insert_by_Cons)

lemma insert_by_stable:
  "sorted (map key xs) \<Longrightarrow>
   filter (\<lambda>x. key x = key p) (insert_by key p xs) = filter (\<lambda>x. key x = key p) xs @ [p]"
proof (induction xs)
  case (Cons a xs)
  show ?case
  proof (cases "key a \<le> key p")
    case False
    with Cons.prems have "filter (\<lambda>x. key x = key p) (a # xs) = []"
      by (intro filter_False) force
    with False show ?thesis by (simp add: insert_by_Cons)
  qed (use Cons in \<open>simp add: insert_by_Cons\<close>)
qed simp

subsection \<open>Interfaces\<close>

locale fifo_queue =
  fixes rep :: "'h \<Rightarrow> 'q \<Rightarrow> 'a list \<Rightarrow> bool"
    and admissible :: "'a \<Rightarrow> bool"
    and enq :: "'q \<Rightarrow> 'a \<Rightarrow> 'h \<Rightarrow> 'q \<times> 'h"
    and deq :: "'q \<Rightarrow> 'h \<Rightarrow> 'a option \<times> 'q \<times> 'h"
    and same :: "'a \<Rightarrow> 'h \<Rightarrow> 'h \<Rightarrow> bool"
  assumes rep_enq: "rep h q xs \<Longrightarrow> admissible p \<Longrightarrow> p \<notin> set xs \<Longrightarrow> enq q p h = (q', h') \<Longrightarrow>
        rep h' q' (xs @ [p])"
    and enq_same: "rep h q xs \<Longrightarrow> admissible p \<Longrightarrow> enq q p h = (q', h') \<Longrightarrow>
        a \<notin> insert p (set xs) \<Longrightarrow> same a h h'"
    and deq_Nil: "rep h q [] \<Longrightarrow> deq q h = (None, q, h)"
    and deq_Cons: "rep h q (x # xs) \<Longrightarrow>
        \<exists>q' h'. deq q h = (Some x, q', h') \<and> rep h' q' xs \<and> (\<forall>a. a \<noteq> x \<longrightarrow> same a h h')"
    and rep_same: "rep h q xs \<Longrightarrow> (\<And>a. a \<in> set xs \<Longrightarrow> same a h h') \<Longrightarrow> rep h' q xs"
    and rep_distinct: "rep h q xs \<Longrightarrow> distinct xs"
    and rep_admissible: "rep h q xs \<Longrightarrow> x \<in> set xs \<Longrightarrow> admissible x"
begin

text \<open>A queue is not affected by insertions into and extractions from a disjoint one.\<close>

lemma enq_other:
  assumes "rep h q xs" "rep h r ys" "admissible p" "enq q p h = (q', h')"
    and "insert p (set xs) \<inter> set ys = {}"
  shows "rep h' r ys"
  using assms by (intro rep_same [OF assms(2)]) (auto intro: enq_same)

lemma deq_other:
  assumes "rep h q (x # xs)" "rep h r ys" "deq q h = (p, q', h')" "x \<notin> set ys"
  shows "rep h' r ys"
proof -
  from deq_Cons [OF assms(1)] assms(3) have "\<forall>a. a \<noteq> x \<longrightarrow> same a h h'" by auto
  with assms(4) show ?thesis by (intro rep_same [OF assms(2)]) metis
qed

text \<open>Moving the head of one queue to the tail of another one.\<close>

lemma move_head:
  assumes q: "rep h q (x # xs)" and r: "rep h r ys" and d: "set (x # xs) \<inter> set ys = {}"
    and deq: "deq q h = (p, q', h1)" and enq: "enq r x h1 = (r', h2)"
  shows "p = Some x \<and> rep h2 q' xs \<and> rep h2 r' (ys @ [x])"
proof -
  from deq_Cons [OF q] deq have p: "p = Some x" and q': "rep h1 q' xs" by auto
  have r1: "rep h1 r ys" using deq_other [OF q r deq] d by auto
  have x: "admissible x" "x \<notin> set xs" using rep_admissible [OF q] rep_distinct [OF q] by auto
  have "rep h2 q' xs" using enq_other [OF r1 q' x(1) enq] d x(2) by auto
  moreover have "rep h2 r' (ys @ [x])" using rep_enq [OF r1 x(1) _ enq] d by auto
  ultimately show ?thesis using p by blast
qed

end

locale unlink_queue = fifo_queue +
  fixes unlink :: "'c \<Rightarrow> 'b option \<Rightarrow> 'b \<Rightarrow> 'a \<Rightarrow> 'c \<times> 'a"
  assumes rep_unlink: "rep h q (as @ p # bs) \<Longrightarrow> unlink q (last_opt as) p h = (q', h') \<Longrightarrow>
        rep h' q' (as @ bs)"
    and unlink_same: "unlink q (last_opt as) p h = (q', h') \<Longrightarrow> a \<notin> insert p (set as) \<Longrightarrow> same a h h'"
begin

lemma unlink_other:
  assumes "rep h q (as @ p # bs)" "rep h r ys" "unlink q (last_opt as) p h = (q', h')"
    and "set (as @ p # bs) \<inter> set ys = {}"
  shows "rep h' r ys"
  using assms by (intro rep_same [OF assms(2)]) (auto intro: unlink_same)

text \<open>Unlinking the head, with no predecessor, leaves the list that an extraction leaves.\<close>

lemma unlink_head:
  assumes "rep h q (p # bs)" "unlink q None p h = (q', h')"
  shows "rep h' q' bs"
  using assms rep_unlink [of h q "[]" p bs] by simp

end

locale sorted_queue =
  fixes rep :: "'h \<Rightarrow> 'q \<Rightarrow> 'a list \<Rightarrow> bool"
    and admissible :: "'a \<Rightarrow> bool"
    and ins :: "'q \<Rightarrow> 'a \<Rightarrow> 'h \<Rightarrow> ('q \<times> 'h) option"
    and key :: "'h \<Rightarrow> 'a \<Rightarrow> int"
  assumes rep_ins: "rep h q xs \<Longrightarrow> admissible p \<Longrightarrow> p \<notin> set xs \<Longrightarrow>
        \<exists>q' h'. ins q p h = Some (q', h') \<and> rep h' q' (insert_by (key h) p xs) \<and> key h' = key h"
begin

lemma ins_keeps_sorted:
  assumes "rep h q xs" "admissible p" "p \<notin> set xs" "sorted (map (key h) xs)"
  shows "\<exists>q' h' xs'. ins q p h = Some (q', h') \<and> rep h' q' xs' \<and>
           sorted (map (key h') xs') \<and> mset xs' = add_mset p (mset xs) \<and>
           filter (\<lambda>x. key h x = key h p) xs' = filter (\<lambda>x. key h x = key h p) xs @ [p]"
  using rep_ins [OF assms(1-3)] assms(4)
  by (metis sorted_insert_by mset_insert_by insert_by_stable)

end

subsection \<open>The scheduler's queues implement the interfaces\<close>

abbreviation same_link :: "pcb_id \<Rightarrow> pcb_heap \<Rightarrow> pcb_heap \<Rightarrow> bool" where
  "same_link a h h' \<equiv> next_ready (h a) = next_ready (h' a)"

lemma queue_rep_not_init: "queue_rep h q xs \<Longrightarrow> x \<in> set xs \<Longrightarrow> x \<noteq> init_process"
  by (auto simp: queue_rep_def)

interpretation pq: unlink_queue queue_rep "\<lambda>p. p \<noteq> init_process"
  "\<lambda>q p. enqueue_process_to q (Some p)" dequeue_process_from same_link remove_process_from
proof (unfold_locales, goal_cases)
  case (1 h q xs p q' h')
  then show ?case by (intro enqueue_rep)
next
  case (2 h q xs p q' h' a)
  then show ?case using enqueue_link by metis
next
  case (3 h q)
  then show ?case by (rule dequeue_Nil)
next
  case (4 h q x xs)
  then show ?case using dequeue_Cons by fastforce
next
  case (5 h q xs h')
  then show ?case using queue_rep_cong by blast
next
  case (6 h q xs)
  then show ?case by (rule queue_rep_distinct)
next
  case (7 h q xs x)
  then show ?case by (rule queue_rep_not_init)
next
  case (8 h q as p bs q' h')
  then show ?case by (rule remove_rep)
next
  case (9 q as p h q' h' a)
  then show ?case using remove_link by metis
qed

interpretation sq: sorted_queue queue_rep "\<lambda>p. p \<noteq> init_process"
  "\<lambda>q p. enqueue_sorted_to q (Some p)" "\<lambda>h p. est_burst (h p)"
proof (unfold_locales, goal_cases)
  case (1 h q xs p)
  from enqueue_sorted_rep [OF 1(1,3,2)] obtain q' h' where
    res: "enqueue_sorted_to q (Some p) h = Some (q', h')"
      "queue_rep h' q' (insert_by (\<lambda>x. est_burst (h x)) p xs)"
    and pl: "payload h' = (payload h)(p := (payload h p)\<lparr>state := PROCESS_READY\<rparr>)" by blast
  have "est_burst (h' x) = est_burst (h x)" for x
    using arg_cong [OF fun_cong [OF pl, of x], of est_burst] by (simp split: if_splits)
  with res show ?case by auto
qed

end
