(* ===== verification/Scheduler.thy ===== *)
theory Scheduler
  imports Process_Queue
begin

text \<open>
  The scheduler of \<^verbatim>\<open>libs/scheduler.c\<close>: insertion policies, registration of processes,
  scheduling parameters, signals, the context switch, the selection function of each algorithm,
  the per-tick bookkeeping, the timer tick, and process exit. Names that start with an underscore
  in C lose it here (\<^verbatim>\<open>_schedule_lottery\<close> is \<open>schedule_lottery\<close>); \<^verbatim>\<open>_schedule\<close> is
  \<open>schedule_dispatch\<close>.

  A context switch changes which process executes the code that follows it. Every suspended
  process is suspended inside the \<^verbatim>\<open>switch_to_process\<close> call of a selection function, or has never
  run and starts in \<^verbatim>\<open>schedule_tail\<close>; in both cases its next action is \<^verbatim>\<open>preempt_enable()\<close> on
  itself. The model therefore runs \<^verbatim>\<open>preempt_enable\<close> after the switch on the new current process.
  Interrupt masking is not modelled: each operation below is one uninterrupted step.
\<close>

subsection \<open>Insertion policies\<close>

definition enqueue_fifo :: "pcb_id \<Rightarrow> sched_state \<Rightarrow> sched_state option" where
  "enqueue_fifo process s =
     (let (q, h) = enqueue_process_to (ready_queue s) (Some process) (heap s)
      in Some (s\<lparr>ready_queue := q, heap := h\<rparr>))"

definition enqueue_sjf :: "pcb_id \<Rightarrow> sched_state \<Rightarrow> sched_state option" where
  "enqueue_sjf process s = do {
     (q, h) \<leftarrow> enqueue_sorted_to (ready_queue s) (Some process) (heap s);
     Some (s\<lparr>ready_queue := q, heap := h\<rparr>)
   }"

definition enqueue_multilevel :: "pcb_id \<Rightarrow> sched_state \<Rightarrow> sched_state option" where
  "enqueue_multilevel process s = do {
     level \<leftarrow> array_get (queue_level s) (pid (heap s process));
     queue \<leftarrow> array_get (ml_queues s) level;
     let (q, h) = enqueue_process_to queue (Some process) (heap s);
     qs \<leftarrow> array_set (ml_queues s) level q;
     Some (s\<lparr>ml_queues := qs, heap := h\<rparr>)
   }"

fun alg_enqueue :: "SchedAlgorithm \<Rightarrow> pcb_id \<Rightarrow> sched_state \<Rightarrow> sched_state option" where
  "alg_enqueue sched_round_robin = enqueue_fifo"
| "alg_enqueue sched_fcfs = enqueue_fifo"
| "alg_enqueue sched_sjf = enqueue_sjf"
| "alg_enqueue sched_lottery = enqueue_fifo"
| "alg_enqueue sched_priority_aging = enqueue_fifo"
| "alg_enqueue sched_mlq = enqueue_multilevel"
| "alg_enqueue sched_mlfq = enqueue_multilevel"

definition enqueue_process :: "pcb_ptr \<Rightarrow> sched_state \<Rightarrow> sched_state option" where
  "enqueue_process process s =
     (case process of
        None \<Rightarrow> Some s
      | Some p \<Rightarrow> if p = init_process then Some s else alg_enqueue (active_algorithm s) p s)"

subsection \<open>Registration and scheduling parameters\<close>

definition start_level :: "SchedAlgorithm \<Rightarrow> int \<Rightarrow> int" where
  "start_level alg qp =
     (let l0 = qp;
          l1 = (if l0 < 0 then 0 else l0);
          l2 = (if l1 \<ge> int ML_MAX_LEVELS then int ML_MAX_LEVELS - 1 else l1)
      in (case ml_policy alg of
            None \<Rightarrow> l2
          | Some policy \<Rightarrow> if l2 \<ge> int (n_levels policy) then int (n_levels policy) - 1 else l2))"

definition add_process_to_scheduler :: "pcb_id \<Rightarrow> sched_state \<Rightarrow> (int \<times> sched_state) option" where
  "add_process_to_scheduler process s =
     (if n_processes s \<ge> int N_PROCESSES \<or> pid (heap s process) \<ge> int N_PROCESSES then Some (-1, s)
      else do {
        ps \<leftarrow> array_set (processes s) (pid (heap s process)) (Some process);
        let s1 = s\<lparr>processes := ps\<rparr>;
        levels \<leftarrow> array_set (queue_level s1) (pid (heap s1 process))
                    (start_level (active_algorithm s1) (queue_priority (heap s1 process)));
        let s2 = s1\<lparr>queue_level := levels\<rparr>;
        s3 \<leftarrow> (if state (heap s2 process) = PROCESS_READY
               then enqueue_process (Some process) s2 else Some s2);
        Some (0, s3\<lparr>n_processes := n_processes s3 + 1\<rparr>)
      })"

definition preempt_enable :: "sched_state \<Rightarrow> sched_state" where
  "preempt_enable s =
     upd_pcb (current_process s) (\<lambda>P. P\<lparr>preempt_disabled := preempt_disabled P - 1\<rparr>) s"

definition preempt_disable :: "sched_state \<Rightarrow> sched_state" where
  "preempt_disable s =
     upd_pcb (current_process s) (\<lambda>P. P\<lparr>preempt_disabled := preempt_disabled P + 1\<rparr>) s"

definition SCHED_PARAM_PRIORITY :: int where "SCHED_PARAM_PRIORITY = 0"
definition SCHED_PARAM_TICKETS :: int where "SCHED_PARAM_TICKETS = 1"
definition SCHED_PARAM_QUEUE_PRIORITY :: int where "SCHED_PARAM_QUEUE_PRIORITY = 2"

definition sched_set_param :: "pcb_ptr \<Rightarrow> int \<Rightarrow> int \<Rightarrow> sched_state \<Rightarrow> (int \<times> sched_state) option" where
  "sched_set_param process param v s =
     (case process of
        None \<Rightarrow> Some (-1, s)
      | Some p \<Rightarrow>
          if p = init_process then Some (-1, s)
          else if param = SCHED_PARAM_PRIORITY then
            (if v < 1 then Some (-1, s) else Some (0, upd_pcb p (\<lambda>P. P\<lparr>priority := v\<rparr>) s))
          else if param = SCHED_PARAM_TICKETS then
            (if v < 1 then Some (-1, s) else Some (0, upd_pcb p (\<lambda>P. P\<lparr>tickets := v\<rparr>) s))
          else if param = SCHED_PARAM_QUEUE_PRIORITY then
            (if v < 0 \<or> v \<ge> int ML_MAX_LEVELS then Some (-1, s)
             else
               let v' = (case ml_policy (active_algorithm s) of
                           None \<Rightarrow> v
                         | Some policy \<Rightarrow>
                             if v \<ge> int (n_levels policy) then int (n_levels policy) - 1 else v);
                   s1 = preempt_disable s;
                   s2 = upd_pcb p (\<lambda>P. P\<lparr>queue_priority := v'\<rparr>) s1
               in do {
                 levels \<leftarrow> array_set (queue_level s2) (pid (heap s2 p)) v';
                 Some (0, preempt_enable (s2\<lparr>queue_level := levels\<rparr>))
               })
          else Some (-1, s))"

subsection \<open>Signals and the context switch\<close>

definition SIGNAL_KILL :: nat where "SIGNAL_KILL = 1"
definition SIGNAL_STOP :: nat where "SIGNAL_STOP = 2"
definition SIGNAL_RESUME :: nat where "SIGNAL_RESUME = 3"

definition signal_set :: "nat \<Rightarrow> uint32 \<Rightarrow> bool" where
  "signal_set sig pend \<longleftrightarrow> pend AND push_bit sig 1 \<noteq> 0"

definition clear_signal :: "nat \<Rightarrow> PCB \<Rightarrow> PCB" where
  "clear_signal sig P = P\<lparr>pending_signals := pending_signals P AND NOT (push_bit sig 1)\<rparr>"

definition handle_process_signals :: "pcb_id \<Rightarrow> sched_state \<Rightarrow> sched_state option" where
  "handle_process_signals process s =
     (let pend = pending_signals (heap s process) in
      if pend = 0 then Some s
      else if signal_set SIGNAL_KILL pend then
        Some (upd_pcb process (clear_signal SIGNAL_KILL)
                (upd_pcb process (\<lambda>P. P\<lparr>state := PROCESS_ZOMBIE\<rparr>) s))
      else if signal_set SIGNAL_STOP pend then
        Some (upd_pcb process (clear_signal SIGNAL_STOP)
                (upd_pcb process (\<lambda>P. P\<lparr>state := PROCESS_STOPPED\<rparr>) s))
      else if signal_set SIGNAL_RESUME pend then
        (let s1 = upd_pcb process (clear_signal SIGNAL_RESUME) s in
         if state (heap s1 process) = PROCESS_STOPPED
         then enqueue_process (Some process)
                (upd_pcb process (\<lambda>P. P\<lparr>state := PROCESS_READY\<rparr>) s1)
         else Some s1)
      else Some s)"

definition set_pgd :: "ulong \<Rightarrow> sched_state \<Rightarrow> sched_state" where
  "set_pgd p s = s\<lparr>ttbr0_el1 := p\<rparr>"

definition cpu_switch_to_process :: "pcb_id \<Rightarrow> pcb_id \<Rightarrow> sched_state \<Rightarrow> sched_state" where
  "cpu_switch_to_process prev next s =
     (let s1 = upd_pcb prev (\<lambda>P. P\<lparr>cpu_context := cpu s\<rparr>) s
      in s1\<lparr>cpu := cpu_context (heap s1 next)\<rparr>)"

definition switch_to_process :: "pcb_id \<Rightarrow> sched_state \<Rightarrow> sched_state" where
  "switch_to_process next_process s =
     (let s1 = upd_pcb next_process (\<lambda>P. P\<lparr>state := PROCESS_RUNNING\<rparr>) s in
      if current_process s1 = next_process then s1
      else
        let previous = current_process s1;
            s2 = (if state (heap s1 previous) = PROCESS_RUNNING
                  then upd_pcb previous (\<lambda>P. P\<lparr>state := PROCESS_READY\<rparr>) s1 else s1);
            s3 = s2\<lparr>current_process := next_process\<rparr>;
            s4 = set_pgd (pgd (mm (heap s3 next_process))) s3
        in cpu_switch_to_process previous (current_process s4) s4)"

definition schedule_tail :: "sched_state \<Rightarrow> sched_state" where
  "schedule_tail s = preempt_enable s"

subsection \<open>Round Robin, FCFS and SJF\<close>

definition current_runnable :: "sched_state \<Rightarrow> bool" where
  "current_runnable s \<longleftrightarrow>
     current_process s \<noteq> init_process \<and> state (heap s (current_process s)) = PROCESS_RUNNING"

definition dequeue_ready :: "sched_state \<Rightarrow> pcb_ptr \<times> sched_state" where
  "dequeue_ready s =
     (let (p, q, h) = dequeue_process_from (ready_queue s) (heap s)
      in (p, s\<lparr>ready_queue := q, heap := h\<rparr>))"

text \<open>The loop that extracts processes until one is still READY after its signals are handled.\<close>

partial_function (option) dequeue_ready_loop :: "sched_state \<Rightarrow> (pcb_ptr \<times> sched_state) option" where
  "dequeue_ready_loop s =
     (case dequeue_ready s of
        (None, s1) \<Rightarrow> Some (None, s1)
      | (Some p, s1) \<Rightarrow> do {
          s2 \<leftarrow> handle_process_signals p s1;
          if state (heap s2 p) = PROCESS_READY then Some (Some p, s2) else dequeue_ready_loop s2
        })"

definition or_init :: "pcb_ptr \<Rightarrow> pcb_id" where
  "or_init p = (case p of None \<Rightarrow> init_process | Some x \<Rightarrow> x)"

text \<open>The quantum a freshly selected process gets; the idle process keeps its counter.\<close>

definition recharge :: "pcb_ptr \<Rightarrow> int \<Rightarrow> sched_state \<Rightarrow> sched_state" where
  "recharge p q s = (case p of None \<Rightarrow> s | Some x \<Rightarrow> upd_pcb x (\<lambda>P. P\<lparr>counter := q\<rparr>) s)"

definition schedule_round_robin :: "sched_state \<Rightarrow> sched_state option" where
  "schedule_round_robin s = do {
     let s1 = preempt_disable s;
     s2 \<leftarrow> (if current_runnable s1 then enqueue_fifo (current_process s1) s1 else Some s1);
     (next, s3) \<leftarrow> dequeue_ready_loop s2;
     let s4 = recharge next 10 s3;
     Some (preempt_enable (switch_to_process (or_init next) s4))
   }"

definition schedule_queue_head :: "sched_state \<Rightarrow> sched_state option" where
  "schedule_queue_head s = do {
     let s1 = preempt_disable s;
     s2 \<leftarrow> (if current_runnable s1
            then alg_enqueue (active_algorithm s1) (current_process s1) s1 else Some s1);
     (next, s3) \<leftarrow> dequeue_ready_loop s2;
     Some (preempt_enable (switch_to_process (or_init next) s3))
   }"

subsection \<open>Lottery\<close>

definition read_timer :: "sched_state \<Rightarrow> uint32 \<times> sched_state" where
  "read_timer s = (timer_clo s 0, s\<lparr>timer_clo := (\<lambda>n. timer_clo s (Suc n))\<rparr>)"

definition lottery_seed :: ulong where "lottery_seed = 88172645463325252"

definition xorshift64 :: "ulong \<Rightarrow> ulong" where
  "xorshift64 r =
     (let r1 = r XOR push_bit 13 r;
          r2 = r1 XOR drop_bit 7 r1
      in r2 XOR push_bit 17 r2)"

definition lottery_random :: "sched_state \<Rightarrow> ulong \<times> sched_state" where
  "lottery_random s =
     (let (t, s1) = read_timer s;
          r0 = lottery_rng_state s1 XOR ucast t;
          r1 = (if r0 = 0 then lottery_seed else r0);
          r2 = xorshift64 r1
      in (r2, s1\<lparr>lottery_rng_state := r2\<rparr>))"

definition effective_tickets :: "PCB \<Rightarrow> int" where
  "effective_tickets P = (if tickets P > 0 then tickets P else 1)"

partial_function (option) sum_tickets :: "pcb_heap \<Rightarrow> pcb_ptr \<Rightarrow> int \<Rightarrow> int option" where
  "sum_tickets h p tot =
     (case p of
        None \<Rightarrow> Some tot
      | Some x \<Rightarrow> sum_tickets h (next_ready (h x)) (tot + effective_tickets (h x)))"

partial_function (option) lottery_walk ::
  "pcb_heap \<Rightarrow> int \<Rightarrow> pcb_ptr \<Rightarrow> pcb_ptr \<Rightarrow> int \<Rightarrow> (pcb_ptr \<times> pcb_ptr) option" where
  "lottery_walk h winner previous candidate ticket_counter =
     (case candidate of
        None \<Rightarrow> Some (previous, None)
      | Some c \<Rightarrow>
          let tc = ticket_counter + effective_tickets (h c) in
          if tc > winner then Some (previous, Some c)
          else lottery_walk h winner (Some c) (next_ready (h c)) tc)"

partial_function (option) lottery_draw :: "sched_state \<Rightarrow> (pcb_ptr \<times> sched_state) option" where
  "lottery_draw s = do {
     tot \<leftarrow> sum_tickets (heap s) (q_head (ready_queue s)) 0;
     if tot = 0 then Some (None, s)
     else do {
       let (r, s1) = lottery_random s;
       let winner = sint (r mod (word_of_int tot :: ulong));
       (previous, candidate) \<leftarrow> lottery_walk (heap s1) winner None (q_head (ready_queue s1)) 0;
       c \<leftarrow> candidate;
       let (q, h) = remove_process_from (ready_queue s1) previous c (heap s1);
       s2 \<leftarrow> handle_process_signals c (s1\<lparr>ready_queue := q, heap := h\<rparr>);
       if state (heap s2 c) = PROCESS_READY then Some (Some c, s2) else lottery_draw s2
     }
   }"

definition schedule_lottery :: "sched_state \<Rightarrow> sched_state option" where
  "schedule_lottery s = do {
     let s1 = preempt_disable s;
     s2 \<leftarrow> (if current_runnable s1 then enqueue_fifo (current_process s1) s1 else Some s1);
     (next, s3) \<leftarrow> lottery_draw s2;
     let s4 = recharge next 10 s3;
     Some (preempt_enable (switch_to_process (or_init next) s4))
   }"

subsection \<open>Priority with aging\<close>

text \<open>One pass over the ready queue: handle signals, unlink what is no longer READY, and remember
  the process with the largest counter together with its predecessor.\<close>

partial_function (option) aging_walk ::
  "pcb_ptr \<Rightarrow> pcb_ptr \<Rightarrow> pcb_ptr \<Rightarrow> pcb_ptr \<Rightarrow> int \<Rightarrow> sched_state \<Rightarrow>
   (pcb_ptr \<times> pcb_ptr \<times> sched_state) option" where
  "aging_walk previous node best best_previous max_counter s =
     (case node of
        None \<Rightarrow> Some (best, best_previous, s)
      | Some n \<Rightarrow> do {
          let next_node = next_ready (heap s n);
          s1 \<leftarrow> handle_process_signals n s;
          if state (heap s1 n) \<noteq> PROCESS_READY then
            (let (q, h) = remove_process_from (ready_queue s1) previous n (heap s1)
             in aging_walk previous next_node best best_previous max_counter
                  (s1\<lparr>ready_queue := q, heap := h\<rparr>))
          else if counter (heap s1 n) > max_counter then
            aging_walk (Some n) next_node (Some n) previous (counter (heap s1 n)) s1
          else aging_walk (Some n) next_node best best_previous max_counter s1
        })"

definition aging_recharge :: "PCB \<Rightarrow> PCB" where
  "aging_recharge P = P\<lparr>counter := counter P div 2 + priority P\<rparr>"

definition new_epoch :: "sched_state \<Rightarrow> sched_state" where
  "new_epoch s =
     fold (\<lambda>entry t. case entry of None \<Rightarrow> t | Some p \<Rightarrow> upd_pcb p aging_recharge t) (processes s) s"

partial_function (option) aging_select :: "sched_state \<Rightarrow> (pcb_ptr \<times> sched_state) option" where
  "aging_select s = do {
     (best, best_previous, s1) \<leftarrow> aging_walk None (q_head (ready_queue s)) None None 0 s;
     case best of
       Some b \<Rightarrow>
         (let (q, h) = remove_process_from (ready_queue s1) best_previous b (heap s1)
          in Some (Some b, s1\<lparr>ready_queue := q, heap := h\<rparr>))
     | None \<Rightarrow>
         if q_head (ready_queue s1) = None then Some (None, s1)
         else aging_select (new_epoch s1)
   }"

definition schedule_priority_aging :: "sched_state \<Rightarrow> sched_state option" where
  "schedule_priority_aging s = do {
     let s1 = preempt_disable s;
     s2 \<leftarrow> (if current_runnable s1 then enqueue_fifo (current_process s1) s1 else Some s1);
     (next, s3) \<leftarrow> aging_select s2;
     Some (preempt_enable (switch_to_process (or_init next) s3))
   }"

subsection \<open>Multilevel queues\<close>

definition dequeue_level :: "nat \<Rightarrow> sched_state \<Rightarrow> (pcb_ptr \<times> sched_state) option" where
  "dequeue_level q s = do {
     queue \<leftarrow> array_get (ml_queues s) (int q);
     let (p, queue', h) = dequeue_process_from queue (heap s);
     qs \<leftarrow> array_set (ml_queues s) (int q) queue';
     Some (p, s\<lparr>ml_queues := qs, heap := h\<rparr>)
   }"

partial_function (option) level_loop :: "nat \<Rightarrow> sched_state \<Rightarrow> (pcb_ptr \<times> sched_state) option" where
  "level_loop q s = do {
     (p, s1) \<leftarrow> dequeue_level q s;
     case p of
       None \<Rightarrow> Some (None, s1)
     | Some x \<Rightarrow> do {
         s2 \<leftarrow> handle_process_signals x s1;
         if state (heap s2 x) = PROCESS_READY then Some (Some x, s2) else level_loop q s2
       }
   }"

text \<open>The cascade over the levels; \<open>Some (x, q)\<close> is a process with the level it came from.\<close>

fun level_scan :: "nat list \<Rightarrow> sched_state \<Rightarrow> ((pcb_id \<times> nat) option \<times> sched_state) option" where
  "level_scan [] s = Some (None, s)"
| "level_scan (q # qs) s = do {
     (p, s1) \<leftarrow> level_loop q s;
     case p of
       None \<Rightarrow> level_scan qs s1
     | Some x \<Rightarrow> Some (Some (x, q), s1)
   }"

definition schedule_multilevel :: "sched_state \<Rightarrow> sched_state option" where
  "schedule_multilevel s = do {
     let s1 = preempt_disable s;
     policy \<leftarrow> ml_policy (active_algorithm s1);
     s2 \<leftarrow> (if current_runnable s1 then enqueue_multilevel (current_process s1) s1 else Some s1);
     (found, s3) \<leftarrow> level_scan [0..<n_levels policy] s2;
     s4 \<leftarrow> (case found of
              None \<Rightarrow> Some s3
            | Some (x, target_level) \<Rightarrow> do {
                q \<leftarrow> array_get (quantum policy) (int target_level);
                Some (recharge (Some x) q s3)
              });
     Some (preempt_enable (switch_to_process (or_init (map_option fst found)) s4))
   }"

text \<open>The boost: everything below level 0 is moved to level 0.\<close>

partial_function (option) boost_level :: "nat \<Rightarrow> sched_state \<Rightarrow> sched_state option" where
  "boost_level q s = do {
     (p, s1) \<leftarrow> dequeue_level q s;
     case p of
       None \<Rightarrow> Some s1
     | Some x \<Rightarrow> do {
         levels \<leftarrow> array_set (queue_level s1) (pid (heap s1 x)) 0;
         top \<leftarrow> array_get (ml_queues s1) 0;
         let (q0, h) = enqueue_process_to top (Some x) (heap s1);
         qs \<leftarrow> array_set (ml_queues s1) 0 q0;
         boost_level q (s1\<lparr>queue_level := levels, ml_queues := qs, heap := h\<rparr>)
       }
   }"

definition multilevel_boost :: "MultilevelPolicy \<Rightarrow> sched_state \<Rightarrow> sched_state option" where
  "multilevel_boost policy s =
     (if boost_period policy > 0 then
        (let s1 = s\<lparr>ml_ticks_since_boost := ml_ticks_since_boost s + 1\<rparr> in
         if ml_ticks_since_boost s1 \<ge> boost_period policy then do {
           s2 \<leftarrow> foldM boost_level [1..<n_levels policy] s1;
           Some (s2\<lparr>queue_level := map (\<lambda>_. 0) (queue_level s2), ml_ticks_since_boost := 0\<rparr>)
         } else Some s1)
      else Some s)"

definition multilevel_demote :: "MultilevelPolicy \<Rightarrow> sched_state \<Rightarrow> sched_state option" where
  "multilevel_demote policy s =
     (let c = current_process s in
      if demote_on_expiry policy \<and> c \<noteq> init_process \<and> counter (heap s c) \<le> 0 \<and>
         preempt_disabled (heap s c) = 0
      then do {
        l \<leftarrow> array_get (queue_level s) (pid (heap s c));
        if l < int (n_levels policy) - 1 then do {
          levels \<leftarrow> array_set (queue_level s) (pid (heap s c)) (l + 1);
          Some (s\<lparr>queue_level := levels\<rparr>)
        } else Some s
      } else Some s)"

definition multilevel_on_tick :: "sched_state \<Rightarrow> sched_state option" where
  "multilevel_on_tick s = do {
     policy \<leftarrow> ml_policy (active_algorithm s);
     s1 \<leftarrow> multilevel_boost policy s;
     multilevel_demote policy s1
   }"

subsection \<open>Dispatch, timer tick and exit\<close>

fun alg_pick_next :: "SchedAlgorithm \<Rightarrow> sched_state \<Rightarrow> sched_state option" where
  "alg_pick_next sched_round_robin = schedule_round_robin"
| "alg_pick_next sched_fcfs = schedule_queue_head"
| "alg_pick_next sched_sjf = schedule_queue_head"
| "alg_pick_next sched_lottery = schedule_lottery"
| "alg_pick_next sched_priority_aging = schedule_priority_aging"
| "alg_pick_next sched_mlq = schedule_multilevel"
| "alg_pick_next sched_mlfq = schedule_multilevel"

fun alg_on_tick :: "SchedAlgorithm \<Rightarrow> sched_state \<Rightarrow> sched_state option" where
  "alg_on_tick sched_round_robin s = Some s"
| "alg_on_tick sched_fcfs s = Some s"
| "alg_on_tick sched_sjf s = Some s"
| "alg_on_tick sched_lottery s = Some s"
| "alg_on_tick sched_priority_aging s = Some s"
| "alg_on_tick sched_mlq s = multilevel_on_tick s"
| "alg_on_tick sched_mlfq s = multilevel_on_tick s"

definition schedule_dispatch :: "sched_state \<Rightarrow> sched_state option" where
  "schedule_dispatch s = alg_pick_next (active_algorithm s) s"

definition end_burst :: "PCB \<Rightarrow> PCB" where
  "end_burst P = P\<lparr>est_burst := (burst_ticks P + est_burst P) sdiv 2, burst_ticks := 0\<rparr>"

definition schedule :: "sched_state \<Rightarrow> sched_state option" where
  "schedule s =
     (let c = current_process s;
          s1 = (if c \<noteq> init_process \<and> state (heap s c) \<noteq> PROCESS_RUNNING \<and>
                   state (heap s c) \<noteq> PROCESS_READY
                then upd_pcb c end_burst s else s);
          s2 = upd_pcb c (\<lambda>P. P\<lparr>counter := 0\<rparr>) s1
      in schedule_dispatch s2)"

definition handle_timer_tick :: "sched_state \<Rightarrow> sched_state option" where
  "handle_timer_tick s = do {
     let s1 = upd_pcb (current_process s) (\<lambda>P. P\<lparr>counter := counter P - 1\<rparr>) s;
     let s2 = upd_pcb (current_process s1) (\<lambda>P. P\<lparr>burst_ticks := burst_ticks P + 1\<rparr>) s1;
     s3 \<leftarrow> alg_on_tick (active_algorithm s2) s2;
     let c = current_process s3;
     if counter (heap s3 c) > 0 \<or> preempt_disabled (heap s3 c) > 0 then Some s3
     else do {
       let s4 = upd_pcb c (\<lambda>P. P\<lparr>counter := 0\<rparr>) s3;
       if \<not> is_preemptive (active_algorithm s4) then Some s4 else schedule_dispatch s4
     }
   }"

definition wake_waiter :: "int \<Rightarrow> pcb_ptr \<Rightarrow> sched_state \<Rightarrow> sched_state option" where
  "wake_waiter exiting entry s =
     (case entry of
        None \<Rightarrow> Some s
      | Some p \<Rightarrow>
          if state (heap s p) = PROCESS_WAITING_ANOTHER_PROCESS \<and> pid_to_wait (heap s p) = exiting
          then enqueue_process (Some p)
                 (upd_pcb p (\<lambda>P. P\<lparr>pid_to_wait := -1\<rparr>)
                   (upd_pcb p (\<lambda>P. P\<lparr>state := PROCESS_READY\<rparr>) s))
          else Some s)"

definition exit_process :: "sched_state \<Rightarrow> sched_state option" where
  "exit_process s = do {
     let s1 = preempt_disable s;
     let s2 = upd_pcb (current_process s1) (\<lambda>P. P\<lparr>state := PROCESS_ZOMBIE\<rparr>) s1;
     s3 \<leftarrow> foldM (wake_waiter (pid (heap s2 (current_process s2)))) (processes s2) s2;
     schedule (preempt_enable s3)
   }"

end
