(* ===== verification/Scheduler_Refinement.thy ===== *)
theory Scheduler_Refinement
  imports Scheduler
begin

text \<open>
  The linked queues of the scheduler seen as lists. \<open>view\<close> forgets the links of a state,
  \<open>queues\<close> says which lists the linked queues hold. On that level insertion is list insertion
  (\<open>place\<close>), extraction until a READY process is found is \<open>ready_pick\<close>, and the Round Robin,
  FCFS and SJF selection functions refine list-based schedulers.
\<close>

subsection \<open>The abstraction: everything but the links\<close>

definition view :: "sched_state \<Rightarrow> sched_state" where
  "view s = s\<lparr>heap := payload (heap s), ready_queue := QUEUE_INIT, ml_queues := []\<rparr>"

definition queues :: "sched_state \<Rightarrow> pcb_id list \<Rightarrow> pcb_id list list \<Rightarrow> bool" where
  "queues s rq mls \<longleftrightarrow>
     queue_rep (heap s) (ready_queue s) rq \<and>
     list_all2 (queue_rep (heap s)) (ml_queues s) mls \<and>
     distinct (rq @ concat mls)"

definition link_free :: "(PCB \<Rightarrow> PCB) \<Rightarrow> bool" where
  "link_free f \<longleftrightarrow> (\<forall>P x. (f P)\<lparr>next_ready := x\<rparr> = f (P\<lparr>next_ready := x\<rparr>))"

lemma link_free_next: "link_free f \<Longrightarrow> next_ready (f P) = next_ready P"
proof -
  assume "link_free f"
  then have "(f P)\<lparr>next_ready := next_ready P\<rparr> = f (P\<lparr>next_ready := next_ready P\<rparr>)"
    by (simp only: link_free_def)
  then have "next_ready (f (P\<lparr>next_ready := next_ready P\<rparr>)) = next_ready P"
    by (metis PCB.select_convs(17) PCB.surjective PCB.update_convs(17))
  then show ?thesis by simp
qed

lemma link_free_updates [simp]:
  "link_free (\<lambda>P. P\<lparr>state := st\<rparr>)"
  "link_free (\<lambda>P. P\<lparr>counter := k\<rparr>)"
  "link_free (\<lambda>P. P\<lparr>counter := counter P - k\<rparr>)"
  "link_free (\<lambda>P. P\<lparr>burst_ticks := burst_ticks P + k\<rparr>)"
  "link_free (\<lambda>P. P\<lparr>preempt_disabled := preempt_disabled P + k\<rparr>)"
  "link_free (\<lambda>P. P\<lparr>preempt_disabled := preempt_disabled P - k\<rparr>)"
  "link_free (\<lambda>P. P\<lparr>priority := k\<rparr>)"
  "link_free (\<lambda>P. P\<lparr>tickets := k\<rparr>)"
  "link_free (\<lambda>P. P\<lparr>queue_priority := k\<rparr>)"
  "link_free (\<lambda>P. P\<lparr>pid_to_wait := k\<rparr>)"
  "link_free (\<lambda>P. P\<lparr>cpu_context := c\<rparr>)"
  "link_free (clear_signal sig)"
  "link_free end_burst"
  "link_free aging_recharge"
  by (simp_all add: link_free_def clear_signal_def end_burst_def aging_recharge_def)

lemma link_free_comp [simp]: "link_free f \<Longrightarrow> link_free g \<Longrightarrow> link_free (\<lambda>P. f (g P))"
  by (simp add: link_free_def)

lemma payload_upd: "link_free f \<Longrightarrow> payload (h(p := f (h p))) = (payload h)(p := f (payload h p))"
  by (auto simp: payload_def link_free_def fun_eq_iff)

lemma view_upd_pcb [simp]: "link_free f \<Longrightarrow> view (upd_pcb p f s) = upd_pcb p f (view s)"
  by (simp add: view_def upd_pcb_def payload_upd)

lemma view_fields [simp]:
  "heap (view s) = payload (heap s)"
  "current_process (view s) = current_process s"
  "processes (view s) = processes s"
  "n_processes (view s) = n_processes s"
  "queue_level (view s) = queue_level s"
  "active_algorithm (view s) = active_algorithm s"
  "lottery_rng_state (view s) = lottery_rng_state s"
  "timer_clo (view s) = timer_clo s"
  "ml_ticks_since_boost (view s) = ml_ticks_since_boost s"
  "cpu (view s) = cpu s"
  "ttbr0_el1 (view s) = ttbr0_el1 s"
  by (simp_all add: view_def)

lemma registered_view [simp]: "registered (view s) = registered s"
  by (simp add: registered_def fun_eq_iff)

lemma queues_upd_pcb [simp]:
  assumes "link_free f"
  shows "queues (upd_pcb p f s) rq mls = queues s rq mls"
proof -
  have "queue_rep ((heap s)(p := f (heap s p))) q xs = queue_rep (heap s) q xs" for q xs
    using assms by (intro queue_rep_cong) (auto simp: link_free_next)
  then show ?thesis by (simp add: queues_def list_all2_conv_all_nth)
qed

lemma queues_disjoint: "queues s rq mls \<Longrightarrow> set rq \<inter> set (concat mls) = {}"
  by (auto simp: queues_def)

lemma queues_levels_length: "queues s rq mls \<Longrightarrow> length mls = length (ml_queues s)"
  by (auto simp: queues_def dest: list_all2_lengthD)

text \<open>Fields other than the heap and the queues do not matter for \<open>queues\<close>.\<close>

lemma queues_frame [simp]:
  "queues (s\<lparr>queue_level := l\<rparr>) rq mls = queues s rq mls"
  "queues (s\<lparr>current_process := c\<rparr>) rq mls = queues s rq mls"
  "queues (s\<lparr>processes := ps\<rparr>) rq mls = queues s rq mls"
  "queues (s\<lparr>n_processes := n\<rparr>) rq mls = queues s rq mls"
  "queues (s\<lparr>cpu := r\<rparr>) rq mls = queues s rq mls"
  "queues (s\<lparr>ttbr0_el1 := t\<rparr>) rq mls = queues s rq mls"
  "queues (s\<lparr>ml_ticks_since_boost := k\<rparr>) rq mls = queues s rq mls"
  "queues (s\<lparr>lottery_rng_state := r'\<rparr>) rq mls = queues s rq mls"
  "queues (s\<lparr>timer_clo := clo\<rparr>) rq mls = queues s rq mls"
  by (simp_all add: queues_def)

lemma view_frame [simp]:
  "view (s\<lparr>queue_level := l\<rparr>) = (view s)\<lparr>queue_level := l\<rparr>"
  "view (s\<lparr>current_process := c\<rparr>) = (view s)\<lparr>current_process := c\<rparr>"
  "view (s\<lparr>processes := ps\<rparr>) = (view s)\<lparr>processes := ps\<rparr>"
  "view (s\<lparr>n_processes := n\<rparr>) = (view s)\<lparr>n_processes := n\<rparr>"
  "view (s\<lparr>cpu := r\<rparr>) = (view s)\<lparr>cpu := r\<rparr>"
  "view (s\<lparr>ttbr0_el1 := t\<rparr>) = (view s)\<lparr>ttbr0_el1 := t\<rparr>"
  "view (s\<lparr>ml_ticks_since_boost := k\<rparr>) = (view s)\<lparr>ml_ticks_since_boost := k\<rparr>"
  "view (s\<lparr>lottery_rng_state := r'\<rparr>) = (view s)\<lparr>lottery_rng_state := r'\<rparr>"
  "view (s\<lparr>timer_clo := clo\<rparr>) = (view s)\<lparr>timer_clo := clo\<rparr>"
  by (simp_all add: view_def)

subsection \<open>Operations that do not touch the links commute with the abstraction\<close>

lemma view_preempt [simp]:
  "view (preempt_enable s) = preempt_enable (view s)"
  "view (preempt_disable s) = preempt_disable (view s)"
  "queues (preempt_enable s) rq mls = queues s rq mls"
  "queues (preempt_disable s) rq mls = queues s rq mls"
  by (simp_all add: preempt_enable_def preempt_disable_def)

lemma view_switch [simp]:
  "view (switch_to_process p s) = switch_to_process p (view s)"
  "queues (switch_to_process p s) rq mls = queues s rq mls"
  by (simp_all add: switch_to_process_def cpu_switch_to_process_def set_pgd_def Let_def)

lemma view_recharge [simp]:
  "view (recharge p k s) = recharge p k (view s)"
  "queues (recharge p k s) rq mls = queues s rq mls"
  by (simp_all add: recharge_def split: option.split)

lemma current_runnable_view [simp]: "current_runnable (view s) = current_runnable s"
  by (simp add: current_runnable_def)

lemma distinct_concat_nth:
  assumes "distinct (concat xss)" "i < length xss" "j < length xss" "i \<noteq> j"
  shows "set (xss ! i) \<inter> set (xss ! j) = {}"
  using assms
proof (induction xss arbitrary: i j)
  case (Cons xs xss)
  have "set xs \<inter> set (xss ! k) = {}" if "k < length xss" for k
    using Cons.prems(1) nth_mem [OF that] by auto
  with Cons show ?case by (cases i; cases j) (auto simp: Int_commute)
qed simp

subsection \<open>Insertion\<close>

abbreviation set_ready :: "PCB \<Rightarrow> PCB" where
  "set_ready P \<equiv> P\<lparr>state := PROCESS_READY\<rparr>"

abbreviation queued :: "pcb_id list \<Rightarrow> pcb_id list list \<Rightarrow> pcb_id set" where
  "queued rq mls \<equiv> set rq \<union> set (concat mls)"

lemma queues_others:
  assumes "list_all2 (queue_rep h) qs mls" and "\<And>xs. xs \<in> set mls \<Longrightarrow> (\<And>a. a \<in> set xs \<Longrightarrow> same_link a h h')"
  shows "list_all2 (queue_rep h') qs mls"
  using assms unfolding list_all2_conv_all_nth
  by (metis nth_mem pq.rep_same)

lemma enqueue_fifo_refines:
  assumes q: "queues s rq mls" and p: "p \<noteq> init_process" "p \<notin> queued rq mls"
  shows "\<exists>s'. enqueue_fifo p s = Some s' \<and> queues s' (rq @ [p]) mls \<and>
              view s' = upd_pcb p set_ready (view s)"
proof -
  obtain q' h' where enq: "enqueue_process_to (ready_queue s) (Some p) (heap s) = (q', h')"
    by fastforce
  have rep: "queue_rep (heap s) (ready_queue s) rq" using q by (simp add: queues_def)
  have "queue_rep h' q' (rq @ [p])" using enqueue_rep [OF rep _ p(1) enq] p by simp
  moreover have "list_all2 (queue_rep h') (ml_queues s) mls"
  proof (rule queues_others)
    show "list_all2 (queue_rep (heap s)) (ml_queues s) mls" using q by (simp add: queues_def)
    fix xs a assume "xs \<in> set mls" "a \<in> set xs"
    then have "a \<notin> insert p (set rq)" using p queues_disjoint [OF q] by auto
    then show "same_link a (heap s) h'" using pq.enq_same [OF rep p(1) enq] by blast
  qed
  ultimately show ?thesis
    using enq enqueue_payload [OF p(1) enq] q p
    by (auto simp: enqueue_fifo_def queues_def view_def upd_pcb_def)
qed

lemma enqueue_sjf_refines:
  assumes q: "queues s rq mls" and p: "p \<noteq> init_process" "p \<notin> queued rq mls"
  shows "\<exists>s'. enqueue_sjf p s = Some s' \<and>
              queues s' (insert_by (\<lambda>x. est_burst (heap s x)) p rq) mls \<and>
              view s' = upd_pcb p set_ready (view s)"
proof -
  have rep: "queue_rep (heap s) (ready_queue s) rq" using q by (simp add: queues_def)
  from enqueue_sorted_rep [OF rep _ p(1)] p obtain q' h' where
    enq: "enqueue_sorted_to (ready_queue s) (Some p) (heap s) = Some (q', h')" and
    r: "queue_rep h' q' (insert_by (\<lambda>x. est_burst (heap s x)) p rq)" and
    pl: "payload h' = (payload (heap s))(p := (payload (heap s) p)\<lparr>state := PROCESS_READY\<rparr>)" and
    same: "\<And>a. a \<notin> insert p (set rq) \<Longrightarrow> h' a = heap s a" by auto
  have "list_all2 (queue_rep h') (ml_queues s) mls"
  proof (rule queues_others)
    show "list_all2 (queue_rep (heap s)) (ml_queues s) mls" using q by (simp add: queues_def)
    fix xs a assume "xs \<in> set mls" "a \<in> set xs"
    then have "a \<notin> insert p (set rq)" using p queues_disjoint [OF q] by auto
    then show "same_link a (heap s) h'" using same by simp
  qed
  moreover have "distinct (insert_by (\<lambda>x. est_burst (heap s x)) p rq)"
    using r queue_rep_distinct by blast
  ultimately show ?thesis
    using enq r pl q p by (auto simp: enqueue_sjf_def queues_def view_def upd_pcb_def)
qed

text \<open>Insertion into one of the level queues.\<close>

lemma concat_update_snoc:
  "l < length mls \<Longrightarrow> mset (concat (mls[l := mls ! l @ [p]])) = add_mset p (mset (concat mls))"
proof (induction mls arbitrary: l)
  case (Cons m mls)
  then show ?case by (cases l) auto
qed simp

lemma queues_set_level:
  assumes q: "queues s rq mls" and l: "l < length mls"
    and rep: "queue_rep h' q' xs"
    and other: "\<And>a. a \<in> queued rq mls \<Longrightarrow> a \<notin> set (mls ! l) \<Longrightarrow> same_link a (heap s) h'"
    and dist: "distinct (rq @ concat (mls[l := xs]))"
  shows "queues (s\<lparr>ml_queues := (ml_queues s)[l := q'], heap := h'\<rparr>) rq (mls[l := xs])"
proof -
  have all: "list_all2 (queue_rep (heap s)) (ml_queues s) mls" and d: "distinct (rq @ concat mls)"
    using q by (auto simp: queues_def)
  have "queue_rep h' (ready_queue s) rq"
  proof (rule pq.rep_same)
    show "queue_rep (heap s) (ready_queue s) rq" using q by (simp add: queues_def)
    fix a assume "a \<in> set rq"
    then show "same_link a (heap s) h'" using other [of a] d l by (auto dest: nth_mem)
  qed
  moreover have "queue_rep h' ((ml_queues s)[l := q'] ! i) (mls[l := xs] ! i)" if "i < length mls" for i
  proof (cases "i = l")
    case True
    then show ?thesis using rep l list_all2_lengthD [OF all] by simp
  next
    case False
    have "queue_rep (heap s) (ml_queues s ! i) (mls ! i)" using all that by (simp add: list_all2_conv_all_nth)
    moreover have "same_link a (heap s) h'" if a: "a \<in> set (mls ! i)" for a
    proof (rule other)
      show "a \<in> queued rq mls" using a \<open>i < length mls\<close> by (auto dest: nth_mem)
      show "a \<notin> set (mls ! l)"
        using distinct_concat_nth [of mls i l] d False l \<open>i < length mls\<close> a by auto
    qed
    ultimately show ?thesis using False l list_all2_lengthD [OF all] by (auto intro: pq.rep_same)
  qed
  ultimately show ?thesis
    using dist list_all2_lengthD [OF all] by (simp add: queues_def list_all2_conv_all_nth)
qed

definition level_ok :: "sched_state \<Rightarrow> nat \<Rightarrow> pcb_id \<Rightarrow> bool" where
  "level_ok s n p \<longleftrightarrow>
     0 \<le> pid (heap s p) \<and> nat (pid (heap s p)) < length (queue_level s) \<and>
     0 \<le> queue_level s ! nat (pid (heap s p)) \<and> queue_level s ! nat (pid (heap s p)) < int n"

lemma level_ok_view [simp]: "level_ok (view s) n p = level_ok s n p"
  by (simp add: level_ok_def)

definition level_of :: "sched_state \<Rightarrow> pcb_id \<Rightarrow> nat" where
  "level_of s p = nat (queue_level s ! nat (pid (heap s p)))"

lemma level_of_view [simp]: "level_of (view s) p = level_of s p"
  by (simp add: level_of_def)

lemma enqueue_level_refines:
  assumes q: "queues s rq mls" and p: "p \<noteq> init_process" "p \<notin> queued rq mls" and l: "l < length mls"
    and enq: "enqueue_process_to (ml_queues s ! l) (Some p) (heap s) = (q', h')"
  shows "queues (s\<lparr>ml_queues := (ml_queues s)[l := q'], heap := h'\<rparr>) rq (mls[l := mls ! l @ [p]])"
    and "view (s\<lparr>ml_queues := (ml_queues s)[l := q'], heap := h'\<rparr>) = upd_pcb p set_ready (view s)"
proof -
  have rep: "queue_rep (heap s) (ml_queues s ! l) (mls ! l)"
    using q l by (simp add: queues_def list_all2_conv_all_nth)
  have pl: "p \<notin> set (mls ! l)" using p(2) l by (auto dest: nth_mem)
  show "queues (s\<lparr>ml_queues := (ml_queues s)[l := q'], heap := h'\<rparr>) rq (mls[l := mls ! l @ [p]])"
  proof (rule queues_set_level [OF q l])
    show "queue_rep h' q' (mls ! l @ [p])" by (rule enqueue_rep [OF rep pl p(1) enq])
    show "same_link a (heap s) h'" if "a \<in> queued rq mls" "a \<notin> set (mls ! l)" for a
      using pq.enq_same [OF rep p(1) enq, of a] that p(2) by blast
    have "mset (concat (mls[l := mls ! l @ [p]])) = mset (p # concat mls)"
      using concat_update_snoc [OF l] by simp
    then have "distinct (concat (mls[l := mls ! l @ [p]])) = distinct (p # concat mls)"
      and "set (concat (mls[l := mls ! l @ [p]])) = set (p # concat mls)"
      by (metis mset_eq_imp_distinct_iff, metis mset_eq_setD)
    then show "distinct (rq @ concat (mls[l := mls ! l @ [p]]))"
      using q p(2) by (simp add: queues_def)
  qed
  show "view (s\<lparr>ml_queues := (ml_queues s)[l := q'], heap := h'\<rparr>) = upd_pcb p set_ready (view s)"
    using enqueue_payload [OF p(1) enq] by (simp add: view_def upd_pcb_def)
qed

lemma enqueue_multilevel_refines:
  assumes q: "queues s rq mls" and p: "p \<noteq> init_process" "p \<notin> queued rq mls"
    and ok: "level_ok s (length mls) p"
  defines "l \<equiv> level_of s p"
  shows "\<exists>s'. enqueue_multilevel p s = Some s' \<and> queues s' rq (mls[l := mls ! l @ [p]]) \<and>
              view s' = upd_pcb p set_ready (view s)"
proof -
  have len: "length (ml_queues s) = length mls" using queues_levels_length [OF q] by simp
  have l: "l < length mls" using ok by (simp add: l_def level_ok_def level_of_def nat_less_iff)
  obtain q' h' where enq: "enqueue_process_to (ml_queues s ! l) (Some p) (heap s) = (q', h')"
    by fastforce
  have "array_get (queue_level s) (pid (heap s p)) = Some (int l)"
    using ok by (auto simp: level_ok_def l_def level_of_def array_get_def nat_less_iff)
  then have "enqueue_multilevel p s = Some (s\<lparr>ml_queues := (ml_queues s)[l := q'], heap := h'\<rparr>)"
    using enq l len by (simp add: enqueue_multilevel_def array_get_def array_set_def)
  then show ?thesis using enqueue_level_refines [OF q p l enq] by blast
qed

text \<open>Where the active algorithm puts a process that became ready.\<close>

definition place ::
  "sched_state \<Rightarrow> pcb_id \<Rightarrow> pcb_id list \<Rightarrow> pcb_id list list \<Rightarrow> pcb_id list \<times> pcb_id list list" where
  "place s p rq mls =
     (case ml_policy (active_algorithm s) of
        Some _ \<Rightarrow> (rq, mls[level_of s p := mls ! level_of s p @ [p]])
      | None \<Rightarrow>
          if active_algorithm s = sched_sjf
          then (insert_by (\<lambda>x. est_burst (heap s x)) p rq, mls)
          else (rq @ [p], mls))"

lemma place_view [simp]: "place (view s) = place s"
  by (intro ext) (simp add: place_def split: option.split)

lemma queued_place:
  assumes "level_ok s (length mls) p" "place s p rq mls = (rq', mls')"
  shows "queued rq' mls' = insert p (queued rq mls)" and "length mls' = length mls"
proof -
  let ?l = "level_of s p"
  have l: "?l < length mls" using assms(1) by (simp add: level_ok_def level_of_def nat_less_iff)
  have "set (concat (mls[?l := mls ! ?l @ [p]])) = set (p # concat mls)"
    using concat_update_snoc [OF l, of p] by (metis mset.simps(2) mset_eq_setD)
  then show "queued rq' mls' = insert p (queued rq mls)"
    using assms(2) by (auto simp: place_def split: option.splits if_splits)
  show "length mls' = length mls"
    using assms(2) by (auto simp: place_def split: option.splits if_splits)
qed

lemma alg_enqueue_refines:
  assumes "queues s rq mls" "p \<noteq> init_process" "p \<notin> queued rq mls" "level_ok s (length mls) p"
    and "place s p rq mls = (rq', mls')"
  shows "\<exists>s'. alg_enqueue (active_algorithm s) p s = Some s' \<and> queues s' rq' mls' \<and>
              view s' = upd_pcb p set_ready (view s)"
  using assms enqueue_fifo_refines enqueue_sjf_refines enqueue_multilevel_refines
  by (cases "active_algorithm s") (auto simp: place_def)

lemma enqueue_process_refines:
  assumes "queues s rq mls" "p \<noteq> init_process" "p \<notin> queued rq mls" "level_ok s (length mls) p"
    and "place s p rq mls = (rq', mls')"
  shows "\<exists>s'. enqueue_process (Some p) s = Some s' \<and> queues s' rq' mls' \<and>
              view s' = upd_pcb p set_ready (view s)"
  using alg_enqueue_refines [OF assms] assms(2) by (simp add: enqueue_process_def)

subsection \<open>Signals\<close>

text \<open>What signal handling does to the PCB of a process that is not stopped.\<close>

definition signal_effect :: "PCB \<Rightarrow> PCB" where
  "signal_effect P =
     (if signal_set SIGNAL_KILL (pending_signals P)
      then clear_signal SIGNAL_KILL (P\<lparr>state := PROCESS_ZOMBIE\<rparr>)
      else if signal_set SIGNAL_STOP (pending_signals P)
      then clear_signal SIGNAL_STOP (P\<lparr>state := PROCESS_STOPPED\<rparr>)
      else if signal_set SIGNAL_RESUME (pending_signals P)
      then clear_signal SIGNAL_RESUME P
      else P)"

definition condemned :: "PCB \<Rightarrow> bool" where
  "condemned P \<longleftrightarrow> signal_set SIGNAL_KILL (pending_signals P) \<or> signal_set SIGNAL_STOP (pending_signals P)"

lemma signal_set_0 [simp]: "\<not> signal_set sig 0"
  by (simp add: signal_set_def)

lemma signal_set_next [simp]: "pending_signals (P\<lparr>next_ready := x\<rparr>) = pending_signals P"
  by simp

lemma link_free_signal [simp]: "link_free signal_effect"
  by (simp add: link_free_def signal_effect_def clear_signal_def)

lemma upd_pcb_twice: "upd_pcb p f (upd_pcb p g s) = upd_pcb p (\<lambda>P. f (g P)) s"
  by (simp add: upd_pcb_def)

lemma upd_pcb_cong: "f (heap s p) = g (heap s p) \<Longrightarrow> upd_pcb p f s = upd_pcb p g s"
  by (simp add: upd_pcb_def)

lemma upd_pcb_same: "f (heap s p) = heap s p \<Longrightarrow> upd_pcb p f s = s"
  by (simp add: upd_pcb_def)

lemma handle_process_signals_eq:
  assumes "state (heap s p) \<noteq> PROCESS_STOPPED"
  shows "handle_process_signals p s = Some (upd_pcb p signal_effect s)"
proof -
  let ?P = "heap s p"
  have "signal_effect ?P = ?P" if "pending_signals ?P = 0" using that by (simp add: signal_effect_def)
  with assms show ?thesis
    by (auto simp: handle_process_signals_def Let_def upd_pcb_twice clear_signal_def signal_effect_def
             intro!: upd_pcb_cong upd_pcb_same [symmetric])
qed

lemma signal_effect_state:
  "state (signal_effect P) =
     (if signal_set SIGNAL_KILL (pending_signals P) then PROCESS_ZOMBIE
      else if signal_set SIGNAL_STOP (pending_signals P) then PROCESS_STOPPED
      else state P)"
  by (simp add: signal_effect_def clear_signal_def)

lemma signal_effect_ready:
  "state P = PROCESS_READY \<Longrightarrow> state (signal_effect P) = PROCESS_READY \<longleftrightarrow> \<not> condemned P"
  by (simp add: signal_effect_state condemned_def)

lemma signal_effect_frame [simp]:
  "counter (signal_effect P) = counter P"
  "priority (signal_effect P) = priority P"
  "tickets (signal_effect P) = tickets P"
  "pid (signal_effect P) = pid P"
  "preempt_disabled (signal_effect P) = preempt_disabled P"
  "est_burst (signal_effect P) = est_burst P"
  "burst_ticks (signal_effect P) = burst_ticks P"
  "pid_to_wait (signal_effect P) = pid_to_wait P"
  "queue_priority (signal_effect P) = queue_priority P"
  "mm (signal_effect P) = mm P"
  "cpu_context (signal_effect P) = cpu_context P"
  "messages_buffer (signal_effect P) = messages_buffer P"
  by (simp_all add: signal_effect_def clear_signal_def)

subsection \<open>Extraction until a READY process is found\<close>

fun ready_pick :: "pcb_id list \<Rightarrow> sched_state \<Rightarrow> pcb_ptr \<times> pcb_id list \<times> sched_state" where
  "ready_pick [] v = (None, [], v)"
| "ready_pick (p # ps) v =
     (let v1 = upd_pcb p signal_effect v in
      if state (heap v1 p) = PROCESS_READY then (Some p, ps, v1) else ready_pick ps v1)"

lemma dequeue_ready_Nil: "queues s [] mls \<Longrightarrow> dequeue_ready s = (None, s)"
  by (simp add: dequeue_ready_def dequeue_Nil queues_def)

lemma dequeue_ready_Cons:
  assumes q: "queues s (p # rq) mls"
  shows "\<exists>s'. dequeue_ready s = (Some p, s') \<and> queues s' rq mls \<and> view s' = view s"
proof -
  have rep: "queue_rep (heap s) (ready_queue s) (p # rq)" using q by (simp add: queues_def)
  let ?h = "(heap s)(p := (heap s p)\<lparr>next_ready := None\<rparr>)"
  from dequeue_Cons [OF rep] obtain q' where
    deq: "dequeue_process_from (ready_queue s) (heap s) = (Some p, q', ?h)" and
    rep': "queue_rep ?h q' rq" by blast
  have "list_all2 (queue_rep ?h) (ml_queues s) mls"
  proof (rule queues_others)
    show "list_all2 (queue_rep (heap s)) (ml_queues s) mls" using q by (simp add: queues_def)
    fix xs a assume "xs \<in> set mls" "a \<in> set xs"
    then have "a \<noteq> p" using queues_disjoint [OF q] by auto
    then show "same_link a (heap s) ?h" by simp
  qed
  with deq rep' q show ?thesis
    by (auto simp: dequeue_ready_def queues_def view_def)
qed

lemma dequeue_ready_loop_refines:
  assumes "queues s rq mls" and "\<forall>p \<in> set rq. state (heap s p) = PROCESS_READY"
  shows "\<exists>r rq' s'. dequeue_ready_loop s = Some (r, s') \<and> queues s' rq' mls \<and>
           ready_pick rq (view s) = (r, rq', view s')"
  using assms
proof (induction rq arbitrary: s)
  case Nil
  then show ?case by (subst dequeue_ready_loop.simps) (simp add: dequeue_ready_Nil)
next
  case (Cons p rq)
  from dequeue_ready_Cons [OF Cons.prems(1)] obtain s1 where
    deq: "dequeue_ready s = (Some p, s1)" and q1: "queues s1 rq mls" and v1: "view s1 = view s"
    by blast
  have st: "state (heap s1 x) = state (heap s x)" for x
    using v1 by (metis payload_fields(2) view_fields(1))
  define s2 where "s2 = upd_pcb p signal_effect s1"
  have sig: "handle_process_signals p s1 = Some s2"
    using Cons.prems(2) st by (simp add: s2_def handle_process_signals_eq)
  have q2: "queues s2 rq mls" using q1 by (simp add: s2_def)
  have v2: "view s2 = upd_pcb p signal_effect (view s)" using v1 by (simp add: s2_def)
  have step: "dequeue_ready_loop s =
      (if state (heap s2 p) = PROCESS_READY then Some (Some p, s2) else dequeue_ready_loop s2)"
    by (subst dequeue_ready_loop.simps) (simp add: deq sig)
  have st2: "state (heap (upd_pcb p signal_effect (view s)) p) = state (heap s2 p)"
    by (metis v2 payload_fields(2) view_fields(1))
  show ?case
  proof (cases "state (heap s2 p) = PROCESS_READY")
    case True
    then show ?thesis using step q2 v2 st2 by (auto simp: Let_def)
  next
    case False
    have "p \<notin> set rq" using Cons.prems(1) by (auto simp: queues_def)
    then have "\<forall>x \<in> set rq. state (heap s2 x) = PROCESS_READY"
      using Cons.prems(2) st by (auto simp: s2_def)
    from Cons.IH [OF q2 this] False step v2 st2 show ?thesis by (simp add: Let_def)
  qed
qed

text \<open>The picked process is the first one with no pending kill or stop; the ones before it are
  dropped, and signals are handled exactly for the processes that were looked at.\<close>

definition handled :: "pcb_id set \<Rightarrow> sched_state \<Rightarrow> sched_state" where
  "handled A v = v\<lparr>heap := (\<lambda>x. if x \<in> A then signal_effect (heap v x) else heap v x)\<rparr>"

lemma handled_fields [simp]:
  "heap (handled A v) x = (if x \<in> A then signal_effect (heap v x) else heap v x)"
  "current_process (handled A v) = current_process v"
  "processes (handled A v) = processes v"
  "n_processes (handled A v) = n_processes v"
  "queue_level (handled A v) = queue_level v"
  "active_algorithm (handled A v) = active_algorithm v"
  "ml_ticks_since_boost (handled A v) = ml_ticks_since_boost v"
  "registered (handled A v) = registered v"
  by (simp_all add: handled_def registered_def fun_eq_iff)

lemma handled_empty [simp]: "handled {} v = v"
  by (simp add: handled_def)

lemma handled_upd: "p \<notin> A \<Longrightarrow> handled A (upd_pcb p signal_effect v) = handled (insert p A) v"
  by (auto simp: handled_def upd_pcb_def fun_eq_iff)

lemma ready_pick_eq:
  assumes "distinct xs" and "\<forall>p \<in> set xs. state (heap v p) = PROCESS_READY"
  shows "ready_pick xs v =
    (case dropWhile (\<lambda>p. condemned (heap v p)) xs of
       [] \<Rightarrow> (None, [], handled (set xs) v)
     | p # rest \<Rightarrow> (Some p, rest, handled (insert p (set (takeWhile (\<lambda>p. condemned (heap v p)) xs))) v))"
  using assms
proof (induction xs arbitrary: v)
  case Nil
  then show ?case by simp
next
  case (Cons p xs)
  let ?v = "upd_pcb p signal_effect v"
  have ready: "state (heap ?v p) = PROCESS_READY \<longleftrightarrow> \<not> condemned (heap v p)"
    using Cons.prems(2) by (simp add: signal_effect_ready)
  show ?case
  proof (cases "condemned (heap v p)")
    case False
    with ready show ?thesis using handled_upd [of p "{}" v] by (simp add: Let_def)
  next
    case True
    note dist = Cons.prems(1)
    have same: "condemned (heap ?v x) = condemned (heap v x)" if "x \<in> set xs" for x
      using Cons.prems(1) that by auto
    have d: "dropWhile (\<lambda>p. condemned (heap ?v p)) xs = dropWhile (\<lambda>p. condemned (heap v p)) xs"
      by (rule dropWhile_cong [OF refl]) (rule same)
    have t: "takeWhile (\<lambda>p. condemned (heap ?v p)) xs = takeWhile (\<lambda>p. condemned (heap v p)) xs"
      by (rule takeWhile_cong [OF refl]) (rule same)
    have IH: "ready_pick xs ?v =
      (case dropWhile (\<lambda>p. condemned (heap v p)) xs of
         [] \<Rightarrow> (None, [], handled (set xs) ?v)
       | p # rest \<Rightarrow> (Some p, rest, handled (insert p (set (takeWhile (\<lambda>p. condemned (heap v p)) xs))) ?v))"
      using Cons.IH [of ?v] Cons.prems unfolding d t by auto
    have tk: "p \<notin> set (takeWhile (\<lambda>p. condemned (heap v p)) xs)"
      using Cons.prems(1) by (auto dest: set_takeWhileD)
    show ?thesis
    proof (cases "dropWhile (\<lambda>p. condemned (heap v p)) xs")
      case Nil
      then show ?thesis using True ready IH handled_upd [of p "set xs" v] dist
        by (simp add: Let_def del: dropWhile_eq_Nil_conv)
    next
      case (Cons y ys)
      then have "y \<in> set xs" by (metis list.set_intros(1) set_dropWhileD)
      then have "y \<noteq> p" using dist by auto
      then show ?thesis using True ready IH Cons tk
          handled_upd [of p "insert y (set (takeWhile (\<lambda>p. condemned (heap v p)) xs))" v]
        by (simp add: Let_def insert_commute)
    qed
  qed
qed

subsection \<open>Round Robin, FCFS and SJF refine list-based schedulers\<close>

text \<open>What every selection function does first: the outgoing process, if it can still run, goes
  where the active algorithm places it.\<close>

definition park ::
  "sched_state \<Rightarrow> pcb_id list \<Rightarrow> pcb_id list list \<Rightarrow> sched_state \<times> pcb_id list \<times> pcb_id list list" where
  "park v rq mls =
     (let c = current_process v in
      if current_runnable v then (upd_pcb c set_ready v, place v c rq mls) else (v, rq, mls))"

definition spec_queue_head ::
  "sched_state \<Rightarrow> pcb_id list \<Rightarrow> pcb_id list list \<Rightarrow> sched_state \<times> pcb_id list \<times> pcb_id list list" where
  "spec_queue_head v rq mls =
     (let (v1, rq1, mls1) = park (preempt_disable v) rq mls;
          (r, rq2, v2) = ready_pick rq1 v1
      in (preempt_enable (switch_to_process (or_init r) v2), rq2, mls1))"

definition spec_round_robin ::
  "sched_state \<Rightarrow> pcb_id list \<Rightarrow> pcb_id list list \<Rightarrow> sched_state \<times> pcb_id list \<times> pcb_id list list" where
  "spec_round_robin v rq mls =
     (let (v1, rq1, mls1) = park (preempt_disable v) rq mls;
          (r, rq2, v2) = ready_pick rq1 v1
      in (preempt_enable (switch_to_process (or_init r) (recharge r 10 v2)), rq2, mls1))"

definition parkable :: "sched_state \<Rightarrow> pcb_id list \<Rightarrow> pcb_id list list \<Rightarrow> bool" where
  "parkable s rq mls \<longleftrightarrow>
     (\<forall>p \<in> queued rq mls. state (heap s p) = PROCESS_READY) \<and>
     (current_runnable s \<longrightarrow> level_ok s (length mls) (current_process s))"

lemma preempt_disable_fields [simp]:
  "current_process (preempt_disable s) = current_process s"
  "active_algorithm (preempt_disable s) = active_algorithm s"
  "state (heap (preempt_disable s) p) = state (heap s p)"
  "pid (heap (preempt_disable s) p) = pid (heap s p)"
  "est_burst (heap (preempt_disable s) p) = est_burst (heap s p)"
  "queue_level (preempt_disable s) = queue_level s"
  "current_runnable (preempt_disable s) = current_runnable s"
  by (simp_all add: preempt_disable_def current_runnable_def)

lemma park_refines:
  assumes q: "queues s rq mls" and ok: "parkable s rq mls"
    and pk: "park (view s) rq mls = (v1, rq1, mls1)"
  shows "\<exists>s'. (if current_runnable s then alg_enqueue (active_algorithm s) (current_process s) s
                else Some s) = Some s' \<and>
              queues s' rq1 mls1 \<and> view s' = v1 \<and>
              (\<forall>p \<in> queued rq1 mls1. state (heap s' p) = PROCESS_READY)"
proof (cases "current_runnable s")
  case False
  then show ?thesis using q ok pk by (auto simp: park_def parkable_def Let_def)
next
  case True
  let ?c = "current_process s"
  have c: "?c \<noteq> init_process" "state (heap s ?c) = PROCESS_RUNNING"
    using True by (auto simp: current_runnable_def)
  then have notin: "?c \<notin> queued rq mls" using ok by (force simp: parkable_def)
  have lok: "level_ok s (length mls) ?c" using True ok by (simp add: parkable_def)
  have pl: "place s ?c rq mls = (rq1, mls1)" and v1: "v1 = upd_pcb ?c set_ready (view s)"
    using pk True by (auto simp: park_def Let_def)
  from alg_enqueue_refines [OF q c(1) notin lok pl] obtain s' where
    s': "alg_enqueue (active_algorithm s) ?c s = Some s'" "queues s' rq1 mls1"
      "view s' = upd_pcb ?c set_ready (view s)" by blast
  have "state (heap s' p) = (if p = ?c then PROCESS_READY else state (heap s p))" for p
    using arg_cong [OF s'(3), of "\<lambda>v. state (heap v p)"] by (simp split: if_splits)
  moreover have "queued rq1 mls1 = insert ?c (queued rq mls)" by (rule queued_place(1) [OF lok pl])
  ultimately show ?thesis using s' v1 True ok by (auto simp: parkable_def)
qed

lemma parkable_preempt [simp]: "parkable (preempt_disable s) rq mls = parkable s rq mls"
  by (simp add: parkable_def level_ok_def)

lemma schedule_queue_head_refines:
  assumes q: "queues s rq mls" and ok: "parkable s rq mls"
    and spec: "spec_queue_head (view s) rq mls = (v', rq', mls')"
  shows "\<exists>s'. schedule_queue_head s = Some s' \<and> queues s' rq' mls' \<and> view s' = v'"
proof -
  let ?s = "preempt_disable s"
  obtain v1 rq1 mls1 where pk: "park (view ?s) rq mls = (v1, rq1, mls1)" by (metis prod_cases3)
  from park_refines [OF _ _ pk] q ok obtain s1 where
    s1: "(if current_runnable ?s then alg_enqueue (active_algorithm ?s) (current_process ?s) ?s
          else Some ?s) = Some s1" "queues s1 rq1 mls1" "view s1 = v1"
      "\<forall>p \<in> queued rq1 mls1. state (heap s1 p) = PROCESS_READY" by auto
  from dequeue_ready_loop_refines [OF s1(2)] s1(4) obtain r rq2 s2 where
    s2: "dequeue_ready_loop s1 = Some (r, s2)" "queues s2 rq2 mls1"
      "ready_pick rq1 (view s1) = (r, rq2, view s2)" by auto
  have "schedule_queue_head s = Some (preempt_enable (switch_to_process (or_init r) s2))"
    using s1(1) s2(1) by (simp add: schedule_queue_head_def Let_def split: if_splits)
  then show ?thesis
    using spec pk s1(3) s2(2,3) by (auto simp: spec_queue_head_def)
qed

lemma schedule_round_robin_refines:
  assumes alg: "active_algorithm s = sched_round_robin"
    and q: "queues s rq mls" and ok: "parkable s rq mls"
    and spec: "spec_round_robin (view s) rq mls = (v', rq', mls')"
  shows "\<exists>s'. schedule_round_robin s = Some s' \<and> queues s' rq' mls' \<and> view s' = v'"
proof -
  let ?s = "preempt_disable s"
  obtain v1 rq1 mls1 where pk: "park (view ?s) rq mls = (v1, rq1, mls1)" by (metis prod_cases3)
  from park_refines [OF _ _ pk] q ok obtain s1 where
    s1: "(if current_runnable ?s then alg_enqueue (active_algorithm ?s) (current_process ?s) ?s
          else Some ?s) = Some s1" "queues s1 rq1 mls1" "view s1 = v1"
      "\<forall>p \<in> queued rq1 mls1. state (heap s1 p) = PROCESS_READY" by auto
  from dequeue_ready_loop_refines [OF s1(2)] s1(4) obtain r rq2 s2 where
    s2: "dequeue_ready_loop s1 = Some (r, s2)" "queues s2 rq2 mls1"
      "ready_pick rq1 (view s1) = (r, rq2, view s2)" by auto
  have "schedule_round_robin s =
      Some (preempt_enable (switch_to_process (or_init r) (recharge r 10 s2)))"
    using s1(1) s2(1) alg by (simp add: schedule_round_robin_def Let_def split: if_splits)
  then show ?thesis
    using spec pk s1(3) s2(2,3) by (auto simp: spec_round_robin_def)
qed

end
