(* ===== verification/Scheduler_Invariant.thy ===== *)
theory Scheduler_Invariant
  imports Scheduler_Refinement
begin

text \<open>
  The invariant of the scheduler: the process table, the correspondence between process states and
  queues, and the shape of the queues. \<open>selected\<close> is the contract of a selection function's search
  for the next process, and the locale \<open>selector\<close> proves once, from that contract, what a whole
  dispatch guarantees.
\<close>

subsection \<open>The scheduler invariant\<close>

definition table_ok :: "sched_state \<Rightarrow> bool" where
  "table_ok s \<longleftrightarrow>
     length (processes s) = N_PROCESSES \<and> length (queue_level s) = N_PROCESSES \<and>
     1 \<le> n_processes s \<and> n_processes s \<le> int N_PROCESSES \<and>
     (\<forall>i < N_PROCESSES. processes s ! i = None \<longleftrightarrow> n_processes s \<le> int i) \<and>
     (\<forall>i < N_PROCESSES. \<forall>p. processes s ! i = Some p \<longrightarrow> pid (heap s p) = int i) \<and>
     processes s ! 0 = Some init_process \<and>
     (\<forall>l \<in> set (queue_level s). 0 \<le> l \<and> l < int ML_MAX_LEVELS) \<and>
     (\<forall>p. registered s p \<longrightarrow> 1 \<le> priority (heap s p) \<and> tickets (heap s p) \<le> 2 ^ 31 - 1)"

definition states_ok :: "sched_state \<Rightarrow> pcb_id list \<Rightarrow> pcb_id list list \<Rightarrow> bool" where
  "states_ok s rq mls \<longleftrightarrow>
     registered s (current_process s) \<and>
     (\<forall>p. registered s p \<longrightarrow> p \<noteq> init_process \<longrightarrow>
        (state (heap s p) = PROCESS_READY \<longleftrightarrow> p \<in> queued rq mls)) \<and>
     (\<forall>p \<in> queued rq mls. registered s p \<and> p \<noteq> init_process) \<and>
     (\<forall>p. registered s p \<longrightarrow> state (heap s p) = PROCESS_RUNNING \<longrightarrow> p = current_process s) \<and>
     length mls = ML_MAX_LEVELS \<and>
     (if ml_policy (active_algorithm s) = None then concat mls = [] else rq = [])"

definition sched_inv :: "sched_state \<Rightarrow> pcb_id list \<Rightarrow> pcb_id list list \<Rightarrow> bool" where
  "sched_inv s rq mls \<longleftrightarrow> queues s rq mls \<and> table_ok s \<and> states_ok s rq mls"

lemma ok_view [simp]:
  "table_ok (view s) = table_ok s"
  "states_ok (view s) rq mls = states_ok s rq mls"
  by (simp_all add: table_ok_def states_ok_def)

lemma registered_pid:
  assumes "table_ok s" "registered s p"
  shows "0 \<le> pid (heap s p)" "pid (heap s p) < int N_PROCESSES"
    "processes s ! nat (pid (heap s p)) = Some p" "pid (heap s p) < n_processes s"
proof -
  from assms(2) obtain i where "i < length (processes s)" "processes s ! i = Some p"
    by (auto simp: registered_def in_set_conv_nth)
  with assms(1) have i: "i < N_PROCESSES" "processes s ! i = Some p" "pid (heap s p) = int i"
    by (auto simp: table_ok_def)
  then show "0 \<le> pid (heap s p)" "pid (heap s p) < int N_PROCESSES"
    "processes s ! nat (pid (heap s p)) = Some p" by auto
  show "pid (heap s p) < n_processes s"
    using assms(1) i unfolding table_ok_def by (metis linorder_not_less option.distinct(1))
qed

lemma registered_inj:
  assumes "table_ok s" "registered s p" "registered s q" "pid (heap s p) = pid (heap s q)"
  shows "p = q"
proof -
  have "Some p = Some q"
    unfolding registered_pid(3) [OF assms(1,2), symmetric] registered_pid(3) [OF assms(1,3), symmetric]
      assms(4) ..
  then show ?thesis by simp
qed

lemma registered_level_ok:
  assumes "table_ok s" "registered s p"
  shows "level_ok s ML_MAX_LEVELS p"
proof -
  have len: "length (queue_level s) = N_PROCESSES"
    and lev: "\<forall>l \<in> set (queue_level s). 0 \<le> l \<and> l < int ML_MAX_LEVELS"
    using assms(1) unfolding table_ok_def by blast+
  have i: "nat (pid (heap s p)) < length (queue_level s)"
    using registered_pid(1,2) [OF assms] len by linarith
  show ?thesis
    unfolding level_ok_def using i registered_pid(1) [OF assms] lev nth_mem [OF i] by blast
qed

lemma registered_init: "table_ok s \<Longrightarrow> registered s init_process"
  unfolding table_ok_def registered_def N_PROCESSES_def
  by (metis nth_mem zero_less_numeral)

lemma queued_ready:
  "states_ok s rq mls \<Longrightarrow> p \<in> queued rq mls \<Longrightarrow> state (heap s p) = PROCESS_READY"
  unfolding states_ok_def by blast

lemma inv_parkable:
  assumes "sched_inv s rq mls"
  shows "parkable s rq mls"
proof -
  have st: "states_ok s rq mls" and tab: "table_ok s" using assms by (simp_all add: sched_inv_def)
  have "registered s (current_process s)" "length mls = ML_MAX_LEVELS"
    using st by (simp_all only: states_ok_def)
  then show ?thesis
    using registered_level_ok [OF tab] queued_ready [OF st] by (simp add: parkable_def)
qed

text \<open>Changes that the invariant does not see.\<close>

lemma table_ok_cong:
  assumes "processes t = processes s" "queue_level t = queue_level s" "n_processes t = n_processes s"
    and "\<And>p. pid (heap t p) = pid (heap s p)" "\<And>p. priority (heap t p) = priority (heap s p)"
      "\<And>p. tickets (heap t p) = tickets (heap s p)"
  shows "table_ok t = table_ok s"
  using assms by (simp add: table_ok_def registered_def)

lemma states_ok_cong:
  assumes "processes t = processes s" "current_process t = current_process s"
    "active_algorithm t = active_algorithm s"
    and "\<And>p. state (heap t p) = state (heap s p)"
  shows "states_ok t rq mls = states_ok s rq mls"
  using assms by (simp add: states_ok_def registered_def)

lemma preempt_ok [simp]:
  "table_ok (preempt_disable s) = table_ok s"
  "table_ok (preempt_enable s) = table_ok s"
  "states_ok (preempt_disable s) rq mls = states_ok s rq mls"
  "states_ok (preempt_enable s) rq mls = states_ok s rq mls"
  by (rule table_ok_cong states_ok_cong; simp add: preempt_disable_def preempt_enable_def)+

lemma sched_inv_preempt [simp]:
  "sched_inv (preempt_disable s) rq mls = sched_inv s rq mls"
  "sched_inv (preempt_enable s) rq mls = sched_inv s rq mls"
  by (simp_all add: sched_inv_def)

subsection \<open>Waking a process up\<close>

text \<open>A registered process that is blocked becomes READY and is placed in a queue.\<close>

lemma place_shape:
  assumes "place s p rq mls = (rq', mls')"
    and "if ml_policy (active_algorithm s) = None then concat mls = [] else rq = []"
  shows "if ml_policy (active_algorithm s) = None then concat mls' = [] else rq' = []"
  using assms by (auto simp: place_def split: option.splits if_splits)

lemma states_ok_insert:
  assumes ok: "states_ok s rq mls" and p: "registered s p" "p \<noteq> init_process"
    and qd: "queued rq' mls' = insert p (queued rq mls)" "length mls' = length mls"
    and shape: "if ml_policy (active_algorithm s) = None then concat mls' = [] else rq' = []"
    and t: "processes t = processes s" "current_process t = current_process s"
      "active_algorithm t = active_algorithm s"
      "\<And>x. state (heap t x) = (if x = p then PROCESS_READY else state (heap s x))"
  shows "states_ok t rq' mls'"
  unfolding states_ok_def qd t registered_def
  using ok p shape unfolding states_ok_def registered_def
  by (auto split: if_splits)

lemma states_ok_shape:
  "states_ok s rq mls \<Longrightarrow> if ml_policy (active_algorithm s) = None then concat mls = [] else rq = []"
  unfolding states_ok_def by blast

lemma states_ok_wake:
  assumes ok: "states_ok s rq mls" and p: "registered s p" "p \<noteq> init_process"
    and lok: "level_ok s (length mls) p"
    and pl: "place s p rq mls = (rq', mls')"
    and t: "processes t = processes s" "current_process t = current_process s"
      "active_algorithm t = active_algorithm s"
      "\<And>x. state (heap t x) = (if x = p then PROCESS_READY else state (heap s x))"
  shows "states_ok t rq' mls'"
  by (rule states_ok_insert [OF ok p queued_place [OF lok pl] place_shape [OF pl states_ok_shape [OF ok]] t])

lemma park_states_ok:
  assumes ok: "states_ok s rq mls" and tab: "table_ok s"
    and pk: "park s rq mls = (v1, rq1, mls1)"
  shows "states_ok v1 rq1 mls1 \<and> table_ok v1 \<and> \<not> current_runnable v1 \<and>
         current_process v1 = current_process s"
proof (cases "current_runnable s")
  case False
  then show ?thesis using assms by (auto simp: park_def Let_def)
next
  case True
  let ?c = "current_process s"
  have v1: "v1 = upd_pcb ?c set_ready s" and pl: "place s ?c rq mls = (rq1, mls1)"
    using pk True by (auto simp: park_def Let_def)
  have c: "registered s ?c" "?c \<noteq> init_process"
    using ok True by (auto simp: states_ok_def current_runnable_def)
  have "states_ok v1 rq1 mls1"
    by (rule states_ok_wake [OF ok c _ pl])
      (use ok registered_level_ok [OF tab c(1)] in \<open>auto simp: v1 states_ok_def\<close>)
  moreover have "table_ok v1 = table_ok s" unfolding v1 by (rule table_ok_cong) auto
  ultimately show ?thesis using tab by (auto simp: v1 current_runnable_def)
qed

subsection \<open>The contract of a selection\<close>

definition same_table :: "sched_state \<Rightarrow> sched_state \<Rightarrow> bool" where
  "same_table s t \<longleftrightarrow>
     processes t = processes s \<and> n_processes t = n_processes s \<and> queue_level t = queue_level s \<and>
     current_process t = current_process s \<and> active_algorithm t = active_algorithm s \<and>
     (\<forall>p. pid (heap t p) = pid (heap s p) \<and> priority (heap t p) = priority (heap s p) \<and>
          tickets (heap t p) = tickets (heap s p) \<and>
          preempt_disabled (heap t p) = preempt_disabled (heap s p))"

lemma same_table_refl [simp]: "same_table s s"
  by (simp add: same_table_def)

lemma same_table_trans: "same_table s t \<Longrightarrow> same_table t u \<Longrightarrow> same_table s u"
  by (simp add: same_table_def)

lemma same_table_view [simp]:
  "same_table (view s) t = same_table s t" "same_table s (view t) = same_table s t"
  by (simp_all add: same_table_def)

lemma same_table_ok: "same_table s t \<Longrightarrow> table_ok t = table_ok s"
  unfolding same_table_def by (intro table_ok_cong) auto

lemma same_table_registered: "same_table s t \<Longrightarrow> registered t = registered s"
  by (simp add: same_table_def registered_def fun_eq_iff)

definition ready_inv :: "sched_state \<Rightarrow> pcb_id list \<Rightarrow> pcb_id list list \<Rightarrow> bool" where
  "ready_inv s rq mls \<longleftrightarrow> sched_inv s rq mls \<and> \<not> current_runnable s"

text \<open>A selection takes processes out of the queues. The one it returns is READY; the others it
  took out had a kill or stop signal pending and are zombies or stopped now. It returns none only
  when nothing is left.\<close>

definition selected :: "sched_state \<Rightarrow> pcb_id set \<Rightarrow> pcb_ptr \<Rightarrow> sched_state \<Rightarrow> pcb_id set \<Rightarrow> bool" where
  "selected s Q r t Q' \<longleftrightarrow>
     same_table s t \<and> Q' \<subseteq> Q \<and>
     (\<forall>x. x \<notin> Q - Q' \<longrightarrow> state (heap t x) = state (heap s x)) \<and>
     (\<forall>x \<in> Q - Q'. if r = Some x then state (heap t x) = PROCESS_READY \<and> \<not> condemned (heap s x)
        else condemned (heap s x) \<and> state (heap t x) \<in> {PROCESS_ZOMBIE, PROCESS_STOPPED}) \<and>
     (case r of None \<Rightarrow> Q' = {} | Some p \<Rightarrow> p \<in> Q \<and> p \<notin> Q')"

definition shrinks ::
  "pcb_id list \<Rightarrow> pcb_id list list \<Rightarrow> pcb_id list \<Rightarrow> pcb_id list list \<Rightarrow> bool" where
  "shrinks rq mls rq' mls' \<longleftrightarrow>
     length mls' = length mls \<and> set rq' \<subseteq> set rq \<and> set (concat mls') \<subseteq> set (concat mls)"

lemma selected_view [simp]:
  "selected (view s) Q r t Q' = selected s Q r t Q'"
  "selected s Q r (view t) Q' = selected s Q r t Q'"
  by (simp_all add: selected_def condemned_def)

text \<open>The frame that all selection functions share.\<close>

definition pick_with ::
  "(sched_state \<Rightarrow> (pcb_ptr \<times> sched_state) option) \<Rightarrow> sched_state \<Rightarrow> sched_state option" where
  "pick_with select s = do {
     let s1 = preempt_disable s;
     s2 \<leftarrow> (if current_runnable s1
            then alg_enqueue (active_algorithm s1) (current_process s1) s1 else Some s1);
     (next, s3) \<leftarrow> select s2;
     Some (preempt_enable (switch_to_process (or_init next) s3))
   }"

text \<open>What a completed dispatch guarantees, whatever the algorithm.\<close>

definition dispatched :: "sched_state \<Rightarrow> sched_state \<Rightarrow> bool" where
  "dispatched s t \<longleftrightarrow>
     processes t = processes s \<and> n_processes t = n_processes s \<and> queue_level t = queue_level s \<and>
     active_algorithm t = active_algorithm s \<and>
     state (heap t (current_process t)) = PROCESS_RUNNING \<and>
     (\<forall>x. preempt_disabled (heap t x) =
        preempt_disabled (heap s x) + (if x = current_process s then 1 else 0)
          - (if x = current_process t then 1 else 0)) \<and>
     (\<forall>p. registered s p \<longrightarrow> p \<noteq> init_process \<longrightarrow>
        (if p = current_process t then \<not> condemned (heap s p) \<and>
              (state (heap s p) = PROCESS_READY \<or> p = current_process s \<and> state (heap s p) = PROCESS_RUNNING)
         else if state (heap s p) \<in> {PROCESS_READY, PROCESS_RUNNING} then
              state (heap t p) = PROCESS_READY \<or>
              condemned (heap s p) \<and> state (heap t p) \<in> {PROCESS_ZOMBIE, PROCESS_STOPPED}
         else state (heap t p) = state (heap s p))) \<and>
     (current_process t = init_process \<longrightarrow>
        (\<forall>p. registered t p \<longrightarrow> p \<noteq> init_process \<longrightarrow> state (heap t p) \<noteq> PROCESS_READY))"

lemma switch_fields [simp]:
  "processes (switch_to_process n s) = processes s"
  "n_processes (switch_to_process n s) = n_processes s"
  "queue_level (switch_to_process n s) = queue_level s"
  "active_algorithm (switch_to_process n s) = active_algorithm s"
  "current_process (switch_to_process n s) = n"
  "pid (heap (switch_to_process n s) x) = pid (heap s x)"
  "priority (heap (switch_to_process n s) x) = priority (heap s x)"
  "tickets (heap (switch_to_process n s) x) = tickets (heap s x)"
  "preempt_disabled (heap (switch_to_process n s) x) = preempt_disabled (heap s x)"
  "pending_signals (heap (switch_to_process n s) x) = pending_signals (heap s x)"
  by (simp_all add: switch_to_process_def cpu_switch_to_process_def set_pgd_def Let_def)

lemma switch_state [simp]:
  "state (heap (switch_to_process n s) x) =
     (if x = n then PROCESS_RUNNING
      else if x = current_process s \<and> state (heap s x) = PROCESS_RUNNING then PROCESS_READY
      else state (heap s x))"
  by (simp add: switch_to_process_def cpu_switch_to_process_def set_pgd_def Let_def)

lemma preempt_fields [simp]:
  "processes (preempt_enable s) = processes s"
  "n_processes (preempt_enable s) = n_processes s"
  "queue_level (preempt_enable s) = queue_level s"
  "active_algorithm (preempt_enable s) = active_algorithm s"
  "current_process (preempt_enable s) = current_process s"
  "state (heap (preempt_enable s) x) = state (heap s x)"
  "pending_signals (heap (preempt_enable s) x) = pending_signals (heap s x)"
  "processes (preempt_disable s) = processes s"
  "n_processes (preempt_disable s) = n_processes s"
  "pending_signals (heap (preempt_disable s) x) = pending_signals (heap s x)"
  "registered (preempt_disable s) = registered s"
  "registered (preempt_enable s) = registered s"
  by (simp_all add: preempt_enable_def preempt_disable_def)

lemma preempt_count:
  "preempt_disabled (heap (preempt_enable s) x) =
     preempt_disabled (heap s x) - (if x = current_process s then 1 else 0)"
  "preempt_disabled (heap (preempt_disable s) x) =
     preempt_disabled (heap s x) + (if x = current_process s then 1 else 0)"
  by (simp_all add: preempt_enable_def preempt_disable_def)

lemma table_ok_switch [simp]: "table_ok (switch_to_process n s) = table_ok s"
  by (rule table_ok_cong) simp_all

lemma states_ok_switch:
  assumes ok: "states_ok s rq mls" and idle: "\<not> current_runnable s" and tab: "table_ok s"
    and sel: "selected s (queued rq mls) r t (queued rq' mls')"
    and shape: "shrinks rq mls rq' mls'"
  shows "states_ok (switch_to_process (or_init r) t) rq' mls'"
proof -
  let ?n = "or_init r" and ?Q = "queued rq mls" and ?Q' = "queued rq' mls'"
  have st: "same_table s t" and sub: "?Q' \<subseteq> ?Q" using sel unfolding selected_def by blast+
  have eqs: "processes t = processes s" "current_process t = current_process s"
    "active_algorithm t = active_algorithm s" using st by (simp_all add: same_table_def)
  have reg: "registered (switch_to_process ?n t) = registered s"
    by (simp add: registered_def fun_eq_iff eqs)
  have r: "r = Some p \<Longrightarrow> p \<in> ?Q \<and> p \<notin> ?Q'" "r = None \<Longrightarrow> ?Q' = {}" for p
    using sel unfolding selected_def by auto
  have n: "registered s ?n" "?n \<notin> ?Q'"
    using r ok registered_init [OF tab] unfolding states_ok_def
    by (cases r; auto simp: or_init_def)+
  have cur: "state (heap s (current_process s)) = PROCESS_RUNNING \<Longrightarrow> current_process s = init_process"
    using idle by (auto simp: current_runnable_def)
  have keep: "x \<notin> ?Q - ?Q' \<Longrightarrow> state (heap t x) = state (heap s x)" for x
    using sel unfolding selected_def by blast
  have gone: "x \<in> ?Q - ?Q' \<Longrightarrow> r \<noteq> Some x \<Longrightarrow> state (heap t x) \<in> {PROCESS_ZOMBIE, PROCESS_STOPPED}" for x
    using sel unfolding selected_def by metis
  have ready: "registered s p \<Longrightarrow> p \<noteq> init_process \<Longrightarrow> (state (heap s p) = PROCESS_READY \<longleftrightarrow> p \<in> ?Q)"
    and inQ: "p \<in> ?Q \<Longrightarrow> registered s p \<and> p \<noteq> init_process"
    and run: "registered s p \<Longrightarrow> state (heap s p) = PROCESS_RUNNING \<Longrightarrow> p = current_process s" for p
    using ok unfolding states_ok_def by blast+
  have nr: "r \<noteq> Some x" if "x \<noteq> ?n" for x using that by (auto simp: or_init_def)
  show ?thesis
    unfolding states_ok_def reg
  proof (intro conjI allI impI ballI)
    show "registered s (current_process (switch_to_process ?n t))" using n by simp
  next
    fix p assume p: "registered s p" "p \<noteq> init_process"
    show "state (heap (switch_to_process ?n t) p) = PROCESS_READY \<longleftrightarrow> p \<in> ?Q'"
    proof (cases "p = ?n")
      case True then show ?thesis using n by simp
    next
      case False
      have "\<not> (p = current_process t \<and> state (heap t p) = PROCESS_RUNNING)"
        using cur keep [of p] gone [of p] nr [OF False] p eqs by fastforce
      then have "state (heap (switch_to_process ?n t) p) = state (heap t p)" using False by auto
      then show ?thesis
        using keep [of p] gone [of p] nr [OF False] ready [OF p] sub by (cases "p \<in> ?Q - ?Q'") auto
    qed
  next
    fix p assume "p \<in> ?Q'"
    then have "p \<in> ?Q" using sub by (rule rev_subsetD)
    then show "registered s p" "p \<noteq> init_process" using inQ by blast+
  next
    fix p assume p: "registered s p" "state (heap (switch_to_process ?n t) p) = PROCESS_RUNNING"
    show "p = current_process (switch_to_process ?n t)"
    proof (rule ccontr)
      assume "p \<noteq> current_process (switch_to_process ?n t)"
      then have ne: "p \<noteq> ?n" by simp
      then have "state (heap t p) = PROCESS_RUNNING" "p \<noteq> current_process t"
        using p(2) by (auto split: if_splits)
      then show False using keep [of p] gone [of p] nr [OF ne] run [OF p(1)] eqs by fastforce
    qed
  next
    show "length mls' = ML_MAX_LEVELS" using shape ok by (simp add: states_ok_def shrinks_def)
  next
    have "if ml_policy (active_algorithm s) = None then concat mls = [] else rq = []"
      using ok unfolding states_ok_def by blast
    then show "if ml_policy (active_algorithm (switch_to_process ?n t)) = None then concat mls' = [] else rq' = []"
      using shape unfolding shrinks_def switch_fields eqs
      by (metis list.set(1) set_empty subset_empty)
  qed
qed


lemma park_inv:
  assumes inv: "sched_inv s rq mls" and s1: "s1 = preempt_disable s"
  shows "\<exists>s2 rq2 mls2.
    (if current_runnable s1 then alg_enqueue (active_algorithm s1) (current_process s1) s1
     else Some s1) = Some s2 \<and> ready_inv s2 rq2 mls2 \<and> same_table s1 s2 \<and>
    park (view s1) rq mls = (view s2, rq2, mls2) \<and>
    queued rq2 mls2 = (if current_runnable s then {current_process s} else {}) \<union> queued rq mls \<and>
    (\<forall>x. state (heap s2 x) =
       (if x = current_process s \<and> current_runnable s then PROCESS_READY else state (heap s x))) \<and>
    (\<forall>x. pending_signals (heap s2 x) = pending_signals (heap s x))"
proof -
  obtain v2 rq2 mls2 where pk: "park (view s1) rq mls = (v2, rq2, mls2)"
    by (rule prod_cases3)
  have inv1: "sched_inv s1 rq mls" using inv s1 by simp
  then have q: "queues s1 rq mls" and tab: "table_ok s1" and st: "states_ok s1 rq mls"
    by (simp_all add: sched_inv_def)
  from park_refines [OF q inv_parkable [OF inv1] pk] obtain s2 where
    s2: "(if current_runnable s1 then alg_enqueue (active_algorithm s1) (current_process s1) s1
     else Some s1) = Some s2" "queues s2 rq2 mls2" "view s2 = v2" by blast
  have ok: "states_ok v2 rq2 mls2 \<and> table_ok v2 \<and> \<not> current_runnable v2"
    using park_states_ok [OF _ _ pk] st tab by simp
  have v2: "v2 = (if current_runnable s1 then upd_pcb (current_process s1) set_ready (view s1) else view s1)"
    using pk by (auto simp: park_def Let_def split: if_splits)
  have ready: "ready_inv s2 rq2 mls2"
    using ok [folded s2(3)] s2(2) by (simp add: ready_inv_def sched_inv_def)
  have "same_table s1 v2" by (simp add: v2 same_table_def)
  then have same: "same_table s1 s2" using s2(3) by auto
  have eqs: "current_runnable s1 = current_runnable s" "current_process s1 = current_process s"
    by (simp_all add: s1)
  have qd: "queued rq2 mls2 = (if current_runnable s then {current_process s} else {}) \<union> queued rq mls"
  proof (cases "current_runnable s1")
    case True
    then have "place s1 (current_process s1) rq mls = (rq2, mls2)" using pk by (simp add: park_def Let_def)
    moreover have "level_ok s1 (length mls) (current_process s1)"
      using True inv_parkable [OF inv1] by (simp add: parkable_def)
    ultimately show ?thesis using queued_place(1) [of s1 mls "current_process s1" rq rq2 mls2] True eqs
      by (simp only: if_True) blast
  next
    case False
    then show ?thesis using pk eqs by (simp add: park_def Let_def)
  qed
  have sx: "state (heap s2 x) =
       (if x = current_process s \<and> current_runnable s then PROCESS_READY else state (heap s x))" for x
    using arg_cong [OF s2(3), of "\<lambda>v. state (heap v x)"] by (auto simp: v2 s1)
  have px: "pending_signals (heap s2 x) = pending_signals (heap s x)" for x
    using arg_cong [OF s2(3), of "\<lambda>v. pending_signals (heap v x)"] by (auto simp: v2 s1)
  show ?thesis
    by (rule exI [of _ s2], rule exI [of _ rq2], rule exI [of _ mls2], intro conjI allI)
      (rule s2(1) ready same pk [folded s2(3)] qd sx px)+
qed

lemma selectedD:
  assumes "selected s Q r t Q'"
  shows "same_table s t" "Q' \<subseteq> Q"
    "x \<notin> Q - Q' \<Longrightarrow> state (heap t x) = state (heap s x)"
    "x \<in> Q - Q' \<Longrightarrow> r \<noteq> Some x \<Longrightarrow>
       condemned (heap s x) \<and> state (heap t x) \<in> {PROCESS_ZOMBIE, PROCESS_STOPPED}"
    "r = Some p \<Longrightarrow> p \<in> Q \<and> p \<notin> Q' \<and> \<not> condemned (heap s p) \<and> state (heap t p) = PROCESS_READY"
    "r = None \<Longrightarrow> Q' = {}"
  using assms unfolding selected_def by (auto split: if_splits)

lemma sched_invD:
  assumes "sched_inv s rq mls"
  shows "queues s rq mls" "table_ok s" "states_ok s rq mls" "registered s (current_process s)"
    "registered s p \<Longrightarrow> p \<noteq> init_process \<Longrightarrow> state (heap s p) = PROCESS_READY \<longleftrightarrow> p \<in> queued rq mls"
    "p \<in> queued rq mls \<Longrightarrow> registered s p \<and> p \<noteq> init_process \<and> state (heap s p) = PROCESS_READY"
    "registered s p \<Longrightarrow> state (heap s p) = PROCESS_RUNNING \<Longrightarrow> p = current_process s"
    "length mls = ML_MAX_LEVELS"
  using assms unfolding sched_inv_def states_ok_def by blast+

lemma table_okD:
  assumes "table_ok s"
  shows "length (processes s) = N_PROCESSES" "length (queue_level s) = N_PROCESSES"
    "i < N_PROCESSES \<Longrightarrow> processes s ! i = Some p \<Longrightarrow> pid (heap s p) = int i"
    "registered s p \<Longrightarrow> 1 \<le> priority (heap s p)"
    "registered s p \<Longrightarrow> tickets (heap s p) \<le> 2 ^ 31 - 1"
    "i < N_PROCESSES \<Longrightarrow> processes s ! i = None \<longleftrightarrow> n_processes s \<le> int i"
    "1 \<le> n_processes s" "n_processes s \<le> int N_PROCESSES" "processes s ! 0 = Some init_process"
    "\<forall>l \<in> set (queue_level s). 0 \<le> l \<and> l < int ML_MAX_LEVELS"
  using assms unfolding table_ok_def by blast+

lemma no_levels:
  assumes "sched_inv s rq mls" "ml_policy (active_algorithm s) = None"
  shows "set (concat mls) = {}"
  using assms unfolding sched_inv_def states_ok_def by simp

lemma selected_same:
  "selected s Q r u Q' \<Longrightarrow> same_table s t \<Longrightarrow> (\<And>x. state (heap t x) = state (heap u x)) \<Longrightarrow> selected s Q r t Q'"
  by (simp only: selected_def simp_thms) blast

subsection \<open>What every selection function guarantees\<close>

text \<open>\<open>select\<close> is the search for the next process that the algorithm \<open>alg\<close> performs once the outgoing
  process is back in its queue. From its contract follow totality of the dispatch, preservation of
  the invariant, and the guarantees collected in \<open>dispatched\<close>.\<close>

locale selector =
  fixes alg :: SchedAlgorithm
    and select :: "sched_state \<Rightarrow> (pcb_ptr \<times> sched_state) option"
  assumes select_selected:
    "ready_inv s rq mls \<Longrightarrow> active_algorithm s = alg \<Longrightarrow>
     \<exists>r t rq' mls'. select s = Some (r, t) \<and> queues t rq' mls' \<and> shrinks rq mls rq' mls' \<and>
       selected s (queued rq mls) r t (queued rq' mls')"
begin

lemma pick_refines:
  assumes inv: "sched_inv s rq mls" and alg: "active_algorithm s = alg"
  shows "\<exists>s2 rq2 mls2 r t rq' mls'.
    ready_inv s2 rq2 mls2 \<and> same_table (preempt_disable s) s2 \<and>
    queued rq2 mls2 = (if current_runnable s then {current_process s} else {}) \<union> queued rq mls \<and>
    (\<forall>x. state (heap s2 x) =
       (if x = current_process s \<and> current_runnable s then PROCESS_READY else state (heap s x))) \<and>
    (\<forall>x. pending_signals (heap s2 x) = pending_signals (heap s x)) \<and>
    selected s2 (queued rq2 mls2) r t (queued rq' mls') \<and>
    pick_with select s = Some (preempt_enable (switch_to_process (or_init r) t)) \<and>
    sched_inv (preempt_enable (switch_to_process (or_init r) t)) rq' mls'"
proof -
  from park_inv [OF inv refl] obtain s2 rq2 mls2 where
    s2: "(if current_runnable (preempt_disable s)
          then alg_enqueue (active_algorithm (preempt_disable s)) (current_process (preempt_disable s)) (preempt_disable s)
          else Some (preempt_disable s)) = Some s2"
      "ready_inv s2 rq2 mls2" "same_table (preempt_disable s) s2"
    and facts: "queued rq2 mls2 = (if current_runnable s then {current_process s} else {}) \<union> queued rq mls"
      "\<forall>x. state (heap s2 x) =
       (if x = current_process s \<and> current_runnable s then PROCESS_READY else state (heap s x))"
      "\<forall>x. pending_signals (heap s2 x) = pending_signals (heap s x)" by blast
  have a2: "active_algorithm s2 = alg" using s2(3) alg by (simp add: same_table_def)
  from select_selected [OF s2(2) a2] obtain r t rq' mls' where
    sel: "select s2 = Some (r, t)" "queues t rq' mls'" "shrinks rq2 mls2 rq' mls'"
      "selected s2 (queued rq2 mls2) r t (queued rq' mls')" by blast
  let ?u = "switch_to_process (or_init r) t"
  have st: "states_ok s2 rq2 mls2" "table_ok s2" "\<not> current_runnable s2"
    using s2(2) by (simp_all add: ready_inv_def sched_inv_def)
  have "states_ok ?u rq' mls'" by (rule states_ok_switch [OF st(1,3,2) sel(4,3)])
  moreover have "table_ok t" using same_table_ok [OF selectedD(1) [OF sel(4)]] st(2) by simp
  ultimately have inv': "sched_inv (preempt_enable ?u) rq' mls'" using sel(2) by (simp add: sched_inv_def)
  have pick: "pick_with select s = Some (preempt_enable ?u)"
    unfolding pick_with_def Let_def s2(1) by (simp add: sel(1))
  show ?thesis
    by (intro exI conjI) (rule s2(2,3) facts sel(4) pick inv')+
qed

lemma pick_total:
  assumes "sched_inv s rq mls" "active_algorithm s = alg"
  shows "\<exists>t rq' mls'. pick_with select s = Some t \<and> sched_inv t rq' mls'"
  using pick_refines [OF assms] by blast

lemma pick_dispatched:
  assumes inv: "sched_inv s rq mls" and alg: "active_algorithm s = alg" and t: "pick_with select s = Some t"
  shows "dispatched s t"
proof -
  from pick_refines [OF inv alg] obtain s2 rq2 mls2 r u rq' mls' where
    ready: "ready_inv s2 rq2 mls2" and same: "same_table (preempt_disable s) s2"
    and Q: "queued rq2 mls2 = (if current_runnable s then {current_process s} else {}) \<union> queued rq mls"
    and st2: "\<And>x. state (heap s2 x) =
       (if x = current_process s \<and> current_runnable s then PROCESS_READY else state (heap s x))"
    and pend: "\<And>x. pending_signals (heap s2 x) = pending_signals (heap s x)"
    and sel: "selected s2 (queued rq2 mls2) r u (queued rq' mls')"
    and t': "pick_with select s = Some (preempt_enable (switch_to_process (or_init r) u))"
    and inv': "sched_inv (preempt_enable (switch_to_process (or_init r) u)) rq' mls'" by blast
  let ?Q = "queued rq2 mls2" and ?Q' = "queued rq' mls'" and ?n = "or_init r"
  have teq: "t = preempt_enable (switch_to_process ?n u)" using t t' by simp
  have su: "same_table (preempt_disable s) u"
    using same_table_trans [OF same selectedD(1) [OF sel]] .
  have cond: "condemned (heap s2 x) = condemned (heap s x)" for x by (simp add: condemned_def pend)
  have cu: "current_process u = current_process s" "processes u = processes s"
    using su by (simp_all add: same_table_def)
  have pre: "preempt_disabled (heap u x) = preempt_disabled (heap s x) + (if x = current_process s then 1 else 0)" for x
    using su by (simp add: same_table_def preempt_count)
  have reg: "registered t = registered s" "registered s2 = registered s"
    using same cu by (simp_all add: teq registered_def fun_eq_iff same_table_def)
  have ct: "current_process t = ?n" by (simp add: teq)
  have keep: "x \<notin> ?Q - ?Q' \<Longrightarrow> state (heap u x) = state (heap s2 x)" 
    and gone: "x \<in> ?Q - ?Q' \<Longrightarrow> r \<noteq> Some x \<Longrightarrow> condemned (heap s x) \<and> state (heap u x) \<in> {PROCESS_ZOMBIE, PROCESS_STOPPED}" for x
    using selectedD(3,4) [OF sel] unfolding cond by blast+
  have r: "r = Some p \<Longrightarrow> p \<in> ?Q \<and> \<not> condemned (heap s p)" "r = None \<Longrightarrow> ?Q' = {}" for p
    using selectedD(5,6) [OF sel] unfolding cond by blast+
  have rdy2: "registered s p \<Longrightarrow> p \<noteq> init_process \<Longrightarrow> (state (heap s2 p) = PROCESS_READY \<longleftrightarrow> p \<in> ?Q)"
    and rdy': "registered s p \<Longrightarrow> p \<noteq> init_process \<Longrightarrow> (state (heap t p) = PROCESS_READY \<longleftrightarrow> p \<in> ?Q')" for p
    using sched_invD(5) [OF ready [unfolded ready_inv_def, THEN conjunct1], of p]
      sched_invD(5) [OF inv', of p] unfolding reg teq [symmetric] by simp_all
  have run: "state (heap s p) = PROCESS_RUNNING \<Longrightarrow> registered s p \<Longrightarrow> p = current_process s" for p
    using sched_invD(7) [OF inv] by blast
  have moves: "if p = current_process t then \<not> condemned (heap s p) \<and>
          (state (heap s p) = PROCESS_READY \<or> p = current_process s \<and> state (heap s p) = PROCESS_RUNNING)
        else if state (heap s p) \<in> {PROCESS_READY, PROCESS_RUNNING} then
          state (heap t p) = PROCESS_READY \<or>
          condemned (heap s p) \<and> state (heap t p) \<in> {PROCESS_ZOMBIE, PROCESS_STOPPED}
        else state (heap t p) = state (heap s p)"
    if p: "registered s p" "p \<noteq> init_process" for p
  proof (cases "p = ?n")
    case True
    then have rp: "r = Some p" using p(2) by (auto simp: or_init_def split: option.splits)
    then have "state (heap s2 p) = PROCESS_READY" using rdy2 [OF p] r(1) by simp
    then show ?thesis using r(1) [OF rp] True ct st2 [of p] by (auto simp: current_runnable_def split: if_splits)
  next
    case False
    have nr: "r \<noteq> Some p" using False by (auto simp: or_init_def)
    have cr: "current_runnable s" if "p = current_process s" "state (heap s p) = PROCESS_RUNNING"
      using that p(2) by (simp add: current_runnable_def)
    have ns: "\<not> (p = current_process u \<and> state (heap u p) = PROCESS_RUNNING)"
    proof (cases "p \<in> ?Q - ?Q'")
      case True
      then show ?thesis using gone [OF True nr] by (simp only: insert_iff empty_iff) auto
    next
      case False
      then show ?thesis unfolding keep [OF False] st2 cu using cr by (auto split: if_splits)
    qed
    then have tu: "state (heap t p) = state (heap u p)" using False by (auto simp: teq)
    have "state (heap s p) \<in> {PROCESS_READY, PROCESS_RUNNING} \<longleftrightarrow> state (heap s2 p) = PROCESS_READY"
    proof (cases "p = current_process s")
      case True
      then have "current_runnable s \<longleftrightarrow> state (heap s p) = PROCESS_RUNNING"
        using p(2) by (simp add: current_runnable_def)
      then show ?thesis using st2 [of p] True by simp
    next
      case False
      then show ?thesis using st2 [of p] run [OF _ p(1)] by auto
    qed
    note iff = this
    show ?thesis
    proof (cases "p \<in> ?Q - ?Q'")
      case True
      then have "state (heap s p) \<in> {PROCESS_READY, PROCESS_RUNNING}" using iff rdy2 [OF p] by blast
      then show ?thesis using gone [OF True nr] False unfolding ct tu by (simp del: insert_iff)
    next
      case out: False
      have "state (heap t p) = state (heap s2 p)" using tu keep [OF out] by simp
      then show ?thesis using iff False ct st2 [of p] by (auto simp: current_runnable_def)
    qed
  qed
  have idle: "\<forall>p. registered t p \<longrightarrow> p \<noteq> init_process \<longrightarrow> state (heap t p) \<noteq> PROCESS_READY"
    if "current_process t = init_process"
  proof -
    have "?n = init_process" using that ct by simp
    moreover have "r = Some p \<Longrightarrow> p \<noteq> init_process" for p
      using r(1) sched_invD(6) [OF ready [unfolded ready_inv_def, THEN conjunct1]] by blast
    ultimately have "r = None" by (cases r) (auto simp: or_init_def)
    then have empty: "?Q' = {}" by (rule r(2))
    show ?thesis
    proof (intro allI impI)
      fix p assume "registered t p" "p \<noteq> init_process"
      then have "state (heap t p) = PROCESS_READY \<longleftrightarrow> p \<in> ?Q'" unfolding reg by (rule rdy')
      then show "state (heap t p) \<noteq> PROCESS_READY" unfolding empty by simp
    qed
  qed
  have frame: "processes t = processes s" "n_processes t = n_processes s" "queue_level t = queue_level s"
    "active_algorithm t = active_algorithm s" "state (heap t (current_process t)) = PROCESS_RUNNING"
    "\<forall>x. preempt_disabled (heap t x) =
        preempt_disabled (heap s x) + (if x = current_process s then 1 else 0)
          - (if x = current_process t then 1 else 0)"
    using su by (simp_all add: teq same_table_def pre preempt_count)
  show ?thesis
    unfolding dispatched_def
    by (intro conjI; (rule frame allI impI moves idle; assumption?)+)
qed

end

end
