(* ===== verification/Selection_Queue.thy ===== *)
theory Selection_Queue
  imports Scheduler_Invariant
begin

text \<open>
  The search of Round Robin, FCFS and SJF: the head of the ready queue that is still READY after its
  signals are handled. It meets the contract of \<open>selector\<close>.
\<close>

lemma ready_invD:
  assumes "ready_inv s rq mls"
  shows "sched_inv s rq mls" "queues s rq mls" "table_ok s" "distinct (rq @ concat mls)"
    "\<forall>p \<in> queued rq mls. state (heap s p) = PROCESS_READY"
  using assms sched_invD(1,2,6) unfolding ready_inv_def queues_def by blast+

lemma same_table_handled [simp]: "same_table s (handled A s)"
  by (simp add: same_table_def)

text \<open>Handling the signals of a set of queued processes and taking them out is a selection when
  at most the last one was not condemned.\<close>

lemma selected_handled:
  assumes A: "A \<subseteq> Q" and ready: "\<forall>x \<in> A. state (heap s x) = PROCESS_READY"
    and r: "case r of None \<Rightarrow> A = Q \<and> (\<forall>x \<in> A. condemned (heap s x))
            | Some p \<Rightarrow> p \<in> A \<and> \<not> condemned (heap s p) \<and> (\<forall>x \<in> A - {p}. condemned (heap s x))"
  shows "selected s Q r (handled A s) (Q - A)"
proof -
  have "Q - (Q - A) = A" using A by blast
  then show ?thesis
    using A ready r unfolding selected_def
    by (auto simp: signal_effect_state condemned_def split: option.splits)
qed

lemma ready_pick_subset: "ready_pick xs v = (r, ys, v') \<Longrightarrow> set ys \<subseteq> set xs"
  by (induction xs arbitrary: v) (auto simp: Let_def split: if_splits)

lemma selected_ready_pick:
  assumes "distinct xs" and "\<forall>p \<in> set xs. state (heap v p) = PROCESS_READY"
    and "set xs \<subseteq> Q" "Q - set xs = R" and "ready_pick xs v = (r, ys, v')" "r = None \<longrightarrow> R = {}"
  shows "selected v Q r v' (set ys \<union> R)"
proof -
  let ?c = "\<lambda>p. condemned (heap v p)"
  show ?thesis
  proof (cases "dropWhile ?c xs")
    case Nil
    then have eqs: "r = None" "ys = []" "v' = handled (set xs) v"
      using assms(5) ready_pick_eq [OF assms(1,2)] by (simp_all del: dropWhile_eq_Nil_conv)
    moreover have "\<forall>x \<in> set xs. ?c x" using Nil by (simp add: dropWhile_eq_Nil_conv)
    moreover have "Q = set xs" using assms(3,4,6) eqs by blast
    ultimately show ?thesis using selected_handled [of "set xs" Q v None] assms(2,4) by simp
  next
    case (Cons p rest)
    let ?T = "set (takeWhile ?c xs)"
    have eqs: "r = Some p" "ys = rest" "v' = handled (insert p ?T) v"
      using Cons assms(5) ready_pick_eq [OF assms(1,2)] by simp_all
    have xs: "xs = takeWhile ?c xs @ p # rest" using Cons takeWhile_dropWhile_id [of ?c xs] by simp
    then have d: "distinct (takeWhile ?c xs @ p # rest)" and sx: "set xs = ?T \<union> insert p (set rest)"
      using assms(1) by (metis, metis list.simps(15) set_append)
    have np: "\<not> ?c p" using Cons hd_dropWhile [of ?c xs] by simp
    have cT: "\<forall>x \<in> ?T. ?c x" by (auto dest: set_takeWhileD)
    have "selected v Q (Some p) (handled (insert p ?T) v) (Q - insert p ?T)"
      using np cT assms(2,3) sx by (intro selected_handled) auto
    moreover have "Q - insert p ?T = set rest \<union> R" using sx assms(3,4) d by auto
    ultimately show ?thesis using eqs by simp
  qed
qed

lemma dequeue_ready_loop_selected:
  assumes inv: "ready_inv s rq mls" and ml: "ml_policy (active_algorithm s) = None"
  shows "\<exists>r t rq' mls'. dequeue_ready_loop s = Some (r, t) \<and> queues t rq' mls' \<and>
           shrinks rq mls rq' mls' \<and> selected s (queued rq mls) r t (queued rq' mls')"
proof -
  note D = ready_invD [OF inv]
  have rdy: "\<forall>p \<in> set rq. state (heap s p) = PROCESS_READY" using D(5) by blast
  from dequeue_ready_loop_refines [OF D(2) rdy] obtain r rq' t where
    t: "dequeue_ready_loop s = Some (r, t)" "queues t rq' mls" "ready_pick rq (view s) = (r, rq', view t)"
    by blast
  have "concat mls = []" using inv ml unfolding ready_inv_def sched_inv_def states_ok_def by simp
  then have empty: "set (concat mls) = {}" by simp
  have "distinct rq" using D(4) by simp
  then have sel: "selected (view s) (queued rq mls) r (view t) (set rq' \<union> {})"
    by (intro selected_ready_pick [OF _ _ _ _ t(3)]; use rdy in \<open>simp add: empty del: set_concat\<close>)+
  have "selected s (queued rq mls) r t (queued rq' mls)"
    using sel unfolding empty selected_view .
  moreover have "shrinks rq mls rq' mls" using ready_pick_subset [OF t(3)] by (simp add: shrinks_def)
  ultimately show ?thesis using t(1,2) by blast
qed

text \<open>Recharging the counter of the chosen process is part of the selection of some algorithms.\<close>

definition select_recharged ::
  "int \<Rightarrow> (sched_state \<Rightarrow> (pcb_ptr \<times> sched_state) option) \<Rightarrow> sched_state \<Rightarrow> (pcb_ptr \<times> sched_state) option" where
  "select_recharged k select s = do { (r, t) \<leftarrow> select s; Some (r, recharge r k t) }"

lemma select_recharged_bind:
  "select_recharged k select s \<bind> (\<lambda>(n, t). f n t) = select s \<bind> (\<lambda>(n, t). f n (recharge n k t))"
  by (cases "select s") (auto simp: select_recharged_def)

lemma recharge_fields [simp]:
  "state (heap (recharge r k s) x) = state (heap s x)"
  "same_table t (recharge r k s) = same_table t s"
  by (auto simp: recharge_def same_table_def split: option.split)

lemma selected_recharge [simp]: "selected s Q r (recharge r' k t) Q' = selected s Q r t Q'"
  by (simp add: selected_def)

lemma select_recharged_selected:
  assumes "\<exists>r t rq' mls'. select s = Some (r, t) \<and> queues t rq' mls' \<and> shrinks rq mls rq' mls' \<and>
             selected s (queued rq mls) r t (queued rq' mls')"
  shows "\<exists>r t rq' mls'. select_recharged k select s = Some (r, t) \<and> queues t rq' mls' \<and>
             shrinks rq mls rq' mls' \<and> selected s (queued rq mls) r t (queued rq' mls')"
proof -
  from assms obtain r t rq' mls' where
    t: "select s = Some (r, t)" "queues t rq' mls'" "shrinks rq mls rq' mls'"
      "selected s (queued rq mls) r t (queued rq' mls')" by blast
  then have "select_recharged k select s = Some (r, recharge r k t)" by (simp add: select_recharged_def)
  moreover have "queues (recharge r k t) rq' mls'" using t(2) by simp
  moreover have "selected s (queued rq mls) r (recharge r k t) (queued rq' mls')"
    unfolding selected_recharge by (rule t(4))
  ultimately show ?thesis using t(3) by blast
qed

interpretation rr: selector sched_round_robin "select_recharged 10 dequeue_ready_loop"
  by unfold_locales (rule select_recharged_selected, rule dequeue_ready_loop_selected, assumption, simp)

interpretation fcfs: selector sched_fcfs dequeue_ready_loop
  by unfold_locales (rule dequeue_ready_loop_selected, assumption, simp)

interpretation sjf: selector sched_sjf dequeue_ready_loop
  by unfold_locales (rule dequeue_ready_loop_selected, assumption, simp)

lemma schedule_round_robin_pick:
  "active_algorithm s = sched_round_robin \<Longrightarrow>
   schedule_round_robin s = pick_with (select_recharged 10 dequeue_ready_loop) s"
  by (simp add: schedule_round_robin_def pick_with_def select_recharged_bind Let_def)

lemma schedule_queue_head_pick: "schedule_queue_head s = pick_with dequeue_ready_loop s"
  by (simp add: schedule_queue_head_def pick_with_def)

end
