(* ===== verification/Selection_Multilevel.thy ===== *)
theory Selection_Multilevel
  imports Selection_Queue
begin

text \<open>
  The search of the multilevel algorithms: the first level with a process that can run, and the first
  such process of that level. The level queues are refined to lists of lists.
\<close>

lemma queues_level: "queues s rq mls \<Longrightarrow> q < length mls \<Longrightarrow> queue_rep (heap s) (ml_queues s ! q) (mls ! q)"
  by (simp add: queues_def list_all2_conv_all_nth)

lemma dequeue_level_Nil:
  assumes q: "queues s rq mls" and l: "l < length mls" "mls ! l = []"
  shows "dequeue_level l s = Some (None, s)"
proof -
  have "l < length (ml_queues s)" using queues_levels_length [OF q] l by simp
  moreover have "queue_rep (heap s) (ml_queues s ! l) []" using queues_level [OF q l(1)] l(2) by simp
  ultimately show ?thesis
    by (simp add: dequeue_level_def array_get_def array_set_def dequeue_Nil)
qed

lemma distinct_concat_update:
  "l < length mls \<Longrightarrow> mls ! l = p # ps \<Longrightarrow>
   mset (concat mls) = add_mset p (mset (concat (mls[l := ps])))"
proof (induction mls arbitrary: l)
  case (Cons m mls)
  then show ?case by (cases l) auto
qed simp

lemma dequeue_level_Cons:
  assumes q: "queues s rq mls" and l: "l < length mls" "mls ! l = p # ps"
  shows "\<exists>s'. dequeue_level l s = Some (Some p, s') \<and> queues s' rq (mls[l := ps]) \<and> view s' = view s"
proof -
  let ?h = "(heap s)(p := (heap s p)\<lparr>next_ready := None\<rparr>)"
  have rep: "queue_rep (heap s) (ml_queues s ! l) (p # ps)" using queues_level [OF q l(1)] l(2) by simp
  from dequeue_Cons [OF rep] obtain q' where
    deq: "dequeue_process_from (ml_queues s ! l) (heap s) = (Some p, q', ?h)" and
    rep': "queue_rep ?h q' ps" by blast
  have len: "l < length (ml_queues s)" using queues_levels_length [OF q] l by simp
  have "queues (s\<lparr>ml_queues := (ml_queues s)[l := q'], heap := ?h\<rparr>) rq (mls[l := ps])"
  proof (rule queues_set_level [OF q l(1) rep'])
    show "same_link a (heap s) ?h" if "a \<notin> set (mls ! l)" for a using that l(2) by auto
    have "mset (rq @ concat mls) = mset (p # (rq @ concat (mls[l := ps])))"
      using distinct_concat_update [OF l] by simp
    then have "distinct (p # (rq @ concat (mls[l := ps])))"
      using q unfolding queues_def by (metis mset_eq_imp_distinct_iff)
    then show "distinct (rq @ concat (mls[l := ps]))" by simp
  qed
  then show ?thesis using deq len
    by (simp add: dequeue_level_def array_get_def array_set_def view_def payload_def fun_eq_iff)
qed

lemma level_loop_refines:
  assumes "queues s rq mls" "l < length mls" and "\<forall>p \<in> set (mls ! l). state (heap s p) = PROCESS_READY"
  shows "\<exists>r ys t. level_loop l s = Some (r, t) \<and> queues t rq (mls[l := ys]) \<and>
           ready_pick (mls ! l) (view s) = (r, ys, view t)"
  using assms
proof (induction "mls ! l" arbitrary: s mls)
  case Nil
  have e: "mls ! l = []" using Nil.hyps by simp
  have "level_loop l s = Some (None, s)"
    by (subst level_loop.simps) (simp add: dequeue_level_Nil [OF Nil.prems(1,2) e])
  moreover have "queues s rq (mls[l := []])" using Nil.prems(1) list_update_id [of mls l] e by simp
  ultimately show ?case by (simp add: e)
next
  case (Cons p ps)
  from dequeue_level_Cons [OF Cons.prems(1,2) Cons.hyps(2) [symmetric]] obtain s1 where
    deq: "dequeue_level l s = Some (Some p, s1)" and q1: "queues s1 rq (mls[l := ps])" and v1: "view s1 = view s"
    by blast
  have st: "state (heap s1 x) = state (heap s x)" for x
    using v1 by (metis payload_fields(2) view_fields(1))
  define s2 where "s2 = upd_pcb p signal_effect s1"
  have rdy: "\<forall>x \<in> set (p # ps). state (heap s x) = PROCESS_READY" using Cons.prems(3) Cons.hyps(2) by simp
  have sig: "handle_process_signals p s1 = Some s2"
    using rdy st by (simp add: s2_def handle_process_signals_eq)
  have q2: "queues s2 rq (mls[l := ps])" using q1 by (simp add: s2_def)
  have v2: "view s2 = upd_pcb p signal_effect (view s)" using v1 by (simp add: s2_def)
  have step: "level_loop l s =
      (if state (heap s2 p) = PROCESS_READY then Some (Some p, s2) else level_loop l s2)"
    by (subst level_loop.simps) (simp add: deq sig)
  have st2: "state (heap (upd_pcb p signal_effect (view s)) p) = state (heap s2 p)"
    by (metis v2 payload_fields(2) view_fields(1))
  show ?case
  proof (cases "state (heap s2 p) = PROCESS_READY")
    case True
    then show ?thesis using step q2 v2 st2 Cons.hyps(2) [symmetric] by (auto simp: Let_def)
  next
    case False
    have "distinct (p # ps)"
      using Cons.prems(1,2) Cons.hyps(2) queues_level queue_rep_distinct by fastforce
    then have "\<forall>x \<in> set (mls[l := ps] ! l). state (heap s2 x) = PROCESS_READY"
      using rdy st Cons.prems(2) by (auto simp: s2_def)
    then have "\<exists>r ys t. level_loop l s2 = Some (r, t) \<and> queues t rq (mls[l := ps, l := ys]) \<and>
           ready_pick (mls[l := ps] ! l) (view s2) = (r, ys, view t)"
      using Cons.hyps(1) [of "mls[l := ps]" s2] q2 Cons.prems(2) by simp
    then show ?thesis using False step v2 st2 Cons.hyps(2) [symmetric] Cons.prems(2) by (simp add: Let_def)
  qed
qed


text \<open>The scan over the levels on the level of lists.\<close>

fun level_pick ::
  "nat list \<Rightarrow> pcb_id list list \<Rightarrow> sched_state \<Rightarrow> (pcb_id \<times> nat) option \<times> pcb_id list list \<times> sched_state" where
  "level_pick [] mls v = (None, mls, v)"
| "level_pick (l # ls) mls v =
     (case ready_pick (mls ! l) v of
        (None, ys, v1) \<Rightarrow> level_pick ls (mls[l := ys]) v1
      | (Some p, ys, v1) \<Rightarrow> (Some (p, l), mls[l := ys], v1))"

lemma ready_pick_state_other:
  "ready_pick xs v = (r, ys, v') \<Longrightarrow> x \<notin> set xs \<Longrightarrow> heap v' x = heap v x"
  by (induction xs arbitrary: v) (auto simp: Let_def split: if_splits)

lemma level_others:
  assumes "queues s rq mls" "l < length mls" "m < length mls" "l \<noteq> m" "x \<in> set (mls ! m)"
  shows "x \<notin> set (mls ! l)"
proof -
  have "distinct (concat mls)" using assms(1) by (simp add: queues_def)
  from distinct_concat_nth [OF this assms(2,3,4)] assms(5) show ?thesis by blast
qed

lemma level_scan_refines:
  assumes "queues s rq mls" "set ls \<subseteq> {..<length mls}" "distinct ls"
    and "\<forall>l \<in> set ls. \<forall>p \<in> set (mls ! l). state (heap s p) = PROCESS_READY"
  shows "\<exists>r mls' t. level_scan ls s = Some (r, t) \<and> queues t rq mls' \<and>
           level_pick ls mls (view s) = (r, mls', view t)"
  using assms
proof (induction ls arbitrary: s mls)
  case Nil
  then show ?case by auto
next
  case (Cons l ls)
  have l: "l < length mls" and rdy: "\<forall>p \<in> set (mls ! l). state (heap s p) = PROCESS_READY"
    using Cons.prems by auto
  from level_loop_refines [OF Cons.prems(1) l rdy] obtain r ys t where
    t: "level_loop l s = Some (r, t)" "queues t rq (mls[l := ys])"
      "ready_pick (mls ! l) (view s) = (r, ys, view t)" by blast
  show ?case
  proof (cases r)
    case (Some p)
    then show ?thesis using t by simp
  next
    case None
    have "state (heap t p) = PROCESS_READY" if m: "m \<in> set ls" "p \<in> set (mls[l := ys] ! m)" for m p
    proof -
      have ne: "m \<noteq> l" "m < length mls" using m Cons.prems(2,3) by auto
      then have pm: "p \<in> set (mls ! m)" using m by simp
      have "p \<notin> set (mls ! l)" using level_others [OF Cons.prems(1) l ne(2)] ne pm by blast
      then have "payload (heap t) p = payload (heap s) p" using ready_pick_state_other [OF t(3)] by simp
      then have "state (heap t p) = state (heap s p)" by (metis payload_fields(2))
      then show ?thesis using Cons.prems(4) m pm by simp
    qed
    moreover have "set ls \<subseteq> {..<length (mls[l := ys])}" "distinct ls" using Cons.prems(2,3) by auto
    ultimately have "\<exists>r mls' u. level_scan ls t = Some (r, u) \<and> queues u rq mls' \<and>
           level_pick ls (mls[l := ys]) (view t) = (r, mls', view u)"
      using Cons.IH [OF t(2)] by blast
    then show ?thesis using t None by simp
  qed
qed

definition first_sound :: "sched_state \<Rightarrow> pcb_id list \<Rightarrow> pcb_ptr" where
  "first_sound v xs = find (\<lambda>p. \<not> condemned (heap v p)) xs"

lemma ready_pick_first:
  assumes "distinct xs" "\<forall>p \<in> set xs. state (heap v p) = PROCESS_READY" "ready_pick xs v = (r, ys, v')"
  shows "r = first_sound v xs"
proof -
  have "r = fst (ready_pick xs v)" using assms(3) by simp
  also have "\<dots> = first_sound v xs"
    unfolding ready_pick_eq [OF assms(1,2)] first_sound_def find_dropWhile comp_def not_not
    by (cases "dropWhile (\<lambda>p. condemned (heap v p)) xs") (simp_all only: list.case fst_conv)
  finally show ?thesis .
qed

lemma ready_pick_None:
  assumes "distinct xs" "\<forall>p \<in> set xs. state (heap v p) = PROCESS_READY" "ready_pick xs v = (None, ys, v')"
  shows "ys = []" "v' = handled (set xs) v" "\<forall>x \<in> set xs. condemned (heap v x)"
proof -
  have d: "dropWhile (\<lambda>p. condemned (heap v p)) xs = []"
    using assms(3) ready_pick_eq [OF assms(1,2)] by (auto split: list.splits)
  then show "\<forall>x \<in> set xs. condemned (heap v x)" by simp
  show "ys = []" "v' = handled (set xs) v"
    using assms(3) ready_pick_eq [OF assms(1,2)] d by (simp_all del: dropWhile_eq_Nil_conv)
qed

lemma set_concat_update:
  assumes "distinct (concat mls)" "l < length mls"
  shows "set (concat (mls[l := ys])) = set ys \<union> (set (concat mls) - set (mls ! l))"
  using assms
proof (induction mls arbitrary: l)
  case (Cons m mls)
  then show ?case by (cases l) (auto, fastforce dest: nth_mem)
qed simp

lemma distinct_concat_shrink:
  assumes "distinct (concat mls)" "l < length mls" 
  shows "distinct (concat (mls[l := []]))"
  using assms
proof (induction mls arbitrary: l)
  case (Cons m mls)
  have sub: "set (concat (mls[k := []])) \<subseteq> set (concat mls)" for k
    using set_update_subset_insert [of mls k "[]"] by auto
  show ?case using Cons sub [of "l - 1"] by (cases l) auto
qed simp

text \<open>Emptying a set of condemned processes first and selecting afterwards is one selection.\<close>

lemma selected_after_handled:
  assumes sel: "selected (handled A v) (Q - A) r t Q'" and A: "A \<subseteq> Q"
    and ready: "\<forall>x \<in> A. state (heap v x) = PROCESS_READY \<and> condemned (heap v x)"
  shows "selected v Q r t Q'"
proof -
  note D = selectedD [OF sel]
  have other: "condemned (heap (handled A v) x) = condemned (heap v x)" if "x \<notin> A" for x
    using that by simp
  have gone: "state (heap t x) \<in> {PROCESS_ZOMBIE, PROCESS_STOPPED}" if "x \<in> A" for x
  proof -
    have "x \<notin> Q - A - Q'" using that by blast
    then have "state (heap t x) = state (signal_effect (heap v x))" using D(3) that by simp
    then show ?thesis using ready that by (auto simp: signal_effect_state condemned_def)
  qed
  have rA: "r \<noteq> Some x" if "x \<in> A" for x using D(5) that by auto
  have "same_table v t" by (rule same_table_trans [OF same_table_handled D(1)])
  moreover have "Q' \<subseteq> Q" using D(2) by blast
  moreover have "state (heap t x) = state (heap v x)" if "x \<notin> Q - Q'" for x
  proof -
    have "x \<notin> A" using that A D(2) by blast
    moreover have "x \<notin> Q - A - Q'" using that by blast
    ultimately show ?thesis using D(3) by simp
  qed
  moreover have "if r = Some x then state (heap t x) = PROCESS_READY \<and> \<not> condemned (heap v x)
        else condemned (heap v x) \<and> state (heap t x) \<in> {PROCESS_ZOMBIE, PROCESS_STOPPED}" if "x \<in> Q - Q'" for x
  proof (cases "x \<in> A")
    case True
    then show ?thesis using gone rA ready by simp
  next
    case False
    then have "x \<in> Q - A - Q'" using that by blast
    then show ?thesis using D(4,5) [of x] other [OF False] by auto
  qed
  moreover have "case r of None \<Rightarrow> Q' = {} | Some p \<Rightarrow> p \<in> Q \<and> p \<notin> Q'"
    using D(5,6) by (auto split: option.split)
  ultimately show ?thesis unfolding selected_def by blast
qed

lemma selected_none: "selected v {} None v {}"
  by (simp add: selected_def)

lemma level_pick_selected:
  assumes "distinct (concat mls)" "set ls \<subseteq> {..<length mls}" "distinct ls"
    and "\<forall>p \<in> set (concat mls). state (heap v p) = PROCESS_READY"
    and "\<forall>m < length mls. m \<notin> set ls \<longrightarrow> mls ! m = []"
    and "level_pick ls mls v = (r, mls', v')"
  shows "selected v (set (concat mls)) (map_option fst r) v' (set (concat mls')) \<and>
         length mls' = length mls"
  using assms
proof (induction ls arbitrary: v mls)
  case Nil
  then have "set (concat mls) = {}" by (auto simp: in_set_conv_nth)
  then show ?case using Nil.prems(6) selected_none [of v] by (simp only: level_pick.simps prod.inject option.map(1) simp_thms)
next
  case (Cons l ls)
  have l: "l < length mls" using Cons.prems(2) by simp
  then have sub: "set (mls ! l) \<subseteq> set (concat mls)" by (auto dest: nth_mem)
  have d: "distinct (mls ! l)" using Cons.prems(1) l by (metis distinct_concat_iff nth_mem)
  have rdy: "\<forall>p \<in> set (mls ! l). state (heap v p) = PROCESS_READY" using Cons.prems(4) sub by blast
  obtain q ys v1 where pick: "ready_pick (mls ! l) v = (q, ys, v1)" by (rule prod_cases3)
  note upd = set_concat_update [OF Cons.prems(1) l]
  show ?case
  proof (cases q)
    case (Some p)
    have "selected v (set (concat mls)) q v1 (set ys \<union> (set (concat mls) - set (mls ! l)))"
      by (rule selected_ready_pick [OF d rdy sub refl pick]) (simp add: Some)
    then show ?thesis using Cons.prems(6) pick Some upd by auto
  next
    case None
    note N = ready_pick_None [OF d rdy pick [unfolded None]]
    let ?m = "mls[l := []]"
    have Q: "set (concat ?m) = set (concat mls) - set (mls ! l)" using upd by simp
    have "level_pick ls ?m v1 = (r, mls', v')" using Cons.prems(6) pick None N(1) by simp
    moreover have "\<forall>p \<in> set (concat ?m). state (heap v1 p) = PROCESS_READY"
      using Cons.prems(4) unfolding Q N(2) by auto
    moreover have "\<forall>m < length ?m. m \<notin> set ls \<longrightarrow> ?m ! m = []"
      using Cons.prems(5) l by (auto simp: nth_list_update)
    ultimately have "selected v1 (set (concat ?m)) (map_option fst r) v' (set (concat mls')) \<and>
         length mls' = length mls"
      using Cons.IH [of ?m v1] Cons.prems(2,3) distinct_concat_shrink [OF Cons.prems(1) l] by simp
    then show ?thesis using selected_after_handled [OF _ sub, of v "map_option fst r" v' "set (concat mls')"]
        N rdy Q by auto
  qed
qed


text \<open>The chosen process is the first sound one of the first level that has one.\<close>

lemma level_pick_first:
  assumes "distinct (concat mls)" "set ls \<subseteq> {..<length mls}" "distinct ls"
    and "\<forall>p \<in> set (concat mls). state (heap v p) = PROCESS_READY"
    and "level_pick ls mls v = (r, mls', v')"
  shows "case r of
           None \<Rightarrow> \<forall>l \<in> set ls. first_sound v (mls ! l) = None
         | Some (p, l) \<Rightarrow> \<exists>ls1 ls2. ls = ls1 @ l # ls2 \<and> first_sound v (mls ! l) = Some p \<and>
             (\<forall>m \<in> set ls1. first_sound v (mls ! m) = None)"
  using assms
proof (induction ls arbitrary: v mls)
  case Nil
  then show ?case by auto
next
  case (Cons l ls)
  have l: "l < length mls" using Cons.prems(2) by simp
  then have sub: "set (mls ! l) \<subseteq> set (concat mls)" by (auto dest: nth_mem)
  have d: "distinct (mls ! l)" using Cons.prems(1) l by (metis distinct_concat_iff nth_mem)
  have rdy: "\<forall>p \<in> set (mls ! l). state (heap v p) = PROCESS_READY" using Cons.prems(4) sub by blast
  obtain q ys v1 where pick: "ready_pick (mls ! l) v = (q, ys, v1)" by (rule prod_cases3)
  note first = ready_pick_first [OF d rdy pick]
  show ?case
  proof (cases q)
    case (Some p)
    then have "r = Some (p, l)" using Cons.prems(5) pick by simp
    then show ?thesis using first Some by force
  next
    case None
    note N = ready_pick_None [OF d rdy pick [unfolded None]]
    let ?m = "mls[l := []]"
    have Q: "set (concat ?m) = set (concat mls) - set (mls ! l)"
      using set_concat_update [OF Cons.prems(1) l] by simp
    have lp: "level_pick ls ?m v1 = (r, mls', v')" using Cons.prems(5) pick None N(1) by simp
    have rdy1: "\<forall>p \<in> set (concat ?m). state (heap v1 p) = PROCESS_READY"
      using Cons.prems(4) unfolding Q N(2) by auto
    have same: "first_sound v1 (?m ! m) = first_sound v (mls ! m)" if "m \<in> set ls" for m
    proof -
      have m: "m \<noteq> l" "m < length mls" using that Cons.prems(2,3) by auto
      then have "set (mls ! m) \<inter> set (mls ! l) = {}"
        using distinct_concat_nth [OF Cons.prems(1) m(2) l] by blast
      then show ?thesis using m unfolding first_sound_def N(2)
        by (intro find_cong) auto
    qed
    have ls: "set ls \<subseteq> {..<length ?m}" "distinct ls" using Cons.prems(2,3) by auto
    note IH = Cons.IH [OF distinct_concat_shrink [OF Cons.prems(1) l] ls rdy1 lp]
    show ?thesis
    proof (cases r)
      case None
      then show ?thesis using IH same first \<open>q = None\<close> by simp
    next
      case (Some a)
      obtain p k where a: "a = (p, k)" by fastforce
      with IH Some obtain ls1 ls2 where
        i: "ls = ls1 @ k # ls2" "first_sound v1 (?m ! k) = Some p" "\<forall>m \<in> set ls1. first_sound v1 (?m ! m) = None"
        by auto
      then have "l # ls = (l # ls1) @ k # ls2" "first_sound v (mls ! k) = Some p"
        "\<forall>m \<in> set (l # ls1). first_sound v (mls ! m) = None"
        using same first None by auto
      then show ?thesis unfolding Some a option.case prod.case
        by (intro exI [of _ "l # ls1"] exI [of _ ls2] conjI)
    qed
  qed
qed

lemma level_pick_level: "level_pick ls mls v = (Some (p, l), mls', v') \<Longrightarrow> l \<in> set ls"
  by (induction ls arbitrary: mls v) (auto split: prod.splits option.splits)

text \<open>The selection of the multilevel algorithms.\<close>

definition select_multilevel :: "sched_state \<Rightarrow> (pcb_ptr \<times> sched_state) option" where
  "select_multilevel s = do {
     policy \<leftarrow> ml_policy (active_algorithm s);
     (found, s3) \<leftarrow> level_scan [0..<n_levels policy] s;
     s4 \<leftarrow> (case found of
              None \<Rightarrow> Some s3
            | Some (x, target_level) \<Rightarrow> do {
                q \<leftarrow> array_get (quantum policy) (int target_level);
                Some (recharge (Some x) q s3)
              });
     Some (map_option fst found, s4)
   }"

lemma policy_shape:
  assumes "ml_policy alg = Some policy"
  shows "n_levels policy = ML_MAX_LEVELS" "length (quantum policy) = ML_MAX_LEVELS"
    "\<forall>q \<in> set (quantum policy). 0 < q"
  using assms by (cases alg; force simp: ml_policy_mlq_def ml_policy_mlfq_def ML_MAX_LEVELS_def)+

lemma level_scan_selected:
  assumes inv: "ready_inv s rq mls" and ml: "ml_policy (active_algorithm s) = Some policy"
  shows "\<exists>found t mls'. level_scan [0..<n_levels policy] s = Some (found, t) \<and> queues t rq mls' \<and>
           shrinks rq mls rq mls' \<and>
           level_pick [0..<n_levels policy] mls (view s) = (found, mls', view t) \<and>
           selected s (queued rq mls) (map_option fst found) t (queued rq mls')"
proof -
  note D = ready_invD [OF inv]
  have len: "length mls = n_levels policy"
    using sched_invD(8) [OF D(1)] policy_shape [OF ml] by simp
  have rq: "rq = []" using inv ml unfolding ready_inv_def sched_inv_def states_ok_def by simp
  have rdy: "\<forall>p \<in> set (concat mls). state (heap s p) = PROCESS_READY" using D(5) by blast
  then have "\<forall>l \<in> set [0..<n_levels policy]. \<forall>p \<in> set (mls ! l). state (heap s p) = PROCESS_READY"
    using len by (auto dest: nth_mem)
  moreover have ls: "set [0..<n_levels policy] \<subseteq> {..<length mls}" "distinct [0..<n_levels policy]"
    using len by auto
  ultimately obtain r mls' t where
    t: "level_scan [0..<n_levels policy] s = Some (r, t)" "queues t rq mls'"
      "level_pick [0..<n_levels policy] mls (view s) = (r, mls', view t)"
    using level_scan_refines [OF D(2)] by blast
  have "distinct (concat mls)" using D(4) by simp
  from level_pick_selected [OF this ls _ _ t(3)] rdy len
  have sel: "selected s (set (concat mls)) (map_option fst r) t (set (concat mls'))" "length mls' = length mls"
    by auto
  then show ?thesis using t selectedD(2) [OF sel(1)] by (simp add: rq shrinks_def)
qed

lemma select_multilevel_selected:
  assumes inv: "ready_inv s rq mls" and ml: "ml_policy (active_algorithm s) = Some policy"
  shows "\<exists>r t rq' mls'. select_multilevel s = Some (r, t) \<and> queues t rq' mls' \<and>
           shrinks rq mls rq' mls' \<and> selected s (queued rq mls) r t (queued rq' mls')"
proof -
  from level_scan_selected [OF inv ml] obtain found t mls' where
    t: "level_scan [0..<n_levels policy] s = Some (found, t)" "queues t rq mls'" "shrinks rq mls rq mls'"
    "level_pick [0..<n_levels policy] mls (view s) = (found, mls', view t)"
    "selected s (queued rq mls) (map_option fst found) t (queued rq mls')" by blast
  show ?thesis
  proof (cases found)
    case None
    then have "select_multilevel s = Some (None, t)" using ml t(1) by (simp add: select_multilevel_def)
    then show ?thesis using t(2,3,5) None by fastforce
  next
    case (Some a)
    obtain x l where a: "a = (x, l)" by fastforce
    note D = ready_invD [OF inv]
    have len: "length mls = n_levels policy"
      using sched_invD(8) [OF D(1)] policy_shape [OF ml] by simp
    have "l \<in> set [0..<n_levels policy]"
      using t(4) Some a by (auto dest: level_pick_level)
    then have "array_get (quantum policy) (int l) = Some (quantum policy ! l)"
      using policy_shape [OF ml] by (simp add: array_get_def)
    then have s: "select_multilevel s = Some (Some x, recharge (Some x) (quantum policy ! l) t)"
      using ml t(1) Some a by (simp add: select_multilevel_def)
    moreover have "queues (recharge (Some x) (quantum policy ! l) t) rq mls'" using t(2) by simp
    moreover have "selected s (queued rq mls) (Some x) (recharge (Some x) (quantum policy ! l) t) (queued rq mls')"
      using t(5) Some a unfolding selected_recharge by simp
    ultimately show ?thesis using t(3) by blast
  qed
qed

interpretation mlq: selector sched_mlq select_multilevel
  by unfold_locales (rule select_multilevel_selected, assumption, simp)

interpretation mlfq: selector sched_mlfq select_multilevel
  by unfold_locales (rule select_multilevel_selected, assumption, simp)

lemma schedule_multilevel_pick:
  assumes "active_algorithm s = alg" "ml_policy alg = Some policy"
    and enq: "alg_enqueue alg = enqueue_multilevel"
    and inv: "sched_inv s rq mls"
  shows "schedule_multilevel s = pick_with select_multilevel s"
proof -
  let ?s1 = "preempt_disable s"
  from park_inv [OF inv refl] obtain s2 rq2 mls2 where
    s2: "(if current_runnable ?s1 then alg_enqueue (active_algorithm ?s1) (current_process ?s1) ?s1
          else Some ?s1) = Some s2" "same_table ?s1 s2" by blast
  have a2: "active_algorithm s2 = alg" using s2(2) assms(1) by (simp add: same_table_def)
  have s2': "(if current_runnable ?s1 then enqueue_multilevel (current_process ?s1) ?s1 else Some ?s1) = Some s2"
    using s2(1) unfolding preempt_disable_fields assms(1) enq .
  have a1: "ml_policy (active_algorithm ?s1) = Some policy" using assms(1,2) by simp
  show ?thesis
    unfolding schedule_multilevel_def pick_with_def Let_def s2(1) s2' a1
    by (cases "level_scan [0..<n_levels policy] s2")
      (auto simp: select_multilevel_def a2 assms(2) Option.bind_assoc split: option.splits)
qed

end
