(* ===== verification/Selection_Lottery.thy ===== *)
theory Selection_Lottery
  imports Selection_Multilevel
begin

text \<open>
  The lottery: the draw is refined to numbering the tickets along the queue, and a process owns
  exactly as many winning numbers as it holds tickets. Condemned winners are dropped and the draw
  repeats, which ends because the queue shrinks.
\<close>

subsection \<open>Lottery\<close>

definition ticket_sum :: "('a \<Rightarrow> int) \<Rightarrow> 'a list \<Rightarrow> int" where
  "ticket_sum f xs = sum_list (map f xs)"

lemma ticket_sum_simps [simp]:
  "ticket_sum f [] = 0" "ticket_sum f (x # xs) = f x + ticket_sum f xs"
  "ticket_sum f (xs @ ys) = ticket_sum f xs + ticket_sum f ys"
  by (simp_all add: ticket_sum_def)

lemma ticket_sum_nonneg: "(\<And>x. 0 \<le> f x) \<Longrightarrow> 0 \<le> ticket_sum f xs"
  by (induction xs) (auto simp: add_nonneg_nonneg)

text \<open>Tickets are numbered from 0 along the queue; the owner of ticket \<open>w\<close>.\<close>

fun ticket_owner :: "('a \<Rightarrow> int) \<Rightarrow> 'a list \<Rightarrow> int \<Rightarrow> 'a option" where
  "ticket_owner f [] w = None"
| "ticket_owner f (x # xs) w = (if w < f x then Some x else ticket_owner f xs (w - f x))"

lemma ticket_owner_in: "ticket_owner f xs w = Some p \<Longrightarrow> p \<in> set xs"
  by (induction xs arbitrary: w) (auto split: if_splits)

lemma ticket_owner_total: "w < ticket_sum f xs \<Longrightarrow> 0 \<le> w \<Longrightarrow> \<exists>p. ticket_owner f xs w = Some p"
proof (induction xs arbitrary: w)
  case (Cons x xs)
  show ?case
  proof (cases "w < f x")
    case False
    then have "w - f x < ticket_sum f xs" "0 \<le> w - f x" using Cons.prems by auto
    then show ?thesis using Cons.IH [of "w - f x"] False by auto
  qed auto
qed simp

text \<open>Fairness: of the tickets in the draw, exactly \<open>f p\<close> win for \<open>p\<close>.\<close>

lemma ticket_owner_share:
  assumes "distinct xs" "\<And>x. 0 \<le> f x" "p \<in> set xs"
  shows "card {w. 0 \<le> w \<and> w < ticket_sum f xs \<and> ticket_owner f xs w = Some p} = nat (f p)"
  using assms
proof (induction xs)
  case (Cons x xs)
  have T: "0 \<le> ticket_sum f xs" using ticket_sum_nonneg Cons.prems(2) .
  let ?W = "\<lambda>ys. {w. 0 \<le> w \<and> w < ticket_sum f ys \<and> ticket_owner f ys w = Some p}"
  show ?case
  proof (cases "p = x")
    case True
    then have "p \<notin> set xs" using Cons.prems(1) by simp
    then have "ticket_owner f xs w \<noteq> Some p" for w using ticket_owner_in by metis
    then have "?W (x # xs) = {0..<f p}" using True T by (auto split: if_splits)
    then show ?thesis by simp
  next
    case False
    have "?W (x # xs) = (\<lambda>w. w + f x) ` ?W xs"
    proof (intro equalityI subsetI)
      fix w assume "w \<in> ?W (x # xs)"
      then have "w - f x \<in> ?W xs" using False by (auto split: if_splits)
      then show "w \<in> (\<lambda>w. w + f x) ` ?W xs" by (metis (no_types, lifting) diff_add_cancel imageI)
    next
      fix w assume "w \<in> (\<lambda>w. w + f x) ` ?W xs"
      then show "w \<in> ?W (x # xs)" using Cons.prems(2) [of x] by auto
    qed
    moreover have "card ((\<lambda>w. w + f x) ` ?W xs) = card (?W xs)" by (rule card_image) (simp add: inj_on_def)
    ultimately show ?thesis using Cons.IH Cons.prems False by simp
  qed
qed simp

lemma effective_tickets_pos [simp]: "0 < effective_tickets P" "0 \<le> effective_tickets P"
  by (simp_all add: effective_tickets_def)

lemma sum_tickets_chain:
  "chain h p xs \<Longrightarrow> sum_tickets h p tot = Some (tot + ticket_sum (\<lambda>x. effective_tickets (h x)) xs)"
proof (induction xs arbitrary: p tot)
  case Nil
  then show ?case by (subst sum_tickets.simps) simp
next
  case (Cons x xs)
  then show ?case by (subst sum_tickets.simps) simp
qed

lemma lottery_walk_chain:
  assumes "chain h cand xs" "acc \<le> w" "ticket_owner (\<lambda>x. effective_tickets (h x)) xs (w - acc) = Some c"
  shows "\<exists>bs cs. xs = bs @ c # cs \<and>
           lottery_walk h w (last_opt as) cand acc = Some (last_opt (as @ bs), Some c)"
  using assms
proof (induction xs arbitrary: cand acc as)
  case (Cons x xs)
  let ?f = "\<lambda>x. effective_tickets (h x)"
  have cand: "cand = Some x" "chain h (next_ready (h x)) xs" using Cons.prems(1) by auto
  show ?case
  proof (cases "w - acc < ?f x")
    case True
    then have "c = x" using Cons.prems(3) by simp
    moreover have "lottery_walk h w (last_opt as) cand acc = Some (last_opt (as @ []), Some x)"
      using True cand by (subst lottery_walk.simps) (simp add: Let_def)
    ultimately show ?thesis by fastforce
  next
    case False
    then have "ticket_owner ?f xs (w - (acc + ?f x)) = Some c" using Cons.prems(3) by (simp add: diff_diff_eq)
    with Cons.IH [OF cand(2), of "acc + ?f x" "as @ [x]"] False obtain bs cs where
      "xs = bs @ c # cs"
      "lottery_walk h w (last_opt (as @ [x])) (next_ready (h x)) (acc + ?f x) = Some (last_opt ((as @ [x]) @ bs), Some c)"
      by auto
    moreover have "lottery_walk h w (last_opt as) cand acc =
        lottery_walk h w (last_opt (as @ [x])) (next_ready (h x)) (acc + ?f x)"
      using False cand by (subst lottery_walk.simps) (simp add: Let_def)
    ultimately have "x # xs = (x # bs) @ c # cs \<and>
        lottery_walk h w (last_opt as) cand acc = Some (last_opt (as @ (x # bs)), Some c)" by simp
    then show ?thesis by blast
  qed
qed simp

lemma queues_unlink:
  assumes q: "queues s (as @ p # bs) mls"
    and rm: "remove_process_from (ready_queue s) (last_opt as) p (heap s) = (q', h')"
  shows "queues (s\<lparr>ready_queue := q', heap := h'\<rparr>) (as @ bs) mls" "view (s\<lparr>ready_queue := q', heap := h'\<rparr>) = view s"
proof -
  have rep: "queue_rep (heap s) (ready_queue s) (as @ p # bs)" using q by (simp add: queues_def)
  have "list_all2 (queue_rep h') (ml_queues s) mls"
  proof (rule queues_others)
    show "list_all2 (queue_rep (heap s)) (ml_queues s) mls" using q by (simp add: queues_def)
    fix xs a assume "xs \<in> set mls" "a \<in> set xs"
    then have "a \<notin> insert p (set as)" using queues_disjoint [OF q] by auto
    then show "same_link a (heap s) h'" using remove_link [OF rm] by simp
  qed
  then show "queues (s\<lparr>ready_queue := q', heap := h'\<rparr>) (as @ bs) mls"
    using remove_rep [OF rep rm] q by (auto simp: queues_def)
  show "view (s\<lparr>ready_queue := q', heap := h'\<rparr>) = view s"
    using remove_payload [OF rm] by (simp add: view_def)
qed

text \<open>The winning ticket number is in range, whatever the generator returns.\<close>

lemma winner_range:
  assumes "0 < tot" "tot < 2 ^ 63"
  shows "sint ((r :: ulong) mod word_of_int tot) = uint r mod tot"
proof -
  have t: "uint (word_of_int tot :: ulong) = tot" using assms by (simp add: uint_word_of_int)
  have m: "uint (r mod word_of_int tot) = uint r mod tot" using t by (simp add: uint_mod)
  have "uint r mod tot < 2 ^ 63" using assms pos_mod_bound [of tot "uint r"] by linarith
  moreover have "0 \<le> uint r mod tot" using assms by simp
  ultimately show ?thesis using m by (simp add: sint_uint signed_take_bit_int_eq_self)
qed


abbreviation queue_tickets :: "sched_state \<Rightarrow> pcb_id \<Rightarrow> int" where
  "queue_tickets s \<equiv> \<lambda>x. effective_tickets (heap s x)"

text \<open>The draw on the level of lists; condemned winners are dropped and the draw repeats.\<close>

function lottery_pick :: "pcb_id list \<Rightarrow> sched_state \<Rightarrow> pcb_ptr \<times> pcb_id list \<times> sched_state" where
  "lottery_pick xs v =
     (if xs = [] then (None, [], v)
      else
        let (r, v1) = lottery_random v in
        case ticket_owner (queue_tickets v) xs (uint r mod ticket_sum (queue_tickets v) xs) of
          None \<Rightarrow> (None, xs, v1)
        | Some p \<Rightarrow>
            let v2 = upd_pcb p signal_effect v1 in
            if state (heap v2 p) = PROCESS_READY then (Some p, remove1 p xs, v2)
            else lottery_pick (remove1 p xs) v2)"
  by pat_completeness auto
termination
  by (relation "measure (\<lambda>(xs, v). length xs)")
    (auto simp: length_remove1 dest!: ticket_owner_in intro!: diff_less Suc_pred)

declare lottery_pick.simps [simp del]

lemma lottery_random_frame:
  assumes "lottery_random s = (r, s1)"
  shows "lottery_random (view s) = (r, view s1)" "queues s1 rq mls = queues s rq mls" "heap s1 = heap s"
    "ready_queue s1 = ready_queue s" "same_table s s1"
  using assms by (auto simp: lottery_random_def read_timer_def Let_def same_table_def)

lemma effective_tickets_payload [simp]: "effective_tickets (payload h x) = effective_tickets (h x)"
  by (auto simp: effective_tickets_def)

lemma effective_tickets_signal [simp]: "effective_tickets (signal_effect P) = effective_tickets P"
  by (simp add: effective_tickets_def)

lemma ticket_sum_pos: "xs \<noteq> [] \<Longrightarrow> 0 < ticket_sum (queue_tickets s) xs"
  by (cases xs) (auto simp: add_pos_nonneg ticket_sum_nonneg)

lemma lottery_draw_step:
  assumes q: "queues s rq mls" and ne: "rq \<noteq> []" and bound: "ticket_sum (queue_tickets s) rq < 2 ^ 63"
    and rnd: "lottery_random s = (r, s1)"
  shows "\<exists>p as bs s2. rq = as @ p # bs \<and>
    ticket_owner (queue_tickets s) rq (uint r mod ticket_sum (queue_tickets s) rq) = Some p \<and>
    queues s2 (as @ bs) mls \<and> view s2 = view s1 \<and>
    lottery_draw s = do {
       s3 \<leftarrow> handle_process_signals p s2;
       if state (heap s3 p) = PROCESS_READY then Some (Some p, s3) else lottery_draw s3 }"
proof -
  let ?f = "queue_tickets s" and ?T = "ticket_sum (queue_tickets s) rq"
  note F = lottery_random_frame [OF rnd]
  have T: "0 < ?T" using ticket_sum_pos [OF ne] .
  have rep: "chain (heap s) (q_head (ready_queue s)) rq" using q by (simp add: queues_def queue_rep_def)
  have w: "sint (r mod word_of_int ?T) = uint r mod ?T" using winner_range [OF T bound] .
  obtain p where own: "ticket_owner ?f rq (uint r mod ?T) = Some p"
    using ticket_owner_total [of "uint r mod ?T" ?f rq] T by auto
  then have "ticket_owner ?f rq (uint r mod ?T - 0) = Some p" by simp
  from lottery_walk_chain [OF rep _ this, of "[]"] T obtain as bs where
    sp: "rq = as @ p # bs" "lottery_walk (heap s) (uint r mod ?T) None (q_head (ready_queue s)) 0 = Some (last_opt as, Some p)"
    by auto
  obtain q' h' where rm: "remove_process_from (ready_queue s1) (last_opt as) p (heap s1) = (q', h')"
    by fastforce
  let ?s2 = "s1\<lparr>ready_queue := q', heap := h'\<rparr>"
  have "queues s1 (as @ p # bs) mls" using q sp(1) F(2) by simp
  note U = queues_unlink [OF this rm]
  have "lottery_draw s = do {
       s3 \<leftarrow> handle_process_signals p ?s2;
       if state (heap s3 p) = PROCESS_READY then Some (Some p, s3) else lottery_draw s3 }"
    using T sp(2) rm unfolding lottery_draw.simps [of s] sum_tickets_chain [OF rep]
    by (simp add: rnd w F(3,4) Let_def)
  then show ?thesis using sp(1) own U by blast
qed


lemma lottery_draw_refines:
  assumes "queues s rq mls" "ticket_sum (queue_tickets s) rq < 2 ^ 63"
    and "\<forall>p \<in> set rq. state (heap s p) = PROCESS_READY"
  shows "\<exists>r rq' t. lottery_draw s = Some (r, t) \<and> queues t rq' mls \<and>
           lottery_pick rq (view s) = (r, rq', view t)"
  using assms
proof (induction "length rq" arbitrary: rq s rule: less_induct)
  case less
  show ?case
  proof (cases "rq = []")
    case True
    then have "lottery_draw s = Some (None, s)"
      using less.prems(1) sum_tickets_chain [of "heap s" None "[]" 0] unfolding lottery_draw.simps [of s]
      by (simp add: queues_def queue_rep_def)
    then show ?thesis using True less.prems(1) by (auto simp: lottery_pick.simps)
  next
    case False
    obtain r s1 where rnd: "lottery_random s = (r, s1)" by fastforce
    note F = lottery_random_frame [OF rnd]
    from lottery_draw_step [OF less.prems(1) False less.prems(2) rnd] obtain p as bs s2 where
      p: "rq = as @ p # bs" "ticket_owner (queue_tickets s) rq (uint r mod ticket_sum (queue_tickets s) rq) = Some p"
        "queues s2 (as @ bs) mls" "view s2 = view s1"
        "lottery_draw s = do { s3 \<leftarrow> handle_process_signals p s2;
           if state (heap s3 p) = PROCESS_READY then Some (Some p, s3) else lottery_draw s3 }" by blast
    have d: "distinct rq" using less.prems(1) by (simp add: queues_def)
    have pay: "payload (heap s2) = payload (heap s)" using arg_cong [OF p(4), of heap] F(3) by simp
    then have st: "state (heap s2 x) = state (heap s x)" "effective_tickets (heap s2 x) = effective_tickets (heap s x)" for x
      by (metis payload_fields(2), metis effective_tickets_payload)
    define s3 where "s3 = upd_pcb p signal_effect s2"
    have sig: "handle_process_signals p s2 = Some s3"
      using less.prems(3) p(1) st by (simp add: s3_def handle_process_signals_eq)
    have v3: "view s3 = upd_pcb p signal_effect (view s1)" using p(4) by (simp add: s3_def)
    have q3: "queues s3 (as @ bs) mls" using p(3) by (simp add: s3_def)
    have st3: "state (signal_effect (payload (heap s1) p)) = state (heap s3 p)"
      using arg_cong [OF v3, of "\<lambda>v. state (heap v p)"] by simp
    have rm: "remove1 p rq = as @ bs" using d p(1) by (simp add: remove1_append)
    have spec: "lottery_pick rq (view s) =
        (if state (heap s3 p) = PROCESS_READY then (Some p, as @ bs, view s3)
         else lottery_pick (as @ bs) (view s3))"
      using False p(2) unfolding lottery_pick.simps [of rq]
      by (simp add: F(1) Let_def rm v3 st3)
    have conc: "lottery_draw s = (if state (heap s3 p) = PROCESS_READY then Some (Some p, s3) else lottery_draw s3)"
      using p(5) sig by simp
    show ?thesis
    proof (cases "state (heap s3 p) = PROCESS_READY")
      case True
      then show ?thesis using spec conc q3 by simp
    next
      case False
      have np: "p \<notin> set (as @ bs)" using d p(1) by auto
      have eq: "queue_tickets s3 = queue_tickets s" using st(2) by (auto simp: s3_def)
      have "ticket_sum (queue_tickets s3) (as @ bs) < 2 ^ 63"
        using less.prems(2) effective_tickets_pos(2) [of "heap s p"]
        unfolding eq p(1) ticket_sum_simps by linarith
      moreover have "\<forall>x \<in> set (as @ bs). state (heap s3 x) = PROCESS_READY"
        using less.prems(3) p(1) st np by (auto simp: s3_def)
      ultimately have "\<exists>r rq' t. lottery_draw s3 = Some (r, t) \<and> queues t rq' mls \<and>
           lottery_pick (as @ bs) (view s3) = (r, rq', view t)"
        using less.hyps [OF _ q3] p(1) by simp
      then show ?thesis using spec conc False by simp
    qed
  qed
qed

lemma selected_cong:
  assumes "heap u = heap v" "same_table v u"
  shows "selected u Q r t Q' = selected v Q r t Q'"
proof -
  have "same_table u t = same_table v t" using assms by (simp add: same_table_def)
  then show ?thesis by (simp add: selected_def assms(1))
qed

lemma handled_single: "upd_pcb p signal_effect v = handled {p} v"
  by (auto simp: handled_def upd_pcb_def fun_eq_iff)

lemma lottery_pick_selected:
  assumes "distinct xs" "\<forall>p \<in> set xs. state (heap v p) = PROCESS_READY"
    and "lottery_pick xs v = (r, ys, v')"
  shows "selected v (set xs) r v' (set ys) \<and> set ys \<subseteq> set xs"
  using assms
proof (induction xs v rule: lottery_pick.induct)
  case (1 xs v)
  show ?case
  proof (cases "xs = []")
    case True
    then show ?thesis using "1.prems"(3) selected_none [of v] by (auto simp: lottery_pick.simps)
  next
    case False
    obtain n v1 where rnd: "lottery_random v = (n, v1)" by fastforce
    have same: "heap v1 = heap v" "same_table v v1" using lottery_random_frame [OF rnd] by auto
    let ?w = "uint n mod ticket_sum (queue_tickets v) xs"
    obtain p where own: "ticket_owner (queue_tickets v) xs ?w = Some p"
      using ticket_owner_total [of ?w "queue_tickets v" xs] ticket_sum_pos [OF False, of v] by auto
    have p: "p \<in> set xs" by (rule ticket_owner_in [OF own])
    let ?v2 = "upd_pcb p signal_effect v1"
    have eq: "lottery_pick xs v =
        (if state (heap ?v2 p) = PROCESS_READY then (Some p, remove1 p xs, ?v2)
         else lottery_pick (remove1 p xs) ?v2)"
      using False own unfolding lottery_pick.simps [of xs] by (simp add: rnd Let_def)
    have rm: "set (remove1 p xs) = set xs - {p}" using "1.prems"(1) by simp
    have rdy: "state (heap v1 p) = PROCESS_READY" using "1.prems"(2) p same by simp
    have c: "state (heap ?v2 p) = PROCESS_READY \<longleftrightarrow> \<not> condemned (heap v1 p)"
      using signal_effect_ready [OF rdy] by simp
    show ?thesis
    proof (cases "condemned (heap v1 p)")
      case False
      then have "r = Some p" "ys = remove1 p xs" "v' = ?v2" using "1.prems"(3) eq c by auto
      moreover have "selected v1 (set xs) (Some p) (handled {p} v1) (set xs - {p})"
        by (rule selected_handled) (use p rdy False in auto)
      ultimately show ?thesis using rm selected_cong [OF same] by (simp add: handled_single)
    next
      case True
      then have "\<not> state (heap ?v2 p) = PROCESS_READY" using c by simp
      moreover have "distinct (remove1 p xs)" "\<forall>x \<in> set (remove1 p xs). state (heap ?v2 x) = PROCESS_READY"
        using "1.prems"(1,2) rm same by auto
      moreover have "lottery_pick (remove1 p xs) ?v2 = (r, ys, v')" using "1.prems"(3) eq True c by simp
      ultimately have "selected ?v2 (set (remove1 p xs)) r v' (set ys) \<and> set ys \<subseteq> set (remove1 p xs)"
        using "1.IH" [OF False rnd [symmetric] refl own refl] by blast
      then have "selected (handled {p} v1) (set xs - {p}) r v' (set ys)" "set ys \<subseteq> set xs"
        unfolding handled_single rm by auto
      then show ?thesis
        using selected_after_handled [of "{p}" v1 "set xs" r v' "set ys"] p rdy True selected_cong [OF same] by simp
    qed
  qed
qed


lemma queue_length:
  assumes "sched_inv s rq mls"
  shows "length rq \<le> N_PROCESSES"
proof -
  have "Some ` set rq \<subseteq> set (processes s)" using sched_invD(6) [OF assms] by (auto simp: registered_def)
  then have "card (Some ` set rq) \<le> card (set (processes s))" by (intro card_mono) auto
  also have "\<dots> \<le> length (processes s)" by (rule card_length)
  also have "\<dots> = N_PROCESSES" using sched_invD(2) [OF assms] by (simp add: table_ok_def)
  finally show ?thesis
    using sched_invD(1) [OF assms] by (simp add: card_image distinct_card queues_def)
qed

lemma ticket_sum_bound:
  assumes "\<forall>x \<in> set xs. f x \<le> (b :: int)" "0 \<le> b"
  shows "ticket_sum f xs \<le> int (length xs) * b"
  using assms by (induction xs) (auto simp: algebra_simps)

lemma queue_ticket_bound:
  assumes inv: "sched_inv s rq mls"
  shows "ticket_sum (queue_tickets s) rq < 2 ^ 63"
proof -
  have "tickets (heap s x) \<le> 2 ^ 31 - 1" if "x \<in> set rq" for x
    using sched_invD(6) [OF inv, of x] sched_invD(2) [OF inv] that unfolding table_ok_def by blast
  then have "\<forall>x \<in> set rq. effective_tickets (heap s x) \<le> 2 ^ 31" by (force simp: effective_tickets_def)
  from ticket_sum_bound [OF this] have "ticket_sum (queue_tickets s) rq \<le> int (length rq) * 2 ^ 31" by simp
  also have "\<dots> \<le> int N_PROCESSES * 2 ^ 31" using queue_length [OF inv] by (intro mult_right_mono) auto
  finally show ?thesis by (simp add: N_PROCESSES_def)
qed

lemma lottery_draw_selected:
  assumes inv: "ready_inv s rq mls" and ml: "ml_policy (active_algorithm s) = None"
  shows "\<exists>r t rq' mls'. lottery_draw s = Some (r, t) \<and> queues t rq' mls' \<and>
           shrinks rq mls rq' mls' \<and> selected s (queued rq mls) r t (queued rq' mls')"
proof -
  note D = ready_invD [OF inv]
  have rdy: "\<forall>p \<in> set rq. state (heap s p) = PROCESS_READY" using D(5) by blast
  from lottery_draw_refines [OF D(2) queue_ticket_bound [OF D(1)] rdy] obtain r rq' t where
    t: "lottery_draw s = Some (r, t)" "queues t rq' mls" "lottery_pick rq (view s) = (r, rq', view t)"
    by blast
  note empty = no_levels [OF D(1) ml]
  have "distinct rq" using D(4) by simp
  then have "selected (view s) (set rq) r (view t) (set rq') \<and> set rq' \<subseteq> set rq"
    by (intro lottery_pick_selected [OF _ _ t(3)]) (use rdy in simp_all)
  then have "selected s (queued rq mls) r t (queued rq' mls)" "shrinks rq mls rq' mls"
    unfolding empty by (simp_all add: shrinks_def)
  then show ?thesis using t(1,2) by blast
qed

interpretation lottery: selector sched_lottery "select_recharged 10 lottery_draw"
  by unfold_locales (rule select_recharged_selected, rule lottery_draw_selected, assumption, simp)

lemma schedule_lottery_pick:
  "active_algorithm s = sched_lottery \<Longrightarrow> schedule_lottery s = pick_with (select_recharged 10 lottery_draw) s"
  by (simp add: schedule_lottery_def pick_with_def select_recharged_bind Let_def)

end
