(* ===== verification/Selection_Aging.thy ===== *)
theory Selection_Aging
  imports Selection_Lottery
begin

text \<open>
  Priority with aging: one pass over the queue drops condemned processes and finds the first process
  with the largest positive counter; if there is none, a new epoch recharges every registered
  process. Epochs end because priorities are at least 1.
\<close>

subsection \<open>Priority with aging\<close>

definition first_of :: "'a list \<Rightarrow> 'a option" where
  "first_of xs = (case xs of [] \<Rightarrow> None | x # _ \<Rightarrow> Some x)"

lemma first_of_simps [simp]: "first_of [] = None" "first_of (x # xs) = Some x"
  by (simp_all add: first_of_def)

lemma chain_first: "chain h p xs \<Longrightarrow> p = first_of xs"
  by (cases xs) auto

lemma queues_next:
  assumes "queues s (as @ n # ts) mls"
  shows "next_ready (heap s n) = first_of ts"
proof -
  have "chain (heap s) (q_head (ready_queue s)) (as @ n # ts)" using assms by (simp add: queues_def queue_rep_def)
  then show ?thesis by (auto simp: chain_append dest: chain_first)
qed

text \<open>The running maximum of the walk, and the maximum it computes.\<close>

fun max_from :: "('a \<Rightarrow> int) \<Rightarrow> 'a option \<Rightarrow> int \<Rightarrow> 'a list \<Rightarrow> 'a option" where
  "max_from f best m [] = best"
| "max_from f best m (x # xs) = (if f x > m then max_from f (Some x) (f x) xs else max_from f best m xs)"

lemma max_from_cases:
  "(max_from f best m xs = best \<and> (\<forall>x \<in> set xs. f x \<le> m)) \<or>
   (\<exists>as b bs. xs = as @ b # bs \<and> max_from f best m xs = Some b \<and> m < f b \<and>
      (\<forall>x \<in> set as. f x < f b) \<and> (\<forall>x \<in> set bs. f x \<le> f b))"
proof (induction xs arbitrary: best m)
  case (Cons x xs)
  show ?case
  proof (cases "f x > m")
    case True
    from Cons.IH [of "Some x" "f x"] show ?thesis
    proof
      assume "max_from f (Some x) (f x) xs = Some x \<and> (\<forall>y \<in> set xs. f y \<le> f x)"
      then have "x # xs = [] @ x # xs \<and> max_from f best m (x # xs) = Some x \<and> m < f x \<and>
        (\<forall>y \<in> set []. f y < f x) \<and> (\<forall>y \<in> set xs. f y \<le> f x)" using True by simp
      then show ?thesis by blast
    next
      assume "\<exists>as b bs. xs = as @ b # bs \<and> max_from f (Some x) (f x) xs = Some b \<and> f x < f b \<and>
        (\<forall>x \<in> set as. f x < f b) \<and> (\<forall>x \<in> set bs. f x \<le> f b)"
      then obtain as b bs where "xs = as @ b # bs" "max_from f (Some x) (f x) xs = Some b" "f x < f b"
        "\<forall>x \<in> set as. f x < f b" "\<forall>x \<in> set bs. f x \<le> f b" by blast
      then have "x # xs = (x # as) @ b # bs \<and> max_from f best m (x # xs) = Some b \<and> m < f b \<and>
        (\<forall>y \<in> set (x # as). f y < f b) \<and> (\<forall>y \<in> set bs. f y \<le> f b)" using True by simp
      then show ?thesis by blast
    qed
  next
    case False
    from Cons.IH [of best m] show ?thesis
    proof
      assume "max_from f best m xs = best \<and> (\<forall>y \<in> set xs. f y \<le> m)"
      then show ?thesis using False by simp
    next
      assume "\<exists>as b bs. xs = as @ b # bs \<and> max_from f best m xs = Some b \<and> m < f b \<and>
        (\<forall>x \<in> set as. f x < f b) \<and> (\<forall>x \<in> set bs. f x \<le> f b)"
      then obtain as b bs where "xs = as @ b # bs" "max_from f best m xs = Some b" "m < f b"
        "\<forall>x \<in> set as. f x < f b" "\<forall>x \<in> set bs. f x \<le> f b" by blast
      then have "x # xs = (x # as) @ b # bs \<and> max_from f best m (x # xs) = Some b \<and> m < f b \<and>
        (\<forall>y \<in> set (x # as). f y < f b) \<and> (\<forall>y \<in> set bs. f y \<le> f b)" using False by simp
      then show ?thesis by blast
    qed
  qed
qed simp

definition best_link :: "'a list \<Rightarrow> 'a option \<Rightarrow> 'a option \<Rightarrow> bool" where
  "best_link xs best prev \<longleftrightarrow>
     (case best of None \<Rightarrow> True | Some b \<Rightarrow> \<exists>as bs. xs = as @ b # bs \<and> prev = last_opt as)"

lemma best_link_snoc: "best_link xs best prev \<Longrightarrow> best_link (xs @ ys) best prev"
  by (fastforce simp: best_link_def split: option.splits)

lemma best_link_last [simp]: "best_link (xs @ [x]) (Some x) (last_opt xs)"
  by (auto simp: best_link_def)

abbreviation sound :: "sched_state \<Rightarrow> pcb_id \<Rightarrow> bool" where
  "sound s \<equiv> \<lambda>x. \<not> condemned (heap s x)"

lemma handled_union:
  assumes "A \<inter> B = {}"
  shows "handled B (handled A v) = handled (A \<union> B) v"
proof -
  have "heap (handled B (handled A v)) = heap (handled (A \<union> B) v)" using assms by (auto simp: fun_eq_iff)
  then show ?thesis by (simp add: handled_def)
qed

lemma view_eqD:
  assumes "view s = view t"
  shows "state (heap s x) = state (heap t x)" "counter (heap s x) = counter (heap t x)"
    "pending_signals (heap s x) = pending_signals (heap t x)" "processes s = processes t"
    "priority (heap s x) = priority (heap t x)"
  using arg_cong [OF assms, of "\<lambda>v. heap v x"] arg_cong [OF assms, of processes]
  by (auto simp: payload_def dest: arg_cong [of _ _ state] arg_cong [of _ _ counter]
       arg_cong [of _ _ pending_signals] arg_cong [of _ _ priority])

lemma view_handled_eqD:
  assumes "view t = handled A (view s)"
  shows "state (heap t x) = (if x \<in> A then state (signal_effect (heap s x)) else state (heap s x))"
    "counter (heap t x) = counter (heap s x)" "priority (heap t x) = priority (heap s x)"
    "pending_signals (heap t x) = (if x \<in> A then pending_signals (signal_effect (heap s x)) else pending_signals (heap s x))"
    "processes t = processes s"
  using arg_cong [OF assms, of "\<lambda>v. state (heap v x)"] arg_cong [OF assms, of "\<lambda>v. counter (heap v x)"]
    arg_cong [OF assms, of "\<lambda>v. priority (heap v x)"] arg_cong [OF assms, of "\<lambda>v. pending_signals (heap v x)"]
    arg_cong [OF assms, of processes]
  by (auto simp: signal_effect_state signal_effect_def clear_signal_def split: if_splits)

lemma filter_cong_except:
  "(\<And>x. x \<noteq> n \<Longrightarrow> P x = Q x) \<Longrightarrow> n \<notin> set ts \<Longrightarrow> filter P ts = filter Q ts"
  by (induction ts) auto

lemma ready_except:
  "(\<And>x. x \<noteq> n \<Longrightarrow> g x = f x) \<Longrightarrow> n \<notin> set ts \<Longrightarrow> \<forall>p \<in> set ts. f p = c \<Longrightarrow> \<forall>p \<in> set ts. g p = c"
  by metis

lemma aging_walk_refines:
  assumes "queues s (ds @ ts) mls" "best_link ds best bp"
    and "\<forall>p \<in> set ts. state (heap s p) = PROCESS_READY"
  shows "\<exists>bp' t. aging_walk (last_opt ds) (first_of ts) best bp m s =
             Some (max_from (\<lambda>x. counter (heap s x)) best m (filter (sound s) ts), bp', t) \<and>
           queues t (ds @ filter (sound s) ts) mls \<and> view t = handled (set ts) (view s) \<and>
           best_link (ds @ filter (sound s) ts) (max_from (\<lambda>x. counter (heap s x)) best m (filter (sound s) ts)) bp'"
  using assms
proof (induction ts arbitrary: s ds best bp m)
  case Nil
  then show ?case by (subst aging_walk.simps) simp
next
  case (Cons n ts)
  define s1 where "s1 = upd_pcb n signal_effect s"
  let ?c = "\<lambda>s x. counter (heap s x)"
  have sig: "handle_process_signals n s = Some s1"
    using Cons.prems(3) by (simp add: s1_def handle_process_signals_eq)
  have nx: "next_ready (heap s n) = first_of ts" by (rule queues_next [OF Cons.prems(1)])
  have q1: "queues s1 (ds @ n # ts) mls" using Cons.prems(1) by (simp add: s1_def)
  have d: "n \<notin> set ts" using Cons.prems(1) by (auto simp: queues_def)
  have v1: "view s1 = handled {n} (view s)" by (simp add: s1_def flip: handled_single)
  have rdy: "state (heap s1 n) = PROCESS_READY \<longleftrightarrow> sound s n"
    using Cons.prems(3) by (simp add: s1_def signal_effect_ready)
  have cnt: "?c s1 = ?c s" by (auto simp: s1_def)
  show ?case
  proof (cases "sound s n")
    case False
    obtain q' h' where rm: "remove_process_from (ready_queue s1) (last_opt ds) n (heap s1) = (q', h')"
      by fastforce
    define s2 where "s2 = s1\<lparr>ready_queue := q', heap := h'\<rparr>"
    note U = queues_unlink [OF q1 rm, folded s2_def]
    have st: "state (heap s2 x) = state (heap s x)" "condemned (heap s2 x) = condemned (heap s x)" if "x \<noteq> n" for x
      using view_eqD(1,3) [OF U(2), of x] that by (simp_all add: s1_def condemned_def)
    have cnt2: "?c s2 = ?c s" using view_eqD(2) [OF U(2)] cnt by (auto simp: fun_eq_iff)
    have snd: "filter (sound s2) ts = filter (sound s) ts"
      using st(2) by (intro filter_cong_except [OF _ d]) simp
    have "\<forall>p \<in> set ts. state (heap s2 p) = PROCESS_READY"
      by (rule ready_except [OF st(1) d]) (use Cons.prems(3) in simp_all)
    from Cons.IH [OF U(1) Cons.prems(2) this, of m] obtain bp' t where
      t: "aging_walk (last_opt ds) (first_of ts) best bp m s2 = Some (max_from (?c s) best m (filter (sound s) ts), bp', t)"
        "queues t (ds @ filter (sound s) ts) mls" "view t = handled (set ts) (view s2)"
        "best_link (ds @ filter (sound s) ts) (max_from (?c s) best m (filter (sound s) ts)) bp'"
      unfolding snd cnt2 by blast
    have "aging_walk (last_opt ds) (first_of (n # ts)) best bp m s = aging_walk (last_opt ds) (first_of ts) best bp m s2"
      using False rdy by (subst aging_walk.simps) (simp add: sig nx Let_def rm s2_def)
    moreover have "view t = handled (set (n # ts)) (view s)"
      using t(3) U(2) v1 handled_union [of "{n}" "set ts" "view s"] d by simp
    ultimately show ?thesis using t False by simp
  next
    case True
    let ?b = "if ?c s n > m then Some n else best" and ?p = "if ?c s n > m then last_opt ds else bp"
      and ?m = "if ?c s n > m then ?c s n else m"
    have st: "state (heap s1 x) = state (heap s x)" "condemned (heap s1 x) = condemned (heap s x)" if "x \<noteq> n" for x
      using that by (simp_all add: s1_def)
    have snd: "filter (sound s1) ts = filter (sound s) ts"
      using st(2) by (intro filter_cong_except [OF _ d]) simp
    have link: "best_link (ds @ [n]) ?b ?p" using best_link_snoc [OF Cons.prems(2)] by simp
    have q1': "queues s1 ((ds @ [n]) @ ts) mls" using q1 by simp
    have "\<forall>p \<in> set ts. state (heap s1 p) = PROCESS_READY"
      by (rule ready_except [OF st(1) d]) (use Cons.prems(3) in simp_all)
    from Cons.IH [OF q1' link this, of ?m] obtain bp' t where
      t: "aging_walk (last_opt (ds @ [n])) (first_of ts) ?b ?p ?m s1 =
            Some (max_from (?c s) ?b ?m (filter (sound s) ts), bp', t)"
        "queues t ((ds @ [n]) @ filter (sound s) ts) mls" "view t = handled (set ts) (view s1)"
        "best_link ((ds @ [n]) @ filter (sound s) ts) (max_from (?c s) ?b ?m (filter (sound s) ts)) bp'"
      unfolding snd cnt by blast
    have "aging_walk (last_opt ds) (first_of (n # ts)) best bp m s =
        aging_walk (last_opt (ds @ [n])) (first_of ts) ?b ?p ?m s1"
      using True rdy cnt by (subst aging_walk.simps) (simp add: sig nx Let_def fun_eq_iff)
    moreover have "view t = handled (set (n # ts)) (view s)"
      using t(3) v1 handled_union [of "{n}" "set ts" "view s"] d by simp
    ultimately show ?thesis using t True by (auto split: if_splits)
  qed
qed


text \<open>A new epoch recharges every registered process once.\<close>

lemma table_distinct:
  assumes "table_ok s" "i < length (processes s)" "j < length (processes s)"
    "processes s ! i = Some p" "processes s ! j = Some p"
  shows "i = j"
proof -
  have "pid (heap s p) = int i" "pid (heap s p) = int j"
    by (rule table_okD(3) [OF assms(1)], use assms table_okD(1) [OF assms(1)] in simp_all)+
  then show ?thesis by simp
qed

lemma fold_recharge:
  assumes "\<And>i j p. i < length es \<Longrightarrow> j < length es \<Longrightarrow> es ! i = Some p \<Longrightarrow> es ! j = Some p \<Longrightarrow> i = j"
  shows "fold (\<lambda>entry t. case entry of None \<Rightarrow> t | Some p \<Rightarrow> upd_pcb p f t) es s =
         s\<lparr>heap := (\<lambda>x. if Some x \<in> set es then f (heap s x) else heap s x)\<rparr>"
  using assms
proof (induction es rule: rev_induct)
  case (snoc e es)
  have "i = j" if "i < length es" "j < length es" "es ! i = Some p" "es ! j = Some p" for i j p
    using snoc.prems [of i j p] that by (simp add: nth_append)
  note IH = snoc.IH [OF this]
  have new: "Some p \<notin> set es" if "e = Some p" for p
  proof
    assume "Some p \<in> set es"
    then obtain i where "i < length es" "es ! i = Some p" by (auto simp: in_set_conv_nth)
    then show False using snoc.prems [of i "length es" p] that by (simp add: nth_append)
  qed
  show ?case
    using IH new by (cases e) (auto simp: upd_pcb_def fun_eq_iff)
qed simp

lemma new_epoch_eq:
  assumes "table_ok s"
  shows "new_epoch s = s\<lparr>heap := (\<lambda>x. if registered s x then aging_recharge (heap s x) else heap s x)\<rparr>"
  unfolding new_epoch_def registered_def
  by (rule fold_recharge) (rule table_distinct [OF assms])

lemma signal_set_bit: "signal_set i (w :: uint32) \<longleftrightarrow> bit w i"
  by (simp add: signal_set_def and_exp_eq_0_iff_not_bit push_bit_of_1)

lemma signal_set_clear:
  "signal_set a (pending_signals (clear_signal b P)) \<longleftrightarrow> signal_set a (pending_signals P) \<and> a \<noteq> b"
  by (auto simp: signal_set_bit clear_signal_def bit_simps dest: bit_imp_le_length)

definition quiet :: "PCB \<Rightarrow> bool" where
  "quiet P \<longleftrightarrow> \<not> condemned P \<and> \<not> signal_set SIGNAL_RESUME (pending_signals P)"

lemma quiet_effect: "quiet P \<Longrightarrow> signal_effect P = P"
  by (simp add: quiet_def condemned_def signal_effect_def)

lemma sound_quiet: "\<not> condemned P \<Longrightarrow> quiet (signal_effect P)"
  by (auto simp: quiet_def condemned_def signal_effect_def signal_set_clear SIGNAL_KILL_def SIGNAL_STOP_def SIGNAL_RESUME_def)

lemma quiet_next [simp]: "quiet (P\<lparr>next_ready := x\<rparr>) = quiet P" "quiet (payload h p) = quiet (h p)"
  "quiet (aging_recharge P) = quiet P"
  by (simp_all add: quiet_def condemned_def aging_recharge_def)

lemma handled_quiet: "\<forall>x \<in> A. quiet (heap v x) \<Longrightarrow> handled A v = v"
  by (simp add: handled_def quiet_effect if_distrib cong: if_cong)

lemma queue_head_first: "queues s rq mls \<Longrightarrow> q_head (ready_queue s) = first_of rq"
  by (auto simp: queues_def queue_rep_def dest: chain_first)

text \<open>One round of the selection.\<close>

lemma aging_round:
  assumes q: "queues s rq mls" and rdy: "\<forall>p \<in> set rq. state (heap s p) = PROCESS_READY"
  defines "xs \<equiv> filter (sound s) rq"
  defines "best \<equiv> max_from (\<lambda>x. counter (heap s x)) None 0 xs"
  shows "\<exists>t. queues t xs mls \<and> view t = handled (set rq) (view s) \<and>
    (case best of
       Some b \<Rightarrow> \<exists>u. aging_select s = Some (Some b, u) \<and> queues u (remove1 b xs) mls \<and> view u = view t
     | None \<Rightarrow> aging_select s = (if xs = [] then Some (None, t) else aging_select (new_epoch t)))"
proof -
  have "queues s ([] @ rq) mls" "best_link [] None None" using q by (simp_all add: best_link_def)
  from aging_walk_refines [OF this rdy, of 0] obtain bp t where
    t: "aging_walk None (first_of rq) None None 0 s = Some (best, bp, t)" "queues t xs mls"
      "view t = handled (set rq) (view s)" "best_link xs best bp"
    by (auto simp: xs_def best_def)
  have sel: "aging_select s = (case best of
       Some b \<Rightarrow>
         (let (q, h) = remove_process_from (ready_queue t) bp b (heap t)
          in Some (Some b, t\<lparr>ready_queue := q, heap := h\<rparr>))
     | None \<Rightarrow> if q_head (ready_queue t) = None then Some (None, t) else aging_select (new_epoch t))"
    unfolding aging_select.simps [of s] queue_head_first [OF q] t(1) by simp
  show ?thesis
  proof (cases best)
    case None
    then show ?thesis using sel t(2,3) queue_head_first [OF t(2)] by (cases xs) auto
  next
    case (Some b)
    then obtain as bs where xs: "xs = as @ b # bs" "bp = last_opt as" using t(4) by (auto simp: best_link_def)
    obtain q' h' where rm: "remove_process_from (ready_queue t) (last_opt as) b (heap t) = (q', h')" by fastforce
    note U = queues_unlink [OF t(2) [unfolded xs(1)] rm]
    have "distinct xs" using t(2) by (simp add: queues_def)
    then have "remove1 b xs = as @ bs" using xs by (simp add: remove1_append)
    then show ?thesis using Some sel t(2,3) U rm xs(2) by auto
  qed
qed

text \<open>Epochs on the level of the abstraction.\<close>

lemma view_new_epoch:
  assumes "table_ok s"
  shows "view (new_epoch s) = new_epoch (view s)"
proof -
  have tv: "table_ok (view s)" using assms by simp
  show ?thesis unfolding new_epoch_eq [OF assms] new_epoch_eq [OF tv]
    by (auto simp: view_def payload_def fun_eq_iff aging_recharge_def registered_def)
qed

lemma new_epoch_fields:
  assumes "table_ok s"
  shows "table_ok (new_epoch s)" "same_table s (new_epoch s)" "queues (new_epoch s) rq mls = queues s rq mls"
    "state (heap (new_epoch s) x) = state (heap s x)" "quiet (heap (new_epoch s) x) = quiet (heap s x)"
    "registered s x \<Longrightarrow> counter (heap (new_epoch s) x) = counter (heap s x) div 2 + priority (heap s x)"
    "registered (new_epoch s) = registered s"
proof -
  note E = new_epoch_eq [OF assms]
  show same: "same_table s (new_epoch s)" by (simp add: same_table_def E aging_recharge_def)
  then show "table_ok (new_epoch s)" using same_table_ok assms by blast
  show "registered (new_epoch s) = registered s" by (rule same_table_registered [OF same])
  have "queue_rep (heap (new_epoch s)) q zs = queue_rep (heap s) q zs" for q zs
    by (rule queue_rep_cong) (simp add: E aging_recharge_def)
  then show "queues (new_epoch s) rq mls = queues s rq mls" by (simp add: queues_def list_all2_conv_all_nth E)
  show "state (heap (new_epoch s) x) = state (heap s x)" "quiet (heap (new_epoch s) x) = quiet (heap s x)"
    "registered s x \<Longrightarrow> counter (heap (new_epoch s) x) = counter (heap s x) div 2 + priority (heap s x)"
    by (simp_all add: E aging_recharge_def quiet_def condemned_def)
qed

lemma max_from_None_nonpos: "max_from f None m xs = None \<Longrightarrow> x \<in> set xs \<Longrightarrow> f x \<le> m"
  using max_from_cases [of f None m xs] by auto

text \<open>Without pending signals the selection ends: each epoch raises every counter that is not
  positive, because priorities are at least 1.\<close>

lemma aging_select_quiet:
  assumes "queues s (x # xs) mls" "\<forall>p \<in> set (x # xs). state (heap s p) = PROCESS_READY \<and> registered s p \<and> quiet (heap s p)"
    and "table_ok s"
  shows "\<exists>k b t. aging_select s = Some (Some b, t) \<and> queues t (remove1 b (x # xs)) mls \<and>
    view t = (new_epoch ^^ k) (view s) \<and>
    max_from (\<lambda>p. counter (heap t p)) None 0 (x # xs) = Some b \<and>
    (\<forall>j < k. \<forall>p \<in> set (x # xs). counter (heap ((new_epoch ^^ j) (view s)) p) \<le> 0)"
  using assms
proof (induction "nat (1 - counter (heap s x))" arbitrary: s rule: less_induct)
  case less
  let ?c = "\<lambda>p. counter (heap s p)"
  have snd: "filter (sound s) (x # xs) = x # xs" using less.prems(2) by (intro filter_True) (auto simp: quiet_def)
  have rdy: "\<forall>p \<in> set (x # xs). state (heap s p) = PROCESS_READY" using less.prems(2) by blast
  have qh: "handled (set (x # xs)) (view s) = view s" by (rule handled_quiet) (use less.prems(2) in auto)
  from aging_round [OF less.prems(1) rdy, unfolded snd qh] obtain t where
    t: "queues t (x # xs) mls" "view t = view s"
      "case max_from ?c None 0 (x # xs) of
         Some b \<Rightarrow> \<exists>u. aging_select s = Some (Some b, u) \<and> queues u (remove1 b (x # xs)) mls \<and> view u = view t
       | None \<Rightarrow> aging_select s = (if x # xs = [] then Some (None, t) else aging_select (new_epoch t))" by blast
  show ?case
  proof (cases "max_from ?c None 0 (x # xs)")
    case (Some b)
    with t(3) obtain u where u: "aging_select s = Some (Some b, u)" "queues u (remove1 b (x # xs)) mls" "view u = view t"
      by auto
    have "counter (heap u p) = ?c p" for p using u(3) t(2) view_eqD(2) by metis
    then show ?thesis using u t(2) Some by (intro exI [of _ "0 :: nat"] exI [of _ b] exI [of _ u]) simp
  next
    case None
    have le: "?c p \<le> 0" if "p \<in> set (x # xs)" for p using max_from_None_nonpos [OF None that] .
    have tab: "table_ok t" using t(2) less.prems(3) ok_view(1) by metis
    note N = new_epoch_fields [OF tab]
    have regt: "registered t = registered s" using t(2) registered_view by metis
    have x: "registered t x" "?c x \<le> 0" using less.prems(2) le regt by auto
    have "1 \<le> priority (heap t x)" using table_okD(4) [OF tab x(1)] .
    then have "counter (heap (new_epoch t) x) > ?c x"
      using N(6) [OF x(1)] view_eqD(2) [OF t(2), of x] x(2) by linarith
    then have dec: "nat (1 - counter (heap (new_epoch t) x)) < nat (1 - ?c x)" using x(2) by linarith
    have ok: "\<forall>p \<in> set (x # xs). state (heap (new_epoch t) p) = PROCESS_READY \<and> registered (new_epoch t) p \<and> quiet (heap (new_epoch t) p)"
    proof
      fix p assume p: "p \<in> set (x # xs)"
      have "state (heap t p) = state (heap s p)" "pending_signals (heap t p) = pending_signals (heap s p)"
        using view_eqD(1,3) [OF t(2)] by blast+
      then have "state (heap t p) = state (heap s p)" "quiet (heap t p) = quiet (heap s p)"
        by (simp_all add: quiet_def condemned_def)
      then have "state (heap t p) = PROCESS_READY \<and> registered t p \<and> quiet (heap t p)"
        using bspec [OF less.prems(2) p] regt by simp
      then show "state (heap (new_epoch t) p) = PROCESS_READY \<and> registered (new_epoch t) p \<and> quiet (heap (new_epoch t) p)"
        using N(4,5,7) by simp
    qed
    have "queues (new_epoch t) (x # xs) mls" using t(1) N(3) by simp
    from less.hyps [OF dec this ok N(1)] obtain k b u where
      u: "aging_select (new_epoch t) = Some (Some b, u)" "queues u (remove1 b (x # xs)) mls"
        "view u = (new_epoch ^^ k) (view (new_epoch t))"
        "max_from (\<lambda>p. counter (heap u p)) None 0 (x # xs) = Some b"
        "\<forall>j < k. \<forall>p \<in> set (x # xs). counter (heap ((new_epoch ^^ j) (view (new_epoch t))) p) \<le> 0" by blast
    have ve: "view (new_epoch t) = new_epoch (view s)" using view_new_epoch [OF tab] t(2) by simp
    have "aging_select s = Some (Some b, u)" using t(3) None u(1) by simp
    moreover have "view u = (new_epoch ^^ Suc k) (view s)" using u(3) ve by (simp add: funpow_swap1)
    moreover have "\<forall>j < Suc k. \<forall>p \<in> set (x # xs). counter (heap ((new_epoch ^^ j) (view s)) p) \<le> 0"
    proof (intro allI impI ballI)
      fix j p assume "j < Suc k" "p \<in> set (x # xs)"
      then show "counter (heap ((new_epoch ^^ j) (view s)) p) \<le> 0"
        using u(5) ve le by (cases j) (auto simp: funpow_swap1)
    qed
    ultimately show ?thesis using u(2,4) by blast
  qed
qed


text \<open>The whole selection: condemned processes leave, then epochs pass until some counter is
  positive, and the process with the largest counter is taken.\<close>

lemma aging_select_refines:
  assumes q: "queues s rq mls" and tab: "table_ok s"
    and rdy: "\<forall>p \<in> set rq. state (heap s p) = PROCESS_READY" and reg: "\<forall>p \<in> set rq. registered s p"
  defines "xs \<equiv> filter (sound s) rq"
  shows "\<exists>k r t. aging_select s = Some (r, t) \<and>
    queues t (case r of None \<Rightarrow> [] | Some b \<Rightarrow> remove1 b xs) mls \<and>
    view t = (new_epoch ^^ k) (handled (set rq) (view s)) \<and>
    max_from (\<lambda>p. counter (heap t p)) None 0 xs = r \<and> (r = None \<longleftrightarrow> xs = []) \<and>
    (\<forall>j < k. \<forall>p \<in> set xs. counter (heap ((new_epoch ^^ j) (handled (set rq) (view s))) p) \<le> 0)"
proof -
  let ?c = "\<lambda>p. counter (heap s p)"
  from aging_round [OF q rdy] obtain t where
    t: "queues t xs mls" "view t = handled (set rq) (view s)"
      "case max_from ?c None 0 xs of
         Some b \<Rightarrow> \<exists>u. aging_select s = Some (Some b, u) \<and> queues u (remove1 b xs) mls \<and> view u = view t
       | None \<Rightarrow> aging_select s = (if xs = [] then Some (None, t) else aging_select (new_epoch t))"
    unfolding xs_def by blast
  note V = view_handled_eqD [OF t(2)]
  show ?thesis
  proof (cases "max_from ?c None 0 xs")
    case (Some b)
    with t(3) obtain u where u: "aging_select s = Some (Some b, u)" "queues u (remove1 b xs) mls" "view u = view t"
      by auto
    have "counter (heap u p) = ?c p" for p using u(3) V(2) view_eqD(2) by metis
    then show ?thesis using u t(2) Some by (intro exI [of _ "0 :: nat"] exI [of _ "Some b"] exI [of _ u]) auto
  next
    case None
    show ?thesis
    proof (cases xs)
      case Nil
      then show ?thesis using None t by (intro exI [of _ "0 :: nat"] exI [of _ None] exI [of _ t]) auto
    next
      case (Cons x ys)
      have tabt: "table_ok t"
      proof -
        have "same_table (view s) (view t)" unfolding t(2) by simp
        then show ?thesis using same_table_ok tab by simp
      qed
      note N = new_epoch_fields [OF tabt]
      have ok: "\<forall>p \<in> set (x # ys). state (heap (new_epoch t) p) = PROCESS_READY \<and> registered (new_epoch t) p \<and> quiet (heap (new_epoch t) p)"
      proof
        fix p assume p: "p \<in> set (x # ys)"
        then have m: "p \<in> set rq" "\<not> condemned (heap s p)" using Cons by (auto simp: xs_def simp flip: Cons)
        then have "state (heap t p) = PROCESS_READY" "quiet (heap t p)"
          using V(1,4) [of p] rdy sound_quiet [of "heap s p"] by (simp_all add: signal_effect_ready quiet_def condemned_def)
        moreover have "registered t p" using reg m(1) V(5) by (simp add: registered_def)
        ultimately show "state (heap (new_epoch t) p) = PROCESS_READY \<and> registered (new_epoch t) p \<and> quiet (heap (new_epoch t) p)"
          using N(4,5,7) by simp
      qed
      have "queues (new_epoch t) (x # ys) mls" using t(1) N(3) Cons by simp
      from aging_select_quiet [OF this ok N(1)] obtain k b u where
        u: "aging_select (new_epoch t) = Some (Some b, u)" "queues u (remove1 b xs) mls"
          "view u = (new_epoch ^^ k) (view (new_epoch t))"
          "max_from (\<lambda>p. counter (heap u p)) None 0 xs = Some b"
          "\<forall>j < k. \<forall>p \<in> set xs. counter (heap ((new_epoch ^^ j) (view (new_epoch t))) p) \<le> 0"
        unfolding Cons by blast
      have ve: "view (new_epoch t) = new_epoch (handled (set rq) (view s))" using view_new_epoch [OF tabt] t(2) by simp
      have le: "counter (heap (handled (set rq) (view s)) p) \<le> 0" if "p \<in> set xs" for p
        using max_from_None_nonpos [OF None that] by simp
      have "aging_select s = Some (Some b, u)" using t(3) None u(1) Cons by simp
      moreover have "view u = (new_epoch ^^ Suc k) (handled (set rq) (view s))" using u(3) ve by (simp add: funpow_swap1)
      moreover have "\<forall>j < Suc k. \<forall>p \<in> set xs. counter (heap ((new_epoch ^^ j) (handled (set rq) (view s))) p) \<le> 0"
      proof (intro allI impI ballI)
        fix j p assume "j < Suc k" "p \<in> set xs"
        then show "counter (heap ((new_epoch ^^ j) (handled (set rq) (view s))) p) \<le> 0"
          using u(5) ve le by (cases j) (auto simp: funpow_swap1)
      qed
      ultimately show ?thesis using u(2,4) Cons by (intro exI [of _ "Suc k"] exI [of _ "Some b"] exI [of _ u]) simp
    qed
  qed
qed

lemma funpow_new_epoch:
  assumes "table_ok s"
  shows "same_table s ((new_epoch ^^ k) s)" "state (heap ((new_epoch ^^ k) s) x) = state (heap s x)"
proof -
  have "same_table s ((new_epoch ^^ k) s) \<and> state (heap ((new_epoch ^^ k) s) x) = state (heap s x)"
  proof (induction k)
    case (Suc k)
    then have "table_ok ((new_epoch ^^ k) s)" using same_table_ok assms by blast
    from new_epoch_fields(2,4) [OF this] Suc show ?case using same_table_trans by fastforce
  qed simp
  then show "same_table s ((new_epoch ^^ k) s)" "state (heap ((new_epoch ^^ k) s) x) = state (heap s x)" by auto
qed

lemma max_from_in: "max_from f None m xs = Some b \<Longrightarrow> b \<in> set xs"
  using max_from_cases [of f None m xs] by auto

lemma aging_select_selected:
  assumes inv: "ready_inv s rq mls" and ml: "ml_policy (active_algorithm s) = None"
  shows "\<exists>r t rq' mls'. aging_select s = Some (r, t) \<and> queues t rq' mls' \<and>
           shrinks rq mls rq' mls' \<and> selected s (queued rq mls) r t (queued rq' mls')"
proof -
  note D = ready_invD [OF inv]
  let ?xs = "filter (sound s) rq" and ?h = "handled (set rq) (view s)"
  have rdy: "\<forall>p \<in> set rq. state (heap s p) = PROCESS_READY" using D(5) by blast
  have reg: "\<forall>p \<in> set rq. registered s p" using sched_invD(6) [OF D(1)] by blast
  from aging_select_refines [OF D(2,3) rdy reg] obtain k r t where
    t: "aging_select s = Some (r, t)" "queues t (case r of None \<Rightarrow> [] | Some b \<Rightarrow> remove1 b ?xs) mls"
      "view t = (new_epoch ^^ k) ?h" "max_from (\<lambda>p. counter (heap t p)) None 0 ?xs = r" "r = None \<longleftrightarrow> ?xs = []"
    by (elim exE conjE)
  let ?q = "case r of None \<Rightarrow> [] | Some b \<Rightarrow> remove1 b ?xs" and ?A = "{x \<in> set rq. condemned (heap s x)} \<union> set_option r"
  note empty = no_levels [OF D(1) ml]
  have tab: "table_ok ?h" using D(3) same_table_ok [of "view s" ?h] by simp
  note F = funpow_new_epoch [OF tab, of k, folded t(3)]
  have d: "distinct ?xs" using D(4) by simp
  have r: "r = Some b \<Longrightarrow> b \<in> set rq \<and> \<not> condemned (heap s b)" for b
    using t(4) max_from_in [of _ 0 ?xs b] by auto
  have none: "\<forall>x \<in> set rq. condemned (heap s x)" if "r = None"
    using t(5) that by (simp add: filter_empty_conv)
  have q: "set ?q = set rq - ?A" using d none by (cases r) auto
  have "selected s (set rq) r (handled ?A s) (set rq - ?A)"
    by (rule selected_handled) (use rdy r none in \<open>auto split: option.split\<close>)
  moreover have "same_table s t" using F(1) same_table_handled [of "view s" "set rq"]
    by (metis same_table_trans same_table_view)
  moreover have "state (heap t x) = state (heap (handled ?A s) x)" for x
  proof -
    have "state (heap t x) = state (heap ?h x)" using F(2) [of x] by simp
    also have "\<dots> = (if x \<in> set rq then state (signal_effect (heap s x)) else state (heap s x))"
      by (simp add: signal_effect_state)
    also have "\<dots> = state (heap (handled ?A s) x)"
    proof -
      have "x \<in> set_option r \<Longrightarrow> x \<in> set rq" using r by (cases r) auto
      moreover have "state (signal_effect (heap s x)) = state (heap s x)" if "x \<notin> ?A" "x \<in> set rq"
        using that by (auto simp: signal_effect_state condemned_def)
      ultimately show ?thesis by auto
    qed
    finally show ?thesis .
  qed
  ultimately have "selected s (set rq) r t (set ?q)" unfolding q by (rule selected_same)
  then have "selected s (queued rq mls) r t (queued ?q mls)" unfolding empty by simp
  moreover have "shrinks rq mls ?q mls" using q by (auto simp: shrinks_def)
  ultimately show ?thesis using t(1,2) by blast
qed

interpretation aging: selector sched_priority_aging aging_select
  by unfold_locales (rule aging_select_selected, assumption, simp)

lemma schedule_priority_aging_pick:
  "active_algorithm s = sched_priority_aging \<Longrightarrow> schedule_priority_aging s = pick_with aging_select s"
  by (simp add: schedule_priority_aging_def pick_with_def Let_def)

end
