(* ===== verification/Scheduler_Operations.thy ===== *)
theory Scheduler_Operations
  imports Selection_Aging
begin

text \<open>
  The operations that the rest of the kernel calls, over the invariant: the dispatch of every
  algorithm, the boost and demotion of the multilevel feedback queue, the timer tick, voluntary
  scheduling, waking, exit, registration and the scheduling parameters. Each returns, and each
  keeps the invariant that the initial state has.
\<close>

definition well_formed :: "sched_state \<Rightarrow> bool" where
  "well_formed s \<longleftrightarrow> (\<exists>rq mls. sched_inv s rq mls)"

subsection \<open>Every algorithm dispatches\<close>

lemma alg_pick_next_with:
  assumes "sched_inv s rq mls"
  shows "\<exists>select. selector (active_algorithm s) select \<and>
           alg_pick_next (active_algorithm s) s = pick_with select s"
proof (cases "active_algorithm s")
  case sched_round_robin
  then show ?thesis using rr.selector_axioms schedule_round_robin_pick by auto
next
  case sched_fcfs
  then show ?thesis using fcfs.selector_axioms schedule_queue_head_pick by auto
next
  case sched_sjf
  then show ?thesis using sjf.selector_axioms schedule_queue_head_pick by auto
next
  case sched_lottery
  then show ?thesis using lottery.selector_axioms schedule_lottery_pick by auto
next
  case sched_priority_aging
  then show ?thesis using aging.selector_axioms schedule_priority_aging_pick by auto
next
  case sched_mlq
  then show ?thesis using mlq.selector_axioms schedule_multilevel_pick [OF sched_mlq _ _ assms] by auto
next
  case sched_mlfq
  then show ?thesis using mlfq.selector_axioms schedule_multilevel_pick [OF sched_mlfq _ _ assms] by auto
qed

lemma dispatch_ok:
  assumes "well_formed s"
  shows "\<exists>t. schedule_dispatch s = Some t \<and> well_formed t \<and> dispatched s t"
proof -
  obtain rq mls where inv: "sched_inv s rq mls" using assms by (auto simp: well_formed_def)
  from alg_pick_next_with [OF inv] obtain select where
    sel: "selector (active_algorithm s) select" "alg_pick_next (active_algorithm s) s = pick_with select s" by blast
  from selector.pick_total [OF sel(1) inv refl] obtain t rq' mls' where
    t: "pick_with select s = Some t" "sched_inv t rq' mls'" by blast
  moreover have "dispatched s t" by (rule selector.pick_dispatched [OF sel(1) inv refl t(1)])
  ultimately show ?thesis using sel(2) by (auto simp: schedule_dispatch_def well_formed_def)
qed

text \<open>Bookkeeping on PCBs that the invariant does not see.\<close>

lemma sched_inv_upd:
  assumes "link_free f" "\<And>P. pid (f P) = pid P" "\<And>P. priority (f P) = priority P"
    "\<And>P. tickets (f P) = tickets P" "\<And>P. state (f P) = state P"
  shows "sched_inv (upd_pcb p f s) rq mls = sched_inv s rq mls"
proof -
  have "table_ok (upd_pcb p f s) = table_ok s" by (rule table_ok_cong) (simp_all add: assms)
  moreover have "states_ok (upd_pcb p f s) rq mls = states_ok s rq mls"
    by (rule states_ok_cong) (simp_all add: assms)
  ultimately show ?thesis by (simp add: sched_inv_def assms(1))
qed

lemma well_formed_upd:
  assumes "link_free f" "\<And>P. pid (f P) = pid P" "\<And>P. priority (f P) = priority P"
    "\<And>P. tickets (f P) = tickets P" "\<And>P. state (f P) = state P"
  shows "well_formed (upd_pcb p f s) = well_formed s"
  using sched_inv_upd [OF assms] by (simp add: well_formed_def)

lemma well_formed_counters [simp]:
  "well_formed (upd_pcb p (\<lambda>P. P\<lparr>counter := k\<rparr>) s) = well_formed s"
  "well_formed (upd_pcb p (\<lambda>P. P\<lparr>counter := counter P - k\<rparr>) s) = well_formed s"
  "well_formed (upd_pcb p (\<lambda>P. P\<lparr>burst_ticks := burst_ticks P + k\<rparr>) s) = well_formed s"
  "well_formed (upd_pcb p end_burst s) = well_formed s"
  "well_formed (preempt_enable s) = well_formed s" "well_formed (preempt_disable s) = well_formed s"
  by (rule well_formed_upd; simp add: end_burst_def)+ (simp_all add: well_formed_def)

subsection \<open>The boost\<close>

lemma boost_level_refines:
  assumes "queues s rq mls" "l < length mls" "0 < l"
    and "\<forall>p \<in> set (mls ! l). p \<noteq> init_process \<and> state (heap s p) = PROCESS_READY \<and>
           0 \<le> pid (heap s p) \<and> pid (heap s p) < int (length (queue_level s))"
  shows "\<exists>t ls. boost_level l s = Some t \<and> queues t rq (mls[0 := mls ! 0 @ mls ! l, l := []]) \<and>
           view t = (view s)\<lparr>queue_level := ls\<rparr> \<and> length ls = length (queue_level s)"
  using assms
proof (induction "mls ! l" arbitrary: s mls)
  case Nil
  have e: "mls ! l = []" using Nil.hyps by simp
  have "boost_level l s = Some s"
    by (subst boost_level.simps) (simp add: dequeue_level_Nil [OF Nil.prems(1,2) e])
  moreover have "mls[0 := mls ! 0 @ mls ! l, l := []] = mls"
    using list_update_id [of mls l] list_update_id [of mls 0] e by simp
  moreover have "view s = (view s)\<lparr>queue_level := queue_level s\<rparr>" by (simp add: view_def)
  ultimately show ?case using Nil.prems(1) by metis
next
  case (Cons p ps)
  let ?m = "mls[l := ps]"
  from dequeue_level_Cons [OF Cons.prems(1,2) Cons.hyps(2) [symmetric]] obtain s1 where
    deq: "dequeue_level l s = Some (Some p, s1)" and q1: "queues s1 rq ?m" and v1: "view s1 = view s"
    by blast
  have all: "\<forall>x \<in> set (p # ps). x \<noteq> init_process \<and> state (heap s x) = PROCESS_READY \<and>
           0 \<le> pid (heap s x) \<and> pid (heap s x) < int (length (queue_level s))"
    using Cons.prems(4) Cons.hyps(2) by simp
  have len0: "0 < length mls" using Cons.prems(2) by (rule le_less_trans [OF le0])
  have pid: "pid (heap s1 x) = pid (heap s x)" "state (heap s1 x) = state (heap s x)" "queue_level s1 = queue_level s" for x
    using arg_cong [OF v1, of "\<lambda>v. pid (heap v x)"] arg_cong [OF v1, of "\<lambda>v. state (heap v x)"]
      arg_cong [OF v1, of queue_level] by simp_all
  have "distinct (rq @ concat mls)" using Cons.prems(1) by (simp add: queues_def)
  moreover have "mset (rq @ concat mls) = mset (p # (rq @ concat ?m))"
    using distinct_concat_update [OF Cons.prems(2) Cons.hyps(2) [symmetric]] by simp
  ultimately have "distinct (p # (rq @ concat ?m))" by (metis mset_eq_imp_distinct_iff)
  then have notin: "p \<notin> queued rq ?m" by auto
  obtain q0 h where enq: "enqueue_process_to (ml_queues s1 ! 0) (Some p) (heap s1) = (q0, h)" by fastforce
  let ?s2 = "s1\<lparr>ml_queues := (ml_queues s1)[0 := q0], heap := h\<rparr>"
  have p: "p \<noteq> init_process" using all by simp
  have l0: "0 < length ?m" using len0 by simp
  note E = enqueue_level_refines [OF q1 p notin l0 enq]
  let ?ls = "(queue_level s1)[nat (pid (heap s1 p)) := 0]"
  let ?s3 = "s1\<lparr>queue_level := ?ls, ml_queues := (ml_queues s1)[0 := q0], heap := h\<rparr>"
  let ?m2 = "?m[0 := ?m ! 0 @ [p]]"
  have q3: "queues ?s3 rq ?m2" using E(1) by (simp add: queues_def)
  have "upd_pcb p set_ready (view s) = view s" by (rule upd_pcb_same) (use all in \<open>simp add: payload_def\<close>)
  moreover have "view ?s3 = (view ?s2)\<lparr>queue_level := ?ls\<rparr>" by (rule sched_state.equality) (simp_all add: view_def)
  ultimately have v3: "view ?s3 = (view s)\<lparr>queue_level := ?ls\<rparr>" unfolding E(2) v1 by simp
  have step: "boost_level l s = boost_level l ?s3"
    using all enq queues_levels_length [OF q1] len0 pid
    by (subst boost_level.simps) (simp add: deq array_get_def array_set_def)
  have m2l: "?m2 ! l = ps" "?m2 ! 0 = mls ! 0 @ [p]" using Cons.prems(2,3) l0 by simp_all
  have "pid (heap ?s3 x) = pid (heap s x)" "state (heap ?s3 x) = state (heap s x)" for x
    using arg_cong [OF v3, of "\<lambda>v. pid (heap v x)"] arg_cong [OF v3, of "\<lambda>v. state (heap v x)"] by simp_all
  then have "\<forall>x \<in> set (?m2 ! l). x \<noteq> init_process \<and> state (heap ?s3 x) = PROCESS_READY \<and>
           0 \<le> pid (heap ?s3 x) \<and> pid (heap ?s3 x) < int (length (queue_level ?s3))"
    using all pid(3) unfolding m2l by simp
  from Cons.hyps(1) [OF m2l(1) [symmetric] q3 _ Cons.prems(3) this] Cons.prems(2) obtain t ls where
    t: "boost_level l ?s3 = Some t" "queues t rq (?m2[0 := ?m2 ! 0 @ ?m2 ! l, l := []])"
      "view t = (view ?s3)\<lparr>queue_level := ls\<rparr>" "length ls = length (queue_level ?s3)" by auto
  have "?m2[0 := ?m2 ! 0 @ ?m2 ! l, l := []] = mls[0 := mls ! 0 @ mls ! l, l := []]"
    unfolding m2l using Cons.hyps(2) [symmetric] Cons.prems(3) by (simp add: list_update_swap)
  then show ?case using step t v3 pid(3) by auto
qed


definition boosted :: "nat \<Rightarrow> 'a list list \<Rightarrow> 'a list list" where
  "boosted k mls = concat (take k mls) # replicate (k - 1) [] @ drop k mls"

lemma boosted_step:
  assumes "0 < k" "k < length mls"
  shows "(boosted k mls)[0 := boosted k mls ! 0 @ boosted k mls ! k, k := []] = boosted (Suc k) mls"
    "boosted k mls ! k = mls ! k" "length (boosted k mls) = length mls"
proof -
  have nth: "boosted k mls ! k = mls ! k"
    using assms by (cases k) (auto simp: boosted_def nth_append)
  obtain j where k: "k = Suc j" using assms(1) by (cases k) auto
  have d: "drop k mls = mls ! k # drop (Suc k) mls" using assms(2) by (simp add: Cons_nth_drop_Suc)
  have r: "replicate j [] @ [] # drop (Suc k) mls = replicate (Suc j) [] @ drop (Suc k) mls"
    by (simp add: replicate_append_same [symmetric])
  show "(boosted k mls)[0 := boosted k mls ! 0 @ boosted k mls ! k, k := []] = boosted (Suc k) mls"
    unfolding nth using assms d r by (simp add: boosted_def k take_Suc_conv_app_nth list_update_append)
  show "boosted k mls ! k = mls ! k" by (rule nth)
  show "length (boosted k mls) = length mls" using assms by (simp add: boosted_def)
qed

lemma boost_levels_refine:
  assumes q: "queues s rq mls" and k: "0 < k" "k \<le> length mls"
    and ok: "\<forall>p \<in> set (concat mls). p \<noteq> init_process \<and> state (heap s p) = PROCESS_READY \<and>
           0 \<le> pid (heap s p) \<and> pid (heap s p) < int (length (queue_level s))"
  shows "\<exists>t ls. foldM boost_level [1..<k] s = Some t \<and> queues t rq (boosted k mls) \<and>
           view t = (view s)\<lparr>queue_level := ls\<rparr> \<and> length ls = length (queue_level s)"
  using k
proof (induction k)
  case (Suc k)
  show ?case
  proof (cases "k = 0")
    case True
    have "mls \<noteq> []" using Suc.prems by auto
    then have "boosted (Suc k) mls = mls" using True by (cases mls) (auto simp: boosted_def)
    moreover have "view s = (view s)\<lparr>queue_level := queue_level s\<rparr>" by (simp add: view_def)
    ultimately show ?thesis using q True by (auto intro!: exI [of _ "queue_level s"] simp: view_def)
  next
    case False
    with Suc obtain t ls where t: "foldM boost_level [1..<k] s = Some t" "queues t rq (boosted k mls)"
      "view t = (view s)\<lparr>queue_level := ls\<rparr>" "length ls = length (queue_level s)" by auto
    have k: "0 < k" "k < length mls" using False Suc.prems by auto
    note B = boosted_step [OF k]
    have heap: "pid (heap t x) = pid (heap s x)" "state (heap t x) = state (heap s x)" "queue_level t = ls" for x
      using arg_cong [OF t(3), of "\<lambda>v. pid (heap v x)"] arg_cong [OF t(3), of "\<lambda>v. state (heap v x)"]
        arg_cong [OF t(3), of queue_level] by simp_all
    have "\<forall>p \<in> set (boosted k mls ! k). p \<noteq> init_process \<and> state (heap t p) = PROCESS_READY \<and>
           0 \<le> pid (heap t p) \<and> pid (heap t p) < int (length (queue_level t))"
      unfolding B(2) heap t(4) using ok k(2) by (auto dest: nth_mem)
    from boost_level_refines [OF t(2) _ k(1) this] k(2) B obtain u ls' where
      u: "boost_level k t = Some u" "queues u rq (boosted (Suc k) mls)" "view u = (view t)\<lparr>queue_level := ls'\<rparr>"
        "length ls' = length (queue_level t)" by auto
    have "[1..<Suc k] = [1..<k] @ [k]" using k(1) by simp
    then have "foldM boost_level [1..<Suc k] s = Some u" using t(1) u(1) by (simp add: foldM_append)
    moreover have "view u = (view s)\<lparr>queue_level := ls'\<rparr>" using u(3) t(3) by simp
    ultimately show ?thesis using u(2,4) heap(3) t(4) by auto
  qed
qed simp

lemma boosted_all: "mls \<noteq> [] \<Longrightarrow> boosted (length mls) mls = concat mls # replicate (length mls - 1) []"
  by (simp add: boosted_def)

lemma states_ok_queues:
  assumes "states_ok s rq mls" "set (concat mls') = set (concat mls)" "length mls' = length mls"
    "ml_policy (active_algorithm s) = Some policy"
  shows "states_ok s rq mls'"
  using assms unfolding states_ok_def by (simp del: set_concat)

lemma table_ok_levels:
  assumes "table_ok s" "length ls = N_PROCESSES" "\<forall>l \<in> set ls. 0 \<le> l \<and> l < int ML_MAX_LEVELS"
  shows "table_ok (s\<lparr>queue_level := ls, ml_ticks_since_boost := k\<rparr>)"
  using assms unfolding table_ok_def registered_def by simp

lemma multilevel_boost_fires:
  assumes inv: "sched_inv s rq mls" and pol: "ml_policy (active_algorithm s) = Some policy"
    and fire: "0 < boost_period policy" "boost_period policy \<le> ml_ticks_since_boost s + 1"
  shows "\<exists>t. multilevel_boost policy s = Some t \<and>
           sched_inv t rq (concat mls # replicate (ML_MAX_LEVELS - 1) []) \<and>
           view t = (view s)\<lparr>queue_level := replicate N_PROCESSES 0, ml_ticks_since_boost := 0\<rparr>"
proof -
  let ?s1 = "s\<lparr>ml_ticks_since_boost := ml_ticks_since_boost s + 1\<rparr>"
  have len: "length mls = n_levels policy" "0 < n_levels policy"
    using sched_invD(8) [OF inv] policy_shape [OF pol] by (simp_all add: ML_MAX_LEVELS_def)
  have tab: "table_ok s" by (rule sched_invD(2) [OF inv])
  have "\<forall>p \<in> set (concat mls). p \<noteq> init_process \<and> state (heap ?s1 p) = PROCESS_READY \<and>
           0 \<le> pid (heap ?s1 p) \<and> pid (heap ?s1 p) < int (length (queue_level ?s1))"
  proof
    fix p assume "p \<in> set (concat mls)"
    then have "registered s p \<and> p \<noteq> init_process \<and> state (heap s p) = PROCESS_READY"
      using sched_invD(6) [OF inv, of p] by blast
    then show "p \<noteq> init_process \<and> state (heap ?s1 p) = PROCESS_READY \<and>
           0 \<le> pid (heap ?s1 p) \<and> pid (heap ?s1 p) < int (length (queue_level ?s1))"
      using registered_pid(1,2) [OF tab, of p] table_okD(2) [OF tab] by simp
  qed
  from boost_levels_refine [OF _ len(2) _ this, of rq] sched_invD(1) [OF inv] len obtain t ls where
    t: "foldM boost_level [1..<n_levels policy] ?s1 = Some t" "queues t rq (boosted (n_levels policy) mls)"
      "view t = (view ?s1)\<lparr>queue_level := ls\<rparr>" "length ls = length (queue_level s)" by auto
  have ql: "queue_level t = ls" using arg_cong [OF t(3), of queue_level] by simp
  let ?t = "t\<lparr>queue_level := map (\<lambda>_. 0) (queue_level t), ml_ticks_since_boost := 0\<rparr>"
  let ?m = "concat mls # replicate (ML_MAX_LEVELS - 1) []"
  have m: "boosted (n_levels policy) mls = ?m"
    using boosted_all [of mls] len policy_shape(1) [OF pol] by (metis length_0_conv less_not_refl)
  have zero: "map (\<lambda>_. 0) (queue_level t) = replicate N_PROCESSES (0 :: int)"
    using ql t(4) table_okD(2) [OF tab] by (simp add: map_replicate_const)
  have v: "view ?t = (view s)\<lparr>queue_level := replicate N_PROCESSES 0, ml_ticks_since_boost := 0\<rparr>"
    unfolding view_frame t(3) zero by simp
  have "states_ok (view ?t) rq ?m"
  proof -
    have "states_ok s rq ?m"
      by (rule states_ok_queues [OF sched_invD(3) [OF inv]]) (use pol sched_invD(8) [OF inv] in \<open>auto simp: ML_MAX_LEVELS_def\<close>)
    moreover have "states_ok (view ?t) rq ?m = states_ok s rq ?m" unfolding v by (rule states_ok_cong) simp_all
    ultimately show ?thesis by simp
  qed
  moreover have "table_ok (view ?t)"
    unfolding v by (rule table_ok_levels) (use tab in \<open>auto simp: ML_MAX_LEVELS_def\<close>)
  moreover have "queues ?t rq ?m" using t(2) m by (simp add: queues_def)
  ultimately have "sched_inv ?t rq ?m" by (simp only: sched_inv_def ok_view simp_thms)
  moreover have "multilevel_boost policy s = Some ?t"
    using fire t(1) by (simp add: multilevel_boost_def Let_def)
  ultimately show ?thesis using v by blast
qed

lemma sched_inv_ticks [simp]: "sched_inv (s\<lparr>ml_ticks_since_boost := k\<rparr>) rq mls = sched_inv s rq mls"
  by (simp add: sched_inv_def table_ok_def states_ok_def registered_def)

lemma multilevel_boost_quiet:
  assumes "\<not> (0 < boost_period policy \<and> boost_period policy \<le> ml_ticks_since_boost s + 1)"
  shows "\<exists>k. multilevel_boost policy s = Some (s\<lparr>ml_ticks_since_boost := k\<rparr>)"
proof (cases "0 < boost_period policy")
  case False
  then show ?thesis by (intro exI [of _ "ml_ticks_since_boost s"]) (simp add: multilevel_boost_def)
qed (use assms in \<open>auto simp: multilevel_boost_def Let_def\<close>)

lemma levels_update:
  assumes inv: "sched_inv s rq mls" and ls: "length ls = N_PROCESSES" "\<forall>l \<in> set ls. 0 \<le> l \<and> l < int ML_MAX_LEVELS"
  shows "sched_inv (s\<lparr>queue_level := ls\<rparr>) rq mls"
proof -
  have "table_ok (s\<lparr>queue_level := ls\<rparr>)"
    using sched_invD(2) [OF inv] ls unfolding table_ok_def registered_def by simp
  moreover have "states_ok (s\<lparr>queue_level := ls\<rparr>) rq mls = states_ok s rq mls" by (rule states_ok_cong) simp_all
  ultimately show ?thesis using inv by (simp add: sched_inv_def)
qed

lemma set_update_bound:
  "\<forall>l \<in> set ls. P l \<Longrightarrow> P v \<Longrightarrow> \<forall>l \<in> set (ls[i := v]). P l"
  using set_update_subset_insert [of ls i v] by blast

lemma multilevel_demote_inv:
  assumes inv: "sched_inv s rq mls" and pol: "ml_policy (active_algorithm s) = Some policy"
  shows "\<exists>t ls. multilevel_demote policy s = Some t \<and> sched_inv t rq mls \<and> t = s\<lparr>queue_level := ls\<rparr>"
proof -
  let ?c = "current_process s" and ?i = "nat (pid (heap s (current_process s)))"
  have tab: "table_ok s" by (rule sched_invD(2) [OF inv])
  have reg: "registered s ?c" by (rule sched_invD(4) [OF inv])
  note P = registered_pid(1,2) [OF tab reg] table_okD(2,10) [OF tab]
  have i: "?i < length (queue_level s)" using P by linarith
  have lev: "0 \<le> queue_level s ! ?i" using P(4) nth_mem [OF i] by blast
  have get: "array_get (queue_level s) (pid (heap s ?c)) = Some (queue_level s ! ?i)"
    using P by (simp add: array_get_def)
  have set': "array_set (queue_level s) (pid (heap s ?c)) v = Some ((queue_level s)[?i := v])" for v
    using P by (simp add: array_set_def)
  let ?ls = "(queue_level s)[?i := queue_level s ! ?i + 1]"
  have "sched_inv (s\<lparr>queue_level := ?ls\<rparr>) rq mls" if "queue_level s ! ?i < int (n_levels policy) - 1"
  proof (rule levels_update [OF inv])
    show "\<forall>l \<in> set ?ls. 0 \<le> l \<and> l < int ML_MAX_LEVELS"
      by (rule set_update_bound [OF P(4)]) (use lev that policy_shape(1) [OF pol] in auto)
  qed (use P in simp)
  moreover have "s = s\<lparr>queue_level := queue_level s\<rparr>" by simp
  ultimately show ?thesis
    unfolding multilevel_demote_def Let_def get set' using inv
    by (auto split: if_splits intro: exI [of _ "queue_level s"])
qed

definition tick_frame :: "sched_state \<Rightarrow> sched_state \<Rightarrow> bool" where
  "tick_frame s t \<longleftrightarrow> current_process t = current_process s \<and> active_algorithm t = active_algorithm s \<and>
     processes t = processes s \<and> n_processes t = n_processes s \<and> payload (heap t) = payload (heap s)"

lemma tick_frame_refl [simp]: "tick_frame s s"
  by (simp add: tick_frame_def)

lemma multilevel_on_tick_inv:
  assumes inv: "sched_inv s rq mls" and pol: "ml_policy (active_algorithm s) = Some policy"
  shows "\<exists>t mls'. multilevel_on_tick s = Some t \<and> sched_inv t rq mls' \<and> tick_frame s t"
proof -
  have "\<exists>t mls'. multilevel_boost policy s = Some t \<and> sched_inv t rq mls' \<and> tick_frame s t"
  proof (cases "0 < boost_period policy \<and> boost_period policy \<le> ml_ticks_since_boost s + 1")
    case True
    from multilevel_boost_fires [OF inv pol] True obtain t where
      t: "multilevel_boost policy s = Some t" "sched_inv t rq (concat mls # replicate (ML_MAX_LEVELS - 1) [])"
        "view t = (view s)\<lparr>queue_level := replicate N_PROCESSES 0, ml_ticks_since_boost := 0\<rparr>" by blast
    have "tick_frame s t"
      using arg_cong [OF t(3), of current_process] arg_cong [OF t(3), of active_algorithm]
        arg_cong [OF t(3), of processes] arg_cong [OF t(3), of n_processes] arg_cong [OF t(3), of heap]
      by (simp add: tick_frame_def)
    then show ?thesis using t(1,2) by blast
  next
    case False
    from multilevel_boost_quiet [OF False] obtain k where "multilevel_boost policy s = Some (s\<lparr>ml_ticks_since_boost := k\<rparr>)" by blast
    moreover have "tick_frame s (s\<lparr>ml_ticks_since_boost := k\<rparr>)" by (simp add: tick_frame_def)
    ultimately show ?thesis using inv sched_inv_ticks by blast
  qed
  then obtain t mls' where t: "multilevel_boost policy s = Some t" "sched_inv t rq mls'" "tick_frame s t" by blast
  have "ml_policy (active_algorithm t) = Some policy" using t(3) pol by (simp add: tick_frame_def)
  from multilevel_demote_inv [OF t(2) this] obtain u ls where
    u: "multilevel_demote policy t = Some u" "sched_inv u rq mls'" "u = t\<lparr>queue_level := ls\<rparr>" by blast
  have "tick_frame s u" using t(3) u(3) by (simp add: tick_frame_def)
  then show ?thesis using t(1) u pol by (auto simp: multilevel_on_tick_def)
qed

lemma alg_on_tick_ok:
  assumes "well_formed s"
  shows "\<exists>t. alg_on_tick (active_algorithm s) s = Some t \<and> well_formed t \<and> tick_frame s t"
proof -
  obtain rq mls where inv: "sched_inv s rq mls" using assms by (auto simp: well_formed_def)
  show ?thesis
  proof (cases "ml_policy (active_algorithm s)")
    case None
    then have "alg_on_tick (active_algorithm s) s = Some s" by (cases "active_algorithm s") auto
    then show ?thesis using assms by auto
  next
    case (Some policy)
    from multilevel_on_tick_inv [OF inv Some] obtain t mls' where
      t: "multilevel_on_tick s = Some t" "sched_inv t rq mls'" "tick_frame s t" by blast
    have "alg_on_tick (active_algorithm s) s = multilevel_on_tick s" using Some by (cases "active_algorithm s") auto
    then show ?thesis using t by (auto simp: well_formed_def)
  qed
qed

subsection \<open>The timer tick\<close>

definition ticked :: "sched_state \<Rightarrow> sched_state" where
  "ticked s = upd_pcb (current_process s) (\<lambda>P. P\<lparr>burst_ticks := burst_ticks P + 1\<rparr>)
     (upd_pcb (current_process s) (\<lambda>P. P\<lparr>counter := counter P - 1\<rparr>) s)"

lemma handle_timer_tick_ok:
  assumes wf: "well_formed s"
  shows "\<exists>t u. alg_on_tick (active_algorithm s) (ticked s) = Some u \<and> tick_frame (ticked s) u \<and> well_formed u \<and>
    handle_timer_tick s = Some t \<and> well_formed t \<and>
    (if counter (heap s (current_process s)) > 1 \<or> preempt_disabled (heap s (current_process s)) > 0 then t = u
     else if \<not> is_preemptive (active_algorithm s) then t = upd_pcb (current_process s) (\<lambda>P. P\<lparr>counter := 0\<rparr>) u
     else dispatched (upd_pcb (current_process s) (\<lambda>P. P\<lparr>counter := 0\<rparr>) u) t)"
proof -
  let ?c = "current_process s"
  have wt: "well_formed (ticked s)" using wf by (simp add: ticked_def)
  have at: "active_algorithm (ticked s) = active_algorithm s" "current_process (ticked s) = ?c" by (simp_all add: ticked_def)
  from alg_on_tick_ok [OF wt] obtain u where
    u: "alg_on_tick (active_algorithm s) (ticked s) = Some u" "well_formed u" "tick_frame (ticked s) u" unfolding at by blast
  have cu: "current_process u = ?c" "active_algorithm u = active_algorithm s" using u(3) at by (simp_all add: tick_frame_def)
  have pay: "payload (heap u) = payload (heap (ticked s))" using u(3) by (simp add: tick_frame_def)
  have cnt: "counter (heap u ?c) = counter (heap s ?c) - 1" "preempt_disabled (heap u ?c) = preempt_disabled (heap s ?c)"
    using arg_cong [OF pay, of "\<lambda>h. counter (h ?c)"] arg_cong [OF pay, of "\<lambda>h. preempt_disabled (h ?c)"]
    by (simp_all add: ticked_def)
  let ?z = "upd_pcb ?c (\<lambda>P. P\<lparr>counter := 0\<rparr>) u"
  have wz: "well_formed ?z" using u(2) by simp
  from dispatch_ok [OF wz] obtain d where d: "schedule_dispatch ?z = Some d" "well_formed d" "dispatched ?z d" by blast
  have "handle_timer_tick s =
    (if counter (heap s ?c) > 1 \<or> preempt_disabled (heap s ?c) > 0 then Some u
     else if \<not> is_preemptive (active_algorithm s) then Some ?z else Some d)"
    using u(1) d(1) unfolding handle_timer_tick_def ticked_def by (simp add: Let_def cu cnt)
  then show ?thesis using u wz d by auto
qed

subsection \<open>Voluntary scheduling\<close>

lemma schedule_ok:
  assumes "well_formed s"
  shows "\<exists>t. schedule s = Some t \<and> well_formed t"
proof -
  let ?c = "current_process s"
  let ?s1 = "if ?c \<noteq> init_process \<and> state (heap s ?c) \<noteq> PROCESS_RUNNING \<and> state (heap s ?c) \<noteq> PROCESS_READY
             then upd_pcb ?c end_burst s else s"
  have "well_formed (upd_pcb ?c (\<lambda>P. P\<lparr>counter := 0\<rparr>) ?s1)" using assms by simp
  from dispatch_ok [OF this] show ?thesis unfolding schedule_def Let_def by blast
qed

subsection \<open>Waking a process\<close>

lemma wake_ok:
  assumes inv: "sched_inv s rq mls" and p: "registered s p" "p \<noteq> init_process" "p \<notin> queued rq mls"
    and f: "link_free f" "\<And>P. pid (f P) = pid P" "\<And>P. priority (f P) = priority P" "\<And>P. tickets (f P) = tickets P"
  shows "\<exists>t rq' mls'. enqueue_process (Some p) (upd_pcb p f s) = Some t \<and> sched_inv t rq' mls' \<and>
           queued rq' mls' = insert p (queued rq mls) \<and> view t = upd_pcb p (\<lambda>P. set_ready (f P)) (view s)"
proof -
  let ?s = "upd_pcb p f s"
  have q: "queues ?s rq mls" using sched_invD(1) [OF inv] f(1) by simp
  have tab: "table_ok s" by (rule sched_invD(2) [OF inv])
  have len: "length mls = ML_MAX_LEVELS" by (rule sched_invD(8) [OF inv])
  have lok: "level_ok s (length mls) p" using registered_level_ok [OF tab p(1)] len by simp
  have lok': "level_ok ?s (length mls) p" using lok f(2) by (simp add: level_ok_def)
  obtain rq' mls' where pl: "place ?s p rq mls = (rq', mls')" by fastforce
  from enqueue_process_refines [OF q p(2,3) lok' pl] obtain t where
    t: "enqueue_process (Some p) ?s = Some t" "queues t rq' mls'" "view t = upd_pcb p set_ready (view ?s)" by blast
  have v: "view t = upd_pcb p (\<lambda>P. set_ready (f P)) (view s)" using t(3) f(1) by (simp add: upd_pcb_twice)
  have "table_ok (view t) = table_ok s" unfolding v by (rule table_ok_cong) (simp_all add: f)
  moreover have "states_ok (view t) rq' mls'"
    unfolding v
    by (rule states_ok_insert [OF sched_invD(3) [OF inv] p(1,2) queued_place [OF lok' pl]])
      (use place_shape [OF pl] states_ok_shape [OF sched_invD(3) [OF inv]] in auto)
  ultimately have "sched_inv t rq' mls'" using t(2) tab by (simp add: sched_inv_def)
  then show ?thesis using t(1) v queued_place(1) [OF lok' pl] by blast
qed

definition woken :: "int \<Rightarrow> PCB \<Rightarrow> PCB" where
  "woken exiting P =
     (if state P = PROCESS_WAITING_ANOTHER_PROCESS \<and> pid_to_wait P = exiting
      then P\<lparr>state := PROCESS_READY, pid_to_wait := -1\<rparr> else P)"

lemma woken_twice [simp]: "woken x (woken x P) = woken x P"
  by (simp add: woken_def)

lemma woken_payload: "woken x (P\<lparr>next_ready := n\<rparr>) = (woken x P)\<lparr>next_ready := n\<rparr>"
  by (simp add: woken_def)

text \<open>\<open>init_process\<close> is never queued; waking it only sets its state.\<close>

lemma sched_inv_init_state:
  assumes inv: "sched_inv s rq mls" and f: "link_free f" "\<And>P. pid (f P) = pid P" "\<And>P. priority (f P) = priority P"
      "\<And>P. tickets (f P) = tickets P" and st: "state (f (heap s init_process)) \<noteq> PROCESS_RUNNING"
  shows "sched_inv (upd_pcb init_process f s) rq mls"
proof -
  have "table_ok (upd_pcb init_process f s) = table_ok s" by (rule table_ok_cong) (simp_all add: f)
  moreover have "states_ok (upd_pcb init_process f s) rq mls"
    using sched_invD(3) [OF inv] st unfolding states_ok_def registered_upd_pcb by simp
  ultimately show ?thesis using inv f(1) by (simp add: sched_inv_def)
qed

lemma wake_waiter_step:
  assumes inv: "sched_inv s rq mls" and e: "entry \<in> set (processes s)"
  shows "\<exists>t rq' mls'. wake_waiter x entry s = Some t \<and> sched_inv t rq' mls' \<and>
           view t = (case entry of None \<Rightarrow> view s | Some p \<Rightarrow> upd_pcb p (woken x) (view s))"
proof (cases entry)
  case None
  then show ?thesis using inv by (auto simp: wake_waiter_def)
next
  case (Some p)
  have reg: "registered s p" using e Some by (simp add: registered_def)
  let ?w = "state (heap s p) = PROCESS_WAITING_ANOTHER_PROCESS \<and> pid_to_wait (heap s p) = x"
  show ?thesis
  proof (cases ?w)
    case False
    then have "upd_pcb p (woken x) (view s) = view s"
      by (intro upd_pcb_same) (auto simp: woken_def)
    then show ?thesis using inv False Some by (auto simp: wake_waiter_def)
  next
    case True
    let ?f = "\<lambda>P. (P\<lparr>state := PROCESS_READY\<rparr>)\<lparr>pid_to_wait := -1\<rparr>"
    have f: "link_free ?f" by (simp add: link_free_def)
    have w: "upd_pcb p (woken x) (view s) = upd_pcb p ?f (view s)"
      by (rule upd_pcb_cong) (use True in \<open>simp add: woken_def\<close>)
    have ww: "wake_waiter x entry s = enqueue_process (Some p) (upd_pcb p ?f s)"
      using True Some by (simp add: wake_waiter_def upd_pcb_twice)
    show ?thesis
    proof (cases "p = init_process")
      case True
      have "sched_inv (upd_pcb p ?f s) rq mls" unfolding True by (rule sched_inv_init_state [OF inv f]) simp_all
      then show ?thesis using ww w True Some f by (auto simp: enqueue_process_def)
    next
      case False
      have "state (heap s p) \<noteq> PROCESS_READY" using True by simp
      then have "p \<notin> queued rq mls" using sched_invD(6) [OF inv, of p] by blast
      from wake_ok [OF inv reg False this f] obtain t rq' mls' where
        "enqueue_process (Some p) (upd_pcb p ?f s) = Some t" "sched_inv t rq' mls'"
        "view t = upd_pcb p (\<lambda>P. set_ready (?f P)) (view s)" by auto
      moreover have "(\<lambda>P. set_ready (?f P)) = ?f" by (simp add: fun_eq_iff)
      ultimately show ?thesis using ww w Some by auto
    qed
  qed
qed

lemma wake_waiters:
  assumes "sched_inv s rq mls" "set es \<subseteq> set (processes s)"
  shows "\<exists>t rq' mls'. foldM (wake_waiter x) es s = Some t \<and> sched_inv t rq' mls' \<and>
           view t = (view s)\<lparr>heap := \<lambda>p. if Some p \<in> set es then woken x (heap (view s) p) else heap (view s) p\<rparr>"
  using assms
proof (induction es arbitrary: s rq mls)
  case Nil
  moreover have "view s = (view s)\<lparr>heap := heap (view s)\<rparr>" by (simp add: view_def)
  ultimately show ?case by auto
next
  case (Cons e es)
  from wake_waiter_step [OF Cons.prems(1), of e x] Cons.prems(2) obtain t rq1 mls1 where
    t: "wake_waiter x e s = Some t" "sched_inv t rq1 mls1"
      "view t = (case e of None \<Rightarrow> view s | Some p \<Rightarrow> upd_pcb p (woken x) (view s))" by auto
  have "processes t = processes s" using arg_cong [OF t(3), of processes] by (simp split: option.splits)
  with Cons.IH [OF t(2)] Cons.prems(2) obtain u rq2 mls2 where
    u: "foldM (wake_waiter x) es t = Some u" "sched_inv u rq2 mls2"
      "view u = (view t)\<lparr>heap := \<lambda>p. if Some p \<in> set es then woken x (heap (view t) p) else heap (view t) p\<rparr>" by auto
  have "heap (view t) = (\<lambda>p. if e = Some p then woken x (heap (view s) p) else heap (view s) p)"
    unfolding t(3) by (cases e) (auto simp: fun_eq_iff)
  moreover have "view u = (view s)\<lparr>heap := \<lambda>p. if Some p \<in> set es then woken x (heap (view t) p) else heap (view t) p\<rparr>"
    unfolding u(3) t(3) by (cases e) (simp_all add: upd_pcb_def)
  ultimately have "view u = (view s)\<lparr>heap := \<lambda>p. if Some p \<in> set (e # es) then woken x (heap (view s) p) else heap (view s) p\<rparr>"
    by (auto simp: fun_eq_iff intro!: arg_cong [of _ _ "\<lambda>h. (view s)\<lparr>heap := h\<rparr>"])
  then show ?case using t(1) u(1,2) by auto
qed

text \<open>The wake-up loops of the message and UART code: every process of the table slice that is in
  the given state becomes READY; a NULL entry is dereferenced.\<close>

definition wake_if :: "process_state \<Rightarrow> pcb_ptr \<Rightarrow> sched_state \<Rightarrow> sched_state option" where
  "wake_if st entry s =
     (case entry of
        None \<Rightarrow> None
      | Some p \<Rightarrow>
          if state (heap s p) = st
          then enqueue_process (Some p) (upd_pcb p (\<lambda>P. P\<lparr>state := PROCESS_READY\<rparr>) s)
          else Some s)"

lemma wake_blocked:
  assumes inv: "sched_inv s rq mls" and p: "registered s p" and st: "state (heap s p) \<noteq> PROCESS_READY"
  shows "\<exists>t rq' mls'. enqueue_process (Some p) (upd_pcb p set_ready s) = Some t \<and> sched_inv t rq' mls' \<and>
           view t = upd_pcb p set_ready (view s)"
proof (cases "p = init_process")
  case True
  have "sched_inv (upd_pcb p set_ready s) rq mls" unfolding True by (rule sched_inv_init_state [OF inv]) simp_all
  then show ?thesis using True by (auto simp: enqueue_process_def)
next
  case False
  have "p \<notin> queued rq mls" using sched_invD(6) [OF inv, of p] st by blast
  from wake_ok [OF inv p False this, of set_ready] show ?thesis by auto
qed

definition woken_from :: "process_state \<Rightarrow> PCB \<Rightarrow> PCB" where
  "woken_from st P = (if state P = st then P\<lparr>state := PROCESS_READY\<rparr> else P)"

lemma wake_if_step:
  assumes inv: "sched_inv s rq mls" and p: "registered s p" and st: "st \<noteq> PROCESS_READY"
  shows "\<exists>t rq' mls'. wake_if st (Some p) s = Some t \<and> sched_inv t rq' mls' \<and>
           view t = upd_pcb p (woken_from st) (view s)"
proof (cases "state (heap s p) = st")
  case True
  have "upd_pcb p (woken_from st) (view s) = upd_pcb p set_ready (view s)"
    by (rule upd_pcb_cong) (use True in \<open>simp add: woken_from_def\<close>)
  then show ?thesis using wake_blocked [OF inv p] True st by (simp add: wake_if_def)
next
  case False
  then have "upd_pcb p (woken_from st) (view s) = view s"
    by (intro upd_pcb_same) (simp add: woken_from_def)
  then show ?thesis using inv False by (auto simp: wake_if_def)
qed

lemma wake_all:
  assumes "sched_inv s rq mls" "set ps \<subseteq> {p. registered s p}" and st: "st \<noteq> PROCESS_READY"
  shows "\<exists>t rq' mls'. foldM (wake_if st) (map Some ps) s = Some t \<and> sched_inv t rq' mls' \<and>
           view t = (view s)\<lparr>heap := \<lambda>p. if p \<in> set ps then woken_from st (heap (view s) p) else heap (view s) p\<rparr>"
  using assms(1,2)
proof (induction ps arbitrary: s rq mls)
  case Nil
  moreover have "view s = (view s)\<lparr>heap := heap (view s)\<rparr>" by (simp add: view_def)
  ultimately show ?case by auto
next
  case (Cons q ps)
  from wake_if_step [OF Cons.prems(1) _ st, of q] Cons.prems(2) obtain t rq1 mls1 where
    t: "wake_if st (Some q) s = Some t" "sched_inv t rq1 mls1" "view t = upd_pcb q (woken_from st) (view s)" by auto
  have "processes t = processes s" using arg_cong [OF t(3), of processes] by simp
  then have "set ps \<subseteq> {p. registered t p}" using Cons.prems(2) by (auto simp: registered_def)
  with Cons.IH [OF t(2)] obtain u rq2 mls2 where
    u: "foldM (wake_if st) (map Some ps) t = Some u" "sched_inv u rq2 mls2"
      "view u = (view t)\<lparr>heap := \<lambda>p. if p \<in> set ps then woken_from st (heap (view t) p) else heap (view t) p\<rparr>" by auto
  have "heap (view t) = (\<lambda>p. if p = q then woken_from st (heap (view s) p) else heap (view s) p)"
    unfolding t(3) by (auto simp: fun_eq_iff)
  moreover have "view u = (view s)\<lparr>heap := \<lambda>p. if p \<in> set ps then woken_from st (heap (view t) p) else heap (view t) p\<rparr>"
    unfolding u(3) t(3) by (simp add: upd_pcb_def)
  ultimately have "view u = (view s)\<lparr>heap := \<lambda>p. if p \<in> set (q # ps) then woken_from st (heap (view s) p) else heap (view s) p\<rparr>"
    using st by (auto simp: fun_eq_iff woken_from_def intro!: arg_cong [of _ _ "\<lambda>h. (view s)\<lparr>heap := h\<rparr>"])
  then show ?case using t(1) u(1,2) by auto
qed

subsection \<open>Exit\<close>

lemma sched_inv_block:
  assumes inv: "sched_inv s rq mls" and run: "state (heap s (current_process s)) = PROCESS_RUNNING"
    and st: "st \<notin> {PROCESS_RUNNING, PROCESS_READY}"
  shows "sched_inv (upd_pcb (current_process s) (\<lambda>P. P\<lparr>state := st\<rparr>) s) rq mls"
proof -
  let ?c = "current_process s"
  have "?c \<notin> queued rq mls" using sched_invD(6) [OF inv, of ?c] run by auto
  then have "states_ok (upd_pcb ?c (\<lambda>P. P\<lparr>state := st\<rparr>) s) rq mls"
    using sched_invD(3) [OF inv] st unfolding states_ok_def registered_upd_pcb by auto
  moreover have "table_ok (upd_pcb ?c (\<lambda>P. P\<lparr>state := st\<rparr>) s) = table_ok s"
    by (rule table_ok_cong) simp_all
  ultimately show ?thesis using inv by (simp add: sched_inv_def)
qed

lemma schedule_dispatched:
  assumes "well_formed s"
  shows "\<exists>t z. schedule s = Some t \<and> well_formed t \<and> dispatched z t \<and> well_formed z \<and>
     (\<forall>x. state (heap z x) = state (heap s x) \<and> preempt_disabled (heap z x) = preempt_disabled (heap s x) \<and>
          condemned (heap z x) = condemned (heap s x)) \<and>
     processes z = processes s \<and> current_process z = current_process s"
proof -
  let ?c = "current_process s"
  let ?s1 = "if ?c \<noteq> init_process \<and> state (heap s ?c) \<noteq> PROCESS_RUNNING \<and> state (heap s ?c) \<noteq> PROCESS_READY
             then upd_pcb ?c end_burst s else s"
  let ?z = "upd_pcb ?c (\<lambda>P. P\<lparr>counter := 0\<rparr>) ?s1"
  have wf: "well_formed ?z" using assms by simp
  from dispatch_ok [OF this] obtain t where "schedule_dispatch ?z = Some t" "well_formed t" "dispatched ?z t" by blast
  moreover have "schedule s = schedule_dispatch ?z" unfolding schedule_def Let_def ..
  moreover have "\<forall>x. state (heap ?z x) = state (heap s x) \<and> preempt_disabled (heap ?z x) = preempt_disabled (heap s x) \<and>
          condemned (heap ?z x) = condemned (heap s x)"
    by (simp add: end_burst_def condemned_def)
  moreover have "processes ?z = processes s" "current_process ?z = current_process s" by simp_all
  ultimately show ?thesis using wf by metis
qed

lemma exit_process_ok:
  assumes wf: "well_formed s" and run: "state (heap s (current_process s)) = PROCESS_RUNNING"
    and c: "current_process s \<noteq> init_process"
  shows "\<exists>t. exit_process s = Some t \<and> well_formed t \<and> current_process t \<noteq> current_process s \<and>
    state (heap t (current_process s)) = PROCESS_ZOMBIE \<and>
    (\<forall>p. registered s p \<longrightarrow> p \<noteq> init_process \<longrightarrow>
       state (heap s p) = PROCESS_WAITING_ANOTHER_PROCESS \<longrightarrow>
       (if pid_to_wait (heap s p) = pid (heap s (current_process s))
        then p = current_process t \<or> state (heap t p) = PROCESS_READY \<or> condemned (heap s p)
        else state (heap t p) = PROCESS_WAITING_ANOTHER_PROCESS))"
proof -
  let ?c = "current_process s" and ?x = "pid (heap s (current_process s))"
  obtain rq mls where inv: "sched_inv s rq mls" using wf by (auto simp: well_formed_def)
  let ?s1 = "preempt_disable s"
  let ?s2 = "upd_pcb ?c (\<lambda>P. P\<lparr>state := PROCESS_ZOMBIE\<rparr>) ?s1"
  have inv1: "sched_inv ?s1 rq mls" using inv by simp
  have "sched_inv ?s2 rq mls"
    using sched_inv_block [OF inv1, of PROCESS_ZOMBIE] run by simp
  from wake_waiters [OF this order.refl, of ?x] obtain u rq' mls' where
    u: "foldM (wake_waiter ?x) (processes ?s2) ?s2 = Some u" "sched_inv u rq' mls'"
      "view u = (view ?s2)\<lparr>heap := \<lambda>p. if Some p \<in> set (processes ?s2) then woken ?x (heap (view ?s2) p) else heap (view ?s2) p\<rparr>"
    by blast
  have reg: "registered s ?c" by (rule sched_invD(4) [OF inv])
  have hu: "state (heap u p) = (if p = ?c then PROCESS_ZOMBIE else if registered s p then state (woken ?x (heap s p)) else state (heap s p))"
    "condemned (heap u p) = condemned (heap s p)" for p
    using arg_cong [OF u(3), of "\<lambda>v. state (heap v p)"] arg_cong [OF u(3), of "\<lambda>v. pending_signals (heap v p)"] reg
    by (auto simp: registered_def condemned_def woken_def preempt_disable_def split: if_splits)
  have cu: "current_process u = ?c" "processes u = processes s"
    using arg_cong [OF u(3), of current_process] arg_cong [OF u(3), of processes] by simp_all
  let ?v = "preempt_enable u"
  have "well_formed ?v" using u(2) by (auto simp: well_formed_def)
  from schedule_dispatched [OF this] obtain t z where
    t: "schedule ?v = Some t" "well_formed t" "dispatched z t" "processes z = processes ?v" "current_process z = current_process ?v"
    and z: "\<And>x. state (heap z x) = state (heap ?v x) \<and> condemned (heap z x) = condemned (heap ?v x)" by blast
  have zu: "state (heap z x) = state (heap u x)" "condemned (heap z x) = condemned (heap s x)" for x
    using z [of x] hu(2) by (simp_all add: condemned_def)
  have rz: "registered z = registered s" using t(4) cu by (simp add: registered_def fun_eq_iff)
  have D: "if p = current_process t then \<not> condemned (heap z p) \<and>
              (state (heap z p) = PROCESS_READY \<or> p = current_process z \<and> state (heap z p) = PROCESS_RUNNING)
         else if state (heap z p) \<in> {PROCESS_READY, PROCESS_RUNNING} then
              state (heap t p) = PROCESS_READY \<or>
              condemned (heap z p) \<and> state (heap t p) \<in> {PROCESS_ZOMBIE, PROCESS_STOPPED}
         else state (heap t p) = state (heap z p)" if "registered s p" "p \<noteq> init_process" for p
    using t(3) that unfolding dispatched_def rz by blast
  have zc: "state (heap z ?c) = PROCESS_ZOMBIE" using zu(1) hu(1) by simp
  have ex: "exit_process s = Some t"
    using u(1) t(1) unfolding exit_process_def by (simp add: Let_def preempt_disable_def)
  have ne: "current_process t \<noteq> ?c" using D [OF reg c] zc by auto
  have "state (heap t ?c) = PROCESS_ZOMBIE" using D [OF reg c] zc ne by auto
  moreover have "if pid_to_wait (heap s p) = ?x
        then p = current_process t \<or> state (heap t p) = PROCESS_READY \<or> condemned (heap s p)
        else state (heap t p) = PROCESS_WAITING_ANOTHER_PROCESS"
    if p: "registered s p" "p \<noteq> init_process" and w: "state (heap s p) = PROCESS_WAITING_ANOTHER_PROCESS" for p
  proof -
    have "p \<noteq> ?c" using w run by auto
    then have "state (heap z p) = (if pid_to_wait (heap s p) = ?x then PROCESS_READY else PROCESS_WAITING_ANOTHER_PROCESS)"
      using zu(1) hu(1) p w by (simp add: woken_def)
    then show ?thesis using D [OF p] zu(2) by (auto split: if_splits)
  qed
  ultimately show ?thesis using ex t(2) ne by blast
qed

subsection \<open>Registration\<close>

lemma start_level_range: "0 \<le> start_level alg qp \<and> start_level alg qp < int ML_MAX_LEVELS"
  using policy_shape(1) [of alg]
  by (auto simp: start_level_def Let_def ML_MAX_LEVELS_def split: option.split)

text \<open>What \<^verbatim>\<open>copy_process\<close> guarantees of the process it registers.\<close>

definition fresh :: "sched_state \<Rightarrow> pcb_id \<Rightarrow> bool" where
  "fresh s p \<longleftrightarrow>
     p \<noteq> init_process \<and> \<not> registered s p \<and> pid (heap s p) = n_processes s \<and>
     1 \<le> priority (heap s p) \<and> tickets (heap s p) \<le> 2 ^ 31 - 1 \<and>
     state (heap s p) \<noteq> PROCESS_RUNNING"

lemma set_update_empty_slot:
  "n < length xs \<Longrightarrow> xs ! n = None \<Longrightarrow> Some x \<in> set (xs[n := Some p]) \<longleftrightarrow> Some x \<in> set xs \<or> x = p"
proof (induction xs arbitrary: n)
  case (Cons y ys)
  then show ?case by (cases n) auto
qed simp

lemma table_ok_add:
  assumes tab: "table_ok s" and fr: "fresh s p" and room: "n_processes s < int N_PROCESSES"
    and l: "0 \<le> l" "l < int ML_MAX_LEVELS"
    and t: "processes t = (processes s)[nat (n_processes s) := Some p]" "n_processes t = n_processes s + 1"
      "queue_level t = (queue_level s)[nat (n_processes s) := l]"
      "\<And>x. pid (heap t x) = pid (heap s x)" "\<And>x. priority (heap t x) = priority (heap s x)"
      "\<And>x. tickets (heap t x) = tickets (heap s x)"
  shows "table_ok t" "registered t x \<longleftrightarrow> registered s x \<or> x = p"
proof -
  let ?n = "nat (n_processes s)"
  note T = table_okD [OF tab]
  have n: "?n < N_PROCESSES" "int ?n = n_processes s" "0 < ?n" using T(7) room by auto
  have len: "?n < length (processes s)" using n T(1) by simp
  have old: "processes s ! ?n = None" using T(6) [OF n(1)] n by simp
  show reg: "registered t x \<longleftrightarrow> registered s x \<or> x = p" for x
  proof -
    have "Some x \<in> set ((processes s)[?n := Some p]) \<longleftrightarrow> Some x \<in> set (processes s) \<or> x = p"
      by (rule set_update_empty_slot [OF len old])
    then show ?thesis by (simp add: registered_def t(1))
  qed
  show "table_ok t"
    unfolding table_ok_def
  proof (intro conjI allI impI ballI)
    show "length (processes t) = N_PROCESSES" "length (queue_level t) = N_PROCESSES" using T(1,2) t by simp_all
    show "1 \<le> n_processes t" "n_processes t \<le> int N_PROCESSES" using T(7) room t(2) by simp_all
    show "processes t ! 0 = Some init_process" using T(9) n t(1) by simp
    fix i assume i: "i < N_PROCESSES"
    show "processes t ! i = None \<longleftrightarrow> n_processes t \<le> int i"
    proof (cases "i = ?n")
      case True then show ?thesis using len n t by simp
    next
      case False then show ?thesis using T(6) [OF i] n t by auto
    qed
    fix q assume q: "processes t ! i = Some q"
    show "pid (heap t q) = int i"
    proof (cases "i = ?n")
      case True then show ?thesis using q len n t fr by (simp add: fresh_def)
    next
      case False
      then have "processes s ! i = Some q" using q t(1) by simp
      then show ?thesis using T(3) [OF i] t(4) by simp
    qed
  next
    fix k assume "k \<in> set (queue_level t)"
    then show "0 \<le> k" "k < int ML_MAX_LEVELS" 
      using set_update_bound [OF T(10), of l ?n] l unfolding t(3) by blast+
  next
    fix q assume "registered t q"
    then have "registered s q \<or> q = p" using reg by simp
    then show "1 \<le> priority (heap t q)" "tickets (heap t q) \<le> 2 ^ 31 - 1"
      using T(4,5) fr t(5,6) by (auto simp: fresh_def)
  qed
qed

lemma add_process_ok:
  assumes inv: "sched_inv s rq mls" and fr: "fresh s p"
  shows "if n_processes s \<ge> int N_PROCESSES then add_process_to_scheduler p s = Some (-1, s)
    else \<exists>t rq' mls'. add_process_to_scheduler p s = Some (0, t) \<and> sched_inv t rq' mls' \<and>
      queued rq' mls' = queued rq mls \<union> (if state (heap s p) = PROCESS_READY then {p} else {}) \<and>
      n_processes t = n_processes s + 1 \<and>
      processes t = (processes s)[nat (n_processes s) := Some p] \<and>
      current_process t = current_process s \<and>
      (\<forall>x. state (heap t x) = state (heap s x)) \<and> (\<forall>x. cpu_context (heap t x) = cpu_context (heap s x))"
proof (cases "n_processes s \<ge> int N_PROCESSES")
  case True
  then show ?thesis by (simp add: add_process_to_scheduler_def)
next
  case False
  let ?n = "n_processes s" and ?l = "start_level (active_algorithm s) (queue_priority (heap s p))"
  let ?s2 = "s\<lparr>processes := (processes s)[nat ?n := Some p], queue_level := (queue_level s)[nat ?n := ?l]\<rparr>"
  note T = table_okD [OF sched_invD(2) [OF inv]]
  have pid: "pid (heap s p) = ?n" using fr by (simp add: fresh_def)
  have n: "0 \<le> ?n" "?n < int N_PROCESSES" using T(7) False by auto
  have add: "add_process_to_scheduler p s = do {
        s3 \<leftarrow> (if state (heap s p) = PROCESS_READY then enqueue_process (Some p) ?s2 else Some ?s2);
        Some (0, s3\<lparr>n_processes := n_processes s3 + 1\<rparr>) }"
    using n T(1,2) by (simp add: add_process_to_scheduler_def pid array_set_def)
  have notin: "p \<notin> queued rq mls"
    using sched_invD(6) [OF inv, of p] fr unfolding fresh_def by blast
  have q2: "queues ?s2 rq mls" using sched_invD(1) [OF inv] by (simp add: queues_def)
  have lev: "level_ok ?s2 (length mls) p"
    using n T(2) start_level_range sched_invD(8) [OF inv] by (simp add: level_ok_def pid nat_less_iff)
  obtain rq1 mls1 where pl: "place ?s2 p rq mls = (rq1, mls1)" by fastforce
  have p: "p \<noteq> init_process" using fr by (simp add: fresh_def)
  let ?ready = "state (heap s p) = PROCESS_READY"
  have "\<exists>s3 rq' mls'. (if ?ready then enqueue_process (Some p) ?s2 else Some ?s2) = Some s3 \<and>
      queues s3 rq' mls' \<and> view s3 = view ?s2 \<and>
      queued rq' mls' = queued rq mls \<union> (if ?ready then {p} else {}) \<and> length mls' = length mls \<and>
      (if ml_policy (active_algorithm s) = None then concat mls' = [] else rq' = [])"
  proof (cases ?ready)
    case True
    from enqueue_process_refines [OF q2 p notin lev pl] obtain s3 where
      s3: "enqueue_process (Some p) ?s2 = Some s3" "queues s3 rq1 mls1" "view s3 = upd_pcb p set_ready (view ?s2)" by blast
    have "upd_pcb p set_ready (view ?s2) = view ?s2" by (rule upd_pcb_same) (use True in \<open>simp add: payload_def\<close>)
    moreover have "if ml_policy (active_algorithm ?s2) = None then concat mls1 = [] else rq1 = []"
      by (rule place_shape [OF pl]) (use states_ok_shape [OF sched_invD(3) [OF inv]] in simp)
    ultimately show ?thesis using s3 True queued_place [OF lev pl]
      by (intro exI [of _ s3] exI [of _ rq1] exI [of _ mls1]) simp
  next
    case False
    then show ?thesis using q2 states_ok_shape [OF sched_invD(3) [OF inv]]
      by (intro exI [of _ ?s2] exI [of _ rq] exI [of _ mls]) simp
  qed
  then obtain s3 rq' mls' where
    s3: "(if ?ready then enqueue_process (Some p) ?s2 else Some ?s2) = Some s3" "queues s3 rq' mls'" "view s3 = view ?s2"
      "queued rq' mls' = queued rq mls \<union> (if ?ready then {p} else {})" "length mls' = length mls"
      "if ml_policy (active_algorithm s) = None then concat mls' = [] else rq' = []" by blast
  let ?t = "s3\<lparr>n_processes := n_processes s3 + 1\<rparr>"
  have vt: "view ?t = (view s)\<lparr>processes := (processes s)[nat ?n := Some p], queue_level := (queue_level s)[nat ?n := ?l], n_processes := ?n + 1\<rparr>"
  proof -
    have "n_processes s3 = ?n" using arg_cong [OF s3(3), of n_processes] by simp
    then show ?thesis unfolding view_frame s3(3) by (intro sched_state.equality) (simp_all add: view_def)
  qed
  have F: "processes ?t = (processes s)[nat ?n := Some p]" "n_processes ?t = ?n + 1"
      "queue_level ?t = (queue_level s)[nat ?n := ?l]" "current_process ?t = current_process s"
      "active_algorithm ?t = active_algorithm s"
    using arg_cong [OF vt, of processes] arg_cong [OF vt, of n_processes] arg_cong [OF vt, of queue_level]
      arg_cong [OF vt, of current_process] arg_cong [OF vt, of active_algorithm] by simp_all
  have H: "pid (heap ?t x) = pid (heap s x)" "priority (heap ?t x) = priority (heap s x)"
      "tickets (heap ?t x) = tickets (heap s x)" "state (heap ?t x) = state (heap s x)"
      "cpu_context (heap ?t x) = cpu_context (heap s x)" for x
    using arg_cong [OF vt, of "\<lambda>v. pid (heap v x)"] arg_cong [OF vt, of "\<lambda>v. priority (heap v x)"]
      arg_cong [OF vt, of "\<lambda>v. tickets (heap v x)"] arg_cong [OF vt, of "\<lambda>v. state (heap v x)"]
      arg_cong [OF vt, of "\<lambda>v. cpu_context (heap v x)"] by simp_all
  note A = table_ok_add [OF sched_invD(2) [OF inv] fr n(2) conjunct1 [OF start_level_range] conjunct2 [OF start_level_range] F(1,2,3) H(1,2,3)]
  have "states_ok ?t rq' mls'"
    unfolding states_ok_def A(2) s3(4) F(4,5) H(4) s3(5)
    using sched_invD(3) [OF inv] fr s3(6) unfolding states_ok_def fresh_def by auto
  then have inv': "sched_inv ?t rq' mls'" using A(1) s3(2) by (simp add: sched_inv_def queues_def)
  have res: "add_process_to_scheduler p s = Some (0, ?t)" unfolding add s3(1) by simp
  show ?thesis unfolding if_not_P [OF False]
    by (intro exI conjI allI) (rule res inv' s3(4) F(1,2,4) H(4,5))+
qed

subsection \<open>Scheduling parameters\<close>

lemma sched_set_param_ok:
  assumes inv: "sched_inv s rq mls" and p: "registered s p" and v: "v \<le> 2 ^ 31 - 1"
  shows "\<exists>r t. sched_set_param (Some p) param v s = Some (r, t) \<and> sched_inv t rq mls \<and>
     (r = 0 \<or> r = -1 \<and> t = s)"
proof -
  let ?v = "case ml_policy (active_algorithm s) of None \<Rightarrow> v
            | Some policy \<Rightarrow> if v \<ge> int (n_levels policy) then int (n_levels policy) - 1 else v"
  have tab: "table_ok s" by (rule sched_invD(2) [OF inv])
  have param: "sched_inv (upd_pcb p f s) rq mls"
    if f: "link_free f" "\<And>P. pid (f P) = pid P" "\<And>P. state (f P) = state P"
      and b: "1 \<le> priority (f (heap s p))" "tickets (f (heap s p)) \<le> 2 ^ 31 - 1" for f
  proof -
    have "table_ok (upd_pcb p f s)"
      using table_okD [OF tab] f b unfolding table_ok_def registered_upd_pcb by simp
    moreover have "states_ok (upd_pcb p f s) rq mls = states_ok s rq mls"
      by (rule states_ok_cong) (simp_all add: f)
    ultimately show ?thesis using inv f(1) by (simp add: sched_inv_def)
  qed
  note B = table_okD(4,5) [OF tab p]
  have qp: "sched_inv (preempt_enable ((upd_pcb p (\<lambda>P. P\<lparr>queue_priority := ?v\<rparr>) (preempt_disable s))\<lparr>queue_level := (queue_level s)[nat (pid (heap s p)) := ?v]\<rparr>)) rq mls"
    if "0 \<le> v" "v < int ML_MAX_LEVELS"
  proof -
    have "0 \<le> ?v \<and> ?v < int ML_MAX_LEVELS"
      using that policy_shape(1) [of "active_algorithm s"] by (auto split: option.split simp: ML_MAX_LEVELS_def)
    then have "\<forall>l \<in> set ((queue_level s)[nat (pid (heap s p)) := ?v]). 0 \<le> l \<and> l < int ML_MAX_LEVELS"
      by (intro set_update_bound [OF table_okD(10) [OF tab]])
    then have "sched_inv ((upd_pcb p (\<lambda>P. P\<lparr>queue_priority := ?v\<rparr>) (preempt_disable s))\<lparr>queue_level := (queue_level s)[nat (pid (heap s p)) := ?v]\<rparr>) rq mls"
      using inv table_okD(2) [OF tab] by (intro levels_update) (simp_all add: sched_inv_upd)
    then show ?thesis by simp
  qed
  have set': "array_set (queue_level s) (pid (heap s p)) w = Some ((queue_level s)[nat (pid (heap s p)) := w])" for w
    using registered_pid(1,2) [OF tab p] table_okD(2) [OF tab] by (simp add: array_set_def)
  consider "p = init_process" | "p \<noteq> init_process" "param = SCHED_PARAM_PRIORITY"
    | "p \<noteq> init_process" "param = SCHED_PARAM_TICKETS" | "p \<noteq> init_process" "param = SCHED_PARAM_QUEUE_PRIORITY"
    | "param \<notin> {SCHED_PARAM_PRIORITY, SCHED_PARAM_TICKETS, SCHED_PARAM_QUEUE_PRIORITY}" by blast
  then show ?thesis
  proof cases
    case 2
    have "sched_inv (upd_pcb p (\<lambda>P. P\<lparr>priority := v\<rparr>) s) rq mls" if "1 \<le> v" by (rule param) (use that B in auto)
    then show ?thesis using 2 inv by (simp add: sched_set_param_def)
  next
    case 3
    have "sched_inv (upd_pcb p (\<lambda>P. P\<lparr>tickets := v\<rparr>) s) rq mls" by (rule param) (use v B in auto)
    then show ?thesis using 3 inv by (simp add: sched_set_param_def SCHED_PARAM_PRIORITY_def SCHED_PARAM_TICKETS_def)
  next
    case 4
    have "sched_set_param (Some p) param v s =
      (if v < 0 \<or> v \<ge> int ML_MAX_LEVELS then Some (-1, s)
       else Some (0, preempt_enable ((upd_pcb p (\<lambda>P. P\<lparr>queue_priority := ?v\<rparr>) (preempt_disable s))\<lparr>queue_level := (queue_level s)[nat (pid (heap s p)) := ?v]\<rparr>)))"
      using 4 set' by (simp add: sched_set_param_def SCHED_PARAM_PRIORITY_def SCHED_PARAM_TICKETS_def SCHED_PARAM_QUEUE_PRIORITY_def Let_def)
    then show ?thesis using qp inv by auto
  qed (use inv in \<open>auto simp: sched_set_param_def\<close>)
qed

subsection \<open>The initial state\<close>

lemma init_sched_inv: "sched_inv (init_sched alg clo) [] (replicate ML_MAX_LEVELS [])"
proof -
  let ?s = "init_sched alg clo"
  have reg: "registered ?s p \<longleftrightarrow> p = init_process" for p
    by (auto simp: registered_def init_sched_def)
  have q: "queues ?s [] (replicate ML_MAX_LEVELS [])"
    using queue_rep_empty by (auto simp: queues_def init_sched_def list_all2_conv_all_nth)
  have nth: "processes ?s ! i = (if i = 0 then Some init_process else None)" if "i < N_PROCESSES" for i
    using that by (cases i) (simp_all add: init_sched_def)
  have "table_ok ?s"
    unfolding table_ok_def reg using nth
    by (auto simp: init_sched_def INIT_PROCESS_def N_PROCESSES_def ML_MAX_LEVELS_def split: if_splits)
  moreover have "states_ok ?s [] (replicate ML_MAX_LEVELS [])"
    unfolding states_ok_def reg by (auto simp: init_sched_def)
  ultimately show ?thesis using q by (simp add: sched_inv_def)
qed

end
