(* ===== verification/Page_Memory.thy ===== *)
theory Page_Memory
  imports Process
begin

text \<open>
  Physical pages and page tables, \<^verbatim>\<open>libs/mm.c\<close>. Physical memory is a store of 64-bit
  words by physical address; the kernel reaches physical address \<open>a\<close> at \<open>a + VA_START\<close>. The
  functions that take a PCB only use its memory descriptor, which is their argument and part of
  their result. \<^verbatim>\<open>MMU_PTE_FLAGS\<close> and the shifts are the constants of \<^verbatim>\<open>arch/mmu.h\<close> and
  \<^verbatim>\<open>libs/mm.h\<close>.
\<close>

subsection \<open>The allocator\<close>

definition VA_START :: ulong where "VA_START = 0xffff000000000000"
definition PAGE_SIZE :: ulong where "PAGE_SIZE = 4096"
definition PAGE_MASK :: ulong where "PAGE_MASK = 0xfffffffffffff000"
definition PAGE_SHIFT :: nat where "PAGE_SHIFT = 12"
definition SECTION_SHIFT :: nat where "SECTION_SHIFT = 21"
definition SECTION_SIZE :: ulong where "SECTION_SIZE = 0x200000"
definition PGD_SHIFT :: nat where "PGD_SHIFT = 39"
definition PUD_SHIFT :: nat where "PUD_SHIFT = 30"
definition PMD_SHIFT :: nat where "PMD_SHIFT = 21"
definition PTRS_PER_TABLE :: ulong where "PTRS_PER_TABLE = 512"
definition LOW_MEMORY :: ulong where "LOW_MEMORY = 0x400000"
definition N_PAGES :: nat where "N_PAGES = 257024"
definition MM_TYPE_PAGE_TABLE :: ulong where "MM_TYPE_PAGE_TABLE = 3"
definition MMU_PTE_FLAGS :: ulong where "MMU_PTE_FLAGS = 0x447"

record mm_state =
  memory_pages :: "nat \<Rightarrow> uint16"
  phys :: "ulong \<Rightarrow> ulong"
  fault_index :: int

definition load :: "ulong \<Rightarrow> mm_state \<Rightarrow> ulong" where
  "load address m = phys m (address - VA_START)"

definition store :: "ulong \<Rightarrow> ulong \<Rightarrow> mm_state \<Rightarrow> mm_state" where
  "store address v m = m\<lparr>phys := (phys m)(address - VA_START := v)\<rparr>"

text \<open>The loop stores a word before it looks at the size, so it writes 8 bytes at least.\<close>

definition memzero :: "ulong \<Rightarrow> ulong \<Rightarrow> mm_state \<Rightarrow> mm_state" where
  "memzero address n m =
     m\<lparr>phys := (\<lambda>a. if a - (address - VA_START) < max n 8 then 0 else phys m a)\<rparr>"

lemma page_not_small [simp]: "max PAGE_SIZE 8 = PAGE_SIZE"
  by (simp add: max_def PAGE_SIZE_def)

text \<open>The copy of \<open>n\<close> bytes between addresses that are multiples of 8, as all callers use it; the last
  word may be copied in part (the low bytes come first in memory).\<close>

definition copied_word :: "ulong \<Rightarrow> ulong \<Rightarrow> ulong \<Rightarrow> ulong" where
  "copied_word left src dst =
     (if 8 \<le> left then src
      else (src AND mask (8 * unat left)) OR (dst AND NOT (mask (8 * unat left))))"

definition memcpy :: "ulong \<Rightarrow> ulong \<Rightarrow> ulong \<Rightarrow> mm_state \<Rightarrow> mm_state" where
  "memcpy destination source n m =
     m\<lparr>phys := (\<lambda>a. let offset = a - (destination - VA_START) in
                 if offset < n
                 then copied_word (n - offset) (phys m (offset + (source - VA_START))) (phys m a)
                 else phys m a)\<rparr>"

text \<open>The loop that looks for the first free page.\<close>

function free_index :: "(nat \<Rightarrow> uint16) \<Rightarrow> nat \<Rightarrow> nat option" where
  "free_index pages i =
     (if i < N_PAGES then (if pages i = 0 then Some i else free_index pages (i + 1)) else None)"
  by pat_completeness auto
termination by (relation "measure (\<lambda>(pages, i). N_PAGES - i)") auto

declare free_index.simps [simp del]

definition get_free_page :: "mm_state \<Rightarrow> ulong \<times> mm_state" where
  "get_free_page m =
     (case free_index (memory_pages m) 0 of
        None \<Rightarrow> (0, m)
      | Some i \<Rightarrow>
          let m1 = m\<lparr>memory_pages := (memory_pages m)(i := 1)\<rparr>;
              page_physical_address = LOW_MEMORY + of_nat i * PAGE_SIZE
          in (page_physical_address, memzero (page_physical_address + VA_START) PAGE_SIZE m1))"

definition allocate_kernel_page :: "mm_state \<Rightarrow> ulong \<times> mm_state" where
  "allocate_kernel_page m =
     (let (page, m1) = get_free_page m in if page = 0 then (0, m1) else (page + VA_START, m1))"

text \<open>\<open>None\<close> when the address is no page of the allocator: the table of pages is then indexed
  outside its bounds.\<close>

definition free_page :: "ulong \<Rightarrow> mm_state \<Rightarrow> (int \<times> mm_state) option" where
  "free_page page_kernel_address m =
     (if page_kernel_address mod PAGE_SIZE \<noteq> 0 then Some (-1, m)
      else
        let m1 = memzero page_kernel_address PAGE_SIZE m;
            i = unat ((page_kernel_address - VA_START - LOW_MEMORY) div PAGE_SIZE)
        in if i < N_PAGES then Some (0, m1\<lparr>memory_pages := (memory_pages m1)(i := 0)\<rparr>) else None)"

subsection \<open>Page tables\<close>

definition table_index :: "ulong \<Rightarrow> nat \<Rightarrow> ulong" where
  "table_index vaddr shift = drop_bit shift vaddr AND (PTRS_PER_TABLE - 1)"

text \<open>The result is the next table and whether it was created.\<close>

definition map_table :: "ulong \<Rightarrow> nat \<Rightarrow> ulong \<Rightarrow> mm_state \<Rightarrow> ulong \<times> bool \<times> mm_state" where
  "map_table table index_shift vaddr m =
     (let slot = table + 8 * table_index vaddr index_shift in
      if load slot m = 0 then
        let (next_level_table, m1) = get_free_page m;
            m2 = memzero (next_level_table + VA_START) PAGE_SIZE m1;
            entry = next_level_table OR MM_TYPE_PAGE_TABLE
        in (next_level_table, True, store slot entry m2)
      else (load slot m AND PAGE_MASK, False, m))"

definition map_table_entry :: "ulong \<Rightarrow> ulong \<Rightarrow> ulong \<Rightarrow> mm_state \<Rightarrow> mm_state" where
  "map_table_entry pte vaddr page_physical_address m =
     store (pte + 8 * table_index vaddr PAGE_SHIFT)
       (page_physical_address OR MMU_PTE_FLAGS) m"

definition track_kernel_page :: "ulong \<Rightarrow> mm_struct \<Rightarrow> mm_struct option" where
  "track_kernel_page page d = do {
     pages \<leftarrow> array_set (kernel_pages d) (n_kernel_pages d) page;
     Some (d\<lparr>kernel_pages := pages, n_kernel_pages := n_kernel_pages d + 1\<rparr>)
   }"

definition track_if :: "bool \<Rightarrow> ulong \<Rightarrow> mm_struct \<Rightarrow> mm_struct option" where
  "track_if created page d = (if created then track_kernel_page page d else Some d)"

definition ensure_pgd :: "mm_struct \<Rightarrow> mm_state \<Rightarrow> (mm_struct \<times> mm_state) option" where
  "ensure_pgd d m =
     (if pgd d = 0 then do {
        let (page, m1) = get_free_page m;
        let m2 = memzero (page + VA_START) PAGE_SIZE m1;
        mm1 \<leftarrow> track_kernel_page page (d\<lparr>pgd := page\<rparr>);
        Some (mm1, m2)
      } else Some (d, m))"

definition map_page ::
  "mm_struct \<Rightarrow> ulong \<Rightarrow> ulong \<Rightarrow> mm_state \<Rightarrow> (mm_struct \<times> mm_state) option" where
  "map_page mm0 vaddr page_physical_address m0 = do {
     (mm1, m1) \<leftarrow> ensure_pgd mm0 m0;
     let (pud, created1, m2) = map_table (pgd mm1 + VA_START) PGD_SHIFT vaddr m1;
     mm2 \<leftarrow> track_if created1 pud mm1;
     let (pmd, created2, m3) = map_table (pud + VA_START) PUD_SHIFT vaddr m2;
     mm3 \<leftarrow> track_if created2 pmd mm2;
     let (pte, created3, m4) = map_table (pmd + VA_START) PMD_SHIFT vaddr m3;
     mm4 \<leftarrow> track_if created3 pte mm3;
     let m5 = map_table_entry (pte + VA_START) vaddr page_physical_address m4;
     pages \<leftarrow> array_set (user_pages mm4) (n_user_pages mm4)
        \<lparr>physical_address = page_physical_address, virtual_address = vaddr\<rparr>;
     Some (mm4\<lparr>user_pages := pages, n_user_pages := n_user_pages mm4 + 1\<rparr>, m5)
   }"

definition allocate_user_page ::
  "mm_struct \<Rightarrow> ulong \<Rightarrow> mm_state \<Rightarrow> (ulong \<times> mm_struct \<times> mm_state) option" where
  "allocate_user_page d vaddr m =
     (let (page, m1) = get_free_page m in
      if page = 0 then Some (0, d, m1)
      else do {
        (d', m2) \<leftarrow> map_page d vaddr page m1;
        Some (page + VA_START, d', m2)
      })"

fun map_sector_loop :: "ulong \<Rightarrow> ulong list \<Rightarrow> ulong \<Rightarrow> mm_state \<Rightarrow> mm_state" where
  "map_sector_loop pmd [] descriptor m = m"
| "map_sector_loop pmd (i # is) descriptor m =
     map_sector_loop pmd is (descriptor + SECTION_SIZE) (store (pmd + 8 * i) descriptor m)"

definition map_sector ::
  "mm_struct \<Rightarrow> ulong \<Rightarrow> ulong \<Rightarrow> ulong \<Rightarrow> ulong \<Rightarrow> mm_state \<Rightarrow> int \<times> mm_state" where
  "map_sector d start_virtual_address end_virtual_address page_physical_address fl m =
     (let first_index = table_index start_virtual_address SECTION_SHIFT;
          last_index = table_index end_virtual_address SECTION_SHIFT;
          descriptor = push_bit SECTION_SHIFT (drop_bit SECTION_SHIFT page_physical_address) OR fl;
          pgd_table = pgd d + VA_START;
          pud_phys = load (pgd_table + 8 * table_index start_virtual_address PGD_SHIFT) m
      in if pud_phys AND 1 = 0 then (-1, m)
         else
           let pud = (pud_phys AND PAGE_MASK) + VA_START;
               pmd_phys = load (pud + 8 * table_index start_virtual_address PUD_SHIFT) m
           in if pmd_phys AND 1 = 0 then (-1, m)
              else
                let pmd = (pmd_phys AND PAGE_MASK) + VA_START
                in (0, map_sector_loop pmd
                         (map of_nat [unat first_index..<unat last_index + 1]) descriptor m))"

definition do_mem_abort ::
  "ulong \<Rightarrow> ulong \<Rightarrow> mm_struct \<Rightarrow> mm_state \<Rightarrow> (int \<times> mm_struct \<times> mm_state) option" where
  "do_mem_abort address esr d m =
     (let dfs = esr AND 0b111111 in
      if dfs div 0b111100 = 0b100 then
        let (page, m1) = get_free_page m in
        if page = 0 then Some (-1, d, m1)
        else do {
          (d', m2) \<leftarrow> map_page d (address AND PAGE_MASK) page m1;
          let m3 = m2\<lparr>fault_index := fault_index m2 + 1\<rparr>;
          Some (if fault_index m3 > 2 then -1 else 0, d', m3)
        }
      else Some (-1, d, m))"

text \<open>The source pages are those of the current process, the destination another one.\<close>

fun copy_pages ::
  "user_page list \<Rightarrow> mm_struct \<Rightarrow> mm_state \<Rightarrow> (int \<times> mm_struct \<times> mm_state) option" where
  "copy_pages [] d m = Some (0, d, m)"
| "copy_pages (p # ps) d m = do {
     (kernel_virtual_address, mm1, m1) \<leftarrow> allocate_user_page d (virtual_address p) m;
     if kernel_virtual_address = 0 then Some (-1, mm1, m1)
     else
       let m2 = memzero kernel_virtual_address PAGE_SIZE m1;
           source_address = physical_address p + VA_START;
           m3 = memcpy kernel_virtual_address source_address PAGE_SIZE m2
       in copy_pages ps mm1 m3
   }"

definition copy_virtual_memory ::
  "mm_struct \<Rightarrow> mm_struct \<Rightarrow> mm_state \<Rightarrow> (int \<times> mm_struct \<times> mm_state) option" where
  "copy_virtual_memory source destination m =
     (if n_user_pages source \<le> int (length (user_pages source))
      then copy_pages (take (nat (n_user_pages source)) (user_pages source)) destination m
      else None)"

end
