(* ===== verification/Page_Translation.thy ===== *)
theory Page_Translation
  imports Page_Memory
begin

text \<open>
  What the page tables that \<^verbatim>\<open>map_page\<close> builds mean. \<open>tab d\<close> walks \<open>d\<close> levels of the tables
  from the root, as the code and the hardware do; \<open>tables_ok\<close> says that the tables of a process
  are frames of the allocator in use and that no two paths meet, so that a new entry changes
  exactly the translations it is meant to change.
\<close>

subsection \<open>Pages and slots\<close>

definition page_aligned :: "ulong \<Rightarrow> bool" where
  "page_aligned a \<longleftrightarrow> take_bit 12 a = 0"

definition frame :: "nat \<Rightarrow> ulong" where
  "frame i = LOW_MEMORY + of_nat i * PAGE_SIZE"

definition level_shift :: "nat \<Rightarrow> nat" where
  "level_shift d = 39 - 9 * d"

definition idx :: "ulong \<Rightarrow> nat \<Rightarrow> ulong" where
  "idx va d = table_index va (level_shift d)"

lemma idx_bound: "idx va d < 512"
proof -
  have "idx va d = take_bit 9 (drop_bit (level_shift d) va)"
    by (simp add: idx_def table_index_def PTRS_PER_TABLE_def take_bit_eq_mask mask_eq_exp_minus_1)
  then show ?thesis
    using take_bit_int_less_exp [of 9 "uint (drop_bit (level_shift d) va)"]
    by (simp add: word_less_def unsigned_take_bit_eq)
qed

lemma page_aligned_uint: "page_aligned a \<longleftrightarrow> uint a mod 4096 = 0"
proof -
  have "uint (take_bit 12 a) = uint a mod 4096"
    unfolding unsigned_take_bit_eq by (simp add: take_bit_eq_mod)
  then show ?thesis unfolding page_aligned_def by (metis uint_0_eq word_uint_eqI unsigned_0)
qed

lemma aligned_bound:
  assumes "page_aligned t"
  shows "\<exists>k. uint t = 4096 * k \<and> 0 \<le> k \<and> k < 2 ^ 52"
proof -
  have "uint t = 4096 * (uint t div 4096)" using assms by (auto simp: page_aligned_uint)
  moreover have "uint t < 2 ^ 64" using uint_bounded [of t] by simp
  ultimately have "0 \<le> uint t div 4096 \<and> uint t div 4096 < 2 ^ 52" by (simp add: pos_imp_zdiv_nonneg_iff)
  then show ?thesis using \<open>uint t = 4096 * (uint t div 4096)\<close> by blast
qed

lemma uint_index: "i < 512 \<Longrightarrow> uint (8 * i) = 8 * uint i \<and> 0 \<le> uint i \<and> uint i < 512" for i :: ulong
  by (simp add: word_less_def uint_word_ariths)

lemma slot_uint:
  assumes "page_aligned t" "i < 512"
  shows "uint (t + 8 * i) = uint t + 8 * uint i"
proof -
  obtain k where k: "uint t = 4096 * k" "0 \<le> k" "k < 2 ^ 52" using aligned_bound [OF assms(1)] by blast
  then have "uint t + uint (8 * i) < 2 ^ 64" using uint_index [OF assms(2)] by simp
  then have "uint (t + 8 * i) = uint t + uint (8 * i)"
    using iffD1 [OF uint_add_lem, of t "8 * i"] by simp
  then show ?thesis using uint_index [OF assms(2)] by simp
qed

lemma slot_inj:
  assumes "page_aligned t" "page_aligned t'" "i < 512" "j < 512" "t + 8 * i = t' + 8 * j"
  shows "t = t' \<and> i = j"
proof -
  obtain k k' where k: "uint t = 4096 * k" "uint t' = 4096 * k'" using aligned_bound assms(1,2) by meson
  have "4096 * k + 8 * uint i = 4096 * k' + 8 * uint j"
    using slot_uint [OF assms(1,3)] slot_uint [OF assms(2,4)] assms(5) k by simp
  moreover have "0 \<le> uint i" "uint i < 512" "0 \<le> uint j" "uint j < 512"
    using uint_index [OF assms(3)] uint_index [OF assms(4)] by blast+
  ultimately have "k = k'" by linarith
  moreover from this have "uint i = uint j" using \<open>4096 * k + 8 * uint i = 4096 * k' + 8 * uint j\<close> by simp
  ultimately show ?thesis using k by (simp add: word_uint_eq_iff)
qed

lemma slot_in_page:
  assumes "page_aligned t" "page_aligned n" "i < 512"
  shows "t + 8 * i - n < PAGE_SIZE \<longleftrightarrow> t = n"
proof -
  obtain k k' where k: "uint t = 4096 * k" "0 \<le> k" "k < 2 ^ 52" "uint n = 4096 * k'" "0 \<le> k'" "k' < 2 ^ 52"
    using aligned_bound assms(1,2) by meson
  let ?d = "uint (t + 8 * i) - uint n"
  obtain w where w: "uint i = w" "0 \<le> w" "w < 512" using uint_index [OF assms(3)] by blast
  define e where "e = ?d"
  have d: "e = 4096 * (k - k') + 8 * w" using slot_uint [OF assms(1,3)] k w by (simp add: e_def)
  have u: "uint (t + 8 * i - n) = e mod 2 ^ 64" by (simp add: uint_word_ariths(2) e_def)
  have "e mod 2 ^ 64 < 4096 \<longleftrightarrow> k = k'"
  proof (cases "k' \<le> k")
    case True
    then have "0 \<le> e" "e < 2 ^ 64" using d k w(2,3) by simp_all
    then have "e mod 2 ^ 64 = e" by (rule mod_pos_pos_trivial)
    then show ?thesis using d True w(2,3) by auto
  next
    case False
    then have r: "0 \<le> e + 2 ^ 64" "e + 2 ^ 64 < 2 ^ 64" using d k w(2,3) by simp_all
    have "e mod 2 ^ 64 = (e + 2 ^ 64) mod 2 ^ 64" by simp
    also have "\<dots> = e + 2 ^ 64" using r by (rule mod_pos_pos_trivial)
    finally show ?thesis using d False k w(2,3) by auto
  qed
  moreover have "t = n \<longleftrightarrow> k = k'" using k by (auto simp: word_uint_eq_iff)
  ultimately show ?thesis using u by (simp add: word_less_def PAGE_SIZE_def)
qed

lemma uint_frame:
  assumes "i < N_PAGES"
  shows "uint (frame i) = 4194304 + 4096 * int i"
proof -
  have eq: "frame i = of_int (4194304 + 4096 * int i)"
    by (simp add: frame_def LOW_MEMORY_def PAGE_SIZE_def mult.commute)
  have "0 \<le> 4194304 + 4096 * int i" "4194304 + 4096 * int i < 2 ^ 64"
    using assms by (simp_all add: N_PAGES_def)
  then show ?thesis unfolding eq by (subst unsigned_of_int) (simp add: take_bit_int_eq_self)
qed

lemma frame_inj: "i < N_PAGES \<Longrightarrow> j < N_PAGES \<Longrightarrow> frame i = frame j \<longleftrightarrow> i = j"
  using uint_frame by (metis add_left_cancel mult_cancel_left of_nat_eq_iff zero_neq_numeral)

lemma frame_nonzero: "i < N_PAGES \<Longrightarrow> frame i \<noteq> 0"
  using uint_frame [of i] by auto

lemma frame_aligned: "i < N_PAGES \<Longrightarrow> page_aligned (frame i)"
  by (simp add: page_aligned_uint uint_frame)

lemma aligned_low: "page_aligned n \<Longrightarrow> k < 12 \<Longrightarrow> \<not> bit n k"
  unfolding page_aligned_def by (metis bit_take_bit_iff bit_0_eq bot_apply bot_bool_def)

lemma entry_address:
  assumes "page_aligned n"
  shows "(n OR MM_TYPE_PAGE_TABLE) AND PAGE_MASK = n" "n OR MM_TYPE_PAGE_TABLE \<noteq> 0"
proof -
  have M: "PAGE_MASK = NOT (mask 12)" by (simp add: PAGE_MASK_def mask_eq_exp_minus_1)
  have T: "MM_TYPE_PAGE_TABLE = mask 2" by (simp add: MM_TYPE_PAGE_TABLE_def mask_eq_exp_minus_1)
  note lo = aligned_low [OF assms]
  show "(n OR MM_TYPE_PAGE_TABLE) AND PAGE_MASK = n"
    unfolding M T using lo by (intro bit_word_eqI) (auto simp: bit_simps)
  show "n OR MM_TYPE_PAGE_TABLE \<noteq> 0"
  proof
    assume "n OR MM_TYPE_PAGE_TABLE = 0"
    then have "bit (n OR MM_TYPE_PAGE_TABLE) 0 = False" by simp
    then show False by (simp add: T bit_simps)
  qed
qed

subsection \<open>The allocator\<close>

definition free_frames :: "mm_state \<Rightarrow> nat set" where
  "free_frames m = {i. i < N_PAGES \<and> memory_pages m i = 0}"

lemma free_index_step:
  "free_index pages i =
     (if i < N_PAGES then (if pages i = 0 then Some i else free_index pages (Suc i)) else None)"
  by (subst free_index.simps) simp

lemma free_index_Some:
  "free_index pages i = Some j \<Longrightarrow> i \<le> j \<and> j < N_PAGES \<and> pages j = 0"
proof (induction pages i rule: free_index.induct)
  case (1 pages i)
  then show ?case using free_index_step [of pages i] by (auto split: if_splits)
qed

lemma free_index_least:
  "free_index pages i = Some j \<Longrightarrow> i \<le> k \<Longrightarrow> k < j \<Longrightarrow> pages k \<noteq> 0"
proof (induction pages i rule: free_index.induct)
  case (1 pages i)
  then show ?case using free_index_step [of pages i] by (cases "k = i") (auto split: if_splits)
qed

lemma free_index_None: "free_index pages i = None \<Longrightarrow> i \<le> j \<Longrightarrow> j < N_PAGES \<Longrightarrow> pages j \<noteq> 0"
proof (induction pages i rule: free_index.induct)
  case (1 pages i)
  then show ?case using free_index_step [of pages i] by (cases "j = i") (auto split: if_splits)
qed

text \<open>With a free frame left the allocator returns the lowest one, zeroed and marked in use.\<close>

lemma get_free_page_ok:
  assumes "free_frames m \<noteq> {}"
  shows "\<exists>i m'. get_free_page m = (frame i, m') \<and> i \<in> free_frames m \<and> (\<forall>j \<in> free_frames m. i \<le> j) \<and>
    free_frames m' = free_frames m - {i} \<and> fault_index m' = fault_index m \<and>
    phys m' = (\<lambda>a. if a - frame i < PAGE_SIZE then 0 else phys m a)"
proof -
  have "free_index (memory_pages m) 0 \<noteq> None" using assms free_index_None by (force simp: free_frames_def)
  then obtain i where i: "free_index (memory_pages m) 0 = Some i" by blast
  note F = free_index_Some [OF i]
  let ?m = "memzero (frame i + VA_START) PAGE_SIZE (m\<lparr>memory_pages := (memory_pages m)(i := 1)\<rparr>)"
  have g: "get_free_page m = (frame i, ?m)"
    by (simp add: get_free_page_def i frame_def Let_def)
  have least: "\<forall>j \<in> free_frames m. i \<le> j"
    using free_index_least [OF i] by (force simp: free_frames_def not_less [symmetric])
  have mem: "i \<in> free_frames m" using F by (simp add: free_frames_def)
  have ff: "free_frames ?m = free_frames m - {i}"
    by (auto simp: memzero_def free_frames_def split: if_splits)
  have ph: "phys ?m = (\<lambda>a. if a - frame i < PAGE_SIZE then 0 else phys m a)" "fault_index ?m = fault_index m"
    by (auto simp: memzero_def fun_eq_iff)
  show ?thesis by (intro exI conjI) (rule g mem least ff ph)+
qed

lemma get_free_page_none: "free_frames m = {} \<Longrightarrow> get_free_page m = (0, m)"
  using free_index_Some [of "memory_pages m" 0]
  by (cases "free_index (memory_pages m) 0") (auto simp: get_free_page_def free_frames_def)

lemma finite_free_frames [simp]: "finite (free_frames m)"
  by (rule finite_subset [of _ "{..<N_PAGES}"]) (auto simp: free_frames_def)


subsection \<open>Walking the tables\<close>

definition slot :: "ulong \<Rightarrow> ulong \<Rightarrow> nat \<Rightarrow> ulong" where
  "slot t va d = t + 8 * idx va d"

primrec tab :: "mm_state \<Rightarrow> ulong \<Rightarrow> ulong \<Rightarrow> nat \<Rightarrow> ulong option" where
  "tab m root va 0 = Some root"
| "tab m root va (Suc d) =
     (case tab m root va d of
        None \<Rightarrow> None
      | Some t \<Rightarrow> let entry = phys m (slot t va d) in
                  if entry = 0 then None else Some (entry AND PAGE_MASK))"

definition same_path :: "ulong \<Rightarrow> ulong \<Rightarrow> nat \<Rightarrow> bool" where
  "same_path va va' d \<longleftrightarrow> (\<forall>j < d. idx va j = idx va' j)"

lemma same_path_simps [simp]:
  "same_path va va' 0" "same_path va va' (Suc d) \<longleftrightarrow> same_path va va' d \<and> idx va d = idx va' d"
  "same_path va va d"
  by (auto simp: same_path_def less_Suc_eq)

lemma same_path_sym: "same_path va va' d = same_path va' va d"
  by (auto simp: same_path_def)

lemma same_path_mono: "same_path va va' d \<Longrightarrow> k \<le> d \<Longrightarrow> same_path va va' k"
  by (auto simp: same_path_def)

lemma same_path_tab: "same_path va va' d \<Longrightarrow> tab m root va d = tab m root va' d"
  by (induction d) (auto simp: slot_def split: option.split)

lemma tab_mono: "tab m root va d \<noteq> None \<Longrightarrow> k \<le> d \<Longrightarrow> tab m root va k \<noteq> None"
  by (induction d) (auto simp: le_Suc_eq split: option.splits)

text \<open>The tables of the three inner levels and the root: frames in use, on paths that never meet.\<close>

definition tables_ok :: "mm_state \<Rightarrow> ulong \<Rightarrow> bool" where
  "tables_ok m root \<longleftrightarrow>
     (\<forall>va d t. d \<le> 3 \<longrightarrow> tab m root va d = Some t \<longrightarrow>
        (\<exists>i < N_PAGES. t = frame i \<and> i \<notin> free_frames m)) \<and>
     (\<forall>va va' d d' t. d \<le> 3 \<longrightarrow> d' \<le> 3 \<longrightarrow> tab m root va d = Some t \<longrightarrow>
        tab m root va' d' = Some t \<longrightarrow> d = d' \<and> same_path va va' d)"

lemma tables_okD:
  assumes "tables_ok m root" "tab m root va d = Some t" "d \<le> 3"
  shows "page_aligned t" "t \<noteq> 0" "\<exists>i < N_PAGES. t = frame i \<and> i \<notin> free_frames m"
    "tab m root va' d' = Some t \<Longrightarrow> d' \<le> 3 \<Longrightarrow> d = d' \<and> same_path va va' d"
proof -
  show i: "\<exists>i < N_PAGES. t = frame i \<and> i \<notin> free_frames m" using assms unfolding tables_ok_def by blast
  then show "page_aligned t" "t \<noteq> 0" using frame_aligned frame_nonzero by auto
  show "tab m root va' d' = Some t \<Longrightarrow> d' \<le> 3 \<Longrightarrow> d = d' \<and> same_path va va' d"
    using assms unfolding tables_ok_def by blast
qed

lemma tables_ok_cong:
  assumes low: "\<And>va d. d \<le> 3 \<Longrightarrow> tab m' root va d = tab m root va d"
    and ff: "free_frames m' = free_frames m" and ok: "tables_ok m root"
  shows "tables_ok m' root"
  unfolding tables_ok_def ff
proof (intro conjI allI impI)
  fix va d t assume "d \<le> 3" "tab m' root va d = Some t"
  then show "\<exists>i < N_PAGES. t = frame i \<and> i \<notin> free_frames m" using low tables_okD(3) [OF ok] by simp
next
  fix va va' d d' t assume "d \<le> 3" "d' \<le> 3" "tab m' root va d = Some t" "tab m' root va' d' = Some t"
  then have "d = d' \<and> same_path va va' d" using low tables_okD(4) [OF ok] by simp
  then show "d = d'" "same_path va va' d" by auto
qed

text \<open>Slots on different paths are different addresses.\<close>

lemma slot_eq:
  assumes ok: "tables_ok m root" and t: "tab m root va d = Some t" "d \<le> 3" and t': "tab m root va' d' = Some t'" "d' \<le> 3"
  shows "slot t va d = slot t' va' d' \<longleftrightarrow> d = d' \<and> same_path va va' (Suc d)"
proof
  assume eq: "slot t va d = slot t' va' d'"
  have "t = t' \<and> idx va d = idx va' d'"
    by (rule slot_inj [OF tables_okD(1) [OF ok t] tables_okD(1) [OF ok t'] idx_bound idx_bound])
      (use eq in \<open>simp add: slot_def\<close>)
  then show "d = d' \<and> same_path va va' (Suc d)" using tables_okD(4) [OF ok t, of va' d'] t' by auto
next
  assume p: "d = d' \<and> same_path va va' (Suc d)"
  then have "same_path va va' d" "d' = d" by auto
  then have "tab m root va d = tab m root va' d'" using same_path_tab by blast
  then have "t = t'" using t(1) t'(1) by simp
  moreover have "idx va d = idx va' d'" using p by auto
  ultimately show "slot t va d = slot t' va' d'" by (simp add: slot_def)
qed

text \<open>The effect of writing one entry of a table on all walks.\<close>

lemma tab_write:
  assumes ok: "tables_ok m root" and t: "tab m root va d = Some t" "d \<le> 3"
    and m': "phys m' = (phys m)(slot t va d := e)" and k: "k \<le> 4"
  shows "tab m' root va' k =
     (if k \<le> d \<or> \<not> same_path va va' (Suc d) then tab m root va' k
      else if k = Suc d then (if e = 0 then None else Some (e AND PAGE_MASK))
      else tab m' root va' k)"
proof -
  have same: "tab m' root va' j = tab m root va' j" if "j \<le> 4" "j \<le> d \<or> \<not> same_path va va' (Suc d)" for j
    using that
  proof (induction j)
    case (Suc j)
    then have j: "j \<le> 3" "j \<le> d \<or> \<not> same_path va va' (Suc d)" by auto
    have IH: "tab m' root va' j = tab m root va' j" by (rule Suc.IH) (use j in simp_all)
    show ?case
    proof (cases "tab m root va' j")
      case (Some u)
      have "\<not> (d = j \<and> same_path va va' (Suc d))" using Suc.prems(2) by auto
      then have "slot t va d \<noteq> slot u va' j" using slot_eq [OF ok t Some j(1)] by simp
      then show ?thesis using IH Some by (simp add: m')
    qed (use IH in simp)
  qed simp
  show ?thesis
  proof (cases "k = Suc d \<and> same_path va va' (Suc d)")
    case True
    have "tab m' root va' d = tab m root va' d" using same [of d] t(2) by simp
    also have "\<dots> = Some t" using True same_path_tab [of va va' d m root] t(1) by simp
    moreover have "slot t va' d = slot t va d" using True by (simp add: slot_def)
    ultimately show ?thesis using True by (simp add: m')
  next
    case False
    then show ?thesis using same [of k] k by auto
  qed
qed

text \<open>What a step of the walk means when a fresh frame, all zeros, is linked below an empty slot.\<close>

lemma tab_link:
  assumes ok: "tables_ok m root" and t: "tab m root va d = Some t" "d < 3" and empty: "phys m (slot t va d) = 0"
    and n: "i \<in> free_frames m" "n = frame i"
    and m': "phys m' = (\<lambda>a. if a - n < PAGE_SIZE then 0 else phys m a)(slot t va d := n OR MM_TYPE_PAGE_TABLE)"
    and ff: "free_frames m' = free_frames m - {i}" and k: "k \<le> 4"
  shows "tab m' root va' k =
     (if k = Suc d \<and> same_path va va' (Suc d) then Some n else tab m root va' k)"
proof -
  have iN: "i < N_PAGES" using n(1) by (simp add: free_frames_def)
  have na: "page_aligned n" using frame_aligned [OF iN] n(2) by simp
  let ?z = "m\<lparr>phys := \<lambda>a. if a - n < PAGE_SIZE then 0 else phys m a\<rparr>"
  have other: "u \<noteq> n" if "tab m root va' j = Some u" "j \<le> 3" for va' j u
    using tables_okD(3) [OF ok that] n frame_inj iN by auto
  have z: "tab ?z root va' j = tab m root va' j" if "j \<le> 4" for va' j
    using that
  proof (induction j)
    case (Suc j)
    show ?case
    proof (cases "tab m root va' j")
      case (Some u)
      have j: "j \<le> 3" using Suc.prems by simp
      have "\<not> slot u va' j - n < PAGE_SIZE"
        using slot_in_page [OF tables_okD(1) [OF ok Some j] na idx_bound] other [OF Some j] by (simp add: slot_def)
      then show ?thesis using Suc Some by simp
    qed (use Suc in simp)
  qed simp
  have okz: "tables_ok ?z root"
    using ok unfolding tables_ok_def by (simp add: z free_frames_def)
  have tz: "tab ?z root va d = Some t" using z t by simp
  have m'z: "phys m' = (phys ?z)(slot t va d := n OR MM_TYPE_PAGE_TABLE)" using m' by simp
  note W = tab_write [OF okz tz less_imp_le [OF t(2)] m'z]
  have below: "tab m root va' j = None" if "same_path va va' (Suc d)" "Suc d \<le> j" for va' j
  proof -
    have "tab m root va' d = Some t" using that(1) same_path_tab [of va va' d m root] t(1) by simp
    moreover have "slot t va' d = slot t va d" using that(1) by (simp add: slot_def)
    ultimately have "tab m root va' (Suc d) = None" using empty by simp
    then show ?thesis using tab_mono [of m root va' j "Suc d"] that(2) by blast
  qed
  have deep: "tab m' root va' j = None" if "same_path va va' (Suc d)" "Suc (Suc d) \<le> j" "j \<le> 4" for va' j
  proof -
    have d4: "Suc d \<le> 4" using t(2) by simp
    have "tab m' root va' (Suc d) = Some n"
      using W [OF d4, of va'] that(1) entry_address [OF na] by simp
    moreover have "phys m' (slot n va' (Suc d)) = 0"
    proof -
      have "slot n va' (Suc d) - n < PAGE_SIZE" using slot_in_page [OF na na idx_bound] by (simp add: slot_def)
      moreover have "slot n va' (Suc d) \<noteq> slot t va d"
        using slot_inj [OF na tables_okD(1) [OF ok t(1)] idx_bound idx_bound, of va' "Suc d" va d]
          other [OF t(1)] t(2) by (auto simp: slot_def)
      ultimately show ?thesis by (simp add: m')
    qed
    ultimately have "tab m' root va' (Suc (Suc d)) = None" by simp
    then show ?thesis using tab_mono [of m' root va' j "Suc (Suc d)"] that(2) by blast
  qed
  show ?thesis
  proof (cases "same_path va va' (Suc d)")
    case False
    have "tab m' root va' k = tab ?z root va' k"
      using W [OF k, of va'] False by (simp only: simp_thms if_True)
    then show ?thesis using z [OF k] False by (simp only: simp_thms if_False)
  next
    case True
    consider "k \<le> d" | "k = Suc d" | "Suc (Suc d) \<le> k" by linarith
    then show ?thesis
    proof cases
      case 1
      then show ?thesis using W [OF k, of va'] z [OF k] by simp
    next
      case 2
      then show ?thesis using W [OF k, of va'] True entry_address [OF na] by simp
    next
      case 3
      then show ?thesis using deep [OF True 3 k] below [OF True, of k] by simp
    qed
  qed
qed


subsection \<open>One level\<close>

text \<open>After \<^verbatim>\<open>map_table\<close> the path goes one level further; no other walk has changed.\<close>

lemma map_table_ok:
  assumes ok: "tables_ok m root" and t: "tab m root va d = Some t" "d < 3"
    and room: "free_frames m \<noteq> {}"
    and mt: "map_table (t + VA_START) (level_shift d) va m = (n, created, m')"
  shows "tables_ok m' root" "tab m' root va (Suc d) = Some n"
    "created \<longleftrightarrow> tab m root va (Suc d) = None"
    "free_frames m' \<subseteq> free_frames m" "card (free_frames m) \<le> Suc (card (free_frames m'))"
    "k \<le> 4 \<Longrightarrow> \<not> (k = Suc d \<and> same_path va va' (Suc d)) \<Longrightarrow> tab m' root va' k = tab m root va' k"
proof -
  have slot: "t + VA_START + 8 * table_index va (level_shift d) - VA_START = slot t va d"
    by (simp add: slot_def idx_def)
  have "tables_ok m' root \<and> tab m' root va (Suc d) = Some n \<and> (created \<longleftrightarrow> tab m root va (Suc d) = None) \<and>
    free_frames m' \<subseteq> free_frames m \<and> card (free_frames m) \<le> Suc (card (free_frames m')) \<and>
    (\<forall>va' k. k \<le> 4 \<longrightarrow> \<not> (k = Suc d \<and> same_path va va' (Suc d)) \<longrightarrow> tab m' root va' k = tab m root va' k)"
  proof (cases "phys m (slot t va d) = 0")
    case False
    then have "n = phys m (slot t va d) AND PAGE_MASK" "\<not> created" "m' = m"
      using mt by (auto simp: map_table_def load_def slot Let_def)
    then show ?thesis using ok t(1) False by simp
  next
    case True
    from get_free_page_ok [OF room] obtain i m1 where
      g: "get_free_page m = (frame i, m1)" "i \<in> free_frames m" "free_frames m1 = free_frames m - {i}"
        "phys m1 = (\<lambda>a. if a - frame i < PAGE_SIZE then 0 else phys m a)" by blast
    have res: "n = frame i" "created" "m' = store (t + VA_START + 8 * table_index va (level_shift d)) (n OR MM_TYPE_PAGE_TABLE)
        (memzero (n + VA_START) PAGE_SIZE m1)"
      using mt True g(1) by (auto simp: map_table_def load_def slot Let_def)
    have "phys (memzero (n + VA_START) PAGE_SIZE m1) = (\<lambda>a. if a - n < PAGE_SIZE then 0 else phys m a)"
      using g(4) res(1) by (auto simp: memzero_def fun_eq_iff)
    then have ph: "phys m' = (\<lambda>a. if a - n < PAGE_SIZE then 0 else phys m a)(slot t va d := n OR MM_TYPE_PAGE_TABLE)"
      by (simp add: res(3) store_def slot)
    have ff: "free_frames m' = free_frames m - {i}"
      using g(3) by (simp add: res(3) store_def memzero_def free_frames_def)
    note L = tab_link [OF ok t True g(2) res(1) ph ff]
    have iN: "i < N_PAGES" using g(2) by (simp add: free_frames_def)
    have other: "u \<noteq> n" if "tab m root va' j = Some u" "j \<le> 3" for va' j u
      using tables_okD(3) [OF ok that] g(2) res(1) frame_inj iN by auto
    have L': "tab m' root va' j = Some u \<Longrightarrow> j \<le> 3 \<Longrightarrow>
        (if u = n then j = Suc d \<and> same_path va va' (Suc d)
         else tab m root va' j = Some u)" for va' j u
    proof -
      assume a: "tab m' root va' j = Some u" "j \<le> 3"
      have j4: "j \<le> 4" using a(2) by simp
      show ?thesis
      proof (cases "j = Suc d \<and> same_path va va' (Suc d)")
        case True
        then have "tab m' root va' j = Some n" using L [OF j4, of va'] by (simp only: if_True simp_thms)
        then show ?thesis using a True by simp
      next
        case False
        then have "tab m' root va' j = tab m root va' j" using L [OF j4, of va'] by (simp only: if_False simp_thms)
        then show ?thesis using a other [of va' j u] by simp
      qed
    qed
    have "tables_ok m' root"
      unfolding tables_ok_def
    proof (intro conjI allI impI)
      fix va' j u assume j: "j \<le> 3" and u: "tab m' root va' j = Some u"
      show "\<exists>i < N_PAGES. u = frame i \<and> i \<notin> free_frames m'"
      proof (cases "u = n")
        case True
        then show ?thesis using iN res(1) ff by auto
      next
        case False
        then have "tab m root va' j = Some u" using L' [OF u j] by simp
        then show ?thesis using tables_okD(3) [OF ok _ j] ff by blast
      qed
    next
      fix va1 va2 j1 j2 u
      assume j: "j1 \<le> 3" "j2 \<le> 3" and u: "tab m' root va1 j1 = Some u" "tab m' root va2 j2 = Some u"
      have "j1 = j2 \<and> same_path va1 va2 j1"
      proof (cases "u = n")
        case True
        then have "j1 = Suc d \<and> same_path va va1 (Suc d)" "j2 = Suc d \<and> same_path va va2 (Suc d)"
          using L' [OF u(1) j(1)] L' [OF u(2) j(2)] by simp_all
        then show ?thesis unfolding same_path_def by metis
      next
        case False
        then have "tab m root va1 j1 = Some u" "tab m root va2 j2 = Some u"
          using L' [OF u(1) j(1)] L' [OF u(2) j(2)] by simp_all
        then show ?thesis using tables_okD(4) [OF ok _ j(1)] j(2) by blast
      qed
      then show "j1 = j2" "same_path va1 va2 j1" by auto
    qed
    moreover have "tab m root va (Suc d) = None" using t(1) True by simp
    moreover have "tab m' root va (Suc d) = Some n" using L [of "Suc d" va] t(2) by (simp del: tab.simps)
    moreover have "card (free_frames m) \<le> Suc (card (free_frames m'))"
      unfolding ff by (auto simp: card_Diff_singleton_if)
    moreover have "\<forall>va' k. k \<le> 4 \<longrightarrow> \<not> (k = Suc d \<and> same_path va va' (Suc d)) \<longrightarrow> tab m' root va' k = tab m root va' k"
    proof (intro allI impI)
      fix va' k assume a: "k \<le> 4" "\<not> (k = Suc d \<and> same_path va va' (Suc d))"
      show "tab m' root va' k = tab m root va' k" using L [OF a(1), of va'] unfolding if_not_P [OF a(2)] .
    qed
    ultimately show ?thesis using res(2) ff by blast
  qed
  then show "tables_ok m' root" "tab m' root va (Suc d) = Some n" "created \<longleftrightarrow> tab m root va (Suc d) = None"
    "free_frames m' \<subseteq> free_frames m" "card (free_frames m) \<le> Suc (card (free_frames m'))"
    "k \<le> 4 \<Longrightarrow> \<not> (k = Suc d \<and> same_path va va' (Suc d)) \<Longrightarrow> tab m' root va' k = tab m root va' k"
    by blast+
qed


subsection \<open>Mapping a page\<close>

definition translation :: "mm_state \<Rightarrow> mm_struct \<Rightarrow> ulong \<Rightarrow> ulong option" where
  "translation m dm va = (if pgd dm = 0 then None else tab m (pgd dm) va 4)"

definition vm_ok :: "mm_state \<Rightarrow> mm_struct \<Rightarrow> bool" where
  "vm_ok m dm \<longleftrightarrow> (pgd dm \<noteq> 0 \<longrightarrow> tables_ok m (pgd dm)) \<and>
     length (kernel_pages dm) = MAX_PROCESS_PAGES \<and> length (user_pages dm) = MAX_PROCESS_PAGES \<and>
     0 \<le> n_kernel_pages dm \<and> 0 \<le> n_user_pages dm"

text \<open>Room for the tables a mapping may need: a root and three inner tables.\<close>

definition vm_room :: "mm_state \<Rightarrow> mm_struct \<Rightarrow> bool" where
  "vm_room m dm \<longleftrightarrow> 4 \<le> card (free_frames m) \<and>
     n_kernel_pages dm + 4 \<le> int MAX_PROCESS_PAGES \<and> n_user_pages dm < int MAX_PROCESS_PAGES"

lemma tab_empty_root:
  assumes "\<forall>va. phys m (slot root va 0) = 0"
  shows "tab m root va (Suc d) = None"
proof (induction d)
  case 0
  then show ?case using assms by simp
next
  case (Suc d)
  then show ?case by (subst tab.simps) (simp only: option.case)
qed

lemma ensure_pgd_ok:
  assumes vm: "vm_ok m dm" and room: "vm_room m dm"
  shows "\<exists>dm' m'. ensure_pgd dm m = Some (dm', m') \<and> pgd dm' \<noteq> 0 \<and> tables_ok m' (pgd dm') \<and>
    3 \<le> card (free_frames m') \<and> vm_ok m' dm' \<and> n_kernel_pages dm' + 3 \<le> int MAX_PROCESS_PAGES \<and>
    user_pages dm' = user_pages dm \<and> n_user_pages dm' = n_user_pages dm \<and>
    free_frames m' \<subseteq> free_frames m \<and> (\<forall>va. translation m' dm' va = translation m dm va)"
proof (cases "pgd dm = 0")
  case False
  then show ?thesis using vm room by (auto simp: ensure_pgd_def vm_ok_def vm_room_def)
next
  case True
  have "free_frames m \<noteq> {}" using room by (auto simp: vm_room_def)
  from get_free_page_ok [OF this] obtain i m1 where
    g: "get_free_page m = (frame i, m1)" "i \<in> free_frames m" "free_frames m1 = free_frames m - {i}"
      "phys m1 = (\<lambda>a. if a - frame i < PAGE_SIZE then 0 else phys m a)" by blast
  have iN: "i < N_PAGES" using g(2) by (simp add: free_frames_def)
  let ?dm = "dm\<lparr>pgd := frame i, kernel_pages := (kernel_pages dm)[nat (n_kernel_pages dm) := frame i],
    n_kernel_pages := n_kernel_pages dm + 1\<rparr>"
  let ?m = "memzero (frame i + VA_START) PAGE_SIZE m1"
  have en: "ensure_pgd dm m = Some (?dm, ?m)"
    using True g(1) vm room
    by (simp add: ensure_pgd_def track_kernel_page_def array_set_def vm_ok_def vm_room_def)
  have ff: "free_frames ?m = free_frames m - {i}" using g(3) by (simp add: memzero_def free_frames_def)
  have "\<forall>va. phys ?m (slot (frame i) va 0) = 0"
    using slot_in_page [OF frame_aligned [OF iN] frame_aligned [OF iN] idx_bound]
    by (simp add: memzero_def slot_def)
  note E = tab_empty_root [OF this]
  have walk: "d = 0 \<and> t = frame i" if "tab ?m (frame i) va d = Some t" for va d t
    using that E by (cases d) (auto simp del: tab.simps(2))
  have ok: "tables_ok ?m (frame i)"
    unfolding tables_ok_def using walk iN ff by (auto dest!: walk)
  have c: "3 \<le> card (free_frames ?m)" using room g(2) by (auto simp: ff vm_room_def card_Diff_singleton_if)
  have tr: "translation ?m ?dm va = translation m dm va" for va
    using True E [of va 3] frame_nonzero [OF iN] by (simp add: translation_def numeral_eq_Suc del: tab.simps(2))
  show ?thesis
    using en ok c tr ff frame_nonzero [OF iN] vm room
    by (intro exI [of _ ?dm] exI [of _ ?m]) (auto simp: vm_ok_def vm_room_def)
qed

lemma track_if_ok:
  assumes "vm_ok m dm" "n_kernel_pages dm + 1 \<le> int MAX_PROCESS_PAGES" "tables_ok m' (pgd dm)"
  shows "\<exists>dm'. track_if created page dm = Some dm' \<and> vm_ok m' dm' \<and> pgd dm' = pgd dm \<and>
    n_kernel_pages dm' \<le> n_kernel_pages dm + 1 \<and> user_pages dm' = user_pages dm \<and> n_user_pages dm' = n_user_pages dm"
  using assms by (auto simp: track_if_def track_kernel_page_def array_set_def vm_ok_def)

lemma pte_entry:
  assumes "page_aligned pa"
  shows "(pa OR MMU_PTE_FLAGS) AND PAGE_MASK = pa" "pa OR MMU_PTE_FLAGS \<noteq> 0"
proof -
  have M: "PAGE_MASK = NOT (mask 12)" by (simp add: PAGE_MASK_def mask_eq_exp_minus_1)
  have F: "MMU_PTE_FLAGS AND NOT (mask 12) = 0" by (simp add: MMU_PTE_FLAGS_def mask_eq_exp_minus_1)
  have "pa AND NOT (mask 12) = pa"
    using aligned_low [OF assms] by (intro bit_word_eqI) (auto simp: bit_simps not_le [symmetric])
  then show "(pa OR MMU_PTE_FLAGS) AND PAGE_MASK = pa"
    unfolding M using F by (simp add: bit.conj_disj_distrib2 and.commute)
  show "pa OR MMU_PTE_FLAGS \<noteq> 0"
  proof
    assume "pa OR MMU_PTE_FLAGS = 0"
    then have "(pa OR MMU_PTE_FLAGS) AND 1 = 0" by simp
    then show False by (simp add: MMU_PTE_FLAGS_def bit.conj_disj_distrib2)
  qed
qed


lemma map_page_ok:
  assumes vm: "vm_ok m dm" and room: "vm_room m dm" and pa: "page_aligned pa"
  shows "\<exists>dm' m'. map_page dm va pa m = Some (dm', m') \<and> vm_ok m' dm' \<and>
    translation m' dm' va = Some pa \<and>
    (\<forall>va'. \<not> same_path va va' 4 \<longrightarrow> translation m' dm' va' = translation m dm va') \<and>
    n_user_pages dm' = n_user_pages dm + 1 \<and>
    user_pages dm' = (user_pages dm)[nat (n_user_pages dm) := \<lparr>physical_address = pa, virtual_address = va\<rparr>] \<and>
    free_frames m' \<subseteq> free_frames m"
proof -
  from ensure_pgd_ok [OF vm room] obtain dm1 m1 where
    e: "ensure_pgd dm m = Some (dm1, m1)" "pgd dm1 \<noteq> 0" "tables_ok m1 (pgd dm1)" "3 \<le> card (free_frames m1)"
      "vm_ok m1 dm1" "n_kernel_pages dm1 + 3 \<le> int MAX_PROCESS_PAGES" "user_pages dm1 = user_pages dm"
      "n_user_pages dm1 = n_user_pages dm" "free_frames m1 \<subseteq> free_frames m"
    and tr1: "\<And>va. translation m1 dm1 va = translation m dm va" by blast
  let ?r = "pgd dm1"
  have shifts: "PGD_SHIFT = level_shift 0" "PUD_SHIFT = level_shift 1" "PMD_SHIFT = level_shift 2" "PAGE_SHIFT = level_shift 3"
    by (simp_all add: level_shift_def PGD_SHIFT_def PUD_SHIFT_def PMD_SHIFT_def PAGE_SHIFT_def)
  obtain pud c1 m2 where t1: "map_table (?r + VA_START) (level_shift 0) va m1 = (pud, c1, m2)" by (rule prod_cases3)
  have f1: "free_frames m1 \<noteq> {}" using e(4) by auto
  have r0: "tab m1 ?r va 0 = Some ?r" "(0 :: nat) < 3" by simp_all
  note A = map_table_ok [OF e(3) r0 f1 t1]
  obtain pmd c2 m3 where t2: "map_table (pud + VA_START) (level_shift 1) va m2 = (pmd, c2, m3)" by (rule prod_cases3)
  have f2: "free_frames m2 \<noteq> {}" using e(4) A(5) by auto
  have r1: "tab m2 ?r va 1 = Some pud" "(1 :: nat) < 3" using A(2) by (simp_all del: tab.simps)
  note B = map_table_ok [OF A(1) r1 f2 t2]
  obtain pte c3 m4 where t3: "map_table (pmd + VA_START) (level_shift 2) va m3 = (pte, c3, m4)" by (rule prod_cases3)
  have f3: "free_frames m3 \<noteq> {}" using e(4) A(5) B(5) by auto
  have r2: "tab m3 ?r va 2 = Some pmd" "(2 :: nat) < 3" using B(2) by (simp_all add: numeral_2_eq_2 del: tab.simps)
  note C = map_table_ok [OF B(1) r2 f3 t3]
  have r3: "tab m4 ?r va 3 = Some pte" using C(2) by (simp add: numeral_3_eq_3 numeral_2_eq_2 del: tab.simps)
  from track_if_ok [OF e(5) _ A(1), of c1 pud] e(6) obtain dm2 where
    d2: "track_if c1 pud dm1 = Some dm2" "vm_ok m2 dm2" "pgd dm2 = ?r" "n_kernel_pages dm2 \<le> n_kernel_pages dm1 + 1"
      "user_pages dm2 = user_pages dm1" "n_user_pages dm2 = n_user_pages dm1" by auto
  from track_if_ok [OF d2(2) _ B(1) [folded d2(3)], of c2 pmd] e(6) d2(4) obtain dm3 where
    d3: "track_if c2 pmd dm2 = Some dm3" "vm_ok m3 dm3" "pgd dm3 = ?r" "n_kernel_pages dm3 \<le> n_kernel_pages dm2 + 1"
      "user_pages dm3 = user_pages dm1" "n_user_pages dm3 = n_user_pages dm1" using d2 by auto
  from track_if_ok [OF d3(2) _ C(1) [folded d3(3)], of c3 pte] e(6) d2(4) d3(4) obtain dm4 where
    d4: "track_if c3 pte dm3 = Some dm4" "vm_ok m4 dm4" "pgd dm4 = ?r"
      "user_pages dm4 = user_pages dm1" "n_user_pages dm4 = n_user_pages dm1" using d3 by auto
  define m5 where "m5 = map_table_entry (pte + VA_START) va pa m4"
  have ph: "phys m5 = (phys m4)(slot pte va 3 := pa OR MMU_PTE_FLAGS)"
    by (simp add: m5_def map_table_entry_def store_def slot_def idx_def shifts)
  have ff5: "free_frames m5 = free_frames m4" by (simp add: m5_def map_table_entry_def store_def free_frames_def)
  note W = tab_write [OF C(1) r3 _ ph, simplified]
  have low: "tab m5 ?r va' k = tab m4 ?r va' k" if "k \<le> 3" for va' k
    using tab_write [OF C(1) r3 order.refl ph, of k va'] that by (simp only: if_True simp_thms)
  have ok5: "tables_ok m5 ?r" by (rule tables_ok_cong [OF low ff5 C(1)])
  let ?p = "\<lparr>physical_address = pa, virtual_address = va\<rparr>"
  let ?dm = "dm4\<lparr>user_pages := (user_pages dm4)[nat (n_user_pages dm4) := ?p], n_user_pages := n_user_pages dm4 + 1\<rparr>"
  have set': "array_set (user_pages dm4) (n_user_pages dm4) ?p = Some ((user_pages dm4)[nat (n_user_pages dm4) := ?p])"
    using vm room d4(4,5) e(7,8) by (simp add: array_set_def vm_ok_def vm_room_def)
  have mp: "map_page dm va pa m = Some (?dm, m5)"
    unfolding map_page_def e(1) Option.bind.simps prod.case Let_def shifts t1 d2(1) t2 d3(1) t3 d4(1) m5_def [symmetric] set' ..
  have four: "tab m5 ?r va' 4 = (if same_path va va' 4 then Some pa else tab m4 ?r va' 4)" for va'
    using tab_write [OF C(1) r3 order.refl ph, of 4 va'] pte_entry [OF pa]
    by (simp add: numeral_eq_Suc del: tab.simps split: if_splits)
  have keep: "tab m4 ?r va' 4 = tab m1 ?r va' 4" for va'
    using A(6) [of 4 va'] B(6) [of 4 va'] C(6) [of 4 va'] by (simp del: tab.simps same_path_simps)
  have "translation m5 ?dm va' = (if same_path va va' 4 then Some pa else translation m dm va')" for va'
    using four [of va'] keep [of va'] tr1 [of va'] e(2) d4(3) by (simp add: translation_def del: same_path_simps)
  moreover have "same_path va va 4" by (simp add: same_path_def)
  moreover have "vm_ok m5 ?dm" using d4(2,3,4) ok5 by (simp add: vm_ok_def)
  moreover have "free_frames m5 \<subseteq> free_frames m" using ff5 A(4) B(4) C(4) e(9) by blast
  ultimately show ?thesis using mp d4(4,5) e(7,8) by (intro exI [of _ ?dm] exI [of _ m5]) (simp del: same_path_simps)
qed

lemma take_bit_eq_bits: "take_bit n a = take_bit n b \<longleftrightarrow> (\<forall>k < n. bit a k = bit b k)" for a b :: ulong
proof
  assume e: "take_bit n a = take_bit n b"
  show "\<forall>k < n. bit a k = bit b k"
  proof (intro allI impI)
    fix k assume k: "k < n"
    have "bit (take_bit n a) k = bit (take_bit n b) k" using e by simp
    then show "bit a k = bit b k" using k by (simp add: bit_take_bit_iff)
  qed
next
  assume "\<forall>k < n. bit a k = bit b k"
  then show "take_bit n a = take_bit n b" by (intro bit_eqI) (auto simp: bit_take_bit_iff)
qed

text \<open>Two addresses take the same path exactly when they agree on the bits 12 to 47.\<close>

lemma same_path_page:
  "same_path va va' 4 \<longleftrightarrow> take_bit 36 (drop_bit 12 va) = take_bit 36 (drop_bit 12 va')"
proof -
  have e: "idx v d = take_bit 9 (drop_bit (level_shift d) v)" for v d
    by (simp add: idx_def table_index_def PTRS_PER_TABLE_def take_bit_eq_mask mask_eq_exp_minus_1)
  have i: "idx va d = idx va' d \<longleftrightarrow> (\<forall>k < 9. bit va (level_shift d + k) = bit va' (level_shift d + k))" for d
    unfolding e take_bit_eq_bits by (simp add: bit_drop_bit_eq)
  have r: "take_bit 36 (drop_bit 12 va) = take_bit 36 (drop_bit 12 va') \<longleftrightarrow> (\<forall>k < 36. bit va (12 + k) = bit va' (12 + k))"
    unfolding take_bit_eq_bits by (simp add: bit_drop_bit_eq)
  show ?thesis
    unfolding r same_path_def i
  proof (rule iffI; intro allI impI)
    fix k assume a: "\<forall>j < 4. \<forall>k < 9. bit va (level_shift j + k) = bit va' (level_shift j + k)" and k: "k < (36 :: nat)"
    let ?j = "3 - k div 9"
    define q r where "q = k div 9" and "r = k mod 9"
    have qr: "k = 9 * q + r" "r < 9" "q \<le> 3" using k by (auto simp: q_def r_def)
    then have "?j < 4" "k mod 9 < 9" "level_shift ?j + k mod 9 = 12 + k"
      unfolding q_def [symmetric] r_def [symmetric] level_shift_def by auto
    then show "bit va (12 + k) = bit va' (12 + k)" using a by metis
  next
    fix j k assume a: "\<forall>k < 36. bit va (12 + k) = bit va' (12 + k)" and "j < (4 :: nat)" "k < (9 :: nat)"
    then have "9 * (3 - j) + k < 36" "level_shift j + k = 12 + (9 * (3 - j) + k)" by (auto simp: level_shift_def)
    then show "bit va (level_shift j + k) = bit va' (level_shift j + k)" using a by metis
  qed
qed

end
