(* ===== verification/Fork.thy ===== *)
theory Fork
  imports Scheduler_Operations Page_Translation
begin

text \<open>
  Process creation, \<^verbatim>\<open>libs/fork.c\<close>, over the scheduler, the page allocator and the saved
  user registers. A PCB is at the start of its kernel page and the registers at its end; both are
  kept in typed stores next to the words of \<open>phys\<close>, and zeroing a fresh page for a PCB is
  zeroing its entry. \<open>ret_from_fork\<close> is the address of the assembly entry of a new process.
\<close>

record pt_regs =
  registers :: "ulong list"
  regs_sp :: ulong
  regs_pc :: ulong
  regs_pstate :: ulong

definition zero_regs :: pt_regs where
  "zero_regs = \<lparr>registers = replicate 31 0, regs_sp = 0, regs_pc = 0, regs_pstate = 0\<rparr>"

record kernel_state =
  sched :: sched_state
  mem :: mm_state
  user_regs :: "pcb_id \<Rightarrow> pt_regs"

definition PF_KTHREAD :: ulong where "PF_KTHREAD = 2"
definition PSR_MODE_EL0t :: ulong where "PSR_MODE_EL0t = 0"
definition THREAD_SIZE :: ulong where "THREAD_SIZE = 4096"
definition PT_REGS_SIZE :: ulong where "PT_REGS_SIZE = 272"

definition task_pt_regs :: "ulong \<Rightarrow> ulong" where
  "task_pt_regs process = process + THREAD_SIZE - PT_REGS_SIZE"

definition set_sched :: "(sched_state \<Rightarrow> sched_state) \<Rightarrow> kernel_state \<Rightarrow> kernel_state" where
  "set_sched f k = k\<lparr>sched := f (sched k)\<rparr>"

definition current_pcb :: "kernel_state \<Rightarrow> PCB" where
  "current_pcb k = heap (sched k) (current_process (sched k))"

text \<open>The page for the new PCB; it is zeroed by the allocator.\<close>

definition allocate_pcb :: "kernel_state \<Rightarrow> ulong \<times> kernel_state" where
  "allocate_pcb k =
     (let (page, m) = allocate_kernel_page (mem k);
          k1 = k\<lparr>mem := m\<rparr>
      in (page, if page = 0 then k1 else set_sched (upd_pcb (pcb_page page) (\<lambda>_. zero_pcb)) k1))"

text \<open>What the child runs: the given function, or a copy of the parent that returns 0.\<close>

definition start_child ::
  "ulong \<Rightarrow> ulong \<Rightarrow> ulong \<Rightarrow> pcb_id \<Rightarrow> kernel_state \<Rightarrow> kernel_state option" where
  "start_child clone_flags function argument new_process k =
     (if clone_flags AND PF_KTHREAD \<noteq> 0 then
        Some (set_sched (upd_pcb new_process (\<lambda>P.
          P\<lparr>cpu_context := (cpu_context P)\<lparr>x19 := function, x20 := argument\<rparr>\<rparr>)) k)
      else
        let current_registers = user_regs k (current_process (sched k));
            child_registers = current_registers\<lparr>registers := (registers current_registers)[0 := 0]\<rparr>;
            k1 = k\<lparr>user_regs := (user_regs k)(new_process := child_registers)\<rparr>
        in do {
          (_, dm, m) \<leftarrow> copy_virtual_memory (mm (current_pcb k1))
                          (mm (heap (sched k1) new_process)) (mem k1);
          Some (set_sched (upd_pcb new_process (\<lambda>P. P\<lparr>mm := dm\<rparr>)) (k1\<lparr>mem := m\<rparr>))
        })"

definition init_child :: "ulong \<Rightarrow> ulong \<Rightarrow> ulong \<Rightarrow> int \<Rightarrow> PCB \<Rightarrow> PCB \<Rightarrow> PCB" where
  "init_child ret_from_fork clone_flags page process_id parent P =
     P\<lparr>flags := clone_flags, priority := priority parent, state := PROCESS_READY, counter := 10,
       est_burst := est_burst parent, burst_ticks := 0, queue_priority := queue_priority parent,
       tickets := tickets parent, preempt_disabled := 1, pid := process_id,
       cpu_context := (cpu_context P)\<lparr>pc := ret_from_fork, sp := task_pt_regs page\<rparr>\<rparr>"

definition copy_process ::
  "ulong \<Rightarrow> ulong \<Rightarrow> ulong \<Rightarrow> ulong \<Rightarrow> kernel_state \<Rightarrow> (int \<times> kernel_state) option" where
  "copy_process ret_from_fork clone_flags function argument k = do {
     let k1 = set_sched preempt_disable k;
     let (page, k2) = allocate_pcb k1;
     let new_process = pcb_page page;
     if page = 0 \<or> n_processes (sched k2) \<ge> int N_PROCESSES then Some (-1, k2)
     else do {
       let k3 = k2\<lparr>user_regs := (user_regs k2)(new_process := zero_regs)\<rparr>;
       let k4 = set_sched (upd_pcb new_process (\<lambda>P.
                  P\<lparr>cpu_context := zero_context, files := replicate MAX_FILES_PER_PROCESS 0\<rparr>)) k3;
       k5 \<leftarrow> start_child clone_flags function argument new_process k4;
       let process_id = n_processes (sched k5);
       let k6 = set_sched (upd_pcb new_process
                  (init_child ret_from_fork clone_flags page process_id (current_pcb k5))) k5;
       (err, s) \<leftarrow> add_process_to_scheduler new_process (sched k6);
       if err < 0 then Some (-1, k6\<lparr>sched := s\<rparr>)
       else Some (process_id, set_sched preempt_enable (k6\<lparr>sched := s\<rparr>))
     }
   }"

text \<open>The code is copied into 16 fresh pages; a failed allocation is written through.\<close>

fun copy_code_loop ::
  "nat list \<Rightarrow> ulong \<Rightarrow> ulong \<Rightarrow> ulong \<Rightarrow> mm_struct \<Rightarrow> mm_state \<Rightarrow> (mm_struct \<times> mm_state) option" where
  "copy_code_loop [] buffer code_size copied_bytes dm m = Some (dm, m)"
| "copy_code_loop (i # is) buffer code_size copied_bytes dm m = do {
     (kernel_virtual_address, dm1, m1) \<leftarrow> allocate_user_page dm (of_nat i * PAGE_SIZE) m;
     if copied_bytes < code_size then
       (if kernel_virtual_address = 0 then None
        else
          let bytes_to_copy = (if code_size - copied_bytes > PAGE_SIZE then PAGE_SIZE
                               else code_size - copied_bytes);
              m2 = memcpy kernel_virtual_address (buffer + copied_bytes) bytes_to_copy m1
          in copy_code_loop is buffer code_size (copied_bytes + bytes_to_copy) dm1 m2)
     else copy_code_loop is buffer code_size copied_bytes dm1 m1
   }"

definition copy_code ::
  "ulong \<Rightarrow> ulong \<Rightarrow> mm_struct \<Rightarrow> mm_state \<Rightarrow> (mm_struct \<times> mm_state) option" where
  "copy_code buffer code_size dm m = copy_code_loop [0..<16] buffer code_size 0 dm m"

definition move_to_user_mode ::
  "ulong \<Rightarrow> ulong \<Rightarrow> ulong \<Rightarrow> kernel_state \<Rightarrow> (int \<times> kernel_state) option" where
  "move_to_user_mode start code_size program_counter k = do {
     let current = current_process (sched k);
     let regs = zero_regs\<lparr>regs_pstate := PSR_MODE_EL0t, regs_pc := program_counter,
                          regs_sp := 16 * PAGE_SIZE\<rparr>;
     let k1 = k\<lparr>user_regs := (user_regs k)(current := regs)\<rparr>;
     (dm, m) \<leftarrow> copy_code start code_size (mm (current_pcb k1)) (mem k1);
     let k2 = set_sched (upd_pcb current (\<lambda>P. P\<lparr>mm := dm\<rparr>)) (k1\<lparr>mem := m\<rparr>);
     Some (0, set_sched (set_pgd (pgd (mm (current_pcb k2)))) k2)
   }"


subsection \<open>A PCB outside the table can be written freely\<close>

lemma sched_inv_upd_unregistered:
  assumes inv: "sched_inv s rq mls" and p: "\<not> registered s p"
  shows "sched_inv (upd_pcb p f s) rq mls"
proof -
  have notin: "p \<notin> set rq" "\<And>xs. xs \<in> set mls \<Longrightarrow> p \<notin> set xs"
    using sched_invD(6) [OF inv, of p] p by auto
  have cur: "current_process s \<noteq> p" using sched_invD(4) [OF inv] p by auto
  have "queues (upd_pcb p f s) rq mls"
    using sched_invD(1) [OF inv] notin unfolding queues_def list_all2_conv_all_nth by simp
  moreover have "table_ok (upd_pcb p f s)"
  proof -
    have "x \<noteq> p" if "registered s x" for x using that p by auto
    moreover have "processes s ! i \<noteq> Some p" if "i < N_PROCESSES" for i
    proof -
      have "i < length (processes s)" using that table_okD(1) [OF sched_invD(2) [OF inv]] by simp
      then have "processes s ! i \<in> set (processes s)" by (rule nth_mem)
      then show ?thesis using p by (auto simp: registered_def)
    qed
    ultimately show ?thesis using sched_invD(2) [OF inv] unfolding table_ok_def registered_upd_pcb by simp
  qed
  moreover have "states_ok (upd_pcb p f s) rq mls"
    using sched_invD(3) [OF inv] p cur unfolding states_ok_def registered_upd_pcb by auto
  ultimately show ?thesis by (simp add: sched_inv_def)
qed

lemma set_sched_fields [simp]:
  "sched (set_sched f k) = f (sched k)" "mem (set_sched f k) = mem k" "user_regs (set_sched f k) = user_regs k"
  by (simp_all add: set_sched_def)

text \<open>Every registered PCB but \<open>init_process\<close> lives in a page of the allocator that is in use.\<close>

definition pcb_pages_ok :: "kernel_state \<Rightarrow> bool" where
  "pcb_pages_ok k \<longleftrightarrow>
     (\<forall>a. registered (sched k) (pcb_page a) \<longrightarrow>
        (\<exists>i < N_PAGES. a = frame i + VA_START \<and> i \<notin> free_frames (mem k)))"

lemma frame_not_VA:
  assumes "i < N_PAGES"
  shows "frame i + VA_START \<noteq> 0"
proof
  assume "frame i + VA_START = 0"
  then have "frame i = - VA_START" by (simp add: eq_neg_iff_add_eq_0)
  then have "uint (frame i) = uint (- VA_START)" by simp
  then show False using uint_frame [OF assms] assms by (simp add: VA_START_def N_PAGES_def)
qed

lemma allocate_pcb_ok:
  assumes "free_frames (mem k) \<noteq> {}" and pages: "pcb_pages_ok k"
  shows "\<exists>page k'. allocate_pcb k = (page, k') \<and> page \<noteq> 0 \<and> \<not> registered (sched k) (pcb_page page) \<and>
    sched k' = upd_pcb (pcb_page page) (\<lambda>_. zero_pcb) (sched k) \<and> user_regs k' = user_regs k \<and>
    pcb_pages_ok k' \<and> (\<exists>i < N_PAGES. page = frame i + VA_START \<and> i \<notin> free_frames (mem k'))"
proof -
  from get_free_page_ok [OF assms(1)] obtain i m where
    g: "get_free_page (mem k) = (frame i, m)" "i \<in> free_frames (mem k)" "free_frames m = free_frames (mem k) - {i}" by blast
  have iN: "i < N_PAGES" using g(2) by (simp add: free_frames_def)
  let ?p = "frame i + VA_START"
  let ?k = "set_sched (upd_pcb (pcb_page ?p) (\<lambda>_. zero_pcb)) (k\<lparr>mem := m\<rparr>)"
  have a: "allocate_pcb k = (?p, ?k)"
    using g(1) frame_nonzero [OF iN] frame_not_VA [OF iN] by (simp add: allocate_pcb_def allocate_kernel_page_def)
  have fresh: "\<not> registered (sched k) (pcb_page ?p)"
  proof
    assume "registered (sched k) (pcb_page ?p)"
    then obtain j where "j < N_PAGES" "?p = frame j + VA_START" "j \<notin> free_frames (mem k)"
      using pages unfolding pcb_pages_ok_def by blast
    then show False using g(2) frame_inj [OF iN] by simp
  qed
  have "pcb_pages_ok ?k" using pages g(3) unfolding pcb_pages_ok_def by auto
  then show ?thesis using a fresh frame_not_VA [OF iN] iN g(3) by auto
qed

text \<open>Creating a kernel thread, or the child of a process that has no pages.\<close>

lemma copy_process_created:
  assumes inv: "sched_inv (sched k) rq mls" and pages: "pcb_pages_ok k"
    and room: "free_frames (mem k) \<noteq> {}" "n_processes (sched k) < int N_PROCESSES"
    and kt: "clone_flags AND PF_KTHREAD \<noteq> 0 \<or> n_user_pages (mm (heap (sched k) (current_process (sched k)))) = 0"
  shows "\<exists>page k' rq' mls'. copy_process rff clone_flags func arg k = Some (n_processes (sched k), k') \<and>
    \<not> registered (sched k) (pcb_page page) \<and>
    sched_inv (sched k') rq' mls' \<and> queued rq' mls' = insert (pcb_page page) (queued rq mls) \<and>
    n_processes (sched k') = n_processes (sched k) + 1 \<and> current_process (sched k') = current_process (sched k) \<and>
    processes (sched k') = (processes (sched k))[nat (n_processes (sched k)) := Some (pcb_page page)]"
proof -
  let ?s = "sched k" and ?s1 = "preempt_disable (sched k)"
  let ?k1 = "set_sched preempt_disable k"
  have p1: "pcb_pages_ok ?k1" using pages unfolding pcb_pages_ok_def by simp
  have r1: "free_frames (mem ?k1) \<noteq> {}" using room by simp
  from allocate_pcb_ok [OF r1 p1] obtain page k2 where
    a: "allocate_pcb ?k1 = (page, k2)" "page \<noteq> 0" "\<not> registered ?s (pcb_page page)"
      "sched k2 = upd_pcb (pcb_page page) (\<lambda>_. zero_pcb) ?s1" by auto
  let ?new = "pcb_page page"
  have inv1: "sched_inv ?s1 rq mls" using inv by simp
  have n1: "\<not> registered ?s1 ?new" using a(3) by simp
  have cur: "current_process ?s \<noteq> ?new" using sched_invD(4) [OF inv] a(3) by auto
  obtain P U where six: "copy_process rff clone_flags func arg k =
     do { (err, s) \<leftarrow> add_process_to_scheduler ?new (upd_pcb ?new (\<lambda>_. P) ?s1);
          if err < 0 then Some (-1, k2\<lparr>user_regs := U, sched := s\<rparr>)
          else Some (n_processes ?s, k2\<lparr>user_regs := U, sched := preempt_enable s\<rparr>) }"
    and P: "pid P = n_processes ?s" "priority P = priority (heap ?s (current_process ?s))"
      "tickets P = tickets (heap ?s (current_process ?s))" "state P = PROCESS_READY"
  proof -
    let ?Q = "zero_pcb\<lparr>cpu_context := zero_context, files := replicate MAX_FILES_PER_PROCESS 0\<rparr>"
    let ?k4 = "k2\<lparr>user_regs := (user_regs k2)(?new := zero_regs), sched := upd_pcb ?new (\<lambda>_. ?Q) ?s1\<rparr>"
    have "\<exists>Q U. start_child clone_flags func arg ?new ?k4 = Some (k2\<lparr>user_regs := U, sched := upd_pcb ?new (\<lambda>_. Q) ?s1\<rparr>)"
    proof (cases "clone_flags AND PF_KTHREAD = 0")
      case True
      have m1: "mm (heap ?s1 x) = mm (heap ?s x)" for x by (simp add: preempt_disable_def)
      have "copy_virtual_memory (mm (heap ?s (current_process ?s))) dm m = Some (0, dm, m)" for dm m
        using kt True by (simp add: copy_virtual_memory_def)
      then show ?thesis using True cur by (simp add: start_child_def set_sched_def upd_pcb_def current_pcb_def Let_def m1) blast
    qed (auto simp: start_child_def set_sched_def upd_pcb_def)
    then obtain Q U where sc: "start_child clone_flags func arg ?new ?k4 = Some (k2\<lparr>user_regs := U, sched := upd_pcb ?new (\<lambda>_. Q) ?s1\<rparr>)" by blast
    let ?P = "init_child rff clone_flags page (n_processes ?s) (heap ?s1 (current_process ?s)) Q"
    have k4: "set_sched (upd_pcb ?new (\<lambda>P. P\<lparr>cpu_context := zero_context, files := replicate MAX_FILES_PER_PROCESS 0\<rparr>))
        (k2\<lparr>user_regs := (user_regs k2)(?new := zero_regs)\<rparr>) = ?k4"
      by (simp add: set_sched_def a(4) upd_pcb_def)
    have "copy_process rff clone_flags func arg k =
     do { (err, s) \<leftarrow> add_process_to_scheduler ?new (upd_pcb ?new (\<lambda>_. ?P) ?s1);
          if err < 0 then Some (-1, k2\<lparr>user_regs := U, sched := s\<rparr>)
          else Some (n_processes ?s, k2\<lparr>user_regs := U, sched := preempt_enable s\<rparr>) }"
      using room(2) a(2) cur unfolding copy_process_def Let_def a(1) prod.case k4 sc
      by (simp add: set_sched_def a(4) upd_pcb_def current_pcb_def cong del: if_weak_cong)
    then show ?thesis by (rule that) (simp_all add: init_child_def preempt_disable_def)
  qed
  let ?t = "upd_pcb ?new (\<lambda>_. P) ?s1"
  have invt: "sched_inv ?t rq mls" by (rule sched_inv_upd_unregistered [OF inv1 n1])
  have tab: "table_ok ?s" by (rule sched_invD(2) [OF inv])
  note B = table_okD(4,5) [OF tab sched_invD(4) [OF inv]]
  have fr: "fresh ?t ?new" using n1 P B by (simp add: fresh_def)
  have room': "\<not> n_processes ?t \<ge> int N_PROCESSES" using room(2) by simp
  from add_process_ok [OF invt fr] obtain u rq' mls' where
    u: "add_process_to_scheduler ?new ?t = Some (0, u)" "sched_inv u rq' mls'"
      "queued rq' mls' = queued rq mls \<union> (if state (heap ?t ?new) = PROCESS_READY then {?new} else {})"
      "n_processes u = n_processes ?t + 1" "processes u = (processes ?t)[nat (n_processes ?t) := Some ?new]"
      "current_process u = current_process ?t"
    unfolding if_not_P [OF room'] by blast
  let ?k' = "k2\<lparr>user_regs := U, sched := preempt_enable u\<rparr>"
  have res: "copy_process rff clone_flags func arg k = Some (n_processes ?s, ?k')" unfolding six u(1) by simp
  have "queued rq' mls' = insert ?new (queued rq mls)" using u(3) P(4) by simp
  then show ?thesis
    using res a(3) u by (intro exI [of _ page] exI [of _ ?k'] exI [of _ rq'] exI [of _ mls']) simp
qed

text \<open>The failing exits return with preemption still disabled.\<close>

lemma copy_process_no_page:
  assumes "free_frames (mem k) = {}"
  shows "copy_process rff clone_flags func arg k = Some (-1, set_sched preempt_disable k)"
  using assms get_free_page_none
  by (simp add: copy_process_def allocate_pcb_def allocate_kernel_page_def)

lemma copy_process_full_table:
  assumes "free_frames (mem k) \<noteq> {}" "pcb_pages_ok k" "n_processes (sched k) \<ge> int N_PROCESSES"
  shows "\<exists>k'. copy_process rff clone_flags func arg k = Some (-1, k') \<and>
    (\<forall>p. registered (sched k) p \<longrightarrow> heap (sched k') p = heap (preempt_disable (sched k)) p)"
proof -
  let ?k1 = "set_sched preempt_disable k"
  have "pcb_pages_ok ?k1" "free_frames (mem ?k1) \<noteq> {}" using assms unfolding pcb_pages_ok_def by simp_all
  from allocate_pcb_ok [OF this(2,1)] obtain page k2 where
    a: "allocate_pcb ?k1 = (page, k2)" "page \<noteq> 0" "\<not> registered (sched k) (pcb_page page)"
      "sched k2 = upd_pcb (pcb_page page) (\<lambda>_. zero_pcb) (preempt_disable (sched k))" by auto
  have "copy_process rff clone_flags func arg k = Some (-1, k2)"
    using assms(3) a(2,4) unfolding copy_process_def Let_def a(1) by simp
  moreover have "heap (sched k2) p = heap (preempt_disable (sched k)) p" if "registered (sched k) p" for p
    using a(3,4) that by auto
  ultimately show ?thesis by blast
qed

end
