(* ===== verification/CString.thy ===== *)
theory CString
  imports Kernel_Prelude
begin

text \<open>
  The string routines of \<^verbatim>\<open>common/string.c\<close>. A \<^verbatim>\<open>char*\<close> is the list of the
  characters from the pointer to the end of the object it points into; \<open>None\<close> is a read or write
  past that end. The lemmas relate each routine to \<open>c_string\<close>, the text before the terminator, and
  say exactly when a routine stays inside its buffers.
\<close>

abbreviation NUL :: char where "NUL \<equiv> CHR 0x00"

subsection \<open>The routines\<close>

fun strlen :: "char list \<Rightarrow> nat option" where
  "strlen [] = None"
| "strlen (c # cs) = (if c = NUL then Some 0 else do { n \<leftarrow> strlen cs; Some (n + 1) })"

text \<open>\<open>dest\<close> is updated in place: the result is the whole object, its tail untouched.\<close>

fun strcpy :: "char list \<Rightarrow> char list \<Rightarrow> char list option" where
  "strcpy dest [] = None"
| "strcpy [] (c # cs) = None"
| "strcpy (d # ds) (c # cs) =
     (if c = NUL then Some (NUL # ds) else do { ds' \<leftarrow> strcpy ds cs; Some (c # ds') })"

fun strcat :: "char list \<Rightarrow> char list \<Rightarrow> char list option" where
  "strcat [] src = None"
| "strcat (d # ds) src =
     (if d = NUL then strcpy (d # ds) src else do { ds' \<leftarrow> strcat ds src; Some (d # ds') })"

definition line_end :: "char \<Rightarrow> bool" where
  "line_end c \<longleftrightarrow> c = NUL \<or> c = CHR 0x0D \<or> c = CHR 0x0A"

text \<open>The inner loop of \<^verbatim>\<open>strsplit\<close>: the rest of the line goes to \<^verbatim>\<open>dest2\<close>, with no
  terminator.\<close>

fun strsplit_rest :: "char list \<Rightarrow> char list \<Rightarrow> char list option" where
  "strsplit_rest [] dest2 = None"
| "strsplit_rest (c # cs) dest2 =
     (if line_end c then Some dest2
      else case dest2 of
             [] \<Rightarrow> None
           | _ # ds \<Rightarrow> do { ds' \<leftarrow> strsplit_rest cs ds; Some (c # ds') })"

fun strsplit :: "char list \<Rightarrow> char \<Rightarrow> char list \<Rightarrow> char list \<Rightarrow> (char list \<times> char list) option" where
  "strsplit [] delimiter dest1 dest2 = None"
| "strsplit (c # cs) delimiter dest1 dest2 =
     (if line_end c then Some (dest1, dest2)
      else case dest1 of
             [] \<Rightarrow> None
           | _ # ds \<Rightarrow>
               if c = delimiter
               then do { dest2' \<leftarrow> strsplit_rest cs dest2; Some (NUL # ds, dest2') }
               else do { (ds', dest2') \<leftarrow> strsplit cs delimiter ds dest2; Some (c # ds', dest2') })"

fun strcmp_loop :: "char list \<Rightarrow> char list \<Rightarrow> nat \<Rightarrow> int option" where
  "strcmp_loop src1 src2 0 = Some 0"
| "strcmp_loop (a # as) (b # bs) (Suc n) = (if a \<noteq> b then Some 1 else strcmp_loop as bs n)"
| "strcmp_loop _ _ (Suc n) = None"

definition strcmp :: "char list \<Rightarrow> char list \<Rightarrow> int \<Rightarrow> int option" where
  "strcmp src1 src2 len = strcmp_loop src1 src2 (nat len)"

subsection \<open>What they compute\<close>

definition c_string :: "char list \<Rightarrow> char list" where
  "c_string buf = takeWhile (\<lambda>c. c \<noteq> NUL) buf"

definition terminated :: "char list \<Rightarrow> bool" where
  "terminated buf \<longleftrightarrow> NUL \<in> set buf"

lemma c_string_simps [simp]:
  "c_string [] = []" "c_string (c # cs) = (if c = NUL then [] else c # c_string cs)"
  by (simp_all add: c_string_def)

lemma terminated_simps [simp]:
  "\<not> terminated []" "terminated (c # cs) \<longleftrightarrow> c = NUL \<or> terminated cs"
  by (auto simp: terminated_def)

lemma c_string_NUL [simp]: "c_string (xs @ NUL # ys) = c_string xs"
  by (induction xs) auto

lemma c_string_no_NUL: "NUL \<notin> set (c_string buf)"
  by (induction buf) auto

lemma c_string_idem [simp]: "c_string (c_string buf) = c_string buf"
  by (induction buf) auto

lemma strlen_exact: "strlen buf = (if terminated buf then Some (length (c_string buf)) else None)"
  by (induction buf) auto

text \<open>Copying stays in bounds exactly when the text and its terminator fit.\<close>

lemma strcpy_exact:
  "strcpy dest src =
     (if terminated src \<and> length (c_string src) < length dest
      then Some (c_string src @ NUL # drop (Suc (length (c_string src))) dest) else None)"
  by (induction dest src rule: strcpy.induct) auto

lemma strcat_exact:
  "strcat dest src =
     (if terminated dest \<and> terminated src \<and> length (c_string dest) + length (c_string src) < length dest
      then Some (c_string dest @ c_string src @
                 NUL # drop (Suc (length (c_string dest) + length (c_string src))) dest)
      else None)"
  by (induction dest) (auto simp: strcpy_exact)

lemma strcpy_length: "strcpy dest src = Some out \<Longrightarrow> length out = length dest"
  by (auto simp: strcpy_exact split: if_splits)

lemma strcpy_text: "strcpy dest src = Some out \<Longrightarrow> c_string out = c_string src \<and> terminated out"
  by (auto simp: strcpy_exact terminated_def split: if_splits)

text \<open>A line is the text before its end; splitting cuts it at the first delimiter.\<close>

definition line :: "char list \<Rightarrow> char list" where
  "line src = takeWhile (\<lambda>c. \<not> line_end c) src"

lemma line_simps [simp]:
  "line [] = []" "line (c # cs) = (if line_end c then [] else c # line cs)"
  by (simp_all add: line_def)

definition has_end :: "char list \<Rightarrow> bool" where
  "has_end src \<longleftrightarrow> (\<exists>c \<in> set src. line_end c)"

lemma has_end_simps [simp]: "\<not> has_end []" "has_end (c # cs) \<longleftrightarrow> line_end c \<or> has_end cs"
  by (auto simp: has_end_def)

lemma strsplit_rest_exact:
  "strsplit_rest src dest2 =
     (if has_end src \<and> length (line src) \<le> length dest2
      then Some (line src @ drop (length (line src)) dest2) else None)"
  by (induction src dest2 rule: strsplit_rest.induct) (auto split: list.split)

definition split_at :: "char \<Rightarrow> char list \<Rightarrow> char list \<times> char list option" where
  "split_at d cs =
     (takeWhile (\<lambda>c. c \<noteq> d) cs,
      case dropWhile (\<lambda>c. c \<noteq> d) cs of [] \<Rightarrow> None | _ # rest \<Rightarrow> Some rest)"

lemma split_at_simps [simp]:
  "split_at d [] = ([], None)"
  "split_at d (c # cs) = (if c = d then ([], Some cs) else (c # fst (split_at d cs), snd (split_at d cs)))"
  by (simp_all add: split_at_def)

lemma strsplit_exact:
  "strsplit src d dest1 dest2 =
     (if has_end src then
        (case split_at d (line src) of
           (a, None) \<Rightarrow>
             if length a \<le> length dest1 then Some (a @ drop (length a) dest1, dest2) else None
         | (a, Some b) \<Rightarrow>
             if length a < length dest1 \<and> length b \<le> length dest2
             then Some (a @ NUL # drop (Suc (length a)) dest1, b @ drop (length b) dest2) else None)
      else None)"
proof (induction src d dest1 dest2 rule: strsplit.induct)
  case (1 delimiter dest1 dest2)
  then show ?case by simp
next
  case (2 c cs delimiter dest1 dest2)
  show ?case
  proof (cases "line_end c \<or> dest1 = []")
    case True
    then show ?thesis by (cases "c = delimiter"; cases "line_end c") (auto split: option.splits)
  next
    case False
    then obtain d ds where dest1: "dest1 = d # ds" by (cases dest1) auto
    show ?thesis
    proof (cases "c = delimiter")
      case True
      then show ?thesis using False dest1 by (auto simp: strsplit_rest_exact)
    next
      case ne: False
      then show ?thesis using False dest1 "2.IH" [of d ds]
        by (cases "snd (split_at delimiter (line cs))") (auto simp: case_prod_beta' split: option.splits)
    qed
  qed
qed

text \<open>On zeroed buffers both parts are terminated texts.\<close>

lemma c_string_no_end:
  assumes "NUL \<notin> set a"
  shows "c_string (a @ NUL # r) = a"
  using assms by (induction a) auto

lemma line_no_NUL: "NUL \<notin> set (line src)"
  by (induction src) (auto simp: line_end_def)

lemma strcmp_loop_exact:
  "n \<le> length a \<Longrightarrow> n \<le> length b \<Longrightarrow> strcmp_loop a b n = Some (if take n a = take n b then 0 else 1)"
  by (induction a b n rule: strcmp_loop.induct) auto

end
