(* ===== verification/Messages.thy ===== *)
theory Messages
  imports Scheduler_Operations CString
begin

text \<open>
  Inter-process communication, \<^verbatim>\<open>libs/ipc.c\<close>: the message buffer of each PCB, sending,
  receiving, and signals. A blocking loop calls \<^verbatim>\<open>schedule\<close>, after which other processes run
  until this one is dispatched again; what they do to the state is the argument \<open>others\<close> of
  the loop. The uninitialised stack space a message body is copied into is an argument as well.
\<close>

subsection \<open>The buffer\<close>

definition push_message :: "pcb_id \<Rightarrow> Message \<Rightarrow> sched_state \<Rightarrow> (int \<times> sched_state) option" where
  "push_message owner message s =
     (let buffer = messages_buffer (heap s owner);
          next_head0 = mb_head buffer + 1;
          next_head = (if next_head0 > int MAX_MESSAGES_PER_PROCESS then 0 else next_head0)
      in if next_head = mb_tail buffer then Some (-1, s)
      else do {
        slots \<leftarrow> array_set (mb_buffer buffer) (mb_head buffer) message;
        let s1 = upd_pcb owner
                   (\<lambda>P. P\<lparr>messages_buffer := buffer\<lparr>mb_buffer := slots, mb_head := next_head\<rparr>\<rparr>) s;
        destination \<leftarrow> destination_process message;
        if state (heap s1 destination) = PROCESS_WAITING_TO_RECEIVE_MESSAGE
        then do {
          s2 \<leftarrow> enqueue_process (Some destination)
                  (upd_pcb destination (\<lambda>P. P\<lparr>state := PROCESS_READY\<rparr>) s1);
          Some (0, s2)
        }
        else Some (0, s1)
      })"

definition pop_message :: "pcb_id \<Rightarrow> Message \<Rightarrow> sched_state \<Rightarrow> (int \<times> Message \<times> sched_state) option" where
  "pop_message owner message s =
     (let buffer = messages_buffer (heap s owner) in
      if mb_head buffer = mb_tail buffer then Some (-1, message, s)
      else
        let next_tail0 = mb_tail buffer + 1;
            next_tail = (if next_tail0 > int MAX_MESSAGES_PER_PROCESS then 0 else next_tail0)
        in do {
          slot \<leftarrow> array_get (mb_buffer buffer) (mb_tail buffer);
          text \<leftarrow> strcpy (body message) (body slot);
          Some (0, message\<lparr>source_process := source_process slot,
                           destination_process := destination_process slot, body := text\<rparr>,
                upd_pcb owner (\<lambda>P. P\<lparr>messages_buffer := buffer\<lparr>mb_tail := next_tail\<rparr>\<rparr>) s)
        })"

subsection \<open>Sending and receiving\<close>

partial_function (option) send_loop ::
  "(sched_state \<Rightarrow> sched_state) \<Rightarrow> pcb_id \<Rightarrow> pcb_id \<Rightarrow> Message \<Rightarrow> sched_state \<Rightarrow> sched_state option" where
  "send_loop others source destination message s = do {
     (push_ok, s1) \<leftarrow> push_message destination message s;
     s2 \<leftarrow> (if push_ok = -1
            then do {
              s' \<leftarrow> schedule (upd_pcb source (\<lambda>P. P\<lparr>state := PROCESS_WAITING_TO_SEND_MESSAGE\<rparr>) s1);
              Some (others s')
            } else Some s1);
     if push_ok \<noteq> 0 then send_loop others source destination message s2 else Some s2
   }"

definition send_message ::
  "(sched_state \<Rightarrow> sched_state) \<Rightarrow> char list \<Rightarrow> pcb_id \<Rightarrow> pcb_id \<Rightarrow> char list \<Rightarrow> sched_state \<Rightarrow>
   (int \<times> sched_state) option" where
  "send_message others stack_body source destination text s = do {
     text' \<leftarrow> strcpy stack_body text;
     s' \<leftarrow> send_loop others source destination
             \<lparr>source_process = Some (current_process s), destination_process = Some destination,
              body = text'\<rparr> s;
     Some (0, s')
   }"

partial_function (option) receive_loop ::
  "(sched_state \<Rightarrow> sched_state) \<Rightarrow> pcb_id \<Rightarrow> Message \<Rightarrow> sched_state \<Rightarrow> (Message \<times> sched_state) option" where
  "receive_loop others destination message s = do {
     (pop_ok, message', s1) \<leftarrow> pop_message destination message s;
     if pop_ok = 0 then Some (message', s1)
     else do {
       s' \<leftarrow> schedule (upd_pcb (current_process s1)
               (\<lambda>P. P\<lparr>state := PROCESS_WAITING_TO_RECEIVE_MESSAGE\<rparr>) s1);
       receive_loop others destination message' (others s')
     }
   }"

definition receive_message ::
  "(sched_state \<Rightarrow> sched_state) \<Rightarrow> Message \<Rightarrow> pcb_id \<Rightarrow> char list \<Rightarrow> sched_state \<Rightarrow>
   (char list \<times> sched_state) option" where
  "receive_message others stack_message destination buf s = do {
     (received, s1) \<leftarrow> receive_loop others destination stack_message s;
     buf' \<leftarrow> strcpy buf (body received);
     s2 \<leftarrow> foldM (wake_if PROCESS_WAITING_TO_SEND_MESSAGE) (processes s1) s1;
     Some (buf', s2)
   }"

text \<open>Setting a signal bit. The flag comes from user space; a shift by it is defined only inside the
  width of \<^verbatim>\<open>int\<close>.\<close>

definition send_signal :: "pcb_id \<Rightarrow> int \<Rightarrow> sched_state \<Rightarrow> (int \<times> sched_state) option" where
  "send_signal destination signal_flag s =
     (if 0 \<le> signal_flag \<and> signal_flag < 32
      then Some (0, upd_pcb destination
             (\<lambda>P. P\<lparr>pending_signals := pending_signals P OR push_bit (nat signal_flag) 1\<rparr>) s)
      else None)"

subsection \<open>The buffer is a queue until its indices wrap\<close>

text \<open>The messages between tail and head, for a buffer whose head has not wrapped yet.\<close>

definition unwrapped :: "MessagesCircularBuffer \<Rightarrow> bool" where
  "unwrapped b \<longleftrightarrow> length (mb_buffer b) = MAX_MESSAGES_PER_PROCESS \<and>
     0 \<le> mb_tail b \<and> mb_tail b \<le> mb_head b \<and> mb_head b \<le> int MAX_MESSAGES_PER_PROCESS"

definition contents :: "MessagesCircularBuffer \<Rightarrow> Message list" where
  "contents b = drop (nat (mb_tail b)) (take (nat (mb_head b)) (mb_buffer b))"

lemma empty_unwrapped: "unwrapped empty_messages_buffer" "contents empty_messages_buffer = []"
  by (simp_all add: unwrapped_def empty_messages_buffer_def contents_def)

lemma contents_push:
  fixes m :: Message
  assumes "unwrapped b" "mb_head b < int MAX_MESSAGES_PER_PROCESS"
  defines "b' \<equiv> b\<lparr>mb_buffer := (mb_buffer b)[nat (mb_head b) := m], mb_head := mb_head b + 1\<rparr>"
  shows "contents b' = contents b @ [m]" "unwrapped b'"
proof -
  have h: "nat (mb_head b + 1) = Suc (nat (mb_head b))" "nat (mb_head b) < length (mb_buffer b)"
    "nat (mb_tail b) \<le> nat (mb_head b)"
    using assms(1,2) by (auto simp: unwrapped_def)
  have "take (Suc (nat (mb_head b))) ((mb_buffer b)[nat (mb_head b) := m]) = take (nat (mb_head b)) (mb_buffer b) @ [m]"
    using h(2) by (simp add: take_Suc_conv_app_nth)
  then show "contents b' = contents b @ [m]" using h by (simp add: contents_def b'_def)
  show "unwrapped b'" using assms(1,2) by (simp add: unwrapped_def b'_def)
qed

lemma contents_pop:
  assumes "unwrapped b" "mb_tail b < mb_head b"
  shows "contents b = mb_buffer b ! nat (mb_tail b) # contents (b\<lparr>mb_tail := mb_tail b + 1\<rparr>)"
    "unwrapped (b\<lparr>mb_tail := mb_tail b + 1\<rparr>)"
proof -
  let ?t = "nat (mb_tail b)" and ?xs = "take (nat (mb_head b)) (mb_buffer b)"
  have t: "?t < length ?xs" "nat (mb_tail b + 1) = Suc ?t" "?xs ! ?t = mb_buffer b ! ?t"
    using assms by (auto simp: unwrapped_def)
  then show "contents b = mb_buffer b ! nat (mb_tail b) # contents (b\<lparr>mb_tail := mb_tail b + 1\<rparr>)"
    using Cons_nth_drop_Suc [OF t(1)] by (simp add: contents_def)
  show "unwrapped (b\<lparr>mb_tail := mb_tail b + 1\<rparr>)" using assms by (simp add: unwrapped_def)
qed

subsection \<open>Pushing and popping\<close>

abbreviation buffer_of :: "sched_state \<Rightarrow> pcb_id \<Rightarrow> MessagesCircularBuffer" where
  "buffer_of s p \<equiv> messages_buffer (heap s p)"

lemma link_free_buffer [simp]: "link_free (\<lambda>P. P\<lparr>messages_buffer := b\<rparr>)"
  by (simp add: link_free_def)

lemma push_ok:
  assumes inv: "sched_inv s rq mls" and dest: "registered s p" "destination_process m = Some p"
    and b: "unwrapped (buffer_of s p)" "mb_head (buffer_of s p) < int MAX_MESSAGES_PER_PROCESS"
  shows "\<exists>t rq' mls'. push_message p m s = Some (0, t) \<and> sched_inv t rq' mls' \<and>
    unwrapped (buffer_of t p) \<and> contents (buffer_of t p) = contents (buffer_of s p) @ [m] \<and>
    (\<forall>x. state (heap t x) =
       (if x = p \<and> state (heap s p) = PROCESS_WAITING_TO_RECEIVE_MESSAGE then PROCESS_READY
        else state (heap s x))) \<and>
    processes t = processes s \<and> current_process t = current_process s"
proof -
  let ?b = "buffer_of s p"
  let ?slots = "(mb_buffer ?b)[nat (mb_head ?b) := m]"
  let ?b' = "?b\<lparr>mb_buffer := ?slots, mb_head := mb_head ?b + 1\<rparr>"
  let ?s1 = "upd_pcb p (\<lambda>P. P\<lparr>messages_buffer := ?b'\<rparr>) s"
  note C = contents_push [OF b, of m]
  have nh: "\<not> mb_head ?b + 1 > int MAX_MESSAGES_PER_PROCESS" "mb_head ?b + 1 \<noteq> mb_tail ?b"
    using b by (auto simp: unwrapped_def)
  have set': "array_set (mb_buffer ?b) (mb_head ?b) m = Some ?slots"
    using b by (simp add: array_set_def unwrapped_def)
  have inv1: "sched_inv ?s1 rq mls" using inv by (subst sched_inv_upd) simp_all
  have push: "push_message p m s =
      (if state (heap s p) = PROCESS_WAITING_TO_RECEIVE_MESSAGE
       then do { s2 \<leftarrow> enqueue_process (Some p) (upd_pcb p set_ready ?s1); Some (0, s2) }
       else Some (0, ?s1))"
    using nh set' dest(2) by (simp add: push_message_def Let_def)
  show ?thesis
  proof (cases "state (heap s p) = PROCESS_WAITING_TO_RECEIVE_MESSAGE")
    case False
    have "buffer_of ?s1 p = ?b'" by simp
    then have "unwrapped (buffer_of ?s1 p)" "contents (buffer_of ?s1 p) = contents ?b @ [m]" using C by simp_all
    then show ?thesis using push False inv1 by fastforce
  next
    case True
    have "registered ?s1 p" "state (heap ?s1 p) \<noteq> PROCESS_READY" using dest True by simp_all
    from wake_blocked [OF inv1 this] obtain t rq' mls' where
      t: "enqueue_process (Some p) (upd_pcb p set_ready ?s1) = Some t" "sched_inv t rq' mls'"
        "view t = upd_pcb p set_ready (view ?s1)" by blast
    have "buffer_of t p = ?b'" "\<forall>x. state (heap t x) = (if x = p then PROCESS_READY else state (heap s x))"
      using arg_cong [OF t(3), of "\<lambda>v. buffer_of v p"] arg_cong [OF t(3), of "\<lambda>v. (\<lambda>x. state (heap v x))"]
      by (auto simp: fun_eq_iff)
    moreover have "processes t = processes s" "current_process t = current_process s"
      using arg_cong [OF t(3), of processes] arg_cong [OF t(3), of current_process] by simp_all
    ultimately show ?thesis using push True t(1,2) C by auto
  qed
qed

lemma push_full:
  assumes "mb_head (buffer_of s p) = 4" "mb_tail (buffer_of s p) = 0"
  shows "push_message p m s = Some (-1, s)"
  using assms by (simp add: push_message_def MAX_MESSAGES_PER_PROCESS_def)

lemma push_past_end:
  assumes "length (mb_buffer (buffer_of s p)) = MAX_MESSAGES_PER_PROCESS"
    "mb_head (buffer_of s p) = 4" "mb_tail (buffer_of s p) \<noteq> 0"
  shows "push_message p m s = None"
  using assms by (simp add: push_message_def array_set_def MAX_MESSAGES_PER_PROCESS_def Let_def)

lemma pop_ok:
  assumes b: "unwrapped (buffer_of s p)" and c: "contents (buffer_of s p) = m # ms"
    and fits: "terminated (body m)" "length (c_string (body m)) < length (body out)"
  shows "\<exists>r t. pop_message p out s = Some (0, r, t) \<and> source_process r = source_process m \<and>
    destination_process r = destination_process m \<and> c_string (body r) = c_string (body m) \<and>
    unwrapped (buffer_of t p) \<and> contents (buffer_of t p) = ms \<and>
    t = upd_pcb p (\<lambda>P. P\<lparr>messages_buffer := (buffer_of s p)\<lparr>mb_tail := mb_tail (buffer_of s p) + 1\<rparr>\<rparr>) s"
proof -
  let ?b = "buffer_of s p"
  have lt: "mb_tail ?b < mb_head ?b"
    using b c by (cases "mb_tail ?b < mb_head ?b") (auto simp: contents_def unwrapped_def)
  note P = contents_pop [OF b lt]
  have m: "mb_buffer ?b ! nat (mb_tail ?b) = m" "contents (?b\<lparr>mb_tail := mb_tail ?b + 1\<rparr>) = ms"
    using P(1) c by simp_all
  have get: "array_get (mb_buffer ?b) (mb_tail ?b) = Some m"
    using b lt m(1) by (simp add: array_get_def unwrapped_def)
  obtain copied where copied: "strcpy (body out) (body m) = Some copied" "c_string copied = c_string (body m)"
  proof -
    obtain c where c: "strcpy (body out) (body m) = Some c" using fits by (simp add: strcpy_exact)
    then show ?thesis using that strcpy_text [OF c] by blast
  qed
  have "\<not> mb_tail ?b + 1 > int MAX_MESSAGES_PER_PROCESS" using b lt by (simp add: unwrapped_def)
  then have "pop_message p out s = Some (0,
      out\<lparr>source_process := source_process m, destination_process := destination_process m, body := copied\<rparr>,
      upd_pcb p (\<lambda>P. P\<lparr>messages_buffer := ?b\<lparr>mb_tail := mb_tail ?b + 1\<rparr>\<rparr>) s)"
    using lt get copied(1) by (simp add: pop_message_def Let_def)
  then show ?thesis using copied(2) P(2) m(2) by simp
qed

lemma pop_empty:
  "unwrapped (buffer_of s p) \<Longrightarrow> contents (buffer_of s p) = [] \<Longrightarrow> pop_message p out s = Some (-1, out, s)"
proof -
  assume b: "unwrapped (buffer_of s p)" "contents (buffer_of s p) = []"
  then have "mb_head (buffer_of s p) = mb_tail (buffer_of s p)" by (auto simp: contents_def unwrapped_def)
  then show ?thesis by (simp add: pop_message_def)
qed

subsection \<open>Receiving\<close>

text \<open>The wake-up loop after a receive visits all slots of the table.\<close>

lemma foldM_wake_None: "None \<in> set es \<Longrightarrow> foldM (wake_if st) es s = None"
  by (induction es arbitrary: s) (auto simp: wake_if_def split: Option.bind_splits option.splits)

lemma receive_needs_full_table:
  assumes "receive_loop others p out s = Some (r, t)" "None \<in> set (processes t)"
  shows "receive_message others out p buf s = None"
  using assms by (auto simp: receive_message_def foldM_wake_None split: Option.bind_split)

lemma receive_loop_ready:
  assumes "pop_message p out s = Some (0, r, t)"
  shows "receive_loop others p out s = Some (r, t)"
  using assms by (subst receive_loop.simps) simp

subsection \<open>The two calls on a mailbox\<close>

text \<open>The texts that wait in a mailbox, whose bodies are the arrays of 256 characters of \<^verbatim>\<open>struct Message\<close>.\<close>

definition texts :: "MessagesCircularBuffer \<Rightarrow> char list list" where
  "texts b = map (\<lambda>m. c_string (body m)) (contents b)"

definition bodies_ok :: "MessagesCircularBuffer \<Rightarrow> bool" where
  "bodies_ok b \<longleftrightarrow> (\<forall>m \<in> set (contents b). terminated (body m) \<and> length (body m) = MAX_MESSAGES_BODY_SIZE)"

lemma c_string_shorter: "terminated buf \<Longrightarrow> length (c_string buf) < length buf"
  by (induction buf) auto

lemma send_message_ok:
  assumes inv: "sched_inv s rq mls" and dest: "registered s p"
    and b: "unwrapped (buffer_of s p)" "mb_head (buffer_of s p) < int MAX_MESSAGES_PER_PROCESS" "bodies_ok (buffer_of s p)"
    and msg: "terminated text" "length (c_string text) < MAX_MESSAGES_BODY_SIZE"
    and stack: "length stack_body = MAX_MESSAGES_BODY_SIZE"
  shows "\<exists>t rq' mls'. send_message others stack_body source p text s = Some (0, t) \<and> sched_inv t rq' mls' \<and>
    unwrapped (buffer_of t p) \<and> bodies_ok (buffer_of t p) \<and> texts (buffer_of t p) = texts (buffer_of s p) @ [c_string text] \<and>
    processes t = processes s \<and> current_process t = current_process s"
proof -
  obtain copied where copied: "strcpy stack_body text = Some copied" using msg stack by (simp add: strcpy_exact)
  note c = strcpy_text [OF copied] strcpy_length [OF copied]
  let ?m = "\<lparr>source_process = Some (current_process s), destination_process = Some p, body = copied\<rparr>"
  from push_ok [OF inv dest _ b(1,2), of ?m] obtain t rq' mls' where
    t: "push_message p ?m s = Some (0, t)" "sched_inv t rq' mls'" "unwrapped (buffer_of t p)"
      "contents (buffer_of t p) = contents (buffer_of s p) @ [?m]" "processes t = processes s" "current_process t = current_process s"
    by auto
  have "send_loop others source p ?m s = Some t" using t(1) by (subst send_loop.simps) simp
  then have "send_message others stack_body source p text s = Some (0, t)" by (simp add: send_message_def copied)
  moreover have "bodies_ok (buffer_of t p)" "texts (buffer_of t p) = texts (buffer_of s p) @ [c_string text]"
    using b(3) c stack by (auto simp: bodies_ok_def texts_def t(4))
  ultimately show ?thesis using t by blast
qed

text \<open>Receiving, with the process table full, as the wake-up loop needs it.\<close>

lemma receive_message_ok:
  assumes inv: "sched_inv s rq mls" and full: "None \<notin> set (processes s)"
    and b: "unwrapped (buffer_of s p)" "bodies_ok (buffer_of s p)" "texts (buffer_of s p) = x # xs"
    and out: "length (body out) = MAX_MESSAGES_BODY_SIZE" and buf: "length buf = MAX_MESSAGES_BODY_SIZE"
  shows "\<exists>buf' t. receive_message others out p buf s = Some (buf', t) \<and> c_string buf' = x \<and>
    unwrapped (buffer_of t p) \<and> bodies_ok (buffer_of t p) \<and> texts (buffer_of t p) = xs \<and>
    (\<forall>q. registered s q \<longrightarrow> state (heap t q) =
       (if state (heap s q) = PROCESS_WAITING_TO_SEND_MESSAGE then PROCESS_READY else state (heap s q)))"
proof -
  obtain m ms where m: "contents (buffer_of s p) = m # ms" "c_string (body m) = x" "map (\<lambda>m. c_string (body m)) ms = xs"
    using b(3) by (auto simp: texts_def)
  have bm: "terminated (body m)" "length (body m) = MAX_MESSAGES_BODY_SIZE" using b(2) m(1) by (simp_all add: bodies_ok_def)
  then have fits: "length (c_string (body m)) < length (body out)" using c_string_shorter [OF bm(1)] out by simp
  from pop_ok [OF b(1) m(1) bm(1) fits] obtain r t where
    t: "pop_message p out s = Some (0, r, t)" "c_string (body r) = x" "unwrapped (buffer_of t p)" "contents (buffer_of t p) = ms"
      "t = upd_pcb p (\<lambda>P. P\<lparr>messages_buffer := (buffer_of s p)\<lparr>mb_tail := mb_tail (buffer_of s p) + 1\<rparr>\<rparr>) s"
    using m(2) by blast
  have r: "terminated (body r)"
    using t(1) by (auto simp: pop_message_def Let_def bind_eq_Some_conv dest!: strcpy_text split: if_splits)
  have "length (c_string (body r)) < length buf" using t(2) m(2) fits out buf by simp
  then obtain buf' where buf': "strcpy buf (body r) = Some buf'" using r by (simp add: strcpy_exact)
  have inv1: "sched_inv t rq mls" unfolding t(5) using inv by (subst sched_inv_upd) simp_all
  have pr: "processes t = processes s" unfolding t(5) by simp
  obtain ps where ps: "processes s = map Some ps"
    using full by (metis ex_map_conv not_None_eq)
  have "set ps \<subseteq> {q. registered t q}" using ps by (auto simp: registered_def pr)
  from wake_all [OF inv1 this, of PROCESS_WAITING_TO_SEND_MESSAGE] obtain u rq' mls' where
    u: "foldM (wake_if PROCESS_WAITING_TO_SEND_MESSAGE) (processes t) t = Some u"
      "view u = (view t)\<lparr>heap := \<lambda>q. if q \<in> set ps then woken_from PROCESS_WAITING_TO_SEND_MESSAGE (heap (view t) q) else heap (view t) q\<rparr>"
    by (auto simp: pr ps)
  have heap: "payload (heap u) q = (if q \<in> set ps then woken_from PROCESS_WAITING_TO_SEND_MESSAGE (payload (heap t) q) else payload (heap t) q)" for q
    using arg_cong [OF u(2), of "\<lambda>v. heap v q"] by simp
  have "buffer_of u p = buffer_of t p"
    using arg_cong [OF heap [of p], of messages_buffer] by (simp add: woken_from_def)
  moreover have "state (heap u q) = (if state (heap s q) = PROCESS_WAITING_TO_SEND_MESSAGE then PROCESS_READY else state (heap s q))"
    if "registered s q" for q
    using arg_cong [OF heap [of q], of state] that by (auto simp: woken_from_def registered_def ps t(5))
  moreover have "bodies_ok (buffer_of t p)" using b(2) by (simp add: bodies_ok_def t(4) m(1))
  moreover have "receive_message others out p buf s = Some (buf', u)"
    using receive_loop_ready [OF t(1)] buf' u(1) by (simp add: receive_message_def)
  moreover have "c_string buf' = x" "texts (buffer_of t p) = xs"
    using strcpy_text [OF buf'] t(2,4) m(3) by (simp_all add: texts_def)
  ultimately show ?thesis using t(3) by auto
qed

lemma signal_set_send:
  "0 \<le> k \<Longrightarrow> k < 32 \<Longrightarrow>
   signal_set sig (pend OR push_bit (nat k) 1) \<longleftrightarrow> signal_set sig pend \<or> int sig = k"
  by (auto simp: signal_set_bit bit_simps)

end
