(* ===== verification/Uart.thy ===== *)
theory Uart
  imports Scheduler_Operations CString
begin

text \<open>
  The serial console, \<^verbatim>\<open>drivers/uart/uart.c\<close>, and the system call that reads a line from it,
  \<^verbatim>\<open>syscall_input\<close> of \<^verbatim>\<open>libs/syscalls.c\<close>. The device is its receive FIFO (the values
  the coming reads of \<^verbatim>\<open>UART0_DR\<close> return until \<^verbatim>\<open>UART0_FR\<close> reports it empty), the
  characters written so far, and the two interrupt registers the handler touches; the busy wait
  of \<^verbatim>\<open>uart_putc\<close> for room in the transmit FIFO is not modelled.
\<close>

definition UART_BUFFER_SIZE :: nat where "UART_BUFFER_SIZE = 64"

record uart_state =
  uart_owner :: pcb_ptr
  uart_buffer :: "char list"
  uart_head :: int
  uart_tail :: int
  rx_fifo :: "uint32 list"
  tx :: "char list"
  uart_mis :: uint32
  uart_imsc :: uint32

definition uart_putc :: "char \<Rightarrow> uart_state \<Rightarrow> uart_state" where
  "uart_putc c u = u\<lparr>tx := tx u @ [c]\<rparr>"

text \<open>The loop stops at the terminator; running off the end of the string has no result.\<close>

fun uart_puts :: "char list \<Rightarrow> uart_state \<Rightarrow> uart_state option" where
  "uart_puts [] u = None"
| "uart_puts (c # cs) u = (if c = CHR 0x00 then Some u else uart_puts cs (uart_putc c u))"

definition literal :: "char list \<Rightarrow> char list" where
  "literal str = str @ [CHR 0x00]"

definition hex_digit :: "ulong \<Rightarrow> nat \<Rightarrow> char" where
  "hex_digit num i = ''0123456789ABCDEF'' ! unat (drop_bit i num AND 15)"

definition hex_shifts :: "nat list" where
  "hex_shifts = [60, 56, 52, 48, 44, 40, 36, 32, 28, 24, 20, 16, 12, 8, 4, 0]"

definition uart_hex :: "ulong \<Rightarrow> uart_state \<Rightarrow> uart_state option" where
  "uart_hex num u = do {
     u1 \<leftarrow> uart_puts (literal ''0x'') u;
     Some (fold (\<lambda>i. uart_putc (hex_digit num i)) hex_shifts u1)
   }"

definition dr_char :: "uint32 \<Rightarrow> char" where
  "dr_char dr = char_of (unat (dr AND 255))"

definition dr_error :: "uint32 \<Rightarrow> uint32" where
  "dr_error dr = drop_bit 8 dr AND 15"

text \<open>Storing a character; a full buffer drops it.\<close>

definition uart_store :: "char \<Rightarrow> uart_state \<Rightarrow> uart_state option" where
  "uart_store c u =
     (let next_head = (uart_head u + 1) mod int UART_BUFFER_SIZE in
      if next_head \<noteq> uart_tail u then do {
        b \<leftarrow> array_set (uart_buffer u) (uart_head u) c;
        Some (u\<lparr>uart_buffer := b, uart_head := next_head\<rparr>)
      } else Some u)"

definition wake_readers :: "sched_state \<Rightarrow> sched_state option" where
  "wake_readers s =
     foldM (wake_if PROCESS_WAITING_UART_INPUT) (take (nat (n_processes s)) (processes s)) s"

fun rx_loop :: "uint32 list \<Rightarrow> uart_state \<Rightarrow> sched_state \<Rightarrow> (uart_state \<times> sched_state) option" where
  "rx_loop [] u s = Some (u\<lparr>rx_fifo := []\<rparr>, s)"
| "rx_loop (dr # rest) u s =
     (if dr_error dr \<noteq> 0 then do {
        u1 \<leftarrow> uart_puts (literal ''UART RX error '') u;
        u2 \<leftarrow> uart_hex (ucast (dr_error dr)) u1;
        u3 \<leftarrow> uart_puts (literal [CHR 0x0D, CHR 0x0A]) u2;
        rx_loop rest u3 s
      } else do {
        u1 \<leftarrow> uart_store (dr_char dr) u;
        s1 \<leftarrow> wake_readers s;
        rx_loop rest u1 s1
      })"

fun timeout_loop :: "uint32 list \<Rightarrow> uart_state \<Rightarrow> uart_state option" where
  "timeout_loop [] u = Some (u\<lparr>rx_fifo := []\<rparr>)"
| "timeout_loop (dr # rest) u = do {
     u1 \<leftarrow> uart_puts (literal [CHR 0x0A]) (uart_putc (dr_char dr) u);
     timeout_loop rest u1
   }"

definition write_icr :: "uint32 \<Rightarrow> uart_state \<Rightarrow> uart_state" where
  "write_icr v u = u\<lparr>uart_mis := uart_mis u AND NOT v\<rparr>"

definition handle_uart_irq :: "uart_state \<Rightarrow> sched_state \<Rightarrow> (uart_state \<times> sched_state) option" where
  "handle_uart_irq u s = do {
     let mis = uart_mis u;
     (u1, s1) \<leftarrow> (if mis AND push_bit 4 1 \<noteq> 0 then do {
                    (v, t) \<leftarrow> rx_loop (rx_fifo u) u s;
                    Some (write_icr (push_bit 4 1) v, t)
                  } else Some (u, s));
     let u2 = (if mis AND push_bit 5 1 \<noteq> 0
               then write_icr (push_bit 5 1) (u1\<lparr>uart_imsc := uart_imsc u1 AND NOT (push_bit 5 1)\<rparr>)
               else u1);
     u3 \<leftarrow> (if mis AND push_bit 6 1 \<noteq> 0 then do {
              v \<leftarrow> uart_puts (literal (CHR '':'' # '' timeout'' @ [CHR 0x0D, CHR 0x0A])) u2;
              v' \<leftarrow> timeout_loop (rx_fifo v) v;
              Some (write_icr (push_bit 6 1) v')
            } else Some u2);
     Some (u3, s1)
   }"

subsection \<open>Reading a line\<close>

text \<open>A process that calls \<^verbatim>\<open>schedule\<close> continues when it is dispatched again; what interrupts and
  the other processes do until then is the argument \<open>others\<close>.\<close>

partial_function (option) acquire_uart ::
  "(uart_state \<Rightarrow> sched_state \<Rightarrow> uart_state \<times> sched_state) \<Rightarrow> uart_state \<Rightarrow> sched_state \<Rightarrow>
   (uart_state \<times> sched_state) option" where
  "acquire_uart others u s =
     (if uart_owner u \<noteq> None \<and> uart_owner u \<noteq> Some (current_process s) then do {
        s1 \<leftarrow> schedule s;
        let (u2, s2) = others u s1;
        acquire_uart others u2 s2
      } else Some (u\<lparr>uart_owner := Some (current_process s)\<rparr>, s))"

text \<open>Consuming the buffered characters. The first component is the length to return once a line
  end has been read.\<close>

partial_function (option) drain_input ::
  "int \<Rightarrow> int \<Rightarrow> char list \<Rightarrow> uart_state \<Rightarrow> (int option \<times> int \<times> char list \<times> uart_state) option" where
  "drain_input max_len current_len buffer u =
     (if uart_tail u = uart_head u then Some (None, current_len, buffer, u)
      else do {
        c \<leftarrow> array_get (uart_buffer u) (uart_tail u);
        let u1 = uart_putc c (u\<lparr>uart_tail := (uart_tail u + 1) mod int UART_BUFFER_SIZE\<rparr>);
        if c = CHR 0x0D \<or> c = CHR 0x0A then do {
          b \<leftarrow> array_set buffer current_len (CHR 0x00);
          Some (Some current_len, current_len, b, u1\<lparr>uart_owner := None\<rparr>)
        } else if c = CHR 0x7F then
          (if current_len > 0 then do {
             u2 \<leftarrow> uart_puts (literal [CHR 0x08, CHR '' '', CHR 0x08]) u1;
             b \<leftarrow> array_set buffer (current_len - 1) (CHR 0x00);
             drain_input max_len (current_len - 1) b u2
           } else drain_input max_len current_len buffer u1)
        else if current_len < max_len then do {
          b \<leftarrow> array_set buffer current_len c;
          b' \<leftarrow> array_set b (current_len + 1) (CHR 0x00);
          drain_input max_len (current_len + 1) b' u1
        } else drain_input max_len current_len buffer u1
      })"

partial_function (option) input_loop ::
  "(uart_state \<Rightarrow> sched_state \<Rightarrow> uart_state \<times> sched_state) \<Rightarrow> int \<Rightarrow> int \<Rightarrow> char list \<Rightarrow>
   uart_state \<Rightarrow> sched_state \<Rightarrow> (int \<times> char list \<times> uart_state \<times> sched_state) option" where
  "input_loop others max_len current_len buffer u s =
     (if uart_head u = uart_tail u then do {
        s1 \<leftarrow> schedule (upd_pcb (current_process s) (\<lambda>P. P\<lparr>state := PROCESS_WAITING_UART_INPUT\<rparr>) s);
        let (u2, s2) = others u s1;
        input_loop others max_len current_len buffer u2 s2
      } else do {
        (result, len, b, u1) \<leftarrow> drain_input max_len current_len buffer u;
        case result of
          Some n \<Rightarrow> Some (n, b, u1, s)
        | None \<Rightarrow> input_loop others max_len len b u1 s
      })"

definition syscall_input ::
  "(uart_state \<Rightarrow> sched_state \<Rightarrow> uart_state \<times> sched_state) \<Rightarrow> char list \<Rightarrow> int \<Rightarrow>
   uart_state \<Rightarrow> sched_state \<Rightarrow> (int \<times> char list \<times> uart_state \<times> sched_state) option" where
  "syscall_input others buffer len u s = do {
     (u1, s1) \<leftarrow> acquire_uart others u s;
     let max_len = (if len > 0 then len - 1 else 0);
     input_loop others max_len 0 buffer u1 s1
   }"

subsection \<open>The ring buffer\<close>

definition ring_ok :: "uart_state \<Rightarrow> bool" where
  "ring_ok u \<longleftrightarrow> length (uart_buffer u) = UART_BUFFER_SIZE \<and>
     0 \<le> uart_head u \<and> uart_head u < int UART_BUFFER_SIZE \<and>
     0 \<le> uart_tail u \<and> uart_tail u < int UART_BUFFER_SIZE"

definition ring_size :: "uart_state \<Rightarrow> nat" where
  "ring_size u = nat ((uart_head u - uart_tail u) mod int UART_BUFFER_SIZE)"

definition ring :: "uart_state \<Rightarrow> char list" where
  "ring u = map (\<lambda>k. uart_buffer u ! nat ((uart_tail u + int k) mod int UART_BUFFER_SIZE)) [0..<ring_size u]"

lemma length_ring [simp]: "length (ring u) = ring_size u"
  by (simp add: ring_def)

lemma ring_frame:
  assumes "uart_buffer v = uart_buffer u" "uart_head v = uart_head u" "uart_tail v = uart_tail u"
  shows "ring v = ring u" "ring_ok v = ring_ok u" "ring_size v = ring_size u"
  using assms by (simp_all add: ring_def ring_ok_def ring_size_def)

lemma ring_size_bound: "ring_size u < UART_BUFFER_SIZE"
  using pos_mod_bound [of "int UART_BUFFER_SIZE" "uart_head u - uart_tail u"]
  by (simp add: ring_size_def UART_BUFFER_SIZE_def)

text \<open>Index arithmetic inside the buffer, without \<open>mod\<close>.\<close>

lemma index_mod:
  fixes h t k :: int
  assumes "0 \<le> h" "h < 64" "0 \<le> t" "t < 64"
  shows index_diff: "(h - t) mod 64 = (if t \<le> h then h - t else h - t + 64)"
    and index_add: "0 \<le> k \<Longrightarrow> k < 64 \<Longrightarrow> (t + k) mod 64 = (if t + k < 64 then t + k else t + k - 64)"
proof -
  have "(h - t) mod 64 = (h - t + 64) mod 64" by (simp only: mod_add_self2)
  also have "\<dots> = h - t + 64" if "\<not> t \<le> h" using assms that by (simp only: mod_pos_pos_trivial)
  finally have "\<not> t \<le> h \<Longrightarrow> (h - t) mod 64 = h - t + 64" .
  then show "(h - t) mod 64 = (if t \<le> h then h - t else h - t + 64)"
    using assms by (auto simp: mod_pos_pos_trivial)
  have "(t + k) mod 64 = (t + k - 64 + 64) mod 64" by simp
  also have "\<dots> = (t + k - 64) mod 64" by (simp only: mod_add_self2)
  also have "\<dots> = t + k - 64" if "0 \<le> k" "k < 64" "\<not> t + k < 64"
    using assms that by (simp only: mod_pos_pos_trivial)
  finally have "0 \<le> k \<Longrightarrow> k < 64 \<Longrightarrow> \<not> t + k < 64 \<Longrightarrow> (t + k) mod 64 = t + k - 64" .
  then show "(t + k) mod 64 = (if t + k < 64 then t + k else t + k - 64)" if "0 \<le> k" "k < 64"
    using assms that by (auto simp: mod_pos_pos_trivial)
qed

lemma index_succ:
  fixes h :: int
  assumes "0 \<le> h" "h < 64"
  shows "(h + 1) mod 64 = (if h = 63 then 0 else h + 1)"
  using index_add [of h h 1] assms by simp

lemma ring_okD:
  assumes "ring_ok u"
  shows "0 \<le> uart_head u" "uart_head u < 64" "0 \<le> uart_tail u" "uart_tail u < 64"
    "length (uart_buffer u) = 64"
  using assms by (simp_all add: ring_ok_def UART_BUFFER_SIZE_def)

lemma ring_size_eq:
  assumes "ring_ok u"
  shows "int (ring_size u) = (if uart_tail u \<le> uart_head u then uart_head u - uart_tail u
                              else uart_head u - uart_tail u + 64)"
  using ring_okD [OF assms] by (simp add: ring_size_def UART_BUFFER_SIZE_def index_diff)

lemma ring_empty:
  assumes "ring_ok u"
  shows "ring_size u = 0 \<longleftrightarrow> uart_head u = uart_tail u"
  using ring_size_eq [OF assms] ring_okD [OF assms] by (auto split: if_splits)

lemma ring_full:
  assumes "ring_ok u"
  shows "(uart_head u + 1) mod int UART_BUFFER_SIZE = uart_tail u \<longleftrightarrow> ring_size u = 63"
  using ring_size_eq [OF assms] ring_okD [OF assms] index_succ [of "uart_head u"]
  by (auto simp: UART_BUFFER_SIZE_def split: if_splits)

lemma ring_nth:
  assumes ok: "ring_ok u" and k: "k < ring_size u"
  shows "nat ((uart_tail u + int k) mod 64) \<noteq> nat (uart_head u)"
  using ring_size_eq [OF ok] ring_okD [OF ok] k index_add [of "uart_head u" "uart_tail u" "int k"]
    ring_size_bound [of u]
  by (auto simp: UART_BUFFER_SIZE_def split: if_splits)

lemma ring_end:
  assumes ok: "ring_ok u"
  shows "nat ((uart_tail u + int (ring_size u)) mod 64) = nat (uart_head u)"
  using ring_size_eq [OF ok] ring_okD [OF ok] index_add [of "uart_head u" "uart_tail u" "int (ring_size u)"]
    ring_size_bound [of u]
  by (auto simp: UART_BUFFER_SIZE_def split: if_splits)

lemma uart_store_ring:
  assumes ok: "ring_ok u"
  shows "\<exists>v. uart_store c u = Some v \<and> ring_ok v \<and> ring v = take 63 (ring u @ [c]) \<and> tx v = tx u \<and>
    uart_owner v = uart_owner u \<and> rx_fifo v = rx_fifo u \<and> uart_mis v = uart_mis u \<and> uart_imsc v = uart_imsc u"
proof (cases "ring_size u = 63")
  case True
  then show ?thesis using ok ring_full [OF ok] by (simp add: uart_store_def)
next
  case False
  then have small: "ring_size u < 63" using ring_size_bound [of u] by (simp add: UART_BUFFER_SIZE_def)
  let ?h = "uart_head u" and ?t = "uart_tail u"
  let ?v = "u\<lparr>uart_buffer := (uart_buffer u)[nat ?h := c], uart_head := (?h + 1) mod int UART_BUFFER_SIZE\<rparr>"
  note b = ring_okD [OF ok]
  have st: "uart_store c u = Some ?v"
    using False ring_full [OF ok] b by (simp add: uart_store_def array_set_in)
  have vok: "ring_ok ?v" using ok by (simp add: ring_ok_def UART_BUFFER_SIZE_def)
  have "int (ring_size ?v) = int (Suc (ring_size u))"
    using small b unfolding ring_size_eq [OF vok] of_nat_Suc ring_size_eq [OF ok]
    using ring_size_eq [OF ok] index_succ [OF b(1,2)] by (auto simp: UART_BUFFER_SIZE_def split: if_splits)
  then have sz: "ring_size ?v = Suc (ring_size u)" by simp
  have "(uart_buffer u)[nat ?h := c] ! nat ((?t + int k) mod 64) = uart_buffer u ! nat ((?t + int k) mod 64)"
    if "k < ring_size u" for k
    using ring_nth [OF ok that] by (intro nth_list_update_neq) simp
  then have "ring ?v = ring u @ [c]"
    unfolding ring_def sz using ring_end [OF ok] b by (simp add: UART_BUFFER_SIZE_def)
  then show ?thesis using st vok small by simp
qed

lemma ring_first:
  assumes ok: "ring_ok u" and ne: "uart_head u \<noteq> uart_tail u"
  shows "array_get (uart_buffer u) (uart_tail u) = Some (hd (ring u))"
    "ring (u\<lparr>uart_tail := (uart_tail u + 1) mod int UART_BUFFER_SIZE\<rparr>) = tl (ring u)"
    "ring_ok (u\<lparr>uart_tail := (uart_tail u + 1) mod int UART_BUFFER_SIZE\<rparr>)"
    "ring u = hd (ring u) # tl (ring u)"
proof -
  let ?h = "uart_head u" and ?t = "uart_tail u"
  let ?v = "u\<lparr>uart_tail := (?t + 1) mod int UART_BUFFER_SIZE\<rparr>"
  note b = ring_okD [OF ok]
  show vok: "ring_ok ?v" using ok by (simp add: ring_ok_def UART_BUFFER_SIZE_def)
  have "int (ring_size u) = int (Suc (ring_size ?v))"
    using ne b unfolding ring_size_eq [OF ok] of_nat_Suc ring_size_eq [OF vok]
    using index_succ [OF b(3,4)] by (auto simp: UART_BUFFER_SIZE_def split: if_splits)
  then have sz: "ring_size u = Suc (ring_size ?v)" by simp
  have shift: "[0..<Suc n] = 0 # map Suc [0..<n]" for n
    by (simp add: upt_conv_Cons map_Suc_upt del: upt_Suc)
  have "ring u = uart_buffer u ! nat ?t # ring ?v"
    unfolding ring_def sz shift using b
    by (simp add: UART_BUFFER_SIZE_def mod_simps add.assoc)
  then show "array_get (uart_buffer u) ?t = Some (hd (ring u))" "ring ?v = tl (ring u)"
    "ring u = hd (ring u) # tl (ring u)"
    using b by (simp_all add: array_get_in)
qed

subsection \<open>The interrupt handler\<close>

lemma uart_puts_string:
  "CHR 0x00 \<notin> set str \<Longrightarrow> uart_puts (str @ CHR 0x00 # rest) u = Some (u\<lparr>tx := tx u @ str\<rparr>)"
  by (induction str arbitrary: u) (auto simp: uart_putc_def)

lemma uart_puts_literal: "CHR 0x00 \<notin> set str \<Longrightarrow> uart_puts (literal str) u = Some (u\<lparr>tx := tx u @ str\<rparr>)"
  using uart_puts_string [of str "[]" u] by (simp add: literal_def)

text \<open>Sixteen digits, most significant first.\<close>

lemma uart_hex_digits: "uart_hex num u = Some (u\<lparr>tx := tx u @ ''0x'' @ map (hex_digit num) hex_shifts\<rparr>)"
proof -
  have "fold (\<lambda>i. uart_putc (hex_digit num i)) is v = v\<lparr>tx := tx v @ map (hex_digit num) is\<rparr>" for "is" v
    by (induction "is" arbitrary: v) (simp_all add: uart_putc_def)
  then show ?thesis by (simp add: uart_hex_def uart_puts_literal)
qed

text \<open>The slots below \<open>n_processes\<close> hold exactly the registered processes.\<close>

lemma used_slots:
  assumes "table_ok s"
  shows "\<exists>ps. take (nat (n_processes s)) (processes s) = map Some ps \<and> set ps = {p. registered s p}"
proof -
  let ?n = "nat (n_processes s)"
  have len: "length (processes s) = N_PROCESSES" and n: "?n \<le> N_PROCESSES"
    using assms by (auto simp: table_ok_def)
  have none: "i < N_PROCESSES \<Longrightarrow> (processes s ! i = None) = (n_processes s \<le> int i)" for i
    using assms by (simp add: table_ok_def)
  have "map Some (map the xs) = xs" if "\<And>x. x \<in> set xs \<Longrightarrow> x \<noteq> None" for xs :: "pcb_ptr list"
    using that by (induction xs) auto
  moreover have "x \<noteq> None" if "x \<in> set (take ?n (processes s))" for x
  proof -
    from that obtain i where "i < ?n" "i < N_PROCESSES" "x = processes s ! i"
      using n len by (auto simp: in_set_conv_nth)
    then show ?thesis using none [of i] by auto
  qed
  ultimately obtain ps where eq: "take ?n (processes s) = map Some ps" by metis
  have "p \<in> set ps \<longleftrightarrow> registered s p" for p
  proof -
    have "p \<in> set ps \<longleftrightarrow> Some p \<in> set (take ?n (processes s))" unfolding eq by auto
    also have "\<dots> \<longleftrightarrow> registered s p"
    proof
      assume "registered s p"
      then obtain i where i: "i < length (processes s)" "processes s ! i = Some p"
        by (auto simp: registered_def in_set_conv_nth)
      then have "i < ?n" using none [of i] len by auto
      then show "Some p \<in> set (take ?n (processes s))" using i len n by (force simp: in_set_conv_nth)
    qed (auto simp: registered_def dest: in_set_takeD)
    finally show ?thesis .
  qed
  then show ?thesis using eq by blast
qed

text \<open>What waking the readers does to the processes, whatever the queue order becomes.\<close>

definition readers_woken :: "sched_state \<Rightarrow> sched_state \<Rightarrow> bool" where
  "readers_woken s t \<longleftrightarrow> view t = (view s)\<lparr>heap := \<lambda>p. if registered s p
     then woken_from PROCESS_WAITING_UART_INPUT (heap (view s) p) else heap (view s) p\<rparr>"

lemma wake_readers_ok:
  assumes inv: "sched_inv s rq mls"
  shows "\<exists>t rq' mls'. wake_readers s = Some t \<and> sched_inv t rq' mls' \<and> readers_woken s t"
proof -
  from used_slots [OF sched_invD(2) [OF inv]] obtain ps where
    ps: "take (nat (n_processes s)) (processes s) = map Some ps" "set ps = {p. registered s p}" by blast
  have sub: "set ps \<subseteq> {p. registered s p}" and ne: "PROCESS_WAITING_UART_INPUT \<noteq> PROCESS_READY"
    using ps(2) by simp_all
  from wake_all [OF inv sub ne] show ?thesis
    unfolding wake_readers_def ps readers_woken_def by simp
qed

lemma readers_woken_twice:
  assumes "readers_woken s t" "readers_woken t u"
  shows "readers_woken s u"
proof -
  have p: "registered t = registered s"
    using arg_cong [OF assms(1) [unfolded readers_woken_def], of processes] by (simp add: registered_def fun_eq_iff)
  show ?thesis
    using assms unfolding readers_woken_def p by (simp add: woken_from_def fun_eq_iff)
qed

lemma rx_loop_ok:
  assumes "ring_ok u" "sched_inv s rq mls" "\<And>dr. dr \<in> set drs \<Longrightarrow> dr_error dr = 0"
  shows "\<exists>v t rq' mls'. rx_loop drs u s = Some (v, t) \<and> ring_ok v \<and>
    ring v = take 63 (ring u @ map dr_char drs) \<and> rx_fifo v = [] \<and> tx v = tx u \<and>
    uart_owner v = uart_owner u \<and> uart_mis v = uart_mis u \<and>
    sched_inv t rq' mls' \<and> (if drs = [] then t = s else readers_woken s t)"
  using assms
proof (induction drs arbitrary: u s rq mls)
  case Nil
  have "ring_size u \<le> 63" using ring_size_bound [of u] by (simp add: UART_BUFFER_SIZE_def)
  then show ?case using Nil ring_frame [of "u\<lparr>rx_fifo := []\<rparr>" u] by auto
next
  case (Cons dr drs)
  from uart_store_ring [OF Cons.prems(1), of "dr_char dr"] obtain v where
    v: "uart_store (dr_char dr) u = Some v" "ring_ok v" "ring v = take 63 (ring u @ [dr_char dr])"
      "tx v = tx u" "uart_owner v = uart_owner u" "uart_mis v = uart_mis u" by blast
  from wake_readers_ok [OF Cons.prems(2)] obtain t rq1 mls1 where
    t: "wake_readers s = Some t" "sched_inv t rq1 mls1" "readers_woken s t" by blast
  from Cons.IH [OF v(2) t(2)] Cons.prems(3) obtain w r rq2 mls2 where
    w: "rx_loop drs v t = Some (w, r)" "ring_ok w" "ring w = take 63 (ring v @ map dr_char drs)" "rx_fifo w = []"
      "tx w = tx v" "uart_owner w = uart_owner v" "uart_mis w = uart_mis v"
      "sched_inv r rq2 mls2" "if drs = [] then r = t else readers_woken t r" by auto
  have "ring w = take 63 (ring u @ map dr_char (dr # drs))"
    unfolding w(3) v(3)
    by (cases "ring_size u \<le> 62") (auto simp: take_append min_def take_Cons')
  moreover have "readers_woken s r"
    using w(9) t(3) readers_woken_twice [OF t(3), of r] by (auto split: if_splits)
  ultimately show ?case using Cons.prems(3) v t w by auto
qed

lemma handle_uart_irq_receives:
  assumes ok: "ring_ok u" and inv: "sched_inv s rq mls"
    and good: "\<And>dr. dr \<in> set (rx_fifo u) \<Longrightarrow> dr_error dr = 0"
    and mis: "uart_mis u = push_bit 4 1"
  shows "\<exists>v t rq' mls'. handle_uart_irq u s = Some (v, t) \<and> ring_ok v \<and>
    ring v = take 63 (ring u @ map dr_char (rx_fifo u)) \<and> rx_fifo v = [] \<and> tx v = tx u \<and>
    uart_owner v = uart_owner u \<and> uart_mis v = 0 \<and>
    sched_inv t rq' mls' \<and> (if rx_fifo u = [] then t = s else readers_woken s t)"
proof -
  from rx_loop_ok [OF ok inv good] obtain v t rq' mls' where
    v: "rx_loop (rx_fifo u) u s = Some (v, t)" "ring_ok v" "ring v = take 63 (ring u @ map dr_char (rx_fifo u))"
      "rx_fifo v = []" "tx v = tx u" "uart_owner v = uart_owner u" "uart_mis v = uart_mis u"
      "sched_inv t rq' mls'" "if rx_fifo u = [] then t = s else readers_woken s t" by blast
  let ?w = "write_icr (push_bit 4 1) v"
  have m: "uart_mis u = 16" using mis by simp
  have "handle_uart_irq u s = Some (?w, t)"
    unfolding handle_uart_irq_def Let_def m v(1) by simp
  moreover have "uart_mis ?w = 0" using v(7) m by (simp add: write_icr_def)
  ultimately show ?thesis
    using v ring_frame [of ?w v] by (intro exI [of _ ?w] exI [of _ t] exI conjI) (simp_all add: write_icr_def)
qed

subsection \<open>Line editing\<close>

text \<open>The specification: what a reader of the characters ends up with, what it echoes, and what it
  leaves. The first component tells whether a line end was found.\<close>

fun read_line :: "nat \<Rightarrow> char list \<Rightarrow> char list \<Rightarrow> bool \<times> char list \<times> char list \<times> char list" where
  "read_line m typed [] = (False, typed, [], [])"
| "read_line m typed (c # cs) =
     (if c = CHR 0x0D \<or> c = CHR 0x0A then (True, typed, [c], cs)
      else
        let (typed1, erase) = (if c = CHR 0x7F then (butlast typed, if typed = [] then [] else [CHR 0x08, CHR '' '', CHR 0x08])
                              else if length typed < m then (typed @ [c], []) else (typed, []));
            (found, typed2, echo, rest) = read_line m typed1 cs
        in (found, typed2, c # erase @ echo, rest))"

lemma drain_input_reads:
  assumes "ring_ok u" "length typed \<le> m" "m < length buffer" "take (length typed) buffer = typed"
    "read_line m typed (ring u) = (found, typed', echo, rest)"
  shows "\<exists>b v. drain_input (int m) (int (length typed)) buffer u =
      Some (if found then Some (int (length typed')) else None, int (length typed'), b, v) \<and>
    ring_ok v \<and> ring v = rest \<and> tx v = tx u @ echo \<and> length b = length buffer \<and>
    length typed' \<le> m \<and> take (length typed') b = typed' \<and>
    (if found then b ! length typed' = CHR 0x00 \<and> uart_owner v = None else uart_owner v = uart_owner u)"
  using assms
proof (induction "ring u" arbitrary: u typed buffer echo)
  case Nil
  have "ring_size u = 0" using Nil.hyps length_ring [of u] by simp
  then have e: "uart_tail u = uart_head u" using ring_empty [OF Nil.prems(1)] by simp
  have "\<not> found \<and> typed' = typed \<and> echo = [] \<and> rest = []" using Nil.prems(5) unfolding Nil.hyps [symmetric] by simp
  then show ?case using Nil e by (subst drain_input.simps) auto
next
  case (Cons c cs)
  have "ring_size u \<noteq> 0" using arg_cong [OF Cons.hyps(2), of length] by simp
  then have ne: "uart_head u \<noteq> uart_tail u" using ring_empty [OF Cons.prems(1)] by simp
  note F = ring_first [OF Cons.prems(1) ne]
  have c: "array_get (uart_buffer u) (uart_tail u) = Some c" using F(1) Cons.hyps(2) by (metis list.sel(1))
  let ?u1 = "uart_putc c (u\<lparr>uart_tail := (uart_tail u + 1) mod int UART_BUFFER_SIZE\<rparr>)"
  have r1: "ring_ok ?u1" "ring ?u1 = cs" "tx ?u1 = tx u @ [c]" "uart_owner ?u1 = uart_owner u"
    using F(2,3) Cons.hyps(2) ring_frame [of ?u1 "u\<lparr>uart_tail := (uart_tail u + 1) mod int UART_BUFFER_SIZE\<rparr>"]
    by (simp_all add: uart_putc_def) (metis list.sel(3))
  note rl = Cons.prems(5) [unfolded Cons.hyps(2) [symmetric] read_line.simps]
  note step = drain_input.simps [of "int m" "int (length typed)" buffer u] 
  show ?case
  proof (cases "c = CHR 0x0D \<or> c = CHR 0x0A")
    case True
    let ?b = "buffer[length typed := CHR 0x00]" and ?v = "?u1\<lparr>uart_owner := None\<rparr>"
    have "array_set buffer (int (length typed)) (CHR 0x00) = Some ?b" using Cons.prems by (simp add: array_set_def)
    then have "drain_input (int m) (int (length typed)) buffer u = Some (Some (int (length typed)), int (length typed), ?b, ?v)"
      using ne c True by (subst step) auto
    then show ?thesis
      using rl True r1 Cons.prems ring_frame [of ?v ?u1] by (intro exI [of _ ?b] exI [of _ ?v]) auto
  next
    case nl: False
    show ?thesis
    proof (cases "c = CHR 0x7F")
      case del: True
      show ?thesis
      proof (cases "typed = []")
        case True
        then have d: "drain_input (int m) (int (length typed)) buffer u = drain_input (int m) (int (length typed)) buffer ?u1"
          using ne c nl del by (subst step) auto
        obtain echo1 where e1: "read_line m typed (ring ?u1) = (found, typed', echo1, rest)" "echo = c # echo1"
          using rl nl del True r1(2) by (auto split: prod.splits)
        from Cons.hyps(1) [OF r1(2) [symmetric] r1(1) Cons.prems(2,3,4) e1(1)] show ?thesis
          unfolding d using r1(3,4) e1(2) by auto
      next
        case False
        let ?u2 = "?u1\<lparr>tx := tx ?u1 @ [CHR 0x08, CHR '' '', CHR 0x08]\<rparr>"
        let ?b = "buffer[length (butlast typed) := CHR 0x00]"
        have len: "int (length typed) - 1 = int (length (butlast typed))" using False by (cases typed) auto
        have s: "array_set buffer (int (length typed) - 1) (CHR 0x00) = Some ?b"
          unfolding len using Cons.prems by (simp add: array_set_def)
        have d: "drain_input (int m) (int (length typed)) buffer u = drain_input (int m) (int (length (butlast typed))) ?b ?u2"
          using ne c nl del False s unfolding len [symmetric]
          by (subst step) (auto simp: uart_puts_literal Let_def)
        have r2: "ring_ok ?u2" "ring ?u2 = cs" using r1(1,2) ring_frame [of ?u2 ?u1] by simp_all
        obtain echo1 where e1: "read_line m (butlast typed) (ring ?u2) = (found, typed', echo1, rest)"
          "echo = c # [CHR 0x08, CHR '' '', CHR 0x08] @ echo1"
          using rl nl del False r2(2) by (auto split: prod.splits)
        have "take (length (butlast typed)) (take (length typed) buffer) = butlast typed"
          unfolding Cons.prems(4) by (simp add: butlast_conv_take)
        then have pre: "length (butlast typed) \<le> m" "m < length ?b" "take (length (butlast typed)) ?b = butlast typed"
          using Cons.prems(2,3) by (simp_all add: min_def)
        from Cons.hyps(1) [OF r2(2) [symmetric] r2(1) pre e1(1)] show ?thesis
          unfolding d using r1(3,4) e1(2) by auto
      qed
    next
      case nd: False
      show ?thesis
      proof (cases "length typed < m")
        case True
        let ?b = "buffer[length typed := c, Suc (length typed) := CHR 0x00]"
        have s: "array_set buffer (int (length typed)) c = Some (buffer[length typed := c])"
          "array_set (buffer[length typed := c]) (int (length typed) + 1) (CHR 0x00) = Some ?b"
          using Cons.prems True by (simp_all add: array_set_def nat_add_distrib)
        have len: "int (length typed) + 1 = int (length (typed @ [c]))" by simp
        have d: "drain_input (int m) (int (length typed)) buffer u = drain_input (int m) (int (length (typed @ [c]))) ?b ?u1"
          using ne c nl nd True s unfolding len [symmetric] by (subst step) auto
        obtain echo1 where e1: "read_line m (typed @ [c]) (ring ?u1) = (found, typed', echo1, rest)" "echo = c # echo1"
          using rl nl nd True r1(2) by (auto split: prod.splits)
        have pre: "length (typed @ [c]) \<le> m" "m < length ?b" "take (length (typed @ [c])) ?b = typed @ [c]"
          using Cons.prems(2,3,4) True by (simp_all add: take_Suc_conv_app_nth)
        from Cons.hyps(1) [OF r1(2) [symmetric] r1(1) pre e1(1)] show ?thesis
          unfolding d using r1(3,4) e1(2) by auto
      next
        case False
        then have d: "drain_input (int m) (int (length typed)) buffer u = drain_input (int m) (int (length typed)) buffer ?u1"
          using ne c nl nd by (subst step) auto
        obtain echo1 where e1: "read_line m typed (ring ?u1) = (found, typed', echo1, rest)" "echo = c # echo1"
          using rl nl nd False r1(2) by (auto split: prod.splits)
        from Cons.hyps(1) [OF r1(2) [symmetric] r1(1) Cons.prems(2,3,4) e1(1)] show ?thesis
          unfolding d using r1(3,4) e1(2) by auto
      qed
    qed
  qed
qed

end
