(* ===== verification/Syscalls.thy ===== *)
theory Syscalls
  imports Fork Messages Uart
begin

text \<open>
  The system calls of \<^verbatim>\<open>libs/syscalls.c\<close> on processes, memory and messages, and the
  dispatcher. A handler that blocks returns the state at the point where the CPU has been given to
  another process. The dispatcher is stated for any implementation of the handlers: it decodes the
  saved registers of the caller, and stores the result.
\<close>

subsection \<open>Processes and files\<close>

fun search_process_in :: "pcb_ptr list \<Rightarrow> pcb_heap \<Rightarrow> int \<Rightarrow> pcb_ptr" where
  "search_process_in [] h p = None"
| "search_process_in (entry # rest) h p =
     (case entry of
        None \<Rightarrow> search_process_in rest h p
      | Some x \<Rightarrow> if pid (h x) = p then Some x else search_process_in rest h p)"

definition search_process :: "int \<Rightarrow> sched_state \<Rightarrow> pcb_ptr" where
  "search_process p s = search_process_in (processes s) (heap s) p"

fun free_descriptor_from :: "int \<Rightarrow> ulong list \<Rightarrow> int" where
  "free_descriptor_from i [] = -1"
| "free_descriptor_from i (f # fs) = (if f = 0 then i else free_descriptor_from (i + 1) fs)"

definition get_first_free_file_descriptor :: "PCB \<Rightarrow> int" where
  "get_first_free_file_descriptor P = free_descriptor_from 0 (take MAX_FILES_PER_PROCESS (files P))"

definition syscall_clone :: "ulong \<Rightarrow> kernel_state \<Rightarrow> (int \<times> kernel_state) option" where
  "syscall_clone ret_from_fork k = copy_process ret_from_fork 0 0 0 k"

definition syscall_fork :: "ulong \<Rightarrow> kernel_state \<Rightarrow> (int \<times> kernel_state) option" where
  "syscall_fork ret_from_fork k = copy_process ret_from_fork 0 0 0 k"

definition syscall_malloc :: "kernel_state \<Rightarrow> ulong \<times> kernel_state" where
  "syscall_malloc k =
     (let (address, m) = allocate_kernel_page (mem k)
      in (if address = 0 then -1 else address, k\<lparr>mem := m\<rparr>))"

definition syscall_exit :: "sched_state \<Rightarrow> sched_state option" where
  "syscall_exit s = exit_process s"

definition syscall_yield :: "sched_state \<Rightarrow> sched_state option" where
  "syscall_yield s = schedule (upd_pcb (current_process s) (\<lambda>P. P\<lparr>counter := 0\<rparr>) s)"

definition syscall_send_message ::
  "(sched_state \<Rightarrow> sched_state) \<Rightarrow> char list \<Rightarrow> int \<Rightarrow> char list \<Rightarrow> sched_state \<Rightarrow>
   (int \<times> sched_state) option" where
  "syscall_send_message others stack_body destination_pid text s =
     (case search_process destination_pid s of
        None \<Rightarrow> Some (-1, s)
      | Some d \<Rightarrow> send_message others stack_body (current_process s) d text s)"

definition syscall_receive_message ::
  "(sched_state \<Rightarrow> sched_state) \<Rightarrow> Message \<Rightarrow> char list \<Rightarrow> sched_state \<Rightarrow>
   (char list \<times> sched_state) option" where
  "syscall_receive_message others stack_message buf s =
     receive_message others stack_message (current_process s) buf s"

definition syscall_send_signal :: "int \<Rightarrow> int \<Rightarrow> sched_state \<Rightarrow> (int \<times> sched_state) option" where
  "syscall_send_signal destination_pid signal_flag s =
     (case search_process destination_pid s of
        None \<Rightarrow> Some (-1, s)
      | Some d \<Rightarrow> send_signal d signal_flag s)"

definition syscall_wait :: "int \<Rightarrow> sched_state \<Rightarrow> (int \<times> sched_state) option" where
  "syscall_wait p s =
     (case search_process p s of
        None \<Rightarrow> Some (-1, s)
      | Some d \<Rightarrow>
          if state (heap s d) = PROCESS_ZOMBIE then Some (0, s)
          else do {
            let s1 = upd_pcb (current_process s) (\<lambda>P. P\<lparr>state := PROCESS_WAITING_ANOTHER_PROCESS\<rparr>) s;
            let s2 = upd_pcb (current_process s1) (\<lambda>P. P\<lparr>pid_to_wait := p\<rparr>) s1;
            s3 \<leftarrow> schedule s2;
            Some (0, s3)
          })"

definition syscall_set_sched_param ::
  "int \<Rightarrow> int \<Rightarrow> int \<Rightarrow> sched_state \<Rightarrow> (int \<times> sched_state) option" where
  "syscall_set_sched_param p param v s =
     (case search_process p s of
        None \<Rightarrow> Some (-1, s)
      | Some d \<Rightarrow> sched_set_param (Some d) param v s)"

definition syscall_get_time :: "sched_state \<Rightarrow> ulong \<times> sched_state" where
  "syscall_get_time s = (let (t, s1) = read_timer s in (ucast t, s1))"

definition syscall_write :: "char list \<Rightarrow> uart_state \<Rightarrow> uart_state option" where
  "syscall_write buffer u = uart_puts buffer u"

definition syscall_write_hex :: "int \<Rightarrow> uart_state \<Rightarrow> uart_state option" where
  "syscall_write_hex number u = uart_hex (word_of_int number) u"

subsection \<open>The dispatcher\<close>

text \<open>The handlers as the dispatcher calls them: pointers are the addresses the caller passed, and
  \<^verbatim>\<open>syscall_exec\<close> receives and returns the saved registers. A result of type \<^verbatim>\<open>int\<close> is
  an \<open>int\<close>.\<close>

record 'st handlers =
  h_write :: "ulong \<Rightarrow> 'st \<Rightarrow> 'st option"
  h_write_hex :: "int \<Rightarrow> 'st \<Rightarrow> 'st option"
  h_malloc :: "'st \<Rightarrow> (ulong \<times> 'st) option"
  h_exit :: "'st \<Rightarrow> 'st option"
  h_create_dir :: "ulong \<Rightarrow> 'st \<Rightarrow> (int \<times> 'st) option"
  h_open_dir :: "ulong \<Rightarrow> 'st \<Rightarrow> (int \<times> 'st) option"
  h_open_file :: "ulong \<Rightarrow> byte \<Rightarrow> 'st \<Rightarrow> (int \<times> 'st) option"
  h_close_file :: "int \<Rightarrow> 'st \<Rightarrow> (int \<times> 'st) option"
  h_write_file :: "int \<Rightarrow> ulong \<Rightarrow> int \<Rightarrow> ulong \<Rightarrow> 'st \<Rightarrow> (int \<times> 'st) option"
  h_read_file :: "int \<Rightarrow> ulong \<Rightarrow> int \<Rightarrow> ulong \<Rightarrow> 'st \<Rightarrow> (int \<times> 'st) option"
  h_yield :: "'st \<Rightarrow> 'st option"
  h_input :: "ulong \<Rightarrow> int \<Rightarrow> 'st \<Rightarrow> (int \<times> 'st) option"
  h_get_next_entry :: "int \<Rightarrow> ulong \<Rightarrow> 'st \<Rightarrow> (int \<times> 'st) option"
  h_fork :: "'st \<Rightarrow> (int \<times> 'st) option"
  h_send_message :: "int \<Rightarrow> ulong \<Rightarrow> 'st \<Rightarrow> (int \<times> 'st) option"
  h_receive_message :: "ulong \<Rightarrow> 'st \<Rightarrow> 'st option"
  h_send_signal :: "int \<Rightarrow> int \<Rightarrow> 'st \<Rightarrow> (int \<times> 'st) option"
  h_exec :: "ulong \<Rightarrow> int \<Rightarrow> ulong \<Rightarrow> ulong list \<Rightarrow> 'st \<Rightarrow> (ulong list \<times> 'st) option"
  h_wait :: "int \<Rightarrow> 'st \<Rightarrow> (int \<times> 'st) option"
  h_get_time :: "'st \<Rightarrow> (ulong \<times> 'st) option"
  h_set_sched_param :: "int \<Rightarrow> int \<Rightarrow> int \<Rightarrow> 'st \<Rightarrow> (int \<times> 'st) option"

definition SYSCALLS_NUMBER :: ulong where "SYSCALLS_NUMBER = 21"

text \<open>The conversions of C between registers and \<^verbatim>\<open>int\<close>.\<close>

definition c_int :: "ulong \<Rightarrow> int" where
  "c_int r = sint (ucast r :: uint32)"

definition from_int :: "int \<Rightarrow> ulong" where
  "from_int i = word_of_int i"

definition returns_int ::
  "ulong list \<Rightarrow> (int \<times> 'st) option \<Rightarrow> (ulong list \<times> 'st) option" where
  "returns_int regs r = do { (v, st) \<leftarrow> r; Some (regs[0 := from_int v], st) }"

definition returns_ulong ::
  "ulong list \<Rightarrow> (ulong \<times> 'st) option \<Rightarrow> (ulong list \<times> 'st) option" where
  "returns_ulong regs r = do { (v, st) \<leftarrow> r; Some (regs[0 := v], st) }"

definition returns_nothing :: "ulong list \<Rightarrow> 'st option \<Rightarrow> (ulong list \<times> 'st) option" where
  "returns_nothing regs r = do { st \<leftarrow> r; Some (regs, st) }"

definition syscall_dispatcher ::
  "'st handlers \<Rightarrow> ulong list \<Rightarrow> 'st \<Rightarrow> (ulong list \<times> 'st) option" where
  "syscall_dispatcher H regs st =
     (let n = regs ! 8; r0 = regs ! 0; r1 = regs ! 1;
          r2 = regs ! 2; r3 = regs ! 3
      in if n > SYSCALLS_NUMBER then Some (regs, st)
      else if n = 0 then returns_nothing regs (h_write H r0 st)
      else if n = 18 then returns_nothing regs (h_write_hex H (c_int r0) st)
      else if n = 1 then returns_ulong regs (h_malloc H st)
      else if n = 2 then returns_nothing regs (h_exit H st)
      else if n = 3 then returns_int regs (h_create_dir H r0 st)
      else if n = 4 then returns_int regs (h_open_dir H r0 st)
      else if n = 5 then returns_int regs (h_open_file H r0 (ucast r1) st)
      else if n = 6 then returns_int regs (h_close_file H (c_int r0) st)
      else if n = 7 then returns_int regs (h_write_file H (c_int r0) r1 (c_int r2) r3 st)
      else if n = 8 then returns_int regs (h_read_file H (c_int r0) r1 (c_int r2) r3 st)
      else if n = 9 then returns_nothing regs (h_yield H st)
      else if n = 10 then returns_int regs (h_input H r0 (c_int r1) st)
      else if n = 11 then returns_int regs (h_get_next_entry H (c_int r0) r1 st)
      else if n = 12 then returns_int regs (h_fork H st)
      else if n = 13 then returns_int regs (h_send_message H (c_int r0) r1 st)
      else if n = 14 then returns_nothing regs (h_receive_message H r0 st)
      else if n = 15 then returns_int regs (h_send_signal H (c_int r0) (c_int r1) st)
      else if n = 16 then h_exec H r0 (c_int r1) r2 regs st
      else if n = 17 then returns_int regs (h_wait H (c_int r0) st)
      else if n = 19 then returns_ulong regs (h_get_time H st)
      else if n = 20 then
        returns_int regs (h_set_sched_param H (c_int r0) (c_int r1) (c_int r2) st)
      else Some (regs, st))"

subsection \<open>Looking up a process\<close>

lemma search_process_in_correct:
  "search_process_in xs h p = Some x \<Longrightarrow> Some x \<in> set xs \<and> pid (h x) = p"
  "search_process_in xs h p = None \<Longrightarrow> Some x \<in> set xs \<Longrightarrow> pid (h x) \<noteq> p"
  by (induction xs) (auto split: option.splits if_splits)

text \<open>In a well-formed table the pid is a key: exactly its bearer is found.\<close>

lemma search_process_iff:
  assumes tab: "table_ok s"
  shows "search_process p s = Some x \<longleftrightarrow> registered s x \<and> pid (heap s x) = p"
proof
  show "registered s x \<and> pid (heap s x) = p" if "search_process p s = Some x"
    using search_process_in_correct(1) [OF that [unfolded search_process_def]] by (simp add: registered_def)
next
  assume x: "registered s x \<and> pid (heap s x) = p"
  show "search_process p s = Some x"
  proof (cases "search_process p s")
    case None
    then show ?thesis
      using search_process_in_correct(2) [OF None [unfolded search_process_def], of x] x by (simp add: registered_def)
  next
    case (Some y)
    then have "registered s y \<and> pid (heap s y) = p"
      using search_process_in_correct(1) [OF Some [unfolded search_process_def]] by (simp add: registered_def)
    then show ?thesis using registered_inj [OF tab, of x y] x Some by simp
  qed
qed

lemma search_process_by_index:
  assumes tab: "table_ok s" and p: "0 \<le> p" "p < n_processes s"
  shows "search_process p s = processes s ! nat p" "processes s ! nat p \<noteq> None"
proof -
  have i: "nat p < N_PROCESSES" using p table_okD(4) [OF tab] tab by (auto simp: table_ok_def)
  then have "processes s ! nat p \<noteq> None" using tab p by (auto simp: table_ok_def)
  then obtain x where x: "processes s ! nat p = Some x" by blast
  moreover have "length (processes s) = N_PROCESSES" "pid (heap s x) = p"
    using tab i x p by (auto simp: table_ok_def)
  moreover have "registered s x" unfolding registered_def x [symmetric] using i calculation(2) by simp
  ultimately show "search_process p s = processes s ! nat p" "processes s ! nat p \<noteq> None"
    using search_process_iff [OF tab] by auto
qed

lemma free_descriptor_from_correct:
  "free_descriptor_from i fs = -1 \<and> 0 \<notin> set fs \<or>
   (\<exists>k < length fs. free_descriptor_from i fs = i + int k \<and> fs ! k = 0 \<and> (\<forall>j < k. fs ! j \<noteq> 0))"
  if "0 \<le> i"
  using that
proof (induction fs arbitrary: i)
  case (Cons f fs)
  show ?case
  proof (cases "f = 0")
    case False
    from Cons.IH [of "i + 1"] Cons.prems consider
      "free_descriptor_from (i + 1) fs = -1" "0 \<notin> set fs"
    | k where "k < length fs" "free_descriptor_from (i + 1) fs = i + 1 + int k" "fs ! k = 0" "\<forall>j < k. fs ! j \<noteq> 0"
      by force
    then show ?thesis
    proof cases
      case 2
      then show ?thesis using False by (intro disjI2 exI [of _ "Suc k"]) (auto simp: nth_Cons split: nat.splits)
    qed (use False in simp)
  qed auto
qed simp

subsection \<open>Waiting and yielding\<close>

lemma syscall_yield_ok:
  assumes "well_formed s"
  shows "\<exists>t. syscall_yield s = Some t \<and> well_formed t"
proof -
  have "well_formed (upd_pcb (current_process s) (\<lambda>P. P\<lparr>counter := 0\<rparr>) s)" using assms by simp
  from schedule_ok [OF this] show ?thesis by (simp add: syscall_yield_def)
qed

lemma waiting_well_formed:
  assumes wf: "well_formed s" and run: "state (heap s (current_process s)) = PROCESS_RUNNING"
  shows "well_formed (upd_pcb (current_process s) (\<lambda>P. P\<lparr>pid_to_wait := p\<rparr>)
    (upd_pcb (current_process s) (\<lambda>P. P\<lparr>state := PROCESS_WAITING_ANOTHER_PROCESS\<rparr>) s))"
proof -
  obtain rq mls where inv: "sched_inv s rq mls" using wf by (auto simp: well_formed_def)
  have "sched_inv (upd_pcb (current_process s) (\<lambda>P. P\<lparr>state := PROCESS_WAITING_ANOTHER_PROCESS\<rparr>) s) rq mls"
    by (rule sched_inv_block [OF inv run]) simp
  then have "well_formed (upd_pcb (current_process s) (\<lambda>P. P\<lparr>state := PROCESS_WAITING_ANOTHER_PROCESS\<rparr>) s)"
    unfolding well_formed_def by blast
  then show ?thesis by (simp add: well_formed_upd)
qed

end
