(* ===== verification/Kernel_Run.thy ===== *)
theory Kernel_Run
  imports Syscalls
begin

text \<open>
  Runs of the kernel: the events that change the process table, the queues and the page allocator,
  as a step relation, the states reachable from the initial one, and what holds in all of them.
  Each event is one handler of the kernel, run without interruption. An event that blocks, waits
  or exits is only taken by a process that is running.
\<close>

subsection \<open>The allocator only takes pages\<close>

named_theorems alloc_simps \<open>what leaves the page allocator alone\<close>

lemma free_frames_cong: "memory_pages m' = memory_pages m \<Longrightarrow> free_frames m' = free_frames m"
  by (simp add: free_frames_def)

lemma free_frames_writes [alloc_simps]:
  "free_frames (store a v m) = free_frames m" "free_frames (memzero a n m) = free_frames m"
  "free_frames (memcpy d s n m) = free_frames m" "free_frames (map_table_entry t va pa m) = free_frames m"
  by (rule free_frames_cong; simp add: store_def memzero_def memcpy_def map_table_entry_def)+

lemma get_free_page_mono: "get_free_page m = (p, m') \<Longrightarrow> free_frames m' \<subseteq> free_frames m"
  using get_free_page_ok [of m] get_free_page_none [of m] by (cases "free_frames m = {}") auto

lemma map_table_mono: "map_table t sh va m = (n, c, m') \<Longrightarrow> free_frames m' \<subseteq> free_frames m"
  by (auto simp: map_table_def Let_def alloc_simps split: if_splits prod.splits dest!: get_free_page_mono)

lemma ensure_pgd_mono: "ensure_pgd d m = Some (d', m') \<Longrightarrow> free_frames m' \<subseteq> free_frames m"
  by (auto simp: ensure_pgd_def Let_def bind_eq_Some_conv alloc_simps split: if_splits prod.splits
      dest!: get_free_page_mono)

lemma map_page_mono:
  assumes "map_page d va pa m = Some (d', m')"
  shows "free_frames m' \<subseteq> free_frames m"
proof -
  obtain d1 m1 where e: "ensure_pgd d m = Some (d1, m1)"
    using assms by (auto simp: map_page_def bind_eq_Some_conv)
  obtain pud c1 m2 where t1: "map_table (pgd d1 + VA_START) PGD_SHIFT va m1 = (pud, c1, m2)" by (rule prod_cases3)
  obtain pmd c2 m3 where t2: "map_table (pud + VA_START) PUD_SHIFT va m2 = (pmd, c2, m3)" by (rule prod_cases3)
  obtain pte c3 m4 where t3: "map_table (pmd + VA_START) PMD_SHIFT va m3 = (pte, c3, m4)" by (rule prod_cases3)
  have "m' = map_table_entry (pte + VA_START) va pa m4"
    using assms unfolding map_page_def Let_def e by (auto simp: t1 t2 t3 bind_eq_Some_conv)
  then show ?thesis
    using ensure_pgd_mono [OF e] map_table_mono [OF t1] map_table_mono [OF t2] map_table_mono [OF t3]
    by (simp add: alloc_simps)
qed

lemma allocate_user_page_mono:
  "allocate_user_page d va m = Some (p, d', m') \<Longrightarrow> free_frames m' \<subseteq> free_frames m"
  by (auto simp: allocate_user_page_def bind_eq_Some_conv split: prod.splits if_splits
      dest!: get_free_page_mono map_page_mono)

lemma copy_pages_mono: "copy_pages ps d m = Some (r, d', m') \<Longrightarrow> free_frames m' \<subseteq> free_frames m"
proof (induction ps arbitrary: d m)
  case (Cons p ps)
  then obtain a d1 m1 where a: "allocate_user_page d (virtual_address p) m = Some (a, d1, m1)"
    by (auto simp: bind_eq_Some_conv)
  show ?case
  proof (cases "a = 0")
    case True
    then show ?thesis using Cons.prems allocate_user_page_mono [OF a] by (simp add: a)
  next
    case False
    then have "copy_pages ps d1 (memcpy a (physical_address p + VA_START) PAGE_SIZE (memzero a PAGE_SIZE m1)) = Some (r, d', m')"
      using Cons.prems by (simp add: a Let_def)
    from Cons.IH [OF this] show ?thesis using allocate_user_page_mono [OF a] by (auto simp: alloc_simps)
  qed
qed simp

lemma copy_virtual_memory_mono:
  "copy_virtual_memory src d m = Some (r, d', m') \<Longrightarrow> free_frames m' \<subseteq> free_frames m"
  by (auto simp: copy_virtual_memory_def split: if_splits dest: copy_pages_mono)

subsection \<open>Creating a process, in any mode\<close>

text \<open>Starting the child writes its own PCB and registers, and allocates pages.\<close>

lemma start_child_frame:
  assumes "start_child fl func arg p k = Some k'"
  shows "\<exists>f. sched k' = upd_pcb p f (sched k)" "free_frames (mem k') \<subseteq> free_frames (mem k)"
proof -
  have "(\<exists>f. sched k' = upd_pcb p f (sched k)) \<and> free_frames (mem k') \<subseteq> free_frames (mem k)"
  proof (cases "fl AND PF_KTHREAD = 0")
    case False
    then show ?thesis using assms unfolding start_child_def by auto
  next
    case True
    then obtain r dm m where m: "copy_virtual_memory (mm (current_pcb k)) (mm (heap (sched k) p)) (mem k) = Some (r, dm, m)"
      and k': "sched k' = upd_pcb p (\<lambda>P. P\<lparr>mm := dm\<rparr>) (sched k)" "mem k' = m"
      using assms unfolding start_child_def
      by (auto simp: Let_def bind_eq_Some_conv current_pcb_def)
    then show ?thesis using copy_virtual_memory_mono [OF m] by blast
  qed
  then show "\<exists>f. sched k' = upd_pcb p f (sched k)" "free_frames (mem k') \<subseteq> free_frames (mem k)" by blast+
qed

definition kernel_ok :: "kernel_state \<Rightarrow> bool" where
  "kernel_ok k \<longleftrightarrow> well_formed (sched k) \<and> pcb_pages_ok k"

lemma pcb_pages_ok_cong:
  assumes "pcb_pages_ok k" "registered (sched k') = registered (sched k)" "free_frames (mem k') \<subseteq> free_frames (mem k)"
  shows "pcb_pages_ok k'"
  using assms unfolding pcb_pages_ok_def by (metis subsetD)

text \<open>The three ways a call of \<^verbatim>\<open>copy_process\<close> ends: no page, no slot in the table, or a new process.\<close>

definition before_child :: "ulong \<Rightarrow> kernel_state \<Rightarrow> kernel_state" where
  "before_child page k =
     set_sched (upd_pcb (pcb_page page) (\<lambda>P. P\<lparr>cpu_context := zero_context, files := replicate MAX_FILES_PER_PROCESS 0\<rparr>))
       (k\<lparr>user_regs := (user_regs k)(pcb_page page := zero_regs)\<rparr>)"

lemma copy_process_steps:
  assumes ok: "kernel_ok k" and r: "copy_process rff fl func arg k = Some (r, k')"
  obtains (no_page) "r = -1" "k' = set_sched preempt_disable k"
  | (full) page where "r = -1" "allocate_pcb (set_sched preempt_disable k) = (page, k')" "\<not> registered (sched k) (pcb_page page)"
      "sched k' = upd_pcb (pcb_page page) (\<lambda>_. zero_pcb) (sched (set_sched preempt_disable k))" "pcb_pages_ok k'"
  | (created) page k2 i k5 u rq' mls' where "r = n_processes (sched k) \<and> r < int N_PROCESSES" "\<not> registered (sched k) (pcb_page page)"
      "sched k2 = upd_pcb (pcb_page page) (\<lambda>_. zero_pcb) (sched (set_sched preempt_disable k))" "user_regs k2 = user_regs k"
      "pcb_pages_ok k2" "i < N_PAGES" "page = frame i + VA_START" "i \<notin> free_frames (mem k2)"
      "start_child fl func arg (pcb_page page) (before_child page k2) = Some k5"
      "sched k' = preempt_enable u" "mem k' = mem k5" "user_regs k' = user_regs k5" "sched_inv u rq' mls'"
      "processes u = (processes (sched k))[nat (n_processes (sched k)) := Some (pcb_page page)]"
      "cpu_context (heap u (pcb_page page)) = (cpu_context (heap (sched k5) (pcb_page page)))\<lparr>pc := rff, sp := task_pt_regs page\<rparr>"
      "current_process u = current_process (sched k)" "\<forall>x. x \<noteq> pcb_page page \<longrightarrow> state (heap u x) = state (heap (sched k) x)"
proof -
  obtain rq mls where inv: "sched_inv (sched k) rq mls" using ok by (auto simp: kernel_ok_def well_formed_def)
  have pages: "pcb_pages_ok k" using ok by (simp add: kernel_ok_def)
  let ?k1 = "set_sched preempt_disable k"
  have inv1: "sched_inv (sched ?k1) rq mls" using inv by simp
  have pages1: "pcb_pages_ok ?k1" by (rule pcb_pages_ok_cong [OF pages]) simp_all
  show thesis
  proof (cases "free_frames (mem k) = {}")
    case True
    then show thesis using no_page r unfolding copy_process_no_page [OF True] by simp
  next
    case False
    then have "free_frames (mem ?k1) \<noteq> {}" by simp
    from allocate_pcb_ok [OF this pages1] obtain page k2 i where
      a: "allocate_pcb ?k1 = (page, k2)" "page \<noteq> 0" "\<not> registered (sched ?k1) (pcb_page page)"
        "sched k2 = upd_pcb (pcb_page page) (\<lambda>_. zero_pcb) (sched ?k1)" "pcb_pages_ok k2"
        "i < N_PAGES" "page = frame i + VA_START" "i \<notin> free_frames (mem k2)" by blast
    let ?new = "pcb_page page"
    have new: "\<not> registered (sched k) ?new" using a(3) by simp
    have keep: "sched_inv (upd_pcb ?new f (sched ?k1)) rq mls" for f
      by (rule sched_inv_upd_unregistered [OF inv1]) (use new in simp)
    have ur: "user_regs k2 = user_regs k"
      using a(1) by (auto simp: allocate_pcb_def set_sched_def Let_def split: prod.splits if_splits)
    show thesis
    proof (cases "n_processes (sched k2) \<ge> int N_PROCESSES")
      case True
      then have "r = -1" "k' = k2" using r unfolding copy_process_def Let_def a(1) by simp_all
      then show thesis using full a(1,4,5) new by simp
    next
      case False
      let ?k4 = "before_child page k2"
      obtain k5 where k5: "start_child fl func arg ?new ?k4 = Some k5"
        using r a(2) False unfolding copy_process_def Let_def a(1) by (auto simp: before_child_def bind_eq_Some_conv)
      let ?P = "init_child rff fl page (n_processes (sched k5)) (current_pcb k5)"
      let ?k6 = "set_sched (upd_pcb ?new ?P) k5"
      obtain err s where add: "add_process_to_scheduler ?new (sched ?k6) = Some (err, s)"
        using r a(2) False unfolding copy_process_def Let_def a(1) by (auto simp: k5 [unfolded before_child_def] bind_eq_Some_conv)
      have rk: "Some (r, k') = (if err < 0 then Some (-1, ?k6\<lparr>sched := s\<rparr>)
        else Some (n_processes (sched k5), set_sched preempt_enable (?k6\<lparr>sched := s\<rparr>)))"
        using r a(2) False add unfolding copy_process_def Let_def a(1) by (simp add: k5 [unfolded before_child_def])
      from start_child_frame [OF k5] obtain f where f: "sched k5 = upd_pcb ?new f (sched ?k4)" by auto
      let ?g = "\<lambda>_. ?P (f (zero_pcb\<lparr>cpu_context := zero_context, files := replicate MAX_FILES_PER_PROCESS 0\<rparr>))"
      let ?t = "upd_pcb ?new ?g (sched ?k1)"
      have t: "sched ?k6 = ?t"
        unfolding set_sched_fields(1) [of _ k5] by (simp add: f a(4) before_child_def upd_pcb_twice)
      have cur: "current_process (sched k) \<noteq> ?new" using sched_invD(4) [OF inv] new by auto
      have par: "current_pcb k5 = heap (sched ?k1) (current_process (sched k))" "n_processes (sched k5) = n_processes (sched k)"
        using cur by (simp_all add: current_pcb_def f a(4) before_child_def preempt_disable_def)
      note B = table_okD(4,5) [OF sched_invD(2) [OF inv] sched_invD(4) [OF inv]]
      have fr: "fresh ?t ?new"
        using new B unfolding fresh_def by (simp add: init_child_def par preempt_disable_def)
      have n: "\<not> n_processes ?t \<ge> int N_PROCESSES" using False by (simp add: a(4))
      from add_process_ok [OF keep fr] obtain u rq' mls' where
        u: "add_process_to_scheduler ?new ?t = Some (0, u)" "sched_inv u rq' mls'"
          "processes u = (processes ?t)[nat (n_processes ?t) := Some ?new]"
          "\<forall>x. cpu_context (heap u x) = cpu_context (heap ?t x)"
          "current_process u = current_process ?t" "\<forall>x. state (heap u x) = state (heap ?t x)" unfolding if_not_P [OF n] by blast
      have e: "err = 0" "s = u" using add unfolding t u(1) by simp_all
      then have k': "k' = set_sched preempt_enable (?k6\<lparr>sched := u\<rparr>)" "r = n_processes (sched k) \<and> r < int N_PROCESSES"
        using rk par(2) n by simp_all
      have "cpu_context (heap u ?new) = (cpu_context (heap (sched k5) ?new))\<lparr>pc := rff, sp := task_pt_regs page\<rparr>"
        unfolding u(4) [rule_format] t [symmetric] by (simp add: set_sched_def init_child_def upd_pcb_def)
      then show thesis
        using created [OF k'(2) new a(4) ur a(5-8) k5 _ _ _ u(2)] u(3,5,6) by (simp add: k'(1))
    qed
  qed
qed

lemma copy_process_keeps:
  assumes ok: "kernel_ok k" and r: "copy_process rff fl func arg k = Some (r, k')"
  shows "kernel_ok k'"
proof -
  obtain rq mls where inv: "sched_inv (sched k) rq mls" using ok by (auto simp: kernel_ok_def well_formed_def)
  then have inv1: "sched_inv (sched (set_sched preempt_disable k)) rq mls" by simp
  from ok r show ?thesis
  proof (cases rule: copy_process_steps)
    case no_page
    then show ?thesis using inv1 ok pcb_pages_ok_cong [of k k'] by (auto simp: kernel_ok_def well_formed_def)
  next
    case (full page)
    have "sched_inv (sched k') rq mls"
      unfolding full(4) by (rule sched_inv_upd_unregistered [OF inv1]) (use full(3) in simp)
    then show ?thesis using full(5) by (auto simp: kernel_ok_def well_formed_def)
  next
    case (created page k2 i k5 u rq' mls')
    let ?new = "pcb_page page"
    have "processes (sched k') = (processes (sched k))[nat (n_processes (sched k)) := Some ?new]"
      using created(10,14) by simp
    then have reg: "registered (sched k) x \<or> x = ?new" if "registered (sched k') x" for x
      using that set_update_subset_insert [of "processes (sched k)"] unfolding registered_def by fastforce
    have ff: "free_frames (mem k') \<subseteq> free_frames (mem k2)"
      using start_child_frame(2) [OF created(9)] created(11) by (simp add: before_child_def)
    have "pcb_pages_ok k'"
      unfolding pcb_pages_ok_def
    proof (intro allI impI)
      fix x assume "registered (sched k') (pcb_page x)"
      then consider "registered (sched k2) (pcb_page x)" | "x = page" using reg created(3) by fastforce
      then have "\<exists>i<N_PAGES. x = frame i + VA_START \<and> i \<notin> free_frames (mem k2)"
      proof cases
        case 1
        then show ?thesis using created(5) by (simp add: pcb_pages_ok_def)
      next
        case 2
        then show ?thesis using created(6,7,8) by blast
      qed
      then show "\<exists>i<N_PAGES. x = frame i + VA_START \<and> i \<notin> free_frames (mem k')" using ff by blast
    qed
    moreover have "well_formed (sched k')" using created(10,13) by (auto simp: well_formed_def [of u])
    ultimately show ?thesis by (simp add: kernel_ok_def)
  qed
qed

text \<open>The child of a user process: it starts at \<open>rff\<close> on the frame of its page, which holds the registers
  of its parent with 0 as the result of the call.\<close>

lemma forked_child:
  assumes ok: "kernel_ok k" and r: "copy_process rff 0 func arg k = Some (r, k')" "r \<noteq> -1"
  shows "\<exists>page. r = n_processes (sched k) \<and> processes (sched k') ! nat r = Some (pcb_page page) \<and>
    cpu_context (heap (sched k') (pcb_page page)) = zero_context\<lparr>pc := rff, sp := task_pt_regs page\<rparr> \<and>
    user_regs k' (pcb_page page) = (let p = user_regs k (current_process (sched k)) in p\<lparr>registers := (registers p)[0 := 0]\<rparr>) \<and>
    user_regs k' (current_process (sched k)) = user_regs k (current_process (sched k))"
  using ok r(1)
proof (cases rule: copy_process_steps)
  case (created page k2 i k5 u rq' mls')
  let ?new = "pcb_page page" and ?k4 = "before_child page k2"
  obtain rq mls where inv: "sched_inv (sched k) rq mls" using ok by (auto simp: kernel_ok_def well_formed_def)
  have cur: "current_process (sched k) \<noteq> ?new" "current_process (sched ?k4) = current_process (sched k)"
    using sched_invD(4) [OF inv] created(2,3) by (auto simp: before_child_def)
  obtain m dm where k5: "sched k5 = upd_pcb ?new (\<lambda>P. P\<lparr>mm := dm\<rparr>) (sched ?k4)" and
    ur: "user_regs k5 = (user_regs ?k4)(?new := (let p = user_regs ?k4 (current_process (sched ?k4)) in p\<lparr>registers := (registers p)[0 := 0]\<rparr>))"
    using created(9) unfolding start_child_def by (auto simp: Let_def bind_eq_Some_conv set_sched_def)
  have "cpu_context (heap u ?new) = zero_context\<lparr>pc := rff, sp := task_pt_regs page\<rparr>"
    unfolding created(15) k5 by (simp add: before_child_def set_sched_def upd_pcb_def)
  then have ctx: "cpu_context (heap (sched k') ?new) = zero_context\<lparr>pc := rff, sp := task_pt_regs page\<rparr>"
    unfolding created(10) by (auto simp: preempt_enable_def upd_pcb_def)
  have n: "nat (n_processes (sched k)) < length (processes (sched k))"
    using created(1) table_okD(1,7) [OF sched_invD(2) [OF inv]] by (simp add: nat_less_iff)
  show ?thesis
    using created(1,10,14) ctx n cur ur created(4,12) by (intro exI [of _ page]) (simp add: before_child_def)
qed (use r(2) in simp_all)

subsection \<open>The events\<close>

definition waiting_states :: "process_state set" where
  "waiting_states = {PROCESS_WAITING_UART_INPUT, PROCESS_WAITING_TO_RECEIVE_MESSAGE,
     PROCESS_WAITING_TO_SEND_MESSAGE}"

definition is_running :: "sched_state \<Rightarrow> bool" where
  "is_running s \<longleftrightarrow> state (heap s (current_process s)) = PROCESS_RUNNING"

inductive sched_step :: "sched_state \<Rightarrow> sched_state \<Rightarrow> bool" where
  tick: "handle_timer_tick s = Some t \<Longrightarrow> sched_step s t"
| yield: "syscall_yield s = Some t \<Longrightarrow> sched_step s t"
| block: "is_running s \<Longrightarrow> st \<in> waiting_states \<Longrightarrow>
    schedule (upd_pcb (current_process s) (\<lambda>P. P\<lparr>state := st\<rparr>) s) = Some t \<Longrightarrow> sched_step s t"
| wait: "is_running s \<Longrightarrow> syscall_wait p s = Some (r, t) \<Longrightarrow> sched_step s t"
| exit: "is_running s \<Longrightarrow> current_process s \<noteq> init_process \<Longrightarrow> syscall_exit s = Some t \<Longrightarrow> sched_step s t"
| signal: "syscall_send_signal p sig s = Some (r, t) \<Longrightarrow> sched_step s t"
| param: "v \<le> 2 ^ 31 - 1 \<Longrightarrow> syscall_set_sched_param p param v s = Some (r, t) \<Longrightarrow> sched_step s t"
| wake: "st \<in> waiting_states \<Longrightarrow> set es \<subseteq> set (processes s) \<Longrightarrow> foldM (wake_if st) es s = Some t \<Longrightarrow>
    sched_step s t"

inductive kernel_step :: "kernel_state \<Rightarrow> kernel_state \<Rightarrow> bool" where
  schedule_event: "sched_step (sched k) t \<Longrightarrow> kernel_step k (k\<lparr>sched := t\<rparr>)"
| create: "copy_process rff fl func arg k = Some (r, k') \<Longrightarrow> kernel_step k k'"
| allocate: "syscall_malloc k = (a, k') \<Longrightarrow> kernel_step k k'"

definition init_kernel :: "SchedAlgorithm \<Rightarrow> (nat \<Rightarrow> uint32) \<Rightarrow> mm_state \<Rightarrow> kernel_state" where
  "init_kernel alg clo m = \<lparr>sched = init_sched alg clo, mem = m, user_regs = (\<lambda>_. zero_regs)\<rparr>"

inductive reachable :: "kernel_state \<Rightarrow> bool" where
  start: "reachable (init_kernel alg clo m)"
| step: "reachable k \<Longrightarrow> kernel_step k k' \<Longrightarrow> reachable k'"

inductive_cases sched_stepE: "sched_step s t"
inductive_cases kernel_stepE: "kernel_step k k'"

subsection \<open>What an event does to the table and to the states\<close>

text \<open>Processes stay in their slots; a process that is over, or stopped, and does not have the CPU
  keeps its state; and the process that has the CPU afterwards is running.\<close>

definition over :: "process_state set" where
  "over = {PROCESS_ZOMBIE, PROCESS_STOPPED}"

definition gentle :: "sched_state \<Rightarrow> sched_state \<Rightarrow> bool" where
  "gentle s t \<longleftrightarrow> processes t = processes s \<and>
     (\<forall>p. registered s p \<longrightarrow> p \<noteq> init_process \<longrightarrow> p \<noteq> current_process s \<longrightarrow>
        state (heap s p) \<in> over \<longrightarrow> p \<noteq> current_process t \<and> state (heap t p) = state (heap s p)) \<and>
     (is_running s \<longrightarrow> is_running t)"

lemma gentle_dispatched:
  assumes d: "dispatched z t" and z: "processes z = processes s"
    and st: "\<And>p. p \<noteq> current_process s \<Longrightarrow> state (heap s p) \<in> over \<Longrightarrow> state (heap z p) = state (heap s p)"
  shows "gentle s t"
proof -
  have reg: "registered z = registered s" using z by (simp add: registered_def fun_eq_iff)
  have "p \<noteq> current_process t \<and> state (heap t p) = state (heap s p)"
    if "registered s p" "p \<noteq> init_process" "p \<noteq> current_process s" "state (heap s p) \<in> over" for p
  proof -
    have "registered z p" "state (heap z p) \<in> over" "state (heap z p) = state (heap s p)"
      using that st reg by simp_all
    then show ?thesis using d that(2) unfolding dispatched_def over_def
      by (smt (verit) insert_iff empty_iff process_state.distinct)
  qed
  moreover have "processes t = processes s" "is_running t"
    using d z by (simp_all add: dispatched_def is_running_def)
  ultimately show ?thesis by (simp add: gentle_def)
qed

lemma gentle_same:
  assumes "processes t = processes s" "current_process t = current_process s"
    "\<And>p. state (heap t p) = state (heap s p)"
  shows "gentle s t"
  using assms by (simp add: gentle_def is_running_def)

lemma well_formed_table: "well_formed s \<Longrightarrow> table_ok s"
  by (auto simp: well_formed_def dest: sched_invD(2))

lemma schedule_gentle:
  assumes wf: "well_formed (upd_pcb (current_process s) f s)"
  shows "\<exists>t. schedule (upd_pcb (current_process s) f s) = Some t \<and> well_formed t \<and> gentle s t"
proof -
  from schedule_dispatched [OF wf] obtain t z where
    t: "schedule (upd_pcb (current_process s) f s) = Some t" "well_formed t" "dispatched z t"
      "\<forall>x. state (heap z x) = state (heap (upd_pcb (current_process s) f s) x)"
      "processes z = processes (upd_pcb (current_process s) f s)" by blast
  have "gentle s t" by (rule gentle_dispatched [OF t(3)]) (use t(4,5) in simp_all)
  then show ?thesis using t(1,2) by blast
qed

lemma tick_ok:
  assumes wf: "well_formed s" and t: "handle_timer_tick s = Some t"
  shows "well_formed t \<and> gentle s t"
proof -
  from handle_timer_tick_ok [OF wf] obtain u where
    u: "tick_frame (ticked s) u" "well_formed t"
    and cases: "if counter (heap s (current_process s)) > 1 \<or> preempt_disabled (heap s (current_process s)) > 0 then t = u
     else if \<not> is_preemptive (active_algorithm s) then t = upd_pcb (current_process s) (\<lambda>P. P\<lparr>counter := 0\<rparr>) u
     else dispatched (upd_pcb (current_process s) (\<lambda>P. P\<lparr>counter := 0\<rparr>) u) t"
    using t by auto
  have fr: "processes u = processes s" "current_process u = current_process s"
    using u(1) by (simp_all add: tick_frame_def ticked_def)
  have st: "state (heap u p) = state (heap s p)" for p
  proof -
    have "state (payload (heap u) p) = state (payload (heap (ticked s)) p)"
      using u(1) by (simp add: tick_frame_def)
    then show ?thesis by (simp add: ticked_def)
  qed
  let ?z = "upd_pcb (current_process s) (\<lambda>P. P\<lparr>counter := 0\<rparr>) u"
  from cases consider "t = u" | "t = ?z" | "dispatched ?z t" by (auto split: if_splits)
  then have "gentle s t"
  proof cases
    case 3
    then show ?thesis by (rule gentle_dispatched) (simp_all add: fr st)
  qed (simp_all add: gentle_same fr st)
  then show ?thesis using u(2) by simp
qed

lemma exit_ok:
  assumes wf: "well_formed s" and run: "is_running s" and c: "current_process s \<noteq> init_process"
    and t: "syscall_exit s = Some t"
  shows "well_formed t \<and> gentle s t"
proof -
  let ?c = "current_process s" and ?x = "pid (heap s (current_process s))"
  let ?s2 = "upd_pcb ?c (\<lambda>P. P\<lparr>state := PROCESS_ZOMBIE\<rparr>) (preempt_disable s)"
  obtain rq mls where inv: "sched_inv (preempt_disable s) rq mls" using wf by (auto simp: well_formed_def)
  have "sched_inv ?s2 rq mls" using sched_inv_block [OF inv, of PROCESS_ZOMBIE] run by (simp add: is_running_def)
  from wake_waiters [OF this order.refl, of ?x] obtain u rq' mls' where
    u: "foldM (wake_waiter ?x) (processes ?s2) ?s2 = Some u" "sched_inv u rq' mls'"
      "view u = (view ?s2)\<lparr>heap := \<lambda>p. if Some p \<in> set (processes ?s2) then woken ?x (heap (view ?s2) p) else heap (view ?s2) p\<rparr>"
    by blast
  have st: "state (heap u p) = state (heap s p)" if "p \<noteq> ?c" "state (heap s p) \<in> over" for p
    using arg_cong [OF u(3), of "\<lambda>v. state (heap v p)"] that by (auto simp: over_def woken_def preempt_disable_def)
  have pr: "processes u = processes s" using arg_cong [OF u(3), of processes] by simp
  have "well_formed (preempt_enable u)" using u(2) by (auto simp: well_formed_def)
  from schedule_dispatched [OF this] obtain t' z where
    d: "schedule (preempt_enable u) = Some t'" "well_formed t'" "dispatched z t'" "processes z = processes u"
      "\<And>x. state (heap z x) = state (heap u x)" by auto
  have "t' = t" using t u(1) d(1) by (simp add: syscall_exit_def exit_process_def Let_def preempt_disable_def)
  moreover have "gentle s t'" by (rule gentle_dispatched [OF d(3)]) (simp_all add: d(4,5) pr st)
  ultimately show ?thesis using d(2) by simp
qed

lemma schedule_current_ok:
  assumes wf: "well_formed s" and run: "is_running s" and st: "st \<in> {PROCESS_WAITING_ANOTHER_PROCESS} \<union> waiting_states"
    and f: "\<And>P. f P = P\<lparr>state := st\<rparr> \<or> f P = P\<lparr>state := st, pid_to_wait := w\<rparr>"
    and t: "schedule (upd_pcb (current_process s) f s) = Some t"
  shows "well_formed t \<and> gentle s t"
proof -
  obtain rq mls where inv: "sched_inv s rq mls" using wf by (auto simp: well_formed_def)
  have "sched_inv (upd_pcb (current_process s) (\<lambda>P. P\<lparr>state := st\<rparr>) s) rq mls"
    by (rule sched_inv_block [OF inv]) (use run st in \<open>auto simp: is_running_def waiting_states_def\<close>)
  then have "well_formed (upd_pcb (current_process s) (\<lambda>P. P\<lparr>state := st\<rparr>) s)" by (auto simp: well_formed_def)
  moreover from this have "well_formed (upd_pcb (current_process s) (\<lambda>P. P\<lparr>state := st, pid_to_wait := w\<rparr>) s)"
    using well_formed_upd [of "\<lambda>P. P\<lparr>pid_to_wait := w\<rparr>" "current_process s" "upd_pcb (current_process s) (\<lambda>P. P\<lparr>state := st\<rparr>) s"]
    by (simp add: upd_pcb_twice)
  moreover have "upd_pcb (current_process s) f s = upd_pcb (current_process s) (\<lambda>P. P\<lparr>state := st\<rparr>) s \<or>
      upd_pcb (current_process s) f s = upd_pcb (current_process s) (\<lambda>P. P\<lparr>state := st, pid_to_wait := w\<rparr>) s"
    using f [of "heap s (current_process s)"] by (auto simp: upd_pcb_def)
  ultimately have "well_formed (upd_pcb (current_process s) f s)" by auto
  from schedule_gentle [OF this] show ?thesis using t by auto
qed

lemma wait_ok:
  assumes wf: "well_formed s" and run: "is_running s" and r: "syscall_wait p s = Some (r, t)"
  shows "well_formed t \<and> gentle s t"
proof -
  let ?f = "\<lambda>P. P\<lparr>state := PROCESS_WAITING_ANOTHER_PROCESS, pid_to_wait := p\<rparr>"
  consider "t = s" | "schedule (upd_pcb (current_process s) ?f s) = Some t"
    using r by (auto simp: syscall_wait_def bind_eq_Some_conv upd_pcb_twice split: option.splits if_splits)
  then show ?thesis
  proof cases
    case 1
    then show ?thesis using wf by (simp add: gentle_same)
  next
    case 2
    show ?thesis by (rule schedule_current_ok [OF wf run _ _ 2, of PROCESS_WAITING_ANOTHER_PROCESS p]) simp_all
  qed
qed

lemma signal_ok:
  assumes wf: "well_formed s" and r: "syscall_send_signal p sig s = Some (r, t)"
  shows "well_formed t \<and> gentle s t"
proof (cases "search_process p s")
  case None
  then show ?thesis using r wf by (simp add: syscall_send_signal_def gentle_same)
next
  case (Some d)
  then have "t = upd_pcb d (\<lambda>P. P\<lparr>pending_signals := pending_signals P OR push_bit (nat sig) 1\<rparr>) s"
    using r by (simp add: syscall_send_signal_def send_signal_def split: if_splits)
  then show ?thesis using wf by (simp add: well_formed_upd gentle_same link_free_def)
qed

lemma sched_set_param_frame:
  assumes "sched_set_param d param v s = Some (r, t)"
  shows "processes t = processes s" "current_process t = current_process s" "state (heap t p) = state (heap s p)"
  using assms
  by (auto simp: sched_set_param_def Let_def preempt_enable_def preempt_disable_def bind_eq_Some_conv
      split: option.splits if_splits)

lemma param_ok:
  assumes wf: "well_formed s" and v: "v \<le> 2 ^ 31 - 1" and r: "syscall_set_sched_param p param v s = Some (r, t)"
  shows "well_formed t \<and> gentle s t"
proof (cases "search_process p s")
  case None
  then show ?thesis using r wf by (simp add: syscall_set_sched_param_def gentle_same)
next
  case (Some d)
  obtain rq mls where inv: "sched_inv s rq mls" using wf by (auto simp: well_formed_def)
  have reg: "registered s d" using search_process_iff [OF sched_invD(2) [OF inv]] Some by blast
  have r': "sched_set_param (Some d) param v s = Some (r, t)" using r Some by (simp add: syscall_set_sched_param_def)
  from sched_set_param_ok [OF inv reg v, of param] have "sched_inv t rq mls" using r' by auto
  moreover have "gentle s t" by (rule gentle_same) (rule sched_set_param_frame [OF r'])+
  ultimately show ?thesis by (auto simp: well_formed_def)
qed

lemma wake_step_ok:
  assumes wf: "well_formed s" and st: "st \<in> waiting_states" and es: "set es \<subseteq> set (processes s)"
    and t: "foldM (wake_if st) es s = Some t"
  shows "well_formed t \<and> gentle s t"
proof -
  obtain rq mls where inv: "sched_inv s rq mls" using wf by (auto simp: well_formed_def)
  have "None \<notin> set es" using t foldM_wake_None by fastforce
  then have "map Some (map the es) = es" by (induction es) auto
  then obtain ps where ps: "es = map Some ps" by metis
  have sub: "set ps \<subseteq> {p. registered s p}" using es unfolding ps registered_def by auto
  have ne: "st \<noteq> PROCESS_READY" using st by (auto simp: waiting_states_def)
  from wake_all [OF inv sub ne] obtain rq' mls' where
    u: "sched_inv t rq' mls'"
      "view t = (view s)\<lparr>heap := \<lambda>p. if p \<in> set ps then woken_from st (heap (view s) p) else heap (view s) p\<rparr>"
    using t unfolding ps by auto
  have pr: "processes t = processes s" "current_process t = current_process s"
    using arg_cong [OF u(2), of processes] arg_cong [OF u(2), of current_process] by simp_all
  have "state (heap t p) = (if p \<in> set ps \<and> state (heap s p) = st then PROCESS_READY else state (heap s p))" for p
    using arg_cong [OF u(2), of "\<lambda>v. state (heap v p)"] by (simp add: woken_from_def)
  then have "gentle s t"
    using st pr unfolding gentle_def is_running_def by (auto simp: over_def waiting_states_def sched_invD)
  then show ?thesis using u(1) by (auto simp: well_formed_def)
qed

subsection \<open>All runs\<close>

lemma sched_step_ok:
  assumes "sched_step s t" "well_formed s"
  shows "well_formed t \<and> gentle s t"
  using assms
proof (induction rule: sched_step.induct)
  case (yield s t)
  have "well_formed (upd_pcb (current_process s) (\<lambda>P. P\<lparr>counter := 0\<rparr>) s)" using yield.prems by simp
  from schedule_dispatched [OF this] obtain u z where
    u: "schedule (upd_pcb (current_process s) (\<lambda>P. P\<lparr>counter := 0\<rparr>) s) = Some u" "well_formed u" "dispatched z u"
      "processes z = processes s" "\<And>x. state (heap z x) = state (heap s x)" by auto
  have "gentle s u" by (rule gentle_dispatched [OF u(3,4)]) (simp add: u(5))
  then show ?case using u(1,2) yield.hyps by (simp add: syscall_yield_def)
next
  case (block s st t)
  show ?case by (rule schedule_current_ok [OF block.prems block.hyps(1) _ _ block.hyps(3), of st 0]) (use block.hyps(2) in auto)
next
  case (tick s t)
  show ?case by (rule tick_ok [OF tick.prems tick.hyps])
next
  case (wait s p r t)
  show ?case by (rule wait_ok [OF wait.prems wait.hyps])
next
  case (exit s t)
  show ?case by (rule exit_ok [OF exit.prems exit.hyps])
next
  case (signal p sig s r t)
  show ?case by (rule signal_ok [OF signal.prems signal.hyps])
next
  case (param v p par s r t)
  show ?case by (rule param_ok [OF param.prems param.hyps])
next
  case (wake st es s t)
  show ?case by (rule wake_step_ok [OF wake.prems wake.hyps])
qed

lemma kernel_step_ok:
  assumes "kernel_step k k'" "kernel_ok k"
  shows "kernel_ok k'"
  using assms
proof (induction rule: kernel_step.induct)
  case (schedule_event k t)
  have wf: "well_formed (sched k)" and pages: "pcb_pages_ok k" using schedule_event.prems by (simp_all add: kernel_ok_def)
  note st = sched_step_ok [OF schedule_event.hyps wf]
  have "registered t = registered (sched k)" using st by (simp add: gentle_def registered_def fun_eq_iff)
  then have "pcb_pages_ok (k\<lparr>sched := t\<rparr>)" by (intro pcb_pages_ok_cong [OF pages]) simp_all
  then show ?case using st by (simp add: kernel_ok_def)
next
  case (create rff fl func arg k r k')
  then show ?case using copy_process_keeps by blast
next
  case (allocate k a k')
  obtain page m where g: "get_free_page (mem k) = (page, m)" by (cases "get_free_page (mem k)")
  then have "k' = k\<lparr>mem := m\<rparr>" using allocate.hyps
    by (auto simp: syscall_malloc_def allocate_kernel_page_def split: prod.splits if_splits)
  moreover have pages: "pcb_pages_ok k" using allocate.prems by (simp add: kernel_ok_def)
  have "pcb_pages_ok (k\<lparr>mem := m\<rparr>)"
    by (rule pcb_pages_ok_cong [OF pages]) (simp_all add: get_free_page_mono [OF g])
  ultimately show ?case using allocate.prems \<open>pcb_pages_ok (k\<lparr>mem := m\<rparr>)\<close> by (simp add: kernel_ok_def)
qed

lemma init_kernel_ok: "kernel_ok (init_kernel alg clo m)"
proof -
  have "registered (init_sched alg clo) p \<longleftrightarrow> p = init_process" for p
    by (auto simp: registered_def init_sched_def)
  moreover have "well_formed (init_sched alg clo)"
    unfolding well_formed_def using init_sched_inv by (intro exI)
  ultimately show ?thesis by (simp add: kernel_ok_def init_kernel_def pcb_pages_ok_def)
qed

lemma reachable_ok: "reachable k \<Longrightarrow> kernel_ok k"
  by (induction rule: reachable.induct) (simp_all add: init_kernel_ok kernel_step_ok)

text \<open>A process that is over, or stopped, and does not have the CPU: whatever event comes, it stays
  so, in its slot of the process table.\<close>

definition settled :: "kernel_state \<Rightarrow> pcb_id \<Rightarrow> process_state \<Rightarrow> bool" where
  "settled k p st \<longleftrightarrow> p \<noteq> current_process (sched k) \<and> registered (sched k) p \<and> state (heap (sched k) p) = st"

lemma settled_slot:
  assumes "kernel_ok k" "i < N_PROCESSES" "processes (sched k) ! i = Some p" "p \<noteq> current_process (sched k)"
  shows "settled k p (state (heap (sched k) p))"
proof -
  have "length (processes (sched k)) = N_PROCESSES"
    using assms(1) by (auto simp: kernel_ok_def well_formed_def dest: sched_invD(2) table_okD(1))
  then have "Some p \<in> set (processes (sched k))" using assms(2) nth_mem [of i "processes (sched k)"] by (simp add: assms(3))
  then show ?thesis using assms(4) by (simp add: settled_def registered_def)
qed

lemma copy_process_settled:
  assumes ok: "kernel_ok k" and r: "copy_process rff fl func arg k = Some (r, k')" and p: "settled k p st"
  shows "settled k' p st \<and> (\<forall>i. processes (sched k) ! i = Some p \<longrightarrow> i < N_PROCESSES \<longrightarrow> processes (sched k') ! i = Some p)"
  using ok r
proof (cases rule: copy_process_steps)
  case no_page
  then show ?thesis using p by (simp add: settled_def registered_def)
next
  case (full page)
  then show ?thesis using p by (auto simp: settled_def registered_def)
next
  case (created page k2 i k5 u rq' mls')
  obtain rq mls where inv: "sched_inv (sched k) rq mls" using ok by (auto simp: kernel_ok_def well_formed_def)
  note T = table_okD [OF sched_invD(2) [OF inv]]
  have n: "nat (n_processes (sched k)) < N_PROCESSES" using created(1) T(7) by (simp add: nat_less_iff)
  have free: "processes (sched k) ! nat (n_processes (sched k)) = None" using T(6) [OF n] T(7) by simp
  have pr: "processes (sched k') = (processes (sched k))[nat (n_processes (sched k)) := Some (pcb_page page)]"
    using created(10,14) by simp
  have ne: "p \<noteq> pcb_page page" using p created(2) by (auto simp: settled_def)
  have keep: "processes (sched k') ! i = Some p" if "processes (sched k) ! i = Some p" for i
    using that free unfolding pr by (cases "i = nat (n_processes (sched k))") simp_all
  have "Some p \<in> set (processes (sched k))" using p by (simp add: settled_def registered_def)
  then obtain i where "i < length (processes (sched k))" "processes (sched k) ! i = Some p" by (auto simp: in_set_conv_nth)
  then have "registered (sched k') p" using keep [of i] nth_mem [of i "processes (sched k')"] by (simp add: registered_def pr)
  then show ?thesis using keep p ne created(10,16,17) by (simp add: settled_def)
qed

lemma kernel_step_settled:
  assumes "kernel_step k k'" "kernel_ok k" "settled k p st" "st \<in> over" "p \<noteq> init_process"
  shows "settled k' p st \<and> (\<forall>i. processes (sched k) ! i = Some p \<longrightarrow> i < N_PROCESSES \<longrightarrow> processes (sched k') ! i = Some p)"
  using assms
proof (induction rule: kernel_step.induct)
  case (schedule_event k t)
  have "gentle (sched k) t" using sched_step_ok [OF schedule_event.hyps] schedule_event.prems(1) by (simp add: kernel_ok_def)
  then show ?case using schedule_event.prems(2-4) by (simp add: settled_def gentle_def registered_def)
next
  case (create rff fl func arg k r k')
  show ?case by (rule copy_process_settled [OF create.prems(1) create.hyps create.prems(2)])
next
  case (allocate k a k')
  have "sched k' = sched k" using allocate.hyps
    by (auto simp: syscall_malloc_def allocate_kernel_page_def split: prod.splits if_splits)
  then show ?case using allocate.prems(2) by (simp add: settled_def)
qed

lemma run_settled:
  assumes "kernel_step\<^sup>*\<^sup>* k k'" "kernel_ok k" and p: "settled k p st" "st \<in> over" "p \<noteq> init_process"
  shows "kernel_ok k' \<and> settled k' p st \<and>
    (\<forall>i. processes (sched k) ! i = Some p \<longrightarrow> i < N_PROCESSES \<longrightarrow> processes (sched k') ! i = Some p)"
  using assms(1)
proof (induction rule: rtranclp_induct)
  case base
  then show ?case using assms(2) p(1) by simp
next
  case (step k1 k2)
  then have "kernel_ok k1" "settled k1 p st" by simp_all
  from kernel_step_settled [OF step.hyps(2) this p(2,3)] kernel_step_ok [OF step.hyps(2) \<open>kernel_ok k1\<close>] step.IH
  show ?case by blast
qed

end
