(* ===== verification/Sample_States.thy ===== *)
theory Sample_States
  imports Kernel_Run
begin

text \<open>
  Concrete scheduler states with two threads besides \<^verbatim>\<open>init_process\<close>, for any algorithm and
  any consistent choice of states and queue: the inputs at which the properties are instantiated.
\<close>

definition thread_a :: pcb_id where "thread_a = pcb_page 0xffff000000400000"
definition thread_b :: pcb_id where "thread_b = pcb_page 0xffff000000401000"

definition sample_pcb :: "int \<Rightarrow> process_state \<Rightarrow> PCB" where
  "sample_pcb i st = INIT_PROCESS\<lparr>pid := i, state := st\<rparr>"

definition sample_heap :: "PCB \<Rightarrow> PCB \<Rightarrow> pcb_id list \<Rightarrow> pcb_heap" where
  "sample_heap a b xs =
     (\<lambda>p. if p = init_process then INIT_PROCESS
          else if p = thread_a
            then a\<lparr>next_ready := if xs = [thread_a, thread_b] then Some thread_b else None\<rparr>
          else if p = thread_b then b\<lparr>next_ready := None\<rparr> else zero_pcb)"

definition sample_queue :: "pcb_id list \<Rightarrow> ProcessQueue" where
  "sample_queue xs = (if xs = [] then QUEUE_INIT else \<lparr>q_head = Some (hd xs), q_tail = Some (last xs)\<rparr>)"

definition sample :: "SchedAlgorithm \<Rightarrow> PCB \<Rightarrow> PCB \<Rightarrow> pcb_id \<Rightarrow> pcb_id list \<Rightarrow> sched_state" where
  "sample alg a b cur xs = (init_sched alg (\<lambda>_. 0))
     \<lparr>heap := sample_heap a b xs, current_process := cur,
      processes := [Some init_process, Some thread_a, Some thread_b] @ replicate (N_PROCESSES - 3) None,
      n_processes := 3,
      ready_queue := (if ml_policy alg = None then sample_queue xs else QUEUE_INIT),
      ml_queues := (if ml_policy alg = None then replicate ML_MAX_LEVELS QUEUE_INIT
                    else sample_queue xs # replicate (ML_MAX_LEVELS - 1) QUEUE_INIT)\<rparr>"

definition sample_rq :: "SchedAlgorithm \<Rightarrow> pcb_id list \<Rightarrow> pcb_id list" where
  "sample_rq alg xs = (if ml_policy alg = None then xs else [])"

definition sample_mls :: "SchedAlgorithm \<Rightarrow> pcb_id list \<Rightarrow> pcb_id list list" where
  "sample_mls alg xs =
     (if ml_policy alg = None then replicate ML_MAX_LEVELS [] else xs # replicate (ML_MAX_LEVELS - 1) [])"

definition sample_good :: "PCB \<Rightarrow> PCB \<Rightarrow> pcb_id \<Rightarrow> pcb_id list \<Rightarrow> bool" where
  "sample_good a b cur xs \<longleftrightarrow>
     pid a = 1 \<and> pid b = 2 \<and> 1 \<le> priority a \<and> 1 \<le> priority b \<and>
     tickets a \<le> 2 ^ 31 - 1 \<and> tickets b \<le> 2 ^ 31 - 1 \<and>
     xs \<in> {[], [thread_a], [thread_b], [thread_a, thread_b]} \<and>
     cur \<in> {init_process, thread_a, thread_b} \<and>
     (state a = PROCESS_READY \<longleftrightarrow> thread_a \<in> set xs) \<and> (state b = PROCESS_READY \<longleftrightarrow> thread_b \<in> set xs) \<and>
     (state a = PROCESS_RUNNING \<longrightarrow> cur = thread_a) \<and> (state b = PROCESS_RUNNING \<longrightarrow> cur = thread_b)"

lemma threads [simp]:
  "thread_a \<noteq> thread_b" "thread_b \<noteq> thread_a" "thread_a \<noteq> init_process" "thread_b \<noteq> init_process"
  "init_process \<noteq> thread_a" "init_process \<noteq> thread_b"
  by (simp_all add: thread_a_def thread_b_def)

lemma sample_fields [simp]:
  "heap (sample alg a b cur xs) = sample_heap a b xs"
  "current_process (sample alg a b cur xs) = cur"
  "n_processes (sample alg a b cur xs) = 3"
  "active_algorithm (sample alg a b cur xs) = alg"
  "processes (sample alg a b cur xs) =
     [Some init_process, Some thread_a, Some thread_b] @ replicate (N_PROCESSES - 3) None"
  by (simp_all add: sample_def init_sched_def)

lemma sample_heap_simps [simp]:
  "sample_heap a b xs init_process = INIT_PROCESS"
  "sample_heap a b xs thread_a = a\<lparr>next_ready := if xs = [thread_a, thread_b] then Some thread_b else None\<rparr>"
  "sample_heap a b xs thread_b = b\<lparr>next_ready := None\<rparr>"
  by (simp_all add: sample_heap_def)

lemma registered_sample [simp]:
  "registered (sample alg a b cur xs) p \<longleftrightarrow> p \<in> {init_process, thread_a, thread_b}"
  by (auto simp: registered_def)

lemma sample_queue_rep:
  assumes "xs \<in> {[], [thread_a], [thread_b], [thread_a, thread_b]}"
  shows "queue_rep (sample_heap a b xs) (sample_queue xs) xs"
  using assms by (auto simp: queue_rep_def sample_queue_def QUEUE_INIT_def)

lemma sample_ok:
  assumes good: "sample_good a b cur xs"
  shows "sched_inv (sample alg a b cur xs) (sample_rq alg xs) (sample_mls alg xs)"
proof -
  let ?s = "sample alg a b cur xs" and ?rq = "sample_rq alg xs" and ?mls = "sample_mls alg xs"
  have xs: "xs \<in> {[], [thread_a], [thread_b], [thread_a, thread_b]}" using good by (simp add: sample_good_def)
  have q0: "queue_rep h QUEUE_INIT []" for h by (rule queue_rep_empty)
  have qs: "queues ?s ?rq ?mls"
    using sample_queue_rep [OF xs, of a b] xs q0
    by (auto simp: queues_def sample_def init_sched_def sample_rq_def sample_mls_def ML_MAX_LEVELS_def
        numeral_eq_Suc)
  have nth: "processes ?s ! i = (if i = 0 then Some init_process else if i = 1 then Some thread_a
      else if i = 2 then Some thread_b else None)" if "i < N_PROCESSES" for i
  proof -
    consider "i = 0" | "i = 1" | "i = 2" | "3 \<le> i" by linarith
    then show ?thesis using that by cases (simp_all add: nth_append N_PROCESSES_def)
  qed
  have g: "pid a = 1" "pid b = 2" "1 \<le> priority a" "1 \<le> priority b" "tickets a \<le> 2 ^ 31 - 1" "tickets b \<le> 2 ^ 31 - 1"
    "cur \<in> {init_process, thread_a, thread_b}" "state a = PROCESS_READY \<longleftrightarrow> thread_a \<in> set xs"
    "state b = PROCESS_READY \<longleftrightarrow> thread_b \<in> set xs" "state a = PROCESS_RUNNING \<Longrightarrow> cur = thread_a"
    "state b = PROCESS_RUNNING \<Longrightarrow> cur = thread_b"
    using good unfolding sample_good_def by blast+
  have sub: "set xs \<subseteq> {thread_a, thread_b}" using xs by auto
  have len: "length (processes ?s) = N_PROCESSES" "length (queue_level ?s) = N_PROCESSES"
    "\<forall>l \<in> set (queue_level ?s). l = 0"
    by (simp_all add: sample_def init_sched_def N_PROCESSES_def)
  have tab: "table_ok ?s"
    unfolding table_ok_def
  proof (intro conjI allI impI ballI)
    fix i assume i: "i < N_PROCESSES"
    show "(processes ?s ! i = None) = (n_processes ?s \<le> int i)" unfolding nth [OF i] by simp
    show "pid (heap ?s p) = int i" if "processes ?s ! i = Some p" for p
      using that g(1,2) unfolding nth [OF i] by (simp split: if_splits; force simp: INIT_PROCESS_def)
  next
    show "processes ?s ! 0 = Some init_process" by simp
    fix p assume "registered ?s p"
    then consider "p = init_process" | "p = thread_a" | "p = thread_b" by auto
    note P = this
    show "1 \<le> priority (heap ?s p)" using P by cases (simp_all add: g(3,4) INIT_PROCESS_def)
    show "tickets (heap ?s p) \<le> 2 ^ 31 - 1" using P by cases (use g(5,6) in \<open>simp_all add: INIT_PROCESS_def\<close>)
  next
    show "length (processes ?s) = N_PROCESSES" "length (queue_level ?s) = N_PROCESSES" by (rule len)+
    show "1 \<le> n_processes ?s" "n_processes ?s \<le> int N_PROCESSES" by (simp_all add: N_PROCESSES_def)
    show "0 \<le> l" "l < int ML_MAX_LEVELS" if "l \<in> set (queue_level ?s)" for l
      using len(3) that by (auto simp: ML_MAX_LEVELS_def)
  qed
  have queued: "set ?rq \<union> set (concat ?mls) = set xs"
    by (auto simp: sample_rq_def sample_mls_def)
  have st: "states_ok ?s ?rq ?mls"
    unfolding states_ok_def queued
  proof (intro conjI allI impI ballI)
    fix p assume "registered ?s p"
    then consider "p = init_process" | "p = thread_a" | "p = thread_b" by auto
    note P = this
    show "(state (heap ?s p) = PROCESS_READY) = (p \<in> set xs)" if "p \<noteq> init_process"
      using P by cases (use g(8,9) that in simp_all)
    show "p = current_process ?s" if "state (heap ?s p) = PROCESS_RUNNING"
      using P by cases (use that g(10,11) in \<open>simp_all add: INIT_PROCESS_def\<close>)
  next
    show "registered ?s p" "p \<noteq> init_process" if "p \<in> set xs" for p using sub that by auto
    show "registered ?s (current_process ?s)" using g(7) by simp
    show "length ?mls = ML_MAX_LEVELS" by (simp add: sample_mls_def ML_MAX_LEVELS_def)
    show "if ml_policy (active_algorithm ?s) = None then concat ?mls = [] else ?rq = []"
      by (simp add: sample_rq_def sample_mls_def)
  qed
  show ?thesis using qs tab st by (simp add: sched_inv_def)
qed

lemma sample_well_formed: "sample_good a b cur xs \<Longrightarrow> well_formed (sample alg a b cur xs)"
  unfolding well_formed_def using sample_ok by (intro exI)

lemma sample_pcb_fields [simp]:
  "pid (sample_pcb i st) = i" "state (sample_pcb i st) = st" "priority (sample_pcb i st) = 1"
  "tickets (sample_pcb i st) = 10" "pending_signals (sample_pcb i st) = 0" "counter (sample_pcb i st) = 1"
  "preempt_disabled (sample_pcb i st) = 0" "est_burst (sample_pcb i st) = 0" "pid_to_wait (sample_pcb i st) = -1"
  by (simp_all add: sample_pcb_def INIT_PROCESS_def)

text \<open>Two ready threads while \<^verbatim>\<open>init_process\<close> idles, and one thread running.\<close>

definition two_ready :: "SchedAlgorithm \<Rightarrow> sched_state" where
  "two_ready alg = sample alg (sample_pcb 1 PROCESS_READY) (sample_pcb 2 PROCESS_READY) init_process
     [thread_a, thread_b]"

definition a_running :: "SchedAlgorithm \<Rightarrow> PCB \<Rightarrow> sched_state" where
  "a_running alg b = sample alg (sample_pcb 1 PROCESS_RUNNING) b thread_a []"

lemma two_ready_ok:
  "sched_inv (two_ready alg) (sample_rq alg [thread_a, thread_b]) (sample_mls alg [thread_a, thread_b])"
  "well_formed (two_ready alg)"
proof -
  have "sample_good (sample_pcb 1 PROCESS_READY) (sample_pcb 2 PROCESS_READY) init_process [thread_a, thread_b]"
    by (simp add: sample_good_def)
  then show "sched_inv (two_ready alg) (sample_rq alg [thread_a, thread_b]) (sample_mls alg [thread_a, thread_b])"
    "well_formed (two_ready alg)"
    unfolding two_ready_def using sample_ok sample_well_formed by blast+
qed

lemma a_running_ok:
  assumes "state b \<notin> {PROCESS_READY, PROCESS_RUNNING}" "pid b = 2" "1 \<le> priority b" "tickets b \<le> 2 ^ 31 - 1"
  shows "sched_inv (a_running alg b) [] (replicate ML_MAX_LEVELS [])" "well_formed (a_running alg b)"
    "is_running (a_running alg b)" "current_process (a_running alg b) = thread_a"
    "registered (a_running alg b) p \<longleftrightarrow> p \<in> {init_process, thread_a, thread_b}"
proof -
  have good: "sample_good (sample_pcb 1 PROCESS_RUNNING) b thread_a []" using assms by (auto simp: sample_good_def)
  show inv: "sched_inv (a_running alg b) [] (replicate ML_MAX_LEVELS [])"
    using sample_ok [OF good, of alg]
    by (auto simp: a_running_def sample_rq_def sample_mls_def ML_MAX_LEVELS_def numeral_eq_Suc split: if_splits)
  show "well_formed (a_running alg b)" unfolding a_running_def by (rule sample_well_formed [OF good])
  show "is_running (a_running alg b)" "current_process (a_running alg b) = thread_a"
    "registered (a_running alg b) p \<longleftrightarrow> p \<in> {init_process, thread_a, thread_b}"
    by (simp_all add: a_running_def is_running_def)
qed

text \<open>A console that nobody uses.\<close>

definition empty_uart :: uart_state where
  "empty_uart = \<lparr>uart_owner = None, uart_buffer = replicate UART_BUFFER_SIZE NUL, uart_head = 0,
     uart_tail = 0, rx_fifo = [], tx = [], uart_mis = 0, uart_imsc = 0\<rparr>"

lemma empty_uart_ok: "ring_ok empty_uart" "ring empty_uart = []"
  by (simp_all add: empty_uart_def ring_ok_def ring_def ring_size_def UART_BUFFER_SIZE_def)

text \<open>A kernel around such a state, with every frame of the memory in use.\<close>

definition full_kernel :: "sched_state \<Rightarrow> kernel_state" where
  "full_kernel s = \<lparr>sched = s, mem = \<lparr>memory_pages = (\<lambda>_. 1), phys = (\<lambda>_. 0), fault_index = 0\<rparr>, user_regs = (\<lambda>_. zero_regs)\<rparr>"

lemma full_kernel_ok:
  assumes "well_formed s" "\<And>p. registered s p \<Longrightarrow> p \<in> {init_process, thread_a, thread_b}"
  shows "kernel_ok (full_kernel s)"
proof -
  have "\<exists>i < N_PAGES. a = frame i + VA_START" if "registered s (pcb_page a)" for a
  proof -
    from assms(2) [OF that] consider "a = 0xffff000000400000" | "a = 0xffff000000401000"
      by (auto simp: thread_a_def thread_b_def)
    then show ?thesis
    proof cases
      case 1
      then show ?thesis by (intro exI [of _ 0]) (simp add: frame_def LOW_MEMORY_def VA_START_def N_PAGES_def)
    next
      case 2
      then show ?thesis by (intro exI [of _ 1]) (simp add: frame_def LOW_MEMORY_def VA_START_def N_PAGES_def PAGE_SIZE_def PAGE_SHIFT_def)
    qed
  qed
  then show ?thesis using assms(1) by (simp add: kernel_ok_def full_kernel_def pcb_pages_ok_def free_frames_def)
qed

end
