(* ===== verification/Scheduler_Properties.thy ===== *)
theory Scheduler_Properties
  imports Sample_States
begin

text \<open>
  The properties of the scheduler, stated over the definitions that model \<^verbatim>\<open>scheduler.c\<close>, with
  the inputs at which each of them is instantiated.
\<close>

subsection \<open>Dispatching\<close>

text \<open>C2: from every well-formed state \<^verbatim>\<open>schedule\<close> returns, keeps the process table and the queues
  well formed, and leaves a current process that is RUNNING and is the only RUNNING one; it falls back
  to \<^verbatim>\<open>init_process\<close> only when no process is READY.\<close>

theorem schedule_dispatches:
  assumes "well_formed s"
  shows "\<exists>t. schedule s = Some t \<and> well_formed t \<and> state (heap t (current_process t)) = PROCESS_RUNNING \<and>
    (\<forall>p. registered t p \<longrightarrow> state (heap t p) = PROCESS_RUNNING \<longrightarrow> p = current_process t) \<and>
    (current_process t = init_process \<longrightarrow>
       (\<forall>p. registered t p \<longrightarrow> p \<noteq> init_process \<longrightarrow> state (heap t p) \<noteq> PROCESS_READY))"
proof -
  from schedule_dispatched [OF assms] obtain t z where
    t: "schedule s = Some t" "well_formed t" "dispatched z t" by blast
  obtain rq mls where inv: "sched_inv t rq mls" using t(2) by (auto simp: well_formed_def)
  have "\<forall>p. registered t p \<longrightarrow> state (heap t p) = PROCESS_RUNNING \<longrightarrow> p = current_process t"
    using sched_invD(7) [OF inv] by blast
  then show ?thesis using t unfolding dispatched_def by blast
qed

theorem schedule_dispatches_witness:
  "\<exists>t. schedule (two_ready sched_lottery) = Some t \<and> well_formed t \<and>
     state (heap t (current_process t)) = PROCESS_RUNNING"
  using schedule_dispatches [OF two_ready_ok(2), of sched_lottery] by blast

text \<open>C3: a dispatch loses no process. A process that was READY or RUNNING is afterwards the current
  one, or READY, or it had a KILL or STOP signal pending and is now ZOMBIE or STOPPED; every other
  process keeps its state. A process with a pending KILL or STOP is never given the CPU.\<close>

theorem schedule_loses_no_process:
  assumes "well_formed s" "registered s p" "p \<noteq> init_process"
  shows "\<exists>t. schedule s = Some t \<and>
    (if p = current_process t
     then \<not> condemned (heap s p) \<and> (state (heap s p) = PROCESS_READY \<or> state (heap s p) = PROCESS_RUNNING)
     else if state (heap s p) \<in> {PROCESS_READY, PROCESS_RUNNING}
     then state (heap t p) = PROCESS_READY \<or>
          condemned (heap s p) \<and> state (heap t p) \<in> {PROCESS_ZOMBIE, PROCESS_STOPPED}
     else state (heap t p) = state (heap s p))"
proof -
  from schedule_dispatched [OF assms(1)] obtain t z where
    t: "schedule s = Some t" "dispatched z t" "processes z = processes s"
      "\<forall>x. state (heap z x) = state (heap s x) \<and> condemned (heap z x) = condemned (heap s x)" by blast
  have "registered z p" using assms(2) t(3) by (simp add: registered_def)
  then have D: "if p = current_process t then \<not> condemned (heap z p) \<and>
        (state (heap z p) = PROCESS_READY \<or> p = current_process z \<and> state (heap z p) = PROCESS_RUNNING)
      else if state (heap z p) \<in> {PROCESS_READY, PROCESS_RUNNING} then
        state (heap t p) = PROCESS_READY \<or>
        condemned (heap z p) \<and> state (heap t p) \<in> {PROCESS_ZOMBIE, PROCESS_STOPPED}
      else state (heap t p) = state (heap z p)"
    using t(2) assms(3) unfolding dispatched_def by blast
  have z: "state (heap z p) = state (heap s p)" "condemned (heap z p) = condemned (heap s p)" using t(4) by simp_all
  show ?thesis
  proof (intro exI conjI)
    show "schedule s = Some t" by (rule t(1))
    show "if p = current_process t
     then \<not> condemned (heap s p) \<and> (state (heap s p) = PROCESS_READY \<or> state (heap s p) = PROCESS_RUNNING)
     else if state (heap s p) \<in> {PROCESS_READY, PROCESS_RUNNING}
     then state (heap t p) = PROCESS_READY \<or>
          condemned (heap s p) \<and> state (heap t p) \<in> {PROCESS_ZOMBIE, PROCESS_STOPPED}
     else state (heap t p) = state (heap s p)"
      using D unfolding z
      by (cases "p = current_process t"; cases "state (heap s p) = PROCESS_READY";
          cases "state (heap s p) = PROCESS_RUNNING"; simp)
  qed
qed

theorem schedule_loses_no_process_witness:
  "\<exists>t. schedule (two_ready sched_mlfq) = Some t \<and>
     (thread_b = current_process t \<or> state (heap t thread_b) = PROCESS_READY)"
proof -
  have r: "registered (two_ready sched_mlfq) thread_b" "thread_b \<noteq> init_process" by (simp_all add: two_ready_def)
  have "\<not> condemned (heap (two_ready sched_mlfq) thread_b)" "state (heap (two_ready sched_mlfq) thread_b) = PROCESS_READY"
    by (simp_all add: two_ready_def condemned_def)
  moreover from schedule_loses_no_process [OF two_ready_ok(2) r] obtain t where
    "schedule (two_ready sched_mlfq) = Some t"
    "if thread_b = current_process t
     then \<not> condemned (heap (two_ready sched_mlfq) thread_b) \<and>
       (state (heap (two_ready sched_mlfq) thread_b) = PROCESS_READY \<or>
        state (heap (two_ready sched_mlfq) thread_b) = PROCESS_RUNNING)
     else if state (heap (two_ready sched_mlfq) thread_b) \<in> {PROCESS_READY, PROCESS_RUNNING}
     then state (heap t thread_b) = PROCESS_READY \<or> condemned (heap (two_ready sched_mlfq) thread_b) \<and>
       state (heap t thread_b) \<in> {PROCESS_ZOMBIE, PROCESS_STOPPED}
     else state (heap t thread_b) = state (heap (two_ready sched_mlfq) thread_b)" by blast
  ultimately show ?thesis by (cases "thread_b = current_process t") simp_all
qed

subsection \<open>The timer\<close>

text \<open>C4: the timer tick always returns and keeps the state well formed. While the current process
  has quantum left, or preemption is disabled, or the algorithm is not preemptive, the CPU is not
  taken away from it.\<close>

theorem timer_tick_respects_quantum:
  assumes "well_formed s"
  shows "\<exists>t. handle_timer_tick s = Some t \<and> well_formed t \<and>
    (counter (heap s (current_process s)) > 1 \<or> preempt_disabled (heap s (current_process s)) > 0 \<or>
       \<not> is_preemptive (active_algorithm s) \<longrightarrow> current_process t = current_process s)"
proof -
  from handle_timer_tick_ok [OF assms] obtain t u where
    u: "tick_frame (ticked s) u" "handle_timer_tick s = Some t" "well_formed t" and
    c: "if counter (heap s (current_process s)) > 1 \<or> preempt_disabled (heap s (current_process s)) > 0 then t = u
     else if \<not> is_preemptive (active_algorithm s) then t = upd_pcb (current_process s) (\<lambda>P. P\<lparr>counter := 0\<rparr>) u
     else dispatched (upd_pcb (current_process s) (\<lambda>P. P\<lparr>counter := 0\<rparr>) u) t" by blast
  have "current_process u = current_process s" using u(1) by (simp add: tick_frame_def ticked_def)
  then have "counter (heap s (current_process s)) > 1 \<or> preempt_disabled (heap s (current_process s)) > 0 \<or>
       \<not> is_preemptive (active_algorithm s) \<longrightarrow> current_process t = current_process s"
    using c by (auto split: if_splits)
  then show ?thesis using u by blast
qed

theorem timer_tick_respects_quantum_witness:
  "\<exists>t. handle_timer_tick (a_running sched_sjf (sample_pcb 2 PROCESS_STOPPED)) = Some t \<and>
     current_process t = thread_a"
proof -
  let ?s = "a_running sched_sjf (sample_pcb 2 PROCESS_STOPPED)"
  have "well_formed ?s" by (rule a_running_ok) simp_all
  from timer_tick_respects_quantum [OF this] show ?thesis by (auto simp: a_running_def)
qed

subsection \<open>Exit and signals\<close>

text \<open>C5: a process that exits becomes a ZOMBIE and loses the CPU, and exactly the processes that
  wait for its pid are woken: they are READY or current afterwards, unless a KILL or STOP was pending
  for them; a process waiting for another pid keeps waiting.\<close>

theorem exit_wakes_waiters:
  assumes "well_formed s" "state (heap s (current_process s)) = PROCESS_RUNNING"
    "current_process s \<noteq> init_process"
  shows "\<exists>t. exit_process s = Some t \<and> well_formed t \<and> current_process t \<noteq> current_process s \<and>
    state (heap t (current_process s)) = PROCESS_ZOMBIE \<and>
    (\<forall>p. registered s p \<longrightarrow> p \<noteq> init_process \<longrightarrow>
       state (heap s p) = PROCESS_WAITING_ANOTHER_PROCESS \<longrightarrow>
       (if pid_to_wait (heap s p) = pid (heap s (current_process s))
        then p = current_process t \<or> state (heap t p) = PROCESS_READY \<or> condemned (heap s p)
        else state (heap t p) = PROCESS_WAITING_ANOTHER_PROCESS))"
  by (rule exit_process_ok [OF assms])

theorem exit_wakes_waiters_witness:
  "\<exists>t. exit_process (a_running sched_round_robin ((sample_pcb 2 PROCESS_WAITING_ANOTHER_PROCESS)\<lparr>pid_to_wait := 1\<rparr>)) = Some t \<and>
     (thread_b = current_process t \<or> state (heap t thread_b) = PROCESS_READY)"
proof -
  let ?b = "(sample_pcb 2 PROCESS_WAITING_ANOTHER_PROCESS)\<lparr>pid_to_wait := 1\<rparr>"
  let ?s = "a_running sched_round_robin ?b"
  have wf: "well_formed ?s" by (rule a_running_ok) simp_all
  have run: "state (heap ?s (current_process ?s)) = PROCESS_RUNNING" "current_process ?s \<noteq> init_process"
    by (simp_all add: a_running_def)
  have "registered ?s thread_b" "state (heap ?s thread_b) = PROCESS_WAITING_ANOTHER_PROCESS"
    "pid_to_wait (heap ?s thread_b) = pid (heap ?s (current_process ?s))" "\<not> condemned (heap ?s thread_b)"
    by (simp_all add: a_running_def condemned_def)
  then show ?thesis using exit_wakes_waiters [OF wf run] by auto
qed

text \<open>C6: a process that is over never comes back. Whatever the kernel does from then on (ticks, yields,
  blocking, waiting, exits, signals, parameter changes, wake-ups, new processes and page allocations, the events of
  \<open>kernel_step\<close>, in any number and order), a ZOMBIE that has left the CPU never gets it again, stays
  a ZOMBIE, and its slot of the process table is never given to another process.\<close>

theorem zombie_never_returns:
  assumes "kernel_ok k" "kernel_step\<^sup>*\<^sup>* k k'"
    and "i < N_PROCESSES" "processes (sched k) ! i = Some p" "p \<noteq> init_process" "p \<noteq> current_process (sched k)"
    and "state (heap (sched k) p) = PROCESS_ZOMBIE"
  shows "p \<noteq> current_process (sched k') \<and> state (heap (sched k') p) = PROCESS_ZOMBIE \<and>
    processes (sched k') ! i = Some p"
proof -
  have "settled k p PROCESS_ZOMBIE" using settled_slot [OF assms(1,3,4,6)] assms(7) by simp
  from run_settled [OF assms(2,1) this _ assms(5)] assms(3,4) show ?thesis
    by (simp add: over_def settled_def)
qed

theorem zombie_never_returns_witness:
  "\<exists>k'. kernel_step\<^sup>*\<^sup>* (full_kernel (a_running sched_fcfs (sample_pcb 2 PROCESS_ZOMBIE))) k' \<and>
     pending_signals (heap (sched k') thread_b) \<noteq> 0 \<and> state (heap (sched k') thread_b) = PROCESS_ZOMBIE"
proof -
  let ?s = "a_running sched_fcfs (sample_pcb 2 PROCESS_ZOMBIE)"
  have wf: "well_formed ?s" and inv: "sched_inv ?s [] (replicate ML_MAX_LEVELS [])" by (rule a_running_ok; simp)+
  have ok: "kernel_ok (full_kernel ?s)" by (rule full_kernel_ok [OF wf]) (auto simp: a_running_def)
  have b: "registered ?s thread_b" "pid (heap ?s thread_b) = 2" "pending_signals (heap ?s thread_b) = 0"
    by (simp_all add: a_running_def)
  let ?t = "upd_pcb thread_b (\<lambda>P. P\<lparr>pending_signals := pending_signals P OR push_bit (nat 3) 1\<rparr>) ?s"
  have "search_process 2 ?s = Some thread_b"
    using search_process_iff [OF sched_invD(2) [OF inv]] b by simp
  then have "syscall_send_signal 2 3 ?s = Some (0, ?t)"
    by (simp add: syscall_send_signal_def send_signal_def)
  then have "sched_step (sched (full_kernel ?s)) ?t" unfolding full_kernel_def by (simp add: sched_step.signal)
  from kernel_step.schedule_event [OF this] have st: "kernel_step\<^sup>*\<^sup>* (full_kernel ?s) (full_kernel ?t)"
    by (simp add: full_kernel_def r_into_rtranclp)
  have p: "2 < N_PROCESSES" "processes (sched (full_kernel ?s)) ! 2 = Some thread_b" "thread_b \<noteq> init_process"
    "thread_b \<noteq> current_process (sched (full_kernel ?s))" "state (heap (sched (full_kernel ?s)) thread_b) = PROCESS_ZOMBIE"
    by (simp_all add: full_kernel_def a_running_def N_PROCESSES_def)
  have "state (heap (sched (full_kernel ?t)) thread_b) = PROCESS_ZOMBIE"
    using zombie_never_returns [OF ok st p] by blast
  moreover have "pending_signals (heap (sched (full_kernel ?t)) thread_b) \<noteq> 0" using b(3) by (simp add: full_kernel_def)
  ultimately show ?thesis using st by blast
qed

text \<open>The same holds of a STOPPED process, a pending RESUME included. The documents say otherwise: there, Stop
  lasts until a Resume message is sent, and the comment in \<^verbatim>\<open>handle_process_signals\<close> means to put
  the process back into the ready queue. But signals are looked at only for processes that the scheduler takes
  from a ready queue, and a STOPPED process is in none.\<close>

lemma resume_does_not_resume:
  assumes "kernel_ok k" "kernel_step\<^sup>*\<^sup>* k k'"
    and "i < N_PROCESSES" "processes (sched k) ! i = Some p" "p \<noteq> init_process" "p \<noteq> current_process (sched k)"
    and "state (heap (sched k) p) = PROCESS_STOPPED"
  shows "p \<noteq> current_process (sched k') \<and> state (heap (sched k') p) = PROCESS_STOPPED"
proof -
  have "settled k p PROCESS_STOPPED" using settled_slot [OF assms(1,3,4,6)] assms(7) by simp
  from run_settled [OF assms(2,1) this _ assms(5)] show ?thesis by (simp add: over_def settled_def)
qed

subsection \<open>The algorithms\<close>

text \<open>Round Robin. With nobody about to be killed or stopped, the running process goes to the
  end of the ready queue, the process at its head gets the CPU with a quantum of 10 ticks, and the
  others keep their order.\<close>

lemma round_robin_rotates:
  assumes inv: "sched_inv s (p # ps) mls" and alg: "active_algorithm s = sched_round_robin"
    and run: "current_runnable s" and sig: "\<not> condemned (heap s p)"
  shows "\<exists>t. schedule_round_robin s = Some t \<and> queues t (ps @ [current_process s]) mls \<and>
    current_process t = p \<and> counter (heap t p) = 10"
proof -
  let ?c = "current_process s"
  have p: "state (heap s p) = PROCESS_READY" "p \<noteq> ?c"
    using sched_invD(6) [OF inv, of p] run by (auto simp: current_runnable_def)
  let ?v = "upd_pcb ?c set_ready (preempt_disable (view s))"
  let ?w = "preempt_enable (switch_to_process p (recharge (Some p) 10 (upd_pcb p signal_effect ?v)))"
  have h: "heap ?v p = payload (heap s) p" using p(2) by (simp add: preempt_disable_def)
  have pk: "park (preempt_disable (view s)) (p # ps) mls = (?v, (p # ps) @ [?c], mls)"
    using run alg by (simp add: park_def place_def Let_def)
  have "ready_pick ((p # ps) @ [?c]) ?v = (Some p, ps @ [?c], upd_pcb p signal_effect ?v)"
    using p sig by (simp add: h signal_effect_state condemned_def)
  then have spec: "spec_round_robin (view s) (p # ps) mls = (?w, ps @ [?c], mls)"
    unfolding spec_round_robin_def pk by (simp add: or_init_def)
  from schedule_round_robin_refines [OF alg sched_invD(1) [OF inv] inv_parkable [OF inv] spec] obtain t where
    t: "schedule_round_robin s = Some t" "queues t (ps @ [?c]) mls" "view t = ?w" by blast
  have "current_process t = p" using arg_cong [OF t(3), of current_process] by simp
  moreover have "counter (heap t p) = 10"
    using arg_cong [OF t(3), of "\<lambda>v. counter (heap v p)"] by (simp add: switch_to_process_def preempt_enable_def
        cpu_switch_to_process_def recharge_def Let_def set_pgd_def)
  ultimately show ?thesis using t by blast
qed

text \<open>C7: FCFS and SJF dispatch exactly as the list program \<open>spec_queue_head\<close> says: the running
  process is put where the insertion policy wants it, and the first process of the queue that
  survives its pending signals gets the CPU.\<close>

theorem queue_head_dispatch_refines:
  assumes inv: "sched_inv s rq mls" and spec: "spec_queue_head (view s) rq mls = (v', rq', mls')"
  shows "\<exists>t. schedule_queue_head s = Some t \<and> queues t rq' mls' \<and> view t = v'"
  by (rule schedule_queue_head_refines [OF sched_invD(1) [OF inv] inv_parkable [OF inv] spec])

theorem queue_head_dispatch_refines_witness:
  "\<exists>t. schedule_queue_head (two_ready sched_fcfs) = Some t \<and> current_process t = thread_a"
proof -
  let ?s = "two_ready sched_fcfs" and ?rq = "[thread_a, thread_b]"
  have inv: "sched_inv ?s ?rq (replicate ML_MAX_LEVELS [])"
    using two_ready_ok(1) [of sched_fcfs] by (simp add: sample_rq_def sample_mls_def)
  have st: "state (heap ?s thread_a) = PROCESS_READY" "pending_signals (heap ?s thread_a) = 0"
    "\<not> current_runnable ?s" "\<not> current_runnable (preempt_disable (view ?s))" "current_process ?s = init_process"
    by (simp_all add: two_ready_def current_runnable_def)
  have pk: "park (preempt_disable (view ?s)) ?rq (replicate ML_MAX_LEVELS []) =
      (preempt_disable (view ?s), ?rq, replicate ML_MAX_LEVELS [])"
    using st(4) by (simp add: park_def)
  let ?v = "upd_pcb thread_a signal_effect (preempt_disable (view ?s))"
  have "ready_pick ?rq (preempt_disable (view ?s)) = (Some thread_a, [thread_b], ?v)"
    using st by (simp add: signal_effect_state preempt_disable_def)
  then have "spec_queue_head (view ?s) ?rq (replicate ML_MAX_LEVELS []) =
      (preempt_enable (switch_to_process thread_a ?v), [thread_b], replicate ML_MAX_LEVELS [])"
    unfolding spec_queue_head_def pk by (simp add: or_init_def)
  from queue_head_dispatch_refines [OF inv this] obtain t where
    t: "schedule_queue_head ?s = Some t" "view t = preempt_enable (switch_to_process thread_a ?v)" by blast
  have "current_process t = thread_a" using arg_cong [OF t(2), of current_process] by simp
  then show ?thesis using t(1) by blast
qed

text \<open>C8: SJF keeps its ready queue sorted by the estimated burst, and a process with the same
  estimate as others is queued behind them.\<close>

theorem sjf_insertion_sorted_stable:
  assumes q: "queues s rq mls" and p: "p \<noteq> init_process" "p \<notin> set rq \<union> set (concat mls)"
    and sorted: "sorted (map (\<lambda>x. est_burst (heap s x)) rq)"
  shows "\<exists>t rq'. enqueue_sjf p s = Some t \<and> queues t rq' mls \<and> mset rq' = add_mset p (mset rq) \<and>
    sorted (map (\<lambda>x. est_burst (heap t x)) rq') \<and>
    filter (\<lambda>x. est_burst (heap t x) = est_burst (heap t p)) rq' =
      filter (\<lambda>x. est_burst (heap t x) = est_burst (heap t p)) rq @ [p]"
proof -
  from enqueue_sjf_refines [OF q p] obtain t where
    t: "enqueue_sjf p s = Some t" "queues t (insert_by (\<lambda>x. est_burst (heap s x)) p rq) mls"
      "view t = upd_pcb p set_ready (view s)" by blast
  have e: "est_burst (heap t x) = est_burst (heap s x)" for x
    using arg_cong [OF t(3), of "\<lambda>v. est_burst (heap v x)"] by (simp split: if_splits)
  let ?rq = "insert_by (\<lambda>x. est_burst (heap s x)) p rq"
  have "sorted (map (\<lambda>x. est_burst (heap t x)) ?rq)"
    "filter (\<lambda>x. est_burst (heap t x) = est_burst (heap t p)) ?rq =
      filter (\<lambda>x. est_burst (heap t x) = est_burst (heap t p)) rq @ [p]"
    unfolding e using sorted_insert_by [OF sorted] insert_by_stable [OF sorted] by blast+
  then show ?thesis using t(1,2) mset_insert_by [of _ p rq] by blast
qed

theorem sjf_insertion_sorted_stable_witness:
  "\<exists>t rq'. enqueue_sjf thread_b (sample sched_sjf (sample_pcb 1 PROCESS_READY) (sample_pcb 2 PROCESS_STOPPED) init_process [thread_a]) = Some t \<and>
     mset rq' = {#thread_a, thread_b#}"
proof -
  let ?s = "sample sched_sjf (sample_pcb 1 PROCESS_READY) (sample_pcb 2 PROCESS_STOPPED) init_process [thread_a]"
  have "sample_good (sample_pcb 1 PROCESS_READY) (sample_pcb 2 PROCESS_STOPPED) init_process [thread_a]"
    by (simp add: sample_good_def)
  from sample_ok [OF this, of sched_sjf]
  have q: "queues ?s [thread_a] (replicate ML_MAX_LEVELS [])"
    by (simp add: sample_rq_def sample_mls_def sched_invD(1))
  have "thread_b \<notin> set [thread_a] \<union> set (concat (replicate ML_MAX_LEVELS []))" by simp
  from sjf_insertion_sorted_stable [OF q threads(4) this] show ?thesis by (fastforce simp: add_mset_commute)
qed

text \<open>C9: the multilevel algorithms. A running process that loses the CPU first goes to the end of its own
  level (\<open>levels\<close>; when the current process is blocked, or is init_process, the levels are as they were). Then the
  CPU goes to the first process, in queue order, of the highest level that has one without a pending KILL
  or STOP, with the quantum of that level; to \<^verbatim>\<open>init_process\<close> when no level has one.\<close>

theorem multilevel_picks_highest_level:
  assumes inv: "sched_inv s rq mls" and pol: "ml_policy (active_algorithm s) = Some policy"
    and levels: "levels = (if current_runnable s
      then mls[level_of s (current_process s) := mls ! level_of s (current_process s) @ [current_process s]] else mls)"
  shows "\<exists>t. schedule_multilevel s = Some t \<and>
    ((\<exists>l < n_levels policy. \<exists>p. first_sound s (levels ! l) = Some p \<and> current_process t = p \<and>
        counter (heap t p) = quantum policy ! l \<and> (\<forall>m < l. first_sound s (levels ! m) = None)) \<or>
     current_process t = init_process \<and> (\<forall>l < n_levels policy. first_sound s (levels ! l) = None))"
proof -
  let ?d = "preempt_disable s"
  have enq: "alg_enqueue (active_algorithm ?d) = enqueue_multilevel"
    using pol by (cases "active_algorithm s") simp_all
  from park_inv [OF inv refl] obtain s2 rq2 mls2 where
    s2: "(if current_runnable ?d then enqueue_multilevel (current_process ?d) ?d else Some ?d) = Some s2"
      "ready_inv s2 rq2 mls2" "same_table ?d s2" "park (view ?d) rq mls = (view s2, rq2, mls2)"
      "\<forall>x. pending_signals (heap s2 x) = pending_signals (heap s x)"
    unfolding enq by blast
  have mls2: "mls2 = levels"
    using s2(4) pol by (cases "current_runnable s") (simp_all add: park_def Let_def place_def levels level_of_def)
  have ml2: "ml_policy (active_algorithm s2) = Some policy" using s2(3) pol by (simp add: same_table_def)
  from level_scan_selected [OF s2(2) ml2] obtain found u mls' where
    u: "level_scan [0..<n_levels policy] s2 = Some (found, u)"
      "level_pick [0..<n_levels policy] levels (view s2) = (found, mls', view u)" unfolding mls2 by blast
  have "distinct (concat levels)" "\<forall>p \<in> set (concat levels). state (heap (view s2) p) = PROCESS_READY"
    "set [0..<n_levels policy] \<subseteq> {..<length levels}"
    using ready_invD(4,5) [OF s2(2)] policy_shape(1) [OF ml2] sched_invD(8) [OF ready_invD(1) [OF s2(2)]]
    unfolding mls2 by auto
  from level_pick_first [OF this(1,3) distinct_upt this(2) u(2)]
  have first: "case found of None \<Rightarrow> \<forall>l \<in> set [0..<n_levels policy]. first_sound (view s2) (levels ! l) = None
    | Some (p, l) \<Rightarrow> \<exists>ls1 ls2. [0..<n_levels policy] = ls1 @ l # ls2 \<and> first_sound (view s2) (levels ! l) = Some p \<and>
        (\<forall>m \<in> set ls1. first_sound (view s2) (levels ! m) = None)" .
  have same: "first_sound (view s2) xs = first_sound s xs" for xs
    using s2(5) by (simp add: first_sound_def condemned_def)
  have run: "schedule_multilevel s = do {
      s4 \<leftarrow> (case found of None \<Rightarrow> Some u | Some (x, target_level) \<Rightarrow> do {
               q \<leftarrow> array_get (quantum policy) (int target_level); Some (recharge (Some x) q u) });
      Some (preempt_enable (switch_to_process (or_init (map_option fst found)) s4)) }"
    unfolding schedule_multilevel_def Let_def using s2(1) u(1) pol by simp
  show ?thesis
  proof (cases found)
    case None
    then have "schedule_multilevel s = Some (preempt_enable (switch_to_process init_process u))"
      using run by (simp add: or_init_def)
    moreover have "\<forall>l < n_levels policy. first_sound s (levels ! l) = None" using first None unfolding same by simp
    ultimately show ?thesis by simp
  next
    case (Some pl)
    obtain p l where pl: "pl = (p, l)" by fastforce
    from first Some pl obtain ls1 ls2 where
      f: "[0..<n_levels policy] = ls1 @ l # ls2" "first_sound s (levels ! l) = Some p"
        "\<forall>m \<in> set ls1. first_sound s (levels ! m) = None" unfolding same by auto
    have n: "n_levels policy = length ls1 + Suc (length ls2)" using arg_cong [OF f(1), of length] by simp
    have "[0..<n_levels policy] ! length ls1 = l" unfolding f(1) by simp
    moreover have "[0..<n_levels policy] ! length ls1 = length ls1" using n by (subst nth_upt) simp_all
    ultimately have l: "l = length ls1" "l < n_levels policy" using n by simp_all
    have "ls1 = [0..<l]" using arg_cong [OF f(1), of "take l"] l by (simp add: min_def)
    then have low: "\<forall>m < l. first_sound s (levels ! m) = None" using f(3) by simp
    have "array_get (quantum policy) (int l) = Some (quantum policy ! l)"
      using l(2) policy_shape(1,2) [OF pol] by (simp add: array_get_def)
    then have "schedule_multilevel s =
        Some (preempt_enable (switch_to_process p (recharge (Some p) (quantum policy ! l) u)))" (is "_ = Some ?t")
      using run Some pl by (simp add: or_init_def)
    moreover have "counter (heap ?t p) = quantum policy ! l" "current_process ?t = p"
      by (simp_all add: switch_to_process_def preempt_enable_def cpu_switch_to_process_def recharge_def Let_def set_pgd_def)
    ultimately show ?thesis using f(2) low l(2) by blast
  qed
qed

theorem multilevel_picks_highest_level_witness:
  "\<exists>t. schedule_multilevel (sample sched_mlfq (sample_pcb 1 PROCESS_RUNNING) (sample_pcb 2 PROCESS_READY) thread_a [thread_b]) = Some t \<and>
     current_process t = thread_b \<and> counter (heap t thread_b) = 5"
proof -
  let ?s = "sample sched_mlfq (sample_pcb 1 PROCESS_RUNNING) (sample_pcb 2 PROCESS_READY) thread_a [thread_b]"
  let ?levels = "[thread_b, thread_a] # replicate 4 []"
  have "sample_good (sample_pcb 1 PROCESS_RUNNING) (sample_pcb 2 PROCESS_READY) thread_a [thread_b]"
    by (simp add: sample_good_def)
  from sample_ok [OF this, of sched_mlfq] have inv: "sched_inv ?s [] ([thread_b] # replicate 4 [])"
    by (simp add: sample_rq_def sample_mls_def ML_MAX_LEVELS_def)
  have pol: "ml_policy (active_algorithm ?s) = Some ml_policy_mlfq"
    and f: "first_sound ?s [thread_b, thread_a] = Some thread_b"
    by (simp_all add: first_sound_def condemned_def)
  have "level_of ?s thread_a = 0" by (simp add: level_of_def sample_def init_sched_def N_PROCESSES_def)
  then have lv: "?levels = (if current_runnable ?s
      then ([thread_b] # replicate 4 [])[level_of ?s (current_process ?s) := ([thread_b] # replicate 4 []) ! level_of ?s (current_process ?s) @ [current_process ?s]]
      else [thread_b] # replicate 4 [])" by (simp add: current_runnable_def)
  from multilevel_picks_highest_level [OF inv pol lv] obtain t where t: "schedule_multilevel ?s = Some t" and
    c: "(\<exists>l < n_levels ml_policy_mlfq. \<exists>p. first_sound ?s (?levels ! l) = Some p \<and> current_process t = p \<and>
        counter (heap t p) = quantum ml_policy_mlfq ! l \<and> (\<forall>m < l. first_sound ?s (?levels ! m) = None)) \<or>
     current_process t = init_process \<and> (\<forall>l < n_levels ml_policy_mlfq. first_sound ?s (?levels ! l) = None)"
    by blast
  have "0 < n_levels ml_policy_mlfq" by (simp add: ml_policy_mlfq_def)
  with c f obtain l where "first_sound ?s (?levels ! l) = Some (current_process t)"
    "counter (heap t (current_process t)) = quantum ml_policy_mlfq ! l" "\<not> 0 < l" by fastforce
  then show ?thesis using t f by (simp add: ml_policy_mlfq_def)
qed

text \<open>C10: the lottery is fair. With nobody about to be killed or stopped, a drawing picks the owner
  of the ticket whose number is the random value modulo the number of tickets in the queue, and each
  queued process owns as many of these numbers as it has effective tickets.\<close>

theorem lottery_is_proportional:
  assumes inv: "sched_inv s rq mls" and ne: "rq \<noteq> []" and sig: "\<forall>p \<in> set rq. \<not> condemned (heap s p)"
    and rnd: "lottery_random s = (r, s1)"
  defines "n \<equiv> ticket_sum (queue_tickets s) rq"
  shows "\<exists>p t. lottery_draw s = Some (Some p, t) \<and>
    ticket_owner (queue_tickets s) rq (uint r mod n) = Some p \<and>
    (\<forall>q \<in> set rq. card {w. 0 \<le> w \<and> w < n \<and> ticket_owner (queue_tickets s) rq w = Some q} =
       nat (effective_tickets (heap s q)))"
proof -
  note q = sched_invD(1) [OF inv]
  have rdy: "\<forall>p \<in> set rq. state (heap s p) = PROCESS_READY" using sched_invD(6) [OF inv] by blast
  have bound: "n < 2 ^ 63" unfolding n_def by (rule queue_ticket_bound [OF inv])
  obtain p where p: "ticket_owner (queue_tickets s) rq (uint r mod n) = Some p"
    using ticket_owner_total [of "uint r mod n" "queue_tickets s" rq] ticket_sum_pos [OF ne, of s] by (auto simp: n_def)
  from lottery_draw_refines [OF q bound [unfolded n_def] rdy] obtain r' rq' t where
    t: "lottery_draw s = Some (r', t)" "lottery_pick rq (view s) = (r', rq', view t)" by blast
  have pin: "p \<in> set rq" by (rule ticket_owner_in [OF p])
  have h: "heap s1 = heap s" "lottery_random (view s) = (r, view s1)" using lottery_random_frame [OF rnd] by blast+
  have "state (heap (upd_pcb p signal_effect (view s1)) p) = PROCESS_READY"
    using rdy sig pin by (simp add: h signal_effect_state condemned_def)
  then have "lottery_pick rq (view s) = (Some p, remove1 p rq, upd_pcb p signal_effect (view s1))"
    using ne p by (subst lottery_pick.simps) (simp add: h n_def Let_def)
  then have "r' = Some p" using t(2) by simp
  moreover have "card {w. 0 \<le> w \<and> w < n \<and> ticket_owner (queue_tickets s) rq w = Some q} =
      nat (effective_tickets (heap s q))" if "q \<in> set rq" for q
    unfolding n_def using q that by (intro ticket_owner_share) (auto simp: queues_def)
  ultimately show ?thesis using t(1) p by blast
qed

theorem lottery_is_proportional_witness:
  "\<exists>p t. lottery_draw (two_ready sched_lottery) = Some (Some p, t) \<and> p \<in> {thread_a, thread_b}"
proof -
  let ?s = "two_ready sched_lottery"
  have inv: "sched_inv ?s [thread_a, thread_b] (replicate ML_MAX_LEVELS [])"
    using two_ready_ok(1) [of sched_lottery] by (simp add: sample_rq_def sample_mls_def)
  have sig: "\<forall>p \<in> set [thread_a, thread_b]. \<not> condemned (heap ?s p)" by (simp add: two_ready_def condemned_def)
  obtain r s1 where rnd: "lottery_random ?s = (r, s1)" by fastforce
  from lottery_is_proportional [OF inv _ sig rnd] obtain p t where
    p: "lottery_draw ?s = Some (Some p, t)"
      "ticket_owner (queue_tickets ?s) [thread_a, thread_b] (uint r mod ticket_sum (queue_tickets ?s) [thread_a, thread_b]) = Some p"
    by blast
  show ?thesis using p(1) ticket_owner_in [OF p(2)] by auto
qed

text \<open>C11: Priority Aging. When a queued process has no KILL or STOP pending, the selection ends after
  finitely many epochs and returns such a process with a positive counter, which no other queued
  process without a pending KILL or STOP exceeds.\<close>

theorem aging_selects_maximum:
  assumes inv: "sched_inv s rq mls" and some: "\<exists>p \<in> set rq. \<not> condemned (heap s p)"
  shows "\<exists>b t. aging_select s = Some (Some b, t) \<and> b \<in> set rq \<and> \<not> condemned (heap s b) \<and>
    0 < counter (heap t b) \<and>
    (\<forall>p \<in> set rq. \<not> condemned (heap s p) \<longrightarrow> counter (heap t p) \<le> counter (heap t b))"
proof -
  have rdy: "\<forall>p \<in> set rq. state (heap s p) = PROCESS_READY" "\<forall>p \<in> set rq. registered s p"
    using sched_invD(6) [OF inv] by blast+
  let ?xs = "filter (sound s) rq"
  from aging_select_refines [OF sched_invD(1,2) [OF inv] rdy] obtain r t where
    t: "aging_select s = Some (r, t)" "max_from (\<lambda>p. counter (heap t p)) None 0 ?xs = r" "r = None \<longleftrightarrow> ?xs = []"
    by - (elim exE conjE, rule that, assumption+)
  have "?xs \<noteq> []" using some by (auto simp: filter_empty_conv)
  then obtain b where b: "r = Some b" using t(3) by blast
  from max_from_cases [of "\<lambda>p. counter (heap t p)" None 0 ?xs] obtain as bs where
    "?xs = as @ b # bs" "0 < counter (heap t b)" "\<forall>x \<in> set as. counter (heap t x) < counter (heap t b)"
    "\<forall>x \<in> set bs. counter (heap t x) \<le> counter (heap t b)"
    using t(2) b by (auto simp: t(2))
  moreover from calculation(1) have "set ?xs = insert b (set as \<union> set bs)" by simp
  moreover have "p \<in> set ?xs \<longleftrightarrow> p \<in> set rq \<and> \<not> condemned (heap s p)" for p by simp
  ultimately have "b \<in> set rq" "\<not> condemned (heap s b)" "0 < counter (heap t b)"
    "\<forall>p \<in> set rq. \<not> condemned (heap s p) \<longrightarrow> counter (heap t p) \<le> counter (heap t b)"
    by (blast, blast, blast, metis insert_iff Un_iff order.strict_implies_order order.refl)
  then show ?thesis using t(1) b by blast
qed

theorem aging_selects_maximum_witness:
  "\<exists>b t. aging_select (two_ready sched_priority_aging) = Some (Some b, t) \<and> 0 < counter (heap t b)"
proof -
  let ?s = "two_ready sched_priority_aging"
  have inv: "sched_inv ?s [thread_a, thread_b] (replicate ML_MAX_LEVELS [])"
    using two_ready_ok(1) [of sched_priority_aging] by (simp add: sample_rq_def sample_mls_def)
  have "\<exists>p \<in> set [thread_a, thread_b]. \<not> condemned (heap ?s p)" by (simp add: two_ready_def condemned_def)
  from aging_selects_maximum [OF inv this] show ?thesis by blast
qed

text \<open>Setting a parameter. A valid request changes exactly that parameter of the process; anything
  else (an unknown selector, a priority or a ticket count below 1, a level out of range, the idle
  process, or NULL) is refused with -1 and changes nothing. A level that does not exist under the
  active policy is lowered to its last one. The state stays well formed.\<close>

lemma set_param_validates:
  assumes inv: "sched_inv s rq mls" and p: "registered s p" and v: "v \<le> 2 ^ 31 - 1"
  shows "\<exists>t. sched_inv t rq mls \<and>
    (if p \<noteq> init_process \<and> (param = SCHED_PARAM_PRIORITY \<and> 1 \<le> v \<or> param = SCHED_PARAM_TICKETS \<and> 1 \<le> v \<or>
          param = SCHED_PARAM_QUEUE_PRIORITY \<and> 0 \<le> v \<and> v < int ML_MAX_LEVELS)
     then sched_set_param (Some p) param v s = Some (0, t) \<and>
       (param = SCHED_PARAM_PRIORITY \<longrightarrow> t = upd_pcb p (\<lambda>P. P\<lparr>priority := v\<rparr>) s) \<and>
       (param = SCHED_PARAM_TICKETS \<longrightarrow> t = upd_pcb p (\<lambda>P. P\<lparr>tickets := v\<rparr>) s) \<and>
       (param = SCHED_PARAM_QUEUE_PRIORITY \<longrightarrow> queue_priority (heap t p) = v \<and>
          array_get (queue_level t) (pid (heap t p)) = Some v)
     else sched_set_param (Some p) param v s = Some (-1, s) \<and> t = s)"
proof -
  from sched_set_param_ok [OF inv p v, of param] obtain r t where
    t: "sched_set_param (Some p) param v s = Some (r, t)" "sched_inv t rq mls" by blast
  note D = sched_set_param_def SCHED_PARAM_PRIORITY_def SCHED_PARAM_TICKETS_def SCHED_PARAM_QUEUE_PRIORITY_def
  have lv: "(case ml_policy (active_algorithm s) of None \<Rightarrow> v
      | Some policy \<Rightarrow> if v \<ge> int (n_levels policy) then int (n_levels policy) - 1 else v) = v"
    if "v < int ML_MAX_LEVELS"
    using that policy_shape(1) [of "active_algorithm s"] by (auto split: option.split)
  consider "p \<noteq> init_process" "param = SCHED_PARAM_QUEUE_PRIORITY" "0 \<le> v" "v < int ML_MAX_LEVELS"
    | "\<not> (p \<noteq> init_process \<and> param = SCHED_PARAM_QUEUE_PRIORITY \<and> 0 \<le> v \<and> v < int ML_MAX_LEVELS)" by blast
  then show ?thesis
  proof cases
    case 1
    then show ?thesis
      using t lv [OF 1(4)]
      by (intro exI [of _ t]) (auto simp: D Let_def bind_eq_Some_conv array_set_Some array_get_def
          preempt_enable_def preempt_disable_def)
  next
    case 2
    then show ?thesis using t inv by (intro exI [of _ t]) (auto simp: D split: if_splits)
  qed
qed

text \<open>The MLFQ boost. At the tick that completes the period every process returns to level 0, the
  lower levels being appended in order and keeping the order inside each, and the period restarts.\<close>

lemma boost_returns_all_to_top:
  assumes inv: "sched_inv s rq mls" and pol: "ml_policy (active_algorithm s) = Some policy"
    and fire: "0 < boost_period policy" "boost_period policy \<le> ml_ticks_since_boost s + 1"
  shows "\<exists>t. multilevel_boost policy s = Some t \<and> sched_inv t rq (concat mls # replicate (ML_MAX_LEVELS - 1) []) \<and>
    queue_level t = replicate N_PROCESSES 0 \<and> ml_ticks_since_boost t = 0 \<and>
    (\<forall>p. payload (heap t) p = payload (heap s) p)"
proof -
  from multilevel_boost_fires [OF assms] obtain t where
    t: "multilevel_boost policy s = Some t" "sched_inv t rq (concat mls # replicate (ML_MAX_LEVELS - 1) [])"
      "view t = (view s)\<lparr>queue_level := replicate N_PROCESSES 0, ml_ticks_since_boost := 0\<rparr>" by blast
  show ?thesis
    using t(1,2) arg_cong [OF t(3), of queue_level] arg_cong [OF t(3), of ml_ticks_since_boost]
      arg_cong [OF t(3), of heap] by auto
qed

subsection \<open>The random number generator\<close>

lemma xor_push_zero:
  fixes r :: ulong
  assumes "r XOR push_bit (Suc n) r = 0"
  shows "r = 0"
proof -
  have "r = (r XOR push_bit (Suc n) r) XOR push_bit (Suc n) r" by (simp add: xor.assoc)
  also have "\<dots> = push_bit (Suc n) r" unfolding assms by simp
  finally have e: "r = push_bit (Suc n) r" .
  have "\<not> bit r k" for k
  proof (induction k rule: less_induct)
    case (less k)
    have "bit r k = bit (push_bit (Suc n) r) k" using e by simp
    also have "\<dots> \<longrightarrow> Suc n \<le> k \<and> bit r (k - Suc n)" unfolding bit_push_bit_iff by simp
    finally show ?case using less [of "k - Suc n"] by auto
  qed
  then show ?thesis by (simp add: bit_eq_iff)
qed

lemma xor_drop_zero:
  fixes r :: ulong
  assumes "r XOR drop_bit (Suc n) r = 0"
  shows "r = 0"
proof -
  have "r = (r XOR drop_bit (Suc n) r) XOR drop_bit (Suc n) r" by (simp add: xor.assoc)
  also have "\<dots> = drop_bit (Suc n) r" unfolding assms by simp
  finally have e: "r = drop_bit (Suc n) r" .
  have step: "bit r k \<Longrightarrow> bit r (k + Suc n)" for k
    using arg_cong [OF e, of "\<lambda>w. bit w k"] by (simp add: bit_simps add.commute)
  have "bit r k \<Longrightarrow> bit r (k + m * Suc n)" for k m
  proof (induction m)
    case (Suc m)
    then show ?case using step [of "k + m * Suc n"] by (simp add: algebra_simps)
  qed simp
  then have "\<not> bit r k" for k
    using bit_imp_le_length [of r "k + 64 * Suc n"] by fastforce
  then show ?thesis by (simp add: bit_eq_iff)
qed

text \<open>The generator of the lottery never reaches the state 0, from which it could not leave,
  whatever the timer delivers.\<close>

lemma lottery_rng_never_zero:
  shows "fst (lottery_random s) \<noteq> 0 \<and> lottery_rng_state (snd (lottery_random s)) \<noteq> 0"
proof -
  have n: "Suc 12 = 13" "Suc 6 = 7" "Suc 16 = 17" by simp_all
  have x: "xorshift64 r \<noteq> 0" if "r \<noteq> 0" for r
    using that xor_push_zero [of _ 12, unfolded n] xor_drop_zero [of _ 6, unfolded n] xor_push_zero [of _ 16, unfolded n]
    unfolding xorshift64_def Let_def by blast
  show ?thesis
    by (simp add: lottery_random_def read_timer_def Let_def x lottery_seed_def)
qed

end
