(* ===== verification/Kernel_Properties.thy ===== *)
theory Kernel_Properties
  imports Sample_States
begin

text \<open>
  The properties of memory, process creation, messages, the console, the string routines and the
  system calls, with the inputs at which each of them is instantiated.
\<close>

subsection \<open>Pages\<close>

definition fresh_memory :: mm_state where
  "fresh_memory = \<lparr>memory_pages = (\<lambda>_. 0), phys = (\<lambda>_. 0), fault_index = 0\<rparr>"

lemma fresh_memory_frames: "free_frames fresh_memory = {..<N_PAGES}" "free_frames fresh_memory \<noteq> {}"
  by (auto simp: free_frames_def fresh_memory_def N_PAGES_def intro: exI [of _ 0])

lemma free_page_frame:
  assumes "i < N_PAGES"
  shows "\<exists>m'. free_page (frame i + VA_START) m = Some (0, m') \<and> free_frames m' = insert i (free_frames m) \<and>
    phys m' = (\<lambda>a. if a - frame i < PAGE_SIZE then 0 else phys m a)"
proof -
  have al: "(frame i + VA_START) mod PAGE_SIZE = 0"
  proof -
    have "uint (frame i + VA_START) = (uint (frame i) + uint VA_START) mod 2 ^ 64" by (simp add: uint_word_ariths)
    then have "uint (frame i + VA_START) mod 4096 = 0"
      using uint_frame [OF assms] by (simp add: VA_START_def mod_mod_cancel)
    then show ?thesis by (simp add: word_uint_eq_iff uint_mod PAGE_SIZE_def)
  qed
  have "uint (frame i - LOW_MEMORY) = 4096 * int i"
    using uint_frame [OF assms] assms by (simp add: uint_sub_if' LOW_MEMORY_def N_PAGES_def)
  then have "uint ((frame i - LOW_MEMORY) div PAGE_SIZE) = int i" by (simp add: uint_div PAGE_SIZE_def)
  then have "unat ((frame i - LOW_MEMORY) div PAGE_SIZE) = i" by (simp add: unat_eq_nat_uint)
  moreover have "frame i + VA_START - VA_START - LOW_MEMORY = frame i - LOW_MEMORY" by simp
  ultimately show ?thesis
    using al assms by (auto simp: free_page_def Let_def free_frames_def memzero_def)
qed

text \<open>C13: the page allocator. While a frame is free an allocation returns one, zeroed, at a page aligned
  kernel address that is not 0, marking exactly that frame as used; freeing the address gives the frame
  back. With no frame left the allocation returns 0 and \<^verbatim>\<open>syscall_malloc\<close> -1.\<close>

theorem page_allocation_round_trip:
  "if free_frames (mem k) = {} then syscall_malloc k = (-1, k)
   else \<exists>i \<in> free_frames (mem k). \<exists>k' m.
     syscall_malloc k = (frame i + VA_START, k') \<and> frame i + VA_START \<noteq> 0 \<and>
     free_frames (mem k') = free_frames (mem k) - {i} \<and>
     (\<forall>a. a - frame i < PAGE_SIZE \<longrightarrow> phys (mem k') a = 0) \<and>
     free_page (frame i + VA_START) (mem k') = Some (0, m) \<and> free_frames m = free_frames (mem k)"
proof (cases "free_frames (mem k) = {}")
  case True
  then show ?thesis
    using get_free_page_none [OF True] by (simp add: syscall_malloc_def allocate_kernel_page_def)
next
  case False
  from get_free_page_ok [OF this] obtain i m' where
    g: "get_free_page (mem k) = (frame i, m')" "i \<in> free_frames (mem k)" "free_frames m' = free_frames (mem k) - {i}"
      "phys m' = (\<lambda>a. if a - frame i < PAGE_SIZE then 0 else phys (mem k) a)" by blast
  have i: "i < N_PAGES" using g(2) by (simp add: free_frames_def)
  from free_page_frame [OF i, of m'] obtain m where
    m: "free_page (frame i + VA_START) m' = Some (0, m)" "free_frames m = insert i (free_frames m')" by blast
  have "syscall_malloc k = (frame i + VA_START, k\<lparr>mem := m'\<rparr>)"
    using g(1) frame_nonzero [OF i] frame_not_VA [OF i] by (simp add: syscall_malloc_def allocate_kernel_page_def)
  moreover have "free_frames m = free_frames (mem k)" using m(2) g(2,3) by auto
  ultimately show ?thesis using False g m frame_not_VA [OF i] by auto
qed

text \<open>C14: mapping a page. With room for the inner tables it needs, \<^verbatim>\<open>map_page\<close> makes the virtual
  page translate to the given frame, leaves the translation of every other page as it was, records the
  page, and keeps the tables well formed (disjoint frames in use).\<close>

theorem map_page_translates:
  assumes "vm_ok m dm" "vm_room m dm" "page_aligned pa"
  shows "\<exists>dm' m'. map_page dm va pa m = Some (dm', m') \<and> vm_ok m' dm' \<and> translation m' dm' va = Some pa \<and>
    (\<forall>va'. \<not> same_path va va' 4 \<longrightarrow> translation m' dm' va' = translation m dm va') \<and>
    n_user_pages dm' = n_user_pages dm + 1"
  using map_page_ok [OF assms, of va] by blast

theorem map_page_translates_witness:
  "\<exists>dm' m'. map_page empty_mm 0x1000 (frame 7) fresh_memory = Some (dm', m') \<and>
     translation m' dm' 0x1000 = Some (frame 7)"
proof -
  have "vm_ok fresh_memory empty_mm" by (simp add: vm_ok_def empty_mm_def)
  moreover have "vm_room fresh_memory empty_mm"
    by (simp add: vm_room_def fresh_memory_frames empty_mm_def MAX_PROCESS_PAGES_def N_PAGES_def)
  moreover have "page_aligned (frame 7)" by (rule frame_aligned) (simp add: N_PAGES_def)
  ultimately show ?thesis using map_page_translates [of fresh_memory empty_mm "frame 7" "0x1000"] by blast
qed

subsection \<open>Creating processes\<close>

definition boot_kernel :: kernel_state where
  "boot_kernel = init_kernel sched_round_robin (\<lambda>_. 0) fresh_memory"

lemma boot_kernel_ok:
  "sched_inv (sched boot_kernel) [] (replicate ML_MAX_LEVELS [])" "pcb_pages_ok boot_kernel"
  "free_frames (mem boot_kernel) \<noteq> {}" "n_processes (sched boot_kernel) = 1"
proof -
  show "sched_inv (sched boot_kernel) [] (replicate ML_MAX_LEVELS [])"
    using init_sched_inv by (simp add: boot_kernel_def init_kernel_def)
  show "pcb_pages_ok boot_kernel" using init_kernel_ok by (simp add: boot_kernel_def kernel_ok_def)
  show "free_frames (mem boot_kernel) \<noteq> {}" using fresh_memory_frames by (simp add: boot_kernel_def init_kernel_def)
  show "n_processes (sched boot_kernel) = 1" by (simp add: boot_kernel_def init_kernel_def init_sched_def)
qed

theorem page_allocation_round_trip_witness:
  "\<exists>a k' m. syscall_malloc boot_kernel = (a, k') \<and> a \<noteq> 0 \<and> free_page a (mem k') = Some (0, m) \<and>
     free_frames m = free_frames (mem boot_kernel)"
  using page_allocation_round_trip [of boot_kernel] boot_kernel_ok(3) by auto

text \<open>Without a free page \<^verbatim>\<open>copy_process\<close> returns -1, but with the preemption of the current
  process still disabled: the timer cannot take the CPU from it any more.\<close>

lemma failed_fork_keeps_preemption_disabled:
  assumes "free_frames (mem k) = {}" "0 \<le> preempt_disabled (current_pcb k)"
  shows "\<exists>k'. syscall_fork rff k = Some (-1, k') \<and>
    preempt_disabled (current_pcb k') = preempt_disabled (current_pcb k) + 1 \<and> 0 < preempt_disabled (current_pcb k')"
  using assms by (simp add: syscall_fork_def copy_process_no_page current_pcb_def preempt_disable_def)

subsection \<open>Messages\<close>

definition boot_sched :: sched_state where
  "boot_sched = init_sched sched_round_robin (\<lambda>_. 0)"

text \<open>Sending. As long as fewer than 4 messages have ever been stored, a message is appended behind
  those waiting, and the destination becomes READY if it was blocked waiting for one; no other process
  changes its state.\<close>

lemma push_appends_and_wakes:
  assumes "sched_inv s rq mls" "registered s p" "destination_process m = Some p"
    "unwrapped (buffer_of s p)" "mb_head (buffer_of s p) < int MAX_MESSAGES_PER_PROCESS"
  shows "\<exists>t rq' mls'. push_message p m s = Some (0, t) \<and> sched_inv t rq' mls' \<and>
    contents (buffer_of t p) = contents (buffer_of s p) @ [m] \<and>
    (\<forall>x. state (heap t x) =
       (if x = p \<and> state (heap s p) = PROCESS_WAITING_TO_RECEIVE_MESSAGE then PROCESS_READY
        else state (heap s x)))"
  using push_ok [OF assms] by blast

text \<open>A process table without a free slot, with all processes but \<^verbatim>\<open>init_process\<close> stopped.\<close>

definition crowd :: sched_state where
  "crowd = (init_sched sched_round_robin (\<lambda>_. 0))
     \<lparr>heap := (\<lambda>p. case p of init_process \<Rightarrow> INIT_PROCESS | pcb_page a \<Rightarrow> sample_pcb (uint a) PROCESS_STOPPED),
      processes := Some init_process # map (\<lambda>i. Some (pcb_page (of_nat i))) [1..<N_PROCESSES],
      n_processes := int N_PROCESSES\<rparr>"

lemma crowd_nth:
  "i < N_PROCESSES \<Longrightarrow> processes crowd ! i = (if i = 0 then Some init_process else Some (pcb_page (of_nat i)))"
  by (cases i) (simp_all add: crowd_def N_PROCESSES_def)

lemma crowd_ok: "well_formed crowd" "None \<notin> set (processes crowd)"
proof -
  show full: "None \<notin> set (processes crowd)" by (auto simp: crowd_def)
  have u: "uint (of_nat i :: ulong) = int i" if "i < N_PROCESSES" for i
    using that by (simp add: N_PROCESSES_def unsigned_of_nat take_bit_nat_eq_self)
  have h: "heap crowd p = (case p of init_process \<Rightarrow> INIT_PROCESS | pcb_page a \<Rightarrow> sample_pcb (uint a) PROCESS_STOPPED)" for p
    by (simp add: crowd_def)
  have len: "length (processes crowd) = N_PROCESSES" by (simp add: crowd_def N_PROCESSES_def)
  have "table_ok crowd"
    unfolding table_ok_def
  proof (intro conjI allI impI ballI)
    fix i assume i: "i < N_PROCESSES"
    show "(processes crowd ! i = None) = (n_processes crowd \<le> int i)" using i crowd_nth [OF i] by (simp add: crowd_def)
    show "pid (heap crowd p) = int i" if "processes crowd ! i = Some p" for p
      using that crowd_nth [OF i] u [OF i] by (auto simp: h sample_pcb_def INIT_PROCESS_def split: if_splits)
  next
    show "processes crowd ! 0 = Some init_process" by (simp add: crowd_def)
    show "1 \<le> priority (heap crowd p)" "tickets (heap crowd p) \<le> 2 ^ 31 - 1" for p
      by (simp_all add: h sample_pcb_def INIT_PROCESS_def split: pcb_id.split)
    show "0 \<le> l" "l < int ML_MAX_LEVELS" if "l \<in> set (queue_level crowd)" for l
      using that by (auto simp: crowd_def init_sched_def ML_MAX_LEVELS_def)
  qed (simp_all add: len, simp_all add: crowd_def init_sched_def N_PROCESSES_def)
  moreover have "queues crowd [] (replicate ML_MAX_LEVELS [])"
    using queue_rep_empty by (auto simp: queues_def crowd_def init_sched_def list_all2_conv_all_nth)
  moreover have "states_ok crowd [] (replicate ML_MAX_LEVELS [])"
    by (auto simp: states_ok_def h sample_pcb_def INIT_PROCESS_def registered_def split: pcb_id.splits)
      (simp_all add: crowd_def init_sched_def)
  ultimately show "well_formed crowd" unfolding well_formed_def sched_inv_def by blast
qed

text \<open>C15: messages arrive, in order. As long as fewer than 4 messages have ever been stored in the mailbox of a
  process, sending it a text that fits into a message returns 0 and puts the text behind those that wait
  there. And when the process runs later, with the mailbox as the send left it and no free slot in the process
  table, receiving gives it the oldest waiting text, leaves the others, and makes every process READY that is blocked on
  sending. (With a free slot receiving has no result, see below.)\<close>

theorem message_round_trip:
  assumes wf: "well_formed s" and dest: "search_process dpid s = Some p"
    and b: "unwrapped (buffer_of s p)" "mb_head (buffer_of s p) < int MAX_MESSAGES_PER_PROCESS" "bodies_ok (buffer_of s p)"
    and msg: "terminated msg" "length (c_string msg) < MAX_MESSAGES_BODY_SIZE"
    and arrays: "length stack_body = MAX_MESSAGES_BODY_SIZE" "length (body out) = MAX_MESSAGES_BODY_SIZE"
      "length buf = MAX_MESSAGES_BODY_SIZE"
  shows "\<exists>t. syscall_send_message others stack_body dpid msg s = Some (0, t) \<and> well_formed t \<and>
    processes t = processes s \<and> current_process t = current_process s \<and>
    texts (buffer_of t p) = texts (buffer_of s p) @ [c_string msg] \<and>
    (\<forall>r. well_formed r \<and> current_process r = p \<and> None \<notin> set (processes r) \<and> buffer_of r p = buffer_of t p \<longrightarrow>
      (\<exists>buf' u. syscall_receive_message others' out buf r = Some (buf', u) \<and>
        c_string buf' # texts (buffer_of u p) = texts (buffer_of s p) @ [c_string msg] \<and>
        (\<forall>q. registered r q \<longrightarrow> state (heap u q) =
           (if state (heap r q) = PROCESS_WAITING_TO_SEND_MESSAGE then PROCESS_READY else state (heap r q)))))"
proof -
  obtain rq mls where inv: "sched_inv s rq mls" using wf by (auto simp: well_formed_def)
  have reg: "registered s p" using dest search_process_iff [OF sched_invD(2) [OF inv]] by blast
  from send_message_ok [OF inv reg b msg arrays(1)] obtain t rq' mls' where
    t: "send_message others stack_body (current_process s) p msg s = Some (0, t)" "sched_inv t rq' mls'"
      "unwrapped (buffer_of t p)" "bodies_ok (buffer_of t p)" "texts (buffer_of t p) = texts (buffer_of s p) @ [c_string msg]"
      "processes t = processes s" "current_process t = current_process s" by blast
  have "\<exists>buf' u. syscall_receive_message others' out buf r = Some (buf', u) \<and>
        c_string buf' # texts (buffer_of u p) = texts (buffer_of s p) @ [c_string msg] \<and>
        (\<forall>q. registered r q \<longrightarrow> state (heap u q) =
           (if state (heap r q) = PROCESS_WAITING_TO_SEND_MESSAGE then PROCESS_READY else state (heap r q)))"
    if r: "well_formed r" "current_process r = p" "None \<notin> set (processes r)" "buffer_of r p = buffer_of t p" for r
  proof -
    obtain rq2 mls2 where invr: "sched_inv r rq2 mls2" using r(1) by (auto simp: well_formed_def)
    obtain x xs where x: "texts (buffer_of r p) = x # xs" "x # xs = texts (buffer_of s p) @ [c_string msg]"
      using t(5) r(4) by (cases "texts (buffer_of r p)") simp_all
    have "unwrapped (buffer_of r p)" "bodies_ok (buffer_of r p)" using t(3,4) r(4) by simp_all
    from receive_message_ok [OF invr r(3) this x(1) arrays(2,3), of others'] show ?thesis
      using x(2) r(2) by (auto simp: syscall_receive_message_def)
  qed
  then show ?thesis using t(1,2,5-7) dest by (auto simp: syscall_send_message_def well_formed_def)
qed

theorem message_round_trip_witness:
  "\<exists>t buf u. syscall_send_message id (replicate 256 NUL) 0 (''hello'' @ [NUL]) crowd = Some (0, t) \<and>
     syscall_receive_message id empty_message (replicate 256 NUL) t = Some (buf, u) \<and> c_string buf = ''hello''"
proof -
  have tab: "table_ok crowd" using well_formed_table [OF crowd_ok(1)] .
  have "registered crowd init_process" "pid (heap crowd init_process) = 0" "current_process crowd = init_process"
    and mb: "buffer_of crowd init_process = empty_messages_buffer"
    by (simp_all add: crowd_def init_sched_def registered_def INIT_PROCESS_def)
  then have d: "search_process 0 crowd = Some init_process" and c: "current_process crowd = init_process"
    using search_process_iff [OF tab] by blast+
  have b: "unwrapped (buffer_of crowd init_process)" "mb_head (buffer_of crowd init_process) < int MAX_MESSAGES_PER_PROCESS"
    "bodies_ok (buffer_of crowd init_process)" "texts (buffer_of crowd init_process) = []"
    unfolding mb bodies_ok_def texts_def using empty_unwrapped
    by (simp_all add: empty_messages_buffer_def MAX_MESSAGES_PER_PROCESS_def)
  have m: "terminated (''hello'' @ [NUL])" "length (c_string (''hello'' @ [NUL])) < MAX_MESSAGES_BODY_SIZE"
    "length (replicate 256 NUL) = MAX_MESSAGES_BODY_SIZE" "length (body empty_message) = MAX_MESSAGES_BODY_SIZE"
    by (simp_all add: MAX_MESSAGES_BODY_SIZE_def empty_message_def)
  from message_round_trip [OF crowd_ok(1) d b(1-3) m(1-3) m(4) m(3), of id id] obtain t where
    t: "syscall_send_message id (replicate 256 NUL) 0 (''hello'' @ [NUL]) crowd = Some (0, t)" "well_formed t"
      "processes t = processes crowd" "current_process t = current_process crowd"
    and r: "\<forall>r. well_formed r \<and> current_process r = init_process \<and> None \<notin> set (processes r) \<and>
        buffer_of r init_process = buffer_of t init_process \<longrightarrow>
      (\<exists>buf' u. syscall_receive_message id empty_message (replicate 256 NUL) r = Some (buf', u) \<and>
        c_string buf' # texts (buffer_of u init_process) = texts (buffer_of crowd init_process) @ [c_string (''hello'' @ [NUL])] \<and>
        (\<forall>q. registered r q \<longrightarrow> state (heap u q) =
           (if state (heap r q) = PROCESS_WAITING_TO_SEND_MESSAGE then PROCESS_READY else state (heap r q))))" by blast
  have "current_process t = init_process" "None \<notin> set (processes t)" using t(3,4) c crowd_ok(2) by simp_all
  with r t(2) obtain buf u where "syscall_receive_message id empty_message (replicate 256 NUL) t = Some (buf, u)"
    "c_string buf # texts (buffer_of u init_process) = texts (buffer_of crowd init_process) @ [c_string (''hello'' @ [NUL])]" by blast
  then show ?thesis using t(1) b(4) by auto
qed

text \<open>The indices of the mailbox run from 0 to 4 although the array has 4 elements. With the head at 4,
  a push is refused only while nothing has been received; otherwise it writes past the end of the array.\<close>

lemma fifth_message_overflows:
  assumes "length (mb_buffer (buffer_of s p)) = MAX_MESSAGES_PER_PROCESS" "mb_head (buffer_of s p) = 4"
  shows "push_message p m s = (if mb_tail (buffer_of s p) = 0 then Some (-1, s) else None)"
  using push_full push_past_end assms by simp

text \<open>After taking a message \<^verbatim>\<open>receive_message\<close> looks at all 64 slots of the process table without
  testing for NULL, so it has no defined result as long as a slot is free.\<close>

lemma receive_dereferences_free_slots:
  assumes "pop_message p out s = Some (0, r, t)" "None \<in> set (processes t)"
  shows "receive_message others out p buf s = None"
  by (rule receive_needs_full_table [OF receive_loop_ready [OF assms(1)] assms(2)])

subsection \<open>The console\<close>

text \<open>C16: the receive interrupt. The received characters are appended to the ring buffer in order as
  long as it holds fewer than 63, later ones are dropped, and the indices stay inside the buffer; the
  interrupt is acknowledged; every process that waited for input becomes READY, no other one changes.\<close>

theorem uart_interrupt_buffers_and_wakes:
  assumes "ring_ok u" "sched_inv s rq mls" "\<forall>dr \<in> set (rx_fifo u). dr_error dr = 0"
    "uart_mis u = push_bit 4 1" "rx_fifo u \<noteq> []"
  shows "\<exists>v t rq' mls'. handle_uart_irq u s = Some (v, t) \<and> ring_ok v \<and>
    ring v = take 63 (ring u @ map dr_char (rx_fifo u)) \<and> rx_fifo v = [] \<and> uart_mis v = 0 \<and>
    sched_inv t rq' mls' \<and>
    (\<forall>p. registered s p \<longrightarrow> state (heap t p) =
       (if state (heap s p) = PROCESS_WAITING_UART_INPUT then PROCESS_READY else state (heap s p)))"
proof -
  from assms(3) have "\<And>dr. dr \<in> set (rx_fifo u) \<Longrightarrow> dr_error dr = 0" by blast
  from handle_uart_irq_receives [OF assms(1,2) this assms(4)] assms(5) obtain v t rq' mls' where
    v: "handle_uart_irq u s = Some (v, t)" "ring_ok v" "ring v = take 63 (ring u @ map dr_char (rx_fifo u))"
      "rx_fifo v = []" "uart_mis v = 0" "sched_inv t rq' mls'" "readers_woken s t" by auto
  have "state (heap t p) = (if state (heap s p) = PROCESS_WAITING_UART_INPUT then PROCESS_READY else state (heap s p))"
    if "registered s p" for p
    using arg_cong [OF v(7) [unfolded readers_woken_def], of "\<lambda>w. state (heap w p)"] that
    by (simp add: woken_from_def)
  then show ?thesis using v by blast
qed

theorem uart_interrupt_buffers_and_wakes_witness:
  "\<exists>v t. handle_uart_irq (empty_uart\<lparr>rx_fifo := [0x61, 0x0D], uart_mis := push_bit 4 1\<rparr>)
       (sample sched_fcfs (sample_pcb 1 PROCESS_WAITING_UART_INPUT) (sample_pcb 2 PROCESS_STOPPED) init_process []) = Some (v, t) \<and>
     ring v = [CHR ''a'', CHR 0x0D] \<and> state (heap t thread_a) = PROCESS_READY"
proof -
  let ?u = "empty_uart\<lparr>rx_fifo := [0x61, 0x0D], uart_mis := push_bit 4 1\<rparr>"
  let ?s = "sample sched_fcfs (sample_pcb 1 PROCESS_WAITING_UART_INPUT) (sample_pcb 2 PROCESS_STOPPED) init_process []"
  have "sample_good (sample_pcb 1 PROCESS_WAITING_UART_INPUT) (sample_pcb 2 PROCESS_STOPPED) init_process []"
    by (simp add: sample_good_def)
  note inv = sample_ok [OF this, of sched_fcfs]
  have u: "ring_ok ?u" "ring ?u = []" using empty_uart_ok ring_frame [of ?u empty_uart] by simp_all
  have dr: "\<forall>dr \<in> set (rx_fifo ?u). dr_error dr = 0" by (auto simp: dr_error_def)
  have c: "dr_char 0x61 = CHR ''a''" "dr_char 0x0D = CHR 0x0D" by code_simp+
  have "uart_mis ?u = push_bit 4 1" "rx_fifo ?u \<noteq> []" by simp_all
  have e: "take 63 (ring ?u @ map dr_char (rx_fifo ?u)) = [CHR ''a'', CHR 0x0D]" unfolding u(2) by (simp add: c)
  from uart_interrupt_buffers_and_wakes [OF u(1) inv dr \<open>uart_mis ?u = push_bit 4 1\<close> \<open>rx_fifo ?u \<noteq> []\<close>]
  obtain v t where v: "handle_uart_irq ?u ?s = Some (v, t)" "ring v = take 63 (ring ?u @ map dr_char (rx_fifo ?u))"
    and t: "\<forall>p. registered ?s p \<longrightarrow> state (heap t p) =
       (if state (heap ?s p) = PROCESS_WAITING_UART_INPUT then PROCESS_READY else state (heap ?s p))"
    by - (elim exE conjE, rule that, assumption+)
  from t have "state (heap t thread_a) = PROCESS_READY" by simp
  then show ?thesis using v e by (intro exI [of _ v] exI [of _ t]) simp
qed

text \<open>Reading a line. When the ring buffer holds a complete line and the console is free,
  \<^verbatim>\<open>syscall_input\<close> returns at once with what \<open>read_line\<close> makes of it, over-long lines included: they do not end
  the call, as the documents say, but lose what does not fit until Enter is read, and a NUL in the line is a character like any other.\<close>

lemma input_reads_line:
  assumes ok: "ring_ok u" and own: "uart_owner u = None \<or> uart_owner u = Some (current_process s)"
    and len: "1 \<le> len" "len \<le> int (length buffer)"
    and line: "read_line (nat (len - 1)) [] (ring u) = (True, txt', echo, rest)"
  shows "\<exists>b v. syscall_input others buffer len u s = Some (int (length txt'), b, v, s) \<and>
    int (length txt') < len \<and> take (length txt') b = txt' \<and> b ! length txt' = NUL \<and> length b = length buffer \<and>
    ring v = rest \<and> tx v = tx u @ echo \<and> uart_owner v = None"
proof -
  let ?u = "u\<lparr>uart_owner := Some (current_process s)\<rparr>"
  have u: "ring_ok ?u" "ring ?u = ring u" using ok ring_frame [of ?u u] by simp_all
  have acq: "acquire_uart others u s = Some (?u, s)" using own by (subst acquire_uart.simps) auto
  have "ring u \<noteq> []" using line by auto
  then have "ring_size u \<noteq> 0" using length_ring [of u] by (metis length_0_conv)
  then have ne: "uart_head u \<noteq> uart_tail u" using ring_empty [OF ok] by simp
  have m: "int (nat (len - 1)) = len - 1" "nat (len - 1) < length buffer" using len by simp_all
  from line have "read_line (nat (len - 1)) [] (ring ?u) = (True, txt', echo, rest)" by (simp add: u(2))
  from drain_input_reads [OF u(1) _ m(2) _ this] obtain b v where
    b: "drain_input (len - 1) 0 buffer ?u = Some (Some (int (length txt')), int (length txt'), b, v)"
      "ring v = rest" "tx v = tx u @ echo" "length txt' \<le> nat (len - 1)" "take (length txt') b = txt'"
      "b ! length txt' = NUL" "uart_owner v = None" "length b = length buffer"
    unfolding m(1) by - (drule meta_mp, simp, drule meta_mp, simp, auto simp del: of_nat_diff nat_diff_distrib)
  have "input_loop others (len - 1) 0 buffer ?u s = Some (int (length txt'), b, v, s)"
    using ne b(1) by (subst input_loop.simps) simp
  then have "syscall_input others buffer len u s = Some (int (length txt'), b, v, s)"
    using len acq by (simp add: syscall_input_def)
  then show ?thesis using b len by auto
qed

text \<open>What a user who types \<open>cs\<close> behind \<open>t\<close> means, and what the terminal shows: DEL takes back the last character.\<close>

definition edit_char :: "char list \<Rightarrow> char \<Rightarrow> char list" where
  "edit_char t c = (if c = CHR 0x7F then butlast t else t @ [c])"

definition edited :: "char list \<Rightarrow> char list" where
  "edited = foldl edit_char []"

fun shown :: "char list \<Rightarrow> char list \<Rightarrow> char list" where
  "shown t [] = []"
| "shown t (c # cs) = c # (if c = CHR 0x7F \<and> t \<noteq> [] then [CHR 0x08, CHR '' '', CHR 0x08] else []) @ shown (edit_char t c) cs"

lemma read_line_fits:
  assumes "\<forall>c \<in> set cs. c \<noteq> CHR 0x0D \<and> c \<noteq> CHR 0x0A" "e = CHR 0x0D \<or> e = CHR 0x0A"
    and "\<forall>n \<le> length cs. length (foldl edit_char t (take n cs)) \<le> m"
  shows "read_line m t (cs @ e # rest) = (True, foldl edit_char t cs, shown t cs @ [e], rest)"
  using assms(1,3)
proof (induction cs arbitrary: t)
  case Nil
  then show ?case using assms(2) by auto
next
  case (Cons c cs)
  have "\<forall>n \<le> length cs. length (foldl edit_char (edit_char t c) (take n cs)) \<le> m"
    using Cons.prems(2) by (metis Suc_le_mono foldl_Cons length_Cons take_Suc_Cons)
  from Cons.IH [OF _ this] Cons.prems(1)
  have IH: "read_line m (edit_char t c) (cs @ e # rest) =
      (True, foldl edit_char (edit_char t c) cs, shown (edit_char t c) cs @ [e], rest)" by simp
  have ed: "edit_char t CHR 0x7F = butlast t" "c \<noteq> CHR 0x7F \<Longrightarrow> edit_char t c = t @ [c]" by (simp_all add: edit_char_def)
  have c: "c \<noteq> CHR 0x0D" "c \<noteq> CHR 0x0A" using Cons.prems(1) by simp_all
  have "length (edit_char t c) \<le> m" using Cons.prems(2) [rule_format, of 1] by simp
  then have "c \<noteq> CHR 0x7F \<Longrightarrow> length t < m" by (simp add: edit_char_def)
  then show ?case using IH c ed by (cases "c = CHR 0x7F") simp_all
qed

lemma edited_source: "set (edited cs) \<subseteq> set cs"
proof -
  have "set (edit_char t c) \<subseteq> set t \<union> {c}" for t c by (auto simp: edit_char_def dest: in_set_butlastD)
  then have "set (foldl edit_char t cs) \<subseteq> set t \<union> set cs" for t
    by (induction cs arbitrary: t) (simp, fastforce)
  then show ?thesis unfolding edited_def by (metis Un_empty_left empty_set)
qed

text \<open>C17: reading a line. The console is free, or already owned by the reader; the ring buffer holds a complete
  line, with CR or LF at its end, without NUL, and which fits: at no time are there \<open>len\<close> or more characters
  on it. Then \<^verbatim>\<open>syscall_input\<close> returns at once with the line as edited, DEL taking back the last
  character, as a terminated text in the buffer of \<open>len\<close> characters, returns its length, shows the typing on the terminal, leaves the
  characters behind the line, and releases the console.\<close>

theorem input_returns_edited_line:
  assumes ok: "ring_ok u" and own: "uart_owner u = None \<or> uart_owner u = Some (current_process s)"
    and len: "1 \<le> len" "len \<le> int (length buffer)"
    and ring: "ring u = keys @ e # rest" "e = CHR 0x0D \<or> e = CHR 0x0A"
    and keys: "\<forall>c \<in> set keys. c \<noteq> CHR 0x0D \<and> c \<noteq> CHR 0x0A \<and> c \<noteq> NUL"
    and fits: "\<forall>n \<le> length keys. int (length (edited (take n keys))) < len"
  shows "\<exists>b v. syscall_input others buffer len u s = Some (int (length (edited keys)), b, v, s) \<and>
    terminated b \<and> c_string b = edited keys \<and>
    ring v = rest \<and> tx v = tx u @ shown [] keys @ [e] \<and> uart_owner v = None"
proof -
  have "\<forall>n \<le> length keys. length (foldl edit_char [] (take n keys)) \<le> nat (len - 1)"
    using fits len(1) by (simp add: edited_def nat_le_eq_zle le_nat_iff)
  from read_line_fits [OF _ ring(2) this] keys have "read_line (nat (len - 1)) [] (ring u) = (True, edited keys, shown [] keys @ [e], rest)"
    unfolding ring(1) edited_def by blast
  from input_reads_line [OF ok own len this] obtain b v where
    b: "syscall_input others buffer len u s = Some (int (length (edited keys)), b, v, s)"
      "int (length (edited keys)) < len" "take (length (edited keys)) b = edited keys" "b ! length (edited keys) = NUL"
      "length b = length buffer" "ring v = rest" "tx v = tx u @ shown [] keys @ [e]" "uart_owner v = None" by blast
  have "length (edited keys) < length b" using b(2,5) len(2) by simp
  from id_take_nth_drop [OF this] have split: "b = edited keys @ NUL # drop (Suc (length (edited keys))) b"
    unfolding b(3,4) .
  have "NUL \<notin> set (edited keys)" using edited_source [of keys] keys by blast
  then have "terminated b \<and> c_string b = edited keys"
    using c_string_no_end [of "edited keys" "drop (Suc (length (edited keys))) b"] unfolding terminated_def split [symmetric]
    by (metis split in_set_conv_decomp)
  then show ?thesis using b(1,6-8) by blast
qed

theorem input_returns_edited_line_witness:
  "\<exists>b v. syscall_input (\<lambda>u s. (u, s)) (replicate 16 NUL) 16
       (empty_uart\<lparr>uart_buffer := [CHR ''l'', CHR ''x'', CHR 0x7F, CHR ''s'', CHR 0x0D] @ replicate 59 NUL, uart_head := 5\<rparr>) boot_sched =
     Some (2, b, v, boot_sched) \<and> c_string b = ''ls''"
proof -
  let ?u = "empty_uart\<lparr>uart_buffer := [CHR ''l'', CHR ''x'', CHR 0x7F, CHR ''s'', CHR 0x0D] @ replicate 59 NUL, uart_head := 5\<rparr>"
  let ?keys = "[CHR ''l'', CHR ''x'', CHR 0x7F, CHR ''s'']"
  have ok: "ring_ok ?u" by (simp add: ring_ok_def empty_uart_def UART_BUFFER_SIZE_def)
  have r: "ring ?u = ?keys @ CHR 0x0D # []"
    by (simp add: ring_def ring_size_def empty_uart_def UART_BUFFER_SIZE_def upt_rec)
  have k: "\<forall>c \<in> set ?keys. c \<noteq> CHR 0x0D \<and> c \<noteq> CHR 0x0A \<and> c \<noteq> NUL" by simp
  have f: "\<forall>n \<le> length ?keys. int (length (edited (take n ?keys))) < 16"
    by (auto simp: edited_def edit_char_def take_Cons' numeral_eq_Suc le_Suc_eq)
  have "edited ?keys = ''ls''" by (simp add: edited_def edit_char_def)
  with input_returns_edited_line [OF ok _ _ _ r _ k f, of boot_sched "replicate 16 NUL" "\<lambda>u s. (u, s)"]
  show ?thesis by (auto simp: empty_uart_def)
qed

subsection \<open>Strings\<close>

text \<open>Building a path. Copying a prefix and appending a name, both terminated, yields the
  concatenation of the two texts, terminated, whenever it fits with its terminator; otherwise the copy
  would write past the end of the destination.\<close>

lemma strcpy_strcat_concatenates:
  assumes "terminated a" "terminated b" "length (c_string a) < length dest"
  shows "\<exists>d. strcpy dest a = Some d \<and>
    (if length (c_string a) + length (c_string b) < length dest
     then \<exists>e. strcat d b = Some e \<and> terminated e \<and> c_string e = c_string a @ c_string b \<and> length e = length dest
     else strcat d b = None)"
proof -
  let ?d = "c_string a @ NUL # drop (Suc (length (c_string a))) dest"
  have d: "strcpy dest a = Some ?d" using assms by (simp add: strcpy_exact)
  have c: "c_string ?d = c_string a" "terminated ?d" "length ?d = length dest"
    using strcpy_text [OF d] strcpy_length [OF d] by simp_all
  have "\<exists>e. strcat ?d b = Some e \<and> terminated e \<and> c_string e = c_string a @ c_string b \<and> length e = length dest"
    if "length (c_string a) + length (c_string b) < length dest"
  proof -
    let ?t = "c_string a @ c_string b"
    have "strcat ?d b = Some (?t @ NUL # drop (Suc (length ?t)) ?d)"
      using that assms(2) c by (simp add: strcat_exact del: append_assoc)
    moreover have "c_string (?t @ NUL # z) = ?t" "terminated (?t @ NUL # z)" for z
      using c_string_no_NUL [of a] c_string_no_NUL [of b] c_string_no_end [of ?t z] by (simp_all add: terminated_def)
    ultimately show ?thesis using that c(3) by simp
  qed
  moreover have "strcat ?d b = None" if "\<not> length (c_string a) + length (c_string b) < length dest"
    using that unfolding strcat_exact c by simp
  ultimately show ?thesis using d by auto
qed

subsection \<open>System calls\<close>

text \<open>In a well-formed table the pids are the indices of the slots, so looking up a pid below
  \<^verbatim>\<open>n_processes\<close> finds the process registered under it, and any other pid finds nothing.\<close>

lemma search_process_exact:
  assumes "well_formed s"
  shows "search_process p s = (if 0 \<le> p \<and> p < n_processes s then processes s ! nat p else None) \<and>
    (\<forall>x. search_process p s = Some x \<longleftrightarrow> registered s x \<and> pid (heap s x) = p)"
proof -
  have tab: "table_ok s" by (rule well_formed_table [OF assms])
  have "search_process p s = None" if "\<not> (0 \<le> p \<and> p < n_processes s)"
    using that search_process_iff [OF tab] registered_pid(1,4) [OF tab] by (cases "search_process p s") auto
  then show ?thesis using search_process_by_index(1) [OF tab] search_process_iff [OF tab] by auto
qed

text \<open>Waiting. For an unknown pid the call fails, for a ZOMBIE it returns at once; otherwise the
  caller blocks with the pid recorded, another process gets the CPU, and the state stays well formed.\<close>

lemma wait_blocks_until_exit:
  assumes wf: "well_formed s" and run: "is_running s" and c: "current_process s \<noteq> init_process"
  shows "case search_process p s of
      None \<Rightarrow> syscall_wait p s = Some (-1, s)
    | Some d \<Rightarrow> if state (heap s d) = PROCESS_ZOMBIE then syscall_wait p s = Some (0, s)
        else \<exists>t. syscall_wait p s = Some (0, t) \<and> well_formed t \<and> current_process t \<noteq> current_process s \<and>
          state (heap t (current_process s)) = PROCESS_WAITING_ANOTHER_PROCESS"
proof (cases "search_process p s")
  case (Some d)
  let ?f = "\<lambda>P. P\<lparr>pid_to_wait := p\<rparr>"
  let ?b = "upd_pcb (current_process s) ?f (upd_pcb (current_process s) (\<lambda>P. P\<lparr>state := PROCESS_WAITING_ANOTHER_PROCESS\<rparr>) s)"
  have wb: "well_formed ?b" using waiting_well_formed [OF wf] run by (simp add: is_running_def)
  have reg: "registered s (current_process s)" using wf sched_invD(4) by (auto simp: well_formed_def)
  from schedule_dispatched [OF wb] obtain t z where
    t: "schedule ?b = Some t" "well_formed t" "dispatched z t" "processes z = processes ?b"
      "state (heap z (current_process s)) = PROCESS_WAITING_ANOTHER_PROCESS" by auto
  have "registered z (current_process s)" using reg t(4) by (simp add: registered_def)
  then have "if current_process s = current_process t then \<not> condemned (heap z (current_process s)) \<and>
        (state (heap z (current_process s)) = PROCESS_READY \<or>
         current_process s = current_process z \<and> state (heap z (current_process s)) = PROCESS_RUNNING)
      else if state (heap z (current_process s)) \<in> {PROCESS_READY, PROCESS_RUNNING} then
        state (heap t (current_process s)) = PROCESS_READY \<or>
        condemned (heap z (current_process s)) \<and> state (heap t (current_process s)) \<in> {PROCESS_ZOMBIE, PROCESS_STOPPED}
      else state (heap t (current_process s)) = state (heap z (current_process s))"
    using t(3) c unfolding dispatched_def by blast
  then have "current_process t \<noteq> current_process s \<and>
      state (heap t (current_process s)) = PROCESS_WAITING_ANOTHER_PROCESS"
    unfolding t(5) by (cases "current_process s = current_process t") simp_all
  then show ?thesis using Some t(1,2) by (auto simp: syscall_wait_def)
qed (simp add: syscall_wait_def)

text \<open>The dispatcher. A number of 21 or more does nothing; every call but \<^verbatim>\<open>exec\<close> changes at most
  the register that carries the result, and a call without result changes no register.\<close>

lemma dispatcher_preserves_registers:
  "(registers ! 8 \<ge> 21 \<longrightarrow> syscall_dispatcher H registers st = Some (registers, st)) \<and>
   (registers ! 8 \<noteq> 16 \<longrightarrow> syscall_dispatcher H registers st = Some (registers', st') \<longrightarrow>
      length registers' = length registers \<and> (\<forall>i. i \<noteq> 0 \<longrightarrow> registers' ! i = registers ! i) \<and>
      (registers ! 8 \<in> {0, 2, 9, 14, 18} \<longrightarrow> registers' = registers))"
  for registers :: "ulong list"
proof (intro conjI impI)
  assume "registers ! 8 \<ge> 21"
  then show "syscall_dispatcher H registers st = Some (registers, st)"
    by (auto simp: syscall_dispatcher_def Let_def SYSCALLS_NUMBER_def)
next
  assume n: "registers ! 8 \<noteq> 16" and r: "syscall_dispatcher H registers st = Some (registers', st')"
  have i: "returns_int registers x = Some (registers', st') \<Longrightarrow> \<exists>v. registers' = registers[0 := v]"
    and u: "returns_ulong registers y = Some (registers', st') \<Longrightarrow> \<exists>v. registers' = registers[0 := v]"
    and v: "returns_nothing registers z = Some (registers', st') \<Longrightarrow> registers' = registers"
    for x y z by (auto simp: returns_int_def returns_ulong_def returns_nothing_def bind_eq_Some_conv)
  have "registers' = registers \<or> (\<exists>v. registers' = registers[0 := v])"
    using r n unfolding syscall_dispatcher_def Let_def by (auto split: if_splits dest: i u v)
  then show "length registers' = length registers" "\<forall>i. i \<noteq> 0 \<longrightarrow> registers' ! i = registers ! i" by auto
  show "registers' = registers" if "registers ! 8 \<in> {0, 2, 9, 14, 18}"
    using r that unfolding syscall_dispatcher_def Let_def SYSCALLS_NUMBER_def by (auto split: if_splits dest: v)
qed

definition failing_handlers :: "nat handlers" where
  "failing_handlers =
     \<lparr>h_write = \<lambda>_ _. None, h_write_hex = \<lambda>_ _. None, h_malloc = \<lambda>_. None, h_exit = \<lambda>_. None,
      h_create_dir = \<lambda>_ _. None, h_open_dir = \<lambda>_ _. None, h_open_file = \<lambda>_ _ _. None, h_close_file = \<lambda>_ _. None,
      h_write_file = \<lambda>_ _ _ _ _. None, h_read_file = \<lambda>_ _ _ _ _. None, h_yield = \<lambda>st. Some (st + 1),
      h_input = \<lambda>_ _ _. None, h_get_next_entry = \<lambda>_ _ _. None, h_fork = \<lambda>_. None, h_send_message = \<lambda>_ _ _. None,
      h_receive_message = \<lambda>_ _. None, h_send_signal = \<lambda>_ _ _. None, h_exec = \<lambda>_ _ _ _ _. None, h_wait = \<lambda>_ _. None,
      h_get_time = \<lambda>st. Some (42, st), h_set_sched_param = \<lambda>_ _ _ _. None\<rparr>"

end
