(* ===== verification/Fat_Disk.thy ===== *)
theory Fat_Disk
  imports Kernel_Prelude
begin

text \<open>
  The bottom of the FAT32 library, \<^verbatim>\<open>libs/fat32/fat.c\<close>: the disk operations it is given,
  little-endian fields of a sector, the volume descriptor \<^verbatim>\<open>Fat\<close>, and its one-sector write-back
  cache (\<^verbatim>\<open>sync_buf\<close>, \<^verbatim>\<open>update_buf\<close>, \<^verbatim>\<open>sync_fs\<close>).

  The disk is what \<^verbatim>\<open>DiskOps\<close> gives access to: an array of 512 byte blocks. A transfer may
  fail; \<open>faults\<close> lists the outcomes of the coming transfers, and a failed one leaves some bytes in
  its destination. A function that returns an error code and outputs has a result \<open>Inl\<close> of the
  code, or \<open>Inr\<close> of the outputs when the code is \<^verbatim>\<open>FAT_ERR_NONE\<close>, with the volume it leaves.
\<close>

subsection \<open>Error codes and flags\<close>

definition FAT_ERR_NOFAT :: int where "FAT_ERR_NOFAT = -1"
definition FAT_ERR_BROKEN :: int where "FAT_ERR_BROKEN = -2"
definition FAT_ERR_IO :: int where "FAT_ERR_IO = -3"
definition FAT_ERR_PARAM :: int where "FAT_ERR_PARAM = -4"
definition FAT_ERR_PATH :: int where "FAT_ERR_PATH = -5"
definition FAT_ERR_EOF :: int where "FAT_ERR_EOF = -6"
definition FAT_ERR_DENIED :: int where "FAT_ERR_DENIED = -7"
definition FAT_ERR_FULL :: int where "FAT_ERR_FULL = -8"

definition FAT_BUF_DIRTY :: byte where "FAT_BUF_DIRTY = 1"
definition FAT_INFO_DIRTY :: byte where "FAT_INFO_DIRTY = 2"

subsection \<open>Little-endian fields\<close>

definition get16 :: "byte list \<Rightarrow> nat \<Rightarrow> uint16" where
  "get16 b i = ucast (b ! i) OR push_bit 8 (ucast (b ! (i + 1)))"

definition put16 :: "byte list \<Rightarrow> nat \<Rightarrow> uint16 \<Rightarrow> byte list" where
  "put16 b i v = b[i := ucast v, i + 1 := ucast (drop_bit 8 v)]"

definition get32 :: "byte list \<Rightarrow> nat \<Rightarrow> uint32" where
  "get32 b i = ucast (b ! i) OR push_bit 8 (ucast (b ! (i + 1))) OR
     push_bit 16 (ucast (b ! (i + 2))) OR push_bit 24 (ucast (b ! (i + 3)))"

definition put32 :: "byte list \<Rightarrow> nat \<Rightarrow> uint32 \<Rightarrow> byte list" where
  "put32 b i v = b[i := ucast v, i + 1 := ucast (drop_bit 8 v),
     i + 2 := ucast (drop_bit 16 v), i + 3 := ucast (drop_bit 24 v)]"

lemma length_put [simp]: "length (put16 b i v) = length b" "length (put32 b i w) = length b"
  by (simp_all add: put16_def put32_def)

lemma get16_put16: "i + 1 < length b \<Longrightarrow> get16 (put16 b i v) i = v"
  by (rule bit_word_eqI) (auto simp: get16_def put16_def bit_simps)

lemma get32_put32:
  assumes "i + 3 < length b"
  shows "get32 (put32 b i v) i = v"
proof (rule bit_word_eqI)
  fix n assume n: "n < LENGTH(32)"
  consider "n < 8" | "8 \<le> n" "n < 16" | "16 \<le> n" "n < 24" | "24 \<le> n" by linarith
  then show "bit (get32 (put32 b i v) i) n = bit v n"
    using assms n by cases (auto simp: get32_def put32_def bit_simps)
qed

lemma get32_put32_other: "j + 3 < i \<or> i + 3 < j \<Longrightarrow> get32 (put32 b i v) j = get32 b j"
  by (auto simp: get32_def put32_def)

subsection \<open>The disk\<close>

record disk =
  blocks :: "uint32 \<Rightarrow> byte list"
  faults :: "nat \<Rightarrow> byte list option"

definition disk_read :: "uint32 \<Rightarrow> disk \<Rightarrow> bool \<times> byte list \<times> disk" where
  "disk_read sector d =
     (let d' = d\<lparr>faults := (\<lambda>n. faults d (Suc n))\<rparr>
      in case faults d 0 of None \<Rightarrow> (True, blocks d sector, d') | Some junk \<Rightarrow> (False, junk, d'))"

definition disk_write :: "byte list \<Rightarrow> uint32 \<Rightarrow> disk \<Rightarrow> bool \<times> disk" where
  "disk_write buffer sector d =
     (let d' = d\<lparr>faults := (\<lambda>n. faults d (Suc n))\<rparr>
      in case faults d 0 of
           None \<Rightarrow> (True, d'\<lparr>blocks := (blocks d)(sector := buffer)\<rparr>)
         | Some junk \<Rightarrow> (False, d'\<lparr>blocks := (blocks d)(sector := junk)\<rparr>))"

subsection \<open>The volume and its cache\<close>

record Fat =
  ops :: disk
  clust_msk :: uint32
  clust_cnt :: uint32
  info_sect :: uint32
  fat_sect0 :: uint32
  fat_sect1 :: uint32
  data_sect :: uint32
  root_clust :: uint32
  last_used :: uint32
  free_cnt :: uint32
  fat_sect :: uint32
  fat_buf :: "byte list"
  fat_flags :: byte
  clust_shift :: byte
  fat_name :: "char list"

type_synonym 'a fat_result = "(int + 'a) \<times> Fat"

text \<open>\<^verbatim>\<open>if (err) return err\<close>.\<close>

definition andthen :: "(int + 'a) \<times> 'f \<Rightarrow> ('a \<Rightarrow> 'f \<Rightarrow> (int + 'b) \<times> 'f) \<Rightarrow> (int + 'b) \<times> 'f" where
  "andthen r k = (case r of (Inl e, f) \<Rightarrow> (Inl e, f) | (Inr x, f) \<Rightarrow> k x f)"

lemma andthen_simps [simp]:
  "andthen (Inl e, f) k = (Inl e, f)" "andthen (Inr x, f) k = k x f"
  by (simp_all add: andthen_def)

definition sync_buf :: "Fat \<Rightarrow> unit fat_result" where
  "sync_buf f =
     (if fat_flags f AND FAT_BUF_DIRTY \<noteq> 0 then
        let (ok, d) = disk_write (fat_buf f) (fat_sect f) (ops f); f1 = f\<lparr>ops := d\<rparr>
        in if \<not> ok then (Inl FAT_ERR_IO, f1)
           else (Inr (), f1\<lparr>fat_flags := fat_flags f1 AND NOT FAT_BUF_DIRTY\<rparr>)
      else (Inr (), f))"

definition update_buf :: "uint32 \<Rightarrow> Fat \<Rightarrow> unit fat_result" where
  "update_buf sector f =
     (if fat_sect f \<noteq> sector then
        andthen (sync_buf f) (\<lambda>_ f1.
          let (ok, b, d) = disk_read sector (ops f1); f2 = f1\<lparr>ops := d, fat_buf := b\<rparr>
          in if \<not> ok then (Inl FAT_ERR_IO, f2) else (Inr (), f2\<lparr>fat_sect := sector\<rparr>))
      else (Inr (), f))"

text \<open>The two counters of the FSInfo sector, at their offsets in \<^verbatim>\<open>FsInfo\<close>.\<close>

definition FSINFO_FREE_CNT :: nat where "FSINFO_FREE_CNT = 488"
definition FSINFO_NEXT_FREE :: nat where "FSINFO_NEXT_FREE = 492"

definition sync_fs :: "Fat \<Rightarrow> unit fat_result" where
  "sync_fs f =
     andthen (sync_buf f) (\<lambda>_ f1.
       if fat_flags f1 AND FAT_INFO_DIRTY \<noteq> 0 then
         andthen (update_buf (info_sect f1) f1) (\<lambda>_ f2.
           let f3 = f2\<lparr>fat_flags := fat_flags f2 OR FAT_BUF_DIRTY\<rparr>;
               f4 = f3\<lparr>fat_buf := put32 (put32 (fat_buf f3) FSINFO_NEXT_FREE (last_used f3))
                                    FSINFO_FREE_CNT (free_cnt f3)\<rparr>
           in andthen (sync_buf f4) (\<lambda>_ f5.
                (Inr (), f5\<lparr>fat_flags := fat_flags f5 AND NOT FAT_INFO_DIRTY\<rparr>)))
       else (Inr (), f1))"

subsection \<open>What the cache shows\<close>

text \<open>The sector as a reader sees it through the cache. Sector 0 is excluded below: a freshly
  mounted volume pretends to have it in its buffer.\<close>

definition content :: "Fat \<Rightarrow> uint32 \<Rightarrow> byte list" where
  "content f s = (if s = fat_sect f then fat_buf f else blocks (ops f) s)"

definition dirty :: "Fat \<Rightarrow> bool" where
  "dirty f \<longleftrightarrow> fat_flags f AND FAT_BUF_DIRTY \<noteq> 0"

definition cache_ok :: "Fat \<Rightarrow> bool" where
  "cache_ok f \<longleftrightarrow> (fat_sect f \<noteq> 0 \<longrightarrow> \<not> dirty f \<longrightarrow> fat_buf f = blocks (ops f) (fat_sect f)) \<and>
     length (fat_buf f) = 512 \<and> (\<forall>s. length (blocks (ops f) s) = 512) \<and>
     (\<forall>n junk. faults (ops f) n = Some junk \<longrightarrow> length junk = 512)"

definition no_faults :: "Fat \<Rightarrow> bool" where
  "no_faults f \<longleftrightarrow> (\<forall>n. faults (ops f) n = None)"

text \<open>What the cache operations leave alone: geometry and counters, and the other flag.\<close>

definition same_volume :: "Fat \<Rightarrow> Fat \<Rightarrow> bool" where
  "same_volume f g \<longleftrightarrow>
     clust_msk g = clust_msk f \<and> clust_cnt g = clust_cnt f \<and> info_sect g = info_sect f \<and>
     fat_sect0 g = fat_sect0 f \<and> fat_sect1 g = fat_sect1 f \<and> data_sect g = data_sect f \<and>
     root_clust g = root_clust f \<and> last_used g = last_used f \<and> free_cnt g = free_cnt f \<and>
     clust_shift g = clust_shift f \<and> fat_name g = fat_name f \<and>
     fat_flags g AND FAT_INFO_DIRTY = fat_flags f AND FAT_INFO_DIRTY"

lemma same_volume_refl [simp]: "same_volume f f"
  by (simp add: same_volume_def)

lemma same_volume_trans: "same_volume f g \<Longrightarrow> same_volume g h \<Longrightarrow> same_volume f h"
  by (simp add: same_volume_def)

lemma flag_bits:
  "x AND FAT_BUF_DIRTY = 0 \<longleftrightarrow> \<not> bit x 0" "x AND FAT_INFO_DIRTY = 0 \<longleftrightarrow> \<not> bit x 1"
  "FAT_BUF_DIRTY = push_bit 0 1" "FAT_INFO_DIRTY = push_bit 1 1" for x :: byte
proof -
  show e: "FAT_BUF_DIRTY = push_bit 0 1" "FAT_INFO_DIRTY = push_bit 1 1"
    by (simp_all add: FAT_BUF_DIRTY_def FAT_INFO_DIRTY_def)
  show "x AND FAT_BUF_DIRTY = 0 \<longleftrightarrow> \<not> bit x 0" "x AND FAT_INFO_DIRTY = 0 \<longleftrightarrow> \<not> bit x 1"
    unfolding e by (simp_all only: bit_iff_and_push_bit_not_eq_0 not_not)
qed

lemma dirty_bits [simp]:
  "(x AND NOT FAT_BUF_DIRTY) AND FAT_BUF_DIRTY = 0"
  "(x AND NOT FAT_BUF_DIRTY) AND FAT_INFO_DIRTY = x AND FAT_INFO_DIRTY"
  "(x OR FAT_BUF_DIRTY) AND FAT_INFO_DIRTY = x AND FAT_INFO_DIRTY"
  "(x OR FAT_BUF_DIRTY) AND FAT_BUF_DIRTY \<noteq> 0"
  "(x AND NOT FAT_INFO_DIRTY) AND FAT_INFO_DIRTY = 0"
  "(x AND NOT FAT_INFO_DIRTY) AND FAT_BUF_DIRTY = x AND FAT_BUF_DIRTY"
  "(x OR FAT_INFO_DIRTY) AND FAT_BUF_DIRTY = x AND FAT_BUF_DIRTY"
  "(x OR FAT_INFO_DIRTY) AND FAT_INFO_DIRTY \<noteq> 0" for x :: byte
  unfolding flag_bits(3,4) by (auto simp: bit_eq_iff [where 'a = "8 word"] bit_simps)

subsection \<open>The cache operations keep the content\<close>

lemma sync_buf_content:
  assumes ok: "cache_ok f" and r: "sync_buf f = (r, g)"
  shows "same_volume f g \<and> fat_sect g = fat_sect f \<and> fat_buf g = fat_buf f \<and> content g = content f \<and> cache_ok g \<and>
    (case r of Inl e \<Rightarrow> e = FAT_ERR_IO | Inr _ \<Rightarrow> \<not> dirty g \<and> (fat_sect f \<noteq> 0 \<longrightarrow> blocks (ops g) = content f)) \<and>
    (no_faults f \<longrightarrow> r = Inr () \<and> no_faults g)"
proof (cases "dirty f")
  case False
  then have "r = Inr ()" "g = f" using r by (simp_all add: sync_buf_def dirty_def)
  moreover have "blocks (ops f) = content f" if "fat_sect f \<noteq> 0"
    using ok that False by (auto simp: cache_ok_def content_def fun_eq_iff)
  ultimately show ?thesis using ok False by simp
next
  case True
  show ?thesis
  proof (cases "faults (ops f) 0")
    case None
    then have g: "r = Inr ()" "g = f\<lparr>ops := (ops f)\<lparr>faults := (\<lambda>n. faults (ops f) (Suc n)), blocks := (blocks (ops f))(fat_sect f := fat_buf f)\<rparr>,
        fat_flags := fat_flags f AND NOT FAT_BUF_DIRTY\<rparr>"
      using r True by (simp_all add: sync_buf_def dirty_def disk_write_def Let_def)
    show ?thesis
      using ok unfolding g by (auto simp: same_volume_def content_def cache_ok_def dirty_def no_faults_def fun_eq_iff)
  next
    case (Some junk)
    then have g: "r = Inl FAT_ERR_IO" "g = f\<lparr>ops := (ops f)\<lparr>faults := (\<lambda>n. faults (ops f) (Suc n)), blocks := (blocks (ops f))(fat_sect f := junk)\<rparr>\<rparr>"
      using r True by (simp_all add: sync_buf_def dirty_def disk_write_def Let_def)
    have d: "dirty g" using True unfolding g by (simp add: dirty_def)
    show ?thesis
      using ok Some d unfolding g by (auto simp: same_volume_def content_def cache_ok_def no_faults_def fun_eq_iff)
  qed
qed

lemma update_buf_content:
  assumes ok: "cache_ok f" and s: "s \<noteq> 0" and r: "update_buf s f = (r, g)"
  shows "same_volume f g \<and>
    (case r of
       Inr _ \<Rightarrow> cache_ok g \<and> fat_sect g = s \<and> fat_buf g = content f s \<and> (\<forall>t. t \<noteq> 0 \<longrightarrow> content g t = content f t)
     | Inl e \<Rightarrow> e = FAT_ERR_IO) \<and>
    (no_faults f \<longrightarrow> r = Inr () \<and> no_faults g)"
proof (cases "fat_sect f = s")
  case True
  then have "r = Inr ()" "g = f" using r by (simp_all add: update_buf_def)
  then show ?thesis using ok True by (simp add: content_def)
next
  case False
  obtain r1 f1 where s1: "sync_buf f = (r1, f1)" by fastforce
  note S = sync_buf_content [OF ok s1]
  show ?thesis
  proof (cases r1)
    case (Inl e)
    then show ?thesis using False r s1 S by (auto simp: update_buf_def)
  next
    case (Inr u)
    let ?d = "(ops f1)\<lparr>faults := (\<lambda>n. faults (ops f1) (Suc n))\<rparr>"
    show ?thesis
    proof (cases "faults (ops f1) 0")
      case (Some junk)
      then have "r = Inl FAT_ERR_IO" "g = f1\<lparr>ops := ?d, fat_buf := junk\<rparr>" "\<not> no_faults f1"
        using False r s1 Inr by (auto simp: update_buf_def disk_read_def Let_def no_faults_def)
      then show ?thesis using S by (auto simp: same_volume_def)
    next
      case None
      then have g: "r = Inr ()" "g = f1\<lparr>ops := ?d, fat_buf := blocks (ops f1) s, fat_sect := s\<rparr>"
        using False r s1 Inr by (simp_all add: update_buf_def disk_read_def Let_def)
      have same: "content f1 = content f" "fat_sect f1 = fat_sect f" using S by simp_all
      have b: "blocks (ops f1) t = content f t" if "t \<noteq> 0" for t
      proof (cases "fat_sect f = 0")
        case True
        then have "content f1 t = blocks (ops f1) t" using same(2) that by (simp add: content_def)
        then show ?thesis using same(1) by simp
      qed (use S Inr in simp)
      have "\<not> dirty g" using S Inr g by (simp add: dirty_def)
      moreover have "content g t = content f t" if "t \<noteq> 0" for t
        using b [OF that] that s unfolding g by (auto simp: content_def)
      moreover have "cache_ok g"
      proof -
        have "cache_ok f1" using S by simp
        then show ?thesis unfolding g cache_ok_def by simp
      qed
      moreover have "same_volume f g" "fat_sect g = s" "fat_buf g = content f s"
        using S b [OF s] unfolding g by (simp_all add: same_volume_def)
      moreover have "no_faults g" if "no_faults f" using S that unfolding g by (simp add: no_faults_def)
      ultimately show ?thesis using g(1) by simp
    qed
  qed
qed

end
