(* ===== verification/Fat_Table.thy ===== *)
theory Fat_Table
  imports Fat_Disk
begin

text \<open>
  The file allocation table of \<^verbatim>\<open>libs/fat32/fat.c\<close>: reading and writing entries with
  mirroring (\<^verbatim>\<open>get_fat\<close>, \<^verbatim>\<open>put_fat\<close>), freeing a chain of clusters (\<^verbatim>\<open>remove_chain\<close>),
  allocating one (\<^verbatim>\<open>stretch_chain\<close>, \<^verbatim>\<open>create_chain\<close>) and zeroing a cluster
  (\<^verbatim>\<open>clust_clear\<close>). Operations with a loop that the data decides have results in \<open>option\<close>:
  \<open>None\<close> is a call that does not return, or returns a variable nobody set.
\<close>

subsection \<open>Entries\<close>

definition CLUST_FREE :: byte where "CLUST_FREE = 0x01"
definition CLUST_USED :: byte where "CLUST_USED = 0x02"
definition CLUST_LAST :: byte where "CLUST_LAST = 0x04"
definition CLUST_BAD :: byte where "CLUST_BAD = 0x08"

definition sect_to_clust :: "Fat \<Rightarrow> uint32 \<Rightarrow> uint32" where
  "sect_to_clust f sect = drop_bit (unat (clust_shift f)) (sect - data_sect f) + 2"

definition clust_to_sect :: "Fat \<Rightarrow> uint32 \<Rightarrow> uint32" where
  "clust_to_sect f clust = push_bit (unat (clust_shift f)) (clust - 2) + data_sect f"

definition fat_index :: "uint32 \<Rightarrow> nat" where
  "fat_index clust = 4 * unat (clust mod 128)"

definition entry_flags :: "uint32 \<Rightarrow> uint32 \<Rightarrow> byte option" where
  "entry_flags cnt val =
     (if val = 0 then Some CLUST_FREE
      else if val = 0x0ffffff7 then Some CLUST_BAD
      else if val \<ge> 0x0ffffff8 then Some (CLUST_USED OR CLUST_LAST)
      else if val \<ge> 2 \<and> val < cnt then Some CLUST_USED
      else None)"

definition get_fat :: "uint32 \<Rightarrow> Fat \<Rightarrow> (uint32 \<times> byte) fat_result" where
  "get_fat clust f =
     andthen (update_buf (fat_sect0 f + clust div 128) f) (\<lambda>_ f1.
       let val = get32 (fat_buf f1) (fat_index clust) AND 0x0fffffff
       in case entry_flags (clust_cnt f1) val of
            None \<Rightarrow> (Inl FAT_ERR_BROKEN, f1)
          | Some flags \<Rightarrow> (Inr (val, flags), f1))"

definition put_fat2 :: "uint32 \<Rightarrow> uint32 \<Rightarrow> uint32 \<Rightarrow> Fat \<Rightarrow> unit fat_result" where
  "put_fat2 table clust val f =
     andthen (update_buf (table + clust div 128) f) (\<lambda>_ f1.
       let item = (get32 (fat_buf f1) (fat_index clust) AND 0xf0000000) OR (val AND 0x0fffffff)
       in (Inr (), f1\<lparr>fat_buf := put32 (fat_buf f1) (fat_index clust) item,
                      fat_flags := fat_flags f1 OR FAT_BUF_DIRTY\<rparr>))"

definition put_fat :: "uint32 \<Rightarrow> uint32 \<Rightarrow> Fat \<Rightarrow> unit fat_result" where
  "put_fat clust val f =
     andthen (if fat_sect1 f \<noteq> 0 then put_fat2 (fat_sect1 f) clust val f else (Inr (), f))
       (\<lambda>_ f1. put_fat2 (fat_sect0 f1) clust val f1)"

subsection \<open>Freeing a chain\<close>

partial_function (option) remove_loop :: "uint32 \<Rightarrow> Fat \<Rightarrow> unit fat_result option" where
  "remove_loop clust f =
     (case get_fat clust f of
        (Inl err, f1) \<Rightarrow> Some (Inl err, f1)
      | (Inr (next, flags), f1) \<Rightarrow>
          if flags AND (CLUST_BAD OR CLUST_FREE) \<noteq> 0 then Some (Inl FAT_ERR_BROKEN, f1)
          else (case put_fat clust 0 f1 of
              (Inl err, f2) \<Rightarrow> Some (Inl err, f2)
            | (Inr _, f2) \<Rightarrow>
                let f3 = f2\<lparr>free_cnt := free_cnt f2 + 1\<rparr>
                in if flags AND CLUST_LAST \<noteq> 0 then Some (Inr (), f3) else remove_loop next f3))"

definition remove_chain :: "uint32 \<Rightarrow> Fat \<Rightarrow> unit fat_result option" where
  "remove_chain clust f = do {
     r \<leftarrow> remove_loop clust (f\<lparr>fat_flags := fat_flags f OR FAT_INFO_DIRTY\<rparr>);
     Some (andthen r (\<lambda>_ f1. sync_fs f1))
   }"

subsection \<open>Allocating a cluster\<close>

text \<open>Clusters are tried in turn, cluster 2 after the last one. In the search behind \<^verbatim>\<open>last_used\<close>, a
  failed \<^verbatim>\<open>get_fat\<close> makes the function return the \<open>flags\<close> of the entry read before, not the error.\<close>

definition next_cluster :: "uint32 \<Rightarrow> uint32 \<Rightarrow> uint32" where
  "next_cluster cnt clust = (if clust + 1 \<ge> cnt then 2 else clust + 1)"

partial_function (option) scan_loop :: "byte option \<Rightarrow> uint32 \<Rightarrow> Fat \<Rightarrow> uint32 fat_result option" where
  "scan_loop flags clust f =
     (let clust1 = next_cluster (clust_cnt f) clust
      in if clust1 = last_used f then Some (Inl FAT_ERR_FULL, f)
         else (case get_fat clust1 f of
             (Inl err, f1) \<Rightarrow> (case flags of None \<Rightarrow> None | Some v \<Rightarrow> Some (Inl (uint v), f1))
           | (Inr (next, v), f1) \<Rightarrow>
               if v AND CLUST_FREE \<noteq> 0 then Some (Inr clust1, f1) else scan_loop (Some v) clust1 f1))"

text \<open>The successor of the chain's last cluster, if it is free, else the search.\<close>

definition find_free :: "uint32 \<Rightarrow> Fat \<Rightarrow> uint32 fat_result option" where
  "find_free prev f =
     (if prev \<noteq> 0 then
        let clust = next_cluster (clust_cnt f) prev
        in (case get_fat clust f of
              (Inl err, f1) \<Rightarrow> Some (Inl err, f1)
            | (Inr (next, flags), f1) \<Rightarrow>
                if flags AND CLUST_FREE \<noteq> 0 then Some (Inr clust, f1)
                else scan_loop (Some flags) (last_used f1) f1)
      else scan_loop None (last_used f) f)"

definition stretch_chain :: "uint32 \<Rightarrow> Fat \<Rightarrow> uint32 fat_result option" where
  "stretch_chain prev f = do {
     r \<leftarrow> find_free prev (f\<lparr>fat_flags := fat_flags f OR FAT_INFO_DIRTY\<rparr>);
     Some (andthen r (\<lambda>clust f1.
       andthen (put_fat clust 0x0fffffff f1) (\<lambda>_ f2.
       andthen (if prev \<noteq> 0 then put_fat prev clust f2 else (Inr (), f2)) (\<lambda>_ f3.
       andthen (sync_fs (f3\<lparr>last_used := clust, free_cnt := free_cnt f3 - 1\<rparr>)) (\<lambda>_ f4.
         (Inr clust, f4))))))
   }"

definition create_chain :: "Fat \<Rightarrow> uint32 fat_result option" where
  "create_chain f = stretch_chain 0 f"

primrec clear_loop :: "nat \<Rightarrow> uint32 \<Rightarrow> Fat \<Rightarrow> unit fat_result" where
  "clear_loop 0 sect f = (Inr (), f)"
| "clear_loop (Suc n) sect f =
     andthen (sync_buf (f\<lparr>fat_flags := fat_flags f OR FAT_BUF_DIRTY, fat_sect := sect\<rparr>))
       (\<lambda>_ f1. clear_loop n (sect + 1) f1)"

definition clust_clear :: "uint32 \<Rightarrow> Fat \<Rightarrow> unit fat_result" where
  "clust_clear clust f =
     andthen (sync_buf f) (\<lambda>_ f1.
       clear_loop (2 ^ unat (clust_shift f1)) (clust_to_sect f1 clust)
         (f1\<lparr>fat_buf := replicate 512 0\<rparr>))"

subsection \<open>The table behind the cache\<close>

text \<open>The value of an entry, and what a well placed table needs: its sectors, those of its mirror and
  the FSInfo sector are different and none of them is sector 0.\<close>

definition fat_entry :: "Fat \<Rightarrow> uint32 \<Rightarrow> uint32" where
  "fat_entry f c = get32 (content f (fat_sect0 f + c div 128)) (fat_index c) AND 0x0fffffff"

definition layout_ok :: "Fat \<Rightarrow> bool" where
  "layout_ok f \<longleftrightarrow> info_sect f \<noteq> 0 \<and> clust_cnt f \<le> 0x0ffffff7 \<and>
     (\<forall>c < clust_cnt f. fat_sect0 f + c div 128 \<noteq> 0 \<and> fat_sect0 f + c div 128 \<noteq> info_sect f \<and>
        (fat_sect1 f \<noteq> 0 \<longrightarrow> fat_sect1 f + c div 128 \<noteq> 0 \<and> fat_sect1 f + c div 128 \<noteq> info_sect f \<and>
           (\<forall>d < clust_cnt f. fat_sect1 f + c div 128 \<noteq> fat_sect0 f + d div 128)))"

definition volume_ok :: "Fat \<Rightarrow> bool" where
  "volume_ok f \<longleftrightarrow> cache_ok f \<and> no_faults f \<and> layout_ok f"

lemma layout_ok_same: "same_volume f g \<Longrightarrow> layout_ok g = layout_ok f"
  by (simp add: layout_ok_def same_volume_def)

lemma fat_index_less: "fat_index c + 3 < 512"
proof -
  have "c mod 128 < 128" by (simp add: word_mod_less_divisor)
  then have "unat (c mod 128) < 128" by (simp add: word_less_nat_alt)
  then show ?thesis by (simp add: fat_index_def)
qed

lemma fat_index_inj:
  assumes "c div 128 = d div 128" "c \<noteq> d"
  shows "fat_index d + 3 < fat_index c \<or> fat_index c + 3 < fat_index d"
proof -
  have "c mod 128 \<noteq> d mod 128" using assms word_mod_div_equality [of c 128] word_mod_div_equality [of d 128] by metis
  then have "unat (c mod 128) \<noteq> unat (d mod 128)" unfolding word_unat_eq_iff .
  then show ?thesis by (auto simp: fat_index_def)
qed

lemma fat_entry_same:
  assumes "same_volume f g" "content g (fat_sect0 f + c div 128) = content f (fat_sect0 f + c div 128)"
  shows "fat_entry g c = fat_entry f c"
  using assms by (simp add: fat_entry_def same_volume_def)

subsection \<open>One entry\<close>

text \<open>Reading an entry changes nothing a reader can see.\<close>

definition unchanged :: "Fat \<Rightarrow> Fat \<Rightarrow> bool" where
  "unchanged f g \<longleftrightarrow> same_volume f g \<and> volume_ok g \<and> (\<forall>t. t \<noteq> 0 \<longrightarrow> content g t = content f t)"

lemma update_buf_ok:
  assumes "volume_ok f" "s \<noteq> 0"
  shows "\<exists>g. update_buf s f = (Inr (), g) \<and> unchanged f g \<and> fat_sect g = s \<and> fat_buf g = content f s"
proof -
  obtain r g where u: "update_buf s f = (r, g)" by fastforce
  have ok: "cache_ok f" "no_faults f" "layout_ok f" using assms(1) by (simp_all add: volume_ok_def)
  from update_buf_content [OF ok(1) assms(2) u] ok have
    "r = Inr ()" "same_volume f g" "cache_ok g" "fat_sect g = s" "fat_buf g = content f s" "no_faults g"
    "\<forall>t. t \<noteq> 0 \<longrightarrow> content g t = content f t" by auto
  then show ?thesis using u ok(3) layout_ok_same [of f g] by (simp add: unchanged_def volume_ok_def)
qed

lemma table_sector:
  assumes "volume_ok f" "c < clust_cnt f"
  shows "fat_sect0 f + c div 128 \<noteq> 0" "fat_sect1 f \<noteq> 0 \<Longrightarrow> fat_sect1 f + c div 128 \<noteq> 0"
    "fat_sect0 f + c div 128 \<noteq> info_sect f"
    "d < clust_cnt f \<Longrightarrow> fat_sect1 f \<noteq> 0 \<Longrightarrow> fat_sect1 f + c div 128 \<noteq> fat_sect0 f + d div 128"
  using assms by (auto simp: volume_ok_def layout_ok_def)

lemma get_fat_ok:
  assumes "volume_ok f" "c < clust_cnt f"
  shows "\<exists>g. get_fat c f = (case entry_flags (clust_cnt f) (fat_entry f c) of
      None \<Rightarrow> Inl FAT_ERR_BROKEN | Some v \<Rightarrow> Inr (fat_entry f c, v), g) \<and> unchanged f g"
proof -
  from update_buf_ok [OF assms(1) table_sector(1) [OF assms]] obtain g where
    g: "update_buf (fat_sect0 f + c div 128) f = (Inr (), g)" "unchanged f g"
      "fat_buf g = content f (fat_sect0 f + c div 128)" by blast
  have "clust_cnt g = clust_cnt f" using g(2) by (simp add: unchanged_def same_volume_def)
  then have "get_fat c f = (case entry_flags (clust_cnt f) (fat_entry f c) of
      None \<Rightarrow> Inl FAT_ERR_BROKEN | Some v \<Rightarrow> Inr (fat_entry f c, v), g)"
    using g(1,3) by (simp add: get_fat_def fat_entry_def Let_def split: option.splits)
  then show ?thesis using g(2) by blast
qed

text \<open>The value an entry gets.\<close>

definition new_item :: "uint32 \<Rightarrow> uint32 \<Rightarrow> uint32" where
  "new_item old val = (old AND 0xf0000000) OR (val AND 0x0fffffff)"

definition written :: "uint32 \<Rightarrow> uint32 \<Rightarrow> byte list \<Rightarrow> byte list" where
  "written c val b = put32 b (fat_index c) (new_item (get32 b (fat_index c)) val)"

lemma put_fat2_ok:
  assumes "volume_ok f" "table + c div 128 \<noteq> 0"
  shows "\<exists>g. put_fat2 table c val f = (Inr (), g) \<and> same_volume f g \<and> volume_ok g \<and>
    (\<forall>t. t \<noteq> 0 \<longrightarrow> content g t = (if t = table + c div 128 then written c val (content f t) else content f t))"
proof -
  from update_buf_ok [OF assms] obtain h where
    h: "update_buf (table + c div 128) f = (Inr (), h)" "unchanged f h" "fat_sect h = table + c div 128"
      "fat_buf h = content f (table + c div 128)" by blast
  let ?g = "h\<lparr>fat_buf := written c val (fat_buf h), fat_flags := fat_flags h OR FAT_BUF_DIRTY\<rparr>"
  have "put_fat2 table c val f = (Inr (), ?g)"
    using h(1) by (simp add: put_fat2_def written_def new_item_def Let_def)
  moreover have sv: "same_volume h ?g" by (simp add: same_volume_def)
  moreover have "volume_ok ?g"
  proof -
    have "dirty ?g" using dirty_bits(4) [of "fat_flags h"] unfolding dirty_def by simp
    then show ?thesis
      using h(2) layout_ok_same [OF sv] by (auto simp: unchanged_def volume_ok_def cache_ok_def no_faults_def written_def)
  qed
  moreover have "content ?g t = (if t = table + c div 128 then written c val (content f t) else content f t)" if "t \<noteq> 0" for t
    using h(2,3,4) that by (auto simp: content_def unchanged_def)
  ultimately show ?thesis using h(2) same_volume_trans [of f h ?g] by (auto simp: unchanged_def)
qed

lemma put_fat_ok:
  assumes "volume_ok f" "c < clust_cnt f"
  shows "\<exists>g. put_fat c val f = (Inr (), g) \<and> same_volume f g \<and> volume_ok g \<and>
    (\<forall>t. t \<noteq> 0 \<longrightarrow> content g t =
       (if t = fat_sect0 f + c div 128 \<or> fat_sect1 f \<noteq> 0 \<and> t = fat_sect1 f + c div 128
        then written c val (content f t) else content f t))"
proof (cases "fat_sect1 f = 0")
  case True
  with put_fat2_ok [OF assms(1) table_sector(1) [OF assms], of val] show ?thesis by (auto simp: put_fat_def)
next
  case False
  from put_fat2_ok [OF assms(1) table_sector(2) [OF assms False], of val] obtain h where
    h: "put_fat2 (fat_sect1 f) c val f = (Inr (), h)" "same_volume f h" "volume_ok h"
      "\<forall>t. t \<noteq> 0 \<longrightarrow> content h t = (if t = fat_sect1 f + c div 128 then written c val (content f t) else content f t)"
    by blast
  have s0: "fat_sect0 h = fat_sect0 f" using h(2) by (simp add: same_volume_def)
  from put_fat2_ok [OF h(3), of "fat_sect0 h" c val] table_sector(1) [OF assms] obtain g where
    g: "put_fat2 (fat_sect0 h) c val h = (Inr (), g)" "same_volume h g" "volume_ok g"
      "\<forall>t. t \<noteq> 0 \<longrightarrow> content g t = (if t = fat_sect0 f + c div 128 then written c val (content h t) else content h t)"
    unfolding s0 by blast
  have "fat_sect1 f + c div 128 \<noteq> fat_sect0 f + c div 128" by (rule table_sector(4) [OF assms assms(2) False])
  then show ?thesis
    using g h False same_volume_trans [OF h(2) g(2)] by (intro exI [of _ g]) (auto simp: put_fat_def)
qed

lemma new_item_bits:
  "new_item old val AND 0x0fffffff = val AND 0x0fffffff" "new_item old val AND 0xf0000000 = old AND 0xf0000000"
proof -
  have m: "(0xf0000000 :: uint32) = push_bit 28 (mask 4)" "(0x0fffffff :: uint32) = mask 28"
    by (simp_all add: mask_eq_exp_minus_1 push_bit_eq_mult)
  show "new_item old val AND 0x0fffffff = val AND 0x0fffffff" "new_item old val AND 0xf0000000 = old AND 0xf0000000"
    unfolding new_item_def m by (auto simp: bit_eq_iff [where 'a = "32 word"] bit_simps)
qed

lemma get32_written:
  assumes "length b = 512"
  shows "get32 (written c val b) (fat_index c) = new_item (get32 b (fat_index c)) val"
    "c div 128 = d div 128 \<Longrightarrow> c \<noteq> d \<Longrightarrow> get32 (written c val b) (fat_index d) = get32 b (fat_index d)"
  using assms fat_index_less [of c] fat_index_inj [of c d]
  by (auto simp: written_def get32_put32 get32_put32_other)

text \<open>Writing an entry changes that entry and no other.\<close>

lemma put_fat_entry:
  assumes "volume_ok f" "c < clust_cnt f"
  shows "\<exists>g. put_fat c val f = (Inr (), g) \<and> same_volume f g \<and> volume_ok g \<and>
    (\<forall>d < clust_cnt f. fat_entry g d = (if d = c then val AND 0x0fffffff else fat_entry f d)) \<and>
    (\<forall>t. t \<noteq> 0 \<longrightarrow> t \<noteq> fat_sect0 f + c div 128 \<longrightarrow> (fat_sect1 f = 0 \<or> t \<noteq> fat_sect1 f + c div 128) \<longrightarrow>
       content g t = content f t)"
proof -
  from put_fat_ok [OF assms, of val] obtain g where
    g: "put_fat c val f = (Inr (), g)" "same_volume f g" "volume_ok g"
      "\<forall>t. t \<noteq> 0 \<longrightarrow> content g t =
       (if t = fat_sect0 f + c div 128 \<or> fat_sect1 f \<noteq> 0 \<and> t = fat_sect1 f + c div 128
        then written c val (content f t) else content f t)" by blast
  have s0: "fat_sect0 g = fat_sect0 f" using g(2) by (simp add: same_volume_def)
  have len: "length (content f t) = 512" for t
    using assms(1) by (simp add: volume_ok_def cache_ok_def content_def)
  have "fat_entry g d = (if d = c then val AND 0x0fffffff else fat_entry f d)" if d: "d < clust_cnt f" for d
  proof -
    have n: "fat_sect0 f + d div 128 \<noteq> 0" "fat_sect1 f \<noteq> 0 \<Longrightarrow> fat_sect1 f + c div 128 \<noteq> fat_sect0 f + d div 128"
      using table_sector(1) [OF assms(1) d] table_sector(4) [OF assms d] by auto
    show ?thesis
    proof (cases "d div 128 = c div 128")
      case True
      then have "content g (fat_sect0 f + d div 128) = written c val (content f (fat_sect0 f + d div 128))"
        using g(4) n by auto
      then show ?thesis
        using get32_written(1) [OF len] get32_written(2) [OF len, of c d] new_item_bits(1) True
        by (auto simp: fat_entry_def s0)
    next
      case False
      then have "content g (fat_sect0 f + d div 128) = content f (fat_sect0 f + d div 128)" using g(4) n by auto
      then show ?thesis using False by (auto simp: fat_entry_def s0)
    qed
  qed
  then show ?thesis using g by auto
qed

subsection \<open>Writing the counters back\<close>

definition same_geometry :: "Fat \<Rightarrow> Fat \<Rightarrow> bool" where
  "same_geometry f g \<longleftrightarrow>
     clust_msk g = clust_msk f \<and> clust_cnt g = clust_cnt f \<and> info_sect g = info_sect f \<and>
     fat_sect0 g = fat_sect0 f \<and> fat_sect1 g = fat_sect1 f \<and> data_sect g = data_sect f \<and>
     root_clust g = root_clust f \<and> clust_shift g = clust_shift f \<and> fat_name g = fat_name f"

lemma same_geometry_trans: "same_geometry f g \<Longrightarrow> same_geometry g h \<Longrightarrow> same_geometry f h"
  by (simp add: same_geometry_def)

lemma same_volume_geometry: "same_volume f g \<Longrightarrow> same_geometry f g"
  by (simp add: same_volume_def same_geometry_def)

lemma layout_ok_geometry: "same_geometry f g \<Longrightarrow> layout_ok g = layout_ok f"
  by (simp add: layout_ok_def same_geometry_def)

text \<open>A clean cache: the disk holds what a reader sees.\<close>

lemma clean_blocks:
  assumes "cache_ok f" "\<not> dirty f" "t \<noteq> 0"
  shows "blocks (ops f) t = content f t"
  using assms by (auto simp: cache_ok_def content_def)

lemma volume_ok_fields:
  "volume_ok (f\<lparr>last_used := a\<rparr>) = volume_ok f" "volume_ok (f\<lparr>free_cnt := b\<rparr>) = volume_ok f"
  by (simp_all add: volume_ok_def cache_ok_def no_faults_def layout_ok_def dirty_def)

lemma volume_ok_info_dirty: "volume_ok (f\<lparr>fat_flags := fat_flags f OR FAT_INFO_DIRTY\<rparr>) = volume_ok f"
proof -
  have "dirty (f\<lparr>fat_flags := fat_flags f OR FAT_INFO_DIRTY\<rparr>) = dirty f"
    unfolding dirty_def using dirty_bits(7) [of "fat_flags f"] by simp
  then show ?thesis by (simp add: volume_ok_def cache_ok_def no_faults_def layout_ok_def)
qed

lemma content_fields [simp]:
  "content (f\<lparr>last_used := a\<rparr>) = content f" "content (f\<lparr>free_cnt := b\<rparr>) = content f"
  "content (f\<lparr>fat_flags := v\<rparr>) = content f"
  by (simp_all add: content_def fun_eq_iff)

lemma fat_entry_fields [simp]:
  "fat_entry (f\<lparr>last_used := a\<rparr>) = fat_entry f" "fat_entry (f\<lparr>free_cnt := b\<rparr>) = fat_entry f"
  "fat_entry (f\<lparr>fat_flags := v\<rparr>) = fat_entry f"
  by (simp_all add: fat_entry_def fun_eq_iff)

definition fsinfo :: "Fat \<Rightarrow> byte list \<Rightarrow> byte list" where
  "fsinfo f b = put32 (put32 b FSINFO_NEXT_FREE (last_used f)) FSINFO_FREE_CNT (free_cnt f)"

lemma sync_buf_ok:
  assumes "volume_ok f"
  shows "\<exists>g. sync_buf f = (Inr (), g) \<and> unchanged f g \<and> \<not> dirty g \<and> content g = content f \<and> fat_buf g = fat_buf f \<and>
    fat_sect g = fat_sect f"
proof -
  obtain r g where s: "sync_buf f = (r, g)" by fastforce
  have ok: "cache_ok f" "no_faults f" "layout_ok f" using assms by (simp_all add: volume_ok_def)
  from sync_buf_content [OF ok(1) s] ok show ?thesis
    using s layout_ok_same [of f g] by (auto simp: unchanged_def volume_ok_def)
qed

lemma sync_fs_ok:
  assumes "volume_ok f" "fat_flags f AND FAT_INFO_DIRTY \<noteq> 0"
  shows "\<exists>g. sync_fs f = (Inr (), g) \<and> same_geometry f g \<and> volume_ok g \<and> \<not> dirty g \<and>
    fat_flags g AND FAT_INFO_DIRTY = 0 \<and> last_used g = last_used f \<and> free_cnt g = free_cnt f \<and>
    (\<forall>t. t \<noteq> 0 \<longrightarrow> content g t = (if t = info_sect f then fsinfo f (content f t) else content f t))"
proof -
  from sync_buf_ok [OF assms(1)] obtain a where
    a: "sync_buf f = (Inr (), a)" "unchanged f a" "content a = content f" by blast
  have va: "volume_ok a" "same_volume f a" using a(2) by (simp_all add: unchanged_def)
  have info: "info_sect a \<noteq> 0" using va(1) by (simp add: volume_ok_def layout_ok_def)
  from update_buf_ok [OF va(1) info] obtain b where
    b: "update_buf (info_sect a) a = (Inr (), b)" "unchanged a b" "fat_sect b = info_sect a"
      "fat_buf b = content a (info_sect a)" by blast
  have vb: "volume_ok b" "same_volume f b" using b(2) va same_volume_trans [of f a b] by (simp_all add: unchanged_def)
  define c where "c = b\<lparr>fat_flags := fat_flags b OR FAT_BUF_DIRTY, fat_buf := fsinfo f (fat_buf b)\<rparr>"
  have dc: "dirty c" using dirty_bits(4) [of "fat_flags b"] unfolding dirty_def c_def by simp
  have sc: "same_volume b c" by (simp add: c_def same_volume_def)
  have "length (fsinfo f (fat_buf b)) = 512" using vb(1) by (simp add: fsinfo_def volume_ok_def cache_ok_def)
  then have vc: "volume_ok c"
    using vb(1) dc layout_ok_same [OF sc] by (simp add: volume_ok_def cache_ok_def no_faults_def c_def)
  from sync_buf_ok [OF vc] obtain d where
    d: "sync_buf c = (Inr (), d)" "unchanged c d" "\<not> dirty d" "content d = content c" by blast
  let ?g = "d\<lparr>fat_flags := fat_flags d AND NOT FAT_INFO_DIRTY\<rparr>"
  have sd: "same_volume f d" using d(2) same_volume_trans [OF vb(2) same_volume_trans [OF sc]] by (simp add: unchanged_def)
  have e: "(b\<lparr>fat_flags := fat_flags b OR FAT_BUF_DIRTY, fat_buf := put32 (put32 (fat_buf b) FSINFO_NEXT_FREE (last_used b)) FSINFO_FREE_CNT (free_cnt b)\<rparr>) = c"
    using vb(2) by (simp add: c_def fsinfo_def same_volume_def)
  have "fat_flags a AND FAT_INFO_DIRTY \<noteq> 0" using va(2) assms(2) by (simp add: same_volume_def)
  then have "sync_fs f = (Inr (), ?g)"
    using a(1) b(1) d(1) e by (simp add: sync_fs_def Let_def)
  moreover have "same_geometry f ?g" using same_volume_geometry [OF sd] by (simp add: same_geometry_def)
  moreover have nd: "\<not> dirty ?g" using d(3) dirty_bits(6) [of "fat_flags d"] unfolding dirty_def by simp
  moreover have "volume_ok ?g"
    using d(2,3) nd layout_ok_geometry [of d ?g]
    by (simp add: unchanged_def volume_ok_def cache_ok_def no_faults_def same_geometry_def)
  moreover have "fat_flags ?g AND FAT_INFO_DIRTY = 0" using dirty_bits(5) [of "fat_flags d"] by simp
  moreover have "last_used ?g = last_used f" "free_cnt ?g = free_cnt f" using sd by (simp_all add: same_volume_def)
  moreover have "content ?g t = (if t = info_sect f then fsinfo f (content f t) else content f t)" if "t \<noteq> 0" for t
  proof -
    have i: "info_sect a = info_sect f" using va(2) by (simp add: same_volume_def)
    have "content ?g t = content c t" using d(4) by simp
    also have "\<dots> = (if t = info_sect f then fsinfo f (content f t) else content b t)"
      using b(3,4) a(3) i by (simp add: c_def content_def)
    finally show ?thesis using b(2) a(3) that by (auto simp: unchanged_def)
  qed
  ultimately show ?thesis by blast
qed

lemma unchanged_entry: "unchanged f g \<Longrightarrow> layout_ok f \<Longrightarrow> c < clust_cnt f \<Longrightarrow> fat_entry g c = fat_entry f c"
  by (rule fat_entry_same) (auto simp: unchanged_def layout_ok_def)

text \<open>The sectors of the two tables.\<close>

definition table_sectors :: "Fat \<Rightarrow> uint32 set" where
  "table_sectors f = {s. \<exists>c < clust_cnt f. s = fat_sect0 f + c div 128 \<or> fat_sect1 f \<noteq> 0 \<and> s = fat_sect1 f + c div 128}"

text \<open>What an operation on the table leaves alone: everything but the tables and FSInfo.\<close>

definition data_kept :: "Fat \<Rightarrow> Fat \<Rightarrow> bool" where
  "data_kept f g \<longleftrightarrow> same_geometry f g \<and>
     (\<forall>t. t \<noteq> 0 \<longrightarrow> t \<notin> table_sectors f \<longrightarrow> t \<noteq> info_sect f \<longrightarrow> content g t = content f t)"

lemma data_kept_trans: "data_kept f g \<Longrightarrow> data_kept g h \<Longrightarrow> data_kept f h"
  by (auto simp: data_kept_def same_geometry_def table_sectors_def)

lemma data_kept_fields [simp]:
  "data_kept f (g\<lparr>last_used := a\<rparr>) = data_kept f g" "data_kept f (g\<lparr>free_cnt := b\<rparr>) = data_kept f g"
  "data_kept f (g\<lparr>fat_flags := v\<rparr>) = data_kept f g" "data_kept (f\<lparr>fat_flags := v\<rparr>) g = data_kept f g"
  by (simp_all add: data_kept_def same_geometry_def table_sectors_def)

lemma data_kept_unchanged: "unchanged f g \<Longrightarrow> data_kept f g"
  using same_volume_geometry by (auto simp: data_kept_def unchanged_def)

text \<open>Writing an entry, in these terms.\<close>

lemma put_fat_kept:
  assumes "volume_ok f" "c < clust_cnt f"
  shows "\<exists>g. put_fat c val f = (Inr (), g) \<and> same_volume f g \<and> volume_ok g \<and> data_kept f g \<and>
    (\<forall>d < clust_cnt f. fat_entry g d = (if d = c then val AND 0x0fffffff else fat_entry f d))"
proof -
  from put_fat_entry [OF assms, of val] obtain g where
    g: "put_fat c val f = (Inr (), g)" "same_volume f g" "volume_ok g"
      "\<forall>d < clust_cnt f. fat_entry g d = (if d = c then val AND 0x0fffffff else fat_entry f d)"
      "\<And>t. t \<noteq> 0 \<Longrightarrow> t \<noteq> fat_sect0 f + c div 128 \<Longrightarrow> (fat_sect1 f = 0 \<or> t \<noteq> fat_sect1 f + c div 128) \<Longrightarrow>
         content g t = content f t" by blast
  then have "data_kept f g"
    using assms(2) same_volume_geometry [OF g(2)] by (auto simp: data_kept_def table_sectors_def)
  then show ?thesis using g by blast
qed

lemma fsinfo_entry:
  assumes "volume_ok f" "c < clust_cnt f" "same_geometry f g"
    "\<forall>t. t \<noteq> 0 \<longrightarrow> content g t = (if t = info_sect f then b else content f t)"
  shows "fat_entry g c = fat_entry f c"
  using assms table_sector(1,3) [OF assms(1,2)] by (simp add: fat_entry_def same_geometry_def)

subsection \<open>Chains\<close>

fun fat_chain :: "Fat \<Rightarrow> uint32 list \<Rightarrow> bool" where
  "fat_chain f [] \<longleftrightarrow> False"
| "fat_chain f [c] \<longleftrightarrow> c < clust_cnt f \<and> entry_flags (clust_cnt f) (fat_entry f c) = Some (CLUST_USED OR CLUST_LAST)"
| "fat_chain f (c # d # cs) \<longleftrightarrow> c < clust_cnt f \<and> fat_entry f c = d \<and>
     entry_flags (clust_cnt f) d = Some CLUST_USED \<and> fat_chain f (d # cs)"

lemma entry_flags_simps:
  "entry_flags n 0 = Some CLUST_FREE" "CLUST_USED \<noteq> CLUST_USED OR CLUST_LAST" "CLUST_FREE \<noteq> CLUST_USED"
  "CLUST_FREE \<noteq> CLUST_USED OR CLUST_LAST" "CLUST_BAD \<noteq> CLUST_USED" "CLUST_BAD \<noteq> CLUST_USED OR CLUST_LAST"
  "CLUST_USED AND (CLUST_BAD OR CLUST_FREE) = 0" "(CLUST_USED OR CLUST_LAST) AND (CLUST_BAD OR CLUST_FREE) = 0"
  "(CLUST_USED OR CLUST_LAST) AND CLUST_LAST \<noteq> 0" "CLUST_USED AND CLUST_LAST = 0"
  "CLUST_FREE AND CLUST_FREE \<noteq> 0" "CLUST_USED AND CLUST_FREE = 0" "CLUST_BAD AND CLUST_FREE = 0"
  "(CLUST_USED OR CLUST_LAST) AND CLUST_FREE = 0" "CLUST_USED OR CLUST_LAST \<noteq> CLUST_USED"
  "CLUST_LAST \<noteq> 0" "CLUST_FREE \<noteq> 0"
  by (simp_all add: entry_flags_def CLUST_FREE_def CLUST_USED_def CLUST_LAST_def CLUST_BAD_def)

lemma entry_flags_used: "entry_flags n v = Some CLUST_USED \<longleftrightarrow> 2 \<le> v \<and> v < n \<and> v < 0x0ffffff7"
proof -
  have "2 \<le> v \<Longrightarrow> v \<noteq> 0" by auto
  moreover have "\<not> v \<ge> 0x0ffffff8 \<and> v \<noteq> 0x0ffffff7 \<longleftrightarrow> v < 0x0ffffff7" by (simp add: word_le_nat_alt word_less_nat_alt word_unat_eq_iff) arith
  ultimately show ?thesis by (auto simp: entry_flags_def entry_flags_simps)
qed

lemma fat_chain_lt: "fat_chain f cs \<Longrightarrow> c \<in> set cs \<Longrightarrow> c < clust_cnt f"
  by (induction f cs rule: fat_chain.induct) auto

lemma fat_chain_used: "fat_chain f cs \<Longrightarrow> c \<in> set cs \<Longrightarrow> fat_entry f c \<noteq> 0"
  by (induction f cs rule: fat_chain.induct) (auto simp: entry_flags_simps entry_flags_used)

lemma fat_chain_cong:
  assumes "\<And>c. c \<in> set cs \<Longrightarrow> fat_entry g c = fat_entry f c" "clust_cnt g = clust_cnt f"
  shows "fat_chain g cs = fat_chain f cs"
  using assms by (induction f cs rule: fat_chain.induct) auto

text \<open>A chain is determined by its first cluster, so no cluster occurs twice.\<close>

lemma fat_chain_unique: "fat_chain f (c # xs) \<Longrightarrow> fat_chain f (c # ys) \<Longrightarrow> xs = ys"
proof (induction xs arbitrary: c ys)
  case Nil
  then show ?case by (cases ys) (auto simp: entry_flags_simps)
next
  case (Cons x xs)
  then show ?case by (cases ys) (auto simp: entry_flags_simps)
qed

lemma fat_chain_suffix: "fat_chain f (xs @ c # ys) \<Longrightarrow> fat_chain f (c # ys)"
proof (induction xs)
  case (Cons x xs)
  then show ?case by (cases xs) auto
qed simp

lemma fat_chain_distinct: "fat_chain f cs \<Longrightarrow> distinct cs"
proof (induction cs)
  case (Cons c cs)
  have "c \<notin> set cs"
  proof
    assume "c \<in> set cs"
    then obtain us vs where cs: "cs = us @ c # vs" by (meson split_list)
    from Cons.prems have "fat_chain f ((c # us) @ c # vs)" by (simp add: cs)
    from fat_chain_suffix [OF this] have "vs = cs" using fat_chain_unique Cons.prems by blast
    then have "length vs = length cs" by simp
    then show False by (simp add: cs)
  qed
  moreover have "distinct cs" using Cons by (cases cs) auto
  ultimately show ?case by simp
qed simp

text \<open>Freeing a chain ends, and frees exactly its clusters.\<close>

lemma remove_loop_ok:
  assumes "volume_ok f" "fat_chain f (c # cs)"
  shows "\<exists>g. remove_loop c f = Some (Inr (), g) \<and> volume_ok g \<and> data_kept f g \<and>
    fat_flags g AND FAT_INFO_DIRTY = fat_flags f AND FAT_INFO_DIRTY \<and> last_used g = last_used f \<and>
    free_cnt g = free_cnt f + of_nat (length (c # cs)) \<and>
    (\<forall>d < clust_cnt f. fat_entry g d = (if d \<in> set (c # cs) then 0 else fat_entry f d))"
  using assms
proof (induction cs arbitrary: c f)
  case Nil
  have c: "c < clust_cnt f" "entry_flags (clust_cnt f) (fat_entry f c) = Some (CLUST_USED OR CLUST_LAST)"
    using Nil.prems(2) by simp_all
  from get_fat_ok [OF Nil.prems(1) c(1)] c(2) obtain a where
    a: "get_fat c f = (Inr (fat_entry f c, CLUST_USED OR CLUST_LAST), a)" "unchanged f a" by auto
  have va: "volume_ok a" "c < clust_cnt a" "clust_cnt a = clust_cnt f" "layout_ok f"
    using a(2) c(1) Nil.prems(1) by (auto simp: unchanged_def same_volume_def volume_ok_def)
  from put_fat_kept [OF va(1,2), of 0] obtain b where
    b: "put_fat c 0 a = (Inr (), b)" "same_volume a b" "volume_ok b" "data_kept a b"
      "\<forall>d < clust_cnt a. fat_entry b d = (if d = c then 0 AND 0x0fffffff else fat_entry a d)" by blast
  have sv: "same_volume f b" using a(2) b(2) same_volume_trans by (auto simp: unchanged_def)
  have "remove_loop c f = Some (Inr (), b\<lparr>free_cnt := free_cnt b + 1\<rparr>)"
    using a(1) b(1) by (subst remove_loop.simps) (simp add: Let_def entry_flags_simps)
  moreover have "data_kept f b" using data_kept_trans [OF data_kept_unchanged [OF a(2)] b(4)] .
  moreover have "\<forall>d < clust_cnt f. fat_entry b d = (if d = c then 0 else fat_entry f d)"
    using b(5) va(3) unchanged_entry [OF a(2) va(4)] by simp
  ultimately show ?case using b(3) sv by (auto simp: volume_ok_fields same_volume_def)
next
  case (Cons x cs)
  have c: "c < clust_cnt f" "fat_entry f c = x" "entry_flags (clust_cnt f) x = Some CLUST_USED" "fat_chain f (x # cs)"
    using Cons.prems(2) by simp_all
  have dist: "c \<notin> set (x # cs)" using fat_chain_distinct [OF Cons.prems(2)] by simp
  from get_fat_ok [OF Cons.prems(1) c(1)] c(2,3) obtain a where
    a: "get_fat c f = (Inr (x, CLUST_USED), a)" "unchanged f a" by auto
  have va: "volume_ok a" "c < clust_cnt a" "clust_cnt a = clust_cnt f" "layout_ok f"
    using a(2) c(1) Cons.prems(1) by (auto simp: unchanged_def same_volume_def volume_ok_def)
  from put_fat_kept [OF va(1,2), of 0] obtain b where
    b: "put_fat c 0 a = (Inr (), b)" "same_volume a b" "volume_ok b" "data_kept a b"
      "\<forall>d < clust_cnt a. fat_entry b d = (if d = c then 0 AND 0x0fffffff else fat_entry a d)" by blast
  let ?b = "b\<lparr>free_cnt := free_cnt b + 1\<rparr>"
  have sv: "same_volume f b" using a(2) b(2) same_volume_trans by (auto simp: unchanged_def)
  have eb: "\<forall>d < clust_cnt f. fat_entry b d = (if d = c then 0 else fat_entry f d)"
    using b(5) va(3) unchanged_entry [OF a(2) va(4)] by simp
  have "fat_chain ?b (x # cs) = fat_chain f (x # cs)"
  proof (rule fat_chain_cong)
    fix y assume y: "y \<in> set (x # cs)"
    then have "y \<noteq> c" using dist by blast
    then show "fat_entry ?b y = fat_entry f y" using eb fat_chain_lt [OF c(4) y] by simp
  qed (use sv in \<open>simp add: same_volume_def\<close>)
  then have "fat_chain ?b (x # cs)" using c(4) by simp
  from Cons.IH [OF _ this] b(3) obtain g where
    g: "remove_loop x ?b = Some (Inr (), g)" "volume_ok g" "data_kept ?b g"
      "fat_flags g AND FAT_INFO_DIRTY = fat_flags ?b AND FAT_INFO_DIRTY" "last_used g = last_used ?b"
      "free_cnt g = free_cnt ?b + of_nat (length (x # cs))"
      "\<forall>d < clust_cnt ?b. fat_entry g d = (if d \<in> set (x # cs) then 0 else fat_entry ?b d)"
    by (auto simp: volume_ok_fields)
  have "remove_loop c f = Some (Inr (), g)"
    using a(1) b(1) g(1) by (subst remove_loop.simps) (simp add: Let_def entry_flags_simps)
  moreover have "data_kept f ?b" using data_kept_trans [OF data_kept_unchanged [OF a(2)] b(4)] by simp
  then have "data_kept f g" using data_kept_trans [OF _ g(3)] by blast
  moreover have "\<forall>d < clust_cnt f. fat_entry g d = (if d \<in> set (c # x # cs) then 0 else fat_entry f d)"
    using g(7) eb sv by (auto simp: same_volume_def)
  ultimately show ?case using g(2,4,5,6) sv by (auto simp: same_volume_def)
qed

lemma remove_chain_ok:
  assumes "volume_ok f" "fat_chain f (c # cs)"
  shows "\<exists>g. remove_chain c f = Some (Inr (), g) \<and> volume_ok g \<and> data_kept f g \<and> \<not> dirty g \<and>
    last_used g = last_used f \<and> free_cnt g = free_cnt f + of_nat (length (c # cs)) \<and>
    (\<forall>d < clust_cnt f. fat_entry g d = (if d \<in> set (c # cs) then 0 else fat_entry f d)) \<and>
    (\<exists>b. content g (info_sect f) = fsinfo g b)"
proof -
  let ?f = "f\<lparr>fat_flags := fat_flags f OR FAT_INFO_DIRTY\<rparr>"
  have v: "volume_ok ?f" using assms(1) by (simp add: volume_ok_info_dirty)
  have ch: "fat_chain ?f (c # cs)" using assms(2) fat_chain_cong [of "c # cs" ?f f] by simp
  from remove_loop_ok [OF v ch] obtain h where
    h: "remove_loop c ?f = Some (Inr (), h)" "volume_ok h" "data_kept ?f h"
      "fat_flags h AND FAT_INFO_DIRTY = fat_flags ?f AND FAT_INFO_DIRTY" "last_used h = last_used ?f"
      "free_cnt h = free_cnt ?f + of_nat (length (c # cs))"
      "\<forall>d < clust_cnt ?f. fat_entry h d = (if d \<in> set (c # cs) then 0 else fat_entry ?f d)" by blast
  have "fat_flags h AND FAT_INFO_DIRTY \<noteq> 0" using h(4) dirty_bits(8) [of "fat_flags f"] by simp
  from sync_fs_ok [OF h(2) this] obtain g where
    g: "sync_fs h = (Inr (), g)" "same_geometry h g" "volume_ok g" "\<not> dirty g" "last_used g = last_used h"
      "free_cnt g = free_cnt h"
      "\<forall>t. t \<noteq> 0 \<longrightarrow> content g t = (if t = info_sect h then fsinfo h (content h t) else content h t)" by blast
  have kf: "data_kept f h" using h(3) by simp
  then have geo: "same_geometry f h" by (simp add: data_kept_def)
  then have cc: "clust_cnt h = clust_cnt f" "info_sect h = info_sect f" by (simp_all add: same_geometry_def)
  have e: "fat_entry g d = fat_entry h d" if "d < clust_cnt f" for d
  proof -
    have "d < clust_cnt h" using that cc by simp
    from table_sector(1,3) [OF h(2) this] show ?thesis using g(2,7) by (simp add: fat_entry_def same_geometry_def)
  qed
  have "remove_chain c f = Some (Inr (), g)" using h(1) g(1) by (simp add: remove_chain_def)
  moreover have "data_kept f g"
    using kf same_geometry_trans [OF geo g(2)] g(7) cc by (auto simp: data_kept_def)
  moreover have "\<forall>d < clust_cnt f. fat_entry g d = (if d \<in> set (c # cs) then 0 else fat_entry f d)"
    using e h(7) by simp
  moreover have "info_sect f \<noteq> 0" using assms(1) by (simp add: volume_ok_def layout_ok_def)
  then have "content g (info_sect f) = fsinfo g (content h (info_sect f))"
    using g(5,6,7) cc by (simp add: fsinfo_def)
  ultimately show ?thesis using g(3-6) h(5,6) by auto
qed

subsection \<open>Finding a free cluster\<close>

text \<open>The clusters the search looks at, in order, from \<open>c\<close> until it is back at \<open>stop\<close>.\<close>

fun visits :: "uint32 \<Rightarrow> uint32 \<Rightarrow> uint32 \<Rightarrow> uint32 list \<Rightarrow> bool" where
  "visits n stop c [] \<longleftrightarrow> next_cluster n c = stop"
| "visits n stop c (x # xs) \<longleftrightarrow> next_cluster n c = x \<and> x \<noteq> stop \<and> x < n \<and> visits n stop x xs"

definition classified :: "Fat \<Rightarrow> bool" where
  "classified f \<longleftrightarrow> (\<forall>c. 2 \<le> c \<longrightarrow> c < clust_cnt f \<longrightarrow> entry_flags (clust_cnt f) (fat_entry f c) \<noteq> None)"

lemma free_flags:
  "entry_flags n v = Some w \<Longrightarrow> w AND CLUST_FREE \<noteq> 0 \<longleftrightarrow> v = 0"
  by (auto simp: entry_flags_def entry_flags_simps split: if_splits)

lemma next_cluster_ge2: "c \<noteq> 0 \<Longrightarrow> c < n \<Longrightarrow> 2 \<le> next_cluster n c"
proof -
  assume c: "c \<noteq> 0" "c < n"
  have "unat (c + 1) = unat c + 1"
    using c(2) unsigned_less [of n, where 'a = nat] by (simp add: unat_word_ariths(1) word_less_nat_alt)
  moreover have "unat c \<ge> 1" using c(1) by (simp add: Suc_leI word_unat_eq_iff)
  ultimately show ?thesis by (auto simp: next_cluster_def word_le_nat_alt)
qed

lemma unat_of_nat_less: "k < unat n \<Longrightarrow> unat (of_nat k :: uint32) = k" for n :: uint32
  using unsigned_less [of n, where 'a = nat] by (simp add: unsigned_of_nat take_bit_nat_eq_self)

lemma scan_loop_ok:
  assumes "volume_ok f" "classified f" "visits (clust_cnt f) (last_used f) c xs" "\<forall>x \<in> set xs. 2 \<le> x"
  shows "\<exists>g. scan_loop v c f =
      Some (case find (\<lambda>x. fat_entry f x = 0) xs of None \<Rightarrow> Inl FAT_ERR_FULL | Some x \<Rightarrow> Inr x, g) \<and> unchanged f g"
  using assms
proof (induction xs arbitrary: c f v)
  case Nil
  then show ?case by (subst scan_loop.simps) (auto simp: unchanged_def Let_def)
next
  case (Cons x xs)
  have x: "next_cluster (clust_cnt f) c = x" "x \<noteq> last_used f" "x < clust_cnt f" "2 \<le> x"
    "visits (clust_cnt f) (last_used f) x xs" using Cons.prems(3,4) by simp_all
  obtain w where w: "entry_flags (clust_cnt f) (fat_entry f x) = Some w"
    using Cons.prems(2) x(3,4) by (auto simp: classified_def)
  from get_fat_ok [OF Cons.prems(1) x(3)] w obtain a where
    a: "get_fat x f = (Inr (fat_entry f x, w), a)" "unchanged f a" by auto
  have va: "volume_ok a" "clust_cnt a = clust_cnt f" "last_used a = last_used f" "layout_ok f"
    using a(2) Cons.prems(1) by (auto simp: unchanged_def same_volume_def volume_ok_def)
  have ea: "fat_entry a d = fat_entry f d" if "d < clust_cnt f" for d by (rule unchanged_entry [OF a(2) va(4) that])
  show ?case
  proof (cases "fat_entry f x = 0")
    case True
    then show ?thesis using a x free_flags [OF w] by (subst scan_loop.simps) (auto simp: Let_def)
  next
    case False
    have "classified a" using Cons.prems(2) ea va(2) by (simp add: classified_def)
    from Cons.IH [OF va(1) this] x(5) Cons.prems(4) va(2,3) obtain g where
      g: "scan_loop (Some w) x a =
        Some (case find (\<lambda>x. fat_entry a x = 0) xs of None \<Rightarrow> Inl FAT_ERR_FULL | Some x \<Rightarrow> Inr x, g)" "unchanged a g"
      by fastforce
    have "\<forall>y \<in> set xs. y < clust_cnt f" using x(5) by (induction xs arbitrary: x) auto
    then have "find (\<lambda>x. fat_entry a x = 0) xs = find (\<lambda>x. fat_entry f x = 0) xs"
      using ea by (intro find_cong) auto
    moreover have "unchanged f g" using a(2) g(2) same_volume_trans [of f a g] by (simp add: unchanged_def)
    ultimately show ?thesis
      using a(1) g(1) x(1,2) free_flags [OF w] False by (subst scan_loop.simps) (auto simp: Let_def)
  qed
qed

text \<open>From \<open>last_used\<close> the search looks at every other cluster.\<close>

definition scan_order :: "uint32 \<Rightarrow> uint32 \<Rightarrow> uint32 list" where
  "scan_order n stop = map of_nat ([Suc (unat stop)..<unat n] @ [2..<unat stop])"

lemma visits_up:
  assumes "m < unat n" "\<forall>k. m < k \<and> k < unat n \<longrightarrow> of_nat k \<noteq> stop" "visits n stop (of_nat (unat n - 1)) ys"
  shows "visits n stop (of_nat m) (map of_nat [Suc m..<unat n] @ ys)"
  using assms(1,2)
proof (induction "unat n - m" arbitrary: m)
  case (Suc k)
  show ?case
  proof (cases "Suc m = unat n")
    case True
    then have "m = unat n - 1" by simp
    then show ?thesis using assms(3) True by simp
  next
    case False
    then have m: "Suc m < unat n" using Suc.prems(1) by simp
    then have u: "unat (of_nat (Suc m) :: uint32) = Suc m"
      using unat_of_nat_less by blast
    have nx: "next_cluster n (of_nat m) = of_nat (Suc m)"
      using m u by (simp add: next_cluster_def word_le_nat_alt add.commute)
    have "visits n stop (of_nat (Suc m)) (map of_nat [Suc (Suc m)..<unat n] @ ys)"
      using Suc.hyps(1) [of "Suc m"] Suc.hyps(2) m Suc.prems(2) by (simp del: of_nat_Suc)
    moreover have "[Suc m..<unat n] = Suc m # [Suc (Suc m)..<unat n]" using m by (simp add: upt_conv_Cons)
    moreover have "of_nat (Suc m) < n" using m u by (simp add: word_less_nat_alt)
    moreover have "of_nat (Suc m) \<noteq> stop" using Suc.prems(2) m by blast
    ultimately show ?thesis using nx by (simp del: of_nat_Suc)
  qed
qed simp

lemma visits_below:
  assumes "m < unat stop" "stop < n"
  shows "visits n stop (of_nat m) (map of_nat [Suc m..<unat stop])"
  using assms(1)
proof (induction "unat stop - m" arbitrary: m)
  case (Suc k)
  have lt: "unat stop < unat n" using assms(2) by (simp add: word_less_nat_alt)
  have u: "unat (of_nat (Suc m) :: uint32) = Suc m"
    using Suc.prems lt by (intro unat_of_nat_less [of _ n]) simp
  have nx: "next_cluster n (of_nat m) = of_nat (Suc m)"
    using Suc.prems lt u by (simp add: next_cluster_def word_le_nat_alt add.commute)
  show ?case
  proof (cases "Suc m = unat stop")
    case True
    then have "of_nat (Suc m) = stop" by (simp del: of_nat_Suc)
    then show ?thesis using True nx by (simp del: of_nat_Suc)
  next
    case False
    then have m: "Suc m < unat stop" using Suc.prems by simp
    then have "[Suc m..<unat stop] = Suc m # [Suc (Suc m)..<unat stop]" by (simp add: upt_conv_Cons)
    moreover have "visits n stop (of_nat (Suc m)) (map of_nat [Suc (Suc m)..<unat stop])"
      using Suc.hyps(1) [of "Suc m"] Suc.hyps(2) m by (simp del: of_nat_Suc)
    moreover have "of_nat (Suc m) < n" "of_nat (Suc m) \<noteq> stop"
      using m u lt by (auto simp: word_less_nat_alt simp del: of_nat_Suc)
    ultimately show ?thesis using nx by (simp del: of_nat_Suc)
  qed
qed simp

lemma visits_scan_order:
  assumes "2 \<le> stop" "stop < n"
  shows "visits n stop stop (scan_order n stop)"
proof -
  have lt: "unat stop < unat n" "2 \<le> unat stop" using assms by (simp_all add: word_less_nat_alt word_le_nat_alt)
  have "of_nat (unat n - 1) = n - 1" using lt by (simp add: of_nat_diff)
  then have nx: "next_cluster n (of_nat (unat n - 1)) = 2" by (simp add: next_cluster_def)
  have "visits n stop (of_nat (unat n - 1)) (map of_nat [2..<unat stop])"
  proof (cases "unat stop = 2")
    case True
    then have "stop = of_nat 2" by (simp add: word_unat_eq_iff)
    then show ?thesis using nx True by simp
  next
    case False
    then have m: "2 < unat stop" using lt by simp
    then have "[2..<unat stop] = 2 # [Suc 2..<unat stop]" by (simp add: upt_conv_Cons)
    moreover have "visits n stop (of_nat 2) (map of_nat [Suc 2..<unat stop])" by (rule visits_below [OF m assms(2)])
    moreover have "(2 :: uint32) < n" "(2 :: uint32) \<noteq> stop" using m lt by (auto simp: word_less_nat_alt)
    ultimately show ?thesis using nx by simp
  qed
  moreover have "of_nat k \<noteq> stop" if "unat stop < k" "k < unat n" for k
    using unat_of_nat_less [OF that(2)] that(1) by auto
  ultimately have "visits n stop (of_nat (unat stop)) (map of_nat [Suc (unat stop)..<unat n] @ map of_nat [2..<unat stop])"
    by (intro visits_up lt) auto
  then show ?thesis by (simp add: scan_order_def)
qed

lemma set_scan_order:
  assumes "2 \<le> stop" "stop < n"
  shows "set (scan_order n stop) = {c. 2 \<le> c \<and> c < n \<and> c \<noteq> stop}"
proof -
  have lt: "unat stop < unat n" "2 \<le> unat stop" using assms by (simp_all add: word_less_nat_alt word_le_nat_alt)
  have "x \<in> set (scan_order n stop) \<longleftrightarrow> 2 \<le> x \<and> x < n \<and> x \<noteq> stop" for x
  proof -
    have "set ([Suc (unat stop)..<unat n] @ [2..<unat stop]) = {k. 2 \<le> k \<and> k < unat n \<and> k \<noteq> unat stop}"
      using lt by auto
    then have "x \<in> set (scan_order n stop) \<longleftrightarrow> (\<exists>k. x = of_nat k \<and> 2 \<le> k \<and> k < unat n \<and> k \<noteq> unat stop)"
      unfolding scan_order_def set_map by blast
    also have "\<dots> \<longleftrightarrow> 2 \<le> unat x \<and> unat x < unat n \<and> unat x \<noteq> unat stop"
    proof
      assume "2 \<le> unat x \<and> unat x < unat n \<and> unat x \<noteq> unat stop"
      then show "\<exists>k. x = of_nat k \<and> 2 \<le> k \<and> k < unat n \<and> k \<noteq> unat stop" by (intro exI [of _ "unat x"]) simp
    qed (use unat_of_nat_less [of _ n] in auto)
    finally show ?thesis by (simp add: word_less_nat_alt word_le_nat_alt word_unat_eq_iff)
  qed
  then show ?thesis by blast
qed

text \<open>The search ends: it finds a free cluster, or there is none but perhaps \<open>last_used\<close>.\<close>

lemma scan_ok:
  assumes "volume_ok f" "classified f" "2 \<le> last_used f" "last_used f < clust_cnt f"
  shows "\<exists>r g. scan_loop v (last_used f) f = Some (r, g) \<and> unchanged f g \<and>
    (case r of
       Inl e \<Rightarrow> e = FAT_ERR_FULL \<and> (\<forall>c. 2 \<le> c \<longrightarrow> c < clust_cnt f \<longrightarrow> c \<noteq> last_used f \<longrightarrow> fat_entry f c \<noteq> 0)
     | Inr c \<Rightarrow> 2 \<le> c \<and> c < clust_cnt f \<and> c \<noteq> last_used f \<and> fat_entry f c = 0)"
proof -
  let ?xs = "scan_order (clust_cnt f) (last_used f)"
  note set = set_scan_order [OF assms(3,4)]
  from scan_loop_ok [OF assms(1,2) visits_scan_order [OF assms(3,4)], of v] set obtain g where
    g: "scan_loop v (last_used f) f =
      Some (case find (\<lambda>x. fat_entry f x = 0) ?xs of None \<Rightarrow> Inl FAT_ERR_FULL | Some x \<Rightarrow> Inr x, g)" "unchanged f g"
    by auto
  show ?thesis
  proof (cases "find (\<lambda>x. fat_entry f x = 0) ?xs")
    case None
    then have "\<forall>x \<in> set ?xs. fat_entry f x \<noteq> 0" by (auto simp: find_None_iff)
    then show ?thesis using g None set by auto
  next
    case (Some x)
    then have "x \<in> set ?xs \<and> fat_entry f x = 0" by (auto simp: find_Some_iff)
    then show ?thesis using g Some set by auto
  qed
qed

lemma find_free_ok:
  assumes "volume_ok f" "classified f" "2 \<le> last_used f" "last_used f < clust_cnt f" "prev < clust_cnt f"
  shows "\<exists>r g. find_free prev f = Some (r, g) \<and> unchanged f g \<and>
    (case r of
       Inl e \<Rightarrow> e = FAT_ERR_FULL \<and> (\<forall>c. 2 \<le> c \<longrightarrow> c < clust_cnt f \<longrightarrow> c \<noteq> last_used f \<longrightarrow> fat_entry f c \<noteq> 0)
     | Inr c \<Rightarrow> 2 \<le> c \<and> c < clust_cnt f \<and> fat_entry f c = 0)"
proof (cases "prev = 0")
  case True
  from scan_ok [OF assms(1-4), of None] obtain r g where
    "scan_loop None (last_used f) f = Some (r, g)" "unchanged f g"
    "case r of Inl e \<Rightarrow> e = FAT_ERR_FULL \<and> (\<forall>c. 2 \<le> c \<longrightarrow> c < clust_cnt f \<longrightarrow> c \<noteq> last_used f \<longrightarrow> fat_entry f c \<noteq> 0)
     | Inr c \<Rightarrow> 2 \<le> c \<and> c < clust_cnt f \<and> c \<noteq> last_used f \<and> fat_entry f c = 0" by blast
  then show ?thesis using True by (auto simp: find_free_def split: sum.splits)
next
  case False
  let ?c = "next_cluster (clust_cnt f) prev"
  have c: "2 \<le> ?c" "?c < clust_cnt f"
    using next_cluster_ge2 [OF False assms(5)] assms(3,4) by (auto simp: next_cluster_def not_le)
  obtain w where w: "entry_flags (clust_cnt f) (fat_entry f ?c) = Some w" using assms(2) c by (auto simp: classified_def)
  from get_fat_ok [OF assms(1) c(2)] w obtain a where
    a: "get_fat ?c f = (Inr (fat_entry f ?c, w), a)" "unchanged f a" by auto
  have va: "volume_ok a" "clust_cnt a = clust_cnt f" "last_used a = last_used f" "layout_ok f"
    using a(2) assms(1) by (auto simp: unchanged_def same_volume_def volume_ok_def)
  have ea: "fat_entry a d = fat_entry f d" if "d < clust_cnt f" for d by (rule unchanged_entry [OF a(2) va(4) that])
  show ?thesis
  proof (cases "fat_entry f ?c = 0")
    case True
    then show ?thesis using a c False free_flags [OF w] by (auto simp: find_free_def Let_def)
  next
    case nz: False
    have "classified a" using assms(2) ea va(2) by (simp add: classified_def)
    from scan_ok [OF va(1) this, of "Some w", unfolded va(2,3), OF assms(3,4)] obtain r g where
      g: "scan_loop (Some w) (last_used f) a = Some (r, g)" "unchanged a g"
        "case r of Inl e \<Rightarrow> e = FAT_ERR_FULL \<and> (\<forall>c. 2 \<le> c \<longrightarrow> c < clust_cnt f \<longrightarrow> c \<noteq> last_used f \<longrightarrow> fat_entry a c \<noteq> 0)
         | Inr c \<Rightarrow> 2 \<le> c \<and> c < clust_cnt f \<and> c \<noteq> last_used f \<and> fat_entry a c = 0" by blast
    have "find_free prev f = Some (r, g)" using False a(1) g(1) va(3) free_flags [OF w] nz by (simp add: find_free_def Let_def)
    moreover have "unchanged f g" using a(2) g(2) same_volume_trans [of f a g] by (simp add: unchanged_def)
    ultimately show ?thesis using g(3) ea by (auto split: sum.splits)
  qed
qed

text \<open>Allocating: the new cluster is marked as the last one of its chain, and linked when there is a
  predecessor.\<close>

lemma eoc_flags: "entry_flags n (0x0fffffff AND 0x0fffffff) = Some (CLUST_USED OR CLUST_LAST)"
  by (simp add: entry_flags_def)

lemma cluster_mask:
  assumes "c < n" "n \<le> 0x0ffffff7"
  shows "c AND 0x0fffffff = (c :: uint32)"
proof -
  have "unat c < 2 ^ 28" using assms by (simp add: word_less_nat_alt word_le_nat_alt)
  then have "take_bit 28 (unat c) = unat c" by (simp add: take_bit_nat_eq_self)
  then have "take_bit 28 c = c" by (simp add: word_unat_eq_iff unsigned_take_bit_eq)
  then have "c AND mask 28 = c" by (simp add: take_bit_eq_mask)
  then show ?thesis by (simp add: mask_eq_exp_minus_1)
qed

lemma stretch_chain_ok:
  assumes "volume_ok f" "classified f" "2 \<le> last_used f" "last_used f < clust_cnt f" "prev < clust_cnt f"
    and used: "prev \<noteq> 0 \<Longrightarrow> fat_entry f prev \<noteq> 0"
  shows "\<exists>r g. stretch_chain prev f = Some (r, g) \<and> volume_ok g \<and> data_kept f g \<and>
    (case r of
       Inl e \<Rightarrow> e = FAT_ERR_FULL \<and> (\<forall>c. 2 \<le> c \<longrightarrow> c < clust_cnt f \<longrightarrow> c \<noteq> last_used f \<longrightarrow> fat_entry f c \<noteq> 0) \<and>
         (\<forall>d < clust_cnt f. fat_entry g d = fat_entry f d) \<and> last_used g = last_used f \<and> free_cnt g = free_cnt f
     | Inr c \<Rightarrow> 2 \<le> c \<and> c < clust_cnt f \<and> fat_entry f c = 0 \<and> c \<noteq> prev \<and>
         (\<forall>d < clust_cnt f. fat_entry g d =
            (if d = c then 0x0fffffff else if d = prev \<and> prev \<noteq> 0 then c else fat_entry f d)) \<and>
         last_used g = c \<and> free_cnt g = free_cnt f - 1 \<and> \<not> dirty g \<and>
         (\<exists>b. content g (info_sect f) = fsinfo g b))"
proof -
  let ?f = "f\<lparr>fat_flags := fat_flags f OR FAT_INFO_DIRTY\<rparr>"
  have v: "volume_ok ?f" "classified ?f" using assms(1,2) by (simp_all add: volume_ok_info_dirty classified_def)
  have same: "clust_cnt ?f = clust_cnt f" "last_used ?f = last_used f" "fat_entry ?f = fat_entry f" by simp_all
  from find_free_ok [OF v, unfolded same, OF assms(3-5)] obtain r a where
    a: "find_free prev ?f = Some (r, a)" "unchanged ?f a"
      "case r of
       Inl e \<Rightarrow> e = FAT_ERR_FULL \<and> (\<forall>c. 2 \<le> c \<longrightarrow> c < clust_cnt f \<longrightarrow> c \<noteq> last_used f \<longrightarrow> fat_entry f c \<noteq> 0)
     | Inr c \<Rightarrow> 2 \<le> c \<and> c < clust_cnt f \<and> fat_entry f c = 0" by blast
  have va: "volume_ok a" "clust_cnt a = clust_cnt f" "last_used a = last_used f" "free_cnt a = free_cnt f"
    using a(2) by (auto simp: unchanged_def same_volume_def)
  have la: "layout_ok ?f" using v(1) by (simp add: volume_ok_def)
  have ea: "fat_entry a d = fat_entry f d" if "d < clust_cnt f" for d
    using unchanged_entry [OF a(2) la] that by simp
  have ka: "data_kept f a" using data_kept_unchanged [OF a(2)] by simp
  show ?thesis
  proof (cases r)
    case (Inl e)
    then show ?thesis using a(1,3) va ka ea by (auto simp: stretch_chain_def)
  next
    case (Inr c)
    then have c: "2 \<le> c" "c < clust_cnt f" "fat_entry f c = 0" using a(3) by auto
    have "c \<noteq> 0" using c(1) by auto
    then have cp: "c \<noteq> prev" using used c(3) by auto
    have "c < clust_cnt a" using c(2) va(2) by simp
    from put_fat_kept [OF va(1) this, of "0x0fffffff"] obtain b where
      b: "put_fat c 0x0fffffff a = (Inr (), b)" "same_volume a b" "volume_ok b" "data_kept a b"
        "\<forall>d < clust_cnt a. fat_entry b d = (if d = c then 0x0fffffff AND 0x0fffffff else fat_entry a d)" by blast
    have cb: "clust_cnt b = clust_cnt f" using b(2) va(2) by (simp add: same_volume_def)
    have "\<exists>h. (if prev \<noteq> 0 then put_fat prev c b else (Inr (), b)) = (Inr (), h) \<and> same_volume b h \<and> volume_ok h \<and>
      data_kept b h \<and> (\<forall>d < clust_cnt f. fat_entry h d = (if d = prev \<and> prev \<noteq> 0 then c else fat_entry b d))"
    proof (cases "prev = 0")
      case True
      then show ?thesis using b(3) by (auto intro!: data_kept_unchanged simp: unchanged_def)
    next
      case False
      have "clust_cnt f \<le> 0x0ffffff7" using assms(1) by (simp add: volume_ok_def layout_ok_def)
      from cluster_mask [OF c(2) this] have "c AND 0x0fffffff = c" .
      moreover have "prev < clust_cnt b" using assms(5) cb by simp
      ultimately show ?thesis using put_fat_kept [OF b(3), of prev c] False cb by auto
    qed
    then obtain h where
      h: "(if prev \<noteq> 0 then put_fat prev c b else (Inr (), b)) = (Inr (), h)" "same_volume b h" "volume_ok h" "data_kept b h"
        "\<forall>d < clust_cnt f. fat_entry h d = (if d = prev \<and> prev \<noteq> 0 then c else fat_entry b d)" by blast
    let ?h = "h\<lparr>last_used := c, free_cnt := free_cnt h - 1\<rparr>"
    have svh: "same_volume ?f h" using a(2) same_volume_trans [OF _ same_volume_trans [OF b(2) h(2)]] by (simp add: unchanged_def)
    have "volume_ok ?h" using h(3) by (simp add: volume_ok_def cache_ok_def no_faults_def layout_ok_def dirty_def)
    moreover have "fat_flags ?h AND FAT_INFO_DIRTY \<noteq> 0"
      using svh dirty_bits(8) [of "fat_flags f"] by (simp add: same_volume_def)
    ultimately obtain g where
      g: "sync_fs ?h = (Inr (), g)" "same_geometry ?h g" "volume_ok g" "\<not> dirty g" "last_used g = last_used ?h"
        "free_cnt g = free_cnt ?h"
        "\<forall>t. t \<noteq> 0 \<longrightarrow> content g t = (if t = info_sect ?h then fsinfo ?h (content ?h t) else content ?h t)"
      using sync_fs_ok [of ?h] by blast
    have kh: "data_kept f h" using data_kept_trans [OF ka data_kept_trans [OF b(4) h(4)]] .
    have geo: "same_geometry h g" using g(2) by (simp add: same_geometry_def)
    have cc: "clust_cnt h = clust_cnt f" "info_sect h = info_sect f" using svh by (simp_all add: same_volume_def)
    have ch: "content ?h = content h" by (simp add: content_def fun_eq_iff)
    have e: "fat_entry g d = fat_entry h d" if "d < clust_cnt f" for d
    proof -
      have "d < clust_cnt h" using that cc by simp
      from table_sector(1,3) [OF h(3) this] show ?thesis
        using g(7) geo unfolding ch by (simp add: fat_entry_def same_geometry_def)
    qed
    have "stretch_chain prev f = Some (Inr c, g)"
      using a(1) Inr b(1) h(1) g(1) by (simp add: stretch_chain_def)
    moreover have "data_kept f g"
      using kh same_geometry_trans [OF _ geo] g(7) cc unfolding ch by (auto simp: data_kept_def)
    moreover have "fat_entry g d = (if d = c then 0x0fffffff else if d = prev \<and> prev \<noteq> 0 then c else fat_entry f d)"
      if "d < clust_cnt f" for d
      using e [OF that] h(5) b(5) ea [OF that] that va(2) cp by auto
    moreover have "info_sect f \<noteq> 0" using assms(1) by (simp add: volume_ok_def layout_ok_def)
    then have "content g (info_sect f) = fsinfo g (content h (info_sect f))"
      using g(5,6,7) cc unfolding ch by (simp add: fsinfo_def)
    moreover have "free_cnt g = free_cnt f - 1" using g(6) svh by (simp add: same_volume_def)
    ultimately show ?thesis using g(3-5) c cp by auto
  qed
qed

text \<open>The chain grows by one cluster at its end.\<close>

lemma fat_chain_append:
  assumes "fat_chain f cs" "c \<notin> set cs" "2 \<le> c" "c < clust_cnt f" "clust_cnt f \<le> 0x0ffffff7" "clust_cnt g = clust_cnt f"
    "\<forall>d < clust_cnt f. fat_entry g d = (if d = c then 0x0fffffff else if d = last cs then c else fat_entry f d)"
  shows "fat_chain g (cs @ [c])"
  using assms fat_chain_distinct [OF assms(1)]
proof (induction f cs rule: fat_chain.induct)
  case (2 f x)
  have "c < 0x0ffffff7" using 2 by simp
  then have "entry_flags (clust_cnt f) c = Some CLUST_USED" using 2 by (simp add: entry_flags_used)
  then show ?case using 2 by (auto simp: entry_flags_def)
next
  case (3 f x d cs)
  have "last (d # cs) \<in> set (d # cs)" by simp
  then have "x \<noteq> last (d # cs)" using 3 by auto
  then show ?case using 3 by auto
qed simp

end
