(* ===== verification/Fat_Names.thy ===== *)
theory Fat_Names
  imports Kernel_Prelude
begin

text \<open>
  The pure part of \<^verbatim>\<open>libs/fat32/fat.c\<close>: components of a path, the checksum and the two
  encodings of a file name (the 11 bytes of a short entry, and the 13 characters of each long one),
  and time stamps. A path or name argument is the text a C caller passes, without its terminator;
  where the code passes a length, the argument is the prefix of that length. Characters are unsigned,
  as on the target.
\<close>

subsection \<open>Paths\<close>

abbreviation char_byte :: "char \<Rightarrow> byte" where "char_byte c \<equiv> of_char c"

definition to_upper :: "char \<Rightarrow> char" where
  "to_upper c = (if 97 \<le> (of_char c :: nat) \<and> (of_char c :: nat) \<le> 122
                 then char_of (unat (char_byte c AND NOT 0x20)) else c)"

fun subpath_len :: "char list \<Rightarrow> nat" where
  "subpath_len [] = 0"
| "subpath_len (c # cs) = (if c = CHR ''/'' then 0 else Suc (subpath_len cs))"

fun skip_slashes :: "char list \<Rightarrow> char list" where
  "skip_slashes (c # cs) = (if c = CHR ''/'' then skip_slashes cs else c # cs)"
| "skip_slashes [] = []"

definition last_subpath_len :: "char list \<Rightarrow> nat" where
  "last_subpath_len path =
     (let len = subpath_len path
      in if len = 0 then 0 else if skip_slashes (drop len path) \<noteq> [] then 0 else len)"

subsection \<open>Short names\<close>

definition SFN_FREE :: byte where "SFN_FREE = 0xe5"
definition SFN_LAST :: byte where "SFN_LAST = 0x00"
definition SFN_PAD :: byte where "SFN_PAD = 0x20"

definition get_crc :: "byte list \<Rightarrow> byte" where
  "get_crc name = fold (\<lambda>b sum. push_bit 7 (sum AND 1) + drop_bit 1 sum + b) (take 11 name) 0"

definition sfn_specials :: "char list" where
  "sfn_specials = ''!#$%&'' @ [CHR 0x27] @ ''()-@^_`{}~ ''"

definition sfn_char :: "char \<Rightarrow> char" where
  "sfn_char c0 =
     (let c = to_upper c0
      in if 65 \<le> (of_char c :: nat) \<and> (of_char c :: nat) \<le> 90 then c
         else if c \<in> set sfn_specials then c else CHR ''_'')"

definition pad_to :: "nat \<Rightarrow> byte list \<Rightarrow> byte list" where
  "pad_to n b = b @ replicate (n - length b) SFN_PAD"

definition put_sfn_name :: "char list \<Rightarrow> byte list" where
  "put_sfn_name name =
     (let base = takeWhile (\<lambda>c. c \<noteq> CHR ''.'') (take 8 name);
          rest = drop 1 (dropWhile (\<lambda>c. c \<noteq> CHR ''.'') (drop (length base) name))
      in pad_to 8 (map (char_byte \<circ> sfn_char) base) @
         pad_to 3 (map (char_byte \<circ> sfn_char) (take 3 rest)))"

definition sfn_text :: "byte list \<Rightarrow> byte list" where
  "sfn_text name =
     takeWhile (\<lambda>b. b \<noteq> SFN_PAD) (take 8 name) @
     (if name ! 8 \<noteq> SFN_PAD then [char_byte (CHR ''.'')] else []) @
     takeWhile (\<lambda>b. b \<noteq> SFN_PAD) (take 3 (drop 8 name))"

subsection \<open>Long names\<close>

definition LFN_HEAD_MSK :: byte where "LFN_HEAD_MSK = 0x40"
definition LFN_SEQ_MSK :: byte where "LFN_SEQ_MSK = 0x1f"

definition g_lfn_indices :: "nat list" where
  "g_lfn_indices = [1, 3, 5, 7, 9, 14, 16, 18, 20, 22, 24, 28, 30]"

text \<open>The character at position \<open>i\<close> of a fragment: of the name, the terminator after it, or filling.\<close>

definition lfn_unit :: "char list \<Rightarrow> nat \<Rightarrow> byte \<times> byte" where
  "lfn_unit name i =
     (if i < length name then (char_byte (name ! i), 0)
      else if i = length name then (0, 0) else (0xff, 0xff))"

definition put_lfn_name_frag :: "byte list \<Rightarrow> char list \<Rightarrow> byte list" where
  "put_lfn_name_frag raw name =
     fold (\<lambda>i r. let (lo, hi) = lfn_unit name i; k = g_lfn_indices ! i in r[k := lo, k + 1 := hi]) [0..<13] raw"

text \<open>Reading a fragment into \<open>g_buf\<close> from position \<open>13 * cnt\<close>: whether it is well formed (no filling in
  front of the terminator), the buffer and the length.\<close>

fun read_frag :: "nat list \<Rightarrow> byte list \<Rightarrow> nat \<Rightarrow> byte list \<times> nat \<Rightarrow> bool \<times> byte list \<times> nat" where
  "read_frag [] raw pos (buf, len) = (True, buf, len)"
| "read_frag (k # ks) raw pos (buf, len) =
     (let c = raw ! k
      in if c = 0xff then (False, buf, len)
         else if c = 0x00 then (True, buf, len)
         else read_frag ks raw (pos + 1) (buf[pos := c], len + 1))"

subsection \<open>Time stamps\<close>

record Timestamp =
  ts_hour :: byte
  ts_min :: byte
  ts_sec :: byte
  ts_day :: byte
  ts_month :: byte
  ts_year :: uint16

definition fat_get_timestamp :: Timestamp where
  "fat_get_timestamp = \<lparr>ts_hour = 0, ts_min = 0, ts_sec = 0, ts_day = 1, ts_month = 1, ts_year = 1980\<rparr>"

definition decode_timestamp :: "uint16 \<Rightarrow> uint16 \<Rightarrow> Timestamp" where
  "decode_timestamp date time =
     \<lparr>ts_hour = ucast (drop_bit 11 time AND 0x1f), ts_min = ucast (drop_bit 5 time AND 0x3f),
      ts_sec = ucast (2 * (time AND 0x1f)), ts_day = ucast (date AND 0x1f),
      ts_month = ucast (drop_bit 5 date AND 0xf), ts_year = (drop_bit 9 date AND 0x3f) + 1980\<rparr>"

definition encode_date :: "Timestamp \<Rightarrow> uint16" where
  "encode_date ts = push_bit 9 ((ts_year ts - 1980) AND 0x3f) OR push_bit 5 (ucast (ts_month ts) AND 0xf) OR
     (ucast (ts_day ts) AND 0x1f)"

definition encode_time :: "Timestamp \<Rightarrow> uint16" where
  "encode_time ts = (ucast (ts_sec ts div 2) AND 0x1f) OR push_bit 5 (ucast (ts_min ts) AND 0x3f) OR
     push_bit 11 (ucast (ts_hour ts) AND 0x1f)"

text \<open>What \<^verbatim>\<open>encode_timestamp\<close> returns: the date and the time of the clock.\<close>

definition encode_timestamp :: "uint16 \<times> uint16" where
  "encode_timestamp = (encode_date fat_get_timestamp, encode_time fat_get_timestamp)"

subsection \<open>Facts about paths and names\<close>

lemma subpath_len_takeWhile: "subpath_len path = length (takeWhile (\<lambda>c. c \<noteq> CHR ''/'') path)"
  by (induction path) auto

lemma skip_slashes_dropWhile: "skip_slashes path = dropWhile (\<lambda>c. c = CHR ''/'') path"
  by (induction path) auto

text \<open>A path has a last component exactly when it is a name followed by nothing but slashes.\<close>

lemma last_subpath_len_iff:
  "last_subpath_len path = n \<and> n \<noteq> 0 \<longleftrightarrow>
   (\<exists>name k. path = name @ replicate k (CHR ''/'') \<and> name \<noteq> [] \<and> CHR ''/'' \<notin> set name \<and> length name = n)"
proof
  assume l: "last_subpath_len path = n \<and> n \<noteq> 0"
  let ?name = "takeWhile (\<lambda>c. c \<noteq> CHR ''/'') path" and ?rest = "dropWhile (\<lambda>c. c \<noteq> CHR ''/'') path"
  have n: "n = length ?name" "?name \<noteq> []"
    using l by (auto simp: last_subpath_len_def subpath_len_takeWhile Let_def split: if_splits)
  have "drop n path = ?rest" unfolding n by (simp add: dropWhile_eq_drop)
  then have "dropWhile (\<lambda>c. c = CHR ''/'') ?rest = []"
    using l n(2) by (auto simp: last_subpath_len_def subpath_len_takeWhile skip_slashes_dropWhile Let_def dropWhile_eq_drop split: if_splits)
  then have "\<forall>c \<in> set ?rest. c = CHR ''/''" unfolding dropWhile_eq_Nil_conv .
  from replicate_length_same [OF this] have "path = ?name @ replicate (length ?rest) (CHR ''/'')"
    by (simp only: takeWhile_dropWhile_id)
  moreover have "CHR ''/'' \<notin> set ?name" by (auto dest: set_takeWhileD)
  ultimately show "\<exists>name k. path = name @ replicate k (CHR ''/'') \<and> name \<noteq> [] \<and> CHR ''/'' \<notin> set name \<and> length name = n"
    using n by blast
next
  assume "\<exists>name k. path = name @ replicate k (CHR ''/'') \<and> name \<noteq> [] \<and> CHR ''/'' \<notin> set name \<and> length name = n"
  then obtain name k where p: "path = name @ replicate k (CHR ''/'')" "name \<noteq> []" "CHR ''/'' \<notin> set name" "length name = n"
    by blast
  have "takeWhile (\<lambda>c. c \<noteq> CHR ''/'') path = name"
    unfolding p(1) using p(3) by (subst takeWhile_append2) (auto simp: takeWhile_eq_Nil_iff hd_replicate)
  then have "subpath_len path = n" "drop n path = replicate k (CHR ''/'')"
    using p(1,4) by (auto simp: subpath_len_takeWhile)
  moreover have "n \<noteq> 0" using p(2,4) by auto
  ultimately show "last_subpath_len path = n \<and> n \<noteq> 0"
    by (auto simp: last_subpath_len_def skip_slashes_dropWhile Let_def)
qed

lemma length_put_sfn_name: "length (put_sfn_name name) = 11"
proof -
  have "length (takeWhile (\<lambda>c. c \<noteq> CHR ''.'') (take 8 name)) \<le> 8"
    by (rule order.trans [OF length_takeWhile_le]) simp
  then show ?thesis by (auto simp: put_sfn_name_def pad_to_def Let_def)
qed

text \<open>Reading a fragment gives back the characters written, up to the terminator.\<close>

definition plain_char :: "char \<Rightarrow> bool" where
  "plain_char c \<longleftrightarrow> char_byte c \<noteq> 0 \<and> char_byte c \<noteq> 0xff"

lemma read_frag_units:
  assumes "map ((!) raw) ks = map char_byte name @ rest" "\<forall>c \<in> set name. plain_char c"
    "rest = [] \<or> hd rest = 0" "pos + length name \<le> length buf"
  shows "read_frag ks raw pos (buf, len) =
    (True, take pos buf @ map char_byte name @ drop (pos + length name) buf, len + length name)"
  using assms
proof (induction name arbitrary: ks pos buf len)
  case Nil
  then show ?case by (cases ks) (auto simp: Let_def)
next
  case (Cons c cs)
  then obtain k ks' where ks: "ks = k # ks'" "raw ! k = char_byte c" "map ((!) raw) ks' = map char_byte cs @ rest"
    by (cases ks) auto
  have p: "pos < length buf" using Cons.prems(4) by simp
  have "read_frag ks' raw (pos + 1) (buf[pos := char_byte c], len + 1) =
    (True, take (pos + 1) (buf[pos := char_byte c]) @ map char_byte cs @ drop (pos + 1 + length cs) (buf[pos := char_byte c]),
      len + 1 + length cs)"
    by (rule Cons.IH) (use Cons.prems ks(3) in auto)
  moreover have "take (pos + 1) (buf[pos := char_byte c]) = take pos buf @ [char_byte c]"
    using p by (simp add: take_Suc_conv_app_nth)
  moreover have "drop (pos + 1 + length cs) (buf[pos := char_byte c]) = drop (pos + 1 + length cs) buf" by simp
  ultimately show ?case using ks Cons.prems(2) by (simp add: plain_char_def Let_def)
qed

lemma upt_13: "[0..<13] = [0, 1, 2, 3, 4, 5, 6, 7, 8, 9, 10, 11, 12::nat]"
  by (simp add: upt_rec)

lemma put_lfn_name_frag_units:
  assumes "length raw = 32"
  shows "map ((!) (put_lfn_name_frag raw name)) g_lfn_indices = map (\<lambda>i. fst (lfn_unit name i)) [0..<13]"
  using assms by (simp add: put_lfn_name_frag_def g_lfn_indices_def upt_13 case_prod_beta)

lemma length_put_lfn_name_frag [simp]: "length (put_lfn_name_frag raw name) = length raw"
  by (simp add: put_lfn_name_frag_def upt_13 case_prod_beta Let_def)

lemma lfn_units:
  assumes "length name \<le> 13"
  shows "\<exists>rest. map (\<lambda>i. fst (lfn_unit name i)) [0..<13] = map char_byte name @ rest \<and> (rest = [] \<or> hd rest = 0)"
proof -
  let ?u = "\<lambda>i. fst (lfn_unit name i)"
  have "[0..<13] = [0..<length name] @ [length name..<13]" using assms upt_add_eq_append [of 0 "length name" "13 - length name"] by simp
  moreover have "map ?u [0..<length name] = map char_byte name" by (rule nth_equalityI) (simp_all add: lfn_unit_def)
  moreover have "[length name..<13] = [] \<or> hd (map ?u [length name..<13]) = 0"
    by (cases "length name < 13") (simp_all add: upt_conv_Cons lfn_unit_def)
  ultimately show ?thesis by (intro exI [of _ "map ?u [length name..<13]"]) auto
qed

lemma frag_round_trip:
  assumes "length raw = 32" "length name \<le> 13" "\<forall>c \<in> set name. plain_char c" "pos + length name \<le> length buf"
  shows "read_frag g_lfn_indices (put_lfn_name_frag raw name) pos (buf, len) =
    (True, take pos buf @ map char_byte name @ drop (pos + length name) buf, len + length name)"
proof -
  from lfn_units [OF assms(2)] obtain rest where
    "map (\<lambda>i. fst (lfn_unit name i)) [0..<13] = map char_byte name @ rest" "rest = [] \<or> hd rest = 0" by blast
  then show ?thesis
    using read_frag_units [OF _ assms(3) _ assms(4)] put_lfn_name_frag_units [OF assms(1)] by simp
qed

text \<open>Short names hold capital letters, the special characters and underscores, never a digit.\<close>

lemma sfn_char_range: "65 \<le> (of_char (sfn_char c) :: nat) \<and> (of_char (sfn_char c) :: nat) \<le> 90 \<or> sfn_char c \<in> set sfn_specials"
proof -
  have "CHR ''_'' \<in> set sfn_specials" by (simp add: sfn_specials_def)
  then show ?thesis by (simp add: sfn_char_def Let_def)
qed

lemma sfn_specials_bytes: "x \<in> set sfn_specials \<Longrightarrow> char_byte x \<notin> {0x30..0x39}"
proof -
  have "\<forall>x \<in> set sfn_specials. \<not> (0x30 \<le> char_byte x \<and> char_byte x \<le> 0x39)" by code_simp
  then show "x \<in> set sfn_specials \<Longrightarrow> char_byte x \<notin> {0x30..0x39}" by auto
qed

lemma unat_char_byte: "unat (char_byte c) = of_char c"
proof -
  have "char_byte c = of_nat (of_char c)" by (simp only: of_nat_of_char)
  moreover have "(of_char c :: nat) < 256" by simp
  ultimately show ?thesis by (simp add: unsigned_of_nat take_bit_nat_eq_self)
qed

lemma put_sfn_name_no_digit:
  assumes "b \<in> set (put_sfn_name name)"
  shows "b \<notin> {0x30..0x39}"
proof -
  from assms consider "b = SFN_PAD" | c where "b = char_byte (sfn_char c)"
    by (auto simp: put_sfn_name_def pad_to_def Let_def)
  then show ?thesis
  proof cases
    case 2
    show ?thesis using sfn_char_range [of c]
    proof
      assume "65 \<le> (of_char (sfn_char c) :: nat) \<and> (of_char (sfn_char c) :: nat) \<le> 90"
      then show ?thesis unfolding 2 by (auto simp: word_le_nat_alt unat_char_byte)
    qed (use sfn_specials_bytes 2 in blast)
  qed (simp add: SFN_PAD_def)
qed

subsection \<open>Time stamps\<close>

definition valid_stamp :: "Timestamp \<Rightarrow> bool" where
  "valid_stamp ts \<longleftrightarrow> ts_hour ts < 24 \<and> ts_min ts < 60 \<and> ts_sec ts < 60 \<and> ts_day ts < 32 \<and> ts_month ts < 13 \<and>
     1980 \<le> ts_year ts \<and> ts_year ts \<le> 2043"

text \<open>A field that fits its mask is what the mask leaves.\<close>

lemma take_bit_small: "unat w < 2 ^ n \<Longrightarrow> take_bit n w = w" for w :: "'a::len word"
  by (simp add: word_unat_eq_iff unsigned_take_bit_eq take_bit_nat_eq_self)

lemma masks:
  "(0xf :: uint16) = mask 4" "(0x1f :: uint16) = mask 5" "(0x3f :: uint16) = mask 6"
  by (simp_all add: mask_eq_exp_minus_1)

lemma date_fields:
  fixes y m d :: uint16
  defines "w \<equiv> push_bit 9 (take_bit 6 y) OR push_bit 5 (take_bit 4 m) OR take_bit 5 d"
  shows "take_bit 5 w = take_bit 5 d" "take_bit 4 (drop_bit 5 w) = take_bit 4 m" "take_bit 6 (drop_bit 9 w) = take_bit 6 y"
  unfolding w_def by (auto simp: bit_eq_iff [where 'a = "16 word"] bit_simps)

lemma time_fields:
  fixes h m s :: uint16
  defines "w \<equiv> take_bit 5 s OR push_bit 5 (take_bit 6 m) OR push_bit 11 (take_bit 5 h)"
  shows "take_bit 5 w = take_bit 5 s" "take_bit 6 (drop_bit 5 w) = take_bit 6 m" "take_bit 5 (drop_bit 11 w) = take_bit 5 h"
  unfolding w_def by (auto simp: bit_eq_iff [where 'a = "16 word"] bit_simps)

lemma ucast_small: "unat b < 2 ^ n \<Longrightarrow> ucast (take_bit n (ucast b :: uint16)) = b" for b :: byte
proof -
  assume b: "unat b < 2 ^ n"
  have "unat (ucast b :: uint16) = unat b"
    using unsigned_less [of b, where 'a = nat] by (simp add: unsigned_ucast_eq take_bit_nat_eq_self)
  then have "take_bit n (ucast b :: uint16) = ucast b" using b by (simp add: take_bit_small)
  then show ?thesis by (simp add: bit_eq_iff [where 'a = "8 word"] bit_simps)
qed

lemma timestamp_round_trip:
  assumes "valid_stamp ts"
  shows "decode_timestamp (encode_date ts) (encode_time ts) = ts\<lparr>ts_sec := 2 * (ts_sec ts div 2)\<rparr>"
proof -
  have v: "unat (ts_hour ts) < 2 ^ 5" "unat (ts_min ts) < 2 ^ 6" "unat (ts_sec ts) < 60" "unat (ts_day ts) < 2 ^ 5"
    "unat (ts_month ts) < 2 ^ 4" "1980 \<le> unat (ts_year ts)" "unat (ts_year ts) \<le> 2043"
    using assms by (auto simp: valid_stamp_def word_less_nat_alt word_le_nat_alt)
  have "unat (ts_year ts - 1980) < 2 ^ 6" using v(6,7) by (simp add: unat_sub word_le_nat_alt)
  then have y: "take_bit 6 (ts_year ts - 1980) = ts_year ts - 1980" by (rule take_bit_small)
  have s2: "unat (ts_sec ts div 2) < 2 ^ 5" using v(3) by (simp add: unat_div)
  let ?s = "ucast (ts_sec ts div 2) :: uint16"
  have u: "unat ?s = unat (ts_sec ts div 2)" using s2 by (simp add: unsigned_ucast_eq take_bit_nat_eq_self)
  then have t: "take_bit 5 ?s = ?s" using s2 by (simp add: take_bit_small)
  moreover have "unat (2 * ?s) = 2 * unat (ts_sec ts div 2)" using s2 u by (simp add: unat_word_ariths(2))
  moreover have "unat (2 * (ts_sec ts div 2)) = 2 * unat (ts_sec ts div 2)" using s2 by (simp add: unat_word_ariths(2))
  ultimately have sec: "ucast (2 * take_bit 5 ?s) = 2 * (ts_sec ts div 2)"
    unfolding t using s2 by (simp add: word_unat_eq_iff unsigned_ucast_eq take_bit_nat_eq_self)
  show ?thesis
    unfolding decode_timestamp_def encode_date_def encode_time_def masks take_bit_eq_mask [symmetric]
      date_fields time_fields
    unfolding y sec using v by (cases ts) (simp add: ucast_small)
qed

end
