(* ===== verification/Fat_Directory.thy ===== *)
theory Fat_Directory
  imports Fat_Table Fat_Names
begin

text \<open>
  Directories of \<^verbatim>\<open>libs/fat32/fat.c\<close>: moving a \<^verbatim>\<open>Dir\<close> over its 32 byte entries and along its
  clusters, reading the names in front of an entry, searching, adding and removing entries, and
  following a path.

  The state of an operation is a \<open>cursor\<close>: the mounted volumes, by address, and their list; the
  module's buffer for a name with its length and checksum; the \<^verbatim>\<open>Dir\<close> it works on; the location
  \<^verbatim>\<open>loc\<close> of the first entry of what it found (recorded whether or not the caller passed a place
  for it) and the rest of the path. An entry is the 32 bytes at the index of the \<^verbatim>\<open>Dir\<close> in the
  sector buffer. Directory chains come from the disk and may be cyclic: the loops are results in
  \<open>option\<close>.
\<close>

subsection \<open>Cursors\<close>

record Dir =
  d_fat :: "nat option"
  d_sclust :: uint32
  d_clust :: uint32
  d_sect :: uint32
  d_idx :: uint16

record Loc =
  loc_sect :: uint32
  loc_idx :: uint16

record cursor =
  volumes :: "nat \<Rightarrow> Fat"
  g_fat_list :: "nat list"
  g_buf :: "byte list"
  g_len :: nat
  g_crc :: byte
  dir :: Dir
  loc :: "Loc option"
  path :: "char list"

type_synonym ('a, 's) io = "((int + 'a) \<times> 's) option"

text \<open>\<^verbatim>\<open>if (err) return err\<close> between operations that may not return.\<close>

definition bind_io :: "('a, 's) io \<Rightarrow> ('a \<Rightarrow> 's \<Rightarrow> ('b, 's) io) \<Rightarrow> ('b, 's) io" where
  "bind_io r k = Option.bind r (\<lambda>(x, s). case x of Inl err \<Rightarrow> Some (Inl err, s) | Inr v \<Rightarrow> k v s)"

lemma bind_io_simps [simp]:
  "bind_io None k = None" "bind_io (Some (Inl err, s)) k = Some (Inl err, s)" "bind_io (Some (Inr v, s)) k = k v s"
  by (simp_all add: bind_io_def)

lemma bind_io_mono [partial_function_mono]:
  assumes "mono_option B" "\<And>v s. mono_option (\<lambda>f. C v s f)"
  shows "mono_option (\<lambda>f. bind_io (B f) (\<lambda>v s. C v s f))"
proof -
  have "mono_option (\<lambda>f. case p of (x, s) \<Rightarrow> (case x of Inl err \<Rightarrow> Some (Inl err, s) | Inr v \<Rightarrow> C v s f))" for p
    using assms(2) by (cases p; cases "fst p") (auto simp: monotone_on_def flat_ord_def fun_ord_def)
  then show ?thesis unfolding bind_io_def by (intro bind_mono assms(1))
qed

definition ret :: "'a \<Rightarrow> 's \<Rightarrow> ('a, 's) io" where "ret v s = Some (Inr v, s)"
definition fail :: "int \<Rightarrow> 's \<Rightarrow> ('a, 's) io" where "fail err s = Some (Inl err, s)"

lemmas result_simps [simp] = ret_def fail_def

text \<open>An operation on the volume a pointer points to; NULL cannot be dereferenced.\<close>

definition at_vol :: "nat option \<Rightarrow> (Fat \<Rightarrow> ('a, Fat) io) \<Rightarrow> cursor \<Rightarrow> ('a, cursor) io" where
  "at_vol p m c = do {
     v \<leftarrow> p;
     (r, f) \<leftarrow> m (volumes c v);
     Some (r, c\<lparr>volumes := (volumes c)(v := f)\<rparr>)
   }"

definition vol_io :: "(Fat \<Rightarrow> ('a, Fat) io) \<Rightarrow> cursor \<Rightarrow> ('a, cursor) io" where
  "vol_io m c = at_vol (d_fat (dir c)) m c"

definition vol_op :: "(Fat \<Rightarrow> 'a fat_result) \<Rightarrow> cursor \<Rightarrow> ('a, cursor) io" where
  "vol_op m c = vol_io (\<lambda>f. Some (m f)) c"

definition vol :: "cursor \<Rightarrow> Fat" where
  "vol c = volumes c (the (d_fat (dir c)))"

text \<open>Replacing the volume behind the address \<open>v\<close>.\<close>

abbreviation set_vol :: "nat \<Rightarrow> Fat \<Rightarrow> cursor \<Rightarrow> cursor" where
  "set_vol v g c \<equiv> c\<lparr>volumes := (volumes c)(v := g)\<rparr>"

definition on_dir :: "(Dir \<Rightarrow> Dir) \<Rightarrow> cursor \<Rightarrow> cursor" where
  "on_dir g c = c\<lparr>dir := g (dir c)\<rparr>"

subsection \<open>Moving\<close>

definition dir_at_clust :: "uint32 \<Rightarrow> cursor \<Rightarrow> cursor" where
  "dir_at_clust cl c = on_dir (\<lambda>d. d\<lparr>d_clust := cl, d_sect := clust_to_sect (vol c) cl, d_idx := 0\<rparr>) c"

definition dir_enter :: "uint32 \<Rightarrow> cursor \<Rightarrow> cursor" where
  "dir_enter cl c =
     (let cl' = (if cl = 0 then root_clust (vol c) else cl)
      in dir_at_clust cl' (on_dir (\<lambda>d. d\<lparr>d_sclust := cl'\<rparr>) c))"

definition dir_next :: "cursor \<Rightarrow> (unit, cursor) io" where
  "dir_next c =
     (let c1 = on_dir (\<lambda>d. d\<lparr>d_idx := d_idx d + 32\<rparr>) c
      in if d_idx (dir c1) < 512 then ret () c1
         else
           let c2 = on_dir (\<lambda>d. d\<lparr>d_idx := 0, d_sect := d_sect d + 1\<rparr>) c1
           in if d_sect (dir c2) AND clust_msk (vol c2) \<noteq> 0 then ret () c2
              else bind_io (vol_op (get_fat (d_clust (dir c2))) c2) (\<lambda>(next, flags) c3.
                if flags AND (CLUST_BAD OR CLUST_FREE) \<noteq> 0 then fail FAT_ERR_BROKEN c3
                else if flags AND CLUST_LAST \<noteq> 0 then fail FAT_ERR_EOF c3
                else ret () (dir_at_clust next c3)))"

primrec dir_advance :: "nat \<Rightarrow> cursor \<Rightarrow> (unit, cursor) io" where
  "dir_advance 0 c = ret () c"
| "dir_advance (Suc n) c = bind_io (dir_next c) (\<lambda>_ c1. dir_advance n c1)"

definition dir_next_stretch :: "cursor \<Rightarrow> (unit, cursor) io" where
  "dir_next_stretch c = do {
     (r, c1) \<leftarrow> dir_next c;
     if r \<noteq> Inl FAT_ERR_EOF then Some (r, c1)
     else bind_io (vol_io (stretch_chain (d_clust (dir c1))) c1) (\<lambda>next c2.
       let c3 = dir_at_clust next c2 in vol_op (clust_clear (d_clust (dir c3))) c3)
   }"

subsection \<open>Entries\<close>

definition FAT_ATTR_RO :: byte where "FAT_ATTR_RO = 0x01"
definition FAT_ATTR_SYS :: byte where "FAT_ATTR_SYS = 0x04"
definition FAT_ATTR_LABEL :: byte where "FAT_ATTR_LABEL = 0x08"
definition FAT_ATTR_DIR :: byte where "FAT_ATTR_DIR = 0x10"
definition FAT_ATTR_ARCHIVE :: byte where "FAT_ATTR_ARCHIVE = 0x20"
definition FAT_ATTR_LFN :: byte where "FAT_ATTR_LFN = 0x0f"

text \<open>The fields of \<^verbatim>\<open>Sfn\<close> and \<^verbatim>\<open>Lfn\<close> at their offsets in an entry.\<close>

definition sfn_name :: "byte list \<Rightarrow> byte list" where "sfn_name e = take 11 e"
definition sfn_attr :: "byte list \<Rightarrow> byte" where "sfn_attr e = e ! 11"
definition sfn_cre_time :: "byte list \<Rightarrow> uint16" where "sfn_cre_time e = get16 e 14"
definition sfn_cre_date :: "byte list \<Rightarrow> uint16" where "sfn_cre_date e = get16 e 16"
definition sfn_clust_hi :: "byte list \<Rightarrow> uint16" where "sfn_clust_hi e = get16 e 20"
definition sfn_mod_time :: "byte list \<Rightarrow> uint16" where "sfn_mod_time e = get16 e 22"
definition sfn_mod_date :: "byte list \<Rightarrow> uint16" where "sfn_mod_date e = get16 e 24"
definition sfn_clust_lo :: "byte list \<Rightarrow> uint16" where "sfn_clust_lo e = get16 e 26"
definition sfn_size :: "byte list \<Rightarrow> uint32" where "sfn_size e = get32 e 28"
definition lfn_seq :: "byte list \<Rightarrow> byte" where "lfn_seq e = e ! 0"
definition lfn_crc :: "byte list \<Rightarrow> byte" where "lfn_crc e = e ! 13"

definition sfn_is_last :: "byte list \<Rightarrow> bool" where
  "sfn_is_last e \<longleftrightarrow> e ! 0 = SFN_LAST"

definition sfn_is_free :: "byte list \<Rightarrow> bool" where
  "sfn_is_free e \<longleftrightarrow> e ! 0 = SFN_LAST \<or> e ! 0 = SFN_FREE"

definition sfn_is_lfn :: "byte list \<Rightarrow> bool" where
  "sfn_is_lfn e \<longleftrightarrow> sfn_attr e = FAT_ATTR_LFN"

definition sfn_cluster :: "byte list \<Rightarrow> uint32" where
  "sfn_cluster e = push_bit 16 (ucast (sfn_clust_hi e)) OR ucast (sfn_clust_lo e)"

text \<open>What \<^verbatim>\<open>dir_ptr\<close> points to, and writing through it.\<close>

definition entry_in :: "byte list \<Rightarrow> nat \<Rightarrow> byte list" where
  "entry_in b i = take 32 (drop i b)"

definition set_entry :: "nat \<Rightarrow> byte list \<Rightarrow> byte list \<Rightarrow> byte list" where
  "set_entry i e b = take i b @ e @ drop (i + 32) b"

definition dir_ptr :: "cursor \<Rightarrow> byte list" where
  "dir_ptr c = entry_in (fat_buf (vol c)) (unat (d_idx (dir c)))"

definition write_entry :: "nat \<Rightarrow> (byte list \<Rightarrow> byte list) \<Rightarrow> Fat \<Rightarrow> Fat" where
  "write_entry i g f =
     f\<lparr>fat_buf := set_entry i (g (entry_in (fat_buf f) i)) (fat_buf f), fat_flags := fat_flags f OR FAT_BUF_DIRTY\<rparr>"

definition dir_write :: "(byte list \<Rightarrow> byte list) \<Rightarrow> cursor \<Rightarrow> (unit, cursor) io" where
  "dir_write g c = vol_op (\<lambda>f. (Inr (), write_entry (unat (d_idx (dir c))) g f)) c"

text \<open>\<^verbatim>\<open>update_buf(dir->fat, dir->sect)\<close>.\<close>

definition dir_load :: "cursor \<Rightarrow> (unit, cursor) io" where
  "dir_load c = vol_op (update_buf (d_sect (dir c))) c"

subsection \<open>Names in front of an entry\<close>

definition parse_sfn_name :: "byte list \<Rightarrow> cursor \<Rightarrow> cursor" where
  "parse_sfn_name name c =
     (let t = sfn_text name in c\<lparr>g_buf := t @ drop (length t) (g_buf c), g_len := length t\<rparr>)"

text \<open>The fragments, the last one of the name first.\<close>

primrec lfn_loop :: "nat \<Rightarrow> cursor \<Rightarrow> (unit, cursor) io" where
  "lfn_loop 0 c = ret () c"
| "lfn_loop (Suc cnt) c =
     (let lfn = dir_ptr c
      in if sfn_attr lfn \<noteq> FAT_ATTR_LFN \<or> lfn_crc lfn \<noteq> g_crc c then fail FAT_ERR_BROKEN c
         else
           let (ok, b, n) = read_frag g_lfn_indices lfn (13 * cnt) (g_buf c, g_len c);
               c1 = c\<lparr>g_buf := b, g_len := n\<rparr>
           in if \<not> ok then fail FAT_ERR_BROKEN c1
              else bind_io (dir_next c1) (\<lambda>_ c2. bind_io (dir_load c2) (\<lambda>_ c3. lfn_loop cnt c3)))"

definition parse_lfn_name :: "cursor \<Rightarrow> (unit, cursor) io" where
  "parse_lfn_name c =
     bind_io (dir_load c) (\<lambda>_ c1.
       let lfn = dir_ptr c1; c2 = c1\<lparr>g_crc := lfn_crc lfn, g_len := 0\<rparr>;
           cnt = unat (lfn_seq lfn AND LFN_SEQ_MSK)
       in if lfn_seq lfn AND LFN_HEAD_MSK = 0 then fail FAT_ERR_BROKEN c2
          else if cnt > 20 then fail FAT_ERR_BROKEN c2
          else bind_io (lfn_loop cnt c2) (\<lambda>_ c3.
            if g_len c3 \<le> 255 then ret () c3 else fail FAT_ERR_BROKEN c3))"

subsection \<open>Searching\<close>

text \<open>The loop of \<^verbatim>\<open>dir_search\<close>: read the entry the \<^verbatim>\<open>Dir\<close> is at, then stop or go on.\<close>

partial_function (option) search_loop :: "byte list \<Rightarrow> char list \<Rightarrow> cursor \<Rightarrow> (unit, cursor) io" where
  "search_loop short name c =
     bind_io (dir_load c) (\<lambda>_ c1.
       let sfn = dir_ptr c1
       in if sfn_is_last sfn then fail FAT_ERR_EOF c1
          else if sfn_is_free sfn then bind_io (dir_next c1) (\<lambda>_ c2. search_loop short name c2)
          else
            let c2 = c1\<lparr>loc := Some \<lparr>loc_sect = d_sect (dir c1), loc_idx = d_idx (dir c1)\<rparr>\<rparr>
            in if sfn_is_lfn sfn then
                 bind_io (parse_lfn_name c2) (\<lambda>_ c3.
                   let sfn = dir_ptr c3
                   in if sfn_is_free sfn \<or> sfn_is_lfn sfn \<or> g_crc c3 \<noteq> get_crc (sfn_name sfn)
                      then fail FAT_ERR_BROKEN c3
                      else if g_len c3 = length name \<and> take (length name) (g_buf c3) = map char_byte name
                      then ret () c3
                      else bind_io (dir_next c3) (\<lambda>_ c4. search_loop short name c4))
               else if short = sfn_name sfn then ret () c2
               else bind_io (dir_next c2) (\<lambda>_ c3. search_loop short name c3))"

definition dir_search :: "char list \<Rightarrow> cursor \<Rightarrow> (unit, cursor) io" where
  "dir_search name c = search_loop (put_sfn_name name) name (dir_at_clust (d_sclust (dir c)) c)"

text \<open>What a successful search stops at: an entry in use that ends a name, whose long name was read and is
  \<open>name\<close> (with the checksum of this entry), or whose short name is the one of \<open>name\<close>.\<close>

definition entry_matches :: "byte list \<Rightarrow> char list \<Rightarrow> cursor \<Rightarrow> bool" where
  "entry_matches short name c \<longleftrightarrow>
     (let e = dir_ptr c
      in \<not> sfn_is_free e \<and> \<not> sfn_is_lfn e \<and>
         (take (g_len c) (g_buf c) = map char_byte name \<and> g_len c \<le> length (g_buf c) \<and> g_crc c = get_crc (sfn_name e) \<or>
          sfn_name e = short))"

lemma bind_io_Inr:
  assumes "bind_io r k = Some (Inr v, s)"
  obtains u t where "r = Some (Inr u, t)" "k u t = Some (Inr v, s)"
  using assms by (auto simp: bind_io_def split: Option.bind_splits sum.splits)

text \<open>The two steps of the loop body, over the continuation \<open>k\<close> at the next entry.\<close>

abbreviation long_step :: "(cursor \<Rightarrow> (unit, cursor) io) \<Rightarrow> char list \<Rightarrow> cursor \<Rightarrow> (unit, cursor) io" where
  "long_step k name c \<equiv>
     (let sfn = dir_ptr c
      in if sfn_is_free sfn \<or> sfn_is_lfn sfn \<or> g_crc c \<noteq> get_crc (sfn_name sfn) then fail FAT_ERR_BROKEN c
         else if g_len c = length name \<and> take (length name) (g_buf c) = map char_byte name then ret () c
         else bind_io (dir_next c) (\<lambda>_ c4. k c4))"

abbreviation search_step ::
  "(cursor \<Rightarrow> (unit, cursor) io) \<Rightarrow> byte list \<Rightarrow> char list \<Rightarrow> cursor \<Rightarrow> (unit, cursor) io" where
  "search_step k short name c1 \<equiv>
     (let sfn = dir_ptr c1
      in if sfn_is_last sfn then fail FAT_ERR_EOF c1
         else if sfn_is_free sfn then bind_io (dir_next c1) (\<lambda>_ c2. k c2)
         else
           let c2 = c1\<lparr>loc := Some \<lparr>loc_sect = d_sect (dir c1), loc_idx = d_idx (dir c1)\<rparr>\<rparr>
           in if sfn_is_lfn sfn then bind_io (parse_lfn_name c2) (\<lambda>_ c3. long_step k name c3)
              else if short = sfn_name sfn then ret () c2
              else bind_io (dir_next c2) (\<lambda>_ c3. k c3))"

lemma long_step_sound:
  assumes "long_step k name c = Some (Inr (), c')"
    and k: "\<And>d. bind_io (dir_next d) (\<lambda>_ d'. k d') = Some (Inr (), c') \<Longrightarrow> entry_matches short name c'"
  shows "entry_matches short name c'"
proof (cases "g_len c = length name \<and> take (length name) (g_buf c) = map char_byte name")
  case True
  then have "min (length (g_buf c)) (g_len c) = g_len c" by (metis length_map length_take)
  then show ?thesis using assms(1) True by (auto simp: Let_def entry_matches_def split: if_splits)
next
  case False
  then show ?thesis using assms(1) k by (auto simp: Let_def split: if_splits)
qed

lemma search_step_sound:
  assumes "search_step k short name c = Some (Inr (), c')"
    and k: "\<And>d. bind_io (dir_next d) (\<lambda>_ d'. k d') = Some (Inr (), c') \<Longrightarrow> entry_matches short name c'"
  shows "entry_matches short name c'"
proof -
  let ?c2 = "c\<lparr>loc := Some \<lparr>loc_sect = d_sect (dir c), loc_idx = d_idx (dir c)\<rparr>\<rparr>"
  have same: "dir_ptr ?c2 = dir_ptr c" by (simp add: dir_ptr_def vol_def)
  consider "sfn_is_free (dir_ptr c)" | "\<not> sfn_is_free (dir_ptr c)" "sfn_is_lfn (dir_ptr c)"
    | "\<not> sfn_is_free (dir_ptr c)" "\<not> sfn_is_lfn (dir_ptr c)" by blast
  then show ?thesis
  proof cases
    case 1
    then show ?thesis using assms(1) k by (simp add: Let_def split: if_splits)
  next
    case 2
    then have "\<not> sfn_is_last (dir_ptr c)" by (simp add: sfn_is_last_def sfn_is_free_def)
    with assms(1) 2 have "bind_io (parse_lfn_name ?c2) (\<lambda>_ c3. long_step k name c3) = Some (Inr (), c')"
      unfolding Let_def by simp
    then show ?thesis by (rule bind_io_Inr) (rule long_step_sound [OF _ k])
  next
    case 3
    then have "\<not> sfn_is_last (dir_ptr c)" by (simp add: sfn_is_last_def sfn_is_free_def)
    then show ?thesis
      using assms(1) 3 k [of ?c2] same by (auto simp: Let_def entry_matches_def split: if_splits)
  qed
qed

lemma search_loop_sound:
  assumes "search_loop short name c = Some (Inr (), c')"
  shows "entry_matches short name c'"
proof -
  have "\<forall>c'. r = (Inr (), c') \<longrightarrow> entry_matches short name c'" if "search_loop short name c = Some r" for r
  proof (rule search_loop.raw_induct [OF _ that])
    fix rec short name c r
    assume IH: "\<And>short name c r. rec short name c = Some r \<Longrightarrow>
        \<forall>c'. r = (Inr (), c') \<longrightarrow> entry_matches short name c'"
      and body: "bind_io (dir_load c) (\<lambda>_ c1. search_step (rec short name) short name c1) = Some r"
    show "\<forall>c'. r = (Inr (), c') \<longrightarrow> entry_matches short name c'"
    proof (intro allI impI)
      fix c' assume r: "r = (Inr (), c')"
      have "entry_matches short name c'" if "bind_io (dir_next d) (\<lambda>_ d'. rec short name d') = Some (Inr (), c')" for d
        using that IH by (auto elim!: bind_io_Inr)
      with body [unfolded r] show "entry_matches short name c'"
        by (elim bind_io_Inr) (rule search_step_sound)
    qed
  qed
  then show ?thesis using assms by blast
qed

definition dir_at_root :: "cursor \<Rightarrow> bool" where
  "dir_at_root c \<longleftrightarrow> d_clust (dir c) = root_clust (vol c) \<and>
     d_sect (dir c) = clust_to_sect (vol c) (root_clust (vol c)) \<and> d_idx (dir c) = 0"

subsection \<open>Paths\<close>

definition find_fat_volume :: "char list \<Rightarrow> cursor \<Rightarrow> nat option" where
  "find_fat_volume name c = find (\<lambda>v. fat_name (volumes c v) = name) (g_fat_list c)"

text \<open>The loop over the components: \<open>dir_clust\<close> is the directory to enter next, if the last component
  was one.\<close>

partial_function (option) follow_loop :: "uint32 \<Rightarrow> bool \<Rightarrow> cursor \<Rightarrow> (unit, cursor) io" where
  "follow_loop dir_clust enterable c =
     (let c1 = c\<lparr>path := skip_slashes (path c)\<rparr>; len = subpath_len (path c1)
      in if len = 0 then ret () c1
         else if \<not> enterable then fail FAT_ERR_PATH c1
         else bind_io (dir_search (take len (path c1)) (dir_enter dir_clust c1)) (\<lambda>_ c2.
           let sfn = dir_ptr c2
           in follow_loop (sfn_cluster sfn) (sfn_attr sfn AND FAT_ATTR_DIR \<noteq> 0) (c2\<lparr>path := drop len (path c2)\<rparr>)))"

definition follow_path :: "cursor \<Rightarrow> (unit, cursor) io" where
  "follow_path c =
     (case path c of
        [] \<Rightarrow> fail FAT_ERR_PATH c
      | s # str \<Rightarrow>
          if s \<noteq> CHR ''/'' then fail FAT_ERR_PATH c
          else
            let len = subpath_len str
            in if len = 0 then fail FAT_ERR_PATH c
               else
                 let c1 = on_dir (\<lambda>d. d\<lparr>d_fat := find_fat_volume (take len str) c\<rparr>) c
                 in (case d_fat (dir c1) of
                       None \<Rightarrow> fail FAT_ERR_PATH c1
                     | Some v \<Rightarrow>
                         let c2 = dir_enter (root_clust (vol c1)) c1
                         in follow_loop (d_clust (dir c2)) True (c2\<lparr>path := drop len str\<rparr>)))"

subsection \<open>Removing and adding entries\<close>

partial_function (option) remove_entries_loop :: "uint32 \<Rightarrow> uint16 \<Rightarrow> cursor \<Rightarrow> (unit, cursor) io" where
  "remove_entries_loop last_sect last_idx c =
     bind_io (dir_load c) (\<lambda>_ c1.
     bind_io (dir_write (\<lambda>e. e[0 := SFN_FREE]) c1) (\<lambda>_ c2.
       if d_sect (dir c2) = last_sect \<and> d_idx (dir c2) = last_idx then ret () c2
       else bind_io (dir_next c2) (\<lambda>_ c3. remove_entries_loop last_sect last_idx c3)))"

definition remove_entries :: "Loc \<Rightarrow> cursor \<Rightarrow> (unit, cursor) io" where
  "remove_entries l c =
     remove_entries_loop (d_sect (dir c)) (d_idx (dir c))
       (on_dir (\<lambda>d. d\<lparr>d_clust := sect_to_clust (vol c) (loc_sect l), d_sect := loc_sect l, d_idx := loc_idx l\<rparr>) c)"

text \<open>Looking for \<open>need\<close> consecutive free entries, stretching the chain at its end. Behind the end marker
  (\<open>eod\<close>) every entry counts as free. The location is that of the first entry of the sequence.\<close>

partial_function (option) add_scan ::
  "nat \<Rightarrow> nat \<Rightarrow> bool \<Rightarrow> uint32 \<Rightarrow> uint16 \<Rightarrow> cursor \<Rightarrow> (bool \<times> uint32 \<times> uint16, cursor) io" where
  "add_scan need cnt eod s i c =
     (if need \<le> cnt then ret (eod, s, i) c
      else bind_io (dir_load c) (\<lambda>_ c1.
        let sfn = dir_ptr c1; free = eod \<or> sfn_is_free sfn;
            first = free \<and> cnt = 0;
            s1 = (if first then d_sect (dir c1) else s); i1 = (if first then d_idx (dir c1) else i)
        in bind_io (dir_next_stretch c1) (\<lambda>_ c2.
             add_scan need (if free then cnt + 1 else 0) (eod \<or> sfn_is_last sfn) s1 i1 c2)))"

definition lfn_entry :: "byte \<Rightarrow> nat \<Rightarrow> byte \<Rightarrow> char list \<Rightarrow> byte list \<Rightarrow> byte list" where
  "lfn_entry msk i crc name e =
     put16 ((put_lfn_name_frag e (take 13 (drop (13 * (i - 1)) name)))
       [11 := FAT_ATTR_LFN, 0 := msk OR of_nat i, 13 := crc, 12 := 0]) 26 0"

primrec add_lfns :: "nat \<Rightarrow> byte \<Rightarrow> byte \<Rightarrow> char list \<Rightarrow> cursor \<Rightarrow> (unit, cursor) io" where
  "add_lfns 0 msk crc name c = ret () c"
| "add_lfns (Suc i) msk crc name c =
     bind_io (dir_load c) (\<lambda>_ c1.
     bind_io (dir_write (lfn_entry msk (Suc i) crc name) c1) (\<lambda>_ c2.
     bind_io (dir_next c2) (\<lambda>_ c3. add_lfns i 0 crc name c3)))"

definition new_sfn :: "byte list \<Rightarrow> byte \<Rightarrow> uint32 \<Rightarrow> uint16 \<times> uint16 \<Rightarrow> byte list \<Rightarrow> byte list" where
  "new_sfn short attr cl stamp e =
     (let (date, time) = stamp;
          e1 = short @ drop 11 e;
          e2 = put16 (put16 e1 20 (ucast (drop_bit 16 cl))) 26 (ucast cl);
          e3 = e2[11 := attr, 12 := 0, 13 := 0];
          e4 = put16 (put16 e3 14 time) 22 time;
          e5 = put16 (put16 (put16 e4 16 date) 24 date) 18 date
      in put32 e5 28 0)"

definition dir_add :: "char list \<Rightarrow> byte \<Rightarrow> uint32 \<Rightarrow> cursor \<Rightarrow> (unit, cursor) io" where
  "dir_add name attr cl c =
     (if name = [] \<or> length name > 255 then fail FAT_ERR_PARAM c
      else
        let lfns = (length name + 12) div 13; short = put_sfn_name name in
        bind_io (add_scan (lfns + 1) 0 False 0 0 (dir_enter (d_sclust (dir c)) c)) (\<lambda>(eod, s, i) c1.
        bind_io (if eod then bind_io (dir_load c1) (\<lambda>_ c2. dir_write (\<lambda>e. e[0 := 0x00]) c2) else ret () c1) (\<lambda>_ c2.
        let c3 = on_dir (\<lambda>d. d\<lparr>d_clust := sect_to_clust (vol c2) s, d_sect := s, d_idx := i\<rparr>) c2 in
        bind_io (add_lfns lfns LFN_HEAD_MSK (get_crc short) name c3) (\<lambda>_ c4.
        bind_io (dir_load c4) (\<lambda>_ c5. dir_write (new_sfn short attr cl encode_timestamp) c5)))))"

subsection \<open>Opening, reading and creating directories\<close>

record DirInfo =
  created :: Timestamp
  modified :: Timestamp
  info_size :: uint32
  attr :: byte
  info_name :: "byte list"

text \<open>\<^verbatim>\<open>info->name\<close> is the \<open>g_len\<close> bytes the call copies from \<open>g_buf\<close>.\<close>

definition read_info :: "byte list \<Rightarrow> cursor \<Rightarrow> DirInfo" where
  "read_info sfn c =
     \<lparr>created = decode_timestamp (sfn_cre_date sfn) (sfn_cre_time sfn),
      modified = decode_timestamp (sfn_mod_date sfn) (sfn_mod_time sfn),
      info_size = sfn_size sfn, attr = sfn_attr sfn, info_name = take (g_len c) (g_buf c)\<rparr>"

partial_function (option) dir_read_loop :: "cursor \<Rightarrow> (DirInfo, cursor) io" where
  "dir_read_loop c =
     bind_io (dir_load c) (\<lambda>_ c1.
       let sfn = dir_ptr c1
       in if sfn_is_last sfn then fail FAT_ERR_EOF c1
          else if sfn_is_free sfn then bind_io (dir_next c1) (\<lambda>_ c2. dir_read_loop c2)
          else if sfn_is_lfn sfn then
            bind_io (parse_lfn_name c1) (\<lambda>_ c2.
            bind_io (dir_load c2) (\<lambda>_ c3.
              let sfn = dir_ptr c3
              in if sfn_is_free sfn \<or> g_crc c3 \<noteq> get_crc (sfn_name sfn) then fail FAT_ERR_BROKEN c3
                 else ret (read_info sfn c3) c3))
          else
            let c2 = parse_sfn_name (sfn_name sfn) c1 in ret (read_info sfn c2) c2)"

definition fat_dir_read :: "cursor \<Rightarrow> (DirInfo, cursor) io" where
  "fat_dir_read c = (if d_fat (dir c) = None then fail FAT_ERR_PARAM c else dir_read_loop c)"

definition fat_dir_next :: "cursor \<Rightarrow> (unit, cursor) io" where
  "fat_dir_next c = (if d_fat (dir c) = None then fail FAT_ERR_PARAM c else dir_next c)"

definition fat_dir_rewind :: "cursor \<Rightarrow> (unit, cursor) io" where
  "fat_dir_rewind c =
     (if d_fat (dir c) = None then fail FAT_ERR_PARAM c else ret () (dir_at_clust (d_sclust (dir c)) c))"

definition fat_dir_open :: "cursor \<Rightarrow> (unit, cursor) io" where
  "fat_dir_open c =
     bind_io (follow_path c) (\<lambda>_ c1.
       if dir_at_root c1 then ret () c1
       else bind_io (dir_load c1) (\<lambda>_ c2.
         let sfn = dir_ptr c2
         in if sfn_attr sfn AND FAT_ATTR_DIR = 0 then fail FAT_ERR_PATH c2
            else ret () (dir_enter (sfn_cluster sfn) c2)))"

text \<open>The two first entries of a new directory, over the zeroed sector.\<close>

definition dot_entries :: "uint32 \<Rightarrow> uint32 \<Rightarrow> uint16 \<times> uint16 \<Rightarrow> byte list \<Rightarrow> byte list" where
  "dot_entries cl parent stamp b =
     (let (date, time) = stamp; e = entry_in b 0;
          e1 = (replicate 11 SFN_PAD @ drop 11 e)[0 := char_byte (CHR ''.''), 11 := FAT_ATTR_DIR];
          e2 = put16 (put16 e1 20 (ucast (drop_bit 16 cl))) 26 (ucast cl);
          e3 = put16 (put16 e2 16 date) 14 time;
          e4 = put16 (put16 (put16 e3 24 date) 22 time) 18 date;
          f1 = e4[1 := char_byte (CHR ''.'')];
          f2 = put16 (put16 f1 20 (ucast (drop_bit 16 parent))) 26 (ucast parent)
      in set_entry 32 f2 (set_entry 0 e4 b))"

definition fat_dir_create :: "cursor \<Rightarrow> (unit, cursor) io" where
  "fat_dir_create c = do {
     (r, c1) \<leftarrow> follow_path c;
     if r \<noteq> Inl FAT_ERR_EOF then Some (r, c1)
     else
       let len = last_subpath_len (path c1)
       in if len = 0 then fail FAT_ERR_PATH c1
          else
            bind_io (vol_io create_chain c1) (\<lambda>cl c2.
            bind_io (vol_op (clust_clear cl) c2) (\<lambda>_ c3.
            bind_io (vol_op (update_buf (clust_to_sect (vol c3) cl)) c3) (\<lambda>_ c4.
            let parent = (if d_sclust (dir c4) = root_clust (vol c4) then 0 else d_sclust (dir c4)) in
            bind_io (vol_op (\<lambda>f. (Inr (), f\<lparr>fat_buf := dot_entries cl parent encode_timestamp (fat_buf f),
                                         fat_flags := fat_flags f OR FAT_BUF_DIRTY\<rparr>)) c4) (\<lambda>_ c5.
            bind_io (dir_add (take len (path c5)) FAT_ATTR_DIR cl c5) (\<lambda>_ c6.
            vol_op sync_fs (dir_enter cl c6))))))
   }"

subsection \<open>Information and deletion\<close>

text \<open>\<^verbatim>\<open>fat_stat\<close> reads \<open>loc\<close> even when the path named the root and nothing set it: \<open>None\<close>.\<close>

definition fat_stat :: "cursor \<Rightarrow> (DirInfo, cursor) io" where
  "fat_stat c =
     bind_io (follow_path (c\<lparr>loc := None\<rparr>)) (\<lambda>_ c1.
       if subpath_len (path c1) \<noteq> 0 then fail FAT_ERR_PATH c1
       else do {
         l \<leftarrow> loc c1;
         fat_dir_read (on_dir (\<lambda>d. d\<lparr>d_clust := sect_to_clust (vol c1) (loc_sect l), d_sect := loc_sect l,
                                    d_idx := loc_idx l\<rparr>) c1)
       })"

text \<open>Whether a directory holds nothing but its first two entries.\<close>

partial_function (option) empty_loop :: "cursor \<Rightarrow> (unit, cursor) io" where
  "empty_loop c =
     bind_io (dir_load c) (\<lambda>_ c1.
       let sfn = dir_ptr c1
       in if sfn_is_last sfn then ret () c1
          else if \<not> sfn_is_free sfn then fail FAT_ERR_DENIED c1
          else bind_io (dir_next c1) (\<lambda>_ c2. empty_loop c2))"

definition fat_unlink :: "cursor \<Rightarrow> (unit, cursor) io" where
  "fat_unlink c =
     bind_io (follow_path (c\<lparr>loc := None\<rparr>)) (\<lambda>_ c1.
       if dir_at_root c1 then fail FAT_ERR_DENIED c1
       else
         let sfn = dir_ptr c1; cl = sfn_cluster sfn; here = dir c1
         in if sfn_attr sfn AND (FAT_ATTR_RO OR FAT_ATTR_SYS OR FAT_ATTR_LABEL) \<noteq> 0 then fail FAT_ERR_DENIED c1
            else
              bind_io
                (if sfn_attr sfn AND FAT_ATTR_DIR \<noteq> 0
                 then bind_io (dir_advance 2 (dir_enter cl c1)) (\<lambda>_ c2. empty_loop c2)
                 else ret () c1)
                (\<lambda>_ c2.
                   let c3 = c2\<lparr>dir := here\<rparr> in
                   bind_io (vol_io (remove_chain cl) c3) (\<lambda>_ c4. do {
                     l \<leftarrow> loc c4;
                     bind_io (remove_entries l c4) (\<lambda>_ c5. vol_op sync_fs c5)
                   })))"

end
