(* ===== verification/Fat_File.thy ===== *)
theory Fat_File
  imports Fat_Directory
begin

text \<open>
  Files of \<^verbatim>\<open>libs/fat32/fat.c\<close>: opening, seeking along the cluster chain (which also grows it),
  reading, writing, writing back and closing. A \<^verbatim>\<open>File\<close> buffers one sector of its own, beside the
  buffer of its volume. The state of an operation is the file and the \<open>cursor\<close>.
\<close>

definition FAT_ACCESSED :: byte where "FAT_ACCESSED = 0x20"
definition FAT_MODIFIED :: byte where "FAT_MODIFIED = 0x40"
definition FAT_FILE_DIRTY :: byte where "FAT_FILE_DIRTY = 0x80"
definition FAT_WRITE :: byte where "FAT_WRITE = 0x01"
definition FAT_READ :: byte where "FAT_READ = 0x02"
definition FAT_APPEND :: byte where "FAT_APPEND = 0x04"
definition FAT_TRUNC :: byte where "FAT_TRUNC = 0x08"
definition FAT_CREATE :: byte where "FAT_CREATE = 0x10"
definition FAT_SEEK_START :: int where "FAT_SEEK_START = 0"
definition FAT_SEEK_CURR :: int where "FAT_SEEK_CURR = 1"
definition FAT_SEEK_END :: int where "FAT_SEEK_END = 2"

record File =
  f_fat :: "nat option"
  f_dir_sect :: uint32
  f_sclust :: uint32
  f_clust :: uint32
  f_sect :: uint32
  f_size :: uint32
  f_offset :: uint32
  f_dir_idx :: uint16
  f_attr :: byte
  f_flags :: byte
  f_buf :: "byte list"

type_synonym 'a file_io = "('a, File \<times> cursor) io"

definition on_cursor :: "(cursor \<Rightarrow> ('a, cursor) io) \<Rightarrow> File \<times> cursor \<Rightarrow> 'a file_io" where
  "on_cursor m s = do { (r, c) \<leftarrow> m (snd s); Some (r, fst s, c) }"

text \<open>An operation on the volume of the file.\<close>

definition file_vol_io :: "(Fat \<Rightarrow> ('a, Fat) io) \<Rightarrow> File \<times> cursor \<Rightarrow> 'a file_io" where
  "file_vol_io m s = on_cursor (at_vol (f_fat (fst s)) m) s"

definition file_vol :: "File \<times> cursor \<Rightarrow> Fat" where
  "file_vol s = volumes (snd s) (the (f_fat (fst s)))"

definition set_file :: "(File \<Rightarrow> File) \<Rightarrow> File \<times> cursor \<Rightarrow> File \<times> cursor" where
  "set_file g s = (g (fst s), snd s)"

text \<open>\<^verbatim>\<open>file->fat->ops.read\<close> and \<^verbatim>\<open>write\<close> of the file's buffer.\<close>

definition file_write_sector :: "uint32 \<Rightarrow> File \<times> cursor \<Rightarrow> unit file_io" where
  "file_write_sector sector s =
     file_vol_io (\<lambda>f. let (ok, d) = disk_write (f_buf (fst s)) sector (ops f); f1 = f\<lparr>ops := d\<rparr>
                      in if ok then ret () f1 else fail FAT_ERR_IO f1) s"

definition file_read_sector :: "uint32 \<Rightarrow> File \<times> cursor \<Rightarrow> unit file_io" where
  "file_read_sector sector s =
     bind_io (file_vol_io (\<lambda>f. let (ok, b, d) = disk_read sector (ops f) in ret (ok, b) (f\<lparr>ops := d\<rparr>)) s)
       (\<lambda>(ok, b) s1.
          let s2 = set_file (\<lambda>file. file\<lparr>f_buf := b\<rparr>) s1 in if ok then ret () s2 else fail FAT_ERR_IO s2)"

subsection \<open>Seeking\<close>

text \<open>Following the chain for a number of clusters, growing it at its end.\<close>

primrec follow_clusters :: "nat \<Rightarrow> File \<times> cursor \<Rightarrow> unit file_io" where
  "follow_clusters 0 s = ret () s"
| "follow_clusters (Suc n) s =
     bind_io (file_vol_io (\<lambda>f. Some (get_fat (f_clust (fst s)) f)) s) (\<lambda>(next, flags) s1.
       if flags AND (CLUST_BAD OR CLUST_FREE) \<noteq> 0 then fail FAT_ERR_BROKEN s1
       else bind_io (if flags AND CLUST_LAST \<noteq> 0 then file_vol_io (stretch_chain (f_clust (fst s1))) s1 else ret next s1)
         (\<lambda>next s2. follow_clusters n (set_file (\<lambda>file. file\<lparr>f_clust := next\<rparr>) s2)))"

definition seek_base :: "int \<Rightarrow> File \<Rightarrow> int" where
  "seek_base seek file =
     (if seek = FAT_SEEK_CURR then uint (f_offset file)
      else if seek = FAT_SEEK_END then uint (f_size file) else 0)"

definition fat_file_seek :: "int \<Rightarrow> int \<Rightarrow> File \<times> cursor \<Rightarrow> unit file_io" where
  "fat_file_seek offset seek s =
     (let ssect = f_sect (fst s); off64 = seek_base seek (fst s) + offset
      in if f_fat (fst s) = None then fail FAT_ERR_PARAM s
         else if off64 < 0 \<or> off64 > 0xffffffff then fail FAT_ERR_EOF s
         else
           let off = (word_of_int off64 :: uint32); f = file_vol s;
               clust_size = push_bit (unat (clust_shift f)) 512;
               dst_clust = off div clust_size; src_clust = f_offset (fst s) div clust_size;
               back = dst_clust < src_clust;
               s1 = (if back then set_file (\<lambda>file. file\<lparr>f_clust := f_sclust file,
                       f_sect := clust_to_sect f (f_sclust file), f_offset := 0\<rparr>) s else s);
               src_clust = (if back then 0 else src_clust)
           in bind_io (follow_clusters (unat (dst_clust - src_clust)) s1) (\<lambda>_ s2.
             let f = file_vol s2;
                 s3 = set_file (\<lambda>file. file\<lparr>f_sect := clust_to_sect f (f_clust file) + ((off div 512) AND clust_msk f),
                                           f_offset := off\<rparr>) s2
             in if f_sect (fst s3) = ssect then ret () s3
                else bind_io (if f_flags (fst s3) AND FAT_FILE_DIRTY \<noteq> 0
                              then bind_io (file_write_sector ssect s3) (\<lambda>_ s4.
                                ret () (set_file (\<lambda>file. file\<lparr>f_flags := f_flags file AND NOT FAT_FILE_DIRTY\<rparr>) s4))
                              else ret () s3)
                       (\<lambda>_ s5. file_read_sector (f_sect (fst s5)) s5)))"

subsection \<open>Reading and writing\<close>

text \<open>The number of bytes of one step: \<^verbatim>\<open>LIMIT\<close> compares as unsigned, since the rest of the file is.\<close>

definition read_count :: "int \<Rightarrow> File \<Rightarrow> int" where
  "read_count len file =
     (let i = uint (f_offset file mod 512); lim = (word_of_int (512 - i) :: uint32);
          rest = f_size file - f_offset file; inner = (if lim < rest then lim else rest)
      in if (word_of_int len :: uint32) < inner then len else uint inner)"

text \<open>The bytes delivered so far are the first component; \<^verbatim>\<open>*bytes\<close> is their number.\<close>

partial_function (option) read_loop :: "int \<Rightarrow> byte list \<Rightarrow> File \<times> cursor \<Rightarrow> (unit, byte list \<times> File \<times> cursor) io" where
  "read_loop len data s =
     (if len \<noteq> 0 \<and> f_offset (fst s) < f_size (fst s) then
        let cnt = read_count len (fst s);
            data' = data @ take (nat cnt) (drop (unat (f_offset (fst s) mod 512)) (f_buf (fst s)))
        in do {
          (r, s1) \<leftarrow> fat_file_seek cnt FAT_SEEK_CURR s;
          case r of Inl err \<Rightarrow> fail err (data', s1) | Inr _ \<Rightarrow> read_loop (len - cnt) data' s1
        }
      else ret () (data, s))"

definition fat_file_read :: "int \<Rightarrow> File \<times> cursor \<Rightarrow> (unit, byte list \<times> File \<times> cursor) io" where
  "fat_file_read len s =
     (if f_fat (fst s) = None then fail FAT_ERR_PARAM ([], s)
      else if f_flags (fst s) AND FAT_READ = 0 then fail FAT_ERR_DENIED ([], s)
      else read_loop len [] (set_file (\<lambda>file. file\<lparr>f_flags := f_flags file OR FAT_ACCESSED\<rparr>) s))"

text \<open>\<^verbatim>\<open>memcpy\<close> of \<^verbatim>\<open>common/memory.S\<close> copies a byte before it looks at the count.\<close>

definition memcpy_bytes :: "byte list \<Rightarrow> nat \<Rightarrow> byte list \<Rightarrow> int \<Rightarrow> byte list option" where
  "memcpy_bytes dst i src n =
     (let k = nat (max 1 n)
      in if k \<le> length src \<and> i + k \<le> length dst then Some (take i dst @ take k src @ drop (i + k) dst) else None)"

partial_function (option) write_loop :: "int \<Rightarrow> byte list \<Rightarrow> int \<Rightarrow> File \<times> cursor \<Rightarrow> int file_io" where
  "write_loop len src bytes s =
     (if len = 0 then ret bytes s
      else
        let i = unat (f_offset (fst s) mod 512); cnt = (if len < 512 - int i then len else 512 - int i)
        in do {
          b \<leftarrow> memcpy_bytes (f_buf (fst s)) i src cnt;
          (r, s2) \<leftarrow> fat_file_seek cnt FAT_SEEK_CURR
             (set_file (\<lambda>file. file\<lparr>f_buf := b, f_flags := f_flags file OR FAT_FILE_DIRTY\<rparr>) s);
          case r of
            Inl err \<Rightarrow> ret (bytes + cnt) s2
          | Inr _ \<Rightarrow> write_loop (len - cnt) (drop (nat cnt) src) (bytes + cnt) s2
        })"

definition fat_file_write :: "int \<Rightarrow> byte list \<Rightarrow> File \<times> cursor \<Rightarrow> int file_io" where
  "fat_file_write len src s =
     (if f_fat (fst s) = None then fail FAT_ERR_PARAM s
      else if f_flags (fst s) AND FAT_WRITE = 0 then fail FAT_ERR_DENIED s
      else bind_io (write_loop len src 0 (set_file (\<lambda>file. file\<lparr>f_flags := f_flags file OR (FAT_MODIFIED OR FAT_ACCESSED)\<rparr>) s))
        (\<lambda>bytes s1. ret bytes (set_file (\<lambda>file. if f_offset file > f_size file then file\<lparr>f_size := f_offset file\<rparr> else file) s1)))"

subsection \<open>Writing back\<close>

definition sync_entry :: "File \<Rightarrow> uint16 \<times> uint16 \<Rightarrow> byte list \<Rightarrow> byte list" where
  "sync_entry file stamp e =
     (let (date, time) = stamp;
          e1 = (if f_flags file AND FAT_ACCESSED \<noteq> 0 then put16 e 18 date else e)
      in if f_flags file AND FAT_MODIFIED \<noteq> 0
         then put16 (put16 (put32 (e1[11 := e1 ! 11 OR FAT_ATTR_ARCHIVE]) 28 (f_size file)) 24 date) 22 time
         else e1)"

definition fat_file_sync :: "File \<times> cursor \<Rightarrow> unit file_io" where
  "fat_file_sync s =
     (if f_fat (fst s) = None then fail FAT_ERR_PARAM s
      else bind_io (file_write_sector (f_sect (fst s)) s) (\<lambda>_ s1.
        let file = fst s1 in
        bind_io
          (if f_flags file AND (FAT_ACCESSED OR FAT_MODIFIED) \<noteq> 0
           then bind_io (file_vol_io (\<lambda>f. Some (update_buf (f_dir_sect file) f)) s1) (\<lambda>_ s2.
                  file_vol_io (\<lambda>f. ret () (write_entry (unat (f_dir_idx file)) (sync_entry file encode_timestamp) f)) s2)
           else ret () s1)
          (\<lambda>_ s3. bind_io (file_vol_io (\<lambda>f. Some (sync_fs f)) s3) (\<lambda>_ s4.
             ret () (set_file (\<lambda>file. file\<lparr>f_flags := f_flags file AND NOT (FAT_ACCESSED OR FAT_MODIFIED)\<rparr>) s4)))))"

definition fat_file_close :: "File \<times> cursor \<Rightarrow> unit file_io" where
  "fat_file_close s = (if f_fat (fst s) = None then fail FAT_ERR_PARAM s else fat_file_sync s)"

subsection \<open>Opening\<close>

text \<open>The file described by the entry the \<^verbatim>\<open>Dir\<close> is at.\<close>

definition file_at :: "byte \<Rightarrow> File \<Rightarrow> cursor \<Rightarrow> File" where
  "file_at flags file c =
     (let sfn = dir_ptr c
      in \<lparr>f_fat = d_fat (dir c), f_dir_sect = d_sect (dir c), f_sclust = sfn_cluster sfn, f_clust = sfn_cluster sfn,
          f_sect = 0xffffffff, f_size = sfn_size sfn, f_offset = 0, f_dir_idx = d_idx (dir c), f_attr = sfn_attr sfn,
          f_flags = flags, f_buf = f_buf file\<rparr>)"

definition open_at :: "byte \<Rightarrow> File \<times> cursor \<Rightarrow> unit file_io" where
  "open_at flags s =
     (let file = file_at flags (fst s) (snd s);
          file1 = (if f_size file \<noteq> 0 \<and> flags AND FAT_TRUNC \<noteq> 0
                   then file\<lparr>f_size := 0, f_flags := f_flags file OR FAT_MODIFIED\<rparr> else file)
      in fat_file_seek 0 (if flags AND FAT_APPEND \<noteq> 0 then FAT_SEEK_END else FAT_SEEK_START) (file1, snd s))"

definition create_file :: "File \<times> cursor \<Rightarrow> unit file_io" where
  "create_file s =
     (let len = last_subpath_len (path (snd s))
      in if len = 0 then fail FAT_ERR_PATH s
         else bind_io (on_cursor (vol_io create_chain) s) (\<lambda>cl s1.
           on_cursor (\<lambda>c. dir_add (take len (path c)) FAT_ATTR_ARCHIVE cl c) s1))"

text \<open>Finding the entry of the path, or making one, before the \<^verbatim>\<open>File\<close> is written.\<close>

definition find_or_create :: "byte \<Rightarrow> File \<times> cursor \<Rightarrow> unit file_io" where
  "find_or_create flags s = do {
     (r, c) \<leftarrow> follow_path (on_dir (\<lambda>d. d\<lparr>d_fat := None\<rparr>) (snd s));
     let s1 = (fst s, c);
     case r of
       Inr _ \<Rightarrow> ret () s1
     | Inl err \<Rightarrow>
         if err \<noteq> FAT_ERR_EOF then fail err s1
         else if flags AND FAT_CREATE = 0 then fail FAT_ERR_DENIED s1
         else create_file s1
   }"

definition fat_file_open :: "byte \<Rightarrow> File \<times> cursor \<Rightarrow> unit file_io" where
  "fat_file_open flags s = bind_io (find_or_create flags s) (\<lambda>_ s1. open_at flags s1)"

subsection \<open>Within a sector\<close>

text \<open>The file buffer holds the sector of the offset, and clusters have at most 128 sectors.\<close>

definition file_placed :: "File \<Rightarrow> Fat \<Rightarrow> bool" where
  "file_placed file f \<longleftrightarrow> unat (clust_shift f) \<le> 7 \<and> length (f_buf file) = 512 \<and>
     f_sect file = clust_to_sect f (f_clust file) + ((f_offset file div 512) AND clust_msk f)"

lemma cluster_bytes:
  assumes "k \<le> 7"
  shows "unat (push_bit k 512 :: uint32) = 512 * 2 ^ k"
proof -
  have "k = 0 \<or> k = 1 \<or> k = 2 \<or> k = 3 \<or> k = 4 \<or> k = 5 \<or> k = 6 \<or> k = 7" using assms by auto
  then show ?thesis by (elim disjE) simp_all
qed

lemma cluster_of_sector:
  assumes "a div 512 = b div 512" "k \<le> 7"
  shows "a div push_bit k 512 = b div (push_bit k 512 :: uint32)"
proof -
  note u = cluster_bytes [OF assms(2)]
  have "unat (a div 512) = unat (b div 512)" using assms(1) by simp
  then have "unat a div 512 = unat b div 512" by (simp add: unat_div)
  then have "unat a div (512 * 2 ^ k) = unat b div (512 * 2 ^ k)" by (simp add: div_mult2_eq)
  then show ?thesis by (simp add: word_unat_eq_iff unat_div u)
qed

text \<open>A seek to another offset in the same sector only sets the offset.\<close>

lemma seek_same_sector:
  assumes "f_fat file = Some v" "file_placed file (volumes c v)"
    "0 \<le> seek_base seek file + n" "seek_base seek file + n \<le> 0xffffffff"
    "word_of_int (seek_base seek file + n) div 512 = f_offset file div 512"
  shows "fat_file_seek n seek (file, c) = Some (Inr (), file\<lparr>f_offset := word_of_int (seek_base seek file + n)\<rparr>, c)"
proof -
  let ?f = "volumes c v" and ?off = "word_of_int (seek_base seek file + n) :: uint32"
  have "unat (clust_shift ?f) \<le> 7" using assms(2) by (simp add: file_placed_def)
  from cluster_of_sector [OF assms(5) this]
  have d: "?off div push_bit (unat (clust_shift ?f)) 512 = f_offset file div push_bit (unat (clust_shift ?f)) 512" .
  have "f_sect file = clust_to_sect ?f (f_clust file) + (?off div 512 AND clust_msk ?f)"
    using assms(2,5) by (simp add: file_placed_def)
  then have "file\<lparr>f_sect := clust_to_sect ?f (f_clust file) + (?off div 512 AND clust_msk ?f), f_offset := ?off\<rparr> =
      file\<lparr>f_offset := ?off\<rparr>" by (intro File.equality) simp_all
  then show ?thesis
    using assms(1,3,4) d \<open>f_sect file = _\<close>
    by (simp add: fat_file_seek_def file_vol_def set_file_def Let_def not_less)
qed

text \<open>Staying in the sector of an offset.\<close>

lemma div_of_sum:
  fixes a :: nat
  assumes "a mod 512 + m < 512"
  shows "(a + m) div 512 = a div 512"
proof -
  have "(a + m) div 512 = ((a mod 512 + m) + a div 512 * 512) div 512" by (metis add.assoc add.commute div_mult_mod_eq)
  also have "\<dots> = a div 512" using assms by (subst div_mult_self1) simp_all
  finally show ?thesis .
qed

lemma unat_numeral_512: "unat (512 :: uint32) = 512"
  by simp

lemma offset_in_sector:
  fixes o1 :: uint32
  assumes "unat (o1 mod 512) + m < 512" "uint o1 + int m \<le> 0xffffffff"
  shows "word_of_int (uint o1 + int m) div 512 = o1 div 512" "unat (word_of_int (uint o1 + int m) :: uint32) = unat o1 + m"
proof -
  show u: "unat (word_of_int (uint o1 + int m) :: uint32) = unat o1 + m"
  proof -
    have "0 \<le> uint o1 + int m" "uint o1 + int m < 2 ^ 32" using assms(2) by simp_all
    then have "uint (word_of_int (uint o1 + int m) :: uint32) = uint o1 + int m"
      unfolding uint_word_of_int_eq by (simp add: take_bit_int_eq_self)
    then show ?thesis unfolding unat_eq_nat_uint by (simp add: nat_add_distrib)
  qed
  have "unat o1 mod 512 + m < 512" using assms(1) by (simp add: unat_mod)
  then have "(unat o1 + m) div 512 = unat o1 div 512" by (rule div_of_sum)
  then show "word_of_int (uint o1 + int m) div 512 = o1 div 512"
    by (simp only: word_unat_eq_iff unat_div u unat_numeral_512)
qed

text \<open>Writing and reading \<open>m\<close> bytes that end before the end of the sector.\<close>

lemma write_in_sector:
  assumes "f_fat file = Some v" "file_placed file (volumes c v)" "f_flags file AND FAT_WRITE \<noteq> 0" "src \<noteq> []"
    "unat (f_offset file mod 512) + length src < 512" "uint (f_offset file) + int (length src) \<le> 0xffffffff"
  defines "i \<equiv> unat (f_offset file mod 512)" and "off \<equiv> word_of_int (uint (f_offset file) + int (length src))"
  shows "\<exists>fl. fat_file_write (int (length src)) src (file, c) = Some (Inr (int (length src)),
      file\<lparr>f_buf := take i (f_buf file) @ src @ drop (i + length src) (f_buf file), f_offset := off,
           f_size := max (f_size file) off, f_flags := fl\<rparr>, c) \<and>
    (\<forall>b. b = FAT_READ \<or> b = FAT_WRITE \<longrightarrow> fl AND b = f_flags file AND b)"
proof -
  let ?m = "length src"
  define fl where "fl = (f_flags file OR (FAT_MODIFIED OR FAT_ACCESSED)) OR FAT_FILE_DIRTY"
  let ?b = "take i (f_buf file) @ src @ drop (i + ?m) (f_buf file)"
  let ?file = "file\<lparr>f_buf := ?b, f_flags := fl\<rparr>"
  have len: "length (f_buf file) = 512" using assms(2) by (simp add: file_placed_def)
  have b: "memcpy_bytes (f_buf file) i src (int ?m) = Some ?b"
    using assms(4,5) len by (simp add: memcpy_bytes_def i_def max_def not_le Suc_le_eq)
  have "file_placed ?file (volumes c v)" using assms(2,5) len by (simp add: file_placed_def i_def)
  moreover note offset_in_sector(1) [OF assms(5,6)]
  ultimately have seek: "fat_file_seek (int ?m) FAT_SEEK_CURR (?file, c) = Some (Inr (), ?file\<lparr>f_offset := off\<rparr>, c)"
    using seek_same_sector [of ?file v c FAT_SEEK_CURR "int ?m"] assms(1,6) by (simp add: seek_base_def off_def)
  have "i + ?m < 512" using assms(5) unfolding i_def .
  then have "int ?m < 512 - int i" by linarith
  then have cnt: "(if int ?m < 512 - int i then int ?m else 512 - int i) = int ?m" by (rule if_P)
  have "write_loop (int ?m) src 0 (set_file (\<lambda>file. file\<lparr>f_flags := f_flags file OR (FAT_MODIFIED OR FAT_ACCESSED)\<rparr>) (file, c)) =
      Some (Inr (int ?m), ?file\<lparr>f_offset := off\<rparr>, c)"
    using assms(4) b seek cnt
    by (subst write_loop.simps)
      (simp add: set_file_def Let_def i_def [symmetric] fl_def [symmetric] write_loop.simps [of 0])
  then have "fat_file_write (int ?m) src (file, c) = Some (Inr (int ?m),
      file\<lparr>f_buf := ?b, f_offset := off, f_size := max (f_size file) off, f_flags := fl\<rparr>, c)"
    using assms(1,3) by (simp add: fat_file_write_def set_file_def max_def not_less)
  moreover have "fl AND b = f_flags file AND b" if "b = FAT_READ \<or> b = FAT_WRITE" for b
    using that by (auto simp: fl_def FAT_READ_def FAT_WRITE_def FAT_MODIFIED_def FAT_ACCESSED_def FAT_FILE_DIRTY_def
        bit_eq_iff [where 'a = "8 word"] bit_simps)
  ultimately show ?thesis by blast
qed

lemma read_in_sector:
  assumes "f_fat file = Some v" "file_placed file (volumes c v)" "f_flags file AND FAT_READ \<noteq> 0" "m \<noteq> 0"
    "unat (f_offset file mod 512) + m < 512" "uint (f_offset file) + int m \<le> uint (f_size file)"
  defines "i \<equiv> unat (f_offset file mod 512)" and "off \<equiv> word_of_int (uint (f_offset file) + int m)"
  shows "fat_file_read (int m) (file, c) = Some (Inr (), take m (drop i (f_buf file)),
      file\<lparr>f_offset := off, f_flags := f_flags file OR FAT_ACCESSED\<rparr>, c)"
proof -
  let ?file = "file\<lparr>f_flags := f_flags file OR FAT_ACCESSED\<rparr>"
  have max: "uint (f_offset file) + int m \<le> 0xffffffff"
    using assms(6) uint_bounded [of "f_size file"] by simp
  have "file_placed ?file (volumes c v)" using assms(2) by (simp add: file_placed_def)
  moreover note offset_in_sector(1) [OF assms(5) max]
  ultimately have seek: "fat_file_seek (int m) FAT_SEEK_CURR (?file, c) = Some (Inr (), ?file\<lparr>f_offset := off\<rparr>, c)"
    using seek_same_sector [of ?file v c FAT_SEEK_CURR "int m"] assms(1) max by (simp add: seek_base_def off_def)
  have lt: "f_offset file < f_size file" using assms(4,6) by (simp add: word_less_def)
  have cnt: "read_count (int m) ?file = int m"
  proof -
    let ?lim = "word_of_int (512 - uint (f_offset file mod 512)) :: uint32" and ?rest = "f_size file - f_offset file"
    have i: "uint (f_offset file mod 512) = int i" by (simp add: i_def)
    have "i + m < 512" using assms(5) unfolding i_def .
    then have im: "int i + int m < 512" by linarith
    then have l: "uint ?lim = 512 - int i" unfolding i uint_word_of_int_eq by (simp add: take_bit_int_eq_self)
    have r: "uint ?rest = uint (f_size file) - uint (f_offset file)" using lt by (simp add: uint_sub_if' word_less_def)
    have w: "uint (word_of_int (int m) :: uint32) = int m"
      using im unfolding uint_word_of_int_eq by (simp add: take_bit_int_eq_self)
    define inner where "inner = (if ?lim < ?rest then ?lim else ?rest)"
    have "inner = ?lim \<or> inner = ?rest" by (simp only: inner_def split: if_split) blast
    then have "int m \<le> uint inner" using l r im assms(6) by (elim disjE) (simp_all only:)
    moreover have "(word_of_int (int m) :: uint32) < inner \<longleftrightarrow> int m < uint inner" unfolding word_less_def w ..
    ultimately have "(if (word_of_int (int m) :: uint32) < inner then int m else uint inner) = int m" by auto
    moreover have fo: "f_offset ?file = f_offset file" "f_size ?file = f_size file" by simp_all
    ultimately show ?thesis unfolding read_count_def Let_def fo inner_def by blast
  qed
  have "read_loop (int m) [] (?file, c) = Some (Inr (), take m (drop i (f_buf file)), ?file\<lparr>f_offset := off\<rparr>, c)"
    using assms(4) lt seek cnt
    by (subst read_loop.simps) (simp add: Let_def i_def read_loop.simps [of 0])
  then show ?thesis using assms(1,3) by (simp add: fat_file_read_def set_file_def)
qed

subsection \<open>Along the chain\<close>

text \<open>The current cluster is the one of the offset, on the chain that starts at \<open>f_sclust\<close>.\<close>

definition file_on_chain :: "File \<Rightarrow> Fat \<Rightarrow> uint32 list \<Rightarrow> bool" where
  "file_on_chain file f cs \<longleftrightarrow> fat_chain f cs \<and> f_sclust file = hd cs \<and>
     (let i = unat (f_offset file div push_bit (unat (clust_shift f)) 512)
      in i < length cs \<and> f_clust file = cs ! i)"

text \<open>Transfers of the file's own buffer, on a disk that answers.\<close>

lemma file_write_sector_ok:
  assumes "f_fat file = Some v" "volume_ok (volumes c v)" "s \<noteq> fat_sect (volumes c v)" "length (f_buf file) = 512"
  shows "\<exists>g. file_write_sector s (file, c) = Some (Inr (), file, set_vol v g c) \<and> volume_ok g \<and>
    same_volume (volumes c v) g \<and> fat_sect g = fat_sect (volumes c v) \<and> dirty g = dirty (volumes c v) \<and>
    blocks (ops g) = (blocks (ops (volumes c v)))(s := f_buf file)"
proof -
  let ?f = "volumes c v"
  let ?g = "?f\<lparr>ops := (ops ?f)\<lparr>faults := (\<lambda>n. faults (ops ?f) (Suc n)), blocks := (blocks (ops ?f))(s := f_buf file)\<rparr>\<rparr>"
  have nf: "faults (ops ?f) n = None" for n using assms(2) by (simp add: volume_ok_def no_faults_def)
  have sv: "same_volume ?f ?g" by (simp add: same_volume_def)
  have d: "dirty ?g = dirty ?f" by (simp add: dirty_def)
  have "volume_ok ?g"
    using assms(2-4) d layout_ok_same [OF sv] by (simp add: volume_ok_def cache_ok_def no_faults_def)
  moreover have "file_write_sector s (file, c) = Some (Inr (), file, set_vol v ?g c)"
    using assms(1) nf by (simp add: file_write_sector_def file_vol_io_def on_cursor_def at_vol_def disk_write_def Let_def)
  ultimately show ?thesis using sv d by (intro exI [of _ ?g]) simp
qed

lemma file_read_sector_ok:
  assumes "f_fat file = Some v" "volume_ok (volumes c v)"
  shows "\<exists>g. file_read_sector s (file, c) = Some (Inr (), file\<lparr>f_buf := blocks (ops (volumes c v)) s\<rparr>, set_vol v g c) \<and>
    volume_ok g \<and> same_volume (volumes c v) g \<and> fat_sect g = fat_sect (volumes c v) \<and> dirty g = dirty (volumes c v) \<and>
    blocks (ops g) = blocks (ops (volumes c v))"
proof -
  let ?f = "volumes c v"
  let ?g = "?f\<lparr>ops := (ops ?f)\<lparr>faults := (\<lambda>n. faults (ops ?f) (Suc n))\<rparr>\<rparr>"
  have nf: "faults (ops ?f) n = None" for n using assms(2) by (simp add: volume_ok_def no_faults_def)
  have sv: "same_volume ?f ?g" by (simp add: same_volume_def)
  have d: "dirty ?g = dirty ?f" by (simp add: dirty_def)
  have "volume_ok ?g" using assms(2) d layout_ok_same [OF sv] by (simp add: volume_ok_def cache_ok_def no_faults_def)
  moreover have "file_read_sector s (file, c) = Some (Inr (), file\<lparr>f_buf := blocks (ops ?f) s\<rparr>, set_vol v ?g c)"
    using assms(1) nf
    by (simp add: file_read_sector_def file_vol_io_def on_cursor_def at_vol_def disk_read_def Let_def set_file_def)
  ultimately show ?thesis using sv d by (intro exI [of _ ?g]) simp
qed

text \<open>Looking an entry up with a clean cache leaves it clean, holding a sector of the table.\<close>

lemma get_fat_clean:
  assumes "volume_ok f" "\<not> dirty f" "c < clust_cnt f"
  shows "\<exists>g. get_fat c f = (case entry_flags (clust_cnt f) (fat_entry f c) of
      None \<Rightarrow> Inl FAT_ERR_BROKEN | Some v \<Rightarrow> Inr (fat_entry f c, v), g) \<and> unchanged f g \<and> \<not> dirty g \<and>
      fat_sect g \<in> table_sectors f"
proof -
  from get_fat_ok [OF assms(1,3)] obtain g where
    g: "get_fat c f = (case entry_flags (clust_cnt f) (fat_entry f c) of
      None \<Rightarrow> Inl FAT_ERR_BROKEN | Some v \<Rightarrow> Inr (fat_entry f c, v), g)" "unchanged f g" by blast
  from update_buf_ok [OF assms(1) table_sector(1) [OF assms(1,3)]] obtain h where
    h: "update_buf (fat_sect0 f + c div 128) f = (Inr (), h)" "fat_sect h = fat_sect0 f + c div 128" by blast
  have "snd (get_fat c f) = h" using h(1) by (simp add: get_fat_def Let_def split: option.split)
  then have "h = g" using g(1) by simp
  moreover have "\<not> dirty h"
    using h(1) assms(2)
    by (auto simp: update_buf_def sync_buf_def dirty_def disk_read_def Let_def split: if_splits option.splits)
  moreover have "fat_sect h \<in> table_sectors f" using h(2) assms(3) by (auto simp: table_sectors_def)
  ultimately show ?thesis using g by blast
qed

lemma follow_clusters_ok:
  assumes "f_fat fi = Some v" "volume_ok (volumes c v)" "\<not> dirty (volumes c v)" "fat_chain (volumes c v) cs"
    "f_clust fi = cs ! i" "i + n < length cs"
  shows "\<exists>g. follow_clusters n (fi, c) = Some (Inr (), fi\<lparr>f_clust := cs ! (i + n)\<rparr>, set_vol v g c) \<and>
    unchanged (volumes c v) g \<and> \<not> dirty g \<and>
    (fat_sect g = fat_sect (volumes c v) \<or> fat_sect g \<in> table_sectors (volumes c v))"
  using assms
proof (induction n arbitrary: i fi c)
  case 0
  then have "unchanged (volumes c v) (volumes c v)" "fi\<lparr>f_clust := cs ! i\<rparr> = fi" by (simp_all add: unchanged_def)
  then show ?case using 0 by (intro exI [of _ "volumes c v"]) simp
next
  case (Suc n)
  let ?f = "volumes c v"
  have split: "cs = take i cs @ cs ! i # cs ! (i + 1) # drop (i + 2) cs"
    using Suc.prems(6) by (simp add: Cons_nth_drop_Suc)
  have "fat_chain ?f (cs ! i # cs ! (i + 1) # drop (i + 2) cs)"
    by (rule fat_chain_suffix [of _ "take i cs"]) (use Suc.prems(4) split in simp)
  then have e: "cs ! i < clust_cnt ?f" "fat_entry ?f (cs ! i) = cs ! (i + 1)"
    "entry_flags (clust_cnt ?f) (cs ! (i + 1)) = Some CLUST_USED" by simp_all
  from get_fat_clean [OF Suc.prems(2,3) e(1), unfolded e(2,3)] obtain g where
    g: "get_fat (cs ! i) ?f = (Inr (cs ! (i + 1), CLUST_USED), g)" "unchanged ?f g" "\<not> dirty g"
      "fat_sect g \<in> table_sectors ?f" by auto
  let ?fi = "fi\<lparr>f_clust := cs ! (i + 1)\<rparr>" and ?c = "set_vol v g c"
  have ok: "volume_ok g" "layout_ok ?f" "same_volume ?f g" using g(2) Suc.prems(2) by (simp_all add: unchanged_def volume_ok_def)
  have chain: "fat_chain g cs"
  proof -
    have "fat_chain g cs = fat_chain ?f cs"
    proof (rule fat_chain_cong)
      show "fat_entry g d = fat_entry ?f d" if "d \<in> set cs" for d
        by (rule unchanged_entry [OF g(2) ok(2) fat_chain_lt [OF Suc.prems(4) that]])
    qed (use ok(3) in \<open>simp add: same_volume_def\<close>)
    then show ?thesis using Suc.prems(4) by simp
  qed
  have "\<exists>h. follow_clusters n (?fi, ?c) = Some (Inr (), ?fi\<lparr>f_clust := cs ! (i + 1 + n)\<rparr>, set_vol v h ?c) \<and>
    unchanged (volumes ?c v) h \<and> \<not> dirty h \<and> (fat_sect h = fat_sect (volumes ?c v) \<or> fat_sect h \<in> table_sectors (volumes ?c v))"
    by (rule Suc.IH) (use Suc.prems ok chain g(3) in simp_all)
  note IH = this
  have idx: "i + Suc n = i + 1 + n" by simp
  obtain h where
    h: "follow_clusters n (?fi, ?c) = Some (Inr (), fi\<lparr>f_clust := cs ! (i + 1 + n)\<rparr>, set_vol v h c)"
      "unchanged g h" "\<not> dirty h" "fat_sect h = fat_sect g \<or> fat_sect h \<in> table_sectors g" using IH by auto
  have "table_sectors g = table_sectors ?f" using ok(3) by (simp add: table_sectors_def same_volume_def)
  moreover have "unchanged ?f h" using g(2) h(2) same_volume_trans by (auto simp: unchanged_def)
  moreover have "follow_clusters (Suc n) (fi, c) = follow_clusters n (?fi, ?c)"
    using Suc.prems(1,5) g(1)
    by (simp add: file_vol_io_def on_cursor_def at_vol_def set_file_def entry_flags_simps)
  then have "follow_clusters (Suc n) (fi, c) = Some (Inr (), fi\<lparr>f_clust := cs ! (i + Suc n)\<rparr>, set_vol v h c)"
    using h(1) unfolding idx by simp
  moreover have "fat_sect h = fat_sect ?f \<or> fat_sect h \<in> table_sectors ?f"
    using h(4) g(4) \<open>table_sectors g = table_sectors ?f\<close> by auto
  ultimately show ?case using h(3) by blast
qed

text \<open>The number of clusters to follow, from where the offset is or, going back, from the start.\<close>

lemma and_not_clear:
  fixes x :: byte
  assumes "x AND m = 0"
  shows "x AND NOT m = x"
proof (rule bit_word_eqI)
  fix n assume "n < LENGTH(8)"
  moreover have "\<not> bit (x AND m) n" using assms by simp
  ultimately show "bit (x AND NOT m) n = bit x n" by (auto simp: bit_simps)
qed

lemma file_seek_ok:
  assumes vol: "f_fat fi = Some v" "volume_ok (volumes c v)" "\<not> dirty (volumes c v)"
    and chain: "file_on_chain fi (volumes c v) cs"
    and buf: "length (f_buf fi) = 512"
      "f_flags fi AND FAT_FILE_DIRTY \<noteq> 0 \<Longrightarrow> f_sect fi \<noteq> 0 \<and> f_sect fi \<noteq> fat_sect (volumes c v) \<and>
         f_sect fi \<notin> table_sectors (volumes c v)"
    and range: "0 \<le> seek_base seek fi + n" "seek_base seek fi + n \<le> 0xffffffff"
  defines "off \<equiv> word_of_int (seek_base seek fi + n) :: uint32"
  assumes dst: "unat (off div push_bit (unat (clust_shift (volumes c v))) 512) < length cs"
  defines "cl \<equiv> cs ! unat (off div push_bit (unat (clust_shift (volumes c v))) 512)"
  defines "s \<equiv> clust_to_sect (volumes c v) cl + ((off div 512) AND clust_msk (volumes c v))"
  shows "\<exists>g. fat_file_seek n seek (fi, c) = Some (Inr (),
      (if s = f_sect fi then fi\<lparr>f_clust := cl, f_sect := s, f_offset := off\<rparr>
       else fi\<lparr>f_clust := cl, f_sect := s, f_offset := off, f_flags := f_flags fi AND NOT FAT_FILE_DIRTY,
               f_buf := blocks (ops g) s\<rparr>), set_vol v g c) \<and>
    same_volume (volumes c v) g \<and> volume_ok g \<and> \<not> dirty g \<and>
    (\<forall>t. t \<noteq> 0 \<longrightarrow> blocks (ops g) t =
       (if f_flags fi AND FAT_FILE_DIRTY \<noteq> 0 \<and> s \<noteq> f_sect fi \<and> t = f_sect fi then f_buf fi
        else blocks (ops (volumes c v)) t))"
proof -
  let ?f = "volumes c v" and ?k = "push_bit (unat (clust_shift (volumes c v))) 512 :: uint32"
  let ?src = "f_offset fi div ?k" and ?dst = "off div ?k"
  define rewind where "rewind = (?dst < ?src)"
  define fi1 where "fi1 = (if rewind then fi\<lparr>f_clust := f_sclust fi, f_sect := clust_to_sect ?f (f_sclust fi), f_offset := 0\<rparr> else fi)"
  define i where "i = (if rewind then 0 else unat ?src)"
  have ch: "fat_chain ?f cs" "f_sclust fi = hd cs" "unat ?src < length cs" "f_clust fi = cs ! unat ?src" "cs \<noteq> []"
    using chain by (auto simp: file_on_chain_def Let_def)
  have n: "i + unat (?dst - (if rewind then 0 else ?src)) = unat ?dst"
  proof (cases rewind)
    case False
    then have "?src \<le> ?dst" by (simp add: rewind_def not_less)
    then show ?thesis using False by (simp add: i_def unat_sub word_le_nat_alt)
  qed (simp add: i_def)
  have "\<exists>h. follow_clusters (unat (?dst - (if rewind then 0 else ?src))) (fi1, c) =
      Some (Inr (), fi1\<lparr>f_clust := cs ! (i + unat (?dst - (if rewind then 0 else ?src)))\<rparr>, set_vol v h c) \<and>
    unchanged ?f h \<and> \<not> dirty h \<and> (fat_sect h = fat_sect ?f \<or> fat_sect h \<in> table_sectors ?f)"
    by (rule follow_clusters_ok) (use vol ch dst n in \<open>auto simp: fi1_def i_def hd_conv_nth\<close>)
  then obtain h where
    h: "follow_clusters (unat (?dst - (if rewind then 0 else ?src))) (fi1, c) = Some (Inr (), fi1\<lparr>f_clust := cl\<rparr>, set_vol v h c)"
      "unchanged ?f h" "\<not> dirty h" "fat_sect h = fat_sect ?f \<or> fat_sect h \<in> table_sectors ?f"
    unfolding n cl_def by blast
  have sv: "same_volume ?f h" and vh: "volume_ok h" using h(2) by (simp_all add: unchanged_def)
  have bl: "blocks (ops h) t = blocks (ops ?f) t" if "t \<noteq> 0" for t
    using clean_blocks [of h t] clean_blocks [of ?f t] h(2,3) vol(2,3) that by (simp add: unchanged_def volume_ok_def)
  define fi3 where "fi3 = fi\<lparr>f_clust := cl, f_sect := s, f_offset := off\<rparr>"
  have f1: "f_fat fi1 = Some v" using vol(1) by (simp add: fi1_def)
  have s3: "fi1\<lparr>f_clust := cl, f_sect := s, f_offset := off\<rparr> = fi3" by (simp add: fi1_def fi3_def)
  have cs: "clust_to_sect h cl = clust_to_sect ?f cl" "clust_msk h = clust_msk ?f"
    using sv by (simp_all add: same_volume_def clust_to_sect_def)
  have seek: "fat_file_seek n seek (fi, c) =
    (if s = f_sect fi then ret () (fi3, set_vol v h c)
     else bind_io (if f_flags fi3 AND FAT_FILE_DIRTY \<noteq> 0
                   then bind_io (file_write_sector (f_sect fi) (fi3, set_vol v h c)) (\<lambda>_ s4.
                     ret () (set_file (\<lambda>fi. fi\<lparr>f_flags := f_flags fi AND NOT FAT_FILE_DIRTY\<rparr>) s4))
                   else ret () (fi3, set_vol v h c))
            (\<lambda>_ s5. file_read_sector (f_sect (fst s5)) s5))"
  proof -
    have "(if ?dst < ?src then set_file (\<lambda>file. file\<lparr>f_clust := f_sclust file,
        f_sect := clust_to_sect ?f (f_sclust file), f_offset := 0\<rparr>) (fi, c) else (fi, c)) = (fi1, c)"
      by (simp add: set_file_def fi1_def rewind_def)
    moreover have "file_vol (fi, c) = ?f" "file_vol (fi1\<lparr>f_clust := cl\<rparr>, set_vol v h c) = h"
      using vol(1) f1 by (simp_all add: file_vol_def)
    moreover have "set_file (\<lambda>file. file\<lparr>f_sect := clust_to_sect h (f_clust file) + ((off div 512) AND clust_msk h),
        f_offset := off\<rparr>) (fi1\<lparr>f_clust := cl\<rparr>, set_vol v h c) = (fi3, set_vol v h c)"
      by (simp add: set_file_def cs s3 s_def [symmetric])
    moreover have "f_sect fi3 = s" by (simp add: fi3_def)
    ultimately show ?thesis
      using vol(1) range h(1) unfolding fat_file_seek_def Let_def fst_conv off_def [symmetric] rewind_def
      by (simp only: not_less [symmetric] simp_thms if_False option.distinct bind_io_simps fst_conv)
  qed
  have fi3: "f_fat fi3 = Some v" "f_sect fi3 = s" "f_flags fi3 = f_flags fi" "f_buf fi3 = f_buf fi"
    using vol(1) by (simp_all add: fi3_def)
  consider "s = f_sect fi" | "s \<noteq> f_sect fi" "f_flags fi AND FAT_FILE_DIRTY = 0"
    | "s \<noteq> f_sect fi" "f_flags fi AND FAT_FILE_DIRTY \<noteq> 0" by blast
  then show ?thesis
  proof cases
    case 1
    then show ?thesis using seek sv vh h(3) bl by (intro exI [of _ h]) (simp add: fi3_def)
  next
    case 2
    have "volume_ok (volumes (set_vol v h c) v)" using vh by simp
    from file_read_sector_ok [OF fi3(1) this, of s] obtain g where
      g: "file_read_sector s (fi3, set_vol v h c) = Some (Inr (), fi3\<lparr>f_buf := blocks (ops h) s\<rparr>, set_vol v g c)"
        "volume_ok g" "same_volume h g" "dirty g = dirty h" "blocks (ops g) = blocks (ops h)" by auto
    moreover have "same_volume ?f g" using sv g(3) by (rule same_volume_trans)
    moreover have "f_flags fi AND NOT FAT_FILE_DIRTY = f_flags fi" using 2(2) by (rule and_not_clear)
    ultimately show ?thesis
      using 2 seek h(3) bl by (intro exI [of _ g]) (simp add: fi3 fi3_def)
  next
    case 3
    let ?c = "set_vol v h c" and ?fi4 = "fi3\<lparr>f_flags := f_flags fi AND NOT FAT_FILE_DIRTY\<rparr>"
    have vc: "volumes ?c v = h" by simp
    have "f_sect fi \<noteq> fat_sect h" using buf(2) [OF 3(2)] h(4) by auto
    from file_write_sector_ok [OF fi3(1), of ?c, unfolded vc, OF vh this] buf(1) obtain w where
      w: "file_write_sector (f_sect fi) (fi3, ?c) = Some (Inr (), fi3, set_vol v w c)" "volume_ok w"
        "same_volume h w" "dirty w = dirty h" "blocks (ops w) = (blocks (ops h))(f_sect fi := f_buf fi)"
      by (auto simp: fi3(4))
    have vw: "volumes (set_vol v w c) v = w" "f_fat ?fi4 = Some v" using fi3(1) by simp_all
    from file_read_sector_ok [OF vw(2), of "set_vol v w c", unfolded vw(1), OF w(2), of s] obtain g where
      g: "file_read_sector s (?fi4, set_vol v w c) = Some (Inr (), ?fi4\<lparr>f_buf := blocks (ops w) s\<rparr>, set_vol v g c)"
        "volume_ok g" "same_volume w g" "dirty g = dirty w" "blocks (ops g) = blocks (ops w)" by auto
    have "same_volume ?f g" using same_volume_trans [OF sv same_volume_trans [OF w(3) g(3)]] .
    moreover have "fat_file_seek n seek (fi, c) = Some (Inr (), ?fi4\<lparr>f_buf := blocks (ops g) s\<rparr>, set_vol v g c)"
      using 3 seek w(1) g(1,5) by (simp add: fi3 set_file_def)
    ultimately show ?thesis
      using 3 g w h(3) bl by (intro exI [of _ g]) (simp add: fi3_def)
  qed
qed

end
