(* ===== verification/Filesystem.thy ===== *)
theory Filesystem
  imports Fat_File CString
begin

text \<open>
  Probing, mounting and unmounting a volume (\<^verbatim>\<open>libs/fat32/fat.c\<close>), and the functions of
  \<^verbatim>\<open>libs/filesystem.c\<close> that put the mount point in front of a path. The disk a volume is mounted
  on becomes its \<open>ops\<close>. Fields of the boot sectors are read at their offsets in \<^verbatim>\<open>Mbr\<close>, \<^verbatim>\<open>Bpb\<close> and
  \<^verbatim>\<open>FsInfo\<close>.
\<close>

subsection \<open>Probing\<close>

definition FSINFO_HEAD_SIG :: uint32 where "FSINFO_HEAD_SIG = 0x41615252"
definition FSINFO_STRUCT_SIG :: uint32 where "FSINFO_STRUCT_SIG = 0x61417272"
definition FSINFO_TAIL_SIG :: uint32 where "FSINFO_TAIL_SIG = 0xaa550000"
definition EXT_FLAG_MIRROR :: uint16 where "EXT_FLAG_MIRROR = 0x80"
definition EXT_FLAG_ACT :: uint16 where "EXT_FLAG_ACT = 0x000f"
definition EXT_FLAG_SECOND :: uint16 where "EXT_FLAG_SECOND = 0x0001"

definition bpb_bytes_per_sect :: "byte list \<Rightarrow> uint16" where "bpb_bytes_per_sect b = get16 b 11"
definition bpb_sect_per_clust :: "byte list \<Rightarrow> byte" where "bpb_sect_per_clust b = b ! 13"
definition bpb_res_sect_cnt :: "byte list \<Rightarrow> uint16" where "bpb_res_sect_cnt b = get16 b 14"
definition bpb_fat_cnt :: "byte list \<Rightarrow> byte" where "bpb_fat_cnt b = b ! 16"
definition bpb_root_ent_cnt :: "byte list \<Rightarrow> uint16" where "bpb_root_ent_cnt b = get16 b 17"
definition bpb_sect_cnt_16 :: "byte list \<Rightarrow> uint16" where "bpb_sect_cnt_16 b = get16 b 19"
definition bpb_sect_per_fat_16 :: "byte list \<Rightarrow> uint16" where "bpb_sect_per_fat_16 b = get16 b 22"
definition bpb_sect_cnt_32 :: "byte list \<Rightarrow> uint32" where "bpb_sect_cnt_32 b = get32 b 32"
definition bpb_sect_per_fat_32 :: "byte list \<Rightarrow> uint32" where "bpb_sect_per_fat_32 b = get32 b 36"
definition bpb_ext_flags :: "byte list \<Rightarrow> uint16" where "bpb_ext_flags b = get16 b 40"
definition bpb_root_cluster :: "byte list \<Rightarrow> uint32" where "bpb_root_cluster b = get32 b 44"
definition bpb_info_sect :: "byte list \<Rightarrow> uint16" where "bpb_info_sect b = get16 b 48"
definition bpb_fs_type :: "byte list \<Rightarrow> byte list" where "bpb_fs_type b = take 8 (drop 82 b)"

text \<open>\<open>None\<close> is an index outside the partition table, or a division by zero.\<close>

definition get_part_lba :: "byte list \<Rightarrow> int \<Rightarrow> uint32 option option" where
  "get_part_lba b part_no =
     (if get16 b 510 \<noteq> 0xaa55 then Some None
      else if part_no < 0 \<or> part_no > 3 then None
      else
        let p = 446 + 16 * nat part_no
        in if b ! (p + 4) \<noteq> 0x0c then Some None else Some (Some (get32 b (p + 8))))"

definition check_fat :: "byte list \<Rightarrow> bool option" where
  "check_fat b =
     (if b ! 0 \<noteq> 0xeb \<and> b ! 0 \<noteq> 0xe9 then Some False
      else if bpb_fat_cnt b \<noteq> 2 then Some False
      else if bpb_root_ent_cnt b \<noteq> 0 \<or> bpb_sect_cnt_16 b \<noteq> 0 \<or> bpb_sect_per_fat_16 b \<noteq> 0 then Some False
      else if bpb_info_sect b \<noteq> 1 then Some False
      else if bpb_fs_type b \<noteq> map char_byte ''FAT32   '' then Some False
      else if bpb_bytes_per_sect b \<noteq> 512 then Some False
      else if bpb_ext_flags b AND EXT_FLAG_MIRROR = 0 \<and> bpb_ext_flags b AND EXT_FLAG_ACT > 1 then Some False
      else if bpb_sect_per_clust b = 0 then None
      else
        let sect_cnt = bpb_sect_cnt_32 b -
              (ucast (bpb_res_sect_cnt b) + ucast (bpb_fat_cnt b) * bpb_sect_per_fat_32 b)
        in Some (sect_cnt div ucast (bpb_sect_per_clust b) \<ge> 65525))"

text \<open>The state is the disk and \<open>g_buf\<close>; the value is the first sector of the volume.\<close>

definition probe :: "int \<Rightarrow> disk \<times> byte list \<Rightarrow> (uint32, disk \<times> byte list) io" where
  "probe part_no s =
     (let (ok, b, d) = disk_read 0 (fst s)
      in if \<not> ok then fail FAT_ERR_IO (d, b)
         else do {
           whole \<leftarrow> check_fat b;
           if whole then (if part_no = 0 then ret 0 (d, b) else fail FAT_ERR_NOFAT (d, b))
           else do {
             part \<leftarrow> get_part_lba b part_no;
             case part of
               None \<Rightarrow> fail FAT_ERR_NOFAT (d, b)
             | Some lba \<Rightarrow>
                 let (ok, b2, d2) = disk_read lba d
                 in if \<not> ok then fail FAT_ERR_IO (d2, b2)
                    else do { c \<leftarrow> check_fat b2; if c then ret lba (d2, b2) else fail FAT_ERR_NOFAT (d2, b2) }
           }
         })"

definition fat_probe :: "int \<Rightarrow> disk \<times> byte list \<Rightarrow> (unit, disk \<times> byte list) io" where
  "fat_probe part_no s = bind_io (do { (r, t) \<leftarrow> probe part_no s; Some (map_sum id (\<lambda>_. ()) r, t) }) ret"

subsection \<open>Mounting\<close>

fun ctz :: "nat \<Rightarrow> nat" where
  "ctz n = (if n = 0 \<or> odd n then 0 else Suc (ctz (n div 2)))"

declare ctz.simps [simp del]

text \<open>The geometry, from the boot sector.\<close>

definition set_geometry :: "uint32 \<Rightarrow> byte list \<Rightarrow> Fat \<Rightarrow> Fat" where
  "set_geometry lba b f =
     (let mirror = bpb_ext_flags b AND EXT_FLAG_MIRROR \<noteq> 0;
          use_first = bpb_ext_flags b AND EXT_FLAG_SECOND = 0;
          fat_0 = lba + ucast (bpb_res_sect_cnt b);
          fat_1 = lba + ucast (bpb_res_sect_cnt b) + bpb_sect_per_fat_32 b
      in f\<lparr>clust_shift := of_nat (ctz (unat (bpb_sect_per_clust b))),
           clust_msk := ucast (bpb_sect_per_clust b) - 1,
           clust_cnt := bpb_sect_per_fat_32 b * 128,
           root_clust := bpb_root_cluster b,
           fat_sect0 := (if use_first then fat_0 else fat_1),
           fat_sect1 := (if mirror then if use_first then fat_1 else fat_0 else 0),
           info_sect := lba + ucast (bpb_info_sect b),
           data_sect := lba + ucast (bpb_res_sect_cnt b) + ucast (bpb_fat_cnt b) * bpb_sect_per_fat_32 b\<rparr>)"

definition fsinfo_valid :: "byte list \<Rightarrow> bool" where
  "fsinfo_valid b \<longleftrightarrow> get32 b 508 = FSINFO_TAIL_SIG \<and> get32 b 0 = FSINFO_HEAD_SIG \<and>
     get32 b 484 = FSINFO_STRUCT_SIG \<and> get32 b FSINFO_NEXT_FREE \<noteq> 0xffffffff \<and>
     get32 b FSINFO_FREE_CNT \<noteq> 0xffffffff"

text \<open>Mounting the object at address \<open>v\<close>. Mounting it again would make the list cyclic: \<open>None\<close>.\<close>

definition fat_mount :: "int \<Rightarrow> nat \<Rightarrow> char list \<Rightarrow> disk \<times> cursor \<Rightarrow> (unit, disk \<times> cursor) io" where
  "fat_mount part_no v name s = do {
     let c = snd s;
     (r, d, b) \<leftarrow> probe part_no (fst s, g_buf c);
     case r of
       Inl err \<Rightarrow> fail err (d, c\<lparr>g_buf := b\<rparr>)
     | Inr lba \<Rightarrow>
         let f = set_geometry lba b (volumes c v);
             (ok, b2, d2) = disk_read (info_sect f) d;
             c1 = c\<lparr>volumes := (volumes c)(v := f), g_buf := b2\<rparr>
         in if \<not> ok then fail FAT_ERR_IO (d2, c1)
            else if \<not> fsinfo_valid b2 then fail FAT_ERR_NOFAT (d2, c1)
            else
              let f1 = f\<lparr>last_used := get32 b2 FSINFO_NEXT_FREE, free_cnt := get32 b2 FSINFO_FREE_CNT\<rparr>
              in if length name > 32 then fail FAT_ERR_PARAM (d2, c1\<lparr>volumes := (volumes c1)(v := f1)\<rparr>)
                 else if v \<in> set (g_fat_list c1) then None
                 else
                   let f2 = f1\<lparr>fat_name := name, ops := d2, fat_sect := 0\<rparr>
                   in ret () (d2, c1\<lparr>volumes := (volumes c1)(v := f2), g_fat_list := v # g_fat_list c1\<rparr>)
   }"

definition fat_umount :: "nat \<Rightarrow> cursor \<Rightarrow> (unit, cursor) io" where
  "fat_umount v c =
     (if v \<notin> set (g_fat_list c) then fail FAT_ERR_PARAM c
      else at_vol (Some v) (\<lambda>f. Some (sync_fs f)) (c\<lparr>g_fat_list := remove1 v (g_fat_list c)\<rparr>))"

definition fat_sync :: "nat \<Rightarrow> cursor \<Rightarrow> (unit, cursor) io" where
  "fat_sync v c = at_vol (Some v) (\<lambda>f. Some (sync_fs f)) c"

definition fat_get_error :: "int \<Rightarrow> char list" where
  "fat_get_error err =
     (let strs = [''FAT_ERR_NONE'', ''FAT_ERR_NOFAT'', ''FAT_ERR_BROKEN'', ''FAT_ERR_IO'', ''FAT_ERR_PARAM'',
                  ''FAT_ERR_PATH'', ''FAT_ERR_EOF'', ''FAT_ERR_DENIED'', ''FAT_ERR_FULL'']
      in if - err < 0 \<or> - err \<ge> int (length strs) then ''NULL'' else strs ! nat (- err))"

subsection \<open>The file system of the kernel\<close>

definition SD_OK :: int where "SD_OK = 0"
definition SD_FILESYSTEM_INIT_OK :: int where "SD_FILESYSTEM_INIT_OK = 0"
definition SD_FILESYSTEM_INIT_ERROR :: int where "SD_FILESYSTEM_INIT_ERROR = 1"

text \<open>The address of \<^verbatim>\<open>g_fat\<close>.\<close>

definition g_fat :: nat where "g_fat = 0"

definition sd_filesystem_init :: "int \<Rightarrow> disk \<times> cursor \<Rightarrow> (int \<times> disk \<times> cursor) option" where
  "sd_filesystem_init sd_result s =
     (if sd_result \<noteq> SD_OK then Some (SD_FILESYSTEM_INIT_ERROR, s)
      else do {
        (r, d, b) \<leftarrow> fat_probe 0 (fst s, g_buf (snd s));
        let s1 = (d, (snd s)\<lparr>g_buf := b\<rparr>);
        case r of
          Inl err \<Rightarrow> Some (SD_FILESYSTEM_INIT_ERROR, s1)
        | Inr _ \<Rightarrow> do {
            (r2, s2) \<leftarrow> fat_mount 0 g_fat ''mnt'' s1;
            Some (case r2 of Inl err \<Rightarrow> SD_FILESYSTEM_INIT_ERROR | Inr _ \<Rightarrow> SD_FILESYSTEM_INIT_OK, s2)
          }
      })"

definition FAT_MAX_PATH_SIZE :: nat where "FAT_MAX_PATH_SIZE = 128"

text \<open>The local array \<^verbatim>\<open>complete_path\<close>, from what it held before: the inner \<open>None\<close> is a path that is too
  long, the outer one an access outside an array.\<close>

definition complete_path :: "char list \<Rightarrow> char list \<Rightarrow> char list option option" where
  "complete_path junk p = do {
     b \<leftarrow> strcpy junk (''/mnt/'' @ [NUL]);
     n \<leftarrow> strlen b;
     m \<leftarrow> strlen p;
     if n + m \<ge> FAT_MAX_PATH_SIZE then Some None
     else do { b' \<leftarrow> strcat b p; Some (Some b') }
   }"

text \<open>The three functions return the error code of the library, or -1.\<close>

definition with_path :: "char list \<Rightarrow> char list \<Rightarrow> (cursor \<Rightarrow> ('a, 's) io) \<Rightarrow> (cursor \<Rightarrow> 's) \<Rightarrow> cursor \<Rightarrow> (int \<times> 's) option" where
  "with_path junk p m same c = do {
     full \<leftarrow> complete_path junk p;
     case full of
       None \<Rightarrow> Some (-1, same c)
     | Some b \<Rightarrow> do {
         (r, s) \<leftarrow> m (c\<lparr>path := c_string b\<rparr>);
         Some (case r of Inl err \<Rightarrow> err | Inr _ \<Rightarrow> 0, s)
       }
   }"

definition create_dir :: "char list \<Rightarrow> char list \<Rightarrow> cursor \<Rightarrow> (int \<times> cursor) option" where
  "create_dir junk dir_path c = with_path junk dir_path fat_dir_create id c"

definition open_dir :: "char list \<Rightarrow> char list \<Rightarrow> cursor \<Rightarrow> (int \<times> cursor) option" where
  "open_dir junk dir_path c = with_path junk dir_path fat_dir_open id c"

definition open_file :: "char list \<Rightarrow> char list \<Rightarrow> byte \<Rightarrow> File \<times> cursor \<Rightarrow> (int \<times> File \<times> cursor) option" where
  "open_file junk file_path flags s =
     with_path junk file_path (\<lambda>c. fat_file_open flags (fst s, c)) (\<lambda>c. (fst s, c)) (snd s)"

end
