(* ===== verification/Fat_Properties.thy ===== *)
theory Fat_Properties
  imports Filesystem
begin

text \<open>
  The properties of the FAT32 library and of the kernel's file functions, with a sample volume of
  eight clusters at which they are instantiated.
\<close>

subsection \<open>A sample volume\<close>

text \<open>The sector that holds the entries \<open>e\<close>.\<close>

definition table_block :: "(nat \<Rightarrow> uint32) \<Rightarrow> byte list" where
  "table_block e = map (\<lambda>j. ucast (drop_bit (8 * (j mod 4)) (e (j div 4)))) [0..<512]"

lemma length_table_block [simp]: "length (table_block e) = 512"
  by (simp add: table_block_def)

lemma get32_table_block:
  assumes "i < 128"
  shows "get32 (table_block e) (4 * i) = e i"
proof (rule bit_word_eqI)
  have "(4 * i + k) div 4 = i" "(4 * i + k) mod 4 = k" if "k < 4" for k using that by auto
  from this [of 0] this [of 1] this [of 2] this [of 3]
  have b: "table_block e ! (4 * i) = ucast (e i)" "table_block e ! (4 * i + 1) = ucast (drop_bit 8 (e i))"
    "table_block e ! (4 * i + 2) = ucast (drop_bit 16 (e i))" "table_block e ! (4 * i + 3) = ucast (drop_bit 24 (e i))"
    using assms by (simp_all add: table_block_def)
  fix n assume n: "n < LENGTH(32)"
  consider "n < 8" | "8 \<le> n" "n < 16" | "16 \<le> n" "n < 24" | "24 \<le> n" by linarith
  then show "bit (get32 (table_block e) (4 * i)) n = bit (e i) n"
    using n by cases (auto simp: get32_def b [simplified] bit_simps)
qed

definition sample_entries :: "nat \<Rightarrow> uint32" where
  "sample_entries i = ([0x0ffffff8, 0x0fffffff, 0x0fffffff, 4, 0x0fffffff] @ replicate 123 0) ! i"

definition sample_fat :: Fat where
  "sample_fat =
     \<lparr>ops = \<lparr>blocks = (\<lambda>s. if s = 32 \<or> s = 40 then table_block sample_entries else replicate 512 0), faults = (\<lambda>_. None)\<rparr>,
      clust_msk = 0, clust_cnt = 8, info_sect = 1, fat_sect0 = 32, fat_sect1 = 40, data_sect = 64, root_clust = 2,
      last_used = 4, free_cnt = 3, fat_sect = 0, fat_buf = replicate 512 0, fat_flags = 0, clust_shift = 0,
      fat_name = ''mnt''\<rparr>"

lemma small_cluster:
  assumes "c < 8"
  shows "c div 128 = 0" "fat_index c = 4 * unat c" "c \<in> {0, 1, 2, 3, 4, 5, 6, 7 :: uint32}"
proof -
  have u: "unat c < 8" using assms by (simp add: word_less_nat_alt)
  have "unat (c div 128) = 0" using u by (simp add: unat_div)
  then show "c div 128 = 0" by (simp add: word_unat_eq_iff)
  have "unat (c mod 128) = unat c" using u by (simp add: unat_mod)
  then show "fat_index c = 4 * unat c" by (simp add: fat_index_def)
  have "unat c \<in> {0, 1, 2, 3, 4, 5, 6, 7}" using u by auto
  then show "c \<in> {0, 1, 2, 3, 4, 5, 6, 7 :: uint32}" by (auto simp: word_unat_eq_iff)
qed

lemma sample_entry:
  assumes "c < 8"
  shows "fat_entry sample_fat c = sample_entries (unat c) AND 0x0fffffff"
proof -
  have "unat c < 128" using assms by (simp add: word_less_nat_alt)
  then show ?thesis
    using small_cluster [OF assms] get32_table_block [of "unat c" sample_entries]
    by (simp add: fat_entry_def content_def sample_fat_def)
qed

lemma sample_volume_ok:
  "volume_ok sample_fat" "fat_chain sample_fat [3, 4]" "classified sample_fat"
  "fat_entry sample_fat 4 = 0x0fffffff" "fat_entry sample_fat 7 = 0"
proof -
  have f: "clust_cnt sample_fat = 8" by (simp add: sample_fat_def)
  show "volume_ok sample_fat"
    using small_cluster(1)
    by (auto simp: volume_ok_def cache_ok_def no_faults_def layout_ok_def sample_fat_def dirty_def)
  have e: "fat_entry sample_fat 2 = 0x0fffffff" "fat_entry sample_fat 3 = 4" "fat_entry sample_fat 4 = 0x0fffffff"
    "fat_entry sample_fat 5 = 0" "fat_entry sample_fat 6 = 0" "fat_entry sample_fat 7 = 0"
    by (simp_all add: sample_entry sample_entries_def)
  then show "fat_entry sample_fat 4 = 0x0fffffff" "fat_entry sample_fat 7 = 0" by simp_all
  show "fat_chain sample_fat [3, 4]" by (simp add: f e entry_flags_def)
  show "classified sample_fat"
    unfolding classified_def f
  proof (intro allI impI)
    fix c :: uint32 assume "2 \<le> c" "c < 8"
    then have "c \<in> {2, 3, 4, 5, 6, 7}" using small_cluster(3) [of c] by (auto simp: word_le_nat_alt)
    then show "entry_flags 8 (fat_entry sample_fat c) \<noteq> None" by (auto simp: e entry_flags_def)
  qed
qed

lemma sample_fat_fields: "clust_cnt sample_fat = 8" "last_used sample_fat = 4" "free_cnt sample_fat = 3"
  by (simp_all add: sample_fat_def)

subsection \<open>The table\<close>

text \<open>C23: an entry of the table. Writing entry \<open>c\<close> makes exactly that entry read as the value written
  (its low 28 bits), in both tables when they are mirrored, keeps the upper four bits of the old
  value, and changes no other sector.\<close>

theorem fat_entry_write_exact:
  assumes "volume_ok f" "c < clust_cnt f"
  shows "\<exists>g. put_fat c val f = (Inr (), g) \<and> volume_ok g \<and>
    (\<forall>d < clust_cnt f. fat_entry g d = (if d = c then val AND 0x0fffffff else fat_entry f d)) \<and>
    get32 (content g (fat_sect0 f + c div 128)) (fat_index c) AND 0xf0000000 =
      get32 (content f (fat_sect0 f + c div 128)) (fat_index c) AND 0xf0000000 \<and>
    (\<forall>t. t \<noteq> 0 \<longrightarrow> content g t =
       (if t = fat_sect0 f + c div 128 \<or> fat_sect1 f \<noteq> 0 \<and> t = fat_sect1 f + c div 128
        then written c val (content f t) else content f t)) \<and>
    (\<exists>h. get_fat c g = (case entry_flags (clust_cnt f) (val AND 0x0fffffff) of
       None \<Rightarrow> Inl FAT_ERR_BROKEN | Some v \<Rightarrow> Inr (val AND 0x0fffffff, v), h))"
proof -
  from put_fat_ok [OF assms, of val] obtain g where
    g: "put_fat c val f = (Inr (), g)" "same_volume f g" "volume_ok g"
      "\<forall>t. t \<noteq> 0 \<longrightarrow> content g t =
       (if t = fat_sect0 f + c div 128 \<or> fat_sect1 f \<noteq> 0 \<and> t = fat_sect1 f + c div 128
        then written c val (content f t) else content f t)" by blast
  have e: "\<forall>d < clust_cnt f. fat_entry g d = (if d = c then val AND 0x0fffffff else fat_entry f d)"
    using put_fat_entry [OF assms, of val] g(1) by auto
  have len: "length (content f t) = 512" for t using assms(1) by (simp add: volume_ok_def cache_ok_def content_def)
  have "content g (fat_sect0 f + c div 128) = written c val (content f (fat_sect0 f + c div 128))"
    using g(4) table_sector(1) [OF assms] by simp
  then have u: "get32 (content g (fat_sect0 f + c div 128)) (fat_index c) AND 0xf0000000 =
      get32 (content f (fat_sect0 f + c div 128)) (fat_index c) AND 0xf0000000"
    by (simp add: get32_written(1) [OF len] new_item_bits(2))
  have cc: "clust_cnt g = clust_cnt f" using g(2) by (simp add: same_volume_def)
  have eg: "fat_entry g c = val AND 0x0fffffff" using e assms(2) by simp
  from get_fat_ok [OF g(3), of c, unfolded cc eg] assms(2) obtain h where
    "get_fat c g = (case entry_flags (clust_cnt f) (val AND 0x0fffffff) of
       None \<Rightarrow> Inl FAT_ERR_BROKEN | Some v \<Rightarrow> Inr (val AND 0x0fffffff, v), h)" by blast
  then show ?thesis using g(1,3,4) e u by blast
qed

theorem fat_entry_write_exact_witness:
  "\<exists>g. put_fat 7 0x0fffffff sample_fat = (Inr (), g) \<and> fat_entry g 7 = 0x0fffffff \<and> fat_entry g 3 = 4"
proof -
  have e: "fat_entry sample_fat 3 = 4" by (simp add: sample_entry sample_entries_def)
  have c: "7 < clust_cnt sample_fat" "(3 :: uint32) < clust_cnt sample_fat" by (simp_all add: sample_fat_fields)
  from fat_entry_write_exact [OF sample_volume_ok(1) c(1), of "0x0fffffff"] obtain g where
    "put_fat 7 0x0fffffff sample_fat = (Inr (), g)"
    "\<forall>d < clust_cnt sample_fat. fat_entry g d = (if d = 7 then 0x0fffffff AND 0x0fffffff else fat_entry sample_fat d)" by blast
  then show ?thesis using c e by auto
qed

text \<open>C24: deleting a chain. \<^verbatim>\<open>remove_chain\<close> returns, frees every cluster of the chain and no other,
  adds their number to the free count, writes the table and FSInfo back to the disk, and touches no
  sector outside them.\<close>

theorem remove_chain_frees_chain:
  assumes "volume_ok f" "fat_chain f (c # cs)"
  shows "\<exists>g. remove_chain c f = Some (Inr (), g) \<and> volume_ok g \<and>
    (\<forall>d < clust_cnt f. fat_entry g d = (if d \<in> set (c # cs) then 0 else fat_entry f d)) \<and>
    free_cnt g = free_cnt f + of_nat (length (c # cs)) \<and> last_used g = last_used f \<and>
    (\<forall>t. t \<noteq> 0 \<longrightarrow> blocks (ops g) t = content g t) \<and>
    (\<forall>t. t \<noteq> 0 \<longrightarrow> t \<notin> table_sectors f \<longrightarrow> t \<noteq> info_sect f \<longrightarrow> content g t = content f t)"
proof -
  from remove_chain_ok [OF assms] obtain g where
    "remove_chain c f = Some (Inr (), g)" "volume_ok g" "data_kept f g" "\<not> dirty g" "last_used g = last_used f"
    "free_cnt g = free_cnt f + of_nat (length (c # cs))"
    "\<forall>d < clust_cnt f. fat_entry g d = (if d \<in> set (c # cs) then 0 else fat_entry f d)" by blast
  then show ?thesis using clean_blocks [of g] by (auto simp: volume_ok_def data_kept_def)
qed

theorem remove_chain_frees_chain_witness:
  "\<exists>g. remove_chain 3 sample_fat = Some (Inr (), g) \<and> free_cnt g = 5 \<and> fat_entry g 3 = 0 \<and> fat_entry g 4 = 0"
proof -
  have "(3 :: uint32) < clust_cnt sample_fat" "(4 :: uint32) < clust_cnt sample_fat" by (simp_all add: sample_fat_fields)
  then show ?thesis
    using remove_chain_frees_chain [OF sample_volume_ok(1,2)] by (auto simp: sample_fat_fields)
qed

text \<open>C25: growing a chain. With a sane table and FSInfo, \<^verbatim>\<open>last_used\<close> a cluster of the volume,
  \<^verbatim>\<open>stretch_chain\<close> on a chain of clusters returns. Either it appends one
  cluster that was free to the chain, makes it \<^verbatim>\<open>last_used\<close>, lowers the free count by one and changes
  no other entry; or it fails with \<^verbatim>\<open>FAT_ERR_FULL\<close>, leaving the chain as it was, and then no cluster other than
  \<^verbatim>\<open>last_used\<close> was free. That one may well be free: the scan stops when it comes around to it, without
  looking at it.\<close>

theorem stretch_chain_appends_free_cluster:
  assumes "volume_ok f" "classified f" "2 \<le> last_used f" "last_used f < clust_cnt f"
    and chain: "fat_chain f cs" "0 \<notin> set cs"
  shows "\<exists>r g. stretch_chain (last cs) f = Some (r, g) \<and> volume_ok g \<and>
    (case r of
       Inr c \<Rightarrow> 2 \<le> c \<and> c < clust_cnt f \<and> fat_entry f c = 0 \<and> fat_chain g (cs @ [c]) \<and>
         (\<forall>d < clust_cnt f. d \<noteq> c \<longrightarrow> d \<noteq> last cs \<longrightarrow> fat_entry g d = fat_entry f d) \<and>
         last_used g = c \<and> free_cnt g = free_cnt f - 1
     | Inl e \<Rightarrow> e = FAT_ERR_FULL \<and> fat_chain g cs \<and>
         (\<forall>c. 2 \<le> c \<longrightarrow> c < clust_cnt f \<longrightarrow> c \<noteq> last_used f \<longrightarrow> fat_entry f c \<noteq> 0))"
proof -
  have ne: "cs \<noteq> []" using chain(1) by auto
  then have l: "last cs \<in> set cs" by simp
  have lt: "last cs < clust_cnt f" "fat_entry f (last cs) \<noteq> 0" "last cs \<noteq> 0"
    using fat_chain_lt [OF chain(1) l] fat_chain_used [OF chain(1) l] l chain(2) by auto
  from stretch_chain_ok [OF assms(1-4) lt(1)] lt(2) obtain r g where
    g: "stretch_chain (last cs) f = Some (r, g)" "volume_ok g" "data_kept f g"
    "case r of
       Inl e \<Rightarrow> e = FAT_ERR_FULL \<and> (\<forall>c. 2 \<le> c \<longrightarrow> c < clust_cnt f \<longrightarrow> c \<noteq> last_used f \<longrightarrow> fat_entry f c \<noteq> 0) \<and>
         (\<forall>d < clust_cnt f. fat_entry g d = fat_entry f d) \<and> last_used g = last_used f \<and> free_cnt g = free_cnt f
     | Inr c \<Rightarrow> 2 \<le> c \<and> c < clust_cnt f \<and> fat_entry f c = 0 \<and> c \<noteq> last cs \<and>
         (\<forall>d < clust_cnt f. fat_entry g d =
            (if d = c then 0x0fffffff else if d = last cs \<and> last cs \<noteq> 0 then c else fat_entry f d)) \<and>
         last_used g = c \<and> free_cnt g = free_cnt f - 1 \<and> \<not> dirty g \<and> (\<exists>b. content g (info_sect f) = fsinfo g b)"
    by blast
  have cc: "clust_cnt g = clust_cnt f" using g(3) by (simp add: data_kept_def same_geometry_def)
  have max: "clust_cnt f \<le> 0x0ffffff7" using assms(1) by (simp add: volume_ok_def layout_ok_def)
  show ?thesis
  proof (cases r)
    case (Inl e)
    then have "fat_chain g cs = fat_chain f cs"
      using g(4) cc fat_chain_lt [OF chain(1)] by (intro fat_chain_cong) auto
    then show ?thesis using g Inl chain(1) by auto
  next
    case (Inr c)
    then have c: "2 \<le> c" "c < clust_cnt f" "fat_entry f c = 0" using g(4) by auto
    then have "c \<notin> set cs" using fat_chain_used [OF chain(1)] by auto
    then have "fat_chain g (cs @ [c])"
      using g(4) Inr lt(3) c cc max by (intro fat_chain_append [OF chain(1)]) auto
    then show ?thesis using g Inr by auto
  qed
qed

theorem stretch_chain_appends_free_cluster_witness:
  "\<exists>r g. stretch_chain 4 sample_fat = Some (r, g) \<and> (case r of Inl e \<Rightarrow> False | Inr c \<Rightarrow> fat_chain g [3, 4, c])"
proof -
  have "2 \<le> last_used sample_fat" "last_used sample_fat < clust_cnt sample_fat" "0 \<notin> set [3, 4 :: uint32]"
    by (simp_all add: sample_fat_fields)
  from stretch_chain_appends_free_cluster [OF sample_volume_ok(1,3) this(1,2) sample_volume_ok(2) this(3)]
  obtain r g where
    g: "stretch_chain (last [3, 4]) sample_fat = Some (r, g)"
      "case r of Inr c \<Rightarrow> 2 \<le> c \<and> c < clust_cnt sample_fat \<and> fat_entry sample_fat c = 0 \<and> fat_chain g ([3, 4] @ [c]) \<and>
         (\<forall>d < clust_cnt sample_fat. d \<noteq> c \<longrightarrow> d \<noteq> last [3, 4] \<longrightarrow> fat_entry g d = fat_entry sample_fat d) \<and>
         last_used g = c \<and> free_cnt g = free_cnt sample_fat - 1
     | Inl e \<Rightarrow> e = FAT_ERR_FULL \<and> fat_chain g [3, 4] \<and>
         (\<forall>c. 2 \<le> c \<longrightarrow> c < clust_cnt sample_fat \<longrightarrow> c \<noteq> last_used sample_fat \<longrightarrow> fat_entry sample_fat c \<noteq> 0)"
    by blast
  have "(2 :: uint32) \<le> 7" "(7 :: uint32) < clust_cnt sample_fat" "(7 :: uint32) \<noteq> last_used sample_fat"
    by (simp_all add: sample_fat_fields)
  then have "\<not> (\<forall>c. 2 \<le> c \<longrightarrow> c < clust_cnt sample_fat \<longrightarrow> c \<noteq> last_used sample_fat \<longrightarrow> fat_entry sample_fat c \<noteq> 0)"
    using sample_volume_ok(5) by blast
  then obtain c where "r = Inr c" using g(2) by (cases r) (simp, blast)
  then show ?thesis using g by (intro exI [of _ r] exI [of _ g]) (simp del: fat_chain.simps)
qed

subsection \<open>The cache\<close>

text \<open>C26: writing the volume back. Without transfer errors \<^verbatim>\<open>sync_fs\<close> succeeds and leaves nothing dirty:
  every sector of the disk holds what a reader saw through the cache, except that FSInfo has the two
  counters of the volume if they had changed.\<close>

theorem sync_fs_makes_disk_current:
  assumes "volume_ok f"
  shows "\<exists>g. sync_fs f = (Inr (), g) \<and> volume_ok g \<and> \<not> dirty g \<and> fat_flags g AND FAT_INFO_DIRTY = 0 \<and>
    (\<forall>t. t \<noteq> 0 \<longrightarrow> blocks (ops g) t =
       (if t = info_sect f \<and> fat_flags f AND FAT_INFO_DIRTY \<noteq> 0
        then put32 (put32 (content f t) FSINFO_NEXT_FREE (last_used f)) FSINFO_FREE_CNT (free_cnt f)
        else content f t)) \<and>
    (fat_flags f AND FAT_INFO_DIRTY \<noteq> 0 \<longrightarrow>
       get32 (blocks (ops g) (info_sect f)) FSINFO_NEXT_FREE = last_used f \<and>
       get32 (blocks (ops g) (info_sect f)) FSINFO_FREE_CNT = free_cnt f)"
proof (cases "fat_flags f AND FAT_INFO_DIRTY = 0")
  case True
  from sync_buf_ok [OF assms] obtain g where
    g: "sync_buf f = (Inr (), g)" "unchanged f g" "\<not> dirty g" "content g = content f" by blast
  then have "fat_flags g AND FAT_INFO_DIRTY = 0" "volume_ok g" using True by (simp_all add: unchanged_def same_volume_def)
  then show ?thesis
    using g True clean_blocks [of g] by (intro exI [of _ g]) (simp add: sync_fs_def volume_ok_def)
next
  case False
  from sync_fs_ok [OF assms False] obtain g where
    g: "sync_fs f = (Inr (), g)" "volume_ok g" "\<not> dirty g" "fat_flags g AND FAT_INFO_DIRTY = 0"
      "\<forall>t. t \<noteq> 0 \<longrightarrow> content g t = (if t = info_sect f then fsinfo f (content f t) else content f t)" by blast
  have b: "blocks (ops g) t = (if t = info_sect f then fsinfo f (content f t) else content f t)" if "t \<noteq> 0" for t
    using clean_blocks [of g t] g(2,3,5) that by (simp add: volume_ok_def)
  have i: "info_sect f \<noteq> 0" using assms by (simp add: volume_ok_def layout_ok_def)
  have "length (content f (info_sect f)) = 512" using assms by (simp add: volume_ok_def cache_ok_def content_def)
  then have "get32 (fsinfo f (content f (info_sect f))) FSINFO_NEXT_FREE = last_used f"
    "get32 (fsinfo f (content f (info_sect f))) FSINFO_FREE_CNT = free_cnt f"
    by (simp_all add: fsinfo_def get32_put32 get32_put32_other FSINFO_NEXT_FREE_def FSINFO_FREE_CNT_def)
  then show ?thesis using g False b i by (intro exI [of _ g]) (simp add: fsinfo_def)
qed

theorem sync_fs_makes_disk_current_witness:
  "\<exists>g. sync_fs sample_fat = (Inr (), g) \<and> \<not> dirty g \<and> blocks (ops g) 32 = content sample_fat 32"
proof -
  have "fat_flags sample_fat AND FAT_INFO_DIRTY = 0" by (simp add: sample_fat_def)
  then show ?thesis using sync_fs_makes_disk_current [OF sample_volume_ok(1)] by auto
qed

text \<open>C27: a transfer that fails loses no data. When \<^verbatim>\<open>update_buf\<close> fails the error is \<^verbatim>\<open>FAT_ERR_IO\<close> and
  either the old sector could not be written back, and then it is still in the buffer, marked
  dirty; or the new one could not be read, and then the disk holds every sector as a reader saw it.
  When it succeeds the buffer holds the sector and every sector reads as before.\<close>

theorem update_buf_loses_nothing:
  assumes "cache_ok f" "fat_sect f \<noteq> 0" "s \<noteq> 0"
  shows "case update_buf s f of
    (Inr _, g) \<Rightarrow> fat_sect g = s \<and> fat_buf g = content f s \<and> cache_ok g \<and> (\<forall>t. t \<noteq> 0 \<longrightarrow> content g t = content f t)
  | (Inl e, g) \<Rightarrow> e = FAT_ERR_IO \<and> \<not> no_faults f \<and>
      (dirty f \<and> dirty g \<and> fat_sect g = fat_sect f \<and> content g = content f \<or>
       \<not> dirty g \<and> blocks (ops g) = content f)"
proof -
  obtain r g where u: "update_buf s f = (r, g)" by fastforce
  note U = update_buf_content [OF assms(1,3) u]
  show ?thesis
  proof (cases r)
    case (Inr x)
    then show ?thesis using U u by simp
  next
    case (Inl e)
    obtain r1 h where s: "sync_buf f = (r1, h)" by fastforce
    note S = sync_buf_content [OF assms(1) s]
    show ?thesis
    proof (cases r1)
      case Inl1: (Inl e1)
      then have "g = h" "fat_sect f \<noteq> s" using u s Inl by (auto simp: update_buf_def split: if_splits)
      moreover have "dirty f \<and> dirty h" using s Inl1
        by (auto simp: sync_buf_def dirty_def Let_def split: if_splits prod.splits)
      ultimately show ?thesis using U S u Inl by auto
    next
      case (Inr y)
      then have "ops g = (ops h)\<lparr>faults := (\<lambda>n. faults (ops h) (Suc n))\<rparr>" "fat_flags g = fat_flags h"
        using u s Inl by (auto simp: update_buf_def disk_read_def Let_def split: if_splits option.splits)
      then show ?thesis using U S u Inl Inr assms(2) by (simp add: dirty_def)
    qed
  qed
qed

definition faulty_fat :: Fat where
  "faulty_fat = sample_fat\<lparr>ops := (ops sample_fat)\<lparr>faults := (\<lambda>n. if n = 0 then Some (replicate 512 0xff) else None)\<rparr>,
     fat_sect := 32, fat_buf := replicate 512 7, fat_flags := FAT_BUF_DIRTY\<rparr>"

theorem update_buf_loses_nothing_witness:
  "\<exists>g. update_buf 40 faulty_fat = (Inl FAT_ERR_IO, g) \<and> content g 32 = replicate 512 7 \<and> dirty g"
proof -
  have "cache_ok faulty_fat" "fat_sect faulty_fat \<noteq> 0"
    by (simp_all add: cache_ok_def faulty_fat_def sample_fat_def dirty_def FAT_BUF_DIRTY_def)
  note u = update_buf_loses_nothing [OF this, of 40]
  have e: "\<exists>g. update_buf 40 faulty_fat = (Inl FAT_ERR_IO, g) \<and> dirty g"
    by (simp add: update_buf_def sync_buf_def faulty_fat_def disk_write_def FAT_BUF_DIRTY_def dirty_def)
  then obtain g where g: "update_buf 40 faulty_fat = (Inl FAT_ERR_IO, g)" "dirty g" by blast
  then have "content g = content faulty_fat" using u by simp
  moreover have "content faulty_fat 32 = replicate 512 7" by (simp add: content_def faulty_fat_def)
  ultimately have "content g 32 = replicate 512 7" by (simp only:)
  then show ?thesis using g by blast
qed

subsection \<open>Names and times\<close>

text \<open>Long names. Reading back a fragment that \<^verbatim>\<open>put_lfn_name_frag\<close> wrote gives exactly its characters,
  at the place of the fragment in the name buffer, whatever the entry and the buffer held before.\<close>

lemma lfn_fragment_round_trip:
  assumes "length raw = 32" "length name \<le> 13" "\<forall>c \<in> set name. plain_char c" "pos + length name \<le> length buf"
  shows "read_frag g_lfn_indices (put_lfn_name_frag raw name) pos (buf, len) =
      (True, take pos buf @ map char_byte name @ drop (pos + length name) buf, len + length name) \<and>
    (\<forall>i. i < 32 \<and> (\<forall>k \<in> set g_lfn_indices. i \<noteq> k \<and> i \<noteq> k + 1) \<longrightarrow> put_lfn_name_frag raw name ! i = raw ! i)"
proof
  show "read_frag g_lfn_indices (put_lfn_name_frag raw name) pos (buf, len) =
      (True, take pos buf @ map char_byte name @ drop (pos + length name) buf, len + length name)"
    by (rule frag_round_trip [OF assms])
  show "\<forall>i. i < 32 \<and> (\<forall>k \<in> set g_lfn_indices. i \<noteq> k \<and> i \<noteq> k + 1) \<longrightarrow> put_lfn_name_frag raw name ! i = raw ! i"
    by (auto simp: put_lfn_name_frag_def upt_13 g_lfn_indices_def case_prod_beta Let_def nth_list_update)
qed

text \<open>Time stamps. Decoding the two words of an encoded time gives it back, with the seconds rounded
  down to an even number, for the years 1980 to 2043.\<close>

lemma timestamp_encoding_round_trip:
  assumes "valid_stamp ts"
  shows "decode_timestamp (encode_date ts) (encode_time ts) = ts\<lparr>ts_sec := 2 * (ts_sec ts div 2)\<rparr>"
  by (rule timestamp_round_trip [OF assms])

subsection \<open>Searching and paths\<close>

definition sample_cursor :: cursor where
  "sample_cursor = \<lparr>volumes = (\<lambda>_. sample_fat), g_fat_list = [0], g_buf = replicate 256 0, g_len = 0, g_crc = 0,
     dir = \<lparr>d_fat = Some 0, d_sclust = 2, d_clust = 2, d_sect = 64, d_idx = 0\<rparr>, loc = None, path = []\<rparr>"

text \<open>Searching a directory. The entry \<^verbatim>\<open>dir_search\<close> stops at is in use and is not a part of a long
  name; either a long name was read in front of it that is the one searched for and carries the
  checksum of this entry, or its short name is the one \<^verbatim>\<open>put_sfn_name\<close> makes of the name. Since those
  never contain digits, an entry whose short name has one is only found through a long name.\<close>

lemma dir_search_sound:
  assumes "dir_search name c = Some (Inr (), c')"
  shows "\<not> sfn_is_free (dir_ptr c') \<and> \<not> sfn_is_lfn (dir_ptr c') \<and>
    (take (g_len c') (g_buf c') = map char_byte name \<and> g_crc c' = get_crc (sfn_name (dir_ptr c')) \<or>
     sfn_name (dir_ptr c') = put_sfn_name name \<and> (\<forall>b \<in> set (sfn_name (dir_ptr c')). b \<notin> {0x30..0x39}))"
proof -
  from search_loop_sound [OF assms [unfolded dir_search_def]] show ?thesis
    using put_sfn_name_no_digit [of _ name] by (auto simp: entry_matches_def Let_def)
qed

text \<open>C33: paths of the kernel's file functions. Whatever the local array held, \<^verbatim>\<open>open_file\<close>,
  \<^verbatim>\<open>open_dir\<close> and \<^verbatim>\<open>create_dir\<close> write inside its 128 characters: a path of at most 122 characters gives
  the text with \<^verbatim>\<open>/mnt/\<close> in front, terminated, and a longer one is refused before it is copied.\<close>

theorem complete_path_in_bounds:
  assumes "length junk = FAT_MAX_PATH_SIZE" "terminated p"
  shows "case complete_path junk p of
     Some (Some b) \<Rightarrow> length (c_string p) \<le> 122 \<and> length b = FAT_MAX_PATH_SIZE \<and> terminated b \<and>
       c_string b = ''/mnt/'' @ c_string p
   | Some None \<Rightarrow> length (c_string p) > 122
   | None \<Rightarrow> False"
proof -
  have len: "length junk = 128" using assms(1) by (simp add: FAT_MAX_PATH_SIZE_def)
  obtain b where b: "strcpy junk (''/mnt/'' @ [NUL]) = Some b" "b = ''/mnt/'' @ NUL # drop 6 junk"
    using len by (simp add: strcpy_exact eval_nat_numeral)
  have t: "terminated b" "c_string b = ''/mnt/''" "length b = 128" using b(2) len by (simp_all add: terminated_def)
  show ?thesis
  proof (cases "length (c_string p) \<le> 122")
    case False
    then show ?thesis using b(1) t assms(2) by (simp add: complete_path_def strlen_exact FAT_MAX_PATH_SIZE_def)
  next
    case True
    then obtain b' where b': "strcat b p = Some b'" "b' = ''/mnt/'' @ c_string p @ NUL # drop (Suc (length (c_string b) + length (c_string p))) b"
      using t assms(2) by (simp add: strcat_exact)
    have "complete_path junk p = Some (Some b')"
      using b(1) t assms(2) True b'(1) by (simp add: complete_path_def strlen_exact FAT_MAX_PATH_SIZE_def)
    moreover have "length b' = 128" unfolding b'(2) t(2) using t(3) True by simp
    moreover have "terminated b'" "c_string b' = ''/mnt/'' @ c_string p"
      unfolding b'(2) using c_string_no_NUL [of p] by (simp_all add: terminated_def c_string_no_end)
    ultimately show ?thesis using True by (simp add: FAT_MAX_PATH_SIZE_def)
  qed
qed

theorem complete_path_in_bounds_witness:
  "\<exists>b. complete_path (replicate 128 CHR ''x'') (''bin/ls'' @ [NUL]) = Some (Some b) \<and> c_string b = ''/mnt/bin/ls''"
proof -
  have "length (replicate 128 CHR ''x'') = FAT_MAX_PATH_SIZE" "terminated (''bin/ls'' @ [NUL])"
    by (simp_all add: FAT_MAX_PATH_SIZE_def)
  from complete_path_in_bounds [OF this] show ?thesis
    by (auto split: option.splits)
qed

subsection \<open>Files\<close>

text \<open>The first sector of the file whose chain is 3, 4.\<close>

definition sample_file :: File where
  "sample_file = \<lparr>f_fat = Some 0, f_dir_sect = 64, f_sclust = 3, f_clust = 3, f_sect = 65, f_size = 1000, f_offset = 0,
     f_dir_idx = 32, f_attr = 0, f_flags = FAT_READ OR FAT_WRITE OR FAT_FILE_DIRTY, f_buf = replicate 512 7\<rparr>"



text \<open>C35: seeking along the chain. For a file that is on its chain \<^verbatim>\<open>fat_file_seek\<close> goes to the cluster of
  the new offset, forwards or back, and to its sector in it. When that is another sector, the dirty
  buffer is written to the sector it came from and the buffer gets what the disk holds at the new one;
  nothing else on the disk changes.\<close>

theorem file_seek_follows_chain:
  assumes "f_fat fi = Some v" "volume_ok (volumes c v)" "\<not> dirty (volumes c v)"
    and "file_on_chain fi (volumes c v) cs" "length (f_buf fi) = 512"
    and "f_flags fi AND FAT_FILE_DIRTY \<noteq> 0 \<Longrightarrow> f_sect fi \<noteq> 0 \<and> f_sect fi \<noteq> fat_sect (volumes c v) \<and>
           f_sect fi \<notin> table_sectors (volumes c v)"
    and "0 \<le> seek_base seek fi + n" "seek_base seek fi + n \<le> 0xffffffff"
    and "nat (seek_base seek fi + n) div (512 * 2 ^ unat (clust_shift (volumes c v))) < length cs"
    and "unat (clust_shift (volumes c v)) \<le> 7"
  shows "\<exists>fi' g. fat_file_seek n seek (fi, c) = Some (Inr (), fi', c\<lparr>volumes := (volumes c)(v := g)\<rparr>) \<and>
    uint (f_offset fi') = seek_base seek fi + n \<and>
    f_clust fi' = cs ! (nat (seek_base seek fi + n) div (512 * 2 ^ unat (clust_shift (volumes c v)))) \<and>
    f_sect fi' = clust_to_sect (volumes c v) (f_clust fi') + ((f_offset fi' div 512) AND clust_msk (volumes c v)) \<and>
    f_buf fi' = (if f_sect fi' = f_sect fi then f_buf fi else blocks (ops g) (f_sect fi')) \<and>
    volume_ok g \<and> \<not> dirty g \<and>
    (\<forall>t. t \<noteq> 0 \<longrightarrow> blocks (ops g) t =
       (if f_flags fi AND FAT_FILE_DIRTY \<noteq> 0 \<and> f_sect fi' \<noteq> f_sect fi \<and> t = f_sect fi then f_buf fi
        else blocks (ops (volumes c v)) t))"
proof -
  let ?f = "volumes c v" and ?t = "seek_base seek fi + n"
  let ?off = "word_of_int ?t :: uint32"
  have u: "uint ?off = ?t" using assms(7,8) unfolding uint_word_of_int_eq by (simp add: take_bit_int_eq_self)
  then have "unat ?off = nat ?t" by (simp only: unat_eq_nat_uint)
  moreover have "unat (push_bit (unat (clust_shift ?f)) 512 :: uint32) = 512 * 2 ^ unat (clust_shift ?f)"
    by (rule cluster_bytes [OF assms(10)])
  ultimately have i: "unat (?off div push_bit (unat (clust_shift ?f)) 512) = nat ?t div (512 * 2 ^ unat (clust_shift ?f))"
    by (simp only: unat_div)
  define cl where "cl = cs ! (nat ?t div (512 * 2 ^ unat (clust_shift ?f)))"
  define off where "off = ?off"
  define s where "s = clust_to_sect ?f cl + ((off div 512) AND clust_msk ?f)"
  define fi' where "fi' = (\<lambda>b. if s = f_sect fi then fi\<lparr>f_clust := cl, f_sect := s, f_offset := off\<rparr>
    else fi\<lparr>f_clust := cl, f_sect := s, f_offset := off, f_flags := f_flags fi AND NOT FAT_FILE_DIRTY, f_buf := b\<rparr>)"
  have "\<exists>g. fat_file_seek n seek (fi, c) = Some (Inr (), fi' (blocks (ops g) s), set_vol v g c) \<and>
      same_volume ?f g \<and> volume_ok g \<and> \<not> dirty g \<and>
      (\<forall>t. t \<noteq> 0 \<longrightarrow> blocks (ops g) t =
       (if f_flags fi AND FAT_FILE_DIRTY \<noteq> 0 \<and> s \<noteq> f_sect fi \<and> t = f_sect fi then f_buf fi else blocks (ops ?f) t))"
    using file_seek_ok [OF assms(1-5) assms(6) assms(7,8), unfolded i, OF _ assms(9)]
    unfolding fi'_def s_def off_def cl_def .
  then obtain g where
    g: "fat_file_seek n seek (fi, c) = Some (Inr (), fi' (blocks (ops g) s), set_vol v g c)" "volume_ok g" "\<not> dirty g"
      "\<forall>t. t \<noteq> 0 \<longrightarrow> blocks (ops g) t =
       (if f_flags fi AND FAT_FILE_DIRTY \<noteq> 0 \<and> s \<noteq> f_sect fi \<and> t = f_sect fi then f_buf fi else blocks (ops ?f) t)"
    by blast
  define b where "b = blocks (ops g) s"
  have fields: "f_offset (fi' b) = off" "f_clust (fi' b) = cl" "f_sect (fi' b) = s"
    "f_buf (fi' b) = (if s = f_sect fi then f_buf fi else b)"
    by (simp_all add: fi'_def)
  have "uint off = ?t" using u by (simp only: off_def)
  then show ?thesis
    by (intro exI [of _ "fi' b"] exI [of _ g], unfold fields cl_def [symmetric] s_def [symmetric] b_def [symmetric])
      (intro conjI refl g(2-4) g(1) [folded b_def])
qed

theorem file_seek_follows_chain_witness:
  "\<exists>fi' c'. fat_file_seek 600 FAT_SEEK_START (sample_file, sample_cursor) = Some (Inr (), fi', c') \<and>
     f_clust fi' = 4 \<and> f_sect fi' = 66 \<and> uint (f_offset fi') = 600 \<and>
     blocks (ops (volumes c' 0)) 65 = replicate 512 7"
proof -
  let ?f = "volumes sample_cursor 0"
  have f: "?f = sample_fat" by (simp add: sample_cursor_def)
  have d: "\<not> dirty sample_fat" by (simp add: dirty_def sample_fat_def)
  have sh: "unat (clust_shift sample_fat) = 0" by (simp add: sample_fat_def)
  have base: "seek_base FAT_SEEK_START sample_file + 600 = 600"
    by (simp add: seek_base_def FAT_SEEK_START_def FAT_SEEK_CURR_def FAT_SEEK_END_def)
  have ch: "file_on_chain sample_file sample_fat [3, 4]"
    using sample_volume_ok(2) sh by (simp add: file_on_chain_def sample_file_def)
  have buf: "length (f_buf sample_file) = 512" "f_fat sample_file = Some 0" by (simp_all add: sample_file_def)
  have "table_sectors sample_fat \<subseteq> {32, 40}"
    using small_cluster(1) by (auto simp: table_sectors_def sample_fat_def)
  then have s: "f_sect sample_file \<noteq> 0 \<and> f_sect sample_file \<noteq> fat_sect sample_fat \<and> f_sect sample_file \<notin> table_sectors sample_fat"
    by (auto simp: sample_file_def sample_fat_def)
  have i: "nat 600 div (512 * 2 ^ unat (clust_shift sample_fat)) = 1" by (simp add: sh)
  have rng: "0 \<le> (600 :: int)" "(600 :: int) \<le> 0xffffffff" "1 < length [3, 4 :: uint32]" "unat (clust_shift sample_fat) \<le> 7"
    by (simp_all add: sh)
  from file_seek_follows_chain [of sample_file 0 sample_cursor "[3, 4]" FAT_SEEK_START 600, unfolded f base i,
      OF buf(2) sample_volume_ok(1) d ch buf(1) s rng] obtain fi' g where
    g: "fat_file_seek 600 FAT_SEEK_START (sample_file, sample_cursor) = Some (Inr (), fi', set_vol 0 g sample_cursor)"
      "uint (f_offset fi') = 600" "f_clust fi' = [3, 4] ! 1"
      "f_sect fi' = clust_to_sect sample_fat (f_clust fi') + ((f_offset fi' div 512) AND clust_msk sample_fat)"
      "\<forall>t. t \<noteq> 0 \<longrightarrow> blocks (ops g) t =
       (if f_flags sample_file AND FAT_FILE_DIRTY \<noteq> 0 \<and> f_sect fi' \<noteq> f_sect sample_file \<and> t = f_sect sample_file
        then f_buf sample_file else blocks (ops sample_fat) t)"
    by blast
  have sect: "f_sect fi' = 66" unfolding g(4) g(3) by (simp add: clust_to_sect_def sample_fat_def)
  have "f_flags sample_file AND FAT_FILE_DIRTY \<noteq> 0" "f_sect sample_file = 65" "f_buf sample_file = replicate 512 7"
    by (simp_all add: sample_file_def FAT_READ_def FAT_WRITE_def FAT_FILE_DIRTY_def)
  then have "blocks (ops g) 65 = replicate 512 7" using g(5) sect by auto
  then show ?thesis using g sect by (intro exI [of _ fi'] exI [of _ "set_vol 0 g sample_cursor"]) simp
qed

end
