(* ===== verification/Fat_Walk.thy ===== *)
theory Fat_Walk
  imports Fat_Directory
begin

text \<open>
  A directory as a list of entries. A chain of clusters has a \<open>slot\<close> for each entry; \<^verbatim>\<open>dir_next\<close> goes from
  slot to slot, and \<^verbatim>\<open>dir_search\<close> is a function on the list of the entries (\<open>lookup\<close>).
\<close>

lemma unat_of_small: "n < 2 ^ LENGTH('a) \<Longrightarrow> unat (of_nat n :: 'a :: len word) = n"
  by (simp add: unsigned_of_nat take_bit_nat_eq_self)

lemma unat_low_bits: "unat (take_bit s w) = unat w mod 2 ^ s"
  unfolding unsigned_take_bit_eq by (rule take_bit_eq_mod)

lemma take_bit_sum:
  fixes a b :: "'a :: len word"
  assumes "s \<le> LENGTH('a)"
  shows "unat (take_bit s (a + b)) = (unat (take_bit s a) + unat (take_bit s b)) mod 2 ^ s"
proof -
  have "(2 :: nat) ^ s dvd 2 ^ LENGTH('a)" using assms by (rule le_imp_power_dvd)
  then show ?thesis
    by (simp add: unat_low_bits unat_word_ariths(1) mod_mod_cancel mod_simps)
qed

subsection \<open>Slots\<close>

definition per_cluster :: "Fat \<Rightarrow> nat" where
  "per_cluster f = 16 * 2 ^ unat (clust_shift f)"

definition slots :: "Fat \<Rightarrow> uint32 list \<Rightarrow> nat" where
  "slots f cs = length cs * per_cluster f"

definition slot_sect :: "Fat \<Rightarrow> uint32 list \<Rightarrow> nat \<Rightarrow> uint32" where
  "slot_sect f cs k = clust_to_sect f (cs ! (k div per_cluster f)) + of_nat (k mod per_cluster f div 16)"

definition slot_idx :: "nat \<Rightarrow> nat" where "slot_idx k = 32 * (k mod 16)"

definition slot_dir :: "Fat \<Rightarrow> uint32 list \<Rightarrow> nat \<Rightarrow> Dir \<Rightarrow> Dir" where
  "slot_dir f cs k d =
     d\<lparr>d_clust := cs ! (k div per_cluster f), d_sect := slot_sect f cs k, d_idx := of_nat (slot_idx k)\<rparr>"

definition slot_entry :: "Fat \<Rightarrow> uint32 list \<Rightarrow> nat \<Rightarrow> byte list" where
  "slot_entry f cs k = entry_in (content f (slot_sect f cs k)) (slot_idx k)"

definition entries :: "Fat \<Rightarrow> uint32 list \<Rightarrow> byte list list" where
  "entries f cs = map (slot_entry f cs) [0..<slots f cs]"

lemma entries_simps [simp]: "length (entries f cs) = slots f cs" "k < slots f cs \<Longrightarrow> entries f cs ! k = slot_entry f cs k"
  by (simp_all add: entries_def)

lemma drop_entries: "k < slots f cs \<Longrightarrow> drop k (entries f cs) = slot_entry f cs k # drop (Suc k) (entries f cs)"
  by (simp add: Cons_nth_drop_Suc [symmetric])

text \<open>Where a directory lies: its chain is intact, the first data sector is aligned to clusters, the tables
  and FSInfo come before it, and no sector number wraps around.\<close>

definition dir_placed :: "Fat \<Rightarrow> uint32 list \<Rightarrow> bool" where
  "dir_placed f cs \<longleftrightarrow> fat_chain f cs \<and> unat (clust_shift f) < 8 \<and> clust_msk f = mask (unat (clust_shift f)) \<and>
     data_sect f AND clust_msk f = 0 \<and> info_sect f < data_sect f \<and> (\<forall>s \<in> table_sectors f. s < data_sect f) \<and>
     (\<forall>c \<in> set cs. 2 \<le> c \<and> unat (data_sect f) + (unat c - 1) * 2 ^ unat (clust_shift f) \<le> 2 ^ 32)"

lemma slot_sect_nat:
  assumes "dir_placed f cs" "k < slots f cs"
  shows "unat (slot_sect f cs k) = unat (data_sect f) +
      (unat (cs ! (k div per_cluster f)) - 2) * 2 ^ unat (clust_shift f) + k mod per_cluster f div 16"
    "k div per_cluster f < length cs" "k mod per_cluster f div 16 < 2 ^ unat (clust_shift f)"
proof -
  let ?s = "unat (clust_shift f)" and ?c = "cs ! (k div per_cluster f)" and ?j = "k mod per_cluster f div 16"
  have p: "0 < per_cluster f" by (simp add: per_cluster_def)
  then show l: "k div per_cluster f < length cs" using assms(2) by (simp add: slots_def less_mult_imp_div_less)
  have "k mod per_cluster f < 2 ^ ?s * 16" using mod_less_divisor [OF p, of k] by (simp add: per_cluster_def mult.commute)
  then show j: "?j < 2 ^ ?s" by (rule less_mult_imp_div_less)
  have c: "2 \<le> unat ?c" "unat (data_sect f) + (unat ?c - 1) * 2 ^ ?s \<le> 2 ^ 32"
    using assms(1) nth_mem [OF l] by (auto simp: dir_placed_def word_le_nat_alt)
  have m: "(unat ?c - 1) * 2 ^ ?s = (unat ?c - 2) * 2 ^ ?s + 2 ^ ?s"
  proof -
    obtain n where "unat ?c = n + 2" using c(1) by (metis le_add_diff_inverse2)
    then show ?thesis by simp
  qed
  have "slot_sect f cs k = of_nat (unat (data_sect f) + (unat ?c - 2) * 2 ^ ?s + ?j)"
  proof -
    have "?c - 2 = of_nat (unat ?c - 2)" using c(1) by (simp add: of_nat_diff)
    then show ?thesis
      by (simp add: slot_sect_def clust_to_sect_def push_bit_eq_mult)
  qed
  moreover have "unat (data_sect f) + (unat ?c - 2) * 2 ^ ?s + ?j < 2 ^ 32" using c(2) j unfolding m by linarith
  then have "unat (of_nat (unat (data_sect f) + (unat ?c - 2) * 2 ^ ?s + ?j) :: uint32) =
      unat (data_sect f) + (unat ?c - 2) * 2 ^ ?s + ?j" by (intro unat_of_small) simp
  ultimately show "unat (slot_sect f cs k) = unat (data_sect f) + (unat ?c - 2) * 2 ^ ?s + ?j" by (simp only:)
qed

lemma slot_sect_outside:
  assumes "dir_placed f cs" "k < slots f cs"
  shows "slot_sect f cs k \<noteq> 0" "slot_sect f cs k \<noteq> info_sect f" "slot_sect f cs k \<notin> table_sectors f"
proof -
  have d: "data_sect f \<le> slot_sect f cs k" using slot_sect_nat(1) [OF assms] by (simp add: word_le_nat_alt)
  have "info_sect f < data_sect f" "\<forall>s \<in> table_sectors f. s < data_sect f" using assms(1) by (simp_all add: dir_placed_def)
  with d show "slot_sect f cs k \<noteq> 0" "slot_sect f cs k \<noteq> info_sect f" "slot_sect f cs k \<notin> table_sectors f"
    by (auto simp: word_le_nat_alt word_less_nat_alt)
qed

lemma slot_idx_nat: "unat (of_nat (slot_idx k) :: uint16) = slot_idx k" "slot_idx k + 32 \<le> 512"
proof -
  have "k mod 16 < 16" by simp
  then show "slot_idx k + 32 \<le> 512" by (simp add: slot_idx_def)
  then have "slot_idx k < 2 ^ LENGTH(16)" by simp
  then show "unat (of_nat (slot_idx k) :: uint16) = slot_idx k" by (rule unat_of_small)
qed

text \<open>The test for the end of a cluster.\<close>

lemma aligned_test:
  assumes "dir_placed f cs" "j \<le> 2 ^ unat (clust_shift f)"
  shows "(clust_to_sect f c + of_nat j) AND clust_msk f = 0 \<longleftrightarrow> j = 0 \<or> j = 2 ^ unat (clust_shift f)"
proof -
  let ?s = "unat (clust_shift f)"
  have p: "?s < 8" "clust_msk f = mask ?s" "data_sect f AND mask ?s = 0" using assms(1) by (auto simp: dir_placed_def)
  have small: "(2 :: nat) ^ ?s < 2 ^ 8" using p(1) by (intro power_strict_increasing) simp_all
  have "take_bit ?s (data_sect f) = 0" using p(3) by (simp only: take_bit_eq_mask)
  then have "unat (take_bit ?s (clust_to_sect f c)) = 0"
    using p(1) by (simp add: clust_to_sect_def take_bit_sum take_bit_push_bit)
  then have "unat (take_bit ?s (clust_to_sect f c + of_nat j)) = unat (take_bit ?s (of_nat j :: uint32)) mod 2 ^ ?s"
    using p(1) by (simp add: take_bit_sum)
  also have "\<dots> = unat (take_bit ?s (of_nat j :: uint32))" by (simp add: unat_low_bits)
  finally have tj: "take_bit ?s (clust_to_sect f c + of_nat j) = take_bit ?s (of_nat j)" by (rule word_unat_eq_iff [THEN iffD2])
  have "j < 2 ^ LENGTH(32)" using small assms(2) by simp
  then have "unat (take_bit ?s (of_nat j :: uint32)) = j mod 2 ^ ?s" by (simp add: unat_low_bits unat_of_small)
  then have "take_bit ?s (of_nat j :: uint32) = 0 \<longleftrightarrow> j mod 2 ^ ?s = 0" by (metis unsigned_0 word_unat_eq_iff)
  then have e: "(clust_to_sect f c + of_nat j) AND clust_msk f = 0 \<longleftrightarrow> j mod 2 ^ ?s = 0"
    unfolding p(2) take_bit_eq_mask [symmetric] tj .
  moreover have "j mod 2 ^ ?s = 0 \<longleftrightarrow> j = 0 \<or> j = 2 ^ ?s" using assms(2) by (cases "j = 2 ^ ?s") auto
  ultimately show ?thesis using e by simp
qed

text \<open>From a slot to the next one.\<close>

lemma slot_parts: "k div per_cluster f = k div 16 div 2 ^ unat (clust_shift f)"
  "k mod per_cluster f div 16 = k div 16 mod 2 ^ unat (clust_shift f)"
  by (simp_all add: per_cluster_def div_mult2_eq mod_mult2_eq)

lemma slot_Suc:
  fixes f :: Fat and k :: nat
  defines "m \<equiv> 2 ^ unat (clust_shift f)"
  shows "k mod 16 < 15 \<Longrightarrow> Suc k mod 16 = Suc (k mod 16) \<and> Suc k div per_cluster f = k div per_cluster f \<and>
      Suc k mod per_cluster f div 16 = k mod per_cluster f div 16"
    "\<not> k mod 16 < 15 \<Longrightarrow> Suc (k mod per_cluster f div 16) < m \<Longrightarrow> Suc k mod 16 = 0 \<and> Suc k div per_cluster f = k div per_cluster f \<and>
      Suc k mod per_cluster f div 16 = Suc (k mod per_cluster f div 16)"
    "\<not> k mod 16 < 15 \<Longrightarrow> \<not> Suc (k mod per_cluster f div 16) < m \<Longrightarrow> Suc k mod 16 = 0 \<and>
      Suc k div per_cluster f = Suc (k div per_cluster f) \<and> Suc k mod per_cluster f div 16 = 0"
proof -
  have l: "k mod 16 < 16" "k div 16 mod m < m" by (simp_all add: m_def)
  show "k mod 16 < 15 \<Longrightarrow> Suc k mod 16 = Suc (k mod 16) \<and> Suc k div per_cluster f = k div per_cluster f \<and>
      Suc k mod per_cluster f div 16 = k mod per_cluster f div 16"
    unfolding slot_parts by (simp add: mod_Suc div_Suc)
  show "\<not> k mod 16 < 15 \<Longrightarrow> Suc (k mod per_cluster f div 16) < m \<Longrightarrow> Suc k mod 16 = 0 \<and> Suc k div per_cluster f = k div per_cluster f \<and>
      Suc k mod per_cluster f div 16 = Suc (k mod per_cluster f div 16)"
    unfolding slot_parts m_def using l(1) by (simp add: mod_Suc div_Suc)
  show "\<not> k mod 16 < 15 \<Longrightarrow> \<not> Suc (k mod per_cluster f div 16) < m \<Longrightarrow> Suc k mod 16 = 0 \<and>
      Suc k div per_cluster f = Suc (k div per_cluster f) \<and> Suc k mod per_cluster f div 16 = 0"
  proof -
    assume "\<not> k mod 16 < 15" "\<not> Suc (k mod per_cluster f div 16) < m"
    then have "k mod 16 = 15" "Suc (k div 16 mod m) = m" using l unfolding slot_parts m_def by linarith+
    then show "Suc k mod 16 = 0 \<and> Suc k div per_cluster f = Suc (k div per_cluster f) \<and> Suc k mod per_cluster f div 16 = 0"
      unfolding slot_parts m_def by (simp add: mod_Suc div_Suc)
  qed
qed

text \<open>What stays of a placed directory when the volume looks the same to a reader.\<close>

lemma unchanged_fields:
  assumes "unchanged f g"
  shows "clust_to_sect g = clust_to_sect f" "clust_msk g = clust_msk f" "clust_shift g = clust_shift f" "clust_cnt g = clust_cnt f"
    "root_clust g = root_clust f" "sect_to_clust g = sect_to_clust f" "volume_ok g"
  using assms by (simp_all add: unchanged_def same_volume_def clust_to_sect_def sect_to_clust_def fun_eq_iff)

lemma unchanged_trans: "unchanged f g \<Longrightarrow> unchanged g h \<Longrightarrow> unchanged f h"
  using same_volume_trans by (auto simp: unchanged_def)

lemma unchanged_refl: "volume_ok f \<Longrightarrow> unchanged f f"
  by (simp add: unchanged_def)

lemma chain_step:
  assumes "fat_chain f cs" "i < length cs"
  shows "cs ! i < clust_cnt f"
    "Suc i < length cs \<Longrightarrow> fat_entry f (cs ! i) = cs ! Suc i \<and> entry_flags (clust_cnt f) (cs ! Suc i) = Some CLUST_USED"
    "Suc i = length cs \<Longrightarrow> entry_flags (clust_cnt f) (fat_entry f (cs ! i)) = Some (CLUST_USED OR CLUST_LAST)"
proof -
  have split: "cs = take i cs @ cs ! i # drop (Suc i) cs" using assms(2) by (rule id_take_nth_drop)
  have "fat_chain f (cs ! i # drop (Suc i) cs)"
    by (rule fat_chain_suffix [of f "take i cs"]) (simp only: split [symmetric] assms(1))
  then show "cs ! i < clust_cnt f"
    "Suc i < length cs \<Longrightarrow> fat_entry f (cs ! i) = cs ! Suc i \<and> entry_flags (clust_cnt f) (cs ! Suc i) = Some CLUST_USED"
    "Suc i = length cs \<Longrightarrow> entry_flags (clust_cnt f) (fat_entry f (cs ! i)) = Some (CLUST_USED OR CLUST_LAST)"
    using fat_chain_lt [OF assms(1)] assms(2) by (auto simp: Cons_nth_drop_Suc [symmetric])
qed

text \<open>The cursor at a slot, with a volume behind it that looks like \<open>f\<close>.\<close>

definition at_slot :: "Fat \<Rightarrow> uint32 list \<Rightarrow> nat \<Rightarrow> nat \<Rightarrow> cursor \<Rightarrow> bool" where
  "at_slot f cs v k c \<longleftrightarrow> d_fat (dir c) = Some v \<and> unchanged f (volumes c v) \<and> k < slots f cs \<and> dir c = slot_dir f cs k (dir c)"

lemma at_slotD:
  assumes "at_slot f cs v k c"
  shows "d_fat (dir c) = Some v" "unchanged f (volumes c v)" "k < slots f cs" "vol c = volumes c v"
    "d_clust (dir c) = cs ! (k div per_cluster f)" "d_sect (dir c) = slot_sect f cs k" "d_idx (dir c) = of_nat (slot_idx k)"
proof -
  have d: "dir c = slot_dir f cs k (dir c)" using assms by (simp add: at_slot_def)
  show "d_clust (dir c) = cs ! (k div per_cluster f)" "d_sect (dir c) = slot_sect f cs k" "d_idx (dir c) = of_nat (slot_idx k)"
    by (subst d, simp add: slot_dir_def)+
qed (use assms in \<open>simp_all add: at_slot_def vol_def\<close>)

lemma vol_op_at:
  assumes "d_fat (dir c) = Some v"
  shows "vol_op m c = (case m (volumes c v) of (r, g) \<Rightarrow> Some (r, set_vol v g c))"
  using assms by (simp add: vol_op_def vol_io_def at_vol_def split: prod.split)

lemma dir_next_slot:
  assumes pl: "dir_placed f cs" "layout_ok f" and at: "at_slot f cs v k c"
  shows "Suc k < slots f cs \<Longrightarrow> \<exists>g. dir_next c = Some (Inr (), set_vol v g (on_dir (slot_dir f cs (Suc k)) c)) \<and> unchanged f g"
    "\<not> Suc k < slots f cs \<Longrightarrow> \<exists>c'. dir_next c = Some (Inl FAT_ERR_EOF, c') \<and> unchanged f (volumes c' v)"
proof -
  note A = at_slotD [OF at]
  note V = unchanged_fields [OF A(2)]
  let ?P = "per_cluster f" and ?m = "2 ^ unat (clust_shift f) :: nat" and ?j = "k mod per_cluster f div 16"
  let ?c1 = "on_dir (\<lambda>d. d\<lparr>d_idx := d_idx d + 32\<rparr>) c" and ?c2 = "on_dir (\<lambda>d. d\<lparr>d_idx := 0, d_sect := d_sect d + 1\<rparr>)
    (on_dir (\<lambda>d. d\<lparr>d_idx := d_idx d + 32\<rparr>) c)"
  have chain: "fat_chain f cs" using pl(1) by (simp add: dir_placed_def)
  have p: "0 < ?P" by (simp add: per_cluster_def)
  have q: "k div ?P < length cs" "?j < ?m" using slot_sect_nat(2,3) [OF pl(1) A(3)] by auto
  have vol: "volumes (on_dir h c) v = volumes c v" "set_vol v (volumes c v) (on_dir h c) = on_dir h c" for h
    by (simp_all add: on_dir_def)
  have idx: "d_idx (dir ?c1) = of_nat (slot_idx k + 32)" using A(7) by (simp add: on_dir_def)
  have "slot_idx k + 32 < 2 ^ LENGTH(16)" using slot_idx_nat(2) [of k] by simp
  then have "unat (d_idx (dir ?c1)) = slot_idx k + 32" unfolding idx by (rule unat_of_small)
  then have lt: "d_idx (dir ?c1) < 512 \<longleftrightarrow> k mod 16 < 15"
    unfolding word_less_nat_alt by (simp add: slot_idx_def)
  consider "k mod 16 < 15" | "\<not> k mod 16 < 15" "Suc ?j < ?m" | "\<not> k mod 16 < 15" "\<not> Suc ?j < ?m" by blast
  then have "if Suc k < slots f cs then \<exists>g. dir_next c = Some (Inr (), set_vol v g (on_dir (slot_dir f cs (Suc k)) c)) \<and> unchanged f g
    else \<exists>c'. dir_next c = Some (Inl FAT_ERR_EOF, c') \<and> unchanged f (volumes c' v)"
  proof cases
    case 1
    note S = slot_Suc(1) [OF 1, of f]
    have "slot_sect f cs (Suc k) = slot_sect f cs k" "slot_idx (Suc k) = slot_idx k + 32"
      using S by (simp_all add: slot_sect_def slot_idx_def)
    then have "on_dir (slot_dir f cs (Suc k)) c = ?c1" using S A(5,6,7) by (simp add: on_dir_def slot_dir_def)
    moreover have "dir_next c = Some (Inr (), ?c1)" using lt 1 unfolding dir_next_def Let_def by simp
    moreover have "Suc k < slots f cs"
      using q(1) S p by (metis slots_def div_less_iff_less_mult)
    ultimately show ?thesis using vol A(2) by (auto intro!: exI [of _ "volumes c v"])
  next
    case 2
    note S = slot_Suc(2) [OF 2]
    have sc: "slot_sect f cs (Suc k) = slot_sect f cs k + 1" "slot_idx (Suc k) = 0"
      using S by (simp_all add: slot_sect_def slot_idx_def)
    then have e: "on_dir (slot_dir f cs (Suc k)) c = ?c2" using S A(5,6,7) by (simp add: on_dir_def slot_dir_def)
    have "d_sect (dir ?c2) = clust_to_sect f (cs ! (k div ?P)) + of_nat (Suc ?j)" using A(6) by (simp add: on_dir_def slot_sect_def)
    then have "d_sect (dir ?c2) AND clust_msk f \<noteq> 0" using aligned_test [OF pl(1), of "Suc ?j"] 2(2) by simp
    moreover have "vol ?c2 = volumes c v" using A(1) by (simp add: vol_def on_dir_def)
    ultimately have "dir_next c = Some (Inr (), ?c2)" using lt 2(1) V(2) unfolding dir_next_def Let_def by simp
    then have "dir_next c = Some (Inr (), set_vol v (volumes c v) (on_dir (slot_dir f cs (Suc k)) c))"
      unfolding vol(2) unfolding e .
    moreover have "Suc k < slots f cs"
      using q(1) S p by (metis slots_def div_less_iff_less_mult)
    ultimately show ?thesis using A(2) by auto
  next
    case 3
    note S = slot_Suc(3) [OF 3]
    have m: "Suc ?j = ?m" using 3(2) q(2) by simp
    have d2: "d_sect (dir ?c2) = clust_to_sect f (cs ! (k div ?P)) + of_nat (Suc ?j)" "d_fat (dir ?c2) = Some v" "vol ?c2 = volumes c v"
      "d_clust (dir ?c2) = cs ! (k div ?P)" "volumes ?c2 v = volumes c v"
      using A(1,5,6) by (simp_all add: on_dir_def slot_sect_def vol_def)
    have "d_sect (dir ?c2) AND clust_msk (vol ?c2) = 0"
      using aligned_test [OF pl(1), of "Suc ?j"] m unfolding d2 V(2) by simp
    then have nx: "dir_next c = bind_io (vol_op (get_fat (d_clust (dir ?c2))) ?c2) (\<lambda>(next, flags) c3.
        if flags AND (CLUST_BAD OR CLUST_FREE) \<noteq> 0 then fail FAT_ERR_BROKEN c3
        else if flags AND CLUST_LAST \<noteq> 0 then fail FAT_ERR_EOF c3 else ret () (dir_at_clust next c3))"
      using lt 3(1) unfolding dir_next_def Let_def by simp
    have lt': "cs ! (k div ?P) < clust_cnt (volumes c v)" using chain_step(1) [OF chain q(1)] V(4) by simp
    have fe: "fat_entry (volumes c v) (cs ! (k div ?P)) = fat_entry f (cs ! (k div ?P))"
      by (rule unchanged_entry [OF A(2) pl(2) chain_step(1) [OF chain q(1)]])
    from get_fat_ok [OF V(7) lt'] obtain g where
      g: "get_fat (cs ! (k div ?P)) (volumes c v) = (case entry_flags (clust_cnt f) (fat_entry f (cs ! (k div ?P))) of
        None \<Rightarrow> Inl FAT_ERR_BROKEN | Some w \<Rightarrow> Inr (fat_entry f (cs ! (k div ?P)), w), g)" "unchanged (volumes c v) g"
      unfolding fe V(4) by blast
    have ug: "unchanged f g" by (rule unchanged_trans [OF A(2) g(2)])
    have suc: "Suc k < slots f cs \<longleftrightarrow> Suc (k div ?P) < length cs"
      using S p by (metis slots_def div_less_iff_less_mult)
    show ?thesis
    proof (cases "Suc (k div ?P) < length cs")
      case True
      have fl: "fat_entry f (cs ! (k div ?P)) = cs ! Suc (k div ?P)" "entry_flags (clust_cnt f) (cs ! Suc (k div ?P)) = Some CLUST_USED"
        using chain_step(2) [OF chain q(1) True] by auto
      have "dir_next c = Some (Inr (), dir_at_clust (cs ! Suc (k div ?P)) (set_vol v g ?c2))"
        unfolding nx vol_op_at [OF d2(2)] d2(4,5) g(1) fl by (simp add: entry_flags_simps)
      moreover have "dir_at_clust (cs ! Suc (k div ?P)) (set_vol v g ?c2) = set_vol v g (on_dir (slot_dir f cs (Suc k)) c)"
        using S A(1) unchanged_fields(1) [OF ug]
        by (simp add: dir_at_clust_def on_dir_def slot_dir_def vol_def slot_sect_def slot_idx_def)
      ultimately show ?thesis using ug True suc by auto
    next
      case False
      then have fl: "entry_flags (clust_cnt f) (fat_entry f (cs ! (k div ?P))) = Some (CLUST_USED OR CLUST_LAST)"
        using chain_step(3) [OF chain q(1)] q(1) by simp
      have "dir_next c = Some (Inl FAT_ERR_EOF, set_vol v g ?c2)"
        unfolding nx vol_op_at [OF d2(2)] d2(4,5) g(1) fl by (simp add: entry_flags_simps)
      then show ?thesis using ug False suc by auto
    qed
  qed
  then show "Suc k < slots f cs \<Longrightarrow> \<exists>g. dir_next c = Some (Inr (), set_vol v g (on_dir (slot_dir f cs (Suc k)) c)) \<and> unchanged f g"
    "\<not> Suc k < slots f cs \<Longrightarrow> \<exists>c'. dir_next c = Some (Inl FAT_ERR_EOF, c') \<and> unchanged f (volumes c' v)"
    by simp_all
qed

subsection \<open>Reading entries\<close>

lemma at_slot_fields [simp]:
  "at_slot f cs v k (c\<lparr>g_buf := b\<rparr>) = at_slot f cs v k c" "at_slot f cs v k (c\<lparr>g_len := n\<rparr>) = at_slot f cs v k c"
  "at_slot f cs v k (c\<lparr>g_crc := x\<rparr>) = at_slot f cs v k c" "at_slot f cs v k (c\<lparr>loc := l\<rparr>) = at_slot f cs v k c"
  by (simp_all add: at_slot_def)

lemma at_slot_vol: "at_slot f cs v k c \<Longrightarrow> unchanged f g \<Longrightarrow> at_slot f cs v k (set_vol v g c)"
  by (simp add: at_slot_def)

lemma at_slot_moved:
  "at_slot f cs v k c \<Longrightarrow> unchanged f g \<Longrightarrow> j < slots f cs \<Longrightarrow> at_slot f cs v j (set_vol v g (on_dir (slot_dir f cs j) c))"
  by (simp add: at_slot_def on_dir_def slot_dir_def)

text \<open>The entry in the buffer.\<close>

definition loaded :: "Fat \<Rightarrow> uint32 list \<Rightarrow> nat \<Rightarrow> nat \<Rightarrow> cursor \<Rightarrow> bool" where
  "loaded f cs v k c \<longleftrightarrow> at_slot f cs v k c \<and> fat_sect (volumes c v) = slot_sect f cs k"

lemma loaded_fields [simp]:
  "loaded f cs v k (c\<lparr>g_buf := b\<rparr>) = loaded f cs v k c" "loaded f cs v k (c\<lparr>g_len := n\<rparr>) = loaded f cs v k c"
  "loaded f cs v k (c\<lparr>g_crc := x\<rparr>) = loaded f cs v k c" "loaded f cs v k (c\<lparr>loc := l\<rparr>) = loaded f cs v k c"
  by (simp_all add: loaded_def)

lemma dir_ptr_fields [simp]:
  "dir_ptr (c\<lparr>g_buf := b\<rparr>) = dir_ptr c" "dir_ptr (c\<lparr>g_len := n\<rparr>) = dir_ptr c" "dir_ptr (c\<lparr>g_crc := x\<rparr>) = dir_ptr c"
  "dir_ptr (c\<lparr>loc := l\<rparr>) = dir_ptr c"
  by (simp_all add: dir_ptr_def vol_def)

lemma loaded_ptr:
  assumes "dir_placed f cs" "loaded f cs v k c"
  shows "dir_ptr c = slot_entry f cs k"
proof -
  have at: "at_slot f cs v k c" and s: "fat_sect (volumes c v) = slot_sect f cs k" using assms(2) by (simp_all add: loaded_def)
  note A = at_slotD [OF at]
  have "fat_buf (volumes c v) = content (volumes c v) (slot_sect f cs k)" using s by (simp add: content_def)
  also have "\<dots> = content f (slot_sect f cs k)"
    using A(2) slot_sect_outside(1) [OF assms(1) A(3)] by (simp add: unchanged_def)
  finally show ?thesis using A(4,7) slot_idx_nat(1) [of k] by (simp add: dir_ptr_def slot_entry_def)
qed

lemma dir_load_slot:
  assumes "dir_placed f cs" "at_slot f cs v k c"
  shows "\<exists>g. dir_load c = Some (Inr (), set_vol v g c) \<and> unchanged f g \<and> loaded f cs v k (set_vol v g c)"
proof -
  note A = at_slotD [OF assms(2)]
  from update_buf_ok [OF unchanged_fields(7) [OF A(2)] slot_sect_outside(1) [OF assms(1) A(3)]] obtain g where
    g: "update_buf (slot_sect f cs k) (volumes c v) = (Inr (), g)" "unchanged (volumes c v) g" "fat_sect g = slot_sect f cs k"
    by blast
  then have "dir_load c = Some (Inr (), set_vol v g c)" using A(1,6) by (simp add: dir_load_def vol_op_at)
  then show ?thesis using unchanged_trans [OF A(2) g(2)] g(3) at_slot_vol [OF assms(2)] by (auto simp: loaded_def)
qed

subsection \<open>Searching as a function on the entries\<close>

text \<open>The fragments of a long name: the buffer and the length of the name read so far.\<close>

fun read_frags :: "nat \<Rightarrow> byte \<Rightarrow> byte list list \<Rightarrow> byte list \<times> nat \<Rightarrow> int + (byte list \<times> nat)" where
  "read_frags 0 crc es bn = Inr bn"
| "read_frags (Suc cnt) crc [] bn = Inl FAT_ERR_EOF"
| "read_frags (Suc cnt) crc (e # es) bn =
     (if sfn_attr e \<noteq> FAT_ATTR_LFN \<or> lfn_crc e \<noteq> crc then Inl FAT_ERR_BROKEN
      else case read_frag g_lfn_indices e (13 * cnt) bn of (ok, b, n) \<Rightarrow>
        if \<not> ok then Inl FAT_ERR_BROKEN
        else if es = [] then Inl FAT_ERR_EOF
        else read_frags cnt crc es (b, n))"

definition frag_count :: "byte list \<Rightarrow> nat" where
  "frag_count e = unat (lfn_seq e AND LFN_SEQ_MSK)"

definition read_name :: "byte list list \<Rightarrow> byte list \<Rightarrow> int + (byte list \<times> nat)" where
  "read_name es b =
     (if lfn_seq (hd es) AND LFN_HEAD_MSK = 0 \<or> frag_count (hd es) > 20 then Inl FAT_ERR_BROKEN
      else case read_frags (frag_count (hd es)) (lfn_crc (hd es)) es (b, 0) of
        Inl err \<Rightarrow> Inl err
      | Inr (b1, n) \<Rightarrow> if n \<le> 255 then Inr (b1, n) else Inl FAT_ERR_BROKEN)"

text \<open>The result is where the entries of the name found begin and where its short entry is.\<close>

function lookup :: "byte list \<Rightarrow> char list \<Rightarrow> nat \<Rightarrow> byte list list \<Rightarrow> byte list \<Rightarrow> int + (nat \<times> nat)" where
  "lookup short name k [] b = Inl FAT_ERR_EOF"
| "lookup short name k (e # es) b =
     (if sfn_is_last e then Inl FAT_ERR_EOF
      else if sfn_is_free e then lookup short name (k + 1) es b
      else if sfn_is_lfn e then
        (case read_name (e # es) b of
           Inl err \<Rightarrow> Inl err
         | Inr (b1, n) \<Rightarrow>
             let m = frag_count e; s = (e # es) ! m
             in if sfn_is_free s \<or> sfn_is_lfn s \<or> lfn_crc e \<noteq> get_crc (sfn_name s) then Inl FAT_ERR_BROKEN
                else if n = length name \<and> take n b1 = map char_byte name then Inr (k, k + m)
                else lookup short name (k + m + 1) (drop m es) b1)
      else if short = sfn_name e then Inr (k, k)
      else lookup short name (k + 1) es b)"
  by pat_completeness auto

termination by (relation "measure (\<lambda>(short, name, k, es, b). length es)") auto

declare lookup.simps(2) [simp del]

lemma lfn_loop_slots:
  assumes pl: "dir_placed f cs" "layout_ok f" and ld: "loaded f cs v k c"
  shows "case read_frags cnt (g_crc c) (drop k (entries f cs)) (g_buf c, g_len c) of
      Inl err \<Rightarrow> \<exists>c'. lfn_loop cnt c = Some (Inl err, c') \<and> unchanged f (volumes c' v)
    | Inr (b, n) \<Rightarrow> \<exists>c'. lfn_loop cnt c = Some (Inr (), c') \<and> loaded f cs v (k + cnt) c' \<and>
        g_buf c' = b \<and> g_len c' = n \<and> g_crc c' = g_crc c \<and> loc c' = loc c"
  using ld
proof (induction cnt arbitrary: k c)
  case 0
  then show ?case by simp
next
  case (Suc cnt)
  have at: "at_slot f cs v k c" using Suc.prems by (simp add: loaded_def)
  note A = at_slotD [OF at]
  let ?e = "slot_entry f cs k"
  obtain ok b n where fr: "read_frag g_lfn_indices ?e (13 * cnt) (g_buf c, g_len c) = (ok, b, n)" by (rule prod_cases3)
  let ?c1 = "c\<lparr>g_buf := b, g_len := n\<rparr>"
  have at1: "at_slot f cs v k ?c1" using at by simp
  have loop: "lfn_loop (Suc cnt) c =
    (if sfn_attr ?e \<noteq> FAT_ATTR_LFN \<or> lfn_crc ?e \<noteq> g_crc c then fail FAT_ERR_BROKEN c
     else if \<not> ok then fail FAT_ERR_BROKEN ?c1
     else bind_io (dir_next ?c1) (\<lambda>_ c2. bind_io (dir_load c2) (\<lambda>_ c3. lfn_loop cnt c3)))"
    using fr by (simp add: loaded_ptr [OF pl(1) Suc.prems] Let_def)
  have pure: "read_frags (Suc cnt) (g_crc c) (drop k (entries f cs)) (g_buf c, g_len c) =
    (if sfn_attr ?e \<noteq> FAT_ATTR_LFN \<or> lfn_crc ?e \<noteq> g_crc c then Inl FAT_ERR_BROKEN
     else if \<not> ok then Inl FAT_ERR_BROKEN
     else if \<not> Suc k < slots f cs then Inl FAT_ERR_EOF
     else read_frags cnt (g_crc c) (drop (Suc k) (entries f cs)) (b, n))"
    using fr by (simp add: drop_entries [OF A(3)])
  consider "sfn_attr ?e \<noteq> FAT_ATTR_LFN \<or> lfn_crc ?e \<noteq> g_crc c \<or> \<not> ok"
    | "\<not> (sfn_attr ?e \<noteq> FAT_ATTR_LFN \<or> lfn_crc ?e \<noteq> g_crc c)" "ok" "\<not> Suc k < slots f cs"
    | "\<not> (sfn_attr ?e \<noteq> FAT_ATTR_LFN \<or> lfn_crc ?e \<noteq> g_crc c)" "ok" "Suc k < slots f cs" by blast
  then show ?case
  proof cases
    case 1
    then show ?thesis unfolding loop pure using A(2) by auto
  next
    case 2
    then show ?thesis unfolding loop pure using dir_next_slot(2) [OF pl at1] by auto
  next
    case 3
    from dir_next_slot(1) [OF pl at1 3(3)] obtain g where
      g: "dir_next ?c1 = Some (Inr (), set_vol v g (on_dir (slot_dir f cs (Suc k)) ?c1))" "unchanged f g" by blast
    let ?c2 = "set_vol v g (on_dir (slot_dir f cs (Suc k)) ?c1)"
    from dir_load_slot [OF pl(1) at_slot_moved [OF at1 g(2) 3(3)]] obtain h where
      h: "dir_load ?c2 = Some (Inr (), set_vol v h ?c2)" "loaded f cs v (Suc k) (set_vol v h ?c2)" by blast
    have eq: "lfn_loop (Suc cnt) c = lfn_loop cnt (set_vol v h ?c2)" using 3 g(1) h(1) unfolding loop by simp
    have c3: "g_buf (set_vol v h ?c2) = b" "g_len (set_vol v h ?c2) = n" "g_crc (set_vol v h ?c2) = g_crc c"
      "loc (set_vol v h ?c2) = loc c" by (simp_all add: on_dir_def)
    have pure': "read_frags (Suc cnt) (g_crc c) (drop k (entries f cs)) (g_buf c, g_len c) =
        read_frags cnt (g_crc c) (drop (Suc k) (entries f cs)) (b, n)" using 3 unfolding pure by simp
    show ?thesis using Suc.IH [OF h(2)] unfolding pure' eq c3 add_Suc add_Suc_right .
  qed
qed

lemma parse_lfn_name_slots:
  assumes pl: "dir_placed f cs" "layout_ok f" and ld: "loaded f cs v k c"
  shows "case read_name (drop k (entries f cs)) (g_buf c) of
      Inl err \<Rightarrow> \<exists>c'. parse_lfn_name c = Some (Inl err, c') \<and> unchanged f (volumes c' v)
    | Inr (b, n) \<Rightarrow> \<exists>c'. parse_lfn_name c = Some (Inr (), c') \<and> loaded f cs v (k + frag_count (slot_entry f cs k)) c' \<and>
        g_buf c' = b \<and> g_len c' = n \<and> g_crc c' = lfn_crc (slot_entry f cs k) \<and> loc c' = loc c"
proof -
  have at: "at_slot f cs v k c" using ld by (simp add: loaded_def)
  note A = at_slotD [OF at]
  let ?e = "slot_entry f cs k"
  from dir_load_slot [OF pl(1) at] obtain g where
    g: "dir_load c = Some (Inr (), set_vol v g c)" "loaded f cs v k (set_vol v g c)" "unchanged f g" by blast
  let ?c2 = "(set_vol v g c)\<lparr>g_crc := lfn_crc ?e, g_len := 0\<rparr>"
  have l2: "loaded f cs v k ?c2" using g(2) by simp
  have hd: "hd (drop k (entries f cs)) = ?e" by (simp add: drop_entries [OF A(3)])
  have parse: "parse_lfn_name c =
    (if lfn_seq ?e AND LFN_HEAD_MSK = 0 \<or> frag_count ?e > 20 then fail FAT_ERR_BROKEN ?c2
     else bind_io (lfn_loop (frag_count ?e) ?c2) (\<lambda>_ c3. if g_len c3 \<le> 255 then ret () c3 else fail FAT_ERR_BROKEN c3))"
    using g(1) by (simp add: parse_lfn_name_def loaded_ptr [OF pl(1) g(2)] Let_def frag_count_def)
  note L = lfn_loop_slots [OF pl l2, of "frag_count ?e"]
  show ?thesis
  proof (cases "lfn_seq ?e AND LFN_HEAD_MSK = 0 \<or> frag_count ?e > 20")
    case True
    then show ?thesis using g(3) unfolding parse read_name_def hd by auto
  next
    case False
    have parse': "parse_lfn_name c = bind_io (lfn_loop (frag_count ?e) ?c2)
        (\<lambda>_ c3. if g_len c3 \<le> 255 then ret () c3 else fail FAT_ERR_BROKEN c3)"
      unfolding parse using False by (simp only: if_False)
    have name: "read_name (drop k (entries f cs)) (g_buf c) =
      (case read_frags (frag_count ?e) (lfn_crc ?e) (drop k (entries f cs)) (g_buf c, 0) of
         Inl err \<Rightarrow> Inl err | Inr (b1, n) \<Rightarrow> if n \<le> 255 then Inr (b1, n) else Inl FAT_ERR_BROKEN)"
      unfolding read_name_def hd using False by (simp only: if_False)
    show ?thesis
      using L unfolding parse' name
      by (auto simp: loaded_def dest: at_slotD(2) split: sum.splits prod.splits)
  qed
qed

text \<open>A search on the cursor does what the search on the entries says.\<close>

definition search_agrees :: "Fat \<Rightarrow> uint32 list \<Rightarrow> nat \<Rightarrow> int + (nat \<times> nat) \<Rightarrow> (unit, cursor) io \<Rightarrow> bool" where
  "search_agrees f cs v l res \<longleftrightarrow> (\<exists>r c'. res = Some (r, c') \<and> unchanged f (volumes c' v) \<and>
      (case l of
         Inl err \<Rightarrow> r = Inl err
       | Inr (i, j) \<Rightarrow> r = Inr () \<and> loaded f cs v j c' \<and>
           loc c' = Some \<lparr>loc_sect = slot_sect f cs i, loc_idx = of_nat (slot_idx i)\<rparr>))"

lemma search_on:
  assumes pl: "dir_placed f cs" "layout_ok f" and at: "at_slot f cs v j c1"
    and rest: "\<And>c2. at_slot f cs v (Suc j) c2 \<Longrightarrow> g_buf c2 = g_buf c1 \<Longrightarrow>
      search_agrees f cs v (lookup short name (Suc j) (drop (Suc j) (entries f cs)) (g_buf c1)) (search_loop short name c2)"
  shows "search_agrees f cs v (lookup short name (Suc j) (drop (Suc j) (entries f cs)) (g_buf c1))
      (bind_io (dir_next c1) (\<lambda>_ c2. search_loop short name c2))"
proof (cases "Suc j < slots f cs")
  case True
  from dir_next_slot(1) [OF pl at True] obtain g where
    g: "dir_next c1 = Some (Inr (), set_vol v g (on_dir (slot_dir f cs (Suc j)) c1))" "unchanged f g" by blast
  have "g_buf (set_vol v g (on_dir (slot_dir f cs (Suc j)) c1)) = g_buf c1" by (simp add: on_dir_def)
  with rest [OF at_slot_moved [OF at g(2) True]] show ?thesis unfolding g(1) by simp
next
  case False
  then show ?thesis using dir_next_slot(2) [OF pl at False] by (auto simp: search_agrees_def)
qed

lemma search_loop_slots:
  assumes pl: "dir_placed f cs" "layout_ok f"
  shows "at_slot f cs v k c \<Longrightarrow> es = drop k (entries f cs) \<Longrightarrow> b = g_buf c \<Longrightarrow>
    search_agrees f cs v (lookup short name k es b) (search_loop short name c)"
proof (induction short name k es b arbitrary: c rule: lookup.induct)
  case (1 short name k b)
  then show ?case using at_slotD(3) [OF 1(1)] by simp
next
  case (2 short name k e es b)
  note IH = 2(1-3) and at = 2(4) and prems = 2(5,6)
  note A = at_slotD [OF at]
  have e: "e = slot_entry f cs k" "es = drop (Suc k) (entries f cs)" using prems(1) by (simp_all add: drop_entries [OF A(3)])
  from dir_load_slot [OF pl(1) at] obtain g where
    g: "dir_load c = Some (Inr (), set_vol v g c)" "loaded f cs v k (set_vol v g c)" "unchanged f g" by blast
  let ?c1 = "set_vol v g c"
  let ?c2 = "?c1\<lparr>loc := Some \<lparr>loc_sect = slot_sect f cs k, loc_idx = of_nat (slot_idx k)\<rparr>\<rparr>"
  have ptr: "dir_ptr ?c1 = e" using loaded_ptr [OF pl(1) g(2)] e(1) by simp
  have at1: "at_slot f cs v k ?c1" "at_slot f cs v k ?c2" using g(2) by (simp_all add: loaded_def)
  have l2: "loaded f cs v k ?c2" using g(2) by simp
  have dc: "d_sect (dir ?c1) = slot_sect f cs k" "d_idx (dir ?c1) = of_nat (slot_idx k)" using at_slotD(6,7) [OF at1(1)] by simp_all
  have loop: "search_loop short name c = search_step (search_loop short name) short name ?c1"
    by (subst search_loop.simps) (simp add: g(1))
  have eta: "(\<lambda>_ :: unit. \<lambda>c2. search_loop short name c2) = (\<lambda>_. search_loop short name)" by (rule refl)
  consider "sfn_is_last e" | "\<not> sfn_is_last e" "sfn_is_free e" | "\<not> sfn_is_last e" "\<not> sfn_is_free e" "sfn_is_lfn e"
    | "\<not> sfn_is_last e" "\<not> sfn_is_free e" "\<not> sfn_is_lfn e" "short = sfn_name e"
    | "\<not> sfn_is_last e" "\<not> sfn_is_free e" "\<not> sfn_is_lfn e" "short \<noteq> sfn_name e"
    by blast
  then show ?case
  proof cases
    case 1
    then show ?thesis unfolding loop Let_def ptr using g(3) by (simp add: lookup.simps(2) search_agrees_def)
  next
    case 2
    have "search_agrees f cs v (lookup short name (Suc k) (drop (Suc k) (entries f cs)) (g_buf ?c1))
        (bind_io (dir_next ?c1) (\<lambda>_ d. search_loop short name d))"
    proof (rule search_on [OF pl at1(1)])
      fix d assume "at_slot f cs v (Suc k) d" "g_buf d = g_buf ?c1"
      then show "search_agrees f cs v (lookup short name (Suc k) (drop (Suc k) (entries f cs)) (g_buf ?c1)) (search_loop short name d)"
        using IH(1) [OF 2, of d] e(2) prems(2) by simp
    qed
    then show ?thesis unfolding loop Let_def ptr lookup.simps(2) using 2 e(2) prems(2) by simp
  next
    case 3
    note P = parse_lfn_name_slots [OF pl l2]
    have b: "g_buf ?c2 = b" "drop k (entries f cs) = e # es" "loc ?c2 = Some \<lparr>loc_sect = slot_sect f cs k, loc_idx = of_nat (slot_idx k)\<rparr>"
      using prems by simp_all
    have loop3: "search_loop short name c = bind_io (parse_lfn_name ?c2) (\<lambda>_ c3. long_step (search_loop short name) name c3)"
      unfolding loop Let_def ptr dc using 3 by simp
    show ?thesis
    proof (cases "read_name (e # es) b")
      case (Inl err)
      then show ?thesis
        using P 3 unfolding loop3 b lookup.simps(2) by (auto simp: search_agrees_def)
    next
      case (Inr bn)
      obtain b1 n where bn: "bn = (b1, n)" by (cases bn)
      let ?m = "frag_count e"
      from P [unfolded b Inr bn] obtain c3 where
        c3: "parse_lfn_name ?c2 = Some (Inr (), c3)" "loaded f cs v (k + ?m) c3" "g_buf c3 = b1" "g_len c3 = n"
          "g_crc c3 = lfn_crc e" "loc c3 = Some \<lparr>loc_sect = slot_sect f cs k, loc_idx = of_nat (slot_idx k)\<rparr>"
        unfolding e(1) by auto
      have at3: "at_slot f cs v (k + ?m) c3" using c3(2) by (simp add: loaded_def)
      have km: "k + ?m < slots f cs" by (rule at_slotD(3) [OF at3])
      define s where "s = (e # es) ! ?m"
      have "(e # es) ! ?m = entries f cs ! (k + ?m)" unfolding b(2) [symmetric] using km by (simp add: nth_drop)
      then have ptr3: "dir_ptr c3 = s" using loaded_ptr [OF pl(1) c3(2)] km by (simp add: s_def)
      have rest: "drop ?m es = drop (Suc (k + ?m)) (entries f cs)" unfolding e(2) by (simp add: add.commute)
      have lk: "lookup short name k (e # es) b = (if sfn_is_free s \<or> sfn_is_lfn s \<or> lfn_crc e \<noteq> get_crc (sfn_name s) then Inl FAT_ERR_BROKEN
          else if n = length name \<and> take n b1 = map char_byte name then Inr (k, k + ?m)
          else lookup short name (Suc (k + ?m)) (drop ?m es) b1)"
        using 3 Inr bn by (auto simp: lookup.simps(2) Let_def s_def)
      show ?thesis
      proof (cases "sfn_is_free s \<or> sfn_is_lfn s \<or> lfn_crc e \<noteq> get_crc (sfn_name s)")
        case True
        then have "search_loop short name c = fail FAT_ERR_BROKEN c3"
          unfolding loop3 c3(1) bind_io_simps Let_def ptr3 c3(5) by (simp only: if_True)
        then show ?thesis using True at_slotD(2) [OF at3] unfolding lk by (simp add: search_agrees_def)
      next
        case False
        then have step: "search_loop short name c =
          (if n = length name \<and> take n b1 = map char_byte name then ret () c3
           else bind_io (dir_next c3) (\<lambda>_ c4. search_loop short name c4))"
          unfolding loop3 c3(1) bind_io_simps Let_def ptr3 c3(5) c3(3,4) by (simp only: if_False) auto
        show ?thesis
        proof (cases "n = length name \<and> take n b1 = map char_byte name")
          case True
          then show ?thesis using False c3(2,6) at_slotD(2) [OF at3] unfolding step lk by (auto simp: search_agrees_def)
        next
          case miss: False
          have "search_agrees f cs v (lookup short name (Suc (k + ?m)) (drop (Suc (k + ?m)) (entries f cs)) (g_buf c3))
              (bind_io (dir_next c3) (\<lambda>_ d. search_loop short name d))"
          proof (rule search_on [OF pl at3])
            fix d assume d: "at_slot f cs v (Suc (k + ?m)) d" "g_buf d = g_buf c3"
            show "search_agrees f cs v (lookup short name (Suc (k + ?m)) (drop (Suc (k + ?m)) (entries f cs)) (g_buf c3))
                (search_loop short name d)"
              unfolding rest [symmetric] c3(3) unfolding Suc_eq_plus1
              by (rule IH(2) [OF 3 Inr bn [symmetric] refl s_def False miss])
                (use d rest c3(3) in \<open>simp_all only: Suc_eq_plus1\<close>)
          qed
          then show ?thesis using False miss unfolding step lk rest c3(3) by auto
        qed
      qed
    qed
  next
    case 4
    then show ?thesis unfolding loop Let_def ptr dc lookup.simps(2) using g(3) l2 by (simp add: search_agrees_def)
  next
    case 5
    have "search_agrees f cs v (lookup short name (Suc k) (drop (Suc k) (entries f cs)) (g_buf ?c2))
        (bind_io (dir_next ?c2) (\<lambda>_ d. search_loop short name d))"
    proof (rule search_on [OF pl at1(2)])
      fix d assume "at_slot f cs v (Suc k) d" "g_buf d = g_buf ?c2"
      then show "search_agrees f cs v (lookup short name (Suc k) (drop (Suc k) (entries f cs)) (g_buf ?c2)) (search_loop short name d)"
        using IH(3) [OF 5, of d] e(2) prems(2) by simp
    qed
    then show ?thesis unfolding loop Let_def ptr dc lookup.simps(2) using 5 e(2) prems(2) by simp
  qed
qed

text \<open>A whole search, from the first slot on.\<close>

lemma slots_pos: "dir_placed f cs \<Longrightarrow> 0 < slots f cs"
  by (cases cs) (auto simp: dir_placed_def slots_def per_cluster_def)

lemma slot_0:
  assumes "dir_placed f cs" "d_fat (dir c) = Some v" "volume_ok (volumes c v)" "d_sclust (dir c) = hd cs" "f = volumes c v"
  shows "at_slot f cs v 0 (dir_at_clust (d_sclust (dir c)) c)"
proof -
  have "cs \<noteq> []" using assms(1) by (auto simp: dir_placed_def)
  then have "cs ! 0 = d_sclust (dir c)" using assms(4) by (simp add: hd_conv_nth)
  then show ?thesis
    using assms slots_pos [OF assms(1)]
    by (simp add: at_slot_def dir_at_clust_def on_dir_def slot_dir_def slot_sect_def slot_idx_def vol_def unchanged_refl)
qed

lemma dir_search_slots:
  assumes "dir_placed f cs" "d_fat (dir c) = Some v" "volume_ok f" "d_sclust (dir c) = hd cs" "f = volumes c v"
  shows "search_agrees f cs v (lookup (put_sfn_name name) name 0 (entries f cs) (g_buf c)) (dir_search name c)"
proof -
  have "at_slot f cs v 0 (dir_at_clust (d_sclust (dir c)) c)" using assms by (intro slot_0) simp_all
  moreover have "layout_ok f" using assms(3) by (simp add: volume_ok_def)
  ultimately show ?thesis
    unfolding dir_search_def by (intro search_loop_slots assms(1)) (simp_all add: dir_at_clust_def on_dir_def)
qed

end
