(* ===== verification/Fat_Insert.thy ===== *)
theory Fat_Insert
  imports Fat_Walk
begin

text \<open>
  Adding an entry to a directory that has room for it: the effect of \<^verbatim>\<open>dir_add\<close> on the list of the
  entries, and that a search finds the entry afterwards.
\<close>

subsection \<open>Writing an entry\<close>

lemma entry_in_set:
  assumes "i + 32 \<le> length b" "length e = 32"
  shows "entry_in (set_entry i e b) i = e" "i + 32 \<le> j \<or> j + 32 \<le> i \<Longrightarrow> entry_in (set_entry i e b) j = entry_in b j"
    "length (set_entry i e b) = length b"
proof -
  show "entry_in (set_entry i e b) i = e" using assms by (simp add: entry_in_def set_entry_def)
  show l: "length (set_entry i e b) = length b" using assms by (simp add: set_entry_def)
  show "entry_in (set_entry i e b) j = entry_in b j" if "i + 32 \<le> j \<or> j + 32 \<le> i"
  proof (rule nth_equalityI)
    show "length (entry_in (set_entry i e b) j) = length (entry_in b j)"
      using l by (simp add: entry_in_def)
    fix n assume "n < length (entry_in (set_entry i e b) j)"
    then have n: "n < 32" "j + n < length b" using l by (auto simp: entry_in_def)
    then show "entry_in (set_entry i e b) j ! n = entry_in b j ! n"
      using assms that by (auto simp: entry_in_def set_entry_def nth_append min_def)
  qed
qed

text \<open>A slot is determined by its sector and its index.\<close>

lemma slot_place_inj:
  assumes "dir_placed f cs" "j < slots f cs" "k < slots f cs" "slot_sect f cs j = slot_sect f cs k" "slot_idx j = slot_idx k"
  shows "j = k"
proof -
  let ?P = "per_cluster f" and ?m = "2 ^ unat (clust_shift f) :: nat"
  note J = slot_sect_nat [OF assms(1,2)] and K = slot_sect_nat [OF assms(1,3)]
  have e: "(unat (cs ! (j div ?P)) - 2) * ?m + j mod ?P div 16 = (unat (cs ! (k div ?P)) - 2) * ?m + k mod ?P div 16"
    using J(1) K(1) assms(4) by simp
  have r: "j mod ?P div 16 = k mod ?P div 16"
    using arg_cong [OF e, of "\<lambda>n. n mod ?m"] J(3) K(3) by simp
  have "unat (cs ! (j div ?P)) - 2 = unat (cs ! (k div ?P)) - 2" using e r by simp
  moreover have "2 \<le> unat (cs ! (j div ?P))" "2 \<le> unat (cs ! (k div ?P))"
    using assms(1) nth_mem [OF J(2)] nth_mem [OF K(2)] by (auto simp: dir_placed_def word_le_nat_alt)
  ultimately have "cs ! (j div ?P) = cs ! (k div ?P)" by (simp add: word_unat_eq_iff)
  moreover have "distinct cs" using assms(1) fat_chain_distinct by (auto simp: dir_placed_def)
  ultimately have q: "j div ?P = k div ?P" using J(2) K(2) by (simp add: nth_eq_iff_index_eq)
  have "j div 16 = k div 16" using r q unfolding slot_parts by (metis div_mult_mod_eq)
  moreover have "j mod 16 = k mod 16" using assms(5) by (simp add: slot_idx_def)
  ultimately show ?thesis by (metis div_mult_mod_eq)
qed

text \<open>The volume and the directory are in order.\<close>

definition dir_vol :: "Fat \<Rightarrow> uint32 list \<Rightarrow> bool" where
  "dir_vol f cs \<longleftrightarrow> volume_ok f \<and> dir_placed f cs"

lemma dir_volD: "dir_vol f cs \<Longrightarrow> dir_placed f cs \<and> layout_ok f \<and> volume_ok f"
  by (simp add: dir_vol_def volume_ok_def)

lemma same_slots:
  assumes "same_volume f g"
  shows "slots g = slots f" "slot_sect g = slot_sect f" "slot_dir g = slot_dir f" "per_cluster g = per_cluster f"
    "table_sectors g = table_sectors f"
proof -
  show p: "per_cluster g = per_cluster f" using assms by (simp add: per_cluster_def same_volume_def)
  show t: "slot_sect g = slot_sect f"
    using assms p by (simp add: slot_sect_def clust_to_sect_def same_volume_def fun_eq_iff)
  show "slots g = slots f" by (simp add: slots_def p fun_eq_iff)
  show "slot_dir g = slot_dir f" by (simp add: slot_dir_def p t fun_eq_iff)
  show "table_sectors g = table_sectors f" using assms by (simp add: table_sectors_def same_volume_def)
qed

lemma dir_placed_same: "same_volume f g \<Longrightarrow> fat_chain g cs = fat_chain f cs \<Longrightarrow> dir_placed g cs = dir_placed f cs"
  using same_slots(5) [of f g] by (simp add: dir_placed_def same_volume_def)

lemma dir_write_slot:
  assumes dv: "dir_vol f cs" and ld: "loaded f cs v k c" and len: "length (h (slot_entry f cs k)) = 32"
  shows "\<exists>f'. dir_write h c = Some (Inr (), set_vol v f' c) \<and> dir_vol f' cs \<and> same_volume f f' \<and>
    at_slot f' cs v k (set_vol v f' c) \<and> entries f' cs = (entries f cs)[k := h (slot_entry f cs k)] \<and>
    (\<forall>t. t \<noteq> 0 \<longrightarrow> (\<forall>j < slots f cs. t \<noteq> slot_sect f cs j) \<longrightarrow> content f' t = content f t)"
proof -
  have at: "at_slot f cs v k c" and fs: "fat_sect (volumes c v) = slot_sect f cs k" using ld by (simp_all add: loaded_def)
  note A = at_slotD [OF at]
  note V = dir_volD [OF dv]
  have pl: "dir_placed f cs" and ly: "layout_ok f" using V by simp_all
  let ?g = "volumes c v" and ?i = "slot_idx k" and ?s = "slot_sect f cs k"
  let ?f = "write_entry ?i h ?g"
  have gok: "volume_ok ?g" by (rule unchanged_fields(7) [OF A(2)])
  have sv: "same_volume ?g ?f" "same_volume f ?f"
    using A(2) same_volume_trans [of f ?g ?f] by (simp_all add: write_entry_def same_volume_def unchanged_def)
  have buf: "fat_buf ?g = content f ?s"
    using A(2) slot_sect_outside(1) [OF pl A(3)] fs by (auto simp: unchanged_def content_def)
  have e: "entry_in (fat_buf ?g) ?i = slot_entry f cs k" by (simp add: buf slot_entry_def)
  have lb: "length (fat_buf ?g) = 512" using gok by (simp add: volume_ok_def cache_ok_def)
  have i: "?i + 32 \<le> length (fat_buf ?g)" using slot_idx_nat(2) lb by simp
  note S = entry_in_set [OF i len]
  have w: "dir_write h c = Some (Inr (), set_vol v ?f c)"
    using A(1,7) slot_idx_nat(1) [of k] by (simp add: dir_write_def vol_op_at)
  have fb: "fat_buf ?f = set_entry ?i (h (slot_entry f cs k)) (fat_buf ?g)" "fat_sect ?f = ?s" "ops ?f = ops ?g"
    using fs e by (simp_all add: write_entry_def)
  have ct: "content ?f t = (if t = ?s then set_entry ?i (h (slot_entry f cs k)) (content f ?s) else content f t)" if "t \<noteq> 0" for t
    using A(2) that fs fb buf by (auto simp: content_def unchanged_def)
  have "dirty ?f" using dirty_bits(4) [of "fat_flags ?g"] unfolding dirty_def by (simp add: write_entry_def)
  then have fok: "volume_ok ?f"
    using gok layout_ok_same [OF sv(1)] S(3) lb fb by (auto simp: volume_ok_def cache_ok_def no_faults_def)
  have tab: "content ?f t = content f t" if "t \<in> table_sectors f" "t \<noteq> 0" for t
    using ct [OF that(2)] slot_sect_outside(3) [OF pl A(3)] that(1) by auto
  have chain: "fat_chain ?f cs"
  proof -
    have "fat_entry ?f d = fat_entry f d" if "d \<in> set cs" for d
    proof (rule fat_entry_same [OF sv(2)])
      have "d < clust_cnt f" using fat_chain_lt [OF _ that] pl by (auto simp: dir_placed_def)
      then show "content ?f (fat_sect0 f + d div 128) = content f (fat_sect0 f + d div 128)"
        using tab ly by (auto simp: table_sectors_def layout_ok_def)
    qed
    then have "fat_chain ?f cs = fat_chain f cs" using sv(2) by (intro fat_chain_cong) (simp_all add: same_volume_def)
    then show ?thesis using pl by (simp add: dir_placed_def)
  qed
  note G = same_slots [OF sv(2)]
  have "fat_chain ?f cs = fat_chain f cs" using chain pl by (simp add: dir_placed_def)
  then have pl': "dir_placed ?f cs" using dir_placed_same [OF sv(2)] pl by simp
  have "slot_entry ?f cs j = (entries f cs)[k := h (slot_entry f cs k)] ! j" if "j < slots f cs" for j
  proof (cases "j = k")
    case True
    then show ?thesis using A(3) S(1) ct [OF slot_sect_outside(1) [OF pl A(3)]] buf by (simp add: slot_entry_def G)
  next
    case False
    have "slot_entry ?f cs j = slot_entry f cs j"
    proof (cases "slot_sect f cs j = ?s")
      case True
      then have "slot_idx j \<noteq> slot_idx k" using slot_place_inj [OF pl that A(3)] False by auto
      then have "slot_idx k + 32 \<le> slot_idx j \<or> slot_idx j + 32 \<le> slot_idx k" by (auto simp: slot_idx_def)
      then show ?thesis using S(2) ct [OF slot_sect_outside(1) [OF pl A(3)]] buf True by (simp add: slot_entry_def G)
    next
      case False
      then show ?thesis using ct [OF slot_sect_outside(1) [OF pl that]] by (simp add: slot_entry_def G)
    qed
    then show ?thesis using that False by simp
  qed
  then have ent: "entries ?f cs = (entries f cs)[k := h (slot_entry f cs k)]"
    by (intro nth_equalityI) (simp_all add: G)
  have "at_slot ?f cs v k (set_vol v ?f c)"
    using at A(3) G fok by (simp add: at_slot_def unchanged_refl)
  moreover have "content ?f t = content f t" if "t \<noteq> 0" "\<forall>j < slots f cs. t \<noteq> slot_sect f cs j" for t
    using ct [OF that(1)] that(2) A(3) by auto
  ultimately show ?thesis using w fok pl' sv(2) ent by (auto simp: dir_vol_def)
qed

subsection \<open>A directory that holds a list of entries\<close>

text \<open>Some volume behind the cursor has the entries \<open>es\<close> and differs from \<open>f0\<close> in this directory only.\<close>

definition dir_holds :: "Fat \<Rightarrow> uint32 list \<Rightarrow> nat \<Rightarrow> nat \<Rightarrow> byte list list \<Rightarrow> cursor \<Rightarrow> bool" where
  "dir_holds f0 cs v k es c \<longleftrightarrow> (\<exists>f. dir_vol f cs \<and> same_volume f0 f \<and> at_slot f cs v k c \<and> entries f cs = es \<and>
     (\<forall>t. t \<noteq> 0 \<longrightarrow> (\<forall>j < slots f0 cs. t \<noteq> slot_sect f0 cs j) \<longrightarrow> content f t = content f0 t))"

text \<open>What the operations on the directory leave alone.\<close>

definition kept :: "cursor \<Rightarrow> cursor \<Rightarrow> bool" where
  "kept c c' \<longleftrightarrow> g_buf c' = g_buf c \<and> d_sclust (dir c') = d_sclust (dir c) \<and> d_fat (dir c') = d_fat (dir c)"

lemma kept_refl [simp]: "kept c c"
  by (simp add: kept_def)

lemma kept_trans: "kept a b \<Longrightarrow> kept b c \<Longrightarrow> kept a c"
  by (simp add: kept_def)

lemma kept_moves [simp]:
  "kept c (set_vol v g c)" "kept c (on_dir (slot_dir f cs k) c)" "kept c (set_vol v g (on_dir (slot_dir f cs k) c))"
  by (simp_all add: kept_def on_dir_def slot_dir_def)

lemma dir_holdsE:
  assumes "dir_holds f0 cs v k es c"
  obtains f where "dir_vol f cs" "same_volume f0 f" "at_slot f cs v k c" "entries f cs = es" "k < length es"
    "length es = slots f0 cs" "slot_sect f = slot_sect f0" "slot_dir f = slot_dir f0"
    "\<forall>t. t \<noteq> 0 \<longrightarrow> (\<forall>j < slots f0 cs. t \<noteq> slot_sect f0 cs j) \<longrightarrow> content f t = content f0 t"
proof -
  from assms obtain f where f: "dir_vol f cs" "same_volume f0 f" "at_slot f cs v k c" "entries f cs = es"
    "\<forall>t. t \<noteq> 0 \<longrightarrow> (\<forall>j < slots f0 cs. t \<noteq> slot_sect f0 cs j) \<longrightarrow> content f t = content f0 t"
    by (auto simp: dir_holds_def)
  have "length es = slots f cs" using f(4) by auto
  then show thesis using that f at_slotD(3) [OF f(3)] same_slots [OF f(2)] by simp
qed

lemma holds_load:
  assumes "dir_holds f0 cs v k es c"
  shows "\<exists>c'. dir_load c = Some (Inr (), c') \<and> dir_holds f0 cs v k es c' \<and> dir_ptr c' = es ! k \<and> kept c c'"
    "length (h (es ! k)) = 32 \<Longrightarrow> \<exists>c1 c2. dir_load c = Some (Inr (), c1) \<and> dir_write h c1 = Some (Inr (), c2) \<and>
      dir_holds f0 cs v k (es[k := h (es ! k)]) c2 \<and> kept c c2"
proof -
  from assms obtain f where f: "dir_vol f cs" "same_volume f0 f" "at_slot f cs v k c" "entries f cs = es" "k < length es"
    "length es = slots f0 cs" "slot_sect f = slot_sect f0"
    "\<forall>t. t \<noteq> 0 \<longrightarrow> (\<forall>j < slots f0 cs. t \<noteq> slot_sect f0 cs j) \<longrightarrow> content f t = content f0 t" by (rule dir_holdsE)
  have pl: "dir_placed f cs" using f(1) by (simp add: dir_vol_def)
  from dir_load_slot [OF pl f(3)] obtain g where
    g: "dir_load c = Some (Inr (), set_vol v g c)" "unchanged f g" "loaded f cs v k (set_vol v g c)" by blast
  have e: "slot_entry f cs k = es ! k" using f(4) at_slotD(3) [OF f(3)] by auto
  have "dir_holds f0 cs v k es (set_vol v g c)"
    using f at_slot_vol [OF f(3) g(2)] by (auto simp: dir_holds_def)
  then show "\<exists>c'. dir_load c = Some (Inr (), c') \<and> dir_holds f0 cs v k es c' \<and> dir_ptr c' = es ! k \<and> kept c c'"
    using g(1) loaded_ptr [OF pl g(3)] e by (intro exI [of _ "set_vol v g c"]) simp
  show "\<exists>c1 c2. dir_load c = Some (Inr (), c1) \<and> dir_write h c1 = Some (Inr (), c2) \<and>
      dir_holds f0 cs v k (es[k := h (es ! k)]) c2 \<and> kept c c2" if len: "length (h (es ! k)) = 32"
  proof -
    from dir_write_slot [OF f(1) g(3), of h] len e obtain f' where
      w: "dir_write h (set_vol v g c) = Some (Inr (), set_vol v f' (set_vol v g c))" "dir_vol f' cs" "same_volume f f'"
        "at_slot f' cs v k (set_vol v f' (set_vol v g c))" "entries f' cs = es[k := h (es ! k)]"
        "\<forall>t. t \<noteq> 0 \<longrightarrow> (\<forall>j < slots f cs. t \<noteq> slot_sect f cs j) \<longrightarrow> content f' t = content f t"
      using f(4) by auto
    have "dir_holds f0 cs v k (es[k := h (es ! k)]) (set_vol v f' (set_vol v g c))"
      unfolding dir_holds_def
      using w f(7,8) same_volume_trans [OF f(2) w(3)] same_slots(1) [OF f(2)] by (intro exI [of _ f']) auto
    moreover have "kept c (set_vol v f' (set_vol v g c))" by (simp add: kept_def)
    ultimately show ?thesis using g(1) w(1) by blast
  qed
qed

lemma holds_next:
  assumes "dir_holds f0 cs v k es c" "Suc k < length es"
  shows "\<exists>c'. dir_next c = Some (Inr (), c') \<and> dir_holds f0 cs v (Suc k) es c' \<and> kept c c'"
proof -
  from assms(1) obtain f where f: "dir_vol f cs" "same_volume f0 f" "at_slot f cs v k c" "entries f cs = es" "length es = slots f0 cs"
    "\<forall>t. t \<noteq> 0 \<longrightarrow> (\<forall>j < slots f0 cs. t \<noteq> slot_sect f0 cs j) \<longrightarrow> content f t = content f0 t" by (rule dir_holdsE)
  have k: "Suc k < slots f cs" using assms(2) f(4) by auto
  from dir_next_slot(1) [OF _ _ f(3) k] dir_volD [OF f(1)] obtain g where
    g: "dir_next c = Some (Inr (), set_vol v g (on_dir (slot_dir f cs (Suc k)) c))" "unchanged f g" by blast
  have "dir_holds f0 cs v (Suc k) es (set_vol v g (on_dir (slot_dir f cs (Suc k)) c))"
    using f at_slot_moved [OF f(3) g(2) k] by (auto simp: dir_holds_def)
  then show ?thesis using g(1) by (intro exI [of _ "set_vol v g (on_dir (slot_dir f cs (Suc k)) c)"]) simp
qed

text \<open>Going back to a slot whose sector and index were noted.\<close>

lemma sect_to_clust_slot:
  assumes "dir_placed f cs" "k < slots f cs"
  shows "sect_to_clust f (slot_sect f cs k) = cs ! (k div per_cluster f)"
proof -
  let ?s = "unat (clust_shift f)" and ?c = "cs ! (k div per_cluster f)" and ?j = "k mod per_cluster f div 16"
  note N = slot_sect_nat [OF assms]
  have c: "2 \<le> unat ?c" using assms(1) nth_mem [OF N(2)] by (auto simp: dir_placed_def word_le_nat_alt)
  have "data_sect f \<le> slot_sect f cs k" using N(1) by (simp add: word_le_nat_alt)
  then have "unat (slot_sect f cs k - data_sect f) = (unat ?c - 2) * 2 ^ ?s + ?j" using N(1) by (simp add: unat_sub)
  then have "unat (drop_bit ?s (slot_sect f cs k - data_sect f)) = unat ?c - 2"
    unfolding unat_drop_bit_eq unfolding drop_bit_eq_div using N(3) by simp
  then have "drop_bit ?s (slot_sect f cs k - data_sect f) = ?c - 2"
    using c by (simp add: word_unat_eq_iff unat_sub word_le_nat_alt)
  then show ?thesis by (simp add: sect_to_clust_def)
qed

lemma holds_jump:
  assumes "dir_holds f0 cs v k es c" "p < length es"
  shows "dir_holds f0 cs v p es (on_dir (\<lambda>d. d\<lparr>d_clust := sect_to_clust (vol c) (slot_sect f0 cs p), d_sect := slot_sect f0 cs p,
      d_idx := of_nat (slot_idx p)\<rparr>) c)"
proof -
  from assms(1) obtain f where f: "dir_vol f cs" "same_volume f0 f" "at_slot f cs v k c" "entries f cs = es" "k < length es"
    "length es = slots f0 cs" "slot_sect f = slot_sect f0"
    "\<forall>t. t \<noteq> 0 \<longrightarrow> (\<forall>j < slots f0 cs. t \<noteq> slot_sect f0 cs j) \<longrightarrow> content f t = content f0 t" by (rule dir_holdsE)
  note A = at_slotD [OF f(3)]
  have p: "p < slots f cs" using assms(2) f(4) by auto
  have "sect_to_clust (vol c) (slot_sect f0 cs p) = cs ! (p div per_cluster f)"
    using sect_to_clust_slot [OF _ p] f(1,7) unchanged_fields(6) [OF A(2)] A(4) by (simp add: dir_vol_def)
  then have "at_slot f cs v p (on_dir (\<lambda>d. d\<lparr>d_clust := sect_to_clust (vol c) (slot_sect f0 cs p), d_sect := slot_sect f0 cs p,
      d_idx := of_nat (slot_idx p)\<rparr>) c)"
    using A(1,2) p f(7) by (simp add: at_slot_def on_dir_def slot_dir_def)
  then show ?thesis using f by (auto simp: dir_holds_def)
qed

subsection \<open>Looking for room\<close>

text \<open>The scan as a function on the entries from slot \<open>k\<close> on: where the first sequence of \<open>need\<close> free
  entries begins, when there is one with an entry behind it.\<close>

fun room :: "nat \<Rightarrow> nat \<Rightarrow> bool \<Rightarrow> nat \<Rightarrow> byte list list \<Rightarrow> (bool \<times> nat) option" where
  "room need cnt eod k [] = (if need \<le> cnt then Some (eod, k - cnt) else None)"
| "room need cnt eod k (e # es) =
     (if need \<le> cnt then Some (eod, k - cnt)
      else if es = [] then None
      else room need (if eod \<or> sfn_is_free e then cnt + 1 else 0) (eod \<or> sfn_is_last e) (k + 1) es)"

text \<open>The place of the first entry counted so far.\<close>

definition noted :: "Fat \<Rightarrow> uint32 list \<Rightarrow> nat \<Rightarrow> nat \<Rightarrow> uint32 \<Rightarrow> uint16 \<Rightarrow> bool" where
  "noted f0 cs cnt k s i \<longleftrightarrow> cnt \<le> k \<and> (0 < cnt \<longrightarrow> s = slot_sect f0 cs (k - cnt) \<and> i = of_nat (slot_idx (k - cnt)))"

lemma add_scan_holds:
  assumes "room need cnt eod k (drop k es) = Some (eod', p)" "dir_holds f0 cs v k es c" "noted f0 cs cnt k s i" "0 < need" "cnt \<le> need"
  shows "\<exists>c'. add_scan need cnt eod s i c = Some (Inr (eod', slot_sect f0 cs p, of_nat (slot_idx p)), c') \<and>
    dir_holds f0 cs v (p + need) es c' \<and> kept c c'"
  using assms
proof (induction "length es - k" arbitrary: cnt eod k c s i)
  case 0
  then have "k < length es" using dir_holdsE [of f0 cs v k es c] by metis
  then show ?case using 0 by simp
next
  case (Suc n)
  have k: "k < length es" using Suc.prems(2) dir_holdsE [of f0 cs v k es c] by metis
  then have d: "drop k es = es ! k # drop (Suc k) es" by (simp add: Cons_nth_drop_Suc)
  show ?case
  proof (cases "need \<le> cnt")
    case True
    then have "cnt = need" using Suc.prems(5) by simp
    then have "eod' = eod" "p = k - need" "need \<le> k" using Suc.prems(1,3) unfolding d by (simp_all add: noted_def)
    moreover have "add_scan need cnt eod s i c = ret (eod, s, i) c" by (subst add_scan.simps) (simp add: True)
    ultimately show ?thesis using Suc.prems(2,3,4) \<open>cnt = need\<close> by (simp add: noted_def)
  next
    case False
    let ?e = "es ! k"
    let ?free = "eod \<or> sfn_is_free ?e"
    let ?cnt = "if ?free then cnt + 1 else 0" and ?eod = "eod \<or> sfn_is_last ?e"
    have k1: "Suc k < length es" and r: "room need ?cnt ?eod (k + 1) (drop (Suc k) es) = Some (eod', p)"
      using Suc.prems(1) False unfolding d by (auto split: if_splits)
    from holds_load(1) [OF Suc.prems(2)] obtain c1 where
      c1: "dir_load c = Some (Inr (), c1)" "dir_holds f0 cs v k es c1" "dir_ptr c1 = ?e" "kept c c1" by blast
    from holds_next [OF c1(2) k1] obtain c2 where
      c2: "dir_next c1 = Some (Inr (), c2)" "dir_holds f0 cs v (Suc k) es c2" "kept c1 c2" by blast
    have pos: "d_sect (dir c1) = slot_sect f0 cs k" "d_idx (dir c1) = of_nat (slot_idx k)"
      using c1(2) by (auto elim!: dir_holdsE dest: at_slotD(6,7))
    let ?s = "if ?free \<and> cnt = 0 then d_sect (dir c1) else s" and ?i = "if ?free \<and> cnt = 0 then d_idx (dir c1) else i"
    have "dir_next_stretch c1 = Some (Inr (), c2)" using c2(1) by (simp add: dir_next_stretch_def)
    then have step: "add_scan need cnt eod s i c = add_scan need ?cnt ?eod ?s ?i c2"
      using False c1(1,3) by (subst add_scan.simps) (simp add: Let_def)
    have "noted f0 cs ?cnt (Suc k) ?s ?i"
      using Suc.prems(3) pos by (auto simp: noted_def)
    moreover have "n = length es - Suc k" "?cnt \<le> need" using Suc.hyps(2) False by auto
    ultimately obtain c' where "add_scan need ?cnt ?eod ?s ?i c2 = Some (Inr (eod', slot_sect f0 cs p, of_nat (slot_idx p)), c')"
      "dir_holds f0 cs v (p + need) es c'" "kept c2 c'"
      using Suc.hyps(1) [of "Suc k" ?cnt ?eod c2 ?s ?i] r c2(2) Suc.prems(4) by auto
    then show ?thesis unfolding step using kept_trans [OF c1(4) kept_trans [OF c2(3)]] by blast
  qed
qed

text \<open>What is known of the place found: all its entries are free or behind the end marker, no end marker is in
  front of it, and there is an entry behind it.\<close>

lemma room_spec:
  assumes "room need cnt eod k (drop k es) = Some (eod', p)" "k < length es" "cnt \<le> k"
    and cnt: "\<And>j. k - cnt \<le> j \<Longrightarrow> j < k \<Longrightarrow> sfn_is_free (es ! j) \<or> (\<exists>t < j. sfn_is_last (es ! t))"
    and eod: "eod \<longleftrightarrow> (\<exists>t < k. sfn_is_last (es ! t))" and last: "\<And>t. t < k - cnt \<Longrightarrow> \<not> sfn_is_last (es ! t)"
    and need: "cnt \<le> need"
  shows "p + need < length es \<and> (\<forall>j. p \<le> j \<and> j < p + need \<longrightarrow> sfn_is_free (es ! j) \<or> (\<exists>t < j. sfn_is_last (es ! t))) \<and>
    (\<forall>t < p. \<not> sfn_is_last (es ! t)) \<and> (eod' \<longleftrightarrow> (\<exists>t < p + need. sfn_is_last (es ! t)))"
  using assms
proof (induction "length es - k" arbitrary: cnt eod k)
  case (Suc n)
  have d: "drop k es = es ! k # drop (Suc k) es" using Suc.prems(2) by (simp add: Cons_nth_drop_Suc)
  show ?case
  proof (cases "need \<le> cnt")
    case True
    then have c: "cnt = need" using Suc.prems(7) by simp
    then have "eod' = eod" "p = k - cnt" using Suc.prems(1) unfolding d by simp_all
    then show ?thesis using Suc.prems c by auto
  next
    case False
    let ?e = "es ! k"
    let ?free = "eod \<or> sfn_is_free ?e"
    let ?cnt = "if ?free then cnt + 1 else 0" and ?eod = "eod \<or> sfn_is_last ?e"
    have k1: "Suc k < length es" and r: "room need ?cnt ?eod (Suc k) (drop (Suc k) es) = Some (eod', p)"
      using Suc.prems(1) False unfolding d by (auto split: if_splits)
    have lf: "sfn_is_last e \<Longrightarrow> sfn_is_free e" for e by (simp add: sfn_is_last_def sfn_is_free_def)
    show ?thesis
    proof (rule Suc.hyps(1) [OF _ r k1])
      show "n = length es - Suc k" using Suc.hyps(2) by simp
      show "?cnt \<le> Suc k" "?cnt \<le> need" using Suc.prems(3) False by auto
      show "sfn_is_free (es ! j) \<or> (\<exists>t < j. sfn_is_last (es ! t))" if "Suc k - ?cnt \<le> j" "j < Suc k" for j
        using that Suc.prems(4) [of j] Suc.prems(5) by (cases "j = k") (auto split: if_splits)
      show "?eod \<longleftrightarrow> (\<exists>t < Suc k. sfn_is_last (es ! t))" using Suc.prems(5) less_Suc_eq by auto
      show "\<not> sfn_is_last (es ! t)" if "t < Suc k - ?cnt" for t
        using that Suc.prems(5) Suc.prems(6) [of t] lf by (cases "t = k") (auto split: if_splits simp: less_Suc_eq)
    qed
  qed
qed simp

subsection \<open>Writing the entries\<close>

lemma holds_lengths:
  assumes "dir_holds f0 cs v k es c" "j < length es"
  shows "length (es ! j) = 32"
proof -
  from assms(1) obtain f where f: "dir_vol f cs" "at_slot f cs v k c" "entries f cs = es" "length es = slots f0 cs"
    by (rule dir_holdsE)
  have "length (content f s) = 512" for s
    using f(1) by (auto simp: dir_vol_def volume_ok_def cache_ok_def content_def)
  then have "length (slot_entry f cs j) = 32" using slot_idx_nat(2) [of j] by (simp add: slot_entry_def entry_in_def)
  then show ?thesis using assms(2) f(3) by auto
qed

lemma length_new_entries [simp]:
  "length (lfn_entry msk i crc name e) = length e" "length short = 11 \<Longrightarrow> 11 \<le> length e \<Longrightarrow> length (new_sfn short a cl stamp e) = length e"
  by (simp_all add: lfn_entry_def new_sfn_def Let_def split: prod.split)

primrec put_frags :: "nat \<Rightarrow> byte \<Rightarrow> byte \<Rightarrow> char list \<Rightarrow> nat \<Rightarrow> byte list list \<Rightarrow> byte list list" where
  "put_frags 0 msk crc name k es = es"
| "put_frags (Suc n) msk crc name k es =
     put_frags n 0 crc name (Suc k) (es[k := lfn_entry msk (Suc n) crc name (es ! k)])"

lemma length_put_frags [simp]: "length (put_frags n msk crc name k es) = length es"
  by (induction n arbitrary: msk k es) simp_all

lemma add_lfns_holds:
  "dir_holds f0 cs v k es c \<Longrightarrow> k + n < length es \<Longrightarrow>
    \<exists>c'. add_lfns n msk crc name c = Some (Inr (), c') \<and> dir_holds f0 cs v (k + n) (put_frags n msk crc name k es) c' \<and> kept c c'"
proof (induction n arbitrary: msk k es c)
  case (Suc n)
  let ?h = "lfn_entry msk (Suc n) crc name"
  have "length (es ! k) = 32" using holds_lengths [OF Suc.prems(1), of k] Suc.prems(2) by simp
  then have "length (?h (es ! k)) = 32" by simp
  from holds_load(2) [OF Suc.prems(1), of ?h, OF this] obtain c1 c2 where
    c2: "dir_load c = Some (Inr (), c1)" "dir_write ?h c1 = Some (Inr (), c2)" "dir_holds f0 cs v k (es[k := ?h (es ! k)]) c2" "kept c c2"
    by blast
  from holds_next [OF c2(3)] Suc.prems(2) obtain c3 where
    c3: "dir_next c2 = Some (Inr (), c3)" "dir_holds f0 cs v (Suc k) (es[k := ?h (es ! k)]) c3" "kept c2 c3" by auto
  from Suc.IH [OF c3(2), of 0] Suc.prems(2) obtain c' where
    c': "add_lfns n 0 crc name c3 = Some (Inr (), c')"
      "dir_holds f0 cs v (Suc k + n) (put_frags n 0 crc name (Suc k) (es[k := ?h (es ! k)])) c'" "kept c3 c'" by auto
  have "add_lfns (Suc n) msk crc name c = Some (Inr (), c')" using c2(1,2) c3(1) c'(1) by simp
  then show ?case using c'(2) kept_trans [OF c2(4) kept_trans [OF c3(3) c'(3)]] by auto
qed auto

text \<open>The entries after \<^verbatim>\<open>dir_add\<close>.\<close>

definition lfn_count :: "char list \<Rightarrow> nat" where
  "lfn_count name = (length name + 12) div 13"

definition end_marked :: "bool \<Rightarrow> nat \<Rightarrow> byte list list \<Rightarrow> byte list list" where
  "end_marked eod k es = (if eod then es[k := (es ! k)[0 := 0x00]] else es)"

definition with_entry :: "char list \<Rightarrow> byte \<Rightarrow> uint32 \<Rightarrow> bool \<Rightarrow> nat \<Rightarrow> byte list list \<Rightarrow> byte list list" where
  "with_entry name a cl eod p es =
     (let n = lfn_count name; short = put_sfn_name name;
          es1 = put_frags n LFN_HEAD_MSK (get_crc short) name p (end_marked eod (p + n + 1) es)
      in es1[p + n := new_sfn short a cl encode_timestamp (es1 ! (p + n))])"

lemma dir_add_holds:
  assumes dv: "dir_vol f cs" and c: "d_fat (dir c) = Some v" "volumes c v = f" "d_sclust (dir c) = hd cs"
    and name: "name \<noteq> []" "length name \<le> 255"
    and r: "room (lfn_count name + 1) 0 False 0 (entries f cs) = Some (eod, p)"
  shows "\<exists>c'. dir_add name a cl c = Some (Inr (), c') \<and>
    dir_holds f cs v (p + lfn_count name) (with_entry name a cl eod p (entries f cs)) c' \<and> kept c c'"
proof -
  let ?n = "lfn_count name" and ?es = "entries f cs" and ?short = "put_sfn_name name"
  have pl: "dir_placed f cs" and vok: "volume_ok f" using dv by (simp_all add: dir_vol_def)
  have "cs \<noteq> []" using pl by (auto simp: dir_placed_def)
  then have "2 \<le> hd cs" using pl by (auto simp: dir_placed_def)
  then have sc: "d_sclust (dir c) \<noteq> 0" using c(3) by auto
  let ?c0 = "dir_enter (d_sclust (dir c)) c"
  have e0: "?c0 = dir_at_clust (d_sclust (dir c)) c" using sc by (simp add: dir_enter_def Let_def on_dir_def)
  have "at_slot f cs v 0 ?c0" unfolding e0 using pl c vok by (intro slot_0) simp_all
  then have h0: "dir_holds f cs v 0 ?es ?c0" unfolding dir_holds_def using dv by (intro exI [of _ f]) simp
  have k0: "kept c ?c0" unfolding e0 by (simp add: kept_def dir_at_clust_def on_dir_def)
  have "room (?n + 1) 0 False 0 (drop 0 ?es) = Some (eod, p)" using r by simp
  note S = room_spec [OF this]
  have len: "p + (?n + 1) < length ?es" using S slots_pos [OF pl] by simp
  from add_scan_holds [of "?n + 1" 0 False 0 ?es eod p f cs v ?c0 0 0] r h0 obtain c1 where
    c1: "add_scan (?n + 1) 0 False 0 0 ?c0 = Some (Inr (eod, slot_sect f cs p, of_nat (slot_idx p)), c1)"
      "dir_holds f cs v (p + (?n + 1)) ?es c1" "kept ?c0 c1" by (auto simp: noted_def)
  let ?es1 = "end_marked eod (p + ?n + 1) ?es"
  have "\<exists>c2. (if eod then bind_io (dir_load c1) (\<lambda>_ c2. dir_write (\<lambda>e. e[0 := 0x00]) c2) else ret () c1) = Some (Inr (), c2) \<and>
      dir_holds f cs v (p + (?n + 1)) ?es1 c2 \<and> kept c1 c2"
  proof (cases eod)
    case True
    have "length ((?es ! (p + (?n + 1)))[0 := 0x00 :: byte]) = 32" using holds_lengths [OF c1(2) len] by simp
    from holds_load(2) [OF c1(2), of "\<lambda>e. e[0 := 0x00]", OF this] obtain d1 d2 where
      "dir_load c1 = Some (Inr (), d1)" "dir_write (\<lambda>e. e[0 := 0x00]) d1 = Some (Inr (), d2)"
      "dir_holds f cs v (p + (?n + 1)) (?es[p + (?n + 1) := (?es ! (p + (?n + 1)))[0 := 0x00]]) d2" "kept c1 d2" by blast
    then show ?thesis using True by (simp add: end_marked_def)
  next
    case False
    then show ?thesis using c1(2) by (simp add: end_marked_def)
  qed
  then obtain c2 where c2: "(if eod then bind_io (dir_load c1) (\<lambda>_ c2. dir_write (\<lambda>e. e[0 := 0x00]) c2) else ret () c1) = Some (Inr (), c2)"
    "dir_holds f cs v (p + (?n + 1)) ?es1 c2" "kept c1 c2" by blast
  have len1: "length ?es1 = length ?es" by (simp add: end_marked_def)
  let ?c3 = "on_dir (\<lambda>d. d\<lparr>d_clust := sect_to_clust (vol c2) (slot_sect f cs p), d_sect := slot_sect f cs p, d_idx := of_nat (slot_idx p)\<rparr>) c2"
  have h3: "dir_holds f cs v p ?es1 ?c3" using holds_jump [OF c2(2), of p] len len1 by simp
  have k3: "kept c2 ?c3" by (simp add: kept_def on_dir_def)
  from add_lfns_holds [OF h3, of ?n LFN_HEAD_MSK "get_crc ?short" name] len len1 obtain c4 where
    c4: "add_lfns ?n LFN_HEAD_MSK (get_crc ?short) name ?c3 = Some (Inr (), c4)"
      "dir_holds f cs v (p + ?n) (put_frags ?n LFN_HEAD_MSK (get_crc ?short) name p ?es1) c4" "kept ?c3 c4" by auto
  let ?es2 = "put_frags ?n LFN_HEAD_MSK (get_crc ?short) name p ?es1" and ?h = "new_sfn ?short a cl encode_timestamp"
  have "length (?es2 ! (p + ?n)) = 32" using holds_lengths [OF c4(2), of "p + ?n"] len len1 by simp
  then have "length (?h (?es2 ! (p + ?n))) = 32" by (simp add: length_put_sfn_name)
  from holds_load(2) [OF c4(2), of ?h, OF this] obtain c5 c6 where
    c6: "dir_load c4 = Some (Inr (), c5)" "dir_write ?h c5 = Some (Inr (), c6)"
      "dir_holds f cs v (p + ?n) (?es2[p + ?n := ?h (?es2 ! (p + ?n))]) c6" "kept c4 c6" by blast
  have "dir_add name a cl c = Some (Inr (), c6)"
  proof -
    have "\<not> (name = [] \<or> length name > 255)" using name by auto
    then have "dir_add name a cl c = bind_io (Some (Inr (eod, slot_sect f cs p, of_nat (slot_idx p)), c1)) (\<lambda>(eod, s, i) c1.
        bind_io (if eod then bind_io (dir_load c1) (\<lambda>_ c2. dir_write (\<lambda>e. e[0 := 0x00]) c2) else ret () c1) (\<lambda>_ c2.
        bind_io (add_lfns ?n LFN_HEAD_MSK (get_crc ?short) name
          (on_dir (\<lambda>d. d\<lparr>d_clust := sect_to_clust (vol c2) s, d_sect := s, d_idx := i\<rparr>) c2)) (\<lambda>_ c4.
        bind_io (dir_load c4) (\<lambda>_ c5. dir_write ?h c5))))"
      unfolding c1(1) [symmetric] dir_add_def Let_def lfn_count_def by (simp only: if_False)
    then show ?thesis unfolding bind_io_simps prod.case c2(1) c4(1) c6(1,2) .
  qed
  moreover have "kept c c6"
    by (rule kept_trans [OF k0 kept_trans [OF c1(3) kept_trans [OF c2(3) kept_trans [OF k3 kept_trans [OF c4(3) c6(4)]]]]])
  moreover have "?es2[p + ?n := ?h (?es2 ! (p + ?n))] = with_entry name a cl eod p ?es" by (simp only: with_entry_def Let_def)
  ultimately show ?thesis using c6(3) by (simp only:) blast
qed

end
