(* ===== verification/Fat_Lookup.thy ===== *)
theory Fat_Lookup
  imports Fat_Insert
begin

text \<open>
  A search after an addition, on the list of the entries: \<open>lookup\<close> passes the entries in front of the new
  ones as it did before and then stops at the new short entry.
\<close>

subsection \<open>The entries written\<close>

lemma read_frag_cong:
  "\<forall>k \<in> set ks. raw ! k = raw' ! k \<Longrightarrow> read_frag ks raw pos bn = read_frag ks raw' pos bn"
proof (induction ks arbitrary: pos bn)
  case (Cons k ks)
  then show ?case by (cases bn) (simp add: Let_def)
next
  case Nil
  then show ?case by (cases bn) simp
qed

lemma lfn_entry_fields:
  assumes "length e = 32"
  shows "sfn_attr (lfn_entry msk i crc name e) = FAT_ATTR_LFN" "lfn_crc (lfn_entry msk i crc name e) = crc"
    "lfn_seq (lfn_entry msk i crc name e) = msk OR of_nat i"
    "read_frag g_lfn_indices (lfn_entry msk i crc name e) pos bn =
       read_frag g_lfn_indices (put_lfn_name_frag e (take 13 (drop (13 * (i - 1)) name))) pos bn"
proof -
  show "read_frag g_lfn_indices (lfn_entry msk i crc name e) pos bn =
       read_frag g_lfn_indices (put_lfn_name_frag e (take 13 (drop (13 * (i - 1)) name))) pos bn"
    by (rule read_frag_cong) (simp add: g_lfn_indices_def lfn_entry_def put16_def)
qed (use assms in \<open>simp_all add: sfn_attr_def lfn_crc_def lfn_seq_def lfn_entry_def put16_def\<close>)

lemma new_sfn_fields:
  assumes "length e = 32" "length short = 11"
  shows "sfn_name (new_sfn short a cl stamp e) = short" "sfn_attr (new_sfn short a cl stamp e) = a"
    "sfn_cluster (new_sfn short a cl stamp e) = cl" "sfn_size (new_sfn short a cl stamp e) = 0"
proof -
  obtain d t where st: "stamp = (d, t)" by (cases stamp)
  let ?s = "new_sfn short a cl stamp e"
  have b: "?s ! 11 = a" "?s ! 20 = ucast (ucast (drop_bit 16 cl) :: uint16)" "?s ! 21 = ucast (drop_bit 8 (ucast (drop_bit 16 cl) :: uint16))"
    "?s ! 26 = ucast (ucast cl :: uint16)" "?s ! 27 = ucast (drop_bit 8 (ucast cl :: uint16))"
    using assms by (simp_all add: st new_sfn_def Let_def put16_def put32_def)
  show "sfn_attr ?s = a" by (simp add: sfn_attr_def b(1))
  show "sfn_cluster ?s = cl"
  proof (rule bit_word_eqI)
    fix n assume "n < LENGTH(32)"
    consider "n < 8" | "8 \<le> n" "n < 16" | "16 \<le> n" "n < 24" | "24 \<le> n" by linarith
    then show "bit (sfn_cluster ?s) n = bit cl n"
      using \<open>n < LENGTH(32)\<close> by cases (auto simp: sfn_cluster_def sfn_clust_hi_def sfn_clust_lo_def get16_def b(2-5) bit_simps)
  qed
  show "sfn_size ?s = 0" using assms get32_put32 [of 28 "new_sfn short a cl stamp e" 0] by (simp add: st sfn_size_def new_sfn_def Let_def get32_put32)
  show "sfn_name ?s = short" using assms by (simp add: st sfn_name_def new_sfn_def Let_def put16_def put32_def)
qed

lemma put_frags_nth:
  "k + n \<le> length es \<Longrightarrow> put_frags n msk crc name k es ! j =
    (if k \<le> j \<and> j < k + n then lfn_entry (if j = k then msk else 0) (n - (j - k)) crc name (es ! j) else es ! j)"
proof (induction n arbitrary: msk k es)
  case (Suc n)
  have "put_frags (Suc n) msk crc name k es ! j = (if Suc k \<le> j \<and> j < Suc k + n
      then lfn_entry (if j = Suc k then 0 else 0) (n - (j - Suc k)) crc name (es[k := lfn_entry msk (Suc n) crc name (es ! k)] ! j)
      else es[k := lfn_entry msk (Suc n) crc name (es ! k)] ! j)"
    using Suc.IH [of "Suc k" "es[k := lfn_entry msk (Suc n) crc name (es ! k)]" 0] Suc.prems by simp
  then show ?case using Suc.prems by (auto simp: Suc_diff_Suc nth_list_update)
qed auto

text \<open>The entries of one name, the last fragment of the name first.\<close>

definition frags :: "nat \<Rightarrow> byte \<Rightarrow> char list \<Rightarrow> byte list list \<Rightarrow> bool" where
  "frags n crc name es \<longleftrightarrow> n < length es \<and>
     (\<forall>i < n. \<exists>msk e. length e = 32 \<and> es ! i = lfn_entry msk (n - i) crc name e)"

lemma frags_Suc:
  assumes "frags (Suc n) crc name es"
  obtains msk e es' where "es = lfn_entry msk (Suc n) crc name e # es'" "length e = 32" "frags n crc name es'" "es' \<noteq> []"
proof -
  obtain x es' where es: "es = x # es'" using assms by (cases es) (auto simp: frags_def)
  from assms obtain msk e where "length e = 32" "x = lfn_entry msk (Suc n) crc name e"
    unfolding frags_def es by (metis diff_zero nth_Cons_0 zero_less_Suc)
  moreover have "\<forall>i < n. \<exists>msk e. length e = 32 \<and> es' ! i = lfn_entry msk (n - i) crc name e"
    using assms unfolding frags_def es by (metis Suc_less_eq diff_Suc_Suc nth_Cons_Suc)
  then have "frags n crc name es'" "es' \<noteq> []" using assms by (auto simp: frags_def es)
  ultimately show thesis using that es by blast
qed

lemma read_frags_written:
  assumes "frags n crc name es" "\<forall>c \<in> set name. plain_char c" "13 * n \<le> length name + 12" "length name \<le> length b"
  shows "read_frags n crc es (b, len) =
    Inr (map char_byte (take (13 * n) name) @ drop (length (take (13 * n) name)) b, len + length (take (13 * n) name))"
  using assms
proof (induction n arbitrary: es b len)
  case (Suc n)
  from frags_Suc [OF Suc.prems(1)] obtain msk e es' where
    es: "es = lfn_entry msk (Suc n) crc name e # es'" "length e = 32" "frags n crc name es'" "es' \<noteq> []" .
  define w where "w = take 13 (drop (13 * n) name)"
  let ?b = "take (13 * n) b @ map char_byte w @ drop (13 * n + length w) b"
  have l: "13 * n \<le> length name" "13 * n + length w \<le> length b" "length w \<le> 13"
    using Suc.prems(3,4) by (auto simp: w_def)
  have "\<forall>c \<in> set w. plain_char c" using Suc.prems(2) unfolding w_def by (meson in_set_dropD in_set_takeD)
  then have "read_frag g_lfn_indices (lfn_entry msk (Suc n) crc name e) (13 * n) (b, len) = (True, ?b, len + length w)"
    using frag_round_trip [OF es(2) l(3) _ l(2), of len] by (simp add: lfn_entry_fields(4) [OF es(2)] w_def)
  then have step: "read_frags (Suc n) crc es (b, len) = read_frags n crc es' (?b, len + length w)"
    using es by (simp add: lfn_entry_fields(1,2) [OF es(2)])
  have "length name \<le> length ?b" using l Suc.prems(4) by simp
  moreover have "length (take (13 * n) name) = 13 * n" using l(1) by simp
  ultimately have "read_frags n crc es' (?b, len + length w) =
      Inr (map char_byte (take (13 * n) name) @ drop (13 * n) ?b, len + length w + 13 * n)"
    using Suc.IH [OF es(3) Suc.prems(2), of ?b "len + length w"] Suc.prems(3) by (simp only:) simp
  moreover have "drop (13 * n) ?b = map char_byte w @ drop (13 * n + length w) b" using l Suc.prems(4) by simp
  moreover have t: "take (13 * Suc n) name = take (13 * n) name @ w"
    using take_add [of "13 * n" 13 name] by (simp add: add.commute w_def)
  moreover have "length (take (13 * Suc n) name) = 13 * n + length w" unfolding t using l by simp
  ultimately show ?case unfolding step by (simp only: map_append append_assoc) (simp only: add.assoc add.commute)
qed simp

lemma put_sfn_name_bytes:
  assumes "x \<in> set (put_sfn_name name)"
  shows "x \<noteq> SFN_LAST" "x \<noteq> SFN_FREE"
proof -
  have specials: "\<forall>c \<in> set sfn_specials. char_byte c \<noteq> 0 \<and> char_byte c \<noteq> 0xe5" by code_simp
  from assms consider "x = SFN_PAD" | c where "x = char_byte (sfn_char c)"
    by (auto simp: put_sfn_name_def pad_to_def Let_def)
  then have "x \<noteq> SFN_LAST \<and> x \<noteq> SFN_FREE"
  proof cases
    case 2
    show ?thesis using sfn_char_range [of c]
    proof
      assume "65 \<le> (of_char (sfn_char c) :: nat) \<and> (of_char (sfn_char c) :: nat) \<le> 90"
      then show ?thesis unfolding 2 by (auto simp: word_unat_eq_iff unat_char_byte SFN_LAST_def SFN_FREE_def)
    qed (use specials 2 in \<open>simp add: SFN_LAST_def SFN_FREE_def\<close>)
  qed (simp add: SFN_PAD_def SFN_LAST_def SFN_FREE_def)
  then show "x \<noteq> SFN_LAST" "x \<noteq> SFN_FREE" by simp_all
qed

subsection \<open>Finding the name just written\<close>

lemma lfn_count_bounds:
  assumes "name \<noteq> []" "length name \<le> 255"
  shows "0 < lfn_count name" "lfn_count name \<le> 20" "length name \<le> 13 * lfn_count name" "13 * lfn_count name \<le> length name + 12"
proof -
  have "0 < length name" using assms(1) by simp
  then show "0 < lfn_count name" "lfn_count name \<le> 20" "length name \<le> 13 * lfn_count name"
    "13 * lfn_count name \<le> length name + 12"
    using assms(2) unfolding lfn_count_def by presburger+
qed

lemma seq_bits:
  assumes "n \<le> 20"
  shows "(LFN_HEAD_MSK OR of_nat n) AND LFN_HEAD_MSK \<noteq> 0" "unat ((LFN_HEAD_MSK OR of_nat n) AND LFN_SEQ_MSK) = n"
    "LFN_HEAD_MSK OR of_nat n \<noteq> SFN_LAST" "LFN_HEAD_MSK OR of_nat n \<noteq> SFN_FREE"
proof -
  have "\<forall>n \<in> set [0..<21]. (LFN_HEAD_MSK OR of_nat n) AND LFN_HEAD_MSK \<noteq> 0 \<and>
      unat ((LFN_HEAD_MSK OR of_nat n) AND LFN_SEQ_MSK) = n \<and>
      LFN_HEAD_MSK OR of_nat n \<noteq> SFN_LAST \<and> LFN_HEAD_MSK OR of_nat n \<noteq> SFN_FREE" by code_simp
  moreover have "n \<in> set [0..<21]" using assms by simp
  ultimately show "(LFN_HEAD_MSK OR of_nat n) AND LFN_HEAD_MSK \<noteq> 0" "unat ((LFN_HEAD_MSK OR of_nat n) AND LFN_SEQ_MSK) = n"
    "LFN_HEAD_MSK OR of_nat n \<noteq> SFN_LAST" "LFN_HEAD_MSK OR of_nat n \<noteq> SFN_FREE" by blast+
qed

lemma char_byte_inj: "map char_byte xs = map char_byte ys \<longleftrightarrow> xs = ys"
proof -
  have "inj char_byte"
  proof (rule injI)
    fix c d :: char assume "char_byte c = char_byte d"
    then have "(of_char c :: nat) = of_char d" by (metis unat_char_byte)
    then show "c = d" by simp
  qed
  then show ?thesis by (rule inj_map_eq_map)
qed

text \<open>At the entries of a name written by \<^verbatim>\<open>dir_add\<close> a search for that name stops, and any other goes on behind them.\<close>

lemma lookup_written:
  fixes es :: "byte list list" and name :: "char list"
  defines "n \<equiv> lfn_count name" and "s \<equiv> es ! lfn_count name"
  assumes fr: "frags n (get_crc (sfn_name s)) name es"
    and head: "length e = 32" "hd es = lfn_entry LFN_HEAD_MSK n (get_crc (sfn_name s)) name e"
    and name: "name \<noteq> []" "length name \<le> 255" "\<forall>c \<in> set name. plain_char c" and b: "length name \<le> length b"
    and s: "\<not> sfn_is_free s" "\<not> sfn_is_lfn s"
  shows "lookup short other k es b = (if other = name then Inr (k, k + n)
    else lookup short other (k + n + 1) (drop (n + 1) es) (map char_byte name @ drop (length name) b))"
proof -
  obtain e0 es' where es: "es = e0 # es'" using fr by (cases es) (auto simp: frags_def)
  note N = lfn_count_bounds [OF name(1,2), folded n_def]
  note B = seq_bits [OF N(2)]
  have e0: "e0 = lfn_entry LFN_HEAD_MSK n (get_crc (sfn_name s)) name e" using head(2) es by simp
  note F = lfn_entry_fields [OF head(1), of LFN_HEAD_MSK n "get_crc (sfn_name s)" name, folded e0]
  have kind: "\<not> sfn_is_last e0" "\<not> sfn_is_free e0" "sfn_is_lfn e0" "frag_count e0 = n"
    using B F unfolding sfn_is_last_def sfn_is_free_def sfn_is_lfn_def frag_count_def lfn_seq_def by auto
  have "read_frags n (lfn_crc e0) es (b, 0) =
      Inr (map char_byte (take (13 * n) name) @ drop (length (take (13 * n) name)) b, 0 + length (take (13 * n) name))"
    unfolding F(2) by (rule read_frags_written [OF fr name(3) N(4) b])
  then have R: "read_name es b = Inr (map char_byte name @ drop (length name) b, length name)"
    using kind(4) F(3) B(1) N(2,3) name(2) unfolding read_name_def es by simp
  have eq: "length name = length other \<and> take (length name) (map char_byte name @ drop (length name) b) = map char_byte other \<longleftrightarrow> other = name"
    using char_byte_inj [of name other] by auto
  have "(e0 # es') ! n = s" by (simp add: s_def n_def es)
  moreover have "drop n es' = drop (n + 1) es" by (simp add: es)
  ultimately show ?thesis
    using kind s F(2) R unfolding lookup.simps(2) es by (auto simp: Let_def eq char_byte_inj)
qed

subsection \<open>Passing the entries in front\<close>

text \<open>The names in use are complete: no long name has a free entry among its fragments or runs over the
  end, and only its first fragment may be short.\<close>

definition full_frag :: "byte list \<Rightarrow> bool" where
  "full_frag e \<longleftrightarrow> (\<forall>k \<in> set g_lfn_indices. e ! k \<noteq> 0)"

definition whole_name :: "byte list list \<Rightarrow> nat \<Rightarrow> bool" where
  "whole_name es k \<longleftrightarrow> k + frag_count (es ! k) < length es \<and> (\<forall>j \<le> frag_count (es ! k). \<not> sfn_is_free (es ! (k + j))) \<and>
     (\<forall>j < frag_count (es ! k). 0 < j \<longrightarrow> full_frag (es ! (k + j)))"

definition whole_names :: "byte list list \<Rightarrow> bool" where
  "whole_names es \<longleftrightarrow> (\<forall>k < length es. (\<forall>t \<le> k. \<not> sfn_is_last (es ! t)) \<longrightarrow> \<not> sfn_is_free (es ! k) \<longrightarrow>
     sfn_is_lfn (es ! k) \<longrightarrow> whole_name es k)"

lemma read_frags_cong:
  "take n es = take n es' \<Longrightarrow> length es = length es' \<Longrightarrow> read_frags n crc es bn = read_frags n crc es' bn"
proof (induction n crc es bn arbitrary: es' rule: read_frags.induct)
  case (3 n crc e es bn)
  then obtain es2 where es': "es' = e # es2" "take n es = take n es2" "length es = length es2" by (cases es') auto
  then have "es = [] \<longleftrightarrow> es2 = []" by auto
  then show ?case using 3(1) es' by (auto split: prod.splits)
qed auto

lemma read_frags_complete: "n < length es \<Longrightarrow> read_frags n crc es bn \<noteq> Inl FAT_ERR_EOF"
proof (induction n crc es bn rule: read_frags.induct)
  case (3 n crc e es bn)
  then have "es \<noteq> []" by auto
  then show ?case using 3 by (auto split: prod.splits simp: FAT_ERR_EOF_def FAT_ERR_BROKEN_def)
qed auto

lemma read_frags_length: "read_frags n crc es bn = Inr bn' \<Longrightarrow> length (fst bn') = length (fst bn)"
proof (induction n crc es bn rule: read_frags.induct)
  case (3 n crc e es bn)
  have "read_frag ks e pos bn = (ok, b, m) \<Longrightarrow> length b = length (fst bn)" for ks pos ok b m
  proof (induction ks arbitrary: pos bn)
    case (Cons x ks)
    then show ?case by (cases bn) (auto simp: Let_def split: if_splits)
  next
    case Nil
    then show ?case by (cases bn) simp
  qed
  then show ?case using 3 by (fastforce split: prod.splits if_splits)
qed auto

lemma read_name_length: "read_name es b = Inr (b1, n) \<Longrightarrow> length b1 = length b"
  by (auto simp: read_name_def dest: read_frags_length split: if_splits sum.splits)

lemma drop_at: "k < length es \<Longrightarrow> drop k es = es ! k # drop (Suc k) es"
  by (simp add: Cons_nth_drop_Suc)

lemma lookup_long:
  assumes "k + frag_count (es ! k) < length es" "\<not> sfn_is_last (es ! k)" "\<not> sfn_is_free (es ! k)" "sfn_is_lfn (es ! k)"
  shows "lookup short name k (drop k es) b =
    (case read_name (drop k es) b of
       Inl err \<Rightarrow> Inl err
     | Inr (b1, n) \<Rightarrow>
         let s = es ! (k + frag_count (es ! k))
         in if sfn_is_free s \<or> sfn_is_lfn s \<or> lfn_crc (es ! k) \<noteq> get_crc (sfn_name s) then Inl FAT_ERR_BROKEN
            else if n = length name \<and> take n b1 = map char_byte name then Inr (k, k + frag_count (es ! k))
            else lookup short name (k + frag_count (es ! k) + 1) (drop (k + frag_count (es ! k) + 1) es) b1)"
proof -
  let ?m = "frag_count (es ! k)"
  have d: "drop k es = es ! k # drop (Suc k) es" using assms(1) by (simp add: drop_at)
  have "(es ! k # drop (Suc k) es) ! ?m = es ! (k + ?m)" unfolding d [symmetric] using assms(1) by simp
  moreover have "drop ?m (drop (Suc k) es) = drop (k + ?m + 1) es" by (simp add: add.commute)
  ultimately show ?thesis unfolding d lookup.simps(2) Let_def using assms(2-4) by (simp only: if_True if_False simp_thms)
qed

lemma lookup_skip:
  assumes "k < length es" "\<not> sfn_is_last (es ! k)" "sfn_is_free (es ! k) \<or> \<not> sfn_is_lfn (es ! k)"
  shows "lookup short name k (drop k es) b =
    (if \<not> sfn_is_free (es ! k) \<and> short = sfn_name (es ! k) then Inr (k, k) else lookup short name (k + 1) (drop (k + 1) es) b)"
  using assms unfolding drop_at [OF assms(1)] lookup.simps(2) by auto

lemma read_name_whole:
  assumes "whole_name es k"
  shows "read_name (drop k es) b \<noteq> Inl FAT_ERR_EOF"
proof -
  have "k < length es" using assms by (simp add: whole_name_def)
  then have "hd (drop k es) = es ! k" by (simp add: drop_at)
  moreover have "frag_count (es ! k) < length (drop k es)" using assms unfolding whole_name_def by auto
  note read_frags_complete [OF this]
  ultimately show ?thesis
    unfolding read_name_def by (auto split: sum.splits if_splits simp: FAT_ERR_EOF_def FAT_ERR_BROKEN_def)
qed

text \<open>A long name depends on its own entries only: the search stops there, or goes on behind it.\<close>

definition agree_to :: "nat \<Rightarrow> byte list list \<Rightarrow> byte list list \<Rightarrow> bool" where
  "agree_to n es es' \<longleftrightarrow> length es' = length es \<and> (\<forall>j \<le> n. es' ! j = es ! j)"

lemma agree_to_refl [simp]: "agree_to n es es"
  by (simp add: agree_to_def)

lemma read_name_agree:
  assumes "agree_to (k + frag_count (es ! k)) es es'" "whole_name es k"
  shows "read_name (drop k es') b = read_name (drop k es) b"
proof -
  let ?m = "frag_count (es ! k)"
  have len: "k + ?m < length es" "length es' = length es" "es' ! k = es ! k" using assms by (simp_all add: whole_name_def agree_to_def)
  have "take ?m (drop k es') = take ?m (drop k es)"
    by (rule nth_equalityI) (use assms(1) len in \<open>auto simp: agree_to_def min_def split: if_splits\<close>)
  then have "read_frags ?m crc (drop k es') bn = read_frags ?m crc (drop k es) bn" for crc bn
    using len by (intro read_frags_cong) simp_all
  then show ?thesis unfolding read_name_def using len by (simp add: drop_at)
qed

lemma lookup_long_cases:
  assumes w: "whole_name es k" and e: "\<not> sfn_is_last (es ! k)" "sfn_is_lfn (es ! k)"
  defines "m \<equiv> frag_count (es ! k)"
  obtains r where "r \<noteq> Inl FAT_ERR_EOF" "\<And>es'. agree_to (k + m) es es' \<Longrightarrow> lookup short name k (drop k es') b = r"
  | b1 where "length b1 = length b"
      "\<And>es'. agree_to (k + m) es es' \<Longrightarrow> lookup short name k (drop k es') b = lookup short name (k + m + 1) (drop (k + m + 1) es') b1"
proof -
  let ?s = "es ! (k + m)"
  have free: "\<not> sfn_is_free (es ! k)" using w unfolding whole_name_def by (metis add.right_neutral le0)
  have L: "lookup short name k (drop k es') b =
    (case read_name (drop k es) b of
       Inl err \<Rightarrow> Inl err
     | Inr (b1, n) \<Rightarrow>
         if sfn_is_free ?s \<or> sfn_is_lfn ?s \<or> lfn_crc (es ! k) \<noteq> get_crc (sfn_name ?s) then Inl FAT_ERR_BROKEN
         else if n = length name \<and> take n b1 = map char_byte name then Inr (k, k + m)
         else lookup short name (k + m + 1) (drop (k + m + 1) es') b1)" if a: "agree_to (k + m) es es'" for es'
  proof -
    have eq: "es' ! k = es ! k" "es' ! (k + frag_count (es ! k)) = es ! (k + frag_count (es ! k))" "k + frag_count (es ! k) < length es'"
      using a w by (simp_all add: agree_to_def whole_name_def m_def)
    from lookup_long [of k es' short name b, unfolded eq(1,2) read_name_agree [OF a [unfolded m_def] w], OF eq(3) e(1) free e(2)]
    show ?thesis unfolding m_def Let_def .
  qed
  show thesis
  proof (cases "read_name (drop k es) b")
    case (Inl err)
    then show ?thesis using that(1) [of "Inl err"] L read_name_whole [OF w, of b] by simp
  next
    case (Inr bn)
    obtain b1 n where n: "read_name (drop k es) b = Inr (b1, n)" using Inr by (cases bn) simp
    note S = L [unfolded n sum.case prod.case]
    consider "sfn_is_free ?s \<or> sfn_is_lfn ?s \<or> lfn_crc (es ! k) \<noteq> get_crc (sfn_name ?s)"
      | "\<not> (sfn_is_free ?s \<or> sfn_is_lfn ?s \<or> lfn_crc (es ! k) \<noteq> get_crc (sfn_name ?s))" "n = length name \<and> take n b1 = map char_byte name"
      | "\<not> (sfn_is_free ?s \<or> sfn_is_lfn ?s \<or> lfn_crc (es ! k) \<noteq> get_crc (sfn_name ?s))" "\<not> (n = length name \<and> take n b1 = map char_byte name)"
      by blast
    then show ?thesis
    proof cases
      case 1
      have "FAT_ERR_BROKEN \<noteq> FAT_ERR_EOF" by (simp add: FAT_ERR_EOF_def FAT_ERR_BROKEN_def)
      then show ?thesis using that(1) [of "Inl FAT_ERR_BROKEN"] S unfolding if_P [OF 1] by simp
    next
      case 2
      then show ?thesis using that(1) [of "Inr (k, k + m)"] S unfolding if_not_P [OF 2(1)] if_P [OF 2(2)] by simp
    next
      case 3
      show ?thesis by (rule that(2) [OF read_name_length [OF n]], use S in \<open>unfold if_not_P [OF 3(1)] if_not_P [OF 3(2)]\<close>)
    qed
  qed
qed

lemma whole_name_before:
  assumes "whole_name es k" "k < p" "sfn_is_free (es ! p)"
  shows "k + frag_count (es ! k) < p"
proof (rule ccontr)
  assume "\<not> k + frag_count (es ! k) < p"
  then have "p - k \<le> frag_count (es ! k)" by simp
  then have "\<not> sfn_is_free (es ! (k + (p - k)))" using assms(1) unfolding whole_name_def by blast
  then show False using assms(2,3) by simp
qed

lemma whole_name_inside:
  assumes "whole_name es k" "\<forall>t < k. \<not> sfn_is_last (es ! t)" "t \<le> k + frag_count (es ! k)"
  shows "\<not> sfn_is_last (es ! t)"
proof (cases "t < k")
  case False
  then have "t - k \<le> frag_count (es ! k)" using assms(3) by simp
  then have "\<not> sfn_is_free (es ! (k + (t - k)))" using assms(1) by (simp add: whole_name_def)
  then show ?thesis using False by (auto simp: sfn_is_free_def sfn_is_last_def)
qed (use assms(2) in simp)

text \<open>A search in a list that differs from place \<open>p\<close> on only: it stops in front of \<open>p\<close> in both lists, or gets to \<open>p\<close> in both.\<close>

lemma lookup_in_front:
  assumes agree: "length es' = length es" "\<forall>j < p. es' ! j = es ! j"
    and p: "p < length es" "sfn_is_free (es ! p)" "\<forall>t < p. \<not> sfn_is_last (es ! t)" and whole: "whole_names es"
    and "k \<le> p"
  shows "(\<exists>b'. length b' = length b \<and> lookup short name k (drop k es) b = lookup short name p (drop p es) b' \<and>
      lookup short name k (drop k es') b = lookup short name p (drop p es') b') \<or>
    (lookup short name k (drop k es) b = lookup short name k (drop k es') b \<and> lookup short name k (drop k es) b \<noteq> Inl FAT_ERR_EOF)"
  using \<open>k \<le> p\<close>
proof (induction "p - k" arbitrary: k b rule: less_induct)
  case less
  show ?case
  proof (cases "k = p")
    case True
    then show ?thesis by blast
  next
    case False
    then have k: "k < p" "k < length es" using less.prems(1) p(1) by simp_all
    let ?e = "es ! k"
    have e': "es' ! k = ?e" "k < length es'" using k agree by simp_all
    have nl: "\<not> sfn_is_last ?e" using p(3) k by simp
    have hop: ?thesis if "j > k" "j \<le> p" "length b1 = length b" "lookup short name k (drop k es) b = lookup short name j (drop j es) b1"
      "lookup short name k (drop k es') b = lookup short name j (drop j es') b1" for j b1
      using less.hyps [of j b1] that k by (metis diff_less_mono2)
    show ?thesis
    proof (cases "sfn_is_free ?e \<or> \<not> sfn_is_lfn ?e")
      case True
      note S = lookup_skip [OF k(2) nl True, of short name b] lookup_skip [OF e'(2), unfolded e'(1), OF nl True, of short name b]
      show ?thesis
        using S hop [of "k + 1" b] k(1) by (cases "\<not> sfn_is_free ?e \<and> short = sfn_name ?e") auto
    next
      case lfn: False
      let ?m = "frag_count ?e"
      have "\<forall>t \<le> k. \<not> sfn_is_last (es ! t)" using p(3) k by simp
      then have w: "whole_name es k" using whole lfn k(2) unfolding whole_names_def by blast
      have km: "k + ?m < p" by (rule whole_name_before [OF w k(1) p(2)])
      then have a: "agree_to (k + ?m) es es'" using agree by (simp add: agree_to_def)
      have "sfn_is_lfn ?e" using lfn by simp
      show ?thesis
      proof (rule lookup_long_cases [OF w nl \<open>sfn_is_lfn ?e\<close>, where short = short and name = name and b = b])
        fix r assume "r \<noteq> Inl FAT_ERR_EOF" "\<And>es'. agree_to (k + ?m) es es' \<Longrightarrow> lookup short name k (drop k es') b = r"
        then show ?thesis using a by simp
      next
        fix b1 assume "length b1 = length b" "\<And>es'. agree_to (k + ?m) es es' \<Longrightarrow>
          lookup short name k (drop k es') b = lookup short name (k + ?m + 1) (drop (k + ?m + 1) es') b1"
        then show ?thesis using a km hop [of "k + ?m + 1" b1] by simp
      qed
    qed
  qed
qed

subsection \<open>What was in the buffer does not matter\<close>

lemma read_frag_bufs:
  assumes "read_frag ks raw pos (b, len) = (ok, c, n)" "read_frag ks raw pos (b', len) = (ok', c', n')" "length b' = length b"
  shows "ok' = ok \<and> n' = n \<and> length c = length b \<and> length c' = length b \<and> len \<le> n \<and>
    (\<forall>i < length b. pos \<le> i \<and> i < pos + (n - len) \<or> b ! i = b' ! i \<longrightarrow> c ! i = c' ! i) \<and>
    (ok \<and> (\<forall>k \<in> set ks. raw ! k \<noteq> 0) \<longrightarrow> n = len + length ks)"
  using assms
proof (induction ks arbitrary: pos b b' len)
  case (Cons k ks)
  show ?case
  proof (cases "raw ! k = 0xff \<or> raw ! k = 0")
    case True
    then show ?thesis using Cons.prems by (auto simp: Let_def)
  next
    case False
    let ?x = "raw ! k"
    have r: "read_frag ks raw (pos + 1) (b[pos := ?x], len + 1) = (ok, c, n)"
      "read_frag ks raw (pos + 1) (b'[pos := ?x], len + 1) = (ok', c', n')"
      using Cons.prems(1,2) False by (simp_all add: Let_def)
    have "c ! i = c' ! i" if "i < length b" "pos \<le> i \<and> i < pos + (n - len) \<or> b ! i = b' ! i" "len + 1 \<le> n"
      and ih: "\<forall>i < length b. pos + 1 \<le> i \<and> i < pos + 1 + (n - (len + 1)) \<or> b[pos := ?x] ! i = b'[pos := ?x] ! i \<longrightarrow> c ! i = c' ! i" for i
    proof (cases "i = pos")
      case True
      then show ?thesis using that(1) ih Cons.prems(3) by simp
    next
      case False
      then have "pos + 1 \<le> i \<and> i < pos + 1 + (n - (len + 1)) \<or> b[pos := ?x] ! i = b'[pos := ?x] ! i" using that(2,3) by auto
      then show ?thesis using ih that(1) by blast
    qed
    then show ?thesis using Cons.IH [OF r] Cons.prems(3) by auto
  qed
qed auto

lemma read_frags_bufs:
  assumes "length b' = length b" "n \<le> length es" "\<forall>j < n. j = 0 \<and> len = 0 \<or> full_frag (es ! j)"
    "\<forall>i < length b. 13 * n \<le> i \<and> i < 13 * n + len \<longrightarrow> b ! i = b' ! i"
  shows "case read_frags n crc es (b, len) of
      Inl err \<Rightarrow> read_frags n crc es (b', len) = Inl err
    | Inr (c, m) \<Rightarrow> \<exists>c'. read_frags n crc es (b', len) = Inr (c', m) \<and> length c = length b \<and> length c' = length b \<and> take m c' = take m c"
  using assms
proof (induction n arbitrary: es b b' len)
  case 0
  have "take len b' = take len b" by (rule nth_equalityI) (use 0 in auto)
  then show ?case using 0(1) by simp
next
  case (Suc n)
  obtain e es2 where es: "es = e # es2" using Suc.prems(2) by (cases es) auto
  obtain ok c m where r: "read_frag g_lfn_indices e (13 * n) (b, len) = (ok, c, m)" by (metis prod_cases3)
  obtain ok' c' m' where r': "read_frag g_lfn_indices e (13 * n) (b', len) = (ok', c', m')" by (metis prod_cases3)
  note F = read_frag_bufs [OF r r' Suc.prems(1)]
  show ?case
  proof (cases "sfn_attr e \<noteq> FAT_ATTR_LFN \<or> lfn_crc e \<noteq> crc \<or> \<not> ok \<or> es2 = []")
    case True
    then show ?thesis using F unfolding es by (auto simp: r r')
  next
    case False
    have one: "len = 0 \<or> full_frag e" using Suc.prems(3) [rule_format, of 0] es by auto
    have rest: "\<forall>j < n. full_frag (es2 ! j)"
    proof (intro allI impI)
      fix j assume "j < n"
      then show "full_frag (es2 ! j)" using Suc.prems(3) [rule_format, of "Suc j"] es by auto
    qed
    have "full_frag e \<longrightarrow> m = len + 13" using F False by (auto simp: full_frag_def g_lfn_indices_def)
    then have eq: "c ! i = c' ! i" if "i < length b" "13 * n \<le> i" "i < 13 * n + m" for i
      using F Suc.prems(4) that one by (cases "i < 13 * n + (m - len)") auto
    have "case read_frags n crc es2 (c, m) of
      Inl err \<Rightarrow> read_frags n crc es2 (c', m) = Inl err
    | Inr (d, k) \<Rightarrow> \<exists>d'. read_frags n crc es2 (c', m) = Inr (d', k) \<and> length d = length c \<and> length d' = length c \<and> take k d' = take k d"
      using F rest eq Suc.prems(2) es by (intro Suc.IH) auto
    then show ?thesis using F False unfolding es by (auto simp: r r' split: sum.splits prod.splits)
  qed
qed

lemma read_name_bufs:
  assumes "whole_name es k" "length b' = length b"
  shows "case read_name (drop k es) b of
      Inl err \<Rightarrow> read_name (drop k es) b' = Inl err
    | Inr (c, m) \<Rightarrow> \<exists>c'. read_name (drop k es) b' = Inr (c', m) \<and> length c = length b \<and> length c' = length b \<and> take m c' = take m c"
proof -
  let ?m = "frag_count (es ! k)"
  have len: "k + ?m < length es" and full: "\<forall>j < ?m. 0 < j \<longrightarrow> full_frag (es ! (k + j))" using assms(1) by (simp_all add: whole_name_def)
  then have hd: "hd (drop k es) = es ! k" by (simp add: drop_at)
  have "\<forall>j < ?m. j = 0 \<and> (0 :: nat) = 0 \<or> full_frag (drop k es ! j)" using full len by auto
  then have "case read_frags ?m (lfn_crc (es ! k)) (drop k es) (b, 0) of
      Inl err \<Rightarrow> read_frags ?m (lfn_crc (es ! k)) (drop k es) (b', 0) = Inl err
    | Inr (c, m) \<Rightarrow> \<exists>c'. read_frags ?m (lfn_crc (es ! k)) (drop k es) (b', 0) = Inr (c', m) \<and>
        length c = length b \<and> length c' = length b \<and> take m c' = take m c"
    using len by (intro read_frags_bufs assms(2)) auto
  then show ?thesis unfolding read_name_def hd by (auto split: sum.splits prod.splits)
qed

lemma lookup_bufs:
  assumes "whole_names es" "length b' = length b" "\<forall>t < k. \<not> sfn_is_last (es ! t)"
  shows "lookup short name k (drop k es) b' = lookup short name k (drop k es) b"
  using assms(2,3)
proof (induction "length es - k" arbitrary: k b b' rule: less_induct)
  case less
  let ?e = "es ! k"
  have ih: "lookup short name j (drop j es) c' = lookup short name j (drop j es) c"
    if "k < length es" "k < j" "length c' = length c" "\<forall>t < j. \<not> sfn_is_last (es ! t)" for j c c'
    using less.hyps [of j c' c] that by (metis diff_less_mono2)
  consider "length es \<le> k" | "k < length es" "sfn_is_last ?e" | "k < length es" "\<not> sfn_is_last ?e" by linarith
  then show ?case
  proof cases
    case 3
    have nl: "\<forall>t < Suc k. \<not> sfn_is_last (es ! t)" using less.prems(2) 3(2) less_Suc_eq by auto
    show ?thesis
    proof (cases "sfn_is_free ?e \<or> \<not> sfn_is_lfn ?e")
      case True
      then show ?thesis using ih [of "k + 1" b' b] 3 nl less.prems(1) by (simp add: lookup_skip)
    next
      case False
      then have w: "whole_name es k" and f: "\<not> sfn_is_free ?e" "sfn_is_lfn ?e"
        using assms(1) 3 nl unfolding whole_names_def by auto
      let ?m = "frag_count ?e"
      have len: "k + ?m < length es" using w by (simp add: whole_name_def)
      have "\<forall>t < k + ?m + 1. \<not> sfn_is_last (es ! t)" using whole_name_inside [OF w] less.prems(2) by auto
      then have go: "lookup short name (k + ?m + 1) (drop (k + ?m + 1) es) c' = lookup short name (k + ?m + 1) (drop (k + ?m + 1) es) c"
        if "length c' = length c" for c c' using ih [of "k + ?m + 1" c' c] that 3(1) by auto
      note L = lookup_long [OF len 3(2) f]
      note B = read_name_bufs [OF w less.prems(1)]
      show ?thesis
      proof (cases "read_name (drop k es) b")
        case (Inl err)
        then show ?thesis using B unfolding L by simp
      next
        case (Inr bn)
        obtain c n where c: "read_name (drop k es) b = Inr (c, n)" using Inr by (cases bn) simp
        then obtain c' where c': "read_name (drop k es) b' = Inr (c', n)" "length c' = length c" "take n c' = take n c" using B by auto
        show ?thesis unfolding L c c'(1) sum.case prod.case c'(3) go [OF c'(2)] ..
      qed
    qed
  qed (simp_all add: drop_at lookup.simps(2))
qed

subsection \<open>The entries after an addition\<close>

lemma with_entry_nth:
  fixes a :: byte and cl :: uint32 and eod :: bool and name :: "char list"
  assumes "p + lfn_count name + 1 < length es"
  defines "n \<equiv> lfn_count name" and "short \<equiv> put_sfn_name name" and "es' \<equiv> with_entry name a cl eod p es"
  shows "length es' = length es" "j < p \<or> p + n + 1 < j \<Longrightarrow> es' ! j = es ! j"
    "i < n \<Longrightarrow> es' ! (p + i) = lfn_entry (if i = 0 then LFN_HEAD_MSK else 0) (n - i) (get_crc short) name (es ! (p + i))"
    "es' ! (p + n) = new_sfn short a cl encode_timestamp (es ! (p + n))"
    "es' ! (p + n + 1) = (if eod then (es ! (p + n + 1))[0 := 0x00] else es ! (p + n + 1))"
proof -
  define es1 where "es1 = end_marked eod (p + n + 1) es"
  have l: "length es1 = length es" by (simp add: end_marked_def es1_def)
  have k: "p + n \<le> length es1" using assms(1) l by (simp add: n_def)
  note P = put_frags_nth [OF k, of LFN_HEAD_MSK "get_crc short" name]
  have w: "es' ! j = (if j = p + n then new_sfn short a cl encode_timestamp (es1 ! j)
      else if p \<le> j \<and> j < p + n then lfn_entry (if j = p then LFN_HEAD_MSK else 0) (n - (j - p)) (get_crc short) name (es1 ! j)
      else es1 ! j)" for j
    using assms(1) l unfolding es'_def with_entry_def Let_def n_def [symmetric] short_def [symmetric] es1_def [symmetric]
    by (simp add: P nth_list_update)
  have o: "j \<noteq> p + n + 1 \<Longrightarrow> es1 ! j = es ! j" for j by (simp add: end_marked_def es1_def)
  show "length es' = length es" by (simp add: es'_def with_entry_def end_marked_def Let_def)
  show "j < p \<or> p + n + 1 < j \<Longrightarrow> es' ! j = es ! j" unfolding w using o [of j] by auto
  show "i < n \<Longrightarrow> es' ! (p + i) = lfn_entry (if i = 0 then LFN_HEAD_MSK else 0) (n - i) (get_crc short) name (es ! (p + i))"
    unfolding w using o [of "p + i"] by simp
  show "es' ! (p + n) = new_sfn short a cl encode_timestamp (es ! (p + n))" unfolding w using o [of "p + n"] by simp
  show "es' ! (p + n + 1) = (if eod then (es ! (p + n + 1))[0 := 0x00] else es ! (p + n + 1))"
    unfolding w using assms(1) by (simp add: end_marked_def es1_def n_def)
qed

lemma new_sfn_kind:
  assumes "length e = 32" "a \<noteq> FAT_ATTR_LFN"
  shows "\<not> sfn_is_free (new_sfn (put_sfn_name name) a cl stamp e)" "\<not> sfn_is_lfn (new_sfn (put_sfn_name name) a cl stamp e)"
proof -
  let ?s = "new_sfn (put_sfn_name name) a cl stamp e"
  note S = new_sfn_fields [OF assms(1) length_put_sfn_name, where a = a and cl = cl and stamp = stamp]
  have "?s ! 0 = sfn_name ?s ! 0" by (simp add: sfn_name_def)
  then have "?s ! 0 \<in> set (put_sfn_name name)" unfolding S(1) using length_put_sfn_name [of name] by simp
  then show "\<not> sfn_is_free ?s" using put_sfn_name_bytes unfolding sfn_is_free_def by blast
  show "\<not> sfn_is_lfn ?s" using assms(2) S(2) by (simp add: sfn_is_lfn_def)
qed

lemma lookup_at_new:
  fixes name :: "char list" and es :: "byte list list"
  defines "n \<equiv> lfn_count name"
  assumes fits: "p + n + 1 < length es" and len: "\<forall>e \<in> set es. length e = 32"
    and name: "name \<noteq> []" "length name \<le> 255" "\<forall>c \<in> set name. plain_char c" and b: "length name \<le> length b"
    and a: "a \<noteq> FAT_ATTR_LFN"
  shows "lookup short other p (drop p (with_entry name a cl eod p es)) b = (if other = name then Inr (p, p + n)
    else lookup short other (p + n + 1) (drop (p + n + 1) (with_entry name a cl eod p es)) (map char_byte name @ drop (length name) b))"
proof -
  let ?es = "with_entry name a cl eod p es" and ?short = "put_sfn_name name"
  note W = with_entry_nth [OF fits [unfolded n_def], where a = a and cl = cl and eod = eod, folded n_def]
  have l: "length (es ! (p + i)) = 32" if "i \<le> n" for i using that fits len by simp
  let ?s = "new_sfn ?short a cl encode_timestamp (es ! (p + n))"
  have s: "drop p ?es ! n = ?s" using fits W(1,4) by simp
  have crc: "get_crc (sfn_name ?s) = get_crc ?short" by (simp only: new_sfn_fields(1) [OF l [OF order.refl] length_put_sfn_name])
  have free: "\<not> sfn_is_free ?s" and "\<not> sfn_is_lfn ?s" using new_sfn_kind [OF l [OF order.refl] a] by simp_all
  moreover have "\<exists>msk e. length e = 32 \<and> drop p ?es ! i = lfn_entry msk (n - i) (get_crc ?short) name e" if "i < n" for i
  proof (intro exI conjI)
    show "length (es ! (p + i)) = 32" using l that by simp
    show "drop p ?es ! i = lfn_entry (if i = 0 then LFN_HEAD_MSK else 0) (n - i) (get_crc ?short) name (es ! (p + i))"
      using W(1) W(3) [OF that] that fits by simp
  qed
  then have "frags n (get_crc ?short) name (drop p ?es)" using fits W(1) by (simp add: frags_def)
  moreover have "hd (drop p ?es) = lfn_entry LFN_HEAD_MSK n (get_crc ?short) name (es ! p)"
    using W(1) W(3) [of 0] lfn_count_bounds(1) [OF name(1,2)] fits by (simp add: hd_drop_conv_nth n_def)
  moreover have "length (es ! p) = 32" using l [of 0] by simp
  ultimately show ?thesis
    using lookup_written [of name "drop p ?es" "es ! p" b short other p, folded n_def, unfolded s crc] name b free
    by (simp add: add.commute add.left_commute)
qed

lemma lookup_free:
  assumes "\<forall>j. p \<le> j \<and> j < q \<longrightarrow> sfn_is_free (es ! j) \<or> (\<exists>t < j. sfn_is_last (es ! t))" "\<forall>t < p. \<not> sfn_is_last (es ! t)"
    "p \<le> q" "q \<le> length es"
  shows "lookup short name p (drop p es) b =
    (if \<exists>t < q. sfn_is_last (es ! t) then Inl FAT_ERR_EOF else lookup short name q (drop q es) b)"
  using assms
proof (induction "q - p" arbitrary: p)
  case 0
  then show ?case by auto
next
  case (Suc n)
  then have p: "p < q" "p < length es" by auto
  then have free: "sfn_is_free (es ! p)" using Suc.prems(1,2) by blast
  show ?case
  proof (cases "sfn_is_last (es ! p)")
    case True
    then show ?thesis using p by (auto simp: drop_at lookup.simps(2))
  next
    case False
    have "lookup short name (p + 1) (drop (p + 1) es) b =
      (if \<exists>t < q. sfn_is_last (es ! t) then Inl FAT_ERR_EOF else lookup short name q (drop q es) b)"
      using Suc.hyps(2) Suc.prems p False by (intro Suc.hyps(1)) (auto simp: less_Suc_eq)
    then show ?thesis using lookup_skip [OF p(2) False, of short name b] free by simp
  qed
qed

lemma room_fits:
  assumes "room (n + 1) 0 False 0 es = Some (eod, p)" "es \<noteq> []"
  shows "p + n + 1 < length es" "\<forall>t < p. \<not> sfn_is_last (es ! t)" "eod \<longleftrightarrow> (\<exists>t < p + n + 1. sfn_is_last (es ! t))"
    "\<forall>j. p \<le> j \<and> j < p + n + 1 \<longrightarrow> sfn_is_free (es ! j) \<or> (\<exists>t < j. sfn_is_last (es ! t))"
proof -
  have "room (n + 1) 0 False 0 (drop 0 es) = Some (eod, p)" using assms(1) by simp
  from room_spec [OF this] assms(2)
  show "p + n + 1 < length es" "\<forall>t < p. \<not> sfn_is_last (es ! t)" "eod \<longleftrightarrow> (\<exists>t < p + n + 1. sfn_is_last (es ! t))"
    "\<forall>j. p \<le> j \<and> j < p + n + 1 \<longrightarrow> sfn_is_free (es ! j) \<or> (\<exists>t < j. sfn_is_last (es ! t))" by simp_all
qed

lemma lookup_with_entry:
  fixes name :: "char list" and es :: "byte list list"
  defines "n \<equiv> lfn_count name"
  assumes r: "room (n + 1) 0 False 0 es = Some (eod, p)" and es: "es \<noteq> []" "\<forall>e \<in> set es. length e = 32" "whole_names es"
    and name: "name \<noteq> []" "length name \<le> 255" "\<forall>c \<in> set name. plain_char c" and b: "length name \<le> length b"
    and a: "a \<noteq> FAT_ATTR_LFN"
  shows "lookup short name 0 es b = Inl FAT_ERR_EOF \<Longrightarrow> lookup short name 0 (with_entry name a cl eod p es) b = Inr (p, p + n)"
    "other \<noteq> name \<Longrightarrow> lookup short other 0 (with_entry name a cl eod p es) b = lookup short other 0 es b"
proof -
  let ?es = "with_entry name a cl eod p es" and ?q = "p + n + 1"
  have fits: "?q < length es" and last: "\<forall>t < p. \<not> sfn_is_last (es ! t)" and eod: "eod \<longleftrightarrow> (\<exists>t < ?q. sfn_is_last (es ! t))"
    and free: "\<forall>j. p \<le> j \<and> j < ?q \<longrightarrow> sfn_is_free (es ! j) \<or> (\<exists>t < j. sfn_is_last (es ! t))"
    using room_fits [OF r es(1)] by simp_all
  note W = with_entry_nth [OF fits [unfolded n_def], where a = a and cl = cl and eod = eod, folded n_def]
  have fp: "p < length es" "sfn_is_free (es ! p)" using fits free last by auto
  have agree: "\<forall>j < p. ?es ! j = es ! j" using W(2) by blast
  note N = lookup_at_new [of p name es, folded n_def, OF fits es(2) name _ a, of _ short _ cl eod]
  note front = lookup_in_front [OF W(1) agree fp last es(3), of 0 b short, simplified]
  show "lookup short name 0 es b = Inl FAT_ERR_EOF \<Longrightarrow> lookup short name 0 ?es b = Inr (p, p + n)"
    using front [of name] N b by fastforce
  assume other: "other \<noteq> name"
  show "lookup short other 0 ?es b = lookup short other 0 es b"
  proof (rule disjE [OF front [of other]])
    assume "\<exists>b'. length b' = length b \<and> lookup short other 0 es b = lookup short other p (drop p es) b' \<and>
      lookup short other 0 ?es b = lookup short other p (drop p ?es) b'"
    then obtain b' where b': "length b' = length b" "lookup short other 0 es b = lookup short other p (drop p es) b'"
      "lookup short other 0 ?es b = lookup short other p (drop p ?es) b'" by blast
    let ?b = "map char_byte name @ drop (length name) b'"
    have new: "lookup short other p (drop p ?es) b' = lookup short other ?q (drop ?q ?es) ?b" using N [of b' other] b b'(1) other by simp
    have old: "lookup short other p (drop p es) b' = (if eod then Inl FAT_ERR_EOF else lookup short other ?q (drop ?q es) b')"
      unfolding eod using lookup_free [OF free last] fits by simp
    show ?thesis
    proof (cases eod)
      case True
      have "length (es ! ?q) = 32" using fits es(2) by simp
      then have "sfn_is_last (?es ! ?q)" using W(5) True by (simp add: sfn_is_last_def SFN_LAST_def)
      then have "lookup short other ?q (drop ?q ?es) ?b = Inl FAT_ERR_EOF" using fits W(1) by (simp add: drop_at lookup.simps(2))
      then show ?thesis using b' new old True by simp
    next
      case False
      have "drop ?q ?es = drop ?q es"
      proof (rule nth_equalityI)
        fix i assume "i < length (drop ?q ?es)"
        then show "drop ?q ?es ! i = drop ?q es ! i" using W(1) W(5) False W(2) [of "?q + i"] fits by (cases "i = 0") auto
      qed (simp add: W(1))
      moreover have "\<forall>t < ?q. \<not> sfn_is_last (es ! t)" using False eod by simp
      then have "lookup short other ?q (drop ?q es) ?b = lookup short other ?q (drop ?q es) b'"
        using b b'(1) by (intro lookup_bufs es(3)) auto
      ultimately show ?thesis using b' new old False by simp
    qed
  qed simp
qed

lemma found_if:
  "(if P then Inl err else if Q then Inr (x, y) else r) = Inr (i, j) \<Longrightarrow> \<not> P \<and> (i = x \<and> j = y \<or> r = Inr (i, j))"
  by (auto split: if_splits)

text \<open>What a search stops at is in use and in front of the end marker.\<close>

lemma lookup_found:
  assumes "whole_names es" "lookup short name k (drop k es) b = Inr (i, j)" "\<forall>t < k. \<not> sfn_is_last (es ! t)"
  shows "j < length es \<and> \<not> sfn_is_free (es ! j) \<and> (\<forall>t \<le> j. \<not> sfn_is_last (es ! t)) \<and> i \<le> j"
  using assms(2,3)
proof (induction "length es - k" arbitrary: k b rule: less_induct)
  case less
  let ?e = "es ! k"
  have ih: "lookup short name l (drop l es) c = Inr (i, j) \<Longrightarrow> \<forall>t < l. \<not> sfn_is_last (es ! t) \<Longrightarrow> ?case" if "k < length es" "k < l" for l c
    using less.hyps [of l c] that by (metis diff_less_mono2)
  have k: "k < length es" "\<not> sfn_is_last ?e"
    using less.prems(1) by (cases "k < length es", auto simp: drop_at lookup.simps(2))+
  then have nl: "\<forall>t < k + 1. \<not> sfn_is_last (es ! t)" using less.prems(2) less_Suc_eq by auto
  show ?case
  proof (cases "sfn_is_free ?e \<or> \<not> sfn_is_lfn ?e")
    case True
    then show ?thesis
    proof (cases "\<not> sfn_is_free ?e \<and> short = sfn_name ?e")
      case True
      then have "i = k" "j = k" using less.prems(1) lookup_skip [OF k \<open>sfn_is_free ?e \<or> \<not> sfn_is_lfn ?e\<close>, of short name b] by simp_all
      then show ?thesis using True nl k by (simp add: less_Suc_eq_le)
    next
      case False
      then have "lookup short name (k + 1) (drop (k + 1) es) b = Inr (i, j)"
        using less.prems(1) lookup_skip [OF k \<open>sfn_is_free ?e \<or> \<not> sfn_is_lfn ?e\<close>, of short name b] by (simp only: if_False)
      then show ?thesis using nl k(1) by (intro ih [of "k + 1" b]) simp_all
    qed
  next
    case False
    then have w: "whole_name es k" and f: "\<not> sfn_is_free ?e" "sfn_is_lfn ?e"
      using assms(1) k nl unfolding whole_names_def by auto
    let ?m = "frag_count ?e"
    have len: "k + ?m < length es" using w by (simp add: whole_name_def)
    have nl2: "\<forall>t < k + ?m + 1. \<not> sfn_is_last (es ! t)" using whole_name_inside [OF w] less.prems(2) by auto
    obtain c n where c: "read_name (drop k es) b = Inr (c, n)"
      using less.prems(1) unfolding lookup_long [OF len k(2) f] by (auto split: sum.splits)
    consider "i = k" "j = k + ?m" "\<not> sfn_is_free (es ! (k + ?m))"
      | "lookup short name (k + ?m + 1) (drop (k + ?m + 1) es) c = Inr (i, j)"
      using found_if [OF less.prems(1) [unfolded lookup_long [OF len k(2) f] c sum.case prod.case Let_def]] by blast
    then show ?thesis
    proof cases
      case 1
      have "\<forall>t \<le> j. \<not> sfn_is_last (es ! t)" unfolding 1(2) using nl2 less_Suc_eq_le [of _ "k + ?m"] by simp
      then show ?thesis using 1 len by simp
    next
      case 2
      then show ?thesis using nl2 k(1) by (intro ih [of "k + ?m + 1" c]) simp_all
    qed
  qed
qed

subsection \<open>The names stay complete\<close>

lemma added_fragment:
  assumes "length e = 32" "0 < i" "i \<le> 20" "msk = 0 \<or> msk = LFN_HEAD_MSK"
  shows "\<not> sfn_is_free (lfn_entry msk i crc name e)" "frag_count (lfn_entry msk i crc name e) = i"
proof -
  have "\<forall>n \<in> set [1..<21]. unat ((0 OR of_nat n) AND LFN_SEQ_MSK) = n \<and> 0 OR of_nat n \<noteq> SFN_LAST \<and> 0 OR of_nat n \<noteq> SFN_FREE"
    by code_simp
  moreover have "i \<in> set [1..<21]" using assms(2,3) by simp
  ultimately have "unat ((msk OR of_nat i) AND LFN_SEQ_MSK) = i \<and> msk OR of_nat i \<noteq> SFN_LAST \<and> msk OR of_nat i \<noteq> SFN_FREE"
    using seq_bits [OF assms(3)] assms(4) by blast
  then show "\<not> sfn_is_free (lfn_entry msk i crc name e)" "frag_count (lfn_entry msk i crc name e) = i"
    using lfn_entry_fields(3) [OF assms(1), of msk i crc name] by (simp_all add: sfn_is_free_def frag_count_def lfn_seq_def)
qed

lemma full_fragment:
  assumes "length e = 32" "0 < i" "13 * i \<le> length name" "\<forall>c \<in> set name. plain_char c"
  shows "full_frag (lfn_entry msk i crc name e)"
  unfolding full_frag_def
proof
  fix k assume k: "k \<in> set g_lfn_indices"
  define w where "w = take 13 (drop (13 * (i - 1)) name)"
  have w: "length w = 13" using assms(2,3) unfolding w_def by (cases i) auto
  have "lfn_entry msk i crc name e ! k = put_lfn_name_frag e w ! k"
    using k by (auto simp: g_lfn_indices_def lfn_entry_def put16_def w_def)
  moreover have "put_lfn_name_frag e w ! k \<in> set (map (\<lambda>i. fst (lfn_unit w i)) [0..<13])"
    unfolding put_lfn_name_frag_units [OF assms(1), symmetric] using k by simp
  then obtain j where "j < 13" "put_lfn_name_frag e w ! k = char_byte (w ! j)" using w by (auto simp: lfn_unit_def)
  moreover from this have "w ! j \<in> set name" using w unfolding w_def by (metis nth_mem in_set_takeD in_set_dropD)
  ultimately show "lfn_entry msk i crc name e ! k \<noteq> 0" using assms(4) by (simp add: plain_char_def)
qed

lemma with_entry_whole:
  fixes name :: "char list" and es :: "byte list list"
  defines "n \<equiv> lfn_count name"
  assumes r: "room (n + 1) 0 False 0 es = Some (eod, p)" and es: "es \<noteq> []" "\<forall>e \<in> set es. length e = 32" "whole_names es"
    and name: "name \<noteq> []" "length name \<le> 255" "\<forall>c \<in> set name. plain_char c" and a: "a \<noteq> FAT_ATTR_LFN"
  shows "whole_names (with_entry name a cl eod p es)" (is "whole_names ?es")
  unfolding whole_names_def
proof (intro allI impI)
  fix k assume k: "k < length ?es" "\<forall>t \<le> k. \<not> sfn_is_last (?es ! t)" "\<not> sfn_is_free (?es ! k)" "sfn_is_lfn (?es ! k)"
  have fits: "p + n + 1 < length es" and last: "\<forall>t < p. \<not> sfn_is_last (es ! t)" and eod: "eod \<longleftrightarrow> (\<exists>t < p + n + 1. sfn_is_last (es ! t))"
    and free: "\<forall>j. p \<le> j \<and> j < p + n + 1 \<longrightarrow> sfn_is_free (es ! j) \<or> (\<exists>t < j. sfn_is_last (es ! t))"
    using room_fits [OF r es(1)] by simp_all
  note W = with_entry_nth [OF fits [unfolded n_def], where a = a and cl = cl and eod = eod, folded n_def]
  note N = lfn_count_bounds [OF name(1,2), folded n_def]
  have len: "length (es ! (p + i)) = 32" if "i \<le> n + 1" for i using that fits es(2) by simp
  have fp: "sfn_is_free (es ! p)" using free last by auto
  consider "k < p" | i where "i < n" "k = p + i" | "k = p + n" | "p + n < k"
    by (metis le_add_diff_inverse less_add_eq_less linorder_neqE_nat nat_add_left_cancel_less not_le)
  then show "whole_name ?es k"
  proof cases
    case 1
    have kk: "?es ! t = es ! t" if "t < p" for t using W(2) that by blast
    have w: "whole_name es k" using es(3) k last kk fits 1 unfolding whole_names_def by auto
    have m: "k + frag_count (es ! k) < p" by (rule whole_name_before [OF w 1 fp])
    have same: "?es ! (k + j) = es ! (k + j)" if "j \<le> frag_count (es ! k)" for j using kk m that by simp
    show ?thesis using w unfolding whole_name_def kk [OF 1] W(1) by (simp add: same)
  next
    case (2 i)
    let ?msk = "if i = 0 then LFN_HEAD_MSK else 0"
    have e: "?es ! (p + j) = lfn_entry (if j = 0 then LFN_HEAD_MSK else 0) (n - j) (get_crc (put_sfn_name name)) name (es ! (p + j))"
      "length (es ! (p + j)) = 32" if "j < n" for j using W(3) len that by simp_all
    have F: "\<not> sfn_is_free (?es ! (p + j))" "frag_count (?es ! (p + j)) = n - j" if "j < n" for j
      using added_fragment [OF e(2) [OF that], of "n - j"] N(2) that unfolding e(1) [OF that] by auto
    have full: "full_frag (?es ! (p + j))" if "j < n" "0 < j" for j
      unfolding e(1) [OF that(1)] using that N(4) by (intro full_fragment e(2) name(3)) auto
    have "\<not> sfn_is_free (?es ! (p + n))" using new_sfn_kind(1) [OF len a] W(4) by simp
    then have "\<not> sfn_is_free (?es ! (p + j))" if "j \<le> n" for j using F(1) that by (cases "j = n") auto
    then show ?thesis
      using F(2) [OF 2(1)] full fits W(1) 2 unfolding whole_name_def by (simp add: add.assoc)
  next
    case 3
    then show ?thesis using k(4) new_sfn_kind(2) [OF len a] W(4) by simp
  next
    case 4
    have ne: "\<not> eod"
    proof
      assume eod
      have "length (es ! (p + n + 1)) = 32" using len [of "n + 1"] by (simp add: add.assoc)
      then have "sfn_is_last (?es ! (p + n + 1))" using W(5) \<open>eod\<close> by (simp add: sfn_is_last_def SFN_LAST_def)
      then show False using k(2) 4 by auto
    qed
    have kk: "?es ! t = es ! t" if "p + n < t" for t using that W(5) W(2) [of t] ne by (cases "t = p + n + 1") auto
    have "\<not> sfn_is_last (es ! t)" if "t \<le> k" for t
      using that k(2) kk [of t] ne eod by (cases "t < p + n + 1") auto
    then have "whole_name es k" using es(3) k 4 kk W(1) unfolding whole_names_def by auto
    then show ?thesis unfolding whole_name_def W(1) kk [OF 4] using 4 by (simp add: kk)
  qed
qed

text \<open>What a search for another name stops at is the same entry.\<close>

lemma found_same:
  fixes name :: "char list" and es :: "byte list list"
  defines "n \<equiv> lfn_count name"
  assumes r: "room (n + 1) 0 False 0 es = Some (eod, p)" and es: "es \<noteq> []" "\<forall>e \<in> set es. length e = 32"
    and old: "\<not> sfn_is_free (es ! j)" "\<forall>t \<le> j. \<not> sfn_is_last (es ! t)"
    and new: "\<not> sfn_is_free (with_entry name a cl eod p es ! j)"
  shows "with_entry name a cl eod p es ! j = es ! j"
proof -
  let ?es = "with_entry name a cl eod p es"
  have fits: "p + n + 1 < length es"
    and free: "\<forall>j. p \<le> j \<and> j < p + n + 1 \<longrightarrow> sfn_is_free (es ! j) \<or> (\<exists>t < j. sfn_is_last (es ! t))"
    using room_fits [OF r es(1)] by simp_all
  note W = with_entry_nth [OF fits [unfolded n_def], where a = a and cl = cl and eod = eod, folded n_def]
  have "\<not> (p \<le> j \<and> j < p + n + 1)" using free old by (meson less_imp_le)
  then consider "j < p \<or> p + n + 1 < j" | "j = p + n + 1" by linarith
  then show ?thesis
  proof cases
    case 2
    have "length (es ! (p + n + 1)) = 32" using fits es(2) by simp
    then show ?thesis using W(5) new 2 by (auto simp: sfn_is_free_def SFN_LAST_def split: if_splits)
  qed (rule W(2))
qed

end
