(* ===== verification/Fat_Remove.thy ===== *)
theory Fat_Remove
  imports Fat_Lookup
begin

text \<open>
  Removing a name: the effect of \<^verbatim>\<open>remove_entries\<close> on the list of the entries (\<open>freed\<close>), and what a search finds
  afterwards.
\<close>

definition freed :: "nat \<Rightarrow> nat \<Rightarrow> byte list list \<Rightarrow> byte list list" where
  "freed p q es = map (\<lambda>j. if p \<le> j \<and> j \<le> q then (es ! j)[0 := SFN_FREE] else es ! j) [0..<length es]"

lemma freed_nth [simp]:
  "length (freed p q es) = length es"
  "j < length es \<Longrightarrow> freed p q es ! j = (if p \<le> j \<and> j \<le> q then (es ! j)[0 := SFN_FREE] else es ! j)"
  by (simp_all add: freed_def)

lemma freed_behind: "drop (Suc q) (freed p q es) = drop (Suc q) es"
  by (rule nth_equalityI) auto

lemma freed_step: "p \<le> k \<Longrightarrow> k < length es \<Longrightarrow> freed p k es = (if p = k then es else freed p (k - 1) es)[k := (es ! k)[0 := SFN_FREE]]"
  by (rule nth_equalityI) (auto simp: nth_list_update)

lemma freed_entry: "length e = 32 \<Longrightarrow> sfn_is_free (e[0 := SFN_FREE]) \<and> \<not> sfn_is_last (e[0 := SFN_FREE])"
  by (simp add: sfn_is_free_def sfn_is_last_def SFN_LAST_def SFN_FREE_def)

subsection \<open>Searching afterwards\<close>

text \<open>A search that would have ended at the removed name goes on behind it; every other search ends as before.\<close>

lemma lookup_start: "lookup short name k es b = Inr (i, j) \<Longrightarrow> k \<le> i \<and> i \<le> j"
proof (induction short name k es b rule: lookup.induct)
  case (2 short name k e es b)
  then show ?case
    by (auto simp: lookup.simps(2) Let_def split: if_splits sum.splits prod.splits) fastforce+
qed simp

lemma lookup_freed_and_place:
  assumes es: "whole_names es" "\<forall>e \<in> set es. length e = 32" and b: "length b' = length b"
    and nl: "\<forall>t < k. \<not> sfn_is_last (es ! t)" and found: "lookup short name k (drop k es) b = Inr (p, q)"
  shows "lookup short' name' k (drop k (freed p q es)) b' =
    (if lookup short' name' k (drop k es) b' = Inr (p, q) then lookup short' name' (q + 1) (drop (q + 1) es) b'
     else lookup short' name' k (drop k es) b') \<and>
    (\<forall>i j. lookup short' name' k (drop k es) b' = Inr (i, j) \<longrightarrow> (i, j) = (p, q) \<or> j < p \<or> q < i)"
  using nl found b
proof (induction "length es - k" arbitrary: k b b' rule: less_induct)
  case less
  let ?e = "es ! k" and ?F = "freed p q es"
  let ?goal = "\<lambda>k b'. lookup short' name' k (drop k ?F) b' =
    (if lookup short' name' k (drop k es) b' = Inr (p, q) then lookup short' name' (q + 1) (drop (q + 1) es) b'
     else lookup short' name' k (drop k es) b') \<and>
    (\<forall>i j. lookup short' name' k (drop k es) b' = Inr (i, j) \<longrightarrow> (i, j) = (p, q) \<or> j < p \<or> q < i)"
  have later: "q < i" if "lookup short' name' l (drop l es) c = Inr (i, j)" "q < l" for l c i j
    using lookup_start [OF that(1)] that(2) by simp
  have k: "k < length es" "\<not> sfn_is_last ?e"
    using less.prems(2) by (cases "k < length es", auto simp: drop_at lookup.simps(2))+
  have nl: "\<forall>t < k + 1. \<not> sfn_is_last (es ! t)" using less.prems(1) k(2) less_Suc_eq by auto
  have kp: "k \<le> p" "p \<le> q" using lookup_start [OF less.prems(2)] by auto
  have q: "q < length es" "\<forall>t \<le> q. \<not> sfn_is_last (es ! t)" using lookup_found [OF es(1) less.prems(2,1)] by auto
  have qb: "lookup short' name' (q + 1) (drop (q + 1) es) c = lookup short' name' (q + 1) (drop (q + 1) es) b'"
    if "length c = length b" for c
    using q(2) that less.prems(3) by (intro lookup_bufs es(1)) auto
  have F: "?F ! j = es ! j" if "j < p" for j using that kp(2) q(1) by simp
  have free: "sfn_is_free (?F ! j) \<and> \<not> sfn_is_last (?F ! j)" if "p \<le> j" "j \<le> q" for j
    using that q(1) es(2) freed_entry [of "es ! j"] by simp
  have behind: "lookup short' name' p (drop p ?F) b' = lookup short' name' (q + 1) (drop (q + 1) es) b'"
  proof -
    have nlF: "\<not> sfn_is_last (?F ! t)" if "t < q + 1" for t
      using free [of t] F [of t] q(2) that by (cases "t < p") auto
    have "\<forall>j. p \<le> j \<and> j < q + 1 \<longrightarrow> sfn_is_free (?F ! j) \<or> (\<exists>t < j. sfn_is_last (?F ! t))"
      using free by (simp add: less_Suc_eq_le)
    moreover have "\<forall>t < p. \<not> sfn_is_last (?F ! t)" "p \<le> q + 1" "q + 1 \<le> length ?F" using F q kp(2) by auto
    ultimately have eq: "lookup short' name' p (drop p ?F) b' =
      (if \<exists>t < q + 1. sfn_is_last (?F ! t) then Inl FAT_ERR_EOF else lookup short' name' (q + 1) (drop (q + 1) ?F) b')"
      by (rule lookup_free)
    have no: "\<not> (\<exists>t < q + 1. sfn_is_last (?F ! t))" using nlF by blast
    show ?thesis using eq freed_behind [of q p es] unfolding if_not_P [OF no] by simp
  qed
  show ?case
  proof (cases "sfn_is_free ?e \<or> \<not> sfn_is_lfn ?e")
    case True
    note S = lookup_skip [OF k True]
    show ?thesis
    proof (cases "\<not> sfn_is_free ?e \<and> short = sfn_name ?e")
      case here: True
      then have pq: "p = k" "q = k" using less.prems(2) unfolding S by simp_all
      have after: "q < i" if "lookup short' name' (k + 1) (drop (k + 1) es) b' = Inr (i, j)" for i j
        using later [OF that] pq by simp
      show ?thesis
        using behind after unfolding pq S by (cases "\<not> sfn_is_free ?e \<and> short' = sfn_name ?e") auto
    next
      case False
      then have r: "lookup short name (k + 1) (drop (k + 1) es) b = Inr (p, q)" using less.prems(2) unfolding S if_not_P [OF False] by blast
      have p: "k < p" using lookup_start [OF r] by simp
      have "?goal (k + 1) b'" using less.hyps [of "k + 1" b b'] k(1) nl r less.prems(3) by simp
      moreover have "lookup short' name' k (drop k ?F) b' =
        (if \<not> sfn_is_free ?e \<and> short' = sfn_name ?e then Inr (k, k) else lookup short' name' (k + 1) (drop (k + 1) ?F) b')"
        using lookup_skip [of k ?F short' name' b'] k True F [OF p] by simp
      ultimately show ?thesis using p unfolding S [of short' name'] by auto
    qed
  next
    case False
    then have f: "\<not> sfn_is_free ?e" "sfn_is_lfn ?e" by auto
    have w: "whole_name es k" using es(1) k f nl unfolding whole_names_def by auto
    let ?m = "frag_count ?e"
    have len: "k + ?m < length es" using w by (simp add: whole_name_def)
    have nl2: "\<forall>t < k + ?m + 1. \<not> sfn_is_last (es ! t)" using whole_name_inside [OF w] less.prems(1) by auto
    let ?s = "es ! (k + ?m)" and ?j = "k + ?m + 1"
    note L = lookup_long [OF len k(2) f]
    obtain c n where c: "read_name (drop k es) b = Inr (c, n)"
      using less.prems(2) unfolding L by (auto split: sum.splits)
    have ok: "\<not> (sfn_is_free ?s \<or> sfn_is_lfn ?s \<or> lfn_crc ?e \<noteq> get_crc (sfn_name ?s))"
      using found_if [OF less.prems(2) [unfolded L c sum.case prod.case Let_def]] by blast
    obtain c' where c': "read_name (drop k es) b' = Inr (c', n)" "length c = length b" "length c' = length b" "take n c' = take n c"
      using read_name_bufs [OF w less.prems(3)] c by auto
    have N: "lookup short' name' k (drop k es) b' =
      (if n = length name' \<and> take n c = map char_byte name' then Inr (k, k + ?m) else lookup short' name' ?j (drop ?j es) c')"
      unfolding L c'(1) using ok c'(4) by (simp add: Let_def)
    have R: "(if n = length name \<and> take n c = map char_byte name then Inr (k, k + ?m) else lookup short name ?j (drop ?j es) c) = Inr (p, q)"
      using less.prems(2) unfolding L c using ok by (simp add: Let_def)
    have bj: "lookup short' name' ?j (drop ?j es) c' = lookup short' name' ?j (drop ?j es) b'"
      using nl2 c'(3) less.prems(3) by (intro lookup_bufs es(1)) auto
    show ?thesis
    proof (cases "n = length name \<and> take n c = map char_byte name")
      case True
      then have pq: "p = k" "q = k + ?m" using R unfolding if_P [OF True] by auto
      have after: "q < i" if "lookup short' name' ?j (drop ?j es) c' = Inr (i, j)" for i j
        using later [OF that] pq by simp
      show ?thesis
        using behind bj after unfolding pq N by (cases "n = length name' \<and> take n c = map char_byte name'") auto
    next
      case False
      then have r: "lookup short name ?j (drop ?j es) c = Inr (p, q)" using R unfolding if_not_P [OF False] by blast
      have p: "k + ?m < p" using lookup_start [OF r] by simp
      have goal: "?goal ?j c'" using less.hyps [of ?j c c'] k(1) nl2 r c'(2,3) by simp
      have a: "agree_to (k + ?m) es ?F" using F p by (simp add: agree_to_def)
      have FK: "?F ! k = ?e" "?F ! (k + ?m) = ?s" using F p by simp_all
      have "lookup short' name' k (drop k ?F) b' =
        (if n = length name' \<and> take n c = map char_byte name' then Inr (k, k + ?m) else lookup short' name' ?j (drop ?j ?F) c')"
        using lookup_long [of k ?F short' name' b', unfolded FK read_name_agree [OF a w]] len k(2) f ok c'(1,4) by (simp add: Let_def)
      then show ?thesis using goal p qb [OF c'(3)] unfolding N by auto
    qed
  qed
qed

lemmas lookup_freed = lookup_freed_and_place [THEN conjunct1]

lemma found_elsewhere:
  assumes "whole_names es" "\<forall>e \<in> set es. length e = 32" "lookup short name 0 es b = Inr (p, q)"
    and "lookup short' name' 0 es b = Inr (i, j)" "(i, j) \<noteq> (p, q)"
  shows "j < p \<or> q < i"
  using lookup_freed_and_place [OF assms(1,2) refl _, of 0 short name b p q short' name'] assms(3-5) by auto

subsection \<open>The removal\<close>

text \<open>Where a cursor is shows which slot it is at.\<close>

lemma holds_place:
  assumes "dir_holds f0 cs v k es c" "q < length es"
  shows "d_sect (dir c) = slot_sect f0 cs q \<and> d_idx (dir c) = of_nat (slot_idx q) \<longleftrightarrow> k = q"
proof -
  from assms(1) obtain f where f: "dir_vol f cs" "at_slot f cs v k c" "entries f cs = es" "slot_sect f = slot_sect f0"
    by (rule dir_holdsE)
  note A = at_slotD [OF f(2)]
  have q: "q < slots f cs" using assms(2) f(3) by auto
  have "slot_idx k = slot_idx q" if "(of_nat (slot_idx k) :: uint16) = of_nat (slot_idx q)"
    using arg_cong [OF that, of unat] by (simp only: slot_idx_nat(1))
  then show ?thesis
    using A(3,6,7) slot_place_inj [OF _ A(3) q] f(1,4) by (auto simp: dir_vol_def)
qed

lemma remove_loop_holds:
  assumes "dir_holds f0 cs v k (if p = k then es else freed p (k - 1) es) c" "p \<le> k" "k \<le> q" "q < length es"
    and len: "\<forall>e \<in> set es. length e = 32"
  shows "\<exists>c'. remove_entries_loop (slot_sect f0 cs q) (of_nat (slot_idx q)) c = Some (Inr (), c') \<and>
    dir_holds f0 cs v q (freed p q es) c' \<and> kept c c'"
  using assms(1-3)
proof (induction "q - k" arbitrary: k c rule: less_induct)
  case less
  let ?es = "if p = k then es else freed p (k - 1) es"
  have k: "k < length es" using less.prems(3) assms(4) by simp
  have e: "?es ! k = es ! k" using k less.prems(2) by auto
  have "length ((?es ! k)[0 := SFN_FREE]) = 32" using len k unfolding e by simp
  from holds_load(2) [OF less.prems(1), of "\<lambda>e. e[0 := SFN_FREE]", OF this] obtain c1 c2 where
    c2: "dir_load c = Some (Inr (), c1)" "dir_write (\<lambda>e. e[0 := SFN_FREE]) c1 = Some (Inr (), c2)"
      "dir_holds f0 cs v k (?es[k := (?es ! k)[0 := SFN_FREE]]) c2" "kept c c2" by blast
  have h: "dir_holds f0 cs v k (freed p k es) c2"
    using c2(3) unfolding e freed_step [OF less.prems(2) k, symmetric] .
  have at: "d_sect (dir c2) = slot_sect f0 cs q \<and> d_idx (dir c2) = of_nat (slot_idx q) \<longleftrightarrow> k = q"
    using holds_place [OF h] assms(4) by simp
  show ?case
  proof (cases "k = q")
    case True
    have "remove_entries_loop (slot_sect f0 cs q) (of_nat (slot_idx q)) c = Some (Inr (), c2)"
      by (subst remove_entries_loop.simps) (use at True in \<open>simp only: c2(1,2) bind_io_simps if_True simp_thms ret_def\<close>)
    then show ?thesis using h c2(4) True by blast
  next
    case False
    then have lt: "k < q" using less.prems(3) by simp
    from holds_next [OF h] lt assms(4) obtain c3 where
      c3: "dir_next c2 = Some (Inr (), c3)" "dir_holds f0 cs v (Suc k) (freed p k es) c3" "kept c2 c3" by auto
    have nx: "dir_holds f0 cs v (Suc k) (if p = Suc k then es else freed p (Suc k - 1) es) c3"
      using c3(2) less.prems(2) by simp
    have "q - Suc k < q - k" "p \<le> Suc k" "Suc k \<le> q" using lt less.prems(2) by simp_all
    from less.hyps [OF this(1) nx this(2,3)] obtain c' where
      c': "remove_entries_loop (slot_sect f0 cs q) (of_nat (slot_idx q)) c3 = Some (Inr (), c')"
        "dir_holds f0 cs v q (freed p q es) c'" "kept c3 c'" by auto
    have "remove_entries_loop (slot_sect f0 cs q) (of_nat (slot_idx q)) c =
        remove_entries_loop (slot_sect f0 cs q) (of_nat (slot_idx q)) c3"
      by (subst remove_entries_loop.simps) (use at False in \<open>simp only: c2(1,2) c3(1) bind_io_simps if_False simp_thms\<close>)
    then show ?thesis using c' kept_trans [OF c2(4) kept_trans [OF c3(3) c'(3)]] by auto
  qed
qed

text \<open>From where a search stopped, back to the first entry of the name and on to its last.\<close>

lemma remove_entries_holds:
  assumes "dir_holds f0 cs v q es c" "p \<le> q" "q < length es" "\<forall>e \<in> set es. length e = 32"
  shows "\<exists>c'. remove_entries \<lparr>loc_sect = slot_sect f0 cs p, loc_idx = of_nat (slot_idx p)\<rparr> c = Some (Inr (), c') \<and>
    dir_holds f0 cs v q (freed p q es) c' \<and> kept c c'"
proof -
  have d: "d_sect (dir c) = slot_sect f0 cs q" "d_idx (dir c) = of_nat (slot_idx q)" using holds_place [OF assms(1,3)] by simp_all
  let ?c = "on_dir (\<lambda>d. d\<lparr>d_clust := sect_to_clust (vol c) (slot_sect f0 cs p), d_sect := slot_sect f0 cs p, d_idx := of_nat (slot_idx p)\<rparr>) c"
  have "dir_holds f0 cs v p es ?c" using holds_jump [OF assms(1), of p] assms(2,3) by simp
  then have "dir_holds f0 cs v p (if p = p then es else freed p (p - 1) es) ?c" by simp
  from remove_loop_holds [OF this order.refl assms(2,3,4)] obtain c' where
    c': "remove_entries_loop (slot_sect f0 cs q) (of_nat (slot_idx q)) ?c = Some (Inr (), c')" "dir_holds f0 cs v q (freed p q es) c'" "kept ?c c'"
    by blast
  have "kept c ?c" by (simp add: kept_def on_dir_def)
  then show ?thesis using c' kept_trans by (auto simp: remove_entries_def d)
qed

subsection \<open>What a search leaves alone\<close>

definition steady :: "cursor \<Rightarrow> cursor \<Rightarrow> bool" where
  "steady c c' \<longleftrightarrow> length (g_buf c') = length (g_buf c) \<and> d_sclust (dir c') = d_sclust (dir c)"

lemma steady_trans: "steady a b \<Longrightarrow> steady b c \<Longrightarrow> steady a c"
  by (simp add: steady_def)

lemma steady_fields [simp]:
  "steady c (c\<lparr>g_crc := x\<rparr>)" "steady c (c\<lparr>g_len := n\<rparr>)" "steady c (c\<lparr>loc := l\<rparr>)" "steady c c"
  by (simp_all add: steady_def)

lemma vol_op_steady: "vol_op m c = Some (r, c') \<Longrightarrow> steady c c'"
  by (cases "d_fat (dir c)") (auto simp: vol_op_def vol_io_def at_vol_def steady_def case_prod_beta)

lemma dir_load_steady: "dir_load c = Some (r, c') \<Longrightarrow> steady c c'"
  unfolding dir_load_def by (rule vol_op_steady)

lemma on_dir_steady: "d_sclust (h (dir c)) = d_sclust (dir c) \<Longrightarrow> steady c (on_dir h c)"
  by (simp add: steady_def on_dir_def)

lemma dir_next_steady: "dir_next c = Some (Inr u, c') \<Longrightarrow> steady c c'"
  by (auto simp: dir_next_def Let_def dir_at_clust_def intro!: on_dir_steady split: if_splits
      elim!: bind_io_Inr dest!: vol_op_steady) (auto simp: steady_def on_dir_def)

lemma read_frag_length: "read_frag ks raw pos (b, n) = (ok, b', n') \<Longrightarrow> length b' = length b"
  by (induction ks arbitrary: pos b n) (auto simp: Let_def split: if_splits)

lemma lfn_loop_steady: "lfn_loop cnt c = Some (Inr u, c') \<Longrightarrow> steady c c'"
proof (induction cnt arbitrary: c)
  case (Suc cnt)
  obtain ok b n where f: "read_frag g_lfn_indices (dir_ptr c) (13 * cnt) (g_buf c, g_len c) = (ok, b, n)" by (metis prod_cases3)
  let ?c = "c\<lparr>g_buf := b, g_len := n\<rparr>"
  have "bind_io (dir_next ?c) (\<lambda>_ c2. bind_io (dir_load c2) (\<lambda>_ c3. lfn_loop cnt c3)) = Some (Inr u, c')"
    using Suc.prems f by (auto simp: Let_def split: if_splits)
  then obtain c2 c3 v w where "dir_next ?c = Some (Inr v, c2)" "dir_load c2 = Some (Inr w, c3)" "lfn_loop cnt c3 = Some (Inr u, c')"
    by (elim bind_io_Inr) blast
  then have "steady ?c c'" using Suc.IH dir_next_steady dir_load_steady steady_trans by blast
  then show ?case using read_frag_length [OF f] by (simp add: steady_def)
qed simp

lemma parse_lfn_name_steady: "parse_lfn_name c = Some (Inr u, c') \<Longrightarrow> steady c c'"
proof -
  assume "parse_lfn_name c = Some (Inr u, c')"
  then obtain c1 v w where c1: "dir_load c = Some (Inr v, c1)"
    "lfn_loop w (c1\<lparr>g_crc := lfn_crc (dir_ptr c1), g_len := 0\<rparr>) = Some (Inr u, c')"
    unfolding parse_lfn_name_def by (elim bind_io_Inr) (auto simp: Let_def elim!: bind_io_Inr split: if_splits)
  then show ?thesis using dir_load_steady [OF c1(1)] lfn_loop_steady [OF c1(2)] by (simp add: steady_def)
qed

lemma long_step_steady:
  assumes "long_step k name c = Some (Inr (), c')" "\<And>d. k d = Some (Inr (), c') \<Longrightarrow> steady d c'"
  shows "steady c c'"
  using assms(1) dir_next_steady assms(2) steady_trans
  by (auto simp: Let_def elim!: bind_io_Inr split: if_splits) blast+

lemma search_step_steady:
  assumes "search_step k short name c = Some (Inr (), c')" and k: "\<And>d. k d = Some (Inr (), c') \<Longrightarrow> steady d c'"
  shows "steady c c'"
proof -
  let ?c = "c\<lparr>loc := Some \<lparr>loc_sect = d_sect (dir c), loc_idx = d_idx (dir c)\<rparr>\<rparr>"
  have n: "steady d c'" if "bind_io (dir_next d) (\<lambda>_ d'. k d') = Some (Inr (), c')" for d
    using that k dir_next_steady steady_trans by (elim bind_io_Inr) blast
  consider "bind_io (dir_next c) (\<lambda>_ d'. k d') = Some (Inr (), c')" | "bind_io (dir_next ?c) (\<lambda>_ d'. k d') = Some (Inr (), c')"
    | "c' = ?c" | "bind_io (parse_lfn_name ?c) (\<lambda>_ c3. long_step k name c3) = Some (Inr (), c')"
    using assms(1) by (auto simp: Let_def split: if_splits)
  then show ?thesis
  proof cases
    case 2
    then show ?thesis using n [of ?c] by (simp add: steady_def)
  next
    case 4
    then obtain u d where d: "parse_lfn_name ?c = Some (Inr u, d)" "long_step k name d = Some (Inr (), c')" by (rule bind_io_Inr)
    have "steady ?c c'" by (rule steady_trans [OF parse_lfn_name_steady [OF d(1)] long_step_steady [OF d(2) k]])
    then show ?thesis by (simp add: steady_def)
  qed (use n in simp_all)
qed

lemma dir_search_steady:
  assumes "dir_search name c = Some (Inr (), c')"
  shows "steady c c'"
proof -
  have "\<forall>c'. r = (Inr (), c') \<longrightarrow> steady c c'" if "search_loop short name c = Some r" for r short c
  proof (rule search_loop.raw_induct [OF _ that])
    fix rec short name c r
    assume IH: "\<And>short name c r. rec short name c = Some r \<Longrightarrow> \<forall>c'. r = (Inr (), c') \<longrightarrow> steady c c'"
      and body: "bind_io (dir_load c) (\<lambda>_ c1. search_step (rec short name) short name c1) = Some r"
    show "\<forall>c'. r = (Inr (), c') \<longrightarrow> steady c c'"
    proof (intro allI impI)
      fix c' assume r: "r = (Inr (), c')"
      from body [unfolded r] obtain u d where d: "dir_load c = Some (Inr u, d)" "search_step (rec short name) short name d = Some (Inr (), c')"
        by (rule bind_io_Inr)
      have "steady d c'" by (rule search_step_steady [OF d(2)]) (use IH in blast)
      then show "steady c c'" by (rule steady_trans [OF dir_load_steady [OF d(1)]])
    qed
  qed
  then have "steady (dir_at_clust (d_sclust (dir c)) c) c'" using assms by (simp add: dir_search_def)
  then show ?thesis by (simp add: steady_def dir_at_clust_def on_dir_def)
qed

end
