(* ===== verification/Directory_Properties.thy ===== *)
theory Directory_Properties
  imports Fat_Remove Fat_Properties
begin

text \<open>
  The properties of the search, of the addition and of the removal of a name, on a cursor at a directory that is in order,
  with the root directory of the sample volume as the concrete input.
\<close>

subsection \<open>A cursor at a directory\<close>

definition dir_ready :: "uint32 list \<Rightarrow> nat \<Rightarrow> cursor \<Rightarrow> bool" where
  "dir_ready cs v c \<longleftrightarrow> d_fat (dir c) = Some v \<and> dir_vol (volumes c v) cs \<and> d_sclust (dir c) = hd cs"

definition dir_entries :: "uint32 list \<Rightarrow> cursor \<Rightarrow> byte list list" where
  "dir_entries cs c = entries (vol c) cs"

lemma dir_entries_at: "d_fat (dir c) = Some v \<Longrightarrow> dir_entries cs c = entries (volumes c v) cs"
  by (simp add: dir_entries_def vol_def)

lemma dir_vol_unchanged:
  assumes "dir_vol f cs" "unchanged f g"
  shows "dir_vol g cs" "entries g cs = entries f cs"
proof -
  have sv: "same_volume f g" and ct: "\<And>t. t \<noteq> 0 \<Longrightarrow> content g t = content f t" using assms(2) by (simp_all add: unchanged_def)
  have pl: "dir_placed f cs" and ly: "layout_ok f" using dir_volD [OF assms(1)] by simp_all
  have "fat_chain g cs = fat_chain f cs"
  proof (rule fat_chain_cong)
    fix d assume "d \<in> set cs"
    then have "d < clust_cnt f" using pl fat_chain_lt by (auto simp: dir_placed_def)
    then show "fat_entry g d = fat_entry f d" by (rule unchanged_entry [OF assms(2) ly])
  qed (use sv in \<open>simp add: same_volume_def\<close>)
  then have "dir_placed g cs" using dir_placed_same [OF sv] pl by simp
  then show "dir_vol g cs" using unchanged_fields(7) [OF assms(2)] by (simp add: dir_vol_def)
  note G = same_slots [OF sv]
  have "slot_entry g cs k = slot_entry f cs k" if "k < slots f cs" for k
    using ct [OF slot_sect_outside(1) [OF pl that]] by (simp add: slot_entry_def G)
  then show "entries g cs = entries f cs" by (intro nth_equalityI) (simp_all add: G)
qed

lemma entry_lengths: "dir_ready cs v c \<Longrightarrow> \<forall>e \<in> set (dir_entries cs c). length e = 32"
proof
  fix e assume r: "dir_ready cs v c" "e \<in> set (dir_entries cs c)"
  then have "length (content (vol c) s) = 512" for s
    by (simp add: dir_ready_def dir_vol_def volume_ok_def cache_ok_def content_def vol_def)
  moreover have "min (512 - slot_idx k) 32 = 32" for k using slot_idx_nat(2) [of k] by simp
  ultimately show "length e = 32"
    using r(2) by (auto simp: dir_entries_def entries_def slot_entry_def entry_in_def)
qed

lemma entries_there: "dir_ready cs v c \<Longrightarrow> dir_entries cs c \<noteq> []"
  using slots_pos by (fastforce simp: dir_ready_def dir_vol_def dir_entries_def entries_def vol_def)

text \<open>A search returns and is \<open>lookup\<close>.\<close>

lemma search_result:
  assumes "dir_ready cs v c"
  shows "\<exists>r c'. dir_search name c = Some (r, c') \<and> unchanged (volumes c v) (volumes c' v) \<and>
    (case lookup (put_sfn_name name) name 0 (dir_entries cs c) (g_buf c) of
       Inl err \<Rightarrow> r = Inl err
     | Inr (i, j) \<Rightarrow> r = Inr () \<and> dir_ptr c' = dir_entries cs c ! j \<and>
         loc c' = Some \<lparr>loc_sect = slot_sect (volumes c v) cs i, loc_idx = of_nat (slot_idx i)\<rparr>)"
proof -
  let ?f = "volumes c v"
  have d: "d_fat (dir c) = Some v" "dir_placed ?f cs" "volume_ok ?f" "d_sclust (dir c) = hd cs"
    using assms by (simp_all add: dir_ready_def dir_vol_def)
  have e: "dir_entries cs c = entries ?f cs" by (rule dir_entries_at [OF d(1)])
  have S: "search_agrees ?f cs v (lookup (put_sfn_name name) name 0 (entries ?f cs) (g_buf c)) (dir_search name c)"
    by (rule dir_search_slots [OF d(2,1,3,4) refl])
  show ?thesis
  proof (cases "lookup (put_sfn_name name) name 0 (entries ?f cs) (g_buf c)")
    case (Inl err)
    then show ?thesis using S by (simp add: e search_agrees_def)
  next
    case (Inr ij)
    obtain i j where ij: "ij = (i, j)" by (cases ij)
    from S obtain c' where c': "dir_search name c = Some (Inr (), c')" "unchanged ?f (volumes c' v)" "loaded ?f cs v j c'"
      "loc c' = Some \<lparr>loc_sect = slot_sect ?f cs i, loc_idx = of_nat (slot_idx i)\<rparr>"
      unfolding search_agrees_def Inr ij by auto
    have "j < slots ?f cs" using c'(3) at_slotD(3) by (auto simp: loaded_def)
    then have "dir_ptr c' = entries ?f cs ! j" using loaded_ptr [OF d(2) c'(3)] by simp
    then show ?thesis using c' by (simp add: e Inr ij)
  qed
qed

text \<open>What an addition leaves behind.\<close>

definition fits :: "char list \<Rightarrow> byte \<Rightarrow> byte list list \<Rightarrow> bool \<Rightarrow> nat \<Rightarrow> bool" where
  "fits name a es eod p \<longleftrightarrow> name \<noteq> [] \<and> length name \<le> 255 \<and> (\<forall>x \<in> set name. plain_char x) \<and> a \<noteq> FAT_ATTR_LFN \<and>
     whole_names es \<and> room (lfn_count name + 1) 0 False 0 es = Some (eod, p)"

lemma add_result:
  assumes "dir_ready cs v c" "fits name a (dir_entries cs c) eod p"
  shows "\<exists>c1. dir_add name a cl c = Some (Inr (), c1) \<and> dir_ready cs v c1 \<and> g_buf c1 = g_buf c \<and>
    same_volume (volumes c v) (volumes c1 v) \<and> dir_entries cs c1 = with_entry name a cl eod p (dir_entries cs c) \<and>
    (\<forall>t. t \<noteq> 0 \<longrightarrow> (\<forall>j < slots (volumes c v) cs. t \<noteq> slot_sect (volumes c v) cs j) \<longrightarrow>
       content (volumes c1 v) t = content (volumes c v) t)"
proof -
  let ?f = "volumes c v"
  have d: "d_fat (dir c) = Some v" "dir_vol ?f cs" "d_sclust (dir c) = hd cs" using assms(1) by (simp_all add: dir_ready_def)
  have e: "dir_entries cs c = entries ?f cs" by (rule dir_entries_at [OF d(1)])
  have n: "name \<noteq> []" "length name \<le> 255" "room (lfn_count name + 1) 0 False 0 (entries ?f cs) = Some (eod, p)"
    using assms(2) e by (simp_all add: fits_def)
  from dir_add_holds [OF d(2,1) refl d(3) n, of a cl] obtain c1 where
    c1: "dir_add name a cl c = Some (Inr (), c1)" "kept c c1"
      "dir_holds ?f cs v (p + lfn_count name) (with_entry name a cl eod p (entries ?f cs)) c1" by blast
  from c1(3) obtain g where g: "dir_vol g cs" "same_volume ?f g" "at_slot g cs v (p + lfn_count name) c1"
    "entries g cs = with_entry name a cl eod p (entries ?f cs)"
    "\<forall>t. t \<noteq> 0 \<longrightarrow> (\<forall>j < slots ?f cs. t \<noteq> slot_sect ?f cs j) \<longrightarrow> content g t = content ?f t"
    by (auto simp: dir_holds_def)
  note A = at_slotD [OF g(3)]
  note U = dir_vol_unchanged [OF g(1) A(2)]
  have "dir_ready cs v c1" using A(1) U(1) c1(2) d(3) by (simp add: dir_ready_def kept_def)
  moreover have "same_volume ?f (volumes c1 v)" using same_volume_trans [OF g(2)] A(2) by (simp add: unchanged_def)
  moreover have "dir_entries cs c1 = with_entry name a cl eod p (dir_entries cs c)"
    using dir_entries_at [OF A(1)] U(2) g(4) e by simp
  moreover have "\<forall>t. t \<noteq> 0 \<longrightarrow> content (volumes c1 v) t = content g t" using A(2) by (simp add: unchanged_def)
  ultimately show ?thesis using c1(1,2) g(5) by (intro exI [of _ c1]) (simp add: kept_def)
qed

subsection \<open>A sample directory\<close>

text \<open>The root directory of the sample volume with one entry, the short name of \<^verbatim>\<open>boot\<close>.\<close>

definition boot_entry :: "byte list" where
  "boot_entry = [0x42, 0x4f, 0x4f, 0x54, 0x20, 0x20, 0x20, 0x20, 0x20, 0x20, 0x20] @ replicate 21 0"

definition boot_fat :: Fat where
  "boot_fat = sample_fat\<lparr>ops := (ops sample_fat)\<lparr>blocks := (blocks (ops sample_fat))(64 := boot_entry @ replicate 480 0)\<rparr>\<rparr>"

definition root_cursor :: cursor where
  "root_cursor = sample_cursor\<lparr>volumes := (\<lambda>_. boot_fat)\<rparr>"

lemma boot_short: "put_sfn_name ''boot'' = sfn_name boot_entry"
proof -
  have "char_of (66 :: nat) = CHR ''B''" "char_of (79 :: nat) = CHR ''O''" "char_of (84 :: nat) = CHR ''T''" by code_simp+
  then have "map (char_byte \<circ> sfn_char) ''boot'' = [0x42, 0x4f, 0x4f, 0x54]" by (simp add: sfn_char_def to_upper_def)
  then show ?thesis by (simp add: put_sfn_name_def pad_to_def SFN_PAD_def sfn_name_def boot_entry_def numeral_eq_Suc)
qed

lemma root_ready: "dir_ready [2] 0 root_cursor"
proof -
  have sv: "same_volume sample_fat boot_fat" by (simp add: same_volume_def boot_fat_def)
  have sp: "clust_cnt sample_fat = 8" "info_sect sample_fat = 1" "fat_sect0 sample_fat = 32" "fat_sect1 sample_fat = 40"
    "data_sect sample_fat = 64" "clust_shift sample_fat = 0" "clust_msk sample_fat = 0" by (simp_all add: sample_fat_def)
  have ok: "volume_ok sample_fat" by (rule sample_volume_ok(1))
  have layout: "layout_ok boot_fat" using layout_ok_same [OF sv] ok by (simp add: volume_ok_def)
  have "cache_ok sample_fat \<and> fat_sect sample_fat = 0" using ok by (simp add: volume_ok_def sample_fat_def)
  then have "cache_ok boot_fat" by (auto simp: cache_ok_def boot_fat_def boot_entry_def)
  then have vok: "volume_ok boot_fat" using layout ok by (simp add: volume_ok_def no_faults_def boot_fat_def)
  have tab: "table_sectors sample_fat = {32, 40}"
  proof -
    have "c div 128 = 0" if "c < 8" for c :: uint32 using small_cluster(1) [OF that] .
    moreover have "(0 :: uint32) < 8" by simp
    ultimately show ?thesis unfolding table_sectors_def sp by (auto simp: image_iff intro!: exI [of _ "0 :: uint32"])
  qed
  have "content boot_fat t = content sample_fat t" if "t \<noteq> 64" for t
    using that by (simp add: content_def boot_fat_def)
  then have "fat_entry boot_fat 2 = fat_entry sample_fat 2"
    using small_cluster(1) [of 2] by (intro fat_entry_same [OF sv]) (simp add: sp)
  then have "fat_entry boot_fat 2 = 0x0fffffff" by (simp add: sample_entry sample_entries_def)
  then have "fat_chain boot_fat [2]" by (simp add: boot_fat_def sp entry_flags_def)
  then have "dir_placed boot_fat [2]"
    using tab same_slots(5) [OF sv] by (simp add: dir_placed_def boot_fat_def sp)
  then show ?thesis using vok by (simp add: dir_ready_def dir_vol_def root_cursor_def sample_cursor_def)
qed

lemma root_entries: "dir_entries [2] root_cursor = boot_entry # replicate 15 (replicate 32 0)"
proof -
  have c: "content boot_fat 64 = boot_entry @ replicate 480 0"
    by (simp add: content_def boot_fat_def sample_fat_def)
  have v: "vol root_cursor = boot_fat" by (simp add: vol_def root_cursor_def sample_cursor_def)
  have sh: "clust_shift boot_fat = 0" "data_sect boot_fat = 64" by (simp_all add: boot_fat_def sample_fat_def)
  then have pc: "per_cluster boot_fat = 16" "slots boot_fat [2] = 16" by (simp_all add: per_cluster_def slots_def)
  have b: "length boot_entry = 32" by (simp add: boot_entry_def)
  have "slot_entry boot_fat [2] k = (boot_entry # replicate 15 (replicate 32 0)) ! k" if "k < 16" for k
  proof -
    have s: "slot_sect boot_fat [2] k = 64" using that sh by (simp add: slot_sect_def pc clust_to_sect_def)
    show ?thesis
    proof (cases k)
      case 0
      then show ?thesis using b s by (simp add: slot_entry_def c entry_in_def slot_idx_def)
    next
      case (Suc j)
      then have "32 \<le> slot_idx k" "slot_idx k - 32 + 32 \<le> 480" using that by (simp_all add: slot_idx_def)
      then show ?thesis using b s Suc that by (simp add: slot_entry_def c entry_in_def)
    qed
  qed
  then show ?thesis unfolding dir_entries_def v by (intro nth_equalityI) (simp_all add: pc)
qed

lemma root_lookup:
  "lookup (put_sfn_name ''boot'') ''boot'' 0 (dir_entries [2] root_cursor) (g_buf root_cursor) = Inr (0, 0)"
  "lookup (put_sfn_name ''kernel8.img'') ''kernel8.img'' 0 (dir_entries [2] root_cursor) (g_buf root_cursor) = Inl FAT_ERR_EOF"
proof -
  have e: "\<not> sfn_is_last boot_entry" "\<not> sfn_is_free boot_entry" "\<not> sfn_is_lfn boot_entry"
    by (simp_all add: sfn_is_last_def sfn_is_free_def sfn_is_lfn_def sfn_attr_def boot_entry_def SFN_LAST_def SFN_FREE_def FAT_ATTR_LFN_def)
  have z: "sfn_is_last (replicate 32 0)" by (simp add: sfn_is_last_def SFN_LAST_def)
  have "char_of (75 :: nat) = CHR ''K''" by code_simp
  then have "put_sfn_name ''kernel8.img'' ! 0 = 0x4b"
    by (simp add: put_sfn_name_def pad_to_def sfn_char_def to_upper_def)
  then have ne: "put_sfn_name ''kernel8.img'' \<noteq> sfn_name boot_entry" by (auto simp: sfn_name_def boot_entry_def)
  show "lookup (put_sfn_name ''boot'') ''boot'' 0 (dir_entries [2] root_cursor) (g_buf root_cursor) = Inr (0, 0)"
    unfolding root_entries lookup.simps(2) using e boot_short by simp
  have "(replicate 15 (replicate 32 0) :: byte list list) = replicate 32 0 # replicate 14 (replicate 32 0)"
    by (simp add: eval_nat_numeral)
  then show "lookup (put_sfn_name ''kernel8.img'') ''kernel8.img'' 0 (dir_entries [2] root_cursor) (g_buf root_cursor) = Inl FAT_ERR_EOF"
    unfolding root_entries by (simp only:) (simp add: lookup.simps(2) e z ne)
qed

lemma root_fits: "fits ''kernel8.img'' FAT_ATTR_ARCHIVE (dir_entries [2] root_cursor) True 1"
proof -
  have e: "\<not> sfn_is_last boot_entry" "\<not> sfn_is_free boot_entry" "\<not> sfn_is_lfn boot_entry"
    by (simp_all add: sfn_is_last_def sfn_is_free_def sfn_is_lfn_def sfn_attr_def boot_entry_def SFN_LAST_def SFN_FREE_def FAT_ATTR_LFN_def)
  have z: "sfn_is_last (replicate 32 0)" "sfn_is_free (replicate 32 0)" by (simp_all add: sfn_is_last_def sfn_is_free_def SFN_LAST_def)
  let ?es = "boot_entry # replicate 15 (replicate 32 0)"
  have "\<not> sfn_is_lfn (?es ! k) \<or> sfn_is_free (?es ! k)" if "k < 16" for k using that e z by (cases k) auto
  then have w: "whole_names ?es" unfolding whole_names_def by auto
  have "(replicate 15 (replicate 32 0) :: byte list list) = replicate 32 0 # replicate 32 0 # replicate 32 0 # replicate 12 (replicate 32 0)"
    by (simp add: eval_nat_numeral)
  then have "room 2 0 False 0 ?es = Some (True, 1)" by (simp only:) (simp add: e z)
  moreover have "\<forall>x \<in> set ''kernel8.img''. plain_char x" by code_simp
  moreover have "lfn_count ''kernel8.img'' + 1 = 2" by (simp add: lfn_count_def)
  moreover have "''kernel8.img'' \<noteq> [] \<and> length ''kernel8.img'' \<le> 255 \<and> FAT_ATTR_ARCHIVE \<noteq> FAT_ATTR_LFN"
    by (simp add: FAT_ATTR_ARCHIVE_def FAT_ATTR_LFN_def)
  ultimately show ?thesis using w unfolding fits_def root_entries by (simp only:) blast
qed

subsection \<open>Searching and adding\<close>

text \<open>C29: a search. On a directory in order, whatever its entries hold, \<^verbatim>\<open>dir_search\<close> returns, changes
  nothing a reader of the volume can see, and its result is that of \<open>lookup\<close> on the list of the entries:
  the same error, or the entry found with the place its name begins.\<close>

theorem dir_search_refines_lookup:
  assumes "dir_ready cs v c"
  shows "\<exists>r c'. dir_search name c = Some (r, c') \<and> unchanged (volumes c v) (volumes c' v) \<and>
    (case lookup (put_sfn_name name) name 0 (dir_entries cs c) (g_buf c) of
       Inl err \<Rightarrow> r = Inl err
     | Inr (i, j) \<Rightarrow> r = Inr () \<and> dir_ptr c' = dir_entries cs c ! j \<and>
         loc c' = Some \<lparr>loc_sect = slot_sect (volumes c v) cs i, loc_idx = of_nat (slot_idx i)\<rparr>)"
  by (rule search_result [OF assms])

theorem dir_search_refines_lookup_witness:
  "\<exists>c'. dir_search ''boot'' root_cursor = Some (Inr (), c') \<and> dir_ptr c' = boot_entry"
  using dir_search_refines_lookup [OF root_ready, of "''boot''"] root_lookup(1) by (auto simp: root_entries)

text \<open>C30: a name that was added is found. In a directory whose names are complete and that has room, when a
  search for the name ends at the end marker, \<^verbatim>\<open>dir_add\<close> returns without an error, touches only the sectors
  of this directory, keeps its names complete, and the same search then stops at a new entry with the
  given attributes and first cluster, size 0, and the short name made of the name.\<close>

theorem dir_add_then_search:
  assumes "dir_ready cs v c" "fits name a (dir_entries cs c) eod p" "length name \<le> length (g_buf c)"
    "dir_search name c = Some (Inl FAT_ERR_EOF, c0)"
  shows "\<exists>c1 c2. dir_add name a cl c = Some (Inr (), c1) \<and> dir_ready cs v c1 \<and> whole_names (dir_entries cs c1) \<and>
    (\<forall>t. t \<noteq> 0 \<longrightarrow> (\<forall>j < slots (volumes c v) cs. t \<noteq> slot_sect (volumes c v) cs j) \<longrightarrow>
       content (volumes c1 v) t = content (volumes c v) t) \<and>
    dir_search name c1 = Some (Inr (), c2) \<and> sfn_attr (dir_ptr c2) = a \<and> sfn_cluster (dir_ptr c2) = cl \<and>
    sfn_size (dir_ptr c2) = 0 \<and> sfn_name (dir_ptr c2) = put_sfn_name name"
proof -
  let ?es = "dir_entries cs c" and ?n = "lfn_count name"
  have F: "room (?n + 1) 0 False 0 ?es = Some (eod, p)" "name \<noteq> []" "length name \<le> 255" "\<forall>x \<in> set name. plain_char x"
    "a \<noteq> FAT_ATTR_LFN" "whole_names ?es" using assms(2) by (simp_all add: fits_def)
  note E = entries_there [OF assms(1)] entry_lengths [OF assms(1)]
  have "lookup (put_sfn_name name) name 0 ?es (g_buf c) = Inl FAT_ERR_EOF"
    using search_result [OF assms(1), of name] assms(4) by (auto split: sum.splits)
  note L = lookup_with_entry(1) [OF F(1) E F(6,2,3,4) assms(3) F(5) this, of cl]
  from add_result [OF assms(1,2), of cl] obtain c1 where
    c1: "dir_add name a cl c = Some (Inr (), c1)" "dir_ready cs v c1" "g_buf c1 = g_buf c" "dir_entries cs c1 = with_entry name a cl eod p ?es"
      "\<forall>t. t \<noteq> 0 \<longrightarrow> (\<forall>j < slots (volumes c v) cs. t \<noteq> slot_sect (volumes c v) cs j) \<longrightarrow>
        content (volumes c1 v) t = content (volumes c v) t" by blast
  from search_result [OF c1(2), of name] obtain c2 where
    c2: "dir_search name c1 = Some (Inr (), c2)" "dir_ptr c2 = with_entry name a cl eod p ?es ! (p + ?n)"
    using L by (auto simp: c1(3,4))
  have fit: "p + ?n + 1 < length ?es" by (rule room_fits [OF F(1) E(1)])
  have "dir_ptr c2 = new_sfn (put_sfn_name name) a cl encode_timestamp (?es ! (p + ?n))"
    using with_entry_nth(4) [OF fit] c2(2) by simp
  moreover have "length (?es ! (p + ?n)) = 32" using fit E(2) by simp
  moreover have "whole_names (dir_entries cs c1)" unfolding c1(4) by (rule with_entry_whole [OF F(1) E F(6,2,3,4,5)])
  ultimately show ?thesis using c1 c2(1) new_sfn_fields [OF _ length_put_sfn_name] by auto
qed

theorem dir_add_then_search_witness:
  "\<exists>c1 c2. dir_add ''kernel8.img'' FAT_ATTR_ARCHIVE 5 root_cursor = Some (Inr (), c1) \<and>
     dir_search ''kernel8.img'' c1 = Some (Inr (), c2) \<and> sfn_cluster (dir_ptr c2) = 5"
proof -
  from search_result [OF root_ready, of "''kernel8.img''"] obtain c0 where
    c0: "dir_search ''kernel8.img'' root_cursor = Some (Inl FAT_ERR_EOF, c0)" by (auto simp: root_lookup(2))
  have "length ''kernel8.img'' \<le> length (g_buf root_cursor)" by (simp add: root_cursor_def sample_cursor_def)
  from dir_add_then_search [OF root_ready root_fits this c0, of 5] show ?thesis by blast
qed

text \<open>C31: the other names stay. Adding a name changes no search for another one: it ends with the same result,
  and when it finds an entry, that is the same entry at the same place, byte for byte.\<close>

theorem dir_add_keeps_other_names:
  assumes "dir_ready cs v c" "fits name a (dir_entries cs c) eod p" "length name \<le> length (g_buf c)" "other \<noteq> name"
  shows "\<exists>c1 r c2 c3. dir_add name a cl c = Some (Inr (), c1) \<and> dir_search other c = Some (r, c2) \<and>
    dir_search other c1 = Some (r, c3) \<and> (r = Inr () \<longrightarrow> dir_ptr c3 = dir_ptr c2 \<and> loc c3 = loc c2)"
proof -
  let ?es = "dir_entries cs c" and ?short = "put_sfn_name other"
  have F: "room (lfn_count name + 1) 0 False 0 ?es = Some (eod, p)" "name \<noteq> []" "length name \<le> 255" "\<forall>x \<in> set name. plain_char x"
    "a \<noteq> FAT_ATTR_LFN" "whole_names ?es" using assms(2) by (simp_all add: fits_def)
  note E = entries_there [OF assms(1)] entry_lengths [OF assms(1)]
  note W = with_entry_whole [OF F(1) E F(6,2,3,4,5), of cl]

  from add_result [OF assms(1,2), of cl] obtain c1 where
    c1: "dir_add name a cl c = Some (Inr (), c1)" "dir_ready cs v c1" "g_buf c1 = g_buf c"
      "dir_entries cs c1 = with_entry name a cl eod p ?es" "same_volume (volumes c v) (volumes c1 v)" by blast
  have L: "lookup ?short other 0 (with_entry name a cl eod p ?es) (g_buf c) = lookup ?short other 0 ?es (g_buf c)"
    by (rule lookup_with_entry(2) [OF F(1) E F(6,2,3,4) assms(3) F(5) assms(4)])
  from search_result [OF assms(1), of other] search_result [OF c1(2), of other, unfolded c1(3,4) L] obtain r c2 r' c3 where
    S: "dir_search other c = Some (r, c2)" "dir_search other c1 = Some (r', c3)"
    and R: "case lookup ?short other 0 ?es (g_buf c) of
       Inl err \<Rightarrow> r = Inl err \<and> r' = Inl err
     | Inr (i, j) \<Rightarrow> r = Inr () \<and> r' = Inr () \<and> dir_ptr c2 = ?es ! j \<and> dir_ptr c3 = with_entry name a cl eod p ?es ! j \<and>
         loc c2 = Some \<lparr>loc_sect = slot_sect (volumes c v) cs i, loc_idx = of_nat (slot_idx i)\<rparr> \<and>
         loc c3 = Some \<lparr>loc_sect = slot_sect (volumes c1 v) cs i, loc_idx = of_nat (slot_idx i)\<rparr>"
    by (auto split: sum.splits)
  have "r' = r \<and> (r = Inr () \<longrightarrow> dir_ptr c3 = dir_ptr c2 \<and> loc c3 = loc c2)"
  proof (cases "lookup ?short other 0 ?es (g_buf c)")
    case (Inr ij)
    obtain i j where ij: "ij = (i, j)" by (cases ij)
    have old: "\<not> sfn_is_free (?es ! j) \<and> (\<forall>t \<le> j. \<not> sfn_is_last (?es ! t))"
      using lookup_found [OF F(6), of ?short other 0 "g_buf c" i j] Inr ij by simp
    have new: "\<not> sfn_is_free (with_entry name a cl eod p ?es ! j)"
      using lookup_found [OF W, of ?short other 0 "g_buf c" i j] L Inr ij by simp
    have "with_entry name a cl eod p ?es ! j = ?es ! j" using found_same [OF F(1) E _ _ new] old by blast
    then show ?thesis using R Inr ij same_slots(2) [OF c1(5)] by simp
  qed (use R in simp)
  then show ?thesis using c1(1) S by blast
qed

theorem dir_add_keeps_other_names_witness:
  "\<exists>c1 c2 c3. dir_add ''kernel8.img'' FAT_ATTR_ARCHIVE 5 root_cursor = Some (Inr (), c1) \<and>
     dir_search ''boot'' root_cursor = Some (Inr (), c2) \<and> dir_search ''boot'' c1 = Some (Inr (), c3) \<and> dir_ptr c3 = boot_entry"
proof -
  have "length ''kernel8.img'' \<le> length (g_buf root_cursor)" by (simp add: root_cursor_def sample_cursor_def)
  from dir_add_keeps_other_names [OF root_ready root_fits this, of "''boot''" 5] obtain c1 r c2 c3 where
    c: "dir_add ''kernel8.img'' FAT_ATTR_ARCHIVE 5 root_cursor = Some (Inr (), c1)" "dir_search ''boot'' root_cursor = Some (r, c2)"
      "dir_search ''boot'' c1 = Some (r, c3)" "r = Inr () \<longrightarrow> dir_ptr c3 = dir_ptr c2" by auto
  from search_result [OF root_ready, of "''boot''", unfolded root_lookup(1)] c(2) have "r = Inr ()" "dir_ptr c2 = boot_entry"
    by (auto simp: root_entries)
  then show ?thesis using c by auto
qed

subsection \<open>Removing\<close>

lemma remove_result:
  assumes "dir_ready cs v c" "whole_names (dir_entries cs c)" "dir_search name c = Some (Inr (), c1)"
  shows "\<exists>p q c2. lookup (put_sfn_name name) name 0 (dir_entries cs c) (g_buf c) = Inr (p, q) \<and>
    loc c1 = Some \<lparr>loc_sect = slot_sect (volumes c v) cs p, loc_idx = of_nat (slot_idx p)\<rparr> \<and>
    remove_entries (the (loc c1)) c1 = Some (Inr (), c2) \<and> dir_ready cs v c2 \<and> length (g_buf c2) = length (g_buf c) \<and>
    same_volume (volumes c v) (volumes c2 v) \<and> dir_entries cs c2 = freed p q (dir_entries cs c) \<and>
    (\<forall>t. t \<noteq> 0 \<longrightarrow> (\<forall>j < slots (volumes c v) cs. t \<noteq> slot_sect (volumes c v) cs j) \<longrightarrow>
       content (volumes c2 v) t = content (volumes c v) t)"
proof -
  let ?f = "volumes c v" and ?es = "dir_entries cs c"
  have d: "d_fat (dir c) = Some v" "dir_vol ?f cs" "d_sclust (dir c) = hd cs" using assms(1) by (simp_all add: dir_ready_def)
  have e: "?es = entries ?f cs" by (rule dir_entries_at [OF d(1)])
  have "search_agrees ?f cs v (lookup (put_sfn_name name) name 0 ?es (g_buf c)) (dir_search name c)"
    unfolding e using d by (intro dir_search_slots) (simp_all add: dir_vol_def)
  then obtain p q where pq: "lookup (put_sfn_name name) name 0 ?es (g_buf c) = Inr (p, q)"
    "loc c1 = Some \<lparr>loc_sect = slot_sect ?f cs p, loc_idx = of_nat (slot_idx p)\<rparr>" "loaded ?f cs v q c1"
    unfolding search_agrees_def assms(3) by (auto split: sum.splits)
  have q: "q < length ?es" "p \<le> q" using lookup_found [OF assms(2), of _ _ 0 "g_buf c" p q] pq(1) by auto
  have "dir_holds ?f cs v q ?es c1"
    using d(2) pq(3) e by (auto simp: dir_holds_def loaded_def intro!: exI [of _ ?f])
  from remove_entries_holds [OF this q(2,1) entry_lengths [OF assms(1)]] obtain c2 where
    c2: "remove_entries (the (loc c1)) c1 = Some (Inr (), c2)" "dir_holds ?f cs v q (freed p q ?es) c2" "kept c1 c2" by (auto simp: pq(2))
  from c2(2) obtain g where g: "dir_vol g cs" "same_volume ?f g" "at_slot g cs v q c2" "entries g cs = freed p q ?es"
    "\<forall>t. t \<noteq> 0 \<longrightarrow> (\<forall>j < slots ?f cs. t \<noteq> slot_sect ?f cs j) \<longrightarrow> content g t = content ?f t"
    by (auto simp: dir_holds_def)
  note A = at_slotD [OF g(3)]
  note U = dir_vol_unchanged [OF g(1) A(2)]
  have st: "length (g_buf c2) = length (g_buf c)" "d_sclust (dir c2) = hd cs"
    using dir_search_steady [OF assms(3)] c2(3) d(3) by (simp_all add: steady_def kept_def)
  then have "dir_ready cs v c2" using A(1) U(1) by (simp add: dir_ready_def)
  moreover have "same_volume ?f (volumes c2 v)" using same_volume_trans [OF g(2)] A(2) by (simp add: unchanged_def)
  moreover have "dir_entries cs c2 = freed p q ?es" using dir_entries_at [OF A(1)] U(2) g(4) by simp
  moreover have "\<forall>t. t \<noteq> 0 \<longrightarrow> content (volumes c2 v) t = content g t" using A(2) by (simp add: unchanged_def)
  ultimately show ?thesis using pq c2(1) g(5) st(1) by (intro exI [of _ p] exI [of _ q] exI [of _ c2]) simp
qed

text \<open>C32: removing a name. From the entry a search stopped at \<^verbatim>\<open>remove_entries\<close> returns and touches only the
  sectors of the directory. Afterwards a search for the name passes over the place and goes on behind it, so
  it finds nothing when the name was there once; and every search that ended at another place still ends
  there, with the same entry byte for byte, or fails as before.\<close>

theorem removed_name_is_gone:
  assumes "dir_ready cs v c" "whole_names (dir_entries cs c)" "dir_search name c = Some (Inr (), c1)"
  shows "\<exists>p q c2 r d. lookup (put_sfn_name name) name 0 (dir_entries cs c) (g_buf c) = Inr (p, q) \<and>
    remove_entries (the (loc c1)) c1 = Some (Inr (), c2) \<and> dir_ready cs v c2 \<and>
    (\<forall>t. t \<noteq> 0 \<longrightarrow> (\<forall>j < slots (volumes c v) cs. t \<noteq> slot_sect (volumes c v) cs j) \<longrightarrow>
       content (volumes c2 v) t = content (volumes c v) t) \<and>
    dir_search name c2 = Some (r, d) \<and>
    (case lookup (put_sfn_name name) name (q + 1) (drop (q + 1) (dir_entries cs c)) (g_buf c) of
       Inl err \<Rightarrow> r = Inl err
     | Inr (i, j) \<Rightarrow> r = Inr () \<and> dir_ptr d = dir_entries cs c ! j) \<and>
    (\<forall>other x e. dir_search other c = Some (x, e) \<and> (x = Inr () \<longrightarrow> loc e \<noteq> loc c1) \<longrightarrow>
       (\<exists>e'. dir_search other c2 = Some (x, e') \<and> (x = Inr () \<longrightarrow> dir_ptr e' = dir_ptr e \<and> loc e' = loc e)))"
proof -
  let ?es = "dir_entries cs c" and ?L = "\<lambda>n k es. lookup (put_sfn_name n) n k (drop k es) (g_buf c)"
  from remove_result [OF assms] obtain p q c2 where
    R: "?L name 0 ?es = Inr (p, q)" "loc c1 = Some \<lparr>loc_sect = slot_sect (volumes c v) cs p, loc_idx = of_nat (slot_idx p)\<rparr>"
      "remove_entries (the (loc c1)) c1 = Some (Inr (), c2)" "dir_ready cs v c2" "length (g_buf c2) = length (g_buf c)"
      "same_volume (volumes c v) (volumes c2 v)" "dir_entries cs c2 = freed p q ?es"
      "\<forall>t. t \<noteq> 0 \<longrightarrow> (\<forall>j < slots (volumes c v) cs. t \<noteq> slot_sect (volumes c v) cs j) \<longrightarrow>
         content (volumes c2 v) t = content (volumes c v) t" by auto
  have q: "q < length ?es" "p \<le> q" "\<forall>t \<le> q. \<not> sfn_is_last (?es ! t)" using lookup_found [OF assms(2) R(1)] by auto
  have fr: "lookup (put_sfn_name n) n 0 (freed p q ?es) (g_buf c2) = (if ?L n 0 ?es = Inr (p, q) then ?L n (q + 1) ?es else ?L n 0 ?es)" for n
    using lookup_freed [OF assms(2) entry_lengths [OF assms(1)] R(5) _ R(1), of "put_sfn_name n" n]
      lookup_bufs [OF assms(2) R(5), of 0] lookup_bufs [OF assms(2) R(5), of "q + 1"] q(3) by (simp add: less_Suc_eq_le)
  have same: "freed p q ?es ! j = ?es ! j" if "j < length ?es" "j < p \<or> q < j" for j using that by auto
  have behind: "j < length ?es \<and> q < j" if "?L n (q + 1) ?es = Inr (i, j)" for n i j
    using lookup_found [OF assms(2) that] lookup_start [OF that] q(3) by (auto simp: less_Suc_eq_le)
  have elsewhere: "j < length ?es \<and> (j < p \<or> q < j)" if "?L n 0 ?es = Inr (i, j)" "(i, j) \<noteq> (p, q)" for n i j
    using lookup_found [OF assms(2) that(1)] found_elsewhere [OF assms(2) entry_lengths [OF assms(1)], of _ name "g_buf c" p q _ n i j]
      R(1) that by auto
  from search_result [OF R(4), of name, unfolded R(7) fr if_P [OF R(1)]] obtain r d where
    d: "dir_search name c2 = Some (r, d)" "case ?L name (q + 1) ?es of Inl err \<Rightarrow> r = Inl err
      | Inr (i, j) \<Rightarrow> r = Inr () \<and> dir_ptr d = freed p q ?es ! j"
    by (cases "?L name (q + 1) ?es") auto
  have new: "case ?L name (q + 1) ?es of Inl err \<Rightarrow> r = Inl err | Inr (i, j) \<Rightarrow> r = Inr () \<and> dir_ptr d = ?es ! j"
    using d(2) behind same by (fastforce split: sum.splits)
  have rest: "\<exists>e'. dir_search other c2 = Some (x, e') \<and> (x = Inr () \<longrightarrow> dir_ptr e' = dir_ptr e \<and> loc e' = loc e)"
    if o: "dir_search other c = Some (x, e)" "x = Inr () \<longrightarrow> loc e \<noteq> loc c1" for other x e
  proof -
    have old: "case ?L other 0 ?es of Inl err \<Rightarrow> x = Inl err | Inr (i, j) \<Rightarrow> x = Inr () \<and> dir_ptr e = ?es ! j \<and>
        loc e = Some \<lparr>loc_sect = slot_sect (volumes c v) cs i, loc_idx = of_nat (slot_idx i)\<rparr>"
      using search_result [OF assms(1), of other] o(1) by (auto split: sum.splits)
    have ne: "?L other 0 ?es \<noteq> Inr (p, q)" using old o(2) R(2) by auto
    from search_result [OF R(4), of other, unfolded R(7) fr if_not_P [OF ne] same_slots(2) [OF R(6)]] obtain x' e' where
      e': "dir_search other c2 = Some (x', e')" "case ?L other 0 ?es of Inl err \<Rightarrow> x' = Inl err
        | Inr (i, j) \<Rightarrow> x' = Inr () \<and> dir_ptr e' = freed p q ?es ! j \<and>
            loc e' = Some \<lparr>loc_sect = slot_sect (volumes c v) cs i, loc_idx = of_nat (slot_idx i)\<rparr>" by blast
    show ?thesis
    proof (cases "?L other 0 ?es")
      case (Inr ij)
      obtain i j where ij: "?L other 0 ?es = Inr (i, j)" using Inr by (cases ij) simp
      then have "freed p q ?es ! j = ?es ! j" using elsewhere [OF ij] ne same by auto
      then show ?thesis using old e' ij by auto
    qed (use old e' in auto)
  qed
  show ?thesis using R(1,3,4,8) d(1) new rest by (intro exI [of _ p] exI [of _ q] exI [of _ c2] exI [of _ r] exI [of _ d]) simp
qed

theorem removed_name_is_gone_witness:
  "\<exists>c1 c2 d. dir_search ''boot'' root_cursor = Some (Inr (), c1) \<and> remove_entries (the (loc c1)) c1 = Some (Inr (), c2) \<and>
     dir_search ''boot'' c2 = Some (Inl FAT_ERR_EOF, d)"
proof -
  from search_result [OF root_ready, of "''boot''"] obtain c1 where
    c1: "dir_search ''boot'' root_cursor = Some (Inr (), c1)" by (auto simp: root_lookup(1))
  have w: "whole_names (dir_entries [2] root_cursor)" using root_fits by (simp add: fits_def)
  have "lookup (put_sfn_name ''boot'') ''boot'' 1 (drop 1 (dir_entries [2] root_cursor)) (g_buf root_cursor) = Inl FAT_ERR_EOF"
  proof -
    have "drop 1 (dir_entries [2] root_cursor) = replicate 32 0 # replicate 14 (replicate 32 0)"
      unfolding root_entries by (simp add: eval_nat_numeral)
    moreover have "sfn_is_last (replicate 32 0)" by (simp add: sfn_is_last_def SFN_LAST_def)
    ultimately show ?thesis by (simp add: lookup.simps(2))
  qed
  with removed_name_is_gone [OF root_ready w c1] root_lookup(1) c1 show ?thesis by fastforce
qed

end
