(* ===== verification/File_Syscalls.thy ===== *)
theory File_Syscalls
  imports Syscalls Filesystem
begin

text \<open>
  The system calls of \<^verbatim>\<open>libs/syscalls.c\<close> on files and directories, and \<^verbatim>\<open>syscall_exec\<close>. They
  allocate kernel pages for a \<^verbatim>\<open>File\<close> or \<^verbatim>\<open>Dir\<close> and for the \<^verbatim>\<open>FatResource\<close> that a file descriptor
  of the current process points to. These objects are kept in a typed store by page address; an
  access through a pointer to no object, or to one of another type, is \<open>None\<close>. A \<^verbatim>\<open>char*\<close> from user
  space is the list of characters from there on; what a call writes to user space is part of its result.
\<close>

datatype page_object = File_object File | Dir_object Dir | Resource_object FatResource

record file_state =
  kern :: kernel_state
  objects :: "ulong \<Rightarrow> page_object option"
  fat :: cursor

definition zero_dir :: Dir where
  "zero_dir = \<lparr>d_fat = None, d_sclust = 0, d_clust = 0, d_sect = 0, d_idx = 0\<rparr>"

definition zero_file :: File where
  "zero_file = \<lparr>f_fat = None, f_dir_sect = 0, f_sclust = 0, f_clust = 0, f_sect = 0, f_size = 0, f_offset = 0,
     f_dir_idx = 0, f_attr = 0, f_flags = 0, f_buf = replicate 512 0\<rparr>"

definition on_kern :: "(kernel_state \<Rightarrow> kernel_state) \<Rightarrow> file_state \<Rightarrow> file_state" where
  "on_kern g st = st\<lparr>kern := g (kern st)\<rparr>"

definition set_object :: "ulong \<Rightarrow> page_object option \<Rightarrow> file_state \<Rightarrow> file_state" where
  "set_object a obj st = st\<lparr>objects := (objects st)(a := obj)\<rparr>"

text \<open>A page for an object, and giving it back. There is no object at NULL.\<close>

definition alloc_object :: "page_object \<Rightarrow> file_state \<Rightarrow> ulong \<times> file_state" where
  "alloc_object obj st =
     (let (page, m) = allocate_kernel_page (mem (kern st)); st1 = on_kern (\<lambda>k. k\<lparr>mem := m\<rparr>) st
      in (page, if page = 0 then st1 else set_object page (Some obj) st1))"

definition free_object :: "ulong \<Rightarrow> file_state \<Rightarrow> file_state option" where
  "free_object page st = do {
     (_, m) \<leftarrow> free_page page (mem (kern st));
     Some (set_object page None (on_kern (\<lambda>k. k\<lparr>mem := m\<rparr>) st))
   }"

subsection \<open>Descriptors\<close>

definition descriptors :: "file_state \<Rightarrow> ulong list" where
  "descriptors st = files (current_pcb (kern st))"

definition set_descriptor :: "int \<Rightarrow> ulong \<Rightarrow> file_state \<Rightarrow> file_state option" where
  "set_descriptor fd resource st = do {
     fs \<leftarrow> array_set (descriptors st) fd resource;
     Some (on_kern (set_sched (\<lambda>s. upd_pcb (current_process s) (\<lambda>P. P\<lparr>files := fs\<rparr>) s)) st)
   }"

definition resource_at :: "ulong \<Rightarrow> file_state \<Rightarrow> FatResource option" where
  "resource_at a st = (case objects st a of Some (Resource_object r) \<Rightarrow> Some r | _ \<Rightarrow> None)"

definition file_object :: "ulong \<Rightarrow> file_state \<Rightarrow> File option" where
  "file_object a st = (case objects st a of Some (File_object f) \<Rightarrow> Some f | _ \<Rightarrow> None)"

definition dir_object :: "ulong \<Rightarrow> file_state \<Rightarrow> Dir option" where
  "dir_object a st = (case objects st a of Some (Dir_object d) \<Rightarrow> Some d | _ \<Rightarrow> None)"

text \<open>The resource page of a new descriptor; a failed allocation is written through.\<close>

definition install_resource :: "int \<Rightarrow> FatResource \<Rightarrow> file_state \<Rightarrow> file_state option" where
  "install_resource fd r st = do {
     let (page, st1) = alloc_object (Resource_object r) st;
     st2 \<leftarrow> set_descriptor fd page st1;
     if page = 0 then None else Some st2
   }"

subsection \<open>Opening\<close>

text \<open>Calling a function of the file system on the \<^verbatim>\<open>Dir\<close> or \<^verbatim>\<open>File\<close> of a page. On a failed allocation
  only a call that returns before it uses the object has a result.\<close>

definition call_dir ::
  "(char list \<Rightarrow> char list \<Rightarrow> cursor \<Rightarrow> (int \<times> cursor) option) \<Rightarrow> char list \<Rightarrow> char list \<Rightarrow> ulong \<Rightarrow> file_state \<Rightarrow>
   (int \<times> file_state) option" where
  "call_dir operation junk p page st =
     (if page = 0 then do {
        (err, c) \<leftarrow> with_path junk p (\<lambda>_. None :: (unit, cursor) io) id (fat st);
        Some (err, st\<lparr>fat := c\<rparr>)
      } else do {
        d \<leftarrow> dir_object page st;
        (err, c) \<leftarrow> operation junk p ((fat st)\<lparr>dir := d\<rparr>);
        Some (err, set_object page (Some (Dir_object (dir c))) (st\<lparr>fat := c\<rparr>))
      })"

definition call_file ::
  "char list \<Rightarrow> char list \<Rightarrow> byte \<Rightarrow> ulong \<Rightarrow> file_state \<Rightarrow> (int \<times> file_state) option" where
  "call_file junk p fl page st =
     (if page = 0 then do {
        (err, s) \<leftarrow> with_path junk p (\<lambda>c. bind_io (find_or_create fl (zero_file, c)) (\<lambda>_ _. None :: unit file_io))
                     (\<lambda>c. (zero_file, c)) (fat st);
        Some (err, st\<lparr>fat := snd s\<rparr>)
      } else do {
        f \<leftarrow> file_object page st;
        (err, s) \<leftarrow> open_file junk p fl (f, fat st);
        Some (err, set_object page (Some (File_object (fst s))) (st\<lparr>fat := snd s\<rparr>))
      })"

text \<open>The common part of the three calls: \<open>code\<close> is what they return for an error of the library.\<close>

definition open_with ::
  "page_object \<Rightarrow> ResourceType \<Rightarrow> (ulong \<Rightarrow> file_state \<Rightarrow> (int \<times> file_state) option) \<Rightarrow> (int \<Rightarrow> int) \<Rightarrow> file_state \<Rightarrow>
   (int \<times> file_state) option" where
  "open_with obj typ call code st =
     (let file_descriptor = get_first_free_file_descriptor (current_pcb (kern st))
      in if file_descriptor = -1 then Some (-1, st)
         else do {
           let (page, st1) = alloc_object obj st;
           (err, st2) \<leftarrow> call page st1;
           if err \<noteq> 0 then do { st3 \<leftarrow> free_object page st2; Some (code err, st3) }
           else do {
             st3 \<leftarrow> install_resource file_descriptor \<lparr>resource_type = typ, resource_pointer = page\<rparr> st2;
             Some (file_descriptor, st3)
           }
         })"

definition syscall_create_dir :: "char list \<Rightarrow> char list \<Rightarrow> file_state \<Rightarrow> (int \<times> file_state) option" where
  "syscall_create_dir junk dir_path st =
     open_with (Dir_object zero_dir) RESOURCE_TYPE_FOLDER (call_dir create_dir junk dir_path) (\<lambda>err. err) st"

definition syscall_open_dir :: "char list \<Rightarrow> char list \<Rightarrow> file_state \<Rightarrow> (int \<times> file_state) option" where
  "syscall_open_dir junk dir_path st =
     open_with (Dir_object zero_dir) RESOURCE_TYPE_FOLDER (call_dir open_dir junk dir_path) (\<lambda>err. -1) st"

definition syscall_open_file :: "char list \<Rightarrow> char list \<Rightarrow> byte \<Rightarrow> file_state \<Rightarrow> (int \<times> file_state) option" where
  "syscall_open_file junk file_path fl st =
     open_with (File_object zero_file) RESOURCE_TYPE_FILE (call_file junk file_path fl) (\<lambda>err. -1) st"

subsection \<open>Using and closing\<close>

text \<open>\<^verbatim>\<open>current_process->files[fd]->f\<close>, with no check of the index, of NULL or of the type.\<close>

definition descriptor_file :: "int \<Rightarrow> file_state \<Rightarrow> (ulong \<times> File) option" where
  "descriptor_file fd st = do {
     a \<leftarrow> array_get (descriptors st) fd;
     r \<leftarrow> resource_at a st;
     f \<leftarrow> file_object (resource_pointer r) st;
     Some (resource_pointer r, f)
   }"

definition err_code :: "int + 'a \<Rightarrow> int" where
  "err_code r = (case r of Inl err \<Rightarrow> err | Inr _ \<Rightarrow> 0)"

text \<open>What a call of the library leaves, back in the store.\<close>

definition put_file :: "ulong \<Rightarrow> File \<times> cursor \<Rightarrow> file_state \<Rightarrow> file_state" where
  "put_file a s st = set_object a (Some (File_object (fst s))) (st\<lparr>fat := snd s\<rparr>)"

definition syscall_close_file :: "int \<Rightarrow> file_state \<Rightarrow> (int \<times> file_state) option" where
  "syscall_close_file fd st =
     (if fd < 0 \<or> fd \<ge> int MAX_FILES_PER_PROCESS then Some (-1, st)
      else do {
        (a, f) \<leftarrow> descriptor_file fd st;
        (r, s) \<leftarrow> fat_file_close (f, fat st);
        let st1 = put_file a s st;
        if err_code r \<noteq> 0 then Some (err_code r, st1)
        else do {
          st2 \<leftarrow> free_object a st1;
          st3 \<leftarrow> install_resource fd \<lparr>resource_type = RESOURCE_TYPE_FILE, resource_pointer = 0\<rparr> st2;
          Some (0, st3)
        }
      })"

text \<open>The result is the code returned and the value of \<^verbatim>\<open>*bytes\<close>, if the call wrote it.\<close>

definition syscall_write_file :: "int \<Rightarrow> byte list \<Rightarrow> int \<Rightarrow> file_state \<Rightarrow> (int \<times> int option \<times> file_state) option" where
  "syscall_write_file fd buffer len st = do {
     a \<leftarrow> array_get (descriptors st) fd;
     if a = 0 then Some (-1, None, st)
     else do {
       (a, f) \<leftarrow> descriptor_file fd st;
       (r, s) \<leftarrow> fat_file_write len buffer (f, fat st);
       Some (err_code r, Some (case r of Inl err \<Rightarrow> 0 | Inr n \<Rightarrow> n), put_file a s st)
     }
   }"

text \<open>The result is the code returned and the bytes written to the buffer; \<^verbatim>\<open>*bytes\<close> is their number.\<close>

definition syscall_read_file :: "int \<Rightarrow> int \<Rightarrow> file_state \<Rightarrow> (int \<times> byte list \<times> file_state) option" where
  "syscall_read_file fd len st = do {
     (a, f) \<leftarrow> descriptor_file fd st;
     (_, s) \<leftarrow> fat_file_seek 0 FAT_SEEK_START (f, fat st);
     (r, data, s1) \<leftarrow> fat_file_read len s;
     Some (err_code r, data, put_file a s1 st)
   }"

text \<open>The caller's \<^verbatim>\<open>FatEntryInfo\<close>. Its \<^verbatim>\<open>size\<close> is never written, its name is not terminated.\<close>

record FatEntryInfo =
  e_size :: uint32
  e_name :: "byte list"
  is_dir :: bool

definition FAT_MAX_NAME_SIZE :: nat where "FAT_MAX_NAME_SIZE = 64"

definition fill_entry :: "DirInfo \<Rightarrow> FatEntryInfo \<Rightarrow> FatEntryInfo option" where
  "fill_entry info entry =
     (let n = min (length (info_name info)) 255
      in if n > length (e_name entry) then None
         else Some (entry\<lparr>e_name := take n (info_name info) @ drop n (e_name entry),
                          is_dir := attr info AND FAT_ATTR_DIR \<noteq> 0\<rparr>))"

definition put_dir :: "ulong \<Rightarrow> cursor \<Rightarrow> file_state \<Rightarrow> file_state" where
  "put_dir a c st = set_object a (Some (Dir_object (dir c))) (st\<lparr>fat := c\<rparr>)"

definition syscall_get_next_entry ::
  "int \<Rightarrow> FatEntryInfo \<Rightarrow> file_state \<Rightarrow> (int \<times> FatEntryInfo \<times> file_state) option" where
  "syscall_get_next_entry fd entry st = do {
     a \<leftarrow> array_get (descriptors st) fd;
     fat_resource \<leftarrow> resource_at a st;
     let p = resource_pointer fat_resource;
     if p = 0 then Some (-1, entry, st)
     else do {
       d \<leftarrow> dir_object p st;
       (r, c) \<leftarrow> fat_dir_read ((fat st)\<lparr>dir := d\<rparr>);
       case r of
         Inl err \<Rightarrow> Some (-1, entry, put_dir p c st)
       | Inr info \<Rightarrow> do {
           entry' \<leftarrow> fill_entry info entry;
           (r2, c2) \<leftarrow> fat_dir_next c;
           Some (if err_code r2 \<noteq> 0 then -1 else 0, entry', put_dir p c2 st)
         }
     }
   }"

subsection \<open>Running a program\<close>

definition SYSCALL_EXEC_ARGUMENT_DIMENSION :: nat where "SYSCALL_EXEC_ARGUMENT_DIMENSION = 64"

text \<open>One byte of memory, at a kernel address.\<close>

definition poke :: "ulong \<Rightarrow> byte \<Rightarrow> mm_state \<Rightarrow> mm_state" where
  "poke a b m =
     (let word = a AND NOT 7; shift = 8 * unat (a AND 7)
      in store word ((load word m AND NOT (push_bit shift 0xff)) OR push_bit shift (ucast b)) m)"

definition frame_index :: "ulong \<Rightarrow> nat" where
  "frame_index a = unat ((a - VA_START - LOW_MEMORY) div PAGE_SIZE)"

text \<open>Writing the bytes of the program to the page \<open>buffer\<close>. Up to 16 pages are read into that one page:
  what does not fit goes to the next frames, which has a defined effect only while they are free.\<close>

fun write_buffer :: "ulong \<Rightarrow> ulong \<Rightarrow> byte list \<Rightarrow> mm_state \<Rightarrow> mm_state option" where
  "write_buffer buffer a [] m = Some m"
| "write_buffer buffer a (b # bs) m =
     (if buffer \<noteq> 0 \<and> (frame_index a = frame_index buffer \<or>
          frame_index a < N_PAGES \<and> memory_pages m (frame_index a) = 0)
      then write_buffer buffer (a + 1) bs (poke a b m) else None)"

text \<open>Row \<open>i\<close> of a two-dimensional array of characters, up to the end of the array, and the copies of the
  arguments in the kernel. \<^verbatim>\<open>memzero\<close> writes at least eight bytes, too many for an array of no rows.\<close>

definition argument_row :: "nat \<Rightarrow> char list \<Rightarrow> char list" where
  "argument_row i xs = drop (i * SYSCALL_EXEC_ARGUMENT_DIMENSION) xs"

definition save_argument :: "char list \<Rightarrow> nat \<Rightarrow> char list \<Rightarrow> char list option" where
  "save_argument arguments i safe = do {
     row \<leftarrow> strcpy (argument_row i safe) (argument_row i arguments);
     Some (take (i * SYSCALL_EXEC_ARGUMENT_DIMENSION) safe @ row)
   }"

definition save_arguments :: "int \<Rightarrow> char list \<Rightarrow> char list option" where
  "save_arguments n_arguments arguments =
     (if n_arguments \<le> 0 then None
      else foldM (save_argument arguments) [0..<nat n_arguments]
             (replicate (nat n_arguments * SYSCALL_EXEC_ARGUMENT_DIMENSION) NUL))"

text \<open>The pages of the old program.\<close>

definition free_user_page :: "nat \<Rightarrow> mm_struct \<times> mm_state \<Rightarrow> (mm_struct \<times> mm_state) option" where
  "free_user_page i dm = do {
     let (d, m) = dm;
     p \<leftarrow> array_get (user_pages d) (int i);
     (_, m1) \<leftarrow> free_page (physical_address p + VA_START) m;
     pages \<leftarrow> array_set (user_pages d) (int i) \<lparr>physical_address = 0, virtual_address = 0\<rparr>;
     Some (d\<lparr>n_user_pages := n_user_pages d - 1, user_pages := pages\<rparr>, m1)
   }"

definition free_user_pages :: "mm_struct \<Rightarrow> mm_state \<Rightarrow> (mm_struct \<times> mm_state) option" where
  "free_user_pages d m = foldM free_user_page [0..<nat (n_user_pages d)] (d, m)"

text \<open>\<^verbatim>\<open>strcpy\<close> to an address of the process, through its page tables.\<close>

fun put_user_string :: "mm_struct \<Rightarrow> ulong \<Rightarrow> char list \<Rightarrow> mm_state \<Rightarrow> mm_state option" where
  "put_user_string d va [] m = None"
| "put_user_string d va (c # cs) m = do {
     page \<leftarrow> translation m d va;
     let m1 = poke (page + (va AND (PAGE_SIZE - 1)) + VA_START) (of_char c) m;
     if c = NUL then Some m1 else put_user_string d (va + 1) cs m1
   }"

definition put_argument ::
  "mm_struct \<Rightarrow> char list \<Rightarrow> nat \<Rightarrow> ulong \<times> ulong list \<times> mm_state \<Rightarrow> (ulong \<times> ulong list \<times> mm_state) option" where
  "put_argument d safe i s = do {
     let (stack_pointer, trap_frame, m) = s;
     let stack_pointer = stack_pointer - of_nat SYSCALL_EXEC_ARGUMENT_DIMENSION;
     m1 \<leftarrow> put_user_string d stack_pointer (argument_row i safe) m;
     trap_frame' \<leftarrow> array_set trap_frame (int i + 1) stack_pointer;
     Some (stack_pointer, trap_frame', m1)
   }"

text \<open>The part of \<^verbatim>\<open>syscall_exec\<close> that replaces the program: \<open>d\<close> and \<open>m\<close> are the memory of the current
  process; the result has its new descriptor, memory and saved registers.\<close>

definition replace_program ::
  "ulong \<Rightarrow> int \<Rightarrow> ulong list \<Rightarrow> int \<Rightarrow> char list \<Rightarrow> mm_struct \<Rightarrow> mm_state \<Rightarrow>
   (ulong list \<times> mm_struct \<times> mm_state) option" where
  "replace_program buffer read_bytes trap_frame n_arguments safe d m = do {
     (d1, m1) \<leftarrow> free_user_pages d m;
     (d2, m2) \<leftarrow> copy_code buffer (word_of_int read_bytes) d1 m1;
     t1 \<leftarrow> array_set trap_frame 0 (word_of_int n_arguments);
     (stack_pointer, t2, m3) \<leftarrow>
       foldM (put_argument d2 safe) [0..<nat n_arguments] (16 * PAGE_SIZE, t1, m2);
     t3 \<leftarrow> array_set t2 31 stack_pointer;
     t4 \<leftarrow> array_set t3 32 0;
     Some (t4, d2, m3)
   }"

definition syscall_exec ::
  "char list \<Rightarrow> char list \<Rightarrow> ulong list \<Rightarrow> int \<Rightarrow> char list \<Rightarrow> file_state \<Rightarrow> (int \<times> ulong list \<times> file_state) option" where
  "syscall_exec junk p trap_frame n_arguments arguments st = do {
     (fd, st1) \<leftarrow> syscall_open_file junk p FAT_READ st;
     if fd = -1 then Some (-1, trap_frame, st1)
     else do {
       let (buffer, m) = allocate_kernel_page (mem (kern st1));
       let st2 = on_kern (\<lambda>k. k\<lparr>mem := m\<rparr>) st1;
       (_, data, st3) \<leftarrow> syscall_read_file fd (uint PAGE_SIZE * 16) st2;
       m3 \<leftarrow> write_buffer buffer buffer data (mem (kern st3));
       (_, st4) \<leftarrow> syscall_close_file fd (on_kern (\<lambda>k. k\<lparr>mem := m3\<rparr>) st3);
       let read_bytes = int (length data);
       if read_bytes > uint PAGE_SIZE * 15 then Some (-1, trap_frame, st4)
       else do {
         safe \<leftarrow> save_arguments n_arguments arguments;
         (t, d, m4) \<leftarrow> replace_program buffer read_bytes trap_frame n_arguments safe
                         (mm (current_pcb (kern st4))) (mem (kern st4));
         Some (0, t, on_kern (\<lambda>k. set_sched (\<lambda>s. upd_pcb (current_process s) (\<lambda>P. P\<lparr>mm := d\<rparr>) s) (k\<lparr>mem := m4\<rparr>)) st4)
       }
     }
   }"

subsection \<open>Descriptors are used up\<close>

text \<open>The number of descriptors of the current process that point nowhere.\<close>

definition free_descriptors :: "file_state \<Rightarrow> nat" where
  "free_descriptors st = length (filter (\<lambda>a. a = 0) (take MAX_FILES_PER_PROCESS (descriptors st)))"

text \<open>A file state whose process has its array of descriptors, and no object at NULL.\<close>

definition files_ok :: "file_state \<Rightarrow> bool" where
  "files_ok st \<longleftrightarrow> length (descriptors st) = MAX_FILES_PER_PROCESS \<and> objects st 0 = None"

lemma on_kern_mem [simp]:
  "descriptors (on_kern (\<lambda>k. k\<lparr>mem := m\<rparr>) st) = descriptors st"
  "objects (on_kern g st) = objects st" "fat (on_kern g st) = fat st" "kern (on_kern g st) = g (kern st)"
  by (simp_all add: descriptors_def on_kern_def current_pcb_def)

lemma set_object_simps [simp]:
  "descriptors (set_object a obj st) = descriptors st" "objects (set_object a obj st) = (objects st)(a := obj)"
  "kern (set_object a obj st) = kern st" "fat (set_object a obj st) = fat st"
  "descriptors (st\<lparr>fat := c\<rparr>) = descriptors st"
  by (simp_all add: set_object_def descriptors_def)

lemma alloc_object_frame:
  assumes "alloc_object obj st = (page, st1)"
  shows "descriptors st1 = descriptors st" "fat st1 = fat st"
    "objects st1 = (if page = 0 then objects st else (objects st)(page := Some obj))"
  using assms by (auto simp: alloc_object_def case_prod_beta Let_def)

lemma free_object_frame:
  assumes "free_object a st = Some st1"
  shows "descriptors st1 = descriptors st" "fat st1 = fat st" "objects st1 = (objects st)(a := None)"
  using assms by (auto simp: free_object_def bind_eq_Some_conv case_prod_beta)

lemma set_descriptor_frame:
  assumes "set_descriptor fd r st = Some st1"
  shows "0 \<le> fd" "nat fd < length (descriptors st)" "descriptors st1 = (descriptors st)[nat fd := r]"
    "objects st1 = objects st" "fat st1 = fat st"
  using assms
  by (auto simp: set_descriptor_def bind_eq_Some_conv array_simps on_kern_def set_sched_def descriptors_def current_pcb_def)

lemma install_resource_frame:
  assumes "install_resource fd r st = Some st1"
  shows "\<exists>a. a \<noteq> 0 \<and> 0 \<le> fd \<and> nat fd < length (descriptors st) \<and> descriptors st1 = (descriptors st)[nat fd := a] \<and>
    objects st1 = (objects st)(a := Some (Resource_object r)) \<and> fat st1 = fat st"
proof -
  obtain a st2 where al: "alloc_object (Resource_object r) st = (a, st2)" by fastforce
  have "set_descriptor fd a st2 = Some st1" "a \<noteq> 0"
    using al assms by (auto simp: install_resource_def bind_eq_Some_conv split: if_splits)
  from set_descriptor_frame [OF this(1)] alloc_object_frame [OF al] this(2) show ?thesis
    by (intro exI [of _ a]) simp
qed

text \<open>Replacing a descriptor by one that is in use takes a free one away, or nothing.\<close>

lemma free_descriptors_update:
  assumes "length (descriptors st) = MAX_FILES_PER_PROCESS" "i < MAX_FILES_PER_PROCESS" "a \<noteq> 0"
    "descriptors st1 = (descriptors st)[i := a]"
  shows "free_descriptors st = free_descriptors st1 + (if descriptors st ! i = 0 then 1 else 0)"
proof -
  let ?ds = "descriptors st"
  have s: "?ds = take i ?ds @ ?ds ! i # drop (Suc i) ?ds" using assms(1,2) by (simp add: id_take_nth_drop)
  have u: "?ds[i := a] = take i ?ds @ a # drop (Suc i) ?ds" using assms(1,2) by (simp add: upd_conv_take_nth_drop)
  have "take MAX_FILES_PER_PROCESS ?ds = ?ds" using assms(1) by simp
  then have "free_descriptors st = length (filter (\<lambda>a. a = 0) (take i ?ds @ ?ds ! i # drop (Suc i) ?ds))"
    using s by (simp only: free_descriptors_def)
  moreover have "free_descriptors st1 = length (filter (\<lambda>a. a = 0) (take i ?ds @ a # drop (Suc i) ?ds))"
  proof -
    have "take MAX_FILES_PER_PROCESS (?ds[i := a]) = ?ds[i := a]" using assms(1) by simp
    then show ?thesis by (simp only: free_descriptors_def assms(4) u)
  qed
  ultimately show ?thesis using assms(3) by simp
qed

lemma call_dir_frame:
  assumes "call_dir operation junk p page st = Some (err, st1)"
  shows "descriptors st1 = descriptors st" "objects st 0 = None \<Longrightarrow> objects st1 0 = None"
  using assms by (auto simp: call_dir_def bind_eq_Some_conv dir_object_def split: if_splits)

lemma call_file_frame:
  assumes "call_file junk p fl page st = Some (err, st1)"
  shows "descriptors st1 = descriptors st" "objects st 0 = None \<Longrightarrow> objects st1 0 = None"
  using assms by (auto simp: call_file_def bind_eq_Some_conv file_object_def split: if_splits)

text \<open>Opening: a new descriptor takes a free one; without one, or when the call fails, none is taken.\<close>

lemma open_with_descriptors:
  assumes ok: "files_ok st" and r: "open_with obj typ call code st = Some (fd, st1)"
    and frame: "\<And>page s err s1. call page s = Some (err, s1) \<Longrightarrow> descriptors s1 = descriptors s"
      "\<And>page s err s1. call page s = Some (err, s1) \<Longrightarrow> objects s 0 = None \<Longrightarrow> objects s1 0 = None"
  shows "files_ok st1 \<and>
    (descriptors st1 = descriptors st \<and> (fd = -1 \<or> (\<exists>err. err \<noteq> 0 \<and> fd = code err)) \<or>
     free_descriptors st = Suc (free_descriptors st1) \<and> 0 \<le> fd \<and> nat fd < MAX_FILES_PER_PROCESS \<and> descriptors st ! nat fd = 0)"
proof -
  let ?fd = "get_first_free_file_descriptor (current_pcb (kern st))"
  have len: "length (descriptors st) = MAX_FILES_PER_PROCESS" "objects st 0 = None" using ok by (simp_all add: files_ok_def)
  have "?fd = free_descriptor_from 0 (descriptors st)"
    using len(1) by (simp add: get_first_free_file_descriptor_def descriptors_def)
  with free_descriptor_from_correct [of 0 "descriptors st"] consider "?fd = -1"
    | k where "k < MAX_FILES_PER_PROCESS" "?fd = int k" "descriptors st ! k = 0"
    using len(1) by auto
  then show ?thesis
  proof cases
    case 1
    then show ?thesis using r ok by (simp add: open_with_def)
  next
    case 2
    obtain page s1 where al: "alloc_object obj st = (page, s1)" by fastforce
    note A = alloc_object_frame [OF al]
    have s1: "objects s1 0 = None" using A(3) len(2) by auto
    have "?fd \<noteq> -1" using 2(2) by simp
    with r al obtain err s2 where c: "call page s1 = Some (err, s2)"
      "(if err \<noteq> 0 then do { st3 \<leftarrow> free_object page s2; Some (code err, st3) }
        else do { st3 \<leftarrow> install_resource ?fd \<lparr>resource_type = typ, resource_pointer = page\<rparr> s2; Some (?fd, st3) }) =
        Some (fd, st1)"
      by (auto simp: open_with_def Let_def bind_eq_Some_conv)
    note F = frame(1) [OF c(1)] frame(2) [OF c(1) s1]
    show ?thesis
    proof (cases "err = 0")
      case False
      then have "free_object page s2 = Some st1" "\<exists>err. err \<noteq> 0 \<and> fd = code err" using c(2) by (auto simp: bind_eq_Some_conv)
      then show ?thesis using free_object_frame [of page s2 st1] F A(1) len by (simp add: files_ok_def)
    next
      case True
      then have i: "install_resource ?fd \<lparr>resource_type = typ, resource_pointer = page\<rparr> s2 = Some st1" "fd = int k"
        using c(2) 2(2) by (auto simp: bind_eq_Some_conv)
      from install_resource_frame [OF i(1)] obtain a where
        a: "a \<noteq> 0" "descriptors st1 = (descriptors st)[k := a]"
          "objects st1 = (objects s2)(a := Some (Resource_object \<lparr>resource_type = typ, resource_pointer = page\<rparr>))"
        using 2(2) F A(1) by auto
      from free_descriptors_update [OF len(1) 2(1) a(1,2)] show ?thesis
        using a F(2) i(2) 2(1,3) len(1) by (simp add: files_ok_def)
    qed
  qed
qed

lemma open_calls_descriptors:
  assumes "files_ok st"
  shows "syscall_open_dir junk p st = Some (fd, st1) \<Longrightarrow> files_ok st1 \<and>
      free_descriptors st = (if fd < 0 then free_descriptors st1 else Suc (free_descriptors st1))"
    "syscall_open_file junk p fl st = Some (fd, st1) \<Longrightarrow> files_ok st1 \<and>
      free_descriptors st = (if fd < 0 then free_descriptors st1 else Suc (free_descriptors st1))"
    "syscall_create_dir junk p st = Some (fd, st1) \<Longrightarrow> files_ok st1 \<and> free_descriptors st1 \<le> free_descriptors st"
proof -
  show "syscall_open_dir junk p st = Some (fd, st1) \<Longrightarrow> files_ok st1 \<and>
      free_descriptors st = (if fd < 0 then free_descriptors st1 else Suc (free_descriptors st1))"
    using open_with_descriptors [OF assms _ call_dir_frame(1) call_dir_frame(2)]
    unfolding syscall_open_dir_def by (fastforce simp: free_descriptors_def)
  show "syscall_open_file junk p fl st = Some (fd, st1) \<Longrightarrow> files_ok st1 \<and>
      free_descriptors st = (if fd < 0 then free_descriptors st1 else Suc (free_descriptors st1))"
    using open_with_descriptors [OF assms _ call_file_frame(1) call_file_frame(2)]
    unfolding syscall_open_file_def by (fastforce simp: free_descriptors_def)
  show "syscall_create_dir junk p st = Some (fd, st1) \<Longrightarrow> files_ok st1 \<and> free_descriptors st1 \<le> free_descriptors st"
    using open_with_descriptors [OF assms _ call_dir_frame(1) call_dir_frame(2)]
    unfolding syscall_create_dir_def by (fastforce simp: free_descriptors_def)
qed

text \<open>The other calls: closing puts a new resource where one was, and the rest leave descriptors alone.\<close>

lemma descriptor_file_Some:
  assumes "descriptor_file fd st = Some (a, f)"
  shows "0 \<le> fd" "nat fd < length (descriptors st)" "resource_at (descriptors st ! nat fd) st \<noteq> None" "file_object a st = Some f"
  using assms by (auto simp: descriptor_file_def bind_eq_Some_conv array_simps)

lemma object_not_null:
  assumes "objects st 0 = None"
  shows "file_object a st \<noteq> None \<Longrightarrow> a \<noteq> 0" "resource_at a st \<noteq> None \<Longrightarrow> a \<noteq> 0" "dir_object a st \<noteq> None \<Longrightarrow> a \<noteq> 0"
  using assms by (auto simp: file_object_def resource_at_def dir_object_def)

lemma put_file_frame [simp]:
  "descriptors (put_file a s st) = descriptors st" "objects (put_file a s st) = (objects st)(a := Some (File_object (fst s)))"
  "descriptors (put_dir a c st) = descriptors st" "objects (put_dir a c st) = (objects st)(a := Some (Dir_object (dir c)))"
  by (simp_all add: put_file_def put_dir_def)

lemma close_file_descriptors:
  assumes ok: "files_ok st" and r: "syscall_close_file fd st = Some (r, st1)"
  shows "files_ok st1 \<and> free_descriptors st1 = free_descriptors st"
proof (cases "fd < 0 \<or> fd \<ge> int MAX_FILES_PER_PROCESS")
  case False
  have len: "length (descriptors st) = MAX_FILES_PER_PROCESS" "objects st 0 = None" using ok by (simp_all add: files_ok_def)
  obtain a f e s where d: "descriptor_file fd st = Some (a, f)" "fat_file_close (f, fat st) = Some (e, s)"
    using r False by (auto simp: syscall_close_file_def bind_eq_Some_conv)
  note D = descriptor_file_Some [OF d(1)]
  have a: "a \<noteq> 0" "descriptors st ! nat fd \<noteq> 0" using object_not_null [OF len(2)] D(3,4) by auto
  show ?thesis
  proof (cases "err_code e = 0")
    case True
    then obtain s2 where s2: "free_object a (put_file a s st) = Some s2"
      "install_resource fd \<lparr>resource_type = RESOURCE_TYPE_FILE, resource_pointer = 0\<rparr> s2 = Some st1"
      using r False d by (auto simp: syscall_close_file_def bind_eq_Some_conv)
    from install_resource_frame [OF s2(2)] free_object_frame [OF s2(1)] obtain b where
      b: "b \<noteq> 0" "descriptors st1 = (descriptors st)[nat fd := b]" "objects st1 0 = None"
      using len(2) by auto
    have "free_descriptors st = free_descriptors st1"
      using free_descriptors_update [OF len(1) _ b(1,2)] D(2) a(2) len(1) by simp
    then show ?thesis using b(2,3) len(1) by (simp add: files_ok_def)
  qed (use r False d ok a in \<open>auto simp: syscall_close_file_def files_ok_def free_descriptors_def\<close>)
qed (use assms in \<open>simp add: syscall_close_file_def\<close>)

lemma other_calls_descriptors:
  assumes "files_ok st"
  shows "syscall_write_file fd buffer len st = Some (r, b, st1) \<Longrightarrow> files_ok st1 \<and> free_descriptors st1 = free_descriptors st"
    "syscall_read_file fd n st = Some (r, data, st1) \<Longrightarrow> files_ok st1 \<and> free_descriptors st1 = free_descriptors st"
    "syscall_get_next_entry fd entry st = Some (r, entry', st1) \<Longrightarrow> files_ok st1 \<and> free_descriptors st1 = free_descriptors st"
proof -
  have ok: "files_ok (put_file a s st)" if "file_object a st = Some f" for a s f
    using assms object_not_null(1) [of st a] that by (auto simp: files_ok_def)
  have free: "free_descriptors (put_file a s st) = free_descriptors st" "free_descriptors (put_dir a c st) = free_descriptors st"
    for a s c by (simp_all add: free_descriptors_def)
  have dir: "files_ok (put_dir a c st)" if "dir_object a st = Some d" for a c d
    using assms object_not_null(3) [of st a] that by (auto simp: files_ok_def)
  show "syscall_write_file fd buffer len st = Some (r, b, st1) \<Longrightarrow> files_ok st1 \<and> free_descriptors st1 = free_descriptors st"
    using assms ok [OF descriptor_file_Some(4)] free
    by (auto simp: syscall_write_file_def bind_eq_Some_conv split: if_splits)
  show "syscall_read_file fd n st = Some (r, data, st1) \<Longrightarrow> files_ok st1 \<and> free_descriptors st1 = free_descriptors st"
    using ok [OF descriptor_file_Some(4)] free by (auto simp: syscall_read_file_def bind_eq_Some_conv)
  assume r: "syscall_get_next_entry fd entry st = Some (r, entry', st1)"
  have "st1 = st \<or> (\<exists>p d c. dir_object p st = Some d \<and> st1 = put_dir p c st)"
  proof -
    from r obtain p where p: "(if p = 0 then Some (-1, entry, st)
     else do {
       d \<leftarrow> dir_object p st;
       (r, c) \<leftarrow> fat_dir_read ((fat st)\<lparr>dir := d\<rparr>);
       case r of
         Inl err \<Rightarrow> Some (-1, entry, put_dir p c st)
       | Inr info \<Rightarrow> do {
           entry' \<leftarrow> fill_entry info entry;
           (r2, c2) \<leftarrow> fat_dir_next c;
           Some (if err_code r2 \<noteq> 0 then -1 else 0, entry', put_dir p c2 st)
         }
     }) = Some (r, entry', st1)"
      by (auto simp: syscall_get_next_entry_def Let_def bind_eq_Some_conv)
    show ?thesis
    proof (cases "p = 0")
      case False
      with p obtain d where d: "dir_object p st = Some d" by (auto simp: bind_eq_Some_conv)
      with p False obtain e c where "fat_dir_read ((fat st)\<lparr>dir := d\<rparr>) = Some (e, c)"
        by (cases "fat_dir_read ((fat st)\<lparr>dir := d\<rparr>)") auto
      with p False d show ?thesis by (cases e) (auto simp: bind_eq_Some_conv split: if_splits)
    qed (use p in simp)
  qed
  then show "files_ok st1 \<and> free_descriptors st1 = free_descriptors st" using assms dir free by auto
qed

end
