(* ===== verification/File_Call_Properties.thy ===== *)
theory File_Call_Properties
  imports File_Syscalls Kernel_Properties Fat_Properties
begin

text \<open>
  The properties of the system calls on files: what runs of them do to the descriptors of a process,
  that every read starts at the beginning, and that a failed call leaves nothing behind.
\<close>

subsection \<open>Runs of calls\<close>

text \<open>The calls of one process on files and directories; the number counts the successful opens.\<close>

inductive file_run :: "nat \<Rightarrow> file_state \<Rightarrow> file_state \<Rightarrow> bool" where
  start: "file_run 0 st st"
| open_dir: "file_run n st s \<Longrightarrow> syscall_open_dir junk p s = Some (fd, s') \<Longrightarrow> file_run (if fd < 0 then n else Suc n) st s'"
| open_file: "file_run n st s \<Longrightarrow> syscall_open_file junk p fl s = Some (fd, s') \<Longrightarrow> file_run (if fd < 0 then n else Suc n) st s'"
| create_dir: "file_run n st s \<Longrightarrow> syscall_create_dir junk p s = Some (r, s') \<Longrightarrow> file_run n st s'"
| close_file: "file_run n st s \<Longrightarrow> syscall_close_file fd s = Some (r, s') \<Longrightarrow> file_run n st s'"
| write_file: "file_run n st s \<Longrightarrow> syscall_write_file fd buffer len s = Some (r, b, s') \<Longrightarrow> file_run n st s'"
| read_file: "file_run n st s \<Longrightarrow> syscall_read_file fd len s = Some (r, data, s') \<Longrightarrow> file_run n st s'"
| next_entry: "file_run n st s \<Longrightarrow> syscall_get_next_entry fd entry s = Some (r, entry', s') \<Longrightarrow> file_run n st s'"

lemma file_run_descriptors:
  assumes "file_run n st s" "files_ok st"
  shows "files_ok s \<and> n + free_descriptors s \<le> free_descriptors st"
  using assms
proof (induction rule: file_run.induct)
  case (open_dir n st s junk p fd s')
  then show ?case using open_calls_descriptors(1) [of s junk p fd s'] by (auto split: if_splits)
next
  case (open_file n st s junk p fl fd s')
  then show ?case using open_calls_descriptors(2) [of s junk p fl fd s'] by (auto split: if_splits)
next
  case (create_dir n st s junk p r s')
  then show ?case using open_calls_descriptors(3) [of s junk p r s'] by auto
next
  case (close_file n st s fd r s')
  then show ?case using close_file_descriptors [of s fd r s'] by simp
next
  case (write_file n st s fd buffer len r b s')
  then show ?case using other_calls_descriptors(1) [of s] by metis
next
  case (read_file n st s fd len r data s')
  then show ?case using other_calls_descriptors(2) [of s] by metis
next
  case (next_entry n st s fd entry r entry' s')
  then show ?case using other_calls_descriptors(3) [of s] by metis
qed simp

text \<open>C12: descriptors are never given back. Closing puts another resource where the file was, so in any
  run of calls every successful open takes one of the descriptors that were free at its start: a process
  opens at most 16 files and directories in its life, however many of them it closes.\<close>

theorem descriptors_used_up:
  assumes "file_run n st s" "files_ok st"
  shows "n + free_descriptors s \<le> free_descriptors st \<and> n \<le> MAX_FILES_PER_PROCESS"
proof -
  have "free_descriptors st \<le> length (take MAX_FILES_PER_PROCESS (descriptors st))"
    unfolding free_descriptors_def by (rule length_filter_le)
  also have "\<dots> \<le> MAX_FILES_PER_PROCESS" by simp
  finally show ?thesis using file_run_descriptors [OF assms] by simp
qed

definition sample_state :: file_state where
  "sample_state = \<lparr>kern = boot_kernel, objects = (\<lambda>_. None), fat = sample_cursor\<rparr>"

lemma sample_state_ok: "files_ok sample_state" "free_descriptors sample_state = 16"
  by (simp_all add: files_ok_def free_descriptors_def sample_state_def descriptors_def current_pcb_def boot_kernel_def
      init_kernel_def init_sched_def INIT_PROCESS_def MAX_FILES_PER_PROCESS_def)

lemma sample_state_kern: "kern sample_state = boot_kernel" by (simp add: sample_state_def)

subsection \<open>Allocation\<close>

lemma alloc_object_ok:
  assumes "free_frames (mem (kern st)) \<noteq> {}"
  shows "\<exists>i m. alloc_object obj st = (frame i + VA_START,
      set_object (frame i + VA_START) (Some obj) (on_kern (\<lambda>k. k\<lparr>mem := m\<rparr>) st)) \<and>
    frame i + VA_START \<noteq> 0 \<and> i < N_PAGES \<and> i \<in> free_frames (mem (kern st)) \<and>
    free_frames m = free_frames (mem (kern st)) - {i} \<and>
    phys m = (\<lambda>a. if a - frame i < PAGE_SIZE then 0 else phys (mem (kern st)) a)"
proof -
  from get_free_page_ok [OF assms] obtain i m where
    g: "get_free_page (mem (kern st)) = (frame i, m)" "i \<in> free_frames (mem (kern st))"
      "free_frames m = free_frames (mem (kern st)) - {i}"
      "phys m = (\<lambda>a. if a - frame i < PAGE_SIZE then 0 else phys (mem (kern st)) a)" by blast
  have i: "i < N_PAGES" using g(2) by (simp add: free_frames_def)
  have "alloc_object obj st = (frame i + VA_START,
      set_object (frame i + VA_START) (Some obj) (on_kern (\<lambda>k. k\<lparr>mem := m\<rparr>) st))"
    using g(1) frame_nonzero [OF i] frame_not_VA [OF i] by (simp add: alloc_object_def allocate_kernel_page_def)
  then show ?thesis using g i frame_not_VA [OF i] by blast
qed

lemma free_descriptor_exists:
  assumes "files_ok st" "0 < free_descriptors st"
  shows "\<exists>k < MAX_FILES_PER_PROCESS. get_first_free_file_descriptor (current_pcb (kern st)) = int k"
proof -
  have len: "length (descriptors st) = MAX_FILES_PER_PROCESS" using assms(1) by (simp add: files_ok_def)
  then have "filter (\<lambda>a. a = 0) (descriptors st) \<noteq> []" using assms(2) by (simp add: free_descriptors_def)
  then have "0 \<in> set (descriptors st)" by (auto simp: filter_empty_conv)
  moreover have "get_first_free_file_descriptor (current_pcb (kern st)) = free_descriptor_from 0 (descriptors st)"
    using len by (simp add: get_first_free_file_descriptor_def descriptors_def)
  ultimately show ?thesis using free_descriptor_from_correct [of 0 "descriptors st"] len by auto
qed

lemma install_resource_ok:
  assumes "free_frames (mem (kern st)) \<noteq> {}" "length (descriptors st) = MAX_FILES_PER_PROCESS" "k < MAX_FILES_PER_PROCESS"
  shows "\<exists>st1. install_resource (int k) r st = Some st1"
proof -
  from alloc_object_ok [OF assms(1), of "Resource_object r"] obtain a st1 where
    "alloc_object (Resource_object r) st = (a, st1)" "a \<noteq> 0" "length (descriptors st1) = MAX_FILES_PER_PROCESS"
    using assms(2) by auto
  then show ?thesis using assms(3) by (simp add: install_resource_def set_descriptor_def array_set_def)
qed

lemma boot_frames: "free_frames (mem boot_kernel) - {i} \<noteq> {}"
proof -
  have "(if i = 0 then 1 else 0) \<in> free_frames (mem boot_kernel)"
    by (simp add: boot_kernel_def init_kernel_def fresh_memory_frames N_PAGES_def)
  then show ?thesis by (cases "i = 0") auto
qed

text \<open>When the directory can be opened and there are pages for it, the call returns a descriptor.\<close>

lemma open_dir_installs:
  assumes "files_ok st" "0 < free_descriptors st" "\<And>i. free_frames (mem (kern st)) - {i} \<noteq> {}"
    and dir: "open_dir junk p ((fat st)\<lparr>dir := zero_dir\<rparr>) = Some (0, c)"
  shows "\<exists>fd st1. syscall_open_dir junk p st = Some (fd, st1) \<and> 0 \<le> fd"
proof -
  from free_descriptor_exists [OF assms(1,2)] obtain k where
    fd: "k < MAX_FILES_PER_PROCESS" "get_first_free_file_descriptor (current_pcb (kern st)) = int k" by blast
  from assms(3) have "free_frames (mem (kern st)) \<noteq> {}" by blast
  from alloc_object_ok [OF this, of "Dir_object zero_dir"] obtain i m where
    al: "alloc_object (Dir_object zero_dir) st = (frame i + VA_START,
      set_object (frame i + VA_START) (Some (Dir_object zero_dir)) (on_kern (\<lambda>k. k\<lparr>mem := m\<rparr>) st))"
      "frame i + VA_START \<noteq> 0" "free_frames m = free_frames (mem (kern st)) - {i}" by blast
  let ?page = "frame i + VA_START"
  let ?s1 = "set_object ?page (Some (Dir_object zero_dir)) (on_kern (\<lambda>k. k\<lparr>mem := m\<rparr>) st)"
  let ?s2 = "set_object ?page (Some (Dir_object (dir c))) (?s1\<lparr>fat := c\<rparr>)"
  have call: "call_dir open_dir junk p ?page ?s1 = Some (0, ?s2)"
    using al(2) dir by (simp add: call_dir_def dir_object_def)
  have "free_frames (mem (kern ?s2)) \<noteq> {}" "length (descriptors ?s2) = MAX_FILES_PER_PROCESS"
    using al(3) assms(1) assms(3) [of i] by (simp_all add: files_ok_def)
  then have "\<exists>st1. install_resource (int k) \<lparr>resource_type = RESOURCE_TYPE_FOLDER, resource_pointer = ?page\<rparr> ?s2 = Some st1"
    using install_resource_ok fd(1) by blast
  then show ?thesis using fd(2) al(1) call by (auto simp: syscall_open_dir_def open_with_def)
qed

text \<open>The empty path is the root of the volume mounted as \<^verbatim>\<open>mnt\<close>.\<close>

lemma open_dir_root:
  assumes "length junk = 128" "find_fat_volume ''mnt'' c = Some v"
  shows "\<exists>c'. open_dir junk [NUL] c = Some (0, c')"
proof -
  have "complete_path junk [NUL] = Some (Some (''/mnt/'' @ NUL # drop 6 junk))"
    using assms(1) by (simp add: complete_path_def strcpy_exact strcat_exact strlen_exact FAT_MAX_PATH_SIZE_def eval_nat_numeral)
  moreover have "\<exists>c'. fat_dir_open (c\<lparr>path := ''/mnt/''\<rparr>) = Some (Inr (), c')"
  proof -
    have v: "find_fat_volume ''mnt'' (c\<lparr>path := ''/mnt/''\<rparr>) = Some v" using assms(2) by (simp add: find_fat_volume_def)
    have p: "subpath_len ''mnt/'' = 3" "skip_slashes ''/'' = []" "subpath_len [] = 0"
      by (simp_all add: eval_nat_numeral)
    show ?thesis
      using v p by (simp add: fat_dir_open_def follow_path_def follow_loop.simps dir_at_root_def Let_def on_dir_def
          dir_enter_def dir_at_clust_def vol_def eval_nat_numeral)
  qed
  ultimately show ?thesis by (auto simp: open_dir_def with_path_def)
qed

theorem descriptors_used_up_witness:
  "\<exists>s. file_run 1 sample_state s \<and> free_descriptors s \<le> 15"
proof -
  have "find_fat_volume ''mnt'' ((fat sample_state)\<lparr>dir := zero_dir\<rparr>) = Some 0"
    by (simp add: find_fat_volume_def sample_state_def sample_cursor_def sample_fat_def)
  from open_dir_root [OF _ this, of "replicate 128 NUL"] obtain c where
    "open_dir (replicate 128 NUL) [NUL] ((fat sample_state)\<lparr>dir := zero_dir\<rparr>) = Some (0, c)" by auto
  from open_dir_installs [OF sample_state_ok(1) _ _ this] obtain fd s where
    s: "syscall_open_dir (replicate 128 NUL) [NUL] sample_state = Some (fd, s)" "0 \<le> fd"
    using boot_frames by (metis sample_state_ok(2) sample_state_kern zero_less_numeral)
  from open_dir [OF start s(1)] s(2) have "file_run 1 sample_state s" by simp
  from descriptors_used_up [OF this sample_state_ok(1)] this show ?thesis
    by (auto simp: sample_state_ok)
qed

subsection \<open>Reading\<close>

lemma put_file_lookup:
  assumes "descriptor_file fd st = Some (a, f)"
  shows "descriptor_file fd (put_file a s st) = Some (a, fst s)"
proof -
  from assms obtain r where r: "0 \<le> fd" "fd < int (length (descriptors st))" "resource_at (descriptors st ! nat fd) st = Some r"
    "resource_pointer r = a" "file_object a st = Some f"
    by (auto simp: descriptor_file_def bind_eq_Some_conv array_simps)
  have "descriptors st ! nat fd \<noteq> a" using r(3,5) by (auto simp: resource_at_def file_object_def split: option.splits page_object.splits)
  then have "resource_at (descriptors st ! nat fd) (put_file a s st) = Some r" using r(3) by (simp add: resource_at_def)
  moreover have "file_object a (put_file a s st) = Some (fst s)" by (simp add: file_object_def)
  ultimately show ?thesis using r(1,2,4) by (simp add: descriptor_file_def array_get_def)
qed

lemma read_call:
  assumes fd: "descriptor_file fd st = Some (a, fi)"
    and seek: "fat_file_seek 0 FAT_SEEK_START (fi, fat st) = Some (Inr (), f1, c1)"
    and f1: "f_fat f1 = Some v" "file_placed f1 (volumes c1 v)" "f_offset f1 = 0" "f_flags f1 AND FAT_READ \<noteq> 0"
    and n: "0 < n" "n < 512" "n \<le> unat (f_size f1)"
  shows "syscall_read_file fd (int n) st = Some (0, take n (f_buf f1),
    put_file a (f1\<lparr>f_offset := word_of_int (int n), f_flags := f_flags f1 OR FAT_ACCESSED\<rparr>, c1) st)"
proof -
  have "int n \<le> int (unat (f_size f1))" using n(3) by (rule of_nat_mono)
  then have "uint (f_offset f1) + int n \<le> uint (f_size f1)" using f1(3) by simp
  moreover have "n \<noteq> 0" "unat (f_offset f1 mod 512) + n < 512" using f1(3) n by simp_all
  ultimately have "fat_file_read (int n) (f1, c1) = Some (Inr (), take n (drop (unat (f_offset f1 mod 512)) (f_buf f1)),
      f1\<lparr>f_offset := word_of_int (uint (f_offset f1) + int n), f_flags := f_flags f1 OR FAT_ACCESSED\<rparr>, c1)"
    by (intro read_in_sector [OF f1(1,2,4)])
  then show ?thesis unfolding syscall_read_file_def fd bind.bind_lunit prod.case seek f1(3) by (simp add: err_code_def)
qed

text \<open>Every read starts at the beginning of the file. \<^verbatim>\<open>syscall_read_file\<close> seeks to 0 before it
  reads, so wherever the file was, a read inside its first sector gives the bytes of that sector, and a
  second read of as many gives the same bytes again instead of the ones that follow them.\<close>

lemma every_read_starts_over:
  assumes fd: "descriptor_file fd st = Some (a, fi)"
    and vol: "f_fat fi = Some v" "volume_ok (volumes (fat st) v)" "\<not> dirty (volumes (fat st) v)"
      "unat (clust_shift (volumes (fat st) v)) \<le> 7"
    and on_chain: "file_on_chain fi (volumes (fat st) v) cs" "length (f_buf fi) = 512" "f_flags fi AND FAT_READ \<noteq> 0"
      "f_flags fi AND FAT_FILE_DIRTY \<noteq> 0 \<Longrightarrow> f_sect fi \<noteq> 0 \<and> f_sect fi \<noteq> fat_sect (volumes (fat st) v) \<and>
         f_sect fi \<notin> table_sectors (volumes (fat st) v)"
    and n: "0 < n" "n < 512" "n \<le> unat (f_size fi)" "clust_to_sect (volumes (fat st) v) (f_sclust fi) \<noteq> 0"
  defines "s \<equiv> clust_to_sect (volumes (fat st) v) (f_sclust fi)"
  defines "data \<equiv> take n (if s = f_sect fi then f_buf fi else blocks (ops (volumes (fat st) v)) s)"
  shows "\<exists>st1 st2. syscall_read_file fd (int n) st = Some (0, data, st1) \<and>
    syscall_read_file fd (int n) st1 = Some (0, data, st2)"
proof -
  let ?f = "volumes (fat st) v"
  have cs: "cs \<noteq> []" "cs ! 0 = f_sclust fi" using on_chain(1) by (cases cs; simp add: file_on_chain_def Let_def)+
  have base: "seek_base FAT_SEEK_START x = 0" for x
    by (simp add: seek_base_def FAT_SEEK_START_def FAT_SEEK_CURR_def FAT_SEEK_END_def)
  have r: "0 \<le> seek_base FAT_SEEK_START fi + 0" "seek_base FAT_SEEK_START fi + 0 \<le> 0xffffffff"
    "(word_of_int (seek_base FAT_SEEK_START fi + 0) :: uint32) = 0" by (simp_all add: base)
  have d: "unat ((0 :: uint32) div push_bit (unat (clust_shift ?f)) 512) < length cs" using cs(1) by simp
  obtain g where
    g: "fat_file_seek 0 FAT_SEEK_START (fi, fat st) = Some (Inr (),
      (if s = f_sect fi then fi\<lparr>f_clust := f_sclust fi, f_sect := s, f_offset := 0\<rparr>
       else fi\<lparr>f_clust := f_sclust fi, f_sect := s, f_offset := 0, f_flags := f_flags fi AND NOT FAT_FILE_DIRTY,
               f_buf := blocks (ops g) s\<rparr>), set_vol v g (fat st))"
      "same_volume ?f g" "volume_ok g"
      "\<forall>t. t \<noteq> 0 \<longrightarrow> blocks (ops g) t =
       (if f_flags fi AND FAT_FILE_DIRTY \<noteq> 0 \<and> s \<noteq> f_sect fi \<and> t = f_sect fi then f_buf fi
        else blocks (ops ?f) t)"
    using file_seek_ok [OF vol(1-3) on_chain(1,2) on_chain(4) r(1,2), unfolded r(3), OF _ d,
        unfolded div_0 unat_0 cs(2) and_zero_eq zero_and_eq add_0_right, folded s_def] by blast
  define f1 where "f1 = (if s = f_sect fi then fi\<lparr>f_clust := f_sclust fi, f_sect := s, f_offset := 0\<rparr>
       else fi\<lparr>f_clust := f_sclust fi, f_sect := s, f_offset := 0, f_flags := f_flags fi AND NOT FAT_FILE_DIRTY,
               f_buf := blocks (ops g) s\<rparr>)"
  let ?c1 = "set_vol v g (fat st)"
  let ?f2 = "f1\<lparr>f_offset := word_of_int (int n), f_flags := f_flags f1 OR FAT_ACCESSED\<rparr>"
  have buf: "take n (f_buf f1) = data" using g(4) n(4) by (auto simp: f1_def data_def s_def)
  have placed: "file_placed f1 g" using g(2,3) vol(4) on_chain(2)
    by (auto simp: f1_def file_placed_def s_def same_volume_def clust_to_sect_def volume_ok_def cache_ok_def)
  have "(f_flags fi AND NOT FAT_FILE_DIRTY) AND FAT_READ = f_flags fi AND FAT_READ"
    by (rule bit_word_eqI) (auto simp: bit_simps FAT_READ_def FAT_FILE_DIRTY_def)
  then have rd: "f_flags f1 AND FAT_READ \<noteq> 0" "f_fat f1 = Some v" "f_offset f1 = 0" "f_size f1 = f_size fi"
    using on_chain(3) vol(1) by (simp_all add: f1_def)
  have first: "syscall_read_file fd (int n) st = Some (0, data, put_file a (?f2, ?c1) st)"
    using read_call [OF fd g(1) [folded f1_def] rd(2) _ rd(3,1) n(1,2)] placed rd(4) n(3) buf by simp
  have same: "(word_of_int (int n) :: uint32) div 512 = 0"
  proof -
    have "unat (word_of_int (int n) :: uint32) = n" using n(2) by (simp add: unsigned_of_nat take_bit_nat_eq_self)
    then have "unat ((word_of_int (int n) :: uint32) div 512) = 0" using n(2) by (simp only: unat_div) simp
    then show ?thesis by (simp only: unat_eq_0)
  qed
  let ?st1 = "put_file a (?f2, ?c1) st" and ?f3 = "?f2\<lparr>f_offset := 0\<rparr>"
  have "fat_file_seek 0 FAT_SEEK_START (?f2, ?c1) = Some (Inr (), ?f3, ?c1)"
    using seek_same_sector [of ?f2 v ?c1 FAT_SEEK_START 0] rd(2,3) placed same by (simp add: base file_placed_def)
  then have seek: "fat_file_seek 0 FAT_SEEK_START (?f2, fat ?st1) = Some (Inr (), ?f3, ?c1)" by (simp add: put_file_def)
  have "(f_flags f1 OR FAT_ACCESSED) AND FAT_READ = f_flags f1 AND FAT_READ"
    by (rule bit_word_eqI) (auto simp: bit_simps FAT_READ_def FAT_ACCESSED_def)
  then have f3: "f_fat ?f3 = Some v" "file_placed ?f3 (volumes ?c1 v)" "f_offset ?f3 = 0" "f_flags ?f3 AND FAT_READ \<noteq> 0"
    "n \<le> unat (f_size ?f3)" "take n (f_buf ?f3) = data"
    using rd placed n(3) buf by (simp_all add: file_placed_def)
  have "descriptor_file fd ?st1 = Some (a, ?f2)"
    using put_file_lookup [OF fd, of "(?f2, ?c1)"] by simp
  from read_call [OF this seek f3(1-4) n(1,2) f3(5)] have
    "\<exists>st2. syscall_read_file fd (int n) ?st1 = Some (0, data, st2)" by (simp only: f3(6)) blast
  with first show ?thesis by blast
qed

text \<open>The sample file, moved to its second cluster and open as descriptor 0.\<close>

definition moved_file :: File where
  "moved_file = sample_file\<lparr>f_clust := 4, f_sect := 66, f_offset := 600\<rparr>"

definition reading_state :: file_state where
  "reading_state = on_kern (set_sched (\<lambda>s. upd_pcb (current_process s) (\<lambda>P. P\<lparr>files := 8 # replicate 15 0\<rparr>) s))
     (sample_state\<lparr>objects := [8 \<mapsto> Resource_object \<lparr>resource_type = RESOURCE_TYPE_FILE, resource_pointer = 16\<rparr>,
                              16 \<mapsto> File_object moved_file]\<rparr>)"

subsection \<open>Failing calls\<close>

text \<open>C28: a failed open leaves nothing behind. When opening the file fails, with a descriptor and a frame
  free, \<^verbatim>\<open>syscall_open_file\<close> returns -1 and the kernel is as before: the process table, the queues and the
  descriptors, the saved registers, the set of free frames, and the memory, except that the page it took for the file and gave back is zero now.
  No object is left there. The file system is as \<^verbatim>\<open>open_file\<close> left it. \<^verbatim>\<open>syscall_exec\<close> then
  returns -1 in the same state, with the registers of the calling process in \<open>trap_frame\<close> unchanged.\<close>

theorem failed_open_leaves_nothing:
  assumes "files_ok st" "0 < free_descriptors st" "free_frames (mem (kern st)) \<noteq> {}"
    and err: "open_file junk p fl (zero_file, fat st) = Some (err, s)" "err \<noteq> 0"
  shows "\<exists>st1 i. syscall_open_file junk p fl st = Some (-1, st1) \<and> sched (kern st1) = sched (kern st) \<and>
    user_regs (kern st1) = user_regs (kern st) \<and> free_frames (mem (kern st1)) = free_frames (mem (kern st)) \<and>
    i \<in> free_frames (mem (kern st)) \<and>
    phys (mem (kern st1)) = (\<lambda>a. if a - frame i < PAGE_SIZE then 0 else phys (mem (kern st)) a) \<and>
    objects st1 = (objects st)(frame i + VA_START := None) \<and> fat st1 = snd s \<and>
    (fl = FAT_READ \<longrightarrow> syscall_exec junk p trap_frame n_arguments arguments st = Some (-1, trap_frame, st1))"
proof -
  from free_descriptor_exists [OF assms(1,2)] obtain k where
    fd: "get_first_free_file_descriptor (current_pcb (kern st)) = int k" by blast
  from alloc_object_ok [OF assms(3), of "File_object zero_file"] obtain i m where
    al: "alloc_object (File_object zero_file) st = (frame i + VA_START,
      set_object (frame i + VA_START) (Some (File_object zero_file)) (on_kern (\<lambda>k. k\<lparr>mem := m\<rparr>) st))"
      "frame i + VA_START \<noteq> 0" "i < N_PAGES" "i \<in> free_frames (mem (kern st))"
      "free_frames m = free_frames (mem (kern st)) - {i}"
      "phys m = (\<lambda>a. if a - frame i < PAGE_SIZE then 0 else phys (mem (kern st)) a)" by blast
  let ?page = "frame i + VA_START"
  let ?s1 = "set_object ?page (Some (File_object zero_file)) (on_kern (\<lambda>k. k\<lparr>mem := m\<rparr>) st)"
  let ?s2 = "set_object ?page (Some (File_object (fst s))) (?s1\<lparr>fat := snd s\<rparr>)"
  have call: "call_file junk p fl ?page ?s1 = Some (err, ?s2)"
    using al(2) err(1) by (simp add: call_file_def file_object_def)
  have k2: "kern ?s2 = (kern st)\<lparr>mem := m\<rparr>" by (simp add: set_object_def on_kern_def)
  from free_page_frame [OF al(3), of m] obtain m' where
    m': "free_page ?page m = Some (0, m')" "free_frames m' = insert i (free_frames m)"
    "phys m' = (\<lambda>a. if a - frame i < PAGE_SIZE then 0 else phys m a)" by blast
  let ?s3 = "set_object ?page None (on_kern (\<lambda>k. k\<lparr>mem := m'\<rparr>) ?s2)"
  have "syscall_open_file junk p fl st = Some (-1, ?s3)"
    using fd al(1) call err(2) m'(1) k2 by (simp add: syscall_open_file_def open_with_def free_object_def Let_def)
  moreover have "sched (kern ?s3) = sched (kern st)" "fat ?s3 = snd s" "mem (kern ?s3) = m'"
    "user_regs (kern ?s3) = user_regs (kern st)" "objects ?s3 = (objects st)(?page := None)"
    by (simp_all add: set_object_def on_kern_def)
  moreover have "phys m' = (\<lambda>a. if a - frame i < PAGE_SIZE then 0 else phys (mem (kern st)) a)"
    unfolding m'(3) al(6) by auto
  moreover have "free_frames m' = free_frames (mem (kern st))" using m'(2) al(4,5) by auto
  moreover have "syscall_exec junk p trap_frame n_arguments arguments st = Some (-1, trap_frame, ?s3)"
    if "fl = FAT_READ" using calculation(1) that unfolding syscall_exec_def by simp
  ultimately show ?thesis using al(4) by (intro exI [of _ ?s3] exI [of _ i]) simp
qed

theorem failed_open_leaves_nothing_witness:
  "\<exists>st1. syscall_exec (replicate 128 NUL) (replicate 123 CHR ''a'' @ [NUL]) (replicate 33 0) 0 [] sample_state =
      Some (-1, replicate 33 0, st1) \<and> free_frames (mem (kern st1)) = free_frames (mem boot_kernel)"
proof -
  have "complete_path (replicate 128 NUL) (replicate 123 CHR ''a'' @ [NUL]) = Some None"
    by (simp add: complete_path_def strcpy_exact strlen_exact FAT_MAX_PATH_SIZE_def eval_nat_numeral)
  then have "open_file (replicate 128 NUL) (replicate 123 CHR ''a'' @ [NUL]) FAT_READ (zero_file, fat sample_state) =
      Some (-1, zero_file, fat sample_state)"
    by (simp add: open_file_def with_path_def)
  moreover have "0 < free_descriptors sample_state" "free_frames (mem (kern sample_state)) \<noteq> {}"
    using boot_frames [of 0] by (auto simp: sample_state_ok(2) sample_state_kern)
  ultimately show ?thesis
    using failed_open_leaves_nothing [OF sample_state_ok(1), where fl = FAT_READ] by (force simp: sample_state_kern)
qed

end
