(* ===== verification/Device_Io.thy ===== *)
theory Device_Io
  imports Syscalls
begin

text \<open>
  Memory-mapped devices and waiting. The hardware is a parameter: a \<open>device\<close> says what a read of a
  register returns and what a read or write does to the device's own state, which the drivers never
  look into. \<open>wait_msec\<close> of \<^verbatim>\<open>drivers/sd/sd.c\<close> polls the system timer, a counter of microseconds;
  \<open>clock_runs\<close> is what the drivers rely on for it to return.
\<close>

record 'd device =
  reg_read :: "ulong \<Rightarrow> 'd \<Rightarrow> uint32 \<times> 'd"
  reg_write :: "ulong \<Rightarrow> uint32 \<Rightarrow> 'd \<Rightarrow> 'd"

text \<open>The base of the registers, as \<^verbatim>\<open>arch/mmio.h\<close> and as \<^verbatim>\<open>arch/gpio.h\<close> have it.\<close>

definition MMIO_BASE :: ulong where "MMIO_BASE = VA_START + 0x3F000000"
definition GPIO_MMIO_BASE :: ulong where "GPIO_MMIO_BASE = 0x3F000000"

definition mmio_write :: "'d device \<Rightarrow> ulong \<Rightarrow> uint32 \<Rightarrow> 'd \<Rightarrow> 'd" where
  "mmio_write D reg data d = reg_write D (MMIO_BASE + reg) data d"

definition mmio_read :: "'d device \<Rightarrow> uint32 \<Rightarrow> 'd \<Rightarrow> uint32 \<times> 'd" where
  "mmio_read D reg d = reg_read D (MMIO_BASE + ucast reg) d"

text \<open>A read-modify-write of a register.\<close>

definition reg_update :: "'d device \<Rightarrow> ulong \<Rightarrow> (uint32 \<Rightarrow> uint32) \<Rightarrow> 'd \<Rightarrow> 'd" where
  "reg_update D a g d = (let (r, d1) = reg_read D a d in reg_write D a (g r) d1)"

subsection \<open>Runs that return\<close>

text \<open>A run returns, with a result that satisfies \<open>P\<close>.\<close>

definition runs :: "'a option \<Rightarrow> ('a \<Rightarrow> bool) \<Rightarrow> bool" where
  "runs m P \<longleftrightarrow> (\<exists>r. m = Some r \<and> P r)"

named_theorems runs_intro \<open>rules that take a run apart\<close>

lemma runs_Some [simp]: "runs (Some r) P \<longleftrightarrow> P r"
  by (simp add: runs_def)

lemma runs_bind:
  assumes "runs m Q" "\<And>r. Q r \<Longrightarrow> runs (f r) P"
  shows "runs (m \<bind> f) P"
  using assms by (auto simp: runs_def)

lemma runs_if [runs_intro]: "(b \<Longrightarrow> runs m P) \<Longrightarrow> (\<not> b \<Longrightarrow> runs n P) \<Longrightarrow> runs (if b then m else n) P"
  by simp

lemma runs_Some_intro [runs_intro]: "P r \<Longrightarrow> runs (Some r) P"
  by simp

lemma runs_let [runs_intro]: "(\<And>v. v = x \<Longrightarrow> runs (f v) P) \<Longrightarrow> runs (let v = x in f v) P"
  by simp

lemma runs_split [runs_intro]: "(\<And>a b. x = (a, b) \<Longrightarrow> runs (f a b) P) \<Longrightarrow> runs (case x of (a, b) \<Rightarrow> f a b) P"
  by (simp split: prod.split)

lemma runs_option [runs_intro]:
  "(x = None \<Longrightarrow> runs m P) \<Longrightarrow> (\<And>v. x = Some v \<Longrightarrow> runs (f v) P) \<Longrightarrow> runs (case x of None \<Rightarrow> m | Some v \<Rightarrow> f v) P"
  by (simp split: option.split)

text \<open>A step in front of another one.\<close>

lemma runs_bind_step [runs_intro]:
  "runs (f r) P \<Longrightarrow> runs (Some r \<bind> f) P"
  "(b \<Longrightarrow> runs (m \<bind> f) P) \<Longrightarrow> (\<not> b \<Longrightarrow> runs (n \<bind> f) P) \<Longrightarrow> runs ((if b then m else n) \<bind> f) P"
  "runs (m' \<bind> (\<lambda>x. g x \<bind> f)) P \<Longrightarrow> runs ((m' \<bind> g) \<bind> f) P"
  "(\<And>v. v = x \<Longrightarrow> runs (h v \<bind> f) P) \<Longrightarrow> runs ((let v = x in h v) \<bind> f) P"
  "(\<And>a b. y = (a, b) \<Longrightarrow> runs (k a b \<bind> f) P) \<Longrightarrow> runs ((case y of (a, b) \<Rightarrow> k a b) \<bind> f) P"
  by (simp_all split: prod.split)

lemma runs_weaken: "runs m Q \<Longrightarrow> (\<And>r. Q r \<Longrightarrow> P r) \<Longrightarrow> runs m P"
  by (auto simp: runs_def)

lemma runs_result: "runs m P \<Longrightarrow> m = Some r \<Longrightarrow> P r"
  by (auto simp: runs_def)

subsection \<open>Waiting\<close>

definition SYS_TIMER_BASE :: ulong where "SYS_TIMER_BASE = 0x3F003000"
definition SYS_TIMER_CLOCK :: ulong where "SYS_TIMER_CLOCK = SYS_TIMER_BASE + 0x04"

partial_function (option) wait_until :: "'d device \<Rightarrow> uint32 \<Rightarrow> 'd \<Rightarrow> 'd option" where
  "wait_until D target d =
     (let (c, d1) = reg_read D SYS_TIMER_CLOCK d
      in if sint (c - target) < 0 then wait_until D target d1 else Some d1)"

definition wait_msec :: "'d device \<Rightarrow> uint32 \<Rightarrow> 'd \<Rightarrow> 'd option" where
  "wait_msec D n d =
     (let (system_clock, d1) = reg_read D SYS_TIMER_CLOCK d
      in wait_until D (system_clock + n * 1000) d1)"

text \<open>A running clock: some time \<open>now\<close> in the device grows with every look at the timer, by less than
  half of the range of the counter, and the counter shows it.\<close>

definition clock_runs :: "'d device \<Rightarrow> ('d \<Rightarrow> nat) \<Rightarrow> bool" where
  "clock_runs D now \<longleftrightarrow>
     (\<forall>d. let (c, d1) = reg_read D SYS_TIMER_CLOCK d
          in c = of_nat (now d1) \<and> now d < now d1 \<and> now d1 < now d + 2 ^ 31)"

lemma clock_tick:
  assumes "clock_runs D now" "reg_read D SYS_TIMER_CLOCK d = (c, d1)"
  shows "c = of_nat (now d1)" "now d < now d1" "now d1 < now d + 2 ^ 31"
  using assms unfolding clock_runs_def by (metis (mono_tags, lifting) case_prod_conv)+

lemma clock_reached:
  assumes "t \<le> n" "n < t + 2 ^ 31"
  shows "0 \<le> sint (of_nat n - of_nat t :: uint32)"
proof -
  have "(of_nat n - of_nat t :: uint32) = of_nat (n - t)" using assms(1) by (simp add: of_nat_diff)
  moreover have "n - t < 2 ^ 31" using assms by simp
  then have "sint (of_nat (n - t) :: uint32) = int (n - t)"
    by (simp add: signed_of_nat signed_take_bit_int_eq_self)
  ultimately show ?thesis by simp
qed

lemma wait_until_returns:
  assumes clock: "clock_runs D now" and d: "now d \<le> t"
  shows "\<exists>d'. wait_until D (of_nat t) d = Some d'"
  using d
proof (induction "t - now d" arbitrary: d rule: less_induct)
  case less
  obtain c d1 where r: "reg_read D SYS_TIMER_CLOCK d = (c, d1)" by fastforce
  note T = clock_tick [OF clock r]
  show ?case
  proof (cases "now d1 \<le> t \<and> now d < t")
    case True
    then have "t - now d1 < t - now d" using T(2) by linarith
    from less.hyps [OF this] True show ?thesis by (subst wait_until.simps) (auto simp: r)
  next
    case False
    then have "t \<le> now d1" "now d1 < t + 2 ^ 31" using T(2,3) less.prems by linarith+
    then have "0 \<le> sint (c - of_nat t)" unfolding T(1) by (rule clock_reached)
    then show ?thesis by (subst wait_until.simps) (simp add: r)
  qed
qed

text \<open>So waiting returns, whatever the time and its wrap-around.\<close>

lemma wait_msec_returns:
  assumes "clock_runs D now"
  shows "\<exists>d'. wait_msec D n d = Some d'"
proof -
  obtain c d1 where r: "reg_read D SYS_TIMER_CLOCK d = (c, d1)" by fastforce
  have "c + n * 1000 = of_nat (now d1 + unat (n * 1000))" using clock_tick(1) [OF assms r] by simp
  with wait_until_returns [OF assms, of d1 "now d1 + unat (n * 1000)"] show ?thesis
    by (simp add: wait_msec_def r)
qed

text \<open>A predicate that every look at the timer keeps survives a wait.\<close>

lemma wait_until_keeps:
  assumes "wait_until D t d = Some d'" "P d"
    and step: "\<And>d. P d \<Longrightarrow> P (snd (reg_read D SYS_TIMER_CLOCK d))"
  shows "P d'"
proof -
  have "D = D \<longrightarrow> P d \<longrightarrow> P d'"
  proof (rule wait_until.raw_induct [where P = "\<lambda>D1 t d d'. D1 = D \<longrightarrow> P d \<longrightarrow> P d'", OF _ assms(1)])
    fix rec D1 t d d'
    assume IH: "\<And>D1 t d d'. rec D1 t d = Some d' \<Longrightarrow> D1 = D \<longrightarrow> P d \<longrightarrow> P d'"
      and body: "(let (c, d1) = reg_read D1 SYS_TIMER_CLOCK d in if sint (c - t) < 0 then rec D1 t d1 else Some d1) = Some d'"
    obtain c d1 where r: "reg_read D1 SYS_TIMER_CLOCK d = (c, d1)" by fastforce
    show "D1 = D \<longrightarrow> P d \<longrightarrow> P d'"
      using body r IH [of D1 t d1 d'] step [of d] by (auto split: if_splits)
  qed
  then show ?thesis using assms(2) by blast
qed

lemma wait_msec_keeps:
  assumes "wait_msec D n d = Some d'" "P d"
    and step: "\<And>d. P d \<Longrightarrow> P (snd (reg_read D SYS_TIMER_CLOCK d))"
  shows "P d'"
proof -
  obtain c d1 where r: "reg_read D SYS_TIMER_CLOCK d = (c, d1)" by fastforce
  then have "wait_until D (c + n * 1000) d1 = Some d'" "P d1"
    using assms(1) step [OF assms(2)] by (simp_all add: wait_msec_def)
  then show ?thesis by (rule wait_until_keeps) (rule step)
qed

end
