(* ===== verification/Sd_Card.thy ===== *)
theory Sd_Card
  imports Device_Io Filesystem
begin

text \<open>
  The driver of the SD card, \<^verbatim>\<open>drivers/sd/sd.c\<close>, and the two adapters of \<^verbatim>\<open>libs/filesystem.c\<close> through
  which the FAT library reaches it. The state is that of the device, the console the driver reports
  to, and the driver's globals. The result of a command and the byte count of a transfer are the 32
  bits of the C \<^verbatim>\<open>int\<close>; a buffer is the list of the words moved. Busy loops of \<^verbatim>\<open>delay\<close> have no
  effect and are left out.
\<close>

subsection \<open>Registers and flags\<close>

definition EMMC_BLKSIZECNT :: ulong where "EMMC_BLKSIZECNT = MMIO_BASE + 0x00300004"
definition EMMC_ARG1 :: ulong where "EMMC_ARG1 = MMIO_BASE + 0x00300008"
definition EMMC_CMDTM :: ulong where "EMMC_CMDTM = MMIO_BASE + 0x0030000C"
definition EMMC_RESP0 :: ulong where "EMMC_RESP0 = MMIO_BASE + 0x00300010"
definition EMMC_RESP1 :: ulong where "EMMC_RESP1 = MMIO_BASE + 0x00300014"
definition EMMC_RESP2 :: ulong where "EMMC_RESP2 = MMIO_BASE + 0x00300018"
definition EMMC_RESP3 :: ulong where "EMMC_RESP3 = MMIO_BASE + 0x0030001C"
definition EMMC_DATA :: ulong where "EMMC_DATA = MMIO_BASE + 0x00300020"
definition EMMC_STATUS :: ulong where "EMMC_STATUS = MMIO_BASE + 0x00300024"
definition EMMC_CONTROL0 :: ulong where "EMMC_CONTROL0 = MMIO_BASE + 0x00300028"
definition EMMC_CONTROL1 :: ulong where "EMMC_CONTROL1 = MMIO_BASE + 0x0030002C"
definition EMMC_INTERRUPT :: ulong where "EMMC_INTERRUPT = MMIO_BASE + 0x00300030"
definition EMMC_INT_MASK :: ulong where "EMMC_INT_MASK = MMIO_BASE + 0x00300034"
definition EMMC_INT_EN :: ulong where "EMMC_INT_EN = MMIO_BASE + 0x00300038"
definition EMMC_SLOTISR_VER :: ulong where "EMMC_SLOTISR_VER = MMIO_BASE + 0x003000FC"
definition CMD_NEED_APP :: uint32 where "CMD_NEED_APP = 0x80000000"
definition CMD_RSPNS_48 :: uint32 where "CMD_RSPNS_48 = 0x00020000"
definition CMD_ERRORS_MASK :: uint32 where "CMD_ERRORS_MASK = 0xfff9c004"
definition CMD_RCA_MASK :: uint32 where "CMD_RCA_MASK = 0xffff0000"
definition CMD_GO_IDLE :: uint32 where "CMD_GO_IDLE = 0x00000000"
definition CMD_ALL_SEND_CID :: uint32 where "CMD_ALL_SEND_CID = 0x02010000"
definition CMD_SEND_REL_ADDR :: uint32 where "CMD_SEND_REL_ADDR = 0x03020000"
definition CMD_CARD_SELECT :: uint32 where "CMD_CARD_SELECT = 0x07030000"
definition CMD_SEND_IF_COND :: uint32 where "CMD_SEND_IF_COND = 0x08020000"
definition CMD_STOP_TRANS :: uint32 where "CMD_STOP_TRANS = 0x0C030000"
definition CMD_READ_SINGLE :: uint32 where "CMD_READ_SINGLE = 0x11220010"
definition CMD_READ_MULTI :: uint32 where "CMD_READ_MULTI = 0x12220032"
definition CMD_SET_BLOCKCNT :: uint32 where "CMD_SET_BLOCKCNT = 0x17020000"
definition CMD_WRITE_SINGLE :: uint32 where "CMD_WRITE_SINGLE = 0x18220000"
definition CMD_WRITE_MULTI :: uint32 where "CMD_WRITE_MULTI = 0x19220022"
definition CMD_APP_CMD :: uint32 where "CMD_APP_CMD = 0x37000000"
definition CMD_SET_BUS_WIDTH :: uint32 where "CMD_SET_BUS_WIDTH = 0x06020000 OR CMD_NEED_APP"
definition CMD_SEND_OP_COND :: uint32 where "CMD_SEND_OP_COND = 0x29020000 OR CMD_NEED_APP"
definition CMD_SEND_SCR :: uint32 where "CMD_SEND_SCR = 0x33220010 OR CMD_NEED_APP"
definition SR_READ_AVAILABLE :: uint32 where "SR_READ_AVAILABLE = 0x00000800"
definition SR_WRITE_AVAILABLE :: uint32 where "SR_WRITE_AVAILABLE = 0x00000400"
definition SR_DAT_INHIBIT :: uint32 where "SR_DAT_INHIBIT = 0x00000002"
definition SR_CMD_INHIBIT :: uint32 where "SR_CMD_INHIBIT = 0x00000001"
definition SR_APP_CMD :: uint32 where "SR_APP_CMD = 0x00000020"
definition INT_DATA_TIMEOUT :: uint32 where "INT_DATA_TIMEOUT = 0x00100000"
definition INT_CMD_TIMEOUT :: uint32 where "INT_CMD_TIMEOUT = 0x00010000"
definition INT_READ_RDY :: uint32 where "INT_READ_RDY = 0x00000020"
definition INT_WRITE_RDY :: uint32 where "INT_WRITE_RDY = 0x00000010"
definition INT_DATA_DONE :: uint32 where "INT_DATA_DONE = 0x00000002"
definition INT_CMD_DONE :: uint32 where "INT_CMD_DONE = 0x00000001"
definition INT_ERROR_MASK :: uint32 where "INT_ERROR_MASK = 0x017E8000"
definition C0_HCTL_DWITDH :: uint32 where "C0_HCTL_DWITDH = 0x00000002"
definition C1_SRST_HC :: uint32 where "C1_SRST_HC = 0x01000000"
definition C1_TOUNIT_MAX :: uint32 where "C1_TOUNIT_MAX = 0x000e0000"
definition C1_CLK_EN :: uint32 where "C1_CLK_EN = 0x00000004"
definition C1_CLK_STABLE :: uint32 where "C1_CLK_STABLE = 0x00000002"
definition C1_CLK_INTLEN :: uint32 where "C1_CLK_INTLEN = 0x00000001"
definition HOST_SPEC_NUM :: uint32 where "HOST_SPEC_NUM = 0x00ff0000"
definition HOST_SPEC_NUM_SHIFT :: nat where "HOST_SPEC_NUM_SHIFT = 16"
definition HOST_SPEC_V2 :: ulong where "HOST_SPEC_V2 = 1"
definition SCR_SD_BUS_WIDTH_4 :: ulong where "SCR_SD_BUS_WIDTH_4 = 0x00000400"
definition SCR_SUPP_SET_BLKCNT :: ulong where "SCR_SUPP_SET_BLKCNT = 0x02000000"
definition SCR_SUPP_CCS :: ulong where "SCR_SUPP_CCS = 0x00000001"
definition ACMD41_VOLTAGE :: uint32 where "ACMD41_VOLTAGE = 0x00ff8000"
definition ACMD41_CMD_COMPLETE :: uint32 where "ACMD41_CMD_COMPLETE = 0x80000000"
definition ACMD41_CMD_CCS :: uint32 where "ACMD41_CMD_CCS = 0x40000000"
definition ACMD41_ARG_HC :: uint32 where "ACMD41_ARG_HC = 0x51ff8000"
subsection \<open>State\<close>

record 'd sd_state =
  dev :: 'd
  console :: uart_state
  sd_scr0 :: ulong
  sd_scr1 :: ulong
  sd_rca :: ulong
  sd_err :: ulong
  sd_hv :: ulong

definition SD_TIMEOUT :: int where "SD_TIMEOUT = -1"
definition SD_ERROR :: int where "SD_ERROR = -2"

definition on_dev :: "('d \<Rightarrow> 'd) \<Rightarrow> 'd sd_state \<Rightarrow> 'd sd_state" where
  "on_dev g s = s\<lparr>dev := g (dev s)\<rparr>"

definition get_reg :: "'d device \<Rightarrow> ulong \<Rightarrow> 'd sd_state \<Rightarrow> uint32 \<times> 'd sd_state" where
  "get_reg D a s = (let (v, d) = reg_read D a (dev s) in (v, s\<lparr>dev := d\<rparr>))"

definition put_reg :: "'d device \<Rightarrow> ulong \<Rightarrow> uint32 \<Rightarrow> 'd sd_state \<Rightarrow> 'd sd_state" where
  "put_reg D a v s = on_dev (reg_write D a v) s"

definition pause :: "'d device \<Rightarrow> uint32 \<Rightarrow> 'd sd_state \<Rightarrow> 'd sd_state option" where
  "pause D n s = do { d \<leftarrow> wait_msec D n (dev s); Some (s\<lparr>dev := d\<rparr>) }"

definition say :: "char list \<Rightarrow> 'd sd_state \<Rightarrow> 'd sd_state option" where
  "say str s = do { u \<leftarrow> uart_puts (literal str) (console s); Some (s\<lparr>console := u\<rparr>) }"

definition set_err :: "int \<Rightarrow> 'd sd_state \<Rightarrow> 'd sd_state" where
  "set_err r s = s\<lparr>sd_err := from_int r\<rparr>"

subsection \<open>Polling\<close>

text \<open>A loop has the final value of \<^verbatim>\<open>cnt\<close> as its result, which is -1 when the tries are used up.\<close>

fun status_loop :: "'d device \<Rightarrow> uint32 \<Rightarrow> nat \<Rightarrow> 'd \<Rightarrow> (int \<times> 'd) option" where
  "status_loop D bits cnt d =
     (let (st, d1) = reg_read D EMMC_STATUS d
      in if st AND bits = 0 then Some (int cnt, d1)
         else
           let (i, d2) = reg_read D EMMC_INTERRUPT d1
           in if i AND INT_ERROR_MASK \<noteq> 0 then Some (int cnt, d2)
              else if cnt = 0 then Some (-1, d2)
              else do { d3 \<leftarrow> wait_msec D 1 d2; status_loop D bits (cnt - 1) d3 })"

declare status_loop.simps [simp del]

definition sd_status :: "'d device \<Rightarrow> uint32 \<Rightarrow> 'd \<Rightarrow> (int \<times> 'd) option" where
  "sd_status D bits d = do {
     (cnt, d1) \<leftarrow> status_loop D bits 500000 d;
     if cnt \<le> 0 then Some (SD_ERROR, d1)
     else let (i, d2) = reg_read D EMMC_INTERRUPT d1
          in Some (if i AND INT_ERROR_MASK \<noteq> 0 then SD_ERROR else SD_OK, d2)
   }"

text \<open>The other loops poll one register: \<^verbatim>\<open>while (test(*reg) && cnt--) wait_msec(n)\<close>.\<close>

fun poll_loop :: "'d device \<Rightarrow> ulong \<Rightarrow> (uint32 \<Rightarrow> bool) \<Rightarrow> uint32 \<Rightarrow> nat \<Rightarrow> 'd \<Rightarrow> (int \<times> 'd) option" where
  "poll_loop D reg test n cnt d =
     (let (v, d1) = reg_read D reg d
      in if \<not> test v then Some (int cnt, d1)
         else if cnt = 0 then Some (-1, d1)
         else do { d2 \<leftarrow> wait_msec D n d1; poll_loop D reg test n (cnt - 1) d2 })"

declare poll_loop.simps [simp del]

definition sd_int :: "'d device \<Rightarrow> uint32 \<Rightarrow> 'd \<Rightarrow> (int \<times> 'd) option" where
  "sd_int D bits d = do {
     (cnt, d1) \<leftarrow> poll_loop D EMMC_INTERRUPT (\<lambda>i. i AND (bits OR INT_ERROR_MASK) = 0) 1 1000000 d;
     let (r, d2) = reg_read D EMMC_INTERRUPT d1;
     Some (if cnt \<le> 0 \<or> r AND INT_CMD_TIMEOUT \<noteq> 0 \<or> r AND INT_DATA_TIMEOUT \<noteq> 0
           then (SD_TIMEOUT, reg_write D EMMC_INTERRUPT r d2)
           else if r AND INT_ERROR_MASK \<noteq> 0 then (SD_ERROR, reg_write D EMMC_INTERRUPT r d2)
           else (0, reg_write D EMMC_INTERRUPT bits d2))
   }"

subsection \<open>Commands\<close>

text \<open>The response, from \<^verbatim>\<open>RESP0\<close> and for the card identification the other three.\<close>

definition sd_response :: "'d device \<Rightarrow> uint32 \<Rightarrow> uint32 \<Rightarrow> 'd sd_state \<Rightarrow> uint32 \<times> 'd sd_state" where
  "sd_response D code arg s =
     (let (r, s1) = get_reg D EMMC_RESP0 s
      in if code = CMD_GO_IDLE \<or> code = CMD_APP_CMD then (0, s1)
         else if code = CMD_APP_CMD OR CMD_RSPNS_48 then (r AND SR_APP_CMD, s1)
         else if code = CMD_SEND_OP_COND then (r, s1)
         else if code = CMD_SEND_IF_COND then (word_of_int (if r = arg then SD_OK else SD_ERROR), s1)
         else if code = CMD_ALL_SEND_CID then
           let (r3, s2) = get_reg D EMMC_RESP3 s1; (r2, s3) = get_reg D EMMC_RESP2 s2; (r1, s4) = get_reg D EMMC_RESP1 s3
           in (r OR r3 OR r2 OR r1, s4)
         else if code = CMD_SEND_REL_ADDR then
           (r AND CMD_RCA_MASK,
            s1\<lparr>sd_err := ucast (((r AND 0x1fff) OR push_bit 6 (r AND 0x2000) OR push_bit 8 (r AND 0x4000) OR
                push_bit 8 (r AND 0x8000)) AND CMD_ERRORS_MASK)\<rparr>)
         else (r AND CMD_ERRORS_MASK, s1))"

text \<open>Sending a command that needs no other one in front.\<close>

definition send_command :: "'d device \<Rightarrow> uint32 \<Rightarrow> uint32 \<Rightarrow> 'd sd_state \<Rightarrow> (uint32 \<times> 'd sd_state) option" where
  "send_command D code arg s = do {
     (busy, d) \<leftarrow> sd_status D SR_CMD_INHIBIT (dev s);
     let s1 = s\<lparr>dev := d\<rparr>;
     if busy \<noteq> 0 then do {
       s2 \<leftarrow> say (''ERROR: EMMC busy'' @ [CHR 0x0A]) s1;
       Some (0, set_err SD_TIMEOUT s2)
     } else do {
       let s2 = on_dev (reg_update D EMMC_INTERRUPT (\<lambda>i. i)) s1;
       let s3 = put_reg D EMMC_CMDTM code (put_reg D EMMC_ARG1 arg s2);
       s4 \<leftarrow> (if code = CMD_SEND_OP_COND then pause D 1000 s3
             else if code = CMD_SEND_IF_COND \<or> code = CMD_APP_CMD then pause D 100 s3 else Some s3);
       (r, d5) \<leftarrow> sd_int D INT_CMD_DONE (dev s4);
       let s5 = s4\<lparr>dev := d5\<rparr>;
       if r \<noteq> 0 then do {
         s6 \<leftarrow> say (''ERROR: failed to send EMMC command'' @ [CHR 0x0A]) s5;
         Some (0, set_err r s6)
       } else Some (sd_response D code arg s5)
     }
   }"

definition sd_execute_command :: "'d device \<Rightarrow> uint32 \<Rightarrow> uint32 \<Rightarrow> 'd sd_state \<Rightarrow> (uint32 \<times> 'd sd_state) option" where
  "sd_execute_command D code arg s =
     (let s0 = set_err SD_OK s
      in if code AND CMD_NEED_APP \<noteq> 0 then do {
           (r, s1) \<leftarrow> send_command D (CMD_APP_CMD OR (if sd_rca s0 \<noteq> 0 then CMD_RSPNS_48 else 0)) (ucast (sd_rca s0)) s0;
           if sd_rca s1 \<noteq> 0 \<and> r = 0 then do {
             s2 \<leftarrow> say (''ERROR: failed to send SD APP command'' @ [CHR 0x0A]) s1;
             Some (0, set_err SD_ERROR s2)
           } else send_command D (code AND NOT CMD_NEED_APP) arg s1
         } else send_command D code arg s0)"

subsection \<open>Blocks\<close>

primrec read_words :: "'d device \<Rightarrow> nat \<Rightarrow> 'd \<Rightarrow> uint32 list \<times> 'd" where
  "read_words D 0 d = ([], d)"
| "read_words D (Suc n) d =
     (let (w, d1) = reg_read D EMMC_DATA d; (ws, d2) = read_words D n d1 in (w # ws, d2))"

definition write_words :: "'d device \<Rightarrow> uint32 list \<Rightarrow> 'd \<Rightarrow> 'd" where
  "write_words D ws d = fold (reg_write D EMMC_DATA) ws d"

definition ccs :: "'d sd_state \<Rightarrow> bool" where "ccs s \<longleftrightarrow> sd_scr0 s AND SCR_SUPP_CCS \<noteq> 0"
definition blkcnt :: "'d sd_state \<Rightarrow> bool" where "blkcnt s \<longleftrightarrow> sd_scr0 s AND SCR_SUPP_SET_BLKCNT \<noteq> 0"

text \<open>What comes before the loop over the blocks: \<open>single\<close> and \<open>multi\<close> are the two commands. The
  result tells whether to go on.\<close>

definition start_transfer ::
  "'d device \<Rightarrow> uint32 \<Rightarrow> uint32 \<Rightarrow> uint32 \<Rightarrow> uint32 \<Rightarrow> 'd sd_state \<Rightarrow> (bool \<times> 'd sd_state) option" where
  "start_transfer D single multi lba num s =
     (if ccs s then do {
        s1 \<leftarrow> (if num > 1 \<and> blkcnt s
              then do { (_, t) \<leftarrow> sd_execute_command D CMD_SET_BLOCKCNT num s; Some t } else Some s);
        if num > 1 \<and> blkcnt s \<and> sd_err s1 \<noteq> 0 then Some (False, s1)
        else do {
          let s2 = put_reg D EMMC_BLKSIZECNT (push_bit 16 num OR 512) s1;
          (_, s3) \<leftarrow> sd_execute_command D (if num = 1 then single else multi) lba s2;
          Some (sd_err s3 = 0, s3)
        }
      } else Some (True, put_reg D EMMC_BLKSIZECNT (push_bit 16 1 OR 512) s))"

text \<open>Before each block: a card without CCS gets a command of its own for it; then the wait for the
  buffer. The result tells whether to go on.\<close>

definition next_block ::
  "'d device \<Rightarrow> uint32 \<Rightarrow> uint32 \<Rightarrow> char list \<Rightarrow> uint32 \<Rightarrow> nat \<Rightarrow> 'd sd_state \<Rightarrow> (bool \<times> 'd sd_state) option" where
  "next_block D single ready message lba c s = do {
     (err, s1) \<leftarrow> (if \<not> ccs s
                  then do { (_, t) \<leftarrow> sd_execute_command D single ((lba + of_nat c) * 512) s; Some (sd_err t \<noteq> 0, t) }
                  else Some (False, s));
     if err then Some (False, s1)
     else do {
       (r, d) \<leftarrow> sd_int D ready (dev s1);
       let s2 = s1\<lparr>dev := d\<rparr>;
       if r \<noteq> 0 then do { s3 \<leftarrow> say message s2; Some (False, set_err r s3) }
       else Some (True, s2)
     }
   }"

text \<open>The loops, with the words read so far, or those still to write. \<open>None\<close> in the first component
  is the early return; otherwise it is the final \<^verbatim>\<open>c\<close>. A buffer that is too short has no result.
  The counter is an \<^verbatim>\<open>int\<close> of C; it is a natural number here, and stays in range for fewer than 2147483648 blocks
  (the volume layer asks for one or a cluster's worth).\<close>

function sd_read_loop ::
  "'d device \<Rightarrow> uint32 \<Rightarrow> uint32 \<Rightarrow> nat \<Rightarrow> uint32 list \<Rightarrow> 'd sd_state \<Rightarrow> (nat option \<times> uint32 list \<times> 'd sd_state) option" where
  "sd_read_loop D lba num c buf s =
     (if c < unat num then do {
        (go, s1) \<leftarrow> next_block D CMD_READ_SINGLE INT_READ_RDY
                      ([CHR 0x0D] @ ''ERROR: Timeout waiting for ready to read'' @ [CHR 0x0A]) lba c s;
        if \<not> go then Some (None, buf, s1)
        else let (ws, d) = read_words D 128 (dev s1)
             in sd_read_loop D lba num (c + 1) (buf @ ws) (s1\<lparr>dev := d\<rparr>)
      } else Some (Some c, buf, s))"
  by pat_completeness auto

termination by (relation "measure (\<lambda>(D, lba, num, c, buf, s). unat num - c)") auto

declare sd_read_loop.simps [simp del]

function sd_write_loop ::
  "'d device \<Rightarrow> uint32 \<Rightarrow> uint32 \<Rightarrow> nat \<Rightarrow> uint32 list \<Rightarrow> 'd sd_state \<Rightarrow> (nat option \<times> 'd sd_state) option" where
  "sd_write_loop D lba num c buf s =
     (if c < unat num then do {
        (go, s1) \<leftarrow> next_block D CMD_WRITE_SINGLE INT_WRITE_RDY
                      ([CHR 0x0D] @ ''ERROR: Timeout waiting for ready to write'' @ [CHR 0x0A]) lba c s;
        if \<not> go then Some (None, s1)
        else if length buf < 128 then None
        else sd_write_loop D lba num (c + 1) (drop 128 buf) (on_dev (write_words D (take 128 buf)) s1)
      } else Some (Some c, s))"
  by pat_completeness auto

termination by (relation "measure (\<lambda>(D, lba, num, c, buf, s). unat num - c)") auto

declare sd_write_loop.simps [simp del]

text \<open>What comes after the blocks.\<close>

definition end_transfer :: "'d device \<Rightarrow> uint32 \<Rightarrow> nat \<Rightarrow> 'd sd_state \<Rightarrow> (uint32 \<times> 'd sd_state) option" where
  "end_transfer D num c s = do {
     s1 \<leftarrow> (if num > 1 \<and> \<not> blkcnt s \<and> ccs s
           then do { (_, t) \<leftarrow> sd_execute_command D CMD_STOP_TRANS 0 s; Some t } else Some s);
     Some (if sd_err s1 \<noteq> 0 \<or> c \<noteq> unat num then 0 else num * 512, s1)
   }"

text \<open>The result of reading has the words put into the buffer.\<close>

definition sd_readblock ::
  "'d device \<Rightarrow> uint32 \<Rightarrow> uint32 \<Rightarrow> 'd sd_state \<Rightarrow> (uint32 \<times> uint32 list \<times> 'd sd_state) option" where
  "sd_readblock D lba num s = do {
     let num = max num 1;
     (busy, d) \<leftarrow> sd_status D SR_DAT_INHIBIT (dev s);
     let s1 = s\<lparr>dev := d\<rparr>;
     if busy \<noteq> 0 then Some (0, [], set_err SD_TIMEOUT s1)
     else do {
       (go, s2) \<leftarrow> start_transfer D CMD_READ_SINGLE CMD_READ_MULTI lba num s1;
       if \<not> go then Some (0, [], s2)
       else do {
         (c, buf, s3) \<leftarrow> sd_read_loop D lba num 0 [] s2;
         case c of
           None \<Rightarrow> Some (0, buf, s3)
         | Some c \<Rightarrow> do { (r, s4) \<leftarrow> end_transfer D num c s3; Some (r, buf, s4) }
       }
     }
   }"

definition sd_writeblock ::
  "'d device \<Rightarrow> uint32 list \<Rightarrow> uint32 \<Rightarrow> uint32 \<Rightarrow> 'd sd_state \<Rightarrow> (uint32 \<times> 'd sd_state) option" where
  "sd_writeblock D buffer lba num s = do {
     let num = max num 1;
     (busy, d) \<leftarrow> sd_status D (SR_DAT_INHIBIT OR SR_WRITE_AVAILABLE) (dev s);
     let s1 = s\<lparr>dev := d\<rparr>;
     if busy \<noteq> 0 then Some (0, set_err SD_TIMEOUT s1)
     else do {
       (go, s2) \<leftarrow> start_transfer D CMD_WRITE_SINGLE CMD_WRITE_MULTI lba num s1;
       if \<not> go then Some (0, s2)
       else do {
         (c, s3) \<leftarrow> sd_write_loop D lba num 0 buffer s2;
         case c of
           None \<Rightarrow> Some (0, s3)
         | Some c \<Rightarrow> do {
             (r, d4) \<leftarrow> sd_int D INT_DATA_DONE (dev s3);
             let s4 = s3\<lparr>dev := d4\<rparr>;
             if r \<noteq> 0 then do {
               s5 \<leftarrow> say ([CHR 0x0D] @ ''ERROR: Timeout waiting for data done'' @ [CHR 0x0A]) s4;
               Some (0, set_err r s5)
             } else end_transfer D num c s4
           }
       }
     }
   }"

subsection \<open>Adapters of the FAT library\<close>

text \<open>The bytes of the words in memory, and back.\<close>

definition word_bytes :: "uint32 \<Rightarrow> byte list" where
  "word_bytes w = [ucast w, ucast (drop_bit 8 w), ucast (drop_bit 16 w), ucast (drop_bit 24 w)]"

definition bytes_of_words :: "uint32 list \<Rightarrow> byte list" where
  "bytes_of_words ws = concat (map word_bytes ws)"

definition words_of_bytes :: "byte list \<Rightarrow> uint32 list" where
  "words_of_bytes b = map (\<lambda>i. get32 b (4 * i)) [0..<length b div 4]"

text \<open>A failed read has overwritten some of the buffer.\<close>

definition sd_read_adapter ::
  "'d device \<Rightarrow> byte list \<Rightarrow> uint32 \<Rightarrow> 'd sd_state \<Rightarrow> (bool \<times> byte list \<times> 'd sd_state) option" where
  "sd_read_adapter D buffer sector s = do {
     (res, ws, s1) \<leftarrow> sd_readblock D sector 1 s;
     Some (res \<noteq> 0, bytes_of_words ws @ drop (4 * length ws) buffer, s1)
   }"

definition sd_write_adapter :: "'d device \<Rightarrow> byte list \<Rightarrow> uint32 \<Rightarrow> 'd sd_state \<Rightarrow> (bool \<times> 'd sd_state) option" where
  "sd_write_adapter D buffer sector s = do {
     (res, s1) \<leftarrow> sd_writeblock D (words_of_bytes buffer) sector 1 s;
     Some (res \<noteq> 0, s1)
   }"

end
