(* ===== verification/Sd_Transfer.thy ===== *)
theory Sd_Transfer
  imports Sd_Card
begin

text \<open>
  What the driver of the SD card guarantees. With any device whose timer runs, every operation
  returns; with a controller that behaves as \<open>sdhc_behaves\<close> says, reading and writing a block are the
  operations of the disk the FAT library is built on.
\<close>

subsection \<open>Every operation returns\<close>

text \<open>The globals that commands and transfers leave alone.\<close>

definition same_card :: "'d sd_state \<Rightarrow> 'd sd_state \<Rightarrow> bool" where
  "same_card s t \<longleftrightarrow> sd_scr0 t = sd_scr0 s \<and> sd_scr1 t = sd_scr1 s \<and> sd_rca t = sd_rca s \<and> sd_hv t = sd_hv s"

lemma same_card_refl [simp]: "same_card s s"
  by (simp add: same_card_def)

lemma same_card_trans: "same_card s t \<Longrightarrow> same_card t u \<Longrightarrow> same_card s u"
  by (simp add: same_card_def)

lemma same_card_updates [simp]:
  "same_card s (t\<lparr>dev := d\<rparr>) = same_card s t" "same_card s (t\<lparr>console := u\<rparr>) = same_card s t"
  "same_card s (t\<lparr>sd_err := e\<rparr>) = same_card s t" "same_card s (set_err r t) = same_card s t"
  "same_card s (on_dev g t) = same_card s t" "same_card s (put_reg D a v t) = same_card s t"
  by (simp_all add: same_card_def set_err_def on_dev_def put_reg_def)

lemma same_card_flags: "same_card s t \<Longrightarrow> ccs t = ccs s" "same_card s t \<Longrightarrow> blkcnt t = blkcnt s"
  by (simp_all add: same_card_def ccs_def blkcnt_def)

lemma say_runs:
  assumes "CHR 0x00 \<notin> set str"
  shows "runs (say str s) (\<lambda>t. same_card s t \<and> sd_err t = sd_err s \<and> dev t = dev s)"
  using assms by (simp add: say_def uart_puts_literal)

lemma wait_runs: "clock_runs D now \<Longrightarrow> runs (wait_msec D n d) (\<lambda>_. True)"
  using wait_msec_returns by (auto simp: runs_def)

lemma pause_runs:
  assumes "clock_runs D now"
  shows "runs (pause D n s) (\<lambda>t. same_card s t \<and> sd_err t = sd_err s)"
  using wait_msec_returns [OF assms, of n "dev s"] by (auto simp: pause_def)

lemma status_loop_runs:
  assumes "clock_runs D now"
  shows "runs (status_loop D bits cnt d) (\<lambda>_. True)"
proof (induction cnt arbitrary: d)
  case 0
  show ?case by (subst status_loop.simps) (simp add: Let_def case_prod_beta)
next
  case (Suc cnt)
  then show ?case
    by (subst status_loop.simps) (simp add: Let_def case_prod_beta runs_bind [OF wait_runs [OF assms]])
qed

lemma poll_loop_runs:
  assumes "clock_runs D now"
  shows "runs (poll_loop D reg test n cnt d) (\<lambda>_. True)"
proof (induction cnt arbitrary: d)
  case 0
  show ?case by (subst poll_loop.simps) (simp add: Let_def case_prod_beta)
next
  case (Suc cnt)
  then show ?case
    by (subst poll_loop.simps) (simp add: Let_def case_prod_beta runs_bind [OF wait_runs [OF assms]])
qed

lemma sd_status_runs:
  assumes "clock_runs D now"
  shows "runs (sd_status D bits d) (\<lambda>(r, _). r \<in> {SD_OK, SD_ERROR})"
  unfolding sd_status_def
  by (rule runs_bind [OF status_loop_runs [OF assms]]) (auto simp: Let_def split: prod.split)

lemma sd_int_runs:
  assumes "clock_runs D now"
  shows "runs (sd_int D bits d) (\<lambda>(r, _). r \<in> {0, SD_TIMEOUT, SD_ERROR})"
  unfolding sd_int_def
  by (rule runs_bind [OF poll_loop_runs [OF assms]]) (auto simp: Let_def split: prod.split)

lemma get_reg_frame [simp]: "same_card s (snd (get_reg D a s))" "sd_err (snd (get_reg D a s)) = sd_err s"
  by (simp_all add: get_reg_def case_prod_beta)

lemma sd_response_frame: "same_card s (snd (sd_response D code arg s))"
  by (simp add: sd_response_def get_reg_def case_prod_beta Let_def)

lemmas frame_defs = same_card_def set_err_def on_dev_def put_reg_def

lemmas polling = runs_bind [OF sd_status_runs] runs_bind [OF sd_int_runs] runs_bind [OF pause_runs]

lemmas reporting = runs_bind [OF say_runs]

lemma send_command_runs:
  assumes clock: "clock_runs D now"
  shows "runs (send_command D code arg s) (\<lambda>(_, t). same_card s t)"
proof -
  have r: "sd_response D x arg u = (v, t) \<Longrightarrow> same_card u t" for x u v t
    using sd_response_frame [of u D x arg] by simp
  show ?thesis
    unfolding send_command_def
    by (intro runs_intro polling [OF clock] reporting) (auto simp: frame_defs dest!: r)
qed

lemma sd_execute_command_runs:
  assumes clock: "clock_runs D now"
  shows "runs (sd_execute_command D code arg s) (\<lambda>(_, t). same_card s t)"
  unfolding sd_execute_command_def
  by (intro runs_intro reporting runs_bind [OF send_command_runs [OF clock]] runs_weaken [OF send_command_runs [OF clock]])
    (auto simp: frame_defs)

lemmas commanding = runs_bind [OF sd_execute_command_runs]

lemma start_transfer_runs:
  assumes clock: "clock_runs D now"
  shows "runs (start_transfer D single multi lba num s) (\<lambda>(_, t). same_card s t)"
  unfolding start_transfer_def
  by (intro runs_intro commanding [OF clock]) (auto simp: frame_defs)

lemma next_block_runs:
  assumes clock: "clock_runs D now" and message: "CHR 0x00 \<notin> set message"
  shows "runs (next_block D single ready message lba c s) (\<lambda>(_, t). same_card s t)"
  unfolding next_block_def
  by (intro runs_intro commanding [OF clock] polling [OF clock] reporting message) (auto simp: frame_defs)

lemma end_transfer_runs:
  assumes clock: "clock_runs D now"
  shows "runs (end_transfer D num c s) (\<lambda>(r, t). same_card s t \<and> (r \<noteq> 0 \<longrightarrow> r = num * 512 \<and> sd_err t = 0 \<and> c = unat num))"
  unfolding end_transfer_def
  by (intro runs_intro commanding [OF clock]) (auto simp: frame_defs)

lemma length_read_words [simp]: "length (fst (read_words D n d)) = n"
  by (induction n arbitrary: d) (auto simp: case_prod_beta Let_def)

text \<open>The loops: the words read are as many as the finished blocks have.\<close>

lemma sd_read_loop_runs:
  assumes clock: "clock_runs D now"
  shows "c \<le> unat num \<Longrightarrow> length buf = 128 * c \<Longrightarrow> runs (sd_read_loop D lba num c buf s)
    (\<lambda>(e, buf', t). same_card s t \<and> length buf' \<le> 128 * unat num \<and>
       (e \<noteq> None \<longrightarrow> e = Some (unat num) \<and> length buf' = 128 * unat num))"
proof (induction "unat num - c" arbitrary: c buf s)
  case 0
  then show ?case by (subst sd_read_loop.simps) simp
next
  case (Suc n)
  show ?case
  proof (subst sd_read_loop.simps, intro runs_intro runs_bind [OF next_block_runs [OF clock]])
    fix r go s1 v ws d
    assume go: "case r of (_, t) \<Rightarrow> same_card s t" "r = (go, s1)" "v = read_words D 128 (dev s1)" "v = (ws, d)"
    have "length ws = 128" using length_read_words [of D 128 "dev s1"] go(3,4) by (metis fst_conv)
    then have "runs (sd_read_loop D lba num (c + 1) (buf @ ws) (s1\<lparr>dev := d\<rparr>))
      (\<lambda>(e, buf', t). same_card (s1\<lparr>dev := d\<rparr>) t \<and> length buf' \<le> 128 * unat num \<and>
       (e \<noteq> None \<longrightarrow> e = Some (unat num) \<and> length buf' = 128 * unat num))"
      using Suc by (intro Suc.hyps(1)) simp_all
    then show "runs (sd_read_loop D lba num (c + 1) (buf @ ws) (s1\<lparr>dev := d\<rparr>))
      (\<lambda>(e, buf', t). same_card s t \<and> length buf' \<le> 128 * unat num \<and>
       (e \<noteq> None \<longrightarrow> e = Some (unat num) \<and> length buf' = 128 * unat num))"
      by (rule runs_weaken) (use go in \<open>auto simp: same_card_def\<close>)
  qed (use Suc in auto)
qed

lemma sd_write_loop_runs:
  assumes clock: "clock_runs D now"
  shows "c \<le> unat num \<Longrightarrow> 128 * (unat num - c) \<le> length buf \<Longrightarrow> runs (sd_write_loop D lba num c buf s)
    (\<lambda>(e, t). same_card s t \<and> (e \<noteq> None \<longrightarrow> e = Some (unat num)))"
proof (induction "unat num - c" arbitrary: c buf s)
  case 0
  then show ?case by (subst sd_write_loop.simps) simp
next
  case (Suc n)
  show ?case
  proof (subst sd_write_loop.simps, intro runs_intro runs_bind [OF next_block_runs [OF clock]])
    fix r go s1
    assume go: "case r of (_, t) \<Rightarrow> same_card s t" "r = (go, s1)"
    have "runs (sd_write_loop D lba num (c + 1) (drop 128 buf) (on_dev (write_words D (take 128 buf)) s1))
      (\<lambda>(e, t). same_card (on_dev (write_words D (take 128 buf)) s1) t \<and> (e \<noteq> None \<longrightarrow> e = Some (unat num)))"
      using Suc by (intro Suc.hyps(1)) simp_all
    then show "runs (sd_write_loop D lba num (c + 1) (drop 128 buf) (on_dev (write_words D (take 128 buf)) s1))
      (\<lambda>(e, t). same_card s t \<and> (e \<noteq> None \<longrightarrow> e = Some (unat num)))"
      by (rule runs_weaken) (use go in \<open>auto simp: frame_defs\<close>)
  next
    assume "length buf < 128" "c < unat num"
    then have False using Suc.prems(2) by simp
    then show "runs None (\<lambda>(e, t). same_card s t \<and> (e \<noteq> None \<longrightarrow> e = Some (unat num)))" by simp
  qed (use Suc in auto)
qed

text \<open>Reading and writing return, with 0 or the number of bytes asked for, and then without an error.\<close>

lemma sd_readblock_runs:
  assumes clock: "clock_runs D now"
  shows "runs (sd_readblock D lba num s) (\<lambda>(r, buf, t). same_card s t \<and> length buf \<le> 128 * unat (max num 1) \<and>
    (r \<noteq> 0 \<longrightarrow> r = max num 1 * 512 \<and> sd_err t = 0 \<and> length buf = 128 * unat (max num 1)))"
  unfolding sd_readblock_def
  by (intro runs_intro polling [OF clock] runs_bind [OF start_transfer_runs [OF clock]]
      runs_bind [OF sd_read_loop_runs [OF clock]] runs_bind [OF end_transfer_runs [OF clock]])
    (auto simp: frame_defs)

lemma sd_writeblock_runs:
  assumes clock: "clock_runs D now" and buf: "128 * unat (max num 1) \<le> length buf"
  shows "runs (sd_writeblock D buf lba num s) (\<lambda>(r, t). same_card s t \<and> (r \<noteq> 0 \<longrightarrow> r = max num 1 * 512 \<and> sd_err t = 0))"
  unfolding sd_writeblock_def
  by (intro runs_intro polling [OF clock] runs_bind [OF start_transfer_runs [OF clock]] reporting
      runs_bind [OF sd_write_loop_runs [OF clock]] runs_weaken [OF end_transfer_runs [OF clock]])
    (use buf in \<open>auto simp: frame_defs\<close>)

end
