(* ===== verification/Sd_Protocol.thy ===== *)
theory Sd_Protocol
  imports Sd_Transfer
begin

text \<open>
  What the driver relies on in a controller with an SDHC card, for single blocks: a device is seen
  through its \<open>card_view\<close>, and \<open>sdhc_behaves\<close> says which values a register may show in each phase of a
  command and how the phase changes. A controller may take its time: while \<open>lag\<close> is positive the
  interrupt register shows nothing. With such a controller \<^verbatim>\<open>sd_readblock\<close> and \<^verbatim>\<open>sd_writeblock\<close>
  implement the operations of the disk of \<open>Fat_Disk\<close>.
\<close>

datatype sd_phase =
    Idle
  | Read_sent uint32
  | Reading uint32 nat
  | Write_sent uint32
  | Writing uint32 "uint32 list"
  | Written

record card_view =
  phase :: sd_phase
  lag :: nat
  arg1 :: uint32
  sectors :: "uint32 \<Rightarrow> byte list"

definition all_faults :: uint32 where
  "all_faults = INT_ERROR_MASK OR INT_CMD_TIMEOUT OR INT_DATA_TIMEOUT"

fun ready_bit :: "sd_phase \<Rightarrow> uint32" where
  "ready_bit Idle = 0"
| "ready_bit (Read_sent a) = INT_CMD_DONE"
| "ready_bit (Reading a k) = INT_READ_RDY"
| "ready_bit (Write_sent a) = INT_CMD_DONE"
| "ready_bit (Writing a ws) = INT_WRITE_RDY"
| "ready_bit Written = INT_DATA_DONE"

text \<open>A state with a new, bounded lag.\<close>

definition settles :: "card_view \<Rightarrow> card_view \<Rightarrow> bool" where
  "settles w' x \<longleftrightarrow> lag w' < 1000000 \<and> phase w' = phase x \<and> arg1 w' = arg1 x \<and> sectors w' = sectors x"

text \<open>The interrupt bits a driver may wait for.\<close>

definition all_ready :: uint32 where
  "all_ready = INT_CMD_DONE OR INT_READ_RDY OR INT_WRITE_RDY OR INT_DATA_DONE"

definition legal_read :: "ulong \<Rightarrow> card_view \<Rightarrow> uint32 \<Rightarrow> card_view \<Rightarrow> bool" where
  "legal_read a w v w' \<longleftrightarrow>
     (if a = SYS_TIMER_CLOCK then w' = w
      else if a = EMMC_STATUS then
        phase w = Idle \<longrightarrow> v AND (SR_CMD_INHIBIT OR SR_DAT_INHIBIT OR SR_WRITE_AVAILABLE) = 0 \<and> w' = w
      else if a = EMMC_INTERRUPT then
        if phase w = Idle then v AND all_faults = 0 \<and> w' = w
        else if lag w > 0 then v AND (all_faults OR all_ready) = 0 \<and> w' = w\<lparr>lag := lag w - 1\<rparr>
        else v AND all_faults = 0 \<and> v AND ready_bit (phase w) \<noteq> 0 \<and> w' = w
      else if a = EMMC_RESP0 then
        (\<exists>s. phase w = Reading s 0 \<or> phase w = Writing s []) \<longrightarrow> v AND CMD_ERRORS_MASK = 0 \<and> w' = w
      else if a = EMMC_DATA then
        (case phase w of
           Reading s k \<Rightarrow> k < 128 \<longrightarrow> v = get32 (sectors w s) (4 * k) \<and>
             w' = w\<lparr>phase := if k = 127 then Idle else Reading s (Suc k)\<rparr>
         | _ \<Rightarrow> True)
      else True)"

definition legal_write :: "ulong \<Rightarrow> uint32 \<Rightarrow> card_view \<Rightarrow> card_view \<Rightarrow> bool" where
  "legal_write a v w w' \<longleftrightarrow>
     (if a = EMMC_INTERRUPT then
        (case phase w of
           Idle \<Rightarrow> w' = w
         | Read_sent s \<Rightarrow> v AND INT_CMD_DONE \<noteq> 0 \<longrightarrow> settles w' (w\<lparr>phase := Reading s 0\<rparr>)
         | Write_sent s \<Rightarrow> v AND INT_CMD_DONE \<noteq> 0 \<longrightarrow> settles w' (w\<lparr>phase := Writing s []\<rparr>)
         | Written \<Rightarrow> v AND INT_DATA_DONE \<noteq> 0 \<longrightarrow> w' = w\<lparr>phase := Idle\<rparr>
         | _ \<Rightarrow> w' = w)
      else if a = EMMC_BLKSIZECNT then phase w = Idle \<longrightarrow> w' = w
      else if a = EMMC_ARG1 then phase w = Idle \<longrightarrow> w' = w\<lparr>arg1 := v\<rparr>
      else if a = EMMC_CMDTM then
        phase w = Idle \<longrightarrow>
          (v = CMD_READ_SINGLE \<longrightarrow> settles w' (w\<lparr>phase := Read_sent (arg1 w)\<rparr>)) \<and>
          (v = CMD_WRITE_SINGLE \<longrightarrow> settles w' (w\<lparr>phase := Write_sent (arg1 w)\<rparr>))
      else if a = EMMC_DATA then
        (case phase w of
           Writing s ws \<Rightarrow>
             if length ws < 127 then w' = w\<lparr>phase := Writing s (ws @ [v])\<rparr>
             else settles w' (w\<lparr>phase := Written, sectors := (sectors w)(s := bytes_of_words (ws @ [v]))\<rparr>)
         | _ \<Rightarrow> True)
      else True)"

text \<open>The device behaves like a controller of which \<open>cv\<close> is the state, and its clock runs.\<close>

definition sdhc_behaves :: "'d device \<Rightarrow> ('d \<Rightarrow> card_view) \<Rightarrow> ('d \<Rightarrow> nat) \<Rightarrow> bool" where
  "sdhc_behaves D cv now \<longleftrightarrow> clock_runs D now \<and>
     (\<forall>a d. legal_read a (cv d) (fst (reg_read D a d)) (cv (snd (reg_read D a d)))) \<and>
     (\<forall>a v d. legal_write a v (cv d) (cv (reg_write D a v d)))"

lemma sdhc_behavesD:
  assumes "sdhc_behaves D cv now"
  shows "clock_runs D now" "reg_read D a d = (v, d') \<Longrightarrow> legal_read a (cv d) v (cv d')"
    "legal_write a v (cv d) (cv (reg_write D a v d))"
  using assms unfolding sdhc_behaves_def by (metis fst_conv snd_conv)+

text \<open>Register by register.\<close>

lemmas register_defs =
  SYS_TIMER_CLOCK_def SYS_TIMER_BASE_def EMMC_STATUS_def EMMC_INTERRUPT_def EMMC_RESP0_def EMMC_DATA_def
  EMMC_BLKSIZECNT_def EMMC_ARG1_def EMMC_CMDTM_def MMIO_BASE_def VA_START_def

lemma legal_read_simps:
  "legal_read SYS_TIMER_CLOCK w v w' \<longleftrightarrow> w' = w"
  "legal_read EMMC_STATUS w v w' \<longleftrightarrow>
     (phase w = Idle \<longrightarrow> v AND (SR_CMD_INHIBIT OR SR_DAT_INHIBIT OR SR_WRITE_AVAILABLE) = 0 \<and> w' = w)"
  "legal_read EMMC_INTERRUPT w v w' \<longleftrightarrow>
     (if phase w = Idle then v AND all_faults = 0 \<and> w' = w
      else if lag w > 0 then v AND (all_faults OR all_ready) = 0 \<and> w' = w\<lparr>lag := lag w - 1\<rparr>
      else v AND all_faults = 0 \<and> v AND ready_bit (phase w) \<noteq> 0 \<and> w' = w)"
  "legal_read EMMC_RESP0 w v w' \<longleftrightarrow>
     ((\<exists>s. phase w = Reading s 0 \<or> phase w = Writing s []) \<longrightarrow> v AND CMD_ERRORS_MASK = 0 \<and> w' = w)"
  "phase w = Reading s k \<Longrightarrow> k < 128 \<Longrightarrow> legal_read EMMC_DATA w v w' \<longleftrightarrow>
     v = get32 (sectors w s) (4 * k) \<and> w' = w\<lparr>phase := if k = 127 then Idle else Reading s (Suc k)\<rparr>"
  by (simp_all add: legal_read_def register_defs)

lemma legal_write_simps:
  "legal_write EMMC_BLKSIZECNT v w w' \<longleftrightarrow> (phase w = Idle \<longrightarrow> w' = w)"
  "legal_write EMMC_ARG1 v w w' \<longleftrightarrow> (phase w = Idle \<longrightarrow> w' = w\<lparr>arg1 := v\<rparr>)"
  "phase w = Idle \<Longrightarrow> legal_write EMMC_INTERRUPT v w w' \<longleftrightarrow> w' = w"
  "phase w = Idle \<Longrightarrow> legal_write EMMC_CMDTM CMD_READ_SINGLE w w' \<longleftrightarrow>
     settles w' (w\<lparr>phase := Read_sent (arg1 w)\<rparr>)"
  "phase w = Idle \<Longrightarrow> legal_write EMMC_CMDTM CMD_WRITE_SINGLE w w' \<longleftrightarrow>
     settles w' (w\<lparr>phase := Write_sent (arg1 w)\<rparr>)"
  "phase w = Writing s ws \<Longrightarrow> legal_write EMMC_DATA v w w' \<longleftrightarrow>
     (if length ws < 127 then w' = w\<lparr>phase := Writing s (ws @ [v])\<rparr>
      else settles w' (w\<lparr>phase := Written, sectors := (sectors w)(s := bytes_of_words (ws @ [v]))\<rparr>))"
  by (simp_all add: legal_write_def register_defs CMD_READ_SINGLE_def CMD_WRITE_SINGLE_def)

lemma legal_acknowledge:
  "phase w = Read_sent s \<Longrightarrow> legal_write EMMC_INTERRUPT INT_CMD_DONE w w' \<longleftrightarrow>
     settles w' (w\<lparr>phase := Reading s 0\<rparr>)"
  "phase w = Write_sent s \<Longrightarrow> legal_write EMMC_INTERRUPT INT_CMD_DONE w w' \<longleftrightarrow>
     settles w' (w\<lparr>phase := Writing s []\<rparr>)"
  "phase w = Reading s 0 \<Longrightarrow> legal_write EMMC_INTERRUPT v w w' \<longleftrightarrow> w' = w"
  "phase w = Writing s [] \<Longrightarrow> legal_write EMMC_INTERRUPT v w w' \<longleftrightarrow> w' = w"
  "phase w = Written \<Longrightarrow> legal_write EMMC_INTERRUPT INT_DATA_DONE w w' \<longleftrightarrow> w' = w\<lparr>phase := Idle\<rparr>"
  by (simp_all add: legal_write_def register_defs INT_CMD_DONE_def INT_DATA_DONE_def)

subsection \<open>Polling such a controller\<close>

lemma wait_keeps_view:
  assumes "sdhc_behaves D cv now"
  shows "runs (wait_msec D n d) (\<lambda>d'. cv d' = cv d)"
proof -
  obtain d' where d': "wait_msec D n d = Some d'" using wait_msec_returns [OF sdhc_behavesD(1) [OF assms]] by blast
  have "cv (snd (reg_read D SYS_TIMER_CLOCK e)) = cv e" for e
    using sdhc_behavesD(2) [OF assms, of SYS_TIMER_CLOCK e] legal_read_simps(1) by (metis prod.collapse)
  with wait_msec_keeps [OF d', of "\<lambda>e. cv e = cv d"] show ?thesis by (simp add: runs_def d')
qed

lemma idle_status:
  assumes b: "sdhc_behaves D cv now" and idle: "phase (cv d) = Idle"
    and bits: "bits \<in> {SR_CMD_INHIBIT, SR_DAT_INHIBIT, SR_DAT_INHIBIT OR SR_WRITE_AVAILABLE}"
  shows "runs (sd_status D bits d) (\<lambda>(r, d'). r = 0 \<and> cv d' = cv d)"
proof -
  obtain v d1 where r: "reg_read D EMMC_STATUS d = (v, d1)" by fastforce
  from sdhc_behavesD(2) [OF b r] idle have v: "v AND (SR_CMD_INHIBIT OR SR_DAT_INHIBIT OR SR_WRITE_AVAILABLE) = 0" "cv d1 = cv d"
    by (simp_all add: legal_read_simps)
  have "v AND bits = (v AND (SR_CMD_INHIBIT OR SR_DAT_INHIBIT OR SR_WRITE_AVAILABLE)) AND bits"
    using bits by (auto simp: SR_CMD_INHIBIT_def SR_DAT_INHIBIT_def SR_WRITE_AVAILABLE_def and.assoc)
  then have "v AND bits = 0" using v(1) by simp
  then have l: "status_loop D bits 500000 d = Some (500000, d1)" by (subst status_loop.simps) (simp add: r)
  obtain i d2 where i: "reg_read D EMMC_INTERRUPT d1 = (i, d2)" by fastforce
  from sdhc_behavesD(2) [OF b i] idle v(2) have "i AND all_faults = 0" "cv d2 = cv d"
    by (simp_all add: legal_read_simps)
  moreover have "i AND INT_ERROR_MASK = (i AND all_faults) AND INT_ERROR_MASK"
    by (simp add: all_faults_def INT_ERROR_MASK_def INT_CMD_TIMEOUT_def INT_DATA_TIMEOUT_def and.assoc)
  ultimately show ?thesis by (simp add: sd_status_def l i SD_OK_def)
qed

lemma ready_bit_cases: "p \<noteq> Idle \<Longrightarrow> ready_bit p \<in> {INT_CMD_DONE, INT_READ_RDY, INT_WRITE_RDY, INT_DATA_DONE}"
  by (cases p) simp_all

lemma interrupt_bits:
  fixes v :: uint32
  shows "v AND (all_faults OR all_ready) = 0 \<Longrightarrow> bits \<in> {INT_CMD_DONE, INT_READ_RDY, INT_WRITE_RDY, INT_DATA_DONE} \<Longrightarrow>
      v AND (bits OR INT_ERROR_MASK) = 0"
    "v AND bits \<noteq> 0 \<Longrightarrow> v AND (bits OR INT_ERROR_MASK) \<noteq> 0"
    "v AND all_faults = 0 \<Longrightarrow> v AND INT_CMD_TIMEOUT = 0 \<and> v AND INT_DATA_TIMEOUT = 0 \<and> v AND INT_ERROR_MASK = 0"
proof -
  assume v: "v AND (all_faults OR all_ready) = 0" and bits: "bits \<in> {INT_CMD_DONE, INT_READ_RDY, INT_WRITE_RDY, INT_DATA_DONE}"
  have "v AND (bits OR INT_ERROR_MASK) = (v AND (all_faults OR all_ready)) AND (bits OR INT_ERROR_MASK)"
    using bits by (auto simp: all_faults_def all_ready_def INT_ERROR_MASK_def INT_CMD_TIMEOUT_def INT_DATA_TIMEOUT_def
        INT_CMD_DONE_def INT_READ_RDY_def INT_WRITE_RDY_def INT_DATA_DONE_def and.assoc)
  then show "v AND (bits OR INT_ERROR_MASK) = 0" using v by simp
next
  assume v: "v AND bits \<noteq> 0"
  have "v AND bits = (v AND (bits OR INT_ERROR_MASK)) AND bits"
    by (rule bit_word_eqI) (auto simp: bit_simps)
  then show "v AND (bits OR INT_ERROR_MASK) \<noteq> 0" using v by auto
next
  assume v: "v AND all_faults = 0"
  have "v AND INT_CMD_TIMEOUT = (v AND all_faults) AND INT_CMD_TIMEOUT" "v AND INT_DATA_TIMEOUT = (v AND all_faults) AND INT_DATA_TIMEOUT"
    "v AND INT_ERROR_MASK = (v AND all_faults) AND INT_ERROR_MASK"
    by (simp_all add: all_faults_def INT_ERROR_MASK_def INT_CMD_TIMEOUT_def INT_DATA_TIMEOUT_def and.assoc)
  then show "v AND INT_CMD_TIMEOUT = 0 \<and> v AND INT_DATA_TIMEOUT = 0 \<and> v AND INT_ERROR_MASK = 0" using v by simp
qed

lemma poll_ready:
  assumes b: "sdhc_behaves D cv now"
  shows "phase (cv d) \<noteq> Idle \<Longrightarrow> lag (cv d) < cnt \<Longrightarrow>
    runs (poll_loop D EMMC_INTERRUPT (\<lambda>i. i AND (ready_bit (phase (cv d)) OR INT_ERROR_MASK) = 0) 1 cnt d)
      (\<lambda>(c, d'). 0 < c \<and> cv d' = (cv d)\<lparr>lag := 0\<rparr>)"
proof (induction "lag (cv d)" arbitrary: d cnt)
  case 0
  obtain v d1 where r: "reg_read D EMMC_INTERRUPT d = (v, d1)" by fastforce
  from sdhc_behavesD(2) [OF b r] 0 have "v AND ready_bit (phase (cv d)) \<noteq> 0" "cv d1 = cv d"
    by (simp_all add: legal_read_simps)
  then show ?case using 0 interrupt_bits(2) by (subst poll_loop.simps) (simp add: r)
next
  case (Suc n)
  obtain v d1 where r: "reg_read D EMMC_INTERRUPT d = (v, d1)" by fastforce
  from sdhc_behavesD(2) [OF b r] Suc.hyps(2) Suc.prems
  have v: "v AND (all_faults OR all_ready) = 0" "cv d1 = (cv d)\<lparr>lag := n\<rparr>"
    by (auto simp: legal_read_simps split: if_splits)
  have w: "v AND (ready_bit (phase (cv d)) OR INT_ERROR_MASK) = 0"
    by (rule interrupt_bits(1) [OF v(1) ready_bit_cases [OF Suc.prems(1)]])
  have "runs (poll_loop D EMMC_INTERRUPT (\<lambda>i. i AND (ready_bit (phase (cv d)) OR INT_ERROR_MASK) = 0) 1 (cnt - 1) d2)
      (\<lambda>(c, d'). 0 < c \<and> cv d' = (cv d)\<lparr>lag := 0\<rparr>)" if "cv d2 = cv d1" for d2
    using Suc.hyps(1) [of d2 "cnt - 1"] Suc.hyps(2) Suc.prems v(2) that by simp
  then have "runs (wait_msec D 1 d1 \<bind> poll_loop D EMMC_INTERRUPT (\<lambda>i. i AND (ready_bit (phase (cv d)) OR INT_ERROR_MASK) = 0) 1 (cnt - 1))
      (\<lambda>(c, d'). 0 < c \<and> cv d' = (cv d)\<lparr>lag := 0\<rparr>)"
    by (rule runs_bind [OF wait_keeps_view [OF b]])
  then show ?case using w Suc.hyps(2) Suc.prems(2) by (subst poll_loop.simps) (simp add: r)
qed

lemma sd_int_ready:
  assumes b: "sdhc_behaves D cv now" and ph: "phase (cv d) \<noteq> Idle" "lag (cv d) < 1000000" "bits = ready_bit (phase (cv d))"
  shows "runs (sd_int D bits d) (\<lambda>(r, d'). r = 0 \<and> legal_write EMMC_INTERRUPT bits ((cv d)\<lparr>lag := 0\<rparr>) (cv d'))"
proof -
  from poll_ready [OF b ph(1,2)] obtain c d1 where
    c: "poll_loop D EMMC_INTERRUPT (\<lambda>i. i AND (bits OR INT_ERROR_MASK) = 0) 1 1000000 d = Some (c, d1)"
      "0 < c" "cv d1 = (cv d)\<lparr>lag := 0\<rparr>"
    by (auto simp: runs_def ph(3))
  obtain v d2 where r: "reg_read D EMMC_INTERRUPT d1 = (v, d2)" by fastforce
  from sdhc_behavesD(2) [OF b r] c(3) ph(1) have v: "v AND all_faults = 0" "cv d2 = (cv d)\<lparr>lag := 0\<rparr>"
    by (simp_all add: legal_read_simps)
  show ?thesis
    using sdhc_behavesD(3) [OF b, of EMMC_INTERRUPT bits d2] interrupt_bits(3) [OF v(1)] c(2) v(2)
    by (simp add: sd_int_def c(1) r)
qed

subsection \<open>A block\<close>

text \<open>Sending a command to the idle controller.\<close>

lemma issue_idle:
  fixes lba :: uint32
  assumes b: "sdhc_behaves D cv now" and idle: "phase (cv d) = Idle"
  defines "d3 \<equiv> reg_write D EMMC_ARG1 lba (reg_update D EMMC_INTERRUPT (\<lambda>i. i) d)"
  shows "phase (cv d3) = Idle" "arg1 (cv d3) = lba" "sectors (cv d3) = sectors (cv d)"
proof -
  obtain i d1 where i: "reg_read D EMMC_INTERRUPT d = (i, d1)" by fastforce
  from sdhc_behavesD(2) [OF b i] idle have "cv d1 = cv d" by (simp add: legal_read_simps)
  moreover from this have "cv (reg_write D EMMC_INTERRUPT i d1) = cv d"
    using sdhc_behavesD(3) [OF b, of EMMC_INTERRUPT i d1] idle by (simp add: legal_write_simps)
  ultimately have "cv d3 = (cv d)\<lparr>arg1 := lba\<rparr>"
    using sdhc_behavesD(3) [OF b, of EMMC_ARG1 lba "reg_write D EMMC_INTERRUPT i d1"] idle
    by (simp add: d3_def reg_update_def i legal_write_simps)
  then show "phase (cv d3) = Idle" "arg1 (cv d3) = lba" "sectors (cv d3) = sectors (cv d)" using idle by simp_all
qed

text \<open>The command of a transfer: from the idle card to the first word.\<close>

lemma transfer_command:
  assumes b: "sdhc_behaves D cv now" and idle: "phase (cv (dev s)) = Idle"
    and cmd: "code = CMD_READ_SINGLE \<and> first = Reading lba 0 \<or> code = CMD_WRITE_SINGLE \<and> first = Writing lba []"
  shows "runs (sd_execute_command D code lba s) (\<lambda>(_, t). same_card s t \<and> sd_err t = 0 \<and> phase (cv (dev t)) = first \<and>
    lag (cv (dev t)) < 1000000 \<and> sectors (cv (dev t)) = sectors (cv (dev s)))"
proof -
  let ?s0 = "set_err SD_OK s"
  have code: "code AND CMD_NEED_APP = 0" "code \<notin> {CMD_SEND_OP_COND, CMD_SEND_IF_COND, CMD_APP_CMD, CMD_GO_IDLE,
      CMD_APP_CMD OR CMD_RSPNS_48, CMD_ALL_SEND_CID, CMD_SEND_REL_ADDR}"
    using cmd by (auto simp: CMD_READ_SINGLE_def CMD_WRITE_SINGLE_def CMD_NEED_APP_def CMD_SEND_OP_COND_def CMD_SEND_IF_COND_def
        CMD_APP_CMD_def CMD_GO_IDLE_def CMD_RSPNS_48_def CMD_ALL_SEND_CID_def CMD_SEND_REL_ADDR_def)
  from idle_status [OF b idle, of SR_CMD_INHIBIT] obtain d1 where
    d1: "sd_status D SR_CMD_INHIBIT (dev s) = Some (0, d1)" "cv d1 = cv (dev s)" by (auto simp: runs_def)
  define d4 where "d4 = reg_write D EMMC_CMDTM code (reg_write D EMMC_ARG1 lba (reg_update D EMMC_INTERRUPT (\<lambda>i. i) d1))"
  have "phase (cv d1) = Idle" using d1(2) idle by simp
  note I = issue_idle [OF b this, of lba]
  have "legal_write EMMC_CMDTM code (cv (reg_write D EMMC_ARG1 lba (reg_update D EMMC_INTERRUPT (\<lambda>i. i) d1))) (cv d4)"
    unfolding d4_def by (rule sdhc_behavesD(3) [OF b])
  then have p4: "phase (cv d4) \<noteq> Idle" "lag (cv d4) < 1000000" "sectors (cv d4) = sectors (cv (dev s))"
      "INT_CMD_DONE = ready_bit (phase (cv d4))"
      "phase (cv d4) = Read_sent lba \<and> first = Reading lba 0 \<or> phase (cv d4) = Write_sent lba \<and> first = Writing lba []"
    using cmd I d1(2) by (auto simp: legal_write_simps settles_def)
  from sd_int_ready [OF b p4(1,2,4)] obtain d5 where
    d5: "sd_int D INT_CMD_DONE d4 = Some (0, d5)" "legal_write EMMC_INTERRUPT INT_CMD_DONE ((cv d4)\<lparr>lag := 0\<rparr>) (cv d5)"
    by (auto simp: runs_def)
  have p5: "phase (cv d5) = first" "lag (cv d5) < 1000000" "sectors (cv d5) = sectors (cv (dev s))"
    using d5(2) p4(3,5) by (auto simp: legal_acknowledge settles_def)
  obtain r d6 where r: "reg_read D EMMC_RESP0 d5 = (r, d6)" by fastforce
  have "r AND CMD_ERRORS_MASK = 0" "cv d6 = cv d5"
    using sdhc_behavesD(2) [OF b r] p5(1) cmd by (auto simp: legal_read_simps)
  then have "sd_response D code lba (?s0\<lparr>dev := d5\<rparr>) = (0, ?s0\<lparr>dev := d6\<rparr>)"
    using code(2) by (simp add: sd_response_def get_reg_def r)
  then have "sd_execute_command D code lba s = Some (0, ?s0\<lparr>dev := d6\<rparr>)"
    using code d1(1) d5(1)
    by (simp add: sd_execute_command_def send_command_def set_err_def on_dev_def put_reg_def d4_def)
  then show ?thesis using p5 \<open>cv d6 = cv d5\<close> by (simp add: set_err_def SD_OK_def from_int_def same_card_def)
qed

text \<open>The words of a block.\<close>

lemma read_words_block:
  assumes b: "sdhc_behaves D cv now"
  shows "phase (cv d) = Reading lba k \<Longrightarrow> n + k = 128 \<Longrightarrow> 0 < n \<Longrightarrow>
    \<exists>d'. read_words D n d = (map (\<lambda>i. get32 (sectors (cv d) lba) (4 * i)) [k..<128], d') \<and>
      phase (cv d') = Idle \<and> sectors (cv d') = sectors (cv d)"
proof (induction n arbitrary: d k)
  case (Suc n)
  obtain v d1 where r: "reg_read D EMMC_DATA d = (v, d1)" by fastforce
  from sdhc_behavesD(2) [OF b r] Suc.prems have
    v: "v = get32 (sectors (cv d) lba) (4 * k)" "cv d1 = (cv d)\<lparr>phase := if k = 127 then Idle else Reading lba (Suc k)\<rparr>"
    by (simp_all add: legal_read_simps(5) [of _ lba k])
  have k: "[k..<128] = k # [Suc k..<128]" using Suc.prems by (simp add: upt_rec)
  show ?case
  proof (cases "n = 0")
    case True
    then show ?thesis using Suc.prems v r k by auto
  next
    case False
    then have "phase (cv d1) = Reading lba (Suc k)" "sectors (cv d1) = sectors (cv d)" using v(2) Suc.prems by auto
    from Suc.IH [OF this(1)] this(2) False Suc.prems show ?thesis using v(1) r k by auto
  qed
qed simp

lemma write_words_block:
  assumes b: "sdhc_behaves D cv now"
  shows "phase (cv d) = Writing lba pre \<Longrightarrow> length pre + length ws = 128 \<Longrightarrow> ws \<noteq> [] \<Longrightarrow>
    phase (cv (write_words D ws d)) = Written \<and> lag (cv (write_words D ws d)) < 1000000 \<and>
    sectors (cv (write_words D ws d)) = (sectors (cv d))(lba := bytes_of_words (pre @ ws))"
proof (induction ws arbitrary: d pre)
  case (Cons w ws)
  let ?d1 = "reg_write D EMMC_DATA w d"
  have l: "legal_write EMMC_DATA w (cv d) (cv ?d1)" by (rule sdhc_behavesD(3) [OF b])
  show ?case
  proof (cases "ws = []")
    case True
    then show ?thesis using l Cons.prems legal_write_simps(6) [OF Cons.prems(1)] by (simp add: write_words_def settles_def)
  next
    case False
    then have "length pre < 127" using Cons.prems(2) by (cases ws) auto
    then have "cv ?d1 = (cv d)\<lparr>phase := Writing lba (pre @ [w])\<rparr>"
      using l legal_write_simps(6) [OF Cons.prems(1)] by simp
    then show ?thesis using Cons.IH [of ?d1 "pre @ [w]"] Cons.prems(2) False by (simp add: write_words_def)
  qed
qed simp

lemma word_bytes_get32: "word_bytes (get32 b i) = [b ! i, b ! (i + 1), b ! (i + 2), b ! (i + 3)]"
proof -
  have "ucast (get32 b i) = b ! i" "ucast (drop_bit 8 (get32 b i)) = b ! (i + 1)"
    "ucast (drop_bit 16 (get32 b i)) = b ! (i + 2)" "ucast (drop_bit 24 (get32 b i)) = b ! (i + 3)"
    by (rule bit_word_eqI; auto simp: get32_def bit_simps dest: bit_imp_le_length)+
  then show ?thesis by (simp add: word_bytes_def)
qed

lemma bytes_words_round_trip:
  assumes "length b = 4 * n"
  shows "bytes_of_words (map (\<lambda>i. get32 b (4 * i)) [0..<n]) = b"
  using assms
proof (induction n arbitrary: b)
  case (Suc n)
  define c where "c = take (4 * n) b"
  have "get32 b (4 * i) = get32 c (4 * i)" if "i < n" for i using that by (simp add: get32_def c_def)
  then have m: "map (word_bytes \<circ> (\<lambda>i. get32 b (4 * i))) [0..<n] = map (word_bytes \<circ> (\<lambda>i. get32 c (4 * i))) [0..<n]" by simp
  have "length c = 4 * n" using Suc.prems by (simp add: c_def)
  then have "bytes_of_words (map (\<lambda>i. get32 b (4 * i)) [0..<Suc n]) = c @ word_bytes (get32 b (4 * n))"
    using Suc.IH [of c] by (simp add: bytes_of_words_def m)
  also have "\<dots> = take (4 * n) b @ drop (4 * n) b"
  proof -
    have "drop (4 * n) b = [b ! (4 * n), b ! (4 * n + 1), b ! (4 * n + 2), b ! (4 * n + 3)]"
      by (rule nth_equalityI) (use Suc.prems in \<open>auto simp: less_Suc_eq numeral_eq_Suc\<close>)
    then show ?thesis by (simp add: c_def word_bytes_get32)
  qed
  finally show ?case by simp
qed (simp add: bytes_of_words_def)

text \<open>The two transfers, for an SDHC card (\<open>ccs\<close>).\<close>

lemma start_single:
  assumes b: "sdhc_behaves D cv now" and idle: "phase (cv (dev s)) = Idle" and "ccs s"
    and cmd: "code = CMD_READ_SINGLE \<and> first = Reading lba 0 \<or> code = CMD_WRITE_SINGLE \<and> first = Writing lba []"
  shows "runs (start_transfer D code multi lba 1 s) (\<lambda>(go, t). go \<and> same_card s t \<and> sd_err t = 0 \<and>
    phase (cv (dev t)) = first \<and> lag (cv (dev t)) < 1000000 \<and> sectors (cv (dev t)) = sectors (cv (dev s)))"
proof -
  let ?s1 = "put_reg D EMMC_BLKSIZECNT (push_bit 16 1 OR 512) s"
  have "cv (dev ?s1) = cv (dev s)"
    using sdhc_behavesD(3) [OF b, of EMMC_BLKSIZECNT _ "dev s"] idle by (simp add: legal_write_simps put_reg_def on_dev_def)
  with transfer_command [OF b _ cmd, of ?s1] idle obtain r t where
    "sd_execute_command D code lba ?s1 = Some (r, t)" "same_card s t" "sd_err t = 0" "phase (cv (dev t)) = first"
    "lag (cv (dev t)) < 1000000" "sectors (cv (dev t)) = sectors (cv (dev s))"
    by (auto simp: runs_def frame_defs)
  then show ?thesis using assms(3) by (simp add: start_transfer_def)
qed

lemma next_single:
  assumes b: "sdhc_behaves D cv now" and "ccs s" "lag (cv (dev s)) < 1000000"
    and ph: "phase (cv (dev s)) = Reading lba 0 \<and> ready = INT_READ_RDY \<or> phase (cv (dev s)) = Writing lba [] \<and> ready = INT_WRITE_RDY"
  shows "runs (next_block D code ready message lba' c s) (\<lambda>(go, t). go \<and> same_card s t \<and> sd_err t = sd_err s \<and>
    cv (dev t) = (cv (dev s))\<lparr>lag := 0\<rparr>)"
proof -
  have "phase (cv (dev s)) \<noteq> Idle" "ready = ready_bit (phase (cv (dev s)))" using ph by auto
  from sd_int_ready [OF b this(1) assms(3) this(2)] ph assms(2) show ?thesis
    by (auto simp: next_block_def runs_def legal_acknowledge same_card_def)
qed

lemma sd_readblock_ok:
  assumes b: "sdhc_behaves D cv now" and idle: "phase (cv (dev s)) = Idle" and "ccs s" "length (sectors (cv (dev s)) lba) = 512"
  shows "runs (sd_readblock D lba 1 s) (\<lambda>(r, buf, t). r = 512 \<and> bytes_of_words buf = sectors (cv (dev s)) lba \<and> length buf = 128 \<and>
    same_card s t \<and> sd_err t = 0 \<and> phase (cv (dev t)) = Idle \<and> sectors (cv (dev t)) = sectors (cv (dev s)))"
proof -
  from idle_status [OF b idle, of SR_DAT_INHIBIT] obtain d1 where
    d1: "sd_status D SR_DAT_INHIBIT (dev s) = Some (0, d1)" "cv d1 = cv (dev s)" by (auto simp: runs_def)
  let ?s1 = "s\<lparr>dev := d1\<rparr>"
  have "phase (cv (dev ?s1)) = Idle" "ccs ?s1" using idle d1(2) assms(3) by (simp_all add: ccs_def)
  from start_single [OF b this, of CMD_READ_SINGLE "Reading lba 0" lba CMD_READ_MULTI] obtain s2 where
    s2: "start_transfer D CMD_READ_SINGLE CMD_READ_MULTI lba 1 ?s1 = Some (True, s2)" "same_card s s2" "sd_err s2 = 0"
      "phase (cv (dev s2)) = Reading lba 0" "lag (cv (dev s2)) < 1000000" "sectors (cv (dev s2)) = sectors (cv (dev s))"
    using d1(2) by (auto simp: runs_def same_card_def)
  have c2: "ccs s2" using same_card_flags(1) [OF s2(2)] assms(3) by simp
  from next_single [OF b c2 s2(5), of lba INT_READ_RDY CMD_READ_SINGLE
      "[CHR 0x0D] @ ''ERROR: Timeout waiting for ready to read'' @ [CHR 0x0A]" lba 0] s2(4) obtain s3 where
    s3: "next_block D CMD_READ_SINGLE INT_READ_RDY ([CHR 0x0D] @ ''ERROR: Timeout waiting for ready to read'' @ [CHR 0x0A]) lba 0 s2
        = Some (True, s3)" "same_card s2 s3" "sd_err s3 = 0" "cv (dev s3) = (cv (dev s2))\<lparr>lag := 0\<rparr>"
    using s2(3) by (auto simp: runs_def)
  let ?ws = "map (\<lambda>i. get32 (sectors (cv (dev s)) lba) (4 * i)) [0..<128]"
  from read_words_block [OF b, of "dev s3" lba 0 128] obtain d4 where
    d4: "read_words D 128 (dev s3) = (?ws, d4)" "phase (cv d4) = Idle" "sectors (cv d4) = sectors (cv (dev s))"
    using s3(4) s2(4,6) by auto
  have "sd_read_loop D lba 1 0 [] s2 = Some (Some 1, ?ws, s3\<lparr>dev := d4\<rparr>)"
    using s3(1) d4(1) by (subst sd_read_loop.simps, simp) (subst sd_read_loop.simps, simp)
  moreover have "end_transfer D 1 1 (s3\<lparr>dev := d4\<rparr>) = Some (512, s3\<lparr>dev := d4\<rparr>)"
    using s3(3) by (simp add: end_transfer_def)
  ultimately have "sd_readblock D lba 1 s = Some (512, ?ws, s3\<lparr>dev := d4\<rparr>)"
    using d1(1) s2(1) by (simp add: sd_readblock_def)
  moreover have "bytes_of_words ?ws = sectors (cv (dev s)) lba" using bytes_words_round_trip [of _ 128] assms(4) by simp
  moreover have "same_card s (s3\<lparr>dev := d4\<rparr>)" using same_card_trans [OF s2(2) s3(2)] by simp
  ultimately show ?thesis using d4 s3(3) by (simp add: runs_def)
qed

lemma sd_writeblock_ok:
  assumes b: "sdhc_behaves D cv now" and idle: "phase (cv (dev s)) = Idle" and "ccs s" "length ws = 128"
  shows "runs (sd_writeblock D ws lba 1 s) (\<lambda>(r, t). r = 512 \<and> same_card s t \<and> sd_err t = 0 \<and>
    phase (cv (dev t)) = Idle \<and> sectors (cv (dev t)) = (sectors (cv (dev s)))(lba := bytes_of_words ws))"
proof -
  from idle_status [OF b idle, of "SR_DAT_INHIBIT OR SR_WRITE_AVAILABLE"] obtain d1 where
    d1: "sd_status D (SR_DAT_INHIBIT OR SR_WRITE_AVAILABLE) (dev s) = Some (0, d1)" "cv d1 = cv (dev s)" by (auto simp: runs_def)
  let ?s1 = "s\<lparr>dev := d1\<rparr>"
  have "phase (cv (dev ?s1)) = Idle" "ccs ?s1" using idle d1(2) assms(3) by (simp_all add: ccs_def)
  from start_single [OF b this, of CMD_WRITE_SINGLE "Writing lba []" lba CMD_WRITE_MULTI] obtain s2 where
    s2: "start_transfer D CMD_WRITE_SINGLE CMD_WRITE_MULTI lba 1 ?s1 = Some (True, s2)" "same_card s s2" "sd_err s2 = 0"
      "phase (cv (dev s2)) = Writing lba []" "lag (cv (dev s2)) < 1000000" "sectors (cv (dev s2)) = sectors (cv (dev s))"
    using d1(2) by (auto simp: runs_def same_card_def)
  have c2: "ccs s2" using same_card_flags(1) [OF s2(2)] assms(3) by simp
  from next_single [OF b c2 s2(5), of lba INT_WRITE_RDY CMD_WRITE_SINGLE
      "[CHR 0x0D] @ ''ERROR: Timeout waiting for ready to write'' @ [CHR 0x0A]" lba 0] s2(4) obtain s3 where
    s3: "next_block D CMD_WRITE_SINGLE INT_WRITE_RDY ([CHR 0x0D] @ ''ERROR: Timeout waiting for ready to write'' @ [CHR 0x0A]) lba 0 s2
        = Some (True, s3)" "same_card s2 s3" "sd_err s3 = 0" "cv (dev s3) = (cv (dev s2))\<lparr>lag := 0\<rparr>"
    using s2(3) by (auto simp: runs_def)
  let ?d4 = "write_words D ws (dev s3)"
  have d4: "phase (cv ?d4) = Written" "lag (cv ?d4) < 1000000" "sectors (cv ?d4) = (sectors (cv (dev s)))(lba := bytes_of_words ws)"
    using write_words_block [OF b, of "dev s3" lba "[]" ws] s3(4) s2(4,6) assms(4) by (cases ws; auto)+
  have "sd_write_loop D lba 1 0 ws s2 = Some (Some 1, s3\<lparr>dev := ?d4\<rparr>)"
    using s3(1) assms(4) by (subst sd_write_loop.simps, simp) (subst sd_write_loop.simps, simp add: on_dev_def)
  moreover from sd_int_ready [OF b, of ?d4 INT_DATA_DONE] d4 obtain d5 where
    d5: "sd_int D INT_DATA_DONE ?d4 = Some (0, d5)" "cv d5 = (cv ?d4)\<lparr>lag := 0, phase := Idle\<rparr>"
    by (auto simp: runs_def legal_acknowledge)
  moreover have "end_transfer D 1 1 (s3\<lparr>dev := d5\<rparr>) = Some (512, s3\<lparr>dev := d5\<rparr>)"
    using s3(3) by (simp add: end_transfer_def)
  ultimately have "sd_writeblock D ws lba 1 s = Some (512, s3\<lparr>dev := d5\<rparr>)"
    using d1(1) s2(1) by (simp add: sd_writeblock_def)
  moreover have "same_card s (s3\<lparr>dev := d5\<rparr>)" using same_card_trans [OF s2(2) s3(2)] by simp
  ultimately show ?thesis using d4(3) d5(2) s3(3) by (simp add: runs_def)
qed

end
