(* ===== verification/Sd_Setup.thy ===== *)
theory Sd_Setup
  imports Sd_Card
begin

text \<open>
  Setting up the SD card, the rest of \<^verbatim>\<open>drivers/sd/sd.c\<close>: the pins, the clock of the controller, its
  reset, and the commands that select a card and read its configuration register.
\<close>

subsection \<open>Pins\<close>

text \<open>\<^verbatim>\<open>arch/gpio.h\<close>: physical addresses.\<close>

definition GPFSEL4 :: ulong where "GPFSEL4 = GPIO_MMIO_BASE + 0x00200010"
definition GPFSEL5 :: ulong where "GPFSEL5 = GPIO_MMIO_BASE + 0x00200014"
definition GPHEN1 :: ulong where "GPHEN1 = GPIO_MMIO_BASE + 0x00200068"
definition GPPUD :: ulong where "GPPUD = GPIO_MMIO_BASE + 0x00200094"
definition GPPUDCLK1 :: ulong where "GPPUDCLK1 = GPIO_MMIO_BASE + 0x0020009C"

definition enable_card_detect :: "'d device \<Rightarrow> 'd \<Rightarrow> 'd" where
  "enable_card_detect D d =
     (let d1 = reg_update D GPFSEL4 (\<lambda>r. r AND NOT (push_bit (7 * 3) 7)) d;
          d2 = reg_write D GPPUD 2 d1;
          d3 = reg_write D GPPUDCLK1 (push_bit 15 1) d2;
          d4 = reg_write D GPPUDCLK1 0 (reg_write D GPPUD 0 d3)
      in reg_update D GPHEN1 (\<lambda>r. r OR push_bit 15 1) d4)"

definition enable_clock_and_command :: "'d device \<Rightarrow> 'd \<Rightarrow> 'd" where
  "enable_clock_and_command D d =
     (let d1 = reg_update D GPFSEL4 (\<lambda>r. r OR (push_bit (8 * 3) 7 OR push_bit (9 * 3) 7)) d;
          d2 = reg_write D GPPUD 2 d1;
          d3 = reg_write D GPPUDCLK1 (push_bit 16 1 OR push_bit 17 1) d2
      in reg_write D GPPUDCLK1 0 (reg_write D GPPUD 0 d3))"

definition enable_data_pins :: "'d device \<Rightarrow> 'd \<Rightarrow> 'd" where
  "enable_data_pins D d =
     (let d1 = reg_update D GPFSEL5
                 (\<lambda>r. r OR (push_bit (0 * 3) 7 OR push_bit (1 * 3) 7 OR push_bit (2 * 3) 7 OR push_bit (3 * 3) 7)) d;
          d2 = reg_write D GPPUD 2 d1;
          d3 = reg_update D GPPUDCLK1 (\<lambda>r. r OR (push_bit 18 1 OR push_bit 19 1 OR push_bit 20 1 OR push_bit 21 1)) d2
      in reg_write D GPPUDCLK1 0 (reg_write D GPPUD 0 d3))"

subsection \<open>Clock\<close>

text \<open>The normalisation that finds the highest bit of \<^verbatim>\<open>x\<close>: one step, and all five.\<close>

definition norm_step :: "uint32 \<times> nat \<Rightarrow> uint32 \<times> nat \<Rightarrow> uint32 \<times> nat" where
  "norm_step mk xs =
     (let (m, k) = mk; (x, s) = xs in if x AND m = 0 then (push_bit k x, s - k) else (x, s))"

definition clock_shift :: "uint32 \<Rightarrow> nat" where
  "clock_shift x =
     (if x = 0 then 0
      else
        let (_, s) = fold norm_step
              [(0xffff0000, 16), (0xff000000, 8), (0xf0000000, 4), (0xc0000000, 2), (0x80000000, 1)] (x, 32);
            s = (if s > 0 then s - 1 else s)
        in if s > 7 then 7 else s)"

text \<open>The divider, and its place in \<^verbatim>\<open>CONTROL1\<close>.\<close>

definition clock_divider :: "ulong \<Rightarrow> uint32 \<Rightarrow> uint32" where
  "clock_divider hv c =
     (let d = (if hv > HOST_SPEC_V2 then c else push_bit (clock_shift (c - 1)) 1) in if d \<le> 2 then 2 else d)"

definition divider_bits :: "ulong \<Rightarrow> uint32 \<Rightarrow> uint32" where
  "divider_bits hv d =
     (let h = (if hv > HOST_SPEC_V2 then drop_bit 2 (d AND 0x300) else 0) in push_bit 8 (d AND 0x0ff) OR h)"

definition sd_set_clock :: "'d device \<Rightarrow> uint32 \<Rightarrow> 'd sd_state \<Rightarrow> (int \<times> 'd sd_state) option" where
  "sd_set_clock D f s =
     (if f = 0 then None
      else do {
        let c = 41666666 div f;
        (cnt, d1) \<leftarrow> poll_loop D EMMC_STATUS (\<lambda>v. v AND (SR_CMD_INHIBIT OR SR_DAT_INHIBIT) \<noteq> 0) 1 100000 (dev s);
        let s1 = s\<lparr>dev := d1\<rparr>;
        if cnt \<le> 0 then do {
          s2 \<leftarrow> say (''ERROR: timeout waiting for inhibit flag'' @ [CHR 0x0A]) s1;
          Some (SD_ERROR, s2)
        } else do {
          s2 \<leftarrow> pause D 10 (on_dev (reg_update D EMMC_CONTROL1 (\<lambda>v. v AND NOT C1_CLK_EN)) s1);
          let d = divider_bits (sd_hv s) (clock_divider (sd_hv s) c);
          s3 \<leftarrow> pause D 10 (on_dev (reg_update D EMMC_CONTROL1 (\<lambda>v. (v AND 0xffff003f) OR d)) s2);
          s4 \<leftarrow> pause D 10 (on_dev (reg_update D EMMC_CONTROL1 (\<lambda>v. v OR C1_CLK_EN)) s3);
          (cnt, d5) \<leftarrow> poll_loop D EMMC_CONTROL1 (\<lambda>v. v AND C1_CLK_STABLE = 0) 10 10000 (dev s4);
          let s5 = s4\<lparr>dev := d5\<rparr>;
          if cnt \<le> 0 then do {
            s6 \<leftarrow> say (''ERROR: failed to get stable clock'' @ [CHR 0x0A]) s5;
            Some (SD_ERROR, s6)
          } else Some (SD_OK, s5)
        }
      })"

subsection \<open>Reset and identification\<close>

definition reset_emmc :: "'d device \<Rightarrow> 'd \<Rightarrow> (int \<times> 'd) option" where
  "reset_emmc D d = do {
     let d1 = reg_update D EMMC_CONTROL1 (\<lambda>v. v OR C1_SRST_HC) (reg_write D EMMC_CONTROL0 0 d);
     d2 \<leftarrow> wait_msec D 10 d1;
     poll_loop D EMMC_CONTROL1 (\<lambda>v. v AND C1_SRST_HC \<noteq> 0) 10 10000 d2
   }"

text \<open>The loop of \<^verbatim>\<open>enable_card\<close>: \<open>Inl\<close> is the early return, \<open>Inr\<close> the final \<^verbatim>\<open>cnt\<close> and \<^verbatim>\<open>r\<close>.\<close>

fun card_loop ::
  "'d device \<Rightarrow> nat \<Rightarrow> uint32 \<Rightarrow> 'd sd_state \<Rightarrow> ((int + int \<times> uint32) \<times> 'd sd_state) option" where
  "card_loop D cnt r s =
     (if r AND ACMD41_CMD_COMPLETE \<noteq> 0 then Some (Inr (int cnt, r), s)
      else if cnt = 0 then Some (Inr (-1, r), s)
      else do {
        (r, s1) \<leftarrow> sd_execute_command D CMD_SEND_OP_COND ACMD41_ARG_HC s;
        if c_int (sd_err s1) \<noteq> SD_TIMEOUT \<and> c_int (sd_err s1) \<noteq> SD_OK then do {
          s2 \<leftarrow> say (''ERROR: EMMC ACMD41 returned error'' @ [CHR 0x0A]) s1;
          Some (Inl (c_int (sd_err s2)), s2)
        } else card_loop D (cnt - 1) r s1
      })"

declare card_loop.simps [simp del]

text \<open>The result has the code returned and \<^verbatim>\<open>*ccs\<close>.\<close>

definition enable_card :: "'d device \<Rightarrow> 'd sd_state \<Rightarrow> (int \<times> ulong \<times> 'd sd_state) option" where
  "enable_card D s = do {
     (e, s1) \<leftarrow> card_loop D 6 0 s;
     case e of
       Inl err \<Rightarrow> Some (err, 0, s1)
     | Inr (cnt, r) \<Rightarrow>
         Some (if r AND ACMD41_CMD_COMPLETE = 0 \<or> cnt = 0 then (SD_TIMEOUT, 0, s1)
               else if r AND ACMD41_VOLTAGE = 0 then (SD_ERROR, 0, s1)
               else (SD_OK, if r AND ACMD41_CMD_CCS \<noteq> 0 then SCR_SUPP_CCS else 0, s1))
   }"

text \<open>Reading the two words of the configuration register. The loop never counts its tries down.\<close>

partial_function (option) scr_loop :: "'d device \<Rightarrow> nat \<Rightarrow> 'd sd_state \<Rightarrow> 'd sd_state option" where
  "scr_loop D r s =
     (if r < 2 then
        let (st, s1) = get_reg D EMMC_STATUS s
        in if st AND SR_READ_AVAILABLE \<noteq> 0 then
             let (v, s2) = get_reg D EMMC_DATA s1
             in scr_loop D (r + 1) (if r = 0 then s2\<lparr>sd_scr0 := ucast v\<rparr> else s2\<lparr>sd_scr1 := ucast v\<rparr>)
           else do { s2 \<leftarrow> pause D 1 s1; scr_loop D r s2 }
      else Some s)"

text \<open>A command whose error \<^verbatim>\<open>sd_init\<close> returns: \<open>Inl\<close> of the error, or the response.\<close>

definition command_or_return ::
  "'d device \<Rightarrow> uint32 \<Rightarrow> uint32 \<Rightarrow> 'd sd_state \<Rightarrow> ((int + uint32) \<times> 'd sd_state) option" where
  "command_or_return D code arg s = do {
     (r, s1) \<leftarrow> sd_execute_command D code arg s;
     Some (if sd_err s1 \<noteq> 0 then Inl (c_int (sd_err s1)) else Inr r, s1)
   }"

text \<open>Going on unless a step has returned.\<close>

definition or_return ::
  "((int + 'a) \<times> 's) option \<Rightarrow> ('a \<Rightarrow> 's \<Rightarrow> (int \<times> 's) option) \<Rightarrow> (int \<times> 's) option" where
  "or_return m k = do { (r, s) \<leftarrow> m; case r of Inl err \<Rightarrow> Some (err, s) | Inr v \<Rightarrow> k v s }"

text \<open>The second half of \<^verbatim>\<open>sd_init\<close>, from the selected card on.\<close>

definition read_configuration :: "'d device \<Rightarrow> ulong \<Rightarrow> 'd sd_state \<Rightarrow> (int \<times> 'd sd_state) option" where
  "read_configuration D flag s = do {
     (busy, d) \<leftarrow> sd_status D SR_DAT_INHIBIT (dev s);
     let s1 = s\<lparr>dev := d\<rparr>;
     if busy \<noteq> 0 then Some (SD_TIMEOUT, s1)
     else or_return (command_or_return D CMD_SEND_SCR 0 (put_reg D EMMC_BLKSIZECNT (push_bit 16 1 OR 8) s1)) (\<lambda>_ s2. do {
       (r, d3) \<leftarrow> sd_int D INT_READ_RDY (dev s2);
       let s3 = s2\<lparr>dev := d3\<rparr>;
       if r \<noteq> 0 then Some (SD_TIMEOUT, s3)
       else do {
         s4 \<leftarrow> scr_loop D 0 s3;
         let finish = (\<lambda>t. Some (SD_OK, t\<lparr>sd_scr0 := (sd_scr0 t AND NOT SCR_SUPP_CCS) OR flag\<rparr>));
         if sd_scr0 s4 AND SCR_SD_BUS_WIDTH_4 \<noteq> 0
         then or_return (command_or_return D CMD_SET_BUS_WIDTH (ucast (sd_rca s4) OR 2) s4) (\<lambda>_ s5.
                finish (on_dev (reg_update D EMMC_CONTROL0 (\<lambda>v. v OR C0_HCTL_DWITDH)) s5))
         else finish s4
       }
     })
   }"

definition sd_init :: "'d device \<Rightarrow> 'd sd_state \<Rightarrow> (int \<times> 'd sd_state) option" where
  "sd_init D s = do {
     let s1 = on_dev (\<lambda>d. enable_data_pins D (enable_clock_and_command D (enable_card_detect D d))) s;
     let (v, s2) = get_reg D EMMC_SLOTISR_VER s1;
     let s3 = s2\<lparr>sd_hv := ucast (drop_bit HOST_SPEC_NUM_SHIFT (v AND HOST_SPEC_NUM))\<rparr>;
     (cnt, d4) \<leftarrow> reset_emmc D (dev s3);
     let s4 = s3\<lparr>dev := d4\<rparr>;
     if cnt \<le> 0 then do {
       s5 \<leftarrow> say (''[ERROR] Failed to reset EMMC'' @ [CHR 0x0A]) s4;
       Some (SD_ERROR, s5)
     } else do {
       s5 \<leftarrow> pause D 10 (on_dev (reg_update D EMMC_CONTROL1 (\<lambda>v. v OR (C1_CLK_INTLEN OR C1_TOUNIT_MAX))) s4);
       (r, s6) \<leftarrow> sd_set_clock D 400000 s5;
       if r \<noteq> 0 then Some (r, s6)
       else
         let s7 = put_reg D EMMC_INT_MASK 0xffffffff (put_reg D EMMC_INT_EN 0xffffffff s6);
             s8 = s7\<lparr>sd_scr0 := 0, sd_scr1 := 0, sd_rca := 0, sd_err := 0\<rparr>
         in or_return (command_or_return D CMD_GO_IDLE 0 s8) (\<lambda>_ s9.
            or_return (command_or_return D CMD_SEND_IF_COND 0x000001AA s9) (\<lambda>_ s10. do {
              (ok, flag, s11) \<leftarrow> enable_card D s10;
              if ok \<noteq> SD_OK then Some (ok, s11)
              else do {
                (_, s12) \<leftarrow> sd_execute_command D CMD_ALL_SEND_CID 0 s11;
                (rca, s13) \<leftarrow> sd_execute_command D CMD_SEND_REL_ADDR 0 s12;
                let s14 = s13\<lparr>sd_rca := scast rca\<rparr>;
                if sd_err s14 \<noteq> 0 then Some (c_int (sd_err s14), s14)
                else do {
                  (r, s15) \<leftarrow> sd_set_clock D 25000000 s14;
                  if r \<noteq> 0 then Some (r, s15)
                  else or_return (command_or_return D CMD_CARD_SELECT (ucast (sd_rca s15)) s15)
                         (\<lambda>_ s16. read_configuration D flag s16)
                }
              }
            }))
     }
   }"

end
