(* ===== verification/Sd_Properties.thy ===== *)
theory Sd_Properties
  imports Sd_Protocol Sd_Setup
begin

text \<open>
  The properties of the SD card driver, and a simulated controller at which their hypotheses hold.
\<close>

subsection \<open>A simulated controller\<close>

record sim =
  sim_view :: card_view
  sim_time :: nat

definition sim_read :: "ulong \<Rightarrow> sim \<Rightarrow> uint32 \<times> sim" where
  "sim_read a d =
     (let w = sim_view d
      in if a = SYS_TIMER_CLOCK then (of_nat (sim_time d + 1), d\<lparr>sim_time := sim_time d + 1\<rparr>)
         else if a = EMMC_INTERRUPT then
           (if phase w = Idle then (0, d)
            else if lag w > 0 then (0, d\<lparr>sim_view := w\<lparr>lag := lag w - 1\<rparr>\<rparr>)
            else (ready_bit (phase w), d))
         else if a = EMMC_DATA then
           (case phase w of
              Reading s k \<Rightarrow> (get32 (sectors w s) (4 * k),
                d\<lparr>sim_view := w\<lparr>phase := if k = 127 then Idle else Reading s (Suc k)\<rparr>\<rparr>)
            | _ \<Rightarrow> (0, d))
         else (0, d))"

text \<open>Accepting a command or a block keeps the interrupt register silent for two looks.\<close>

definition sim_write :: "ulong \<Rightarrow> uint32 \<Rightarrow> sim \<Rightarrow> sim" where
  "sim_write a v d =
     (let w = sim_view d
      in if a = EMMC_INTERRUPT then
           (case phase w of
              Read_sent s \<Rightarrow> d\<lparr>sim_view := w\<lparr>phase := Reading s 0, lag := 2\<rparr>\<rparr>
            | Write_sent s \<Rightarrow> d\<lparr>sim_view := w\<lparr>phase := Writing s [], lag := 2\<rparr>\<rparr>
            | Written \<Rightarrow> d\<lparr>sim_view := w\<lparr>phase := Idle\<rparr>\<rparr>
            | _ \<Rightarrow> d)
         else if a = EMMC_ARG1 then d\<lparr>sim_view := w\<lparr>arg1 := v\<rparr>\<rparr>
         else if a = EMMC_CMDTM then
           (if v = CMD_READ_SINGLE then d\<lparr>sim_view := w\<lparr>phase := Read_sent (arg1 w), lag := 2\<rparr>\<rparr>
            else if v = CMD_WRITE_SINGLE then d\<lparr>sim_view := w\<lparr>phase := Write_sent (arg1 w), lag := 2\<rparr>\<rparr> else d)
         else if a = EMMC_DATA then
           (case phase w of
              Writing s ws \<Rightarrow>
                if length ws < 127 then d\<lparr>sim_view := w\<lparr>phase := Writing s (ws @ [v])\<rparr>\<rparr>
                else d\<lparr>sim_view := w\<lparr>phase := Written, lag := 2,
                       sectors := (sectors w)(s := bytes_of_words (ws @ [v]))\<rparr>\<rparr>
            | _ \<Rightarrow> d)
         else d)"

definition sim_device :: "sim device" where
  "sim_device = \<lparr>reg_read = sim_read, reg_write = sim_write\<rparr>"

lemma sim_clock: "clock_runs sim_device sim_time"
  by (simp add: clock_runs_def sim_device_def sim_read_def)

lemma ready_bits: "ready_bit p AND all_faults = 0" "p \<noteq> Idle \<Longrightarrow> ready_bit p \<noteq> 0"
  by (cases p; simp add: all_faults_def INT_ERROR_MASK_def INT_CMD_TIMEOUT_def INT_DATA_TIMEOUT_def INT_CMD_DONE_def
      INT_READ_RDY_def INT_WRITE_RDY_def INT_DATA_DONE_def)+

lemma sim_behaves: "sdhc_behaves sim_device sim_view sim_time"
proof -
  have "legal_read a (sim_view d) (fst (sim_read a d)) (sim_view (snd (sim_read a d)))" for a d
    by (auto simp: legal_read_def sim_read_def Let_def register_defs ready_bits simp del: ready_bit.simps split: sd_phase.split)
  moreover have "legal_write a v (sim_view d) (sim_view (sim_write a v d))" for a v d
    by (auto simp: legal_write_def sim_write_def Let_def register_defs settles_def CMD_READ_SINGLE_def CMD_WRITE_SINGLE_def
        split: sd_phase.split)
  ultimately show ?thesis using sim_clock by (simp add: sdhc_behaves_def sim_device_def)
qed

definition sim_start :: "sim sd_state" where
  "sim_start = \<lparr>dev = \<lparr>sim_view = \<lparr>phase = Idle, lag = 0, arg1 = 0, sectors = (\<lambda>n. replicate 512 (ucast n))\<rparr>, sim_time = 0\<rparr>,
     console = \<lparr>uart_owner = None, uart_buffer = replicate 64 (CHR 0x00), uart_head = 0, uart_tail = 0, rx_fifo = [], tx = [],
       uart_mis = 0, uart_imsc = 0\<rparr>,
     sd_scr0 = SCR_SUPP_CCS, sd_scr1 = 0, sd_rca = 0, sd_err = 0, sd_hv = 2\<rparr>"

lemma sim_start_ready:
  "phase (sim_view (dev sim_start)) = Idle" "ccs sim_start" "length (sectors (sim_view (dev sim_start)) n) = 512"
  by (simp_all add: sim_start_def ccs_def SCR_SUPP_CCS_def)

subsection \<open>Transfers\<close>

text \<open>C37: transfers return. Whatever the controller and the card do, as long as the system timer runs,
  reading and writing blocks come back, with 0 or the full number of bytes, and in the second case
  without a pending error; reading never puts more into the buffer than was asked for.\<close>

theorem sd_transfers_return:
  assumes "clock_runs D now"
  shows "\<exists>r buf t. sd_readblock D lba num s = Some (r, buf, t) \<and> length buf \<le> 128 * unat (max num 1) \<and>
      (r \<noteq> 0 \<longrightarrow> r = max num 1 * 512 \<and> length buf = 128 * unat (max num 1) \<and> sd_err t = 0) \<and>
    (128 * unat (max num 1) \<le> length ws \<longrightarrow>
      (\<exists>r t. sd_writeblock D ws lba num s = Some (r, t) \<and> (r \<noteq> 0 \<longrightarrow> r = max num 1 * 512 \<and> sd_err t = 0)))"
  using sd_readblock_runs [OF assms, of lba num s] sd_writeblock_runs [OF assms, of num ws lba s]
  by (auto simp: runs_def)

theorem sd_transfers_return_witness:
  "\<exists>r buf t. sd_readblock sim_device 7 2 sim_start = Some (r, buf, t) \<and> length buf \<le> 256"
proof -
  have "max (2 :: uint32) 1 = 2" by (simp add: max_def word_le_nat_alt)
  then show ?thesis using sd_transfers_return [OF sim_clock, of 7 2 sim_start "[]"] by auto
qed

text \<open>The disk of the FAT library that a card is.\<close>

definition sd_disk :: "('d \<Rightarrow> card_view) \<Rightarrow> 'd sd_state \<Rightarrow> disk" where
  "sd_disk cv s = \<lparr>blocks = sectors (cv (dev s)), faults = (\<lambda>_. None)\<rparr>"

definition card_ready :: "('d \<Rightarrow> card_view) \<Rightarrow> 'd sd_state \<Rightarrow> bool" where
  "card_ready cv s \<longleftrightarrow> phase (cv (dev s)) = Idle \<and> ccs s \<and> (\<forall>n. length (sectors (cv (dev s)) n) = 512)"

text \<open>C36: the adapters are the disk. With a controller that follows the protocol for single blocks,
  \<^verbatim>\<open>sd_read_adapter\<close> and \<^verbatim>\<open>sd_write_adapter\<close> do to the card what \<open>disk_read\<close> and \<open>disk_write\<close> do to
  the disk the FAT library is modelled on, and leave it ready for the next transfer.\<close>

theorem sd_adapters_refine_disk:
  assumes "sdhc_behaves D cv now" "card_ready cv s" "length buffer = 512"
  shows "(\<exists>b t. sd_read_adapter D buffer n s = Some (True, b, t) \<and> card_ready cv t \<and>
      disk_read n (sd_disk cv s) = (True, b, sd_disk cv t)) \<and>
    (\<exists>t. sd_write_adapter D buffer n s = Some (True, t) \<and> card_ready cv t \<and>
      disk_write buffer n (sd_disk cv s) = (True, sd_disk cv t))"
proof -
  have ready: "phase (cv (dev s)) = Idle" "ccs s" "length (sectors (cv (dev s)) n) = 512"
    "\<forall>n. length (sectors (cv (dev s)) n) = 512"
    using assms(2) by (simp_all add: card_ready_def)
  from sd_readblock_ok [OF assms(1) ready(1-3)] obtain buf t where
    r: "sd_readblock D n 1 s = Some (512, buf, t)" "bytes_of_words buf = sectors (cv (dev s)) n" "length buf = 128"
      "same_card s t" "phase (cv (dev t)) = Idle" "sectors (cv (dev t)) = sectors (cv (dev s))"
    by (auto simp: runs_def)
  have "length (words_of_bytes buffer) = 128" "bytes_of_words (words_of_bytes buffer) = buffer"
    using assms(3) bytes_words_round_trip [of buffer 128] by (simp_all add: words_of_bytes_def)
  with sd_writeblock_ok [OF assms(1) ready(1,2)] obtain u where
    w: "sd_writeblock D (words_of_bytes buffer) n 1 s = Some (512, u)" "same_card s u" "phase (cv (dev u)) = Idle"
      "sectors (cv (dev u)) = (sectors (cv (dev s)))(n := buffer)"
    by (fastforce simp: runs_def)
  have "sd_read_adapter D buffer n s = Some (True, sectors (cv (dev s)) n, t)"
    using r(1-3) assms(3) by (simp add: sd_read_adapter_def)
  moreover have "card_ready cv t" using r(4-6) ready(2,4) same_card_flags(1) [OF r(4)] by (simp add: card_ready_def)
  moreover have "sd_write_adapter D buffer n s = Some (True, u)" using w(1) by (simp add: sd_write_adapter_def)
  moreover have "card_ready cv u" using w(3,4) ready(2,4) same_card_flags(1) [OF w(2)] assms(3) by (simp add: card_ready_def)
  ultimately show ?thesis
    using r(6) w(4) by (simp add: disk_read_def disk_write_def sd_disk_def)
qed

theorem sd_adapters_refine_disk_witness:
  "\<exists>t. sd_read_adapter sim_device (replicate 512 0) 7 sim_start = Some (True, replicate 512 7, t)"
proof -
  have "card_ready sim_view sim_start" using sim_start_ready by (simp add: card_ready_def)
  from sd_adapters_refine_disk [OF sim_behaves this, of "replicate 512 0" 7] show ?thesis
    by (auto simp: disk_read_def sd_disk_def sim_start_def)
qed

subsection \<open>The clock\<close>

lemma high_bits_zero:
  fixes x :: uint32
  assumes "n < 32"
  shows "x AND NOT (mask n) = 0 \<longleftrightarrow> unat x < 2 ^ n"
proof -
  have "x AND NOT (mask n) = 0 \<longleftrightarrow> take_bit n x = x"
    unfolding bit_eq_iff by (auto simp: bit_simps)
  also have "\<dots> \<longleftrightarrow> unat (take_bit n x) = unat x" by (simp add: unsigned_word_eqI [of "take_bit n x" x] word_unat_eq_iff)
  also have "\<dots> \<longleftrightarrow> unat x < 2 ^ n" using assms by (simp add: unsigned_take_bit_eq take_bit_nat_eq_self_iff)
  finally show ?thesis .
qed

text \<open>One step of the normalisation, for a number of \<open>b\<close> bits that has been shifted by \<open>32 - s\<close>.\<close>

lemma norm_step_exact:
  assumes "2 ^ (b - 1) \<le> unat x" "unat x < 2 ^ b" "0 < b" "b \<le> s" "s \<le> 32" "k < 32" "0 < k"
  shows "norm_step (NOT (mask (32 - k)), k) (push_bit (32 - s) x, s) =
    (if b + k \<le> s then (push_bit (32 - (s - k)) x, s - k) else (push_bit (32 - s) x, s))"
proof -
  have "unat (push_bit (32 - s) x) = unat x * 2 ^ (32 - s)"
  proof -
    have "unat x * 2 ^ (32 - s) < 2 ^ b * 2 ^ (32 - s)" using assms(2) by simp
    also have "\<dots> = 2 ^ (b + (32 - s))" by (simp add: power_add)
    also have "\<dots> \<le> 2 ^ 32" using assms(4,5) by (intro power_increasing) simp_all
    finally show ?thesis by (simp only: unsigned_push_bit_eq) (simp add: push_bit_eq_mult take_bit_nat_eq_self)
  qed
  moreover have "unat x * 2 ^ (32 - s) < 2 ^ (32 - k) \<longleftrightarrow> b + k \<le> s"
  proof
    assume "b + k \<le> s"
    have "unat x * 2 ^ (32 - s) < 2 ^ b * 2 ^ (32 - s)" using assms(2) by simp
    also have "\<dots> = 2 ^ (b + (32 - s))" by (simp add: power_add)
    also have "\<dots> \<le> 2 ^ (32 - k)" using \<open>b + k \<le> s\<close> assms(5) by (intro power_increasing) simp_all
    finally show "unat x * 2 ^ (32 - s) < 2 ^ (32 - k)" .
  next
    assume lt: "unat x * 2 ^ (32 - s) < 2 ^ (32 - k)"
    have "(2 :: nat) ^ (b - 1 + (32 - s)) = 2 ^ (b - 1) * 2 ^ (32 - s)" by (simp add: power_add)
    also have "\<dots> \<le> unat x * 2 ^ (32 - s)" using assms(1) by simp
    finally have "(2 :: nat) ^ (b - 1 + (32 - s)) < 2 ^ (32 - k)" using lt by (rule le_less_trans)
    then have "b - 1 + (32 - s) < 32 - k" by (rule power_less_imp_less_exp [rotated]) simp
    then show "b + k \<le> s" using assms(3-6) by linarith
  qed
  ultimately have "push_bit (32 - s) x AND NOT (mask (32 - k)) = 0 \<longleftrightarrow> b + k \<le> s"
    using high_bits_zero [of "32 - k" "push_bit (32 - s) x"] assms(7) by simp
  then show ?thesis using assms(4,5) by (simp add: norm_step_def push_bit_push_bit add.commute [of k])
qed

text \<open>All five steps find the number of bits.\<close>

lemma clock_shift_exact:
  assumes "2 ^ k \<le> unat x" "unat x < 2 ^ Suc k"
  shows "clock_shift x = min 7 k"
proof -
  let ?b = "Suc k"
  have "unat x < 2 ^ 32" using unsigned_less [of x] by simp
  with assms(1) have "(2 :: nat) ^ k < 2 ^ 32" by (rule le_less_trans)
  then have "k < 32" by (rule power_less_imp_less_exp [rotated]) simp
  then have b: "2 ^ (?b - 1) \<le> unat x" "0 < ?b" "?b \<le> 32" using assms(1) by simp_all
  have masks: "0xffff0000 = NOT (mask (32 - 16) :: uint32)" "0xff000000 = NOT (mask (32 - 8) :: uint32)"
    "0xf0000000 = NOT (mask (32 - 4) :: uint32)" "0xc0000000 = NOT (mask (32 - 2) :: uint32)"
    "0x80000000 = NOT (mask (32 - 1) :: uint32)"
    by (simp_all add: mask_numeral mask_eq_exp_minus_1)
  have step: "norm_step (NOT (mask (32 - j)), j) (push_bit (32 - s) x, s) =
      (if ?b + j \<le> s then (push_bit (32 - (s - j)) x, s - j) else (push_bit (32 - s) x, s))"
    if "?b \<le> s" "s \<le> 32" "j < 32" "0 < j" for j s
    by (rule norm_step_exact [OF b(1) assms(2) b(2) that])
  define f where "f = (\<lambda>j s. if ?b + j \<le> s then s - j else s)"
  have f: "norm_step (NOT (mask (32 - j)), j) (push_bit (32 - s) x, s) = (push_bit (32 - f j s) x, f j s) \<and>
      ?b \<le> f j s \<and> f j s \<le> 32"
    if "?b \<le> s" "s \<le> 32" "j < 32" "0 < j" for j s
    using step [OF that] that by (auto simp: f_def)
  note f1 = f [of 32 16] 
  note f2 = f [of "f 16 32" 8]
  note f3 = f [of "f 8 (f 16 32)" 4]
  note f4 = f [of "f 4 (f 8 (f 16 32))" 2]
  note f5 = f [of "f 2 (f 4 (f 8 (f 16 32)))" 1]
  have "snd (fold norm_step [(0xffff0000, 16), (0xff000000, 8), (0xf0000000, 4), (0xc0000000, 2), (0x80000000, 1)] (x, 32)) =
      f 1 (f 2 (f 4 (f 8 (f 16 32))))"
    using b(3) f1 f2 f3 f4 f5 unfolding masks by simp
  moreover have "f 1 (f 2 (f 4 (f 8 (f 16 32)))) = ?b" using b(3) by (simp add: f_def)
  moreover have "x \<noteq> 0" using assms(1) by auto
  ultimately show ?thesis by (simp add: clock_shift_def case_prod_beta Let_def)
qed

lemma power_below:
  assumes "0 < (n :: nat)"
  shows "\<exists>k. 2 ^ k \<le> n \<and> n < 2 ^ Suc k"
  using assms
proof (induction n rule: less_induct)
  case (less n)
  show ?case
  proof (cases "n = 1")
    case False
    then have "0 < n div 2" "n div 2 < n" using less.prems by simp_all
    from less.IH [OF this(2,1)] obtain k where "2 ^ k \<le> n div 2" "n div 2 < 2 ^ Suc k" by blast
    then have "2 ^ Suc k \<le> n" "n < 2 ^ Suc (Suc k)" by simp_all
    then show ?thesis by blast
  qed (auto intro: exI [of _ 0])
qed

text \<open>The clock of the card. On a host controller of version 1 or 2 the divider \<open>sd_set_clock\<close> computes
  for a quotient \<^verbatim>\<open>c\<close> is a power of two, at least 2; up to 256 the clock, which runs at the base
  frequency divided by twice the divider, is not faster than asked for, and above 2 the divider is less
  than \<^verbatim>\<open>c\<close>, so the clock is slower by less than the factor two. Newer controllers get \<^verbatim>\<open>c\<close> itself.\<close>

lemma clock_divider_bounds:
  assumes "0 < c"
  shows "if hv > HOST_SPEC_V2 then clock_divider hv c = max 2 c
    else (\<exists>k. clock_divider hv c = 2 ^ k) \<and> 2 \<le> unat (clock_divider hv c) \<and>
      (unat c \<le> 256 \<longrightarrow> unat c \<le> 2 * unat (clock_divider hv c)) \<and>
      (2 < unat (clock_divider hv c) \<longrightarrow> unat (clock_divider hv c) < unat c)"
proof (cases "hv > HOST_SPEC_V2")
  case True
  then show ?thesis using linear [of c 2] by (auto simp: clock_divider_def max_def)
next
  case False
  define s where "s = clock_shift (c - 1)"
  have p: "0 < unat c" using assms by (simp add: word_less_nat_alt)
  then have "1 \<le> c" by (simp add: word_le_nat_alt)
  then have c: "unat (c - 1) = unat c - 1" "0 < unat c" using p by (simp_all add: unat_sub)
  have s: "s \<le> 7" "unat c \<le> 256 \<longrightarrow> unat c \<le> 2 * 2 ^ s" "0 < s \<longrightarrow> 2 ^ s < unat c"
  proof -
    consider "unat c = 1" | "0 < unat (c - 1)" using c by linarith
    then show "s \<le> 7" "unat c \<le> 256 \<longrightarrow> unat c \<le> 2 * 2 ^ s" "0 < s \<longrightarrow> 2 ^ s < unat c"
    proof (atomize (full), cases)
      case 1
      then have "c - 1 = 0" using c(1) by (simp add: unat_eq_0 [symmetric])
      then show "s \<le> 7 \<and> (unat c \<le> 256 \<longrightarrow> unat c \<le> 2 * 2 ^ s) \<and> (0 < s \<longrightarrow> 2 ^ s < unat c)"
        using 1 by (simp add: s_def clock_shift_def)
    next
      case 2
      from power_below [OF 2] obtain k where k: "2 ^ k \<le> unat (c - 1)" "unat (c - 1) < 2 ^ Suc k" by blast
      have "s = min 7 k" unfolding s_def by (rule clock_shift_exact [OF k])
      moreover have "(2 :: nat) ^ min 7 k \<le> 2 ^ k" by (intro power_increasing) simp_all
      then have "2 ^ min 7 k < unat c" using k(1) c by linarith
      moreover have "unat c \<le> 256 \<Longrightarrow> unat c \<le> 2 * 2 ^ min 7 k"
        using k(2) c by (cases "k \<le> 7") (simp_all add: min_def)
      ultimately show "s \<le> 7 \<and> (unat c \<le> 256 \<longrightarrow> unat c \<le> 2 * 2 ^ s) \<and> (0 < s \<longrightarrow> 2 ^ s < unat c)"
        using k(1) c by auto
    qed
  qed
  have u: "unat (push_bit s 1 :: uint32) = 2 ^ s" using s(1)
    by (simp only: unsigned_push_bit_eq) (simp add: push_bit_eq_mult take_bit_nat_eq_self power_increasing [of s 31 2, simplified])
  have d: "clock_divider hv c = (if unat (push_bit s 1 :: uint32) \<le> 2 then 2 else push_bit s 1)"
    using False by (simp add: clock_divider_def s_def word_le_nat_alt)
  show ?thesis
  proof (cases "s \<le> 1")
    case True
    then have "(2 :: nat) ^ s \<le> 2" by (cases s) simp_all
    then have "clock_divider hv c = 2 ^ 1" using d u by simp
    moreover have "unat c \<le> 256 \<longrightarrow> unat c \<le> 2 * 2" using s(2) \<open>2 ^ s \<le> 2\<close> by linarith
    ultimately show ?thesis using False by (simp add: exI [of _ 1])
  next
    case b: False
    then have "(2 :: nat) ^ 1 < 2 ^ s" by (intro power_strict_increasing) simp_all
    then have "clock_divider hv c = 2 ^ s" "unat (clock_divider hv c) = 2 ^ s" using d u by (simp_all add: push_bit_eq_mult)
    then show ?thesis using False s(2,3) b \<open>(2 :: nat) ^ 1 < 2 ^ s\<close> by auto
  qed
qed

subsection \<open>A card that never answers\<close>

text \<open>\<open>sd_init\<close> can wait for ever. Its loop for the configuration register counts no tries: with a
  controller that never has data, in a set \<open>P\<close> of states that looking at the status and at the timer
  does not leave, the loop does not return.\<close>

lemma scr_loop_never_returns:
  assumes "P (dev s)" "n < 2"
    and silent: "\<And>d. P d \<Longrightarrow> fst (reg_read D EMMC_STATUS d) AND SR_READ_AVAILABLE = 0 \<and> P (snd (reg_read D EMMC_STATUS d))"
    and timer: "\<And>d. P d \<Longrightarrow> P (snd (reg_read D SYS_TIMER_CLOCK d))"
  shows "scr_loop D n s = None"
proof (rule ccontr)
  assume "scr_loop D n s \<noteq> None"
  then obtain t where "scr_loop D n s = Some t" by blast
  then have "D = D \<longrightarrow> n < 2 \<longrightarrow> P (dev s) \<longrightarrow> False"
  proof (rule scr_loop.raw_induct [where P = "\<lambda>D1 n s t. D1 = D \<longrightarrow> n < 2 \<longrightarrow> P (dev s) \<longrightarrow> False", rotated])
    fix rec D1 n s t
    assume IH: "\<And>D1 n s t. rec D1 n s = Some t \<Longrightarrow> D1 = D \<longrightarrow> n < 2 \<longrightarrow> P (dev s) \<longrightarrow> False"
      and body: "(if n < 2 then
        let (st, s1) = get_reg D1 EMMC_STATUS s
        in if st AND SR_READ_AVAILABLE \<noteq> 0 then
             let (v, s2) = get_reg D1 EMMC_DATA s1
             in rec D1 (n + 1) (if n = 0 then s2\<lparr>sd_scr0 := ucast v\<rparr> else s2\<lparr>sd_scr1 := ucast v\<rparr>)
           else do { s2 \<leftarrow> pause D1 1 s1; rec D1 n s2 }
      else Some s) = Some t"
    show "D1 = D \<longrightarrow> n < 2 \<longrightarrow> P (dev s) \<longrightarrow> False"
    proof (intro impI)
      assume h: "D1 = D" "n < 2" "P (dev s)"
      obtain st d where r: "reg_read D EMMC_STATUS (dev s) = (st, d)" by fastforce
      have "st AND SR_READ_AVAILABLE = 0" "P d" using silent [OF h(3)] r by simp_all
      with body h r obtain e where e: "wait_msec D 1 d = Some e" "rec D n (s\<lparr>dev := e\<rparr>) = Some t"
        by (auto simp: get_reg_def pause_def bind_eq_Some_conv)
      have "P e" by (rule wait_msec_keeps [OF e(1) \<open>P d\<close> timer])
      then show False using IH [OF e(2)] h by simp
    qed
  qed
  then show False using assms(1,2) by blast
qed

end
