(* ===== verification/User_Calls.thy ===== *)
theory User_Calls
  imports CString File_Syscalls
begin

text \<open>
  The system calls as user programs see them, \<^verbatim>\<open>common/user_syscalls.h\<close>: the programs are functions of a
  record \<open>calls\<close> of what each call does to the state \<open>'s\<close> of the rest of the system. A \<^verbatim>\<open>char*\<close> is the
  list of the characters from there to the end of the object. A call without a defined result is \<open>None\<close>;
  exiting, and replacing the program, do not return to the caller.
\<close>

datatype 'a outcome = Returns 'a | Gone

record 's calls =
  call_syscall_write :: "char list \<Rightarrow> 's \<Rightarrow> 's option"
  call_syscall_write_hex :: "int \<Rightarrow> 's \<Rightarrow> 's option"
  call_syscall_input :: "char list \<Rightarrow> int \<Rightarrow> 's \<Rightarrow> (char list \<times> 's) option"
  call_syscall_create_dir :: "char list \<Rightarrow> 's \<Rightarrow> (int \<times> 's) option"
  call_syscall_open_dir :: "char list \<Rightarrow> 's \<Rightarrow> (int \<times> 's) option"
  call_syscall_open_file :: "char list \<Rightarrow> byte \<Rightarrow> 's \<Rightarrow> (int \<times> 's) option"
  call_syscall_close_file :: "int \<Rightarrow> 's \<Rightarrow> (int \<times> 's) option"
  call_syscall_write_file :: "int \<Rightarrow> char list \<Rightarrow> int \<Rightarrow> 's \<Rightarrow> (int \<times> 's) option"
  call_syscall_read_file :: "int \<Rightarrow> char list \<Rightarrow> int \<Rightarrow> 's \<Rightarrow> (int \<times> char list \<times> 's) option"
  call_syscall_get_next_entry :: "int \<Rightarrow> FatEntryInfo \<Rightarrow> 's \<Rightarrow> (int \<times> FatEntryInfo \<times> 's) option"
  call_syscall_exit :: "'s \<Rightarrow> 's option"
  call_syscall_fork :: "'s \<Rightarrow> (int \<times> 's) option"
  call_syscall_yield :: "'s \<Rightarrow> 's option"
  call_syscall_exec :: "char list \<Rightarrow> int \<Rightarrow> char list \<Rightarrow> 's \<Rightarrow> (int outcome \<times> 's) option"
  call_syscall_wait :: "int \<Rightarrow> 's \<Rightarrow> (int \<times> 's) option"
  call_syscall_send_message :: "int \<Rightarrow> char list \<Rightarrow> 's \<Rightarrow> (int \<times> 's) option"
  call_syscall_receive_message :: "char list \<Rightarrow> 's \<Rightarrow> (char list \<times> 's) option"
  call_syscall_send_signal :: "int \<Rightarrow> int \<Rightarrow> 's \<Rightarrow> (int \<times> 's) option"
  call_syscall_set_sched_param :: "int \<Rightarrow> int \<Rightarrow> int \<Rightarrow> 's \<Rightarrow> (int \<times> 's) option"
  call_syscall_get_time :: "'s \<Rightarrow> (ulong \<times> 's) option"

text \<open>A string literal, and writing several one after the other.\<close>

definition lit :: "char list \<Rightarrow> char list" where "lit t = t @ [NUL]"

definition write_all :: "'s calls \<Rightarrow> char list list \<Rightarrow> 's \<Rightarrow> 's option" where
  "write_all C ts s = foldM (call_syscall_write C) ts s"

abbreviation newline :: "char list" where "newline \<equiv> [CHR 0x0A]"

text \<open>The end of a process.\<close>

definition exit_now :: "'s calls \<Rightarrow> 's \<Rightarrow> ('a outcome \<times> 's) option" where
  "exit_now C s = do { s1 \<leftarrow> call_syscall_exit C s; Some (Gone, s1) }"

subsection \<open>Memory\<close>

text \<open>\<^verbatim>\<open>memzero\<close>, \<^verbatim>\<open>memcpy\<close> and \<^verbatim>\<open>memcmp\<close> of \<^verbatim>\<open>common/memory.S\<close> on arrays of characters. \<^verbatim>\<open>memzero\<close> writes
  eight bytes at a time and \<^verbatim>\<open>memcpy\<close> at least one.\<close>

definition memzero_chars :: "char list \<Rightarrow> int \<Rightarrow> char list option" where
  "memzero_chars a n =
     (let k = nat (8 * max 1 ((n + 7) div 8))
      in if k \<le> length a then Some (replicate k NUL @ drop k a) else None)"

definition memcpy_chars :: "char list \<Rightarrow> char list \<Rightarrow> int \<Rightarrow> char list option" where
  "memcpy_chars dest src n =
     (let k = nat (max 1 n)
      in if k \<le> length src \<and> k \<le> length dest then Some (take k src @ drop k dest) else None)"

fun memcmp :: "char list \<Rightarrow> char list \<Rightarrow> nat \<Rightarrow> int option" where
  "memcmp a b 0 = Some 0"
| "memcmp (x # a) (y # b) (Suc n) =
     (if x \<noteq> y then Some (int (of_char x) - int (of_char y)) else memcmp a b n)"
| "memcmp _ _ (Suc n) = None"

lemma memcmp_zero:
  assumes "n \<le> length a" "n \<le> length b"
  shows "\<exists>r. memcmp a b n = Some r \<and> (r = 0 \<longleftrightarrow> take n a = take n b)"
  using assms
proof (induction a b n rule: memcmp.induct)
  case (2 x a y b n)
  have "(of_char x :: nat) = of_char y \<longleftrightarrow> x = y" by (rule of_char_eq_iff)
  then show ?case using 2 by auto
qed auto

end
