(* ===== verification/Shell_Path.thy ===== *)
theory Shell_Path
  imports CString
begin

text \<open>
  \<^verbatim>\<open>normalize_path\<close> of \<^verbatim>\<open>app/shell.c\<close>, which removes the components \<^verbatim>\<open>.\<close> and \<^verbatim>\<open>..\<close> of a path in place.
  The loop over the array is refined in two steps: to a function on the text, and to a resolution of
  the list of components.
\<close>

subsection \<open>The code\<close>

text \<open>How many characters a \<^verbatim>\<open>.\<close> at \<open>i\<close> and how many a \<^verbatim>\<open>..\<close> takes, with the slash after it, or 0.\<close>

definition dot_at :: "char list \<Rightarrow> nat \<Rightarrow> nat option" where
  "dot_at path i = do {
     c \<leftarrow> array_get path (int i);
     if c \<noteq> CHR ''.'' then Some 0
     else do { d \<leftarrow> array_get path (int i + 1); Some (if d = CHR ''/'' then 2 else if d = NUL then 1 else 0) }
   }"

definition dotdot_at :: "char list \<Rightarrow> nat \<Rightarrow> nat option" where
  "dotdot_at path i = do {
     c \<leftarrow> array_get path (int i);
     if c \<noteq> CHR ''.'' then Some 0
     else do {
       d \<leftarrow> array_get path (int i + 1);
       if d \<noteq> CHR ''.'' then Some 0
       else do { e \<leftarrow> array_get path (int i + 2); Some (if e = CHR ''/'' then 3 else if e = NUL then 2 else 0) }
     }
   }"

text \<open>Going back to the slash before \<open>write\<close>.\<close>

function back_to_slash :: "char list \<Rightarrow> int \<Rightarrow> int option" where
  "back_to_slash path write =
     (if write > 0 then do {
        c \<leftarrow> array_get path (write - 1);
        if c \<noteq> CHR ''/'' then back_to_slash path (write - 1) else Some write
      } else Some write)"
  by pat_completeness auto

termination by (relation "measure (\<lambda>(path, write). nat write)") auto

declare back_to_slash.simps [simp del]

function normalize_loop :: "char list \<Rightarrow> nat \<Rightarrow> int \<Rightarrow> (char list \<times> int) option" where
  "normalize_loop path read write = do {
     c \<leftarrow> array_get path (int read);
     if c = NUL then Some (path, write)
     else do {
       skip \<leftarrow> dot_at path read;
       if skip \<noteq> 0 then normalize_loop path (read + skip) write
       else do {
         up \<leftarrow> dotdot_at path read;
         if up \<noteq> 0 then do { w \<leftarrow> back_to_slash path (write - 1); normalize_loop path (read + up) w }
         else do { path' \<leftarrow> array_set path write c; normalize_loop path' (read + 1) (write + 1) }
       }
     }
   }"
  by pat_completeness auto

termination
  by (relation "measure (\<lambda>(path, read, write). length path - read)") (auto simp: array_simps)

declare normalize_loop.simps [simp del]

definition normalize_path :: "char list \<Rightarrow> char list option" where
  "normalize_path path = do {
     (p, write) \<leftarrow> normalize_loop path 0 0;
     p1 \<leftarrow> array_set p write NUL;
     if write = 0 then do { p2 \<leftarrow> array_set p1 write (CHR ''/''); array_set p2 (write + 1) NUL } else Some p1
   }"

subsection \<open>On texts\<close>

text \<open>The text written so far and the rest of the array; \<open>None\<close> once a write would be in front of the array.\<close>

definition parent :: "char list \<Rightarrow> char list" where
  "parent out = rev (dropWhile (\<lambda>c. c \<noteq> CHR ''/'') (rev (butlast out)))"

definition dots :: "char list \<Rightarrow> nat" where
  "dots cs =
     (case cs of
        c # d # _ \<Rightarrow> if c = CHR ''.'' \<and> d = CHR ''/'' then 2 else if c = CHR ''.'' \<and> d = NUL then 1 else 0
      | _ \<Rightarrow> 0)"

definition dotdots :: "char list \<Rightarrow> nat" where
  "dotdots cs =
     (case cs of
        c # d # e # _ \<Rightarrow>
          if c = CHR ''.'' \<and> d = CHR ''.'' \<and> e = CHR ''/'' then 3
          else if c = CHR ''.'' \<and> d = CHR ''.'' \<and> e = NUL then 2 else 0
      | _ \<Rightarrow> 0)"

function norm :: "char list \<Rightarrow> char list \<Rightarrow> char list option" where
  "norm out [] = None"
| "norm out (c # cs) =
     (if c = NUL then Some out
      else if dots (c # cs) \<noteq> 0 then norm out (drop (dots (c # cs)) (c # cs))
      else if dotdots (c # cs) \<noteq> 0
      then if out = [] then None else norm (parent out) (drop (dotdots (c # cs)) (c # cs))
      else norm (out @ [c]) cs)"
  by pat_completeness auto

termination by (relation "measure (\<lambda>(out, rest). length rest)") auto

declare norm.simps(2) [simp del]

lemma get_drop: "array_get xs (int i) = (case drop i xs of [] \<Rightarrow> None | c # _ \<Rightarrow> Some c)"
  by (cases "i < length xs") (auto simp: array_get_def Cons_nth_drop_Suc [symmetric])

lemma get_drop_1: "array_get xs (int i + 1) = (case drop i xs of _ # c # _ \<Rightarrow> Some c | _ \<Rightarrow> None)"
  using get_drop [of xs "Suc i"] by (cases "drop i xs") (auto simp: drop_Suc drop_tl tl_drop add.commute split: list.splits)

lemma get_drop_2: "array_get xs (int i + 2) = (case drop i xs of _ # _ # c # _ \<Rightarrow> Some c | _ \<Rightarrow> None)"
  using get_drop [of xs "Suc (Suc i)"]
  by (cases "drop i xs") (auto simp: drop_Suc drop_tl tl_drop add.commute numeral_2_eq_2 split: list.splits)

lemma dot_at_dots: "terminated (drop i path) \<Longrightarrow> dot_at path i = Some (dots (drop i path))"
  by (auto simp: dot_at_def dots_def get_drop get_drop_1 split: list.splits)

lemma dotdot_at_dotdots: "terminated (drop i path) \<Longrightarrow> dotdot_at path i = Some (dotdots (drop i path))"
  by (auto simp: dotdot_at_def dotdots_def get_drop get_drop_1 get_drop_2 split: list.splits)

lemma dots_le: "dots cs \<le> length cs" "dotdots cs \<le> length cs"
  by (auto simp: dots_def dotdots_def split: list.splits)

lemma terminated_after:
  "terminated cs \<Longrightarrow> terminated (drop (dots cs) cs)" "terminated cs \<Longrightarrow> terminated (drop (dotdots cs) cs)"
  by (auto simp: dots_def dotdots_def split: list.splits)

text \<open>Going back.\<close>

definition to_slash :: "char list \<Rightarrow> char list" where
  "to_slash xs = rev (dropWhile (\<lambda>c. c \<noteq> CHR ''/'') (rev xs))"

lemma to_slash_snoc [simp]: "to_slash [] = []" "to_slash (xs @ [c]) = (if c = CHR ''/'' then xs @ [c] else to_slash xs)"
  by (simp_all add: to_slash_def)

lemma to_slash_length: "length (to_slash xs) \<le> length xs"
  unfolding to_slash_def by (metis length_dropWhile_le length_rev)

lemma to_slash_prefix: "to_slash xs = take (length (to_slash xs)) xs"
proof (induction xs rule: rev_induct)
  case (snoc c xs)
  then show ?case using to_slash_length [of xs] by auto
qed simp

lemma parent_to_slash: "parent out = to_slash (butlast out)"
  by (simp add: parent_def to_slash_def)

lemma back_to_slash_exact:
  "n \<le> length path \<Longrightarrow> back_to_slash path (int n) = Some (int (length (to_slash (take n path))))"
proof (induction n)
  case (Suc n)
  then show ?case
    by (subst back_to_slash.simps) (auto simp: take_Suc_conv_app_nth array_get_def)
qed (simp add: back_to_slash.simps)

text \<open>In front of the array nothing is written any more.\<close>

lemma normalize_loop_negative:
  "w0 < 0 \<Longrightarrow> normalize_loop path read w0 = Some (p, w) \<Longrightarrow> w < 0"
proof (induction path read w0 rule: normalize_loop.induct)
  case (1 path read w0)
  have bk: "back_to_slash path (w0 - 1) = Some (w0 - 1)" using 1(4) by (simp add: back_to_slash.simps)
  note r = 1(5) [unfolded normalize_loop.simps [of path read w0]]
  from r obtain c where c: "array_get path (int read) = Some c" by (auto simp: bind_eq_Some_conv)
  show ?case
  proof (cases "c = NUL")
    case False
    with r c obtain skip where skip: "dot_at path read = Some skip" by (auto simp: bind_eq_Some_conv)
    show ?thesis
    proof (cases "skip = 0")
      case skip0: False
      with r c False skip have "normalize_loop path (read + skip) w0 = Some (p, w)" by simp
      with 1(1) [OF c False skip skip0 1(4)] show ?thesis by simp
    next
      case True
      with r c False skip obtain up where up: "dotdot_at path read = Some up" by (auto simp: bind_eq_Some_conv)
      show ?thesis
      proof (cases "up = 0")
        case up0: False
        with r c False skip True up bk have "normalize_loop path (read + up) (w0 - 1) = Some (p, w)" by simp
        with 1(2) [OF c False skip _ up up0 bk] 1(4) True show ?thesis by simp
      qed (use r c False skip True up 1(4) in \<open>simp add: array_set_def\<close>)
    qed
  qed (use r c 1(4) in simp)
qed

text \<open>The loop computes \<open>norm\<close>.\<close>

lemma normalize_loop_norm:
  assumes "terminated (drop read path)" "length out \<le> read" "take (length out) path = out"
  shows "case norm out (drop read path) of
      Some o' \<Rightarrow> \<exists>p. normalize_loop path read (int (length out)) = Some (p, int (length o')) \<and>
        length p = length path \<and> length o' < length path \<and> take (length o') p = o'
    | None \<Rightarrow> \<forall>p w. normalize_loop path read (int (length out)) = Some (p, w) \<longrightarrow> w < 0"
  using assms
proof (induction out "drop read path" arbitrary: path read rule: norm.induct)
  case (1 out)
  then show ?case by simp
next
  case (2 out c cs)
  have len: "read < length path" using 2(4) by (metis drop_all leI list.distinct(1))
  have c: "array_get path (int read) = Some c" by (simp add: get_drop 2(4) [symmetric])
  have cs: "cs = drop (Suc read) path" using 2(4) by (metis drop_Suc list.sel(3) tl_drop)
  have t: "terminated (c # cs)" using 2(4,5) by simp
  have d: "dot_at path read = Some (dots (c # cs))" "dotdot_at path read = Some (dotdots (c # cs))"
    using dot_at_dots [of read path] dotdot_at_dotdots [of read path] 2(4,5) by simp_all
  have skip: "drop n (c # cs) = drop (read + n) path" for n using 2(4) by (simp add: add.commute)
  consider "c = NUL" | "c \<noteq> NUL" "dots (c # cs) \<noteq> 0"
    | "c \<noteq> NUL" "dots (c # cs) = 0" "dotdots (c # cs) \<noteq> 0" | "c \<noteq> NUL" "dots (c # cs) = 0" "dotdots (c # cs) = 0" by blast
  then show ?case
  proof cases
    case 1
    then show ?thesis using 2(4-7) len
      by (subst normalize_loop.simps) (simp add: norm.simps(2) c 2(4) [symmetric])
  next
    case b: 2
    have "normalize_loop path read (int (length out)) = normalize_loop path (read + dots (c # cs)) (int (length out))"
      by (subst normalize_loop.simps) (simp add: b c d)
    moreover have "norm out (drop read path) = norm out (drop (read + dots (c # cs)) path)"
      unfolding 2(4) [symmetric] by (simp add: norm.simps(2) b skip)
    ultimately show ?thesis using 2(1) [OF b skip] terminated_after(1) [OF t] 2(6,7)
      by (simp only: skip)
  next
    case b: 3
    show ?thesis
    proof (cases "out = []")
      case True
      have "back_to_slash path (-1) = Some (-1)" by (simp add: back_to_slash.simps)
      then have "normalize_loop path read (int (length out)) = normalize_loop path (read + dotdots (c # cs)) (- 1)"
        by (subst normalize_loop.simps) (simp add: b c d True)
      moreover have "norm out (drop read path) = None" unfolding 2(4) [symmetric] by (simp add: norm.simps(2) b True)
      ultimately show ?thesis using normalize_loop_negative [of "-1"] by auto
    next
      case False
      have "butlast out = take (length out - 1) path" using 2(7) by (metis butlast_take diff_le_self le_trans length_take min_def nat_le_linear)
      then have bk: "back_to_slash path (int (length out) - 1) = Some (int (length (parent out)))"
        using back_to_slash_exact [of "length out - 1" path] len 2(6) False
        by (simp add: parent_to_slash of_nat_diff Suc_le_eq)
      have "length (parent out) \<le> length (butlast out)" unfolding parent_to_slash by (rule to_slash_length)
      then have le: "length (parent out) \<le> read + dotdots (c # cs)" using 2(6) by simp
      have "take (length (parent out)) path = take (length (parent out)) (take (length out - 1) path)"
        using \<open>length (parent out) \<le> length (butlast out)\<close> by (simp add: min_def)
      also have "\<dots> = parent out"
        unfolding \<open>butlast out = take (length out - 1) path\<close> [symmetric] parent_to_slash by (rule to_slash_prefix [symmetric])
      finally have pre: "take (length (parent out)) path = parent out" .
      have "normalize_loop path read (int (length out)) = normalize_loop path (read + dotdots (c # cs)) (int (length (parent out)))"
        by (subst normalize_loop.simps) (simp add: b c d bk)
      moreover have "norm out (drop read path) = norm (parent out) (drop (read + dotdots (c # cs)) path)"
        unfolding 2(4) [symmetric] by (simp add: norm.simps(2) b skip False)
      ultimately show ?thesis using 2(2) [OF b(1) _ b(3) False skip] b(2) le pre terminated_after(2) [OF t]
        by (simp only: skip)
    qed
  next
    case b: 4
    define path' where "path' = path[length out := c]"
    have set: "array_set path (int (length out)) c = Some path'" using len 2(6) by (simp add: array_set_def path'_def)
    have cs': "cs = drop (Suc read) path'" using cs 2(6) by (simp add: path'_def)
    have e1: "normalize_loop path read (int (length out)) = normalize_loop path' (Suc read) (int (length (out @ [c])))"
      by (subst normalize_loop.simps) (simp add: b c d set add.commute)
    have e2: "norm out (drop read path) = norm (out @ [c]) (drop (Suc read) path')"
      unfolding 2(4) [symmetric] cs' [symmetric] by (simp add: norm.simps(2) b)
    have e3: "take (length (out @ [c])) path' = out @ [c]" "length path' = length path"
      using 2(6,7) len by (simp_all add: path'_def take_Suc_conv_app_nth)
    have "terminated (drop (Suc read) path')" using t b(1) cs' by simp
    then show ?thesis unfolding e1 e2 using 2(3) [OF b(1) _ _ cs'] b 2(6) e3(1) unfolding e3(2) by simp
  qed
qed

lemma norm_no_NUL: "norm out rest = Some o' \<Longrightarrow> NUL \<notin> set out \<Longrightarrow> NUL \<notin> set o'"
proof (induction out rest rule: norm.induct)
  case (2 out c cs)
  have "set (parent out) \<subseteq> set out"
    using to_slash_prefix [of "butlast out"] by (metis parent_to_slash in_set_butlastD set_take_subset subset_code(1))
  with 2 show ?case by (auto simp: norm.simps(2) split: if_splits)
qed simp

lemma normalize_path_norm:
  assumes "terminated path" "1 < length path"
  shows "case norm [] path of
      None \<Rightarrow> normalize_path path = None
    | Some t \<Rightarrow> \<exists>p. normalize_path path = Some p \<and> length p = length path \<and> terminated p \<and>
        c_string p = (if t = [] then ''/'' else t)"
proof (cases "norm [] path")
  case None
  then have "\<And>p w. normalize_loop path 0 0 = Some (p, w) \<Longrightarrow> w < 0"
    using normalize_loop_norm [of 0 path "[]"] assms(1) by simp
  then show ?thesis using None
    by (cases "normalize_loop path 0 0") (auto simp: normalize_path_def array_set_def)
next
  case (Some t)
  then obtain p where p: "normalize_loop path 0 0 = Some (p, int (length t))" "length p = length path"
    "length t < length path" "take (length t) p = t"
    using normalize_loop_norm [of 0 path "[]"] assms(1) by auto
  have "NUL \<notin> set t" using norm_no_NUL [OF Some] by simp
  then have c: "c_string (p[length t := NUL]) = t" "terminated (p[length t := NUL])"
    using p(2-4) c_string_no_end [of t "drop (Suc (length t)) p"]
    by (simp_all add: upd_conv_take_nth_drop terminated_def)
  show ?thesis
  proof (cases "t = []")
    case True
    then obtain a b r where "p = a # b # r" using p(2) assms(2) by (cases p; cases "tl p") auto
    then have "normalize_path path = Some (CHR ''/'' # NUL # r)" using True p(1) by (simp add: normalize_path_def array_set_def)
    then show ?thesis using Some True p(2) \<open>p = _\<close> by simp
  next
    case False
    then have "normalize_path path = Some (p[length t := NUL])" using p by (simp add: normalize_path_def array_set_def)
    then show ?thesis using Some False p(2) c by simp
  qed
qed

subsection \<open>On components\<close>

text \<open>Components with a slash after each. A clean component is a dot, two dots, or ends with something
  else than a dot.\<close>

definition slashed :: "char list list \<Rightarrow> char list" where
  "slashed cs = concat (map (\<lambda>c. c @ ''/'') cs)"

definition clean :: "char list \<Rightarrow> bool" where
  "clean c \<longleftrightarrow> CHR ''/'' \<notin> set c \<and> NUL \<notin> set c \<and> (c = ''.'' \<or> c = ''..'' \<or> c = [] \<or> last c \<noteq> CHR ''.'')"

text \<open>What the code resolves: the empty component in front of a leading slash is one like the others.\<close>

fun resolve :: "char list list \<Rightarrow> char list list \<Rightarrow> char list list option" where
  "resolve st [] = Some st"
| "resolve st (c # cs) =
     (if c = ''.'' then resolve st cs
      else if c = ''..'' then if st = [] then None else resolve (butlast st) cs
      else resolve (st @ [c]) cs)"

definition resolve_path :: "char list list \<Rightarrow> char list \<Rightarrow> char list option" where
  "resolve_path cs l =
     (if l = ''.'' \<or> l = ''..'' then map_option slashed (resolve [] (cs @ [l]))
      else map_option (\<lambda>st. slashed st @ l) (resolve [] cs))"

lemma slashed_simps [simp]:
  "slashed [] = []" "slashed (c # cs) = c @ ''/'' @ slashed cs" "slashed (cs @ ds) = slashed cs @ slashed ds"
  by (simp_all add: slashed_def)

lemma slashed_empty [simp]: "slashed cs = [] \<longleftrightarrow> cs = []"
  by (cases cs) auto

lemma to_slash_slashed: "CHR ''/'' \<notin> set c \<Longrightarrow> to_slash (slashed cs @ c) = slashed cs"
proof (induction c rule: rev_induct)
  case Nil
  then show ?case by (cases cs rule: rev_cases) (auto simp flip: append_assoc)
next
  case (snoc x c)
  then have "x \<noteq> CHR ''/''" "to_slash (slashed cs @ c) = slashed cs" by auto
  then show ?case by (simp flip: append_assoc)
qed

lemma parent_slashed: "CHR ''/'' \<notin> set c \<Longrightarrow> parent (slashed cs @ c @ ''/'') = slashed cs"
  by (simp add: parent_to_slash to_slash_slashed butlast_append flip: append_assoc)

text \<open>One component.\<close>

lemma norm_name:
  assumes "CHR ''/'' \<notin> set c" "NUL \<notin> set c" "c = [] \<or> last c \<noteq> CHR ''.''"
  shows "norm out (c @ e # rest) = norm (out @ c) (e # rest)"
  using assms
proof (induction c arbitrary: out)
  case (Cons x c)
  have "dots (x # c @ e # rest) = 0" using Cons.prems by (cases c) (auto simp: dots_def)
  moreover have "dotdots (x # c @ e # rest) = 0"
    using Cons.prems by (cases c; cases "tl c") (auto simp: dotdots_def split: list.splits)
  moreover have "x \<noteq> NUL" using Cons.prems by auto
  ultimately have "norm out (x # c @ e # rest) = norm (out @ [x]) (c @ e # rest)"
    by (simp add: norm.simps(2))
  with Cons show ?case by (cases c) auto
qed simp

lemma norm_slash: "norm out (CHR ''/'' # rest) = norm (out @ ''/'') rest"
  by (simp add: norm.simps(2) dots_def dotdots_def split: list.splits)

lemma norm_components:
  assumes "\<forall>c \<in> set cs. clean c" "\<forall>c \<in> set st. CHR ''/'' \<notin> set c"
  shows "norm (slashed st) (slashed cs @ rest) = (case resolve st cs of None \<Rightarrow> None | Some st' \<Rightarrow> norm (slashed st') rest)"
  using assms
proof (induction cs arbitrary: st)
  case (Cons c cs)
  then have clean: "clean c" by simp
  consider "c = ''.''" | "c = ''..''" "st = []" | "c = ''..''" "st \<noteq> []" | "c \<noteq> ''.''" "c \<noteq> ''..''" by blast
  then show ?case
  proof cases
    case 1
    then show ?thesis using Cons by (simp add: norm.simps(2) dots_def)
  next
    case 2
    then show ?thesis by (simp add: norm.simps(2) dots_def dotdots_def)
  next
    case 3
    then obtain st' d where st: "st = st' @ [d]" by (cases st rule: rev_cases) auto
    then have "parent (slashed st) = slashed st'" using Cons.prems(2) parent_slashed [of d st'] by simp
    then show ?thesis using 3 st Cons by (simp add: norm.simps(2) dots_def dotdots_def)
  next
    case 4
    then have c: "CHR ''/'' \<notin> set c" "NUL \<notin> set c" "c = [] \<or> last c \<noteq> CHR ''.''" using clean by (auto simp: clean_def)
    from norm_name [OF this, of "slashed st" "CHR ''/''"] Cons.IH [of "st @ [c]"] Cons.prems c 4
    show ?thesis by (simp add: norm_slash)
  qed
qed simp

lemma norm_path:
  assumes "\<forall>c \<in> set cs. clean c" "clean l"
  shows "norm [] (slashed cs @ l @ NUL # junk) = resolve_path cs l"
proof -
  have last_name: "norm out (l @ NUL # junk) = Some (out @ l)" if "l \<noteq> ''.''" "l \<noteq> ''..''" for out
    using assms(2) that norm_name [of l out NUL junk] by (simp add: clean_def norm.simps(2))
  have no_slash: "\<forall>c \<in> set st. CHR ''/'' \<notin> set c" if "resolve st0 ds = Some st" "\<forall>c \<in> set st0. CHR ''/'' \<notin> set c" "\<forall>c \<in> set ds. clean c"
    for st0 ds st
    using that by (induction st0 ds rule: resolve.induct) (auto simp: clean_def split: if_splits dest: in_set_butlastD)
  have res: "resolve st0 (ds @ [d]) = (case resolve st0 ds of None \<Rightarrow> None | Some st \<Rightarrow> resolve st [d])" for st0 ds d
    by (induction st0 ds rule: resolve.induct) auto
  note C = norm_components [OF assms(1), of "[]" "l @ NUL # junk"]
  show ?thesis
  proof (cases "resolve [] cs")
    case None
    then show ?thesis using C by (simp add: resolve_path_def res)
  next
    case (Some st)
    consider "l = ''.''" | "l = ''..''" "st = []" | "l = ''..''" "st \<noteq> []" | "l \<noteq> ''.''" "l \<noteq> ''..''" by blast
    then show ?thesis
    proof cases
      case 3
      then obtain st' d where st: "st = st' @ [d]" by (cases st rule: rev_cases) auto
      then have "parent (slashed st) = slashed st'" using no_slash [OF Some] assms(1) parent_slashed [of d st'] by simp
      then show ?thesis using 3 st Some C by (simp add: resolve_path_def res norm.simps(2) dots_def dotdots_def)
    qed (use Some C last_name in \<open>simp_all add: resolve_path_def res norm.simps(2) dots_def dotdots_def\<close>)
  qed
qed

lemma normalize_path_exact:
  assumes "\<forall>c \<in> set cs. clean c" "clean l" "cs \<noteq> [] \<or> l \<noteq> []"
  shows "case resolve_path cs l of
      None \<Rightarrow> normalize_path (slashed cs @ l @ NUL # junk) = None
    | Some t \<Rightarrow> \<exists>p. normalize_path (slashed cs @ l @ NUL # junk) = Some p \<and>
        length p = length (slashed cs @ l @ NUL # junk) \<and> terminated p \<and> c_string p = (if t = [] then ''/'' else t)"
proof -
  have "1 < length (slashed cs @ l @ NUL # junk)" using assms(3) by (cases cs; cases l) auto
  with normalize_path_norm [of "slashed cs @ l @ NUL # junk"] show ?thesis
    unfolding norm_path [OF assms(1,2)] by (simp add: terminated_def)
qed

text \<open>What an absolute path means: above the root is the root. As long as a path does not go above
  the root, the code computes just that.\<close>

fun absolute :: "char list list \<Rightarrow> char list list \<Rightarrow> char list list" where
  "absolute st [] = st"
| "absolute st (c # cs) =
     (if c = ''.'' then absolute st cs
      else if c = ''..'' then absolute (butlast st) cs else absolute (st @ [c]) cs)"

fun below_root :: "nat \<Rightarrow> char list list \<Rightarrow> bool" where
  "below_root n [] \<longleftrightarrow> True"
| "below_root n (c # cs) \<longleftrightarrow>
     (if c = ''.'' then below_root n cs
      else if c = ''..'' then n > 0 \<and> below_root (n - 1) cs else below_root (n + 1) cs)"

lemma resolve_below_root: "below_root (length st) cs \<Longrightarrow> resolve ([] # st) cs = Some ([] # absolute st cs)"
proof (induction cs arbitrary: st)
  case (Cons c cs)
  then show ?case using Cons.IH [of "butlast st"] Cons.IH [of "st @ [c]"] by auto
qed simp

lemma below_root_prefix: "below_root n (cs @ ds) \<Longrightarrow> below_root n cs"
  by (induction n cs rule: below_root.induct) (auto split: if_splits)

end
