(* ===== verification/Shell.thy ===== *)
theory Shell
  imports User_Calls Shell_Path
begin

text \<open>
  The shell, \<^verbatim>\<open>app/shell.c\<close>: the commands, each a function of the system calls \<open>C\<close>, and one round of
  its loop. A buffer of the stack is a list of 64 characters; an access outside one is \<open>None\<close>. What an
  uninitialised buffer holds is an argument (\<open>junk\<close>).
\<close>

definition MAX_COMMAND_DIMENSION :: int where "MAX_COMMAND_DIMENSION = 64"
definition MAX_FILE_DIMENSION :: int where "MAX_FILE_DIMENSION = 256"
definition MAX_EXEC_ARGUMENTS :: nat where "MAX_EXEC_ARGUMENTS = 4"

text \<open>A buffer for a command after \<^verbatim>\<open>memzero\<close>, and the colours.\<close>

definition zeroed :: "char list" where "zeroed = replicate (nat MAX_COMMAND_DIMENSION) NUL"

definition ESC :: "char list \<Rightarrow> char list" where "ESC t = lit (CHR 0x1B # t)"
definition UART_GREEN_COLOR :: "char list" where "UART_GREEN_COLOR = ESC ''[32m''"
definition UART_BLUE_COLOR :: "char list" where "UART_BLUE_COLOR = ESC ''[34m''"
definition UART_WHITE_COLOR :: "char list" where "UART_WHITE_COLOR = ESC ''[37m''"
definition UART_CLEAR_SCREEN :: "char list" where "UART_CLEAR_SCREEN = lit ([CHR 0x1B] @ ''[1;1H'' @ [CHR 0x1B] @ ''[2J'')"

abbreviation quote :: "char list" where "quote \<equiv> [CHR 0x27]"

text \<open>The messages that end with the name between quotes.\<close>

definition complain :: "'s calls \<Rightarrow> char list \<Rightarrow> char list \<Rightarrow> 's \<Rightarrow> 's option" where
  "complain C message p s = write_all C [lit (message @ quote), p, lit (quote @ ''.'' @ newline)] s"

definition handle_help :: "'s calls \<Rightarrow> 's \<Rightarrow> 's option" where
  "handle_help C s = write_all C
    [lit (''[demoos shell]'' @ newline),
     lit (''Available commands:'' @ newline),
     lit (''  help       - Show this help message'' @ newline),
     lit (''  pwd        - Show the current working directory'' @ newline),
     lit (''  ls         - Show content of the current folder'' @ newline),
     lit (''  tree       - Show directory tree'' @ newline),
     lit (''  mkdir      - Create a directory in the working directory'' @ newline),
     lit (''  write      - Creates a file and writes the given content in it'' @ newline),
     lit (''  show       - Shows the content of the given file'' @ newline),
     lit (''  clear      - Clears the screen'' @ newline),
     lit (''  exec       - Forks the current process and launches a new one from the file system, given its path'' @ newline),
     lit (''  any        - If '' @ quote @ ''/bin/any.bin'' @ quote @ '' is a file, launches it as a new process'' @ newline)] s"

subsection \<open>Directories\<close>

text \<open>The entry of the caller, its name zeroed, and the name as characters.\<close>

definition zero_name :: "FatEntryInfo \<Rightarrow> FatEntryInfo" where
  "zero_name info = info\<lparr>e_name := replicate FAT_MAX_NAME_SIZE 0\<rparr>"

definition name_of :: "FatEntryInfo \<Rightarrow> char list" where
  "name_of info = map (\<lambda>b. char_of (unat b)) (e_name info)"

text \<open>An entry before the first call: it is overwritten before it is looked at.\<close>

definition new_entry :: FatEntryInfo where
  "new_entry = \<lparr>e_size = 0, e_name = replicate FAT_MAX_NAME_SIZE 0, is_dir = False\<rparr>"

partial_function (option) ls_loop :: "'s calls \<Rightarrow> int \<Rightarrow> FatEntryInfo \<Rightarrow> 's \<Rightarrow> 's option" where
  "ls_loop C fd info s = do {
     (result, info1, s1) \<leftarrow> call_syscall_get_next_entry C fd (zero_name info) s;
     if result \<noteq> 0 then Some s1
     else do {
       s2 \<leftarrow> write_all C (if is_dir info1 then [ESC ''[34m'', name_of info1, ESC ''[0m''] else [name_of info1]) s1;
       s3 \<leftarrow> call_syscall_write C (lit newline) s2;
       ls_loop C fd info1 s3
     }
   }"

definition handle_ls :: "'s calls \<Rightarrow> char list \<Rightarrow> 's \<Rightarrow> 's option" where
  "handle_ls C working_directory s = do {
     (fd, s1) \<leftarrow> call_syscall_open_dir C working_directory s;
     if fd = -1 then complain C ''[SHELL] Error opening folder '' working_directory s1
     else do { s2 \<leftarrow> ls_loop C fd new_entry s1; call_syscall_write C (lit newline) s2 }
   }"

definition handle_pwd :: "'s calls \<Rightarrow> char list \<Rightarrow> 's \<Rightarrow> 's option" where
  "handle_pwd C working_directory s = write_all C [working_directory, lit newline] s"

definition handle_mkdir :: "'s calls \<Rightarrow> char list \<Rightarrow> char list \<Rightarrow> 's \<Rightarrow> 's option" where
  "handle_mkdir C buffer working_directory s = do {
     (command, dir_name) \<leftarrow> strsplit buffer (CHR '' '') zeroed zeroed;
     c \<leftarrow> array_get dir_name 0;
     if c = NUL then call_syscall_write C (lit (''[SHELL] Error: please specify the directory name.'' @ newline)) s
     else do {
       n \<leftarrow> strlen working_directory;
       if int n < MAX_COMMAND_DIMENSION then do {
         temp \<leftarrow> strcat zeroed working_directory;
         temp1 \<leftarrow> (if c \<noteq> CHR ''/'' then strcat temp (lit ''/'') else Some temp);
         temp2 \<leftarrow> strcat temp1 dir_name;
         (fd, s1) \<leftarrow> call_syscall_create_dir C temp2 s;
         if fd = -1 then complain C ''[SHELL] Cannot create '' temp2 s1 else Some s1
       } else call_syscall_write C (lit (''[SHELL] Error: working directory string is too big.'' @ newline)) s
     }
   }"

text \<open>The path \<^verbatim>\<open>handle_cd\<close> and \<^verbatim>\<open>handle_show\<close> make of their argument.\<close>

definition append_slash :: "char list \<Rightarrow> char list option" where
  "append_slash temp = do {
     len \<leftarrow> strlen temp;
     if len > 2 then do {
       c \<leftarrow> array_get temp (int len - 1);
       if c \<noteq> CHR ''/'' then do { t \<leftarrow> array_set temp (int len) (CHR ''/''); array_set t (int len + 1) NUL }
       else Some temp
     } else Some temp
   }"

definition from_directory :: "char list \<Rightarrow> char list \<Rightarrow> char list option" where
  "from_directory working_directory destination = do {
     c \<leftarrow> array_get destination 0;
     if c = CHR ''/'' then memcpy_chars zeroed destination MAX_COMMAND_DIMENSION
     else do {
       temp \<leftarrow> memcpy_chars zeroed working_directory MAX_COMMAND_DIMENSION;
       temp1 \<leftarrow> append_slash temp;
       strcat temp1 destination
     }
   }"

text \<open>The path \<^verbatim>\<open>handle_cd\<close> opens; its result has the new working directory.\<close>

definition cd_target :: "char list \<Rightarrow> char list \<Rightarrow> char list option" where
  "cd_target buffer working_directory = do {
     (command, destination) \<leftarrow> strsplit buffer (CHR '' '') zeroed zeroed;
     n \<leftarrow> strlen destination;
     c \<leftarrow> array_get destination (int n - 1);
     destination1 \<leftarrow> (if c \<noteq> CHR ''/'' then strcat destination (lit (''/'' @ [NUL])) else Some destination);
     temp \<leftarrow> from_directory working_directory destination1;
     normalize_path temp
   }"

definition handle_cd :: "'s calls \<Rightarrow> char list \<Rightarrow> char list \<Rightarrow> 's \<Rightarrow> (char list \<times> 's) option" where
  "handle_cd C buffer working_directory s = do {
     temp \<leftarrow> cd_target buffer working_directory;
     (fd, s1) \<leftarrow> call_syscall_open_dir C temp s;
     if fd = -1 then do { s2 \<leftarrow> complain C ''[SHELL] Error: cannot change directory to '' temp s1; Some (working_directory, s2) }
     else do { w \<leftarrow> memcpy_chars working_directory temp MAX_COMMAND_DIMENSION; Some (w, s1) }
   }"

subsection \<open>The tree\<close>

text \<open>The path of an entry, and what is printed for it.\<close>

definition child_path :: "char list \<Rightarrow> char list \<Rightarrow> char list option" where
  "child_path dir_path name = do {
     child \<leftarrow> strcpy zeroed dir_path;
     len \<leftarrow> strlen child;
     c \<leftarrow> array_get child (int len - 1);
     child1 \<leftarrow> (if c \<noteq> CHR ''/'' then strcat child (lit ''/'') else Some child);
     child2 \<leftarrow> strcat child1 name;
     normalize_path child2
   }"

definition tree_line :: "nat \<Rightarrow> FatEntryInfo \<Rightarrow> char list list" where
  "tree_line depth info =
     replicate depth (lit ''   '') @
     (if is_dir info then [ESC ''[34m'', name_of info, lit (''/'' @ [CHR 0x1B] @ ''[0m'' @ newline)]
      else [name_of info, lit newline])"

text \<open>The loop of \<^verbatim>\<open>print_tree\<close>, with the calls it makes of itself unfolded.\<close>

partial_function (option) tree_loop :: "'s calls \<Rightarrow> char list \<Rightarrow> nat \<Rightarrow> int \<Rightarrow> FatEntryInfo \<Rightarrow> 's \<Rightarrow> 's option" where
  "tree_loop C dir_path depth fd info s = do {
     (result, info1, s1) \<leftarrow> call_syscall_get_next_entry C fd (zero_name info) s;
     if result \<noteq> 1 then Some s1
     else do {
       self \<leftarrow> memcmp (name_of info1) (lit ''.'') 2;
       up \<leftarrow> (if self = 0 then Some 0 else memcmp (name_of info1) (lit ''..'') 3);
       if self = 0 \<or> up = 0 then tree_loop C dir_path depth fd info1 s1
       else do {
         s2 \<leftarrow> write_all C (tree_line depth info1) s1;
         s3 \<leftarrow> (if is_dir info1 then do {
                  child \<leftarrow> child_path dir_path (name_of info1);
                  (fd1, s3) \<leftarrow> call_syscall_open_dir C child s2;
                  if fd1 = -1 then Some s3 else tree_loop C child (depth + 1) fd1 new_entry s3
                } else Some s2);
         tree_loop C dir_path depth fd info1 s3
       }
     }
   }"

definition print_tree :: "'s calls \<Rightarrow> char list \<Rightarrow> nat \<Rightarrow> 's \<Rightarrow> 's option" where
  "print_tree C dir_path depth s = do {
     (fd, s1) \<leftarrow> call_syscall_open_dir C dir_path s;
     if fd = -1 then Some s1 else tree_loop C dir_path depth fd new_entry s1
   }"

definition tree_target :: "char list \<Rightarrow> char list \<Rightarrow> char list option" where
  "tree_target buffer working_directory = do {
     (command, target) \<leftarrow> strsplit buffer (CHR '' '') zeroed zeroed;
     c \<leftarrow> array_get target 0;
     fullpath \<leftarrow>
       (if c = NUL then memcpy_chars zeroed working_directory MAX_COMMAND_DIMENSION
        else if c = CHR ''/'' then memcpy_chars zeroed target MAX_COMMAND_DIMENSION
        else do {
          p \<leftarrow> memcpy_chars zeroed working_directory MAX_COMMAND_DIMENSION;
          len \<leftarrow> strlen p;
          p1 \<leftarrow> (if len > 1
                then do { e \<leftarrow> array_get p (int len - 1); if e \<noteq> CHR ''/'' then strcat p (lit ''/'') else Some p }
                else Some p);
          strcat p1 target
        });
     normalize_path fullpath
   }"

definition handle_tree :: "'s calls \<Rightarrow> char list \<Rightarrow> char list \<Rightarrow> 's \<Rightarrow> 's option" where
  "handle_tree C buffer working_directory s = do {
     fullpath \<leftarrow> tree_target buffer working_directory;
     (fd, s1) \<leftarrow> call_syscall_open_dir C fullpath s;
     if fd = -1 then complain C ''[SHELL] Error: cannot open directory '' fullpath s1
     else do { s2 \<leftarrow> write_all C [fullpath, lit newline] s1; print_tree C fullpath 0 s2 }
   }"

subsection \<open>Files\<close>

definition show_target :: "char list \<Rightarrow> char list \<Rightarrow> char list option" where
  "show_target buffer working_directory = do {
     (command, destination) \<leftarrow> strsplit buffer (CHR '' '') zeroed zeroed;
     temp \<leftarrow> from_directory working_directory destination;
     normalize_path temp
   }"

text \<open>\<open>junk\<close> is what \<^verbatim>\<open>file_content\<close> held before; only its first 64 of 256 characters are zeroed.\<close>

definition handle_show :: "'s calls \<Rightarrow> char list \<Rightarrow> char list \<Rightarrow> char list \<Rightarrow> 's \<Rightarrow> 's option" where
  "handle_show C junk buffer working_directory s = do {
     temp1 \<leftarrow> show_target buffer working_directory;
     (fd, s1) \<leftarrow> call_syscall_open_file C temp1 FAT_READ s;
     s2 \<leftarrow> (if fd = -1 then complain C ''[SHELL] Cannot open '' temp1 s1 else Some s1);
     if fd > -1 then do {
       file_content \<leftarrow> memzero_chars junk MAX_COMMAND_DIMENSION;
       (error, file_content1, s3) \<leftarrow> call_syscall_read_file C fd file_content MAX_FILE_DIMENSION s2;
       s4 \<leftarrow> (if error \<noteq> 0 then complain C ''[SHELL] Cannot read '' temp1 s3
             else write_all C [file_content1, lit newline] s3);
       (_, s5) \<leftarrow> call_syscall_close_file C fd s4;
       Some s5
     } else Some s2
   }"

text \<open>The loops of \<^verbatim>\<open>handle_write\<close>: \<open>p\<close> is the pointer into the command, \<open>dest\<close> the array that is filled
  from \<open>i\<close> on.\<close>

fun skip_word :: "char list \<Rightarrow> char list option" where
  "skip_word [] = None"
| "skip_word (c # p) = (if c = NUL \<or> c = CHR '' '' then Some (c # p) else skip_word p)"

fun copy_word :: "(char \<Rightarrow> bool) \<Rightarrow> char list \<Rightarrow> char list \<Rightarrow> nat \<Rightarrow> (char list \<times> char list \<times> nat) option" where
  "copy_word stop [] dest i = None"
| "copy_word stop (c # p) dest i =
     (if stop c then Some (c # p, dest, i)
      else do { dest1 \<leftarrow> array_set dest (int i) c; copy_word stop p dest1 (i + 1) })"

text \<open>The name and the text of \<^verbatim>\<open>handle_write\<close>, with the length of the text.\<close>

definition write_arguments :: "char list \<Rightarrow> (char list \<times> char list \<times> nat) option" where
  "write_arguments buffer = do {
     p1 \<leftarrow> skip_word buffer;
     (p2, name, i) \<leftarrow> copy_word (\<lambda>c. c = NUL \<or> c = CHR '' '') (tl p1) zeroed 0;
     file_name \<leftarrow> array_set name (int i) NUL;
     (p3, content, i) \<leftarrow> copy_word (\<lambda>c. c = NUL) (tl p2) zeroed 0;
     file_content \<leftarrow> array_set content (int i) NUL;
     Some (file_name, file_content, i)
   }"

definition write_path :: "'s calls \<Rightarrow> char list \<Rightarrow> char list \<Rightarrow> 's \<Rightarrow> (char list \<times> 's) option" where
  "write_path C file_name working_directory s = do {
     m \<leftarrow> strlen working_directory;
     n \<leftarrow> strlen file_name;
     if int (m + n) < MAX_COMMAND_DIMENSION
     then do { f \<leftarrow> strcat zeroed working_directory; f1 \<leftarrow> strcat f file_name; Some (f1, s) }
     else do { t \<leftarrow> call_syscall_write C (lit (''[SHELL] Error: file path is too big'' @ newline)) s; Some (zeroed, t) }
   }"

definition handle_write :: "'s calls \<Rightarrow> char list \<Rightarrow> char list \<Rightarrow> 's \<Rightarrow> 's option" where
  "handle_write C buffer working_directory s = do {
     (file_name, file_content, i) \<leftarrow> write_arguments buffer;
     (file_path, s1) \<leftarrow> write_path C file_name working_directory s;
     (fd, s2) \<leftarrow> call_syscall_open_file C file_path (FAT_CREATE OR FAT_WRITE) s1;
     s3 \<leftarrow> (if fd = -1 then complain C ''[SHELL] Error: cannot open file '' file_path s2 else Some s2);
     s4 \<leftarrow>
       (if fd \<noteq> -1 \<and> i > 0 then do {
          (error, s4) \<leftarrow> call_syscall_write_file C fd file_content MAX_FILE_DIMENSION s3;
          if error \<noteq> 0 then complain C ''[SHELL] Error: cannot write on file '' file_path s4 else Some s4
        } else Some s3);
     (_, s5) \<leftarrow> call_syscall_close_file C fd s4;
     Some s5
   }"

subsection \<open>Programs\<close>

text \<open>What the parent does after a fork: wait, and complain.\<close>

definition wait_child :: "'s calls \<Rightarrow> int \<Rightarrow> 's \<Rightarrow> 's option" where
  "wait_child C child s = do {
     (ok, s1) \<leftarrow> call_syscall_wait C child s;
     if ok \<noteq> 0 then do {
       s2 \<leftarrow> call_syscall_write C (lit (''[SHELL] Cannot find process '' @ quote)) s1;
       s3 \<leftarrow> call_syscall_write_hex C child s2;
       call_syscall_write C (lit (quote @ newline)) s3
     } else Some s1
   }"

text \<open>If the call to \<^verbatim>\<open>exec\<close> returned 0 the child would print for ever.\<close>

definition handle_exec :: "'s calls \<Rightarrow> char list \<Rightarrow> char list \<Rightarrow> 's \<Rightarrow> (unit outcome \<times> 's) option" where
  "handle_exec C buffer working_directory s = do {
     (command, prog) \<leftarrow> strsplit buffer (CHR '' '') zeroed zeroed;
     n \<leftarrow> strlen prog;
     if n = 0 then do {
       s1 \<leftarrow> call_syscall_write C (lit (''[SHELL] Please specify the path of the new program to execute.'' @ newline)) s;
       Some (Returns (), s1)
     } else do {
       m \<leftarrow> strlen working_directory;
       if int (m + n) \<ge> MAX_COMMAND_DIMENSION then do {
         s1 \<leftarrow> call_syscall_write C (lit (''[SHELL] Path is too long.'' @ newline)) s;
         Some (Returns (), s1)
       } else do {
         f \<leftarrow> strcat zeroed working_directory;
         f1 \<leftarrow> strcat f prog;
         complete \<leftarrow> normalize_path f1;
         (child, s1) \<leftarrow> call_syscall_fork C s;
         if child = 0 then do {
           s2 \<leftarrow> call_syscall_write C (lit (''[SON] I am the son.'' @ newline)) s1;
           (r, s3) \<leftarrow> call_syscall_exec C complete 0 [] s2;
           case r of
             Gone \<Rightarrow> Some (Gone, s3)
           | Returns error \<Rightarrow>
               if error \<noteq> 0 then do {
                 s4 \<leftarrow> call_syscall_write C (lit (''[SON] Error running new process.'' @ newline)) s3;
                 exit_now C s4
               } else None
         } else do { s2 \<leftarrow> wait_child C child s1; Some (Returns (), s2) }
       }
     }
   }"

function split_arguments :: "char list \<Rightarrow> char list \<Rightarrow> nat \<Rightarrow> (char list \<times> nat) option" where
  "split_arguments raw arguments n = do {
     len \<leftarrow> strlen raw;
     if len > 0 \<and> n < MAX_EXEC_ARGUMENTS then do {
       (row, temp) \<leftarrow> strsplit raw (CHR '' '') (argument_row n arguments) (replicate SYSCALL_EXEC_ARGUMENT_DIMENSION NUL);
       raw1 \<leftarrow> strcpy raw temp;
       split_arguments raw1 (take (n * SYSCALL_EXEC_ARGUMENT_DIMENSION) arguments @ row) (n + 1)
     } else Some (arguments, n)
   }"
  by pat_completeness auto

termination by (relation "measure (\<lambda>(raw, arguments, n). MAX_EXEC_ARGUMENTS - n)") auto

declare split_arguments.simps [simp del]

definition handle_exec_from_bin :: "'s calls \<Rightarrow> char list \<Rightarrow> 's \<Rightarrow> (unit outcome \<times> 's) option" where
  "handle_exec_from_bin C buffer s = do {
     (file_name, arguments_raw) \<leftarrow> strsplit buffer (CHR '' '') zeroed zeroed;
     n \<leftarrow> strlen file_name;
     if int (length ''/bin/'' + n + length ''.bin'') \<ge> MAX_COMMAND_DIMENSION then do {
       s1 \<leftarrow> call_syscall_write C (lit (''[SHELL] Path is too long.'' @ newline)) s;
       Some (Returns (), s1)
     } else do {
       f \<leftarrow> strcat zeroed (lit ''/bin/'');
       f1 \<leftarrow> strcat f file_name;
       f2 \<leftarrow> strcat f1 (lit ''.bin'');
       complete \<leftarrow> normalize_path f2;
       (arguments, n_arguments) \<leftarrow>
         split_arguments arguments_raw (replicate (MAX_EXEC_ARGUMENTS * SYSCALL_EXEC_ARGUMENT_DIMENSION) NUL) 0;
       (child, s1) \<leftarrow> call_syscall_fork C s;
       if child = 0 then do {
         (r, s2) \<leftarrow> call_syscall_exec C complete (int n_arguments) arguments s1;
         case r of
           Gone \<Rightarrow> Some (Gone, s2)
         | Returns error \<Rightarrow> do {
             s3 \<leftarrow> (if error \<noteq> 0
                   then write_all C [lit (''[SHELL] Cannot find '' @ quote), file_name, lit (quote @ '' binary file.'' @ newline)] s2
                   else Some s2);
             exit_now C s3
           }
       } else do { s2 \<leftarrow> wait_child C child s1; Some (Returns (), s2) }
     }
   }"

subsection \<open>The loop\<close>

text \<open>The first command whose name the buffer starts with.\<close>

definition is_command :: "char list \<Rightarrow> char list \<Rightarrow> bool option" where
  "is_command buffer name = do { r \<leftarrow> memcmp buffer (lit name) (length name); Some (r = 0) }"

fun dispatch :: "char list \<Rightarrow> (char list \<times> 'r option) list \<Rightarrow> 'r option \<Rightarrow> 'r option" where
  "dispatch buffer [] otherwise = otherwise"
| "dispatch buffer ((name, action) # rest) otherwise = do {
     b \<leftarrow> is_command buffer name;
     if b then action else dispatch buffer rest otherwise
   }"

text \<open>Running a command; the result has the working directory, unless the process is gone.\<close>

definition keeping :: "char list \<Rightarrow> 's option \<Rightarrow> (char list outcome \<times> 's) option" where
  "keeping w r = do { s \<leftarrow> r; Some (Returns w, s) }"

definition keeping_if_here :: "char list \<Rightarrow> (unit outcome \<times> 's) option \<Rightarrow> (char list outcome \<times> 's) option" where
  "keeping_if_here w r = do { (here, s) \<leftarrow> r; Some (case here of Gone \<Rightarrow> Gone | Returns _ \<Rightarrow> Returns w, s) }"

definition run_command :: "'s calls \<Rightarrow> char list \<Rightarrow> char list \<Rightarrow> char list \<Rightarrow> 's \<Rightarrow> (char list outcome \<times> 's) option" where
  "run_command C junk buffer w s =
     dispatch buffer
       [(''help'', keeping w (handle_help C s)),
        (''ls'', keeping w (handle_ls C w s)),
        (''pwd'', keeping w (handle_pwd C w s)),
        (''mkdir'', keeping w (handle_mkdir C buffer w s)),
        (''cd'', do { (w1, s1) \<leftarrow> handle_cd C buffer w s; Some (Returns w1, s1) }),
        (''tree'', keeping w (handle_tree C buffer w s)),
        (''clear'', keeping w (call_syscall_write C UART_CLEAR_SCREEN s)),
        (''write'', keeping w (handle_write C buffer w s)),
        (''show'', keeping w (handle_show C junk buffer w s)),
        (''exec'', keeping_if_here w (handle_exec C buffer w s))]
       (keeping_if_here w (handle_exec_from_bin C buffer s))"

definition shell_round :: "'s calls \<Rightarrow> char list \<Rightarrow> char list \<Rightarrow> 's \<Rightarrow> (char list outcome \<times> 's) option" where
  "shell_round C junk working_directory s = do {
     s1 \<leftarrow> write_all C [UART_GREEN_COLOR, lit (''demoos:'' @ [NUL]), UART_BLUE_COLOR, working_directory,
                      UART_WHITE_COLOR, lit (''$ '' @ [NUL])] s;
     (buffer, s2) \<leftarrow> call_syscall_input C zeroed MAX_COMMAND_DIMENSION s1;
     s3 \<leftarrow> call_syscall_write C (lit (newline @ [NUL])) s2;
     len \<leftarrow> strlen buffer;
     if len = 0 then Some (Returns working_directory, s3) else run_command C junk buffer working_directory s3
   }"

text \<open>The loop never ends by itself: \<open>shell_rounds\<close> has as many rounds as there are values for \<open>junk\<close>.\<close>

fun shell_rounds :: "'s calls \<Rightarrow> char list list \<Rightarrow> char list \<Rightarrow> 's \<Rightarrow> (char list outcome \<times> 's) option" where
  "shell_rounds C [] w s = Some (Returns w, s)"
| "shell_rounds C (junk # junks) w s = do {
     (r, s1) \<leftarrow> shell_round C junk w s;
     case r of Gone \<Rightarrow> Some (Gone, s1) | Returns w1 \<Rightarrow> shell_rounds C junks w1 s1
   }"

text \<open>The banner: \<^verbatim>\<open>_\<close>, \<^verbatim>\<open>^\<close> and \<^verbatim>\<open>#\<close> stand for the lower, the upper and the full block, in UTF-8.\<close>

definition block :: "char \<Rightarrow> char list" where
  "block c =
     (if c = CHR ''_'' then [CHR 0xE2, CHR 0x96, CHR 0x84]
      else if c = CHR ''^'' then [CHR 0xE2, CHR 0x96, CHR 0x80]
      else if c = CHR ''#'' then [CHR 0xE2, CHR 0x96, CHR 0x88] else [c])"

definition ascii_art :: "char list list" where
  "ascii_art =
    [lit (concat (map block ''______                          _____    _______ '')),
     lit (concat (map block ''###^^##_                      _#######_ #####^^^ '')),
     lit (concat (map block ''###  ### _#^#_ ###_###_ _###_ ###   ###  ^####_  '')),
     lit (concat (map block ''###  ### ##_#^ ## ## ## ## ## ###___###    ^#### '')),
     lit (concat (map block ''######^  ^#___ ## ## ## ^###^  ^#####^  #######^ ''))]"

definition shell :: "'s calls \<Rightarrow> char list list \<Rightarrow> 's \<Rightarrow> (char list outcome \<times> 's) option" where
  "shell C junks s = do {
     s1 \<leftarrow> call_syscall_write C UART_GREEN_COLOR s;
     s2 \<leftarrow> write_all C (concat (map (\<lambda>a. [a, lit newline]) ascii_art)) s1;
     s3 \<leftarrow> write_all C [UART_WHITE_COLOR, lit newline] s2;
     shell_rounds C junks (zeroed[0 := CHR ''/'']) s3
   }"

end
