(* ===== verification/Shell_Runs.thy ===== *)
theory Shell_Runs
  imports Shell
begin

text \<open>
  What the shell does for any behaviour of the system calls: its working directory stays a terminated text in
  its buffer, \<^verbatim>\<open>cd\<close> moves along the components of its argument, and a forked child does not come back
  to the loop.
\<close>

subsection \<open>Buffers\<close>

lemma strsplit_lengths:
  assumes "strsplit src d dest1 dest2 = Some (a, b)"
  shows "length a = length dest1" "length b = length dest2"
  using assms
  by (cases "split_at d (line src)"; cases "snd (split_at d (line src))"; auto simp: strsplit_exact split: if_splits)+

lemma c_string_own: "NUL \<notin> set t \<Longrightarrow> c_string t = t"
  by (induction t) auto

lemma strcat_keeps:
  assumes "strcat dest src = Some out"
  shows "length out = length dest" "terminated out" "c_string out = c_string dest @ c_string src"
  using assms c_string_no_NUL [of dest] c_string_no_NUL [of src]
  by (auto simp: strcat_exact terminated_def c_string_own simp flip: append_assoc split: if_splits)

lemma zeroed_simps [simp]: "length zeroed = 64" "terminated zeroed" "c_string zeroed = []"
  by (simp_all add: zeroed_def MAX_COMMAND_DIMENSION_def terminated_def c_string_def takeWhile_replicate)

lemma memcpy_whole: "length src = 64 \<Longrightarrow> length dest = 64 \<Longrightarrow> memcpy_chars dest src MAX_COMMAND_DIMENSION = Some src"
  by (simp add: memcpy_chars_def MAX_COMMAND_DIMENSION_def)

lemma normalize_path_keeps:
  assumes "normalize_path q = Some p" "terminated q" "1 < length q"
  shows "length p = length q" "terminated p"
  using normalize_path_norm [OF assms(2,3)] assms(1) by (auto split: option.splits)

lemma append_slash_length: "append_slash temp = Some t \<Longrightarrow> length t = length temp"
  by (auto simp: append_slash_def bind_eq_Some_conv array_simps split: if_splits)

lemma from_directory_keeps:
  assumes "from_directory w destination = Some temp" "length w = 64" "length destination = 64" "terminated destination"
  shows "length temp = 64" "terminated temp"
  using assms append_slash_length strcat_keeps(1,2)
  by (auto simp: from_directory_def bind_eq_Some_conv memcpy_whole split: if_splits)

text \<open>Whatever the system calls do, the working directory stays a terminated text of 64 characters.\<close>

definition directory_ok :: "char list \<Rightarrow> bool" where
  "directory_ok w \<longleftrightarrow> length w = 64 \<and> terminated w"

lemma cd_target_keeps:
  assumes "cd_target buffer w = Some temp" "length w = 64"
  shows "length temp = 64" "terminated temp"
proof -
  from assms(1) obtain a destination n where d: "strsplit buffer (CHR '' '') zeroed zeroed = Some (a, destination)"
    "strlen destination = Some n" by (auto simp: cd_target_def bind_eq_Some_conv)
  have len: "length destination = 64" "terminated destination"
    using strsplit_lengths(2) [OF d(1)] d(2) by (simp_all add: strlen_exact split: if_splits)
  from assms(1) d obtain destination1 t where t: "from_directory w destination1 = Some t" "normalize_path t = Some temp"
    "destination1 = destination \<or> strcat destination (lit (''/'' @ [NUL])) = Some destination1"
    by (fastforce simp: cd_target_def bind_eq_Some_conv split: if_splits)
  have "length destination1 = 64" "terminated destination1" using t(3) len strcat_keeps(1,2) by auto
  then have "length t = 64" "terminated t" using from_directory_keeps [OF t(1) assms(2)] by simp_all
  then show "length temp = 64" "terminated temp" using normalize_path_keeps [OF t(2)] by simp_all
qed

lemma handle_cd_keeps:
  assumes "handle_cd C buffer w s = Some (w1, s1)" "directory_ok w"
  shows "directory_ok w1"
  using assms cd_target_keeps [of buffer w]
  by (auto simp: handle_cd_def directory_ok_def bind_eq_Some_conv memcpy_whole split: if_splits)

lemma dispatch_cases:
  assumes "dispatch buffer acts otherwise = Some r"
  shows "Some r \<in> snd ` set acts \<or> otherwise = Some r"
  using assms by (induction buffer acts otherwise rule: dispatch.induct) (auto simp: bind_eq_Some_conv split: if_splits)

lemma keeping_Some: "Some (r, s1) = keeping w m \<longleftrightarrow> r = Returns w \<and> m = Some s1"
  by (cases m) (auto simp: keeping_def)

lemma unit_outcome: "a = Gone \<or> a = Returns ()" for a :: "unit outcome"
  by (cases a) auto

lemma keeping_if_here_Some:
  "Some (r, s1) = keeping_if_here w m \<longleftrightarrow>
     (r = Gone \<and> m = Some (Gone, s1)) \<or> (r = Returns w \<and> m = Some (Returns (), s1))"
proof (cases m)
  case (Some a)
  then show ?thesis using unit_outcome [of "fst a"] by (cases a) (auto simp: keeping_if_here_def)
qed (simp add: keeping_if_here_def)

lemma run_command_directory:
  assumes "run_command C junk buffer w s = Some (Returns w1, s1)"
  shows "w1 = w \<or> (\<exists>s2. handle_cd C buffer w s = Some (w1, s2))"
  using dispatch_cases [OF assms [unfolded run_command_def]]
  by (auto simp: keeping_Some keeping_if_here_Some keeping_if_here_Some [THEN eq_commute [THEN trans]]
      bind_eq_Some_conv eq_commute [of "Some _" "bind _ _"])

lemma shell_round_keeps:
  assumes "shell_round C junk w s = Some (Returns w1, s1)" "directory_ok w"
  shows "directory_ok w1"
  using assms run_command_directory handle_cd_keeps
  by (fastforce simp: shell_round_def bind_eq_Some_conv split: if_splits)

subsection \<open>Changing the directory\<close>

text \<open>A name, and the path of a directory as the shell holds it.\<close>

definition plain :: "char list \<Rightarrow> bool" where
  "plain c \<longleftrightarrow> clean c \<and> c \<noteq> ''.'' \<and> c \<noteq> ''..''"

definition at_directory :: "char list list \<Rightarrow> char list \<Rightarrow> bool" where
  "at_directory ws w \<longleftrightarrow> directory_ok w \<and> c_string w = ''/'' @ slashed ws"

lemma absolute_plain: "\<forall>c \<in> set ws. plain c \<Longrightarrow> absolute st (ws @ ds) = absolute (st @ ws) ds"
  by (induction ws arbitrary: st) (auto simp: plain_def)

lemma terminated_split: "terminated x \<Longrightarrow> x = c_string x @ NUL # drop (Suc (length (c_string x))) x"
  by (induction x) auto

lemma slashed_no_NUL: "\<forall>c \<in> set cs. clean c \<Longrightarrow> NUL \<notin> set (slashed cs)"
  by (induction cs) (auto simp: clean_def)

lemma last_slashed: "cs \<noteq> [] \<Longrightarrow> last (slashed cs) = CHR ''/''"
  by (induction cs rule: rev_induct) auto

text \<open>\<^verbatim>\<open>normalize_path\<close> on an array that holds an absolute path.\<close>

lemma normalize_absolute:
  assumes x: "terminated x" "c_string x = slashed ([] # cs)" and cs: "\<forall>c \<in> set cs. clean c" "below_root 0 cs"
  shows "\<exists>p. normalize_path x = Some p \<and> length p = length x \<and> terminated p \<and> c_string p = ''/'' @ slashed (absolute [] cs)"
proof -
  define r where "r = drop (Suc (length (c_string x))) x"
  have xs: "x = slashed ([] # cs) @ [] @ NUL # r" using terminated_split [OF x(1)] by (simp add: x(2) r_def)
  have "resolve_path ([] # cs) [] = Some (''/'' @ slashed (absolute [] cs))"
    using resolve_below_root [of "[]" cs] cs(2) by (simp add: resolve_path_def)
  moreover have "\<forall>c \<in> set ([] # cs). clean c" "clean []" using cs(1) by (simp_all add: clean_def)
  ultimately show ?thesis using normalize_path_exact [of "[] # cs" "[]" r] unfolding xs [symmetric] by simp
qed

lemma array_get_first: "terminated x \<Longrightarrow> c_string x = c # t \<Longrightarrow> array_get x 0 = Some c"
  by (cases x) (auto simp: array_get_def split: if_splits)

lemma array_get_last: "t \<noteq> [] \<Longrightarrow> array_get (t @ r) (int (length t) - 1) = Some (last t)"
  by (cases t rule: rev_cases) (auto simp: array_get_def)

text \<open>A path that ends with a slash is left alone.\<close>

lemma append_slash_at_directory:
  assumes "at_directory ws w"
  shows "append_slash w = Some w"
proof -
  have w: "terminated w" "c_string w = slashed ([] # ws)" using assms by (simp_all add: at_directory_def directory_ok_def)
  have n: "strlen w = Some (length (slashed ([] # ws)))" using w by (simp add: strlen_exact)
  have "w = slashed ([] # ws) @ NUL # drop (Suc (length (c_string w))) w" using terminated_split [OF w(1)] w(2) by simp
  then have "array_get w (int (length (slashed ([] # ws))) - 1) = Some (last (slashed ([] # ws)))"
    using array_get_last [of "slashed ([] # ws)"] by (metis list.distinct(1) slashed_empty)
  then have "array_get w (int (length (slashed ([] # ws))) - 1) = Some (CHR ''/'')"
    by (simp only: last_slashed list.distinct not_False_eq_True)
  then show ?thesis by (simp add: append_slash_def n)
qed

lemma cd_argument:
  assumes "d \<noteq> []" "\<forall>c \<in> set d. \<not> line_end c" "length d < 64"
  shows "strsplit (''cd '' @ d @ NUL # junk) (CHR '' '') zeroed zeroed =
    Some (''cd'' @ NUL # drop (Suc (Suc (Suc 0))) zeroed, d @ NUL # drop (Suc (length d)) zeroed)"
proof -
  have "line (''cd '' @ d @ NUL # junk) = ''cd '' @ d" "has_end (''cd '' @ d @ NUL # junk)"
    using assms(2) by (induction d) (simp_all add: line_end_def)
  moreover have "drop (length d) zeroed = NUL # drop (Suc (length d)) zeroed"
    using assms(3) by (simp add: zeroed_def MAX_COMMAND_DIMENSION_def Suc_diff_Suc flip: replicate_Suc)
  ultimately show ?thesis using assms(3) by (simp add: strsplit_exact)
qed

text \<open>What \<^verbatim>\<open>handle_cd\<close> makes of an argument that fits with the command into a line of 64 characters: a terminated
  text that ends with a slash.\<close>

lemma cd_destination:
  assumes d: "d \<noteq> []" "\<forall>c \<in> set d. \<not> line_end c" "d @ (if last d = CHR ''/'' then [] else ''/'') = slashed ds"
    and len: "length d < 61"
  obtains dest1 where "length dest1 = 64" "terminated dest1" "c_string dest1 = slashed ds"
    "\<And>w. cd_target (''cd '' @ d @ NUL # junk) w = do { temp \<leftarrow> from_directory w dest1; normalize_path temp }"
proof -
  define dest where "dest = d @ NUL # drop (Suc (length d)) zeroed"
  have noNUL: "NUL \<notin> set d" using d(2) by (auto simp: line_end_def)
  have split: "strsplit (''cd '' @ d @ NUL # junk) (CHR '' '') zeroed zeroed = Some (''cd'' @ NUL # drop (Suc (Suc (Suc 0))) zeroed, dest)"
    using cd_argument [OF d(1,2)] len by (simp add: dest_def)
  have dest: "length dest = 64" "terminated dest" "c_string dest = d" "strlen dest = Some (length d)"
    using len noNUL by (simp_all add: dest_def strlen_exact terminated_def c_string_own)
  have last: "array_get dest (int (length d) - 1) = Some (last d)"
    unfolding dest_def using d(1) by (rule array_get_last)
  obtain dest1 where dest1: "(if last d \<noteq> CHR ''/'' then strcat dest (lit (''/'' @ [NUL])) else Some dest) = Some dest1"
    "length dest1 = 64" "terminated dest1" "c_string dest1 = slashed ds"
  proof (cases "last d = CHR ''/''")
    case False
    have "length d + 1 < 64" using len by simp
    then obtain o' where "strcat dest (lit (''/'' @ [NUL])) = Some o'" using dest by (simp add: strcat_exact lit_def)
    then show ?thesis using that strcat_keeps [of dest "lit (''/'' @ [NUL])" o'] dest d(3) False by (simp add: lit_def)
  qed (use that dest d(3) in simp)
  show ?thesis using that [OF dest1(2-4)] split dest(4) last dest1(1) by (simp add: cd_target_def)
qed

text \<open>An absolute path always fits; a relative one is appended to the working directory, in an array of 64
  characters.\<close>

lemma cd_target_resolves:
  assumes d: "d \<noteq> []" "\<forall>c \<in> set d. \<not> line_end c" "d @ (if last d = CHR ''/'' then [] else ''/'') = slashed ds"
    and ds: "\<forall>c \<in> set ds. clean c" and w: "at_directory ws w" "\<forall>c \<in> set ws. plain c"
    and len: "length d < 61" and fits: "hd ds = [] \<or> length (slashed ws) + length (slashed ds) < 63"
    and below: "below_root 0 (if hd ds = [] then tl ds else ws @ ds)"
  shows "\<exists>p. cd_target (''cd '' @ d @ NUL # junk) w = Some p \<and>
    at_directory (if hd ds = [] then absolute [] (tl ds) else absolute ws ds) p"
proof -
  from cd_destination [OF d len] obtain dest1 where dest1: "length dest1 = 64" "terminated dest1" "c_string dest1 = slashed ds"
    "\<And>w. cd_target (''cd '' @ d @ NUL # junk) w = do { temp \<leftarrow> from_directory w dest1; normalize_path temp }" by blast
  have nonempty: "ds \<noteq> []" using d(1,3) by auto
  show ?thesis
  proof (cases "hd ds = []")
    case True
    then have c: "c_string dest1 = slashed ([] # tl ds)" using dest1(3) nonempty by (cases ds) simp_all
    then have "array_get dest1 0 = Some (CHR ''/'')" by (intro array_get_first [OF dest1(2)]) simp
    then have "from_directory w dest1 = Some dest1" using dest1(1) by (simp add: from_directory_def memcpy_whole)
    moreover have "\<forall>c \<in> set (tl ds). clean c" using ds nonempty by (cases ds) simp_all
    then obtain p where "normalize_path dest1 = Some p" "length p = 64" "terminated p" "c_string p = ''/'' @ slashed (absolute [] (tl ds))"
      using normalize_absolute [OF dest1(2) c] below True dest1(1) by auto
    ultimately show ?thesis using True dest1(4) by (simp add: at_directory_def directory_ok_def)
  next
    case False
    obtain c e rest where e: "ds = (c # e) # rest" using False nonempty by (cases ds; cases "hd ds") auto
    then have "c \<noteq> CHR ''/''" using ds by (auto simp: clean_def)
    moreover have "array_get dest1 0 = Some c" using array_get_first [OF dest1(2)] dest1(3) e by simp
    moreover have w': "length w = 64" "terminated w" "c_string w = slashed ([] # ws)"
      using w(1) by (simp_all add: at_directory_def directory_ok_def)
    moreover obtain x where x: "strcat w dest1 = Some x"
      using w' dest1(2,3) fits False by (simp add: strcat_exact)
    ultimately have "from_directory w dest1 = Some x"
      using append_slash_at_directory [OF w(1)] by (simp add: from_directory_def memcpy_whole)
    moreover have "\<forall>c \<in> set (ws @ ds). clean c" using ds w(2) by (auto simp: plain_def)
    moreover have "c_string x = slashed ([] # ws @ ds)" using strcat_keeps(3) [OF x] w'(3) dest1(3) by simp
    ultimately obtain p where "from_directory w dest1 = Some x" "normalize_path x = Some p" "length p = 64" "terminated p"
      "c_string p = ''/'' @ slashed (absolute [] (ws @ ds))"
      using normalize_absolute [of x "ws @ ds"] strcat_keeps(1,2) [OF x] below False w'(1) by auto
    then show ?thesis using False dest1(4) absolute_plain [OF w(2), of "[]" ds]
      by (simp add: at_directory_def directory_ok_def)
  qed
qed

lemma cd_target_overflows:
  assumes d: "d \<noteq> []" "\<forall>c \<in> set d. \<not> line_end c" "d @ (if last d = CHR ''/'' then [] else ''/'') = slashed ds"
    and ds: "\<forall>c \<in> set ds. clean c" and w: "at_directory ws w"
    and len: "length d < 61" and long: "hd ds \<noteq> []" "63 \<le> length (slashed ws) + length (slashed ds)"
  shows "cd_target (''cd '' @ d @ NUL # junk) w = None"
proof -
  from cd_destination [OF d len] obtain dest1 where dest1: "length dest1 = 64" "terminated dest1" "c_string dest1 = slashed ds"
    "\<And>w. cd_target (''cd '' @ d @ NUL # junk) w = do { temp \<leftarrow> from_directory w dest1; normalize_path temp }" by blast
  have "ds \<noteq> []" using d(1,3) by auto
  then obtain c e rest where e: "ds = (c # e) # rest" using long(1) by (cases ds; cases "hd ds") auto
  then have "c \<noteq> CHR ''/''" using ds by (auto simp: clean_def)
  moreover have "array_get dest1 0 = Some c" using array_get_first [OF dest1(2)] dest1(3) e by simp
  moreover have w': "length w = 64" "terminated w" "c_string w = slashed ([] # ws)"
    using w by (simp_all add: at_directory_def directory_ok_def)
  moreover have "strcat w dest1 = None" using w' dest1(2,3) long(2) by (simp add: strcat_exact)
  ultimately have "from_directory w dest1 = None"
    using append_slash_at_directory [OF w] by (simp add: from_directory_def memcpy_whole)
  then show ?thesis unfolding dest1(4) by simp
qed

end
