(* ===== verification/Shell_Interface.thy ===== *)
theory Shell_Interface
  imports Shell_Runs
begin

text \<open>
  What the shell relies on: the interface of a console that shows what is written, and of directory calls
  that use up a descriptor for each directory opened and never answer 1 for an entry. What \<^verbatim>\<open>tree\<close> and
  \<^verbatim>\<open>cd\<close> do follows from these laws alone; \<open>Shell_Kernel\<close> shows that the kernel's calls satisfy them.
\<close>

lemma lit_text [simp]: "terminated (lit t)" "NUL \<notin> set t \<Longrightarrow> c_string (lit t) = t"
  by (simp_all add: lit_def terminated_def c_string_own)

text \<open>The text of a complaint.\<close>

definition complaint :: "char list \<Rightarrow> char list \<Rightarrow> char list" where
  "complaint message p = c_string (lit (message @ quote)) @ c_string p @ c_string (lit (quote @ ''.'' @ newline))"

lemma complaint_not_empty: "complaint message p \<noteq> []"
  by (simp add: complaint_def lit_def)

text \<open>Many \<^verbatim>\<open>cd\<close> one after the other.\<close>

definition cd_step :: "'s calls \<Rightarrow> char list \<Rightarrow> char list \<times> 's \<Rightarrow> (char list \<times> 's) option" where
  "cd_step C buffer st = handle_cd C buffer (fst st) (snd st)"

locale console_calls =
  fixes C :: "'s calls" and printed :: "char list \<Rightarrow> 's \<Rightarrow> 's" and screen :: "'s \<Rightarrow> char list"
  assumes write_exact: "call_syscall_write C t w = (if terminated t then Some (printed (c_string t) w) else None)"
    and printed_again: "printed t (printed u w) = printed (u @ t) w" "printed [] w = w"
    and screen_printed: "screen (printed t w) = screen w @ t"
begin

lemma write_all_exact:
  "write_all C ts w = (if \<forall>t \<in> set ts. terminated t then Some (printed (concat (map c_string ts)) w) else None)"
  unfolding write_all_def by (induction ts arbitrary: w) (simp_all add: write_exact printed_again)

lemma complain_exact:
  "complain C message p w = (if terminated p then Some (printed (complaint message p) w) else None)"
  by (simp add: complain_def write_all_exact complaint_def)

end

locale directory_calls = console_calls +
  fixes ok :: "'s \<Rightarrow> bool" and free :: "'s \<Rightarrow> nat"
  assumes open_screen: "call_syscall_open_dir C p w = Some (fd, w1) \<Longrightarrow> screen w1 = screen w"
    and open_uses: "call_syscall_open_dir C p w = Some (fd, w1) \<Longrightarrow> ok w \<Longrightarrow>
      ok w1 \<and> free w = (if fd = -1 then free w1 else Suc (free w1))"
    and next_entry: "call_syscall_get_next_entry C fd e w = Some (r, e1, w1) \<Longrightarrow> r \<noteq> 1 \<and> screen w1 = screen w"
    and printed_same: "ok (printed t w) = ok w" "free (printed t w) = free w"
begin

text \<open>\<^verbatim>\<open>print_tree\<close> goes on while the result is 1.\<close>

lemma tree_loop_stops:
  assumes "tree_loop C p depth fd e w = Some w1"
  shows "screen w1 = screen w"
proof -
  note eq = assms [unfolded tree_loop.simps [of _ p depth fd e w]]
  then obtain r e1 w2 where n: "call_syscall_get_next_entry C fd (zero_name e) w = Some (r, e1, w2)"
    by (auto simp: bind_eq_Some_conv)
  with eq next_entry [OF n] show ?thesis by auto
qed

lemma print_tree_silent:
  assumes "print_tree C p depth w = Some w1"
  shows "screen w1 = screen w"
proof -
  from assms obtain fd w2 where o: "call_syscall_open_dir C p w = Some (fd, w2)"
    "(if fd = -1 then Some w2 else tree_loop C p depth fd new_entry w2) = Some w1"
    by (auto simp: print_tree_def bind_eq_Some_conv)
  then show ?thesis using open_screen [OF o(1)] tree_loop_stops by (cases "fd = -1") fastforce+
qed

lemma tree_prints:
  assumes "handle_tree C buffer w0 w = Some w1"
  shows "\<exists>p. tree_target buffer w0 = Some p \<and>
    (screen w1 = screen w @ c_string p @ newline \<or>
     screen w1 = screen w @ complaint ''[SHELL] Error: cannot open directory '' p)"
proof -
  from assms obtain p fd w2 where p: "tree_target buffer w0 = Some p" "call_syscall_open_dir C p w = Some (fd, w2)"
    "(if fd = -1 then complain C ''[SHELL] Error: cannot open directory '' p w2
      else do { w3 \<leftarrow> write_all C [p, lit newline] w2; print_tree C p 0 w3 }) = Some w1"
    by (auto simp: handle_tree_def bind_eq_Some_conv)
  note o = open_screen [OF p(2)]
  show ?thesis
  proof (cases "fd = -1")
    case True
    then show ?thesis using p o by (auto simp: complain_exact screen_printed split: if_splits)
  next
    case False
    then have "print_tree C p 0 (printed (c_string p @ newline) w2) = Some w1"
      using p(3) by (auto simp: write_all_exact split: if_splits)
    from print_tree_silent [OF this] show ?thesis using p(1) o by (simp add: screen_printed)
  qed
qed

text \<open>Changing the directory takes a descriptor for good; without one it fails.\<close>

lemma cd_uses_descriptor:
  assumes "handle_cd C buffer w0 w = Some (w1, u)" "ok w"
  shows "ok u \<and> (screen u = screen w \<and> free w = Suc (free u) \<or>
     w1 = w0 \<and> free w = free u \<and>
     (\<exists>p. screen u = screen w @ complaint ''[SHELL] Error: cannot change directory to '' p))"
proof -
  from assms(1) obtain p fd w2 where p: "call_syscall_open_dir C p w = Some (fd, w2)"
    "(if fd = -1 then do { w3 \<leftarrow> complain C ''[SHELL] Error: cannot change directory to '' p w2; Some (w0, w3) }
      else do { d \<leftarrow> memcpy_chars w0 p MAX_COMMAND_DIMENSION; Some (d, w2) }) = Some (w1, u)"
    by (auto simp: handle_cd_def bind_eq_Some_conv)
  note o = open_screen [OF p(1)] open_uses [OF p(1) assms(2)]
  show ?thesis
  proof (cases "fd = -1")
    case True
    then have "w1 = w0" "u = printed (complaint ''[SHELL] Error: cannot change directory to '' p) w2"
      using p(2) by (auto simp: complain_exact bind_eq_Some_conv split: if_splits)
    then show ?thesis using o True by (auto simp: screen_printed printed_same)
  next
    case False
    then have "u = w2" using p(2) by (auto simp: bind_eq_Some_conv)
    then show ?thesis using o False by auto
  qed
qed

lemma cds_use_descriptors:
  assumes "foldM (cd_step C) buffers st = Some st1" "ok (snd st)"
  shows "ok (snd st1) \<and> (\<exists>t. screen (snd st1) = screen (snd st) @ t \<and>
      (t = [] \<longrightarrow> free (snd st) = length buffers + free (snd st1)))"
  using assms
proof (induction buffers arbitrary: st)
  case (Cons b bs)
  then obtain st2 where st2: "cd_step C b st = Some st2" "foldM (cd_step C) bs st2 = Some st1"
    by (auto simp: bind_eq_Some_conv)
  note D = cd_uses_descriptor [of b "fst st" "snd st" "fst st2" "snd st2"]
  have d: "handle_cd C b (fst st) (snd st) = Some (fst st2, snd st2)" using st2(1) by (simp add: cd_step_def)
  from Cons.IH [OF st2(2)] D [OF d Cons.prems(2)] obtain t where t: "ok (snd st1)"
    "screen (snd st1) = screen (snd st2) @ t" "t = [] \<longrightarrow> free (snd st2) = length bs + free (snd st1)" by blast
  from D [OF d Cons.prems(2)] consider "screen (snd st2) = screen (snd st)" "free (snd st) = Suc (free (snd st2))"
    | p where "screen (snd st2) = screen (snd st) @ complaint ''[SHELL] Error: cannot change directory to '' p" by blast
  then show ?case
    using t complaint_not_empty by cases auto
qed auto

end

end
