(* ===== verification/User_Programs.thy ===== *)
theory User_Programs
  imports User_Calls
begin

text \<open>
  The small user programs: \<^verbatim>\<open>common/process_api.c\<close>, \<^verbatim>\<open>user/user.c\<close>, and \<^verbatim>\<open>app/run_all.c\<close>,
  \<^verbatim>\<open>signals_test.c\<close>, \<^verbatim>\<open>fork_test.c\<close>, \<^verbatim>\<open>arguments_test.c\<close> and the printing of numbers of
  \<^verbatim>\<open>benchmark.c\<close>. A program ends with \<^verbatim>\<open>call_syscall_exit\<close>; one that never ends has no result.
\<close>

subsection \<open>Creating processes\<close>

definition set_if_given :: "'s calls \<Rightarrow> int \<Rightarrow> int \<Rightarrow> int \<Rightarrow> 's \<Rightarrow> 's option" where
  "set_if_given C child param v s =
     (if v \<ge> 0 then do { (_, s1) \<leftarrow> call_syscall_set_sched_param C child param v s; Some s1 } else Some s)"

definition spawn_process :: "'s calls \<Rightarrow> char list \<Rightarrow> int \<Rightarrow> int \<Rightarrow> int \<Rightarrow> 's \<Rightarrow> (int outcome \<times> 's) option" where
  "spawn_process C program prio tick queue s = do {
     (child, s1) \<leftarrow> call_syscall_fork C s;
     if child < 0 then Some (Returns (-1), s1)
     else if child = 0 then do {
       (r, s2) \<leftarrow> call_syscall_exec C program 0 [] s1;
       case r of
         Gone \<Rightarrow> Some (Gone, s2)
       | Returns error \<Rightarrow> if error \<noteq> 0 then exit_now C s2 else Some (Returns 0, s2)
     } else do {
       s2 \<leftarrow> set_if_given C child SCHED_PARAM_PRIORITY prio s1;
       s3 \<leftarrow> set_if_given C child SCHED_PARAM_TICKETS tick s2;
       s4 \<leftarrow> set_if_given C child SCHED_PARAM_QUEUE_PRIORITY queue s3;
       Some (Returns child, s4)
     }
   }"

definition init_process_main :: "'s calls \<Rightarrow> 's \<Rightarrow> (unit outcome \<times> 's) option" where
  "init_process_main C s = do {
     (child, s1) \<leftarrow> call_syscall_fork C s;
     if child = 0 then do {
       (r, s2) \<leftarrow> call_syscall_exec C (lit ''/bin/shell.bin'') 0 [] s1;
       case r of
         Gone \<Rightarrow> Some (Gone, s2)
       | Returns error \<Rightarrow>
           if error \<noteq> 0 then do {
             s3 \<leftarrow> call_syscall_write C (lit (''[INIT] Cannot start shell binary'' @ newline)) s2;
             exit_now C s3
           } else Some (Returns (), s2)
     } else do {
       s2 \<leftarrow> call_syscall_write C (lit (''[INIT] Init process started '' @ newline)) s1;
       (_, s3) \<leftarrow> call_syscall_wait C child s2;
       exit_now C s3
     }
   }"

subsection \<open>The load test\<close>

definition NUM_PROCESSES :: nat where "NUM_PROCESSES = 4"

text \<open>The loop that starts the programs, and the one that waits for them. \<open>pids\<close> is the array as it was.\<close>

fun start_all :: "'s calls \<Rightarrow> nat list \<Rightarrow> int list \<Rightarrow> 's \<Rightarrow> (int list outcome \<times> 's) option" where
  "start_all C [] pids s = Some (Returns pids, s)"
| "start_all C (i # is) pids s = do {
     (r, s1) \<leftarrow> spawn_process C (lit ''/bin/benchmark.bin'') (int i + 1) ((int i + 1) * 10) (int i) s;
     case r of
       Gone \<Rightarrow> Some (Gone, s1)
     | Returns child \<Rightarrow>
         if child < 0 then do {
           s2 \<leftarrow> call_syscall_write C (lit (''[RUN_ALL] Error: unable to start the binary!'' @ newline)) s1;
           start_all C is pids s2
         } else do { pids1 \<leftarrow> array_set pids (int i) child; start_all C is pids1 s1 }
   }"

definition wait_one :: "'s calls \<Rightarrow> int list \<Rightarrow> nat \<Rightarrow> 's \<Rightarrow> 's option" where
  "wait_one C pids i s = do { p \<leftarrow> array_get pids (int i); (_, s1) \<leftarrow> call_syscall_wait C p s; Some s1 }"

definition run_all_main :: "'s calls \<Rightarrow> int list \<Rightarrow> 's \<Rightarrow> (unit outcome \<times> 's) option" where
  "run_all_main C junk s = do {
     s1 \<leftarrow> call_syscall_write C (lit (''[RUN_ALL] Starting multiple load test...'' @ newline)) s;
     (r, s2) \<leftarrow> start_all C [0..<NUM_PROCESSES] junk s1;
     case r of
       Gone \<Rightarrow> Some (Gone, s2)
     | Returns pids \<Rightarrow> do {
         s3 \<leftarrow> call_syscall_write C (lit (''[RUN_ALL] All processes started. Waiting for completion...'' @ newline)) s2;
         s4 \<leftarrow> foldM (wait_one C pids) [0..<NUM_PROCESSES] s3;
         s5 \<leftarrow> call_syscall_write C (lit (''[RUN_ALL] Test completed! All processes have terminated.'' @ newline)) s4;
         exit_now C s5
       }
   }"

subsection \<open>Tests\<close>

partial_function (option) son_loop :: "'s calls \<Rightarrow> 's \<Rightarrow> (unit outcome \<times> 's) option" where
  "son_loop C s = do {
     s1 \<leftarrow> call_syscall_write C (lit (''[SON] I am the son and I'' @ [CHR 0x27] @ ''m using the CPU just for fun'' @ newline)) s;
     s2 \<leftarrow> call_syscall_yield C s1;
     son_loop C s2
   }"

definition signals_test_main :: "'s calls \<Rightarrow> 's \<Rightarrow> (unit outcome \<times> 's) option" where
  "signals_test_main C s = do {
     (child, s1) \<leftarrow> call_syscall_fork C s;
     if child = 0 then do { s2 \<leftarrow> call_syscall_write C (lit (''[SON] Started...'' @ newline)) s1; son_loop C s2 }
     else do {
       s2 \<leftarrow> call_syscall_yield C s1;
       (_, s3) \<leftarrow> call_syscall_send_signal C child (int SIGNAL_KILL) s2;
       s4 \<leftarrow> call_syscall_write C (lit (''[FATHER] I terminate my son.'' @ newline)) s3;
       exit_now C s4
     }
   }"

text \<open>The son receives five messages, each into a zeroed buffer.\<close>

definition receive_one :: "'s calls \<Rightarrow> nat \<Rightarrow> 's \<Rightarrow> 's option" where
  "receive_one C i s = do {
     (buffer, s1) \<leftarrow> call_syscall_receive_message C (replicate 64 NUL) s;
     write_all C [lit (''[FATHER] Message received from FATHER: '' @ [CHR 0x27]), buffer, lit ([CHR 0x27] @ ''.'' @ newline)] s1
   }"

definition test_messages :: "char list list" where
  "test_messages = [lit ''hello'', lit ''world'', lit ''demoos'', lit ''is'', lit ''great!'']"

fun send_all :: "'s calls \<Rightarrow> int \<Rightarrow> char list list \<Rightarrow> 's \<Rightarrow> 's option" where
  "send_all C child [] s = Some s"
| "send_all C child (m # ms) s = do {
     (ok, s1) \<leftarrow> call_syscall_send_message C child m s;
     if ok = -1 then call_syscall_write C (lit (''[SON] Error sending message to SON.'' @ newline)) s1
     else do {
       s2 \<leftarrow> write_all C [lit (''[SON] Message '' @ [CHR 0x27]), m, lit ([CHR 0x27] @ '' sent to SON.'' @ newline)] s1;
       send_all C child ms s2
     }
   }"

definition fork_test_main :: "'s calls \<Rightarrow> 's \<Rightarrow> (unit outcome \<times> 's) option" where
  "fork_test_main C s = do {
     (child, s1) \<leftarrow> call_syscall_fork C s;
     if child = 0 then do {
       s2 \<leftarrow> call_syscall_yield C s1;
       s3 \<leftarrow> foldM (receive_one C) [0..<5] s2;
       exit_now C s3
     } else do {
       s2 \<leftarrow> call_syscall_write C (lit (''[SON] Sending message to SON'' @ newline)) s1;
       s3 \<leftarrow> send_all C child test_messages s2;
       s4 \<leftarrow> call_syscall_write C (lit (''[SON] I sent all the messages'' @ newline)) s3;
       exit_now C s4
     }
   }"

definition arguments_test_main :: "'s calls \<Rightarrow> int \<Rightarrow> char list \<Rightarrow> char list \<Rightarrow> 's \<Rightarrow> (unit outcome \<times> 's) option" where
  "arguments_test_main C n_arguments arg1 arg2 s = do {
     s1 \<leftarrow> write_all C [lit (''[TEST]'' @ newline @ ''I'' @ [CHR 0x27] @ ''m loaded from the filesystem.'' @ newline),
                      lit ''TEST ARGUMENTS NUMBER (EXPECTED 1) - '',
                      lit ((if n_arguments = 1 then ''SUCCESS'' else ''FAIL'') @ newline),
                      lit ''Argument 1: '', arg1, lit newline, lit ''Argument 2: '', arg2, lit newline] s;
     exit_now C s1
   }"

subsection \<open>Printing a number\<close>

definition divisors :: "ulong list" where
  "divisors = [1000000000, 100000000, 10000000, 1000000, 100000, 10000, 1000, 100, 10, 1]"

lemma word_sub_smaller: "d \<noteq> 0 \<Longrightarrow> d \<le> num \<Longrightarrow> unat (num - d) < unat num" for d :: "'a :: len word"
  by (simp add: unat_sub word_le_nat_alt flip: unat_gt_0)

text \<open>The inner loop, for a divisor that is not 0; then one position: the digit goes to \<open>buffer\<close>.\<close>

function count_loop :: "ulong \<Rightarrow> ulong \<Rightarrow> int \<Rightarrow> ulong \<times> int" where
  "count_loop num d cnt = (if d \<noteq> 0 \<and> num \<ge> d then count_loop (num - d) d (cnt + 1) else (num, cnt))"
  by pat_completeness auto

termination
  by (relation "measure (\<lambda>(num, d, cnt). unat num)") (auto simp: word_sub_smaller)

declare count_loop.simps [simp del]

definition print_digit :: "ulong \<Rightarrow> ulong \<times> char list \<times> nat \<times> bool \<Rightarrow> (ulong \<times> char list \<times> nat \<times> bool) option" where
  "print_digit d st = do {
     let (num, buffer, i, started) = st;
     let (num, cnt) = count_loop num d 0;
     if cnt > 0 \<or> started then do {
       buffer1 \<leftarrow> array_set buffer (int i) (char_of (nat ((cnt + 48) mod 256)));
       Some (num, buffer1, i + 1, True)
     } else Some (num, buffer, i, started)
   }"

text \<open>\<open>junk\<close> is what the local array of 32 characters held.\<close>

definition print_int :: "'s calls \<Rightarrow> char list \<Rightarrow> ulong \<Rightarrow> 's \<Rightarrow> 's option" where
  "print_int C junk num s =
     (if num = 0 then call_syscall_write C (lit ''0'') s
      else do {
        (_, buffer, i, _) \<leftarrow> foldM print_digit divisors (num, junk, 0, False);
        buffer1 \<leftarrow> array_set buffer (int i) NUL;
        call_syscall_write C buffer1 s
      })"

text \<open>The computation whose time is taken. The result is not used, but the sum is a C integer: leaving its
  range has no defined result.\<close>

definition calcolo_step :: "nat \<Rightarrow> int \<Rightarrow> int option" where
  "calcolo_step i calcolo =
     (if calcolo + int i < 2 ^ 31 then Some ((calcolo + int i) XOR (int i mod 3)) else None)"

definition benchmark_main :: "'s calls \<Rightarrow> char list \<Rightarrow> 's \<Rightarrow> (unit outcome \<times> 's) option" where
  "benchmark_main C junk s = do {
     (start_time, s1) \<leftarrow> call_syscall_get_time C s;
     _ \<leftarrow> foldM calcolo_step [0..<50000000] 0;
     (end_time, s2) \<leftarrow> call_syscall_get_time C s1;
     s3 \<leftarrow> call_syscall_write C (lit ''Benchmark completed! Time elapsed (microseconds): '') s2;
     s4 \<leftarrow> print_int C junk (end_time - start_time) s3;
     s5 \<leftarrow> call_syscall_write C (lit newline) s4;
     exit_now C s5
   }"

subsection \<open>What is printed\<close>

text \<open>The inner loop divides.\<close>

lemma count_loop_exact:
  "d \<noteq> 0 \<Longrightarrow> count_loop num d cnt = (num mod d, cnt + int (unat num div unat d))"
proof (induction num d cnt rule: count_loop.induct)
  case (1 num d cnt)
  show ?case
  proof (cases "d \<le> num")
    case True
    then have le: "unat d \<le> unat num" "0 < unat d" using 1(2) by (simp_all add: word_le_nat_alt flip: unat_gt_0)
    then have "unat num div unat d = Suc (unat (num - d) div unat d)"
      using True by (simp add: unat_sub le_div_geq)
    moreover have "(num - d) mod d = num mod d"
      using True le by (intro word_unat_eq_iff [THEN iffD2]) (simp add: unat_mod unat_sub le_mod_geq)
    ultimately show ?thesis using 1 True by (subst count_loop.simps) simp
  next
    case False
    then have "unat num < unat d" by (simp add: word_le_nat_alt)
    then have "num mod d = num" by (intro word_unat_eq_iff [THEN iffD2]) (simp add: unat_mod)
    then show ?thesis using False \<open>unat num < unat d\<close> by (subst count_loop.simps) simp
  qed
qed

definition digit :: "nat \<Rightarrow> char" where "digit k = char_of (k + 48)"

text \<open>The digits for a list of divisors, leading zeros dropped unless \<open>b\<close>, and the number a text of digits means.\<close>

fun digits_for :: "nat list \<Rightarrow> nat \<Rightarrow> bool \<Rightarrow> char list" where
  "digits_for [] n b = []"
| "digits_for (d # ds) n b =
     (if n div d > 0 \<or> b then digit (n div d) # digits_for ds (n mod d) True else digits_for ds (n mod d) False)"

definition number_of :: "nat \<Rightarrow> char list \<Rightarrow> nat" where
  "number_of v t = foldl (\<lambda>v c. 10 * v + (of_char c - 48)) v t"

definition is_digit :: "char \<Rightarrow> bool" where
  "is_digit c \<longleftrightarrow> 48 \<le> (of_char c :: nat) \<and> (of_char c :: nat) \<le> 57"

lemma digit_simps:
  assumes "k < 10"
  shows "(of_char (digit k) :: nat) = k + 48" "is_digit (digit k)"
proof -
  show "(of_char (digit k) :: nat) = k + 48" using assms by (simp add: digit_def of_char_of)
  then show "is_digit (digit k)" using assms by (simp add: is_digit_def)
qed

fun powers :: "nat \<Rightarrow> nat list" where
  "powers 0 = []"
| "powers (Suc k) = 10 ^ k # powers k"

lemma digits_for_length: "length (digits_for ds n b) \<le> length ds"
  by (induction ds n b rule: digits_for.induct) auto

lemma number_of_Cons: "k < 10 \<Longrightarrow> number_of v (digit k # t) = number_of (10 * v + k) t"
  by (simp add: number_of_def digit_simps)

lemma digits_for_padded: "n < 10 ^ k \<Longrightarrow> number_of v (digits_for (powers k) n True) = v * 10 ^ k + n"
proof (induction k arbitrary: n v)
  case (Suc k)
  have q: "n div 10 ^ k < 10" "n mod 10 ^ k < 10 ^ k" using Suc.prems by (simp_all add: less_mult_imp_div_less)
  have "n div 10 ^ k * 10 ^ k + n mod 10 ^ k = n" by (rule div_mult_mod_eq)
  then show ?case using Suc.IH [OF q(2)] number_of_Cons [OF q(1)] by (simp add: algebra_simps)
qed (simp add: number_of_def)

lemma digits_for_value: "n < 10 ^ k \<Longrightarrow> number_of 0 (digits_for (powers k) n False) = n"
proof (induction k arbitrary: n)
  case (Suc k)
  have q: "n div 10 ^ k < 10" "n mod 10 ^ k < 10 ^ k" using Suc.prems by (simp_all add: less_mult_imp_div_less)
  show ?case
  proof (cases "n div 10 ^ k = 0")
    case True
    then show ?thesis using Suc.IH [OF q(2)] div_mult_mod_eq [of n "10 ^ k"] by simp
  next
    case False
    then show ?thesis using digits_for_padded [OF q(2)] number_of_Cons [OF q(1), of 0] div_mult_mod_eq [of n "10 ^ k"] by simp
  qed
qed (simp add: number_of_def)

lemma digits_for_digits: "n < 10 ^ k \<Longrightarrow> \<forall>c \<in> set (digits_for (powers k) n b). is_digit c"
proof (induction k arbitrary: n b)
  case (Suc k)
  have q: "n div 10 ^ k < 10" "n mod 10 ^ k < 10 ^ k" using Suc.prems by (simp_all add: less_mult_imp_div_less)
  show ?case using Suc.IH [OF q(2)] digit_simps(2) [OF q(1)] by simp
qed simp

lemma digits_for_no_zero:
  "n < 10 ^ k \<Longrightarrow> 0 < n \<Longrightarrow> \<exists>c t. digits_for (powers k) n False = c # t \<and> c \<noteq> CHR ''0''"
proof (induction k arbitrary: n)
  case (Suc k)
  have q: "n div 10 ^ k < 10" "n mod 10 ^ k < 10 ^ k" using Suc.prems by (simp_all add: less_mult_imp_div_less)
  show ?case
  proof (cases "n div 10 ^ k = 0")
    case True
    then have "0 < n mod 10 ^ k" using Suc.prems(2) div_mult_mod_eq [of n "10 ^ k"] by simp
    then show ?thesis using Suc.IH [OF q(2)] True by simp
  next
    case False
    have "(of_char (CHR ''0'') :: nat) = 48" by simp
    then have "digit (n div 10 ^ k) \<noteq> CHR ''0''" using digit_simps(1) [OF q(1)] False by auto
    then show ?thesis using False by simp
  qed
qed simp

text \<open>The loop over the divisors.\<close>

lemma print_digits:
  assumes "map unat ds = powers k" "unat num < 10 ^ k" "k \<le> length t"
  shows "\<exists>num' b' t'. foldM print_digit ds (num, pre @ t, length pre, b) =
    Some (num', pre @ digits_for (powers k) (unat num) b @ t', length pre + length (digits_for (powers k) (unat num) b), b') \<and>
    length t = length (digits_for (powers k) (unat num) b) + length t'"
  using assms
proof (induction k arbitrary: ds num pre t b)
  case (Suc k)
  then obtain d ds' where ds: "ds = d # ds'" "unat d = 10 ^ k" "map unat ds' = powers k" by (cases ds) auto
  have d0: "d \<noteq> 0" using ds(2) by auto
  have q: "unat num div 10 ^ k < 10" "unat (num mod d) < 10 ^ k"
    using Suc.prems(2) ds(2) by (simp_all add: less_mult_imp_div_less unat_mod)
  let ?q = "unat num div 10 ^ k"
  have cl: "count_loop num d 0 = (num mod d, int ?q)" using count_loop_exact [OF d0, of num 0] ds(2) by simp
  show ?case
  proof (cases "?q > 0 \<or> b")
    case True
    from Suc.prems(3) obtain x t1 where t: "t = x # t1" "k \<le> length t1" by (cases t) auto
    have ch: "char_of (nat ((int ?q + 48) mod 256)) = digit ?q" using q(1) by (simp add: digit_def nat_add_distrib)
    have "print_digit d (num, pre @ t, length pre, b) = Some (num mod d, (pre @ [digit ?q]) @ t1, length (pre @ [digit ?q]), True)"
      using True cl ch t(1) by (auto simp: print_digit_def array_set_def list_update_append)
    moreover from Suc.IH [OF ds(3) q(2) t(2), of "pre @ [digit ?q]" True] obtain num' b' t' where
      "foldM print_digit ds' (num mod d, (pre @ [digit ?q]) @ t1, length (pre @ [digit ?q]), True) =
        Some (num', (pre @ [digit ?q]) @ digits_for (powers k) (unat (num mod d)) True @ t',
          length (pre @ [digit ?q]) + length (digits_for (powers k) (unat (num mod d)) True), b')"
      "length t1 = length (digits_for (powers k) (unat (num mod d)) True) + length t'" by blast
    ultimately show ?thesis using True t(1) ds by (simp add: unat_mod)
  next
    case False
    then have "print_digit d (num, pre @ t, length pre, b) = Some (num mod d, pre @ t, length pre, b)"
      using cl by (simp add: print_digit_def)
    then show ?thesis using False Suc.IH [OF ds(3) q(2), of t pre b] Suc.prems(3) ds by (simp add: unat_mod)
  qed
qed simp

lemma powers_numeral: "powers (numeral w) = 10 ^ pred_numeral w # powers (pred_numeral w)"
  by (simp only: numeral_eq_Suc powers.simps)

lemma divisors_powers: "map unat divisors = powers 10"
  by (simp add: divisors_def powers_numeral)

subsection \<open>The computation of the benchmark\<close>

text \<open>The exclusive or takes away at most the remainder, so the sum leaves the range of a C integer.\<close>

lemma xor_lower:
  fixes a b :: int
  assumes "0 \<le> a" "0 \<le> b"
  shows "a - b \<le> a XOR b"
proof -
  have "x XOR y \<le> x + y" if "0 \<le> x" "0 \<le> y" for x y :: int
  proof -
    have "(x XOR y) AND (x AND y) = 0" "(x XOR y) OR (x AND y) = x OR y"
      by (rule bit_eqI, auto simp: bit_simps)+
    then have "(x XOR y) + 2 * (x AND y) = x + y"
      using plus_and_or [of "x XOR y" "x AND y"] plus_and_or [of x y] by simp
    moreover have "0 \<le> x AND y" using that by simp
    ultimately show ?thesis by linarith
  qed
  from this [of "a XOR b" b] have "(a XOR b) XOR b \<le> (a XOR b) + b" using assms by simp
  then show ?thesis by (simp add: xor.assoc)
qed

lemma calcolo_Suc:
  "foldM calcolo_step [0..<Suc n] 0 = Some c \<longleftrightarrow> (\<exists>b. foldM calcolo_step [0..<n] 0 = Some b \<and>
     b + int n < 2 ^ 31 \<and> c = (b + int n) XOR (int n mod 3))"
proof -
  have "foldM calcolo_step [n] b = calcolo_step n b" for b by (cases "calcolo_step n b") simp_all
  then have "foldM calcolo_step [0..<Suc n] 0 = foldM calcolo_step [0..<n] 0 \<bind> calcolo_step n"
    by (simp add: foldM_append)
  then show ?thesis by (auto simp: bind_eq_Some_conv calcolo_step_def)
qed

lemma calcolo_grows:
  "foldM calcolo_step [0..<n] 0 = Some c \<Longrightarrow> 0 \<le> c \<and> int n * (int n - 5) \<le> 2 * c"
proof (induction n arbitrary: c)
  case (Suc n)
  from Suc.prems obtain b where b: "foldM calcolo_step [0..<n] 0 = Some b"
    and c: "c = (b + int n) XOR (int n mod 3)"
    unfolding calcolo_Suc by blast
  note b = Suc.IH [OF b]
  have "0 \<le> int n mod 3" "int n mod 3 \<le> 2" by (simp_all add: pos_mod_bound [of 3 "int n"] zle_diff1_eq [symmetric])
  with xor_lower [of "b + int n" "int n mod 3"] b have "b + int n - 2 \<le> c" "0 \<le> c" unfolding c by simp_all
  then show ?case using b by (simp add: algebra_simps)
qed simp

lemma benchmark_overflows: "benchmark_main C junk s = None"
proof -
  let ?n = "50000000 :: nat"
  have "foldM calcolo_step [0..<?n] 0 \<noteq> Some c" for c
  proof
    assume "foldM calcolo_step [0..<?n] 0 = Some c"
    then have "foldM calcolo_step [0..<Suc (?n - 1)] 0 = Some c" by (simp del: upt_Suc)
    then obtain b where b: "foldM calcolo_step [0..<?n - 1] 0 = Some b" "b + int (?n - 1) < 2 ^ 31"
      unfolding calcolo_Suc by blast
    from calcolo_grows [OF b(1)] b(2) show False by simp
  qed
  then have "foldM calcolo_step [0..<?n] 0 = None" by (cases "foldM calcolo_step [0..<?n] 0") blast+
  then show ?thesis by (auto simp: benchmark_main_def bind_eq_None_conv split: prod.splits)
qed

end
