(* ===== verification/Shell_Kernel.thy ===== *)
theory Shell_Kernel
  imports Shell_Interface User_Programs
begin

text \<open>
  The shell on the kernel: \<open>kernel_calls\<close> puts the kernel's handlers for files, directories and the
  console behind the system calls; the others (processes, input, messages) stay a parameter.
\<close>

record user_world =
  fs :: file_state
  console_of :: uart_state

definition with_fs :: "(int \<times> file_state) option \<Rightarrow> user_world \<Rightarrow> (int \<times> user_world) option" where
  "with_fs r w = do { (v, st) \<leftarrow> r; Some (v, w\<lparr>fs := st\<rparr>) }"

definition with_console :: "uart_state option \<Rightarrow> user_world \<Rightarrow> user_world option" where
  "with_console r w = do { u \<leftarrow> r; Some (w\<lparr>console_of := u\<rparr>) }"

text \<open>The bytes the kernel reads from and writes to the buffers of the program.\<close>

definition kernel_calls :: "char list \<Rightarrow> user_world calls \<Rightarrow> user_world calls" where
  "kernel_calls junk others = others\<lparr>
     call_syscall_write := (\<lambda>t w. with_console (syscall_write t (console_of w)) w),
     call_syscall_write_hex := (\<lambda>n w. with_console (syscall_write_hex n (console_of w)) w),
     call_syscall_create_dir := (\<lambda>p w. with_fs (syscall_create_dir junk p (fs w)) w),
     call_syscall_open_dir := (\<lambda>p w. with_fs (syscall_open_dir junk p (fs w)) w),
     call_syscall_open_file := (\<lambda>p fl w. with_fs (syscall_open_file junk p fl (fs w)) w),
     call_syscall_close_file := (\<lambda>fd w. with_fs (syscall_close_file fd (fs w)) w),
     call_syscall_write_file := (\<lambda>fd t n w. do {
       (r, _, st) \<leftarrow> syscall_write_file fd (map of_char t) n (fs w);
       Some (r, w\<lparr>fs := st\<rparr>) }),
     call_syscall_read_file := (\<lambda>fd t n w. do {
       (r, data, st) \<leftarrow> syscall_read_file fd n (fs w);
       if length data > length t then None
       else Some (r, map (\<lambda>b. char_of (unat b)) data @ drop (length data) t, w\<lparr>fs := st\<rparr>) }),
     call_syscall_get_next_entry := (\<lambda>fd info w. do {
       (r, info1, st) \<leftarrow> syscall_get_next_entry fd info (fs w);
       Some (r, info1, w\<lparr>fs := st\<rparr>) })\<rparr>"

subsection \<open>The console\<close>

definition printed :: "char list \<Rightarrow> user_world \<Rightarrow> user_world" where
  "printed t w = w\<lparr>console_of := (console_of w)\<lparr>tx := tx (console_of w) @ t\<rparr>\<rparr>"

lemma printed_simps [simp]:
  "fs (printed t w) = fs w" "tx (console_of (printed t w)) = tx (console_of w) @ t" "printed t (printed u w) = printed (u @ t) w"
  "printed [] w = w" "(printed t w)\<lparr>fs := st\<rparr> = printed t (w\<lparr>fs := st\<rparr>)"
  by (simp_all add: printed_def)

lemma uart_puts_exact: "uart_puts t u = (if terminated t then Some (u\<lparr>tx := tx u @ c_string t\<rparr>) else None)"
  by (induction t u rule: uart_puts.induct) (auto simp: uart_putc_def)

lemma kernel_write: "call_syscall_write (kernel_calls junk C) t w = (if terminated t then Some (printed (c_string t) w) else None)"
  by (simp add: kernel_calls_def syscall_write_def uart_puts_exact with_console_def printed_def)

subsection \<open>The calls on directories\<close>

lemma next_entry_result:
  assumes "syscall_get_next_entry fd entry st = Some (r, entry', st1)"
  shows "r = 0 \<or> r = -1"
  using assms by (auto simp: syscall_get_next_entry_def bind_eq_Some_conv Let_def split: if_splits sum.split_asm) (metis sum.exhaust)

lemma kernel_next_entry:
  assumes "call_syscall_get_next_entry (kernel_calls junk C) fd e w = Some (r, e1, w1)"
  shows "r = 0 \<or> r = -1" "console_of w1 = console_of w" "syscall_get_next_entry fd e (fs w) = Some (r, e1, fs w1)"
  using assms by (auto simp: kernel_calls_def bind_eq_Some_conv dest: next_entry_result)

lemma kernel_open:
  assumes "call_syscall_open_dir (kernel_calls junk C) p w = Some (fd, w1)"
  shows "console_of w1 = console_of w" "syscall_open_dir junk p (fs w) = Some (fd, fs w1)"
  using assms by (auto simp: kernel_calls_def with_fs_def bind_eq_Some_conv)

lemma open_result:
  assumes "files_ok st"
  shows "syscall_open_dir junk p st = Some (fd, st1) \<Longrightarrow> fd = -1 \<or> 0 \<le> fd"
    "syscall_open_file junk p fl st = Some (fd, st1) \<Longrightarrow> fd = -1 \<or> 0 \<le> fd"
proof -
  show "syscall_open_dir junk p st = Some (fd, st1) \<Longrightarrow> fd = -1 \<or> 0 \<le> fd"
    using open_with_descriptors [OF assms _ call_dir_frame(1) call_dir_frame(2)]
    unfolding syscall_open_dir_def by fastforce
  show "syscall_open_file junk p fl st = Some (fd, st1) \<Longrightarrow> fd = -1 \<or> 0 \<le> fd"
    using open_with_descriptors [OF assms _ call_file_frame(1) call_file_frame(2)]
    unfolding syscall_open_file_def by fastforce
qed

text \<open>So the kernel provides what the shell relies on.\<close>

interpretation kernel: directory_calls "kernel_calls junk C" printed "\<lambda>w. tx (console_of w)"
  "\<lambda>w. files_ok (fs w)" "\<lambda>w. free_descriptors (fs w)"
proof (unfold_locales, goal_cases)
  case (6 p w fd w1)
  note o = kernel_open(2) [OF 6(1)]
  show ?case using open_calls_descriptors(1) [OF 6(2) o] open_result(1) [OF 6(2) o] by auto
qed (auto simp: kernel_write kernel_open(1) kernel_next_entry(2) dest: kernel_next_entry(1))

subsection \<open>Writing a file\<close>

text \<open>Opening leaves the offset at 0, whatever its outcome.\<close>

definition at_start :: "('a, File \<times> cursor) io \<Rightarrow> bool" where
  "at_start r \<longleftrightarrow> (\<forall>x t. r = Some (x, t) \<longrightarrow> f_offset (fst t) = 0)"

lemma at_start_bind: "at_start r \<Longrightarrow> (\<And>v t. f_offset (fst t) = 0 \<Longrightarrow> at_start (k v t)) \<Longrightarrow> at_start (bind_io r k)"
  by (fastforce simp: at_start_def bind_io_def split: Option.bind_splits sum.split_asm)

lemma at_start_simps [simp]:
  "at_start (ret v s) \<longleftrightarrow> f_offset (fst s) = 0" "at_start (fail err s) \<longleftrightarrow> f_offset (fst s) = 0" "at_start None"
  "at_start (Some (x, s)) \<longleftrightarrow> f_offset (fst s) = 0"
  by (cases s; simp add: at_start_def)+

lemma at_start_cursor: "f_offset (fst s) = 0 \<Longrightarrow> at_start (on_cursor m s)"
  by (auto simp: at_start_def on_cursor_def bind_eq_Some_conv)

lemma at_start_sectors:
  assumes "f_offset (fst s) = 0"
  shows "at_start (file_write_sector x s)" "at_start (file_read_sector x s)"
  using assms
  by (auto simp: file_write_sector_def file_read_sector_def file_vol_io_def set_file_def Let_def intro!: at_start_bind at_start_cursor)

lemma at_start_seek:
  assumes "f_offset (fst s) = 0"
  shows "at_start (fat_file_seek 0 FAT_SEEK_START s)"
  using assms
  by (auto simp: fat_file_seek_def seek_base_def FAT_SEEK_START_def FAT_SEEK_CURR_def FAT_SEEK_END_def Let_def set_file_def
      intro!: at_start_bind at_start_sectors)

lemma at_start_open:
  assumes "f_offset (fst s) = 0"
  shows "at_start (fat_file_open (FAT_CREATE OR FAT_WRITE) s)"
proof -
  have create: "at_start (create_file s)" if "f_offset (fst s) = 0" for s
    using that by (auto simp: create_file_def Let_def intro!: at_start_bind at_start_cursor)
  have find: "at_start (find_or_create fl s)"  for fl
    using assms create by (cases "follow_path (on_dir (\<lambda>d. d\<lparr>d_fat := None\<rparr>) (snd s))") (auto simp: find_or_create_def Let_def split: sum.split)
  have "at_start (open_at (FAT_CREATE OR FAT_WRITE) t)" for t
    by (simp add: open_at_def Let_def FAT_CREATE_def FAT_WRITE_def FAT_APPEND_def FAT_TRUNC_def at_start_seek file_at_def)
  then show ?thesis using find by (simp add: fat_file_open_def at_start_bind)
qed

lemma at_start_open_file:
  assumes "open_file junk p (FAT_CREATE OR FAT_WRITE) s = Some (err, t)" "f_offset (fst s) = 0"
  shows "f_offset (fst t) = 0"
  using assms at_start_open [of "(fst s, c)" for c]
  by (fastforce simp: open_file_def with_path_def bind_eq_Some_conv at_start_def split: option.split_asm)

text \<open>So the file behind a descriptor just opened for writing is at its start.\<close>

lemma opened_at_start:
  assumes o: "syscall_open_file junk p (FAT_CREATE OR FAT_WRITE) st = Some (fd, st1)" "fd \<noteq> -1"
    and d: "descriptor_file fd st1 = Some (a, f)" and ok: "files_ok st"
  shows "f_offset f = 0"
proof -
  let ?fl = "FAT_CREATE OR FAT_WRITE" and ?fd = "get_first_free_file_descriptor (current_pcb (kern st))"
  have ne: "?fd \<noteq> -1" using o by (auto simp: syscall_open_file_def open_with_def)
  obtain page s1 where al: "alloc_object (File_object zero_file) st = (page, s1)" by fastforce
  from o al ne obtain err s2 where c: "call_file junk p ?fl page s1 = Some (err, s2)"
    "(if err \<noteq> 0 then do { st3 \<leftarrow> free_object page s2; Some (- 1, st3) }
      else do { st3 \<leftarrow> install_resource ?fd \<lparr>resource_type = RESOURCE_TYPE_FILE, resource_pointer = page\<rparr> s2; Some (?fd, st3) }) =
      Some (fd, st1)"
    by (auto simp: syscall_open_file_def open_with_def Let_def bind_eq_Some_conv)
  have err: "err = 0" using c(2) o(2) by (auto simp: bind_eq_Some_conv split: if_splits)
  have i: "install_resource ?fd \<lparr>resource_type = RESOURCE_TYPE_FILE, resource_pointer = page\<rparr> s2 = Some st1" "fd = ?fd"
    using c(2) err by (auto simp: bind_eq_Some_conv)
  from install_resource_frame [OF i(1)] obtain b where
    b: "0 \<le> fd" "nat fd < length (descriptors s2)" "descriptors st1 = (descriptors s2)[nat fd := b]"
      "objects st1 = (objects s2)(b := Some (Resource_object \<lparr>resource_type = RESOURCE_TYPE_FILE, resource_pointer = page\<rparr>))"
    using i(2) by auto
  have "array_get (descriptors st1) fd = Some b" using b(1-3) by (simp add: array_get_def zless_nat_eq_int_zless)
  moreover have "resource_at b st1 = Some \<lparr>resource_type = RESOURCE_TYPE_FILE, resource_pointer = page\<rparr>"
    by (simp add: resource_at_def b(4))
  ultimately have "file_object page st1 = Some f"
    using d by (auto simp: descriptor_file_def bind_eq_Some_conv)
  then have f: "file_object page s2 = Some f" using b(4) by (auto simp: file_object_def split: if_splits)
  have "page \<noteq> 0"
  proof
    assume "page = 0"
    then have "objects s1 0 = None" using alloc_object_frame(3) [OF al] ok by (simp add: files_ok_def)
    then have "objects s2 0 = None" using call_file_frame(2) [OF c(1)] by simp
    then show False using f \<open>page = 0\<close> by (simp add: file_object_def)
  qed
  moreover from this have "file_object page s1 = Some zero_file"
    using alloc_object_frame(3) [OF al] by (simp add: file_object_def)
  ultimately obtain t where t: "open_file junk p ?fl (zero_file, fat s1) = Some (err, t)" "f = fst t"
    using c(1) f by (auto simp: call_file_def bind_eq_Some_conv file_object_def)
  show ?thesis using at_start_open_file [OF t(1)] t(2) by (simp add: zero_file_def)
qed

text \<open>Writing more than the buffer holds, at the start of a file, reads past the buffer.\<close>

lemma write_too_much:
  assumes "f_offset file = 0" "length src < 256"
  shows "fat_file_write 256 src (file, c) = Some (r, t) \<Longrightarrow> err_code r \<noteq> 0"
proof -
  have "write_loop 256 src 0 (g, c) = None" if "f_offset g = 0" for g
    using that assms(2) by (subst write_loop.simps) (simp add: memcpy_bytes_def)
  then show "fat_file_write 256 src (file, c) = Some (r, t) \<Longrightarrow> err_code r \<noteq> 0"
    using assms(1)
    by (auto simp: fat_file_write_def set_file_def err_code_def FAT_ERR_PARAM_def FAT_ERR_DENIED_def split: if_splits)
qed

lemma copy_word_length: "copy_word stop p dest i = Some (p1, dest1, j) \<Longrightarrow> length dest1 = length dest"
  by (induction stop p dest i rule: copy_word.induct) (auto simp: bind_eq_Some_conv array_simps split: if_splits)

lemma write_arguments_length: "write_arguments buffer = Some (name, text0, i) \<Longrightarrow> length text0 = 64"
  by (auto simp: write_arguments_def bind_eq_Some_conv array_simps dest!: copy_word_length)

lemma kernel_write_file:
  assumes "call_syscall_write_file (kernel_calls junk C) fd t 256 w = Some (r, w1)" "length t < 256"
    and start: "\<And>a f. descriptor_file fd (fs w) = Some (a, f) \<Longrightarrow> f_offset f = 0"
  shows "r \<noteq> 0" "console_of w1 = console_of w"
proof -
  from assms(1) obtain b st where s: "syscall_write_file fd (map of_char t) 256 (fs w) = Some (r, b, st)" "w1 = w\<lparr>fs := st\<rparr>"
    by (auto simp: kernel_calls_def bind_eq_Some_conv)
  then show "console_of w1 = console_of w" by simp
  from s(1) show "r \<noteq> 0"
    using start write_too_much [of _ "map of_char t"] assms(2)
    by (fastforce simp: syscall_write_file_def bind_eq_Some_conv split: if_splits)
qed

lemma write_path_console:
  assumes "write_path (kernel_calls junk C) name w0 w = Some (p, w1)"
  shows "fs w1 = fs w" "\<exists>u. tx (console_of w1) = tx (console_of w) @ u"
  using assms by (auto simp: write_path_def kernel_write bind_eq_Some_conv split: if_splits)

lemma handle_write_fails:
  assumes "handle_write (kernel_calls junk C) buffer w0 w = Some w1" "files_ok (fs w)"
    and a: "write_arguments buffer = Some (name, text0, i)" "0 < i"
  shows "\<exists>u m p. tx (console_of w1) = tx (console_of w) @ u @ complaint m p \<and>
    (m = ''[SHELL] Error: cannot open file '' \<or> m = ''[SHELL] Error: cannot write on file '')"
proof -
  let ?K = "kernel_calls junk C"
  from assms(1) a obtain p w2 fd w3 where p: "write_path ?K name w0 w = Some (p, w2)"
    "call_syscall_open_file ?K p (FAT_CREATE OR FAT_WRITE) w2 = Some (fd, w3)"
    and rest: "do {
      s3 \<leftarrow> (if fd = -1 then complain ?K ''[SHELL] Error: cannot open file '' p w3 else Some w3);
      s4 \<leftarrow> (if fd \<noteq> -1 \<and> i > 0 then do {
              (error, s4) \<leftarrow> call_syscall_write_file ?K fd text0 MAX_FILE_DIMENSION s3;
              if error \<noteq> 0 then complain ?K ''[SHELL] Error: cannot write on file '' p s4 else Some s4
            } else Some s3);
      (_, s5) \<leftarrow> call_syscall_close_file ?K fd s4;
      Some s5 } = Some w1"
    by (auto simp: handle_write_def bind_eq_Some_conv)
  note P = write_path_console [OF p(1)]
  have o: "syscall_open_file junk p (FAT_CREATE OR FAT_WRITE) (fs w) = Some (fd, fs w3)" "console_of w3 = console_of w2"
    using p(2) P(1) by (auto simp: kernel_calls_def with_fs_def bind_eq_Some_conv)
  have close: "console_of t = console_of s" if "call_syscall_close_file ?K fd s = Some (r, t)" for s r t
    using that by (auto simp: kernel_calls_def with_fs_def bind_eq_Some_conv)
  obtain u where u: "tx (console_of w2) = tx (console_of w) @ u" using P(2) by blast
  show ?thesis
  proof (cases "fd = -1")
    case True
    then have "console_of w1 = console_of (printed (complaint ''[SHELL] Error: cannot open file '' p) w3)"
      using rest close by (auto simp: kernel.complain_exact bind_eq_Some_conv split: if_splits)
    then show ?thesis using u o(2) by auto
  next
    case False
    from rest False a(2) obtain r w4 where r: "call_syscall_write_file ?K fd text0 256 w3 = Some (r, w4)"
      "do { s4 \<leftarrow> (if r \<noteq> 0 then complain ?K ''[SHELL] Error: cannot write on file '' p w4 else Some w4);
           (_, s5) \<leftarrow> call_syscall_close_file ?K fd s4; Some s5 } = Some w1"
      by (auto simp: bind_eq_Some_conv MAX_FILE_DIMENSION_def)
    have "r \<noteq> 0" "console_of w4 = console_of w3"
      using kernel_write_file [OF r(1)] write_arguments_length [OF a(1)] opened_at_start [OF o(1) False _ assms(2)] by auto
    then have "console_of w1 = console_of (printed (complaint ''[SHELL] Error: cannot write on file '' p) w4)"
      using r(2) close by (auto simp: kernel.complain_exact bind_eq_Some_conv split: if_splits)
    then show ?thesis using u o(2) \<open>console_of w4 = console_of w3\<close> by auto
  qed
qed

end
