(* ===== verification/User_Properties.thy ===== *)
theory User_Properties
  imports Shell_Kernel File_Call_Properties
begin

text \<open>
  The properties of the shell and the user programs, with the states their witnesses use.
\<close>

subsection \<open>A process on the sample volume\<close>

text \<open>The calls that are not the kernel's: the user enters \<open>cd /\<close> again and again, and processes are
  not created.\<close>

definition cd_line :: "char list" where "cd_line = ''cd '' @ ''/'' @ NUL # replicate 59 NUL"

definition idle_calls :: "user_world calls" where
  "idle_calls = \<lparr>call_syscall_write = (\<lambda>t w. Some w), call_syscall_write_hex = (\<lambda>n w. Some w),
     call_syscall_input = (\<lambda>b n w. Some (cd_line, w)), call_syscall_create_dir = (\<lambda>p w. Some (-1, w)),
     call_syscall_open_dir = (\<lambda>p w. Some (-1, w)), call_syscall_open_file = (\<lambda>p fl w. Some (-1, w)),
     call_syscall_close_file = (\<lambda>fd w. Some (-1, w)), call_syscall_write_file = (\<lambda>fd t n w. Some (-1, w)),
     call_syscall_read_file = (\<lambda>fd t n w. Some (-1, t, w)), call_syscall_get_next_entry = (\<lambda>fd e w. Some (-1, e, w)),
     call_syscall_exit = (\<lambda>w. Some w), call_syscall_fork = (\<lambda>w. Some (-1, w)), call_syscall_yield = (\<lambda>w. Some w),
     call_syscall_exec = (\<lambda>p n a w. Some (Returns (-1), w)), call_syscall_wait = (\<lambda>p w. Some (-1, w)),
     call_syscall_send_message = (\<lambda>p t w. Some (-1, w)), call_syscall_receive_message = (\<lambda>t w. Some (t, w)),
     call_syscall_send_signal = (\<lambda>p n w. Some (-1, w)), call_syscall_set_sched_param = (\<lambda>p n v w. Some (-1, w)),
     call_syscall_get_time = (\<lambda>w. Some (0, w))\<rparr>"

definition sample_calls :: "user_world calls" where
  "sample_calls = kernel_calls (replicate 128 NUL) idle_calls"

definition root_directory :: "char list" where "root_directory = zeroed[0 := CHR ''/'']"

lemma root_directory_ok: "at_directory [] root_directory"
proof -
  have r: "root_directory = CHR ''/'' # replicate 63 NUL"
    by (simp add: root_directory_def zeroed_def MAX_COMMAND_DIMENSION_def numeral_eq_Suc)
  show ?thesis unfolding r by (simp add: at_directory_def directory_ok_def terminated_def c_string_def takeWhile_replicate)
qed

subsection \<open>Paths\<close>

text \<open>C38: \<^verbatim>\<open>normalize_path\<close>. On an absolute path whose components do not end with a dot, except for
  dots and double dots themselves, and that never goes above the root, the array then holds the path
  those components lead to, with its terminator inside the array. A path that goes above the root twice
  is written in front of the array.\<close>

theorem normalize_path_resolves:
  assumes "\<forall>c \<in> set (cs @ [l]). clean c"
  shows "(below_root 0 (cs @ [l]) \<longrightarrow>
      (\<exists>p. normalize_path (''/'' @ slashed cs @ l @ NUL # junk) = Some p \<and>
        length p = length (''/'' @ slashed cs @ l @ NUL # junk) \<and> terminated p \<and>
        c_string p = ''/'' @ (if l = ''.'' \<or> l = ''..'' then slashed (absolute [] (cs @ [l]))
                            else slashed (absolute [] cs) @ l))) \<and>
    (resolve [] ([] # cs) = None \<longrightarrow> normalize_path (''/'' @ slashed cs @ l @ NUL # junk) = None)"
proof -
  have clean: "\<forall>c \<in> set ([] # cs). clean c" "clean l" using assms by (simp_all add: clean_def)
  have res: "resolve [] ([] # cs) = Some ([] # absolute [] cs)" "resolve [] ([] # cs @ [l]) = Some ([] # absolute [] (cs @ [l]))"
    if "below_root 0 (cs @ [l])"
    using resolve_below_root [of "[]"] below_root_prefix [OF that] that by simp_all
  have path: "slashed ([] # cs) @ l @ NUL # junk = ''/'' @ slashed cs @ l @ NUL # junk" by simp
  have none: "resolve st (cs @ [l]) = None" if "resolve st cs = None" for st
    using that by (induction st cs rule: resolve.induct) auto
  show ?thesis
    using normalize_path_exact [OF clean, of junk] res none [of "[[]]"] unfolding path
    by (auto simp: resolve_path_def split: option.splits)
qed

theorem normalize_path_resolves_witness:
  "\<exists>p. normalize_path (''/a/./b/../c'' @ [NUL]) = Some p \<and> c_string p = ''/a/c''"
  using normalize_path_resolves [of "[''a'', ''.'', ''b'', ''..'']" "''c''" "[]"] by (auto simp: clean_def)

subsection \<open>The working directory\<close>

text \<open>Whatever the system calls do, as long as no command leaves the bounds of its buffers the shell's working
  directory stays a terminated text in its array of 64 characters.\<close>

lemma shell_keeps_directory:
  assumes "shell_rounds C junks w s = Some (Returns w1, s1)" "directory_ok w"
  shows "directory_ok w1"
  using assms
proof (induction junks arbitrary: w s)
  case (Cons junk junks)
  then obtain o' s2 where o': "shell_round C junk w s = Some (o', s2)"
    "(case o' of Gone \<Rightarrow> Some (Gone, s2) | Returns w2 \<Rightarrow> shell_rounds C junks w2 s2) = Some (Returns w1, s1)"
    by (auto simp: bind_eq_Some_conv)
  then obtain w2 where "o' = Returns w2" by (cases o') auto
  with o' Cons shell_round_keeps show ?case by fastforce
qed simp

text \<open>C39: \<^verbatim>\<open>cd\<close> moves along the components of its argument, or overflows. In a directory given by names,
  with an argument that fits into the command line of 64 characters, whose components do not end with a dot (dots and double
  dots apart): if the argument is absolute, or shorter than 63 characters together with the directory, and does not go above the
  root, the shell opens the directory those components lead to, and if that succeeds it is the
  new working directory; otherwise the old one stays and a complaint is printed. A longer relative path
  is written past the end of \<^verbatim>\<open>temp\<close> (no result), before anything is opened.\<close>

theorem cd_moves_or_overflows:
  assumes "d \<noteq> []" "\<forall>c \<in> set d. \<not> line_end c" "d @ (if last d = CHR ''/'' then [] else ''/'') = slashed ds"
    and "\<forall>c \<in> set ds. clean c" and "at_directory ws w" "\<forall>c \<in> set ws. plain c" and "length d < 61"
    and "below_root 0 (if hd ds = [] then tl ds else ws @ ds)"
  shows "if hd ds = [] \<or> length (slashed ws) + length (slashed ds) < 63
    then \<exists>p. at_directory (if hd ds = [] then absolute [] (tl ds) else absolute ws ds) p \<and>
      handle_cd C (''cd '' @ d @ NUL # junk) w s = do {
        (fd, s1) \<leftarrow> call_syscall_open_dir C p s;
        if fd = -1 then do { s2 \<leftarrow> complain C ''[SHELL] Error: cannot change directory to '' p s1; Some (w, s2) } else Some (p, s1) }
    else handle_cd C (''cd '' @ d @ NUL # junk) w s = None"
proof (cases "hd ds = [] \<or> length (slashed ws) + length (slashed ds) < 63")
  case True
  from cd_target_resolves [OF assms(1-7) True assms(8)] obtain p where p: "cd_target (''cd '' @ d @ NUL # junk) w = Some p"
    "at_directory (if hd ds = [] then absolute [] (tl ds) else absolute ws ds) p" by blast
  then have "memcpy_chars w p MAX_COMMAND_DIMENSION = Some p"
    using assms(5) by (simp add: at_directory_def directory_ok_def memcpy_whole)
  then show ?thesis using p True by (subst if_P) (auto intro!: exI [of _ p] simp: handle_cd_def cong: if_cong)
next
  case False
  then have "cd_target (''cd '' @ d @ NUL # junk) w = None" by (intro cd_target_overflows [OF assms(1-5,7)]) auto
  then show ?thesis using False by (simp add: handle_cd_def)
qed

theorem cd_moves_or_overflows_witness:
  "\<forall>s. (\<exists>p. at_directory [''etc''] p \<and> handle_cd sample_calls (''cd etc'' @ [NUL]) root_directory s = do {
      (fd, s1) \<leftarrow> call_syscall_open_dir sample_calls p s;
      if fd = -1 then do { s2 \<leftarrow> complain sample_calls ''[SHELL] Error: cannot change directory to '' p s1; Some (root_directory, s2) } else Some (p, s1) }) \<and>
   handle_cd sample_calls (''cd etc'' @ [NUL]) (''/'' @ slashed [replicate 30 CHR ''a'', replicate 28 CHR ''b''] @ NUL # replicate 2 NUL) s = None"
proof -
  let ?ws = "[replicate 30 CHR ''a'', replicate 28 CHR ''b'']"
  let ?w = "''/'' @ slashed ?ws @ NUL # replicate 2 NUL"
  have d: "''etc'' \<noteq> []" "\<forall>c \<in> set ''etc''. \<not> line_end c" "''etc'' @ (if last ''etc'' = CHR ''/'' then [] else ''/'') = slashed [''etc'']"
    "\<forall>c \<in> set [''etc'']. clean c" "length ''etc'' < 61"
    by (simp_all add: line_end_def clean_def)
  have w: "at_directory ?ws ?w" "\<forall>c \<in> set ?ws. plain c"
    by (simp_all add: at_directory_def directory_ok_def terminated_def plain_def clean_def eval_nat_numeral)
  have "below_root 0 (if hd [''etc''] = [] then tl [''etc''] else [] @ [''etc''])"
    "below_root 0 (if hd [''etc''] = [] then tl [''etc''] else ?ws @ [''etc''])" by (simp_all add: eval_nat_numeral)
  note b = this
  show ?thesis
    using cd_moves_or_overflows [OF d(1-4) root_directory_ok _ d(5) b(1), where C = sample_calls and junk = "[]"]
      cd_moves_or_overflows [OF d(1-4) w d(5) b(2), where C = sample_calls and junk = "[]"]
    by simp
qed

subsection \<open>The shell on the kernel\<close>

text \<open>The shell runs out of descriptors. On the kernel's file calls, a sequence of \<^verbatim>\<open>cd\<close> commands
  of which none complains has used up a descriptor for each: it has at most as many commands as the process
  had free descriptors, which are never more than 16.\<close>

lemma cd_runs_out:
  assumes "foldM (cd_step (kernel_calls junk C)) buffers (w0, w) = Some (w1, u)" "files_ok (fs w)"
    and "tx (console_of u) = tx (console_of w)"
  shows "free_descriptors (fs w) = length buffers + free_descriptors (fs u) \<and> length buffers \<le> MAX_FILES_PER_PROCESS"
proof -
  have "free_descriptors (fs w) \<le> length (take MAX_FILES_PER_PROCESS (descriptors (fs w)))"
    unfolding free_descriptors_def by (rule length_filter_le)
  then have "free_descriptors (fs w) \<le> MAX_FILES_PER_PROCESS" by simp
  then show ?thesis using kernel.cds_use_descriptors [OF assms(1)] assms(2,3) by auto
qed

text \<open>\<^verbatim>\<open>tree\<close> never shows an entry. Whenever it returns, all it has printed is the path and the end
  of the line, or its complaint: the kernel's \<^verbatim>\<open>get_next_entry\<close> returns 0 or -1 and \<^verbatim>\<open>print_tree\<close>
  goes on only while the result is 1.\<close>

lemma tree_shows_nothing:
  assumes "handle_tree (kernel_calls junk C) buffer w0 w = Some w1"
  shows "\<exists>p. tree_target buffer w0 = Some p \<and>
    (tx (console_of w1) = tx (console_of w) @ c_string p @ newline \<or>
     tx (console_of w1) = tx (console_of w) @ complaint ''[SHELL] Error: cannot open directory '' p)"
  by (rule kernel.tree_prints [OF assms])

text \<open>A process without free descriptors.\<close>

definition full_state :: file_state where
  "full_state = on_kern (set_sched (\<lambda>s. upd_pcb (current_process s) (\<lambda>P. P\<lparr>files := replicate MAX_FILES_PER_PROCESS 1\<rparr>) s)) sample_state"

definition full_world :: user_world where
  "full_world = \<lparr>fs = full_state, console_of = empty_uart\<rparr>"

lemma full_state_ok: "files_ok full_state" "get_first_free_file_descriptor (current_pcb (kern full_state)) = -1"
  by (simp_all add: files_ok_def full_state_def descriptors_def current_pcb_def set_sched_def on_kern_def upd_pcb_def
      get_first_free_file_descriptor_def MAX_FILES_PER_PROCESS_def sample_state_def numeral_eq_Suc)

lemma full_world_open:
  "call_syscall_open_dir sample_calls p full_world = Some (-1, full_world)"
  "call_syscall_open_file sample_calls p fl full_world = Some (-1, full_world)"
  by (simp_all add: sample_calls_def kernel_calls_def with_fs_def full_world_def syscall_open_dir_def syscall_open_file_def
      open_with_def full_state_ok)

text \<open>\<^verbatim>\<open>write\<close> never succeeds with a text. The shell asks the kernel to write 256 bytes from an array of
  64; whenever the command returns at all, it ends with a complaint.\<close>

lemma write_never_succeeds:
  assumes "handle_write (kernel_calls junk C) buffer w0 w = Some w1" "files_ok (fs w)"
    and "write_arguments buffer = Some (name, text0, i)" "0 < i"
  shows "\<exists>u m p. tx (console_of w1) = tx (console_of w) @ u @ complaint m p \<and>
    (m = ''[SHELL] Error: cannot open file '' \<or> m = ''[SHELL] Error: cannot write on file '')"
  by (rule handle_write_fails [OF assms])

subsection \<open>Numbers\<close>

text \<open>\<^verbatim>\<open>print_int\<close> of the benchmark writes the decimal digits of its argument, without leading
  zeros, as long as it has at most ten: reading the text back gives the number.\<close>

lemma print_int_decimal:
  assumes "0 < unat num" "unat num < 10 ^ 10" "length junk = 32"
  shows "\<exists>buffer. print_int C junk num s = call_syscall_write C buffer s \<and> terminated buffer \<and>
    (\<forall>c \<in> set (c_string buffer). is_digit c) \<and> number_of 0 (c_string buffer) = unat num \<and>
    (\<exists>c t. c_string buffer = c # t \<and> c \<noteq> CHR ''0'')"
proof -
  let ?t = "digits_for (powers 10) (unat num) False"
  have "num \<noteq> 0" using assms(1) by auto
  from print_digits [OF divisors_powers assms(2), of junk "[]" False] assms(3) obtain num' b' r where
    r: "foldM print_digit divisors (num, junk, 0, False) = Some (num', ?t @ r, length ?t, b')" "32 = length ?t + length r" by auto
  have "length ?t \<le> 10" using digits_for_length [of "powers 10" "unat num" False] by (simp add: powers_numeral)
  then obtain x r' where x: "r = x # r'" using r(2) by (cases r) auto
  then have set: "array_set (?t @ r) (int (length ?t)) NUL = Some (?t @ NUL # r')" by (simp add: array_set_def)
  have d: "\<forall>c \<in> set ?t. is_digit c" using digits_for_digits [OF assms(2)] by blast
  have "\<not> is_digit NUL" by (simp add: is_digit_def)
  then have "NUL \<notin> set ?t" using d by blast
  then have c: "c_string (?t @ NUL # r') = ?t" by (rule c_string_no_end)
  have "print_int C junk num s = call_syscall_write C (?t @ NUL # r') s"
    using \<open>num \<noteq> 0\<close> r(1) set by (simp add: print_int_def)
  then show ?thesis
    using c d digits_for_value [OF assms(2)] digits_for_no_zero [OF assms(2,1)]
    by (intro exI [of _ "?t @ NUL # r'"]) (simp add: terminated_def)
qed

end
