(* ===== verification/Platform.thy ===== *)
theory Platform
  imports Device_Io Kernel_Run
begin

text \<open>
  The small drivers: the mailbox (\<^verbatim>\<open>drivers/mbox/mbox.c\<close>), the set-up of the serial line and polling it
  (\<^verbatim>\<open>drivers/uart/uart.c\<close>), the system timer (\<^verbatim>\<open>drivers/timer/timer.c\<close>) and the interrupt controller
  (\<^verbatim>\<open>drivers/irq/controller.c\<close>), which calls the handlers of the scheduler and of the console. The device
  is the parameter of \<open>Device_Io\<close>.
\<close>

definition UART0_BASE :: ulong where "UART0_BASE = 0x201000"
definition UART0_DR :: ulong where "UART0_DR = UART0_BASE + 0x00"
definition UART0_FR :: ulong where "UART0_FR = UART0_BASE + 0x18"
definition UART0_IBRD :: ulong where "UART0_IBRD = UART0_BASE + 0x24"
definition UART0_FBRD :: ulong where "UART0_FBRD = UART0_BASE + 0x28"
definition UART0_LCRH :: ulong where "UART0_LCRH = UART0_BASE + 0x2C"
definition UART0_CR :: ulong where "UART0_CR = UART0_BASE + 0x30"
definition UART0_IMSC :: ulong where "UART0_IMSC = UART0_BASE + 0x38"
definition UART0_ICR :: ulong where "UART0_ICR = UART0_BASE + 0x44"

definition MBOX_BASE :: ulong where "MBOX_BASE = 0xB880"
definition MBOX_READ :: ulong where "MBOX_READ = MBOX_BASE + 0x00"
definition MBOX_STATUS :: ulong where "MBOX_STATUS = MBOX_BASE + 0x18"
definition MBOX_WRITE :: ulong where "MBOX_WRITE = MBOX_BASE + 0x20"
definition MBOX_REQUEST :: uint32 where "MBOX_REQUEST = 0"
definition MBOX_CH_PROP :: byte where "MBOX_CH_PROP = 8"
definition MBOX_TAG_LAST :: uint32 where "MBOX_TAG_LAST = 0"
definition MBOX_TAG_SETCLKRATE :: uint32 where "MBOX_TAG_SETCLKRATE = 0x38002"
definition MBOX_RESPONSE :: uint32 where "MBOX_RESPONSE = 0x80000000"
definition MBOX_FULL :: uint32 where "MBOX_FULL = 0x80000000"
definition MBOX_EMPTY :: uint32 where "MBOX_EMPTY = 0x40000000"
definition MBOX_MAIL_CHANNEL_MASK :: ulong where "MBOX_MAIL_CHANNEL_MASK = 0xF"

definition TIMER_BASE :: ulong where "TIMER_BASE = 0x00003000"
definition TIMER_CS :: ulong where "TIMER_CS = TIMER_BASE + 0x00"
definition TIMER_CLO :: ulong where "TIMER_CLO = TIMER_BASE + 0x04"
definition TIMER_C1 :: ulong where "TIMER_C1 = TIMER_BASE + 0x10"
definition TIMER_CS_M1 :: uint32 where "TIMER_CS_M1 = push_bit 1 1"
definition TIMER_PERIOD :: uint32 where "TIMER_PERIOD = 10000"

definition IRQ_PENDING_1 :: ulong where "IRQ_PENDING_1 = 0x0000B204"
definition IRQ_PENDING_2 :: ulong where "IRQ_PENDING_2 = 0x0000B208"
definition ENABLE_IRQS_1 :: ulong where "ENABLE_IRQS_1 = 0x0000B210"
definition ENABLE_IRQS_2 :: ulong where "ENABLE_IRQS_2 = 0x0000B214"
definition SYSTEM_TIMER_IRQ_1 :: uint32 where "SYSTEM_TIMER_IRQ_1 = push_bit 1 1"
definition UART0_IRQ_BIT :: uint32 where "UART0_IRQ_BIT = push_bit 25 1"

text \<open>Reading a register at its offset, and waiting while it satisfies \<open>test\<close>.\<close>

definition mmio_get :: "'d device \<Rightarrow> ulong \<Rightarrow> 'd \<Rightarrow> uint32 \<times> 'd" where
  "mmio_get D reg d = mmio_read D (ucast reg) d"

partial_function (option) wait_while :: "'d device \<Rightarrow> ulong \<Rightarrow> (uint32 \<Rightarrow> bool) \<Rightarrow> 'd \<Rightarrow> 'd option" where
  "wait_while D reg test d = (let (v, d1) = mmio_get D reg d in if test v then wait_while D reg test d1 else Some d1)"

subsection \<open>Mailbox\<close>

text \<open>The volatile array \<^verbatim>\<open>mbox\<close> at the address \<open>a\<close>, which the firmware reads and writes too.\<close>

definition mbox_get :: "'d device \<Rightarrow> ulong \<Rightarrow> nat \<Rightarrow> 'd \<Rightarrow> uint32 \<times> 'd" where
  "mbox_get D a i d = reg_read D (a + 4 * of_nat i) d"

definition mbox_fill :: "'d device \<Rightarrow> ulong \<Rightarrow> uint32 list \<Rightarrow> 'd \<Rightarrow> 'd" where
  "mbox_fill D a vs d = fold (\<lambda>(i, v). reg_write D (a + 4 * of_nat i) v) (enumerate 0 vs) d"

definition mbox_message :: "ulong \<Rightarrow> byte \<Rightarrow> ulong" where
  "mbox_message a channel =
     ((a - VA_START) AND NOT MBOX_MAIL_CHANNEL_MASK) OR (ucast channel AND MBOX_MAIL_CHANNEL_MASK)"

partial_function (option) mbox_answer :: "'d device \<Rightarrow> ulong \<Rightarrow> 'd \<Rightarrow> 'd option" where
  "mbox_answer D r d =
     (let (status, d1) = mmio_get D MBOX_STATUS d
      in if status AND MBOX_EMPTY \<noteq> 0 then mbox_answer D r d1
         else let (v, d2) = mmio_get D MBOX_READ d1
              in if ucast v \<noteq> r then mbox_answer D r d2 else Some d2)"

definition mbox_call :: "'d device \<Rightarrow> ulong \<Rightarrow> byte \<Rightarrow> 'd \<Rightarrow> (bool \<times> 'd) option" where
  "mbox_call D a channel d = do {
     let r = mbox_message a channel;
     d1 \<leftarrow> wait_while D MBOX_STATUS (\<lambda>v. v AND MBOX_FULL \<noteq> 0) d;
     d2 \<leftarrow> mbox_answer D r (mmio_write D MBOX_WRITE (ucast r) d1);
     let (v, d3) = mbox_get D a 1 d2;
     Some (v = MBOX_RESPONSE, d3)
   }"

subsection \<open>Serial line\<close>

text \<open>\<^verbatim>\<open>*GPPUD\<close> and \<^verbatim>\<open>*GPPUDCLK0\<close>: \<open>arch/mmio.h\<close> makes them pointers to the registers, so what is
  read there is taken for the register to write.\<close>

definition mmio_GPPUD :: ulong where "mmio_GPPUD = MMIO_BASE + 0x00200094"
definition mmio_GPPUDCLK0 :: ulong where "mmio_GPPUDCLK0 = MMIO_BASE + 0x00200098"

definition mmio_write_at :: "'d device \<Rightarrow> ulong \<Rightarrow> uint32 \<Rightarrow> 'd \<Rightarrow> 'd" where
  "mmio_write_at D p v d = (let (reg, d1) = reg_read D p d in mmio_write D (ucast reg) v d1)"

definition uart_init :: "'d device \<Rightarrow> ulong \<Rightarrow> 'd \<Rightarrow> 'd option" where
  "uart_init D a d = do {
     let d1 = mmio_write D UART0_CR 0 d;
     let d2 = mmio_write_at D mmio_GPPUD 0 d1;
     let d3 = mmio_write_at D mmio_GPPUDCLK0 (push_bit 14 1 OR push_bit 15 1) d2;
     let d4 = mmio_write_at D mmio_GPPUDCLK0 0 d3;
     let d5 = mmio_write D UART0_ICR 0x7FF d4;
     let d6 = mbox_fill D a [9 * 4, MBOX_REQUEST, MBOX_TAG_SETCLKRATE, 12, 8, 2, 30000000, 0, MBOX_TAG_LAST] d5;
     (_, d7) \<leftarrow> mbox_call D a MBOX_CH_PROP d6;
     let d8 = mmio_write D UART0_FBRD 40 (mmio_write D UART0_IBRD 1 d7);
     let d9 = mmio_write D UART0_LCRH (push_bit 4 1 OR push_bit 5 1 OR push_bit 6 1) d8;
     let d10 = mmio_write D UART0_IMSC (push_bit 1 1 OR push_bit 4 1 OR push_bit 5 1 OR push_bit 6 1 OR push_bit 7 1 OR
                 push_bit 8 1 OR push_bit 9 1 OR push_bit 10 1) d9;
     Some (mmio_write D UART0_CR (push_bit 0 1 OR push_bit 8 1 OR push_bit 9 1) d10)
   }"

definition uart_getc :: "'d device \<Rightarrow> 'd \<Rightarrow> (byte \<times> 'd) option" where
  "uart_getc D d = do {
     d1 \<leftarrow> wait_while D UART0_FR (\<lambda>v. v AND push_bit 4 1 \<noteq> 0) d;
     let (v, d2) = mmio_get D UART0_DR d1;
     Some (ucast v, d2)
   }"

subsection \<open>Timer and interrupts\<close>

record 'd platform =
  pdev :: 'd
  pconsole :: uart_state
  psched :: sched_state
  curVal :: uint32

definition timer_init :: "'d device \<Rightarrow> 'd platform \<Rightarrow> 'd platform" where
  "timer_init D p =
     (let (now, d) = mmio_get D TIMER_CLO (pdev p); c = now + TIMER_PERIOD
      in p\<lparr>curVal := c, pdev := mmio_write D TIMER_C1 c d\<rparr>)"

definition handle_timer_irq :: "'d device \<Rightarrow> 'd platform \<Rightarrow> 'd platform option" where
  "handle_timer_irq D p = do {
     let d1 = mmio_write D TIMER_CS TIMER_CS_M1 (pdev p);
     let c = curVal p + TIMER_PERIOD;
     let d2 = mmio_write D TIMER_C1 c d1;
     s \<leftarrow> handle_timer_tick (psched p);
     Some (p\<lparr>pdev := d2, curVal := c, psched := s\<rparr>)
   }"

definition enable_interrupt_controller :: "'d device \<Rightarrow> 'd \<Rightarrow> 'd" where
  "enable_interrupt_controller D d =
     (let (v1, d1) = mmio_get D ENABLE_IRQS_1 d;
          d2 = mmio_write D ENABLE_IRQS_1 (v1 OR SYSTEM_TIMER_IRQ_1) d1;
          (v2, d3) = mmio_get D ENABLE_IRQS_2 d2
      in mmio_write D ENABLE_IRQS_2 (v2 OR UART0_IRQ_BIT) d3)"

text \<open>The registers of the serial line that \<^verbatim>\<open>handle_uart_irq\<close> uses are part of \<open>pconsole\<close>.\<close>

definition handle_irq :: "'d device \<Rightarrow> 'd platform \<Rightarrow> 'd platform option" where
  "handle_irq D p = do {
     let (p1, d1) = mmio_get D IRQ_PENDING_1 (pdev p);
     let (p2, d2) = mmio_get D IRQ_PENDING_2 d1;
     let p' = p\<lparr>pdev := d2\<rparr>;
     if p1 AND SYSTEM_TIMER_IRQ_1 \<noteq> 0 then handle_timer_irq D p'
     else if p2 AND UART0_IRQ_BIT \<noteq> 0 then do {
       (u, s) \<leftarrow> handle_uart_irq (pconsole p') (psched p');
       Some (p'\<lparr>pconsole := u, psched := s\<rparr>)
     } else do {
       u1 \<leftarrow> uart_puts (literal ''Unknown pending irq: '') (pconsole p');
       u2 \<leftarrow> uart_hex (push_bit 32 (ucast p1) OR ucast p2) u1;
       u3 \<leftarrow> uart_puts (literal [CHR 0x0D, CHR 0x0A]) u2;
       Some (p'\<lparr>pconsole := u3\<rparr>)
     }
   }"

definition entry_error_messages :: "char list list" where
  "entry_error_messages =
     [''SYNC_INVALID_EL1t'', ''IRQ_INVALID_EL1t'', ''FIQ_INVALID_EL1t'', ''ERROR_INVALID_EL1T'',
      ''SYNC_INVALID_EL1h'', ''IRQ_INVALID_EL1h'', ''FIQ_INVALID_EL1h'', ''ERROR_INVALID_EL1h'',
      ''SYNC_INVALID_EL0_64'', ''IRQ_INVALID_EL0_64'', ''FIQ_INVALID_EL0_64'', ''ERROR_INVALID_EL0_64'',
      ''SYNC_INVALID_EL0_32'', ''IRQ_INVALID_EL0_32'', ''FIQ_INVALID_EL0_32'', ''ERROR_INVALID_EL0_32'']"

text \<open>The types of \<^verbatim>\<open>irq/entry.h\<close> go up to 17, the messages to 15.\<close>

definition show_invalid_entry_message ::
  "int \<Rightarrow> ulong \<Rightarrow> ulong \<Rightarrow> sched_state \<Rightarrow> uart_state \<Rightarrow> uart_state option" where
  "show_invalid_entry_message type esr address s u = do {
     message \<leftarrow> array_get entry_error_messages type;
     u1 \<leftarrow> uart_puts (literal ''[KERNEL PANIC] '') u;
     u2 \<leftarrow> uart_puts (literal message) u1;
     u3 \<leftarrow> uart_puts (literal '', ESR: '') u2;
     u4 \<leftarrow> uart_hex esr u3;
     u5 \<leftarrow> uart_puts (literal '', address: '') u4;
     u6 \<leftarrow> uart_hex address u5;
     u7 \<leftarrow> uart_puts (literal '', process: '') u6;
     u8 \<leftarrow> uart_hex (word_of_int (pid (heap s (current_process s)))) u7;
     uart_puts (literal [CHR 0x0D, CHR 0x0A]) u8
   }"

subsection \<open>Looking at a messages buffer\<close>

text \<open>The printer for debugging of \<^verbatim>\<open>libs/ipc.c\<close>, which shows all elements of the array.\<close>

definition print_element :: "MessagesCircularBuffer \<Rightarrow> nat \<Rightarrow> uart_state \<Rightarrow> uart_state option" where
  "print_element buffer i u = do {
     u1 \<leftarrow> uart_hex (of_nat i) u;
     u2 \<leftarrow> uart_puts (literal [CHR 0x09]) u1;
     message \<leftarrow> array_get (mb_buffer buffer) (int i);
     u3 \<leftarrow> uart_puts (body message) u2;
     uart_puts (literal [CHR 0x0A]) u3
   }"

definition print_circular_buffer :: "MessagesCircularBuffer \<Rightarrow> uart_state \<Rightarrow> uart_state option" where
  "print_circular_buffer buffer u = do {
     u1 \<leftarrow> uart_puts (literal ''[BUFFER] Head: '') u;
     u2 \<leftarrow> uart_hex (word_of_int (mb_head buffer)) u1;
     u3 \<leftarrow> uart_puts (literal '' | Tail: '') u2;
     u4 \<leftarrow> uart_hex (word_of_int (mb_tail buffer)) u3;
     u5 \<leftarrow> uart_puts (literal [CHR 0x0A]) u4;
     foldM (print_element buffer) [0..<MAX_MESSAGES_PER_PROCESS] u5
   }"

end
