(* ===== verification/Framebuffer.thy ===== *)
theory Framebuffer
  imports Platform CString
begin

text \<open>
  The frame buffer, \<^verbatim>\<open>drivers/framebuffer/framebuffer.c\<close>: asking the firmware for it, and drawing text
  with the bitmap font that is linked to the kernel. The pixels are a map from the byte offset in the
  frame buffer to the word stored there.
\<close>

definition WIDTH :: uint32 where "WIDTH = 1024"
definition HEIGHT :: uint32 where "HEIGHT = 768"
definition DEPTH :: uint32 where "DEPTH = 32"

definition MBOX_TAG_ALLOCFB :: uint32 where "MBOX_TAG_ALLOCFB = 0x40001"
definition MBOX_TAG_GETPITCH :: uint32 where "MBOX_TAG_GETPITCH = 0x40008"
definition MBOX_TAG_SETPHYWH :: uint32 where "MBOX_TAG_SETPHYWH = 0x48003"
definition MBOX_TAG_SETVIRTWH :: uint32 where "MBOX_TAG_SETVIRTWH = 0x48004"
definition MBOX_TAG_SETDEPTH :: uint32 where "MBOX_TAG_SETDEPTH = 0x48005"
definition MBOX_TAG_SETPIXLORDR :: uint32 where "MBOX_TAG_SETPIXLORDR = 0x48006"
definition MBOX_TAG_SETVIRTOFST :: uint32 where "MBOX_TAG_SETVIRTOFST = 0x48009"

record framebuffer =
  framebuffer_address :: ulong
  fb_width :: uint32
  fb_height :: uint32
  pitch :: uint32
  isrgb :: uint32

definition framebuffer_request :: "uint32 list" where
  "framebuffer_request =
     [35 * 4, MBOX_REQUEST,
      MBOX_TAG_SETPHYWH, 8, 8, WIDTH, HEIGHT,
      MBOX_TAG_SETVIRTWH, 8, 8, WIDTH, HEIGHT,
      MBOX_TAG_SETVIRTOFST, 8, 8, 0, 0,
      MBOX_TAG_SETDEPTH, 4, 4, DEPTH,
      MBOX_TAG_SETPIXLORDR, 4, 4, 1,
      MBOX_TAG_ALLOCFB, 8, 8, 4096, 0,
      MBOX_TAG_GETPITCH, 4, 4, 0,
      MBOX_TAG_LAST]"

text \<open>The fields as they are when the call succeeds.\<close>

definition framebuffer_fields :: "'d device \<Rightarrow> ulong \<Rightarrow> 'd \<Rightarrow> framebuffer \<times> 'd" where
  "framebuffer_fields D a d =
     (let (address, d1) = mbox_get D a 28 d; (w, d2) = mbox_get D a 5 d1; (h, d3) = mbox_get D a 6 d2;
          (p, d4) = mbox_get D a 33 d3; (rgb, d5) = mbox_get D a 24 d4
      in (\<lparr>framebuffer_address = ucast (address AND 0x3FFFFFFF), fb_width = w, fb_height = h, pitch = p, isrgb = rgb\<rparr>, d5))"

definition framebuffer_init :: "'d device \<Rightarrow> ulong \<Rightarrow> framebuffer \<Rightarrow> 'd \<Rightarrow> (bool \<times> framebuffer \<times> 'd) option" where
  "framebuffer_init D a fb d = do {
     (answered, d1) \<leftarrow> mbox_call D a MBOX_CH_PROP (mbox_fill D a framebuffer_request d);
     let (depth_ok, d2) = (if answered then let (v, d2) = mbox_get D a 20 d1 in (v = DEPTH, d2) else (False, d1));
     let (ok, d3) = (if depth_ok then let (v, d3) = mbox_get D a 28 d2 in (v \<noteq> 0, d3) else (False, d2));
     Some (if ok then let (fb1, d4) = framebuffer_fields D a d3 in (True, fb1, d4) else (False, fb, d3))
   }"

subsection \<open>Text\<close>

text \<open>The font: its header, and the bytes from the start of the header on.\<close>

record psf_t =
  headersize :: uint32
  numglyph :: uint32
  bytesperglyph :: uint32
  font_height :: uint32
  font_width :: uint32
  font_byte :: "ulong \<Rightarrow> byte"

definition glyph_of :: "psf_t \<Rightarrow> char \<Rightarrow> ulong" where
  "glyph_of font c =
     ucast (headersize font) + ucast ((if of_char c < numglyph font then of_char c else 0) * bytesperglyph font)"

text \<open>One row: \<^verbatim>\<open>mask\<close> starts at \<^verbatim>\<open>1 << (width - 1)\<close>, which has a defined value for a width from 1 to 31.\<close>

definition draw_row :: "nat \<Rightarrow> byte \<Rightarrow> uint32 \<Rightarrow> (int \<Rightarrow> uint32) \<Rightarrow> int \<Rightarrow> uint32" where
  "draw_row w b offs pixels =
     fold (\<lambda>i fr. fr(sint (offs + of_nat (4 * i)) := (if bit b (w - 1 - i) then 0xFFFFFF else 0))) [0..<w] pixels"

definition draw_glyph :: "framebuffer \<Rightarrow> psf_t \<Rightarrow> ulong \<Rightarrow> uint32 \<Rightarrow> (int \<Rightarrow> uint32) \<Rightarrow> (int \<Rightarrow> uint32) option" where
  "draw_glyph fb font glyph offs pixels =
     (let w = unat (font_width font); bytesperline = (font_width font + 7) div 8
      in if font_height font \<noteq> 0 \<and> \<not> (1 \<le> w \<and> w \<le> 31) then None
         else Some (fold (\<lambda>j. draw_row w (font_byte font (glyph + of_nat j * ucast bytesperline)) (offs + of_nat j * pitch fb))
                      [0..<unat (font_height font)] pixels))"

text \<open>The coordinates are C integers; adding an unsigned number makes them unsigned for a moment.\<close>

definition advance :: "int \<Rightarrow> uint32 \<Rightarrow> int" where
  "advance x n = sint (word_of_int x + n :: uint32)"

fun framebuffer_print ::
  "framebuffer \<Rightarrow> psf_t \<Rightarrow> int \<Rightarrow> int \<Rightarrow> char list \<Rightarrow> (int \<Rightarrow> uint32) \<Rightarrow> (int \<Rightarrow> uint32) option" where
  "framebuffer_print fb font x y [] pixels = None"
| "framebuffer_print fb font x y (c # s) pixels =
     (if c = NUL then Some pixels
      else if c = CHR 0x0D then framebuffer_print fb font 0 y s pixels
      else if c = CHR 0x0A then framebuffer_print fb font 0 (advance y (font_height font)) s pixels
      else do {
        pixels1 \<leftarrow> draw_glyph fb font (glyph_of font c) (word_of_int y * pitch fb + word_of_int (x * 4)) pixels;
        framebuffer_print fb font (advance x (font_width font + 1)) y s pixels1
      })"

subsection \<open>What is drawn\<close>

text \<open>The pixel that the code draws: the test of the mask looks at one byte of each row only.\<close>

definition row_pixel :: "psf_t \<Rightarrow> char \<Rightarrow> nat \<Rightarrow> nat \<Rightarrow> uint32" where
  "row_pixel font c i j =
     (if bit (font_byte font (glyph_of font c + of_nat j * ucast ((font_width font + 7) div 8))) (unat (font_width font) - 1 - i)
      then 0xFFFFFF else 0)"

text \<open>Setting the elements at the places \<open>g 0\<close>, \<open>g 1\<close> and so on, one after the other.\<close>

lemma fold_set_outside: "\<forall>i < n. a \<noteq> g i \<Longrightarrow> fold (\<lambda>i fr. fr(g i := v i)) [0..<n] fr a = fr a"
  by (induction n) auto

lemma fold_set_inside: "k < n \<Longrightarrow> inj_on g {..<n} \<Longrightarrow> fold (\<lambda>i fr. fr(g i := v i)) [0..<n] fr (g k) = v k"
proof (induction n)
  case (Suc n)
  then have "inj_on g {..<n}" by (auto simp: inj_on_def)
  with Suc show ?case by (cases "k = n") (auto simp: inj_on_def)
qed simp

text \<open>Offsets that fit.\<close>

lemma sint_offset:
  assumes "n < 2 ^ 31"
  shows "sint (of_nat n :: uint32) = int n"
  using assms by (simp add: signed_of_nat signed_take_bit_int_eq_self)

lemma draw_row_exact:
  assumes "m + 4 * w \<le> 2 ^ 31"
  shows "i < w \<Longrightarrow> draw_row w b (of_nat m) fr (int (m + 4 * i)) = (if bit b (w - 1 - i) then 0xFFFFFF else 0)"
    "(\<And>i. i < w \<Longrightarrow> a \<noteq> int (m + 4 * i)) \<Longrightarrow> draw_row w b (of_nat m) fr a = fr a"
proof -
  have s: "sint (of_nat m + of_nat (4 * i) :: uint32) = int (m + 4 * i)" if "i < w" for i
    using sint_offset [of "m + 4 * i"] assms that by simp
  have "fold (\<lambda>i fr. fr(sint (of_nat m + of_nat (4 * i) :: uint32) := (if bit b (w - 1 - i) then 0xFFFFFF else 0))) [0..<w] fr =
      fold (\<lambda>i fr. fr(int (m + 4 * i) := (if bit b (w - 1 - i) then 0xFFFFFF else 0))) [0..<w] fr"
    by (rule fold_cong) (simp_all add: s del: of_nat_mult of_nat_add)
  then have r: "draw_row w b (of_nat m) fr = fold (\<lambda>i fr. fr(int (m + 4 * i) := (if bit b (w - 1 - i) then 0xFFFFFF else 0))) [0..<w] fr"
    by (simp only: draw_row_def)
  show "i < w \<Longrightarrow> draw_row w b (of_nat m) fr (int (m + 4 * i)) = (if bit b (w - 1 - i) then 0xFFFFFF else 0)"
    unfolding r by (rule fold_set_inside) (auto simp: inj_on_def)
  show "(\<And>i. i < w \<Longrightarrow> a \<noteq> int (m + 4 * i)) \<Longrightarrow> draw_row w b (of_nat m) fr a = fr a"
    unfolding r by (rule fold_set_outside) blast
qed

text \<open>The rows of a glyph do not overlap when the glyph fits in a line.\<close>

lemma draw_rows_exact:
  assumes fits: "4 * w \<le> p" and row: "\<And>j. j < h \<Longrightarrow> m + j * p + 4 * w \<le> 2 ^ 31"
  shows "i < w \<Longrightarrow> j < h \<Longrightarrow>
      fold (\<lambda>j. draw_row w (b j) (of_nat (m + j * p))) [0..<h] fr (int (m + j * p + 4 * i)) =
        (if bit (b j) (w - 1 - i) then 0xFFFFFF else 0)"
    "(\<And>i j. i < w \<Longrightarrow> j < h \<Longrightarrow> a \<noteq> int (m + j * p + 4 * i)) \<Longrightarrow>
      fold (\<lambda>j. draw_row w (b j) (of_nat (m + j * p))) [0..<h] fr a = fr a"
proof -
  show "fold (\<lambda>j. draw_row w (b j) (of_nat (m + j * p))) [0..<h] fr a = fr a"
    if "\<And>i j. i < w \<Longrightarrow> j < h \<Longrightarrow> a \<noteq> int (m + j * p + 4 * i)"
    using that row
  proof (induction h)
    case (Suc h)
    then show ?case using draw_row_exact(2) [of "m + h * p" w a "b h"] by simp
  qed simp
  show "fold (\<lambda>j. draw_row w (b j) (of_nat (m + j * p))) [0..<h] fr (int (m + j * p + 4 * i)) =
        (if bit (b j) (w - 1 - i) then 0xFFFFFF else 0)" if "i < w" "j < h"
    using that row
  proof (induction h)
    case (Suc h)
    have R: "m + h * p + 4 * w \<le> 2 ^ 31" using Suc.prems(3) by blast
    show ?case
    proof (cases "j = h")
      case True
      then show ?thesis using draw_row_exact(1) [OF R Suc.prems(1)] by (simp del: of_nat_add of_nat_mult)
    next
      case False
      then have "j < h" using Suc.prems(2) by simp
      have "int (m + j * p + 4 * i) \<noteq> int (m + h * p + 4 * k)" if "k < w" for k
      proof -
        have "j * p + p \<le> h * p" using \<open>j < h\<close> by (metis add.commute mult_Suc mult_le_mono1 Suc_leI)
        then have "j * p + 4 * i < h * p + 4 * k" using fits(1) Suc.prems(1) by linarith
        then show ?thesis by linarith
      qed
      then show ?thesis using draw_row_exact(2) [OF R] Suc.IH [OF Suc.prems(1) \<open>j < h\<close>] Suc.prems(3)
        by (simp del: of_nat_add of_nat_mult)
    qed
  qed simp
qed

lemma framebuffer_print_character:
  assumes c: "c \<noteq> NUL" "c \<noteq> CHR 0x0D" "c \<noteq> CHR 0x0A"
    and w: "w = unat (font_width font)" "1 \<le> w" "w \<le> 31" and h: "h = unat (font_height font)"
    and fits: "4 * (x + w) \<le> unat (pitch fb)" "(y + h) * unat (pitch fb) \<le> 2 ^ 31"
  shows "\<exists>pixels1. framebuffer_print fb font (int x) (int y) (c # s) pixels =
      framebuffer_print fb font (int (x + w + 1)) (int y) s pixels1 \<and>
    (\<forall>i < w. \<forall>j < h. pixels1 (int ((y + j) * unat (pitch fb) + 4 * (x + i))) = row_pixel font c i j) \<and>
    (\<forall>a. (\<forall>i < w. \<forall>j < h. a \<noteq> int ((y + j) * unat (pitch fb) + 4 * (x + i))) \<longrightarrow> pixels1 a = pixels a)"
proof -
  let ?p = "unat (pitch fb)" and ?m = "y * unat (pitch fb) + 4 * x"
  let ?b = "\<lambda>j. font_byte font (glyph_of font c + of_nat j * ucast ((font_width font + 7) div 8))"
  let ?px = "fold (\<lambda>j. draw_row w (?b j) (of_nat (?m + j * ?p))) [0..<h] pixels"
  have offs: "word_of_int (int y) * pitch fb + word_of_int (int x * 4) = (of_nat ?m :: uint32)"
    by (simp add: mult.commute)
  have rows: "(of_nat ?m :: uint32) + of_nat j * pitch fb = of_nat (?m + j * ?p)" for j by simp
  have g: "draw_glyph fb font (glyph_of font c) (word_of_int (int y) * pitch fb + word_of_int (int x * 4)) pixels = Some ?px"
    unfolding offs using w h by (simp add: draw_glyph_def rows del: of_nat_add of_nat_mult)
  have pitch_bound: "?p < 2 ^ 32" using unsigned_less [of "pitch fb"] by simp
  have "(of_nat x + font_width font + 1 :: uint32) = of_nat (x + w + 1)" using w(1) by simp
  then have adv: "advance (int x) (font_width font + 1) = int (x + w + 1)"
    using sint_offset [of "x + w + 1"] fits(1) pitch_bound by (simp add: advance_def add_ac)
  have row: "?m + j * ?p + 4 * w \<le> 2 ^ 31" if "j < h" for j
  proof -
    have "(y + j + 1) * ?p \<le> (y + h) * ?p" using that by (intro mult_le_mono1) simp
    then show ?thesis using fits(1,2) by (simp add: algebra_simps)
  qed
  have pos: "(y + j) * ?p + 4 * (x + i) = ?m + j * ?p + 4 * i" for i j by (simp add: algebra_simps)
  have fit: "4 * w \<le> ?p" using fits(1) by simp
  show ?thesis
    unfolding pos
  proof (intro exI [of _ ?px] conjI allI impI)
    show "framebuffer_print fb font (int x) (int y) (c # s) pixels =
        framebuffer_print fb font (int (x + w + 1)) (int y) s ?px"
      using c g adv by (simp del: of_nat_add of_nat_mult)
  next
    fix i j assume "i < w" "j < h"
    with draw_rows_exact(1) [where b = ?b, OF fit row] show "?px (int (?m + j * ?p + 4 * i)) = row_pixel font c i j"
      by (simp add: row_pixel_def w(1) [symmetric] del: of_nat_add of_nat_mult)
  next
    fix a assume "\<forall>i < w. \<forall>j < h. a \<noteq> int (?m + j * ?p + 4 * i)"
    then show "?px a = pixels a" by (intro draw_rows_exact(2) [where b = ?b, OF fit row]) blast+
  qed
qed

end
