(* ===== verification/Boot.thy ===== *)
theory Boot
  imports Platform Sd_Setup Filesystem
begin

text \<open>
  Start-up, \<^verbatim>\<open>kernel/kernel.c\<close>. The state has the SD driver's (which has the device and the console), the
  kernel's, the volume on the disk the driver gives access to, and the timer's next value. The addresses
  the linker decides are arguments. Setting the vector table and enabling interrupts are instructions
  without an effect on this state; the final loop is where the function stops.
\<close>

record 'd machine =
  card_driver :: "'d sd_state"
  kernel :: kernel_state
  volume :: "disk \<times> cursor"
  next_tick :: uint32

definition announce :: "char list \<Rightarrow> 'd machine \<Rightarrow> 'd machine option" where
  "announce t s = do { c \<leftarrow> say (t @ [CHR 0x0A]) (card_driver s); Some (s\<lparr>card_driver := c\<rparr>) }"

definition start_timer :: "'d device \<Rightarrow> 'd machine \<Rightarrow> 'd machine" where
  "start_timer D s =
     (let p = timer_init D \<lparr>pdev = dev (card_driver s), pconsole = console (card_driver s),
                psched = sched (kernel s), curVal = next_tick s\<rparr>
      in s\<lparr>card_driver := (card_driver s)\<lparr>dev := pdev p\<rparr>, next_tick := curVal p\<rparr>)"

text \<open>\<^verbatim>\<open>sd_filesystem_init\<close>, from the initialisation of the card on.\<close>

definition start_filesystem :: "'d device \<Rightarrow> 'd machine \<Rightarrow> (int \<times> 'd machine) option" where
  "start_filesystem D s = do {
     (r, c) \<leftarrow> sd_init D (card_driver s);
     (fs_ok, v) \<leftarrow> sd_filesystem_init r (volume s);
     Some (fs_ok, s\<lparr>card_driver := c, volume := v\<rparr>)
   }"

definition kernel_main :: "'d device \<Rightarrow> ulong \<Rightarrow> ulong \<Rightarrow> ulong \<Rightarrow> 'd machine \<Rightarrow> 'd machine option" where
  "kernel_main D mbox_address ret_from_fork kernel_process_address s = do {
     d1 \<leftarrow> uart_init D mbox_address (dev (card_driver s));
     let s1 = s\<lparr>card_driver := (card_driver s)\<lparr>dev := d1\<rparr>\<rparr>;
     s2 \<leftarrow> announce ''demoOS v.0.0.1'' s1;
     s3 \<leftarrow> announce ''[DONE] irq vector init'' s2;
     let s4 = s3\<lparr>card_driver := on_dev (enable_interrupt_controller D) (card_driver s3)\<rparr>;
     s5 \<leftarrow> announce ''[DONE] enable interrupt controller'' s4;
     s6 \<leftarrow> announce ''[DONE] enable irq'' s5;
     (fs_ok, s7) \<leftarrow> start_filesystem D s6;
     s8 \<leftarrow> announce (if fs_ok = SD_FILESYSTEM_INIT_OK then ''[DONE] SD filesystem init success''
                   else ''[ERROR] SD filesystem init error'') s7;
     (res, k) \<leftarrow> copy_process ret_from_fork PF_KTHREAD kernel_process_address 0 (kernel s8);
     let s9 = s8\<lparr>kernel := k\<rparr>;
     s10 \<leftarrow> (if res < 0 then announce ''[ERROR] Cannot create kernel process.'' s9 else Some s9);
     announce ''[DONE] timer init'' (start_timer D s10)
   }"

definition kernel_process :: "ulong \<Rightarrow> ulong \<Rightarrow> ulong \<Rightarrow> 'd machine \<Rightarrow> 'd machine option" where
  "kernel_process user_begin user_end init_process_address s = do {
     s1 \<leftarrow> announce ''[DEBUG] Kernel process started.'' s;
     let size = user_end - user_begin;
     let pc = init_process_address - user_begin;
     (error, k) \<leftarrow> move_to_user_mode user_begin size pc (kernel s1);
     let s2 = s1\<lparr>kernel := k\<rparr>;
     if error < 0 then announce ''[ERROR] Cannot move process from kernel mode to user mode'' s2 else Some s2
   }"

end
