(* ===== verification/Platform_Properties.thy ===== *)
theory Platform_Properties
  imports Framebuffer Boot Sample_States
begin

text \<open>
  The properties of the small drivers and of start-up, with the concrete inputs at which they are used:
  text on the frame buffer, the interrupt handler, and the kernel state that start-up leaves.
\<close>

subsection \<open>Text on the screen\<close>

text \<open>The characters that are drawn; the other three end, restart or advance the line.\<close>

definition drawn :: "char \<Rightarrow> bool" where
  "drawn c \<longleftrightarrow> c \<noteq> NUL \<and> c \<noteq> CHR 0x0D \<and> c \<noteq> CHR 0x0A"

text \<open>The offset of a pixel.\<close>

definition at_pixel :: "framebuffer \<Rightarrow> nat \<Rightarrow> nat \<Rightarrow> int" where
  "at_pixel fb x y = int (y * unat (pitch fb) + 4 * x)"

lemma at_pixel_inject:
  assumes "4 * x < unat (pitch fb)" "4 * x' < unat (pitch fb)" "at_pixel fb x y = at_pixel fb x' y'"
  shows "x = x' \<and> y = y'"
proof -
  have e: "4 * x + unat (pitch fb) * y = 4 * x' + unat (pitch fb) * y'"
    using assms(3) by (simp only: at_pixel_def of_nat_eq_iff mult.commute add.commute)
  have "4 * x = 4 * x'" using arg_cong [OF e, of "\<lambda>n. n mod unat (pitch fb)"] assms(1,2) by simp
  then show ?thesis using e assms(1) by simp
qed

text \<open>A cell of a line: the place of the character number \<open>k\<close> that starts at column \<open>x\<close>.\<close>

definition in_cell :: "nat \<Rightarrow> nat \<Rightarrow> nat \<Rightarrow> nat \<Rightarrow> nat \<Rightarrow> framebuffer \<Rightarrow> nat \<Rightarrow> int \<Rightarrow> bool" where
  "in_cell w h x y k fb n a \<longleftrightarrow> k < n \<and> (\<exists>i < w. \<exists>j < h. a = at_pixel fb (x + k * (w + 1) + i) (y + j))"

lemma line_drawn:
  assumes w: "w = unat (font_width font)" "1 \<le> w" "w \<le> 31" and h: "h = unat (font_height font)"
  shows "list_all drawn cs \<Longrightarrow> 4 * (x + length cs * (w + 1)) \<le> unat (pitch fb) \<Longrightarrow>
    (y + h) * unat (pitch fb) \<le> 2 ^ 31 \<Longrightarrow>
    \<exists>px. framebuffer_print fb font (int x) (int y) (cs @ NUL # rest) pixels = Some px \<and>
      (\<forall>k < length cs. \<forall>i < w. \<forall>j < h. px (at_pixel fb (x + k * (w + 1) + i) (y + j)) = row_pixel font (cs ! k) i j) \<and>
      (\<forall>a. (\<forall>k. \<not> in_cell w h x y k fb (length cs) a) \<longrightarrow> px a = pixels a)"
proof (induction cs arbitrary: x pixels)
  case (Cons c cs)
  let ?n = "length cs"
  have c: "c \<noteq> NUL" "c \<noteq> CHR 0x0D" "c \<noteq> CHR 0x0A" using Cons.prems(1) by (simp_all add: drawn_def)
  have fits: "4 * (x + w) \<le> unat (pitch fb)" "4 * (x + w + 1 + ?n * (w + 1)) \<le> unat (pitch fb)"
    using Cons.prems(2) by simp_all
  from framebuffer_print_character [OF c w h fits(1) Cons.prems(3), of "cs @ NUL # rest" pixels] obtain px1 where
    p: "framebuffer_print fb font (int x) (int y) (c # cs @ NUL # rest) pixels =
        framebuffer_print fb font (int (x + w + 1)) (int y) (cs @ NUL # rest) px1"
    and i1: "\<forall>i < w. \<forall>j < h. px1 (at_pixel fb (x + i) (y + j)) = row_pixel font c i j"
    and o1: "\<forall>a. (\<forall>i < w. \<forall>j < h. a \<noteq> at_pixel fb (x + i) (y + j)) \<longrightarrow> px1 a = pixels a"
    unfolding at_pixel_def by (elim exE conjE)
  from Cons.IH [of "x + w + 1" px1] Cons.prems(1,3) fits(2) obtain px where
    q: "framebuffer_print fb font (int (x + w + 1)) (int y) (cs @ NUL # rest) px1 = Some px"
    and i2: "\<forall>k < ?n. \<forall>i < w. \<forall>j < h. px (at_pixel fb (x + w + 1 + k * (w + 1) + i) (y + j)) = row_pixel font (cs ! k) i j"
    and o2: "\<forall>a. (\<forall>k. \<not> in_cell w h (x + w + 1) y k fb ?n a) \<longrightarrow> px a = px1 a"
    by auto
  have shift: "in_cell w h (x + w + 1) y k fb ?n a \<longleftrightarrow> in_cell w h x y (Suc k) fb (Suc ?n) a" for k a
    by (simp add: in_cell_def add_ac)
  have first: "in_cell w h x y 0 fb (Suc ?n) a \<longleftrightarrow> (\<exists>i < w. \<exists>j < h. a = at_pixel fb (x + i) (y + j))" for a
    by (simp add: in_cell_def)
  have left: "4 * (x + w + 1 + k * (w + 1) + i) < unat (pitch fb)" if "k < ?n" "i < w" for k i
  proof -
    have "(k + 1) * (w + 1) \<le> ?n * (w + 1)" using that(1) by (intro mult_le_mono1) simp
    then show ?thesis using fits(2) that(2) by simp
  qed
  have apart: "\<not> in_cell w h (x + w + 1) y k fb ?n (at_pixel fb (x + i) (y + j))" if "i < w" for i j k
  proof
    assume "in_cell w h (x + w + 1) y k fb ?n (at_pixel fb (x + i) (y + j))"
    then obtain i' j' where k: "k < ?n" "i' < w"
      and e: "at_pixel fb (x + i) (y + j) = at_pixel fb (x + w + 1 + k * (w + 1) + i') (y + j')"
      unfolding in_cell_def by blast
    have "4 * (x + i) < unat (pitch fb)" using fits(1) that by simp
    from at_pixel_inject [OF this left [OF k] e] that show False by simp
  qed
  show ?case
  proof (intro exI [of _ px] conjI allI impI)
    show "framebuffer_print fb font (int x) (int y) ((c # cs) @ NUL # rest) pixels = Some px"
      using p q by simp
  next
    fix k i j assume k: "k < length (c # cs)" and ij: "i < w" "j < h"
    show "px (at_pixel fb (x + k * (w + 1) + i) (y + j)) = row_pixel font ((c # cs) ! k) i j"
    proof (cases k)
      case 0
      then show ?thesis using o2 apart [OF ij(1)] i1 ij by simp
    next
      case (Suc k')
      then have "k' < ?n" using k by simp
      with i2 ij have "px (at_pixel fb (x + w + 1 + k' * (w + 1) + i) (y + j)) = row_pixel font (cs ! k') i j" by blast
      then show ?thesis unfolding Suc by (simp add: add_ac)
    qed
  next
    fix a assume "\<forall>k. \<not> in_cell w h x y k fb (length (c # cs)) a"
    then have "\<And>k. \<not> in_cell w h (x + w + 1) y k fb ?n a" "\<not> in_cell w h x y 0 fb (Suc ?n) a"
      unfolding shift by simp_all
    then show "px a = pixels a" using o1 o2 unfolding first by metis
  qed
qed (simp add: in_cell_def)


text \<open>The pixels of a font in the format of the Linux console, after its header: a glyph is a sequence of rows from
  top to bottom, a row is padded to whole bytes, and its pixels go from the most significant bit of its first byte on. A
  character beyond the glyphs of the font is shown as glyph 0.\<close>

definition glyph_number :: "psf_t \<Rightarrow> char \<Rightarrow> nat" where
  "glyph_number font c = (if of_char c < unat (numglyph font) then of_char c else 0)"

definition font_pixel :: "psf_t \<Rightarrow> char \<Rightarrow> nat \<Rightarrow> nat \<Rightarrow> bool" where
  "font_pixel font c i j =
     bit (font_byte font (of_nat (unat (headersize font) + glyph_number font c * unat (bytesperglyph font) +
       j * ((unat (font_width font) + 7) div 8) + i div 8))) (7 - i mod 8)"

lemma glyph_of_number:
  assumes "256 * unat (bytesperglyph font) \<le> 2 ^ 32"
  shows "glyph_of font c = of_nat (unat (headersize font) + glyph_number font c * unat (bytesperglyph font))"
proof -
  let ?b = "unat (bytesperglyph font)" and ?g = "glyph_number font c"
  have u: "(of_char c :: uint32) = of_nat (of_char c)" by (simp only: of_nat_of_char)
  have "(of_char c :: nat) < 256" by simp
  then have "(of_char c :: nat) < 2 ^ 32" by (rule less_le_trans) simp
  then have "take_bit 32 (of_char c :: nat) = of_char c" by (rule take_bit_nat_eq_self)
  then have v: "unat (of_nat (of_char c) :: uint32) = of_char c" by (simp only: unsigned_of_nat) simp
  have n: "(if of_char c < numglyph font then of_char c else 0) = (of_nat ?g :: uint32)"
    unfolding u word_less_nat_alt v by (simp add: glyph_number_def)
  have g: "?g < 256" using nat_of_char_less_256 [of c] by (auto simp: glyph_number_def)
  have "?g * ?b < 2 ^ 32"
  proof (cases "?b = 0")
    case False
    then have "?g * ?b < 256 * ?b" using g by simp
    then show ?thesis using assms by linarith
  qed simp
  then have "unat (of_nat (?g * ?b) :: uint32) = ?g * ?b" by (simp add: unsigned_of_nat take_bit_nat_eq_self del: of_nat_mult)
  then have "unat (of_nat ?g * bytesperglyph font) = ?g * ?b" by simp
  then have "(ucast (of_nat ?g * bytesperglyph font) :: ulong) = of_nat (?g * ?b)" by (metis of_nat_unat)
  then show ?thesis unfolding glyph_of_def n by simp
qed

text \<open>With a font that is eight pixels wide the one byte of a row that the code tests is the whole row.\<close>

lemma row_pixel_font:
  assumes "font_width font = 8" "256 * unat (bytesperglyph font) \<le> 2 ^ 32" "i < 8"
  shows "row_pixel font c i j = (if font_pixel font c i j then 0xFFFFFF else 0)"
proof -
  have "ucast ((8 + 7) div 8 :: uint32) = (1 :: ulong)" by code_simp
  then show ?thesis using assms(1,3) by (simp add: row_pixel_def font_pixel_def glyph_of_number [OF assms(2)] add.assoc)
qed

text \<open>C40: text on the screen. With a font that is eight pixels wide, as the one that is linked to the kernel is, a line
  of characters that end with a NUL is drawn without leaving the frame buffer when it fits in a row of pixels:
  each pixel of the cell of each character is white or black as the pixel of the font is, cells do not touch, and no
  other pixel changes. (Of a row of a wider font the code draws the first byte only, at the right of the cell.)\<close>

theorem framebuffer_print_draws:
  assumes "font_width font = 8" "256 * unat (bytesperglyph font) \<le> 2 ^ 32" "h = unat (font_height font)"
    and "list_all drawn cs" "4 * (x + length cs * 9) \<le> unat (pitch fb)" "(y + h) * unat (pitch fb) \<le> 2 ^ 31"
  shows "\<exists>px. framebuffer_print fb font (int x) (int y) (cs @ NUL # rest) pixels = Some px \<and>
      (\<forall>k < length cs. \<forall>i < 8. \<forall>j < h.
         px (at_pixel fb (x + k * 9 + i) (y + j)) = (if font_pixel font (cs ! k) i j then 0xFFFFFF else 0)) \<and>
      (\<forall>a. (\<forall>k < length cs. \<forall>i < 8. \<forall>j < h. a \<noteq> at_pixel fb (x + k * 9 + i) (y + j)) \<longrightarrow> px a = pixels a)"
proof -
  have w: "8 = unat (font_width font)" "1 \<le> (8 :: nat)" "(8 :: nat) \<le> 31" by (simp_all add: assms(1))
  have "4 * (x + length cs * (8 + 1)) \<le> unat (pitch fb)" using assms(5) by simp
  from line_drawn [OF w assms(3,4) this assms(6), of rest pixels] obtain px where
    px: "framebuffer_print fb font (int x) (int y) (cs @ NUL # rest) pixels = Some px"
      "\<forall>k < length cs. \<forall>i < 8. \<forall>j < h. px (at_pixel fb (x + k * (8 + 1) + i) (y + j)) = row_pixel font (cs ! k) i j"
      "\<forall>a. (\<forall>k. \<not> in_cell 8 h x y k fb (length cs) a) \<longrightarrow> px a = pixels a" by blast
  have c: "k * (8 + 1) = k * 9" for k :: nat by simp
  have "px (at_pixel fb (x + k * 9 + i) (y + j)) = (if font_pixel font (cs ! k) i j then 0xFFFFFF else 0)"
    if "k < length cs" "i < 8" "j < h" for k i j
    using px(2) that row_pixel_font [OF assms(1,2) that(2)] unfolding c by simp
  moreover have "px a = pixels a" if "\<forall>k < length cs. \<forall>i < 8. \<forall>j < h. a \<noteq> at_pixel fb (x + k * 9 + i) (y + j)" for a
    using px(3) that unfolding in_cell_def c by blast
  ultimately show ?thesis using px(1) by blast
qed

text \<open>A font of two glyphs of eight by two pixels, and a screen 64 pixels wide.\<close>

definition small_font :: psf_t where
  "small_font = \<lparr>headersize = 32, numglyph = 2, bytesperglyph = 2, font_height = 2, font_width = 8,
     font_byte = (\<lambda>a. if a = 35 then 0x81 else 0x18)\<rparr>"

definition small_screen :: framebuffer where
  "small_screen = \<lparr>framebuffer_address = 0, fb_width = 64, fb_height = 16, pitch = 256, isrgb = 1\<rparr>"

theorem framebuffer_print_draws_witness:
  "\<exists>px. framebuffer_print small_screen small_font 1 2 [CHR 0x01, CHR 0x01, NUL] (\<lambda>_. 7) = Some px \<and>
     px (at_pixel small_screen 10 3) = 0xFFFFFF \<and> px (at_pixel small_screen 11 3) = 0 \<and>
     px (at_pixel small_screen 17 3) = 0xFFFFFF \<and> px (at_pixel small_screen 18 3) = 7"
proof -
  let ?cs = "[CHR 0x01, CHR 0x01]"
  have f: "font_width small_font = 8" "256 * unat (bytesperglyph small_font) \<le> 2 ^ 32" "2 = unat (font_height small_font)"
    "list_all drawn ?cs" and p: "unat (pitch small_screen) = 256"
    by (simp_all add: small_font_def small_screen_def drawn_def)
  have "4 * (1 + length ?cs * 9) \<le> unat (pitch small_screen)" "(2 + 2) * unat (pitch small_screen) \<le> 2 ^ 31"
    unfolding p by simp_all
  from framebuffer_print_draws [OF f this, of "[]" "\<lambda>_. 7"] obtain px where
    px: "framebuffer_print small_screen small_font 1 2 [CHR 0x01, CHR 0x01, NUL] (\<lambda>_. 7) = Some px"
    and i: "\<forall>k < 2. \<forall>i < 8. \<forall>j < 2. px (at_pixel small_screen (1 + k * 9 + i) (2 + j)) = (if font_pixel small_font (?cs ! k) i j then 0xFFFFFF else 0)"
    and o: "\<forall>a. (\<forall>k < 2. \<forall>i < 8. \<forall>j < 2. a \<noteq> at_pixel small_screen (1 + k * 9 + i) (2 + j)) \<longrightarrow> px a = 7"
    by (auto simp: numeral_2_eq_2)
  have g: "font_pixel small_font (CHR 0x01) 0 1" "\<not> font_pixel small_font (CHR 0x01) 1 1" "font_pixel small_font (CHR 0x01) 7 1"
    by code_simp+
  have "at_pixel small_screen 18 3 \<noteq> at_pixel small_screen (1 + k * 9 + i) (2 + j)" if k: "k < 2" "i < 8" for k i j
    using at_pixel_inject [of 18 small_screen "1 + k * 9 + i" 3 "2 + j"] k by (auto simp: p less_2_cases_iff)
  then have "px (at_pixel small_screen 18 3) = 7" using o by blast
  moreover have "px (at_pixel small_screen 10 3) = 0xFFFFFF" using i [rule_format, of 1 0 1] by (simp add: g del: One_nat_def)
  moreover have "px (at_pixel small_screen 11 3) = 0" using i [rule_format, of 1 1 1] by (simp add: g del: One_nat_def)
  moreover have "px (at_pixel small_screen 17 3) = 0xFFFFFF" using i [rule_format, of 1 7 1] by (simp add: g del: One_nat_def)
  ultimately show ?thesis using px by blast
qed

subsection \<open>Interrupts\<close>

lemma ring_ok_puts: "ring_ok u \<Longrightarrow> ring_ok (u\<lparr>tx := str\<rparr>)" "ring_ok u \<Longrightarrow> ring_ok (u\<lparr>rx_fifo := f\<rparr>)"
  "ring_ok u \<Longrightarrow> ring_ok (u\<lparr>uart_mis := v\<rparr>)" "ring_ok u \<Longrightarrow> ring_ok (u\<lparr>uart_imsc := v\<rparr>)"
  by (simp_all add: ring_ok_def)

lemma rx_loop_returns:
  "ring_ok u \<Longrightarrow> well_formed s \<Longrightarrow> runs (rx_loop drs u s) (\<lambda>(v, t). ring_ok v \<and> well_formed t)"
proof (induction drs arbitrary: u s)
  case (Cons dr drs)
  from Cons.prems obtain rq mls where inv: "sched_inv s rq mls" by (auto simp: well_formed_def)
  from uart_store_ring [OF Cons.prems(1), of "dr_char dr"] obtain v where
    v: "uart_store (dr_char dr) u = Some v" "ring_ok v" by blast
  from wake_readers_ok [OF inv] obtain t where t: "wake_readers s = Some t" "well_formed t" by (auto simp: well_formed_def)
  from Cons.IH [OF v(2) t(2)] Cons.IH [OF ring_ok_puts(1) [OF Cons.prems(1)] Cons.prems(2)] show ?case
    by (simp add: v(1) t(1) uart_puts_literal uart_hex_digits)
qed (simp add: ring_ok_puts)

lemma timeout_loop_returns: "ring_ok u \<Longrightarrow> runs (timeout_loop drs u) ring_ok"
proof (induction drs arbitrary: u)
  case (Cons dr drs)
  from Cons.IH [OF ring_ok_puts(1) [OF Cons.prems]] show ?case
    by (simp add: uart_puts_literal uart_putc_def)
qed (simp add: ring_ok_puts)

lemma handle_uart_irq_returns:
  assumes "ring_ok u" "well_formed s"
  shows "runs (handle_uart_irq u s) (\<lambda>(v, t). ring_ok v \<and> well_formed t)"
proof -
  have ack: "ring_ok v \<Longrightarrow> ring_ok (write_icr m v)" for m v by (simp add: write_icr_def ring_ok_puts)
  have timeout: "ring_ok v \<Longrightarrow> runs (timeout_loop (rx_fifo v) (v\<lparr>tx := str\<rparr>)) ring_ok" for v str
    by (rule timeout_loop_returns) (simp add: ring_ok_puts)
  have receive: "runs (if b then do { (v, t) \<leftarrow> rx_loop (rx_fifo u) u s; Some (write_icr (push_bit 4 1) v, t) } else Some (u, s))
      (\<lambda>(v, t). ring_ok v \<and> well_formed t)" for b
    using assms by (intro runs_intro runs_bind [OF rx_loop_returns [OF assms]]) (auto simp: ack)
  show ?thesis
    unfolding handle_uart_irq_def Let_def
  proof (rule runs_bind [OF receive], clarify)
    fix v t assume v: "ring_ok v" "well_formed t"
    let ?v = "if uart_mis u AND push_bit 5 1 \<noteq> 0
      then write_icr (push_bit 5 1) (v\<lparr>uart_imsc := uart_imsc v AND NOT (push_bit 5 1)\<rparr>) else v"
    have w: "ring_ok ?v" using v(1) by (simp add: ack ring_ok_puts)
    then show "runs ((if uart_mis u AND push_bit 6 1 \<noteq> 0 then do {
           x \<leftarrow> uart_puts (literal (CHR '':'' # '' timeout'' @ [CHR 0x0D, CHR 0x0A])) ?v;
           y \<leftarrow> timeout_loop (rx_fifo x) x;
           Some (write_icr (push_bit 6 1) y)
         } else Some ?v) \<bind> (\<lambda>u3. Some (u3, t))) (\<lambda>(v, t). ring_ok v \<and> well_formed t)"
      using v(2) timeout [OF w]
      by (intro runs_intro) (auto simp: uart_puts_literal ack intro!: runs_bind [where Q = ring_ok])
  qed
qed

text \<open>The timer interrupt: acknowledge, set the next one, tick.\<close>

lemma handle_timer_irq_returns:
  assumes "well_formed (psched p)"
  shows "\<exists>t. handle_timer_tick (psched p) = Some t \<and> well_formed t \<and>
    handle_timer_irq D p = Some (p\<lparr>pdev := mmio_write D TIMER_C1 (curVal p + TIMER_PERIOD) (mmio_write D TIMER_CS TIMER_CS_M1 (pdev p)),
      curVal := curVal p + TIMER_PERIOD, psched := t\<rparr>)"
  using handle_timer_tick_ok [OF assms] by (auto simp: handle_timer_irq_def Let_def)

text \<open>The interrupt handler: the timer first, then the console.\<close>

lemma handle_irq_cases:
  assumes "well_formed (psched p)" "ring_ok (pconsole p)"
  shows "\<exists>q. handle_irq D p = Some q \<and> well_formed (psched q) \<and> ring_ok (pconsole q) \<and>
    (let (p1, d1) = mmio_get D IRQ_PENDING_1 (pdev p); (p2, d2) = mmio_get D IRQ_PENDING_2 d1
     in if p1 AND SYSTEM_TIMER_IRQ_1 \<noteq> 0
        then handle_timer_tick (psched p) = Some (psched q) \<and> pconsole q = pconsole p \<and>
          curVal q = curVal p + TIMER_PERIOD \<and>
          pdev q = mmio_write D TIMER_C1 (curVal q) (mmio_write D TIMER_CS TIMER_CS_M1 d2)
        else curVal q = curVal p \<and> pdev q = d2 \<and>
          (if p2 AND UART0_IRQ_BIT \<noteq> 0 then handle_uart_irq (pconsole p) (psched p) = Some (pconsole q, psched q)
           else psched q = psched p))"
proof -
  obtain p1 d1 where 1: "mmio_get D IRQ_PENDING_1 (pdev p) = (p1, d1)" by fastforce
  obtain p2 d2 where 2: "mmio_get D IRQ_PENDING_2 d1 = (p2, d2)" by fastforce
  consider "p1 AND SYSTEM_TIMER_IRQ_1 \<noteq> 0" | "p1 AND SYSTEM_TIMER_IRQ_1 = 0" "p2 AND UART0_IRQ_BIT \<noteq> 0"
    | "p1 AND SYSTEM_TIMER_IRQ_1 = 0" "p2 AND UART0_IRQ_BIT = 0" by blast
  then show ?thesis
  proof cases
    case 1
    from handle_timer_irq_returns [of "p\<lparr>pdev := d2\<rparr>" D] assms 1 show ?thesis
      by (auto simp: handle_irq_def \<open>mmio_get D IRQ_PENDING_1 (pdev p) = (p1, d1)\<close> 2)
  next
    case 2
    from handle_uart_irq_returns [OF assms(2,1)] obtain v t where
      "handle_uart_irq (pconsole p) (psched p) = Some (v, t)" "ring_ok v" "well_formed t" by (auto simp: runs_def)
    with 2 show ?thesis
      by (simp add: handle_irq_def \<open>mmio_get D IRQ_PENDING_1 (pdev p) = (p1, d1)\<close> \<open>mmio_get D IRQ_PENDING_2 d1 = (p2, d2)\<close>)
  next
    case 3
    then show ?thesis using assms
      by (simp add: handle_irq_def 1 \<open>mmio_get D IRQ_PENDING_2 d1 = (p2, d2)\<close> uart_puts_literal uart_hex_digits ring_ok_puts)
  qed
qed

text \<open>A device that remembers what was written, with both interrupts pending.\<close>

definition both_pending :: "(ulong \<times> uint32) list device" where
  "both_pending = \<lparr>reg_read = (\<lambda>a d. (0xFFFFFFFF, d)), reg_write = (\<lambda>a v d. (a, v) # d)\<rparr>"

subsection \<open>Start-up\<close>

text \<open>All that start-up does to the kernel's own state is one creation of a process, so the kernel is in a
  reachable state when interrupts start to arrive.\<close>

lemma announce_frame: "announce str s = Some t \<Longrightarrow> kernel t = kernel s \<and> next_tick t = next_tick s \<and> volume t = volume s"
  by (auto simp: announce_def bind_eq_Some_conv)

lemma start_timer_kernel [simp]: "kernel (start_timer D s) = kernel s"
  by (simp add: start_timer_def Let_def)

lemma start_filesystem_kernel: "start_filesystem D s = Some (r, t) \<Longrightarrow> kernel t = kernel s"
  by (auto simp: start_filesystem_def bind_eq_Some_conv)

lemma kernel_main_step:
  assumes "kernel_main D a ret_from_fork kernel_process_address s = Some t"
  shows "kernel_step (kernel s) (kernel t)"
proof -
  obtain r k where c: "copy_process ret_from_fork PF_KTHREAD kernel_process_address 0 (kernel s) = Some (r, k)"
    and k: "kernel t = k"
    using assms unfolding kernel_main_def Let_def
    by (auto simp: bind_eq_Some_conv dest!: announce_frame start_filesystem_kernel split: if_splits)
  show ?thesis unfolding k by (rule kernel_step.create [OF c])
qed

lemma kernel_main_reachable:
  assumes "reachable (kernel s)" "kernel_main D a ret_from_fork kernel_process_address s = Some t"
  shows "reachable (kernel t)" "well_formed (sched (kernel t))"
proof -
  show r: "reachable (kernel t)" by (rule reachable.step [OF assms(1) kernel_main_step [OF assms(2)]])
  show "well_formed (sched (kernel t))" using reachable_ok [OF r] by (simp add: kernel_ok_def)
qed

end
