(* ===== verification/Exceptions.thy ===== *)
theory Exceptions
  imports Syscalls
begin

unbundle bit_operations_syntax

text \<open>
  Entering and leaving the kernel: \<^verbatim>\<open>drivers/irq/entry.S\<close>, \<^verbatim>\<open>vector.S\<close> and the stubs of
  \<^verbatim>\<open>common/user_syscalls.S\<close>. The state is that of the processor: the general registers \<^verbatim>\<open>x0\<close> to \<^verbatim>\<open>x30\<close>, the two
  stack pointers, the program counter and status, the exception registers, and the words of the kernel
  stacks. The C functions that the assembly calls are arguments; what it relies on is the calling
  convention, stated as the locale \<open>c_function\<close>. A path that ends in the endless loop \<^verbatim>\<open>err_hang\<close> is
  \<open>None\<close>.
\<close>

record cpu =
  x_regs :: "ulong list"
  sp_el1 :: ulong
  sp_el0 :: ulong
  cpu_pc :: ulong
  pstate :: ulong
  elr_el1 :: ulong
  spsr_el1 :: ulong
  esr_el1 :: ulong
  far_el1 :: ulong
  stack_words :: "ulong \<Rightarrow> ulong"

subsection \<open>Instructions\<close>

text \<open>Storing and loading a pair of registers relative to the stack pointer.\<close>

definition stp :: "nat \<Rightarrow> nat \<Rightarrow> ulong \<Rightarrow> cpu \<Rightarrow> cpu" where
  "stp i j off c = c\<lparr>stack_words := (stack_words c)(sp_el1 c + off := x_regs c ! i, sp_el1 c + off + 8 := x_regs c ! j)\<rparr>"

definition ldp :: "nat \<Rightarrow> nat \<Rightarrow> ulong \<Rightarrow> cpu \<Rightarrow> cpu" where
  "ldp i j off c = c\<lparr>x_regs := (x_regs c)[i := stack_words c (sp_el1 c + off), j := stack_words c (sp_el1 c + off + 8)]\<rparr>"

definition mov :: "nat \<Rightarrow> ulong \<Rightarrow> cpu \<Rightarrow> cpu" where
  "mov i v c = c\<lparr>x_regs := (x_regs c)[i := v]\<rparr>"

text \<open>The processor takes an exception: it notes where to go on and masks interrupts.\<close>

definition PSTATE_EL1h_MASKED :: ulong where "PSTATE_EL1h_MASKED = 0x3c5"
definition PSTATE_I :: ulong where "PSTATE_I = 0x80"

definition take_exception :: "ulong \<Rightarrow> cpu \<Rightarrow> cpu" where
  "take_exception return_address c =
     c\<lparr>elr_el1 := return_address, spsr_el1 := pstate c, pstate := PSTATE_EL1h_MASKED\<rparr>"

definition eret :: "cpu \<Rightarrow> cpu" where
  "eret c = c\<lparr>cpu_pc := elr_el1 c, pstate := spsr_el1 c\<rparr>"

definition enable_irq :: "cpu \<Rightarrow> cpu" where
  "enable_irq c = c\<lparr>pstate := pstate c AND NOT PSTATE_I\<rparr>"

definition disable_irq :: "cpu \<Rightarrow> cpu" where
  "disable_irq c = c\<lparr>pstate := pstate c OR PSTATE_I\<rparr>"

subsection \<open>The trap frame\<close>

definition S_FRAME_SIZE :: ulong where "S_FRAME_SIZE = 272"

definition frame_pairs :: "(nat \<times> nat \<times> ulong) list" where
  "frame_pairs = map (\<lambda>k. (2 * k, 2 * k + 1, 16 * of_nat k)) [0..<15]"

definition kernel_entry :: "nat \<Rightarrow> cpu \<Rightarrow> cpu" where
  "kernel_entry el c =
     (let c1 = c\<lparr>sp_el1 := sp_el1 c - S_FRAME_SIZE\<rparr>;
          c2 = fold (\<lambda>(i, j, off). stp i j off) frame_pairs c1;
          c3 = mov 21 (if el = 0 then sp_el0 c2 else sp_el1 c2 + S_FRAME_SIZE) c2;
          c4 = mov 22 (elr_el1 c3) c3;
          c5 = mov 23 (spsr_el1 c4) c4
      in stp 22 23 256 (stp 30 21 240 c5))"

definition kernel_exit :: "nat \<Rightarrow> cpu \<Rightarrow> cpu" where
  "kernel_exit el c =
     (let c1 = ldp 30 21 240 (ldp 22 23 256 c);
          c2 = (if el = 0 then c1\<lparr>sp_el0 := x_regs c1 ! 21\<rparr> else c1);
          c3 = c2\<lparr>elr_el1 := x_regs c2 ! 22, spsr_el1 := x_regs c2 ! 23\<rparr>;
          c4 = fold (\<lambda>(i, j, off). ldp i j off) frame_pairs c3
      in eret (c4\<lparr>sp_el1 := sp_el1 c4 + S_FRAME_SIZE\<rparr>))"

subsection \<open>The vectors and the handlers\<close>

datatype vector = Invalid nat nat | El1_irq | El0_sync | El0_irq

definition vectors :: "vector list" where
  "vectors =
     [Invalid 1 0, Invalid 1 1, Invalid 1 2, Invalid 1 3,
      Invalid 1 4, El1_irq, Invalid 1 6, Invalid 1 7,
      El0_sync, El0_irq, Invalid 0 10, Invalid 0 11,
      Invalid 0 12, Invalid 0 13, Invalid 0 14, Invalid 0 15]"

text \<open>A C function as the assembly sees it: it runs on the registers and the stack, and on the state of the
  kernel.\<close>

type_synonym 'st code = "cpu \<times> 'st \<Rightarrow> (cpu \<times> 'st) option"

definition SYNC_ERROR :: ulong where "SYNC_ERROR = 16"
definition DATA_ABORT_ERROR :: ulong where "DATA_ABORT_ERROR = 15"
definition ESR_ELx_EC_SHIFT :: nat where "ESR_ELx_EC_SHIFT = 26"
definition ESR_ELx_EC_SVC64 :: ulong where "ESR_ELx_EC_SVC64 = 0x15"
definition ESR_ELx_EC_DABT_LOW :: ulong where "ESR_ELx_EC_DABT_LOW = 0x24"

text \<open>\<^verbatim>\<open>handle_invalid_entry\<close> shows a message and loops for ever.\<close>

definition handle_invalid_entry :: "'st code \<Rightarrow> nat \<Rightarrow> ulong \<Rightarrow> 'st code" where
  "handle_invalid_entry show_message el kind s = do {
     _ \<leftarrow> show_message (mov 2 (elr_el1 (fst s)) (mov 1 (esr_el1 (fst s)) (mov 0 kind (kernel_entry el (fst s)))), snd s);
     None
   }"

definition on_cpu :: "(cpu \<Rightarrow> cpu) \<Rightarrow> cpu \<times> 'st \<Rightarrow> cpu \<times> 'st" where
  "on_cpu g s = (g (fst s), snd s)"

definition el1_irq :: "'st code \<Rightarrow> 'st code" where
  "el1_irq handle_irq s = do {
     s1 \<leftarrow> handle_irq (on_cpu (kernel_entry 1) s);
     Some (on_cpu (kernel_exit 1) s1)
   }"

definition el0_irq :: "'st code \<Rightarrow> 'st code" where
  "el0_irq handle_irq s = do {
     s1 \<leftarrow> handle_irq (on_cpu (kernel_entry 0) s);
     Some (on_cpu (kernel_exit 0) s1)
   }"

definition el0_svc :: "'st code \<Rightarrow> 'st code" where
  "el0_svc dispatch s = do {
     let s1 = on_cpu enable_irq s;
     s2 \<leftarrow> dispatch (on_cpu (\<lambda>c. mov 0 (sp_el1 c) c) s1);
     Some (on_cpu (kernel_exit 0 \<circ> disable_irq) s2)
   }"

definition el0_da :: "'st code \<Rightarrow> 'st code \<Rightarrow> 'st code" where
  "el0_da abort show_message s = do {
     let s1 = on_cpu (\<lambda>c. mov 1 (esr_el1 c) (mov 0 (far_el1 c) c)) (on_cpu enable_irq s);
     s2 \<leftarrow> abort s1;
     if x_regs (fst s2) ! 0 = 0 then Some (on_cpu (kernel_exit 0 \<circ> disable_irq) s2)
     else handle_invalid_entry show_message 0 DATA_ABORT_ERROR s2
   }"

definition el0_sync :: "'st code \<Rightarrow> 'st code \<Rightarrow> 'st code \<Rightarrow> 'st code" where
  "el0_sync dispatch abort show_message s = do {
     let s1 = on_cpu (kernel_entry 0) s;
     let s2 = on_cpu (\<lambda>c. mov 24 (drop_bit ESR_ELx_EC_SHIFT (esr_el1 c)) (mov 25 (esr_el1 c) c)) s1;
     if x_regs (fst s2) ! 24 = ESR_ELx_EC_SVC64 then el0_svc dispatch s2
     else if x_regs (fst s2) ! 24 = ESR_ELx_EC_DABT_LOW then el0_da abort show_message s2
     else handle_invalid_entry show_message 0 SYNC_ERROR s2
   }"

text \<open>Where a new process begins: with a function to call, or on its way to user mode.\<close>

definition ret_to_user :: "cpu \<times> 'st \<Rightarrow> cpu \<times> 'st" where
  "ret_to_user s = on_cpu (kernel_exit 0 \<circ> disable_irq) s"

definition ret_from_fork_entry :: "'st code \<Rightarrow> (ulong \<Rightarrow> 'st code) \<Rightarrow> 'st code" where
  "ret_from_fork_entry tail_code function_at s = do {
     s1 \<leftarrow> tail_code s;
     if x_regs (fst s1) ! 19 = 0 then Some (ret_to_user s1)
     else do {
       s2 \<leftarrow> function_at (x_regs (fst s1) ! 19) (on_cpu (\<lambda>c. mov 0 (x_regs c ! 20) c) s1);
       Some (ret_to_user s2)
     }
   }"

subsection \<open>The frame as the kernel's C code sees it\<close>

definition frame_words :: "cpu \<Rightarrow> ulong list" where
  "frame_words c = map (\<lambda>i. stack_words c (sp_el1 c + 8 * of_nat i)) [0..<34]"

text \<open>The words the entry stores, and what the exit makes of 34 words.\<close>

definition saved :: "nat \<Rightarrow> cpu \<Rightarrow> ulong list" where
  "saved el c = x_regs c @ [if el = 0 then sp_el0 c else sp_el1 c, elr_el1 c, spsr_el1 c]"

lemma upt_15: "[0..<15] = [0, 1, 2, 3, 4, 5, 6, 7, 8, 9, 10, 11, 12, 13, 14 :: nat]"
  by (simp add: upt_rec)

lemma upt_34: "[0..<34] = [0, 1, 2, 3, 4, 5, 6, 7, 8, 9, 10, 11, 12, 13, 14, 15, 16, 17, 18, 19, 20, 21, 22, 23, 24, 25, 26, 27,
    28, 29, 30, 31, 32, 33 :: nat]"
  by (simp add: upt_rec)

lemma entry_stack:
  assumes "length (x_regs c) = 31"
  shows "frame_words (kernel_entry el c) = saved el c"
proof -
  define b where "b = sp_el1 c - S_FRAME_SIZE"
  have b: "b + S_FRAME_SIZE = sp_el1 c" by (simp add: b_def)
  have c31: "\<exists>x0 x1 x2 x3 x4 x5 x6 x7 x8 x9 x10 x11 x12 x13 x14 x15 x16 x17 x18 x19 x20 x21 x22 x23 x24 x25 x26 x27 x28 x29 x30.
    x_regs c = [x0, x1, x2, x3, x4, x5, x6, x7, x8, x9, x10, x11, x12, x13, x14, x15, x16, x17, x18, x19, x20, x21, x22, x23,
      x24, x25, x26, x27, x28, x29, x30]"
    using assms by (auto simp: length_Suc_conv numeral_eq_Suc)
  then show ?thesis
    by (elim exE) (simp add: frame_words_def kernel_entry_def saved_def upt_34 frame_pairs_def upt_15 stp_def mov_def Let_def b_def [symmetric] b)
qed

lemma entry_fields:
  "sp_el1 (kernel_entry el c) = sp_el1 c - S_FRAME_SIZE" "length (x_regs (kernel_entry el c)) = length (x_regs c)"
  "esr_el1 (kernel_entry el c) = esr_el1 c" "far_el1 (kernel_entry el c) = far_el1 c" "pstate (kernel_entry el c) = pstate c"
  by (simp_all add: kernel_entry_def frame_pairs_def upt_15 stp_def mov_def Let_def)

lemma mov_fields [simp]:
  "stack_words (mov i v c) = stack_words c" "sp_el1 (mov i v c) = sp_el1 c" "sp_el0 (mov i v c) = sp_el0 c"
  "esr_el1 (mov i v c) = esr_el1 c" "far_el1 (mov i v c) = far_el1 c" "elr_el1 (mov i v c) = elr_el1 c"
  "spsr_el1 (mov i v c) = spsr_el1 c" "pstate (mov i v c) = pstate c" "x_regs (mov i v c) = (x_regs c)[i := v]"
  by (simp_all add: mov_def)

lemma irq_fields [simp]:
  "stack_words (enable_irq c) = stack_words c" "sp_el1 (enable_irq c) = sp_el1 c" "x_regs (enable_irq c) = x_regs c"
  "stack_words (disable_irq c) = stack_words c" "sp_el1 (disable_irq c) = sp_el1 c" "x_regs (disable_irq c) = x_regs c"
  "sp_el0 (disable_irq c) = sp_el0 c" "esr_el1 (enable_irq c) = esr_el1 c" "far_el1 (enable_irq c) = far_el1 c"
  by (simp_all add: enable_irq_def disable_irq_def)

lemma frame_words_cong: "stack_words c = stack_words d \<Longrightarrow> sp_el1 c = sp_el1 d \<Longrightarrow> frame_words c = frame_words d"
  by (simp add: frame_words_def)

text \<open>Leaving the kernel loads the registers from the frame.\<close>

lemma exit_cpu:
  assumes "length (x_regs c) = 31"
  shows "x_regs (kernel_exit el c) = take 31 (frame_words c)" "cpu_pc (kernel_exit el c) = frame_words c ! 32"
    "pstate (kernel_exit el c) = frame_words c ! 33" "sp_el1 (kernel_exit el c) = sp_el1 c + S_FRAME_SIZE"
    "sp_el0 (kernel_exit el c) = (if el = 0 then frame_words c ! 31 else sp_el0 c)"
proof -
  have c31: "\<exists>x0 x1 x2 x3 x4 x5 x6 x7 x8 x9 x10 x11 x12 x13 x14 x15 x16 x17 x18 x19 x20 x21 x22 x23 x24 x25 x26 x27 x28 x29 x30.
    x_regs c = [x0, x1, x2, x3, x4, x5, x6, x7, x8, x9, x10, x11, x12, x13, x14, x15, x16, x17, x18, x19, x20, x21, x22, x23,
      x24, x25, x26, x27, x28, x29, x30]"
    using assms by (auto simp: length_Suc_conv numeral_eq_Suc)
  note D = kernel_exit_def frame_words_def upt_34 frame_pairs_def upt_15 ldp_def eret_def Let_def
  from c31 show "x_regs (kernel_exit el c) = take 31 (frame_words c)" by (elim exE) (simp add: D add.commute)
  from c31 show "cpu_pc (kernel_exit el c) = frame_words c ! 32" by (elim exE) (simp add: D add.commute)
  from c31 show "pstate (kernel_exit el c) = frame_words c ! 33" by (elim exE) (simp add: D add.commute)
  from c31 show "sp_el1 (kernel_exit el c) = sp_el1 c + S_FRAME_SIZE" by (elim exE) (simp add: D add.commute)
  from c31 show "sp_el0 (kernel_exit el c) = (if el = 0 then frame_words c ! 31 else sp_el0 c)" by (elim exE) (simp add: D add.commute)
qed

subsection \<open>Calling C code\<close>

text \<open>What the assembly relies on when it calls a C function that has the effect \<open>f\<close> on the trap frame and the
  kernel's state: it returns, with the stack pointer and the callee-saved registers as they were.\<close>

locale c_function =
  fixes F :: "'st code" and f :: "ulong list \<Rightarrow> 'st \<Rightarrow> (ulong list \<times> 'st) option"
  assumes returns: "length (x_regs c) = 31 \<Longrightarrow> f (frame_words c) st = Some (ws, st') \<Longrightarrow> length ws = 34 \<Longrightarrow>
    \<exists>c'. F (c, st) = Some (c', st') \<and> length (x_regs c') = 31 \<and> sp_el1 c' = sp_el1 c \<and> frame_words c' = ws \<and>
      (\<forall>i. 19 \<le> i \<and> i \<le> 29 \<longrightarrow> x_regs c' ! i = x_regs c ! i)"
begin

text \<open>A handler between entry and exit: what is in the frame when it returns is what the processor goes on with.\<close>

lemma around:
  assumes "length (x_regs c) = 31" "f (saved el c) st = Some (ws, st')" "length ws = 34"
    and "\<And>d. x_regs d \<noteq> [] \<Longrightarrow> frame_words (g d) = frame_words d \<and> sp_el1 (g d) = sp_el1 d \<and> length (x_regs (g d)) = length (x_regs d)"
    and "\<And>d. frame_words (h d) = frame_words d \<and> sp_el1 (h d) = sp_el1 d \<and> length (x_regs (h d)) = length (x_regs d)"
  shows "\<exists>c'. F (g (kernel_entry el c), st) = Some (c', st') \<and> x_regs (kernel_exit el (h c')) = take 31 ws \<and>
    cpu_pc (kernel_exit el (h c')) = ws ! 32 \<and> pstate (kernel_exit el (h c')) = ws ! 33 \<and> sp_el1 (kernel_exit el (h c')) = sp_el1 c \<and>
    (el = 0 \<longrightarrow> sp_el0 (kernel_exit el (h c')) = ws ! 31)"
proof -
  let ?e = "g (kernel_entry el c)"
  have ne: "x_regs (kernel_entry el c) \<noteq> []" using assms(1) entry_fields(2) [of el c] by (metis length_0_conv zero_neq_numeral)
  have e: "frame_words ?e = saved el c" "sp_el1 ?e = sp_el1 c - S_FRAME_SIZE" "length (x_regs ?e) = 31"
    using assms(4) [OF ne] entry_stack [OF assms(1)] assms(1) by (simp_all add: entry_fields)
  have r: "f (frame_words ?e) st = Some (ws, st')" unfolding e(1) by (rule assms(2))
  from returns [OF e(3) r assms(3)] obtain c' where
    c': "F (?e, st) = Some (c', st')" "length (x_regs c') = 31" "sp_el1 c' = sp_el1 c - S_FRAME_SIZE" "frame_words c' = ws"
    unfolding e(2) by blast
  have h: "length (x_regs (h c')) = 31" "frame_words (h c') = ws" "sp_el1 (h c') = sp_el1 c - S_FRAME_SIZE"
    using assms(5) [of c'] c'(2-4) by simp_all
  show ?thesis using c'(1) exit_cpu [OF h(1)] h(2,3) by auto
qed

end

text \<open>A C function that is compiled to the conventions and does \<open>f\<close>; what else it leaves in the registers and on
  the stack is \<open>junk\<close>.\<close>

definition put_frame :: "ulong \<Rightarrow> ulong list \<Rightarrow> (ulong \<Rightarrow> ulong) \<Rightarrow> ulong \<Rightarrow> ulong" where
  "put_frame a ws m = fold (\<lambda>i m. m(a + 8 * of_nat i := ws ! i)) [0..<34] m"

definition compiled :: "(cpu \<Rightarrow> 'st \<Rightarrow> cpu) \<Rightarrow> (ulong list \<Rightarrow> 'st \<Rightarrow> (ulong list \<times> 'st) option) \<Rightarrow> 'st code" where
  "compiled junk f s = do {
     let c = fst s;
     let j = junk c (snd s);
     (ws, st') \<leftarrow> f (frame_words c) (snd s);
     Some (j\<lparr>x_regs := map (\<lambda>i. if 19 \<le> i \<and> i \<le> 29 then x_regs c ! i else x_regs j ! i) [0..<31],
            sp_el1 := sp_el1 c, stack_words := put_frame (sp_el1 c) ws (stack_words j)\<rparr>, st')
   }"

lemma frame_put:
  assumes "length ws = 34"
  shows "map (\<lambda>i. put_frame a ws m (a + 8 * of_nat i)) [0..<34] = ws"
proof -
  have "map (\<lambda>i. put_frame a ws m (a + 8 * of_nat i)) [0..<34] = map (\<lambda>i. ws ! i) [0..<34]"
    by (simp add: put_frame_def upt_34)
  also have "\<dots> = ws" using assms by (metis map_nth)
  finally show ?thesis .
qed

interpretation compiled: c_function "compiled junk f" f for junk f
proof
  fix c :: cpu and st st' ws
  assume "length (x_regs c) = 31" "f (frame_words c) st = Some (ws, st')" "length ws = 34"
  then show "\<exists>c'. compiled junk f (c, st) = Some (c', st') \<and> length (x_regs c') = 31 \<and> sp_el1 c' = sp_el1 c \<and> frame_words c' = ws \<and>
      (\<forall>i. 19 \<le> i \<and> i \<le> 29 \<longrightarrow> x_regs c' ! i = x_regs c ! i)"
    using frame_put by (auto simp: compiled_def frame_words_def Let_def)
qed

text \<open>One that takes its arguments in registers and returns a value in \<^verbatim>\<open>x0\<close>.\<close>

definition returning :: "(cpu \<Rightarrow> 'st \<Rightarrow> cpu) \<Rightarrow> (ulong list \<Rightarrow> 'st \<Rightarrow> (ulong \<times> 'st) option) \<Rightarrow> 'st code" where
  "returning junk f s = do {
     (v, st') \<leftarrow> f (x_regs (fst s)) (snd s);
     s1 \<leftarrow> compiled junk (\<lambda>ws _. Some (ws, st')) s;
     Some (on_cpu (mov 0 v) s1)
   }"

text \<open>A load or store of a user program that the MMU refuses.\<close>

definition data_abort :: "ulong \<Rightarrow> ulong \<Rightarrow> cpu \<Rightarrow> cpu" where
  "data_abort esr far c = take_exception (cpu_pc c) (c\<lparr>esr_el1 := esr, far_el1 := far\<rparr>)"

subsection \<open>System calls from user mode\<close>

text \<open>\<^verbatim>\<open>svc #0\<close> at \<open>cpu_pc\<close>: the syndrome has the class of a system call and the bit for a 32-bit instruction.\<close>

definition svc :: "cpu \<Rightarrow> cpu" where
  "svc c = take_exception (cpu_pc c + 4) (c\<lparr>esr_el1 := 0x56000000\<rparr>)"

definition ret_x30 :: "cpu \<Rightarrow> cpu" where
  "ret_x30 c = c\<lparr>cpu_pc := x_regs c ! 30\<rparr>"

text \<open>A stub, from its first instruction (at \<open>cpu_pc\<close>) to its return: the number, \<^verbatim>\<open>svc\<close>, \<^verbatim>\<open>ret\<close>. After
  \<^verbatim>\<open>exec\<close> the kernel goes on elsewhere and the \<^verbatim>\<open>ret\<close> is not reached.\<close>

definition user_stub :: "ulong \<Rightarrow> 'st code \<Rightarrow> 'st code" where
  "user_stub number sync s = do {
     let s1 = on_cpu (\<lambda>c. (mov 8 number c)\<lparr>cpu_pc := cpu_pc c + 4\<rparr>) s;
     s2 \<leftarrow> sync (on_cpu svc s1);
     Some (if cpu_pc (fst s2) = cpu_pc (fst s1) + 4 then on_cpu ret_x30 s2 else s2)
   }"

definition user_stubs :: "(string \<times> ulong) list" where
  "user_stubs =
     [(''call_syscall_write'', 0), (''call_syscall_write_hex'', 18), (''call_syscall_malloc'', 1), (''call_syscall_exit'', 2),
      (''call_syscall_create_dir'', 3), (''call_syscall_open_dir'', 4), (''call_syscall_open_file'', 5),
      (''call_syscall_close_file'', 6), (''call_syscall_write_file'', 7), (''call_syscall_read_file'', 8),
      (''call_syscall_yield'', 9), (''call_syscall_input'', 10), (''call_syscall_get_next_entry'', 11),
      (''call_syscall_fork'', 12), (''call_syscall_send_message'', 13), (''call_syscall_receive_message'', 14),
      (''call_syscall_send_signal'', 15), (''call_syscall_exec'', 16), (''call_syscall_wait'', 17),
      (''call_syscall_get_time'', 19), (''call_syscall_set_sched_param'', 20)]"

text \<open>What user mode sees of the processor.\<close>

definition same_user :: "cpu \<Rightarrow> cpu \<Rightarrow> bool" where
  "same_user u c \<longleftrightarrow> x_regs c = x_regs u \<and> sp_el0 c = sp_el0 u \<and> sp_el1 c = sp_el1 u \<and> cpu_pc c = cpu_pc u \<and> pstate c = pstate u"

lemma append_nths:
  "length xs = 31 \<Longrightarrow> (xs @ [a, b, c]) ! 31 = a" "length xs = 31 \<Longrightarrow> (xs @ [a, b, c]) ! 32 = b"
  "length xs = 31 \<Longrightarrow> (xs @ [a, b, c]) ! 33 = c"
  by (simp_all add: nth_append)

text \<open>An interrupt handler leaves the frame alone.\<close>

definition handler :: "('st \<Rightarrow> 'st option) \<Rightarrow> ulong list \<Rightarrow> 'st \<Rightarrow> (ulong list \<times> 'st) option" where
  "handler g ws st = do { st' \<leftarrow> g st; Some (ws, st') }"

lemma el0_irq_transparent:
  assumes "length (x_regs u) = 31" "g st = Some st'"
  shows "\<exists>c. el0_irq (compiled junk (handler g)) (take_exception (cpu_pc u) u, st) = Some (c, st') \<and> same_user u c"
proof -
  let ?c = "take_exception (cpu_pc u) u"
  have c: "x_regs ?c = x_regs u" "saved 0 ?c = x_regs u @ [sp_el0 u, cpu_pc u, pstate u]" "sp_el1 ?c = sp_el1 u"
    by (simp_all add: take_exception_def saved_def)
  have "\<exists>c'. compiled junk (handler g) (id (kernel_entry 0 ?c), st) = Some (c', st') \<and> x_regs (kernel_exit 0 (id c')) = take 31 (saved 0 ?c) \<and>
    cpu_pc (kernel_exit 0 (id c')) = saved 0 ?c ! 32 \<and> pstate (kernel_exit 0 (id c')) = saved 0 ?c ! 33 \<and>
    sp_el1 (kernel_exit 0 (id c')) = sp_el1 ?c \<and> (0 = (0 :: nat) \<longrightarrow> sp_el0 (kernel_exit 0 (id c')) = saved 0 ?c ! 31)"
    by (rule compiled.around) (use assms c in \<open>simp_all add: handler_def\<close>)
  then show ?thesis using assms(1) by (auto simp: el0_irq_def on_cpu_def same_user_def c append_nths)
qed

lemma el1_irq_transparent:
  assumes "length (x_regs u) = 31" "g st = Some st'"
  shows "\<exists>c. el1_irq (compiled junk (handler g)) (take_exception (cpu_pc u) u, st) = Some (c, st') \<and>
    x_regs c = x_regs u \<and> sp_el1 c = sp_el1 u \<and> cpu_pc c = cpu_pc u \<and> pstate c = pstate u"
proof -
  let ?c = "take_exception (cpu_pc u) u"
  have c: "x_regs ?c = x_regs u" "saved 1 ?c = x_regs u @ [sp_el1 u, cpu_pc u, pstate u]" "sp_el1 ?c = sp_el1 u"
    by (simp_all add: take_exception_def saved_def)
  have "\<exists>c'. compiled junk (handler g) (id (kernel_entry 1 ?c), st) = Some (c', st') \<and> x_regs (kernel_exit 1 (id c')) = take 31 (saved 1 ?c) \<and>
    cpu_pc (kernel_exit 1 (id c')) = saved 1 ?c ! 32 \<and> pstate (kernel_exit 1 (id c')) = saved 1 ?c ! 33 \<and>
    sp_el1 (kernel_exit 1 (id c')) = sp_el1 ?c \<and> (1 = (0 :: nat) \<longrightarrow> sp_el0 (kernel_exit 1 (id c')) = saved 1 ?c ! 31)"
    by (rule compiled.around) (use assms c in \<open>simp_all add: handler_def\<close>)
  then show ?thesis using assms(1) by (auto simp: el1_irq_def on_cpu_def c [unfolded One_nat_def] append_nths)
qed

text \<open>A system call: the frame the dispatcher leaves is what user mode goes on with.\<close>

lemma el0_sync_svc:
  assumes len: "length (x_regs u) = 31" and d: "d (x_regs u @ [sp_el0 u, cpu_pc u + 4, pstate u]) st = Some (ws, st')" "length ws = 34"
  shows "\<exists>c. el0_sync (compiled junk d) abort show_message (svc u, st) = Some (c, st') \<and> x_regs c = take 31 ws \<and>
    sp_el0 c = ws ! 31 \<and> cpu_pc c = ws ! 32 \<and> pstate c = ws ! 33 \<and> sp_el1 c = sp_el1 u"
proof -
  let ?c = "svc u" and ?g = "\<lambda>c. mov 0 (sp_el1 c) (enable_irq (mov 24 (drop_bit ESR_ELx_EC_SHIFT (esr_el1 c)) (mov 25 (esr_el1 c) c)))"
  have c: "x_regs ?c = x_regs u" "saved 0 ?c = x_regs u @ [sp_el0 u, cpu_pc u + 4, pstate u]" "sp_el1 ?c = sp_el1 u" "esr_el1 ?c = 0x56000000"
    by (simp_all add: svc_def take_exception_def saved_def)
  have fr: "frame_words (?g c) = frame_words c" "sp_el1 (?g c) = sp_el1 c" "length (x_regs (?g c)) = length (x_regs c)" for c
    by (simp_all add: frame_words_def)
  have "\<exists>c'. compiled junk d (?g (kernel_entry 0 ?c), st) = Some (c', st') \<and> x_regs (kernel_exit 0 (disable_irq c')) = take 31 ws \<and>
    cpu_pc (kernel_exit 0 (disable_irq c')) = ws ! 32 \<and> pstate (kernel_exit 0 (disable_irq c')) = ws ! 33 \<and>
    sp_el1 (kernel_exit 0 (disable_irq c')) = sp_el1 ?c \<and> (0 = (0 :: nat) \<longrightarrow> sp_el0 (kernel_exit 0 (disable_irq c')) = ws ! 31)"
    by (rule compiled.around) (use len d c fr in \<open>simp_all add: frame_words_def\<close>)
  then obtain c' where c': "compiled junk d (?g (kernel_entry 0 ?c), st) = Some (c', st')" "x_regs (kernel_exit 0 (disable_irq c')) = take 31 ws"
    "cpu_pc (kernel_exit 0 (disable_irq c')) = ws ! 32" "pstate (kernel_exit 0 (disable_irq c')) = ws ! 33"
    "sp_el1 (kernel_exit 0 (disable_irq c')) = sp_el1 u" "sp_el0 (kernel_exit 0 (disable_irq c')) = ws ! 31" by (auto simp: c(3))
  have l: "length (x_regs (kernel_entry 0 ?c)) = 31" using len c(1) by (simp add: entry_fields)
  have "drop_bit 26 (0x56000000 :: ulong) = 0x15" by code_simp
  then have "el0_sync (compiled junk d) abort show_message (?c, st) = Some (kernel_exit 0 (disable_irq c'), st')"
    using c'(1) l c(4) by (simp add: el0_sync_def el0_svc_def on_cpu_def Let_def entry_fields ESR_ELx_EC_SHIFT_def ESR_ELx_EC_SVC64_def)
  then show ?thesis using c'(2-6) by blast
qed

text \<open>A stub whose call comes back with frame \<open>ws\<close> to the instruction behind the \<^verbatim>\<open>svc\<close>.\<close>

lemma stub_returns:
  assumes len: "length (x_regs u) = 31" and d: "d ((x_regs u)[8 := n] @ [sp_el0 u, cpu_pc u + 8, pstate u]) st = Some (ws, st')"
    and ws: "length ws = 34" "ws ! 32 = cpu_pc u + 8"
  shows "\<exists>c. user_stub n (el0_sync (compiled junk d) abort show_message) (u, st) = Some (c, st') \<and> x_regs c = take 31 ws \<and>
    sp_el0 c = ws ! 31 \<and> cpu_pc c = ws ! 30 \<and> pstate c = ws ! 33 \<and> sp_el1 c = sp_el1 u"
proof -
  let ?u = "(mov 8 n u)\<lparr>cpu_pc := cpu_pc u + 4\<rparr>"
  have f: "x_regs ?u = (x_regs u)[8 := n]" "sp_el0 ?u = sp_el0 u" "cpu_pc ?u + 4 = cpu_pc u + 8" "pstate ?u = pstate u" "sp_el1 ?u = sp_el1 u"
    by simp_all
  have l: "length (x_regs ?u) = 31" using len by simp
  from el0_sync_svc [where u = ?u and d = d and junk = junk and abort = abort and show_message = show_message, OF l _ ws(1), unfolded f, OF d]
  obtain c where c: "el0_sync (compiled junk d) abort show_message (svc ?u, st) = Some (c, st')" "x_regs c = take 31 ws"
    "sp_el0 c = ws ! 31" "cpu_pc c = ws ! 32" "pstate c = ws ! 33" "sp_el1 c = sp_el1 u" by blast
  have "user_stub n (el0_sync (compiled junk d) abort show_message) (u, st) = Some (ret_x30 c, st')"
    using c(1,4) ws(2) by (simp add: user_stub_def on_cpu_def Let_def)
  then show ?thesis using c ws(1) by (simp add: ret_x30_def)
qed

text \<open>A data abort: the handler gets the address and the syndrome, and its result decides.\<close>

lemma el0_sync_abort:
  assumes len: "length (x_regs u) = 31" and esr: "drop_bit ESR_ELx_EC_SHIFT esr = ESR_ELx_EC_DABT_LOW"
    and f: "\<And>xs. xs ! 0 = far \<Longrightarrow> xs ! 1 = esr \<Longrightarrow> f xs st = Some (v, st')"
  shows "if v = 0 then \<exists>c. el0_sync dispatch (returning junk f) show_message (data_abort esr far u, st) = Some (c, st') \<and> same_user u c
    else el0_sync dispatch (returning junk f) show_message (data_abort esr far u, st) = None"
proof -
  let ?c = "data_abort esr far u" and ?F = "compiled junk (\<lambda>ws _. Some (ws, st'))"
    and ?g = "\<lambda>c. mov 1 (esr_el1 c) (mov 0 (far_el1 c) (enable_irq (mov 24 (drop_bit ESR_ELx_EC_SHIFT (esr_el1 c)) (mov 25 (esr_el1 c) c))))"
  have c: "x_regs ?c = x_regs u" "saved 0 ?c = x_regs u @ [sp_el0 u, cpu_pc u, pstate u]" "sp_el1 ?c = sp_el1 u"
    "esr_el1 ?c = esr" "far_el1 ?c = far"
    by (simp_all add: data_abort_def take_exception_def saved_def)
  have "\<exists>c'. ?F (?g (kernel_entry 0 ?c), st) = Some (c', st') \<and> x_regs (kernel_exit 0 (disable_irq (mov 0 v c'))) = take 31 (saved 0 ?c) \<and>
    cpu_pc (kernel_exit 0 (disable_irq (mov 0 v c'))) = saved 0 ?c ! 32 \<and> pstate (kernel_exit 0 (disable_irq (mov 0 v c'))) = saved 0 ?c ! 33 \<and>
    sp_el1 (kernel_exit 0 (disable_irq (mov 0 v c'))) = sp_el1 ?c \<and>
    (0 = (0 :: nat) \<longrightarrow> sp_el0 (kernel_exit 0 (disable_irq (mov 0 v c'))) = saved 0 ?c ! 31)"
    by (rule compiled.around) (use len c in \<open>simp_all add: frame_words_def\<close>)
  then obtain c' where c': "?F (?g (kernel_entry 0 ?c), st) = Some (c', st')" "same_user u (kernel_exit 0 (disable_irq (mov 0 v c')))"
    using len by (auto simp: same_user_def c append_nths)
  have l: "length (x_regs (kernel_entry 0 ?c)) = 31" using len c(1) by (simp add: entry_fields)
  have "f (x_regs (?g (kernel_entry 0 ?c))) st = Some (v, st')" using l by (intro f) (simp_all add: entry_fields c)
  then have a: "returning junk f (?g (kernel_entry 0 ?c), st) = Some (mov 0 v c', st')"
    using c'(1) by (simp add: returning_def on_cpu_def)
  have l': "length (x_regs c') = 31" using c'(1) by (auto simp: compiled_def Let_def)
  have "el0_sync dispatch (returning junk f) show_message (?c, st) =
      (if v = 0 then Some (kernel_exit 0 (disable_irq (mov 0 v c')), st') else handle_invalid_entry show_message 0 DATA_ABORT_ERROR (mov 0 v c', st'))"
    using a l l' esr by (simp add: el0_sync_def el0_da_def on_cpu_def Let_def entry_fields c ESR_ELx_EC_SVC64_def ESR_ELx_EC_DABT_LOW_def)
  then show ?thesis using c'(2) by (auto simp: handle_invalid_entry_def bind_eq_None_conv)
qed

subsection \<open>A process runs for the first time\<close>

text \<open>The processor after \<^verbatim>\<open>cpu_switch_to_process\<close> to a process with context \<open>ctx\<close>, as its loads from the
  context leave it (the routine itself is modelled on the PCBs in \<open>Scheduler\<close>): its callee-saved registers,
  stack pointer and link register; the frame at the top of its page holds its user registers.\<close>

definition regs_frame :: "pt_regs \<Rightarrow> ulong list" where
  "regs_frame r = registers r @ [regs_sp r, regs_pc r, regs_pstate r]"

definition switched_to :: "cpu_context \<Rightarrow> pt_regs \<Rightarrow> cpu \<Rightarrow> bool" where
  "switched_to ctx r c \<longleftrightarrow> length (x_regs c) = 31 \<and> x_regs c ! 19 = x19 ctx \<and> x_regs c ! 20 = x20 ctx \<and>
     sp_el1 c = cpu_context.sp ctx \<and> x_regs c ! 30 = cpu_context.pc ctx \<and> frame_words c = regs_frame r"

lemma first_run_user:
  assumes c: "switched_to ctx r c" "x19 ctx = 0" and r: "length (registers r) = 31"
    and t: "g st = Some st'"
  shows "\<exists>c'. ret_from_fork_entry (compiled junk (handler g)) function_at (c, st) = Some (c', st') \<and>
    x_regs c' = registers r \<and> sp_el0 c' = regs_sp r \<and> cpu_pc c' = regs_pc r \<and> pstate c' = regs_pstate r \<and>
    sp_el1 c' = cpu_context.sp ctx + S_FRAME_SIZE"
proof -
  have c': "length (x_regs c) = 31" "x_regs c ! 19 = 0" "sp_el1 c = cpu_context.sp ctx" "frame_words c = regs_frame r"
    using c by (simp_all add: switched_to_def)
  have f: "handler g (frame_words c) st = Some (regs_frame r, st')" "length (regs_frame r) = 34"
    using t r by (simp_all add: handler_def c'(4) regs_frame_def)
  from compiled.returns [where f = "handler g" and junk = junk, OF c'(1) f] obtain d where
    d: "compiled junk (handler g) (c, st) = Some (d, st')" "length (x_regs d) = 31" "sp_el1 d = cpu_context.sp ctx"
      "frame_words d = regs_frame r" "x_regs d ! 19 = 0" using c'(2,3) by auto
  let ?d = "disable_irq d"
  have x: "length (x_regs ?d) = 31" "frame_words ?d = regs_frame r" using d by (simp_all add: frame_words_def)
  have "ret_from_fork_entry (compiled junk (handler g)) function_at (c, st) = Some (kernel_exit 0 ?d, st')"
    using d(1,5) by (simp add: ret_from_fork_entry_def ret_to_user_def on_cpu_def)
  then show ?thesis
    using exit_cpu [OF x(1), of 0] x(2) d(3) r by (simp add: regs_frame_def append_nths)
qed

end
