(* ===== verification/Kernel_Calls.thy ===== *)
theory Kernel_Calls
  imports Exceptions Kernel_Run
begin

text \<open>
  The dispatcher on the kernel's own state: the system calls on processes and memory with their handlers of
  \<^verbatim>\<open>libs/syscalls.c\<close>. The trap frame on the kernel stack of the caller is its \<^verbatim>\<open>struct pt_regs\<close>, so the registers
  that \<^verbatim>\<open>fork\<close> copies are those the entry stored. The calls on files, texts and messages, whose arguments are
  addresses in user memory, stay an argument. The state after \<^verbatim>\<open>syscall_exit\<close> is the one in which the next process
  runs: the call does not return to the process that made it, which is a ZOMBIE and never gets the CPU again.
\<close>

definition regs_of :: "ulong list \<Rightarrow> pt_regs" where
  "regs_of ws = \<lparr>registers = take 31 ws, regs_sp = ws ! 31, regs_pc = ws ! 32, regs_pstate = ws ! 33\<rparr>"

definition on_sched :: "(sched_state \<Rightarrow> ('a \<times> sched_state) option) \<Rightarrow> kernel_state \<Rightarrow> ('a \<times> kernel_state) option" where
  "on_sched f k = do { (r, s) \<leftarrow> f (sched k); Some (r, k\<lparr>sched := s\<rparr>) }"

definition process_handlers :: "ulong \<Rightarrow> kernel_state handlers \<Rightarrow> kernel_state handlers" where
  "process_handlers rff H = H\<lparr>
     h_malloc := (\<lambda>k. Some (syscall_malloc k)),
     h_exit := (\<lambda>k. do { s \<leftarrow> syscall_exit (sched k); Some (k\<lparr>sched := s\<rparr>) }),
     h_yield := (\<lambda>k. do { s \<leftarrow> syscall_yield (sched k); Some (k\<lparr>sched := s\<rparr>) }),
     h_fork := syscall_fork rff,
     h_send_signal := (\<lambda>p sig. on_sched (syscall_send_signal p sig)),
     h_wait := (\<lambda>p. on_sched (syscall_wait p)),
     h_get_time := on_sched (Some \<circ> syscall_get_time),
     h_set_sched_param := (\<lambda>p param v. on_sched (syscall_set_sched_param p param v))\<rparr>"

definition with_frame :: "ulong list \<Rightarrow> kernel_state \<Rightarrow> kernel_state" where
  "with_frame ws k = k\<lparr>user_regs := (user_regs k)(current_process (sched k) := regs_of ws)\<rparr>"

definition kernel_dispatch ::
  "ulong \<Rightarrow> kernel_state handlers \<Rightarrow> ulong list \<Rightarrow> kernel_state \<Rightarrow> (ulong list \<times> kernel_state) option" where
  "kernel_dispatch rff H ws k = syscall_dispatcher (process_handlers rff H) ws (with_frame ws k)"

lemma with_frame_simps [simp]:
  "sched (with_frame ws k) = sched k" "mem (with_frame ws k) = mem k"
  "user_regs (with_frame ws k) (current_process (sched k)) = regs_of ws" "kernel_ok (with_frame ws k) = kernel_ok k"
  by (simp_all add: with_frame_def kernel_ok_def pcb_pages_ok_def)

lemma kernel_dispatch_fork:
  assumes "ws ! 8 = 12" "syscall_fork rff (with_frame ws k) = Some (r, k')"
  shows "kernel_dispatch rff H ws k = Some (ws[0 := from_int r], k')"
  using assms by (simp add: kernel_dispatch_def syscall_dispatcher_def SYSCALLS_NUMBER_def process_handlers_def returns_int_def)

lemma c_int_bounds: "- (2 ^ 31) \<le> c_int r" "c_int r \<le> 2 ^ 31 - 1"
  using sint_range_size [of "ucast r :: uint32"] by (simp_all add: c_int_def word_size)

lemma read_timer_frame: "read_timer s = (v, t) \<Longrightarrow> \<exists>clo. t = s\<lparr>timer_clo := clo\<rparr>"
  by (auto simp: read_timer_def Let_def)

lemma well_formed_timer: "well_formed (s\<lparr>timer_clo := clo\<rparr>) = well_formed s"
  by (simp add: well_formed_def sched_inv_def table_ok_def registered_def states_ok_def)

text \<open>The calls on processes and memory.\<close>

definition process_calls :: "ulong set" where
  "process_calls = {1, 2, 9, 12, 15, 17, 19, 20}"

lemma process_call_cases:
  assumes "n \<in> process_calls"
  obtains "n = 1" | "n = 2" | "n = 9" | "n = 12" | "n = 15" | "n = 17" | "n = 19" | "n = 20"
  using assms by (auto simp: process_calls_def)

text \<open>A running user process may make any of them with any arguments: the kernel stays in order.\<close>

lemma kernel_dispatch_ok:
  assumes n: "ws ! 8 \<in> process_calls" and r: "kernel_dispatch rff H ws k = Some (ws', k')"
    and ok: "kernel_ok k" and run: "is_running (sched k)" "current_process (sched k) \<noteq> init_process"
  shows "kernel_ok k'"
proof -
  let ?k = "with_frame ws k"
  note D = kernel_dispatch_def syscall_dispatcher_def SYSCALLS_NUMBER_def process_handlers_def Let_def on_sched_def
    returns_int_def returns_ulong_def returns_nothing_def
  have step: "kernel_ok k'" if "kernel_step ?k k'" using kernel_step_ok [OF that] ok by simp
  have sched: "kernel_ok k'" if "sched_step (sched ?k) t" "k' = ?k\<lparr>sched := t\<rparr>" for t
    using step kernel_step.schedule_event [OF that(1)] that(2) by simp
  from n show ?thesis
  proof (cases rule: process_call_cases)
    case 1
    then have "syscall_malloc ?k = (fst (syscall_malloc ?k), k')" using r by (auto simp: D split: prod.splits)
    then show ?thesis by (rule step [OF kernel_step.allocate])
  next
    case 2
    then obtain s where s: "syscall_exit (sched ?k) = Some s" "k' = ?k\<lparr>sched := s\<rparr>" using r by (auto simp: D bind_eq_Some_conv)
    show ?thesis by (rule sched [OF sched_step.exit [OF _ _ s(1)] s(2)]) (use run in simp_all)
  next
    case 3
    then obtain s where s: "syscall_yield (sched ?k) = Some s" "k' = ?k\<lparr>sched := s\<rparr>" using r by (auto simp: D bind_eq_Some_conv)
    show ?thesis by (rule sched [OF sched_step.yield [OF s(1)] s(2)])
  next
    case 4
    then obtain v where "copy_process rff 0 0 0 ?k = Some (v, k')" using r by (auto simp: D bind_eq_Some_conv syscall_fork_def)
    then show ?thesis by (rule step [OF kernel_step.create])
  next
    case 5
    then obtain v s where s: "syscall_send_signal (c_int (ws ! 0)) (c_int (ws ! 1)) (sched ?k) = Some (v, s)" "k' = ?k\<lparr>sched := s\<rparr>"
      using r by (auto simp: D bind_eq_Some_conv)
    show ?thesis by (rule sched [OF sched_step.signal [OF s(1)] s(2)])
  next
    case 6
    then obtain v s where s: "syscall_wait (c_int (ws ! 0)) (sched ?k) = Some (v, s)" "k' = ?k\<lparr>sched := s\<rparr>"
      using r by (auto simp: D bind_eq_Some_conv)
    show ?thesis by (rule sched [OF sched_step.wait [OF _ s(1)] s(2)]) (use run in simp)
  next
    case 7
    then obtain v s where s: "syscall_get_time (sched ?k) = (v, s)" "k' = ?k\<lparr>sched := s\<rparr>"
      using r by (cases "syscall_get_time (sched ?k)") (auto simp: D bind_eq_Some_conv)
    then obtain clo where "k' = ?k\<lparr>sched := (sched ?k)\<lparr>timer_clo := clo\<rparr>\<rparr>"
      using read_timer_frame by (auto simp: syscall_get_time_def split: prod.splits)
    then show ?thesis using ok by (simp add: kernel_ok_def well_formed_timer pcb_pages_ok_def registered_def)
  next
    case 8
    then obtain v s where
      s: "syscall_set_sched_param (c_int (ws ! 0)) (c_int (ws ! 1)) (c_int (ws ! 2)) (sched ?k) = Some (v, s)" "k' = ?k\<lparr>sched := s\<rparr>"
      using r by (auto simp: D bind_eq_Some_conv)
    show ?thesis by (rule sched [OF sched_step.param [OF c_int_bounds(2) s(1)] s(2)])
  qed
qed

end
