(* ===== verification/Start.thy ===== *)
theory Start
  imports Page_Translation
begin

unbundle bit_operations_syntax

text \<open>
  \<^verbatim>\<open>boot/start.S\<close>: from the first instruction to the jump to \<^verbatim>\<open>kernel_main\<close>. The MMU is off, so addresses are
  physical: they index \<open>phys\<close>. The addresses the linker decides are arguments. \<open>translate\<close> is what the MMU
  makes of the tables once it is on: three levels down to blocks of 2 MB.
\<close>

definition DEVICE_BASE :: ulong where "DEVICE_BASE = 0x3f000000"
definition PHYS_MEMORY_SIZE :: ulong where "PHYS_MEMORY_SIZE = 0x40000000"
definition PGD_SIZE :: ulong where "PGD_SIZE = 3 * PAGE_SIZE"
definition MMU_FLAGS :: ulong where "MMU_FLAGS = 0x405"
definition MMU_DEVICE_FLAGS :: ulong where "MMU_DEVICE_FLAGS = 0x401"

definition str :: "ulong \<Rightarrow> ulong \<Rightarrow> mm_state \<Rightarrow> mm_state" where
  "str a v m = m\<lparr>phys := (phys m)(a := v)\<rparr>"

subsection \<open>The page tables of the kernel\<close>

text \<open>The macros return the address of the next table.\<close>

definition create_table_entry :: "ulong \<Rightarrow> ulong \<Rightarrow> nat \<Rightarrow> mm_state \<Rightarrow> ulong \<times> mm_state" where
  "create_table_entry tbl virt shift m =
     (let tmp1 = drop_bit shift virt AND (PTRS_PER_TABLE - 1);
          tmp2 = (tbl + PAGE_SIZE) OR MM_TYPE_PAGE_TABLE
      in (tbl + PAGE_SIZE, str (tbl + 8 * tmp1) tmp2 m))"

definition create_pgd_entry :: "ulong \<Rightarrow> ulong \<Rightarrow> mm_state \<Rightarrow> ulong \<times> mm_state" where
  "create_pgd_entry tbl virt m =
     (let (tbl1, m1) = create_table_entry tbl virt PGD_SHIFT m in create_table_entry tbl1 virt PUD_SHIFT m1)"

partial_function (option) block_loop :: "ulong \<Rightarrow> ulong \<Rightarrow> ulong \<Rightarrow> ulong \<Rightarrow> mm_state \<Rightarrow> mm_state option" where
  "block_loop tbl start stop phys_desc m =
     (let m1 = str (tbl + 8 * start) phys_desc m; start1 = start + 1; desc1 = phys_desc + SECTION_SIZE
      in if start1 \<le> stop then block_loop tbl start1 stop desc1 m1 else Some m1)"

definition create_block_map :: "ulong \<Rightarrow> ulong \<Rightarrow> ulong \<Rightarrow> ulong \<Rightarrow> ulong \<Rightarrow> mm_state \<Rightarrow> mm_state option" where
  "create_block_map tbl pa start stop fl m =
     block_loop tbl (drop_bit SECTION_SHIFT start AND (PTRS_PER_TABLE - 1)) (drop_bit SECTION_SHIFT stop AND (PTRS_PER_TABLE - 1))
       (fl OR push_bit SECTION_SHIFT (drop_bit SECTION_SHIFT pa)) m"

definition create_page_tables :: "ulong \<Rightarrow> mm_state \<Rightarrow> mm_state option" where
  "create_page_tables pgd_address m = do {
     let m1 = memzero (pgd_address + VA_START) PGD_SIZE m;
     let (tbl, m2) = create_pgd_entry pgd_address VA_START m1;
     m3 \<leftarrow> create_block_map tbl 0 VA_START (VA_START + DEVICE_BASE - SECTION_SIZE) MMU_FLAGS m2;
     create_block_map tbl DEVICE_BASE (VA_START + DEVICE_BASE) (VA_START + PHYS_MEMORY_SIZE - SECTION_SIZE)
       MMU_DEVICE_FLAGS m3
   }"

subsection \<open>The start\<close>

record boot_regs =
  current_el :: ulong
  mpidr :: ulong
  hcr_el2 :: ulong
  spsr_el2 :: ulong
  sctlr_el1 :: ulong
  ttbr0 :: ulong
  ttbr1 :: ulong
  tcr_el1 :: ulong
  mair_el1 :: ulong
  boot_sp :: ulong
  boot_pc :: ulong

definition HCR_VALUE :: ulong where "HCR_VALUE = 0x80000000"
definition SPSR_VALUE :: ulong where "SPSR_VALUE = 0x1c5"
definition SCTLR_VALUE_MMU_DISABLED :: ulong where "SCTLR_VALUE_MMU_DISABLED = 0x30d00800"
definition SCTLR_MMU_ENABLED :: ulong where "SCTLR_MMU_ENABLED = 1"
definition TCR_VALUE :: ulong where "TCR_VALUE = 0x80100010"
definition MAIR_VALUE :: ulong where "MAIR_VALUE = 0x4400"

text \<open>From EL2 the processor goes on in EL1.\<close>

definition to_el1 :: "boot_regs \<Rightarrow> boot_regs" where
  "to_el1 r = (if current_el r = 2 then r\<lparr>hcr_el2 := HCR_VALUE, spsr_el2 := SPSR_VALUE, current_el := 1\<rparr> else r)"

text \<open>All cores but the first wait for ever.\<close>

definition start :: "ulong \<Rightarrow> ulong \<Rightarrow> ulong \<Rightarrow> ulong \<Rightarrow> boot_regs \<times> mm_state \<Rightarrow> (boot_regs \<times> mm_state) option" where
  "start bss_start bss_end pgd_address kernel_main s = do {
     let r = (to_el1 (fst s))\<lparr>sctlr_el1 := SCTLR_VALUE_MMU_DISABLED\<rparr>;
     if mpidr r AND 3 \<noteq> 0 then None
     else do {
       let m = memzero (bss_start + VA_START) (bss_end - bss_start) (snd s);
       m1 \<leftarrow> create_page_tables pgd_address m;
       Some (r\<lparr>boot_sp := VA_START + LOW_MEMORY, ttbr1 := pgd_address, ttbr0 := pgd_address, tcr_el1 := TCR_VALUE,
                mair_el1 := MAIR_VALUE, sctlr_el1 := SCTLR_MMU_ENABLED, boot_pc := kernel_main\<rparr>, m1)
     }
   }"

subsection \<open>What the MMU makes of the tables\<close>

text \<open>A block descriptor at the third level: its base and the index of its memory attributes. The addresses are canonical:
  the upper 16 bits, which must be all zeros or all ones and choose \<^verbatim>\<open>ttbr0\<close> or \<^verbatim>\<open>ttbr1\<close>, are not looked at here (the start sets both
  to the same table, and the hardware refuses any other address).\<close>

definition next_table :: "ulong \<Rightarrow> ulong option" where
  "next_table e = (if e AND 3 = MM_TYPE_PAGE_TABLE then Some (e AND 0x0000fffffffff000) else None)"

definition translate :: "mm_state \<Rightarrow> ulong \<Rightarrow> ulong \<Rightarrow> (ulong \<times> ulong) option" where
  "translate m root va = do {
     pud \<leftarrow> next_table (phys m (root + 8 * table_index va PGD_SHIFT));
     pmd \<leftarrow> next_table (phys m (pud + 8 * table_index va PUD_SHIFT));
     let e = phys m (pmd + 8 * table_index va PMD_SHIFT);
     if e AND 3 = 1 then Some ((e AND 0x0000ffffffe00000) OR take_bit 21 va, drop_bit 2 e AND 7) else None
   }"

subsection \<open>The block descriptors\<close>

lemma unat_succ: "i < 512 \<Longrightarrow> unat (i + 1) = unat i + 1" for i :: ulong
  by (simp add: word_less_nat_alt unat_word_ariths)

lemma not_above: "i < 512 \<Longrightarrow> \<not> i + 1 \<le> i" for i :: ulong
  by (simp add: word_le_nat_alt unat_succ)

lemma block_loop_ok:
  assumes "i \<le> stop" "stop < 512" "page_aligned tbl"
  shows "\<exists>m'. block_loop tbl i stop d m = Some m' \<and>
    (\<forall>j < 512. phys m' (tbl + 8 * j) = (if i \<le> j \<and> j \<le> stop then d + (j - i) * SECTION_SIZE else phys m (tbl + 8 * j))) \<and>
    (\<forall>a. (\<forall>j < 512. a \<noteq> tbl + 8 * j) \<longrightarrow> phys m' a = phys m a)"
  using assms(1)
proof (induction "unat (stop - i)" arbitrary: i d m)
  case 0
  then have i: "i = stop" by (simp add: unat_eq_0)
  note not_above [OF assms(2)]
  then have "block_loop tbl i stop d m = Some (str (tbl + 8 * stop) d m)"
    by (subst block_loop.simps) (simp add: i Let_def)
  moreover have "tbl + 8 * j = tbl + 8 * stop \<longleftrightarrow> j = stop" if "j < 512" for j
    using slot_inj [OF assms(3,3) that assms(2)] by auto
  ultimately show ?case using i assms(2) by (auto simp: str_def)
next
  case (Suc n)
  have lt: "i < stop" using Suc.hyps(2) Suc.prems by (metis diff_self less_le unat_0 nat.distinct(1))
  have i512: "i < 512" using lt assms(2) by (rule less_trans)
  then have i1: "i + 1 \<le> stop" "i < 512" using lt by (simp_all add: word_le_nat_alt word_less_nat_alt unat_succ)
  have "unat (stop - (i + 1)) = unat stop - (unat i + 1)" using unat_sub [OF i1(1)] unat_succ [OF i512] by simp
  then have n: "n = unat (stop - (i + 1))" using Suc.hyps(2) unat_sub [OF less_imp_le [OF lt]] by simp
  let ?m = "str (tbl + 8 * i) d m"
  from Suc.hyps(1) [OF n i1(1), of "d + SECTION_SIZE" ?m] obtain m' where
    m': "block_loop tbl (i + 1) stop (d + SECTION_SIZE) ?m = Some m'"
    "\<forall>j < 512. phys m' (tbl + 8 * j) =
       (if i + 1 \<le> j \<and> j \<le> stop then d + SECTION_SIZE + (j - (i + 1)) * SECTION_SIZE else phys ?m (tbl + 8 * j))"
    "\<forall>a. (\<forall>j < 512. a \<noteq> tbl + 8 * j) \<longrightarrow> phys m' a = phys ?m a" by blast
  have step: "block_loop tbl i stop d m = Some m'" using m'(1) i1(1) by (subst block_loop.simps) (simp add: Let_def)
  have eq: "tbl + 8 * j = tbl + 8 * i \<longleftrightarrow> j = i" if "j < 512" for j
    using slot_inj [OF assms(3,3) that i1(2)] by auto
  have "phys m' (tbl + 8 * j) = (if i \<le> j \<and> j \<le> stop then d + (j - i) * SECTION_SIZE else phys m (tbl + 8 * j))"
    if j: "j < 512" for j
  proof (cases "j = i")
    case True
    then show ?thesis using m'(2) j less_imp_le [OF lt] not_above [OF i1(2)] by (simp add: str_def)
  next
    case False
    have "i + 1 \<le> j \<longleftrightarrow> i \<le> j" 
      using False by (auto simp: word_le_nat_alt unat_succ [OF i1(2)] word_unat_eq_iff)
    moreover have "d + SECTION_SIZE + (j - (i + 1)) * SECTION_SIZE = d + (j - i) * SECTION_SIZE" by (simp add: algebra_simps)
    ultimately show ?thesis using m'(2) j False eq [OF j] by (simp add: str_def)
  qed
  moreover have "phys m' a = phys m a" if "\<forall>j < 512. a \<noteq> tbl + 8 * j" for a
    using m'(3) that i1(2) by (simp add: str_def)
  ultimately show ?case using step by blast
qed

subsection \<open>The tables\<close>

text \<open>What is in the three pages afterwards.\<close>

definition block_entry :: "ulong \<Rightarrow> ulong" where
  "block_entry i = (if i < 504 then i * SECTION_SIZE + MMU_FLAGS else i * SECTION_SIZE + MMU_DEVICE_FLAGS)"

lemma create_page_tables_ok:
  assumes "page_aligned g" "g < 0x40000000"
  shows "\<exists>m'. create_page_tables g m = Some m' \<and>
    phys m' g = (g + PAGE_SIZE) OR MM_TYPE_PAGE_TABLE \<and> phys m' (g + PAGE_SIZE) = (g + 2 * PAGE_SIZE) OR MM_TYPE_PAGE_TABLE \<and>
    (\<forall>j < 512. j \<noteq> 0 \<longrightarrow> phys m' (g + 8 * j) = 0 \<and> phys m' (g + PAGE_SIZE + 8 * j) = 0) \<and>
    (\<forall>j < 512. phys m' (g + 2 * PAGE_SIZE + 8 * j) = block_entry j) \<and>
    (\<forall>a. \<not> a - g < PGD_SIZE \<longrightarrow> phys m' a = phys m a)"
proof -
  let ?p1 = "g + PAGE_SIZE" and ?p2 = "g + 2 * PAGE_SIZE"
  have u: "uint g mod 4096 = 0" "0 \<le> uint g" "uint g < 0x40000000"
    using assms by (simp_all add: page_aligned_uint word_less_def)
  have u12: "uint ?p1 = uint g + 4096" "uint ?p2 = uint g + 8192"
    using u by (simp_all add: uint_word_ariths PAGE_SIZE_def)
  then have al: "page_aligned ?p1" "page_aligned ?p2"
    using u(1) by (simp_all add: page_aligned_uint mod_add_eq [symmetric])
  have ne: "?p1 \<noteq> g" "?p2 \<noteq> g" "?p2 \<noteq> ?p1" by (simp_all add: PAGE_SIZE_def)
  have idx0: "drop_bit PGD_SHIFT VA_START AND (PTRS_PER_TABLE - 1) = 0" "drop_bit PUD_SHIFT VA_START AND (PTRS_PER_TABLE - 1) = 0"
    "drop_bit SECTION_SHIFT VA_START AND (PTRS_PER_TABLE - 1) = 0"
    "drop_bit SECTION_SHIFT (VA_START + DEVICE_BASE - SECTION_SIZE) AND (PTRS_PER_TABLE - 1) = 503"
    "drop_bit SECTION_SHIFT (VA_START + DEVICE_BASE) AND (PTRS_PER_TABLE - 1) = 504"
    "drop_bit SECTION_SHIFT (VA_START + PHYS_MEMORY_SIZE - SECTION_SIZE) AND (PTRS_PER_TABLE - 1) = 511"
    "MMU_FLAGS OR push_bit SECTION_SHIFT (drop_bit SECTION_SHIFT 0) = MMU_FLAGS"
    "MMU_DEVICE_FLAGS OR push_bit SECTION_SHIFT (drop_bit SECTION_SHIFT DEVICE_BASE) = 0x3f000401"
    by code_simp+
  define m1 where "m1 = memzero (g + VA_START) PGD_SIZE m"
  have "max PGD_SIZE 8 = PGD_SIZE" by (simp add: max_def PGD_SIZE_def PAGE_SIZE_def)
  then have m1: "phys m1 a = (if a - g < PGD_SIZE then 0 else phys m a)" for a by (simp add: m1_def memzero_def)
  define m2 where "m2 = str ?p1 (?p2 OR MM_TYPE_PAGE_TABLE) (str g (?p1 OR MM_TYPE_PAGE_TABLE) m1)"
  have pgd: "create_pgd_entry g VA_START m1 = (?p2, m2)"
    unfolding create_pgd_entry_def create_table_entry_def Let_def idx0 m2_def by (simp add: add.assoc)
  have m2: "phys m2 a = (if a = ?p1 then ?p2 OR MM_TYPE_PAGE_TABLE else if a = g then ?p1 OR MM_TYPE_PAGE_TABLE else phys m1 a)" for a
    by (simp add: m2_def str_def)
  have "(0 :: ulong) \<le> 503" "(503 :: ulong) < 512" "(504 :: ulong) \<le> 511" "(511 :: ulong) < 512" by simp_all
  note rng = this
  from block_loop_ok [OF rng(1,2) al(2), of MMU_FLAGS m2] obtain m3 where
    m3: "block_loop ?p2 0 503 MMU_FLAGS m2 = Some m3"
    "\<forall>j < 512. phys m3 (?p2 + 8 * j) = (if j \<le> 503 then MMU_FLAGS + j * SECTION_SIZE else phys m2 (?p2 + 8 * j))"
    "\<forall>a. (\<forall>j < 512. a \<noteq> ?p2 + 8 * j) \<longrightarrow> phys m3 a = phys m2 a" by auto
  from block_loop_ok [OF rng(3,4) al(2), of "0x3f000401" m3] obtain m4 where
    m4: "block_loop ?p2 504 511 0x3f000401 m3 = Some m4"
    "\<forall>j < 512. phys m4 (?p2 + 8 * j) = (if 504 \<le> j \<and> j \<le> 511 then 0x3f000401 + (j - 504) * SECTION_SIZE else phys m3 (?p2 + 8 * j))"
    "\<forall>a. (\<forall>j < 512. a \<noteq> ?p2 + 8 * j) \<longrightarrow> phys m4 a = phys m3 a" by blast
  have res: "create_page_tables g m = Some m4"
    unfolding create_page_tables_def Let_def m1_def [symmetric] pgd prod.case create_block_map_def idx0 m3(1) Option.bind.bind_lunit m4(1)
    by simp
  have out: "phys m4 a = phys m2 a" if "\<forall>j < 512. a \<noteq> ?p2 + 8 * j" for a using m3(3) m4(3) that by simp
  have in1: "phys m4 (g + 8 * j) = phys m2 (g + 8 * j) \<and> phys m4 (?p1 + 8 * j) = phys m2 (?p1 + 8 * j)" if j: "j < 512" for j
  proof -
    have "g + 8 * j \<noteq> ?p2 + 8 * i \<and> ?p1 + 8 * j \<noteq> ?p2 + 8 * i" if "i < 512" for i
      using slot_inj [OF assms(1) al(2) j that] slot_inj [OF al(1) al(2) j that] ne by argo
    then show ?thesis using out by simp
  qed
  have small: "8 * j < PGD_SIZE \<and> PAGE_SIZE + 8 * j < PGD_SIZE \<and> 2 * PAGE_SIZE + 8 * j < PGD_SIZE" if "j < 512" for j
    using that by (simp add: PGD_SIZE_def PAGE_SIZE_def word_less_nat_alt unat_word_ariths)
  have g0: "phys m4 g = ?p1 OR MM_TYPE_PAGE_TABLE" "phys m4 ?p1 = ?p2 OR MM_TYPE_PAGE_TABLE"
    using in1 [of 0] m2 ne by simp_all
  have zero: "phys m4 (g + 8 * j) = 0 \<and> phys m4 (?p1 + 8 * j) = 0" if j: "j < 512" "j \<noteq> 0" for j
  proof -
    have o: "(0 :: ulong) < 512" by simp
    have "g + 8 * j \<noteq> g \<and> g + 8 * j \<noteq> ?p1 \<and> ?p1 + 8 * j \<noteq> g \<and> ?p1 + 8 * j \<noteq> ?p1"
      using slot_inj [OF assms(1) assms(1) j(1) o] slot_inj [OF assms(1) al(1) j(1) o] slot_inj [OF al(1) assms(1) j(1) o]
        slot_inj [OF al(1) al(1) j(1) o] ne j(2) by auto
    then show ?thesis using in1 [OF j(1)] small [OF j(1)] by (simp add: m2 m1 add.assoc)
  qed
  have blocks: "phys m4 (?p2 + 8 * j) = block_entry j" if j: "j < 512" for j
  proof (cases "j < 504")
    case True
    then have "j \<le> 503" "\<not> 504 \<le> j" by (simp_all add: word_le_nat_alt word_less_nat_alt)
    then show ?thesis using m3(2) m4(2) j True by (simp add: block_entry_def)
  next
    case False
    then have "504 \<le> j" "j \<le> 511" using j by (simp_all add: word_le_nat_alt word_less_nat_alt)
    moreover have "0x3f000401 + (j - 504) * SECTION_SIZE = j * SECTION_SIZE + MMU_DEVICE_FLAGS"
      by (simp add: SECTION_SIZE_def MMU_DEVICE_FLAGS_def algebra_simps)
    ultimately show ?thesis using m4(2) j False by (simp add: block_entry_def)
  qed
  have "phys m4 a = phys m a" if a: "\<not> a - g < PGD_SIZE" for a
  proof -
    have "a \<noteq> ?p2 + 8 * j" if "j < 512" for j
      using a small [OF that] by (auto simp: add.assoc)
    moreover have "a \<noteq> g \<and> a \<noteq> ?p1" using a by (auto simp: PGD_SIZE_def PAGE_SIZE_def)
    ultimately show ?thesis using out a by (simp add: m2 m1)
  qed
  then show ?thesis using res g0 zero blocks by blast
qed

subsection \<open>The translation\<close>

text \<open>The MMU reads bits 12 to 47 of an address.\<close>

lemma index_take: "table_index va s = take_bit 9 (drop_bit s va)"
  by (simp add: table_index_def PTRS_PER_TABLE_def take_bit_eq_mask mask_eq_exp_minus_1)

lemma index_bits: "s + 9 \<le> 48 \<Longrightarrow> table_index va s = table_index (take_bit 48 va) s"
  unfolding index_take by (intro bit_eqI) (auto simp: bit_simps)

lemma uint_take: "uint (take_bit n w) = uint w mod 2 ^ n" for w :: ulong
  unfolding unsigned_take_bit_eq by (simp add: take_bit_eq_mod)

lemma uint_drop: "uint (drop_bit n w) = uint w div 2 ^ n" for w :: ulong
proof -
  have "take_bit 64 (uint w) = uint w" using uint_lt2p [of w] by (simp add: take_bit_int_eq_self_iff)
  then show ?thesis unfolding unsigned_drop_bit_eq by (simp add: drop_bit_eq_div)
qed

lemma index_uint: "uint (table_index va s) = uint va div 2 ^ s mod 512"
  by (simp add: index_take uint_take uint_drop)

lemma index_bound: "table_index va s < 512"
  by (simp add: word_less_def index_uint)

lemma split_bits: "push_bit n (drop_bit n a) OR take_bit n a = a" for a :: ulong
  by (intro bit_eqI) (auto simp: bit_simps)

lemma and_window: "e AND push_bit n (mask k) = push_bit n (take_bit k (drop_bit n e))" for e :: ulong
  by (intro bit_eqI) (auto simp: bit_simps)

lemma next_table_entry:
  assumes "page_aligned p" "p < 0x40003000"
  shows "next_table (p OR MM_TYPE_PAGE_TABLE) = Some p"
proof -
  have p: "uint p mod 4096 = 0" "0 \<le> uint p" "uint p < 0x40003000" using assms by (simp_all add: page_aligned_uint word_less_def)
  have low: "\<not> bit p k" if "k < 12" for k using aligned_low [OF assms(1) that] .
  have m: "(0x0000fffffffff000 :: ulong) = push_bit 12 (mask 36)" "(3 :: ulong) = mask 2" by code_simp+
  have "take_bit 36 (drop_bit 12 p) = drop_bit 12 p"
  proof -
    have "uint p div 4096 mod 2 ^ 36 = uint p div 4096" by (rule mod_pos_pos_trivial) (use p in \<open>simp_all add: pos_imp_zdiv_nonneg_iff\<close>)
    then show ?thesis by (simp add: word_uint_eq_iff uint_take uint_drop)
  qed
  then have "p AND push_bit 12 (mask 36) = p"
    using split_bits [of 12 p] assms(1) by (simp add: and_window page_aligned_def)
  moreover have "p AND mask 2 = 0" using low by (intro bit_eqI) (auto simp: bit_simps)
  moreover have "mask 2 AND push_bit 12 (mask 36) = (0 :: ulong)" by code_simp
  ultimately show ?thesis unfolding next_table_def MM_TYPE_PAGE_TABLE_def m
    by (simp add: bit.conj_disj_distrib2)
qed

lemma block_entry_fields:
  assumes "j < 512"
  shows "block_entry j AND 3 = 1" "block_entry j AND 0x0000ffffffe00000 = push_bit 21 j"
    "drop_bit 2 (block_entry j) AND 7 = (if j < 504 then 1 else 0)"
proof -
  have j: "0 \<le> uint j" "uint j < 512" using assms by (simp_all add: word_less_def)
  have u: "uint (block_entry j) = uint j * 0x200000 + (if j < 504 then 0x405 else 0x401)"
    using j by (simp add: block_entry_def SECTION_SIZE_def MMU_FLAGS_def MMU_DEVICE_FLAGS_def uint_word_ariths)
  have m: "(0x0000ffffffe00000 :: ulong) = push_bit 21 (mask 27)" "(3 :: ulong) = mask 2" "(7 :: ulong) = mask 3" by code_simp+
  show "block_entry j AND 3 = 1" unfolding m take_bit_eq_mask [symmetric]
    using u by (simp add: word_uint_eq_iff uint_take mod_add_eq [symmetric] mod_mult_right_eq [symmetric])
  have "take_bit 27 (drop_bit 21 (block_entry j)) = j"
    using u j by (simp add: word_uint_eq_iff uint_take uint_drop)
  then show "block_entry j AND 0x0000ffffffe00000 = push_bit 21 j" unfolding m and_window by simp
  have "(32 * y + 5) div 4 mod 8 = 1" "(32 * y + 1) div 4 mod 8 = 0" for y :: int by presburger+
  from this [of "uint j * 0x10000 + 0x20"] have "(uint j * 0x200000 + 0x405) div 4 mod 8 = 1" "(uint j * 0x200000 + 0x401) div 4 mod 8 = 0"
    by (simp_all add: algebra_simps)
  then show "drop_bit 2 (block_entry j) AND 7 = (if j < 504 then 1 else 0)" unfolding m take_bit_eq_mask [symmetric]
    using u by (simp add: word_uint_eq_iff uint_take uint_drop)
qed

text \<open>What the tables map: the first GB, at either end of the address space.\<close>

lemma tables_translate:
  assumes g: "page_aligned g" "g < 0x40000000"
    and t0: "phys m g = (g + PAGE_SIZE) OR MM_TYPE_PAGE_TABLE" and t1: "phys m (g + PAGE_SIZE) = (g + 2 * PAGE_SIZE) OR MM_TYPE_PAGE_TABLE"
    and z: "\<And>j. j < 512 \<Longrightarrow> j \<noteq> 0 \<Longrightarrow> phys m (g + 8 * j) = 0 \<and> phys m (g + PAGE_SIZE + 8 * j) = 0"
    and b: "\<And>j. j < 512 \<Longrightarrow> phys m (g + 2 * PAGE_SIZE + 8 * j) = block_entry j"
  shows "translate m g va =
    (let a = take_bit 48 va in if a < PHYS_MEMORY_SIZE then Some (a, if a < DEVICE_BASE then 1 else 0) else None)"
proof -
  define a where "a = take_bit 48 va"
  have a: "0 \<le> uint a" "uint a < 0x1000000000000"
    by (simp_all add: a_def uint_take)
  have u: "uint g mod 4096 = 0" "0 \<le> uint g" "uint g < 0x40000000" using g by (simp_all add: page_aligned_uint word_less_def)
  then have p: "uint (g + PAGE_SIZE) = uint g + 4096" "uint (g + 2 * PAGE_SIZE) = uint g + 8192"
    by (simp_all add: uint_word_ariths PAGE_SIZE_def)
  have n: "next_table ((g + PAGE_SIZE) OR MM_TYPE_PAGE_TABLE) = Some (g + PAGE_SIZE)"
    "next_table ((g + 2 * PAGE_SIZE) OR MM_TYPE_PAGE_TABLE) = Some (g + 2 * PAGE_SIZE)"
    by (rule next_table_entry; use p u in \<open>simp add: page_aligned_uint word_less_def mod_add_eq [symmetric]\<close>)+
  have n0: "next_table 0 = None" by (simp add: next_table_def MM_TYPE_PAGE_TABLE_def)
  have ix: "table_index va PGD_SHIFT = table_index a 39" "table_index va PUD_SHIFT = table_index a 30" "table_index va PMD_SHIFT = table_index a 21"
    unfolding a_def PGD_SHIFT_def PUD_SHIFT_def PMD_SHIFT_def by (rule index_bits; simp)+
  have zero: "table_index a 39 = 0 \<and> table_index a 30 = 0 \<longleftrightarrow> a < PHYS_MEMORY_SIZE"
  proof -
    define q where "q = uint a div 2 ^ 30"
    have q: "0 \<le> q" "q < 512 * 512" "uint a div 2 ^ 39 = q div 512" "q = 0 \<longleftrightarrow> uint a < 0x40000000"
      using a zdiv_zmult2_eq [of 512 "uint a" "2 ^ 30"] pos_imp_zdiv_nonneg_iff [of "2 ^ 30" "uint a"]
      by (auto simp: q_def div_eq_0_iff)
    have "q div 512 < 512" "0 \<le> q div 512" using q(1,2) by linarith+
    then have "q div 512 mod 512 = q div 512" by (rule mod_pos_pos_trivial [rotated])
    moreover have "q = 512 * (q div 512) + q mod 512" by simp
    ultimately have "uint a div 2 ^ 39 mod 512 = 0 \<and> uint a div 2 ^ 30 mod 512 = 0 \<longleftrightarrow> uint a < 0x40000000"
      using q(3,4) unfolding q_def [symmetric] by auto
    then show ?thesis by (simp add: word_uint_eq_iff index_uint word_less_def PHYS_MEMORY_SIZE_def)
  qed
  show ?thesis
  proof (cases "a < PHYS_MEMORY_SIZE")
    case True
    let ?j = "table_index a 21"
    have ua: "uint a < 0x40000000" using True by (simp add: word_less_def PHYS_MEMORY_SIZE_def)
    have "uint a div 2 ^ 21 mod 512 = uint a div 2 ^ 21"
      by (rule mod_pos_pos_trivial) (use ua a in \<open>simp_all add: pos_imp_zdiv_nonneg_iff\<close>)
    then have "uint ?j = uint a div 2 ^ 21" by (simp add: index_uint)
    then have j: "?j = drop_bit 21 a" by (simp add: word_uint_eq_iff uint_drop)
    have "uint a div 2 ^ 21 < 504 \<longleftrightarrow> uint a < 0x3f000000"
      using pos_mod_bound [of "2 ^ 21" "uint a"] pos_mod_sign [of "2 ^ 21" "uint a"] mult_div_mod_eq [of "2 ^ 21" "uint a"]
      by simp (intro iffI; linarith)
    then have lt: "?j < 504 \<longleftrightarrow> a < DEVICE_BASE"
      using \<open>uint ?j = uint a div 2 ^ 21\<close> by (simp add: word_less_def DEVICE_BASE_def)
    have tb: "take_bit 21 va = take_bit 21 a" by (simp add: a_def)
    have "translate m g va = Some (push_bit 21 ?j OR take_bit 21 va, if ?j < 504 then 1 else 0)"
      using zero True t0 t1 b [OF index_bound] block_entry_fields [OF index_bound]
      by (simp add: translate_def ix n Let_def)
    then show ?thesis using True lt by (simp only: j tb split_bits Let_def a_def [symmetric] if_True)
  next
    case False
    then consider "table_index a 39 \<noteq> 0" | "table_index a 39 = 0" "table_index a 30 \<noteq> 0" using zero by blast
    then have "translate m g va = None"
      by cases (use z [OF index_bound] t0 in \<open>simp_all add: translate_def ix n n0\<close>)
    then show ?thesis using False by (simp add: Let_def a_def [symmetric])
  qed
qed

text \<open>The whole start, on the first core and on the others.\<close>

lemma start_ok:
  assumes "mpidr r AND 3 = 0" "page_aligned g" "g < 0x40000000"
  shows "\<exists>r' m'. start bss bss_end g main (r, m) = Some (r', m') \<and>
    boot_pc r' = main \<and> boot_sp r' = VA_START + LOW_MEMORY \<and> sctlr_el1 r' AND 1 = 1 \<and> ttbr0 r' = g \<and> ttbr1 r' = g \<and>
    (\<forall>va. translate m' g va =
      (let a = take_bit 48 va in if a < PHYS_MEMORY_SIZE then Some (a, if a < DEVICE_BASE then 1 else 0) else None)) \<and>
    (\<forall>a. \<not> a - g < PGD_SIZE \<longrightarrow> phys m' a = (if a - bss < max (bss_end - bss) 8 then 0 else phys m a))"
proof -
  define m1 where "m1 = memzero (bss + VA_START) (bss_end - bss) m"
  from create_page_tables_ok [OF assms(2,3), of m1] obtain m2 where
    m2: "create_page_tables g m1 = Some m2" "phys m2 g = (g + PAGE_SIZE) OR MM_TYPE_PAGE_TABLE"
      "phys m2 (g + PAGE_SIZE) = (g + 2 * PAGE_SIZE) OR MM_TYPE_PAGE_TABLE"
      "\<forall>j < 512. j \<noteq> 0 \<longrightarrow> phys m2 (g + 8 * j) = 0 \<and> phys m2 (g + PAGE_SIZE + 8 * j) = 0"
      "\<forall>j < 512. phys m2 (g + 2 * PAGE_SIZE + 8 * j) = block_entry j"
      "\<forall>a. \<not> a - g < PGD_SIZE \<longrightarrow> phys m2 a = phys m1 a" by blast
  have core: "mpidr ((to_el1 r)\<lparr>sctlr_el1 := v\<rparr>) AND 3 = 0" for v using assms(1) by (simp add: to_el1_def)
  have out: "phys m2 a = (if a - bss < max (bss_end - bss) 8 then 0 else phys m a)" if "\<not> a - g < PGD_SIZE" for a
    using m2(6) that by (simp add: m1_def memzero_def)
  have tr: "\<forall>va. translate m2 g va =
      (let a = take_bit 48 va in if a < PHYS_MEMORY_SIZE then Some (a, if a < DEVICE_BASE then 1 else 0) else None)"
    by (intro allI tables_translate [OF assms(2,3) m2(2,3)]) (use m2(4,5) in blast)+
  show ?thesis using core out tr m2(1)
    by (simp add: start_def Let_def m1_def [symmetric] SCTLR_MMU_ENABLED_def)
qed

end
