(* ===== verification/Entry_Properties.thy ===== *)
theory Entry_Properties
  imports Kernel_Calls Start Kernel_Properties Platform_Properties
begin

unbundle bit_operations_syntax

text \<open>
  Properties of the start, of entering and leaving the kernel, and of the way a process gets to user mode. The
  C code between entry and exit is the model of it, compiled to the calling convention (\<open>compiled\<close>).
\<close>

subsection \<open>The start\<close>

text \<open>C18: the start of the machine. On the first core it reaches \<^verbatim>\<open>kernel_main\<close> with the stack below
  \<^verbatim>\<open>LOW_MEMORY\<close>, the bss cleared (8 bytes at least) and the MMU on. What the MMU then makes of a canonical address depends on its low 48
  bits: below 1 GB they are the physical address, devices from \<^verbatim>\<open>DEVICE_BASE\<close> on with the attributes of device
  memory, and everything else faults. So the code goes on at the physical address it was at, and the
  kernel's addresses are the physical ones plus \<^verbatim>\<open>VA_START\<close>.\<close>

theorem boot_maps_memory:
  assumes "mpidr r AND 3 = 0" "page_aligned g" "g < 0x40000000"
  shows "\<exists>r' m'. start bss bss_end g main (r, m) = Some (r', m') \<and>
    boot_pc r' = main \<and> boot_sp r' = VA_START + LOW_MEMORY \<and> sctlr_el1 r' AND 1 = 1 \<and> ttbr0 r' = g \<and> ttbr1 r' = g \<and>
    (\<forall>va. translate m' g va =
      (let a = take_bit 48 va in if a < PHYS_MEMORY_SIZE then Some (a, if a < DEVICE_BASE then 1 else 0) else None)) \<and>
    (\<forall>a. \<not> a - g < PGD_SIZE \<longrightarrow> phys m' a = (if a - bss < max (bss_end - bss) 8 then 0 else phys m a))"
  using start_ok [OF assms] .

definition first_core :: boot_regs where
  "first_core = \<lparr>current_el = 2, mpidr = 0x80000000, hcr_el2 = 0, spsr_el2 = 0, sctlr_el1 = 0, ttbr0 = 0, ttbr1 = 0,
     tcr_el1 = 0, mair_el1 = 0, boot_sp = 0, boot_pc = 0x80000\<rparr>"

theorem boot_maps_memory_witness:
  "\<exists>r' m'. start 0x90000 0x92000 0x92000 0xffff000000081000 (first_core, fresh_memory) = Some (r', m') \<and>
     boot_pc r' = 0xffff000000081000 \<and> translate m' 0x92000 0xffff00003f201000 = Some (0x3f201000, 0) \<and>
     translate m' 0x92000 0x80000 = Some (0x80000, 1) \<and> translate m' 0x92000 0xffff000040000000 = None"
proof -
  have "mpidr first_core AND 3 = 0" "page_aligned 0x92000" "(0x92000 :: ulong) < 0x40000000"
    by (simp_all add: first_core_def page_aligned_uint)
  from boot_maps_memory [OF this, of "0x90000" "0x92000" "0xffff000000081000" fresh_memory] obtain r' m' where
    r: "start 0x90000 0x92000 0x92000 0xffff000000081000 (first_core, fresh_memory) = Some (r', m')" "boot_pc r' = 0xffff000000081000"
    and t: "\<And>va. translate m' 0x92000 va =
      (let a = take_bit 48 va in if a < PHYS_MEMORY_SIZE then Some (a, if a < DEVICE_BASE then 1 else 0) else None)" by blast
  have b: "take_bit 48 (0xffff00003f201000 :: ulong) = 0x3f201000" "take_bit 48 (0x80000 :: ulong) = 0x80000"
    "take_bit 48 (0xffff000040000000 :: ulong) = 0x40000000" by code_simp+
  show ?thesis using r by (simp add: t b PHYS_MEMORY_SIZE_def DEVICE_BASE_def)
qed

subsection \<open>Interrupts\<close>

text \<open>C19: interrupts. On any device, whatever its registers hold, the handler returns and keeps the scheduler well
  formed and the console's ring buffer intact. A pending timer interrupt goes first: the scheduler has its tick,
  the next interrupt is set one period after the last one that was set, and the console waits for the next
  interrupt. And the code that was interrupted does not notice: when its process has the CPU again, every
  register, the stack pointers, the program counter and the status are what they were, in user mode and in the
  kernel.\<close>

theorem interrupts_are_transparent:
  assumes "length (x_regs u) = 31" "well_formed (psched p)" "ring_ok (pconsole p)"
  shows "\<exists>q. handle_irq D p = Some q \<and> well_formed (psched q) \<and> ring_ok (pconsole q) \<and>
    (let (p1, d1) = mmio_get D IRQ_PENDING_1 (pdev p); (p2, d2) = mmio_get D IRQ_PENDING_2 d1
     in if p1 AND SYSTEM_TIMER_IRQ_1 \<noteq> 0
        then handle_timer_tick (psched p) = Some (psched q) \<and> pconsole q = pconsole p \<and>
          curVal q = curVal p + TIMER_PERIOD \<and>
          pdev q = mmio_write D TIMER_C1 (curVal q) (mmio_write D TIMER_CS TIMER_CS_M1 d2)
        else curVal q = curVal p \<and> pdev q = d2 \<and>
          (if p2 AND UART0_IRQ_BIT \<noteq> 0 then handle_uart_irq (pconsole p) (psched p) = Some (pconsole q, psched q)
           else psched q = psched p)) \<and>
    (current_process (psched q) = current_process (psched p) \<longrightarrow>
      (\<exists>c d. el0_irq (compiled junk (handler (handle_irq D))) (take_exception (cpu_pc u) u, p) = Some (c, q) \<and> same_user u c \<and>
        el1_irq (compiled junk (handler (handle_irq D))) (take_exception (cpu_pc u) u, p) = Some (d, q) \<and>
        x_regs d = x_regs u \<and> sp_el1 d = sp_el1 u \<and> cpu_pc d = cpu_pc u \<and> pstate d = pstate u))"
proof -
  note handle_irq_cases [OF assms(2,3), of D]
  moreover have "\<exists>c d. el0_irq (compiled junk (handler (handle_irq D))) (take_exception (cpu_pc u) u, p) = Some (c, q) \<and> same_user u c \<and>
      el1_irq (compiled junk (handler (handle_irq D))) (take_exception (cpu_pc u) u, p) = Some (d, q) \<and>
      x_regs d = x_regs u \<and> sp_el1 d = sp_el1 u \<and> cpu_pc d = cpu_pc u \<and> pstate d = pstate u" if "handle_irq D p = Some q" for q
    using el0_irq_transparent [where g = "handle_irq D", OF assms(1) that] el1_irq_transparent [where g = "handle_irq D", OF assms(1) that]
    by blast
  ultimately show ?thesis by blast
qed

definition sample_cpu :: cpu where
  "sample_cpu = \<lparr>x_regs = map of_nat [100..<131], sp_el1 = 0xffff000000401000, sp_el0 = 0x8000, cpu_pc = 0x1000, pstate = 0x60000000,
     elr_el1 = 0, spsr_el1 = 0, esr_el1 = 0, far_el1 = 0, stack_words = (\<lambda>_. 0)\<rparr>"

text \<open>A C function that leaves other values in every register it may change.\<close>

definition clobber :: "cpu \<Rightarrow> 'st \<Rightarrow> cpu" where
  "clobber c st = c\<lparr>x_regs := replicate 31 0xdead, elr_el1 := 0xbeef, spsr_el1 := 0xbeef\<rparr>"

lemma sample_cpu_fields: "length (x_regs sample_cpu) = 31" "x_regs sample_cpu ! 30 = 130" "x_regs sample_cpu ! 0 = 100"
    "sp_el0 sample_cpu = 0x8000" "cpu_pc sample_cpu = 0x1000" "pstate sample_cpu = 0x60000000" "sp_el1 sample_cpu = 0xffff000000401000"
  by (simp_all add: sample_cpu_def)

theorem interrupts_are_transparent_witness:
  "\<exists>q c. el0_irq (compiled clobber (handler (handle_irq both_pending))) (take_exception 0x1000 sample_cpu,
      \<lparr>pdev = [], pconsole = empty_uart, psched = init_sched sched_fcfs (\<lambda>_. 0), curVal = 0xFFFFF000\<rparr>) = Some (c, q) \<and>
    x_regs c = map of_nat [100..<131] \<and> cpu_pc c = 0x1000 \<and>
    curVal q = 5904 \<and> pdev q = [(MMIO_BASE + TIMER_C1, 5904), (MMIO_BASE + TIMER_CS, 2)]"
proof -
  let ?p = "\<lparr>pdev = [], pconsole = empty_uart, psched = init_sched sched_fcfs (\<lambda>_. 0), curVal = 0xFFFFF000\<rparr>"
  have wf: "well_formed (psched ?p)" using init_sched_inv by (auto simp: well_formed_def)
  have ring: "ring_ok (pconsole ?p)" by (simp add: empty_uart_ok)
  have g: "mmio_get both_pending r d = (0xFFFFFFFF, d)" "mmio_write both_pending r v d = (MMIO_BASE + r, v) # d" for r v d
    by (simp_all add: mmio_get_def mmio_read_def mmio_write_def both_pending_def)
  have b: "(0xFFFFFFFF :: uint32) AND SYSTEM_TIMER_IRQ_1 \<noteq> 0" "TIMER_CS_M1 = 2" "(0xFFFFF000 :: uint32) + TIMER_PERIOD = 5904"
    by code_simp+
  from handle_irq_cases [OF wf ring, of both_pending] obtain q where
    q: "handle_irq both_pending ?p = Some q" "handle_timer_tick (psched ?p) = Some (psched q)"
    by (auto simp: g b)
  have "current_process (psched q) = current_process (psched ?p)"
    using q(2) by (auto simp: handle_timer_tick_def init_sched_def upd_pcb_def Let_def split: if_splits dest!: sym [of _ "psched q"])
  with interrupts_are_transparent [OF sample_cpu_fields(1) wf ring, of both_pending clobber] q(1) show ?thesis
    by (auto simp: same_user_def sample_cpu_fields g b) (auto simp: sample_cpu_def)
qed

subsection \<open>System calls\<close>

text \<open>C20: a stub of \<^verbatim>\<open>user_syscalls.S\<close> is an ordinary function call. The dispatcher sees the registers of
  the caller with the number of the call in \<^verbatim>\<open>x8\<close>; when it has returned, the caller goes on behind its call with
  all its registers, its stack pointer and its status, but for \<^verbatim>\<open>x8\<close> and the result in \<^verbatim>\<open>x0\<close>, which a call
  without result leaves alone. Only \<^verbatim>\<open>exec\<close> may do something else.\<close>

theorem system_call_returns_to_caller:
  assumes "length (x_regs u) = 31" "(name, n) \<in> set user_stubs" "n \<noteq> 16"
    and "syscall_dispatcher H ((x_regs u)[8 := n] @ [sp_el0 u, cpu_pc u + 8, pstate u]) st = Some (ws, st')"
  shows "\<exists>c. user_stub n (el0_sync (compiled junk (syscall_dispatcher H)) abort show_message) (u, st) = Some (c, st') \<and>
    x_regs c = (x_regs u)[8 := n, 0 := ws ! 0] \<and> sp_el0 c = sp_el0 u \<and> cpu_pc c = x_regs u ! 30 \<and> pstate c = pstate u \<and>
    sp_el1 c = sp_el1 u \<and> (n \<in> {0, 2, 9, 14, 18} \<longrightarrow> ws ! 0 = x_regs u ! 0)"
proof -
  let ?ws = "(x_regs u)[8 := n] @ [sp_el0 u, cpu_pc u + 8, pstate u]"
  have n8: "?ws ! 8 = n" using assms(1) by (simp add: nth_append)
  note d = conjunct2 [OF dispatcher_preserves_registers, of ?ws H st ws st', unfolded n8, rule_format, OF assms(3,4)]
  have ws: "length ws = 34" "ws ! 30 = x_regs u ! 30" "ws ! 31 = sp_el0 u" "ws ! 32 = cpu_pc u + 8" "ws ! 33 = pstate u"
    using d assms(1) by (simp_all add: nth_append)
  have t: "take 31 ws = (x_regs u)[8 := n, 0 := ws ! 0]"
    using d assms(1) ws(1) by (intro nth_equalityI) (auto simp: nth_append nth_list_update)
  have "n \<in> {0, 2, 9, 14, 18} \<longrightarrow> ws ! 0 = x_regs u ! 0" using d assms(1) by (auto simp: nth_append)
  with stub_returns [where d = "syscall_dispatcher H", OF assms(1,4) ws(1,4)] show ?thesis by (simp add: t ws)
qed

theorem system_call_returns_to_caller_witness:
  "\<exists>c. user_stub 19 (el0_sync (compiled clobber (syscall_dispatcher failing_handlers)) (\<lambda>_. None) (\<lambda>_. None)) (sample_cpu, 7) = Some (c, 7) \<and>
     x_regs c ! 0 = 42 \<and> x_regs c ! 1 = 101 \<and> cpu_pc c = 130"
proof -
  have m: "(''call_syscall_get_time'', 19) \<in> set user_stubs" by (simp add: user_stubs_def)
  have n: "(19 :: ulong) \<noteq> 16" by simp
  have r: "syscall_dispatcher failing_handlers ((x_regs sample_cpu)[8 := 19] @ [sp_el0 sample_cpu, cpu_pc sample_cpu + 8, pstate sample_cpu]) 7 =
      Some (((x_regs sample_cpu)[8 := 19] @ [sp_el0 sample_cpu, cpu_pc sample_cpu + 8, pstate sample_cpu])[0 := 42], 7)"
    by (simp add: syscall_dispatcher_def Let_def nth_append sample_cpu_fields SYSCALLS_NUMBER_def returns_ulong_def failing_handlers_def)
  from system_call_returns_to_caller [OF sample_cpu_fields(1) m n r, of clobber "\<lambda>_. None" "\<lambda>_. None"] show ?thesis
    by (auto simp: sample_cpu_fields nth_append) (auto simp: sample_cpu_def)
qed

subsection \<open>Data aborts\<close>

text \<open>\<^verbatim>\<open>do_mem_abort\<close> as the assembly calls it.\<close>

definition abort_handler :: "ulong list \<Rightarrow> mm_struct \<times> mm_state \<Rightarrow> (ulong \<times> mm_struct \<times> mm_state) option" where
  "abort_handler xs st = do {
     (v, d, m) \<leftarrow> do_mem_abort (xs ! 0) (xs ! 1) (fst st) (snd st);
     Some (from_int v, d, m)
   }"

lemma no_translation_fault: "(esr AND 0b111111) div 0b111100 \<noteq> (0b100 :: ulong)"
proof -
  have "uint (esr AND 0b111111) < 64"
    using uint_take [of 6 esr] by (simp add: take_bit_eq_mask mask_eq_exp_minus_1)
  then have "uint (esr AND 0b111111) div 60 < 4" by linarith
  then show ?thesis by (auto simp: word_uint_eq_iff uint_div)
qed

text \<open>C22: an access of a user program that the MMU refuses. For any handler that answers the address and the
  syndrome of the access with \<open>v\<close>: if \<open>v\<close> is 0 the assembly goes back to user mode at the
  refused instruction, with all registers, both stack pointers and the status as they were; otherwise it
  shows the error and hangs (\<open>None\<close>). The kernel's handler, \<^verbatim>\<open>do_mem_abort\<close>, always answers -1
  and maps nothing, although its comment says that it handles page faults: the program never comes back.\<close>

theorem data_abort_never_resumes:
  assumes len: "length (x_regs u) = 31" and esr: "drop_bit ESR_ELx_EC_SHIFT esr = ESR_ELx_EC_DABT_LOW"
    and f: "\<And>xs. xs ! 0 = far \<Longrightarrow> xs ! 1 = esr \<Longrightarrow> f xs st = Some (v, st')"
  shows "(if v = 0
      then \<exists>c. el0_sync dispatch (returning junk f) show_message (data_abort esr far u, st) = Some (c, st') \<and>
        x_regs c = x_regs u \<and> sp_el0 c = sp_el0 u \<and> sp_el1 c = sp_el1 u \<and> cpu_pc c = cpu_pc u \<and> pstate c = pstate u
      else el0_sync dispatch (returning junk f) show_message (data_abort esr far u, st) = None) \<and>
    abort_handler [far, esr] md = Some (- 1, md) \<and>
    el0_sync dispatch2 (returning junk2 abort_handler) show_message2 (data_abort esr far u, md) = None"
proof -
  have h: "xs ! 1 = esr \<Longrightarrow> abort_handler xs md = Some (- 1, md)" for xs
    using no_translation_fault [of esr] by (simp add: abort_handler_def do_mem_abort_def from_int_def)
  have "el0_sync dispatch2 (returning junk2 abort_handler) show_message2 (data_abort esr far u, md) = None"
    using el0_sync_abort [OF len esr, of far abort_handler md "- 1" md] h by simp
  moreover note el0_sync_abort [where f = f and far = far and st = st and v = v and st' = st', OF len esr f, of dispatch junk show_message]
  ultimately show ?thesis using h [of "[far, esr]"] unfolding same_user_def by simp
qed

theorem data_abort_never_resumes_witness:
  "(\<exists>c. el0_sync (\<lambda>_. None) (returning clobber (\<lambda>_ n. Some (0, n + 1))) Some (data_abort 0x92000046 0x400000 sample_cpu, 0 :: nat) = Some (c, 1) \<and>
      cpu_pc c = cpu_pc sample_cpu) \<and>
   el0_sync (\<lambda>_. None) (returning clobber abort_handler) Some (data_abort 0x92000046 0x400000 sample_cpu, (empty_mm, fresh_memory)) = None"
proof -
  have e: "drop_bit ESR_ELx_EC_SHIFT 0x92000046 = ESR_ELx_EC_DABT_LOW" by code_simp
  show ?thesis
    using data_abort_never_resumes [OF sample_cpu_fields(1) e, where f = "\<lambda>_ n. Some (0, n + 1)" and st = "0 :: nat" and v = 0 and st' = 1
        and dispatch = "\<lambda>_. None" and junk = clobber and show_message = Some and far = "0x400000" and md = "(empty_mm, fresh_memory)"
        and ?dispatch2.0 = "\<lambda>_. None" and ?junk2.0 = clobber and ?show_message2.0 = Some] by auto
qed

subsection \<open>The first run of a process\<close>

text \<open>The processor when a process gets the CPU for the first time, on the page of its PCB.\<close>

definition first_cpu :: "kernel_state \<Rightarrow> pcb_id \<Rightarrow> cpu" where
  "first_cpu k p = (let x = cpu_context (heap (sched k) p)
     in sample_cpu\<lparr>x_regs := (x_regs sample_cpu)[19 := x19 x, 20 := x20 x, 30 := pc x], sp_el1 := cpu_context.sp x,
          stack_words := put_frame (cpu_context.sp x) (regs_frame (user_regs k p)) (\<lambda>_. 0)\<rparr>)"

lemma first_cpu_switched:
  assumes "length (registers (user_regs k p)) = 31"
  shows "switched_to (cpu_context (heap (sched k) p)) (user_regs k p) (first_cpu k p)"
  using assms frame_put [of "regs_frame (user_regs k p)"]
  by (simp add: switched_to_def first_cpu_def Let_def sample_cpu_fields frame_words_def regs_frame_def)

text \<open>C21: \<^verbatim>\<open>fork\<close> returns twice. A user program calls the stub; when the kernel could make the child, the program goes on
  behind its call with the pid of the child in \<^verbatim>\<open>x0\<close>. And when the child gets the CPU for the first time, it
  runs \<^verbatim>\<open>ret_from_fork\<close> and goes to user mode at the instruction behind the \<^verbatim>\<open>svc\<close>, with the registers, the stack
  pointer and the status of the parent, but with 0 in \<^verbatim>\<open>x0\<close>; its kernel stack is empty then.\<close>

theorem fork_returns_twice:
  assumes "length (x_regs u) = 31" "kernel_ok k"
    and "syscall_fork rff (with_frame ((x_regs u)[8 := 12] @ [sp_el0 u, cpu_pc u + 8, pstate u]) k) = Some (r, k')" "r \<noteq> -1"
    and "processes (sched k') ! nat r = Some child"
    and "switched_to (cpu_context (heap (sched k') child)) (user_regs k' child) c"
  shows "\<exists>p d page. r = n_processes (sched k) \<and> child = pcb_page page \<and>
    user_stub 12 (el0_sync (compiled junk (kernel_dispatch rff H)) abort show_message) (u, k) = Some (p, k') \<and>
    x_regs p = (x_regs u)[8 := 12, 0 := from_int r] \<and> sp_el0 p = sp_el0 u \<and> cpu_pc p = x_regs u ! 30 \<and> pstate p = pstate u \<and>
    x_regs c ! 30 = rff \<and>
    ret_from_fork_entry (compiled junk2 (handler (Some \<circ> schedule_tail))) function_at (c, sched k') = Some (d, schedule_tail (sched k')) \<and>
    x_regs d = (x_regs u)[8 := 12, 0 := 0] \<and> sp_el0 d = sp_el0 u \<and> cpu_pc d = cpu_pc u + 8 \<and> pstate d = pstate u \<and>
    sp_el1 d = page + THREAD_SIZE"
proof -
  let ?ws = "(x_regs u)[8 := 12] @ [sp_el0 u, cpu_pc u + 8, pstate u]"
  let ?k = "with_frame ?ws k"
  have u: "regs_of ?ws = \<lparr>registers = (x_regs u)[8 := 12], regs_sp = sp_el0 u, regs_pc = cpu_pc u + 8, regs_pstate = pstate u\<rparr>"
    using assms(1) by (simp add: regs_of_def nth_append)
  have "?ws ! 8 = 12" using assms(1) by (simp add: nth_append)
  note d = kernel_dispatch_fork [OF this assms(3), of H]
  have "length (?ws[0 := from_int r]) = 34" "?ws[0 := from_int r] ! 32 = cpu_pc u + 8" using assms(1) by (simp_all add: nth_append)
  from stub_returns [where d = "kernel_dispatch rff H", OF assms(1) d this, of junk abort show_message] obtain p where
    p: "user_stub 12 (el0_sync (compiled junk (kernel_dispatch rff H)) abort show_message) (u, k) = Some (p, k')"
      "x_regs p = (x_regs u)[8 := 12, 0 := from_int r]" "sp_el0 p = sp_el0 u" "cpu_pc p = x_regs u ! 30" "pstate p = pstate u"
    using assms(1) by (auto simp: nth_append list_update_append)
  have ok: "kernel_ok ?k" using assms(2) by simp
  from forked_child [OF ok assms(3) [unfolded syscall_fork_def] assms(4)] obtain page where
    pg: "r = n_processes (sched k)" "child = pcb_page page"
      "cpu_context (heap (sched k') child) = zero_context\<lparr>pc := rff, sp := task_pt_regs page\<rparr>"
      "user_regs k' child = (regs_of ?ws)\<lparr>registers := (registers (regs_of ?ws))[0 := 0]\<rparr>"
    using assms(5) by (auto simp: Let_def)
  have x: "x19 (cpu_context (heap (sched k') child)) = 0" "length (registers (user_regs k' child)) = 31"
    using assms(1) by (simp_all add: pg(3,4) u zero_context_def)
  from first_run_user [where g = "Some \<circ> schedule_tail" and junk = junk2 and function_at = function_at and st = "sched k'"
      and st' = "schedule_tail (sched k')", OF assms(6) x] obtain e where
    e: "ret_from_fork_entry (compiled junk2 (handler (Some \<circ> schedule_tail))) function_at (c, sched k') = Some (e, schedule_tail (sched k'))"
      "x_regs e = registers (user_regs k' child)" "sp_el0 e = regs_sp (user_regs k' child)" "cpu_pc e = regs_pc (user_regs k' child)"
      "pstate e = regs_pstate (user_regs k' child)" "sp_el1 e = cpu_context.sp (cpu_context (heap (sched k') child)) + S_FRAME_SIZE" by auto
  have "x_regs c ! 30 = rff" using assms(6) by (simp add: switched_to_def pg(3))
  moreover have "sp_el1 e = page + THREAD_SIZE" using e(6) by (simp add: pg(3) task_pt_regs_def S_FRAME_SIZE_def PT_REGS_SIZE_def)
  ultimately show ?thesis using p e(1-5) pg by (intro exI [of _ p] exI [of _ e] exI [of _ page]) (simp add: u)
qed

theorem fork_returns_twice_witness:
  "\<forall>H. \<exists>k' child p d. user_stub 12 (el0_sync (compiled clobber (kernel_dispatch 0x84000 H)) (\<lambda>_. None) (\<lambda>_. None)) (sample_cpu, boot_kernel) = Some (p, k') \<and>
     x_regs p ! 0 = 1 \<and> x_regs p ! 5 = 105 \<and> cpu_pc p = 130 \<and> processes (sched k') ! 1 = Some child \<and>
     ret_from_fork_entry (compiled clobber (handler (Some \<circ> schedule_tail))) (\<lambda>_ _. None) (first_cpu k' child, sched k')
       = Some (d, schedule_tail (sched k')) \<and>
     x_regs d ! 0 = 0 \<and> x_regs d ! 5 = 105 \<and> cpu_pc d = 0x1008"
proof
  fix H
  let ?ws = "(x_regs sample_cpu)[8 := 12] @ [sp_el0 sample_cpu, cpu_pc sample_cpu + 8, pstate sample_cpu]"
  let ?k = "with_frame ?ws boot_kernel"
  have ok: "kernel_ok boot_kernel" using boot_kernel_ok(1,2) by (auto simp: kernel_ok_def well_formed_def)
  have "pcb_pages_ok ?k" "sched_inv (sched ?k) [] (replicate ML_MAX_LEVELS [])" "free_frames (mem ?k) \<noteq> {}"
    "n_processes (sched ?k) < int N_PROCESSES"
    "0 AND PF_KTHREAD \<noteq> 0 \<or> n_user_pages (mm (heap (sched ?k) (current_process (sched ?k)))) = 0"
    using ok boot_kernel_ok by (simp_all add: N_PROCESSES_def pcb_pages_ok_def)
      (simp add: boot_kernel_def init_kernel_def init_sched_def INIT_PROCESS_def empty_mm_def)
  from copy_process_created [OF this(2,1,3-5), of "0x84000" 0 0] obtain page k' where
    k': "syscall_fork 0x84000 ?k = Some (1, k')" "processes (sched k') = (processes (sched boot_kernel))[1 := Some (pcb_page page)]"
    using boot_kernel_ok(4) by (auto simp: syscall_fork_def)
  have ch: "processes (sched k') ! nat 1 = Some (pcb_page page)"
    by (simp add: k'(2) boot_kernel_def init_kernel_def init_sched_def N_PROCESSES_def)
  have one: "(1 :: int) \<noteq> -1" by simp
  have "length (registers (user_regs k' (pcb_page page))) = 31"
    using forked_child [of ?k, OF _ k'(1) [unfolded syscall_fork_def] one] ok ch by (auto simp: Let_def regs_of_def sample_cpu_fields)
  from fork_returns_twice [OF sample_cpu_fields(1) ok k'(1) one ch first_cpu_switched [OF this], of clobber H "\<lambda>_. None" "\<lambda>_. None" clobber "\<lambda>_ _. None"]
  show "\<exists>k' child p d. user_stub 12 (el0_sync (compiled clobber (kernel_dispatch 0x84000 H)) (\<lambda>_. None) (\<lambda>_. None)) (sample_cpu, boot_kernel) = Some (p, k') \<and>
     x_regs p ! 0 = 1 \<and> x_regs p ! 5 = 105 \<and> cpu_pc p = 130 \<and> processes (sched k') ! 1 = Some child \<and>
     ret_from_fork_entry (compiled clobber (handler (Some \<circ> schedule_tail))) (\<lambda>_ _. None) (first_cpu k' child, sched k')
       = Some (d, schedule_tail (sched k')) \<and>
     x_regs d ! 0 = 0 \<and> x_regs d ! 5 = 105 \<and> cpu_pc d = 0x1008" using ch by (auto simp: sample_cpu_fields from_int_def) (auto simp: sample_cpu_def)
qed

end
