(* ===== verification/Spec2Isabelle.thy ===== *)
theory Spec2Isabelle
  imports Scheduler_Properties Kernel_Properties Fat_Properties Directory_Properties File_Call_Properties Sd_Properties
    User_Properties Platform_Properties Entry_Properties
begin

text \<open>
  A model of demoos, a small kernel for the Raspberry Pi with a FAT32 file system, and what it
  guarantees. The C files are under \<^verbatim>\<open>src/\<close> of the repository; the paths below are relative to it.

  The program. \<^verbatim>\<open>boot/start.S\<close> builds the page tables of the kernel and turns the MMU on; \<^verbatim>\<open>drivers/irq/entry.S\<close> saves
  and restores the registers around every interrupt and system call. The timer interrupt and the system calls drive the scheduler
  (\<^verbatim>\<open>libs/scheduler.c\<close>), which keeps a table of process control blocks, one ready queue and a
  queue per level of the multilevel algorithms, and picks the next process with one of seven
  algorithms. \<^verbatim>\<open>libs/fork.c\<close> makes processes from pages of \<^verbatim>\<open>libs/mm.c\<close>, \<^verbatim>\<open>libs/ipc.c\<close> sends them
  messages and signals, \<^verbatim>\<open>drivers/uart/uart.c\<close> is the console, and \<^verbatim>\<open>libs/syscalls.c\<close> the interface
  for user code. \<^verbatim>\<open>libs/filesystem.c\<close> puts the mount point in front of paths and calls the library
  \<^verbatim>\<open>libs/fat32/fat.c\<close>, which reads and writes the blocks of the SD card through the driver
  \<^verbatim>\<open>drivers/sd/sd.c\<close>. \<^verbatim>\<open>kernel/kernel.c\<close> starts all this and creates the process that becomes \<^verbatim>\<open>user/user.c\<close>,
  which runs the shell \<^verbatim>\<open>app/shell.c\<close>; the shell runs the other programs of \<^verbatim>\<open>app/\<close>. User programs reach
  the kernel through the calls of \<^verbatim>\<open>common/user_syscalls.h\<close>.

  Theories and sources.
  \<^item> \<open>Kernel_Prelude\<close>: machine types, checked arrays, shared lemmas.
  \<^item> \<open>Process\<close>: the PCB and the structures of \<^verbatim>\<open>scheduler.h\<close>, the state of the scheduler.
  \<^item> \<open>Process_Queue\<close>: the linked ready queues, the relation \<open>queue_rep\<close> to lists, and the interfaces of
    a FIFO queue, of one with removal and of a sorted one, interpreted on the code's functions.
  \<^item> \<open>Scheduler\<close>: every operation of \<^verbatim>\<open>scheduler.c\<close>. \<open>Scheduler_Refinement\<close> has the selection functions as
    programs on lists, \<open>Scheduler_Invariant\<close> the invariant and the contract of a selection function
    (locale \<open>selector\<close>), which \<open>Selection_Queue\<close>, \<open>Selection_Multilevel\<close>, \<open>Selection_Lottery\<close> and
    \<open>Selection_Aging\<close> discharge; \<open>Scheduler_Operations\<close> has the other entry points.
  \<^item> \<open>Page_Memory\<close>, \<open>Page_Translation\<close>: frames and page tables of \<^verbatim>\<open>mm.c\<close>, and what the tables mean.
  \<^item> \<open>Fork\<close>, \<open>Messages\<close>, \<open>Uart\<close>, \<open>CString\<close>, \<open>Syscalls\<close>: \<^verbatim>\<open>fork.c\<close>, \<^verbatim>\<open>ipc.c\<close>, \<^verbatim>\<open>uart.c\<close>,
    \<^verbatim>\<open>common/string.c\<close> and \<^verbatim>\<open>syscalls.c\<close>.
  \<^item> \<open>Kernel_Run\<close>: one step per handler, the reachable states and their invariant.
  \<^item> \<open>Fat_Disk\<close>: the disk and the one-sector cache of a volume. \<open>Fat_Table\<close>: entries and chains.
    \<open>Fat_Names\<close>: names and time stamps. \<open>Fat_Directory\<close>: directories and paths. \<open>Fat_Walk\<close>: a directory as the
    list of its entries, one per \<open>slot\<close> of its chain, and the search as a function on it (\<open>lookup\<close>). \<open>Fat_Insert\<close>:
    what \<^verbatim>\<open>dir_add\<close> does to that list (\<open>room\<close>, \<open>with_entry\<close>). \<open>Fat_Lookup\<close>: \<open>lookup\<close> after it. \<open>Fat_Remove\<close>:
    \<^verbatim>\<open>remove_entries\<close> on that list (\<open>freed\<close>), and \<open>lookup\<close> after it. \<open>Fat_File\<close>: files.
    \<open>Filesystem\<close>: mounting, and \<^verbatim>\<open>libs/filesystem.c\<close>. \<open>File_Syscalls\<close>: the system calls on files and
    \<^verbatim>\<open>exec\<close>, with the descriptors of a process.
  \<^item> \<open>Device_Io\<close>: memory-mapped registers of a device that is a parameter, \<open>runs\<close> (a run returns, with a
    result that satisfies a predicate) and \<^verbatim>\<open>wait_msec\<close>. \<open>Sd_Card\<close>, \<open>Sd_Setup\<close>: \<^verbatim>\<open>sd.c\<close>. \<open>Sd_Transfer\<close>: its
    operations return on any device. \<open>Sd_Protocol\<close>: what a card does in answer to the registers, and
    transfers on such a card.
  \<^item> \<open>Platform\<close>: the mailbox, the set-up of the serial line, the timer and the interrupt controller.
    \<open>Framebuffer\<close>: text on the screen. \<open>Boot\<close>: \<^verbatim>\<open>kernel/kernel.c\<close>, which composes the drivers, the file
    system and the creation of a process.
  \<^item> \<open>Start\<close>: \<^verbatim>\<open>boot/start.S\<close>, with the page tables of the kernel and what the MMU makes of them. \<open>Exceptions\<close>:
    \<^verbatim>\<open>irq/entry.S\<close>, \<^verbatim>\<open>irq/vector.S\<close> and \<^verbatim>\<open>common/user_syscalls.S\<close> on the registers of the processor, and what the
    assembly relies on when it calls C code (locale \<open>c_function\<close>). \<open>Kernel_Calls\<close>: the dispatcher with the handlers
    of the calls on processes and memory, on the frame of the caller; whatever a program passes to them keeps
    the invariant of the kernel (\<open>kernel_dispatch_ok\<close>).
  \<^item> \<open>User_Calls\<close>: the system calls as a record \<open>calls\<close> of functions, and \<^verbatim>\<open>common/memory.S\<close>. \<open>Shell_Path\<close>:
    \<^verbatim>\<open>normalize_path\<close>, refined in two steps to the resolution of a list of components. \<open>Shell\<close>: the commands
    and the loop of \<^verbatim>\<open>app/shell.c\<close>. \<open>User_Programs\<close>: \<^verbatim>\<open>common/process_api.c\<close>, \<^verbatim>\<open>user/user.c\<close> and the small
    programs of \<^verbatim>\<open>app/\<close>. \<open>Shell_Runs\<close>: what every command keeps, whatever the calls do. \<open>Shell_Interface\<close>: the
    laws of the calls the shell rests on (locales \<open>console_calls\<close>, \<open>directory_calls\<close>) and the shell's lemmas under
    them. \<open>Shell_Kernel\<close>: the shell on the kernel's file calls (\<open>kernel_calls\<close>), which satisfy the laws.
  \<^item> \<open>Sample_States\<close>, \<open>Scheduler_Properties\<close>, \<open>Kernel_Properties\<close>, \<open>Fat_Properties\<close>, \<open>Directory_Properties\<close>,
    \<open>File_Call_Properties\<close>, \<open>Sd_Properties\<close>, \<open>User_Properties\<close>, \<open>Platform_Properties\<close>, \<open>Entry_Properties\<close>: the properties, each with a concrete input at which its hypotheses hold. C1 is below.

  What the lemmas show. The invariant of the scheduler (table, queues and states agree) holds in every
  reachable state; each selection function returns and picks the process its algorithm
  promises; dispatch, tick and exit lose no process, and a ZOMBIE never comes back (neither does a STOPPED process, although
  the documents say that RESUME resumes it). The page allocator and \<^verbatim>\<open>map_page\<close> change
  exactly what they should. Messages arrive in order while their ring has not wrapped; messages, console input and strings are described by exact results,
  the out-of-bounds cases included. For FAT32, \<open>content\<close> is the volume a reader sees through the cache:
  the cache operations keep it, writing an entry changes exactly that entry in both tables, deleting and
  growing chains change exactly the clusters they should and return, a directory behaves as a map from names
  to entries (a name added is found, a name removed is passed over, every other search is as before), synchronising brings the disk up to
  date, seeking follows the chain, and what is written is read back. The system calls on files use up
  descriptors, read from the start every time, and undo what a failed open did. The transfers of the SD
  driver return on every device whose clock runs, and on a card that follows the protocol
  (\<open>sdhc_behaves\<close>) they are the reads and writes of the disk the FAT library is modelled on. The
  interrupt handler returns on any device and keeps the invariants; what it interrupts does not notice.
  A system call returns to its caller with the result in \<^verbatim>\<open>x0\<close>, the child of a fork goes to user mode with 0
  there; a refused access would resume if its handler returned 0, but the kernel's never does. The tables of the start map exactly the first GB; start-up leaves
  the kernel in a reachable state; text is drawn pixel for pixel with a font eight pixels wide. The shell normalises paths to what their components
  mean and moves along them, as far as they fit into its array of 64 characters; on the kernel's calls its \<^verbatim>\<open>tree\<close> shows
  nothing, its \<^verbatim>\<open>write\<close> fails, and it runs out of descriptors.

  Conventions. A C execution without a defined result (NULL dereferenced, an array index out of
  bounds, a loop that never ends) is \<open>None\<close>; a loop the data decides is a \<open>partial_function\<close>, and
  a claim that it returns is proved as such, without fuel. Error codes are values: \<open>Inl\<close> of the code in
  the FAT library, integers elsewhere. Machine words keep their width; C's signed integers are \<open>int\<close>.
  What uninitialised memory holds is an argument (\<open>junk\<close>). The hardware is an argument (\<open>'d device\<close>), and
  so are the system calls of a user program.
  A failing disk transfer is an outcome the disk decides (\<open>faults\<close>) and leaves junk behind.

  Assumed of the surroundings. Each operation runs without being interrupted; what other processes
  do while a call blocks, the values of the timer register and the characters that arrive are
  arguments. Hypotheses of the FAT properties name what a formatted volume provides: tables, FSInfo and
  data do not overlap (\<open>layout_ok\<close>), the chain of a file is intact (\<open>fat_chain\<close>), transfers succeed
  (\<open>no_faults\<close>) where a result depends on it.

  Not modelled, because the state of the model does not have it: the time that \<^verbatim>\<open>delay\<close> and the busy wait of
  \<^verbatim>\<open>uart_putc\<close> take, barriers, caches and the TLB, and the register with the address of the vectors. The C functions
  between entry and exit are their models, compiled to the calling convention (\<open>compiled\<close>), with whatever they
  leave in the other registers as an argument; the registers after a context switch are assumed as \<^verbatim>\<open>cpu_switch_to_process\<close>
  loads them (\<open>switched_to\<close>). Virtual addresses are canonical. Counters of blocks in the SD driver are natural numbers. In the user programs, the memory of a process is the arrays a
  function has; the code of a program that \<^verbatim>\<open>exec\<close> loads is not linked to its model here.
\<close>

unbundle bit_operations_syntax

text \<open>C1: every reachable state of the kernel is well formed.\<close>

theorem reachable_well_formed:
  assumes "reachable k"
  shows "well_formed (sched k) \<and> pcb_pages_ok k"
  using reachable_ok [OF assms] by (simp add: kernel_ok_def)

theorem reachable_well_formed_witness:
  "\<exists>k. reachable k \<and> n_processes (sched k) = 2 \<and> well_formed (sched k)"
proof -
  have "n_processes (sched boot_kernel) < int N_PROCESSES"
    "PF_KTHREAD AND PF_KTHREAD \<noteq> 0 \<or> n_user_pages (mm (heap (sched boot_kernel) (current_process (sched boot_kernel)))) = 0"
    by (simp_all add: boot_kernel_ok N_PROCESSES_def PF_KTHREAD_def)
  from copy_process_created [OF boot_kernel_ok(1-3) this, of 0 "0x80000" 1] obtain k where
    k: "copy_process 0 PF_KTHREAD 0x80000 1 boot_kernel = Some (1, k)" "n_processes (sched k) = 2"
    using boot_kernel_ok(4) by auto
  have "reachable boot_kernel" unfolding boot_kernel_def by (rule reachable.start)
  then have "reachable k" by (rule reachable.step) (rule kernel_step.create [OF k(1)])
  then show ?thesis using reachable_well_formed [of k] k(2) by blast
qed

end
